(* ===== verification/Prelude.thy ===== *)
theory Prelude imports Main "HOL-Library.Char_ord"
begin

text \<open>
  Generic vocabulary shared by the component theories: Go strings and byte
  slices as \<^typ>\<open>string\<close> (one \<^typ>\<open>char\<close> per byte), slicing, the
  uninterpreted rendering of \<open>fmt.Sprintf\<close>, and list lemmas.
\<close>

named_theorems advance_simps \<open>how far an operation of the lexer moves the read offset\<close>
named_theorems keep_intros \<open>operations that keep an invariant\<close>

section \<open>Bytes and slices\<close>

type_synonym bytes = string

text \<open>The numeric value of a byte, for the comparisons and masks of the source.\<close>

definition byte :: "char \<Rightarrow> nat" where
  "byte c = of_char c"

lemma byte_less [simp]: "byte c < 256"
  by (simp add: byte_def)

lemma byte_inj: "byte c = byte d \<longleftrightarrow> c = d"
  by (simp add: byte_def)

abbreviation LF :: char where "LF \<equiv> CHR 0x0A"
abbreviation CR :: char where "CR \<equiv> CHR 0x0D"
abbreviation TAB :: char where "TAB \<equiv> CHR 0x09"
abbreviation SPACE :: char where "SPACE \<equiv> CHR 0x20"
abbreviation BACKSLASH :: char where "BACKSLASH \<equiv> CHR 0x5C"
abbreviation DQUOTE :: char where "DQUOTE \<equiv> CHR 0x22"
abbreviation SQUOTE :: char where "SQUOTE \<equiv> CHR 0x27"

text \<open>Go's slice expression \<open>s[i:j]\<close>, for \<open>i \<le> j \<le> len(s)\<close>.\<close>

definition slice :: "nat \<Rightarrow> nat \<Rightarrow> 'a list \<Rightarrow> 'a list" where
  "slice i j s = take (j - i) (drop i s)"

lemma length_slice [simp]: "length (slice i j s) = min (j - i) (length s - i)"
  by (simp add: slice_def)

lemma slice_same [simp]: "slice i i s = []"
  by (simp add: slice_def)

lemma slice_append:
  assumes "i \<le> j" "j \<le> k"
  shows "slice i j s @ slice j k s = slice i k s"
proof -
  have "k - i = (j - i) + (k - j)" using assms by simp
  then have "take (k - i) (drop i s) = take (j - i) (drop i s) @ take (k - j) (drop (j - i) (drop i s))"
    by (simp add: take_add)
  then show ?thesis using assms by (simp add: slice_def)
qed

lemma slice_Suc: "i < length s \<Longrightarrow> slice i (Suc i) s = [s ! i]"
  by (simp add: slice_def Suc_diff_le take_Suc_conv_app_nth hd_drop_conv_nth take_Suc)

lemma slice_full [simp]: "slice 0 (length s) s = s"
  by (simp add: slice_def)

lemma set_slice_subset: "set (slice i j s) \<subseteq> set s"
  by (auto simp: slice_def dest: in_set_takeD in_set_dropD)

lemma map_of_swap:
  assumes "distinct (map fst xs)" "distinct (map snd xs)"
  shows "map_of (map (\<lambda>(a, b). (b, a)) xs) k = Some t \<longleftrightarrow> map_of xs t = Some k"
proof -
  have "distinct (map fst (map (\<lambda>(a, b). (b, a)) xs))"
    using assms(2) by (simp add: comp_def case_prod_beta')
  then show ?thesis using assms(1) by (auto simp: map_of_eq_Some_iff)
qed

text \<open>A loop whose body may fail.\<close>

fun fold_option :: "('a \<Rightarrow> 's \<Rightarrow> 's option) \<Rightarrow> 'a list \<Rightarrow> 's \<Rightarrow> 's option" where
  "fold_option f [] s = Some s"
| "fold_option f (x # xs) s = (case f x s of None \<Rightarrow> None | Some t \<Rightarrow> fold_option f xs t)"

lemma fold_option_Some: "(\<And>x s. x \<in> set xs \<Longrightarrow> f x s = Some (g x s)) \<Longrightarrow> fold_option f xs s = Some (fold g xs s)"
  by (induction xs arbitrary: s) auto

section \<open>Messages\<close>

text \<open>
  A diagnostic message is kept as its format string and its arguments; the
  rendering of \<open>fmt.Sprintf\<close> (quoting with \<open>%q\<close>) is not modelled.
\<close>

datatype message = Sprintf string "string list"

end
