(* ===== verification/Token.thy ===== *)
theory Token imports Prelude
begin

text \<open>
  The token data of \<open>syntax/lexer.go\<close>: token kinds, the keyword table, tokens,
  errors, and the index helpers \<open>PrevReal\<close> and \<open>NextReal\<close> that skip comments.
\<close>

section \<open>Token kinds\<close>

datatype TokenKind =
    TokenInvalid
  | TokenEOF
  | TokenIdentifier
  | TokenIntConstant
  | TokenDoubleConstant
  | TokenStringLiteral
  | TokenInclude
  | TokenCPPInclude
  | TokenCPPType
  | TokenNamespace
  | TokenStruct
  | TokenUnion
  | TokenException
  | TokenService
  | TokenEnum
  | TokenConst
  | TokenTypedef
  | TokenOneway
  | TokenAsync
  | TokenThrows
  | TokenExtends
  | TokenRequired
  | TokenOptional
  | TokenVoid
  | TokenBool
  | TokenByte
  | TokenI8
  | TokenI16
  | TokenI32
  | TokenI64
  | TokenDouble
  | TokenString
  | TokenBinary
  | TokenSlist
  | TokenUUID
  | TokenMap
  | TokenList
  | TokenSet
  | TokenTrue
  | TokenFalse
  | TokenLBrace
  | TokenRBrace
  | TokenLParen
  | TokenRParen
  | TokenLBracket
  | TokenRBracket
  | TokenLt
  | TokenGt
  | TokenComma
  | TokenSemicolon
  | TokenColon
  | TokenEqual
  | TokenStar
  | TokenAmp
  | TokenLineComment
  | TokenBlockComment
  | TokenDocComment
  | TokenAt

definition keyword_table :: "(string \<times> TokenKind) list" where
  "keyword_table =
    [(''include'', TokenInclude),
     (''cpp_include'', TokenCPPInclude),
     (''cpp_type'', TokenCPPType),
     (''namespace'', TokenNamespace),
     (''struct'', TokenStruct),
     (''union'', TokenUnion),
     (''exception'', TokenException),
     (''service'', TokenService),
     (''enum'', TokenEnum),
     (''const'', TokenConst),
     (''typedef'', TokenTypedef),
     (''oneway'', TokenOneway),
     (''async'', TokenAsync),
     (''throws'', TokenThrows),
     (''extends'', TokenExtends),
     (''required'', TokenRequired),
     (''optional'', TokenOptional),
     (''void'', TokenVoid),
     (''bool'', TokenBool),
     (''byte'', TokenByte),
     (''i8'', TokenI8),
     (''i16'', TokenI16),
     (''i32'', TokenI32),
     (''i64'', TokenI64),
     (''double'', TokenDouble),
     (''string'', TokenString),
     (''binary'', TokenBinary),
     (''slist'', TokenSlist),
     (''uuid'', TokenUUID),
     (''map'', TokenMap),
     (''list'', TokenList),
     (''set'', TokenSet),
     (''true'', TokenTrue),
     (''false'', TokenFalse)]"

text \<open>\<open>keywordKinds\<close> and its inverse \<open>keywordNames\<close>.\<close>

definition keywordKinds :: "string \<Rightarrow> TokenKind option" where
  "keywordKinds text = map_of keyword_table text"

definition keywordNames :: "TokenKind \<Rightarrow> string option" where
  "keywordNames k = map_of (map (\<lambda>(text, kind). (kind, text)) keyword_table) k"

definition IsKeyword :: "TokenKind \<Rightarrow> bool" where
  "IsKeyword k \<longleftrightarrow> keywordNames k \<noteq> None"

definition IsTypeKeyword :: "TokenKind \<Rightarrow> bool" where
  "IsTypeKeyword k \<longleftrightarrow> k \<in> {TokenMap, TokenList, TokenSet, TokenVoid,
     TokenBool, TokenByte, TokenI8, TokenI16, TokenI32, TokenI64,
     TokenDouble, TokenString, TokenBinary, TokenSlist, TokenUUID}"

definition IsComment :: "TokenKind \<Rightarrow> bool" where
  "IsComment k \<longleftrightarrow> k \<in> {TokenLineComment, TokenBlockComment, TokenDocComment}"

definition tokenKindNames :: "TokenKind \<Rightarrow> string option" where
  "tokenKindNames k = map_of
    [(TokenInvalid, ''invalid''), (TokenEOF, ''eof''),
     (TokenIdentifier, ''identifier''), (TokenIntConstant, ''int''),
     (TokenDoubleConstant, ''double''), (TokenStringLiteral, ''string''),
     (TokenLBrace, ''{''), (TokenRBrace, ''}''), (TokenLParen, ''(''), (TokenRParen, '')''),
     (TokenLBracket, ''[''), (TokenRBracket, '']''), (TokenLt, ''<''), (TokenGt, ''>''),
     (TokenComma, '',''), (TokenSemicolon, '';''), (TokenColon, '':''), (TokenEqual, ''=''),
     (TokenStar, ''*''), (TokenAmp, ''&''),
     (TokenLineComment, ''line comment''), (TokenBlockComment, ''block comment''),
     (TokenDocComment, ''doc comment''), (TokenAt, ''@'')] k"

text \<open>
  \<open>TokenKind.String\<close>. The last branch of the source, \<open>TokenKind(%d)\<close>, is for
  values outside the declared constants, which the datatype does not have:
  \<open>TokenKind_String_total\<close> below shows that it is never taken.
\<close>

definition TokenKind_String :: "TokenKind \<Rightarrow> string" where
  "TokenKind_String k =
     (case keywordNames k of
        Some name \<Rightarrow> name
      | None \<Rightarrow> (case tokenKindNames k of Some name \<Rightarrow> name | None \<Rightarrow> ''TokenKind''))"

lemma TokenKind_String_total: "keywordNames k \<noteq> None \<or> tokenKindNames k \<noteq> None"
  by (cases k) (simp_all add: keywordNames_def tokenKindNames_def keyword_table_def)

section \<open>Tokens and errors\<close>

record Token =
  tkKind :: TokenKind
  tkText :: bytes
  tkOffset :: nat
  tkLine :: nat
  tkCol :: nat
  tkBlankLinesBefore :: nat

datatype Severity = SeverityError | SeverityWarning

record Error =
  erMessage :: message
  erOffset :: nat
  erLine :: nat
  erCol :: nat
  erSeverity :: Severity

section \<open>Skipping comments\<close>

text \<open>
  An index expression \<open>toks[i]\<close> with \<open>i\<close> out of range panics in Go:
  \<open>PrevReal\<close> returns \<^const>\<open>None\<close> for it. The index is a Go \<open>int\<close>, and -1 is
  its answer when no real token precedes.
\<close>

function PrevReal :: "Token list \<Rightarrow> int \<Rightarrow> int option" where
  "PrevReal toks i =
     (if i < 0 then Some i
      else if int (length toks) \<le> i then None
      else if IsComment (tkKind (toks ! nat i)) then PrevReal toks (i - 1)
      else Some i)"
  by pat_completeness auto
termination
  by (relation "measure (\<lambda>(toks, i). nat (i + 1))") auto

function NextReal :: "Token list \<Rightarrow> nat \<Rightarrow> nat" where
  "NextReal toks i =
     (if i < length toks \<and> IsComment (tkKind (toks ! i)) then NextReal toks (Suc i) else i)"
  by pat_completeness auto
termination
  by (relation "measure (\<lambda>(toks, i). length toks - i)") auto

declare PrevReal.simps [simp del] NextReal.simps [simp del]

section \<open>Facts\<close>

lemma keyword_table_distinct:
  "distinct (map fst keyword_table)" "distinct (map snd keyword_table)"
  by (simp_all add: keyword_table_def)

lemma keyword_iff: "keywordNames k = Some text \<longleftrightarrow> keywordKinds text = Some k"
  unfolding keywordNames_def keywordKinds_def
  by (rule map_of_swap) (rule keyword_table_distinct)+

lemma keyword_not_plain:
  "keywordKinds text = Some k \<Longrightarrow> \<not> IsComment k \<and> k \<notin> {TokenInvalid, TokenEOF, TokenIdentifier}"
  by (auto simp: keywordKinds_def keyword_table_def IsComment_def split: if_splits)

lemma NextReal_ge [simp]: "i \<le> NextReal toks i"
proof (induction toks i rule: NextReal.induct)
  case (1 toks i)
  then show ?case by (subst NextReal.simps) (auto simp: Suc_le_eq)
qed

lemma NextReal_real:
  "NextReal toks i < length toks \<Longrightarrow> \<not> IsComment (tkKind (toks ! NextReal toks i))"
proof (induction toks i rule: NextReal.induct)
  case (1 toks i)
  then show ?case by (cases "i < length toks \<and> IsComment (tkKind (toks ! i))")
      (simp_all add: NextReal.simps[of toks i])
qed

lemma NextReal_skips:
  "i \<le> j \<Longrightarrow> j < NextReal toks i \<Longrightarrow> j < length toks \<and> IsComment (tkKind (toks ! j))"
proof (induction toks i rule: NextReal.induct)
  case (1 toks i)
  show ?case
  proof (cases "i < length toks \<and> IsComment (tkKind (toks ! i))")
    case True
    then show ?thesis using 1 by (cases "j = i") (auto simp: NextReal.simps[of toks i])
  next
    case False
    then show ?thesis using 1 by (auto simp: NextReal.simps[of toks i])
  qed
qed

lemma NextReal_same: "i < length toks \<Longrightarrow> \<not> IsComment (tkKind (toks ! i)) \<Longrightarrow> NextReal toks i = i"
  by (subst NextReal.simps) simp

lemma NextReal_le:
  assumes "i \<le> j" "j < length toks" "\<not> IsComment (tkKind (toks ! j))"
  shows "NextReal toks i \<le> j"
  using assms NextReal_skips[of i j toks] by (meson not_le)

lemma NextReal_idem [simp]: "NextReal toks (NextReal toks i) = NextReal toks i"
proof (cases "NextReal toks i < length toks")
  case True
  then show ?thesis by (simp add: NextReal_same NextReal_real)
next
  case False
  then show ?thesis by (subst (1) NextReal.simps) simp
qed

end
