(* ===== verification/Utf8.thy ===== *)
theory Utf8 imports Prelude
begin

text \<open>
  The part of Go's \<open>unicode/utf8\<close> package that the program uses:
  \<open>DecodeRune\<close>, \<open>RuneCount\<close> and \<open>RuneStart\<close>, from the documented
  table of well-formed sequences (no overlong forms, no surrogates, at most
  U+10FFFF). An ill-formed sequence decodes as U+FFFD of width one, the
  empty string as U+FFFD of width zero.
\<close>

definition rune_error :: nat where
  "rune_error = 0xFFFD"

definition rune_self :: nat where
  "rune_self = 0x80"

text \<open>A continuation byte, and its payload.\<close>

definition cont_byte :: "nat \<Rightarrow> bool" where
  "cont_byte b \<longleftrightarrow> 0x80 \<le> b \<and> b \<le> 0xBF"

definition rune_start :: "char \<Rightarrow> bool" where
  "rune_start c \<longleftrightarrow> \<not> cont_byte (byte c)"

text \<open>Sequence length and the range of the second byte, by the first byte.\<close>

definition lead_info :: "nat \<Rightarrow> (nat \<times> nat \<times> nat) option" where
  "lead_info b =
     (if 0xC2 \<le> b \<and> b \<le> 0xDF then Some (2, 0x80, 0xBF)
      else if b = 0xE0 then Some (3, 0xA0, 0xBF)
      else if b = 0xED then Some (3, 0x80, 0x9F)
      else if 0xE1 \<le> b \<and> b \<le> 0xEF then Some (3, 0x80, 0xBF)
      else if b = 0xF0 then Some (4, 0x90, 0xBF)
      else if 0xF1 \<le> b \<and> b \<le> 0xF3 then Some (4, 0x80, 0xBF)
      else if b = 0xF4 then Some (4, 0x80, 0x8F)
      else None)"

definition decode_rune :: "bytes \<Rightarrow> nat \<times> nat" where
  "decode_rune s =
     (case s of
        [] \<Rightarrow> (rune_error, 0)
      | c0 # rest \<Rightarrow>
          (let b0 = byte c0 in
           if b0 < rune_self then (b0, 1)
           else (case lead_info b0 of
               None \<Rightarrow> (rune_error, 1)
             | Some (n, lo, hi) \<Rightarrow>
                 if length s < n then (rune_error, 1)
                 else
                   (let b1 = byte (s ! 1) in
                    if b1 < lo \<or> hi < b1 then (rune_error, 1)
                    else if n = 2 then ((b0 mod 32) * 64 + b1 mod 64, 2)
                    else
                      (let b2 = byte (s ! 2) in
                       if \<not> cont_byte b2 then (rune_error, 1)
                       else if n = 3 then ((b0 mod 16) * 4096 + (b1 mod 64) * 64 + b2 mod 64, 3)
                       else
                         (let b3 = byte (s ! 3) in
                          if \<not> cont_byte b3 then (rune_error, 1)
                          else ((b0 mod 8) * 262144 + (b1 mod 64) * 4096 + (b2 mod 64) * 64 + b3 mod 64, 4)))))))"

abbreviation rune_size :: "bytes \<Rightarrow> nat" where
  "rune_size s \<equiv> snd (decode_rune s)"

lemma rune_size_pos: "s \<noteq> [] \<Longrightarrow> 1 \<le> rune_size s"
  by (auto simp: decode_rune_def Let_def split: list.splits option.splits)

lemma lead_info_SomeD:
  "lead_info b = Some (n, lo, hi) \<Longrightarrow> n \<in> {2, 3, 4} \<and> 0x80 \<le> lo \<and> hi \<le> 0xBF"
  by (auto simp: lead_info_def split: if_splits)

lemma rune_size_pos': "s \<noteq> [] \<Longrightarrow> 0 < rune_size s"
  using rune_size_pos[of s] by simp

lemma rune_size_le: "rune_size s \<le> length s"
  by (auto simp: decode_rune_def Let_def Suc_le_eq split: list.splits option.splits dest!: lead_info_SomeD)

lemma rune_size_Nil [simp]: "rune_size [] = 0"
  by (simp add: decode_rune_def)

lemma decode_rune_ascii:
  "s \<noteq> [] \<Longrightarrow> byte (hd s) < rune_self \<Longrightarrow> decode_rune s = (byte (hd s), 1)"
  by (cases s) (auto simp: decode_rune_def)

lemma rune_size_ascii [simp]: "byte c < rune_self \<Longrightarrow> rune_size (c # s) = 1"
  by (simp add: decode_rune_def)

text \<open>All the bytes after the first of a decoded rune are continuation bytes.\<close>

lemma rune_size_cont:
  assumes "0 < k" "k < rune_size s"
  shows "cont_byte (byte (s ! k))"
proof -
  have "k = 1 \<or> k = 2 \<or> k = 3"
    using assms by (auto simp: decode_rune_def Let_def split: list.splits option.splits if_splits)
  then show ?thesis
    using assms by (auto simp: decode_rune_def Let_def cont_byte_def
        split: list.splits option.splits if_splits dest!: lead_info_SomeD)
qed

text \<open>
  A byte outside ASCII never decodes to an ASCII rune: overlong forms are
  rejected by the range of the second byte.
\<close>

lemma mod_block:
  assumes "q * n \<le> b" "b < q * n + (n::nat)"
  shows "b mod n = b - q * n"
proof -
  have "b mod n = ((b - q * n) + q * n) mod n" using assms by simp
  also have "\<dots> = b - q * n" using assms by (simp only: mod_mult_self1) simp
  finally show ?thesis .
qed

lemma mod16_pos: "224 < b \<Longrightarrow> b < 240 \<Longrightarrow> 1 \<le> b mod (16::nat)"
  using mod_block[of 14 16 b] by simp

lemma mod8_pos: "240 < b \<Longrightarrow> b < 248 \<Longrightarrow> 1 \<le> b mod (8::nat)"
  using mod_block[of 30 8 b] by simp

lemma mod32_ge: "194 \<le> b \<Longrightarrow> b < 224 \<Longrightarrow> 2 \<le> b mod (32::nat)"
  using mod_block[of 6 32 b] by simp

lemma lead2_range: "lead_info b = Some (2, lo, hi) \<Longrightarrow> 2 \<le> b mod 32"
  by (rule mod32_ge) (simp_all add: lead_info_def split: if_splits)

lemma lead3_range: "lead_info b = Some (3, lo, hi) \<Longrightarrow> b = 0xE0 \<and> lo = 0xA0 \<or> 1 \<le> b mod 16"
  by (cases "b = 0xE0") (simp add: lead_info_def, rule disjI2, rule mod16_pos,
      simp_all add: lead_info_def split: if_splits)

lemma lead4_range: "lead_info b = Some (4, lo, hi) \<Longrightarrow> b = 0xF0 \<and> lo = 0x90 \<or> 1 \<le> b mod 8"
  by (cases "b = 0xF0") (simp add: lead_info_def, rule disjI2, rule mod8_pos,
      simp_all add: lead_info_def split: if_splits)

lemma second_byte_payload:
  assumes "lo \<le> b" "b \<le> (0xBF::nat)" "0x80 \<le> lo"
  shows "lo - 0x80 \<le> b mod 64"
  using mod_block[of 2 64 b] assms by simp

lemma decode_rune_high:
  assumes "\<not> byte c < rune_self"
  shows "rune_self \<le> fst (decode_rune (c # s))"
proof (cases "lead_info (byte c)")
  case None
  then show ?thesis using assms by (simp add: decode_rune_def Let_def rune_error_def rune_self_def)
next
  case (Some t)
  obtain n lo hi where t: "t = (n, lo, hi)" by (cases t) auto
  note L = Some[unfolded t]
  have n: "n \<in> {2, 3, 4}" and lo: "0x80 \<le> lo" and hi: "hi \<le> 0xBF"
    using lead_info_SomeD[OF L] by auto
  have pay: "lo - 0x80 \<le> byte ((c # s) ! 1) mod 64"
    if "\<not> (byte ((c # s) ! 1) < lo \<or> hi < byte ((c # s) ! 1))"
    using second_byte_payload[of lo "byte ((c # s) ! 1)"] that lo hi by simp
  consider "n = 2" | "n = 3" | "n = 4" using n by auto
  then show ?thesis
  proof cases
    case 1
    then show ?thesis using assms L lead2_range[of "byte c" lo hi]
      by (simp add: decode_rune_def Let_def rune_error_def rune_self_def)
  next
    case 2
    then show ?thesis using assms L pay lead3_range[of "byte c" lo hi]
      by (auto simp: decode_rune_def Let_def rune_error_def rune_self_def)
  next
    case 3
    then show ?thesis using assms L pay lead4_range[of "byte c" lo hi]
      by (auto simp: decode_rune_def Let_def rune_error_def rune_self_def)
  qed
qed

lemma decode_rune_low:
  assumes "fst (decode_rune (c # s)) < rune_self"
  shows "byte c < rune_self" and "decode_rune (c # s) = (byte c, 1)"
proof -
  show c: "byte c < rune_self" using decode_rune_high[of c s] assms by force
  show "decode_rune (c # s) = (byte c, 1)" using c by (simp add: decode_rune_def)
qed

function rune_count :: "bytes \<Rightarrow> nat" where
  "rune_count s = (if s = [] then 0 else Suc (rune_count (drop (rune_size s) s)))"
  by pat_completeness auto
termination
  by (relation "measure length") (auto simp: rune_size_pos')

declare rune_count.simps [simp del]

lemma rune_count_Nil [simp]: "rune_count [] = 0"
  by (simp add: rune_count.simps)

lemma rune_count_step: "s \<noteq> [] \<Longrightarrow> rune_count s = Suc (rune_count (drop (rune_size s) s))"
  by (subst rune_count.simps) simp

lemma rune_count_le: "rune_count s \<le> length s"
proof (induction s rule: rune_count.induct)
  case (1 s)
  show ?case
  proof (cases "s = []")
    case False
    then show ?thesis using 1 rune_size_pos[of s] rune_size_le[of s] by (simp add: rune_count_step)
  qed simp
qed

end
