(* ===== verification/Lexer.thy ===== *)
theory Lexer imports Token Utf8 "HOL-Library.Sublist"
begin

text \<open>
  The lexer of \<open>syntax/lexer.go\<close>: the state of \<open>type lexer\<close> as a record, one
  function per method, loops as recursion on the unread input. Source order of
  the methods is reversed (callees first). \<open>lxPanic\<close> is set where the Go code
  would index or slice out of range; \<open>LexerProps\<close> proves it stays false.
\<close>

section \<open>Byte classes\<close>

definition isWhitespace :: "char \<Rightarrow> bool" where
  "isWhitespace c \<longleftrightarrow> c = SPACE \<or> c = TAB \<or> c = LF \<or> c = CR"

definition isDigit :: "char \<Rightarrow> bool" where
  "isDigit c \<longleftrightarrow> CHR ''0'' \<le> c \<and> c \<le> CHR ''9''"

definition isHexDigit :: "char \<Rightarrow> bool" where
  "isHexDigit c \<longleftrightarrow> isDigit c \<or> (CHR ''a'' \<le> c \<and> c \<le> CHR ''f'') \<or> (CHR ''A'' \<le> c \<and> c \<le> CHR ''F'')"

definition isIdentStart :: "char \<Rightarrow> bool" where
  "isIdentStart c \<longleftrightarrow> (CHR ''a'' \<le> c \<and> c \<le> CHR ''z'') \<or> (CHR ''A'' \<le> c \<and> c \<le> CHR ''Z'') \<or> c = CHR ''_''"

definition isIdentPart :: "char \<Rightarrow> bool" where
  "isIdentPart c \<longleftrightarrow> isIdentStart c \<or> isDigit c"

definition symbolKinds :: "char \<Rightarrow> TokenKind option" where
  "symbolKinds c = map_of
    [(CHR ''{'', TokenLBrace), (CHR ''}'', TokenRBrace),
     (CHR ''('', TokenLParen), (CHR '')'', TokenRParen),
     (CHR ''['', TokenLBracket), (CHR '']'', TokenRBracket),
     (CHR ''<'', TokenLt), (CHR ''>'', TokenGt),
     (CHR '','', TokenComma), (CHR '';'', TokenSemicolon),
     (CHR '':'', TokenColon), (CHR ''='', TokenEqual),
     (CHR ''@'', TokenAt)] c"

section \<open>State\<close>

record lexer =
  lxSrc :: bytes
  lxOff :: nat
  lxLine :: nat
  lxCol :: nat
  lxErrs :: "Error list"
  lxPanic :: bool

record srcPos =
  spOffset :: nat
  spLine :: nat
  spCol :: nat

definition lex_pos :: "lexer \<Rightarrow> srcPos" where
  "lex_pos l = \<lparr>spOffset = lxOff l, spLine = lxLine l, spCol = lxCol l\<rparr>"

text \<open>\<open>l.off < len(l.src)\<close>, the byte at the read offset, and \<open>peekByte\<close>.\<close>

definition has_more :: "lexer \<Rightarrow> bool" where
  "has_more l \<longleftrightarrow> lxOff l < length (lxSrc l)"

definition cur_byte :: "lexer \<Rightarrow> char" where
  "cur_byte l = lxSrc l ! lxOff l"

definition peekByte :: "lexer \<Rightarrow> nat \<Rightarrow> char" where
  "peekByte l ahead =
     (if length (lxSrc l) \<le> lxOff l + ahead then CHR 0x00 else lxSrc l ! (lxOff l + ahead))"

definition errorf :: "message \<Rightarrow> lexer \<Rightarrow> lexer" where
  "errorf m l = l\<lparr>lxErrs := lxErrs l @
     [\<lparr>erMessage = m, erOffset = lxOff l, erLine = lxLine l, erCol = lxCol l, erSeverity = SeverityError\<rparr>]\<rparr>"

definition errorfAt :: "srcPos \<Rightarrow> message \<Rightarrow> lexer \<Rightarrow> lexer" where
  "errorfAt p m l = l\<lparr>lxErrs := lxErrs l @
     [\<lparr>erMessage = m, erOffset = spOffset p, erLine = spLine p, erCol = spCol p, erSeverity = SeverityError\<rparr>]\<rparr>"

text \<open>One byte, tracking line and column; a \<open>\r\<close> before \<open>\n\<close> leaves both alone.\<close>

definition advanceByte :: "lexer \<Rightarrow> lexer" where
  "advanceByte l =
     (if \<not> has_more l then l\<lparr>lxPanic := True\<rparr>
      else
        (let c = cur_byte l;
             l1 = (if c = LF then l\<lparr>lxLine := lxLine l + 1, lxCol := 1\<rparr>
                   else if c = CR then
                     (if length (lxSrc l) \<le> lxOff l + 1 \<or> lxSrc l ! (lxOff l + 1) \<noteq> LF
                      then l\<lparr>lxLine := lxLine l + 1, lxCol := 1\<rparr> else l)
                   else l\<lparr>lxCol := lxCol l + 1\<rparr>)
         in l1\<lparr>lxOff := lxOff l + 1\<rparr>))"

text \<open>One rune.\<close>

definition advanceRune :: "lexer \<Rightarrow> lexer" where
  "advanceRune l =
     (if length (lxSrc l) < lxOff l then l\<lparr>lxPanic := True\<rparr>
      else
        (let (r, size) = decode_rune (drop (lxOff l) (lxSrc l));
             l1 = (if r = byte LF then l\<lparr>lxLine := lxLine l + 1, lxCol := 1\<rparr>
                   else if r = byte CR then
                     (if length (lxSrc l) \<le> lxOff l + size \<or> lxSrc l ! (lxOff l + size) \<noteq> LF
                      then l\<lparr>lxLine := lxLine l + 1, lxCol := 1\<rparr> else l)
                   else l\<lparr>lxCol := lxCol l + 1\<rparr>)
         in l1\<lparr>lxOff := lxOff l + size\<rparr>))"

text \<open>A token from \<open>start\<close> up to the read offset.\<close>

definition finish :: "TokenKind \<Rightarrow> srcPos \<Rightarrow> lexer \<Rightarrow> Token" where
  "finish kind start l =
     \<lparr>tkKind = kind, tkText = slice (spOffset start) (lxOff l) (lxSrc l), tkOffset = spOffset start,
      tkLine = spLine start, tkCol = spCol start, tkBlankLinesBefore = 0\<rparr>"

section \<open>How far the primitive steps move\<close>

lemma advanceByte_simps [simp, advance_simps]:
  "lxSrc (advanceByte l) = lxSrc l"
  "lxErrs (advanceByte l) = lxErrs l"
  "has_more l \<Longrightarrow> lxOff (advanceByte l) = Suc (lxOff l)"
  "has_more l \<Longrightarrow> lxPanic (advanceByte l) = lxPanic l"
  by (auto simp: advanceByte_def Let_def)

lemma advanceByte_ge [simp]: "lxOff l \<le> lxOff (advanceByte l)"
  by (cases "has_more l") (auto simp: advanceByte_def Let_def)

lemma advanceRune_simps [simp, advance_simps]:
  "lxSrc (advanceRune l) = lxSrc l"
  "lxErrs (advanceRune l) = lxErrs l"
  "has_more l \<Longrightarrow> lxOff (advanceRune l) = lxOff l + rune_size (drop (lxOff l) (lxSrc l))"
  "has_more l \<Longrightarrow> lxPanic (advanceRune l) = lxPanic l"
  by (auto simp: advanceRune_def Let_def has_more_def split: prod.splits)

lemma advanceRune_bounds:
  assumes "has_more l"
  shows "lxOff l < lxOff (advanceRune l)" "lxOff (advanceRune l) \<le> length (lxSrc l)"
  using assms rune_size_pos'[of "drop (lxOff l) (lxSrc l)"] rune_size_le[of "drop (lxOff l) (lxSrc l)"]
  by (auto simp: has_more_def)

lemma rune_size_cur [simp]: "has_more l \<Longrightarrow> 0 < rune_size (drop (lxOff l) (lxSrc l))"
  by (simp add: has_more_def rune_size_pos')

lemma errorf_simps [simp]:
  "lxSrc (errorf m l) = lxSrc l" "lxOff (errorf m l) = lxOff l" "lxLine (errorf m l) = lxLine l"
  "lxCol (errorf m l) = lxCol l" "lxPanic (errorf m l) = lxPanic l" "has_more (errorf m l) = has_more l"
  "cur_byte (errorf m l) = cur_byte l"
  by (simp_all add: errorf_def has_more_def cur_byte_def)

lemma errorfAt_simps [simp]:
  "lxSrc (errorfAt p m l) = lxSrc l" "lxOff (errorfAt p m l) = lxOff l"
  "lxLine (errorfAt p m l) = lxLine l" "lxCol (errorfAt p m l) = lxCol l"
  "lxPanic (errorfAt p m l) = lxPanic l" "has_more (errorfAt p m l) = has_more l"
  by (simp_all add: errorfAt_def has_more_def)

text \<open>The unread bytes, the measure of every loop.\<close>

definition unread :: "lexer \<Rightarrow> nat" where
  "unread l = length (lxSrc l) - lxOff l"

lemma unread_advanceByte [simp]: "has_more l \<Longrightarrow> unread (advanceByte l) < unread l"
  by (simp add: unread_def has_more_def)

lemma unread_advanceByte_le [simp]: "unread (advanceByte l) \<le> unread l"
  by (simp add: unread_def diff_le_mono2)

lemma unread_advanceRune [simp]: "has_more l \<Longrightarrow> unread (advanceRune l) < unread l"
  unfolding unread_def advanceRune_simps(1) has_more_def
  by (rule diff_less_mono2[OF advanceRune_bounds(1)]) (simp_all add: has_more_def)

section \<open>Trivia\<close>

definition blankLinesBefore :: "nat \<Rightarrow> nat" where
  "blankLinesBefore newlines = (if 0 < newlines then newlines - 1 else 0)"

function scanWhitespace_loop :: "nat \<Rightarrow> lexer \<Rightarrow> nat \<times> lexer" where
  "scanWhitespace_loop newlines l =
     (if has_more l then
        (if cur_byte l = LF then scanWhitespace_loop (newlines + 1) (advanceByte l)
         else if cur_byte l = CR then
           (let l1 = advanceByte l in
            scanWhitespace_loop (newlines + 1)
              (if has_more l1 \<and> cur_byte l1 = LF then advanceByte l1 else l1))
         else if cur_byte l = SPACE \<or> cur_byte l = TAB then scanWhitespace_loop newlines (advanceByte l)
         else (blankLinesBefore newlines, l))
      else (blankLinesBefore newlines, l))"
  by pat_completeness auto
termination
  by (relation "measure (\<lambda>(n, l). unread l)") (auto intro: le_less_trans[OF unread_advanceByte_le])

definition scanWhitespace :: "lexer \<Rightarrow> nat \<times> lexer" where
  "scanWhitespace l = scanWhitespace_loop 0 l"

function scanLineComment_loop :: "lexer \<Rightarrow> lexer" where
  "scanLineComment_loop l =
     (if has_more l \<and> cur_byte l \<noteq> LF \<and> cur_byte l \<noteq> CR then scanLineComment_loop (advanceRune l) else l)"
  by pat_completeness auto
termination
  by (relation "measure unread") auto

definition scanLineComment :: "lexer \<Rightarrow> Token \<times> lexer" where
  "scanLineComment l =
     (let start = lex_pos l; l1 = scanLineComment_loop l
      in (finish TokenLineComment start l1, l1))"

function scanBlockComment_loop :: "bool \<Rightarrow> srcPos \<Rightarrow> lexer \<Rightarrow> Token \<times> lexer" where
  "scanBlockComment_loop docc start l =
     (if \<not> has_more l then
        (let l1 = errorfAt start (Sprintf ''unterminated comment'' []) l
         in (finish TokenBlockComment start l1, l1))
      else if cur_byte l = CHR ''*'' \<and> peekByte l 1 = CHR ''/'' then
        (let l1 = advanceByte (advanceByte l);
             kind = (if docc then TokenDocComment else TokenBlockComment)
         in (finish kind start l1, l1))
      else if docc \<and> lxOff l = spOffset start + 3 \<and> cur_byte l = CHR ''/'' then
        (let l1 = advanceByte l in (finish TokenDocComment start l1, l1))
      else scanBlockComment_loop docc start (advanceRune l))"
  by pat_completeness auto
termination
  by (relation "measure (\<lambda>(d, s, l). unread l)") auto

definition scanBlockComment :: "lexer \<Rightarrow> Token \<times> lexer" where
  "scanBlockComment l =
     (let start = lex_pos l; docc = (peekByte l 2 = CHR ''*'')
      in scanBlockComment_loop docc start (advanceByte (advanceByte l)))"

section \<open>Identifiers, symbols and strings\<close>

definition symbolToken :: "TokenKind \<Rightarrow> lexer \<Rightarrow> Token \<times> lexer" where
  "symbolToken kind l = (let start = lex_pos l; l1 = advanceByte l in (finish kind start l1, l1))"

function scanIdentifier_loop :: "bool \<Rightarrow> lexer \<Rightarrow> bool \<times> lexer" where
  "scanIdentifier_loop dotted l =
     (if has_more l then
        (if isIdentPart (cur_byte l) then scanIdentifier_loop dotted (advanceByte l)
         else if cur_byte l = CHR ''.'' \<and> isIdentStart (peekByte l 1) then
           scanIdentifier_loop True (advanceByte (advanceByte l))
         else (dotted, l))
      else (dotted, l))"
  by pat_completeness auto
termination
  by (relation "measure (\<lambda>(d, l). unread l)") (auto intro: le_less_trans[OF unread_advanceByte_le])

definition scanIdentifier :: "lexer \<Rightarrow> Token \<times> lexer" where
  "scanIdentifier l =
     (let start = lex_pos l;
          (dotted, l1) = scanIdentifier_loop False (advanceByte l);
          text = slice (spOffset start) (lxOff l1) (lxSrc l1);
          kind = (if dotted then TokenIdentifier
                  else (case keywordKinds text of Some k \<Rightarrow> k | None \<Rightarrow> TokenIdentifier))
      in (finish kind start l1, l1))"

definition string_escapes :: "char set" where
  "string_escapes = {CHR ''r'', CHR ''n'', CHR ''t'', DQUOTE, SQUOTE, BACKSLASH}"

text \<open>\<open>string(rune(b))\<close> of a byte: its UTF-8 encoding.\<close>

definition rune_string :: "char \<Rightarrow> bytes" where
  "rune_string c =
     (if byte c < rune_self then [c]
      else [char_of (0xC0 + byte c div 64), char_of (0x80 + byte c mod 64)])"

function scanString_loop :: "char \<Rightarrow> srcPos \<Rightarrow> lexer \<Rightarrow> Token \<times> lexer" where
  "scanString_loop quote start l =
     (if \<not> has_more l then
        (let l1 = errorfAt start (Sprintf ''unterminated string literal'' []) l
         in (finish TokenStringLiteral start l1, l1))
      else
        (let c = cur_byte l in
         if c = quote then
           (let l1 = advanceByte l in (finish TokenStringLiteral start l1, l1))
         else if c = LF \<or> c = CR then
           (let l1 = errorfAt start (Sprintf ''newline in string literal'' []) l
            in (finish TokenStringLiteral start l1, l1))
         else if c = BACKSLASH then
           (if length (lxSrc l) \<le> lxOff l + 1 then
              (let l1 = errorfAt start (Sprintf ''unterminated string literal'' []) (advanceByte l)
               in (finish TokenStringLiteral start l1, l1))
            else if peekByte l 1 \<in> string_escapes then
              scanString_loop quote start (advanceByte (advanceByte l))
            else
              scanString_loop quote start
                (advanceRune (advanceByte
                  (errorf (Sprintf ''invalid escape sequence %q'' [BACKSLASH # rune_string (peekByte l 1)]) l))))
         else scanString_loop quote start (advanceRune l)))"
  by pat_completeness auto

lemma unread_errorf [simp]: "unread (errorf m l) = unread l"
  by (simp add: unread_def)

lemma unread_advanceRune_le [simp]: "unread (advanceRune l) \<le> unread l"
proof -
  have "lxOff l \<le> lxOff (advanceRune l)" "lxSrc (advanceRune l) = lxSrc l"
    by (auto simp: advanceRune_def Let_def split: prod.splits)
  then show ?thesis by (simp add: unread_def diff_le_mono2)
qed

termination scanString_loop
  by (relation "measure (\<lambda>(q, s, l). unread l)")
     (auto intro: le_less_trans[OF unread_advanceByte_le] le_less_trans[OF unread_advanceRune_le]
           simp: less_le_trans[OF unread_advanceByte])

definition scanString :: "lexer \<Rightarrow> Token \<times> lexer" where
  "scanString l =
     (let start = lex_pos l; quote = cur_byte l
      in scanString_loop quote start (advanceByte l))"


section \<open>Numbers\<close>

text \<open>The loop \<open>for i < len(s) && p(s[i]) { i++ }\<close> of the three matchers.\<close>

function skip_while :: "(char \<Rightarrow> bool) \<Rightarrow> bytes \<Rightarrow> nat \<Rightarrow> nat" where
  "skip_while p s i = (if i < length s \<and> p (s ! i) then skip_while p s (Suc i) else i)"
  by pat_completeness auto
termination
  by (relation "measure (\<lambda>(p, s, i). length s - i)") auto

definition sign_len :: "bytes \<Rightarrow> nat \<Rightarrow> nat" where
  "sign_len s i = (if i < length s \<and> (s ! i = CHR ''+'' \<or> s ! i = CHR ''-'') then i + 1 else i)"

definition matchHex :: "bytes \<Rightarrow> nat" where
  "matchHex s =
     (let i = sign_len s 0 in
      if length s < i + 2 \<or> s ! i \<noteq> CHR ''0'' \<or> (s ! (i + 1) \<noteq> CHR ''x'' \<and> s ! (i + 1) \<noteq> CHR ''X'')
      then 0
      else (let j = skip_while isHexDigit s (i + 2) in if j = i + 2 then 0 else j))"

definition matchInt :: "bytes \<Rightarrow> nat" where
  "matchInt s =
     (let start = sign_len s 0; i = skip_while isDigit s start
      in if i = start then 0 else i)"

definition matchDouble_exponent :: "bytes \<Rightarrow> nat \<Rightarrow> nat" where
  "matchDouble_exponent s i =
     (if i < length s \<and> (s ! i = CHR ''e'' \<or> s ! i = CHR ''E'') then
        (let j = sign_len s (i + 1); k = skip_while isDigit s j in if k = j then 0 else k)
      else i)"

definition matchDouble :: "bytes \<Rightarrow> nat" where
  "matchDouble s =
     (let i0 = sign_len s 0;
          i1 = skip_while isDigit s i0;
          sawDigit = (i0 < i1)
      in if i1 < length s \<and> s ! i1 = CHR ''.'' then
           (let i2 = skip_while isDigit s (i1 + 1)
            in if i2 = i1 + 1 then 0 else matchDouble_exponent s i2)
         else
           (let i3 = matchDouble_exponent s i1 in if sawDigit then i3 else 0))"

text \<open>The \<open>switch\<close> of \<open>scanNumber\<close>: length and kind of the match that wins.\<close>

definition number_match :: "bytes \<Rightarrow> (nat \<times> TokenKind) option" where
  "number_match rest =
     (let hexLen = matchHex rest;
          intLen = matchInt rest;
          dubLen = matchDouble rest
      in if 0 < hexLen \<and> intLen \<le> hexLen \<and> dubLen \<le> hexLen then Some (hexLen, TokenIntConstant)
         else if 0 < intLen \<and> dubLen \<le> intLen then Some (intLen, TokenIntConstant)
         else if 0 < dubLen then Some (dubLen, TokenDoubleConstant)
         else None)"

definition scanNumber :: "lexer \<Rightarrow> Token option \<times> lexer" where
  "scanNumber l =
     (let start = lex_pos l;
          rest = drop (spOffset start) (lxSrc l)
      in (case number_match rest of
            None \<Rightarrow> (None, l)
          | Some (len, kind) \<Rightarrow>
              (Some \<lparr>tkKind = kind, tkText = take len rest, tkOffset = spOffset start,
                     tkLine = spLine start, tkCol = spCol start, tkBlankLinesBefore = 0\<rparr>,
               (advanceByte ^^ len) l)))"

declare scanWhitespace_loop.simps [simp del] scanLineComment_loop.simps [simp del]
  scanBlockComment_loop.simps [simp del] scanIdentifier_loop.simps [simp del]
  scanString_loop.simps [simp del] skip_while.simps [simp del]

section \<open>Reading forward\<close>

text \<open>
  \<open>reaches l l'\<close>: the read position of \<open>l'\<close> is that of \<open>l\<close> after whole runes were
  consumed, whatever errors were recorded on the way. Every method of the
  lexer moves this way, which carries termination, bounds and positions.
\<close>

definition same_place :: "lexer \<Rightarrow> lexer \<Rightarrow> bool" where
  "same_place l l' \<longleftrightarrow> lxSrc l' = lxSrc l \<and> lxOff l' = lxOff l \<and> lxLine l' = lxLine l \<and>
     lxCol l' = lxCol l \<and> lxPanic l' = lxPanic l \<and> prefix (lxErrs l) (lxErrs l')"

inductive reaches :: "lexer \<Rightarrow> lexer \<Rightarrow> bool" where
  here: "same_place l l' \<Longrightarrow> reaches l l'"
| rune: "has_more l \<Longrightarrow> reaches (advanceRune l) l' \<Longrightarrow> reaches l l'"

lemma same_place_refl [simp, intro]: "same_place l l"
  by (simp add: same_place_def)

lemma same_place_trans: "same_place a b \<Longrightarrow> same_place b c \<Longrightarrow> same_place a c"
  by (auto simp: same_place_def)

lemma same_place_errorf [simp]: "same_place l (errorf m l)" "same_place l (errorfAt p m l)"
  by (simp_all add: same_place_def errorf_def errorfAt_def)

lemma same_place_has_more: "same_place a b \<Longrightarrow> has_more b = has_more a"
  by (simp add: same_place_def has_more_def)

lemma same_place_advanceRune: "same_place a b \<Longrightarrow> same_place (advanceRune a) (advanceRune b)"
  by (auto simp: same_place_def advanceRune_def Let_def split: prod.splits)

lemma same_place_reaches: "reaches b c \<Longrightarrow> same_place a b \<Longrightarrow> reaches a c"
proof (induction arbitrary: a rule: reaches.induct)
  case (here l l')
  then show ?case by (blast intro: reaches.here same_place_trans)
next
  case (rune l l')
  then show ?case
    using same_place_has_more[of a l] same_place_advanceRune[of a l] by (auto intro: reaches.rune)
qed

lemma reaches_refl [simp, intro]: "reaches l l"
  by (simp add: reaches.here)

lemma reaches_trans [trans]: "reaches a b \<Longrightarrow> reaches b c \<Longrightarrow> reaches a c"
  by (induction rule: reaches.induct) (auto intro: same_place_reaches reaches.rune)

lemma reaches_step [simp]: "has_more l \<Longrightarrow> reaches l (advanceRune l)"
  by (simp add: reaches.rune)

lemma reaches_error [simp]: "reaches l (errorf m l)" "reaches l (errorfAt p m l)"
  by (simp_all add: reaches.here)

lemma reaches_bounds_all:
  "reaches l l' \<Longrightarrow> lxOff l \<le> length (lxSrc l) \<Longrightarrow>
   lxSrc l' = lxSrc l \<and> lxOff l \<le> lxOff l' \<and> lxOff l' \<le> length (lxSrc l') \<and> lxPanic l' = lxPanic l \<and>
   prefix (lxErrs l) (lxErrs l')"
proof (induction rule: reaches.induct)
  case (here l l')
  then show ?case by (auto simp: same_place_def)
next
  case (rune l l')
  then show ?case using advanceRune_bounds[of l] by auto
qed

lemma reaches_bounds:
  assumes "reaches l l'" "lxOff l \<le> length (lxSrc l)"
  shows "lxSrc l' = lxSrc l" "lxOff l \<le> lxOff l'" "lxOff l' \<le> length (lxSrc l')" "lxPanic l' = lxPanic l"
    "prefix (lxErrs l) (lxErrs l')"
  using reaches_bounds_all[OF assms] by auto

text \<open>On an ASCII byte, \<open>advanceByte\<close> and \<open>advanceRune\<close> agree.\<close>

definition ascii :: "char \<Rightarrow> bool" where
  "ascii c \<longleftrightarrow> byte c < rune_self"

lemma advanceByte_ascii:
  assumes "has_more l" "ascii (cur_byte l)"
  shows "advanceByte l = advanceRune l"
proof -
  have "drop (lxOff l) (lxSrc l) = cur_byte l # drop (Suc (lxOff l)) (lxSrc l)"
    using assms(1) by (simp add: has_more_def cur_byte_def Cons_nth_drop_Suc)
  then have "decode_rune (drop (lxOff l) (lxSrc l)) = (byte (cur_byte l), 1)"
    using assms(2) by (simp add: ascii_def decode_rune_def)
  then show ?thesis
    using assms(1) by (simp add: advanceByte_def advanceRune_def has_more_def Let_def byte_inj)
qed

lemma reaches_advanceByte [simp]: "has_more l \<Longrightarrow> ascii (cur_byte l) \<Longrightarrow> reaches l (advanceByte l)"
  by (simp add: advanceByte_ascii)

lemma ascii_chars [simp]:
  "ascii LF" "ascii CR" "ascii SPACE" "ascii TAB" "ascii BACKSLASH" "ascii DQUOTE" "ascii SQUOTE"
  "ascii (CHR ''*'')" "ascii (CHR ''/'')" "ascii (CHR ''.'')" "ascii (CHR ''#'')" "ascii (CHR ''&'')"
  by (simp_all add: ascii_def byte_def rune_self_def)

lemma ascii_le: "c \<le> CHR 0x7F \<Longrightarrow> ascii c"
  by (simp add: ascii_def byte_def rune_self_def less_eq_char_def)

lemma ascii_isDigit: "isDigit c \<Longrightarrow> ascii c"
  by (auto simp: isDigit_def ascii_def byte_def rune_self_def less_eq_char_def)

lemma ascii_isIdentStart: "isIdentStart c \<Longrightarrow> ascii c"
  by (auto simp: isIdentStart_def intro!: ascii_le elim: order_trans)

lemma ascii_isIdentPart: "isIdentPart c \<Longrightarrow> ascii c"
  by (auto simp: isIdentPart_def ascii_isDigit ascii_isIdentStart)

lemma ascii_isHexDigit: "isHexDigit c \<Longrightarrow> ascii c"
  by (auto simp: isHexDigit_def isDigit_def ascii_def byte_def rune_self_def less_eq_char_def)

lemma ascii_isWhitespace: "isWhitespace c \<Longrightarrow> ascii c"
  by (auto simp: isWhitespace_def)

lemma ascii_symbol: "symbolKinds c = Some k \<Longrightarrow> ascii c"
  by (auto simp: symbolKinds_def ascii_def byte_def rune_self_def split: if_splits)


text \<open>A non-zero byte ahead is really there.\<close>

lemma peekByte_next:
  assumes "peekByte l 1 = c" "c \<noteq> CHR 0x00"
  shows "has_more l" "has_more (advanceByte l)" "cur_byte (advanceByte l) = c"
  using assms by (auto simp: peekByte_def has_more_def cur_byte_def split: if_splits)

lemma has_more_next [simp]: "has_more l \<Longrightarrow> has_more (advanceByte l) \<longleftrightarrow> Suc (lxOff l) < length (lxSrc l)"
  by (simp add: has_more_def)

lemma reaches_two:
  assumes "ascii (cur_byte l)" "peekByte l 1 = c" "ascii c" "c \<noteq> CHR 0x00"
  shows "reaches l (advanceByte (advanceByte l))"
  using assms(1,3) peekByte_next[OF assms(2,4)]
  by (intro reaches_trans[OF reaches_advanceByte reaches_advanceByte]) auto

lemma reaches_scanWhitespace_loop: "reaches l (snd (scanWhitespace_loop n l))"
proof (induction n l rule: scanWhitespace_loop.induct)
  case (1 n l)
  show ?case
  proof (cases "has_more l \<and> isWhitespace (cur_byte l)")
    case True
    then have r: "reaches l (advanceByte l)" by (simp add: ascii_isWhitespace)
    show ?thesis
    proof (cases "cur_byte l = CR")
      case cr: True
      let ?l1 = "advanceByte l"
      let ?l2 = "if has_more ?l1 \<and> cur_byte ?l1 = LF then advanceByte ?l1 else ?l1"
      have "reaches ?l1 ?l2" by simp
      moreover have "reaches ?l2 (snd (scanWhitespace_loop (n + 1) ?l2))"
        using 1(2)[OF _ _ cr refl] True cr by simp
      ultimately have "reaches l (snd (scanWhitespace_loop (n + 1) ?l2))"
        by (rule reaches_trans[OF r reaches_trans])
      then show ?thesis using True cr by (simp add: scanWhitespace_loop.simps[of n l] Let_def)
    next
      case False
      then show ?thesis using True "1.IH"(1) "1.IH"(3)
        by (auto simp: isWhitespace_def scanWhitespace_loop.simps[of n l] intro!: reaches_trans[OF r])
    qed
  next
    case False
    then show ?thesis by (auto simp: isWhitespace_def scanWhitespace_loop.simps[of n l])
  qed
qed

lemma reaches_scanLineComment_loop: "reaches l (scanLineComment_loop l)"
proof (induction l rule: scanLineComment_loop.induct)
  case (1 l)
  then show ?case by (subst scanLineComment_loop.simps) (auto intro: reaches_trans[OF reaches_step])
qed

lemma reaches_scanBlockComment_loop: "reaches l (snd (scanBlockComment_loop d start l))"
proof (induction d start l rule: scanBlockComment_loop.induct)
  case (1 d start l)
  consider (eof) "\<not> has_more l"
    | (close) "has_more l" "cur_byte l = CHR ''*''" "peekByte l 1 = CHR ''/''"
    | (empty) "has_more l" "\<not> (cur_byte l = CHR ''*'' \<and> peekByte l 1 = CHR ''/'')"
        "d \<and> lxOff l = spOffset start + 3 \<and> cur_byte l = CHR ''/''"
    | (step) "has_more l" "\<not> (cur_byte l = CHR ''*'' \<and> peekByte l 1 = CHR ''/'')"
        "\<not> (d \<and> lxOff l = spOffset start + 3 \<and> cur_byte l = CHR ''/'')"
    by blast
  then show ?case
  proof cases
    case eof
    then show ?thesis by (simp add: scanBlockComment_loop.simps[of d start l] Let_def)
  next
    case close
    then have "reaches l (advanceByte (advanceByte l))"
      by (intro reaches_two[where c = "CHR ''/''"]) simp_all
    then show ?thesis using close by (simp add: scanBlockComment_loop.simps[of d start l] Let_def)
  next
    case empty
    then show ?thesis by (simp add: scanBlockComment_loop.simps[of True start l] Let_def)
  next
    case step
    then show ?thesis using reaches_trans[OF reaches_step[OF step(1)] 1(1)[OF _ step(2,3)]]
      by (simp only: scanBlockComment_loop.simps[of d start l]) simp
  qed
qed

lemma reaches_scanIdentifier_loop: "reaches l (snd (scanIdentifier_loop d l))"
proof (induction d l rule: scanIdentifier_loop.induct)
  case (1 d l)
  consider (part) "has_more l" "isIdentPart (cur_byte l)"
    | (dot) "has_more l" "\<not> isIdentPart (cur_byte l)" "cur_byte l = CHR ''.''" "isIdentStart (peekByte l 1)"
    | (stop) "\<not> has_more l \<or> \<not> isIdentPart (cur_byte l) \<and>
        \<not> (cur_byte l = CHR ''.'' \<and> isIdentStart (peekByte l 1))"
    by blast
  then show ?case
  proof cases
    case part
    then have "reaches l (advanceByte l)" by (simp add: ascii_isIdentPart)
    then show ?thesis using part 1(1)
      by (simp add: scanIdentifier_loop.simps[of d l]) (rule reaches_trans)
  next
    case dot
    have "peekByte l 1 \<noteq> CHR 0x00" using dot(4) by (auto simp: isIdentStart_def)
    then have "reaches l (advanceByte (advanceByte l))"
      using dot by (intro reaches_two[OF _ refl]) (auto simp: ascii_isIdentStart)
    then show ?thesis using 1(2) dot
      by (simp add: scanIdentifier_loop.simps[of d l]) (rule reaches_trans)
  next
    case stop
    then show ?thesis by (auto simp: scanIdentifier_loop.simps[of d l])
  qed
qed

lemma ascii_string_escapes: "c \<in> string_escapes \<Longrightarrow> ascii c \<and> c \<noteq> CHR 0x00"
  by (auto simp: string_escapes_def ascii_def byte_def rune_self_def)

lemma reaches_scanString_loop:
  "ascii q \<Longrightarrow> reaches l (snd (scanString_loop q start l))"
proof (induction q start l rule: scanString_loop.induct)
  case (1 q start l)
  let ?err = "errorf (Sprintf ''invalid escape sequence %q'' [BACKSLASH # rune_string (peekByte l 1)]) l"
  consider (stop) "\<not> has_more l \<or> cur_byte l = q \<or> cur_byte l = LF \<or> cur_byte l = CR"
    | (eof) "has_more l" "cur_byte l \<noteq> q" "cur_byte l = BACKSLASH" "length (lxSrc l) \<le> lxOff l + 1"
    | (esc) "has_more l" "cur_byte l \<noteq> q" "cur_byte l = BACKSLASH" "\<not> length (lxSrc l) \<le> lxOff l + 1"
        "peekByte l 1 \<in> string_escapes"
    | (bad) "has_more l" "cur_byte l \<noteq> q" "cur_byte l = BACKSLASH" "\<not> length (lxSrc l) \<le> lxOff l + 1"
        "peekByte l 1 \<notin> string_escapes"
    | (plain) "has_more l" "cur_byte l \<noteq> q" "cur_byte l \<noteq> LF" "cur_byte l \<noteq> CR" "cur_byte l \<noteq> BACKSLASH"
    by blast
  then show ?case
  proof cases
    case stop
    then show ?thesis using "1.prems" by (auto simp: scanString_loop.simps[of q start l] Let_def)
  next
    case eof
    then have "reaches l (advanceByte l)" by simp
    then show ?thesis using eof
      by (simp add: scanString_loop.simps[of q start l] Let_def reaches_trans[OF _ reaches_error(2)])
  next
    case esc
    then have "reaches l (advanceByte (advanceByte l))"
      using ascii_string_escapes[OF esc(5)] by (intro reaches_two[OF _ refl]) auto
    then show ?thesis using esc "1.IH"(1)[OF _ refl] "1.prems"
      by (simp add: scanString_loop.simps[of q start l] Let_def) (rule reaches_trans)
  next
    case bad
    have "reaches l ?err" by simp
    also have "reaches ?err (advanceByte ?err)" using bad by simp
    also have "reaches (advanceByte ?err) (advanceRune (advanceByte ?err))" using bad by simp
    finally have r: "reaches l (advanceRune (advanceByte ?err))" .
    then show ?thesis using bad "1.IH"(2)[OF _ refl] "1.prems"
      by (simp add: scanString_loop.simps[of q start l] Let_def) (rule reaches_trans)
  next
    case plain
    then show ?thesis using "1.IH"(3)[OF _ refl] "1.prems"
      by (simp add: scanString_loop.simps[of q start l] Let_def)
         (rule reaches_trans[OF reaches_step])
  qed
qed


subsection \<open>The numeric matchers stay inside the string\<close>

lemma skip_while_ge [simp]: "i \<le> skip_while p s i"
proof (induction p s i rule: skip_while.induct)
  case (1 p s i)
  then show ?case by (subst skip_while.simps) (auto simp: Suc_le_eq)
qed

lemma skip_while_le: "i \<le> length s \<Longrightarrow> skip_while p s i \<le> length s"
proof (induction p s i rule: skip_while.induct)
  case (1 p s i)
  then show ?case by (subst skip_while.simps) auto
qed

lemma skip_while_all: "i \<le> k \<Longrightarrow> k < skip_while p s i \<Longrightarrow> k < length s \<and> p (s ! k)"
proof (induction p s i rule: skip_while.induct)
  case (1 p s i)
  show ?case
  proof (cases "i < length s \<and> p (s ! i)")
    case True
    then show ?thesis using 1 by (cases "k = i") (auto simp: skip_while.simps[of p s i])
  next
    case False
    then show ?thesis using "1.prems" by (auto simp: skip_while.simps[of p s i])
  qed
qed

lemma skip_while_stop:
  "skip_while p s i < length s \<Longrightarrow> \<not> p (s ! skip_while p s i)"
proof (induction p s i rule: skip_while.induct)
  case (1 p s i)
  then show ?case by (cases "i < length s \<and> p (s ! i)") (simp_all add: skip_while.simps[of p s i])
qed

text \<open>\<open>ascii_upto s n\<close>: the first \<open>n\<close> bytes of \<open>s\<close> exist and are ASCII.\<close>

definition ascii_upto :: "bytes \<Rightarrow> nat \<Rightarrow> bool" where
  "ascii_upto s n \<longleftrightarrow> n \<le> length s \<and> (\<forall>k < n. ascii (s ! k))"

lemma ascii_upto_0 [simp]: "ascii_upto s 0"
  by (simp add: ascii_upto_def)

lemma ascii_upto_Suc: "ascii_upto s n \<Longrightarrow> n < length s \<Longrightarrow> ascii (s ! n) \<Longrightarrow> ascii_upto s (Suc n)"
  by (auto simp: ascii_upto_def less_Suc_eq)

lemma ascii_upto_skip:
  assumes "ascii_upto s i" "\<And>c. p c \<Longrightarrow> ascii c"
  shows "ascii_upto s (skip_while p s i)"
proof -
  have "skip_while p s i \<le> length s"
    using assms(1) by (intro skip_while_le) (simp add: ascii_upto_def)
  moreover have "ascii (s ! k)" if "k < skip_while p s i" for k
    using assms that skip_while_all[of i k p s] by (cases "k < i") (auto simp: ascii_upto_def)
  ultimately show ?thesis by (simp add: ascii_upto_def)
qed

lemma ascii_number_chars [simp]:
  "ascii (CHR ''+'')" "ascii (CHR ''-'')" "ascii (CHR ''0'')" "ascii (CHR ''x'')" "ascii (CHR ''X'')"
  "ascii (CHR ''e'')" "ascii (CHR ''E'')"
  by (simp_all add: ascii_def byte_def rune_self_def)

lemma ascii_upto_sign: "ascii_upto s i \<Longrightarrow> ascii_upto s (sign_len s i)"
  by (auto simp: sign_len_def intro: ascii_upto_Suc)

lemma ascii_upto_matchHex: "ascii_upto s (matchHex s)"
proof -
  let ?i = "sign_len s 0"
  have i: "ascii_upto s ?i" by (simp add: ascii_upto_sign)
  have "ascii_upto s (?i + 2)"
    if "\<not> length s < ?i + 2" "s ! ?i = CHR ''0''" "s ! (?i + 1) = CHR ''x'' \<or> s ! (?i + 1) = CHR ''X''"
  proof -
    have "ascii_upto s (Suc ?i)" using i that by (auto intro: ascii_upto_Suc)
    then have "ascii_upto s (Suc (Suc ?i))" using that by (elim ascii_upto_Suc) auto
    then show ?thesis by simp
  qed
  then show ?thesis
    using ascii_upto_skip[of s "?i + 2" isHexDigit] ascii_isHexDigit by (auto simp: matchHex_def Let_def)
qed

lemma ascii_upto_matchInt: "ascii_upto s (matchInt s)"
  using ascii_upto_skip[OF ascii_upto_sign[OF ascii_upto_0], of isDigit s] ascii_isDigit
  by (auto simp: matchInt_def Let_def)

lemma ascii_upto_exponent: "ascii_upto s i \<Longrightarrow> ascii_upto s (matchDouble_exponent s i)"
proof -
  assume i: "ascii_upto s i"
  have "ascii_upto s (skip_while isDigit s (sign_len s (i + 1)))"
    if "i < length s" "s ! i = CHR ''e'' \<or> s ! i = CHR ''E''"
  proof -
    have "ascii_upto s (i + 1)" using i that ascii_upto_Suc[of s i] by auto
    then show ?thesis by (intro ascii_upto_skip ascii_upto_sign) (auto simp: ascii_isDigit)
  qed
  then show ?thesis using i by (auto simp: matchDouble_exponent_def Let_def)
qed

lemma ascii_upto_matchDouble: "ascii_upto s (matchDouble s)"
proof -
  let ?i1 = "skip_while isDigit s (sign_len s 0)"
  have i1: "ascii_upto s ?i1" by (intro ascii_upto_skip ascii_upto_sign) (auto simp: ascii_isDigit)
  have "ascii_upto s (skip_while isDigit s (?i1 + 1))" if "?i1 < length s" "s ! ?i1 = CHR ''.''"
    using i1 that ascii_upto_Suc[of s ?i1] by (intro ascii_upto_skip) (auto simp: ascii_isDigit)
  then show ?thesis using i1 by (auto simp: matchDouble_def Let_def intro!: ascii_upto_exponent)
qed

lemma funpow_advanceByte:
  "ascii_upto (drop (lxOff l) (lxSrc l)) n \<Longrightarrow>
   reaches l ((advanceByte ^^ n) l) \<and> lxOff ((advanceByte ^^ n) l) = lxOff l + n \<and>
   lxSrc ((advanceByte ^^ n) l) = lxSrc l"
proof (induction n)
  case 0
  then show ?case by simp
next
  case (Suc n)
  let ?l = "(advanceByte ^^ n) l"
  have a: "ascii_upto (drop (lxOff l) (lxSrc l)) n" using Suc.prems by (simp add: ascii_upto_def)
  note IH = Suc.IH[OF a]
  have m: "has_more ?l" "ascii (cur_byte ?l)"
    using Suc.prems IH by (auto simp: has_more_def cur_byte_def ascii_upto_def)
  then show ?case using IH reaches_trans[OF _ reaches_advanceByte[OF m]] by simp
qed

lemma number_match_Some:
  assumes "number_match s = Some (n, kind)"
  shows "0 < n" "ascii_upto s n" "kind \<in> {TokenIntConstant, TokenDoubleConstant}"
  using assms ascii_upto_matchHex[of s] ascii_upto_matchInt[of s] ascii_upto_matchDouble[of s]
  by (auto simp: number_match_def Let_def split: if_splits)

lemma scanNumber_Some:
  assumes "scanNumber l = (Some t, l1)"
  shows "reaches l l1" "lxOff l < lxOff l1" "lxErrs l1 = lxErrs l" "tkOffset t = lxOff l"
    "tkLine t = lxLine l" "tkCol t = lxCol l" "tkText t = slice (lxOff l) (lxOff l1) (lxSrc l)"
    "tkKind t \<in> {TokenIntConstant, TokenDoubleConstant}"
proof -
  let ?rest = "drop (lxOff l) (lxSrc l)"
  have err: "lxErrs ((advanceByte ^^ n) l) = lxErrs l" for n by (induction n) simp_all
  obtain n kind where m: "number_match ?rest = Some (n, kind)" and l1: "l1 = (advanceByte ^^ n) l"
    and t: "t = \<lparr>tkKind = kind, tkText = take n ?rest, tkOffset = lxOff l,
                 tkLine = lxLine l, tkCol = lxCol l, tkBlankLinesBefore = 0\<rparr>"
    using assms by (auto simp: scanNumber_def Let_def lex_pos_def split: option.splits)
  note n = number_match_Some[OF m]
  note f = funpow_advanceByte[OF n(2)]
  show "reaches l l1" "lxOff l < lxOff l1" "lxErrs l1 = lxErrs l" using f n l1 err by auto
  show "tkText t = slice (lxOff l) (lxOff l1) (lxSrc l)" using f l1 t by (simp add: slice_def)
  show "tkOffset t = lxOff l" "tkLine t = lxLine l" "tkCol t = lxCol l"
    "tkKind t \<in> {TokenIntConstant, TokenDoubleConstant}" using t n by auto
qed

lemma scanNumber_None: "scanNumber l = (None, l1) \<Longrightarrow> l1 = l"
  by (auto simp: scanNumber_def Let_def split: option.splits)


subsection \<open>What every scanner returns\<close>

text \<open>
  \<open>scanned l t l'\<close>: the scanner consumed at least one byte from \<open>l\<close> to \<open>l'\<close>,
  the first no whitespace, and \<open>t\<close> carries the consumed bytes and the
  position of \<open>l\<close>.
\<close>

definition scanned :: "lexer \<Rightarrow> Token \<Rightarrow> lexer \<Rightarrow> bool" where
  "scanned l t l' \<longleftrightarrow> reaches l l' \<and> lxOff l < lxOff l' \<and> \<not> isWhitespace (cur_byte l) \<and> tkOffset t = lxOff l \<and>
     tkLine t = lxLine l \<and> tkCol t = lxCol l \<and> tkText t = slice (lxOff l) (lxOff l') (lxSrc l)"

lemma scanned_finishI:
  assumes "has_more l" "\<not> isWhitespace (cur_byte l)" "reaches l l1" "lxOff l < lxOff l1" "reaches l1 l'"
  shows "scanned l (finish kind (lex_pos l) l') l'"
proof -
  have b: "lxOff l \<le> length (lxSrc l)" using assms(1) by (simp add: has_more_def)
  note b1 = reaches_bounds[OF assms(3) b]
  have "lxOff l1 \<le> lxOff l'" "lxSrc l' = lxSrc l"
    using reaches_bounds[OF assms(5)] b1 by auto
  then show ?thesis using assms reaches_trans[OF assms(3,5)]
    by (simp add: scanned_def finish_def lex_pos_def)
qed

lemma scanned_byteI:
  "has_more l \<Longrightarrow> ascii (cur_byte l) \<Longrightarrow> \<not> isWhitespace (cur_byte l) \<Longrightarrow> reaches (advanceByte l) l' \<Longrightarrow>
   scanned l (finish kind (lex_pos l) l') l'"
  by (rule scanned_finishI[OF _ _ reaches_advanceByte]) auto

lemma scanned_symbolToken:
  "has_more l \<Longrightarrow> ascii (cur_byte l) \<Longrightarrow> \<not> isWhitespace (cur_byte l) \<Longrightarrow> symbolToken k l = (t, l') \<Longrightarrow> scanned l t l' \<and> tkKind t = k"
  using scanned_byteI[of l "advanceByte l" k]
  by (auto simp: symbolToken_def Let_def finish_def)

lemma scanned_scanIdentifier:
  assumes "has_more l" "isIdentStart (cur_byte l)" "scanIdentifier l = (t, l')"
  shows "scanned l t l'"
proof -
  have "reaches (advanceByte l) l'"
    using assms(3) reaches_scanIdentifier_loop[of "advanceByte l" False]
    by (auto simp: scanIdentifier_def Let_def split: prod.splits)
  moreover obtain k where "t = finish k (lex_pos l) l'"
    using assms(3) by (auto simp: scanIdentifier_def Let_def split: prod.splits)
  moreover have "\<not> isWhitespace (cur_byte l)" using assms(2) by (auto simp: isWhitespace_def isIdentStart_def)
  ultimately show ?thesis using assms by (simp add: scanned_byteI ascii_isIdentStart)
qed

lemma scanString_loop_token:
  "fst (scanString_loop q start l) = finish TokenStringLiteral start (snd (scanString_loop q start l))"
proof (induction q start l rule: scanString_loop.induct)
  case (1 q start l)
  note ih = "1.IH"[OF _ refl]
  show ?case using ih
    by (cases "cur_byte l = BACKSLASH") (simp_all add: scanString_loop.simps[of q start l] Let_def)
qed

lemma scanned_scanString:
  assumes "has_more l" "cur_byte l = SQUOTE \<or> cur_byte l = DQUOTE" "scanString l = (t, l')"
  shows "scanned l t l'" "tkKind t = TokenStringLiteral"
proof -
  have a: "ascii (cur_byte l)" using assms(2) by auto
  have "reaches (advanceByte l) l'"
    using reaches_scanString_loop[OF a, of "advanceByte l" "lex_pos l"] assms(3)
    by (simp add: scanString_def Let_def)
  moreover have "t = finish TokenStringLiteral (lex_pos l) l'"
    using scanString_loop_token[of "cur_byte l" "lex_pos l" "advanceByte l"] assms(3)
    by (simp add: scanString_def Let_def)
  moreover have "\<not> isWhitespace (cur_byte l)" using assms(2) by (auto simp: isWhitespace_def)
  ultimately show "scanned l t l'" "tkKind t = TokenStringLiteral"
    using assms(1) a by (simp add: scanned_byteI, simp add: finish_def)
qed

lemma scanned_scanLineComment:
  assumes "has_more l" "\<not> isWhitespace (cur_byte l)" "scanLineComment l = (t, l')"
  shows "scanned l t l'" "tkKind t = TokenLineComment"
proof -
  have l': "l' = scanLineComment_loop (advanceRune l)" and t: "t = finish TokenLineComment (lex_pos l) l'"
    using assms by (auto simp: scanLineComment_def Let_def scanLineComment_loop.simps[of l] isWhitespace_def)
  show "scanned l t l'" unfolding t
    by (rule scanned_finishI[OF assms(1,2) reaches_step[OF assms(1)]])
       (simp_all add: assms(1) advanceRune_bounds l' reaches_scanLineComment_loop)
  show "tkKind t = TokenLineComment" by (simp add: t finish_def)
qed

lemma scanBlockComment_loop_token:
  "\<exists>k \<in> {TokenBlockComment, TokenDocComment}.
     fst (scanBlockComment_loop d start l) = finish k start (snd (scanBlockComment_loop d start l))"
proof (induction d start l rule: scanBlockComment_loop.induct)
  case (1 d start l)
  then show ?case by (subst (1 2) scanBlockComment_loop.simps) (auto simp: Let_def)
qed

lemma scanned_scanBlockComment:
  assumes "cur_byte l = CHR ''/''" "peekByte l 1 = CHR ''*''" "scanBlockComment l = (t, l')"
  shows "scanned l t l'" "tkKind t \<in> {TokenBlockComment, TokenDocComment}"
proof -
  let ?l2 = "advanceByte (advanceByte l)"
  have m: "has_more l" "has_more (advanceByte l)"
    using peekByte_next[OF assms(2)] by auto
  have "reaches l ?l2" using assms by (intro reaches_two[OF _ assms(2)]) simp_all
  moreover have "reaches ?l2 l'"
    using reaches_scanBlockComment_loop[of ?l2 "peekByte l 2 = CHR ''*''" "lex_pos l"] assms(3)
    by (simp add: scanBlockComment_def Let_def)
  moreover obtain k where k: "k \<in> {TokenBlockComment, TokenDocComment}" "t = finish k (lex_pos l) l'"
    using scanBlockComment_loop_token[of "peekByte l 2 = CHR ''*''" "lex_pos l" ?l2] assms(3)
    by (auto simp: scanBlockComment_def Let_def)
  ultimately show "scanned l t l'" using m assms(1) scanned_finishI[OF m(1), of ?l2 l' k] by (simp add: isWhitespace_def)
  show "tkKind t \<in> {TokenBlockComment, TokenDocComment}" using k by (simp add: finish_def)
qed

lemma scanned_scanNumber: "scanNumber l = (Some t, l') \<Longrightarrow> \<not> isWhitespace (cur_byte l) \<Longrightarrow> scanned l t l'"
  using scanNumber_Some[of l t l'] by (simp add: scanned_def)

lemma scanned_unread: "scanned l t l' \<Longrightarrow> has_more l \<Longrightarrow> unread l' < unread l"
  using reaches_bounds[of l l'] by (auto simp: scanned_def unread_def has_more_def)

lemma reaches_unread: "reaches l l' \<Longrightarrow> lxOff l \<le> length (lxSrc l) \<Longrightarrow> unread l' \<le> unread l"
  using reaches_bounds[of l l'] by (auto simp: unread_def)

section \<open>The scanning loops\<close>

text \<open>
  \<open>scanToken\<close> skips invalid characters with an error each, and, after one,
  also whitespace and comments, which it discards.
\<close>

function scanToken :: "lexer \<Rightarrow> Token \<times> lexer" where
  "scanToken l =
     (if \<not> has_more l then
        (\<lparr>tkKind = TokenEOF, tkText = [], tkOffset = lxOff l, tkLine = lxLine l, tkCol = lxCol l,
          tkBlankLinesBefore = 0\<rparr>, l)
      else
        (let c = cur_byte l in
         if isIdentStart c then scanIdentifier l
         else if isDigit c \<or> c = CHR ''+'' \<or> c = CHR ''-'' \<or> (c = CHR ''.'' \<and> isDigit (peekByte l 1)) then
           (case scanNumber l of
              (Some tok, l1) \<Rightarrow> (tok, l1)
            | (None, l1) \<Rightarrow>
                scanToken (advanceRune (errorf (Sprintf ''unexpected character %q'' [[c]]) l)))
         else if c = SQUOTE \<or> c = DQUOTE then scanString l
         else if c = CHR ''&'' then symbolToken TokenAmp l
         else if c = CHR ''*'' then symbolToken TokenStar l
         else if isWhitespace c then scanToken (advanceByte l)
         else if c = CHR ''/'' \<and> peekByte l 1 = CHR ''/'' then scanToken (snd (scanLineComment l))
         else if c = CHR ''/'' \<and> peekByte l 1 = CHR ''*'' then scanToken (snd (scanBlockComment l))
         else if c = CHR ''#'' then scanToken (snd (scanLineComment l))
         else (case symbolKinds c of
             Some kind \<Rightarrow> symbolToken kind l
           | None \<Rightarrow> scanToken (advanceRune (errorf (Sprintf ''unexpected character %q'' [[c]]) l)))))"
  by pat_completeness auto

lemma unread_advanceRune_errorf [simp]: "has_more l \<Longrightarrow> unread (advanceRune (errorf m l)) < unread l"
  using unread_advanceRune[of "errorf m l"] by simp

lemma unread_scanLineComment:
  "has_more l \<Longrightarrow> \<not> isWhitespace (cur_byte l) \<Longrightarrow> unread (snd (scanLineComment l)) < unread l"
  using scanned_scanLineComment(1)[of l] scanned_unread by (cases "scanLineComment l") auto

lemma unread_scanBlockComment:
  assumes "cur_byte l = CHR ''/''" "peekByte l (Suc 0) = CHR ''*''"
  shows "unread (snd (scanBlockComment l)) < unread l"
proof -
  have "has_more l" using peekByte_next(1)[of l "CHR ''*''"] assms by simp
  then show ?thesis
    using scanned_scanBlockComment(1)[of l "fst (scanBlockComment l)" "snd (scanBlockComment l)"]
      assms scanned_unread by simp
qed

termination scanToken
  by (relation "measure unread")
     (simp_all add: unread_scanLineComment unread_scanBlockComment)

text \<open>The comments before the next real token, each with its blank-line count.\<close>

function scanTrivia_loop :: "nat \<Rightarrow> Token list \<Rightarrow> lexer \<Rightarrow> nat \<times> Token list \<times> lexer" where
  "scanTrivia_loop blankLines comments l =
     (if \<not> has_more l then (blankLines, comments, l)
      else
        (let c = cur_byte l in
         if isWhitespace c then
           (let (n, l1) = scanWhitespace l in scanTrivia_loop (blankLines + n) comments l1)
         else if (c = CHR ''/'' \<and> peekByte l 1 = CHR ''/'') \<or> c = CHR ''#'' then
           (let (t, l1) = scanLineComment l
            in scanTrivia_loop 0 (comments @ [t\<lparr>tkBlankLinesBefore := blankLines\<rparr>]) l1)
         else if c = CHR ''/'' \<and> peekByte l 1 = CHR ''*'' then
           (let (t, l1) = scanBlockComment l
            in scanTrivia_loop 0 (comments @ [t\<lparr>tkBlankLinesBefore := blankLines\<rparr>]) l1)
         else (blankLines, comments, l)))"
  by pat_completeness auto

lemma reaches_scanWhitespace_first:
  assumes "has_more l" "isWhitespace (cur_byte l)"
  shows "reaches (advanceByte l) (snd (scanWhitespace_loop n l))"
proof -
  define l2 where "l2 = (if has_more (advanceByte l) \<and> cur_byte (advanceByte l) = LF
                         then advanceByte (advanceByte l) else advanceByte l)"
  have "reaches (advanceByte l) l2" by (simp add: l2_def del: has_more_next)
  then have "reaches (advanceByte l) (snd (scanWhitespace_loop (n + 1) l2))"
    by (rule reaches_trans[OF _ reaches_scanWhitespace_loop])
  moreover have "scanWhitespace_loop n l \<in>
      {scanWhitespace_loop (n + 1) (advanceByte l), scanWhitespace_loop (n + 1) l2,
       scanWhitespace_loop n (advanceByte l)}"
    using assms by (auto simp: scanWhitespace_loop.simps[of n l] isWhitespace_def Let_def l2_def
        simp del: has_more_next)
  ultimately show ?thesis
    using reaches_scanWhitespace_loop[of "advanceByte l" "n + 1"]
      reaches_scanWhitespace_loop[of "advanceByte l" n] by auto
qed

lemma unread_scanWhitespace:
  assumes "has_more l" "isWhitespace (cur_byte l)"
  shows "unread (snd (scanWhitespace l)) < unread l"
proof -
  have "unread (snd (scanWhitespace l)) \<le> unread (advanceByte l)"
    unfolding scanWhitespace_def using assms
    by (intro reaches_unread[OF reaches_scanWhitespace_first]) (simp_all add: has_more_def Suc_le_eq)
  also have "\<dots> < unread l" using assms(1) by simp
  finally show ?thesis .
qed

lemma unread_trivia:
  "(n, l1) = scanWhitespace l \<Longrightarrow> has_more l \<Longrightarrow> isWhitespace (cur_byte l) \<Longrightarrow> unread l1 < unread l"
  "(t, l1) = scanLineComment l \<Longrightarrow> has_more l \<Longrightarrow> \<not> isWhitespace (cur_byte l) \<Longrightarrow> unread l1 < unread l"
  "(t, l1) = scanBlockComment l \<Longrightarrow> cur_byte l = CHR ''/'' \<Longrightarrow>
     peekByte l (Suc 0) = CHR ''*'' \<Longrightarrow> unread l1 < unread l"
  by (metis unread_scanWhitespace snd_conv, metis unread_scanLineComment snd_conv,
      metis unread_scanBlockComment snd_conv)

termination scanTrivia_loop
  by (relation "measure (\<lambda>(n, ts, l). unread l)")
     (auto dest: unread_trivia)


declare scanToken.simps [simp del] scanTrivia_loop.simps [simp del]

definition scanTrivia :: "lexer \<Rightarrow> nat \<times> Token list \<times> lexer" where
  "scanTrivia l = scanTrivia_loop 0 [] l"

text \<open>The positions where \<open>scanTrivia\<close> stops: the end, or a byte that starts a token.\<close>

definition at_token :: "lexer \<Rightarrow> bool" where
  "at_token l \<longleftrightarrow> (has_more l \<longrightarrow> \<not> isWhitespace (cur_byte l) \<and> cur_byte l \<noteq> CHR ''#'' \<and>
     \<not> (cur_byte l = CHR ''/'' \<and> (peekByte l 1 = CHR ''/'' \<or> peekByte l 1 = CHR ''*'')))"

definition real_kind :: "TokenKind \<Rightarrow> bool" where
  "real_kind k \<longleftrightarrow> k \<noteq> TokenEOF \<and> \<not> IsComment k"

lemma real_kind_simps [simp]:
  "real_kind TokenIdentifier" "real_kind TokenStringLiteral" "real_kind TokenIntConstant"
  "real_kind TokenDoubleConstant" "real_kind TokenAmp" "real_kind TokenStar"
  "\<not> real_kind TokenEOF"
  by (simp_all add: real_kind_def IsComment_def)

lemma real_kind_symbol: "symbolKinds c = Some k \<Longrightarrow> real_kind k"
  by (auto simp: symbolKinds_def real_kind_def IsComment_def split: if_splits)

lemma real_kind_keyword: "keywordKinds s = Some k \<Longrightarrow> real_kind k"
  using keyword_not_plain[of s k] by (auto simp: real_kind_def)

lemma scanIdentifier_kind: "scanIdentifier l = (t, l') \<Longrightarrow> real_kind (tkKind t)"
  by (auto simp: scanIdentifier_def Let_def finish_def real_kind_keyword split: prod.splits option.splits)

text \<open>One round of \<open>scanToken\<close>: it returns a token, or goes round again further on.\<close>

definition skips_to :: "lexer \<Rightarrow> lexer \<Rightarrow> bool" where
  "skips_to l m \<longleftrightarrow> scanToken l = scanToken m \<and> reaches l m \<and> unread m < unread l \<and>
     (at_token l \<longrightarrow> strict_prefix (lxErrs l) (lxErrs m))"

definition returns_token :: "lexer \<Rightarrow> bool" where
  "returns_token l \<longleftrightarrow> (\<exists>t l'. scanToken l = (t, l') \<and> scanned l t l' \<and> real_kind (tkKind t))"

lemma returns_tokenI:
  "scanToken l = p \<Longrightarrow> scanned l (fst p) (snd p) \<Longrightarrow> real_kind (tkKind (fst p)) \<Longrightarrow> returns_token l"
  unfolding returns_token_def by (metis prod.collapse)

lemma skips_invalid:
  assumes "has_more l" "scanToken l = scanToken (advanceRune (errorf m l))"
  shows "skips_to l (advanceRune (errorf m l))"
proof -
  have "reaches l (advanceRune (errorf m l))"
    using reaches_trans[OF reaches_error(1) reaches_step[of "errorf m l"]] assms(1) by simp
  then show ?thesis using assms
    by (simp add: skips_to_def strict_prefix_def errorf_def[of m l] del: unread_advanceRune_errorf)
       (metis assms(1) errorf_def unread_advanceRune_errorf)
qed

lemma scanToken_round:
  assumes "has_more l"
  shows "returns_token l \<or> (\<exists>m. skips_to l m)"
proof -
  let ?c = "cur_byte l"
  let ?bad = "advanceRune (errorf (Sprintf ''unexpected character %q'' [[?c]]) l)"
  note eq = scanToken.simps[of l]
  consider (ident) "isIdentStart ?c"
    | (num) "\<not> isIdentStart ?c"
        "isDigit ?c \<or> ?c = CHR ''+'' \<or> ?c = CHR ''-'' \<or> (?c = CHR ''.'' \<and> isDigit (peekByte l 1))"
    | (str) "?c = SQUOTE \<or> ?c = DQUOTE"
    | (amp) "?c = CHR ''&''" | (star) "?c = CHR ''*''" | (ws) "isWhitespace ?c"
    | (line) "(?c = CHR ''/'' \<and> peekByte l 1 = CHR ''/'') \<or> ?c = CHR ''#''"
    | (block) "?c = CHR ''/''" "peekByte l 1 = CHR ''*''"
    | (other) "\<not> isIdentStart ?c"
        "\<not> (isDigit ?c \<or> ?c = CHR ''+'' \<or> ?c = CHR ''-'' \<or> (?c = CHR ''.'' \<and> isDigit (peekByte l 1)))"
        "?c \<noteq> SQUOTE" "?c \<noteq> DQUOTE" "?c \<noteq> CHR ''&''" "?c \<noteq> CHR ''*''" "\<not> isWhitespace ?c"
        "\<not> (?c = CHR ''/'' \<and> peekByte l 1 = CHR ''/'')" "\<not> (?c = CHR ''/'' \<and> peekByte l 1 = CHR ''*'')"
        "?c \<noteq> CHR ''#''"
    by blast
  then show ?thesis
  proof cases
    case ident
    then have "scanToken l = scanIdentifier l" using assms by (simp add: eq Let_def)
    then show ?thesis using scanned_scanIdentifier[OF assms ident] scanIdentifier_kind[of l]
      by (metis returns_tokenI prod.collapse)
  next
    case num
    show ?thesis
    proof (cases "fst (scanNumber l)")
      case None
      then obtain l1 where "scanNumber l = (None, l1)" by (metis prod.collapse)
      then have "scanToken l = scanToken ?bad" using num assms
        by (simp add: eq Let_def)
      then show ?thesis using skips_invalid[OF assms] by blast
    next
      case (Some t)
      then obtain l1 where n: "scanNumber l = (Some t, l1)" by (metis prod.collapse)
      then have "scanToken l = (t, l1)" using num assms by (simp add: eq Let_def)
      moreover have "\<not> isWhitespace ?c" using num by (auto simp: isWhitespace_def isDigit_def)
      ultimately show ?thesis using scanned_scanNumber[OF n] scanNumber_Some(8)[OF n]
        by (intro disjI1 returns_tokenI) auto
    qed
  next
    case str
    then have "scanToken l = scanString l" using assms
      by (auto simp: eq Let_def isIdentStart_def isDigit_def)
    then show ?thesis using scanned_scanString[OF assms str]
      by (metis returns_tokenI prod.collapse real_kind_simps(2))
  next
    case amp
    then have "scanToken l = symbolToken TokenAmp l" using assms
      by (simp add: eq Let_def isIdentStart_def isDigit_def)
    then show ?thesis using scanned_symbolToken[OF assms _ _ prod.collapse[symmetric], of TokenAmp] amp
      by (intro disjI1 returns_tokenI[OF refl]) (simp_all add: isWhitespace_def)
  next
    case star
    then have "scanToken l = symbolToken TokenStar l" using assms
      by (simp add: eq Let_def isIdentStart_def isDigit_def)
    then show ?thesis using scanned_symbolToken[OF assms _ _ prod.collapse[symmetric], of TokenStar] star
      by (intro disjI1 returns_tokenI[OF refl]) (simp_all add: isWhitespace_def)
  next
    case ws
    then have "scanToken l = scanToken (advanceByte l)" using assms
      by (auto simp: eq Let_def isIdentStart_def isDigit_def isWhitespace_def)
    then show ?thesis using assms ws
      by (intro disjI2 exI[of _ "advanceByte l"]) (auto simp: skips_to_def at_token_def ascii_isWhitespace)
  next
    case line
    then have "scanToken l = scanToken (snd (scanLineComment l))" using assms
      by (auto simp: eq Let_def isIdentStart_def isDigit_def isWhitespace_def)
    moreover have "\<not> isWhitespace ?c" using line by (auto simp: isWhitespace_def)
    moreover have "reaches l (snd (scanLineComment l))"
      by (simp add: scanLineComment_def Let_def reaches_scanLineComment_loop)
    ultimately show ?thesis using assms line unread_scanLineComment[OF assms]
      by (intro disjI2 exI[of _ "snd (scanLineComment l)"]) (auto simp: skips_to_def at_token_def)
  next
    case block
    then have "scanToken l = scanToken (snd (scanBlockComment l))" using assms
      by (simp add: eq Let_def isIdentStart_def isDigit_def isWhitespace_def)
    moreover have "reaches l (snd (scanBlockComment l))"
      using scanned_scanBlockComment(1)[OF block, of "fst (scanBlockComment l)"]
      by (simp add: scanned_def)
    ultimately show ?thesis using assms block unread_scanBlockComment[of l]
      by (intro disjI2 exI[of _ "snd (scanBlockComment l)"]) (auto simp: skips_to_def at_token_def)
  next
    case other
    show ?thesis
    proof (cases "symbolKinds ?c")
      case None
      then have "scanToken l = scanToken ?bad" using other assms by (auto simp: eq Let_def)
      then show ?thesis using skips_invalid[OF assms] by blast
    next
      case (Some k)
      then have "scanToken l = symbolToken k l" using other assms by (auto simp: eq Let_def)
      then show ?thesis using scanned_symbolToken[OF assms ascii_symbol[OF Some] other(7), of k] real_kind_symbol[OF Some]
        by (metis returns_tokenI prod.collapse)
    qed
  qed
qed


text \<open>
  What \<open>scanToken\<close> returns: from the place \<open>l0\<close> where the skipping ends, a
  real token, or the end-of-file token. From a token start, skipping implies
  an error.
\<close>

definition eof_token :: "lexer \<Rightarrow> Token" where
  "eof_token l = \<lparr>tkKind = TokenEOF, tkText = [], tkOffset = lxOff l, tkLine = lxLine l,
     tkCol = lxCol l, tkBlankLinesBefore = 0\<rparr>"

definition token_at :: "lexer \<Rightarrow> Token \<Rightarrow> lexer \<Rightarrow> bool" where
  "token_at l0 t l' \<longleftrightarrow>
     (\<not> has_more l0 \<and> l' = l0 \<and> t = eof_token l0) \<or>
     (has_more l0 \<and> scanned l0 t l' \<and> real_kind (tkKind t))"

lemma strict_prefix_trans_left: "strict_prefix a b \<Longrightarrow> prefix b c \<Longrightarrow> strict_prefix a c"
  by (auto simp: strict_prefix_def dest: prefix_order.trans prefix_order.antisym)

lemma scanToken_spec:
  "lxOff l \<le> length (lxSrc l) \<Longrightarrow> scanToken l = (t, l') \<Longrightarrow>
   \<exists>l0. reaches l l0 \<and> token_at l0 t l' \<and> (at_token l \<longrightarrow> l0 = l \<or> strict_prefix (lxErrs l) (lxErrs l0))"
proof (induction l rule: measure_induct_rule[of unread])
  case (less l)
  show ?case
  proof (cases "has_more l")
    case False
    then have "token_at l t l'" using less.prems(2)
      by (auto simp: scanToken.simps[of l] token_at_def eof_token_def)
    then show ?thesis by blast
  next
    case True
    from scanToken_round[OF True] show ?thesis
    proof
      assume "returns_token l"
      then have "token_at l t l'" using less.prems(2) True by (auto simp: returns_token_def token_at_def)
      then show ?thesis by blast
    next
      assume "\<exists>m. skips_to l m"
      then obtain m where m: "skips_to l m" ..
      then have r: "reaches l m" and u: "unread m < unread l" and "scanToken m = (t, l')"
        using less.prems(2) by (auto simp: skips_to_def)
      then obtain l0 where l0: "reaches m l0" "token_at l0 t l'"
        using less.IH[OF u] reaches_bounds[OF r less.prems(1)] by auto
      have "lxOff m \<le> length (lxSrc m)" using reaches_bounds[OF r less.prems(1)] by simp
      then have "prefix (lxErrs m) (lxErrs l0)" using reaches_bounds[OF l0(1)] by simp
      then have "at_token l \<Longrightarrow> strict_prefix (lxErrs l) (lxErrs l0)"
        using m by (auto simp: skips_to_def intro: strict_prefix_trans_left)
      then show ?thesis using reaches_trans[OF r l0(1)] l0(2) by blast
    qed
  qed
qed

text \<open>
  \<open>gap l l'\<close>: no token lies between; unless an error was recorded, only
  whitespace does.
\<close>

definition gap :: "lexer \<Rightarrow> lexer \<Rightarrow> bool" where
  "gap l l' \<longleftrightarrow> reaches l l' \<and>
     (lxErrs l' = lxErrs l \<longrightarrow> (\<forall>c \<in> set (slice (lxOff l) (lxOff l') (lxSrc l)). isWhitespace c))"

lemma gap_refl [simp]: "gap l l"
  by (simp add: gap_def)

lemma gap_trans:
  assumes "gap a b" "gap b c" "lxOff a \<le> length (lxSrc a)"
  shows "gap a c"
proof -
  have r: "reaches a b" "reaches b c" using assms by (auto simp: gap_def)
  note b = reaches_bounds[OF r(1) assms(3)]
  have c: "lxOff b \<le> length (lxSrc b)" using b by simp
  note c' = reaches_bounds[OF r(2) c]
  have split: "slice (lxOff a) (lxOff c) (lxSrc a) =
      slice (lxOff a) (lxOff b) (lxSrc a) @ slice (lxOff b) (lxOff c) (lxSrc a)"
    using b c' by (simp add: slice_append)
  have "\<forall>x \<in> set (slice (lxOff a) (lxOff c) (lxSrc a)). isWhitespace x" if e: "lxErrs c = lxErrs a"
  proof -
    have "lxErrs b = lxErrs a" using b(5) c'(5) e by (metis prefix_order.antisym)
    then show ?thesis using assms(1,2) e b(1) unfolding split gap_def by auto
  qed
  then show ?thesis using reaches_trans[OF r] by (simp add: gap_def)
qed

lemma gap_error: "reaches l l' \<Longrightarrow> strict_prefix (lxErrs l) (lxErrs l') \<Longrightarrow> gap l l'"
  by (auto simp: gap_def strict_prefix_def)

text \<open>\<open>lexed l ts l'\<close>: \<open>ts\<close> are the tokens read between \<open>l\<close> and \<open>l'\<close>, in order.\<close>

inductive lexed :: "lexer \<Rightarrow> Token list \<Rightarrow> lexer \<Rightarrow> bool" where
  lexed_Nil: "gap l l' \<Longrightarrow> lexed l [] l'"
| lexed_Cons: "gap l l0 \<Longrightarrow> scanned l0 t l1 \<Longrightarrow> tkKind t \<noteq> TokenEOF \<Longrightarrow> lexed l1 ts l' \<Longrightarrow> lexed l (t # ts) l'"

inductive_cases lexed_NilE: "lexed l [] l'"
inductive_cases lexed_ConsE: "lexed l (t # ts) l'"

lemma scanned_bounds:
  assumes "scanned l t l'" "lxOff l \<le> length (lxSrc l)"
  shows "lxOff l' \<le> length (lxSrc l')" "lxSrc l' = lxSrc l" "lxPanic l' = lxPanic l"
    "prefix (lxErrs l) (lxErrs l')" "lxOff l \<le> lxOff l'"
  using assms reaches_bounds[of l l'] by (auto simp: scanned_def)

lemma scanned_blank [simp]: "scanned l (t\<lparr>tkBlankLinesBefore := n\<rparr>) l' = scanned l t l'"
  by (simp add: scanned_def)

lemma lexed_reaches: "lexed l ts l' \<Longrightarrow> reaches l l'"
  by (induction rule: lexed.induct) (auto simp: gap_def scanned_def intro: reaches_trans)

lemma gap_lexed:
  assumes "gap a b" "lexed b ts c" "lxOff a \<le> length (lxSrc a)"
  shows "lexed a ts c"
  using assms(2)
proof (cases rule: lexed.cases)
  case lexed_Nil
  then show ?thesis using assms gap_trans by (auto intro: lexed.lexed_Nil)
next
  case lexed_Cons
  then show ?thesis using assms gap_trans by (auto intro: lexed.lexed_Cons)
qed

lemma lexed_append:
  "lexed a ts b \<Longrightarrow> lexed b us c \<Longrightarrow> lxOff a \<le> length (lxSrc a) \<Longrightarrow> lexed a (ts @ us) c"
proof (induction rule: lexed.induct)
  case (lexed_Nil l l')
  then show ?case by (auto intro: gap_lexed)
next
  case (lexed_Cons l l0 t l1 ts l')
  have "lxOff l0 \<le> length (lxSrc l0)"
    using lexed_Cons.prems lexed_Cons.hyps(1) by (auto simp: gap_def dest: reaches_bounds)
  then show ?case using lexed_Cons scanned_bounds(1)[OF lexed_Cons.hyps(2)]
    by (auto intro: lexed.lexed_Cons)
qed


lemma gap_whitespace_byte:
  assumes "has_more l" "isWhitespace (cur_byte l)"
  shows "gap l (advanceByte l)"
  using assms by (simp add: gap_def ascii_isWhitespace)
    (simp add: slice_Suc has_more_def cur_byte_def)

lemma has_more_le: "has_more l \<Longrightarrow> lxOff l \<le> length (lxSrc l)"
  by (simp add: has_more_def)

lemma gap_scanWhitespace_loop: "gap l (snd (scanWhitespace_loop n l))"
proof (induction n l rule: scanWhitespace_loop.induct)
  case (1 n l)
  show ?case
  proof (cases "has_more l \<and> isWhitespace (cur_byte l)")
    case True
    then have g: "gap l (advanceByte l)" and b: "lxOff l \<le> length (lxSrc l)"
      by (simp_all add: gap_whitespace_byte has_more_le)
    show ?thesis
    proof (cases "cur_byte l = CR")
      case cr: True
      define l2 where "l2 = (if has_more (advanceByte l) \<and> cur_byte (advanceByte l) = LF
                             then advanceByte (advanceByte l) else advanceByte l)"
      have "gap (advanceByte l) l2"
        by (auto simp: l2_def isWhitespace_def intro: gap_whitespace_byte simp del: has_more_next)
      then have "gap l l2" using g b by (blast intro: gap_trans)
      moreover have "gap l2 (snd (scanWhitespace_loop (n + 1) l2))"
        using 1(2)[OF _ _ cr refl] True cr by (simp add: l2_def del: has_more_next)
      ultimately have "gap l (snd (scanWhitespace_loop (n + 1) l2))" using b by (blast intro: gap_trans)
      then show ?thesis using True cr
        by (simp add: scanWhitespace_loop.simps[of n l] Let_def l2_def del: has_more_next)
    next
      case False
      then show ?thesis using True "1.IH"(1) "1.IH"(3)
        by (auto simp: isWhitespace_def scanWhitespace_loop.simps[of n l] intro!: gap_trans[OF g] b)
    qed
  next
    case False
    then show ?thesis by (auto simp: isWhitespace_def scanWhitespace_loop.simps[of n l])
  qed
qed

lemma lexed_refl [simp]: "lexed l [] l"
  by (simp add: lexed.lexed_Nil)

text \<open>One comment of the trivia, and the rest of the loop.\<close>

lemma trivia_comment:
  assumes s: "scanned l t l1" and k: "IsComment (tkKind t)" and b: "lxOff l \<le> length (lxSrc l)"
    and IH: "lxOff l1 \<le> length (lxSrc l1) \<Longrightarrow>
      \<exists>new. cs' = cs @ [t\<lparr>tkBlankLinesBefore := bl\<rparr>] @ new \<and> lexed l1 new l' \<and> at_token l' \<and>
        (\<forall>x \<in> set new. IsComment (tkKind x))"
  shows "\<exists>new. cs' = cs @ new \<and> lexed l new l' \<and> at_token l' \<and> (\<forall>x \<in> set new. IsComment (tkKind x))"
proof -
  obtain new where n: "cs' = cs @ [t\<lparr>tkBlankLinesBefore := bl\<rparr>] @ new" "lexed l1 new l'" "at_token l'"
    "\<forall>x \<in> set new. IsComment (tkKind x)"
    using IH scanned_bounds(1)[OF s b] by blast
  have "tkKind t \<noteq> TokenEOF" using k by (auto simp: IsComment_def)
  then have "lexed l (t\<lparr>tkBlankLinesBefore := bl\<rparr> # new) l'"
    using s n(2) by (intro lexed.lexed_Cons[OF gap_refl]) auto
  then show ?thesis using n k by (intro exI[of _ "t\<lparr>tkBlankLinesBefore := bl\<rparr> # new"]) auto
qed

lemma scanTrivia_loop_spec:
  "scanTrivia_loop bl cs l = (bl', cs', l') \<Longrightarrow> lxOff l \<le> length (lxSrc l) \<Longrightarrow>
   \<exists>new. cs' = cs @ new \<and> lexed l new l' \<and> at_token l' \<and> (\<forall>t \<in> set new. IsComment (tkKind t))"
proof (induction bl cs l rule: scanTrivia_loop.induct)
  case (1 bl cs l)
  let ?c = "cur_byte l"
  consider (stop) "\<not> has_more l"
    | (ws) "has_more l" "isWhitespace ?c"
    | (line) "has_more l" "\<not> isWhitespace ?c" "(?c = CHR ''/'' \<and> peekByte l 1 = CHR ''/'') \<or> ?c = CHR ''#''"
    | (block) "has_more l" "\<not> isWhitespace ?c"
        "\<not> ((?c = CHR ''/'' \<and> peekByte l 1 = CHR ''/'') \<or> ?c = CHR ''#'')"
        "?c = CHR ''/'' \<and> peekByte l 1 = CHR ''*''"
    | (other) "has_more l" "\<not> isWhitespace ?c"
        "\<not> ((?c = CHR ''/'' \<and> peekByte l 1 = CHR ''/'') \<or> ?c = CHR ''#'')"
        "\<not> (?c = CHR ''/'' \<and> peekByte l 1 = CHR ''*'')"
    by blast
  then show ?case
  proof cases
    case stop
    then show ?thesis using "1.prems"
      by (auto simp: scanTrivia_loop.simps[of bl cs l] at_token_def)
  next
    case ws
    obtain n l1 where w: "scanWhitespace l = (n, l1)" by fastforce
    have g: "gap l l1" using gap_scanWhitespace_loop[of l 0] w by (simp add: scanWhitespace_def)
    then have "lxOff l1 \<le> length (lxSrc l1)" using "1.prems" by (auto simp: gap_def dest: reaches_bounds)
    moreover have "scanTrivia_loop (bl + n) cs l1 = (bl', cs', l')"
      using "1.prems" ws w by (simp add: scanTrivia_loop.simps[of bl cs l] Let_def)
    ultimately show ?thesis using "1.IH"(1)[OF _ refl ws(2) w[symmetric] refl] ws(1) gap_lexed[OF g] "1.prems"(2)
      by blast
  next
    case line
    obtain t l1 where w: "scanLineComment l = (t, l1)" by fastforce
    have "scanTrivia_loop 0 (cs @ [t\<lparr>tkBlankLinesBefore := bl\<rparr>]) l1 = (bl', cs', l')"
      using "1.prems" line w by (simp add: scanTrivia_loop.simps[of bl cs l] Let_def)
    then show ?thesis
      using "1.IH"(2)[OF _ refl line(2,3) w[symmetric] refl] line scanned_scanLineComment[OF line(1,2) w] "1.prems"(2)
      by (intro trivia_comment[of l t l1]) (auto simp: IsComment_def)
  next
    case block
    obtain t l1 where w: "scanBlockComment l = (t, l1)" by fastforce
    have "scanTrivia_loop 0 (cs @ [t\<lparr>tkBlankLinesBefore := bl\<rparr>]) l1 = (bl', cs', l')"
      using "1.prems" block w by (simp add: scanTrivia_loop.simps[of bl cs l] Let_def)
    then show ?thesis
      using "1.IH"(3)[OF _ refl block(2,3,4) w[symmetric] refl] block scanned_scanBlockComment[OF _ _ w] "1.prems"(2)
      by (intro trivia_comment[of l t l1]) (auto simp: IsComment_def)
  next
    case other
    then show ?thesis using "1.prems"
      by (auto simp: scanTrivia_loop.simps[of bl cs l] at_token_def Let_def)
  qed
qed

lemma unread_scanTrivia:
  assumes "scanTrivia l = (bl, cs, l')"
  shows "unread l' \<le> unread l"
proof (cases "has_more l")
  case True
  then show ?thesis
    using scanTrivia_loop_spec[OF assms[unfolded scanTrivia_def]] has_more_le[OF True]
    by (auto intro: reaches_unread[OF lexed_reaches])
next
  case False
  then show ?thesis using assms by (simp add: scanTrivia_def scanTrivia_loop.simps[of 0 "[]" l])
qed

lemma unread_scanToken:
  assumes "scanToken l = (t, l')" "tkKind t \<noteq> TokenEOF"
  shows "unread l' < unread l"
proof -
  have b: "lxOff l \<le> length (lxSrc l)"
    using assms by (cases "has_more l") (auto simp: has_more_le scanToken.simps[of l])
  obtain l0 where l0: "reaches l l0" "token_at l0 t l'" using scanToken_spec[OF b assms(1)] by blast
  then have "unread l' < unread l0"
    using assms(2) by (auto simp: token_at_def eof_token_def intro: scanned_unread)
  then show ?thesis using reaches_unread[OF l0(1) b] by simp
qed

function run_loop :: "Token list \<Rightarrow> lexer \<Rightarrow> Token list \<times> lexer" where
  "run_loop tokens l =
     (let (blankLines, comments, l1) = scanTrivia l;
          (tok, l2) = scanToken l1;
          tokens' = tokens @ comments @ [tok\<lparr>tkBlankLinesBefore := blankLines\<rparr>]
      in if tkKind tok = TokenEOF then (tokens', l2) else run_loop tokens' l2)"
  by pat_completeness auto
termination
  by (relation "measure (\<lambda>(ts, l). unread l)")
     (auto dest!: unread_scanTrivia[OF sym] unread_scanToken[OF sym])

declare run_loop.simps [simp del]

definition lexer_run :: "lexer \<Rightarrow> Token list \<times> lexer" where
  "lexer_run l = run_loop [] (l\<lparr>lxLine := 1, lxCol := 1\<rparr>)"

definition new_lexer :: "bytes \<Rightarrow> lexer" where
  "new_lexer src = \<lparr>lxSrc = src, lxOff = 0, lxLine = 0, lxCol = 0, lxErrs = [], lxPanic = False\<rparr>"

definition Lex :: "bytes \<Rightarrow> Token list \<times> Error list" where
  "Lex src = (let (toks, l) = lexer_run (new_lexer src) in (toks, lxErrs l))"

text \<open>The same run, with a panic of the lexer as \<open>None\<close>.\<close>

definition Lex_checked :: "bytes \<Rightarrow> (Token list \<times> Error list) option" where
  "Lex_checked src = (let (toks, l) = lexer_run (new_lexer src) in if lxPanic l then None else Some (toks, lxErrs l))"

end
