(* ===== verification/SourcePos.thy ===== *)
theory SourcePos imports Utf8
begin

text \<open>
  Reference definitions of source positions, independent of the lexer's
  bookkeeping: line terminators (\<open>\n\<close>, a lone \<open>\r\<close>, \<open>\r\n\<close> once), the start of
  the line holding an offset, and the rune-aligned offsets of a string.
\<close>

section \<open>Rune-aligned offsets\<close>

text \<open>\<open>aligned s k\<close>: decoding runes from the start of \<open>s\<close> hits offset \<open>k\<close>.\<close>

function aligned :: "bytes \<Rightarrow> nat \<Rightarrow> bool" where
  "aligned s k =
     (if k = 0 then True
      else if s = [] \<or> k < rune_size s then False
      else aligned (drop (rune_size s) s) (k - rune_size s))"
  by pat_completeness auto
termination
  by (relation "measure (\<lambda>(s, k). length s)") (auto simp: rune_size_pos')

declare aligned.simps [simp del]

lemma aligned_0 [simp]: "aligned s 0"
  by (simp add: aligned.simps)

lemma aligned_step:
  "s \<noteq> [] \<Longrightarrow> k \<noteq> 0 \<Longrightarrow>
   aligned s k \<longleftrightarrow> rune_size s \<le> k \<and> aligned (drop (rune_size s) s) (k - rune_size s)"
  by (subst aligned.simps) auto

lemma aligned_le: "aligned s k \<Longrightarrow> k \<le> length s"
proof (induction s k rule: aligned.induct)
  case (1 s k)
  from "1.prems" have "k = 0 \<or> s \<noteq> []" by (auto simp: aligned.simps[of s k] split: if_splits)
  then show ?case using 1 rune_size_le[of s]
    by (cases "k = 0 \<or> s = [] \<or> k < rune_size s") (auto simp: aligned.simps[of s k])
qed

lemma decode_rune_short:
  "lead_info (byte c) = Some (n, lo, hi) \<Longrightarrow> length (c # r) < n \<Longrightarrow> \<not> byte c < rune_self \<Longrightarrow>
   decode_rune (c # r) = (rune_error, 1)"
  by (simp add: decode_rune_def Let_def)

text \<open>Decoding looks no further than the rune it returns.\<close>

lemma decode_rune_take:
  assumes "rune_size s \<le> m" "0 < m"
  shows "decode_rune (take m s) = decode_rune s"
proof (cases s)
  case (Cons c r)
  show ?thesis
  proof (cases "lead_info (byte c)")
    case None
    then show ?thesis using assms Cons
      by (cases m) (simp_all add: decode_rune_def Let_def)
  next
    case (Some t)
    obtain n lo hi where t: "t = (n, lo, hi)" by (cases t) auto
    have n: "n \<in> {2, 3, 4}" using lead_info_SomeD[of "byte c" n lo hi] Some t by simp
    have dec: "decode_rune s = (rune_error, 1) \<or> snd (decode_rune s) = n \<or> byte c < rune_self"
      using Some t n Cons by (auto simp: decode_rune_def Let_def)
    show ?thesis
    proof (cases "n \<le> m")
      case True
      then have "(take m s) ! 1 = s ! 1" "2 < n \<Longrightarrow> (take m s) ! 2 = s ! 2" "3 < n \<Longrightarrow> (take m s) ! 3 = s ! 3"
        "take m s = c # take (m - 1) r"
        "length (take m s) < n \<longleftrightarrow> length s < n"
        using n Cons True by (auto simp: take_Cons' min_def)
      then show ?thesis using Some t n Cons
        by (auto simp: decode_rune_def Let_def)
    next
      case False
      then have e: "decode_rune s = (rune_error, 1)" if "\<not> byte c < rune_self" using dec assms that by auto
      have tk: "take m (c # r) = c # take (m - 1) r" using assms by (cases m) auto
      show ?thesis
      proof (cases "byte c < rune_self")
        case True
        then show ?thesis unfolding Cons tk by (simp add: decode_rune_def)
      next
        case asc: False
        have "length (c # take (m - 1) r) < n" using False n assms by auto
        then show ?thesis using decode_rune_short[OF Some[unfolded t], of "take (m - 1) r"] asc e
          unfolding Cons tk by simp
      qed
    qed
  qed
qed simp

lemma rune_count_take_step:
  assumes "s \<noteq> []" "rune_size s \<le> k" "k \<noteq> 0"
  shows "rune_count (take k s) = Suc (rune_count (take (k - rune_size s) (drop (rune_size s) s)))"
proof -
  have "decode_rune (take k s) = decode_rune s" using assms by (simp add: decode_rune_take)
  moreover have "take k s \<noteq> []" using assms by simp
  ultimately show ?thesis by (simp add: rune_count_step drop_take)
qed

text \<open>One more rune after an aligned offset.\<close>

lemma aligned_next:
  "aligned s k \<Longrightarrow> k < length s \<Longrightarrow>
   aligned s (k + rune_size (drop k s)) \<and>
   rune_count (take (k + rune_size (drop k s)) s) = Suc (rune_count (take k s))"
proof (induction s k rule: aligned.induct)
  case (1 s k)
  have s: "s \<noteq> []" using "1.prems" by auto
  show ?case
  proof (cases "k = 0")
    case True
    then show ?thesis using s
      by (simp add: aligned_step rune_count_take_step rune_size_pos')
  next
    case False
    let ?n = "rune_size s"
    have a: "?n \<le> k" "aligned (drop ?n s) (k - ?n)" using "1.prems" s False by (simp_all add: aligned_step)
    have "k - ?n < length (drop ?n s)" using "1.prems" a rune_size_pos'[OF s] by simp
    note IH = "1.IH"[OF False _ a(2) this]
    have d: "drop (k - ?n) (drop ?n s) = drop k s" using a by simp
    have "k - ?n + rune_size (drop k s) = k + rune_size (drop k s) - ?n" using a by simp
    then show ?thesis using IH[unfolded d] s a False "1.prems"
      by (simp add: aligned_step rune_count_take_step)
  qed
qed

section \<open>Lines\<close>

definition is_break :: "bytes \<Rightarrow> nat \<Rightarrow> bool" where
  "is_break src i \<longleftrightarrow> i < length src \<and>
     (src ! i = LF \<or> src ! i = CR \<and> \<not> (i + 1 < length src \<and> src ! (i + 1) = LF))"

definition line_of :: "bytes \<Rightarrow> nat \<Rightarrow> nat" where
  "line_of src n = 1 + length (filter (is_break src) [0..<n])"

fun line_start :: "bytes \<Rightarrow> nat \<Rightarrow> nat" where
  "line_start src 0 = 0"
| "line_start src (Suc i) = (if is_break src i then Suc i else line_start src i)"

definition col_of :: "bytes \<Rightarrow> nat \<Rightarrow> nat" where
  "col_of src n = 1 + rune_count (slice (line_start src n) n src)"

text \<open>The \<open>\r\<close> of a \<open>\r\n\<close> at the end of a line is not counted by the lexer.\<close>

definition after_cr :: "bytes \<Rightarrow> nat \<Rightarrow> bool" where
  "after_cr src n \<longleftrightarrow> 0 < n \<and> n < length src \<and> src ! (n - 1) = CR \<and> src ! n = LF"

lemma line_start_le: "line_start src n \<le> n"
  by (induction n) auto

lemma line_of_add:
  "line_of src (n + k) = line_of src n + length (filter (is_break src) [n..<n + k])"
  using upt_add_eq_append[of 0 n k] by (simp add: line_of_def)

lemma line_start_skip:
  "\<forall>j. i \<le> j \<and> j < i + k \<longrightarrow> \<not> is_break src j \<Longrightarrow> line_start src (i + k) = line_start src i"
proof (induction k)
  case (Suc k)
  then have "\<not> is_break src (i + k)" by simp
  then show ?case using Suc by simp
qed simp

lemma line_of_skip:
  "\<forall>j. i \<le> j \<and> j < i + k \<longrightarrow> \<not> is_break src j \<Longrightarrow> line_of src (i + k) = line_of src i"
proof -
  assume "\<forall>j. i \<le> j \<and> j < i + k \<longrightarrow> \<not> is_break src j"
  then have "filter (is_break src) [i..<i + k] = []" by (subst filter_empty_conv) auto
  then show ?thesis by (simp only: line_of_add list.size)
qed

end
