(* ===== verification/LexerProps.thy ===== *)
theory LexerProps imports Lexer SourcePos
begin

text \<open>
  What \<open>Lex\<close> guarantees its callers: the stream ends in one end-of-file token,
  the tokens are ordered slices of the source, nothing but whitespace is
  dropped unless an error is reported, and lines and columns agree with the
  reference definitions of \<open>SourcePos\<close>.
\<close>

section \<open>The whole run\<close>

lemma run_loop_spec:
  "run_loop toks l = (toks', l') \<Longrightarrow> lxOff l \<le> length (lxSrc l) \<Longrightarrow>
   \<exists>ts n. toks' = toks @ ts @ [(eof_token l')\<lparr>tkBlankLinesBefore := n\<rparr>] \<and> lexed l ts l' \<and> \<not> has_more l'"
proof (induction toks l rule: run_loop.induct)
  case (1 toks l)
  obtain bl cs l1 where tr: "scanTrivia l = (bl, cs, l1)" by (cases "scanTrivia l") auto
  obtain t l2 where tk: "scanToken l1 = (t, l2)" by fastforce
  obtain cs: "lexed l cs l1" and at: "at_token l1"
    using scanTrivia_loop_spec[OF tr[unfolded scanTrivia_def] "1.prems"(2)] by auto
  have b1: "lxOff l1 \<le> length (lxSrc l1)"
    using reaches_bounds[OF lexed_reaches[OF cs] "1.prems"(2)] by simp
  obtain l0 where l0: "reaches l1 l0" "token_at l0 t l2" "l0 = l1 \<or> strict_prefix (lxErrs l1) (lxErrs l0)"
    using scanToken_spec[OF b1 tk] at by blast
  have g: "gap l1 l0" using l0 gap_error by auto
  have run: "run_loop toks l =
     (if tkKind t = TokenEOF then (toks @ cs @ [t\<lparr>tkBlankLinesBefore := bl\<rparr>], l2)
      else run_loop (toks @ cs @ [t\<lparr>tkBlankLinesBefore := bl\<rparr>]) l2)"
    using tr tk by (simp add: run_loop.simps[of toks l])
  show ?case
  proof (cases "tkKind t = TokenEOF")
    case True
    then have e: "\<not> has_more l0" "l2 = l0" "t = eof_token l0" using l0(2) by (auto simp: token_at_def)
    have "lexed l cs l2" using lexed_append[OF cs lexed_Nil[OF g] "1.prems"(2)] e by simp
    then show ?thesis using True run "1.prems"(1) e by auto
  next
    case False
    then have s: "scanned l0 t l2" using l0(2) by (auto simp: token_at_def eof_token_def)
    have b0: "lxOff l0 \<le> length (lxSrc l0)" using reaches_bounds[OF l0(1) b1] by simp
    obtain ts n where ts: "toks' = (toks @ cs @ [t\<lparr>tkBlankLinesBefore := bl\<rparr>]) @ ts @
        [(eof_token l')\<lparr>tkBlankLinesBefore := n\<rparr>]" "lexed l2 ts l'" "\<not> has_more l'"
      using "1.IH"[OF tr[symmetric] refl refl tk[symmetric] refl refl False] run False "1.prems"(1)
        scanned_bounds(1)[OF s b0] by auto
    have "lexed l1 (t\<lparr>tkBlankLinesBefore := bl\<rparr> # ts) l'"
      using False s ts(2) by (intro lexed.lexed_Cons[OF g]) auto
    from lexed_append[OF cs this "1.prems"(2)] show ?thesis using ts by auto
  qed
qed

definition start_lexer :: "bytes \<Rightarrow> lexer" where
  "start_lexer src = (new_lexer src)\<lparr>lxLine := 1, lxCol := 1\<rparr>"

lemma start_lexer_simps [simp]:
  "lxSrc (start_lexer src) = src" "lxOff (start_lexer src) = 0" "lxErrs (start_lexer src) = []"
  "lxLine (start_lexer src) = 1" "lxCol (start_lexer src) = 1" "\<not> lxPanic (start_lexer src)"
  by (simp_all add: start_lexer_def new_lexer_def)

lemma lexer_run_cases:
  obtains ts n l where
    "lexer_run (new_lexer src) = (ts @ [(eof_token l)\<lparr>tkBlankLinesBefore := n\<rparr>], l)"
    "lexed (start_lexer src) ts l" "\<not> has_more l" "lxSrc l = src" "lxOff l = length src" "\<not> lxPanic l"
proof -
  obtain toks l where r: "run_loop [] (start_lexer src) = (toks, l)" by fastforce
  obtain ts n where ts: "toks = ts @ [(eof_token l)\<lparr>tkBlankLinesBefore := n\<rparr>]"
    "lexed (start_lexer src) ts l" "\<not> has_more l"
    using run_loop_spec[OF r] by auto
  note b = reaches_bounds[OF lexed_reaches[OF ts(2)]]
  have "lxSrc l = src" "lxOff l \<le> length src" "\<not> lxPanic l" using b by auto
  then show ?thesis using that[of ts n l] r ts by (simp add: lexer_run_def start_lexer_def has_more_def)
qed

section \<open>Tiling\<close>

definition tkEnd :: "Token \<Rightarrow> nat" where
  "tkEnd t = tkOffset t + length (tkText t)"

text \<open>
  From offset \<open>i\<close> on, the tokens are non-empty slices of the source in order;
  with \<open>clean\<close>, only whitespace lies between them.
\<close>

fun tiles :: "bool \<Rightarrow> bytes \<Rightarrow> nat \<Rightarrow> Token list \<Rightarrow> nat \<Rightarrow> bool" where
  "tiles clean src i [] k \<longleftrightarrow> i \<le> k \<and> k \<le> length src \<and> (clean \<longrightarrow> (\<forall>c \<in> set (slice i k src). isWhitespace c))"
| "tiles clean src i (t # ts) k \<longleftrightarrow>
     i \<le> tkOffset t \<and> (clean \<longrightarrow> (\<forall>c \<in> set (slice i (tkOffset t) src). isWhitespace c)) \<and>
     tkText t \<noteq> [] \<and> tkText t = slice (tkOffset t) (tkEnd t) src \<and> \<not> isWhitespace (hd (tkText t)) \<and>
     tkKind t \<noteq> TokenEOF \<and> tiles clean src (tkEnd t) ts k"

lemma tiles_bounds: "tiles clean src i ts k \<Longrightarrow> i \<le> k \<and> k \<le> length src"
proof (induction ts arbitrary: i)
  case (Cons t ts)
  then have "tkEnd t \<le> k \<and> k \<le> length src" "i \<le> tkOffset t" by auto
  then show ?case by (simp add: tkEnd_def)
qed auto

lemma tiles_weaken: "tiles clean src i ts k \<Longrightarrow> tiles False src i ts k"
  by (induction ts arbitrary: i) auto

lemma hd_slice: "i < j \<Longrightarrow> i < length s \<Longrightarrow> hd (slice i j s) = s ! i"
  by (simp add: slice_def hd_drop_conv_nth)

lemma lexed_tiles:
  "lexed l ts l' \<Longrightarrow> lxOff l \<le> length (lxSrc l) \<Longrightarrow>
   tiles (lxErrs l' = lxErrs l) (lxSrc l) (lxOff l) ts (lxOff l')"
proof (induction rule: lexed.induct)
  case (lexed_Nil l l')
  then show ?case using reaches_bounds[of l l'] by (auto simp: gap_def)
next
  case (lexed_Cons l l0 t l1 ts l')
  have r: "reaches l l0" using lexed_Cons by (simp add: gap_def)
  note b0 = reaches_bounds[OF r lexed_Cons.prems]
  note b1 = scanned_bounds[OF lexed_Cons.hyps(2) b0(3)]
  note b2 = reaches_bounds[OF lexed_reaches[OF lexed_Cons.hyps(4)] b1(1)]
  have IH: "tiles (lxErrs l' = lxErrs l1) (lxSrc l) (lxOff l1) ts (lxOff l')"
    using lexed_Cons.IH b0 b1 by simp
  have eq: "lxErrs l0 = lxErrs l \<and> lxErrs l' = lxErrs l1" if "lxErrs l' = lxErrs l"
    using that b0(5) b1(4) b2(5) by (metis prefix_order.antisym prefix_order.trans)
  have t: "tkText t = slice (lxOff l0) (lxOff l1) (lxSrc l)" "lxOff l0 < lxOff l1" "tkOffset t = lxOff l0"
    "\<not> isWhitespace (lxSrc l ! lxOff l0)"
    using lexed_Cons.hyps(2) b0 by (auto simp: scanned_def cur_byte_def)
  have e: "tkEnd t = lxOff l1" using t b1 b0 by (simp add: tkEnd_def)
  have "length (tkText t) > 0" using t b1 b0 by simp
  then have ne: "tkText t \<noteq> []" by simp
  have hd: "hd (tkText t) = lxSrc l ! lxOff l0" using t b1 b0 by (simp add: hd_slice)
  show ?case
  proof (cases "lxErrs l' = lxErrs l")
    case True
    then show ?thesis using eq[OF True] IH ne hd t e b0 lexed_Cons.hyps(1,3) by (simp add: gap_def)
  next
    case False
    then show ?thesis using tiles_weaken[OF IH] ne hd t e b0 lexed_Cons.hyps(3) by simp
  qed
qed

section \<open>Positions\<close>

definition pos_ok :: "lexer \<Rightarrow> bool" where
  "pos_ok l \<longleftrightarrow> lxOff l \<le> length (lxSrc l) \<and> lxLine l = line_of (lxSrc l) (lxOff l) \<and>
     aligned (drop (line_start (lxSrc l) (lxOff l)) (lxSrc l)) (lxOff l - line_start (lxSrc l) (lxOff l)) \<and>
     lxCol l + (if after_cr (lxSrc l) (lxOff l) then 1 else 0) = col_of (lxSrc l) (lxOff l)"

lemma line_of_Suc: "line_of src (Suc n) = line_of src n + (if is_break src n then 1 else 0)"
  by (simp add: line_of_def)

lemma decode_rune_byte:
  assumes "n < length s" "decode_rune (drop n s) = (r, k)"
  shows "s ! n = LF \<longleftrightarrow> r = byte LF" "s ! n = CR \<longleftrightarrow> r = byte CR"
    "s ! n = LF \<or> s ! n = CR \<Longrightarrow> k = 1"
proof -
  have d: "decode_rune (s ! n # drop (Suc n) s) = (r, k)"
    using assms by (simp add: Cons_nth_drop_Suc)
  have low: "byte LF < rune_self" "byte CR < rune_self" by (simp_all add: byte_def rune_self_def)
  show lf: "s ! n = LF \<longleftrightarrow> r = byte LF" and cr: "s ! n = CR \<longleftrightarrow> r = byte CR"
    using decode_rune_high[of "s ! n" "drop (Suc n) s"] low d decode_rune_ascii[of "s ! n # drop (Suc n) s"]
    by (cases "byte (s ! n) < rune_self"; auto simp: byte_inj)+
  show "k = 1" if "s ! n = LF \<or> s ! n = CR"
    using that d lf cr low decode_rune_low(2)[of "s ! n" "drop (Suc n) s"] by auto
qed

text \<open>No line terminator inside a rune that is none itself.\<close>

lemma rune_no_break:
  assumes "n < length s" "s ! n \<noteq> LF" "s ! n \<noteq> CR" "n \<le> j" "j < n + rune_size (drop n s)"
  shows "s ! j \<noteq> LF" "s ! j \<noteq> CR"
proof -
  have "cont_byte (byte (s ! j))" if "j \<noteq> n"
    using rune_size_cont[of "j - n" "drop n s"] assms that by (simp add: nth_drop)
  then show "s ! j \<noteq> LF" "s ! j \<noteq> CR"
    using assms(2,3) by (cases "j = n"; auto simp: cont_byte_def byte_def)+
qed

lemma col_of_step:
  assumes "n < length src" "line_start src (n + k) = line_start src n" "k = rune_size (drop n src)"
    "aligned (drop (line_start src n) src) (n - line_start src n)"
  shows "col_of src (n + k) = Suc (col_of src n)"
    "aligned (drop (line_start src n) src) (n + k - line_start src n)"
proof -
  let ?b = "line_start src n"
  have b: "?b \<le> n" by (rule line_start_le)
  have "n - ?b < length (drop ?b src)" using assms(1) b by simp
  note st = aligned_next[OF assms(4) this]
  have d: "drop (n - ?b) (drop ?b src) = drop n src" using b by simp
  have e: "n - ?b + k = n + k - ?b" using b by simp
  show "aligned (drop ?b src) (n + k - ?b)" using st unfolding d assms(3)[symmetric] e by simp
  show "col_of src (n + k) = Suc (col_of src n)"
    using st unfolding d assms(3)[symmetric] e by (simp add: col_of_def assms(2) slice_def)
qed

lemma pos_ok_advanceRune:
  assumes "pos_ok l" "has_more l"
  shows "pos_ok (advanceRune l)"
proof -
  define src n where "src = lxSrc l" and "n = lxOff l"
  obtain r k where d: "decode_rune (drop n src) = (r, k)" by fastforce
  have n: "n < length src" using assms(2) by (simp add: has_more_def src_def n_def)
  have k: "k = rune_size (drop n src)" using d by simp
  have le: "n + k \<le> length src" using rune_size_le[of "drop n src"] n k by auto
  note dr = decode_rune_byte[OF n d]
  have ok: "lxLine l = line_of src n" "aligned (drop (line_start src n) src) (n - line_start src n)"
    "lxCol l + (if after_cr src n then 1 else 0) = col_of src n"
    using assms(1) by (auto simp: pos_ok_def src_def n_def)
  have adv: "lxSrc (advanceRune l) = src" "lxOff (advanceRune l) = n + k"
    using assms(2) k by (simp_all add: src_def n_def)
  consider (brk) "is_break src n" | (crlf) "src ! n = CR" "\<not> is_break src n" | (plain) "src ! n \<noteq> LF" "src ! n \<noteq> CR"
    using n by (auto simp: is_break_def)
  then show ?thesis
  proof cases
    case brk
    then have "k = 1" using dr(3) by (auto simp: is_break_def)
    moreover have "lxLine (advanceRune l) = Suc (lxLine l)" "lxCol (advanceRune l) = 1"
      using brk d dr(1,2) \<open>k = 1\<close> n
      by (auto simp: advanceRune_def is_break_def src_def[symmetric] n_def[symmetric] Let_def)
    ultimately show ?thesis using adv brk ok n
      by (auto simp: pos_ok_def line_of_Suc col_of_def after_cr_def is_break_def)
  next
    case crlf
    then have k1: "k = 1" and nx: "Suc n < length src" "src ! Suc n = LF" using dr(3) n by (auto simp: is_break_def)
    have "lxLine (advanceRune l) = lxLine l" "lxCol (advanceRune l) = lxCol l"
      using crlf d dr(1,2) k1 n nx
      by (auto simp: advanceRune_def src_def[symmetric] n_def[symmetric] Let_def byte_inj)
    moreover have "\<not> after_cr src n" "after_cr src (Suc n)" using crlf nx by (auto simp: after_cr_def)
    moreover have "line_start src (n + k) = line_start src n" using crlf k1 by simp
    note col_of_step[OF n this k ok(2)]
    ultimately show ?thesis using adv ok n crlf k1
      by (simp add: pos_ok_def line_of_Suc)
  next
    case plain
    have nb: "\<forall>j. n \<le> j \<and> j < n + k \<longrightarrow> src ! j \<noteq> LF \<and> src ! j \<noteq> CR"
      using rune_no_break[OF n plain] k by blast
    then have nb': "\<forall>j. n \<le> j \<and> j < n + k \<longrightarrow> \<not> is_break src j" by (auto simp: is_break_def)
    have "lxLine (advanceRune l) = lxLine l" "lxCol (advanceRune l) = Suc (lxCol l)"
      using plain d dr(1,2) n
      by (auto simp: advanceRune_def src_def[symmetric] n_def[symmetric] Let_def)
    moreover have "\<not> after_cr src n" using plain by (auto simp: after_cr_def)
    moreover have "0 < k" using n k rune_size_pos'[of "drop n src"] by simp
    then have "\<not> after_cr src (n + k)" using nb[rule_format, of "n + k - 1"] by (auto simp: after_cr_def)
    moreover note col_of_step[OF n line_start_skip[OF nb'] k ok(2)]
    ultimately show ?thesis using adv ok le line_of_skip[OF nb'] line_start_skip[OF nb']
      by (simp add: pos_ok_def)
  qed
qed

lemma pos_ok_reaches: "reaches l l' \<Longrightarrow> pos_ok l \<Longrightarrow> pos_ok l'"
proof (induction rule: reaches.induct)
  case (here l l')
  then show ?case by (simp add: same_place_def pos_ok_def)
qed (simp add: pos_ok_advanceRune)

definition pos_exact :: "bytes \<Rightarrow> Token \<Rightarrow> bool" where
  "pos_exact src t \<longleftrightarrow> tkLine t = line_of src (tkOffset t) \<and> tkCol t = col_of src (tkOffset t)"

lemma lexed_positions:
  "lexed l ts l' \<Longrightarrow> pos_ok l \<Longrightarrow> \<forall>t \<in> set ts. pos_exact (lxSrc l) t"
proof (induction rule: lexed.induct)
  case (lexed_Cons l l0 t l1 ts l')
  have r: "reaches l l0" and b: "lxOff l \<le> length (lxSrc l)"
    using lexed_Cons by (auto simp: gap_def pos_ok_def)
  note b0 = reaches_bounds[OF r b]
  have p0: "pos_ok l0" using pos_ok_reaches[OF r] lexed_Cons.prems by simp
  then have "pos_ok l1" using lexed_Cons.hyps(2) by (auto simp: scanned_def intro: pos_ok_reaches)
  then have "\<forall>t \<in> set ts. pos_exact (lxSrc l) t"
    using lexed_Cons.IH b0 scanned_bounds[OF lexed_Cons.hyps(2) b0(3)] by simp
  moreover have "\<not> after_cr (lxSrc l) (lxOff l0)"
    using lexed_Cons.hyps(2) b0(1) by (auto simp: scanned_def after_cr_def cur_byte_def isWhitespace_def)
  ultimately show ?case using p0 lexed_Cons.hyps(2) b0(1)
    by (auto simp: pos_exact_def pos_ok_def scanned_def)
qed simp

lemma pos_ok_start [simp]: "pos_ok (start_lexer src)"
  by (simp add: pos_ok_def line_of_def col_of_def after_cr_def)

section \<open>Properties of the stream\<close>

lemma Lex_cases:
  obtains ts e l where "Lex src = (ts @ [e], lxErrs l)" "lexed (start_lexer src) ts l"
    "tkKind e = TokenEOF" "tkText e = []" "tkOffset e = length src" "tkLine e = lxLine l" "tkCol e = lxCol l"
    "lxSrc l = src" "lxOff l = length src"
proof -
  obtain ts n l where "lexer_run (new_lexer src) = (ts @ [(eof_token l)\<lparr>tkBlankLinesBefore := n\<rparr>], l)"
    "lexed (start_lexer src) ts l" "lxSrc l = src" "lxOff l = length src"
    by (rule lexer_run_cases)
  then show ?thesis using that[of ts "(eof_token l)\<lparr>tkBlankLinesBefore := n\<rparr>" l]
    by (simp add: Lex_def eof_token_def)
qed

lemma tiles_kinds: "tiles clean src i ts k \<Longrightarrow> TokenEOF \<notin> tkKind ` set ts"
  by (induction ts arbitrary: i) auto

lemma tiles_sorted:
  "tiles clean src i ts k \<Longrightarrow>
   sorted_wrt (\<lambda>t u. tkEnd t \<le> tkOffset u) ts \<and> (\<forall>t \<in> set ts. i \<le> tkOffset t \<and> tkEnd t \<le> k)"
proof (induction ts arbitrary: i)
  case (Cons t ts)
  then have IH: "sorted_wrt (\<lambda>t u. tkEnd t \<le> tkOffset u) ts" "\<forall>u \<in> set ts. tkEnd t \<le> tkOffset u \<and> tkEnd u \<le> k"
    and le: "i \<le> tkOffset t" "tkEnd t \<le> k"
    using tiles_bounds[of clean src "tkEnd t" ts k] by auto
  moreover have "tkOffset t \<le> tkEnd t" by (simp add: tkEnd_def)
  ultimately show ?case by fastforce
qed simp

lemma tiles_slices:
  "tiles clean src i ts k \<Longrightarrow> t \<in> set ts \<Longrightarrow>
   tkText t = slice (tkOffset t) (tkEnd t) src \<and> tkText t \<noteq> [] \<and> \<not> isWhitespace (hd (tkText t))"
  by (induction ts arbitrary: i) auto

lemma Lex_tiles:
  obtains ts e where "fst (Lex src) = ts @ [e]" "tiles (snd (Lex src) = []) src 0 ts (length src)"
    "tkKind e = TokenEOF" "tkText e = []" "tkOffset e = length src"
proof -
  obtain ts e l where L: "Lex src = (ts @ [e], lxErrs l)" "lexed (start_lexer src) ts l"
    "tkKind e = TokenEOF" "tkText e = []" "tkOffset e = length src" "lxSrc l = src" "lxOff l = length src"
    by (rule Lex_cases)
  then show ?thesis using that[of ts e] lexed_tiles[OF L(2)] by simp
qed

definition interleave :: "bytes list \<Rightarrow> Token list \<Rightarrow> bytes" where
  "interleave gaps ts = concat (map2 (\<lambda>g t. g @ tkText t) gaps ts)"

lemma interleave_Nil [simp]: "interleave gs [] = []"
  by (simp add: interleave_def)

lemma interleave_Cons [simp]: "interleave (g # gs) (t # ts) = g @ tkText t @ interleave gs ts"
  by (simp add: interleave_def)

lemma tiles_interleave:
  "tiles True src i ts k \<Longrightarrow> tkText e = [] \<Longrightarrow>
   \<exists>gaps. length gaps = Suc (length ts) \<and> list_all (list_all isWhitespace) gaps \<and>
     interleave gaps (ts @ [e]) = slice i k src"
proof (induction ts arbitrary: i)
  case Nil
  then show ?case by (intro exI[of _ "[slice i k src]"]) (auto simp: list_all_iff)
next
  case (Cons t ts)
  then obtain gaps where g: "length gaps = Suc (length ts)" "list_all (list_all isWhitespace) gaps"
    "interleave gaps (ts @ [e]) = slice (tkEnd t) k src" by fastforce
  have b: "i \<le> tkOffset t" "tkOffset t \<le> tkEnd t" "tkEnd t \<le> k"
    using Cons.prems tiles_bounds[of True src "tkEnd t" ts k] by (auto simp: tkEnd_def)
  have "slice i (tkOffset t) src @ tkText t @ slice (tkEnd t) k src = slice i k src"
    using Cons.prems b slice_append[of "tkOffset t" "tkEnd t" k src] slice_append[of i "tkOffset t" k src]
    by (metis order.trans tiles.simps(2))
  then show ?case using g Cons.prems
    by (intro exI[of _ "slice i (tkOffset t) src # gaps"]) (auto simp: list_all_iff)
qed

text \<open>
  for every input the token stream ends in one end-of-file token, placed at
  the end of the source, and no other token is an end of file.
\<close>

lemma Lex_eof:
  "\<exists>ts e. fst (Lex src) = ts @ [e] \<and> tkKind e = TokenEOF \<and> tkText e = [] \<and>
     tkOffset e = length src \<and> TokenEOF \<notin> tkKind ` set ts"
proof -
  obtain ts e where "fst (Lex src) = ts @ [e]" "tiles (snd (Lex src) = []) src 0 ts (length src)"
    "tkKind e = TokenEOF" "tkText e = []" "tkOffset e = length src" by (rule Lex_tiles)
  then show ?thesis using tiles_kinds by blast
qed

text \<open>
  the tokens of the stream, comments included, are non-empty slices of the
  source at their recorded offsets, in source order and disjoint, and none starts
  with whitespace.
\<close>

lemma Lex_slices:
  "sorted_wrt (\<lambda>t u. tkEnd t \<le> tkOffset u) (fst (Lex src)) \<and>
   list_all (\<lambda>t. tkText t = slice (tkOffset t) (tkEnd t) src \<and> tkEnd t \<le> length src) (fst (Lex src)) \<and>
   list_all (\<lambda>t. tkText t \<noteq> [] \<and> \<not> isWhitespace (hd (tkText t))) (butlast (fst (Lex src)))"
proof -
  obtain ts e where L: "fst (Lex src) = ts @ [e]" "tiles (snd (Lex src) = []) src 0 ts (length src)"
    "tkKind e = TokenEOF" "tkText e = []" "tkOffset e = length src" by (rule Lex_tiles)
  note so = tiles_sorted[OF L(2)] and sl = tiles_slices[OF L(2)]
  have e: "tkEnd e = length src" using L by (simp add: tkEnd_def)
  have "sorted_wrt (\<lambda>t u. tkEnd t \<le> tkOffset u) (ts @ [e])"
    using so L(5) by (simp add: sorted_wrt_append)
  moreover have "tkText t = slice (tkOffset t) (tkEnd t) src \<and> tkEnd t \<le> length src" if "t \<in> set (ts @ [e])" for t
    using that so sl[of t] e L(4,5) by (cases "t = e") (simp, auto)
  moreover have "tkText t \<noteq> [] \<and> \<not> isWhitespace (hd (tkText t))" if "t \<in> set ts" for t
    using that sl by blast
  ultimately show ?thesis unfolding L(1) list_all_iff by (simp only: butlast_snoc) blast
qed

text \<open>
  C28: losslessness: when no lexical error is reported, the source is the
  concatenation of the token texts with only whitespace between them.
\<close>

lemma Lex_lossless:
  assumes "snd (Lex src) = []"
  shows "\<exists>gaps. length gaps = length (fst (Lex src)) \<and> list_all (list_all isWhitespace) gaps \<and>
     interleave gaps (fst (Lex src)) = src"
proof -
  obtain ts e where L: "fst (Lex src) = ts @ [e]" "tiles (snd (Lex src) = []) src 0 ts (length src)"
    "tkText e = []" by (rule Lex_tiles)
  then show ?thesis using tiles_interleave[of src 0 ts "length src" e] assms by simp
qed

lemma Lex_lossless_witness:
  "\<exists>gaps. length gaps = 10 \<and> list_all (list_all isWhitespace) gaps \<and>
     interleave gaps (fst (Lex ''struct A { 1: i32 x } // 'c' /* d */ 0x1F'')) =
     ''struct A { 1: i32 x } // 'c' /* d */ 0x1F''"
proof -
  have e: "snd (Lex ''struct A { 1: i32 x } // 'c' /* d */ 0x1F'') = []" by code_simp
  have "length (fst (Lex ''struct A { 1: i32 x } // 'c' /* d */ 0x1F'')) = 10" by code_simp
  with Lex_lossless[OF e] show ?thesis by simp
qed

text \<open>
  C18: the line and column of every token (end of file included) are the
  reference line (line terminators before it: LF, CR, CRLF once) and the reference
  rune column of its offset.
\<close>

lemma Lex_positions: "list_all (pos_exact src) (fst (Lex src))"
proof -
  obtain ts e l where L: "Lex src = (ts @ [e], lxErrs l)" "lexed (start_lexer src) ts l"
    "tkOffset e = length src" "tkLine e = lxLine l" "tkCol e = lxCol l" "lxSrc l = src" "lxOff l = length src"
    by (rule Lex_cases)
  have "pos_ok l" by (rule pos_ok_reaches[OF lexed_reaches[OF L(2)]]) simp
  then have "pos_exact src e" using L by (simp add: pos_ok_def pos_exact_def after_cr_def)
  then show ?thesis using lexed_positions[OF L(2)] L(1) by (simp add: list_all_iff)
qed

text \<open>
  the lexer never indexes or slices its source out of range, whatever the input.
\<close>

lemma Lex_no_panic: "\<not> lxPanic (snd (lexer_run (new_lexer src)))"
  by (rule lexer_run_cases[of src]) simp

lemma Lex_checked_total: "Lex_checked src = Some (Lex src)"
  using Lex_no_panic[of src] by (cases "lexer_run (new_lexer src)") (simp add: Lex_checked_def Lex_def)

end
