(* ===== verification/NumberProps.thy ===== *)
theory NumberProps imports LexerProps
begin

text \<open>
  The word and number scanners of \<open>syntax/lexer.go\<close> against reference
  definitions: identifiers and keywords, and the lexeme classes that the
  comments of \<open>matchInt\<close>, \<open>matchHex\<close> and \<open>matchDouble\<close> give as regular
  expressions.
\<close>

section \<open>Words\<close>

definition is_word :: "bytes \<Rightarrow> bool" where
  "is_word w \<longleftrightarrow> w \<noteq> [] \<and> isIdentStart (hd w) \<and> list_all isIdentPart w"

definition word_kind :: "bytes \<Rightarrow> TokenKind" where
  "word_kind w = (case keywordKinds w of Some k \<Rightarrow> k | None \<Rightarrow> TokenIdentifier)"

lemma not_break_ident: "isIdentPart c \<Longrightarrow> c \<noteq> LF \<and> c \<noteq> CR \<and> c \<noteq> SPACE \<and> c \<noteq> TAB \<and> c \<noteq> CHR ''/'' \<and> c \<noteq> CHR ''#''"
  by (auto simp: isIdentPart_def isIdentStart_def isDigit_def)

lemma advanceByte_plain:
  "has_more l \<Longrightarrow> cur_byte l \<noteq> LF \<Longrightarrow> cur_byte l \<noteq> CR \<Longrightarrow>
   advanceByte l = l\<lparr>lxCol := Suc (lxCol l), lxOff := Suc (lxOff l)\<rparr>"
  by (simp add: advanceByte_def)

lemma scanIdentifier_loop_word:
  "\<forall>k. lxOff l \<le> k \<and> k < length (lxSrc l) \<longrightarrow> isIdentPart (lxSrc l ! k) \<Longrightarrow> lxOff l \<le> length (lxSrc l) \<Longrightarrow>
   scanIdentifier_loop d l =
     (d, l\<lparr>lxCol := lxCol l + (length (lxSrc l) - lxOff l), lxOff := length (lxSrc l)\<rparr>)"
proof (induction d l rule: scanIdentifier_loop.induct)
  case (1 d l)
  show ?case
  proof (cases "has_more l")
    case True
    then have c: "isIdentPart (cur_byte l)" using "1.prems" by (simp add: has_more_def cur_byte_def)
    note a = advanceByte_plain[OF True] not_break_ident[OF c]
    have "scanIdentifier_loop d (advanceByte l) = (d, advanceByte l\<lparr>lxCol := lxCol (advanceByte l) +
      (length (lxSrc l) - Suc (lxOff l)), lxOff := length (lxSrc l)\<rparr>)"
      using "1.IH"(1)[OF True c] "1.prems" True by (simp add: has_more_def)
    then show ?thesis using True c a by (simp add: scanIdentifier_loop.simps[of d l] has_more_def)
  next
    case False
    then show ?thesis using "1.prems" by (simp add: scanIdentifier_loop.simps[of d l] has_more_def)
  qed
qed

lemma scanTrivia_stops:
  assumes "isIdentPart (cur_byte l)"
  shows "scanTrivia l = (0, [], l)"
proof -
  have "\<not> isWhitespace (cur_byte l)" using not_break_ident[OF assms] by (auto simp: isWhitespace_def)
  then show ?thesis using not_break_ident[OF assms]
    by (simp add: scanTrivia_def scanTrivia_loop.simps[of 0 "[]" l] Let_def)
qed

text \<open>
  A word of the source - a letter or underscore, then letters, digits and
  underscores - is read as one token: the keyword of the table if it is one, an
  identifier otherwise, followed by the end-of-file token and no error.
\<close>

lemma Lex_word:
  assumes "is_word w"
  shows "Lex w =
    ([\<lparr>tkKind = word_kind w, tkText = w, tkOffset = 0, tkLine = 1, tkCol = 1, tkBlankLinesBefore = 0\<rparr>,
      \<lparr>tkKind = TokenEOF, tkText = [], tkOffset = length w, tkLine = 1, tkCol = 1 + length w,
       tkBlankLinesBefore = 0\<rparr>], [])"
proof -
  let ?l = "start_lexer w"
  define l1 where "l1 = ?l\<lparr>lxCol := 1 + length w, lxOff := length w\<rparr>"
  have w: "w \<noteq> []" "isIdentStart (w ! 0)" "\<forall>k < length w. isIdentPart (w ! k)"
    using assms by (auto simp: is_word_def hd_conv_nth list_all_length)
  have c: "isIdentStart (cur_byte ?l)" "isIdentPart (cur_byte ?l)" and m: "has_more ?l"
    using w by (auto simp: cur_byte_def has_more_def)
  have "scanIdentifier_loop False (advanceByte ?l) = (False, l1)"
    using scanIdentifier_loop_word[of "advanceByte ?l" False] w m not_break_ident[OF c(2)]
    by (simp add: advanceByte_plain l1_def Suc_le_eq)
  then have "scanIdentifier ?l = (finish (word_kind w) (lex_pos ?l) l1, l1)"
    by (simp add: scanIdentifier_def word_kind_def l1_def lex_pos_def)
  then have tok: "scanToken ?l = (finish (word_kind w) (lex_pos ?l) l1, l1)"
    using m c by (simp add: scanToken.simps[of ?l])
  have k: "word_kind w \<noteq> TokenEOF"
    using keyword_not_plain[of w] by (auto simp: word_kind_def split: option.splits)
  have e: "\<not> has_more l1" by (simp add: l1_def has_more_def)
  then have "scanTrivia l1 = (0, [], l1)" "scanToken l1 = (eof_token l1, l1)"
    by (simp_all add: scanTrivia_def scanTrivia_loop.simps[of 0 "[]" l1] scanToken.simps[of l1] eof_token_def)
  then have "run_loop ts l1 = (ts @ [eof_token l1], l1)" for ts
    by (simp add: run_loop.simps[of _ l1] eof_token_def)
  then have "run_loop [] ?l = ([finish (word_kind w) (lex_pos ?l) l1, eof_token l1], l1)"
    using tok k scanTrivia_stops[OF c(2)] by (simp add: run_loop.simps[of "[]" ?l] finish_def)
  moreover have "lexer_run (new_lexer w) = run_loop [] ?l"
    by (simp add: lexer_run_def start_lexer_def)
  ultimately show ?thesis
    by (simp add: Lex_def finish_def lex_pos_def eof_token_def l1_def)
qed

lemma Lex_word_witness:
  "Lex ''struct'' =
    ([\<lparr>tkKind = TokenStruct, tkText = ''struct'', tkOffset = 0, tkLine = 1, tkCol = 1, tkBlankLinesBefore = 0\<rparr>,
      \<lparr>tkKind = TokenEOF, tkText = [], tkOffset = 6, tkLine = 1, tkCol = 7, tkBlankLinesBefore = 0\<rparr>], [])"
proof -
  have "is_word ''struct''" "word_kind ''struct'' = TokenStruct" by code_simp+
  then show ?thesis using Lex_word[of "''struct''"] by simp
qed

section \<open>Lexeme classes\<close>

fun strip_sign :: "bytes \<Rightarrow> bytes" where
  "strip_sign [] = []"
| "strip_sign (c # w) = (if c = CHR ''+'' \<or> c = CHR ''-'' then w else c # w)"

definition is_int :: "bytes \<Rightarrow> bool" where
  "is_int w \<longleftrightarrow> strip_sign w \<noteq> [] \<and> list_all isDigit (strip_sign w)"

definition is_hex :: "bytes \<Rightarrow> bool" where
  "is_hex w \<longleftrightarrow> (case strip_sign w of
     z # x # ds \<Rightarrow> z = CHR ''0'' \<and> (x = CHR ''x'' \<or> x = CHR ''X'') \<and> ds \<noteq> [] \<and> list_all isHexDigit ds
   | _ \<Rightarrow> False)"

text \<open>\<open>[0-9]*(\.[0-9]+)?([eE][+-]?[0-9]+)?\<close> with a digit before the exponent.\<close>

definition is_exponent :: "bytes \<Rightarrow> bool" where
  "is_exponent w \<longleftrightarrow> (case w of [] \<Rightarrow> True
     | e # r \<Rightarrow> (e = CHR ''e'' \<or> e = CHR ''E'') \<and> is_int r)"

definition is_double :: "bytes \<Rightarrow> bool" where
  "is_double w \<longleftrightarrow>
     (let u = strip_sign w; m = takeWhile isDigit u; r = dropWhile isDigit u
      in (m \<noteq> [] \<and> is_exponent r) \<or>
         (r \<noteq> [] \<and> hd r = CHR ''.'' \<and> takeWhile isDigit (tl r) \<noteq> [] \<and> is_exponent (dropWhile isDigit (tl r))))"

definition longest :: "(bytes \<Rightarrow> bool) \<Rightarrow> bytes \<Rightarrow> nat \<Rightarrow> bool" where
  "longest P s n \<longleftrightarrow> n \<le> length s \<and> (if n = 0 then \<forall>k \<le> length s. \<not> P (take k s)
     else P (take n s) \<and> (\<forall>k \<le> length s. P (take k s) \<longrightarrow> k \<le> n))"

lemma skip_while_takeWhile: "i \<le> length s \<Longrightarrow> skip_while p s i = i + length (takeWhile p (drop i s))"
proof (induction p s i rule: skip_while.induct)
  case (1 p s i)
  show ?case
  proof (cases "i < length s \<and> p (s ! i)")
    case True
    then have "drop i s = s ! i # drop (Suc i) s" by (simp add: Cons_nth_drop_Suc)
    then show ?thesis using True 1 by (simp add: skip_while.simps[of p s i])
  next
    case False
    then have "takeWhile p (drop i s) = []"
      by (cases "i < length s") (auto simp: Cons_nth_drop_Suc[symmetric])
    then show ?thesis using False by (auto simp: skip_while.simps[of p s i])
  qed
qed

lemma sign_len_0: "sign_len s 0 = length s - length (strip_sign s)"
  by (cases s) (auto simp: sign_len_def)

lemma strip_sign_drop: "strip_sign s = drop (sign_len s 0) s"
  by (cases s) (auto simp: sign_len_def)

lemma sign_len_le [simp]: "sign_len s 0 \<le> length s"
  by (cases s) (auto simp: sign_len_def)

lemma strip_sign_take: "strip_sign (take k s) = take (k - sign_len s 0) (strip_sign s)"
  by (cases s; cases k) (auto simp: sign_len_def)

lemma list_all_take_le: "list_all p (take m r) \<Longrightarrow> m \<le> length r \<Longrightarrow> m \<le> length (takeWhile p r)"
proof (induction r arbitrary: m)
  case (Cons a r)
  then show ?case by (cases m) auto
qed simp

lemma take_takeWhile_length: "take (length (takeWhile p r)) r = takeWhile p r"
  by (metis takeWhile_eq_take)

lemma list_all_takeWhile [simp]: "list_all p (takeWhile p r)"
  by (auto simp: list_all_iff dest: set_takeWhileD)

lemma matchInt_eq:
  "matchInt s = (let n = length (takeWhile isDigit (strip_sign s)) in if n = 0 then 0 else sign_len s 0 + n)"
  by (simp add: matchInt_def skip_while_takeWhile strip_sign_drop Let_def)

text \<open>
  matchInt finds the longest prefix of the form [+-]?[0-9]+ , and 0 exactly when no
  prefix has that form.
\<close>

lemma matchInt_longest: "longest is_int s (matchInt s)"
proof -
  let ?n = "length (takeWhile isDigit (strip_sign s))"
  have le: "?n \<le> length (strip_sign s)" by (rule length_takeWhile_le)
  have len: "length (strip_sign s) = length s - sign_len s 0" by (simp add: strip_sign_drop)
  have up: "k \<le> sign_len s 0 + ?n \<and> 0 < ?n" if "k \<le> length s" "is_int (take k s)" for k
  proof -
    have "list_all isDigit (take (k - sign_len s 0) (strip_sign s))" "k - sign_len s 0 \<le> length (strip_sign s)"
      and p: "0 < k - sign_len s 0"
      using that len by (auto simp: is_int_def strip_sign_take)
    then have "k - sign_len s 0 \<le> ?n" by (intro list_all_take_le)
    then show ?thesis using p by linarith
  qed
  have "is_int (take (sign_len s 0 + ?n) s)" if "0 < ?n"
    using that le by (auto simp: is_int_def strip_sign_take take_takeWhile_length)
  then show ?thesis using up le len sign_len_le[of s]
    by (fastforce simp: longest_def matchInt_eq Let_def simp del: sign_len_le)
qed

text \<open>A hex constant is longest too.\<close>

lemma matchHex_eq:
  "matchHex s = (case strip_sign s of
     z # x # ds \<Rightarrow> (let n = length (takeWhile isHexDigit ds)
       in if z = CHR ''0'' \<and> (x = CHR ''x'' \<or> x = CHR ''X'') \<and> 0 < n then sign_len s 0 + 2 + n else 0)
   | _ \<Rightarrow> 0)"
proof -
  let ?i = "sign_len s 0"
  have d: "strip_sign s = drop ?i s" by (rule strip_sign_drop)
  show ?thesis
  proof (cases "length s < ?i + 2")
    case True
    then have "length (strip_sign s) < 2" by (simp add: d)
    then show ?thesis using True by (auto simp: matchHex_def Let_def split: list.splits)
  next
    case False
    then have c: "drop ?i s = s ! ?i # s ! Suc ?i # drop (?i + 2) s"
      by (simp add: Cons_nth_drop_Suc)
    have "skip_while isHexDigit s (?i + 2) = ?i + 2 + length (takeWhile isHexDigit (drop (?i + 2) s))"
      using False by (intro skip_while_takeWhile) simp
    then show ?thesis using False unfolding d c matchHex_def Let_def by auto
  qed
qed

lemma is_hex_takeE:
  assumes "is_hex (take k s)"
  obtains z x ds where "strip_sign s = z # x # ds" "z = CHR ''0''" "x = CHR ''x'' \<or> x = CHR ''X''"
    "takeWhile isHexDigit ds \<noteq> []"
proof -
  obtain z x d where d: "take (k - sign_len s 0) (strip_sign s) = z # x # d" "z = CHR ''0''"
    "x = CHR ''x'' \<or> x = CHR ''X''" "d \<noteq> []" "list_all isHexDigit d"
    using assms by (auto simp: is_hex_def strip_sign_take split: list.splits)
  then obtain ds where ds: "strip_sign s = z # x # d @ ds"
    by (metis append_take_drop_id append_Cons)
  moreover have "takeWhile isHexDigit (d @ ds) \<noteq> []" using d(4,5) by (cases d) auto
  ultimately show ?thesis using that d by blast
qed

text \<open>
  matchHex finds the longest prefix of the form [+-]?0[xX][0-9a-fA-F]+ , and 0 exactly
  when no prefix has that form.
\<close>

lemma matchHex_longest: "longest is_hex s (matchHex s)"
proof -
  have len: "length (strip_sign s) = length s - sign_len s 0" by (simp add: strip_sign_drop)
  show ?thesis
  proof (cases "\<exists>z x ds. strip_sign s = z # x # ds \<and> z = CHR ''0'' \<and> (x = CHR ''x'' \<or> x = CHR ''X'') \<and> takeWhile isHexDigit ds \<noteq> []")
    case True
    then obtain z x ds where zx: "strip_sign s = z # x # ds" "z = CHR ''0''" "x = CHR ''x'' \<or> x = CHR ''X''"
      "takeWhile isHexDigit ds \<noteq> []" by blast
    let ?n = "length (takeWhile isHexDigit ds)"
    have n: "matchHex s = sign_len s 0 + 2 + ?n" using zx by (auto simp: matchHex_eq Let_def)
    have le: "?n \<le> length ds" by (rule length_takeWhile_le)
    have "is_hex (take (sign_len s 0 + 2 + ?n) s)"
      using zx by (simp add: is_hex_def strip_sign_take take_takeWhile_length)
    moreover have "k \<le> sign_len s 0 + 2 + ?n" if "k \<le> length s" "is_hex (take k s)" for k
    proof -
      have "list_all isHexDigit (take (k - sign_len s 0 - 2) ds)"
        using that zx by (auto simp: is_hex_def strip_sign_take take_Cons' split: if_splits)
      moreover have "k - sign_len s 0 - 2 \<le> length ds" using that len zx by simp
      ultimately have "k - sign_len s 0 - 2 \<le> ?n" by (rule list_all_take_le)
      then show ?thesis by linarith
    qed
    moreover have "sign_len s 0 + 2 + ?n \<le> length s" using le len zx(1) sign_len_le[of s] by simp
    ultimately show ?thesis unfolding longest_def n by simp
  next
    case False
    then have "matchHex s = 0" by (auto simp: matchHex_eq Let_def split: list.splits)
    moreover have "\<not> is_hex (take k s)" for k using False by (blast elim: is_hex_takeE)
    ultimately show ?thesis by (simp add: longest_def)
  qed
qed

text \<open>
  matchDouble is not a longest match: on 1.5e, where the exponent has no digits,
  it finds nothing, although the prefix 1.5 is a double constant.
\<close>

lemma matchDouble_dangling_exponent:
  "matchDouble ''1.5e'' = 0 \<and> is_double (take 3 ''1.5e'') \<and> \<not> longest is_double ''1.5e'' (matchDouble ''1.5e'')"
proof -
  have "matchDouble ''1.5e'' = 0" "is_double (take 3 ''1.5e'')" by code_simp+
  moreover have "(3::nat) \<le> length ''1.5e''" by simp
  ultimately show ?thesis by (auto simp: longest_def intro!: exI[of _ 3])
qed

end
