(* ===== verification/Ast.thy ===== *)
theory Ast imports Token
begin

text \<open>
  The abstract syntax tree of \<open>syntax/ast.go\<close>. Node structs are records, the
  two recursive ones (\<open>FieldType\<close>, \<open>ConstValue\<close>) datatypes. A pointer to a
  token is the index of that token in the document's stream, a pointer that may
  be nil an option; an absent separator, the zero \<open>TokenKind\<close>, is
  \<^const>\<open>TokenInvalid\<close>.
\<close>

record nodeBase =
  nbFirst :: nat
  nbLast :: nat

record Identifier =
  idBase :: nodeBase
  idText :: bytes

record Annotation =
  anBase :: nodeBase
  anName :: "Identifier option"
  anValue :: "nat option"
  anSep :: TokenKind

record Annotations =
  asBase :: nodeBase
  asItems :: "Annotation list"

datatype FieldTypeKind = TypeBase | TypeIdent | TypeMap | TypeList | TypeSet

datatype FieldType = FieldType
  (ftBaseNode: nodeBase)
  (ftKind: FieldTypeKind)
  (ftBase: TokenKind)
  (ftIdent: "Identifier option")
  (ftKeyType: "FieldType option")
  (ftValueType: "FieldType option")
  (ftCPPType: "nat option")
  (ftAnnotations: "Annotations option")

datatype ConstValueKind = ValueInt | ValueDouble | ValueString | ValueIdent | ValueList | ValueMap

datatype ConstValue = ConstValue
    (cvBase: nodeBase)
    (cvKind: ConstValueKind)
    (cvText: bytes)
    (cvList: "ConstValue list")
    (cvMap: "ConstMapEntry list")
  and ConstMapEntry = ConstMapEntry (cmKey: ConstValue) (cmValue: ConstValue)

record StructuredAnnotation =
  saBase :: nodeBase
  saName :: "Identifier option"
  saValue :: "ConstValue option"

record Include =
  incBase :: nodeBase
  incPath :: "nat option"

record CPPInclude =
  cppBase :: nodeBase
  cppPath :: "nat option"

record Namespace =
  nsBase :: nodeBase
  nsScope :: "nat option"
  nsName :: "Identifier option"
  nsAnnotations :: "Annotations option"
  nsStructured :: "StructuredAnnotation list"

record Const =
  coBase :: nodeBase
  coType :: "FieldType option"
  coName :: "Identifier option"
  coValue :: "ConstValue option"
  coSep :: TokenKind
  coStructured :: "StructuredAnnotation list"

record Typedef =
  tdBase :: nodeBase
  tdType :: "FieldType option"
  tdName :: "Identifier option"
  tdSep :: TokenKind
  tdAnnotations :: "Annotations option"
  tdStructured :: "StructuredAnnotation list"

record EnumValue =
  evBase :: nodeBase
  evName :: "Identifier option"
  evValue :: "nat option"
  evSep :: TokenKind
  evAnnotations :: "Annotations option"

record Enum =
  enBase :: nodeBase
  enName :: "Identifier option"
  enValues :: "EnumValue list"
  enAnnotations :: "Annotations option"
  enStructured :: "StructuredAnnotation list"

record Field =
  fiBase :: nodeBase
  fiFieldID :: "nat option"
  fiReq :: "nat option"
  fiType :: "FieldType option"
  fiReference :: bool
  fiName :: "Identifier option"
  fiValue :: "ConstValue option"
  fiSep :: TokenKind
  fiAnnotations :: "Annotations option"
  fiStructured :: "StructuredAnnotation list"

text \<open>\<open>StructKind\<close> is the token kind of the leading keyword.\<close>

abbreviation StructDecl :: TokenKind where "StructDecl \<equiv> TokenStruct"
abbreviation UnionDecl :: TokenKind where "UnionDecl \<equiv> TokenUnion"
abbreviation ExceptionDecl :: TokenKind where "ExceptionDecl \<equiv> TokenException"

record Struct =
  stBase :: nodeBase
  stKind :: TokenKind
  stName :: "Identifier option"
  stFields :: "Field list"
  stAnnotations :: "Annotations option"
  stStructured :: "StructuredAnnotation list"

record Throws =
  thBase :: nodeBase
  thFields :: "Field list"

record Function =
  fnBase :: nodeBase
  fnOneway :: "nat option"
  fnType :: "FieldType option"
  fnVoid :: "nat option"
  fnName :: "Identifier option"
  fnArgs :: "Field list"
  fnThrows :: "Throws option"
  fnSep :: TokenKind
  fnAnnotations :: "Annotations option"
  fnStructured :: "StructuredAnnotation list"

record Service =
  svBase :: nodeBase
  svName :: "Identifier option"
  svExtends :: "Identifier option"
  svFunctions :: "Function list"
  svAnnotations :: "Annotations option"
  svStructured :: "StructuredAnnotation list"

text \<open>
  The interface \<open>Node\<close>: the dynamic types a node value can have, without the
  document itself, which is modelled separately below.
\<close>

datatype Node =
    N_Include Include | N_CPPInclude CPPInclude | N_Namespace Namespace | N_Const Const
  | N_Typedef Typedef | N_Enum Enum | N_Struct Struct | N_Service Service
  | N_EnumValue EnumValue | N_Function Function | N_Throws Throws | N_Field Field
  | N_FieldType FieldType | N_ConstValue ConstValue | N_Identifier Identifier
  | N_Annotation Annotation | N_Annotations Annotations
  | N_StructuredAnnotation StructuredAnnotation

record Document =
  docTokens :: "Token list"
  docNodes :: "Node list"

fun node_base :: "Node \<Rightarrow> nodeBase" where
  "node_base (N_Include n) = incBase n"
| "node_base (N_CPPInclude n) = cppBase n"
| "node_base (N_Namespace n) = nsBase n"
| "node_base (N_Const n) = coBase n"
| "node_base (N_Typedef n) = tdBase n"
| "node_base (N_Enum n) = enBase n"
| "node_base (N_Struct n) = stBase n"
| "node_base (N_Service n) = svBase n"
| "node_base (N_EnumValue n) = evBase n"
| "node_base (N_Function n) = fnBase n"
| "node_base (N_Throws n) = thBase n"
| "node_base (N_Field n) = fiBase n"
| "node_base (N_FieldType n) = ftBaseNode n"
| "node_base (N_ConstValue n) = cvBase n"
| "node_base (N_Identifier n) = idBase n"
| "node_base (N_Annotation n) = anBase n"
| "node_base (N_Annotations n) = asBase n"
| "node_base (N_StructuredAnnotation n) = saBase n"

definition TokStart :: "Node \<Rightarrow> nat" where
  "TokStart n = nbFirst (node_base n)"

definition TokEnd :: "Node \<Rightarrow> nat" where
  "TokEnd n = nbLast (node_base n)"

text \<open>\<open>Include.PathText\<close>: the literal without its quotes.\<close>

definition is_quote :: "char \<Rightarrow> bool" where
  "is_quote c \<longleftrightarrow> c = DQUOTE \<or> c = SQUOTE"

definition trim_quotes :: "bytes \<Rightarrow> bytes" where
  "trim_quotes s = rev (dropWhile is_quote (rev (dropWhile is_quote s)))"

definition PathText :: "Token list \<Rightarrow> Include option \<Rightarrow> bytes" where
  "PathText toks i =
     (case i of None \<Rightarrow> []
      | Some inc \<Rightarrow> (case incPath inc of None \<Rightarrow> [] | Some t \<Rightarrow> trim_quotes (tkText (toks ! t))))"

end
