(* ===== verification/Parser.thy ===== *)
theory Parser imports Ast Lexer "HOL-Library.Monad_Syntax"
begin

text \<open>
  The recursive-descent parser of \<open>syntax/parser.go\<close>. Each method is a function
  from the parser state to its result and the next state, in the option monad:
  \<^const>\<open>None\<close> stands for an index out of range (a Go panic) and for a loop or
  recursion that runs out of its fuel. \<open>ParserProps\<close> proves that neither
  happens on a stream that the lexer made. A nil result is an inner
  \<^const>\<open>None\<close>.
\<close>

record parser =
  psToks :: "Token list"
  psPos :: nat
  psErrs :: "Error list"

type_synonym 'a parsed = "('a \<times> parser) option"

section \<open>Token helpers\<close>

definition nextReal :: "parser \<Rightarrow> nat \<Rightarrow> nat" where
  "nextReal p i = NextReal (psToks p) i"

text \<open>An index expression: \<^const>\<open>None\<close> is the runtime panic.\<close>

definition tok_at :: "parser \<Rightarrow> nat \<Rightarrow> Token option" where
  "tok_at p i = (if i < length (psToks p) then Some (psToks p ! i) else None)"

definition cur :: "parser \<Rightarrow> Token option" where
  "cur p = tok_at p (nextReal p (psPos p))"

definition at :: "TokenKind \<Rightarrow> parser \<Rightarrow> bool option" where
  "at k p = do { t \<leftarrow> cur p; Some (tkKind t = k) }"

text \<open>\<open>advance\<close> returns the index of the consumed token, the source a pointer to it.\<close>

definition advance :: "parser \<Rightarrow> nat parsed" where
  "advance p = do {
     let i = nextReal p (psPos p);
     _ \<leftarrow> tok_at p i;
     Some (i, p\<lparr>psPos := i + 1\<rparr>) }"

definition peekAfter :: "nat \<Rightarrow> parser \<Rightarrow> TokenKind option" where
  "peekAfter i p = do { t \<leftarrow> tok_at p (nextReal p (i + 1)); Some (tkKind t) }"

definition accept :: "TokenKind \<Rightarrow> parser \<Rightarrow> nat option parsed" where
  "accept k p = do {
     b \<leftarrow> at k p;
     if b then do { (t, p) \<leftarrow> advance p; Some (Some t, p) } else Some (None, p) }"

definition add_error :: "Severity \<Rightarrow> Token \<Rightarrow> message \<Rightarrow> parser \<Rightarrow> parser" where
  "add_error sev t m p = p\<lparr>psErrs := psErrs p @
     [\<lparr>erMessage = m, erOffset = tkOffset t, erLine = tkLine t, erCol = tkCol t, erSeverity = sev\<rparr>]\<rparr>"

definition errorfCur :: "message \<Rightarrow> parser \<Rightarrow> parser option" where
  "errorfCur m p = do { t \<leftarrow> cur p; Some (add_error SeverityError t m p) }"

definition errorfTok :: "Token \<Rightarrow> message \<Rightarrow> parser \<Rightarrow> parser" where
  "errorfTok t m p = add_error SeverityError t m p"

definition warnf :: "Token \<Rightarrow> message \<Rightarrow> parser \<Rightarrow> parser" where
  "warnf t m p = add_error SeverityWarning t m p"

text \<open>The frequent call \<open>p.errorfCur(format, args..., p.cur().Text)\<close>.\<close>

definition errorfGot :: "string \<Rightarrow> bytes list \<Rightarrow> parser \<Rightarrow> parser option" where
  "errorfGot f args p = do { t \<leftarrow> cur p; errorfCur (Sprintf f (args @ [tkText t])) p }"

definition quoted :: "char \<Rightarrow> string \<Rightarrow> string" where
  "quoted c s = SQUOTE # c # SQUOTE # s"

definition expect :: "TokenKind \<Rightarrow> string \<Rightarrow> parser \<Rightarrow> bool parsed" where
  "expect k what p = do {
     b \<leftarrow> at k p;
     if b then do { (_, p) \<leftarrow> advance p; Some (True, p) }
     else do { p \<leftarrow> errorfGot ''expected %s, got %q'' [what] p; Some (False, p) } }"

lemma advance_decreases:
  "advance p = Some (i, p') \<Longrightarrow> length (psToks p') - psPos p' < length (psToks p) - psPos p"
  by (auto simp: advance_def tok_at_def nextReal_def Let_def split: if_splits)
    (meson NextReal_ge diff_less_mono2 le_imp_less_Suc less_le_trans order.strict_trans1)

function synchronizeTo :: "TokenKind list \<Rightarrow> parser \<Rightarrow> parser option" where
  "synchronizeTo kinds p =
     (case cur p of
        None \<Rightarrow> None
      | Some t \<Rightarrow>
          if tkKind t = TokenEOF then Some p
          else if tkKind t \<in> set kinds then Some p
          else (case advance p of None \<Rightarrow> None | Some (_, p') \<Rightarrow> synchronizeTo kinds p'))"
  by pat_completeness auto
termination
  by (relation "measure (\<lambda>(ks, p). length (psToks p) - psPos p)") (auto dest: advance_decreases)

declare synchronizeTo.simps [simp del]

definition recoverEntry :: "TokenKind \<Rightarrow> parser \<Rightarrow> parser option" where
  "recoverEntry term p = do {
     p \<leftarrow> synchronizeTo [TokenComma, TokenSemicolon, term] p;
     a \<leftarrow> at term p;
     e \<leftarrow> at TokenEOF p;
     if \<not> a \<and> \<not> e then do { (_, p) \<leftarrow> advance p; Some p } else Some p }"

text \<open>The list of kinds at which most field-level errors resynchronize.\<close>

definition field_stops :: "TokenKind list" where
  "field_stops = [TokenComma, TokenSemicolon, TokenRBrace, TokenRParen]"

definition acceptSeparator :: "parser \<Rightarrow> TokenKind parsed" where
  "acceptSeparator p = do {
     t \<leftarrow> cur p;
     if tkKind t = TokenComma \<or> tkKind t = TokenSemicolon
     then do { (_, p) \<leftarrow> advance p; Some (tkKind t, p) }
     else Some (TokenInvalid, p) }"

definition span :: "nat \<Rightarrow> parser \<Rightarrow> nodeBase" where
  "span first p = \<lparr>nbFirst = first, nbLast = psPos p - 1\<rparr>"

definition parseIdentifier :: "parser \<Rightarrow> Identifier parsed" where
  "parseIdentifier p = do {
     let i = nextReal p (psPos p);
     (j, p') \<leftarrow> advance p;
     t \<leftarrow> tok_at p j;
     Some (\<lparr>idBase = \<lparr>nbFirst = i, nbLast = i\<rparr>, idText = tkText t\<rparr>, p') }"

definition expectIdentifier :: "string \<Rightarrow> parser \<Rightarrow> Identifier option parsed" where
  "expectIdentifier what p = do {
     b \<leftarrow> at TokenIdentifier p;
     if \<not> b then do { p \<leftarrow> errorfGot ''expected %s, got %q'' [what] p; Some (None, p) }
     else do { (i, p) \<leftarrow> parseIdentifier p; Some (Some i, p) } }"

text \<open>
  Fuel for the loops and the recursion of one call: two units for every token
  of the stream and two spare ones.
\<close>

definition parse_fuel :: "parser \<Rightarrow> nat" where
  "parse_fuel p = 2 * length (psToks p) + 2"

section \<open>Annotations\<close>

text \<open>The value of one annotation; a bad one is reported and left nil.\<close>

definition parseAnnotations_value :: "parser \<Rightarrow> nat option parsed" where
  "parseAnnotations_value p = do {
     eq \<leftarrow> at TokenEqual p;
     if eq then do {
       (_, p) \<leftarrow> advance p;
       s \<leftarrow> at TokenStringLiteral p;
       if \<not> s then do {
         p \<leftarrow> errorfGot ''expected string literal annotation value, got %q'' [] p;
         p \<leftarrow> synchronizeTo [TokenComma, TokenSemicolon, TokenRParen] p;
         Some (None, p) }
       else do { (v, p) \<leftarrow> advance p; Some (Some v, p) } }
     else Some (None, p) }"

text \<open>The body of the loop; nil when the name is missing.\<close>

definition parseAnnotations_item :: "parser \<Rightarrow> Annotation option parsed" where
  "parseAnnotations_item p = do {
     b \<leftarrow> at TokenIdentifier p;
     if \<not> b then do {
       p \<leftarrow> errorfGot ''expected annotation name, got %q'' [] p;
       Some (None, p) }
     else do {
       let first = nextReal p (psPos p);
       (name, p) \<leftarrow> parseIdentifier p;
       (value, p) \<leftarrow> parseAnnotations_value p;
       (sep, p) \<leftarrow> acceptSeparator p;
       Some (Some \<lparr>anBase = span first p, anName = Some name, anValue = value, anSep = sep\<rparr>, p) } }"

fun parseAnnotations_loop :: "nat \<Rightarrow> Annotation list \<Rightarrow> parser \<Rightarrow> Annotation list parsed" where
  "parseAnnotations_loop 0 items p = None"
| "parseAnnotations_loop (Suc n) items p = do {
     r \<leftarrow> at TokenRParen p;
     e \<leftarrow> at TokenEOF p;
     if \<not> r \<and> \<not> e then do {
       (item, p) \<leftarrow> parseAnnotations_item p;
       case item of
         None \<Rightarrow> do { p \<leftarrow> recoverEntry TokenRParen p; parseAnnotations_loop n items p }
       | Some a \<Rightarrow> parseAnnotations_loop n (items @ [a]) p }
     else Some (items, p) }"

definition parseAnnotations :: "parser \<Rightarrow> Annotations parsed" where
  "parseAnnotations p = do {
     let first = nextReal p (psPos p);
     (_, p) \<leftarrow> advance p;
     (items, p) \<leftarrow> parseAnnotations_loop (parse_fuel p) [] p;
     (_, p) \<leftarrow> expect TokenRParen (quoted (CHR '')'') '' to close annotations'') p;
     Some (\<lparr>asBase = span first p, asItems = items\<rparr>, p) }"

definition parseAnnotationsIfPresent :: "parser \<Rightarrow> Annotations option parsed" where
  "parseAnnotationsIfPresent p = do {
     b \<leftarrow> at TokenLParen p;
     if \<not> b then Some (None, p)
     else do { (a, p) \<leftarrow> parseAnnotations p; Some (Some a, p) } }"

section \<open>Types\<close>

definition isBaseType :: "TokenKind \<Rightarrow> bool" where
  "isBaseType k \<longleftrightarrow> k \<in> {TokenBool, TokenByte, TokenI8, TokenI16, TokenI32, TokenI64,
     TokenDouble, TokenString, TokenBinary, TokenSlist, TokenUUID}"

definition deprecationWarnings :: "Token \<Rightarrow> parser \<Rightarrow> parser" where
  "deprecationWarnings t p =
     (if tkKind t = TokenByte then warnf t (Sprintf ''byte is deprecated, use i8'' []) p
      else if tkKind t = TokenSlist then
        warnf t (Sprintf ''slist is no longer supported, use string or binary'' []) p
      else p)"

text \<open>The optional \<open>cpp_type "..."\<close> of a container type.\<close>

definition parse_cpp_type :: "parser \<Rightarrow> nat option parsed" where
  "parse_cpp_type p = do {
     b \<leftarrow> at TokenCPPType p;
     if b then do {
       (_, p) \<leftarrow> advance p;
       s \<leftarrow> at TokenStringLiteral p;
       if \<not> s then do {
         p \<leftarrow> errorfGot ''expected string literal after cpp_type, got %q'' [] p;
         Some (None, p) }
       else do { (i, p) \<leftarrow> advance p; Some (Some i, p) } }
     else Some (None, p) }"

definition sync_if_nil :: "'a option \<Rightarrow> TokenKind list \<Rightarrow> parser \<Rightarrow> parser option" where
  "sync_if_nil r kinds p = (if r = None then synchronizeTo kinds p else Some p)"

text \<open>The end of \<open>parseFieldType\<close>, common to its three forms.\<close>

definition finish_type ::
  "nat \<Rightarrow> FieldTypeKind \<Rightarrow> TokenKind \<Rightarrow> Identifier option \<Rightarrow> FieldType option \<Rightarrow> FieldType option \<Rightarrow>
   nat option \<Rightarrow> parser \<Rightarrow> FieldType option parsed" where
  "finish_type first kind base ident key val cpp p = do {
     (annos, p) \<leftarrow> (if kind \<noteq> TypeIdent then parseAnnotationsIfPresent p else Some (None, p));
     Some (Some (FieldType (span first p) kind base ident key val cpp annos), p) }"

definition container_kind :: "TokenKind \<Rightarrow> FieldTypeKind option" where
  "container_kind k = (if k = TokenMap then Some TypeMap else if k = TokenList then Some TypeList
     else if k = TokenSet then Some TypeSet else None)"

text \<open>Key and value type of a map, given the recursive call.\<close>

definition parse_map_types ::
  "(parser \<Rightarrow> FieldType option parsed) \<Rightarrow> parser \<Rightarrow> (FieldType option \<times> FieldType option) parsed" where
  "parse_map_types rec p = do {
     (key, p) \<leftarrow> rec p;
     p \<leftarrow> sync_if_nil key [TokenComma, TokenGt] p;
     (c, p) \<leftarrow> accept TokenComma p;
     if c \<noteq> None then do {
       (val, p) \<leftarrow> rec p;
       p \<leftarrow> sync_if_nil val [TokenGt] p;
       Some ((key, val), p) }
     else do {
       p \<leftarrow> errorfGot (''expected '' @ quoted (CHR '','') '' and a value type for map, got %q'') [] p;
       g \<leftarrow> at TokenGt p;
       p \<leftarrow> (if \<not> g then synchronizeTo [TokenGt] p else Some p);
       Some ((key, None), p) } }"

text \<open>The element type of a list or a set.\<close>

definition parse_elem_type ::
  "(parser \<Rightarrow> FieldType option parsed) \<Rightarrow> parser \<Rightarrow> (FieldType option \<times> FieldType option) parsed" where
  "parse_elem_type rec p = do {
     (val, p) \<leftarrow> rec p;
     p \<leftarrow> sync_if_nil val [TokenGt] p;
     Some ((None, val), p) }"

definition parse_type_args :: "(parser \<Rightarrow> FieldType option parsed) \<Rightarrow> FieldTypeKind \<Rightarrow> parser \<Rightarrow>
  (FieldType option \<times> FieldType option) parsed" where
  "parse_type_args rec kind p = (if kind = TypeMap then parse_map_types rec p else parse_elem_type rec p)"

text \<open>The case \<open>TokenMap, TokenList, TokenSet\<close> of the switch, after and up to the \<open><\<close>.\<close>

definition parse_container_tail ::
  "(parser \<Rightarrow> FieldType option parsed) \<Rightarrow> nat \<Rightarrow> FieldTypeKind \<Rightarrow> nat option \<Rightarrow> parser \<Rightarrow> FieldType option parsed" where
  "parse_container_tail rec first kind cpp p = do {
     ((key, val), p) \<leftarrow> parse_type_args rec kind p;
     (gt, p) \<leftarrow> expect TokenGt (quoted (CHR ''>'') '' to close container type'') p;
     if \<not> gt then do { p \<leftarrow> synchronizeTo field_stops p; Some (None, p) }
     else finish_type first kind TokenInvalid None key val cpp p }"

definition parse_container ::
  "(parser \<Rightarrow> FieldType option parsed) \<Rightarrow> nat \<Rightarrow> FieldTypeKind \<Rightarrow> parser \<Rightarrow> FieldType option parsed" where
  "parse_container rec first kind p = do {
     (_, p) \<leftarrow> advance p;
     (cpp, p) \<leftarrow> parse_cpp_type p;
     (lt, p) \<leftarrow> expect TokenLt (quoted (CHR ''<'') '' to open container type'') p;
     if \<not> lt then do { p \<leftarrow> synchronizeTo field_stops p; Some (None, p) }
     else parse_container_tail rec first kind cpp p }"

fun parseFieldType_fuel :: "nat \<Rightarrow> parser \<Rightarrow> FieldType option parsed" where
  "parseFieldType_fuel 0 p = None"
| "parseFieldType_fuel (Suc n) p = do {
     let first = nextReal p (psPos p);
     t \<leftarrow> cur p;
     case container_kind (tkKind t) of
       Some kind \<Rightarrow> parse_container (parseFieldType_fuel n) first kind p
     | None \<Rightarrow>
         if tkKind t = TokenIdentifier then do {
           (i, p) \<leftarrow> parseIdentifier p;
           finish_type first TypeIdent TokenInvalid (Some i) None None None p }
         else if \<not> isBaseType (tkKind t) then do {
           p \<leftarrow> errorfGot ''expected type, got %q'' [] p;
           Some (None, p) }
         else do {
           let p = deprecationWarnings t p;
           (_, p) \<leftarrow> advance p;
           finish_type first TypeBase (tkKind t) None None None None p } }"

definition parseFieldType :: "parser \<Rightarrow> FieldType option parsed" where
  "parseFieldType p = parseFieldType_fuel (parse_fuel p) p"

section \<open>Constant values\<close>

definition finish_value :: "nat \<Rightarrow> ConstValueKind \<Rightarrow> bytes \<Rightarrow> ConstValue list \<Rightarrow> ConstMapEntry list \<Rightarrow>
  parser \<Rightarrow> ConstValue option parsed" where
  "finish_value first kind txt xs es p = Some (Some (ConstValue (span first p) kind txt xs es), p)"

definition scalar_kind :: "TokenKind \<Rightarrow> ConstValueKind option" where
  "scalar_kind k =
     (if k = TokenIntConstant \<or> k = TokenTrue \<or> k = TokenFalse then Some ValueInt
      else if k = TokenDoubleConstant then Some ValueDouble
      else if k = TokenStringLiteral then Some ValueString
      else if k = TokenIdentifier then Some ValueIdent
      else None)"

fun parseConstValue_fuel :: "nat \<Rightarrow> parser \<Rightarrow> ConstValue option parsed"
and parseConstList_loop :: "nat \<Rightarrow> ConstValue list \<Rightarrow> parser \<Rightarrow> ConstValue list parsed"
and parseConstMap_loop :: "nat \<Rightarrow> ConstMapEntry list \<Rightarrow> parser \<Rightarrow> ConstMapEntry list parsed" where
  "parseConstValue_fuel 0 p = None"
| "parseConstValue_fuel (Suc n) p = do {
     let first = nextReal p (psPos p);
     t \<leftarrow> cur p;
     case scalar_kind (tkKind t) of
       Some kind \<Rightarrow> do {
         (i, p) \<leftarrow> advance p;
         finish_value first kind (tkText t) [] [] p }
     | None \<Rightarrow>
         if tkKind t = TokenLBracket then do {
           (_, p) \<leftarrow> advance p;
           (xs, p) \<leftarrow> parseConstList_loop n [] p;
           (_, p) \<leftarrow> expect TokenRBracket (quoted (CHR '']'') '' to close list constant'') p;
           finish_value first ValueList [] xs [] p }
         else if tkKind t = TokenLBrace then do {
           (_, p) \<leftarrow> advance p;
           (es, p) \<leftarrow> parseConstMap_loop n [] p;
           (_, p) \<leftarrow> expect TokenRBrace (quoted (CHR ''}'') '' to close map constant'') p;
           finish_value first ValueMap [] [] es p }
         else do {
           p \<leftarrow> errorfGot ''expected constant value, got %q'' [] p;
           Some (None, p) } }"
| "parseConstList_loop 0 xs p = None"
| "parseConstList_loop (Suc n) xs p = do {
     r \<leftarrow> at TokenRBracket p;
     e \<leftarrow> at TokenEOF p;
     if \<not> r \<and> \<not> e then do {
       (item, p) \<leftarrow> parseConstValue_fuel n p;
       case item of
         None \<Rightarrow> do { p \<leftarrow> recoverEntry TokenRBracket p; parseConstList_loop n xs p }
       | Some v \<Rightarrow> do { (_, p) \<leftarrow> acceptSeparator p; parseConstList_loop n (xs @ [v]) p } }
     else Some (xs, p) }"
| "parseConstMap_loop 0 es p = None"
| "parseConstMap_loop (Suc n) es p = do {
     r \<leftarrow> at TokenRBrace p;
     e \<leftarrow> at TokenEOF p;
     if \<not> r \<and> \<not> e then do {
       (key, p) \<leftarrow> parseConstValue_fuel n p;
       case key of
         None \<Rightarrow> do { p \<leftarrow> recoverEntry TokenRBrace p; parseConstMap_loop n es p }
       | Some k \<Rightarrow> do {
           (c, p) \<leftarrow> expect TokenColon (quoted (CHR '':'') '' between map key and value'') p;
           if \<not> c then do { p \<leftarrow> recoverEntry TokenRBrace p; parseConstMap_loop n es p }
           else do {
             (value, p) \<leftarrow> parseConstValue_fuel n p;
             case value of
               None \<Rightarrow> do { p \<leftarrow> recoverEntry TokenRBrace p; parseConstMap_loop n es p }
             | Some v \<Rightarrow> do {
                 (_, p) \<leftarrow> acceptSeparator p;
                 parseConstMap_loop n (es @ [ConstMapEntry k v]) p } } } }
     else Some (es, p) }"

definition parseConstValue :: "parser \<Rightarrow> ConstValue option parsed" where
  "parseConstValue p = parseConstValue_fuel (parse_fuel p) p"

section \<open>Structured annotations\<close>

text \<open>A map or list inside the parentheses is reported at its first token.\<close>

definition check_scalar :: "ConstValue option \<Rightarrow> parser \<Rightarrow> parser option" where
  "check_scalar v p =
     (case v of
        None \<Rightarrow> Some p
      | Some w \<Rightarrow>
          if cvKind w = ValueMap \<or> cvKind w = ValueList then do {
            t \<leftarrow> tok_at p (nbFirst (cvBase w));
            Some (errorfTok t (Sprintf ''parenthesized annotation value must be a scalar constant'' []) p) }
          else Some p)"

text \<open>The \<open>switch\<close> over the forms of an annotation value.\<close>

definition parseStructured_value :: "Identifier \<Rightarrow> parser \<Rightarrow> ConstValue option parsed" where
  "parseStructured_value name p = do {
     t \<leftarrow> cur p;
     if tkKind t = TokenLBrace \<or> tkKind t = TokenLBracket then parseConstValue p
     else if tkKind t = TokenLParen then do {
       (_, p) \<leftarrow> advance p;
       (v, p) \<leftarrow> parseConstValue p;
       (_, p) \<leftarrow> expect TokenRParen (quoted (CHR '')'') '' to close annotation value'') p;
       p \<leftarrow> check_scalar v p;
       Some (v, p) }
     else do {
       p \<leftarrow> errorfGot ''expected annotation value after %q, got %q'' [idText name] p;
       Some (None, p) } }"

fun parseStructuredAnnotations_loop ::
  "nat \<Rightarrow> StructuredAnnotation list \<Rightarrow> parser \<Rightarrow> StructuredAnnotation list parsed" where
  "parseStructuredAnnotations_loop 0 out p = None"
| "parseStructuredAnnotations_loop (Suc n) out p = do {
     b \<leftarrow> at TokenAt p;
     if b then do {
       let first = nextReal p (psPos p);
       (_, p) \<leftarrow> advance p;
       (name, p) \<leftarrow> expectIdentifier ''annotation name'' p;
       case name of
         None \<Rightarrow> Some (out, p)
       | Some nm \<Rightarrow> do {
           (value, p) \<leftarrow> parseStructured_value nm p;
           parseStructuredAnnotations_loop n
             (out @ [\<lparr>saBase = span first p, saName = Some nm, saValue = value\<rparr>]) p } }
     else Some (out, p) }"

definition parseStructuredAnnotations :: "parser \<Rightarrow> StructuredAnnotation list parsed" where
  "parseStructuredAnnotations p = parseStructuredAnnotations_loop (parse_fuel p) [] p"

text \<open>The first token of a node with leading structured annotations.\<close>

definition first_with :: "StructuredAnnotation list \<Rightarrow> nat \<Rightarrow> nat" where
  "first_with annos i = (case annos of [] \<Rightarrow> i | a # _ \<Rightarrow> nbFirst (saBase a))"

section \<open>Fields\<close>

text \<open>The default value of a field; \<^const>\<open>False\<close> when it is malformed.\<close>

definition parseField_value :: "parser \<Rightarrow> (bool \<times> ConstValue option) parsed" where
  "parseField_value p = do {
     eq \<leftarrow> at TokenEqual p;
     if eq then do {
       (_, p) \<leftarrow> advance p;
       (v, p) \<leftarrow> parseConstValue p;
       case v of
         None \<Rightarrow> do { p \<leftarrow> synchronizeTo field_stops p; Some ((False, None), p) }
       | Some w \<Rightarrow> Some ((True, Some w), p) }
     else Some ((True, None), p) }"

text \<open>The id and its colon; \<^const>\<open>False\<close> when the colon is missing.\<close>

definition parseField_id :: "parser \<Rightarrow> (bool \<times> nat option) parsed" where
  "parseField_id p = do {
     int \<leftarrow> at TokenIntConstant p;
     after \<leftarrow> (if int then do { k \<leftarrow> peekAfter (nextReal p (psPos p)) p; Some (k = TokenColon) } else Some False);
     if after then do {
       (i, p) \<leftarrow> advance p;
       (c, p) \<leftarrow> expect TokenColon (quoted (CHR '':'') '' after field id'') p;
       if \<not> c then do { p \<leftarrow> synchronizeTo field_stops p; Some ((False, Some i), p) }
       else Some ((True, Some i), p) }
     else Some ((True, None), p) }"

definition parseField_req :: "parser \<Rightarrow> nat option parsed" where
  "parseField_req p = do {
     t \<leftarrow> cur p;
     if tkKind t = TokenRequired \<or> tkKind t = TokenOptional
     then do { (i, p) \<leftarrow> advance p; Some (Some i, p) } else Some (None, p) }"

definition parseField_name :: "parser \<Rightarrow> Identifier option parsed" where
  "parseField_name p = do {
     t \<leftarrow> cur p;
     if tkKind t = TokenIdentifier \<or> IsKeyword (tkKind t)
     then do { (name, p) \<leftarrow> parseIdentifier p; Some (Some name, p) }
     else do {
       p \<leftarrow> errorfGot ''expected field name, got %q'' [] p;
       p \<leftarrow> synchronizeTo field_stops p;
       Some (None, p) } }"

definition parseField :: "parser \<Rightarrow> Field option parsed" where
  "parseField p = do {
     (annos, p) \<leftarrow> parseStructuredAnnotations p;
     let first = first_with annos (nextReal p (psPos p));
     ((ok, fid), p) \<leftarrow> parseField_id p;
     if \<not> ok then Some (None, p)
     else do {
       (req, p) \<leftarrow> parseField_req p;
       (ty, p) \<leftarrow> parseFieldType p;
       case ty of
         None \<Rightarrow> do { p \<leftarrow> synchronizeTo field_stops p; Some (None, p) }
       | Some ty \<Rightarrow> do {
           (amp, p) \<leftarrow> accept TokenAmp p;
           (name, p) \<leftarrow> parseField_name p;
           case name of
             None \<Rightarrow> Some (None, p)
           | Some nm \<Rightarrow> do {
               ((good, value), p) \<leftarrow> parseField_value p;
               if \<not> good then Some (None, p)
               else do {
                 (an, p) \<leftarrow> parseAnnotationsIfPresent p;
                 (sep, p) \<leftarrow> acceptSeparator p;
                 Some (Some \<lparr>fiBase = span first p, fiFieldID = fid, fiReq = req, fiType = Some ty,
                   fiReference = (amp \<noteq> None), fiName = Some nm, fiValue = value, fiSep = sep,
                   fiAnnotations = an, fiStructured = annos\<rparr>, p) } } } } }"

fun parseFieldList_loop :: "nat \<Rightarrow> TokenKind \<Rightarrow> Field list \<Rightarrow> parser \<Rightarrow> Field list parsed" where
  "parseFieldList_loop 0 term acc p = None"
| "parseFieldList_loop (Suc n) term acc p = do {
     r \<leftarrow> at term p;
     e \<leftarrow> at TokenEOF p;
     if \<not> r \<and> \<not> e then do {
       (f, p) \<leftarrow> parseField p;
       case f of
         None \<Rightarrow> do { p \<leftarrow> recoverEntry term p; parseFieldList_loop n term acc p }
       | Some fd \<Rightarrow> parseFieldList_loop n term (acc @ [fd]) p }
     else Some (acc, p) }"

definition parseFieldList :: "TokenKind \<Rightarrow> parser \<Rightarrow> Field list parsed" where
  "parseFieldList term p = parseFieldList_loop (parse_fuel p) term [] p"

section \<open>Headers\<close>

text \<open>\<open>parseInclude\<close> and \<open>parseCPPInclude\<close> differ in the node and the message.\<close>

definition parse_path :: "string \<Rightarrow> parser \<Rightarrow> nat option parsed" where
  "parse_path what p = do {
     (_, p) \<leftarrow> advance p;
     s \<leftarrow> at TokenStringLiteral p;
     if \<not> s then do {
       p \<leftarrow> errorfGot (''expected '' @ what @ '' path string, got %q'') [] p;
       e \<leftarrow> at TokenEOF p;
       p \<leftarrow> (if \<not> e then do { (_, p) \<leftarrow> advance p; Some p } else Some p);
       Some (None, p) }
     else do { (i, p) \<leftarrow> advance p; Some (Some i, p) } }"

definition parseInclude :: "parser \<Rightarrow> Node option parsed" where
  "parseInclude p = do {
     let first = nextReal p (psPos p);
     (path, p) \<leftarrow> parse_path ''include'' p;
     case path of
       None \<Rightarrow> Some (None, p)
     | Some i \<Rightarrow> Some (Some (N_Include \<lparr>incBase = span first p, incPath = Some i\<rparr>), p) }"

definition parseCPPInclude :: "parser \<Rightarrow> Node option parsed" where
  "parseCPPInclude p = do {
     let first = nextReal p (psPos p);
     (path, p) \<leftarrow> parse_path ''cpp_include'' p;
     case path of
       None \<Rightarrow> Some (None, p)
     | Some i \<Rightarrow> Some (Some (N_CPPInclude \<lparr>cppBase = span first p, cppPath = Some i\<rparr>), p) }"

text \<open>\<open>p.synchronizeTo(TokenEOF); return nil\<close>\<close>

definition give_up :: "parser \<Rightarrow> 'a option parsed" where
  "give_up p = do { p \<leftarrow> synchronizeTo [TokenEOF] p; Some (None, p) }"

definition parseNamespace :: "parser \<Rightarrow> Node option parsed" where
  "parseNamespace p = do {
     let first = nextReal p (psPos p);
     (_, p) \<leftarrow> advance p;
     a \<leftarrow> at TokenIdentifier p;
     b \<leftarrow> at TokenStar p;
     if \<not> a \<and> \<not> b then do {
       p \<leftarrow> errorfGot ''expected namespace scope, got %q'' [] p;
       give_up p }
     else do {
       (scope, p) \<leftarrow> advance p;
       (name, p) \<leftarrow> expectIdentifier ''namespace name'' p;
       case name of
         None \<Rightarrow> give_up p
       | Some nm \<Rightarrow> do {
           (an, p) \<leftarrow> parseAnnotationsIfPresent p;
           Some (Some (N_Namespace \<lparr>nsBase = span first p, nsScope = Some scope, nsName = Some nm,
             nsAnnotations = an, nsStructured = []\<rparr>), p) } } }"

section \<open>Definitions\<close>

definition parseConst :: "parser \<Rightarrow> Node option parsed" where
  "parseConst p = do {
     let first = nextReal p (psPos p);
     (_, p) \<leftarrow> advance p;
     (ty, p) \<leftarrow> parseFieldType p;
     case ty of
       None \<Rightarrow> give_up p
     | Some ty \<Rightarrow> do {
         (name, p) \<leftarrow> expectIdentifier ''constant name'' p;
         case name of
           None \<Rightarrow> give_up p
         | Some nm \<Rightarrow> do {
             (eq, p) \<leftarrow> expect TokenEqual (quoted (CHR ''='') []) p;
             if \<not> eq then give_up p
             else do {
               (v, p) \<leftarrow> parseConstValue p;
               case v of
                 None \<Rightarrow> give_up p
               | Some w \<Rightarrow> do {
                   (sep, p) \<leftarrow> acceptSeparator p;
                   Some (Some (N_Const \<lparr>coBase = span first p, coType = Some ty, coName = Some nm,
                     coValue = Some w, coSep = sep, coStructured = []\<rparr>), p) } } } } }"

definition parseTypedef :: "parser \<Rightarrow> Node option parsed" where
  "parseTypedef p = do {
     let first = nextReal p (psPos p);
     (_, p) \<leftarrow> advance p;
     (ty, p) \<leftarrow> parseFieldType p;
     case ty of
       None \<Rightarrow> give_up p
     | Some ty \<Rightarrow> do {
         (name, p) \<leftarrow> expectIdentifier ''typedef name'' p;
         case name of
           None \<Rightarrow> give_up p
         | Some nm \<Rightarrow> do {
             (an, p) \<leftarrow> parseAnnotationsIfPresent p;
             (sep, p) \<leftarrow> acceptSeparator p;
             Some (Some (N_Typedef \<lparr>tdBase = span first p, tdType = Some ty, tdName = Some nm,
               tdSep = sep, tdAnnotations = an, tdStructured = []\<rparr>), p) } } }"

text \<open>The value of an enum member; a bad one is reported and left nil.\<close>

definition parseEnumValue_int :: "parser \<Rightarrow> nat option parsed" where
  "parseEnumValue_int p = do {
     eq \<leftarrow> at TokenEqual p;
     if eq then do {
       (_, p) \<leftarrow> advance p;
       i \<leftarrow> at TokenIntConstant p;
       if \<not> i then do {
         p \<leftarrow> errorfGot ''expected integer enum value, got %q'' [] p;
         Some (None, p) }
       else do { (v, p) \<leftarrow> advance p; Some (Some v, p) } }
     else Some (None, p) }"

definition parseEnumValue :: "parser \<Rightarrow> EnumValue option parsed" where
  "parseEnumValue p = do {
     b \<leftarrow> at TokenIdentifier p;
     if \<not> b then do {
       p \<leftarrow> errorfGot ''expected enum value name, got %q'' [] p;
       Some (None, p) }
     else do {
       let first = nextReal p (psPos p);
       (name, p) \<leftarrow> parseIdentifier p;
       (value, p) \<leftarrow> parseEnumValue_int p;
       (an, p) \<leftarrow> parseAnnotationsIfPresent p;
       (sep, p) \<leftarrow> acceptSeparator p;
       Some (Some \<lparr>evBase = span first p, evName = Some name, evValue = value, evSep = sep,
         evAnnotations = an\<rparr>, p) } }"

fun parseEnum_loop :: "nat \<Rightarrow> EnumValue list \<Rightarrow> parser \<Rightarrow> EnumValue list parsed" where
  "parseEnum_loop 0 vs p = None"
| "parseEnum_loop (Suc n) vs p = do {
     r \<leftarrow> at TokenRBrace p;
     e \<leftarrow> at TokenEOF p;
     if \<not> r \<and> \<not> e then do {
       (v, p) \<leftarrow> parseEnumValue p;
       case v of
         None \<Rightarrow> do { p \<leftarrow> synchronizeTo [TokenRBrace] p; parseEnum_loop n vs p }
       | Some w \<Rightarrow> parseEnum_loop n (vs @ [w]) p }
     else Some (vs, p) }"

text \<open>
  The braces of an enum, a struct or a service: the two branches of
  \<open>if p.accept(TokenLBrace) != nil\<close> around the given loop.
\<close>

definition parse_body :: "string \<Rightarrow> (parser \<Rightarrow> 'a list parsed) \<Rightarrow> parser \<Rightarrow> 'a list parsed" where
  "parse_body what loop p = do {
     (b, p) \<leftarrow> accept TokenLBrace p;
     if b \<noteq> None then do {
       (xs, p) \<leftarrow> loop p;
       (_, p) \<leftarrow> expect TokenRBrace (quoted (CHR ''}'') ('' to close '' @ what)) p;
       Some (xs, p) }
     else do {
       p \<leftarrow> errorfGot (''expected '' @ quoted (CHR ''{'') ('' after '' @ what @ '' name, got %q'')) [] p;
       Some ([], p) } }"

definition parseEnum :: "parser \<Rightarrow> Node option parsed" where
  "parseEnum p = do {
     let first = nextReal p (psPos p);
     (_, p) \<leftarrow> advance p;
     (name, p) \<leftarrow> expectIdentifier ''enum name'' p;
     case name of
       None \<Rightarrow> give_up p
     | Some nm \<Rightarrow> do {
         (vs, p) \<leftarrow> parse_body ''enum'' (\<lambda>p. parseEnum_loop (parse_fuel p) [] p) p;
         (an, p) \<leftarrow> parseAnnotationsIfPresent p;
         Some (Some (N_Enum \<lparr>enBase = span first p, enName = Some nm, enValues = vs,
           enAnnotations = an, enStructured = []\<rparr>), p) } }"

definition parseStruct :: "parser \<Rightarrow> Node option parsed" where
  "parseStruct p = do {
     let first = nextReal p (psPos p);
     t \<leftarrow> cur p;
     (_, p) \<leftarrow> advance p;
     (name, p) \<leftarrow> expectIdentifier ''struct name'' p;
     case name of
       None \<Rightarrow> give_up p
     | Some nm \<Rightarrow> do {
         (fs, p) \<leftarrow> parse_body ''struct'' (parseFieldList TokenRBrace) p;
         (an, p) \<leftarrow> parseAnnotationsIfPresent p;
         Some (Some (N_Struct \<lparr>stBase = span first p, stKind = tkKind t, stName = Some nm, stFields = fs,
           stAnnotations = an, stStructured = []\<rparr>), p) } }"

section \<open>Services\<close>

definition parse_oneway :: "parser \<Rightarrow> nat option parsed" where
  "parse_oneway p = do {
     t \<leftarrow> cur p;
     if tkKind t = TokenOneway then do { (i, p) \<leftarrow> advance p; Some (Some i, p) }
     else if tkKind t = TokenAsync then do {
       (i, p) \<leftarrow> advance p;
       w \<leftarrow> tok_at p i;
       Some (Some i, warnf w (Sprintf ''async is deprecated, use oneway'' []) p) }
     else Some (None, p) }"

text \<open>The throws clause: \<^const>\<open>False\<close> when the function is given up.\<close>

definition parse_throws :: "parser \<Rightarrow> (bool \<times> Throws option) parsed" where
  "parse_throws p = do {
     th \<leftarrow> at TokenThrows p;
     if \<not> th then Some ((True, None), p)
     else do {
       (_, p) \<leftarrow> advance p;
       (lp, p) \<leftarrow> expect TokenLParen (quoted (CHR ''('') '' after throws'') p;
       if \<not> lp then do { p \<leftarrow> synchronizeTo [TokenEOF] p; Some ((False, None), p) }
       else do {
         let first = psPos p - 1;
         (fs, p) \<leftarrow> parseFieldList TokenRParen p;
         (_, p) \<leftarrow> expect TokenRParen (quoted (CHR '')'') '' to close throws'') p;
         Some ((True, Some \<lparr>thBase = span first p, thFields = fs\<rparr>), p) } } }"

text \<open>The return type: \<^const>\<open>False\<close> when it is malformed.\<close>

definition parse_return :: "parser \<Rightarrow> (bool \<times> nat option \<times> FieldType option) parsed" where
  "parse_return p = do {
     v \<leftarrow> at TokenVoid p;
     if v then do { (i, p) \<leftarrow> advance p; Some ((True, Some i, None), p) }
     else do {
       (ty, p) \<leftarrow> parseFieldType p;
       Some ((ty \<noteq> None, None, ty), p) } }"

definition parseFunction :: "parser \<Rightarrow> Function option parsed" where
  "parseFunction p = do {
     (annos, p) \<leftarrow> parseStructuredAnnotations p;
     let first = first_with annos (nextReal p (psPos p));
     (oneway, p) \<leftarrow> parse_oneway p;
     ((typed, vd, ty), p) \<leftarrow> parse_return p;
     if \<not> typed then do { p \<leftarrow> synchronizeTo [TokenLParen, TokenEOF] p; Some (None, p) }
     else do {
       (name, p) \<leftarrow> expectIdentifier ''function name'' p;
       case name of
         None \<Rightarrow> do { p \<leftarrow> synchronizeTo [TokenLParen, TokenEOF] p; Some (None, p) }
       | Some nm \<Rightarrow> do {
           (lp, p) \<leftarrow> expect TokenLParen (quoted (CHR ''('') []) p;
           if \<not> lp then give_up p
           else do {
             (args, p) \<leftarrow> parseFieldList TokenRParen p;
             (_, p) \<leftarrow> expect TokenRParen (quoted (CHR '')'') '' to close arguments'') p;
             ((good, throws), p) \<leftarrow> parse_throws p;
             if \<not> good then Some (None, p)
             else do {
               (an, p) \<leftarrow> parseAnnotationsIfPresent p;
               (sep, p) \<leftarrow> acceptSeparator p;
               Some (Some \<lparr>fnBase = span first p, fnOneway = oneway, fnType = ty, fnVoid = vd,
                 fnName = Some nm, fnArgs = args, fnThrows = throws, fnSep = sep,
                 fnAnnotations = an, fnStructured = annos\<rparr>, p) } } } } }"

text \<open>Past the parameter list of a function that did not parse.\<close>

definition skip_function :: "parser \<Rightarrow> parser option" where
  "skip_function p = do {
     p \<leftarrow> synchronizeTo [TokenRParen, TokenRBrace] p;
     r \<leftarrow> at TokenRParen p;
     if r then do { (_, p) \<leftarrow> advance p; Some p } else Some p }"

fun parseService_loop :: "nat \<Rightarrow> Function list \<Rightarrow> parser \<Rightarrow> Function list parsed" where
  "parseService_loop 0 fs p = None"
| "parseService_loop (Suc n) fs p = do {
     r \<leftarrow> at TokenRBrace p;
     e \<leftarrow> at TokenEOF p;
     if \<not> r \<and> \<not> e then do {
       (f, p) \<leftarrow> parseFunction p;
       case f of
         None \<Rightarrow> do { p \<leftarrow> skip_function p; parseService_loop n fs p }
       | Some g \<Rightarrow> parseService_loop n (fs @ [g]) p }
     else Some (fs, p) }"

text \<open>The extends clause: \<^const>\<open>False\<close> when no body follows a malformed one.\<close>

definition parse_extends :: "parser \<Rightarrow> (bool \<times> Identifier option) parsed" where
  "parse_extends p = do {
     x \<leftarrow> at TokenExtends p;
     if \<not> x then Some ((True, None), p)
     else do {
       (_, p) \<leftarrow> advance p;
       (b, p) \<leftarrow> expectIdentifier ''base service name'' p;
       case b of
         Some i \<Rightarrow> Some ((True, Some i), p)
       | None \<Rightarrow> do {
           p \<leftarrow> synchronizeTo [TokenLBrace, TokenEOF] p;
           l \<leftarrow> at TokenLBrace p;
           Some ((l, None), p) } } }"

definition parseService :: "parser \<Rightarrow> Node option parsed" where
  "parseService p = do {
     let first = nextReal p (psPos p);
     (_, p) \<leftarrow> advance p;
     (name, p) \<leftarrow> expectIdentifier ''service name'' p;
     case name of
       None \<Rightarrow> give_up p
     | Some nm \<Rightarrow> do {
         ((good, ext), p) \<leftarrow> parse_extends p;
         if \<not> good then Some (None, p)
         else do {
           (fs, p) \<leftarrow> parse_body ''service'' (\<lambda>p. parseService_loop (parse_fuel p) [] p) p;
           (an, p) \<leftarrow> parseAnnotationsIfPresent p;
           Some (Some (N_Service \<lparr>svBase = span first p, svName = Some nm, svExtends = ext,
             svFunctions = fs, svAnnotations = an, svStructured = []\<rparr>), p) } } }"

section \<open>The document\<close>

definition first_from :: "StructuredAnnotation list \<Rightarrow> nodeBase \<Rightarrow> nodeBase" where
  "first_from annos b = b\<lparr>nbFirst := first_with annos (nbFirst b)\<rparr>"

text \<open>\<open>setStructured\<close> of the six node types that have it; \<open>annos\<close> is not empty.\<close>

fun setStructured :: "StructuredAnnotation list \<Rightarrow> Node \<Rightarrow> Node" where
  "setStructured a (N_Namespace n) = N_Namespace (n\<lparr>nsStructured := a, nsBase := first_from a (nsBase n)\<rparr>)"
| "setStructured a (N_Const n) = N_Const (n\<lparr>coStructured := a, coBase := first_from a (coBase n)\<rparr>)"
| "setStructured a (N_Typedef n) = N_Typedef (n\<lparr>tdStructured := a, tdBase := first_from a (tdBase n)\<rparr>)"
| "setStructured a (N_Enum n) = N_Enum (n\<lparr>enStructured := a, enBase := first_from a (enBase n)\<rparr>)"
| "setStructured a (N_Struct n) = N_Struct (n\<lparr>stStructured := a, stBase := first_from a (stBase n)\<rparr>)"
| "setStructured a (N_Service n) = N_Service (n\<lparr>svStructured := a, svBase := first_from a (svBase n)\<rparr>)"
| "setStructured a n = n"

definition attachStructured :: "Node option \<Rightarrow> StructuredAnnotation list \<Rightarrow> Node option" where
  "attachStructured n annos = (if annos = [] then n else map_option (setStructured annos) n)"

definition appendNode :: "Node list \<Rightarrow> Node option \<Rightarrow> Node list" where
  "appendNode ns n = (case n of None \<Rightarrow> ns | Some x \<Rightarrow> ns @ [x])"

text \<open>The cases that both switches of \<open>parseDocument\<close> have.\<close>

definition definition_parser :: "TokenKind \<Rightarrow> (parser \<Rightarrow> Node option parsed) option" where
  "definition_parser k =
     (if k = TokenNamespace then Some parseNamespace
      else if k = TokenConst then Some parseConst
      else if k = TokenTypedef then Some parseTypedef
      else if k = TokenEnum then Some parseEnum
      else if k = TokenStruct \<or> k = TokenUnion \<or> k = TokenException then Some parseStruct
      else if k = TokenService then Some parseService
      else None)"

definition top_parser :: "TokenKind \<Rightarrow> (parser \<Rightarrow> Node option parsed) option" where
  "top_parser k =
     (if k = TokenInclude then Some parseInclude
      else if k = TokenCPPInclude then Some parseCPPInclude
      else definition_parser k)"

definition top_stops :: "TokenKind list" where
  "top_stops = [TokenInclude, TokenCPPInclude, TokenNamespace, TokenConst, TokenTypedef, TokenEnum,
     TokenStruct, TokenUnion, TokenException, TokenService]"

fun parseDocument_loop :: "nat \<Rightarrow> Node list \<Rightarrow> parser \<Rightarrow> Node list parsed" where
  "parseDocument_loop 0 nodes p = None"
| "parseDocument_loop (Suc n) nodes p = do {
     t \<leftarrow> cur p;
     if tkKind t = TokenEOF then Some (nodes, p)
     else (case top_parser (tkKind t) of
       Some parse \<Rightarrow> do {
         (x, p) \<leftarrow> parse p;
         parseDocument_loop n (appendNode nodes x) p }
     | None \<Rightarrow>
         if tkKind t = TokenAt then do {
           (annos, p) \<leftarrow> parseStructuredAnnotations p;
           t \<leftarrow> cur p;
           (case definition_parser (tkKind t) of
              Some parse \<Rightarrow> do {
                (x, p) \<leftarrow> parse p;
                parseDocument_loop n (appendNode nodes (attachStructured x annos)) p }
            | None \<Rightarrow> do {
                p \<leftarrow> errorfGot ''expected definition after annotation, got %q'' [] p;
                p \<leftarrow> synchronizeTo top_stops p;
                parseDocument_loop n nodes p }) }
         else do {
           p \<leftarrow> errorfGot ''unexpected token %q at top level'' [] p;
           p \<leftarrow> synchronizeTo top_stops p;
           parseDocument_loop n nodes p }) }"

definition parseDocument :: "parser \<Rightarrow> Document parsed" where
  "parseDocument p = do {
     (nodes, p) \<leftarrow> parseDocument_loop (parse_fuel p) [] p;
     Some (\<lparr>docTokens = psToks p, docNodes = nodes\<rparr>, p) }"

definition ParseTokens :: "Token list \<Rightarrow> (Document \<times> Error list) option" where
  "ParseTokens toks = do {
     (doc, p) \<leftarrow> parseDocument \<lparr>psToks = toks, psPos = 0, psErrs = []\<rparr>;
     Some (doc, psErrs p) }"

definition Parse :: "bytes \<Rightarrow> (Document \<times> Error list) option" where
  "Parse src = do {
     (toks, lexErrs) \<leftarrow> Lex_checked src;
     (doc, parseErrs) \<leftarrow> ParseTokens toks;
     Some (doc, sort_key erOffset (lexErrs @ parseErrs)) }"

end
