(* ===== verification/ParserWf.thy ===== *)
theory ParserWf imports Parser LexerProps
begin

text \<open>
  The invariant of the parser state, what a well-formed tree is, and the
  symbolic execution of the token helpers: for every method a rule says what
  holds of its result and of the next state, so that the later proofs step
  through the code.
\<close>

section \<open>Postconditions\<close>

text \<open>\<open>ok P m\<close>: no panic, enough fuel, and the result satisfies \<open>P\<close>.\<close>

definition ok :: "('a \<Rightarrow> bool) \<Rightarrow> 'a option \<Rightarrow> bool" where
  "ok P m \<longleftrightarrow> (case m of None \<Rightarrow> False | Some x \<Rightarrow> P x)"

lemma ok_Some [simp]: "ok P (Some x) = P x"
  by (simp add: ok_def)

lemma ok_None [simp]: "\<not> ok P None"
  by (simp add: ok_def)

lemma ok_bind: "ok P m \<Longrightarrow> (\<And>x. P x \<Longrightarrow> ok Q (f x)) \<Longrightarrow> ok Q (Option.bind m f)"
  by (cases m) auto

lemma ok_mono: "ok P m \<Longrightarrow> (\<And>x. P x \<Longrightarrow> Q x) \<Longrightarrow> ok Q m"
  by (cases m) auto

lemma ok_exists: "ok P m \<Longrightarrow> \<exists>x. m = Some x \<and> P x"
  by (cases m) auto

section \<open>The state\<close>

definition real_tok :: "Token list \<Rightarrow> nat \<Rightarrow> bool" where
  "real_tok toks i \<longleftrightarrow> i < length toks \<and> \<not> IsComment (tkKind (toks ! i))"

definition stream_ok :: "Token list \<Rightarrow> bool" where
  "stream_ok toks \<longleftrightarrow> toks \<noteq> [] \<and> tkKind (last toks) = TokenEOF \<and> TokenEOF \<notin> tkKind ` set (butlast toks)"

definition err_at :: "Token list \<Rightarrow> Error \<Rightarrow> bool" where
  "err_at toks e \<longleftrightarrow>
     (\<exists>t \<in> set toks. erOffset e = tkOffset t \<and> erLine e = tkLine t \<and> erCol e = tkCol t)"

definition wf_state :: "parser \<Rightarrow> bool" where
  "wf_state p \<longleftrightarrow> stream_ok (psToks p) \<and> psPos p < length (psToks p) \<and>
     (psPos p = 0 \<or> real_tok (psToks p) (psPos p - 1)) \<and> list_all (err_at (psToks p)) (psErrs p)"

text \<open>The number of errors that are not warnings.\<close>

definition nerr :: "parser \<Rightarrow> nat" where
  "nerr p = length (filter (\<lambda>e. erSeverity e = SeverityError) (psErrs p))"

definition nx :: "parser \<Rightarrow> nat" where
  "nx p = NextReal (psToks p) (psPos p)"

definition kind :: "parser \<Rightarrow> TokenKind" where
  "kind p = tkKind (psToks p ! nx p)"

lemma last_real: "stream_ok toks \<Longrightarrow> real_tok toks (length toks - 1)"
  by (cases toks rule: rev_cases) (auto simp: stream_ok_def real_tok_def IsComment_def)

lemma NextReal_real_tok:
  assumes "stream_ok toks" "i < length toks"
  shows "real_tok toks (NextReal toks i)"
proof -
  have "NextReal toks i \<le> length toks - 1"
    using NextReal_le[of i "length toks - 1" toks] last_real[OF assms(1)] assms(2) by (simp add: real_tok_def)
  then show ?thesis using NextReal_real[of toks i] assms(2) by (simp add: real_tok_def)
qed

lemma wf_nx: "wf_state p \<Longrightarrow> real_tok (psToks p) (nx p)"
  by (simp add: wf_state_def nx_def NextReal_real_tok)

lemma wf_nx_less [simp]: "wf_state p \<Longrightarrow> nx p < length (psToks p)"
  using wf_nx by (simp add: real_tok_def)

lemma nx_ge [simp]: "psPos p \<le> nx p"
  by (simp add: nx_def)

lemma wf_kind [simp]: "wf_state p \<Longrightarrow> \<not> IsComment (kind p)"
  using wf_nx by (simp add: real_tok_def kind_def)

lemma wf_not_eof: "wf_state p \<Longrightarrow> kind p \<noteq> TokenEOF \<Longrightarrow> Suc (nx p) < length (psToks p)"
proof -
  assume w: "wf_state p" and k: "kind p \<noteq> TokenEOF"
  have "nx p \<noteq> length (psToks p) - 1"
    using w k by (auto simp: wf_state_def stream_ok_def kind_def last_conv_nth)
  then show ?thesis using wf_nx_less[OF w] by simp
qed

lemma eof_only_last:
  "stream_ok toks \<Longrightarrow> i < length toks \<Longrightarrow> tkKind (toks ! i) = TokenEOF \<Longrightarrow> i = length toks - 1"
  by (cases toks rule: rev_cases) (use nth_mem in \<open>fastforce simp: stream_ok_def nth_append image_iff split: if_splits\<close>)+

lemma cur_wf [simp]: "wf_state p \<Longrightarrow> cur p = Some (psToks p ! nx p)"
  using wf_nx_less[of p] by (simp add: cur_def tok_at_def nextReal_def nx_def[symmetric])

lemma at_wf [simp]: "wf_state p \<Longrightarrow> at k p = Some (kind p = k)"
  by (simp add: at_def kind_def)

lemma kind_fold [simp]: "tkKind (psToks p ! nx p) = kind p"
  by (simp add: kind_def)

lemma nextReal_fold [simp]: "nextReal p (psPos p) = nx p"
  by (simp add: nextReal_def nx_def)

text \<open>The part of every postcondition that says where the state went.\<close>

definition moved :: "parser \<Rightarrow> parser \<Rightarrow> bool" where
  "moved p p' \<longleftrightarrow> wf_state p' \<and> psToks p' = psToks p \<and> psPos p \<le> psPos p' \<and> nerr p \<le> nerr p'"

lemma movedD:
  assumes "moved p p'"
  shows "wf_state p'" "psToks p' = psToks p" "psPos p \<le> psPos p'" "nerr p \<le> nerr p'"
  using assms by (simp_all add: moved_def)

lemma moved_refl [simp]: "wf_state p \<Longrightarrow> moved p p"
  by (simp add: moved_def)

lemma moved_trans: "moved a b \<Longrightarrow> moved b c \<Longrightarrow> moved a c"
  by (simp add: moved_def)

definition stepped :: "parser \<Rightarrow> parser" where
  "stepped p = p\<lparr>psPos := Suc (nx p)\<rparr>"

lemma stepped_simps [simp]:
  "psToks (stepped p) = psToks p" "psPos (stepped p) = Suc (nx p)" "psErrs (stepped p) = psErrs p"
  "nerr (stepped p) = nerr p"
  by (simp_all add: stepped_def nerr_def)

lemma wf_stepped [simp]: "wf_state p \<Longrightarrow> kind p \<noteq> TokenEOF \<Longrightarrow> wf_state (stepped p)"
  using wf_not_eof[of p] wf_nx[of p] by (simp add: wf_state_def)

lemma advance_wf [simp]: "wf_state p \<Longrightarrow> advance p = Some (nx p, stepped p)"
  using wf_nx_less[of p] by (simp add: advance_def tok_at_def stepped_def Let_def)

lemma pos_le_Suc_nx [simp]: "psPos p \<le> Suc (nx p)" "psPos p < Suc (nx p)"
  by (simp_all add: nx_def less_Suc_eq_le le_SucI)

lemma moved_stepped [simp]: "wf_state p \<Longrightarrow> kind p \<noteq> TokenEOF \<Longrightarrow> moved p (stepped p)"
  by (simp add: moved_def)

lemma add_error_simps [simp]:
  "psToks (add_error s t m p) = psToks p" "psPos (add_error s t m p) = psPos p"
  "nerr (add_error SeverityError t m p) = Suc (nerr p)" "nerr (add_error SeverityWarning t m p) = nerr p"
  "nx (add_error s t m p) = nx p" "kind (add_error s t m p) = kind p"
  by (simp_all add: add_error_def nerr_def nx_def kind_def)

lemma wf_add_error [simp]: "wf_state p \<Longrightarrow> t \<in> set (psToks p) \<Longrightarrow> wf_state (add_error s t m p)"
  by (auto simp: wf_state_def add_error_def err_at_def)

lemma cur_in_toks [simp]: "wf_state p \<Longrightarrow> psToks p ! nx p \<in> set (psToks p)"
  by simp

lemma errorfGot_spec:
  "wf_state p \<Longrightarrow> ok (\<lambda>p'. moved p p' \<and> nerr p < nerr p' \<and> psPos p' = psPos p \<and> nx p' = nx p \<and> kind p' = kind p)
     (errorfGot f args p)"
  by (simp add: errorfGot_def errorfCur_def moved_def)

lemma warnf_moved [simp]: "wf_state p \<Longrightarrow> t \<in> set (psToks p) \<Longrightarrow> moved p (warnf t m p)"
  by (simp add: warnf_def moved_def)

lemma accept_spec:
  "wf_state p \<Longrightarrow> k \<noteq> TokenEOF \<Longrightarrow>
   ok (\<lambda>(r, p'). moved p p' \<and> nerr p' = nerr p \<and>
       (if kind p = k then r = Some (nx p) \<and> psPos p' = Suc (nx p) \<and> psPos p \<le> nx p else r = None \<and> p' = p)) (accept k p)"
  by (auto simp: accept_def)

lemma expect_spec:
  "wf_state p \<Longrightarrow> k \<noteq> TokenEOF \<Longrightarrow>
   ok (\<lambda>(r, p'). moved p p' \<and>
       (if kind p = k then r \<and> psPos p' = Suc (nx p) \<and> psPos p \<le> nx p \<and> nerr p' = nerr p
        else \<not> r \<and> psPos p' = psPos p \<and> nerr p < nerr p' \<and> nx p' = nx p \<and> kind p' = kind p)) (expect k what p)"
proof (cases "kind p = k")
  case True
  assume "wf_state p" "k \<noteq> TokenEOF"
  then show ?thesis using True by (simp add: expect_def)
next
  case False
  assume "wf_state p"
  then show ?thesis using False by (auto simp: expect_def intro!: ok_bind[OF errorfGot_spec])
qed

lemma synchronizeTo_spec:
  "wf_state p \<Longrightarrow> ok (\<lambda>p'. moved p p' \<and> nerr p' = nerr p \<and> (kind p' = TokenEOF \<or> kind p' \<in> set ks) \<and>
     (if kind p = TokenEOF \<or> kind p \<in> set ks then p' = p else psPos p < psPos p')) (synchronizeTo ks p)"
proof (induction ks p rule: synchronizeTo.induct)
  case (1 ks p)
  show ?case
  proof (cases "kind p = TokenEOF \<or> kind p \<in> set ks")
    case True
    then show ?thesis using 1(2) by (auto simp: synchronizeTo.simps[of ks p])
  next
    case False
    have "ok (\<lambda>p'. moved (stepped p) p' \<and> nerr p' = nerr (stepped p) \<and> (kind p' = TokenEOF \<or> kind p' \<in> set ks) \<and>
     (if kind (stepped p) = TokenEOF \<or> kind (stepped p) \<in> set ks then p' = stepped p
      else psPos (stepped p) < psPos p')) (synchronizeTo ks (stepped p))"
      using 1(1)[of "psToks p ! nx p" "(nx p, stepped p)" "nx p" "stepped p"] 1(2) False by simp
    then have "ok (\<lambda>p'. moved p p' \<and> nerr p' = nerr p \<and> (kind p' = TokenEOF \<or> kind p' \<in> set ks) \<and> psPos p < psPos p')
        (synchronizeTo ks (stepped p))"
      using pos_le_Suc_nx(2)[of p]
      by (auto elim!: ok_mono simp: moved_def simp del: pos_le_Suc_nx split: if_splits)
    then show ?thesis using 1(2) False by (simp add: synchronizeTo.simps[of ks p])
  qed
qed

lemma recoverEntry_spec:
  "wf_state p \<Longrightarrow> t \<noteq> TokenEOF \<Longrightarrow> kind p \<noteq> TokenEOF \<Longrightarrow> kind p \<noteq> t \<Longrightarrow>
   ok (\<lambda>p'. moved p p' \<and> nerr p' = nerr p \<and> psPos p < psPos p') (recoverEntry t p)"
proof -
  assume w: "wf_state p" and t: "t \<noteq> TokenEOF" "kind p \<noteq> TokenEOF" "kind p \<noteq> t"
  have "ok (\<lambda>p'. moved p p' \<and> nerr p' = nerr p \<and> psPos p < psPos p')
      (do { a \<leftarrow> at t q; e \<leftarrow> at TokenEOF q;
            if \<not> a \<and> \<not> e then do { (_, p) \<leftarrow> advance q; Some p } else Some q })"
    if q: "moved p q" "nerr q = nerr p" "q = p \<or> psPos p < psPos q" for q
    using q t movedD[OF q(1)] moved_trans[OF q(1) moved_stepped] pos_le_Suc_nx(2)[of q]
    by (auto simp del: pos_le_Suc_nx elim: order.strict_trans)
  then show ?thesis
    unfolding recoverEntry_def by (rule ok_bind[OF synchronizeTo_spec[OF w]]) (auto split: if_splits)
qed

lemma acceptSeparator_spec:
  "wf_state p \<Longrightarrow> ok (\<lambda>(r, p'). moved p p' \<and> nerr p' = nerr p) (acceptSeparator p)"
  by (auto simp: acceptSeparator_def)

text \<open>The rules in the form that steps over a call inside a sequence.\<close>

lemma advance_spec:
  "wf_state p \<Longrightarrow> kind p \<noteq> TokenEOF \<Longrightarrow>
   ok (\<lambda>(i, p'). moved p p' \<and> i = nx p \<and> psPos p \<le> nx p \<and> psPos p' = Suc (nx p) \<and> nerr p' = nerr p \<and>
     tkKind (psToks p ! nx p) = kind p \<and> real_tok (psToks p) (nx p)) (advance p)"
  by (simp add: wf_nx)

lemma sync_spec:
  "wf_state p \<Longrightarrow> ok (\<lambda>p'. moved p p' \<and> nerr p' = nerr p) (synchronizeTo ks p)"
  by (rule ok_mono[OF synchronizeTo_spec]) auto

declare advance_wf [simp del] nx_ge [simp del] pos_le_Suc_nx [simp del]

lemmas exec = ok_bind[OF advance_spec] ok_bind[OF sync_spec] ok_bind[OF errorfGot_spec]
  ok_bind[OF accept_spec] ok_bind[OF expect_spec] ok_bind[OF acceptSeparator_spec]

end
