(* ===== verification/TreeOk.thy ===== *)
theory TreeOk imports ParserWf
begin

text \<open>
  What a well-formed tree is. The parts of a node, its children and the tokens
  it points to, are listed in source order; a node is well formed when its span
  starts and ends at real tokens, its parts lie inside it, disjoint and in
  order, every pointer the code relies on is set and points to a token of the
  right kind, and its children are well formed.
\<close>

section \<open>Parts\<close>

datatype part = P_tok nat | P_node Node

fun part_first :: "part \<Rightarrow> nat" where
  "part_first (P_tok i) = i"
| "part_first (P_node n) = TokStart n"

fun part_last :: "part \<Rightarrow> nat" where
  "part_last (P_tok i) = i"
| "part_last (P_node n) = TokEnd n"

definition opt :: "('a \<Rightarrow> 'b) \<Rightarrow> 'a option \<Rightarrow> 'b list" where
  "opt f x = (case x of None \<Rightarrow> [] | Some y \<Rightarrow> [f y])"

lemma opt_simps [simp]: "opt f None = []" "opt f (Some y) = [f y]"
  by (simp_all add: opt_def)

abbreviation p_ident :: "Identifier \<Rightarrow> part" where "p_ident x \<equiv> P_node (N_Identifier x)"
abbreviation p_type :: "FieldType \<Rightarrow> part" where "p_type x \<equiv> P_node (N_FieldType x)"
abbreviation p_value :: "ConstValue \<Rightarrow> part" where "p_value x \<equiv> P_node (N_ConstValue x)"
abbreviation p_annos :: "Annotations \<Rightarrow> part" where "p_annos x \<equiv> P_node (N_Annotations x)"
abbreviation p_struct :: "StructuredAnnotation \<Rightarrow> part" where "p_struct x \<equiv> P_node (N_StructuredAnnotation x)"
abbreviation p_field :: "Field \<Rightarrow> part" where "p_field x \<equiv> P_node (N_Field x)"

definition entry_parts :: "ConstMapEntry list \<Rightarrow> part list" where
  "entry_parts es = concat (map (\<lambda>e. [p_value (cmKey e), p_value (cmValue e)]) es)"

fun node_parts :: "Node \<Rightarrow> part list" where
  "node_parts (N_Identifier n) = []"
| "node_parts (N_Annotation n) = opt p_ident (anName n) @ opt P_tok (anValue n)"
| "node_parts (N_Annotations n) = map (\<lambda>x. P_node (N_Annotation x)) (asItems n)"
| "node_parts (N_FieldType n) = opt p_ident (ftIdent n) @ opt P_tok (ftCPPType n) @
     opt p_type (ftKeyType n) @ opt p_type (ftValueType n) @ opt p_annos (ftAnnotations n)"
| "node_parts (N_ConstValue n) = map p_value (cvList n) @ entry_parts (cvMap n)"
| "node_parts (N_StructuredAnnotation n) = opt p_ident (saName n) @ opt p_value (saValue n)"
| "node_parts (N_Include n) = opt P_tok (incPath n)"
| "node_parts (N_CPPInclude n) = opt P_tok (cppPath n)"
| "node_parts (N_Namespace n) = map p_struct (nsStructured n) @ opt P_tok (nsScope n) @
     opt p_ident (nsName n) @ opt p_annos (nsAnnotations n)"
| "node_parts (N_Const n) = map p_struct (coStructured n) @ opt p_type (coType n) @
     opt p_ident (coName n) @ opt p_value (coValue n)"
| "node_parts (N_Typedef n) = map p_struct (tdStructured n) @ opt p_type (tdType n) @
     opt p_ident (tdName n) @ opt p_annos (tdAnnotations n)"
| "node_parts (N_EnumValue n) = opt p_ident (evName n) @ opt P_tok (evValue n) @ opt p_annos (evAnnotations n)"
| "node_parts (N_Enum n) = map p_struct (enStructured n) @ opt p_ident (enName n) @
     map (\<lambda>x. P_node (N_EnumValue x)) (enValues n) @ opt p_annos (enAnnotations n)"
| "node_parts (N_Field n) = map p_struct (fiStructured n) @ opt P_tok (fiFieldID n) @ opt P_tok (fiReq n) @
     opt p_type (fiType n) @ opt p_ident (fiName n) @ opt p_value (fiValue n) @ opt p_annos (fiAnnotations n)"
| "node_parts (N_Struct n) = map p_struct (stStructured n) @ opt p_ident (stName n) @
     map p_field (stFields n) @ opt p_annos (stAnnotations n)"
| "node_parts (N_Throws n) = map p_field (thFields n)"
| "node_parts (N_Function n) = map p_struct (fnStructured n) @ opt P_tok (fnOneway n) @ opt P_tok (fnVoid n) @
     opt p_type (fnType n) @ opt p_ident (fnName n) @ map p_field (fnArgs n) @
     opt (\<lambda>x. P_node (N_Throws x)) (fnThrows n) @ opt p_annos (fnAnnotations n)"
| "node_parts (N_Service n) = map p_struct (svStructured n) @ opt p_ident (svName n) @ opt p_ident (svExtends n) @
     map (\<lambda>x. P_node (N_Function x)) (svFunctions n) @ opt p_annos (svAnnotations n)"

section \<open>Pointers\<close>

definition tok_in :: "Token list \<Rightarrow> TokenKind set \<Rightarrow> nat option \<Rightarrow> bool" where
  "tok_in toks ks i \<longleftrightarrow> (case i of None \<Rightarrow> True | Some t \<Rightarrow> tkKind (toks ! t) \<in> ks)"

lemma tok_in_simps [simp]: "tok_in toks ks None" "tok_in toks ks (Some t) = (tkKind (toks ! t) \<in> ks)"
  by (simp_all add: tok_in_def)

text \<open>
  The pointers that are set in every node. With \<open>strict\<close>, which stands for a
  parse without errors, also those that error recovery may leave nil.
\<close>

fun node_shape :: "Token list \<Rightarrow> bool \<Rightarrow> Node \<Rightarrow> bool" where
  "node_shape toks strict (N_Identifier n) =
     (TokStart (N_Identifier n) = TokEnd (N_Identifier n) \<and> idText n = tkText (toks ! TokStart (N_Identifier n)))"
| "node_shape toks strict (N_Annotation n) =
     (anName n \<noteq> None \<and> tok_in toks {TokenStringLiteral} (anValue n))"
| "node_shape toks strict (N_Annotations n) = True"
| "node_shape toks strict (N_FieldType n) =
     (tok_in toks {TokenStringLiteral} (ftCPPType n) \<and>
      (case ftKind n of
         TypeBase \<Rightarrow> ftBase n = tkKind (toks ! TokStart (N_FieldType n)) \<and> isBaseType (ftBase n)
       | TypeIdent \<Rightarrow> ftIdent n \<noteq> None
       | TypeMap \<Rightarrow> strict \<longrightarrow> ftKeyType n \<noteq> None \<and> ftValueType n \<noteq> None
       | _ \<Rightarrow> strict \<longrightarrow> ftValueType n \<noteq> None))"
| "node_shape toks strict (N_ConstValue n) = True"
| "node_shape toks strict (N_StructuredAnnotation n) =
     (saName n \<noteq> None \<and> (strict \<longrightarrow> saValue n \<noteq> None))"
| "node_shape toks strict (N_Include n) = (incPath n \<noteq> None \<and> tok_in toks {TokenStringLiteral} (incPath n))"
| "node_shape toks strict (N_CPPInclude n) = (cppPath n \<noteq> None \<and> tok_in toks {TokenStringLiteral} (cppPath n))"
| "node_shape toks strict (N_Namespace n) =
     (nsName n \<noteq> None \<and> nsScope n \<noteq> None \<and> tok_in toks {TokenIdentifier, TokenStar} (nsScope n))"
| "node_shape toks strict (N_Const n) = (coType n \<noteq> None \<and> coName n \<noteq> None \<and> coValue n \<noteq> None)"
| "node_shape toks strict (N_Typedef n) = (tdType n \<noteq> None \<and> tdName n \<noteq> None)"
| "node_shape toks strict (N_EnumValue n) = (evName n \<noteq> None \<and> tok_in toks {TokenIntConstant} (evValue n))"
| "node_shape toks strict (N_Enum n) = (enName n \<noteq> None)"
| "node_shape toks strict (N_Field n) =
     (fiType n \<noteq> None \<and> fiName n \<noteq> None \<and> tok_in toks {TokenIntConstant} (fiFieldID n) \<and>
      tok_in toks {TokenRequired, TokenOptional} (fiReq n))"
| "node_shape toks strict (N_Struct n) =
     (stName n \<noteq> None \<and> stKind n \<in> {TokenStruct, TokenUnion, TokenException})"
| "node_shape toks strict (N_Throws n) = True"
| "node_shape toks strict (N_Function n) =
     (fnName n \<noteq> None \<and> (fnVoid n = None \<longleftrightarrow> fnType n \<noteq> None) \<and> tok_in toks {TokenVoid} (fnVoid n) \<and>
      tok_in toks {TokenOneway, TokenAsync} (fnOneway n))"
| "node_shape toks strict (N_Service n) = (svName n \<noteq> None)"

section \<open>Well-formed nodes\<close>

text \<open>\<open>chain lo hi ps\<close>: the parts lie between \<open>lo\<close> and \<open>hi\<close>, disjoint and in order.\<close>

fun chain :: "nat \<Rightarrow> nat \<Rightarrow> part list \<Rightarrow> bool" where
  "chain lo hi [] = True"
| "chain lo hi (p # ps) \<longleftrightarrow> lo \<le> part_first p \<and> part_first p \<le> part_last p \<and> part_last p < hi \<and>
     chain (Suc (part_last p)) hi ps"

inductive node_ok :: "Token list \<Rightarrow> bool \<Rightarrow> Node \<Rightarrow> bool" for toks strict where
  node_okI: "real_tok toks (TokStart n) \<Longrightarrow> real_tok toks (TokEnd n) \<Longrightarrow> TokStart n \<le> TokEnd n \<Longrightarrow>
     chain (TokStart n) (Suc (TokEnd n)) (node_parts n) \<Longrightarrow>
     \<forall>i. P_tok i \<in> set (node_parts n) \<longrightarrow> real_tok toks i \<Longrightarrow>
     \<forall>c. P_node c \<in> set (node_parts n) \<longrightarrow> node_ok toks strict c \<Longrightarrow>
     node_shape toks strict n \<Longrightarrow> node_ok toks strict n"

inductive_simps node_ok_iff: "node_ok toks strict n"

definition part_ok :: "Token list \<Rightarrow> bool \<Rightarrow> part \<Rightarrow> bool" where
  "part_ok toks strict p \<longleftrightarrow> (case p of P_tok i \<Rightarrow> real_tok toks i | P_node n \<Rightarrow> node_ok toks strict n)"

lemma part_ok_simps [simp]:
  "part_ok toks s (P_tok i) = real_tok toks i" "part_ok toks s (P_node n) = node_ok toks s n"
  by (simp_all add: part_ok_def)

definition parts_ok :: "Token list \<Rightarrow> bool \<Rightarrow> nat \<Rightarrow> nat \<Rightarrow> part list \<Rightarrow> bool" where
  "parts_ok toks strict lo hi ps \<longleftrightarrow> chain lo hi ps \<and> list_all (part_ok toks strict) ps"

lemma node_shape_weaken: "node_shape toks s n \<Longrightarrow> (s' \<longrightarrow> s) \<Longrightarrow> node_shape toks s' n"
  by (cases n) (auto split: FieldTypeKind.splits)

lemma node_ok_weaken: "node_ok toks s n \<Longrightarrow> (s' \<longrightarrow> s) \<Longrightarrow> node_ok toks s' n"
  by (induction rule: node_ok.induct) (auto intro: node_ok.intros node_shape_weaken)

lemma part_ok_weaken: "part_ok toks s p \<Longrightarrow> (s' \<longrightarrow> s) \<Longrightarrow> part_ok toks s' p"
  by (cases p) (auto intro: node_ok_weaken)

lemma chain_weaken: "chain lo hi ps \<Longrightarrow> lo' \<le> lo \<Longrightarrow> hi \<le> hi' \<Longrightarrow> chain lo' hi' ps"
  by (induction ps arbitrary: lo lo') auto

lemma chain_append: "chain lo mid ps \<Longrightarrow> chain mid hi qs \<Longrightarrow> lo \<le> mid \<Longrightarrow> mid \<le> hi \<Longrightarrow> chain lo hi (ps @ qs)"
  by (induction ps arbitrary: lo) (auto intro: chain_weaken)

lemma parts_ok_Nil [simp]: "parts_ok toks s lo hi []"
  by (simp add: parts_ok_def)

lemma parts_ok_weaken:
  "parts_ok toks s lo hi ps \<Longrightarrow> (s' \<longrightarrow> s) \<Longrightarrow> lo' \<le> lo \<Longrightarrow> hi \<le> hi' \<Longrightarrow> parts_ok toks s' lo' hi' ps"
  unfolding parts_ok_def by (auto intro: chain_weaken elim!: list.pred_mono_strong part_ok_weaken)

lemma parts_ok_append:
  "parts_ok toks s1 lo mid ps \<Longrightarrow> parts_ok toks s2 mid hi qs \<Longrightarrow> (s \<longrightarrow> s1) \<Longrightarrow> (s \<longrightarrow> s2) \<Longrightarrow>
   lo \<le> mid \<Longrightarrow> mid \<le> hi \<Longrightarrow> parts_ok toks s lo hi (ps @ qs)"
  unfolding parts_ok_def
  by (auto intro: chain_append elim!: list.pred_mono_strong part_ok_weaken)

text \<open>The lower bound may be raised to the first part, or over comments.\<close>

lemma parts_ok_hd: "parts_ok toks s lo hi (p # ps) \<Longrightarrow> b \<le> part_first p \<Longrightarrow> parts_ok toks s b hi (p # ps)"
  by (simp add: parts_ok_def)

lemma part_first_real: "part_ok toks s p \<Longrightarrow> real_tok toks (part_first p)"
  by (cases p) (auto elim: node_ok.cases)

lemma parts_ok_real:
  assumes "parts_ok toks s lo hi ps"
  shows "parts_ok toks s (NextReal toks lo) hi ps"
proof (cases ps)
  case (Cons p qs)
  then have "real_tok toks (part_first p)" "lo \<le> part_first p"
    using assms part_first_real[of toks s p] by (auto simp: parts_ok_def)
  then have "NextReal toks lo \<le> part_first p" by (auto simp: real_tok_def intro: NextReal_le)
  then show ?thesis using assms Cons parts_ok_hd by blast
qed simp

lemma parts_ok_tok [simp]:
  "parts_ok toks s lo hi (P_tok i # ps) \<longleftrightarrow>
   lo \<le> i \<and> i < hi \<and> real_tok toks i \<and> parts_ok toks s (Suc i) hi ps"
  by (auto simp: parts_ok_def)

lemma parts_ok_node [simp]:
  "parts_ok toks s lo hi (P_node n # ps) \<longleftrightarrow>
   lo \<le> TokStart n \<and> TokEnd n < hi \<and> node_ok toks s n \<and> parts_ok toks s (Suc (TokEnd n)) hi ps"
  by (auto simp: parts_ok_def elim: node_ok.cases)

lemma parts_ok_opt [simp]:
  "parts_ok toks s lo hi (opt f x @ ps) \<longleftrightarrow>
   (case x of None \<Rightarrow> parts_ok toks s lo hi ps | Some y \<Rightarrow> parts_ok toks s lo hi (f y # ps))"
  by (cases x) auto

text \<open>The next run of parts, read somewhere between the two bounds.\<close>

lemma parts_ok_run:
  "parts_ok toks s1 lo1 mid ps \<Longrightarrow> lo \<le> lo1 \<Longrightarrow> lo1 \<le> mid \<Longrightarrow> mid \<le> hi \<Longrightarrow> (s \<longrightarrow> s1) \<Longrightarrow>
   parts_ok toks s mid hi qs \<Longrightarrow> parts_ok toks s lo hi (ps @ qs)"
  by (rule parts_ok_append[of toks s lo mid _ s]) (auto elim: parts_ok_weaken)

lemma node_okI':
  assumes "parts_ok toks s (TokStart n) (Suc (TokEnd n)) (node_parts n)" "real_tok toks (TokStart n)"
    "real_tok toks (TokEnd n)" "TokStart n \<le> TokEnd n" "node_shape toks s n"
  shows "node_ok toks s n"
  using assms unfolding parts_ok_def list_all_iff
  by (intro node_ok.intros) (force simp: part_ok_def)+

end
