(* ===== verification/ParserSpec.thy ===== *)
theory ParserSpec imports TreeOk
begin

text \<open>
  What every method of the parser does to the state and which node it returns:
  the token helpers' rules of \<open>ParserWf\<close>, lifted method by method to the whole
  grammar.
\<close>

section \<open>Shapes of postconditions\<close>

lemma node_ok_split: "node_ok toks c n \<Longrightarrow> node_ok toks False n \<and> (c \<longrightarrow> node_ok toks True n)"
  by (auto elim: node_ok_weaken)

lemma isBaseType_not_eof [simp]: "\<not> isBaseType TokenEOF"
  by (simp add: isBaseType_def)

lemma TokStart_FieldType [simp]: "TokStart (N_FieldType (FieldType b k t i key val cpp an)) = nbFirst b"
  by (simp add: TokStart_def)

text \<open>
  The node read between two states: it ends with the last token consumed and
  starts with the first one, unless an error was reported on the way.
\<close>

definition spans :: "parser \<Rightarrow> parser \<Rightarrow> Node \<Rightarrow> bool" where
  "spans p p' n \<longleftrightarrow> nx p \<le> TokStart n \<and> (nerr p' = nerr p \<longrightarrow> TokStart n = nx p) \<and>
     Suc (TokEnd n) = psPos p' \<and> psPos p \<le> nx p \<and> nx p < psPos p' \<and>
     node_ok (psToks p) False n \<and> (nerr p' = nerr p \<longrightarrow> node_ok (psToks p) True n)"

definition result_ok :: "('a \<Rightarrow> Node) \<Rightarrow> parser \<Rightarrow> 'a option \<times> parser \<Rightarrow> bool" where
  "result_ok f p = (\<lambda>(r, p'). moved p p' \<and>
     (case r of None \<Rightarrow> nerr p < nerr p' | Some x \<Rightarrow> spans p p' (f x)))"

lemma result_ok_simps [simp]:
  "result_ok f p (None, q) \<longleftrightarrow> moved p q \<and> nerr p < nerr q"
  "result_ok f p (Some x, q) \<longleftrightarrow> moved p q \<and> spans p q (f x)"
  by (simp_all add: result_ok_def)

lemma spans_progress: "spans p q n \<Longrightarrow> psPos p < psPos q"
  by (simp add: spans_def)

text \<open>Parts read between two states.\<close>

definition reads :: "parser \<Rightarrow> parser \<Rightarrow> part list \<Rightarrow> bool" where
  "reads p q ps \<longleftrightarrow> moved p q \<and>
     parts_ok (psToks p) False (psPos p) (psPos q) ps \<and>
     (nerr q = nerr p \<longrightarrow> parts_ok (psToks p) True (psPos p) (psPos q) ps)"

lemma reads_moved: "reads p q ps \<Longrightarrow> moved p q"
  by (simp add: reads_def)

lemma reads_Nil [simp]: "reads p q [] = moved p q"
  by (simp add: reads_def)

lemma reads_append [trans]: "reads p q ps \<Longrightarrow> reads q r qs \<Longrightarrow> reads p r (ps @ qs)"
  unfolding reads_def using parts_ok_append[of "psToks p" s "psPos p" "psPos q" ps s "psPos r" qs s for s]
  by (simp add: moved_def)

lemma reads_skip [trans]: "moved p q \<Longrightarrow> reads q r ps \<Longrightarrow> reads p r ps" "reads p q ps \<Longrightarrow> moved q r \<Longrightarrow> reads p r ps"
  using reads_append[of p q "[]" r ps] reads_append[of p q ps r "[]"] by simp_all

lemma reads_node: "moved p q \<Longrightarrow> spans p q n \<Longrightarrow> reads p q [P_node n]"
  by (auto simp: reads_def spans_def)

text \<open>
  The result of a loop with an accumulator: the entries it appends have the
  given parts, read from the state it started in.
\<close>

definition appends :: "('a \<Rightarrow> part list) \<Rightarrow> 'a list \<Rightarrow> parser \<Rightarrow> 'a list \<times> parser \<Rightarrow> bool" where
  "appends g acc p = (\<lambda>(r, p'). moved p p' \<and> (\<exists>new. r = acc @ new \<and> reads p p' (concat (map g new))))"

lemma appends_stop [simp]: "wf_state p \<Longrightarrow> appends g acc p (acc, p)"
  by (auto simp: appends_def intro!: exI[of _ "[]"])

lemma appends_skip: "ok (appends g acc q) m \<Longrightarrow> moved p q \<Longrightarrow> ok (appends g acc p) m"
  by (erule ok_mono) (auto simp: appends_def intro: reads_skip moved_trans)

lemma appends_Cons:
  assumes "ok (appends g (acc @ [x]) q) m" "reads p q (g x)"
  shows "ok (appends g acc p) m"
proof (rule ok_mono[OF assms(1)])
  fix y assume "appends g (acc @ [x]) q y"
  then obtain new r where y: "y = (acc @ [x] @ new, r)" "moved q r" "reads q r (concat (map g new))"
    by (auto simp: appends_def)
  have "reads p r (concat (map g (x # new)))" using reads_append[OF assms(2) y(3)] by simp
  then show "appends g acc p y"
    using y(1) reads_moved unfolding appends_def by (auto intro!: exI[of _ "x # new"])
qed

text \<open>Widening, with the facts about the states in their unfolded form.\<close>

lemma reads_widen:
  "reads q r ps \<Longrightarrow> psToks q = psToks p \<Longrightarrow> psPos p \<le> psPos q \<Longrightarrow> nerr p \<le> nerr q \<Longrightarrow>
   wf_state s \<Longrightarrow> psToks s = psToks r \<Longrightarrow> psPos r \<le> psPos s \<Longrightarrow> nerr r \<le> nerr s \<Longrightarrow> reads p s ps"
  unfolding reads_def
  using parts_ok_weaken[of "psToks p" b "psPos q" "psPos r" ps b "psPos p" "psPos s" for b]
  by (simp add: moved_def)

text \<open>The node built from the parts read between its first token and the current position.\<close>

lemma spansI:
  assumes "reads p q (node_parts n)" "wf_state p" "nx p < psPos q"
    "node_base n = span (nx p) q" "node_shape (psToks p) (nerr q = nerr p) n"
  shows "spans p q n"
proof -
  let ?T = "psToks p"
  have ps: "parts_ok ?T (nerr q = nerr p) (psPos p) (psPos q) (node_parts n)"
    and q: "wf_state q" "psToks q = ?T"
    using assms(1) by (cases "nerr q = nerr p"; simp add: reads_def moved_def)+
  have b: "TokStart n = nx p" "TokEnd n = psPos q - 1"
    using assms(4) by (simp_all add: TokStart_def TokEnd_def span_def)
  have last: "real_tok ?T (psPos q - 1)" using q assms(3) by (auto simp: wf_state_def)
  have "parts_ok ?T (nerr q = nerr p) (nx p) (psPos q) (node_parts n)"
    using ps parts_ok_real by (auto simp: nx_def)
  then have "node_ok ?T (nerr q = nerr p) n"
    using assms b last wf_nx[OF assms(2)] by (intro node_okI') auto
  then show ?thesis using assms(3) b nx_ge[of p] node_ok_split by (auto simp: spans_def)
qed

section \<open>Identifiers and annotations\<close>

lemma parseIdentifier_spec:
  "wf_state p \<Longrightarrow> kind p \<noteq> TokenEOF \<Longrightarrow>
   ok (\<lambda>(r, p'). moved p p' \<and> nerr p' = nerr p \<and> psPos p' = Suc (nx p) \<and> spans p p' (N_Identifier r))
     (parseIdentifier p)"
  using wf_nx[of p] wf_nx_less[of p]
  by (auto simp: parseIdentifier_def tok_at_def Let_def TokStart_def TokEnd_def span_def moved_def
      intro!: exec spansI)

lemma expectIdentifier_spec:
  "wf_state p \<Longrightarrow> ok (result_ok N_Identifier p) (expectIdentifier what p)"
  by (auto simp: expectIdentifier_def result_ok_def intro!: ok_bind[OF parseIdentifier_spec] exec)

text \<open>The optional string literal after the name of an annotation.\<close>

definition opt_tok_ok :: "TokenKind set \<Rightarrow> parser \<Rightarrow> nat option \<times> parser \<Rightarrow> bool" where
  "opt_tok_ok ks p = (\<lambda>(r, p'). moved p p' \<and> tok_in (psToks p) ks r \<and>
     (case r of None \<Rightarrow> True | Some i \<Rightarrow> real_tok (psToks p) i \<and> psPos p \<le> i \<and> i < psPos p'))"

lemma parseAnnotations_value_spec:
  "wf_state p \<Longrightarrow> ok (opt_tok_ok {TokenStringLiteral} p) (parseAnnotations_value p)"
  by (auto simp: parseAnnotations_value_def opt_tok_ok_def moved_def intro!: exec)

section \<open>List-like constructs\<close>

text \<open>
  The contract of the loops over annotations, fields, enum members and
  functions: an item reader that consumes a node or reports an error, and a
  recovery that makes progress unless it stands at the terminator.
\<close>

locale entry_loop =
  fixes item :: "parser \<Rightarrow> 'a option parsed"
    and recover :: "parser \<Rightarrow> parser option"
    and stop :: TokenKind
    and mk :: "'a \<Rightarrow> Node"
    and loop :: "nat \<Rightarrow> 'a list \<Rightarrow> parser \<Rightarrow> 'a list parsed"
  assumes loop_unfold: "loop (Suc n) acc p = do {
      r \<leftarrow> at stop p;
      e \<leftarrow> at TokenEOF p;
      if \<not> r \<and> \<not> e then do {
        (x, p) \<leftarrow> item p;
        case x of
          None \<Rightarrow> do { p \<leftarrow> recover p; loop n acc p }
        | Some y \<Rightarrow> loop n (acc @ [y]) p }
      else Some (acc, p) }"
    and item_ok: "wf_state p \<Longrightarrow> kind p \<noteq> stop \<Longrightarrow> kind p \<noteq> TokenEOF \<Longrightarrow> ok (result_ok mk p) (item p)"
    and recover_ok: "wf_state p \<Longrightarrow> ok (\<lambda>p'. moved p p' \<and> nerr p' = nerr p \<and>
      (kind p = stop \<or> kind p = TokenEOF \<or> psPos p < psPos p')) (recover p)"
begin

lemma recover_progress:
  assumes "wf_state p" "kind p \<noteq> stop" "kind p \<noteq> TokenEOF" "moved p q"
  shows "ok (\<lambda>p'. moved p p' \<and> psPos p < psPos p') (recover q)"
proof (cases "psPos q = psPos p")
  case True
  then have "kind q = kind p" using assms(4) by (simp add: moved_def kind_def nx_def)
  then show ?thesis using recover_ok[of q] assms by (auto simp: moved_def elim!: ok_mono)
next
  case False
  then show ?thesis using recover_ok[of q] assms by (auto simp: moved_def elim!: ok_mono)
qed

lemma loop_ok:
  "wf_state p \<Longrightarrow> length (psToks p) \<le> n + psPos p \<Longrightarrow> ok (appends (\<lambda>x. [P_node (mk x)]) acc p) (loop n acc p)"
proof (induction n arbitrary: acc p)
  case 0
  then show ?case by (simp add: wf_state_def)
next
  case (Suc n)
  let ?G = "\<lambda>x. [P_node (mk x)]"
  have w: "wf_state p" by fact
  have IH: "ok (appends ?G acc q) (loop n acc q)" if "moved p q" "psPos p < psPos q" for acc q
    using that Suc.prems by (intro Suc.IH) (auto simp: moved_def)
  have rest: "ok (appends ?G acc p)
      (case x of None \<Rightarrow> do { p \<leftarrow> recover q; loop n acc p } | Some y \<Rightarrow> loop n (acc @ [y]) q)"
    if x: "result_ok mk p (x, q)" and k: "kind p \<noteq> stop" "kind p \<noteq> TokenEOF" for x q
  proof (cases x)
    case None
    then have "moved p q" using x by simp
    then show ?thesis unfolding None option.case
      by (rule ok_bind[OF recover_progress[OF w k]]) (blast intro: appends_skip IH)
  next
    case (Some y)
    then have m: "moved p q" "spans p q (mk y)" using x by simp_all
    then have "psPos p < psPos q" by (simp add: spans_def)
    from IH[OF m(1) this] reads_node[OF m] show ?thesis
      unfolding Some option.case by (rule appends_Cons)
  qed
  show ?case
    using w by (auto simp: loop_unfold intro!: ok_bind[OF item_ok] rest)
qed

end

section \<open>Annotation groups\<close>

lemma parseAnnotations_item_spec:
  "wf_state p \<Longrightarrow> kind p \<noteq> TokenEOF \<Longrightarrow> ok (result_ok N_Annotation p) (parseAnnotations_item p)"
  by (auto simp: parseAnnotations_item_def reads_def opt_tok_ok_def moved_def spans_def[of p _ "N_Identifier _"] Let_def
      intro!: exec ok_bind[OF parseIdentifier_spec] ok_bind[OF parseAnnotations_value_spec] spansI
      split: option.splits if_splits)

lemma recoverEntry_ok:
  "wf_state p \<Longrightarrow> t \<noteq> TokenEOF \<Longrightarrow> ok (\<lambda>p'. moved p p' \<and> nerr p' = nerr p \<and>
     (kind p = t \<or> kind p = TokenEOF \<or> psPos p < psPos p')) (recoverEntry t p)"
proof (cases "kind p = t \<or> kind p = TokenEOF")
  case True
  assume "wf_state p" "t \<noteq> TokenEOF"
  with True show ?thesis
    by (auto simp: recoverEntry_def intro!: ok_bind[OF synchronizeTo_spec])
next
  case False
  assume "wf_state p" "t \<noteq> TokenEOF"
  with False show ?thesis by (auto intro!: ok_mono[OF recoverEntry_spec])
qed

interpretation annotation_loop: entry_loop parseAnnotations_item "recoverEntry TokenRParen" TokenRParen
  N_Annotation parseAnnotations_loop
  by unfold_locales (auto intro!: parseAnnotations_item_spec recoverEntry_ok)

lemma parse_fuel_enough: "length (psToks p) \<le> parse_fuel p + psPos p"
  by (simp add: parse_fuel_def)

lemmas annotation_loop_spec = annotation_loop.loop_ok[OF _ parse_fuel_enough]

lemma parseAnnotations_spec:
  "wf_state p \<Longrightarrow> kind p \<noteq> TokenEOF \<Longrightarrow> ok (\<lambda>(r, p'). moved p p' \<and> spans p p' (N_Annotations r)) (parseAnnotations p)"
  by (auto simp: parseAnnotations_def appends_def moved_def Let_def
      intro!: exec ok_bind[OF annotation_loop_spec] spansI elim!: reads_widen)

text \<open>An optional node.\<close>

definition opt_ok :: "('a \<Rightarrow> Node) \<Rightarrow> parser \<Rightarrow> 'a option \<times> parser \<Rightarrow> bool" where
  "opt_ok f p = (\<lambda>(r, p'). moved p p' \<and> (case r of None \<Rightarrow> True | Some x \<Rightarrow> spans p p' (f x)))"

lemma parseAnnotationsIfPresent_spec:
  "wf_state p \<Longrightarrow> ok (opt_ok N_Annotations p) (parseAnnotationsIfPresent p)"
  by (auto simp: parseAnnotationsIfPresent_def opt_ok_def intro!: ok_bind[OF parseAnnotations_spec])

section \<open>Types\<close>

lemma parse_cpp_type_spec: "wf_state p \<Longrightarrow> ok (opt_tok_ok {TokenStringLiteral} p) (parse_cpp_type p)"
  by (auto simp: parse_cpp_type_def opt_tok_ok_def moved_def intro!: exec)

lemma sync_if_nil_spec:
  "wf_state p \<Longrightarrow> ok (\<lambda>p'. moved p p' \<and> nerr p' = nerr p \<and> (r \<noteq> None \<longrightarrow> p' = p)) (sync_if_nil r ks p)"
  by (auto simp: sync_if_nil_def intro!: ok_mono[OF sync_spec])

lemma deprecationWarnings_simps [simp]:
  "psToks (deprecationWarnings t p) = psToks p" "psPos (deprecationWarnings t p) = psPos p"
  "nerr (deprecationWarnings t p) = nerr p" "nx (deprecationWarnings t p) = nx p"
  "kind (deprecationWarnings t p) = kind p"
  by (simp_all add: deprecationWarnings_def warnf_def)

lemma wf_deprecationWarnings [simp]: "wf_state p \<Longrightarrow> t \<in> set (psToks p) \<Longrightarrow> wf_state (deprecationWarnings t p)"
  by (simp add: deprecationWarnings_def warnf_def)

text \<open>What a reader of a type does from a state with enough fuel.\<close>

definition reads_type :: "nat \<Rightarrow> (parser \<Rightarrow> FieldType option parsed) \<Rightarrow> bool" where
  "reads_type n rec \<longleftrightarrow> (\<forall>p. wf_state p \<and> length (psToks p) \<le> n + psPos p \<longrightarrow> ok (result_ok N_FieldType p) (rec p))"

lemma reads_typeD:
  "reads_type n rec \<Longrightarrow> wf_state p \<Longrightarrow> length (psToks p) \<le> n + psPos p \<Longrightarrow> ok (result_ok N_FieldType p) (rec p)"
  by (simp add: reads_type_def)

text \<open>Key and value of a container: nil only after an error.\<close>

definition types_ok :: "bool \<Rightarrow> parser \<Rightarrow> (FieldType option \<times> FieldType option) \<times> parser \<Rightarrow> bool" where
  "types_ok m p = (\<lambda>((key, val), p'). reads p p' (opt p_type key @ opt p_type val) \<and>
     (nerr p' = nerr p \<longrightarrow> (m \<longrightarrow> key \<noteq> None) \<and> val \<noteq> None))"

lemma parse_map_types_spec:
  assumes "reads_type n rec" "wf_state p" "length (psToks p) \<le> n + psPos p"
  shows "ok (types_ok True p) (parse_map_types rec p)"
  using assms
  by (auto simp: parse_map_types_def types_ok_def result_ok_def reads_def moved_def spans_def
      intro!: exec ok_bind[OF sync_if_nil_spec] ok_bind[OF reads_typeD[OF assms(1)]]
      split: option.splits if_splits)

lemma container_kind_not [simp]: "container_kind TokenEOF = None"
  by (simp add: container_kind_def)

lemma reads_opt: "moved p q \<Longrightarrow> (case x of None \<Rightarrow> True | Some y \<Rightarrow> spans p q (f y)) \<Longrightarrow>
    reads p q (opt (\<lambda>y. P_node (f y)) x)"
  by (cases x) (auto intro: reads_node)

lemma finish_type_spec:
  assumes "wf_state p" "nx p < psPos q"
    and parts: "reads p q (opt p_ident ident @ opt P_tok cpp @ opt p_type key @ opt p_type val)"
    and shape: "\<And>first last an. first = nx p \<Longrightarrow> node_shape (psToks p) (nerr q = nerr p)
       (N_FieldType (FieldType \<lparr>nbFirst = first, nbLast = last\<rparr> k base ident key val cpp an))"
  shows "ok (result_ok N_FieldType p) (finish_type (nx p) k base ident key val cpp q)"
proof -
  have q: "moved p q" "wf_state q" using reads_moved[OF parts] by (auto simp: moved_def)
  have "ok (opt_ok N_Annotations q) (if k \<noteq> TypeIdent then parseAnnotationsIfPresent q else Some (None, q))"
    using parseAnnotationsIfPresent_spec[OF q(2)] q(2) by (simp add: opt_ok_def)
  then show ?thesis unfolding finish_type_def
  proof (rule ok_bind)
    fix x assume "opt_ok N_Annotations q x"
    then obtain an r where x: "x = (an, r)" "moved q r" "reads q r (opt p_annos an)"
      using reads_opt[where f = N_Annotations] by (cases x) (auto simp: opt_ok_def)
    note all = reads_append[OF parts x(3)]
    have "node_shape (psToks p) (nerr r = nerr p) (N_FieldType (FieldType (span (nx p) r) k base ident key val cpp an))"
      using x(2) q(1) unfolding span_def by (intro node_shape_weaken[OF shape]) (auto simp: moved_def)
    then have "spans p r (N_FieldType (FieldType (span (nx p) r) k base ident key val cpp an))"
      using all assms(1,2) x(2) by (intro spansI) (auto simp: moved_def)
    then show "ok (result_ok N_FieldType p)
        (case x of (annos, p') \<Rightarrow> Some (Some (FieldType (span (nx p) p') k base ident key val cpp annos), p'))"
      using x moved_trans[OF q(1)] by simp
  qed
qed

lemma parse_elem_type_spec:
  assumes "reads_type n rec" "wf_state p" "length (psToks p) \<le> n + psPos p"
  shows "ok (types_ok False p) (parse_elem_type rec p)"
  using assms
  by (auto simp: parse_elem_type_def types_ok_def result_ok_def reads_def moved_def spans_def
      intro!: ok_bind[OF sync_if_nil_spec] ok_bind[OF reads_typeD[OF assms(1)]]
      split: option.splits)

lemma parse_type_args_spec:
  assumes "reads_type n rec" "wf_state p" "length (psToks p) \<le> n + psPos p"
  shows "ok (types_ok (k = TypeMap) p) (parse_type_args rec k p)"
  using parse_map_types_spec[OF assms] parse_elem_type_spec[OF assms] by (simp add: parse_type_args_def)

lemma container_not_eof: "container_kind k = Some c \<Longrightarrow> k \<noteq> TokenEOF"
  by (auto simp: container_kind_def)

lemma container_kind_in: "container_kind k = Some c \<Longrightarrow> c \<in> {TypeMap, TypeList, TypeSet}"
  by (auto simp: container_kind_def split: if_splits)

lemma parse_container_tail_spec:
  assumes "reads_type n rec" "wf_state p" "moved p q" "nx p < psPos q"
    "length (psToks p) \<le> n + psPos q" "container_kind t = Some k"
    and cpp: "tok_in (psToks p) {TokenStringLiteral} cpp" "reads p q (opt P_tok cpp)"
  shows "ok (result_ok N_FieldType p) (parse_container_tail rec (nx p) k cpp q)"
proof -
  have q: "wf_state q" "length (psToks q) \<le> n + psPos q" using assms(3,5) by (simp_all add: moved_def)
  have tail: "ok (result_ok N_FieldType p) (finish_type (nx p) k TokenInvalid None key val cpp r')"
    if t: "types_ok (k = TypeMap) q ((key, val), r)" and r': "moved r r'" "nerr r' = nerr r" for key val r r'
  proof (rule finish_type_spec)
    have ps: "reads q r (opt p_type key @ opt p_type val)"
      and nn: "nerr r = nerr q \<longrightarrow> (k = TypeMap \<longrightarrow> key \<noteq> None) \<and> val \<noteq> None"
      using t by (auto simp: types_ok_def)
    then show "wf_state p" "nx p < psPos r'" using reads_moved[OF ps] r' assms by (auto simp: moved_def)
    show "reads p r' (opt p_ident None @ opt P_tok cpp @ opt p_type key @ opt p_type val)"
      using reads_append[OF cpp(2) reads_skip(2)[OF ps r'(1)]] by simp
    show "node_shape (psToks p) (nerr r' = nerr p)
        (N_FieldType (FieldType \<lparr>nbFirst = first, nbLast = last\<rparr> k TokenInvalid None key val cpp an))"
      for first last an
      using cpp(1) nn container_kind_in[OF assms(6)] reads_moved[OF ps] r'(2) assms(3) by (auto simp: moved_def)
  qed
  have "ok (\<lambda>((key, val), r). types_ok (k = TypeMap) q ((key, val), r) \<and> moved q r) (parse_type_args rec k q)"
    by (rule ok_mono[OF parse_type_args_spec[OF assms(1) q]]) (auto simp: types_ok_def dest: reads_moved)
  then show ?thesis unfolding parse_container_tail_def
    by (rule ok_bind) (use assms(3-4) nx_ge[of p] in \<open>auto intro!: exec tail simp: moved_def split: if_splits\<close>)
qed

lemma parse_container_spec:
  assumes "reads_type n rec" "wf_state p" "length (psToks p) \<le> Suc n + psPos p"
    "container_kind (kind p) = Some k"
  shows "ok (result_ok N_FieldType p) (parse_container rec (nx p) k p)"
  using assms container_not_eof[OF assms(4)]
  by (auto simp: parse_container_def opt_tok_ok_def moved_def reads_def
     intro!: exec ok_bind[OF parse_cpp_type_spec] parse_container_tail_spec
     split: if_splits option.splits)

lemma parseFieldType_fuel_spec: "reads_type n (parseFieldType_fuel n)"
proof (induction n)
  case 0
  then show ?case by (auto simp: reads_type_def wf_state_def)
next
  case (Suc n)
  have "ok (result_ok N_FieldType p) (parseFieldType_fuel (Suc n) p)"
    if w: "wf_state p" and len: "length (psToks p) \<le> Suc n + psPos p" for p
  proof (cases "container_kind (kind p)")
    case None
    then show ?thesis using w
      by (auto simp: Let_def moved_def reads_def spans_def
        intro!: exec ok_bind[OF parseIdentifier_spec] finish_type_spec)
  next
    case (Some k)
    then show ?thesis using w len parse_container_spec[OF Suc.IH w len Some] by (simp add: Let_def)
  qed
  then show ?case by (simp add: reads_type_def)
qed

lemma parse_fuel_type: "length (psToks p) \<le> parse_fuel p + psPos p"
  by (simp add: parse_fuel_def)

lemma parseFieldType_spec: "wf_state p \<Longrightarrow> ok (result_ok N_FieldType p) (parseFieldType p)"
  unfolding parseFieldType_def by (rule reads_typeD[OF parseFieldType_fuel_spec _ parse_fuel_type])

section \<open>Constant values\<close>

lemma recoverEntry_from:
  assumes "wf_state p" "kind p \<noteq> t" "kind p \<noteq> TokenEOF" "moved p q" "t \<noteq> TokenEOF"
  shows "ok (\<lambda>p'. moved p p' \<and> psPos p < psPos p') (recoverEntry t q)"
proof (cases "psPos q = psPos p")
  case True
  then have "kind q = kind p" using assms(4) by (simp add: moved_def kind_def nx_def)
  then show ?thesis using recoverEntry_ok[of q t] assms by (auto simp: moved_def elim!: ok_mono)
next
  case False
  then show ?thesis using recoverEntry_ok[of q t] assms by (auto simp: moved_def elim!: ok_mono)
qed

abbreviation value_part :: "ConstValue \<Rightarrow> part list" where "value_part v \<equiv> [p_value v]"

definition entry_part :: "ConstMapEntry \<Rightarrow> part list" where
  "entry_part e = [p_value (cmKey e), p_value (cmValue e)]"

lemma entry_parts_concat: "entry_parts es = concat (map entry_part es)"
  by (simp add: entry_parts_def entry_part_def[abs_def])

definition value_fuel :: "nat \<Rightarrow> nat \<Rightarrow> parser \<Rightarrow> bool" where
  "value_fuel k n p \<longleftrightarrow> 2 * length (psToks p) + k \<le> n + 2 * psPos p"

lemma value_fuel_simps:
  "wf_state p \<Longrightarrow> \<not> value_fuel k 0 p"
  "value_fuel (Suc k) (Suc n) p = value_fuel k n p"
  by (auto simp: value_fuel_def wf_state_def)

lemma value_fuel_step: "value_fuel k (Suc n) p \<Longrightarrow> moved p q \<Longrightarrow> psPos p < psPos q \<Longrightarrow> value_fuel (Suc k) n q"
  by (auto simp: value_fuel_def moved_def)

lemma value_fuel_moved: "value_fuel 0 n p \<Longrightarrow> moved p q \<Longrightarrow> value_fuel 0 n q"
  by (auto simp: value_fuel_def moved_def)

text \<open>What the three mutually recursive functions do with \<open>n\<close> units of fuel.\<close>

definition value_spec :: "nat \<Rightarrow> bool" where
  "value_spec n \<longleftrightarrow> (\<forall>p. wf_state p \<and> value_fuel 0 n p \<longrightarrow> ok (result_ok N_ConstValue p) (parseConstValue_fuel n p))"

definition list_spec :: "nat \<Rightarrow> bool" where
  "list_spec n \<longleftrightarrow> (\<forall>p xs. wf_state p \<and> value_fuel 1 n p \<longrightarrow>
     ok (appends value_part xs p) (parseConstList_loop n xs p))"

definition map_spec :: "nat \<Rightarrow> bool" where
  "map_spec n \<longleftrightarrow> (\<forall>p es. wf_state p \<and> value_fuel 1 n p \<longrightarrow>
     ok (appends entry_part es p) (parseConstMap_loop n es p))"

lemma finish_value_spec:
  "wf_state p \<Longrightarrow> nx p < psPos q \<Longrightarrow> reads p q (map p_value xs @ entry_parts es) \<Longrightarrow>
   ok (result_ok N_ConstValue p) (finish_value (nx p) k txt xs es q)"
  by (auto simp: finish_value_def dest: reads_moved intro!: spansI)

lemma scalar_kind_not_eof [simp]: "scalar_kind TokenEOF = None"
  by (simp add: scalar_kind_def)

lemma value_step:
  assumes "list_spec n" "map_spec n"
  shows "value_spec (Suc n)"
proof -
  have "ok (result_ok N_ConstValue p) (parseConstValue_fuel (Suc n) p)"
    if w: "wf_state p" and f: "value_fuel 0 (Suc n) p" for p
  proof (cases "scalar_kind (kind p)")
    case (Some k)
    then show ?thesis using w by (auto simp: entry_parts_def moved_def intro!: exec finish_value_spec)
  next
    case None
    have L: "ok (appends value_part [] q) (parseConstList_loop n [] q)"
      and M: "ok (appends entry_part [] q) (parseConstMap_loop n [] q)"
      if "moved p q" "psPos p < psPos q" for q
      using assms that value_fuel_step[OF f that] by (auto simp: list_spec_def map_spec_def moved_def)
    show ?thesis using w None
      by (auto simp: appends_def moved_def entry_parts_concat Let_def
          intro!: exec ok_bind[OF L] ok_bind[OF M] finish_value_spec elim!: reads_widen)
  qed
  then show ?thesis by (simp add: value_spec_def)
qed

text \<open>What follows an entry of a list or map constant: a separator, or recovery after an error.\<close>

lemma next_entry:
  assumes "reads p q (g x)" "psPos p < psPos q"
    "\<And>acc q. moved p q \<Longrightarrow> psPos p < psPos q \<Longrightarrow> ok (appends g acc q) (loop acc q)"
  shows "ok (appends g acc p) (do { (_, p) \<leftarrow> acceptSeparator q; loop (acc @ [x]) p })"
proof (rule ok_bind[OF acceptSeparator_spec])
  show w: "wf_state q" using reads_moved[OF assms(1)] by (simp add: moved_def)
  fix y assume "case y of (r, p') \<Rightarrow> moved q p' \<and> nerr p' = nerr q"
  then obtain sep q' where y: "y = (sep, q')" "moved q q'" by (cases y) auto
  have r: "reads p q' (g x)" using reads_skip(2)[OF assms(1) y(2)] .
  have "psPos p < psPos q'" using assms(2) y(2) by (simp add: moved_def)
  from appends_Cons[OF assms(3)[OF reads_moved[OF r] this] r]
  show "ok (appends g acc p) (case y of (_, p) \<Rightarrow> loop (acc @ [x]) p)" using y(1) by simp
qed

lemma after_error:
  assumes "wf_state p" "kind p \<noteq> t" "kind p \<noteq> TokenEOF" "moved p q" "t \<noteq> TokenEOF"
    "\<And>q. moved p q \<Longrightarrow> psPos p < psPos q \<Longrightarrow> ok (appends g acc q) (loop q)"
  shows "ok (appends g acc p) (do { p \<leftarrow> recoverEntry t q; loop p })"
  by (rule ok_bind[OF recoverEntry_from[OF assms(1-5)]]) (blast intro: appends_skip assms(6))

lemma list_step:
  assumes "value_spec n" "list_spec n"
  shows "list_spec (Suc n)"
proof -
  have "ok (appends value_part xs p) (parseConstList_loop (Suc n) xs p)"
    if w: "wf_state p" and f: "value_fuel 1 (Suc n) p" for p xs
  proof -
    have IH: "ok (appends value_part xs q) (parseConstList_loop n xs q)" if "moved p q" "psPos p < psPos q" for xs q
      using assms(2) that value_fuel_step[of 0 n p q] f by (auto simp: list_spec_def moved_def value_fuel_def)
    have V: "ok (result_ok N_ConstValue p) (parseConstValue_fuel n p)"
      using assms(1) w f by (auto simp: value_spec_def value_fuel_def)
    have "ok (appends value_part xs p)
       (case item of None \<Rightarrow> do { p \<leftarrow> recoverEntry TokenRBracket q; parseConstList_loop n xs p }
        | Some v \<Rightarrow> do { (_, p) \<leftarrow> acceptSeparator q; parseConstList_loop n (xs @ [v]) p })"
      if "result_ok N_ConstValue p (item, q)" and k: "kind p \<noteq> TokenRBracket" "kind p \<noteq> TokenEOF" for item q
      using that w by (cases item) (auto intro!: after_error next_entry IH reads_node dest: spans_progress)
    then show ?thesis using w by (auto intro!: ok_bind[OF V])
  qed
  then show ?thesis by (simp add: list_spec_def)
qed

lemma map_step:
  assumes "value_spec n" "map_spec n"
  shows "map_spec (Suc n)"
proof -
  have "ok (appends entry_part es p) (parseConstMap_loop (Suc n) es p)"
    if w: "wf_state p" and f: "value_fuel 1 (Suc n) p" for p es
  proof -
    have IH: "ok (appends entry_part es q) (parseConstMap_loop n es q)" if "moved p q" "psPos p < psPos q" for es q
      using assms(2) that value_fuel_step[of 0 n p q] f by (auto simp: map_spec_def moved_def value_fuel_def)
    have V: "ok (result_ok N_ConstValue q) (parseConstValue_fuel n q)" if "moved p q" for q
      using assms(1) that f by (auto simp: value_spec_def value_fuel_def moved_def)
    note err = after_error[OF w, where loop = "parseConstMap_loop n es" and t = TokenRBrace for es]
    have val_ok: "ok (appends entry_part es p)
       (case vo of None \<Rightarrow> do { p \<leftarrow> recoverEntry TokenRBrace r; parseConstMap_loop n es p }
        | Some v \<Rightarrow> do { (_, p) \<leftarrow> acceptSeparator r; parseConstMap_loop n (es @ [ConstMapEntry k v]) p })"
      if key: "reads p q [p_value k]" "psPos p < psPos q" and val: "result_ok N_ConstValue q (vo, r)"
        and k: "kind p \<noteq> TokenRBrace" "kind p \<noteq> TokenEOF" for k q vo r es
    proof (cases vo)
      case None
      then have "moved p r" using val reads_moved[OF key(1)] by (auto intro: moved_trans)
      then show ?thesis using None k by (auto intro!: err IH)
    next
      case (Some v)
      then have "reads p r (entry_part (ConstMapEntry k v))" "psPos p < psPos r"
        using val key reads_append[OF key(1) reads_node[of q r "N_ConstValue v"]]
        by (auto simp: entry_part_def moved_def)
      then show ?thesis using Some by (auto intro!: next_entry[where g = entry_part] IH)
    qed
    have colon: "ok (appends entry_part es p)
       (do { (c, p) \<leftarrow> expect TokenColon msg q;
             if \<not> c then do { p \<leftarrow> recoverEntry TokenRBrace p; parseConstMap_loop n es p }
             else do { (value, p) \<leftarrow> parseConstValue_fuel n p;
               case value of
                 None \<Rightarrow> do { p \<leftarrow> recoverEntry TokenRBrace p; parseConstMap_loop n es p }
               | Some v \<Rightarrow> do { (_, p) \<leftarrow> acceptSeparator p; parseConstMap_loop n (es @ [ConstMapEntry k v]) p } } })"
      if key: "reads p q [p_value k]" "psPos p < psPos q" and k: "kind p \<noteq> TokenRBrace" "kind p \<noteq> TokenEOF"
      for k q es msg
    proof -
      have q: "wf_state q" using reads_moved[OF key(1)] by (simp add: moved_def)
      have st: "moved p r" "reads p r [p_value k]" "psPos p < psPos r" if "moved q r" for r
        using moved_trans[OF reads_moved[OF key(1)] that] reads_skip(2)[OF key(1) that] key(2) that
        by (auto simp: moved_def)
      show ?thesis using q k st
        by (auto intro!: ok_bind[OF expect_spec] err IH ok_bind[OF V] val_ok split: if_splits)
    qed
    have "ok (appends entry_part es p)
       (case key of None \<Rightarrow> do { p \<leftarrow> recoverEntry TokenRBrace q; parseConstMap_loop n es p }
        | Some k \<Rightarrow> do {
            (c, p) \<leftarrow> expect TokenColon (quoted (CHR '':'') '' between map key and value'') q;
            if \<not> c then do { p \<leftarrow> recoverEntry TokenRBrace p; parseConstMap_loop n es p }
            else do { (value, p) \<leftarrow> parseConstValue_fuel n p;
              case value of
                None \<Rightarrow> do { p \<leftarrow> recoverEntry TokenRBrace p; parseConstMap_loop n es p }
              | Some v \<Rightarrow> do { (_, p) \<leftarrow> acceptSeparator p; parseConstMap_loop n (es @ [ConstMapEntry k v]) p } } })"
      if "result_ok N_ConstValue p (key, q)" and k: "kind p \<noteq> TokenRBrace" "kind p \<noteq> TokenEOF" for key q
      using that by (cases key) (auto intro!: err IH colon reads_node dest: spans_progress)
    then show ?thesis using w V[of p] by (auto intro!: ok_bind[OF V])
  qed
  then show ?thesis by (simp add: map_spec_def)
qed

lemma const_specs: "value_spec n \<and> list_spec n \<and> map_spec n"
proof (induction n)
  case 0
  then show ?case by (auto simp: value_spec_def list_spec_def map_spec_def value_fuel_simps)
next
  case (Suc n)
  then show ?case by (simp add: value_step list_step map_step)
qed

lemma parseConstValue_spec: "wf_state p \<Longrightarrow> ok (result_ok N_ConstValue p) (parseConstValue p)"
  using const_specs[of "parse_fuel p"]
  by (auto simp: parseConstValue_def value_spec_def value_fuel_def parse_fuel_def)

section \<open>Structured annotations\<close>

lemma spans_first_tok: "spans p q n \<Longrightarrow> TokStart n < length (psToks p)"
  by (auto simp: spans_def real_tok_def elim: node_ok.cases)

text \<open>A node that is nil only after an error, anywhere in the tokens read.\<close>

definition found :: "('a \<Rightarrow> Node) \<Rightarrow> parser \<Rightarrow> 'a option \<times> parser \<Rightarrow> bool" where
  "found f p = (\<lambda>(r, p'). moved p p' \<and> reads p p' (opt (\<lambda>x. P_node (f x)) r) \<and> (r = None \<longrightarrow> nerr p < nerr p'))"

lemma found_None [simp]: "found f p (None, q) \<longleftrightarrow> moved p q \<and> nerr p < nerr q"
  by (auto simp: found_def)

lemma result_found: "result_ok f p x \<Longrightarrow> found f p x"
  by (cases x) (auto simp: result_ok_def found_def intro: reads_node split: option.splits)

lemma found_widen:
  "found f q (v, r) \<Longrightarrow> moved p q \<Longrightarrow> moved r s \<Longrightarrow> found f p (v, s)"
  unfolding found_def by (auto simp: moved_def intro: reads_widen)

lemma check_scalar_spec:
  "wf_state p \<Longrightarrow> found N_ConstValue q (v, p) \<Longrightarrow> ok (moved p) (check_scalar v p)"
proof (cases v)
  case (Some w)
  assume w: "wf_state p" and "found N_ConstValue q (v, p)"
  then have "node_ok (psToks p) False (N_ConstValue w)"
    using Some by (auto simp: found_def reads_def moved_def)
  then have "nbFirst (cvBase w) < length (psToks p)"
    by (auto simp: real_tok_def TokStart_def elim: node_ok.cases)
  then show ?thesis using w Some by (auto simp: check_scalar_def tok_at_def errorfTok_def moved_def)
qed (simp add: check_scalar_def)

lemma parseStructured_value_spec:
  assumes w: "wf_state p"
  shows "ok (found N_ConstValue p) (parseStructured_value name p)"
proof -
  have tail: "ok (found N_ConstValue p) (do {
      (_, p) \<leftarrow> expect TokenRParen m q; p \<leftarrow> check_scalar v p; Some (v, p) })"
    if f: "found N_ConstValue p (v, q)" for v q m
  proof -
    have q: "wf_state q" using f by (auto simp: found_def moved_def)
    have f': "found N_ConstValue p (v, r)" if "moved q r" for r
      using found_widen[OF f moved_refl[OF w] that] .
    have chk: "ok (found N_ConstValue p) (do { p \<leftarrow> check_scalar v r; Some (v, p) })" if "moved q r" for r
    proof -
      have "wf_state r" using that by (simp add: moved_def)
      from check_scalar_spec[OF this f'[OF that]] show ?thesis
        by (rule ok_bind) (auto intro: f' moved_trans[OF that])
    qed
    show ?thesis using q by (auto intro!: ok_bind[OF expect_spec] chk)
  qed
  have paren: "found N_ConstValue p (v, r)" if "moved p q" "result_ok N_ConstValue q (v, r)" for v q r
  proof -
    have "moved r r" using that(2) by (auto simp: result_ok_def moved_def split: option.splits)
    then show ?thesis using found_widen[OF result_found[OF that(2)] that(1)] by blast
  qed
  show ?thesis using w
    by (auto simp: parseStructured_value_def
        intro!: exec ok_bind[OF parseConstValue_spec] tail ok_mono[OF parseConstValue_spec] intro: paren result_found dest: movedD)
qed

end
