(* ===== verification/ParserDefs.thy ===== *)
theory ParserDefs imports ParserSpec
begin

text \<open>
  The specifications of \<open>ParserSpec\<close> carried on to structured annotations,
  fields, definitions and services.
\<close>

section \<open>Structured annotations\<close>

text \<open>
  The annotations before a definition: when there is none the parser has not
  moved or has reported an error, otherwise the first one starts at the
  current token.
\<close>

definition structured_ok :: "parser \<Rightarrow> StructuredAnnotation list \<times> parser \<Rightarrow> bool" where
  "structured_ok p = (\<lambda>(annos, q). moved p q \<and> reads p q (map p_struct annos) \<and>
     (case annos of [] \<Rightarrow> kind p \<noteq> TokenAt \<and> q = p \<or> nerr p < nerr q \<and> nx p < psPos q
      | a # _ \<Rightarrow> nbFirst (saBase a) = nx p))"

lemma structured_ok_Nil [simp]:
  "structured_ok p ([], q) \<longleftrightarrow> moved p q \<and> (kind p \<noteq> TokenAt \<and> q = p \<or> nerr p < nerr q \<and> nx p < psPos q)"
  by (auto simp: structured_ok_def)

lemma structured_item:
  assumes "wf_state p" "moved p p1" "psPos p1 = Suc (nx p)" "moved p1 p2" "spans p1 p2 (N_Identifier nm)"
    "found N_ConstValue p2 (v, p3)"
  shows "moved p p3" "reads p p3 [p_struct \<lparr>saBase = span (nx p) p3, saName = Some nm, saValue = v\<rparr>]"
    "psPos p < psPos p3"
proof -
  let ?n = "\<lparr>saBase = span (nx p) p3, saName = Some nm, saValue = v\<rparr>"
  have m3: "moved p2 p3" and v: "v = None \<longrightarrow> nerr p2 < nerr p3" and rv: "reads p2 p3 (opt p_value v)"
    using assms(6) by (auto simp: found_def)
  show m: "moved p p3" using moved_trans[OF moved_trans[OF assms(2,4)] m3] .
  have "reads p p3 ([p_ident nm] @ opt p_value v)"
    using reads_append[OF reads_skip(1)[OF assms(2) reads_node[OF assms(4,5)]] rv] .
  then have "spans p p3 (N_StructuredAnnotation ?n)"
    using assms(1-4) m3 v by (intro spansI) (auto simp: moved_def)
  then show "reads p p3 [p_struct ?n]" "psPos p < psPos p3"
    using m by (auto intro: reads_node spans_progress)
qed

lemma parseStructuredAnnotations_loop_spec:
  "wf_state p \<Longrightarrow> length (psToks p) \<le> n + psPos p \<Longrightarrow>
   ok (\<lambda>(r, q). \<exists>new. r = out @ new \<and> structured_ok p (new, q)) (parseStructuredAnnotations_loop n out p)"
proof (induction n arbitrary: out p)
  case 0
  then show ?case by (simp add: wf_state_def)
next
  case (Suc n)
  have w: "wf_state p" by fact
  have rest: "ok (\<lambda>(r, q). \<exists>new. r = out @ new \<and> structured_ok p (new, q))
      (parseStructuredAnnotations_loop n
         (out @ [\<lparr>saBase = span (nx p) p3, saName = Some nm, saValue = v\<rparr>]) p3)"
    if h: "moved p p1" "psPos p1 = Suc (nx p)" "moved p1 p2" "spans p1 p2 (N_Identifier nm)"
      "found N_ConstValue p2 (v, p3)" for p1 p2 nm v p3
  proof -
    let ?a = "\<lparr>saBase = span (nx p) p3, saName = Some nm, saValue = v\<rparr>"
    note it = structured_item[OF w h]
    have "ok (\<lambda>(r, q). \<exists>new. r = (out @ [?a]) @ new \<and> structured_ok p3 (new, q))
        (parseStructuredAnnotations_loop n (out @ [?a]) p3)"
      using it(1,3) Suc.prems by (intro Suc.IH) (auto simp: moved_def)
    then show ?thesis
    proof (rule ok_mono)
      fix x assume "case x of (r, q) \<Rightarrow> \<exists>new. r = (out @ [?a]) @ new \<and> structured_ok p3 (new, q)"
      then obtain new q where x: "x = (out @ ?a # new, q)" "structured_ok p3 (new, q)" by auto
      have "moved p q" "reads p q (map p_struct (?a # new))"
        using x(2) moved_trans[OF it(1)] reads_append[OF it(2)] by (auto simp: structured_ok_def)
      then show "case x of (r, q) \<Rightarrow> \<exists>new. r = out @ new \<and> structured_ok p (new, q)"
        using x(1) by (auto simp: structured_ok_def span_def)
    qed
  qed
  have tr: "moved p b" if "moved p a" "moved a b" for a b using moved_trans that .
  show ?case using w
    by (auto simp: Let_def movedD(1) 
        intro!: exec ok_bind[OF expectIdentifier_spec] ok_bind[OF parseStructured_value_spec] rest
        split: option.splits) (auto intro: tr dest: movedD(3))
qed

lemma parseStructuredAnnotations_spec:
  "wf_state p \<Longrightarrow> ok (structured_ok p) (parseStructuredAnnotations p)"
  unfolding parseStructuredAnnotations_def
  by (rule ok_mono[OF parseStructuredAnnotations_loop_spec]) (auto simp: parse_fuel_def)

text \<open>A node that starts with its structured annotations.\<close>

lemma NextReal_mono: "stream_ok toks \<Longrightarrow> i \<le> j \<Longrightarrow> j < length toks \<Longrightarrow> NextReal toks i \<le> NextReal toks j"
  using NextReal_real_tok[of toks j] order_trans[OF _ NextReal_ge[of j toks]]
  by (intro NextReal_le) (auto simp: real_tok_def)

lemma nx_mono: "wf_state p \<Longrightarrow> moved p q \<Longrightarrow> nx p \<le> nx q"
  using NextReal_mono[of "psToks p" "psPos p" "psPos q"] by (auto simp: nx_def moved_def wf_state_def)

lemma spans_widen:
  assumes "spans p1 q n" "moved p p1" "moved p1 q" "wf_state p" "p1 = p \<or> nerr p < nerr p1"
  shows "spans p q n"
  using assms nx_mono[OF assms(4,2)] nx_ge[of p] by (auto simp: spans_def moved_def)

lemma spans_structured:
  assumes "wf_state p" "structured_ok p (annos, p1)" "reads p1 q ps" "nx p1 < psPos q"
    "node_parts n = map p_struct annos @ ps" "node_base n = span (first_with annos (nx p1)) q"
    "node_shape (psToks p) True n"
  shows "spans p q n"
proof (cases annos)
  case Nil
  then have m: "moved p p1" and e: "p1 = p \<or> nerr p < nerr p1" using assms(2) by (auto simp: structured_ok_def)
  have "spans p1 q n"
    using assms m Nil by (intro spansI) (auto simp: first_with_def moved_def elim: node_shape_weaken)
  then show ?thesis using spans_widen m reads_moved[OF assms(3)] assms(1) e by blast
next
  case (Cons a as)
  then have "reads p p1 (map p_struct annos)" "nbFirst (saBase a) = nx p" "moved p p1"
    using assms(2) by (auto simp: structured_ok_def)
  moreover have "nx p < psPos q" using nx_mono[OF assms(1)] assms(4) calculation(3) by fastforce
  ultimately show ?thesis
    using assms Cons reads_append[of p p1 "map p_struct annos" q ps]
    by (intro spansI) (auto simp: first_with_def elim: node_shape_weaken)
qed

section \<open>Fields\<close>

text \<open>An optional token, of one of the given kinds.\<close>

definition tok_read :: "TokenKind set \<Rightarrow> parser \<Rightarrow> nat option \<times> parser \<Rightarrow> bool" where
  "tok_read ks p = (\<lambda>(r, q). moved p q \<and> reads p q (opt P_tok r) \<and> tok_in (psToks p) ks r)"

text \<open>A helper that may give up: then it has reported an error.\<close>

definition or_error :: "(parser \<Rightarrow> 'a \<times> parser \<Rightarrow> bool) \<Rightarrow> parser \<Rightarrow> (bool \<times> 'a) \<times> parser \<Rightarrow> bool" where
  "or_error P p = (\<lambda>((good, x), q). moved p q \<and> (if good then P p (x, q) else nerr p < nerr q))"

lemma or_error_simps [simp]:
  "or_error P p ((True, x), q) \<longleftrightarrow> moved p q \<and> P p (x, q)"
  "or_error P p ((False, x), q) \<longleftrightarrow> moved p q \<and> nerr p < nerr q"
  by (simp_all add: or_error_def)

lemma peekAfter_wf: "wf_state p \<Longrightarrow> kind p \<noteq> TokenEOF \<Longrightarrow> peekAfter (nx p) p = Some (kind (stepped p))"
  using wf_nx_less[OF wf_stepped[of p]] by (simp add: peekAfter_def tok_at_def nextReal_def kind_def nx_def)

lemma parseField_id_spec: "wf_state p \<Longrightarrow> ok (or_error (tok_read {TokenIntConstant}) p) (parseField_id p)"
  by (auto simp: parseField_id_def peekAfter_wf tok_read_def reads_def moved_def intro!: exec split: if_splits)

lemma parseField_req_spec: "wf_state p \<Longrightarrow> ok (tok_read {TokenRequired, TokenOptional} p) (parseField_req p)"
  by (auto simp: parseField_req_def tok_read_def reads_def moved_def intro!: exec)

lemma not_keyword_eof [simp]: "\<not> IsKeyword TokenEOF"
  using keyword_iff[of TokenEOF] keyword_not_plain by (auto simp: IsKeyword_def)

lemma parseField_name_spec: "wf_state p \<Longrightarrow> ok (result_ok N_Identifier p) (parseField_name p)"
  by (auto simp: parseField_name_def moved_def intro!: exec ok_bind[OF parseIdentifier_spec])

lemma parseField_value_spec: "wf_state p \<Longrightarrow> ok (or_error (\<lambda>p (v, q). reads p q (opt p_value v)) p) (parseField_value p)"
  by (auto simp: parseField_value_def reads_def moved_def spans_def intro!: exec ok_bind[OF parseConstValue_spec] split: option.splits)

section \<open>Running through a method\<close>

text \<open>
  The specifications as rules for a call in the middle of a method: the parts
  read since its start are collected in one fact, and a branch that gives up
  is left with the fact that an error was reported.
\<close>

definition failed :: "parser \<Rightarrow> parser \<Rightarrow> bool" where
  "failed p q \<longleftrightarrow> moved p q \<and> nerr p < nerr q"

lemma reads_wf: "reads p q ps \<Longrightarrow> wf_state q"
  by (simp add: reads_def moved_def)

lemma reads_toks: "reads p q ps \<Longrightarrow> psToks q = psToks p"
  by (simp add: reads_def moved_def)

lemma failed_wf: "failed p q \<Longrightarrow> wf_state q"
  by (simp add: failed_def moved_def)

lemma failedI: "moved p q \<Longrightarrow> moved q r \<Longrightarrow> nerr q < nerr r \<Longrightarrow> failed p r"
  by (simp add: failed_def moved_def)

lemma failed_moved: "failed p q \<Longrightarrow> moved q r \<Longrightarrow> failed p r"
  by (auto simp: failed_def moved_def)

lemma reads_pos: "reads p q ps \<Longrightarrow> ps \<noteq> [] \<Longrightarrow> nx p < psPos q"
proof (cases ps)
  case (Cons x xs)
  assume r: "reads p q ps"
  then have ps: "parts_ok (psToks p) False (nx p) (psPos q) (x # xs)"
    using Cons parts_ok_real by (simp add: reads_def nx_def)
  then show ?thesis by (auto simp: parts_ok_def)
qed simp

lemma run_take:
  assumes "reads p q ps" "kind q \<noteq> TokenEOF"
    "\<And>q'. reads p q' (ps @ [P_tok (nx q)]) \<Longrightarrow> tkKind (psToks p ! nx q) = kind q \<Longrightarrow> ok Q (f (nx q, q'))"
  shows "ok Q (Option.bind (advance q) f)"
proof -
  have k: "tkKind (psToks p ! nx q) = kind q" using assms(1) by (simp add: kind_def reads_def moved_def)
  have w: "wf_state q" using assms(1) by (rule reads_wf)
  have "reads q (stepped q) [P_tok (nx q)]" using w assms(2) wf_nx[of q] nx_ge[of q] by (simp add: reads_def)
  then show ?thesis using assms(3)[OF reads_append[OF assms(1)] k] w by (simp add: advance_wf)
qed

text \<open>A call whose result is not recorded in the node.\<close>

lemma run_skip:
  assumes "reads p q ps" "wf_state q \<Longrightarrow> ok (\<lambda>(r, q'). moved q q' \<and> P r q') m"
    "\<And>r q'. reads p q' ps \<Longrightarrow> P r q' \<Longrightarrow> ok Q (f (r, q'))"
  shows "ok Q (Option.bind m f)"
  using assms(3) reads_skip(2)[OF assms(1)] by (intro ok_bind[OF assms(2)[OF reads_wf[OF assms(1)]]]) auto

lemma run_result:
  assumes "reads p q ps" "wf_state q \<Longrightarrow> ok (result_ok mk q) m"
    "\<And>q'. failed p q' \<Longrightarrow> ok Q (f (None, q'))"
    "\<And>x q'. reads p q' (ps @ [P_node (mk x)]) \<Longrightarrow> ok Q (f (Some x, q'))"
  shows "ok Q (Option.bind m f)"
proof (rule ok_bind[OF assms(2)[OF reads_wf[OF assms(1)]]])
  fix y assume y: "result_ok mk q y"
  show "ok Q (f y)"
  proof (cases y)
    case (Pair r q')
    then show ?thesis
      using y assms(3)[OF failedI[OF reads_moved[OF assms(1)]]] assms(4)[OF reads_append[OF assms(1) reads_node]]
      by (cases r) auto
  qed
qed

lemma run_read:
  assumes "reads p q ps" "wf_state q \<Longrightarrow> ok (\<lambda>(r, q'). reads q q' (g r) \<and> P r q') m"
    "\<And>r q'. reads p q' (ps @ g r) \<Longrightarrow> psToks q' = psToks p \<Longrightarrow> P r q' \<Longrightarrow> ok Q (f (r, q'))"
  shows "ok Q (Option.bind m f)"
  using assms(3)[OF reads_append[OF assms(1)] reads_toks[OF reads_append[OF assms(1)]]]
  by (intro ok_bind[OF assms(2)[OF reads_wf[OF assms(1)]]]) auto

lemma run_or_error:
  assumes "reads p q ps" "wf_state q \<Longrightarrow> ok (or_error (\<lambda>q (r, q'). reads q q' (g r) \<and> P r q') q) m"
    "\<And>x q'. failed p q' \<Longrightarrow> ok Q (f ((False, x), q'))"
    "\<And>r q'. reads p q' (ps @ g r) \<Longrightarrow> psToks q' = psToks p \<Longrightarrow> P r q' \<Longrightarrow> ok Q (f ((True, r), q'))"
  shows "ok Q (Option.bind m f)"
proof (rule ok_bind[OF assms(2)[OF reads_wf[OF assms(1)]]])
  fix y assume y: "or_error (\<lambda>q (r, q'). reads q q' (g r) \<and> P r q') q y"
  obtain good r q' where e: "y = ((good, r), q')" by (cases y) auto
  show "ok Q (f y)"
    using y e assms(3)[OF failedI[OF reads_moved[OF assms(1)]]] 
      assms(4)[OF reads_append[OF assms(1)] reads_toks[OF reads_append[OF assms(1)]]]
    by (cases good) (auto simp: or_error_def)
qed

lemma run_error: 
  assumes "reads p q ps" "\<And>q'. failed p q' \<Longrightarrow> ok Q (f q')"
  shows "ok Q (Option.bind (errorfGot s args q) f)"
  using assms(2) failedI[OF reads_moved[OF assms(1)]]
  by (intro ok_bind[OF errorfGot_spec[OF reads_wf[OF assms(1)]]]) auto

lemma run_failed:
  assumes "failed p q" "wf_state q \<Longrightarrow> ok (\<lambda>(r, q'). moved q q' \<and> P r q') m"
    "\<And>r q'. failed p q' \<Longrightarrow> P r q' \<Longrightarrow> ok Q (f (r, q'))"
  shows "ok Q (Option.bind m f)"
  using assms(3) failed_moved[OF assms(1)] by (intro ok_bind[OF assms(2)[OF failed_wf[OF assms(1)]]]) auto

lemma run_sync:
  assumes "failed p q" "\<And>q'. failed p q' \<Longrightarrow> ok Q (f q')"
  shows "ok Q (Option.bind (synchronizeTo ks q) f)"
  using assms(2) failed_moved[OF assms(1)] by (intro ok_bind[OF sync_spec[OF failed_wf[OF assms(1)]]]) auto

lemma give_up_failed: "failed p q \<Longrightarrow> ok (result_ok mk p) (give_up q)"
  unfolding give_up_def by (erule run_sync) (simp add: failed_def)

lemma result_failed: "failed p q \<Longrightarrow> result_ok mk p (None, q)"
  by (simp add: failed_def)

lemma result_spans: "reads p q ps \<Longrightarrow> wf_state p \<Longrightarrow> ps \<noteq> [] \<Longrightarrow> node_parts (mk x) = ps \<Longrightarrow>
    node_base (mk x) = span (nx p) q \<Longrightarrow> node_shape (psToks p) True (mk x) \<Longrightarrow> result_ok mk p (Some x, q)"
  by (auto dest: reads_moved reads_pos intro!: spansI elim: node_shape_weaken)

lemma annotations_reads: "wf_state p \<Longrightarrow> ok (\<lambda>(r, q). reads p q (opt p_annos r) \<and> True) (parseAnnotationsIfPresent p)"
  by (rule ok_mono[OF parseAnnotationsIfPresent_spec]) (auto simp: opt_ok_def intro: reads_opt)

lemmas run_separator = run_skip[OF _ acceptSeparator_spec]
lemmas run_type = run_result[OF _ parseFieldType_spec]
lemmas run_identifier = run_result[OF _ expectIdentifier_spec]
lemmas run_value = run_result[OF _ parseConstValue_spec]
lemmas run_annotations = run_read[OF _ annotations_reads]

lemma run_drop:
  assumes "reads p q ps" "kind q \<noteq> TokenEOF" "\<And>q'. reads p q' ps \<Longrightarrow> ok Q (f (nx q, q'))"
  shows "ok Q (Option.bind (advance q) f)"
  by (rule run_skip[OF assms(1) ok_mono[OF advance_spec[OF _ assms(2)]], where P = "\<lambda>r q'. r = nx q"])
    (auto intro: assms(3))

lemma reads_start: "wf_state p \<Longrightarrow> reads p p []"
  by simp


lemma spec_expect: "k \<noteq> TokenEOF \<Longrightarrow> wf_state q \<Longrightarrow>
  ok (\<lambda>(r, q'). moved q q' \<and> (\<not> r \<longrightarrow> nerr q < nerr q')) (expect k what q)"
  by (rule ok_mono[OF expect_spec]) (auto split: if_splits)

text \<open>A token that must be there, and a delimiter after which the method goes on in any case.\<close>

lemma run_must:
  assumes "reads p q ps" "k \<noteq> TokenEOF" "\<And>q'. failed p q' \<Longrightarrow> ok Q (f (False, q'))"
    "\<And>q'. reads p q' ps \<Longrightarrow> ok Q (f (True, q'))"
  shows "ok Q (Option.bind (expect k what q) f)"
proof (rule ok_bind[OF spec_expect[OF assms(2) reads_wf[OF assms(1)]]])
  fix x assume x: "case x of (r, q') \<Rightarrow> moved q q' \<and> (\<not> r \<longrightarrow> nerr q < nerr q')"
  obtain r q' where e: "x = (r, q')" by (cases x)
  show "ok Q (f x)"
    using x assms(3)[OF failedI[OF reads_moved[OF assms(1)]]] assms(4)[OF reads_skip(2)[OF assms(1)]] unfolding e
    by (cases r) auto
qed

lemma run_should:
  assumes "reads p q ps" "k \<noteq> TokenEOF" "\<And>r q'. reads p q' ps \<Longrightarrow> ok Q (f (r, q'))"
  shows "ok Q (Option.bind (expect k what q) f)"
  by (rule run_skip[OF assms(1) spec_expect[OF assms(2)]]) (auto intro: assms(3))

lemma run_accept:
  assumes "reads p q ps" "k \<noteq> TokenEOF" "\<And>r q'. reads p q' ps \<Longrightarrow> ok Q (f (r, q'))"
  shows "ok Q (Option.bind (accept k q) f)"
  by (rule run_skip[OF assms(1) ok_mono[OF accept_spec[OF _ assms(2)]], where P = "\<lambda>r q'. True"])
    (auto intro: assms(3) split: if_splits)

lemmas steps = run_type run_identifier run_value run_annotations run_separator give_up_failed
lemmas flow = prod.case option.case if_True if_False ok_Some simp_thms

section \<open>Headers and definitions\<close>

text \<open>
  A header or a definition starts with its keyword, so that it makes progress
  even when it is given up, and it has no structured annotations yet.
\<close>

fun node_structured :: "Node \<Rightarrow> StructuredAnnotation list" where
  "node_structured (N_Namespace n) = nsStructured n"
| "node_structured (N_Const n) = coStructured n"
| "node_structured (N_Typedef n) = tdStructured n"
| "node_structured (N_Enum n) = enStructured n"
| "node_structured (N_Struct n) = stStructured n"
| "node_structured (N_Service n) = svStructured n"
| "node_structured n = []"

fun structurable :: "Node \<Rightarrow> bool" where
  "structurable (N_Namespace n) = True"
| "structurable (N_Const n) = True"
| "structurable (N_Typedef n) = True"
| "structurable (N_Enum n) = True"
| "structurable (N_Struct n) = True"
| "structurable (N_Service n) = True"
| "structurable n = False"

text \<open>The nodes a document can have at its top level.\<close>

fun toplevel :: "Node \<Rightarrow> bool" where
  "toplevel (N_Include n) = True"
| "toplevel (N_CPPInclude n) = True"
| "toplevel n = structurable n"

lemma structurable_toplevel: "structurable n \<Longrightarrow> toplevel n"
  by (cases n) auto

lemma toplevel_setStructured [simp]: "toplevel (setStructured a n) = toplevel n"
  by (cases n) auto

definition keyword_read :: "parser \<Rightarrow> parser \<Rightarrow> bool" where
  "keyword_read p q \<longleftrightarrow> wf_state p \<and> moved p q \<and> nerr q = nerr p \<and> psPos q = Suc (nx p)"

definition top_ok :: "bool \<Rightarrow> parser \<Rightarrow> Node option \<times> parser \<Rightarrow> bool" where
  "top_ok s p = (\<lambda>(r, q). result_ok id p (r, q) \<and> nx p < psPos q \<and>
     (case r of None \<Rightarrow> True | Some n \<Rightarrow> node_structured n = [] \<and> toplevel n \<and> (s \<longrightarrow> structurable n)))"

lemma run_keyword:
  assumes "wf_state p" "kind p \<noteq> TokenEOF"
    "\<And>q. keyword_read p q \<Longrightarrow> reads q q [] \<Longrightarrow> ok Q (f (nx p, q))"
  shows "ok Q (Option.bind (advance p) f)"
  by (rule ok_bind[OF advance_spec[OF assms(1,2)]])
    (use assms(1,3) in \<open>auto simp: keyword_read_def moved_def\<close>)

lemma keyword_failed: "failed q r \<Longrightarrow> keyword_read p q \<Longrightarrow> top_ok s p (None, r)"
  by (auto simp: failed_def keyword_read_def top_ok_def moved_def)

lemma keyword_spans: "reads q r ps \<Longrightarrow> keyword_read p q \<Longrightarrow> node_parts n = ps \<Longrightarrow>
    node_base n = span (nx p) r \<Longrightarrow> node_shape (psToks q) True n \<Longrightarrow> node_structured n = [] \<Longrightarrow> structurable n \<Longrightarrow>
    top_ok s p (Some n, r)"
  using spansI[of p r n] node_shape_weaken[of "psToks p" True n "nerr r = nerr p"] reads_skip(1)[of p q r ps] reads_moved[of q r ps]
  by (auto simp: keyword_read_def top_ok_def moved_def structurable_toplevel)

lemma keyword_give_up: "failed q r \<Longrightarrow> keyword_read p q \<Longrightarrow> ok (top_ok s p) (give_up r)"
  unfolding give_up_def by (erule run_sync) (simp only: ok_Some keyword_failed)

lemmas run_top = keyword_failed keyword_spans keyword_give_up

lemma parseTypedef_spec: "wf_state p \<Longrightarrow> kind p \<noteq> TokenEOF \<Longrightarrow> ok (top_ok True p) (parseTypedef p)"
  unfolding parseTypedef_def Let_def nextReal_fold
  by (erule run_keyword, assumption) (simp only: flow, (erule steps run_top | simp only: flow | (simp; fail))+)

lemma parseConst_spec: "wf_state p \<Longrightarrow> kind p \<noteq> TokenEOF \<Longrightarrow> ok (top_ok True p) (parseConst p)"
  unfolding parseConst_def Let_def nextReal_fold
  by (erule run_keyword, assumption) (simp only: flow, (erule steps run_must run_top | simp only: flow | (simp; fail))+)

lemma parseNamespace_spec: "wf_state p \<Longrightarrow> kind p \<noteq> TokenEOF \<Longrightarrow> ok (top_ok True p) (parseNamespace p)"
  unfolding parseNamespace_def Let_def nextReal_fold
  apply (erule run_keyword, assumption)
  apply (simp only: flow, frule reads_wf, simp only: at_wf Option.bind.simps)
  apply (rule if_split[THEN iffD2], intro conjI impI)
  apply (erule run_error, erule keyword_give_up, assumption)
  apply (erule run_take, force)
  by (erule steps run_top | simp only: flow | (simp; fail) | (auto; fail))+

text \<open>The path of an include.\<close>

definition path_ok :: "parser \<Rightarrow> nat option \<times> parser \<Rightarrow> bool" where
  "path_ok p = (\<lambda>(r, q). case r of None \<Rightarrow> failed p q
     | Some i \<Rightarrow> reads p q [P_tok i] \<and> tkKind (psToks p ! i) = TokenStringLiteral)"

lemma parse_path_spec: "wf_state p \<Longrightarrow> kind p \<noteq> TokenEOF \<Longrightarrow>
    ok (\<lambda>(r, q). path_ok p (r, q) \<and> nx p < psPos q) (parse_path what p)"
  using nx_ge[of p]
  by (auto simp: parse_path_def path_ok_def failed_def reads_def moved_def intro!: exec)

lemma include_ok: "path_ok p (r, q) \<Longrightarrow> nx p < psPos q \<Longrightarrow> wf_state p \<Longrightarrow>
   (\<And>i. r = Some i \<Longrightarrow> node_base (f i) = span (nx p) q \<and> node_parts (f i) = [P_tok i] \<and> node_structured (f i) = [] \<and> toplevel (f i) \<and>
      (tkKind (psToks p ! i) = TokenStringLiteral \<longrightarrow> node_shape (psToks p) True (f i))) \<Longrightarrow>
   top_ok False p (map_option f r, q)"
  using spansI[of p q "f (the r)"] node_shape_weaken[of "psToks p" True "f (the r)" "nerr q = nerr p"]
  by (cases r) (auto simp: path_ok_def top_ok_def failed_def dest: reads_moved)

lemma parseInclude_spec: "wf_state p \<Longrightarrow> kind p \<noteq> TokenEOF \<Longrightarrow> ok (top_ok False p) (parseInclude p)"
  unfolding parseInclude_def Let_def nextReal_fold
  apply (rule ok_bind[OF parse_path_spec], assumption, assumption)
  apply (use include_ok[of p _ _ "\<lambda>i. N_Include \<lparr>incBase = span (nx p) q, incPath = Some i\<rparr>" for q] in \<open>force split: option.splits\<close>)
  done

lemma parseCPPInclude_spec: "wf_state p \<Longrightarrow> kind p \<noteq> TokenEOF \<Longrightarrow> ok (top_ok False p) (parseCPPInclude p)"
  unfolding parseCPPInclude_def Let_def nextReal_fold
  apply (rule ok_bind[OF parse_path_spec], assumption, assumption)
  apply (use include_ok[of p _ _ "\<lambda>i. N_CPPInclude \<lparr>cppBase = span (nx p) q, cppPath = Some i\<rparr>" for q] in \<open>force split: option.splits\<close>)
  done

section \<open>Fields and members\<close>

lemma tok_reads: "ok (tok_read ks p) m \<Longrightarrow> ok (\<lambda>(r, q). reads p q (opt P_tok r) \<and> tok_in (psToks q) ks r) m"
  by (erule ok_mono) (auto simp: tok_read_def moved_def)

lemma id_reads: "ok (or_error (tok_read ks) p) m \<Longrightarrow>
    ok (or_error (\<lambda>p (r, q). reads p q (opt P_tok r) \<and> tok_in (psToks q) ks r) p) m"
  by (erule ok_mono) (auto simp: tok_read_def or_error_def moved_def split: if_splits)

lemma value_reads: "ok (or_error (\<lambda>p (v, q). reads p q (opt p_value v)) p) m \<Longrightarrow>
    ok (or_error (\<lambda>p (v, q). reads p q (opt p_value v) \<and> True) p) m"
  by simp

lemma run_structured:
  assumes "wf_state p" "\<And>annos q. structured_ok p (annos, q) \<Longrightarrow> reads q q [] \<Longrightarrow> ok Q (f (annos, q))"
  shows "ok Q (Option.bind (parseStructuredAnnotations p) f)"
  by (rule ok_bind[OF parseStructuredAnnotations_spec[OF assms(1)]])
    (use assms(2) in \<open>auto simp: structured_ok_def moved_def\<close>)

lemma structured_failed: "failed q r \<Longrightarrow> structured_ok p (annos, q) \<Longrightarrow> result_ok mk p (None, r)"
  by (auto simp: failed_def structured_ok_def moved_def)

lemma structured_spans: "reads q r ps \<Longrightarrow> structured_ok p (annos, q) \<Longrightarrow> wf_state p \<Longrightarrow> ps \<noteq> [] \<Longrightarrow>
    node_parts (mk x) = map p_struct annos @ ps \<Longrightarrow> node_base (mk x) = span (first_with annos (nx q)) r \<Longrightarrow>
    node_shape (psToks q) True (mk x) \<Longrightarrow> result_ok mk p (Some x, r)"
  using spans_structured[of p annos q r ps "mk x"] reads_pos[of q r ps] reads_moved[of q r ps]
  by (auto simp: structured_ok_def moved_def)

lemmas run_field = run_or_error[OF _ id_reads[OF parseField_id_spec]] run_read[OF _ tok_reads[OF parseField_req_spec]]
  run_result[OF _ parseField_name_spec] run_or_error[OF _ value_reads[OF parseField_value_spec]] run_accept
  run_sync structured_failed structured_spans

lemma parseField_spec: "wf_state p \<Longrightarrow> ok (result_ok N_Field p) (parseField p)"
  unfolding parseField_def Let_def nextReal_fold
  by (rule run_structured, assumption)
    (simp only: flow, (erule run_field steps | simp only: flow | (simp; fail) | (auto; fail))+)

interpretation struct_fields: entry_loop parseField "recoverEntry TokenRBrace" TokenRBrace N_Field
  "\<lambda>n. parseFieldList_loop n TokenRBrace"
  by unfold_locales (auto intro!: parseField_spec recoverEntry_ok)

interpretation argument_fields: entry_loop parseField "recoverEntry TokenRParen" TokenRParen N_Field
  "\<lambda>n. parseFieldList_loop n TokenRParen"
  by unfold_locales (auto intro!: parseField_spec recoverEntry_ok)

lemma appends_reads: "ok (appends (\<lambda>x. [h x]) [] p) m \<Longrightarrow> ok (\<lambda>(r, q). reads p q (map h r) \<and> True) m"
  by (erule ok_mono) (auto simp: appends_def)

lemma parseFieldList_spec:
  "t \<in> {TokenRBrace, TokenRParen} \<Longrightarrow> wf_state p \<Longrightarrow>
   ok (\<lambda>(r, q). reads p q (map p_field r) \<and> True) (parseFieldList t p)"
  using struct_fields.loop_ok[OF _ parse_fuel_enough] argument_fields.loop_ok[OF _ parse_fuel_enough]
  unfolding parseFieldList_def by (blast intro: appends_reads)

lemma parseEnumValue_int_spec: "wf_state p \<Longrightarrow> ok (tok_read {TokenIntConstant} p) (parseEnumValue_int p)"
  by (auto simp: parseEnumValue_int_def tok_read_def reads_def moved_def intro!: exec)

lemma parseIdentifier_reads:
  "kind p \<noteq> TokenEOF \<Longrightarrow> wf_state p \<Longrightarrow> ok (\<lambda>(r, q). reads p q [p_ident r] \<and> True) (parseIdentifier p)"
  by (rule ok_mono[OF parseIdentifier_spec]) (auto intro: reads_node)

lemma parseEnumValue_spec:
  "wf_state p \<Longrightarrow> kind p \<noteq> TokenEOF \<Longrightarrow> ok (result_ok N_EnumValue p) (parseEnumValue p)"
  unfolding parseEnumValue_def Let_def nextReal_fold
  apply (frule reads_start)
  apply (simp only: at_wf Option.bind.simps)
  apply (rule if_split[THEN iffD2], intro conjI impI)
  by  (erule run_error run_read[OF _ parseIdentifier_reads] run_read[OF _ tok_reads[OF parseEnumValue_int_spec]]
       steps result_spans result_failed | simp only: flow | (simp; fail) | (auto; fail))+

interpretation enum_values: entry_loop parseEnumValue "synchronizeTo [TokenRBrace]" TokenRBrace N_EnumValue
  parseEnum_loop
  by unfold_locales (auto intro!: parseEnumValue_spec ok_mono[OF synchronizeTo_spec] split: if_splits)

lemma parse_body_spec:
  assumes "\<And>q. wf_state q \<Longrightarrow> ok (\<lambda>(r, q'). reads q q' (map h r) \<and> True) (loop q)" "wf_state p"
  shows "ok (\<lambda>(r, q). reads p q (map h r) \<and> True) (parse_body what loop p)"
  unfolding parse_body_def
  apply (insert reads_start[OF assms(2)])
  apply (erule run_accept, simp)
  apply (simp only: flow, rule if_split[THEN iffD2], intro conjI impI)
  by (erule run_error run_read[OF _ assms(1)] run_should | simp add: failed_def)+

lemmas run_body = run_read[OF _ parse_body_spec]

lemma parseEnum_spec: "wf_state p \<Longrightarrow> kind p \<noteq> TokenEOF \<Longrightarrow> ok (top_ok True p) (parseEnum p)"
  unfolding parseEnum_def Let_def nextReal_fold
  by (erule run_keyword, assumption) (simp only: flow,
    (erule run_body[OF _ appends_reads[OF enum_values.loop_ok[OF _ parse_fuel_enough]]] steps run_top
     | simp only: flow | (simp; fail))+)

lemma parseStruct_spec: "wf_state p \<Longrightarrow> kind p \<in> {TokenStruct, TokenUnion, TokenException} \<Longrightarrow>
   ok (top_ok True p) (parseStruct p)"
  unfolding parseStruct_def Let_def nextReal_fold
  apply (simp only: cur_wf Option.bind.simps kind_fold)
  by (rule run_keyword, assumption, force) (simp only: flow,
    (erule run_body[OF _ parseFieldList_spec] steps run_top | simp only: flow | (simp; fail) | (auto; fail))+)

section \<open>Services\<close>

lemma parse_oneway_spec: "wf_state p \<Longrightarrow> ok (tok_read {TokenOneway, TokenAsync} p) (parse_oneway p)"
  using wf_nx_less[of p]
  by (auto simp: parse_oneway_def tok_read_def reads_def moved_def tok_at_def warnf_def intro!: exec)

lemma parse_return_spec: "wf_state p \<Longrightarrow> ok (or_error (\<lambda>p (r, q). reads p q (opt P_tok (fst r) @ opt p_type (snd r)) \<and>
    (fst r = None \<longleftrightarrow> snd r \<noteq> None) \<and> tok_in (psToks q) {TokenVoid} (fst r)) p) (parse_return p)"
  by (auto simp: parse_return_def reads_def moved_def spans_def or_error_def result_ok_def
    intro!: exec ok_bind[OF parseFieldType_spec] split: option.splits)

text \<open>The throws clause starts at its parenthesis, after the keyword.\<close>

lemma throws_tail:
  assumes "wf_state b" "moved p b" "moved b q" "psPos q = Suc (nx b)"
  shows "ok (or_error (\<lambda>p (r, q). reads p q (opt (\<lambda>x. P_node (N_Throws x)) r)) p) (do {
     (fs, p) \<leftarrow> parseFieldList TokenRParen q;
     (_, p) \<leftarrow> expect TokenRParen m p;
     Some ((True, Some \<lparr>thBase = span (nx b) p, thFields = fs\<rparr>), p) })"
proof -
  have q: "reads q q []" and nn: "nx b < psPos q" using assms(3,4) by (auto simp: moved_def)
  have "spans b r (N_Throws \<lparr>thBase = span (nx b) r, thFields = fs\<rparr>)"
    if "reads q r (map p_field fs)" for r fs
    using assms(1) nn reads_skip(1)[OF assms(3) that] reads_moved[OF that]
    by (intro spansI) (auto simp: moved_def)
  then have "or_error (\<lambda>p (r, q). reads p q (opt (\<lambda>x. P_node (N_Throws x)) r)) p
      ((True, Some \<lparr>thBase = span (nx b) r, thFields = fs\<rparr>), r)"
    if "reads q r (map p_field fs)" for r fs
    using that moved_trans[OF assms(2) moved_trans[OF assms(3) reads_moved[OF that]]] reads_moved[OF that]
      reads_skip(1)[OF assms(2) reads_node[OF moved_trans[OF assms(3)]]]
    by (auto simp: or_error_def dest: reads_moved)
  then show ?thesis
    by (intro run_read[OF q parseFieldList_spec]) (auto elim!: run_should)
qed

lemma parse_throws_spec: "wf_state p \<Longrightarrow> ok (or_error (\<lambda>p (r, q). reads p q (opt (\<lambda>x. P_node (N_Throws x)) r) \<and> True) p)
    (parse_throws p)"
  unfolding parse_throws_def
  by (auto intro!: throws_tail exec simp: Let_def movedD(1) split: if_splits) (auto intro!: throws_tail simp: moved_def)

lemma parse_extends_spec: "wf_state p \<Longrightarrow> ok (or_error (\<lambda>p (r, q). reads p q (opt p_ident r) \<and> True) p) (parse_extends p)"
  by (auto simp: parse_extends_def reads_def moved_def spans_def or_error_def intro!: exec ok_bind[OF expectIdentifier_spec] split: option.splits)

lemmas run_function = run_read[OF _ tok_reads[OF parse_oneway_spec]] run_or_error[OF _ parse_return_spec]
  run_read[OF _ parseFieldList_spec] run_or_error[OF _ parse_throws_spec]
  structured_failed structured_spans run_sync

lemma give_up_structured:
  "failed q r \<Longrightarrow> structured_ok p (annos, q) \<Longrightarrow> ok (result_ok mk p) (give_up r)"
  unfolding give_up_def by (erule run_sync) (simp only: ok_Some structured_failed)

lemma parseFunction_spec: "wf_state p \<Longrightarrow> ok (result_ok N_Function p) (parseFunction p)"
  unfolding parseFunction_def Let_def nextReal_fold
  apply (rule run_structured, assumption)
  apply (simp only: flow, (erule run_function steps | simp only: flow split_paired_all fst_conv snd_conv | (simp; fail))+)
  apply (erule run_must, simp, simp only: flow)
  apply (erule give_up_structured, assumption)
  apply (simp only: flow, (erule run_function | simp only: flow | (simp; fail) )+)
  apply (erule run_should, simp)
  apply (simp only: flow, (erule run_function steps | simp only: flow | (simp; fail) | (auto; fail))+)
  done

lemma skip_function_spec: "wf_state p \<Longrightarrow> ok (\<lambda>p'. moved p p' \<and> nerr p' = nerr p \<and>
     (kind p = TokenRBrace \<or> kind p = TokenEOF \<or> psPos p < psPos p')) (skip_function p)"
  unfolding skip_function_def
  by (auto intro!: ok_bind[OF synchronizeTo_spec] ok_bind[OF advance_spec] simp: moved_def split: if_splits)

interpretation service_functions: entry_loop parseFunction skip_function TokenRBrace N_Function parseService_loop
  by unfold_locales (auto intro!: parseFunction_spec skip_function_spec)

lemma parseService_spec: "wf_state p \<Longrightarrow> kind p \<noteq> TokenEOF \<Longrightarrow> ok (top_ok True p) (parseService p)"
  unfolding parseService_def Let_def nextReal_fold
  by (erule run_keyword, assumption) (simp only: flow, (erule run_or_error[OF _ parse_extends_spec]
    run_body[OF _ appends_reads[OF service_functions.loop_ok[OF _ parse_fuel_enough]]]
    steps run_top | simp only: flow | (simp; fail))+)

section \<open>The document\<close>

lemma definition_parser_spec:
  "wf_state p \<Longrightarrow> definition_parser (kind p) = Some parse \<Longrightarrow> ok (top_ok True p) (parse p)"
  by (auto simp: definition_parser_def split: if_splits
      intro!: parseNamespace_spec parseConst_spec parseTypedef_spec parseEnum_spec parseStruct_spec parseService_spec)

lemma top_weaken: "ok (top_ok s p) m \<Longrightarrow> ok (top_ok False p) m"
  by (erule ok_mono) (auto simp: top_ok_def split: option.splits)

lemma top_parser_spec:
  "wf_state p \<Longrightarrow> top_parser (kind p) = Some parse \<Longrightarrow> ok (top_ok False p) (parse p)"
  by (auto simp: top_parser_def split: if_splits
      intro!: parseInclude_spec parseCPPInclude_spec intro: top_weaken[OF definition_parser_spec])

lemma setStructured_parts:
  "structurable n \<Longrightarrow> node_structured n = [] \<Longrightarrow>
   node_parts (setStructured a n) = map p_struct a @ node_parts n \<and>
   node_base (setStructured a n) = first_from a (node_base n) \<and>
   node_shape toks s (setStructured a n) = node_shape toks s n"
  by (cases n) auto

lemma node_ok_parts:
  "node_ok toks s n \<Longrightarrow> parts_ok toks s (TokStart n) (Suc (TokEnd n)) (node_parts n) \<and> node_shape toks s n"
  by (erule node_ok.cases) (simp add: parts_ok_def list_all_iff part_ok_def split: part.split, blast)

lemma spans_parts: "spans p q n \<Longrightarrow> moved p q \<Longrightarrow> reads p q (node_parts n)"
  using node_ok_parts[of "psToks p" s n for s] parts_ok_weaken[of "psToks p" s "TokStart n" "psPos q" "node_parts n" s "psPos p" "psPos q" for s]
  by (auto simp: spans_def reads_def)

lemma attach_spans:
  assumes "structured_ok p (annos, p1)" "wf_state p" "annos \<noteq> []" "top_ok True p1 (Some n, q)"
  shows "spans p q (setStructured annos n)" "moved p q"
proof -
  have n: "spans p1 q n" "moved p1 q" "nx p1 < psPos q" "structurable n" "node_structured n = []"
    using assms(4) by (auto simp: top_ok_def)
  have a: "moved p p1" "reads p p1 (map p_struct annos)" "first_with annos i = nx p" for i
    using assms(1,3) by (auto simp: structured_ok_def first_with_def split: list.splits)
  show "moved p q" using a(1) n(2) by (rule moved_trans)
  have sh: "node_shape (psToks p) (nerr q = nerr p) n"
    using n(1,2) a(1) node_ok_parts[of "psToks p" False n] node_ok_parts[of "psToks p" True n]
    by (cases "nerr q = nerr p") (auto simp: spans_def moved_def)
  have "node_base (setStructured annos n) = span (nx p) q"
    using n(1,4,5) a(3) setStructured_parts[of n annos]
    by (cases "node_base n") (auto simp: first_from_def span_def spans_def TokEnd_def)
  moreover have "nx p < psPos q" using nx_mono[OF assms(2) a(1)] n(3) by simp
  ultimately show "spans p q (setStructured annos n)"
    using reads_append[OF a(2) spans_parts[OF n(1,2)]] sh n(4,5) assms(2) setStructured_parts[of n annos]
    by (intro spansI) auto
qed

text \<open>
  The top level of a document without errors: the nodes follow one another,
  with nothing but comments in between, up to the end of the input.
\<close>

fun tile_doc :: "Token list \<Rightarrow> nat \<Rightarrow> Node list \<Rightarrow> bool" where
  "tile_doc toks i [] \<longleftrightarrow> tkKind (toks ! NextReal toks i) = TokenEOF"
| "tile_doc toks i (n # ns) \<longleftrightarrow> TokStart n = NextReal toks i \<and> tile_doc toks (Suc (TokEnd n)) ns"

definition doc_ok :: "parser \<Rightarrow> Node list \<Rightarrow> Node list \<times> parser \<Rightarrow> bool" where
  "doc_ok p acc = (\<lambda>(r, q). \<exists>new. r = acc @ new \<and> list_all toplevel new \<and> reads p q (map P_node new) \<and>
     (nerr q = nerr p \<longrightarrow> tile_doc (psToks p) (psPos p) new))"

lemma doc_skip: "failed p q \<Longrightarrow> ok (doc_ok q acc) m \<Longrightarrow> ok (doc_ok p acc) m"
  using reads_skip(1)[of p q] reads_moved[of q]
  by (elim ok_mono) (fastforce simp: doc_ok_def failed_def dest: movedD(4))

lemma doc_node:
  assumes "spans p q n" "moved p q" "ok (doc_ok q (acc @ [n])) m" "toplevel n"
  shows "ok (doc_ok p acc) m"
proof (rule ok_mono[OF assms(3)])
  fix x assume "doc_ok q (acc @ [n]) x"
  then obtain new r where x: "x = (acc @ n # new, r)" "list_all toplevel new" "reads q r (map P_node new)"
      "nerr r = nerr q \<longrightarrow> tile_doc (psToks q) (psPos q) new" by (auto simp: doc_ok_def)
  have "reads p r (map P_node (n # new))" using reads_append[OF reads_node[OF assms(2,1)] x(3)] by simp
  moreover have "nerr r = nerr p \<longrightarrow> tile_doc (psToks p) (psPos p) (n # new)"
    using assms(1,2) x(4) reads_moved[OF x(3)] by (auto simp: spans_def moved_def nx_def)
  ultimately show "doc_ok p acc x" using x(1,2) assms(4) by (auto simp: doc_ok_def)
qed


lemma top_parser_stops: "top_parser k = None \<Longrightarrow> k \<notin> set top_stops"
  by (auto simp: top_stops_def top_parser_def definition_parser_def split: if_splits)

lemma doc_end: "wf_state p \<Longrightarrow> kind p = TokenEOF \<Longrightarrow> doc_ok p acc (acc, p)"
  by (simp add: doc_ok_def kind_def nx_def)

lemma parseDocument_loop_spec:
  "wf_state p \<Longrightarrow> length (psToks p) \<le> n + psPos p \<Longrightarrow> ok (doc_ok p acc) (parseDocument_loop n acc p)"
proof (induction n arbitrary: acc p)
  case 0
  then show ?case by (simp add: wf_state_def)
next
  case (Suc n)
  have w: "wf_state p" by fact
  have IH: "ok (doc_ok q acc) (parseDocument_loop n acc q)" if "moved p q" "psPos p < psPos q" for acc q
    using that Suc.prems by (intro Suc.IH) (auto simp: moved_def)
  have nodes: "ok (doc_ok p acc) (parseDocument_loop n (appendNode acc x) q)"
    if x: "case x of None \<Rightarrow> failed p q | Some m \<Rightarrow> spans p q m \<and> moved p q \<and> toplevel m" and q: "nx p < psPos q" for x q
  proof (cases x)
    case None
    then show ?thesis using x q nx_ge[of p] doc_skip IH by (auto simp: appendNode_def failed_def)
  next
    case (Some m)
    then show ?thesis using x q nx_ge[of p] IH by (auto simp: appendNode_def intro: doc_node)
  qed
  have top: "ok (doc_ok p acc) (do { (x, p) \<leftarrow> parse p; parseDocument_loop n (appendNode acc x) p })"
    if "top_parser (kind p) = Some parse" for parse
    by (rule ok_bind[OF top_parser_spec[OF w that]])
      (auto simp: top_ok_def failed_def intro!: nodes split: option.splits)
  have stop: "ok (doc_ok p acc) (do { q \<leftarrow> errorfGot f args q; q \<leftarrow> synchronizeTo top_stops q; parseDocument_loop n acc q })"
    if q: "moved p q" "psPos p < psPos q \<or> kind q \<noteq> TokenEOF \<and> kind q \<notin> set top_stops" for q f args
  proof (rule ok_bind[OF errorfGot_spec[OF movedD(1)[OF q(1)]]])
    fix q1 assume q1: "moved q q1 \<and> nerr q < nerr q1 \<and> psPos q1 = psPos q \<and> nx q1 = nx q \<and> kind q1 = kind q"
    then have m1: "moved p q1" "wf_state q1" using q(1) by (auto simp: moved_def)
    have "ok (\<lambda>r. failed p r \<and> psPos p < psPos r) (synchronizeTo top_stops q1)"
      using q q1 m1 by (auto simp: failed_def moved_def elim!: ok_mono[OF synchronizeTo_spec] split: if_splits)
    then show "ok (doc_ok p acc) (do { q \<leftarrow> synchronizeTo top_stops q1; parseDocument_loop n acc q })"
      by (rule ok_bind) (use doc_skip IH in \<open>auto simp: failed_def\<close>)
  qed
  have struct: "ok (doc_ok p acc) (do { t \<leftarrow> cur q;
           (case definition_parser (tkKind t) of
              Some parse \<Rightarrow> do {
                (x, p) \<leftarrow> parse q;
                parseDocument_loop n (appendNode acc (attachStructured x annos)) p }
            | None \<Rightarrow> do {
                p \<leftarrow> errorfGot ''expected definition after annotation, got %q'' [] q;
                p \<leftarrow> synchronizeTo top_stops p;
                parseDocument_loop n acc p }) })"
    if a: "structured_ok p (annos, q)" "kind p = TokenAt" for annos q
  proof -
    have q: "moved p q" "wf_state q" "nx p < psPos q" "annos = [] \<longrightarrow> nerr p < nerr q"
      using a reads_pos[of p q "map p_struct annos"] by (auto simp: structured_ok_def moved_def split: list.splits)
    have "(case attachStructured x annos of None \<Rightarrow> failed p r | Some m \<Rightarrow> spans p r m \<and> moved p r \<and> toplevel m) \<and> nx p < psPos r"
      if t: "top_ok True q (x, r)" for x r
    proof (cases x)
      case None
      then show ?thesis using t q failedI[OF q(1)] by (auto simp: attachStructured_def top_ok_def moved_def)
    next
      case (Some m)
      then have m: "spans q r m" "moved q r" "toplevel m" using t by (auto simp: top_ok_def)
      have "nx p < psPos r" using q(3) m(2) by (simp add: moved_def)
      then show ?thesis
        using Some t m q(1,4) moved_trans[OF q(1) m(2)] spans_widen[OF m(1) q(1) m(2) w] attach_spans[OF a(1) w]
        by (cases "annos = []") (auto simp: attachStructured_def)
    qed
    then show ?thesis using q nx_ge[of p]
      by (auto intro!: stop ok_bind[OF definition_parser_spec] nodes split: option.splits)
  qed
  show ?case using w top_parser_stops
    by (auto intro!: top stop struct doc_end ok_bind[OF parseStructuredAnnotations_spec] split: option.splits)
qed

end
