(* ===== verification/ParserProps.thy ===== *)
theory ParserProps imports ParserDefs "HOL-Library.Multiset"
begin

text \<open>
  What \<open>syntax.Parse\<close> guarantees: it returns on every input, the tree it
  returns is well formed whatever the errors, and without errors the top level
  of the tree covers the whole input.
\<close>

section \<open>The stream of the lexer\<close>

lemma Lex_stream_ok: "stream_ok (fst (Lex src))"
proof -
  obtain ts e where "fst (Lex src) = ts @ [e]" "tiles (snd (Lex src) = []) src 0 ts (length src)" "tkKind e = TokenEOF"
    by (rule Lex_tiles)
  then show ?thesis using tiles_kinds by (auto simp: stream_ok_def)
qed

text \<open>The document: its top-level nodes are well formed, in order and disjoint.\<close>

definition doc_wf :: "bool \<Rightarrow> Document \<Rightarrow> bool" where
  "doc_wf strict doc \<longleftrightarrow> list_all toplevel (docNodes doc) \<and>
     list_all (node_ok (docTokens doc) strict) (docNodes doc) \<and>
     sorted_wrt (\<lambda>m n. TokEnd m < TokStart n) (docNodes doc) \<and>
     list_all (\<lambda>n. Suc (TokEnd n) < length (docTokens doc)) (docNodes doc)"

lemma chain_nodes:
  "chain lo hi (map P_node ns) \<Longrightarrow>
   sorted_wrt (\<lambda>m n. TokEnd m < TokStart n) ns \<and> (\<forall>n \<in> set ns. lo \<le> TokStart n \<and> TokEnd n < hi)"
proof (induction ns arbitrary: lo)
  case (Cons n ns)
  then have "sorted_wrt (\<lambda>m n. TokEnd m < TokStart n) ns" "\<forall>m \<in> set ns. Suc (TokEnd n) \<le> TokStart m \<and> TokEnd m < hi"
    by (auto simp del: chain.simps simp: chain.simps(2)[of lo])
  then show ?case using Cons.prems by (fastforce simp: Suc_le_eq)
qed simp

lemma parts_doc_wf:
  "parts_ok toks s lo hi (map P_node ns) \<Longrightarrow> hi < length toks \<Longrightarrow> list_all toplevel ns \<Longrightarrow> doc_wf s \<lparr>docTokens = toks, docNodes = ns\<rparr>"
  using chain_nodes[of lo hi ns] by (fastforce simp: parts_ok_def doc_wf_def list_all_iff)

definition parse_result :: "Token list \<Rightarrow> Document \<times> Error list \<Rightarrow> bool" where
  "parse_result toks = (\<lambda>(doc, errs). docTokens doc = toks \<and> doc_wf False doc \<and> list_all (err_at toks) errs \<and>
     (SeverityError \<notin> erSeverity ` set errs \<longrightarrow> doc_wf True doc \<and> tile_doc toks 0 (docNodes doc)))"

lemma no_errors_nerr: "SeverityError \<notin> erSeverity ` set (psErrs p) \<longleftrightarrow> nerr p = 0"
  unfolding nerr_def length_0_conv filter_empty_conv by (metis (mono_tags, lifting) image_iff)

lemma ParseTokens_spec:
  assumes "stream_ok toks"
  shows "ok (parse_result toks) (ParseTokens toks)"
proof -
  let ?p = "\<lparr>psToks = toks, psPos = 0, psErrs = []\<rparr>"
  have w: "wf_state ?p" using assms by (auto simp: wf_state_def stream_ok_def)
  have "ok (doc_ok ?p []) (parseDocument_loop (parse_fuel ?p) [] ?p)"
    by (rule parseDocument_loop_spec[OF w]) (simp add: parse_fuel_def)
  then have "ok (\<lambda>(r, q). list_all toplevel r \<and> reads ?p q (map P_node r) \<and> (nerr q = 0 \<longrightarrow> tile_doc toks 0 r))
      (parseDocument_loop (parse_fuel ?p) [] ?p)"
    by (rule ok_mono) (auto simp: doc_ok_def nerr_def)
  then show ?thesis
    unfolding ParseTokens_def parseDocument_def
    by (auto elim!: ok_bind simp: parse_result_def no_errors_nerr reads_def moved_def wf_state_def nerr_def[of ?p]
        intro: parts_doc_wf)
qed

text \<open>How the errors of the two passes are combined.\<close>

lemma Parse_cases:
  obtains doc perrs where "Parse src = Some (doc, sort_key erOffset (snd (Lex src) @ perrs))"
    "ParseTokens (fst (Lex src)) = Some (doc, perrs)" "parse_result (fst (Lex src)) (doc, perrs)"
proof -
  obtain doc perrs where "ParseTokens (fst (Lex src)) = Some (doc, perrs)" "parse_result (fst (Lex src)) (doc, perrs)"
    using ok_exists[OF ParseTokens_spec[OF Lex_stream_ok[of src]]] by auto
  then show thesis using that by (cases "Lex src") (auto simp: Parse_def Lex_checked_total)
qed

lemma Parse_parts:
  assumes "Parse src = Some (doc, errs)"
  shows "docTokens doc = fst (Lex src)" "doc_wf False doc"
    "SeverityError \<notin> erSeverity ` set errs \<Longrightarrow> doc_wf True doc \<and> tile_doc (fst (Lex src)) 0 (docNodes doc)"
  by (rule Parse_cases[of src]; use assms in \<open>auto simp: parse_result_def\<close>)+

section \<open>Properties of Parse\<close>

text \<open>
  C1: \<open>Parse\<close> neither panics nor runs forever: on every byte string it returns a
  document and a list of diagnostics.
\<close>

lemma Parse_total: "\<exists>doc errs. Parse src = Some (doc, errs)"
  by (rule Parse_cases[of src]) blast

text \<open>
  C2: Whatever the errors in the source, the tree is well formed: every node
  starts and ends at real tokens, the children and token pointers of a node lie
  inside it, in source order and without overlap, the mandatory pointers are
  set and point to tokens of the right kind, and the top-level nodes are
  disjoint and in order. The document keeps the complete token stream.
\<close>

lemma Parse_tree_wf:
  "case Parse src of None \<Rightarrow> False | Some (doc, errs) \<Rightarrow> docTokens doc = fst (Lex src) \<and> doc_wf False doc"
  by (rule Parse_cases[of src]) (auto simp: parse_result_def)

text \<open>
  C29: When no error is reported, warnings aside, the tree is complete: also the
  pointers that error recovery may leave nil are set, and the top-level nodes
  follow one another with only comments in between up to the end of the input.
\<close>

lemma Parse_clean:
  assumes "Parse src = Some (doc, errs)" "SeverityError \<notin> erSeverity ` set errs"
  shows "doc_wf True doc \<and> tile_doc (docTokens doc) 0 (docNodes doc)"
  using Parse_parts[OF assms(1)] assms(2) by simp

definition clean_source :: bytes where
  "clean_source = ''/*a*/const i32 x=1 struct S{1:byte y}''"

lemma clean_source_parse:
  obtains doc errs where "Parse clean_source = Some (doc, errs)" "SeverityError \<notin> erSeverity ` set errs"
    "length errs = 1" "length (docNodes doc) = 2" "map tkKind (take 2 (docTokens doc)) = [TokenBlockComment, TokenConst]"
proof -
  have "case Parse clean_source of None \<Rightarrow> False | Some (doc, errs) \<Rightarrow>
      map erSeverity errs = [SeverityWarning] \<and> length (docNodes doc) = 2 \<and>
      map tkKind (take 2 (docTokens doc)) = [TokenBlockComment, TokenConst]"
    by code_simp
  then obtain doc errs where p: "Parse clean_source = Some (doc, errs)"
    and e: "map erSeverity errs = [SeverityWarning]" and n: "length (docNodes doc) = 2"
      "map tkKind (take 2 (docTokens doc)) = [TokenBlockComment, TokenConst]"
    by (auto split: option.splits)
  have "set (map erSeverity errs) = {SeverityWarning}" "length (map erSeverity errs) = 1" using e by simp_all
  then show thesis using that[OF p _ _ n] by auto
qed

lemma Parse_clean_witness:
  "case Parse clean_source of None \<Rightarrow> False
   | Some (doc, errs) \<Rightarrow> length errs = 1 \<and> length (docNodes doc) = 2 \<and>
       doc_wf True doc \<and> tile_doc (docTokens doc) 0 (docNodes doc)"
proof (rule clean_source_parse)
  fix doc errs assume p: "Parse clean_source = Some (doc, errs)" "SeverityError \<notin> erSeverity ` set errs"
    and n: "length errs = 1" "length (docNodes doc) = 2"
  from Parse_clean[OF p] p n show ?thesis by simp
qed

lemma only_one:
  assumes "sorted_wrt (\<lambda>m n. f m < g n) xs" "xs \<noteq> []" "\<forall>n \<in> set xs. g n \<le> (t::nat) \<and> t \<le> f n"
  shows "length xs = 1"
proof (cases xs rule: remdups_adj.cases)
  case (3 x y zs)
  then have "f x < g y" "t \<le> f x" "g y \<le> t" using assms(1,3) by simp_all
  then show ?thesis by simp
qed (use assms(2) in simp_all)

lemma tile_covers:
  assumes "tile_doc toks i ns" "list_all (node_ok toks True) ns" "stream_ok toks" "i \<le> t" "real_tok toks t"
    "tkKind (toks ! t) \<noteq> TokenEOF"
  shows "\<exists>n \<in> set ns. TokStart n \<le> t \<and> t \<le> TokEnd n"
  using assms(1,2,4)
proof (induction ns arbitrary: i)
  case Nil
  have "NextReal toks i \<le> t" using assms(5) Nil.prems(3) by (intro NextReal_le) (auto simp: real_tok_def)
  moreover have "NextReal toks i = length toks - 1"
    using Nil.prems assms(3,5) by (intro eof_only_last) (auto simp: real_tok_def dest!: NextReal_real_tok[of toks i])
  ultimately show ?case
    using assms(3,5,6) by (auto simp: real_tok_def stream_ok_def last_conv_nth) (metis le_antisym less_Suc_eq_le Suc_pred length_greater_0_conv)
next
  case (Cons n ns)
  have "TokStart n \<le> t"
    using Cons.prems assms(5) NextReal_le[of i t toks] by (auto simp: real_tok_def)
  then show ?case using Cons.IH[of "Suc (TokEnd n)"] Cons.prems by (cases "t \<le> TokEnd n") auto
qed


text \<open>
  Without errors nothing of the source is lost in the tree: every token that
  is neither a comment nor the end of the input belongs to exactly one of the
  top-level nodes.
\<close>

lemma Parse_covers:
  assumes "Parse src = Some (doc, errs)" "SeverityError \<notin> erSeverity ` set errs"
    "real_tok (docTokens doc) t" "tkKind (docTokens doc ! t) \<noteq> TokenEOF"
  shows "length (filter (\<lambda>n. TokStart n \<le> t \<and> t \<le> TokEnd n) (docNodes doc)) = 1"
proof -
  have d: "docTokens doc = fst (Lex src)" "doc_wf True doc" "tile_doc (fst (Lex src)) 0 (docNodes doc)"
    using Parse_parts[OF assms(1)] assms(2) by simp_all
  have "\<exists>n \<in> set (docNodes doc). TokStart n \<le> t \<and> t \<le> TokEnd n"
    using d assms(3,4) Lex_stream_ok[of src] by (intro tile_covers[of "fst (Lex src)" 0]) (auto simp: doc_wf_def)
  then have one: "filter (\<lambda>n. TokStart n \<le> t \<and> t \<le> TokEnd n) (docNodes doc) \<noteq> []" by (auto simp: filter_empty_conv)
  have "sorted_wrt (\<lambda>m n. TokEnd m < TokStart n) (filter (\<lambda>n. TokStart n \<le> t \<and> t \<le> TokEnd n) (docNodes doc))"
    using d(2) by (simp add: doc_wf_def sorted_wrt_filter)
  then show ?thesis using one by (rule only_one[where t = t]) simp
qed

lemma Parse_covers_witness:
  "case Parse clean_source of None \<Rightarrow> False
   | Some (doc, errs) \<Rightarrow> length (filter (\<lambda>n. TokStart n \<le> 1 \<and> 1 \<le> TokEnd n) (docNodes doc)) = 1"
proof (rule clean_source_parse)
  fix doc errs assume p: "Parse clean_source = Some (doc, errs)" "SeverityError \<notin> erSeverity ` set errs"
    and "map tkKind (take 2 (docTokens doc)) = [TokenBlockComment, TokenConst]"
  then have "1 < length (docTokens doc)" "tkKind (docTokens doc ! 1) = TokenConst"
    by (cases "docTokens doc" rule: remdups_adj.cases; simp)+
  then have "real_tok (docTokens doc) 1" "tkKind (docTokens doc ! 1) \<noteq> TokenEOF"
    by (simp_all add: real_tok_def IsComment_def)
  from Parse_covers[OF p this] p show ?thesis by simp
qed

text \<open>
  C30: The diagnostics of \<open>Parse\<close> are sorted by offset and are exactly those of
  the two passes: the lexer's and the parser's, and each of the parser's stands
  at the place of a token of the stream.
\<close>

lemma Parse_errors:
  "\<exists>doc errs perrs. Parse src = Some (doc, errs) \<and> sorted (map erOffset errs) \<and>
     ParseTokens (fst (Lex src)) = Some (doc, perrs) \<and>
     mset errs = mset (snd (Lex src)) + mset perrs \<and> list_all (err_at (fst (Lex src))) perrs"
proof -
  obtain doc perrs where "Parse src = Some (doc, sort_key erOffset (snd (Lex src) @ perrs))"
    "ParseTokens (fst (Lex src)) = Some (doc, perrs)" "parse_result (fst (Lex src)) (doc, perrs)"
    by (rule Parse_cases)
  then show ?thesis
    by (intro exI[of _ doc] exI[of _ "sort_key erOffset (snd (Lex src) @ perrs)"] exI[of _ perrs])
      (simp add: parse_result_def)
qed

text \<open>
  A function without a type or a name that is the last one of its service
  takes the rest of the input with it: \<open>parseFunction\<close> synchronizes to an opening
  parenthesis or the end of the input, past the closing brace of the service, so
  that the recovery of \<open>parseService\<close>, which would stop at that brace, never sees
  it. Here the service spans all nine tokens, the struct behind it is not
  parsed, and the second diagnostic asks for the brace at the end of the input.
\<close>

lemma bad_function_swallows:
  "case Parse ''service S{zz} struct T{}'' of None \<Rightarrow> False
   | Some (doc, errs) \<Rightarrow> map (\<lambda>n. (TokStart n, TokEnd n)) (docNodes doc) = [(0, 8)] \<and>
       length (docTokens doc) = 10 \<and> map erOffset errs = [12, 24]"
  by code_simp

end
