(* ===== verification/AstVisit.thy ===== *)
theory AstVisit imports ParserProps
begin

text \<open>
  Traversal of the tree (\<open>syntax/ast_visit.go\<close>), the typed accessors of a
  document (\<open>syntax/accessors.go\<close>) and source positions (\<open>syntax/position.go\<close>).
  A traversal that meets a nil node or an index out of range is \<^const>\<open>None\<close>,
  the Go panic. A callback is a function on an explicit state; the accessors that
  only hand every element to a callback return the list of their calls.
\<close>

section \<open>Children\<close>

text \<open>The interface \<open>Node\<close> with all its dynamic types, the document included.\<close>

datatype AnyNode = A_Document Document | A_Node Node

definition any_start :: "AnyNode \<Rightarrow> nat" where
  "any_start n = (case n of A_Document d \<Rightarrow> 0 | A_Node m \<Rightarrow> TokStart m)"

definition any_end :: "AnyNode \<Rightarrow> nat" where
  "any_end n = (case n of A_Document d \<Rightarrow> length (docTokens d) - 1 | A_Node m \<Rightarrow> TokEnd m)"

text \<open>A pointer that is appended as it is, nil or not.\<close>

definition ptr :: "('a \<Rightarrow> Node) \<Rightarrow> 'a option \<Rightarrow> Node option list" where
  "ptr f x = [map_option f x]"

text \<open>A pointer that is appended unless it is nil.\<close>

definition unless_nil :: "('a \<Rightarrow> Node) \<Rightarrow> 'a option \<Rightarrow> Node option list" where
  "unless_nil f x = (case x of None \<Rightarrow> [] | Some y \<Rightarrow> [Some (f y)])"

definition all_of :: "('a \<Rightarrow> Node) \<Rightarrow> 'a list \<Rightarrow> Node option list" where
  "all_of f xs = map (\<lambda>x. Some (f x)) xs"

definition structuredChildren :: "StructuredAnnotation list \<Rightarrow> Node option list" where
  "structuredChildren annos = all_of N_StructuredAnnotation annos"

fun node_children :: "Node \<Rightarrow> Node option list" where
  "node_children (N_Const v) = structuredChildren (coStructured v) @
     ptr N_FieldType (coType v) @ ptr N_Identifier (coName v) @ ptr N_ConstValue (coValue v)"
| "node_children (N_Typedef v) = structuredChildren (tdStructured v) @
     ptr N_FieldType (tdType v) @ ptr N_Identifier (tdName v)"
| "node_children (N_Enum v) = structuredChildren (enStructured v) @
     ptr N_Identifier (enName v) @ all_of N_EnumValue (enValues v)"
| "node_children (N_EnumValue v) = ptr N_Identifier (evName v)"
| "node_children (N_Struct v) = structuredChildren (stStructured v) @
     ptr N_Identifier (stName v) @ all_of N_Field (stFields v)"
| "node_children (N_Service v) = structuredChildren (svStructured v) @
     ptr N_Identifier (svName v) @ unless_nil N_Identifier (svExtends v) @ all_of N_Function (svFunctions v)"
| "node_children (N_Function v) = structuredChildren (fnStructured v) @
     ptr N_Identifier (fnName v) @ unless_nil N_FieldType (fnType v) @ all_of N_Field (fnArgs v) @
     unless_nil N_Throws (fnThrows v)"
| "node_children (N_Throws v) = all_of N_Field (thFields v)"
| "node_children (N_Field v) = structuredChildren (fiStructured v) @
     ptr N_FieldType (fiType v) @ ptr N_Identifier (fiName v) @ unless_nil N_ConstValue (fiValue v)"
| "node_children (N_FieldType v) = unless_nil N_Identifier (ftIdent v) @
     unless_nil N_FieldType (ftKeyType v) @ unless_nil N_FieldType (ftValueType v)"
| "node_children (N_ConstValue v) = all_of N_ConstValue (cvList v) @
     concat (map (\<lambda>e. [Some (N_ConstValue (cmKey e)), Some (N_ConstValue (cmValue e))]) (cvMap v))"
| "node_children (N_Namespace v) = structuredChildren (nsStructured v) @ ptr N_Identifier (nsName v)"
| "node_children (N_Include v) = []"
| "node_children (N_CPPInclude v) = []"
| "node_children (N_Identifier v) = []"
| "node_children (N_Annotation v) = []"
| "node_children (N_Annotations v) = []"
| "node_children (N_StructuredAnnotation v) = ptr N_Identifier (saName v)"

definition nodeChildren :: "AnyNode \<Rightarrow> AnyNode option list" where
  "nodeChildren n = (case n of
     A_Document d \<Rightarrow> map (\<lambda>m. Some (A_Node m)) (docNodes d)
   | A_Node m \<Rightarrow> map (map_option A_Node) (node_children m))"

text \<open>\<open>for _, child := range children\<close>, with a body that may panic.\<close>

fun each :: "('n \<Rightarrow> 's \<Rightarrow> 's option) \<Rightarrow> 'n option list \<Rightarrow> 's \<Rightarrow> 's option" where
  "each f [] s = Some s"
| "each f (None # cs) s = None"
| "each f (Some c # cs) s = Option.bind (f c s) (each f cs)"

lemma each_cong [fundef_cong]:
  "cs = cs' \<Longrightarrow> (\<And>c t. Some c \<in> set cs' \<Longrightarrow> f c t = g c t) \<Longrightarrow> s = s' \<Longrightarrow> each f cs s = each g cs' s'"
proof (induction cs arbitrary: cs' s s')
  case (Cons c cs)
  then have "each f cs t = each g cs t" for t by (intro Cons.IH) auto
  then show ?case using Cons.prems by (cases c) (auto intro!: Option.bind_cong)
qed auto

lemma children_mem [simp]:
  "Some c \<in> set (ptr f x) \<longleftrightarrow> (\<exists>y. x = Some y \<and> c = f y)"
  "Some c \<in> set (unless_nil f x) \<longleftrightarrow> (\<exists>y. x = Some y \<and> c = f y)"
  "Some c \<in> set (all_of f xs) \<longleftrightarrow> c \<in> f ` set xs"
  "Some c \<in> set (structuredChildren annos) \<longleftrightarrow> c \<in> N_StructuredAnnotation ` set annos"
  "None \<in> set (ptr f x) \<longleftrightarrow> x = None" "None \<notin> set (unless_nil f x)" "None \<notin> set (all_of f xs)"
  "None \<notin> set (structuredChildren annos)"
  by (cases x; auto simp: ptr_def unless_nil_def all_of_def structuredChildren_def)+

section \<open>Well-foundedness\<close>

text \<open>The children of a node are smaller: by the kind of node, and by size within types and constants.\<close>

fun node_rank :: "Node \<Rightarrow> nat" where
  "node_rank (N_Service v) = 8"
| "node_rank (N_Function v) = 7"
| "node_rank (N_Throws v) = 6"
| "node_rank (N_Struct v) = 6"
| "node_rank (N_Enum v) = 6"
| "node_rank (N_Const v) = 6"
| "node_rank (N_Typedef v) = 6"
| "node_rank (N_Namespace v) = 6"
| "node_rank (N_Field v) = 5"
| "node_rank (N_EnumValue v) = 5"
| "node_rank (N_StructuredAnnotation v) = 4"
| "node_rank (N_FieldType v) = 3"
| "node_rank (N_ConstValue v) = 3"
| "node_rank (N_Annotations v) = 2"
| "node_rank (N_Annotation v) = 1"
| "node_rank (N_Include v) = 0"
| "node_rank (N_CPPInclude v) = 0"
| "node_rank (N_Identifier v) = 0"

fun node_size :: "Node \<Rightarrow> nat" where
  "node_size (N_FieldType v) = size v"
| "node_size (N_ConstValue v) = size v"
| "node_size n = 0"

fun any_rank :: "AnyNode \<Rightarrow> nat" where
  "any_rank (A_Document d) = 9"
| "any_rank (A_Node n) = node_rank n"

fun any_size :: "AnyNode \<Rightarrow> nat" where
  "any_size (A_Document d) = 0"
| "any_size (A_Node n) = node_size n"

lemma type_size: "ftKeyType v = Some y \<Longrightarrow> size y < size v" "ftValueType v = Some y \<Longrightarrow> size y < size v"
  by (cases v; simp)+

lemma value_size:
  "y \<in> set (cvList v) \<Longrightarrow> size y < size v"
  "e \<in> set (cvMap v) \<Longrightarrow> size (cmKey e) < size v \<and> size (cmValue e) < size v"
proof -
  show "y \<in> set (cvList v) \<Longrightarrow> size y < size v"
    by (cases v) (auto dest!: size_list_estimation'[where f = size, OF _ order_refl])
  show "e \<in> set (cvMap v) \<Longrightarrow> size (cmKey e) < size v \<and> size (cmValue e) < size v"
    by (cases v; cases e) (auto dest!: size_list_estimation'[where f = size, OF _ order_refl])
qed

lemma child_smaller:
  "Some c \<in> set (node_children n) \<Longrightarrow> node_rank c < node_rank n \<or> node_rank c = node_rank n \<and> node_size c < node_size n"
  by (cases n) (auto simp: type_size value_size)

lemma some_map_option [simp]: "Some c \<in> map_option f ` A \<longleftrightarrow> (\<exists>y. Some y \<in> A \<and> c = f y)"
  by (auto simp: image_iff map_option_case split: option.splits intro: bexI[of _ "Some y" for y])

lemma toplevel_rank: "node_rank n < 9"
  by (cases n) auto

lemma any_child_smaller:
  "Some c \<in> set (nodeChildren n) \<Longrightarrow> (c, n) \<in> measures [any_rank, any_size]"
  using toplevel_rank by (cases n) (auto simp: nodeChildren_def dest!: child_smaller)

section \<open>Walk\<close>

text \<open>
  \<open>visit\<close> works on a state of its own: it returns whether to descend and the
  next state.
\<close>

function Walk :: "(AnyNode \<Rightarrow> 's \<Rightarrow> bool \<times> 's) \<Rightarrow> AnyNode \<Rightarrow> 's \<Rightarrow> 's option" where
  "Walk visit n s =
     (let (descend, s) = visit n s in
      if \<not> descend then Some s else each (\<lambda>child s. Walk visit child s) (nodeChildren n) s)"
  by pat_completeness auto
termination
  by (relation "inv_image (measures [any_rank, any_size]) (\<lambda>(v, n, s). n)")
    (auto dest: any_child_smaller)

declare Walk.simps [simp del]

text \<open>The nodes of a tree in preorder, the reference for \<open>Walk\<close>.\<close>

function preorder :: "AnyNode \<Rightarrow> AnyNode list" where
  "preorder n = n # concat (map (\<lambda>c. case c of None \<Rightarrow> [] | Some m \<Rightarrow> preorder m) (nodeChildren n))"
  by pat_completeness auto
termination
  by (relation "measures [any_rank, any_size]") (auto dest: any_child_smaller)

declare preorder.simps [simp del]

section \<open>Positions\<close>

record Position =
  poLine :: nat
  poCol :: nat
  poOffset :: nat

definition InvalidPosition :: Position where
  "InvalidPosition = \<lparr>poLine = 0, poCol = 0, poOffset = 0\<rparr>"

definition IsValid :: "Position \<Rightarrow> bool" where
  "IsValid p \<longleftrightarrow> poLine p > 0"

definition TokenPosition :: "Document \<Rightarrow> nat \<Rightarrow> Position option" where
  "TokenPosition d i = (if i < length (docTokens d)
     then (let t = docTokens d ! i in Some \<lparr>poLine = tkLine t, poCol = tkCol t, poOffset = tkOffset t\<rparr>)
     else None)"

definition TokenEndPosition :: "Document \<Rightarrow> nat \<Rightarrow> Position option" where
  "TokenEndPosition d i = (if i < length (docTokens d)
     then (let t = docTokens d ! i in
       Some \<lparr>poLine = tkLine t, poCol = tkCol t + rune_count (tkText t), poOffset = tkOffset t + length (tkText t)\<rparr>)
     else None)"

text \<open>A token pointer is an index of the stream or nil; a foreign pointer is an index beyond it.\<close>

definition TokenIndex :: "Document \<Rightarrow> nat option \<Rightarrow> nat" where
  "TokenIndex d t = (case t of None \<Rightarrow> 0 | Some i \<Rightarrow> if i < length (docTokens d) then i else 0)"

definition TokenRange :: "Document \<Rightarrow> nat option \<Rightarrow> (Position \<times> Position) option" where
  "TokenRange d t = do {
     let i = TokenIndex d t;
     s \<leftarrow> TokenPosition d i;
     e \<leftarrow> TokenEndPosition d i;
     Some (s, e) }"

definition Range :: "Document \<Rightarrow> AnyNode \<Rightarrow> (Position \<times> Position) option" where
  "Range d n = do {
     s \<leftarrow> TokenPosition d (any_start n);
     e \<leftarrow> TokenEndPosition d (any_end n);
     Some (s, e) }"

definition Contains :: "Document \<Rightarrow> AnyNode \<Rightarrow> Position \<Rightarrow> bool option" where
  "Contains d n pos = do {
     (s, e) \<leftarrow> Range d n;
     Some (poOffset pos \<ge> poOffset s \<and> poOffset pos \<le> poOffset e) }"

section \<open>Position search\<close>

function searchNodePath :: "Document \<Rightarrow> AnyNode \<Rightarrow> Position \<Rightarrow> AnyNode list \<Rightarrow> AnyNode list option" where
  "searchNodePath d root pos path = do {
     b \<leftarrow> Contains d root pos;
     if \<not> b then Some path
     else each (\<lambda>child path. searchNodePath d child pos path) (nodeChildren root) (path @ [root]) }"
  by pat_completeness auto
termination
  by (relation "inv_image (measures [any_rank, any_size]) (\<lambda>(d, n, pos, path). n)")
    (auto dest: any_child_smaller)

declare searchNodePath.simps [simp del]

definition SearchNodePathByPosition :: "Document \<Rightarrow> Position \<Rightarrow> AnyNode list option" where
  "SearchNodePathByPosition d pos = searchNodePath d (A_Document d) pos []"

section \<open>Typed accessors\<close>

definition Includes :: "Document \<Rightarrow> Include list" where
  "Includes d = [v. N_Include v \<leftarrow> docNodes d]"

definition CPPIncludes :: "Document \<Rightarrow> CPPInclude list" where
  "CPPIncludes d = [v. N_CPPInclude v \<leftarrow> docNodes d]"

definition Namespaces :: "Document \<Rightarrow> Namespace list" where
  "Namespaces d = [v. N_Namespace v \<leftarrow> docNodes d]"

definition Structs :: "Document \<Rightarrow> Struct list" where
  "Structs d = [v. N_Struct v \<leftarrow> docNodes d, stKind v = StructDecl]"

definition Unions :: "Document \<Rightarrow> Struct list" where
  "Unions d = [v. N_Struct v \<leftarrow> docNodes d, stKind v = UnionDecl]"

definition Exceptions :: "Document \<Rightarrow> Struct list" where
  "Exceptions d = [v. N_Struct v \<leftarrow> docNodes d, stKind v = ExceptionDecl]"

definition Enums :: "Document \<Rightarrow> Enum list" where
  "Enums d = [v. N_Enum v \<leftarrow> docNodes d]"

definition Services :: "Document \<Rightarrow> Service list" where
  "Services d = [v. N_Service v \<leftarrow> docNodes d]"

definition Consts :: "Document \<Rightarrow> Const list" where
  "Consts d = [v. N_Const v \<leftarrow> docNodes d]"

definition Typedefs :: "Document \<Rightarrow> Typedef list" where
  "Typedefs d = [v. N_Typedef v \<leftarrow> docNodes d]"

datatype FieldListKind = StructFields | UnionFields | ExceptionFields | FunctionArgs | ThrowsFields

text \<open>The calls of the callback, in order.\<close>

definition WalkFieldLists :: "Document \<Rightarrow> (Field list \<times> FieldListKind) list" where
  "WalkFieldLists d =
     map (\<lambda>st. (stFields st, StructFields)) (Structs d) @
     map (\<lambda>un. (stFields un, UnionFields)) (Unions d) @
     map (\<lambda>ex. (stFields ex, ExceptionFields)) (Exceptions d) @
     concat (map (\<lambda>svc. concat (map (\<lambda>fnx. (fnArgs fnx, FunctionArgs) #
       (case fnThrows fnx of None \<Rightarrow> [] | Some t \<Rightarrow> [(thFields t, ThrowsFields)])) (svFunctions svc))) (Services d))"

definition visitFields :: "Field list \<Rightarrow> StructuredAnnotation list" where
  "visitFields fs = concat (map fiStructured fs)"

fun node_structured_calls :: "Node \<Rightarrow> StructuredAnnotation list" where
  "node_structured_calls (N_Namespace v) = nsStructured v"
| "node_structured_calls (N_Const v) = coStructured v"
| "node_structured_calls (N_Typedef v) = tdStructured v"
| "node_structured_calls (N_Enum v) = enStructured v"
| "node_structured_calls (N_Struct v) = stStructured v @ visitFields (stFields v)"
| "node_structured_calls (N_Service v) = svStructured v @
     concat (map (\<lambda>fnx. fnStructured fnx @ visitFields (fnArgs fnx) @
       (case fnThrows fnx of None \<Rightarrow> [] | Some t \<Rightarrow> visitFields (thFields t))) (svFunctions v))"
| "node_structured_calls n = []"

definition EachStructuredAnnotation :: "Document \<Rightarrow> StructuredAnnotation list" where
  "EachStructuredAnnotation d = concat (map node_structured_calls (docNodes d))"

text \<open>\<open>visit\<close>, which skips a nil group, and \<open>visitType\<close>, which skips a nil type.\<close>

definition visit_group :: "Annotations option \<Rightarrow> Annotations list" where
  "visit_group a = (case a of None \<Rightarrow> [] | Some x \<Rightarrow> [x])"

fun visit_type :: "FieldType \<Rightarrow> Annotations list" where
  "visit_type (FieldType b k t i key val cpp an) = visit_group an @
     (case key of None \<Rightarrow> [] | Some ty \<Rightarrow> visit_type ty) @
     (case val of None \<Rightarrow> [] | Some ty \<Rightarrow> visit_type ty)"

definition visitType :: "FieldType option \<Rightarrow> Annotations list" where
  "visitType t = (case t of None \<Rightarrow> [] | Some ty \<Rightarrow> visit_type ty)"

definition visit_fields :: "Field list \<Rightarrow> Annotations list" where
  "visit_fields fs = concat (map (\<lambda>f. visit_group (fiAnnotations f) @ visitType (fiType f)) fs)"

fun node_annotation_calls :: "Node \<Rightarrow> Annotations list" where
  "node_annotation_calls (N_Namespace v) = visit_group (nsAnnotations v)"
| "node_annotation_calls (N_Typedef v) = visit_group (tdAnnotations v) @ visitType (tdType v)"
| "node_annotation_calls (N_Const v) = visitType (coType v)"
| "node_annotation_calls (N_Enum v) = visit_group (enAnnotations v) @
     concat (map (\<lambda>ev. visit_group (evAnnotations ev)) (enValues v))"
| "node_annotation_calls (N_Struct v) = visit_group (stAnnotations v) @ visit_fields (stFields v)"
| "node_annotation_calls (N_Service v) = visit_group (svAnnotations v) @
     concat (map (\<lambda>fnx. visit_group (fnAnnotations fnx) @ visitType (fnType fnx) @ visit_fields (fnArgs fnx) @
       (case fnThrows fnx of None \<Rightarrow> [] | Some t \<Rightarrow> visit_fields (thFields t))) (svFunctions v))"
| "node_annotation_calls n = []"

definition EachAnnotation :: "Document \<Rightarrow> Annotations list" where
  "EachAnnotation d = concat (map node_annotation_calls (docNodes d))"

end
