(* ===== verification/VisitProps.thy ===== *)
theory VisitProps imports AstVisit
begin

text \<open>
  Properties of the traversals on the trees that \<open>Parse\<close> returns.
\<close>

section \<open>No nil children\<close>

lemma children_not_nil: "node_shape toks s n \<Longrightarrow> None \<notin> set (node_children n)"
  by (cases n) auto

lemma children_parts: "Some c \<in> set (node_children n) \<Longrightarrow> P_node c \<in> set (node_parts n)"
  by (cases n) (auto simp: entry_parts_def opt_def)

lemma node_ok_child: "node_ok toks s n \<Longrightarrow> Some c \<in> set (node_children n) \<Longrightarrow> node_ok toks s c"
  by (auto elim!: node_ok.cases dest: children_parts)

lemma node_ok_not_nil: "node_ok toks s n \<Longrightarrow> None \<notin> set (node_children n)"
  by (auto elim!: node_ok.cases dest!: children_not_nil)

definition any_ok :: "Token list \<Rightarrow> AnyNode \<Rightarrow> bool" where
  "any_ok toks n = (case n of A_Document d \<Rightarrow> docTokens d = toks \<and> doc_wf False d | A_Node m \<Rightarrow> node_ok toks False m)"

lemma any_ok_children:
  assumes "any_ok toks n"
  shows "None \<notin> set (nodeChildren n)" "Some c \<in> set (nodeChildren n) \<Longrightarrow> any_ok toks c"
  using assms node_ok_not_nil node_ok_child
  by (auto simp: any_ok_def nodeChildren_def doc_wf_def list_all_iff split: AnyNode.splits)

lemma each_total:
  "None \<notin> set cs \<Longrightarrow> (\<And>c t. Some c \<in> set cs \<Longrightarrow> \<exists>u. f c t = Some u) \<Longrightarrow> \<exists>u. each f cs s = Some u"
proof (induction cs arbitrary: s)
  case (Cons c cs)
  then show ?case by (cases c) (auto, metis bind.bind_lunit)
qed simp

lemma Walk_ok: "any_ok toks n \<Longrightarrow> \<exists>u. Walk visit n s = Some u"
proof (induction visit n s rule: Walk.induct)
  case (1 visit n s)
  obtain b t where v: "visit n s = (b, t)" by fastforce
  show ?case using 1 any_ok_children[OF 1(2)] v
    by (auto simp: Walk.simps[of visit n s] intro!: each_total)
qed

lemma Parse_any_ok: "case Parse src of None \<Rightarrow> False | Some (doc, errs) \<Rightarrow> any_ok (docTokens doc) (A_Document doc)"
  by (rule Parse_cases[of src]) (simp add: parse_result_def any_ok_def)

text \<open>
  \<open>Walk\<close> never dereferences a nil node on a tree of the parser, whatever the
  errors in the source and whatever the visitor does.
\<close>

lemma Walk_total:
  "case Parse src of None \<Rightarrow> False | Some (doc, errs) \<Rightarrow> Walk visit (A_Document doc) s \<noteq> None"
  using Parse_any_ok[of src] Walk_ok[of _ "A_Document _" visit s] by (fastforce split: option.splits)

section \<open>Walk is the preorder traversal\<close>

lemma each_fold:
  "None \<notin> set cs \<Longrightarrow> (\<And>c t. Some c \<in> set cs \<Longrightarrow> f c t = Some (fold g (h c) t)) \<Longrightarrow>
   each f cs s = Some (fold g (concat (map (\<lambda>c. case c of None \<Rightarrow> [] | Some m \<Rightarrow> h m) cs)) s)"
proof (induction cs arbitrary: s)
  case (Cons c cs)
  then show ?case by (cases c) auto
qed simp

lemma Walk_fold:
  "any_ok toks n \<Longrightarrow> Walk (\<lambda>n t. (True, g n t)) n s = Some (fold g (preorder n) s)"
proof (induction n arbitrary: s rule: preorder.induct)
  case (1 n)
  have "each (\<lambda>c. Walk (\<lambda>n t. (True, g n t)) c) (nodeChildren n) t =
      Some (fold g (concat (map (\<lambda>c. case c of None \<Rightarrow> [] | Some m \<Rightarrow> preorder m) (nodeChildren n))) t)" for t
    using any_ok_children[OF 1(2)] 1(1) by (intro each_fold) auto
  then show ?case by (simp add: Walk.simps[of _ n] preorder.simps[of n])
qed

lemma fold_snoc: "fold (\<lambda>n t. t @ [n]) ns s = s @ ns"
  by (induction ns arbitrary: s) auto

lemma each_append:
  "None \<notin> set cs \<Longrightarrow> (\<And>c t. Some c \<in> set cs \<Longrightarrow> f c t = Some (t @ h c)) \<Longrightarrow>
   each f cs s = Some (s @ concat (map (\<lambda>c. case c of None \<Rightarrow> [] | Some m \<Rightarrow> h m) cs))"
  using each_fold[of cs f "\<lambda>n t. t @ [n]" h s] by (simp add: fold_snoc)

text \<open>
  \<open>Walk\<close> is the preorder traversal it documents: a visitor that always
  descends sees every node exactly as \<open>preorder\<close> lists them.
\<close>

lemma Walk_preorder:
  "case Parse src of None \<Rightarrow> False
   | Some (doc, errs) \<Rightarrow> Walk (\<lambda>n t. (True, t @ [n])) (A_Document doc) [] = Some (preorder (A_Document doc))"
  using Parse_any_ok[of src] Walk_fold[of _ "A_Document _" "\<lambda>n t. t @ [n]" "[]"] by (auto simp: fold_snoc split: option.splits)

section \<open>Position search\<close>

lemma chain_member: "chain lo hi ps \<Longrightarrow> p \<in> set ps \<Longrightarrow> lo \<le> part_first p \<and> part_last p < hi"
proof (induction ps arbitrary: lo)
  case (Cons a ps)
  have "Suc (part_last a) \<le> part_first p \<and> part_last p < hi" if "p \<noteq> a"
    using that Cons.prems by (intro Cons.IH) auto
  then show ?case using Cons.prems(1) by (cases "p = a") (auto dest: Suc_leD)
qed simp

lemma child_span:
  assumes "any_ok toks n" "Some c \<in> set (nodeChildren n)"
  shows "any_start n \<le> any_start c \<and> any_end c \<le> any_end n"
proof (cases n)
  case (A_Document d)
  then obtain m where "c = A_Node m" "node_ok (docTokens d) False m"
    using assms by (auto simp: nodeChildren_def any_ok_def doc_wf_def list_all_iff)
  then show ?thesis using A_Document
    by (auto simp: any_start_def any_end_def real_tok_def elim!: node_ok.cases)
next
  case (A_Node m)
  then obtain k where k: "c = A_Node k" "Some k \<in> set (node_children m)" "node_ok toks False m"
    using assms by (auto simp: nodeChildren_def any_ok_def)
  have "chain (TokStart m) (Suc (TokEnd m)) (node_parts m)" using k(3) by (auto elim: node_ok.cases)
  from chain_member[OF this children_parts[OF k(2)]] show ?thesis
    using A_Node k(1) by (simp add: any_start_def any_end_def)
qed

lemma any_ok_range: "any_ok toks n \<Longrightarrow> toks \<noteq> [] \<Longrightarrow> any_start n < length toks \<and> any_end n < length toks"
  by (cases n) (auto simp: any_ok_def any_start_def any_end_def real_tok_def elim!: node_ok.cases)

lemma preorder_nested:
  "m \<in> set (preorder n) \<Longrightarrow> any_ok toks n \<Longrightarrow>
   any_ok toks m \<and> any_start n \<le> any_start m \<and> any_end m \<le> any_end n"
proof (induction n rule: preorder.induct)
  case (1 n)
  show ?case
  proof (cases "m = n")
    case False
    then obtain c where c: "Some c \<in> set (nodeChildren n)" "m \<in> set (preorder c)"
      using 1(2) by (auto simp: preorder.simps[of n] split: option.splits)
    have "any_ok toks m \<and> any_start c \<le> any_start m \<and> any_end m \<le> any_end c"
      using 1(1)[OF c(1) refl c(2)] any_ok_children(2)[OF 1(3) c(1)] by simp
    then show ?thesis using child_span[OF 1(3) c(1)] by auto
  qed (use 1(3) in simp)
qed

definition ordered :: "Token list \<Rightarrow> bool" where
  "ordered toks \<longleftrightarrow> sorted_wrt (\<lambda>t u. tkEnd t \<le> tkOffset u) toks"

lemma ordered_le:
  assumes "ordered toks" "i \<le> j" "j < length toks"
  shows "tkOffset (toks ! i) \<le> tkOffset (toks ! j)" "tkEnd (toks ! i) \<le> tkEnd (toks ! j)"
proof -
  have "tkEnd (toks ! i) \<le> tkOffset (toks ! j)" if "i \<noteq> j"
    using assms that by (simp add: ordered_def sorted_wrt_iff_nth_less)
  then show "tkOffset (toks ! i) \<le> tkOffset (toks ! j)" "tkEnd (toks ! i) \<le> tkEnd (toks ! j)"
    by (cases "i = j"; simp add: tkEnd_def)+
qed

lemma Contains_ok:
  "any_ok (docTokens d) n \<Longrightarrow> docTokens d \<noteq> [] \<Longrightarrow>
   Contains d n pos = Some (tkOffset (docTokens d ! any_start n) \<le> poOffset pos \<and>
     poOffset pos \<le> tkEnd (docTokens d ! any_end n))"
  using any_ok_range[of "docTokens d" n]
  by (simp add: Contains_def Range_def TokenPosition_def TokenEndPosition_def Let_def tkEnd_def)

lemma Contains_nested:
  assumes "any_ok (docTokens d) n" "any_ok (docTokens d) m" "docTokens d \<noteq> []" "ordered (docTokens d)"
    "any_start n \<le> any_start m" "any_end m \<le> any_end n" "Contains d m pos = Some True"
  shows "Contains d n pos = Some True"
  using assms any_ok_range[of "docTokens d"] ordered_le[of "docTokens d"]
  by (simp add: Contains_ok) (meson le_trans)

lemma search_spec:
  "any_ok (docTokens d) n \<Longrightarrow> docTokens d \<noteq> [] \<Longrightarrow> ordered (docTokens d) \<Longrightarrow>
   searchNodePath d n pos path = Some (path @ filter (\<lambda>m. Contains d m pos = Some True) (preorder n))"
proof (induction n arbitrary: path rule: preorder.induct)
  case (1 n)
  let ?P = "\<lambda>m. Contains d m pos = Some True"
  show ?case
  proof (cases "?P n")
    case False
    then have "\<not> ?P m" if "m \<in> set (preorder n)" for m
      using Contains_nested[OF 1(2) _ 1(3,4)] preorder_nested[OF that 1(2)] by blast
    then have "filter ?P (preorder n) = []" by (simp add: filter_empty_conv)
    moreover have "Contains d n pos = Some False" using False Contains_ok[OF 1(2,3), of pos] by simp
    ultimately show ?thesis by (simp add: searchNodePath.simps[of d n])
  next
    case True
    have "each (\<lambda>c path. searchNodePath d c pos path) (nodeChildren n) t = Some (t @
        concat (map (\<lambda>c. case c of None \<Rightarrow> [] | Some m \<Rightarrow> filter ?P (preorder m)) (nodeChildren n)))" for t
      using any_ok_children[OF 1(2)] 1 by (intro each_append) auto
    moreover have "filter ?P (concat (map (\<lambda>c. case c of None \<Rightarrow> [] | Some m \<Rightarrow> preorder m) (nodeChildren n))) =
        concat (map (\<lambda>c. case c of None \<Rightarrow> [] | Some m \<Rightarrow> filter ?P (preorder m)) (nodeChildren n))"
      by (auto simp: filter_concat intro!: arg_cong[of _ _ concat] split: option.splits)
    ultimately show ?thesis using True by (simp add: searchNodePath.simps[of d n] preorder.simps[of n])
  qed
qed

lemma Lex_sorted: "sorted_wrt (\<lambda>t u. tkEnd t \<le> tkOffset u) (fst (Lex src))"
proof -
  obtain ts e where "fst (Lex src) = ts @ [e]" "tiles (snd (Lex src) = []) src 0 ts (length src)"
    "tkOffset e = length src" by (rule Lex_tiles)
  then show ?thesis using tiles_sorted by (fastforce simp: sorted_wrt_append)
qed

text \<open>
  \<open>SearchNodePathByPosition\<close> never panics on a parsed document and returns
  exactly the nodes whose span holds the position, in preorder, although it
  cuts off every subtree whose root does not.
\<close>

lemma Search_filter:
  "case Parse src of None \<Rightarrow> False
   | Some (doc, errs) \<Rightarrow> SearchNodePathByPosition doc pos =
       Some (filter (\<lambda>n. Contains doc n pos = Some True) (preorder (A_Document doc)))"
proof -
  have o: "ordered (fst (Lex src))" "fst (Lex src) \<noteq> []"
    using Lex_sorted Lex_stream_ok[of src] by (auto simp: ordered_def stream_ok_def)
  show ?thesis
    by (rule Parse_cases[of src])
      (use o in \<open>simp add: SearchNodePathByPosition_def search_spec parse_result_def any_ok_def\<close>)
qed

section \<open>The accessors against the traversal\<close>

text \<open>What a selection collects from the tree below a node.\<close>

definition collect :: "(AnyNode \<Rightarrow> 'a list) \<Rightarrow> AnyNode \<Rightarrow> 'a list" where
  "collect f n = concat (map f (preorder n))"

definition collect_opt :: "(AnyNode \<Rightarrow> 'a list) \<Rightarrow> Node option \<Rightarrow> 'a list" where
  "collect_opt f c = (case c of None \<Rightarrow> [] | Some m \<Rightarrow> collect f (A_Node m))"

lemma concat_map_nested: "concat (map f (concat (map g xs))) = concat (map (\<lambda>x. concat (map f (g x))) xs)"
  by (induction xs) auto

lemma collect_node: "collect f (A_Node n) = f (A_Node n) @ concat (map (collect_opt f) (node_children n))"
  unfolding collect_def preorder.simps[of "A_Node n"]
  by (auto simp: nodeChildren_def concat_map_nested collect_opt_def collect_def intro!: arg_cong[of _ _ concat]
      split: option.splits)

lemma collect_document: "collect f (A_Document d) = f (A_Document d) @ concat (map (\<lambda>n. collect f (A_Node n)) (docNodes d))"
  unfolding collect_def preorder.simps[of "A_Document d"]
  by (simp add: nodeChildren_def concat_map_nested collect_def comp_def)

lemma collect_lists [simp]:
  "concat (map (collect_opt f) (ptr g x)) = (case x of None \<Rightarrow> [] | Some y \<Rightarrow> collect f (A_Node (g y)))"
  "concat (map (collect_opt f) (unless_nil g x)) = (case x of None \<Rightarrow> [] | Some y \<Rightarrow> collect f (A_Node (g y)))"
  "concat (map (collect_opt f) (all_of g xs)) = concat (map (\<lambda>x. collect f (A_Node (g x))) xs)"
  by (auto simp: ptr_def unless_nil_def all_of_def collect_opt_def comp_def split: option.splits)

text \<open>Names, types and constants hold neither fields nor structured annotations.\<close>

definition quiet :: "(AnyNode \<Rightarrow> 'a list) \<Rightarrow> bool" where
  "quiet f \<longleftrightarrow> (\<forall>x. f (A_Node (N_Identifier x)) = []) \<and> (\<forall>x. f (A_Node (N_FieldType x)) = []) \<and>
     (\<forall>x. f (A_Node (N_ConstValue x)) = [])"

lemma collect_Identifier: "quiet f \<Longrightarrow> collect f (A_Node (N_Identifier x)) = []"
  by (simp add: collect_node quiet_def)

lemma collect_FieldType: "quiet f \<Longrightarrow> collect f (A_Node (N_FieldType t)) = []"
proof (induction t rule: measure_induct_rule[of size])
  case (less t)
  then have "f (A_Node (N_FieldType t)) = []" by (simp add: quiet_def)
  then show ?case
    using less collect_Identifier[OF less(2)]
    by (auto simp: collect_node[of f "N_FieldType t"] type_size split: option.splits)
qed

lemma collect_ConstValue: "quiet f \<Longrightarrow> collect f (A_Node (N_ConstValue v)) = []"
proof (induction v rule: measure_induct_rule[of size])
  case (less v)
  then have "f (A_Node (N_ConstValue v)) = []" by (simp add: quiet_def)
  then show ?case
    using less by (auto simp: collect_node[of f "N_ConstValue v"] value_size collect_opt_def)
qed

lemma collect_quiet:
  assumes "quiet f"
  shows "collect f (A_Node (N_Identifier i)) = []"
    "(case x of None \<Rightarrow> [] | Some y \<Rightarrow> collect f (A_Node (N_Identifier y))) = []"
    "(case t of None \<Rightarrow> [] | Some y \<Rightarrow> collect f (A_Node (N_FieldType y))) = []"
    "(case v of None \<Rightarrow> [] | Some y \<Rightarrow> collect f (A_Node (N_ConstValue y))) = []"
  using assms by (auto simp: collect_Identifier collect_FieldType collect_ConstValue split: option.splits)

lemmas collect_nodes = collect_node[of f "N_Include x" for f x] collect_node[of f "N_CPPInclude x" for f x]
  collect_node[of f "N_Namespace x" for f x] collect_node[of f "N_Const x" for f x]
  collect_node[of f "N_Typedef x" for f x] collect_node[of f "N_Enum x" for f x]
  collect_node[of f "N_EnumValue x" for f x] collect_node[of f "N_Struct x" for f x]
  collect_node[of f "N_Service x" for f x] collect_node[of f "N_Function x" for f x]
  collect_node[of f "N_Throws x" for f x]

definition sel_structured :: "AnyNode \<Rightarrow> StructuredAnnotation list" where
  "sel_structured n = (case n of A_Node (N_StructuredAnnotation a) \<Rightarrow> [a] | _ \<Rightarrow> [])"

lemma sel_structured_simps [simp]: "quiet sel_structured"
  by (simp add: quiet_def sel_structured_def)

lemma collect_annotation [simp]: "collect sel_structured (A_Node (N_StructuredAnnotation a)) = [a]"
  by (simp add: collect_node[of _ "N_StructuredAnnotation a"] collect_quiet sel_structured_def)

lemma collect_structured [simp]:
  "concat (map (collect_opt sel_structured) (structuredChildren annos)) = annos"
  by (simp add: structuredChildren_def)

lemma collect_field [simp]: "collect sel_structured (A_Node (N_Field x)) = fiStructured x"
  by (simp add: collect_node[of _ "N_Field x"] collect_quiet sel_structured_def)

lemma toplevel_structured: "toplevel n \<Longrightarrow> collect sel_structured (A_Node n) = node_structured_calls n"
  by (cases n)
    (auto simp: collect_nodes collect_quiet sel_structured_def visitFields_def
      intro!: arg_cong[of _ _ concat] split: option.splits)

text \<open>
  \<open>EachStructuredAnnotation\<close> visits exactly the structured annotations that
  \<open>Walk\<close> reaches, in the same order.
\<close>

lemma EachStructuredAnnotation_walk:
  "case Parse src of None \<Rightarrow> False
   | Some (doc, errs) \<Rightarrow> EachStructuredAnnotation doc =
       [a. A_Node (N_StructuredAnnotation a) \<leftarrow> preorder (A_Document doc)]"
proof -
  have "EachStructuredAnnotation doc = collect sel_structured (A_Document doc)" if "doc_wf s doc" for s doc
    using that by (auto simp: collect_document EachStructuredAnnotation_def doc_wf_def list_all_iff
        toplevel_structured sel_structured_def intro!: arg_cong[of _ _ concat])
  moreover have "collect sel_structured n = [a. A_Node (N_StructuredAnnotation a) \<leftarrow> preorder n]" for n
    unfolding collect_def by (rule arg_cong[of _ _ concat]) (auto simp: sel_structured_def split: AnyNode.splits Node.splits)
  ultimately show ?thesis by (rule_tac Parse_cases[of src]) (auto simp: parse_result_def)
qed

definition sel_field :: "AnyNode \<Rightarrow> Field list" where
  "sel_field n = (case n of A_Node (N_Field f) \<Rightarrow> [f] | _ \<Rightarrow> [])"

lemma sel_field_quiet [simp]: "quiet sel_field"
  by (simp add: quiet_def sel_field_def)

lemma collect_no_fields [simp]: "concat (map (collect_opt sel_field) (structuredChildren annos)) = []"
  by (auto simp: structuredChildren_def collect_node[of _ "N_StructuredAnnotation x" for x] collect_quiet sel_field_def)

lemma collect_sel_field [simp]: "collect sel_field (A_Node (N_Field x)) = [x]"
  by (simp add: collect_node[of _ "N_Field x"] collect_quiet) (simp add: sel_field_def)

definition function_fields :: "Function \<Rightarrow> Field list" where
  "function_fields f = fnArgs f @ (case fnThrows f of None \<Rightarrow> [] | Some t \<Rightarrow> thFields t)"

definition toplevel_fields :: "Node \<Rightarrow> Field list" where
  "toplevel_fields n = (case n of N_Struct v \<Rightarrow> stFields v
     | N_Service v \<Rightarrow> concat (map function_fields (svFunctions v)) | _ \<Rightarrow> [])"

lemma toplevel_sel_field: "toplevel n \<Longrightarrow> collect sel_field (A_Node n) = toplevel_fields n"
  by (cases n) (auto simp: collect_nodes collect_quiet sel_field_def toplevel_fields_def function_fields_def
      intro!: arg_cong[of _ _ concat] split: option.splits)

lemma field_lists_fields:
  assumes "\<forall>n \<in> set ns. \<forall>v. n = N_Struct v \<longrightarrow> stKind v \<in> {StructDecl, UnionDecl, ExceptionDecl}"
  shows "mset (concat (map fst (WalkFieldLists \<lparr>docTokens = toks, docNodes = ns\<rparr>))) =
    mset (concat (map toplevel_fields ns))"
  using assms
proof (induction ns)
  case Nil
  then show ?case by (simp add: WalkFieldLists_def Structs_def Unions_def Exceptions_def Services_def)
next
  case (Cons n ns)
  let ?W = "\<lambda>ns. WalkFieldLists \<lparr>docTokens = toks, docNodes = ns\<rparr>"
  have svc: "concat (map fst (concat (map (\<lambda>fnx. (fnArgs fnx, FunctionArgs) #
       (case fnThrows fnx of None \<Rightarrow> [] | Some t \<Rightarrow> [(thFields t, ThrowsFields)])) fns))) =
     concat (map function_fields fns)" for fns
    by (induction fns) (auto simp: function_fields_def split: option.splits)
  have "mset (concat (map fst (?W (n # ns)))) = mset (toplevel_fields n) + mset (concat (map fst (?W ns)))"
    using Cons.prems
    by (cases n) (auto simp: WalkFieldLists_def Structs_def Unions_def Exceptions_def Services_def toplevel_fields_def svc
        ac_simps)
  then show ?case using Cons by simp
qed

text \<open>
  C26: \<open>WalkFieldLists\<close> visits every field of the tree exactly once: the fields of
  all the lists it passes on are those that \<open>Walk\<close> reaches.
\<close>

lemma WalkFieldLists_complete:
  "case Parse src of None \<Rightarrow> False
   | Some (doc, errs) \<Rightarrow> mset (concat (map fst (WalkFieldLists doc))) =
       mset [f. A_Node (N_Field f) \<leftarrow> preorder (A_Document doc)]"
proof -
  have "mset (concat (map fst (WalkFieldLists doc))) = mset (collect sel_field (A_Document doc))"
    if d: "doc_wf s doc" for s doc
  proof -
    have "\<forall>n \<in> set (docNodes doc). \<forall>v. n = N_Struct v \<longrightarrow> stKind v \<in> {StructDecl, UnionDecl, ExceptionDecl}"
      using d by (auto simp: doc_wf_def list_all_iff dest!: node_ok_parts)
    moreover have "collect sel_field (A_Document doc) = concat (map toplevel_fields (docNodes doc))"
      using d by (auto simp: collect_document doc_wf_def list_all_iff toplevel_sel_field sel_field_def
          intro!: arg_cong[of _ _ concat])
    ultimately show ?thesis using field_lists_fields[of "docNodes doc" "docTokens doc"] by (cases doc) simp
  qed
  moreover have "collect sel_field n = [f. A_Node (N_Field f) \<leftarrow> preorder n]" for n
    unfolding collect_def by (rule arg_cong[of _ _ concat]) (auto simp: sel_field_def split: AnyNode.splits Node.splits)
  ultimately show ?thesis by (rule_tac Parse_cases[of src]) (auto simp: parse_result_def)
qed

section \<open>Annotation groups\<close>

text \<open>
  Annotation groups are no children of \<open>nodeChildren\<close>, so the reference is the
  tree of all parts, down to every group.
\<close>

lemma part_smaller:
  "P_node c \<in> set (node_parts n) \<Longrightarrow> node_rank c < node_rank n \<or> node_rank c = node_rank n \<and> node_size c < node_size n"
  by (cases n) (auto simp: type_size value_size entry_parts_def opt_def split: option.splits)

function all_groups :: "Node \<Rightarrow> Annotations list" where
  "all_groups n = (case n of N_Annotations a \<Rightarrow> [a] | _ \<Rightarrow> []) @
     concat (map (\<lambda>p. case p of P_tok i \<Rightarrow> [] | P_node c \<Rightarrow> all_groups c) (node_parts n))"
  by pat_completeness auto
termination
  by (relation "measures [node_rank, node_size]") (auto dest: part_smaller)

declare all_groups.simps [simp del]

definition part_groups :: "part \<Rightarrow> Annotations list" where
  "part_groups p = (case p of P_tok i \<Rightarrow> [] | P_node c \<Rightarrow> all_groups c)"

lemma part_groups_simps [simp]: "part_groups (P_tok i) = []" "part_groups (P_node c) = all_groups c"
  by (simp_all add: part_groups_def)

lemma all_groups_node: "all_groups n = (case n of N_Annotations a \<Rightarrow> [a] | _ \<Rightarrow> []) @ concat (map part_groups (node_parts n))"
  by (simp add: all_groups.simps[of n] part_groups_def[abs_def])

definition groups :: "part list \<Rightarrow> Annotations multiset" where
  "groups ps = mset (concat (map part_groups ps))"

lemma groups_append [simp]: "groups [] = {#}" "groups (p # ps) = mset (part_groups p) + groups ps"
  "groups (ps @ qs) = groups ps + groups qs"
  by (simp_all add: groups_def)

lemma groups_map: "groups (map f xs) = (\<Sum>x\<leftarrow>xs. mset (part_groups (f x)))"
  by (simp add: groups_def mset_concat comp_def)

lemma groups_node: "mset (all_groups n) = (case n of N_Annotations a \<Rightarrow> {#a#} | _ \<Rightarrow> {#}) + groups (node_parts n)"
  by (subst all_groups_node) (auto simp: groups_def split: Node.split)

lemma groups_Identifier [simp]: "all_groups (N_Identifier x) = []" "groups (opt p_ident i) = {#}"
  by (simp_all add: all_groups_node opt_def split: option.split)

lemma groups_tok [simp]: "groups (opt P_tok i) = {#}"
  by (simp add: opt_def split: option.split)

lemma groups_Annotations [simp]: "all_groups (N_Annotations x) = [x]" "groups (opt p_annos y) = mset (visit_group y)"
proof -
  have a: "all_groups (N_Annotation z) = []" for z
    using groups_node[of "N_Annotation z"] by simp
  show b: "all_groups (N_Annotations x) = [x]" for x
    by (simp add: all_groups_node[of "N_Annotations x"] comp_def a)
  show "groups (opt p_annos y) = mset (visit_group y)"
    by (simp add: opt_def visit_group_def b split: option.split)
qed

lemma groups_ConstValue [simp]: "all_groups (N_ConstValue v) = []"
proof (induction v rule: measure_induct_rule[of size])
  case (less v)
  then show ?case
    by (auto simp: all_groups_node[of "N_ConstValue v"] value_size entry_parts_def)
qed

lemma groups_value [simp]: "groups (opt p_value x) = {#}"
  by (simp add: opt_def split: option.split)

lemma groups_Structured [simp]: "groups (map p_struct xs) = {#}"
  by (simp add: groups_map groups_node[of "N_StructuredAnnotation x" for x])

lemma groups_FieldType: "mset (all_groups (N_FieldType t)) = mset (visit_type t)"
proof (induction t rule: measure_induct_rule[of size])
  case (less t)
  obtain b k ty i key val cpp an where t: "t = FieldType b k ty i key val cpp an" by (cases t)
  have "groups (opt p_type x) = mset (case x of None \<Rightarrow> [] | Some y \<Rightarrow> visit_type y)" if "x = key \<or> x = val" for x
    using less that t by (auto simp: opt_def split: option.split)
  then show ?case
    by (simp add: groups_node[of "N_FieldType t"]) (simp add: t ac_simps)
qed

lemma groups_type [simp]: "groups (opt p_type x) = mset (visitType x)"
  by (simp add: opt_def visitType_def groups_FieldType split: option.split)

lemma groups_fields [simp]: "groups (map p_field xs) = mset (visit_fields xs)"
  by (simp add: groups_map groups_node[of "N_Field x" for x] visit_fields_def mset_concat comp_def ac_simps)

lemma groups_members [simp]:
  "groups (map (\<lambda>x. P_node (N_EnumValue x)) xs) = mset (concat (map (\<lambda>ev. visit_group (evAnnotations ev)) xs))"
  by (simp add: groups_map groups_node[of "N_EnumValue x" for x] mset_concat comp_def)

definition function_groups :: "Function \<Rightarrow> Annotations list" where
  "function_groups fnx = visit_group (fnAnnotations fnx) @ visitType (fnType fnx) @ visit_fields (fnArgs fnx) @
       (case fnThrows fnx of None \<Rightarrow> [] | Some t \<Rightarrow> visit_fields (thFields t))"

lemma groups_throws [simp]: "groups (opt (\<lambda>x. P_node (N_Throws x)) t) =
    mset (case t of None \<Rightarrow> [] | Some t \<Rightarrow> visit_fields (thFields t))"
  by (simp add: opt_def groups_node[of "N_Throws x" for x] split: option.split)

lemma groups_functions [simp]:
  "groups (map (\<lambda>x. P_node (N_Function x)) xs) = mset (concat (map function_groups xs))"
  by (simp add: groups_map groups_node[of "N_Function x" for x] mset_concat comp_def function_groups_def ac_simps)

lemma toplevel_groups: "toplevel n \<Longrightarrow> mset (all_groups n) = mset (node_annotation_calls n)"
  by (cases n) (simp_all add: groups_node[of "N_Include x" for x] groups_node[of "N_CPPInclude x" for x]
    groups_node[of "N_Namespace x" for x] groups_node[of "N_Const x" for x] groups_node[of "N_Typedef x" for x]
    groups_node[of "N_Enum x" for x] groups_node[of "N_Struct x" for x] groups_node[of "N_Service x" for x]
    function_groups_def[abs_def])

text \<open>
  \<open>EachAnnotation\<close> visits every annotation group of the tree exactly once,
  those on container types nested in other types included.
\<close>

lemma EachAnnotation_complete:
  "case Parse src of None \<Rightarrow> False
   | Some (doc, errs) \<Rightarrow> mset (EachAnnotation doc) = mset (concat (map all_groups (docNodes doc)))"
proof -
  have "mset (EachAnnotation doc) = mset (concat (map all_groups (docNodes doc)))" if "doc_wf s doc" for s doc
    using that unfolding doc_wf_def EachAnnotation_def
    by (auto simp: mset_concat list_all_iff comp_def toplevel_groups intro!: arg_cong[of _ _ sum_list])
  then show ?thesis by (rule_tac Parse_cases[of src]) (auto simp: parse_result_def)
qed

section \<open>Order of the children\<close>

definition before :: "Node option \<Rightarrow> Node option \<Rightarrow> bool" where
  "before a b \<longleftrightarrow> (case (a, b) of (Some m, Some n) \<Rightarrow> TokEnd m < TokStart n | _ \<Rightarrow> True)"

text \<open>The children among the parts, which are in source order.\<close>

definition kids :: "part list \<Rightarrow> Node option list" where
  "kids ps = [Some n. P_node n \<leftarrow> ps]"

lemma kids_simps [simp]: "kids [] = []" "kids (P_tok i # ps) = kids ps" "kids (P_node n # ps) = Some n # kids ps"
  "kids (ps @ qs) = kids ps @ kids qs" "kids (opt P_tok x) = []"
  "kids (map (\<lambda>y. P_node (f y)) ys) = map (\<lambda>y. Some (f y)) ys"
  by (auto simp: kids_def opt_def comp_def split: option.split)

lemma chain_sorted: "chain lo hi ps \<Longrightarrow> sorted_wrt (\<lambda>p q. part_last p < part_first q) ps"
proof (induction ps arbitrary: lo)
  case (Cons p ps)
  then have c: "chain (Suc (part_last p)) hi ps" by simp
  then show ?case using Cons.IH[OF c] chain_member[OF c] by (auto simp: Suc_le_eq)
qed simp

lemma kids_sorted: "sorted_wrt (\<lambda>p q. part_last p < part_first q) ps \<Longrightarrow> sorted_wrt before (kids ps)"
proof (induction ps)
  case (Cons p ps)
  have "before (Some n) c" if "p = P_node n" "c \<in> set (kids ps)" for n c
    using Cons.prems that by (fastforce simp: kids_def before_def split: part.splits)
  then show ?case using Cons by (cases p) auto
qed simp

text \<open>All children but those of a function are the parts that are nodes, without groups and values of annotations.\<close>

definition opaque :: "Node \<Rightarrow> Node option \<Rightarrow> bool" where
  "opaque n c \<longleftrightarrow> (case c of Some (N_Annotations a) \<Rightarrow> True | Some (N_Annotation a) \<Rightarrow> True
     | Some (N_ConstValue v) \<Rightarrow> (\<exists>a. n = N_StructuredAnnotation a) | _ \<Rightarrow> False)"

lemma opaque_simps [simp]:
  "opaque n (Some (N_Annotations a))" "opaque n (Some (N_Annotation b))"
  "opaque n (Some (N_ConstValue v)) \<longleftrightarrow> (\<exists>a. n = N_StructuredAnnotation a)"
  "\<not> opaque n (Some (N_Identifier i))" "\<not> opaque n (Some (N_FieldType t))" "\<not> opaque n (Some (N_Field f))"
  "\<not> opaque n (Some (N_EnumValue ev))" "\<not> opaque n (Some (N_Function fn))" "\<not> opaque n (Some (N_Throws th))"
  "\<not> opaque n (Some (N_StructuredAnnotation sa))"
  by (simp_all add: opaque_def)

lemma filter_map_const: "(\<And>x. P (f x)) \<Longrightarrow> filter P (map f xs) = map f xs" "(\<And>x. \<not> P (f x)) \<Longrightarrow> filter P (map f xs) = []"
  by (simp_all add: comp_def)

lemma kids_opt: "kids (opt (\<lambda>y. P_node (f y)) x) = (case x of None \<Rightarrow> [] | Some y \<Rightarrow> [Some (f y)])"
  by (simp add: opt_def split: option.split)

lemma kids_entries: "kids (entry_parts es) =
    concat (map (\<lambda>e. [Some (N_ConstValue (cmKey e)), Some (N_ConstValue (cmValue e))]) es)"
  by (induction es) (simp_all add: entry_parts_def)

definition typed_function :: "Node \<Rightarrow> bool" where
  "typed_function n \<longleftrightarrow> (case n of N_Function f \<Rightarrow> fnType f \<noteq> None | _ \<Rightarrow> False)"

lemma children_kids:
  "node_shape toks s n \<Longrightarrow> \<not> typed_function n \<Longrightarrow>
   node_children n = [] \<or> node_children n = filter (\<lambda>c. \<not> opaque n c) (kids (node_parts n))"
  by (cases n) (auto simp: typed_function_def kids_opt kids_entries filter_concat comp_def ptr_def unless_nil_def all_of_def
      structuredChildren_def split: option.splits)

lemma node_ok_kids: "node_ok toks s n \<Longrightarrow> sorted_wrt before (kids (node_parts n)) \<and> node_shape toks s n"
  by (auto elim!: node_ok.cases intro: kids_sorted chain_sorted)

lemma typed_function_order:
  assumes "node_ok toks s n" "typed_function n"
  shows "\<not> sorted_wrt before (node_children n)"
proof -
  obtain f t nm where f: "n = N_Function f" "fnType f = Some t" "fnName f = Some nm"
    using assms node_ok_kids[OF assms(1)] by (auto simp: typed_function_def split: Node.splits)
  have "P_node (N_FieldType t) \<in> set (node_parts n)" "P_node (N_Identifier nm) \<in> set (node_parts n)"
    using f by simp_all
  then have "node_ok toks s (N_FieldType t)" "node_ok toks s (N_Identifier nm)"
    using assms(1) by (auto elim: node_ok.cases)
  then have le: "TokStart (N_FieldType t) \<le> TokEnd (N_FieldType t)" "TokStart (N_Identifier nm) \<le> TokEnd (N_Identifier nm)"
    by (auto elim: node_ok.cases)
  have "before (Some (N_FieldType t)) (Some (N_Identifier nm))"
    using node_ok_kids[OF assms(1)] f by (simp add: kids_opt sorted_wrt_append)
  moreover have "before (Some (N_Identifier nm)) (Some (N_FieldType t))" if "sorted_wrt before (node_children n)"
    using that f by (simp add: ptr_def unless_nil_def sorted_wrt_append)
  ultimately show ?thesis using le by (auto simp: before_def)
qed

lemma children_order: "node_ok toks s n \<Longrightarrow> sorted_wrt before (node_children n) \<longleftrightarrow> \<not> typed_function n"
  using node_ok_kids[of toks s n] children_kids[of toks s n] typed_function_order[of toks s n]
  by (metis sorted_wrt_filter sorted_wrt.simps(1))

text \<open>
  In which order \<open>nodeChildren\<close>, and so \<open>Walk\<close>, lists the children of a node:
  in source order and without overlap for every node of a parsed document,
  except for a function with a return type, whose name is listed before the
  type that precedes it in the source.
\<close>

lemma Walk_source_order:
  "case Parse src of None \<Rightarrow> False
   | Some (doc, errs) \<Rightarrow> list_all (\<lambda>n. case n of A_Document d \<Rightarrow> sorted_wrt before (map Some (docNodes d))
       | A_Node m \<Rightarrow> sorted_wrt before (node_children m) \<longleftrightarrow> \<not> typed_function m) (preorder (A_Document doc))"
proof -
  have "case n of A_Document d \<Rightarrow> sorted_wrt before (map Some (docNodes d))
       | A_Node m \<Rightarrow> sorted_wrt before (node_children m) \<longleftrightarrow> \<not> typed_function m" if "any_ok toks n" for toks n
    using that children_order
    by (cases n) (auto simp: any_ok_def doc_wf_def before_def sorted_wrt_map elim!: sorted_wrt_mono_rel[rotated])
  then show ?thesis
    by (rule_tac Parse_cases[of src]) (auto simp: parse_result_def list_all_iff any_ok_def dest!: preorder_nested[of _ "A_Document _" "fst (Lex src)"])
qed

section \<open>Searching between two tokens\<close>

text \<open>
  \<open>SearchNodePathByPosition\<close> does not always return a path: a position on the
  boundary of two adjacent tokens lies in both spans. In the constant below the
  type is a list, its closing bracket touches the name, and at offset 15 both
  siblings are returned one after the other.
\<close>

lemma search_two_siblings:
  "case Parse ''const list<i32>x=1'' of None \<Rightarrow> False
   | Some (doc, errs) \<Rightarrow> errs = [] \<and>
     map_option (map (\<lambda>n. (any_start n, any_end n))) (SearchNodePathByPosition doc \<lparr>poLine = 1, poCol = 16, poOffset = 15\<rparr>) =
       Some [(0, 8), (0, 7), (1, 4), (5, 5)]"
  by code_simp

section \<open>End positions\<close>

lemma rune_count_split:
  "aligned s k \<Longrightarrow> k \<le> m \<Longrightarrow> rune_count (take m s) = rune_count (take k s) + rune_count (take (m - k) (drop k s))"
proof (induction s k arbitrary: m rule: aligned.induct)
  case (1 s k)
  show ?case
  proof (cases "k = 0")
    case False
    then have s: "s \<noteq> []" "rune_size s \<le> k" "aligned (drop (rune_size s) s) (k - rune_size s)"
      using 1(2) by (auto simp: aligned.simps[of s k] split: if_splits)
    have "rune_count (take (m - rune_size s) (drop (rune_size s) s)) =
        rune_count (take (k - rune_size s) (drop (rune_size s) s)) +
        rune_count (take (m - rune_size s - (k - rune_size s)) (drop (k - rune_size s) (drop (rune_size s) s)))"
      using 1 s False by (intro 1(1)) auto
    then show ?thesis using s False 1(3) by (simp add: rune_count_take_step)
  qed simp
qed

definition start_aligned :: "bytes \<Rightarrow> Token \<Rightarrow> bool" where
  "start_aligned src t \<longleftrightarrow>
     aligned (drop (line_start src (tkOffset t)) src) (tkOffset t - line_start src (tkOffset t))"

lemma lexed_aligned: "lexed l ts l' \<Longrightarrow> pos_ok l \<Longrightarrow> \<forall>t \<in> set ts. start_aligned (lxSrc l) t"
proof (induction rule: lexed.induct)
  case (lexed_Cons l l0 t l1 ts l')
  have r: "reaches l l0" and b: "lxOff l \<le> length (lxSrc l)"
    using lexed_Cons by (auto simp: gap_def pos_ok_def)
  note b0 = reaches_bounds[OF r b]
  have p0: "pos_ok l0" using pos_ok_reaches[OF r] lexed_Cons by simp
  have s: "reaches l0 l1" "tkOffset t = lxOff l0" using lexed_Cons by (auto simp: scanned_def)
  then show ?case using lexed_Cons p0 b0 pos_ok_reaches[OF s(1) p0] reaches_bounds[OF s(1)]
    by (auto simp: start_aligned_def pos_ok_def)
qed simp

definition single_line :: "Token \<Rightarrow> bool" where
  "single_line t \<longleftrightarrow> LF \<notin> set (tkText t) \<and> CR \<notin> set (tkText t)"

lemma token_end_position:
  assumes t: "tkText t = slice (tkOffset t) (tkEnd t) src" "tkEnd t \<le> length src" "single_line t"
    and p: "pos_exact src t" "tkText t = [] \<or> start_aligned src t"
  shows "tkLine t = line_of src (tkEnd t)" "tkCol t + rune_count (tkText t) = col_of src (tkEnd t)"
proof -
  let ?o = "tkOffset t" and ?n = "length (tkText t)"
  have tx: "take ?n (drop ?o src) = tkText t"
    using t(1)[unfolded tkEnd_def slice_def, symmetric] by simp
  have nb: "\<not> is_break src j" if "?o \<le> j" "j < ?o + ?n" for j
  proof -
    have "src ! j = take ?n (drop ?o src) ! (j - ?o)" using that t(2) by (simp add: tkEnd_def)
    then have "src ! j = tkText t ! (j - ?o)" by (simp only: tx)
    then have "src ! j \<in> set (tkText t)" using that by auto
    then show ?thesis using t(3) by (auto simp: single_line_def is_break_def)
  qed
  then have ls: "line_start src (tkEnd t) = line_start src ?o" "line_of src (tkEnd t) = line_of src ?o"
    unfolding tkEnd_def by (intro line_start_skip line_of_skip; simp)+
  show "tkLine t = line_of src (tkEnd t)" using ls p(1) by (simp add: pos_exact_def)
  let ?b = "line_start src ?o"
  have b: "?b \<le> ?o" by (rule line_start_le)
  have "rune_count (take (?o + ?n - ?b) (drop ?b src)) =
      rune_count (take (?o - ?b) (drop ?b src)) + rune_count (take (?o + ?n - ?b - (?o - ?b)) (drop (?o - ?b) (drop ?b src)))"
    if "start_aligned src t"
    using that by (intro rune_count_split) (auto simp: start_aligned_def)
  moreover have "?o + ?n - ?b - (?o - ?b) = ?n" "drop (?o - ?b) (drop ?b src) = drop ?o src" using b by simp_all
  ultimately have "rune_count (slice ?b (?o + ?n) src) = rune_count (slice ?b ?o src) + rune_count (tkText t)"
    using p(2) tx by (auto simp: slice_def)
  then show "tkCol t + rune_count (tkText t) = col_of src (tkEnd t)"
    using p(1) unfolding col_of_def ls(1) by (simp add: pos_exact_def col_of_def tkEnd_def)
qed

lemma Lex_token_ends:
  assumes "t \<in> set (fst (Lex src))"
  shows "tkText t = slice (tkOffset t) (tkEnd t) src" "tkEnd t \<le> length src" "pos_exact src t"
    "tkText t = [] \<or> start_aligned src t"
proof -
  obtain ts e l where L: "Lex src = (ts @ [e], lxErrs l)" "lexed (start_lexer src) ts l"
    "tkText e = []" "tkOffset e = length src" "tkLine e = lxLine l" "tkCol e = lxCol l" "lxSrc l = src" "lxOff l = length src"
    by (rule Lex_cases)
  have til: "tiles (lxErrs l = []) src 0 ts (length src)" using lexed_tiles[OF L(2)] L by simp
  have "pos_ok l" by (rule pos_ok_reaches[OF lexed_reaches[OF L(2)]]) simp
  then have e: "pos_exact src e" "tkEnd e = length src"
    using L by (simp_all add: pos_ok_def pos_exact_def after_cr_def tkEnd_def)
  have "t \<in> set ts \<or> t = e" using assms L(1) by auto
  then show "tkText t = slice (tkOffset t) (tkEnd t) src" "tkEnd t \<le> length src" "pos_exact src t"
    "tkText t = [] \<or> start_aligned src t"
    using e L(3,4) tiles_slices[OF til] tiles_sorted[OF til] lexed_positions[OF L(2)] lexed_aligned[OF L(2)]
    by auto
qed

text \<open>
  The end position of a token without a line break, which every token but a
  block comment, a string literal and an unterminated or invalid one is: its
  line and column are those of the reference, counted from the start of the
  source, at the offset behind its last byte.
\<close>

lemma TokenEndPosition_exact:
  "case Parse src of None \<Rightarrow> False
   | Some (doc, errs) \<Rightarrow> list_all (\<lambda>i. let e = tkEnd (docTokens doc ! i) in
       TokenEndPosition doc i = Some \<lparr>poLine = line_of src e, poCol = col_of src e, poOffset = e\<rparr>)
     (filter (\<lambda>i. single_line (docTokens doc ! i)) [0..<length (docTokens doc)])"
proof -
  have "TokenEndPosition doc i = Some \<lparr>poLine = line_of src (tkEnd t), poCol = col_of src (tkEnd t), poOffset = tkEnd t\<rparr>"
    if "docTokens doc = fst (Lex src)" "i < length (docTokens doc)" "single_line (docTokens doc ! i)" "t = docTokens doc ! i"
    for doc i t
  proof -
    have m: "t \<in> set (fst (Lex src))" using that nth_mem[of i "docTokens doc"] by simp
    show ?thesis using token_end_position[OF Lex_token_ends(1,2)[OF m] _ Lex_token_ends(3,4)[OF m]] that
      by (simp add: TokenEndPosition_def tkEnd_def Let_def)
  qed
  then show ?thesis by (rule_tac Parse_cases[of src]) (simp add: parse_result_def Let_def list_all_iff)
qed

text \<open>
  The end position of a token with a line break is wrong: the source says
  that tokens never span lines, but block comments do. The comment below ends at
  line 2, column 3; \<open>TokenEndPosition\<close> says line 1, column 6.
\<close>

lemma TokenEndPosition_multiline:
  "case Parse [CHR ''/'', CHR ''*'', LF, CHR ''*'', CHR ''/''] of None \<Rightarrow> False
   | Some (doc, errs) \<Rightarrow> TokenEndPosition doc 0 = Some \<lparr>poLine = 1, poCol = 6, poOffset = 5\<rparr> \<and>
       (line_of [CHR ''/'', CHR ''*'', LF, CHR ''*'', CHR ''/''] 5, col_of [CHR ''/'', CHR ''*'', LF, CHR ''*'', CHR ''/''] 5) = (2, 3)"
  by code_simp

end
