(* ===== verification/Doc.thy ===== *)
theory Doc imports Prelude Utf8 "HOL-Library.Monad_Syntax"
begin

text \<open>
  The document algebra of \<open>doc/doc.go\<close> and display widths of \<open>doc/width.go\<close>.
  A document is a tree; the one mutable field, the \<open>brk\<close> flag of a group, is
  kept in a store indexed by the address of the group, so that a group that is
  reached twice is one group. \<open>Text\<close>/\<open>textNode\<close> and \<open>Concat\<close>/\<open>concatNode\<close>, the boxed
  and the arena form of the same documents, are one constructor each. The
  slices and regions of the arena are memory management without a counterpart;
  what remains of an arena is the next free group address and the store.
\<close>

section \<open>Documents\<close>

record LineDoc =
  ldSoft :: bool
  ldHard :: bool
  ldLiteral :: bool
  ldComment :: bool
  ldAfterComment :: bool

datatype Doc =
    D_text bytes
  | D_concat "Doc list"
  | D_line LineDoc
  | D_group (group_ref: nat) (group_doc: Doc) (group_id: int) (group_expanded: "Doc list")
  | D_ifBreak (breakDoc: "Doc option") (flatDoc: "Doc option") (ifBreak_id: int)
  | D_indent Doc
  | D_align int Doc
  | D_lineSuffix Doc
  | D_lineSuffixBoundary
  | D_trim
  | D_breakParent

definition plain_line :: LineDoc where
  "plain_line = \<lparr>ldSoft = False, ldHard = False, ldLiteral = False, ldComment = False, ldAfterComment = False\<rparr>"

definition Line :: Doc where "Line = D_line plain_line"
definition SoftLine :: Doc where "SoftLine = D_line (plain_line\<lparr>ldSoft := True\<rparr>)"
definition HardLine :: Doc where
  "HardLine = D_concat [D_line (plain_line\<lparr>ldHard := True\<rparr>), D_breakParent]"
definition LiteralLine :: Doc where
  "LiteralLine = D_concat [D_line (plain_line\<lparr>ldHard := True, ldLiteral := True\<rparr>), D_breakParent]"
definition CommentLine :: Doc where
  "CommentLine = D_concat [D_line (plain_line\<lparr>ldHard := True, ldComment := True\<rparr>), D_breakParent]"
definition AfterCommentLine :: Doc where
  "AfterCommentLine = D_line (plain_line\<lparr>ldSoft := True, ldAfterComment := True\<rparr>)"
definition HardLineNoBreak :: Doc where "HardLineNoBreak = D_line (plain_line\<lparr>ldHard := True\<rparr>)"
definition LiteralLineNoBreak :: Doc where
  "LiteralLineNoBreak = D_line (plain_line\<lparr>ldHard := True, ldLiteral := True\<rparr>)"

section \<open>The arena\<close>

type_synonym store = "nat \<Rightarrow> bool"

record Arena =
  arNext :: nat
  arBrk :: store

definition arena_new :: Arena where
  "arena_new = \<lparr>arNext = 0, arBrk = (\<lambda>_. False)\<rparr>"

definition arena_group :: "bool \<Rightarrow> Doc \<Rightarrow> int \<Rightarrow> Doc list \<Rightarrow> Arena \<Rightarrow> Doc \<times> Arena" where
  "arena_group b d i ex a =
     (D_group (arNext a) d i ex, a\<lparr>arNext := Suc (arNext a), arBrk := (arBrk a)(arNext a := b)\<rparr>)"

definition Group :: "Doc \<Rightarrow> Arena \<Rightarrow> Doc \<times> Arena" where
  "Group d = arena_group False d 0 []"

definition GroupBreak :: "Doc \<Rightarrow> Arena \<Rightarrow> Doc \<times> Arena" where
  "GroupBreak d = arena_group True d 0 []"

definition GroupID :: "int \<Rightarrow> Doc \<Rightarrow> Arena \<Rightarrow> Doc \<times> Arena" where
  "GroupID i d = arena_group False d i []"

text \<open>\<open>states[0]\<close> panics without a state.\<close>

definition ConditionalGroup :: "int \<Rightarrow> Doc list \<Rightarrow> Arena \<Rightarrow> (Doc \<times> Arena) option" where
  "ConditionalGroup i states a =
     (case states of [] \<Rightarrow> None | d # _ \<Rightarrow> Some (arena_group False d i states a))"

fun join_parts :: "Doc \<Rightarrow> Doc list \<Rightarrow> Doc list" where
  "join_parts sep [] = []"
| "join_parts sep [d] = [d]"
| "join_parts sep (d # e # ds) = d # sep # join_parts sep (e # ds)"

definition Join :: "Doc \<Rightarrow> Doc list \<Rightarrow> Doc" where
  "Join sep parts = D_concat (join_parts sep parts)"

definition IfBreak :: "Doc option \<Rightarrow> Doc option \<Rightarrow> Doc" where
  "IfBreak broken flat = D_ifBreak broken flat 0"

definition IfBreakFor :: "Doc option \<Rightarrow> Doc option \<Rightarrow> int \<Rightarrow> Doc" where
  "IfBreakFor broken flat i = D_ifBreak broken flat i"

section \<open>Display width\<close>

text \<open>
  \<open>isZeroWidth\<close> and \<open>isWide\<close> ask the Unicode tables of the Go library and of
  \<open>golang.org/x/text/width\<close>; they are the parameters \<open>zw\<close> and \<open>wide\<close>.
\<close>

definition control :: "nat \<Rightarrow> bool" where
  "control r \<longleftrightarrow> r \<le> 0x1F \<or> 0x7F \<le> r \<and> r \<le> 0x9F"

definition ascii_printable :: "char \<Rightarrow> bool" where
  "ascii_printable c \<longleftrightarrow> \<not> (byte c \<ge> 0x80 \<or> byte c \<le> 0x1F \<or> byte c = 0x7F)"

definition rune_width :: "(nat \<Rightarrow> bool) \<Rightarrow> (nat \<Rightarrow> bool) \<Rightarrow> nat \<Rightarrow> nat" where
  "rune_width zw wide r = (if control r then 0 else if zw r then 0 else if wide r then 2 else 1)"

text \<open>The loop \<open>for _, r := range s\<close>.\<close>

function runes_width :: "(nat \<Rightarrow> bool) \<Rightarrow> (nat \<Rightarrow> bool) \<Rightarrow> bytes \<Rightarrow> nat" where
  "runes_width zw wide s =
     (if s = [] then 0
      else rune_width zw wide (fst (decode_rune s)) + runes_width zw wide (drop (rune_size s) s))"
  by pat_completeness auto
termination
  by (relation "measure (\<lambda>(z, w, s). length s)") (auto simp: rune_size_pos')

declare runes_width.simps [simp del]

definition stringWidth :: "(nat \<Rightarrow> bool) \<Rightarrow> (nat \<Rightarrow> bool) \<Rightarrow> bytes \<Rightarrow> nat" where
  "stringWidth zw wide s = (if list_all ascii_printable s then length s else runes_width zw wide s)"

section \<open>Break propagation\<close>

text \<open>A loop whose body may panic.\<close>

fun loopM :: "('a \<Rightarrow> 's \<Rightarrow> 's option) \<Rightarrow> 'a list \<Rightarrow> 's \<Rightarrow> 's option" where
  "loopM f [] s = Some s"
| "loopM f (x # xs) s = Option.bind (f x s) (loopM f xs)"

lemma loopM_cong [fundef_cong]:
  "xs = xs' \<Longrightarrow> (\<And>x t. x \<in> set xs' \<Longrightarrow> f x t = g x t) \<Longrightarrow> s = s' \<Longrightarrow> loopM f xs s = loopM g xs' s'"
proof (induction xs arbitrary: xs' s s')
  case (Cons x xs)
  then have "loopM f xs t = loopM g xs t" for t by (intro Cons.IH) auto
  then show ?case using Cons.prems by (auto intro!: Option.bind_cong)
qed auto

fun opt_loop :: "('a \<Rightarrow> 's \<Rightarrow> 's option) \<Rightarrow> 'a option \<Rightarrow> 's \<Rightarrow> 's option" where
  "opt_loop f None s = Some s"
| "opt_loop f (Some x) s = f x s"

lemma opt_loop_cong [fundef_cong]:
  "x = x' \<Longrightarrow> (\<And>y t. x' = Some y \<Longrightarrow> f y t = g y t) \<Longrightarrow> s = s' \<Longrightarrow> opt_loop f x s = opt_loop g x' s'"
  by (cases x') auto

text \<open>The variables of \<open>propagateBreaks\<close>: the flags, \<open>visited\<close> and \<open>stack\<close>, its top first.\<close>

record propagation =
  prBrk :: store
  prVisited :: "nat set"
  prStack :: "nat list"

definition breakParentGroup :: "propagation \<Rightarrow> propagation" where
  "breakParentGroup s = (case prStack s of [] \<Rightarrow> s | g # _ \<Rightarrow> s\<lparr>prBrk := (prBrk s)(g := True)\<rparr>)"

definition enter :: "Doc \<Rightarrow> propagation \<Rightarrow> bool \<times> propagation" where
  "enter d s = (case d of
     D_breakParent \<Rightarrow> (True, breakParentGroup s)
   | D_group g body i ex \<Rightarrow>
       (let s = s\<lparr>prStack := g # prStack s\<rparr> in
        if g \<in> prVisited s then (False, s) else (True, s\<lparr>prVisited := insert g (prVisited s)\<rparr>))
   | _ \<Rightarrow> (True, s))"

text \<open>\<open>stack[:len(stack)-1]\<close> panics when the stack is empty.\<close>

definition exit :: "Doc \<Rightarrow> propagation \<Rightarrow> propagation option" where
  "exit d s = (case d of
     D_group g body i ex \<Rightarrow>
       (case prStack s of
          [] \<Rightarrow> None
        | _ # rest \<Rightarrow>
            (let s = s\<lparr>prStack := rest\<rparr> in Some (if prBrk s g then breakParentGroup s else s)))
   | _ \<Rightarrow> Some s)"

text \<open>The children in the order of the traversal: the states of a group before its document.\<close>

function traverseDoc :: "Doc \<Rightarrow> propagation \<Rightarrow> propagation option" where
  "traverseDoc d s =
     (let (descend, s) = enter d s in
      if \<not> descend then Some s
      else Option.bind
        (case d of
           D_concat parts \<Rightarrow> loopM (\<lambda>p s. traverseDoc p s) parts s
         | D_group g body i ex \<Rightarrow> Option.bind (loopM (\<lambda>p s. traverseDoc p s) ex s) (\<lambda>s. traverseDoc body s)
         | D_indent e \<Rightarrow> traverseDoc e s
         | D_align n e \<Rightarrow> traverseDoc e s
         | D_ifBreak b f i \<Rightarrow> Option.bind (opt_loop (\<lambda>p s. traverseDoc p s) b s) (\<lambda>s. opt_loop (\<lambda>p s. traverseDoc p s) f s)
         | D_lineSuffix e \<Rightarrow> traverseDoc e s
         | _ \<Rightarrow> Some s)
        (\<lambda>s. exit d s))"
  by pat_completeness auto
termination
  apply (relation "measure (\<lambda>(d, s). size d)")
  apply (auto dest: size_list_estimation' [where f = size, OF _ order_refl])
  done

declare traverseDoc.simps [simp del]

definition propagateBreaks :: "Doc \<Rightarrow> store \<Rightarrow> store option" where
  "propagateBreaks d brk =
     map_option prBrk (traverseDoc d \<lparr>prBrk = brk, prVisited = {}, prStack = []\<rparr>)"

end
