(* ===== verification/DocPrint.thy ===== *)
theory DocPrint imports Doc
begin

text \<open>
  The printer of \<open>doc/print.go\<close>. The stack of commands is a list with its top
  first. The flags of the groups are read only once printing has started, so
  they are a parameter, as is the width function. The scratch buffers that
  \<open>fits\<close> keeps in the printer only save allocations and are its local state here.
\<close>

section \<open>Options and state\<close>

record Options =
  opPrintWidth :: int
  opIndent :: bytes
  opTabWidth :: int
  opNewLine :: bytes

datatype mode = modeFlat | modeBreak

record indentation =
  inLevels :: nat
  inAlignN :: int
  inLength :: int

record command =
  coIndentation :: indentation
  coMode :: mode
  coDoc :: Doc

definition indentation_add :: "Options \<Rightarrow> indentation \<Rightarrow> indentation" where
  "indentation_add opts i = i\<lparr>inLevels := inLevels i + 1, inLength := inLength i + opTabWidth opts\<rparr>"

definition indentation_align :: "int \<Rightarrow> Options \<Rightarrow> indentation \<Rightarrow> indentation" where
  "indentation_align n opts i =
     (if opIndent opts \<noteq> [TAB] then i\<lparr>inAlignN := inAlignN i + n, inLength := inLength i + n\<rparr>
      else i\<lparr>inLevels := inLevels i + 1, inLength := inLength i + opTabWidth opts\<rparr>)"

record printer =
  pnO :: Options
  pnPosition :: int
  pnOut :: bytes
  pnGroupMode :: "int \<rightharpoonup> mode"
  pnLineSuffix :: "command list"
  pnShouldRemeasure :: bool
  pnLastLineComment :: bool
  pnPrefixes :: "bytes list"

text \<open>The two errors of \<open>validateOptions\<close>, with the value they report.\<close>

datatype option_error = PrintWidth_not_positive int | TabWidth_not_positive int

definition validateOptions :: "Options \<Rightarrow> option_error option" where
  "validateOptions opts =
     (if opPrintWidth opts \<le> 0 then Some (PrintWidth_not_positive (opPrintWidth opts))
      else if opTabWidth opts \<le> 0 then Some (TabWidth_not_positive (opTabWidth opts))
      else None)"

definition default_options :: "Options \<Rightarrow> Options" where
  "default_options opts =
     (let opts = (if opNewLine opts = [] then opts\<lparr>opNewLine := [LF]\<rparr> else opts) in
      if opIndent opts = [] then opts\<lparr>opIndent := replicate (nat (opTabWidth opts)) SPACE\<rparr> else opts)"

definition reset :: "Options \<Rightarrow> printer \<Rightarrow> printer" where
  "reset opts p = p\<lparr>pnO := default_options opts, pnPosition := 0, pnOut := [], pnGroupMode := Map.empty,
     pnLineSuffix := [], pnShouldRemeasure := False, pnLastLineComment := False, pnPrefixes := []\<rparr>"

section \<open>Output\<close>

definition write_out :: "bytes \<Rightarrow> printer \<Rightarrow> printer" where
  "write_out s p = p\<lparr>pnOut := pnOut p @ s\<rparr>"

definition is_blank :: "char \<Rightarrow> bool" where
  "is_blank c \<longleftrightarrow> c = SPACE \<or> c = TAB"

definition lineEnded :: "printer \<Rightarrow> bool" where
  "lineEnded p = (case dropWhile is_blank (rev (pnOut p)) of [] \<Rightarrow> False | c # _ \<Rightarrow> c = LF)"

text \<open>The number of trailing blanks, and the output without them.\<close>

definition trailing :: "bytes \<Rightarrow> nat" where
  "trailing s = length (takeWhile is_blank (rev s))"

definition trim :: "printer \<Rightarrow> nat \<times> printer" where
  "trim p = (let n = trailing (pnOut p) in (n, p\<lparr>pnOut := take (length (pnOut p) - n) (pnOut p)\<rparr>))"

function indentPrefix_loop :: "bytes \<Rightarrow> nat \<Rightarrow> bytes list \<Rightarrow> bytes list" where
  "indentPrefix_loop ind levels ps =
     (if length ps \<le> levels then indentPrefix_loop ind levels (ps @ [last ps @ ind]) else ps)"
  by pat_completeness auto
termination
  by (relation "measure (\<lambda>(i, n, ps). Suc n - length ps)") auto

declare indentPrefix_loop.simps [simp del]

definition indentPrefix :: "nat \<Rightarrow> printer \<Rightarrow> bytes \<times> printer" where
  "indentPrefix levels p =
     (let ps = (if pnPrefixes p = [] then [[]] else pnPrefixes p);
          ps = indentPrefix_loop (opIndent (pnO p)) levels ps in
      (ps ! levels, p\<lparr>pnPrefixes := ps\<rparr>))"

definition writeIndent :: "indentation \<Rightarrow> printer \<Rightarrow> printer" where
  "writeIndent i p =
     (let p = (if inLevels i > 0 then (let (s, p) = indentPrefix (inLevels i) p in write_out s p) else p) in
      if inAlignN i > 0 then write_out (replicate (nat (inAlignN i)) SPACE) p else p)"

section \<open>Fitting\<close>

definition ifBreakContents :: "(int \<rightharpoonup> mode) \<Rightarrow> Doc option \<Rightarrow> Doc option \<Rightarrow> int \<Rightarrow> mode \<Rightarrow> Doc option" where
  "ifBreakContents gm b f i m =
     (let m = (if i \<noteq> 0 then (case gm i of Some m \<Rightarrow> m | None \<Rightarrow> modeFlat) else m) in
      if m = modeBreak then b else f)"

text \<open>\<open>commands = append(commands, ...)\<close> for every part, the last one first.\<close>

definition push_parts :: "command \<Rightarrow> Doc list \<Rightarrow> command list \<Rightarrow> command list" where
  "push_parts cmd parts cs = map (\<lambda>d. cmd\<lparr>coDoc := d\<rparr>) parts @ cs"

definition push_opt :: "command \<Rightarrow> Doc option \<Rightarrow> command list \<Rightarrow> command list" where
  "push_opt cmd d cs = (case d of None \<Rightarrow> cs | Some e \<Rightarrow> cmd\<lparr>coDoc := e\<rparr> # cs)"

definition trimTrailingWidth :: "bytes \<Rightarrow> nat" where
  "trimTrailingWidth s = trailing s"

text \<open>The variables of the loop of \<open>fits\<close>; \<open>Inl\<close> is a return.\<close>

record fit =
  ftRemaining :: int
  ftPending :: bool
  ftOutput :: bytes
  ftSuffix :: bool

definition fit_text :: "(bytes \<Rightarrow> nat) \<Rightarrow> bytes \<Rightarrow> fit \<Rightarrow> fit" where
  "fit_text sw s t =
     (if s = [] then t
      else (let t = (if ftPending t
                     then t\<lparr>ftOutput := ftOutput t @ [SPACE], ftRemaining := ftRemaining t - 1, ftPending := False\<rparr>
                     else t) in
        t\<lparr>ftOutput := ftOutput t @ s, ftRemaining := ftRemaining t - int (sw s)\<rparr>))"

definition fits_step :: "(bytes \<Rightarrow> nat) \<Rightarrow> (int \<rightharpoonup> mode) \<Rightarrow> store \<Rightarrow> command \<Rightarrow> command list \<Rightarrow> fit \<Rightarrow>
    bool + command list \<times> fit" where
  "fits_step sw gm brk cmd cs t = (case coDoc cmd of
     D_text s \<Rightarrow> Inr (cs, fit_text sw s t)
   | D_concat parts \<Rightarrow> Inr (push_parts cmd parts cs, t)
   | D_indent d \<Rightarrow> Inr (cmd\<lparr>coDoc := d\<rparr> # cs, t)
   | D_align n d \<Rightarrow> Inr (cmd\<lparr>coDoc := d\<rparr> # cs, t)
   | D_trim \<Rightarrow>
       Inr (cs, t\<lparr>ftRemaining := ftRemaining t + int (trimTrailingWidth (ftOutput t)), ftOutput := []\<rparr>)
   | D_group g d i ex \<Rightarrow>
       if brk g \<and> coMode cmd = modeFlat then Inl False
       else (let m = (if brk g then modeBreak else coMode cmd);
                 contents = (if ex \<noteq> [] \<and> m = modeBreak then last ex else d) in
             Inr (cmd\<lparr>coMode := m, coDoc := contents\<rparr> # cs, t))
   | D_ifBreak b f i \<Rightarrow> Inr (push_opt cmd (ifBreakContents gm b f i (coMode cmd)) cs, t)
   | D_line l \<Rightarrow>
       if coMode cmd = modeBreak \<or> ldHard l then Inl True
       else Inr (cs, if ldSoft l then t else t\<lparr>ftPending := True\<rparr>)
   | D_lineSuffix d \<Rightarrow> Inr (cs, t\<lparr>ftSuffix := True\<rparr>)
   | D_lineSuffixBoundary \<Rightarrow> if ftSuffix t then Inl False else Inr (cs, t)
   | D_breakParent \<Rightarrow> Inr (cs, t))"

text \<open>How much of the document a command can still print.\<close>

fun doc_weight :: "Doc \<Rightarrow> nat" where
  "doc_weight (D_text s) = 1"
| "doc_weight (D_concat ds) = 1 + sum_list (map doc_weight ds)"
| "doc_weight (D_line l) = 1"
| "doc_weight (D_group g d i ex) = 1 + doc_weight d + sum_list (map doc_weight ex)"
| "doc_weight (D_ifBreak b f i) = 1 + (case b of None \<Rightarrow> 0 | Some d \<Rightarrow> doc_weight d) + (case f of None \<Rightarrow> 0 | Some d \<Rightarrow> doc_weight d)"
| "doc_weight (D_indent d) = 1 + doc_weight d"
| "doc_weight (D_align n d) = 1 + doc_weight d"
| "doc_weight (D_lineSuffix d) = 2 + doc_weight d"
| "doc_weight D_lineSuffixBoundary = 2"
| "doc_weight D_trim = 1"
| "doc_weight D_breakParent = 1"

definition weight :: "command list \<Rightarrow> nat" where
  "weight cs = sum_list (map (\<lambda>c. doc_weight (coDoc c)) cs)"

lemma doc_weight_pos [simp]: "0 < doc_weight d"
  by (cases d) auto

lemma weight_simps [simp]:
  "weight [] = 0" "weight (c # cs) = doc_weight (coDoc c) + weight cs" "weight (cs @ ds) = weight cs + weight ds"
  by (simp_all add: weight_def)

lemma weight_push_parts [simp]: "weight (push_parts cmd parts cs) = sum_list (map doc_weight parts) + weight cs"
  by (simp add: push_parts_def weight_def comp_def)

lemma weight_push_opt [simp]:
  "weight (push_opt cmd d cs) = (case d of None \<Rightarrow> 0 | Some e \<Rightarrow> doc_weight e) + weight cs"
  by (simp add: push_opt_def split: option.split)

lemma weight_member: "d \<in> set ds \<Longrightarrow> doc_weight d \<le> sum_list (map doc_weight ds)"
  by (simp add: member_le_sum_list)

lemma weight_last: "ex \<noteq> [] \<Longrightarrow> doc_weight (last ex) \<le> sum_list (map doc_weight ex)"
  by (simp add: weight_member)

lemma fits_step_weight:
  "fits_step sw gm brk cmd cs t = Inr (cs', t') \<Longrightarrow> weight cs' < doc_weight (coDoc cmd) + weight cs"
  using weight_last
  by (cases "coDoc cmd") (force simp: fits_step_def ifBreakContents_def Let_def split: if_splits option.splits)+

function fits_loop :: "(bytes \<Rightarrow> nat) \<Rightarrow> (int \<rightharpoonup> mode) \<Rightarrow> store \<Rightarrow> command list \<Rightarrow> command list \<Rightarrow> fit \<Rightarrow> bool" where
  "fits_loop sw gm brk cs rest t =
     (if ftRemaining t < 0 then False
      else case cs of
        [] \<Rightarrow> (case rest of [] \<Rightarrow> True | c # rest' \<Rightarrow> fits_loop sw gm brk [c] rest' t)
      | cmd # cs' \<Rightarrow>
          (case fits_step sw gm brk cmd cs' t of
             Inl b \<Rightarrow> b
           | Inr (cs'', t') \<Rightarrow> fits_loop sw gm brk cs'' rest t'))"
  by pat_completeness auto
termination
  by (relation "measure (\<lambda>(sw, gm, brk, cs, rest, t). weight cs + weight rest + length rest)")
    (auto dest: fits_step_weight)

declare fits_loop.simps [simp del]

definition MaxInt :: int where "MaxInt = 2 ^ 63 - 1"

definition fits :: "(bytes \<Rightarrow> nat) \<Rightarrow> (int \<rightharpoonup> mode) \<Rightarrow> store \<Rightarrow> command \<Rightarrow> command list \<Rightarrow> int \<Rightarrow> bool \<Rightarrow> bool" where
  "fits sw gm brk next_cmd rest remainingWidth hasLineSuffix =
     (if remainingWidth = MaxInt then True
      else fits_loop sw gm brk [next_cmd] rest
        \<lparr>ftRemaining = remainingWidth, ftPending = False, ftOutput = [], ftSuffix = hasLineSuffix\<rparr>)"

section \<open>Groups\<close>

text \<open>The states after the first and before the last one, tried in order.\<close>

definition candidates :: "Doc list \<Rightarrow> Doc list" where
  "candidates ex = butlast (tl ex)"

definition printGroup :: "(bytes \<Rightarrow> nat) \<Rightarrow> store \<Rightarrow> command \<Rightarrow> nat \<Rightarrow> Doc \<Rightarrow> Doc list \<Rightarrow> command list \<Rightarrow> printer \<Rightarrow>
    command \<times> printer" where
  "printGroup sw brk cmd g d ex rest p =
     (if coMode cmd = modeFlat \<and> \<not> pnShouldRemeasure p
      then (cmd\<lparr>coMode := if brk g then modeBreak else modeFlat, coDoc := d\<rparr>, p)
      else
        let p = p\<lparr>pnShouldRemeasure := False\<rparr>;
            remaining = opPrintWidth (pnO p) - pnPosition p;
            hasLineSuffix = pnLineSuffix p \<noteq> [];
            ok = (\<lambda>c. fits sw (pnGroupMode p) brk c rest remaining hasLineSuffix);
            flat = cmd\<lparr>coMode := modeFlat, coDoc := d\<rparr> in
        if \<not> brk g \<and> ok flat then (flat, p)
        else if ex = [] then (cmd\<lparr>coMode := modeBreak, coDoc := d\<rparr>, p)
        else (case (if brk g then None
                    else find (\<lambda>e. ok (cmd\<lparr>coMode := modeFlat, coDoc := e\<rparr>)) (candidates ex)) of
            Some e \<Rightarrow> (cmd\<lparr>coMode := modeFlat, coDoc := e\<rparr>, p)
          | None \<Rightarrow> (cmd\<lparr>coMode := modeBreak, coDoc := last ex\<rparr>, p)))"

section \<open>The main loop\<close>

definition print_text :: "(bytes \<Rightarrow> nat) \<Rightarrow> bytes \<Rightarrow> command list \<Rightarrow> printer \<Rightarrow> printer" where
  "print_text sw s cs p =
     (if s = [] then p
      else (let p = write_out s p;
                p = (if cs \<noteq> [] then p\<lparr>pnPosition := pnPosition p + int (sw s)\<rparr> else p) in
        p\<lparr>pnLastLineComment := False\<rparr>))"

text \<open>The case \<open>modeBreak\<close> of a line, into which a hard line in flat mode falls through.\<close>

definition print_newline :: "LineDoc \<Rightarrow> command \<Rightarrow> command list \<Rightarrow> printer \<Rightarrow> command list \<times> printer" where
  "print_newline l cmd cs p =
     (if pnLineSuffix p \<noteq> [] then (pnLineSuffix p @ cmd # cs, p\<lparr>pnLineSuffix := []\<rparr>)
      else if ldLiteral l then
        (cs, (write_out (opNewLine (pnO p)) p)\<lparr>pnPosition := 0, pnLastLineComment := False\<rparr>)
      else if \<not> ldHard l \<and> lineEnded p \<and> (\<not> ldAfterComment l \<or> pnLastLineComment p) then
        (cs, (writeIndent (coIndentation cmd) (snd (trim p)))\<lparr>pnPosition := inLength (coIndentation cmd)\<rparr>)
      else
        (let p = write_out (opNewLine (pnO p)) (snd (trim p));
             p = (writeIndent (coIndentation cmd) p)\<lparr>pnPosition := inLength (coIndentation cmd)\<rparr> in
         (cs, if ldComment l then p\<lparr>pnLastLineComment := True\<rparr>
              else if \<not> ldHard l then p\<lparr>pnLastLineComment := False\<rparr> else p)))"

definition print_line :: "LineDoc \<Rightarrow> command \<Rightarrow> command list \<Rightarrow> printer \<Rightarrow> command list \<times> printer" where
  "print_line l cmd cs p =
     (if coMode cmd = modeFlat then
        (if \<not> ldHard l then
           (cs, if \<not> ldSoft l then (write_out [SPACE] p)\<lparr>pnPosition := pnPosition p + 1\<rparr> else p)
         else print_newline l cmd cs (p\<lparr>pnShouldRemeasure := True\<rparr>))
      else print_newline l cmd cs p)"

definition print_step :: "(bytes \<Rightarrow> nat) \<Rightarrow> store \<Rightarrow> command \<Rightarrow> command list \<Rightarrow> printer \<Rightarrow> command list \<times> printer" where
  "print_step sw brk cmd cs p = (case coDoc cmd of
     D_text s \<Rightarrow> (cs, print_text sw s cs p)
   | D_concat parts \<Rightarrow> (push_parts cmd parts cs, p)
   | D_indent d \<Rightarrow> (cmd\<lparr>coIndentation := indentation_add (pnO p) (coIndentation cmd), coDoc := d\<rparr> # cs, p)
   | D_align n d \<Rightarrow> (cmd\<lparr>coIndentation := indentation_align n (pnO p) (coIndentation cmd), coDoc := d\<rparr> # cs, p)
   | D_trim \<Rightarrow> (let (n, p) = trim p in (cs, p\<lparr>pnPosition := pnPosition p - int n\<rparr>))
   | D_group g d i ex \<Rightarrow>
       (let (gcmd, p) = printGroup sw brk cmd g d ex cs p in
        (gcmd # cs, if i \<noteq> 0 then p\<lparr>pnGroupMode := (pnGroupMode p)(i \<mapsto> coMode gcmd)\<rparr> else p))
   | D_ifBreak b f i \<Rightarrow> (push_opt cmd (ifBreakContents (pnGroupMode p) b f i (coMode cmd)) cs, p)
   | D_lineSuffix d \<Rightarrow> (cs, p\<lparr>pnLineSuffix := pnLineSuffix p @ [cmd\<lparr>coDoc := d\<rparr>]\<rparr>)
   | D_lineSuffixBoundary \<Rightarrow>
       (if pnLineSuffix p \<noteq> [] then cmd\<lparr>coDoc := HardLineNoBreak\<rparr> # cs else cs, p)
   | D_line l \<Rightarrow> print_line l cmd cs p
   | D_breakParent \<Rightarrow> (cs, p))"

text \<open>Pending suffixes are printed when no command is left.\<close>

definition flush :: "command list \<times> printer \<Rightarrow> command list \<times> printer" where
  "flush = (\<lambda>(cs, p). if cs = [] \<and> pnLineSuffix p \<noteq> [] then (pnLineSuffix p, p\<lparr>pnLineSuffix := []\<rparr>) else (cs, p))"

definition pending :: "printer \<Rightarrow> nat" where
  "pending p = weight (pnLineSuffix p) + length (pnLineSuffix p)"

lemma write_out_simps [simp]:
  "pnLineSuffix (write_out s p) = pnLineSuffix p" "pnO (write_out s p) = pnO p" "pnPosition (write_out s p) = pnPosition p"
  "pnOut (write_out s p) = pnOut p @ s" "pnPrefixes (write_out s p) = pnPrefixes p"
  "pnGroupMode (write_out s p) = pnGroupMode p" "pnShouldRemeasure (write_out s p) = pnShouldRemeasure p"
  "pnLastLineComment (write_out s p) = pnLastLineComment p"
  by (simp_all add: write_out_def)

lemma trim_simps [simp]:
  "pnLineSuffix (snd (trim p)) = pnLineSuffix p" "pnO (snd (trim p)) = pnO p" "pnPrefixes (snd (trim p)) = pnPrefixes p"
  "pnPosition (snd (trim p)) = pnPosition p" "pnGroupMode (snd (trim p)) = pnGroupMode p"
  by (simp_all add: trim_def Let_def)

lemma trim_eq: "trim p = (n, q) \<Longrightarrow> pnLineSuffix q = pnLineSuffix p"
  by (auto simp: trim_def Let_def)

lemma writeIndent_simps [simp]:
  "pnLineSuffix (writeIndent i p) = pnLineSuffix p" "pnO (writeIndent i p) = pnO p"
  "pnGroupMode (writeIndent i p) = pnGroupMode p"
  by (simp_all add: writeIndent_def indentPrefix_def Let_def)

lemma print_text_suffix [simp]: "pnLineSuffix (print_text sw s cs p) = pnLineSuffix p"
  by (simp add: print_text_def Let_def)

lemma find_candidates: "find P (candidates ex) = Some e \<Longrightarrow> e \<in> set ex"
proof -
  assume "find P (candidates ex) = Some e"
  then have "e \<in> set (candidates ex)" by (auto simp: find_Some_iff)
  then show "e \<in> set ex" by (cases ex) (auto simp: candidates_def dest: in_set_butlastD)
qed

lemma printGroup_weight:
  "printGroup sw brk cmd g d ex rest p = (c, p') \<Longrightarrow>
   doc_weight (coDoc c) \<le> doc_weight d + sum_list (map doc_weight ex) \<and> pnLineSuffix p' = pnLineSuffix p"
proof -
  have "doc_weight e \<le> sum_list (map doc_weight ex)" if "find P (candidates ex) = Some e" for e P
    by (rule weight_member[OF find_candidates[OF that]])
  then show "printGroup sw brk cmd g d ex rest p = (c, p') \<Longrightarrow> ?thesis"
    using weight_last[of ex]
    by (auto simp: printGroup_def Let_def split: if_splits option.splits intro: trans_le_add2)
qed

lemma print_step_weight:
  "print_step sw brk cmd cs p = (cs', p') \<Longrightarrow>
   weight cs' + pending p' < doc_weight (coDoc cmd) + weight cs + pending p"
  using trim_simps(1)[of p]
  by (cases "coDoc cmd")
    (auto simp: print_step_def print_line_def print_newline_def pending_def Let_def HardLineNoBreak_def ifBreakContents_def
      split: if_splits option.splits prod.splits dest!: printGroup_weight trim_eq)

lemma flush_weight: "flush (cs, p) = (cs', p') \<Longrightarrow> weight cs' + pending p' \<le> weight cs + pending p"
  by (auto simp: flush_def pending_def split: if_splits)

lemma step_flush_weight:
  "flush (print_step sw brk cmd cs p) = (cs', p') \<Longrightarrow>
   weight cs' + pending p' < doc_weight (coDoc cmd) + weight cs + pending p"
proof -
  assume *: "flush (print_step sw brk cmd cs p) = (cs', p')"
  obtain a b where ab: "print_step sw brk cmd cs p = (a, b)" by fastforce
  from * have "flush (a, b) = (cs', p')" by (simp only: ab)
  from flush_weight[OF this] print_step_weight[OF ab] show ?thesis by linarith
qed

lemma step_flush_weight':
  "(case flush (print_step sw brk cmd cs p) of (cs', p') \<Rightarrow> weight cs' + pending p')
   < doc_weight (coDoc cmd) + weight cs + pending p"
  by (cases "flush (print_step sw brk cmd cs p)") (simp add: step_flush_weight)

function run :: "(bytes \<Rightarrow> nat) \<Rightarrow> store \<Rightarrow> command list \<Rightarrow> printer \<Rightarrow> printer" where
  "run sw brk cs p =
     (case cs of
        [] \<Rightarrow> p
      | cmd # rest \<Rightarrow> (let (cs', p') = flush (print_step sw brk cmd rest p) in run sw brk cs' p'))"
  by pat_completeness auto
termination
  by (relation "measure (\<lambda>(sw, brk, cs, p). weight cs + pending p)")
    (auto simp: step_flush_weight')

declare run.simps [simp del]

definition start_command :: "Doc \<Rightarrow> command" where
  "start_command d = \<lparr>coIndentation = \<lparr>inLevels = 0, inAlignN = 0, inLength = 0\<rparr>, coMode = modeBreak, coDoc = d\<rparr>"

text \<open>
  \<open>Print\<close> takes a printer from a pool, in whatever state its last use left it, and
  the flags of the groups; it returns the text or an error, the printer and the
  flags after propagation.
\<close>

definition Print :: "(bytes \<Rightarrow> nat) \<Rightarrow> printer \<Rightarrow> store \<Rightarrow> Doc \<Rightarrow> Options \<Rightarrow> ((option_error + bytes) \<times> printer \<times> store) option" where
  "Print sw p brk d opts =
     (case validateOptions opts of
        Some e \<Rightarrow> Some (Inl e, p, brk)
      | None \<Rightarrow> do {
          brk \<leftarrow> propagateBreaks d brk;
          let p = run sw brk [start_command d] (reset opts p);
          Some (Inr (pnOut p), p, brk) })"

end
