(* ===== verification/DocProps.thy ===== *)
theory DocProps imports DocPrint
begin

text \<open>
  Break propagation and string widths of \<open>doc/\<close>: the flags after propagation
  against a declarative reading of a document, its fixpoint, the way a shared
  group defeats it, and the fast path of \<open>stringWidth\<close>.
\<close>

section \<open>What propagation computes\<close>

text \<open>The groups of a document, in the order of the traversal.\<close>

fun groups :: "Doc \<Rightarrow> nat list" where
  "groups (D_concat ds) = concat (map groups ds)"
| "groups (D_group g d i ex) = g # concat (map groups ex) @ groups d"
| "groups (D_ifBreak b f i) =
     (case b of None \<Rightarrow> [] | Some d \<Rightarrow> groups d) @ (case f of None \<Rightarrow> [] | Some d \<Rightarrow> groups d)"
| "groups (D_indent d) = groups d"
| "groups (D_align n d) = groups d"
| "groups (D_lineSuffix d) = groups d"
| "groups _ = []"

text \<open>Whether a document forces the group around it to break.\<close>

fun forced :: "store \<Rightarrow> Doc \<Rightarrow> bool" where
  "forced brk D_breakParent = True"
| "forced brk (D_concat ds) = list_ex (forced brk) ds"
| "forced brk (D_group g d i ex) = (brk g \<or> list_ex (forced brk) ex \<or> forced brk d)"
| "forced brk (D_ifBreak b f i) =
     ((case b of None \<Rightarrow> False | Some d \<Rightarrow> forced brk d) \<or> (case f of None \<Rightarrow> False | Some d \<Rightarrow> forced brk d))"
| "forced brk (D_indent d) = forced brk d"
| "forced brk (D_align n d) = forced brk d"
| "forced brk (D_lineSuffix d) = forced brk d"
| "forced brk _ = False"

fun broken_groups :: "store \<Rightarrow> Doc \<Rightarrow> nat list" where
  "broken_groups brk (D_concat ds) = concat (map (broken_groups brk) ds)"
| "broken_groups brk (D_group g d i ex) =
     (if forced brk (D_group g d i ex) then [g] else []) @ concat (map (broken_groups brk) ex) @ broken_groups brk d"
| "broken_groups brk (D_ifBreak b f i) =
     (case b of None \<Rightarrow> [] | Some d \<Rightarrow> broken_groups brk d) @ (case f of None \<Rightarrow> [] | Some d \<Rightarrow> broken_groups brk d)"
| "broken_groups brk (D_indent d) = broken_groups brk d"
| "broken_groups brk (D_align n d) = broken_groups brk d"
| "broken_groups brk (D_lineSuffix d) = broken_groups brk d"
| "broken_groups brk _ = []"

lemma broken_subset: "set (broken_groups brk d) \<subseteq> set (groups d)"
proof (induction d)
  case (D_concat ds)
  then show ?case by fastforce
next
  case (D_group g d i ex)
  then show ?case by fastforce
next
  case (D_ifBreak b f i)
  then show ?case by (fastforce split: option.splits)
qed auto

lemma forced_cong: "(\<And>g. g \<in> set (groups d) \<Longrightarrow> brk g = brk' g) \<Longrightarrow> forced brk d = forced brk' d"
proof (induction d)
  case (D_concat ds)
  then have "\<forall>d\<in>set ds. forced brk d = forced brk' d" by fastforce
  then show ?case by (auto simp: list_ex_iff)
next
  case (D_group g d i ex)
  then have "\<forall>d\<in>set ex. forced brk d = forced brk' d" "forced brk d = forced brk' d" "brk g = brk' g"
    by fastforce+
  then show ?case by (auto simp: list_ex_iff)
next
  case (D_ifBreak b f i)
  then show ?case by (fastforce split: option.splits)
qed auto

lemma broken_cong: "(\<And>g. g \<in> set (groups d) \<Longrightarrow> brk g = brk' g) \<Longrightarrow> broken_groups brk d = broken_groups brk' d"
proof (induction d)
  case (D_concat ds)
  then have "map (broken_groups brk) ds = map (broken_groups brk') ds" by fastforce
  then show ?case by (simp only: broken_groups.simps)
next
  case (D_group g d i ex)
  have "forced brk (D_group g d i ex) = forced brk' (D_group g d i ex)"
    by (rule forced_cong) (rule D_group.prems)
  moreover have "map (broken_groups brk) ex = map (broken_groups brk') ex" "broken_groups brk d = broken_groups brk' d"
    using D_group.IH D_group.prems by fastforce+
  ultimately show ?case by (simp only: broken_groups.simps)
next
  case (D_ifBreak b f i)
  then show ?case by (fastforce split: option.splits)
qed auto

definition bump :: "nat list \<Rightarrow> bool \<Rightarrow> store \<Rightarrow> store" where
  "bump st b brk = (if b then (case st of [] \<Rightarrow> brk | g # _ \<Rightarrow> brk(g := True)) else brk)"

definition effects :: "Doc list \<Rightarrow> propagation \<Rightarrow> propagation" where
  "effects ds s = s\<lparr>
     prBrk := bump (prStack s) (list_ex (forced (prBrk s)) ds)
       (\<lambda>r. prBrk s r \<or> r \<in> (\<Union>d\<in>set ds. set (broken_groups (prBrk s) d))),
     prVisited := prVisited s \<union> (\<Union>d\<in>set ds. set (groups d))\<rparr>"

lemma effects_sel [simp]: "prStack (effects ds s) = prStack s"
  "prVisited (effects ds s) = prVisited s \<union> (\<Union>d\<in>set ds. set (groups d))"
  by (simp_all add: effects_def)

lemma effects_keep:
  assumes "g \<notin> set (prStack s)" "\<And>d. d \<in> set ds \<Longrightarrow> g \<notin> set (groups d)"
  shows "prBrk (effects ds s) g = prBrk s g"
proof -
  have "g \<notin> set (broken_groups (prBrk s) d)" if "d \<in> set ds" for d
    using assms(2)[OF that] broken_subset by blast
  then show ?thesis using assms(1) by (auto simp: effects_def bump_def split: list.split)
qed

lemma effects_Cons:
  assumes "\<And>d g. d \<in> set ds \<Longrightarrow> g \<in> set (groups d) \<Longrightarrow> g \<notin> set (prStack s) \<and> g \<notin> set (groups e)"
  shows "effects ds (effects [e] s) = effects (e # ds) s"
proof -
  let ?b = "prBrk (effects [e] s)"
  have same: "?b g = prBrk s g" if "d \<in> set ds" "g \<in> set (groups d)" for d g
    by (rule effects_keep) (use assms that in auto)
  have f: "forced ?b d = forced (prBrk s) d" if "d \<in> set ds" for d
    by (rule forced_cong) (use same that in blast)
  have b: "broken_groups ?b d = broken_groups (prBrk s) d" if "d \<in> set ds" for d
    by (rule broken_cong) (use same that in blast)
  have ex: "list_ex (forced ?b) ds = list_ex (forced (prBrk s)) ds"
    using f by (auto simp: list_ex_iff)
  have un: "(\<Union>d\<in>set ds. set (broken_groups ?b d)) = (\<Union>d\<in>set ds. set (broken_groups (prBrk s) d))"
    using b by auto
  have "effects ds (effects [e] s) = (effects [e] s)\<lparr>
      prBrk := bump (prStack s) (list_ex (forced (prBrk s)) ds)
        (\<lambda>r. ?b r \<or> r \<in> (\<Union>d\<in>set ds. set (broken_groups (prBrk s) d))),
      prVisited := prVisited (effects [e] s) \<union> (\<Union>d\<in>set ds. set (groups d))\<rparr>"
    unfolding effects_def[of ds] by (simp only: effects_sel ex un)
  also have "\<dots> = effects (e # ds) s"
    by (rule propagation.equality) (auto simp: effects_def bump_def fun_eq_iff split: list.split)
  finally show ?thesis .
qed

lemma loop_effects:
  assumes "\<And>d s. d \<in> set ds \<Longrightarrow> distinct (groups d) \<Longrightarrow> set (groups d) \<inter> (prVisited s \<union> set (prStack s)) = {} \<Longrightarrow>
      f d s = Some (effects [d] s)"
    and "distinct (concat (map groups ds))" "(\<Union>d\<in>set ds. set (groups d)) \<inter> (prVisited s \<union> set (prStack s)) = {}"
  shows "loopM f ds s = Some (effects ds s)"
  using assms
proof (induction ds arbitrary: s)
  case Nil
  then show ?case by (simp add: effects_def bump_def)
next
  case (Cons e ds)
  have e: "f e s = Some (effects [e] s)"
    by (rule Cons.prems(1)) (use Cons.prems(2,3) in auto)
  have dis: "g \<notin> set (groups e)" "g \<notin> set (prStack s)" if "d \<in> set ds" "g \<in> set (groups d)" for d g
    using Cons.prems(2,3) that by (auto simp: distinct_append)
  have "loopM f ds (effects [e] s) = Some (effects ds (effects [e] s))"
    by (rule Cons.IH) (use Cons.prems dis in auto)
  then show ?case using e dis by (simp add: effects_Cons)
qed

lemma loopM_append: "loopM f (xs @ ys) s = Option.bind (loopM f xs s) (loopM f ys)"
  by (induction xs arbitrary: s) (auto split: bind_splits)

lemma loopM_Nil [simp]: "loopM f [] = Some"
  by (rule ext) simp

lemma loopM_single [simp]: "loopM f [x] = f x"
  by (rule ext) simp

lemma exit_other [simp]: "exit (D_ifBreak b f i) = Some" "exit (D_indent d) = Some" "exit (D_align n d) = Some"
  "exit (D_lineSuffix d) = Some" "exit (D_concat ds) = Some"
  by (rule ext, simp add: exit_def)+

text \<open>The children of a document as one list; a group's states come before its document.\<close>

definition opt_list :: "'a option \<Rightarrow> 'a list" where
  "opt_list x = (case x of None \<Rightarrow> [] | Some y \<Rightarrow> [y])"

lemma opt_loop_Some [simp]: "opt_loop f (Some x) = f x"
  by (rule ext) simp

lemma traverse_effects:
  "distinct (groups d) \<Longrightarrow> set (groups d) \<inter> (prVisited s \<union> set (prStack s)) = {} \<Longrightarrow>
   traverseDoc d s = Some (effects [d] s)"
proof (induction d arbitrary: s)
  case (D_concat ds)
  have "loopM traverseDoc ds s = Some (effects ds s)"
    by (rule loop_effects) (use D_concat in auto)
  then show ?case
    by (simp add: traverseDoc.simps[of "D_concat ds"] enter_def exit_def) (simp add: effects_def)
next
  case (D_ifBreak b f i)
  let ?ds = "opt_list b @ opt_list f"
  have "loopM traverseDoc ?ds s = Some (effects ?ds s)"
    by (rule loop_effects) (use D_ifBreak in \<open>auto simp: opt_list_def split: option.splits\<close>)
  then show ?case
    by (cases b; cases f)
      (simp_all add: traverseDoc.simps[of "D_ifBreak b' f' i" for b' f'] enter_def loopM_append opt_list_def effects_def)
next
  case (D_group g d i ex)
  let ?s = "s\<lparr>prStack := g # prStack s, prVisited := insert g (prVisited s)\<rparr>"
  have "loopM traverseDoc (ex @ [d]) ?s = Some (effects (ex @ [d]) ?s)"
    by (rule loop_effects) (use D_group in auto)
  then have body: "Option.bind (loopM traverseDoc ex ?s) (traverseDoc d) = Some (effects (ex @ [d]) ?s)"
    by (simp add: loopM_append)
  have body': "Option.bind (loopM traverseDoc ex ?s) (\<lambda>y. Option.bind (traverseDoc d y) (exit (D_group g d i ex))) =
      exit (D_group g d i ex) (effects (ex @ [d]) ?s)"
    using arg_cong[OF body, of "\<lambda>x. Option.bind x (exit (D_group g d i ex))"] by simp
  have "g \<notin> prVisited s" using D_group.prems by auto
  then have "traverseDoc (D_group g d i ex) s = exit (D_group g d i ex) (effects (ex @ [d]) ?s)"
    by (simp add: traverseDoc.simps[of "D_group g d i ex"] enter_def body')
  also have "\<dots> = Some (effects [D_group g d i ex] s)"
  proof -
    let ?G = "D_group g d i ex"
    let ?e = "(effects (ex @ [d]) ?s)\<lparr>prStack := prStack s\<rparr>"
    have "g \<notin> set (groups e)" if "e \<in> set (ex @ [d])" for e using D_group.prems(1) that by auto
    then have "g \<notin> set (broken_groups (prBrk s) e)" if "e \<in> set (ex @ [d])" for e
      using broken_subset that by blast
    then have brk: "prBrk ?e = (\<lambda>r. prBrk s r \<or> r \<in> set (broken_groups (prBrk s) ?G))"
      by (auto simp: effects_def bump_def fun_eq_iff)
    have "prBrk ?e g \<longleftrightarrow> forced (prBrk s) ?G" unfolding brk using \<open>\<And>e. e \<in> set (ex @ [d]) \<Longrightarrow> g \<notin> set (broken_groups (prBrk s) e)\<close>
      by auto
    then have "exit ?G (effects (ex @ [d]) ?s) = Some (if forced (prBrk s) ?G then breakParentGroup ?e else ?e)"
      by (simp add: exit_def)
    also have "(if forced (prBrk s) ?G then breakParentGroup ?e else ?e) =
        ?e\<lparr>prBrk := bump (prStack s) (forced (prBrk s) ?G) (prBrk ?e)\<rparr>"
      by (simp add: breakParentGroup_def bump_def split: list.split)
    also have "\<dots> = effects [?G] s"
      unfolding brk by (rule propagation.equality) (auto simp: effects_def)
    finally show ?thesis .
  qed
  finally show ?case .
qed (simp_all add: traverseDoc.simps[of "D_text _"] traverseDoc.simps[of "D_line _"] traverseDoc.simps[of "D_indent _"]
    traverseDoc.simps[of "D_align _ _"] traverseDoc.simps[of "D_lineSuffix _"] traverseDoc.simps[of D_lineSuffixBoundary]
    traverseDoc.simps[of D_trim] traverseDoc.simps[of D_breakParent]
    enter_def exit_def effects_def bump_def breakParentGroup_def split: list.split)

lemma propagateBreaks_marked:
  "distinct (groups d) \<Longrightarrow> propagateBreaks d brk = Some (\<lambda>r. brk r \<or> r \<in> set (broken_groups brk d))"
  using traverse_effects[of d "\<lparr>prBrk = brk, prVisited = {}, prStack = []\<rparr>"]
  by (simp add: propagateBreaks_def effects_def bump_def)

section \<open>Properties of propagation\<close>

text \<open>
  C19: on a document in which no group is shared, \<open>propagateBreaks\<close> sets exactly the
  flags of the groups that have to break: those whose flag was set before, that
  contain a break of the parent, or that contain a group that has to break. The
  flags of all other groups stay as they are, and no stack access panics.
\<close>

theorem propagateBreaks_correct:
  assumes "distinct (groups d)"
  shows "propagateBreaks d brk = Some (\<lambda>r. brk r \<or> r \<in> set (broken_groups brk d))"
  using assms by (rule propagateBreaks_marked)

text \<open>A document in which a hard line breaks the groups around it and no other group.\<close>

definition nested_groups :: Doc where
  "nested_groups = D_group 0 (D_concat [D_group 1 (D_text ''a'') 0 [], D_indent (D_group 2 HardLine 0 [])]) 0 []"

lemma propagateBreaks_correct_witness:
  "distinct (groups nested_groups) \<and>
   propagateBreaks nested_groups (\<lambda>_. False) = Some (\<lambda>r. r = 0 \<or> r = 2)"
proof -
  have "distinct (groups nested_groups)" by (simp add: nested_groups_def HardLine_def)
  moreover have "(\<lambda>r. False \<or> r \<in> set (broken_groups (\<lambda>_. False) nested_groups)) = (\<lambda>r. r = 0 \<or> r = 2)"
    by (auto simp: nested_groups_def HardLine_def fun_eq_iff)
  ultimately show ?thesis using propagateBreaks_correct[of nested_groups "\<lambda>_. False"] by simp
qed

lemma part_broken:
  assumes "distinct (concat (map groups ds))" "e \<in> set ds" "g \<in> set (groups e)" "d \<in> set ds" "g \<in> set (broken_groups brk d)"
  shows "g \<in> set (broken_groups brk e)"
  using assms broken_subset by (induction ds) fastforce+

lemma marked_parts:
  assumes "\<And>d. d \<in> set ds \<Longrightarrow> distinct (groups d) \<Longrightarrow>
      (\<And>g. g \<in> set (groups d) \<Longrightarrow> brk' g \<longleftrightarrow> brk g \<or> g \<in> set (broken_groups brk d)) \<Longrightarrow>
      forced brk' d = forced brk d \<and> broken_groups brk' d = broken_groups brk d"
    and dis: "distinct (concat (map groups ds))"
    and brk': "\<And>d g. d \<in> set ds \<Longrightarrow> g \<in> set (groups d) \<Longrightarrow>
      brk' g \<longleftrightarrow> brk g \<or> g \<in> set (concat (map (broken_groups brk) ds))"
  shows "list_ex (forced brk') ds = list_ex (forced brk) ds \<and> map (broken_groups brk') ds = map (broken_groups brk) ds"
proof -
  have "forced brk' d = forced brk d \<and> broken_groups brk' d = broken_groups brk d" if d: "d \<in> set ds" for d
  proof (rule assms(1)[OF d])
    show "distinct (groups d)" using dis d by (auto simp: distinct_concat_iff)
    show "brk' g \<longleftrightarrow> brk g \<or> g \<in> set (broken_groups brk d)" if "g \<in> set (groups d)" for g
      using brk'[OF d that] part_broken[OF dis d that] d by auto
  qed
  then show ?thesis by (auto simp: list_ex_iff)
qed

lemma marked_again:
  "distinct (groups d) \<Longrightarrow> (\<And>g. g \<in> set (groups d) \<Longrightarrow> brk' g \<longleftrightarrow> brk g \<or> g \<in> set (broken_groups brk d)) \<Longrightarrow>
   forced brk' d = forced brk d \<and> broken_groups brk' d = broken_groups brk d"
proof (induction d)
  case (D_concat ds)
  have "list_ex (forced brk') ds = list_ex (forced brk) ds \<and> map (broken_groups brk') ds = map (broken_groups brk) ds"
    by (rule marked_parts) (use D_concat in auto)
  then show ?case by (simp only: broken_groups.simps forced.simps)
next
  case (D_ifBreak b f i)
  let ?ds = "opt_list b @ opt_list f"
  have "list_ex (forced brk') ?ds = list_ex (forced brk) ?ds \<and> map (broken_groups brk') ?ds = map (broken_groups brk) ?ds"
    by (rule marked_parts) (use D_ifBreak in \<open>auto simp: opt_list_def split: option.splits\<close>)
  then show ?case by (auto simp: opt_list_def split: option.splits)
next
  case (D_group g d i ex)
  let ?G = "D_group g d i ex" and ?ds = "ex @ [d]"
  have g: "g \<notin> set (groups e)" if "e \<in> set ?ds" for e using D_group.prems(1) that by auto
  have "list_ex (forced brk') ?ds = list_ex (forced brk) ?ds \<and> map (broken_groups brk') ?ds = map (broken_groups brk) ?ds"
  proof (rule marked_parts)
    show "brk' r \<longleftrightarrow> brk r \<or> r \<in> set (concat (map (broken_groups brk) ?ds))"
      if "e \<in> set ?ds" "r \<in> set (groups e)" for e r
      using D_group.prems(2)[of r] that g[OF that(1)] by auto
  qed (use D_group.IH D_group.prems(1) in auto)
  moreover have "brk' g \<longleftrightarrow> forced brk ?G"
  proof -
    have "g \<notin> set (broken_groups brk e)" if "e \<in> set ?ds" for e using g[OF that] broken_subset by blast
    then show ?thesis using D_group.prems(2)[of g] by auto
  qed
  ultimately have "forced brk' ?G = forced brk ?G" "map (broken_groups brk') ex = map (broken_groups brk) ex"
    "broken_groups brk' d = broken_groups brk d" by auto
  then show ?case by (simp only: broken_groups.simps)
qed simp_all

text \<open>
  propagation is a fixpoint. Printing a document a second time finds the flags
  as the first \<open>propagateBreaks\<close> left them and changes nothing.
\<close>

theorem propagateBreaks_fixpoint:
  assumes "distinct (groups d)" and "propagateBreaks d brk = Some brk'"
  shows "propagateBreaks d brk' = Some brk'"
proof -
  have b: "brk' = (\<lambda>r. brk r \<or> r \<in> set (broken_groups brk d))"
    using assms(2) by (simp add: propagateBreaks_marked[OF assms(1)])
  have "broken_groups brk' d = broken_groups brk d"
    using marked_again[OF assms(1), of brk' brk] by (simp add: b)
  then show ?thesis by (simp add: propagateBreaks_marked[OF assms(1)]) (auto simp: b)
qed

lemma propagateBreaks_fixpoint_witness:
  "propagateBreaks nested_groups (\<lambda>r. r = 0 \<or> r = 2) = Some (\<lambda>r. r = 0 \<or> r = 2)"
proof -
  have d: "distinct (groups nested_groups)" by (simp add: nested_groups_def HardLine_def)
  have "(\<lambda>r. False \<or> r \<in> set (broken_groups (\<lambda>_. False) nested_groups)) = (\<lambda>r. r = 0 \<or> r = 2)"
    by (auto simp: nested_groups_def HardLine_def fun_eq_iff)
  then have "propagateBreaks nested_groups (\<lambda>_. False) = Some (\<lambda>r. r = 0 \<or> r = 2)"
    using propagateBreaks_marked[OF d, of "\<lambda>_. False"] by simp
  then show ?thesis by (rule propagateBreaks_fixpoint[OF d])
qed

section \<open>Shared groups\<close>

text \<open>
  A traversal that meets a group again returns from \<open>enter\<close> with the group on the
  stack and skips \<open>exit\<close>. It never panics, since the stack only gets too long.
\<close>

lemma loop_stack:
  assumes "\<And>d s. d \<in> set ds \<Longrightarrow> \<exists>s' extra. f d s = Some s' \<and> prStack s' = extra @ prStack s"
  shows "\<exists>s' extra. loopM f ds s = Some s' \<and> prStack s' = extra @ prStack s"
  using assms
proof (induction ds arbitrary: s)
  case (Cons d ds)
  obtain s1 e1 where 1: "f d s = Some s1" "prStack s1 = e1 @ prStack s" using Cons.prems[of d s] by auto
  obtain s2 e2 where 2: "loopM f ds s1 = Some s2" "prStack s2 = e2 @ prStack s1"
    using Cons.IH[of s1] Cons.prems by (meson list.set_intros(2))
  from 1 2 show ?case by auto
qed simp

lemma traverse_stack: "\<exists>s' extra. traverseDoc d s = Some s' \<and> prStack s' = extra @ prStack s"
proof (induction d arbitrary: s)
  case (D_concat ds)
  have "\<exists>s' extra. loopM traverseDoc ds s = Some s' \<and> prStack s' = extra @ prStack s"
    by (rule loop_stack) (rule D_concat)
  then show ?case by (auto simp: traverseDoc.simps[of "D_concat ds"] enter_def exit_def)
next
  case (D_ifBreak b f i)
  have "\<exists>s' extra. loopM traverseDoc (opt_list b @ opt_list f) s = Some s' \<and> prStack s' = extra @ prStack s"
    by (rule loop_stack) (use D_ifBreak in \<open>auto simp: opt_list_def split: option.splits\<close>)
  then show ?case
    by (cases b; cases f)
      (auto simp: traverseDoc.simps[of "D_ifBreak b' f' i" for b' f'] enter_def loopM_append opt_list_def)
next
  case (D_group g d i ex)
  let ?s = "s\<lparr>prStack := g # prStack s, prVisited := insert g (prVisited s)\<rparr>"
  have "\<exists>s' extra. loopM traverseDoc (ex @ [d]) ?s = Some s' \<and> prStack s' = extra @ prStack ?s"
    by (rule loop_stack) (use D_group in auto)
  then obtain s' extra where s': "Option.bind (loopM traverseDoc ex ?s) (traverseDoc d) = Some s'"
    and st: "prStack s' = extra @ g # prStack s"
    by (auto simp: loopM_append)
  have body: "Option.bind (loopM traverseDoc ex ?s) (\<lambda>y. Option.bind (traverseDoc d y) (exit (D_group g d i ex))) =
      exit (D_group g d i ex) s'"
    using arg_cong[OF s', of "\<lambda>x. Option.bind x (exit (D_group g d i ex))"] by simp
  have "\<exists>s'' e. exit (D_group g d i ex) s' = Some s'' \<and> prStack s'' = e @ prStack s"
  proof -
    obtain a l where al: "prStack s' = a # l @ prStack s" using st by (cases extra) auto
    have "prStack (breakParentGroup t) = prStack t" for t by (simp add: breakParentGroup_def split: list.split)
    then show ?thesis by (auto simp: exit_def al Let_def)
  qed
  then show ?case
    by (cases "g \<in> prVisited s") (auto simp: traverseDoc.simps[of "D_group g d i ex"] enter_def body)
qed (auto simp: traverseDoc.simps[of "D_text _"] traverseDoc.simps[of "D_line _"] traverseDoc.simps[of "D_indent _"]
    traverseDoc.simps[of "D_align _ _"] traverseDoc.simps[of "D_lineSuffix _"] traverseDoc.simps[of D_lineSuffixBoundary]
    traverseDoc.simps[of D_trim] traverseDoc.simps[of D_breakParent]
    enter_def exit_def breakParentGroup_def split: list.split)

lemma propagateBreaks_total: "\<exists>brk'. propagateBreaks d brk = Some brk'"
  using traverse_stack[of d "\<lparr>prBrk = brk, prVisited = {}, prStack = []\<rparr>"]
  by (auto simp: propagateBreaks_def)

definition shared_state :: "Doc \<times> Arena" where
  "shared_state =
     (let (g0, a) = Group (D_text ''a'') arena_new;
          (g1, a) = the (ConditionalGroup 0 [g0, D_text ''b''] a) in
      Group (D_concat [g1, D_breakParent]) a)"

text \<open>
  a group that \<open>ConditionalGroup\<close> shares between its document and its first state
  breaks propagation. Group 1 is \<open>ConditionalGroup(0, [Group(a), b])\<close>, whose document is
  its first state, and group 2 encloses it together with a break of the parent. The
  second visit of group 0 leaves it on the stack, the pops of the enclosing groups
  are off by one, and the break goes to group 1: group 2, which contains the break,
  stays flat, and group 1, which has none, is broken.
\<close>

theorem propagateBreaks_shared_group:
  "let (d, a) = shared_state; brk' = the (propagateBreaks d (arBrk a)) in
   group_ref d = 2 \<and> forced (arBrk a) d \<and> brk' 1 \<and> \<not> brk' 2"
  by (simp add: shared_state_def Group_def ConditionalGroup_def arena_group_def arena_new_def propagateBreaks_def
      traverseDoc.simps[of "D_group g d i ex" for g d i ex] traverseDoc.simps[of "D_concat ds" for ds]
      traverseDoc.simps[of "D_text s" for s] traverseDoc.simps[of D_breakParent]
      enter_def exit_def breakParentGroup_def)

section \<open>String widths\<close>

lemma ascii_runes:
  assumes "\<And>r. r < 0x80 \<Longrightarrow> \<not> zw r \<and> \<not> wide r"
  shows "list_all ascii_printable s \<Longrightarrow> runes_width zw wide s = length s"
proof (induction s)
  case (Cons c s)
  have c: "byte c < 0x80" "\<not> control (byte c)" using Cons.prems by (auto simp: ascii_printable_def control_def)
  then have "rune_size (c # s) = 1" "fst (decode_rune (c # s)) = byte c"
    by (simp_all add: rune_self_def decode_rune_ascii)
  then show ?case using Cons c assms[of "byte c"]
    by (simp add: runes_width.simps[of zw wide "c # s"] rune_width_def)
qed (simp add: runes_width.simps)

text \<open>
  the fast path of \<open>stringWidth\<close> is the general loop. For a string of printable
  ASCII the number of bytes is what the loop over the runes computes, provided that
  the Unicode tables call no ASCII character zero-width or wide; so \<open>stringWidth\<close> is
  the sum of the widths of the runes on every string.
\<close>

theorem stringWidth_runes:
  assumes "\<And>r. r < 0x80 \<Longrightarrow> \<not> zw r \<and> \<not> wide r"
  shows "stringWidth zw wide s = runes_width zw wide s"
  using ascii_runes[OF assms] by (simp add: stringWidth_def)

lemma stringWidth_runes_witness:
  "stringWidth (\<lambda>r. r = 0x301) (\<lambda>r. r \<ge> 0x1100) ''i64 x'' = runes_width (\<lambda>r. r = 0x301) (\<lambda>r. r \<ge> 0x1100) ''i64 x''"
  by (rule stringWidth_runes) auto

end
