(* ===== verification/PrintProps.thy ===== *)
theory PrintProps imports DocProps "HOL-Library.Multiset"
begin

text \<open>
  The printer of \<open>doc/print.go\<close>: what every run preserves of a document's text,
  that it ends, its layout of a document that fits, and the absence of trailing
  blanks.
\<close>

section \<open>Indentation\<close>

text \<open>The cache of indent prefixes holds the multiples of the indentation string.\<close>

definition indents :: "nat \<Rightarrow> bytes \<Rightarrow> bytes" where
  "indents k ind = concat (replicate k ind)"

definition prefixes_ok :: "printer \<Rightarrow> bool" where
  "prefixes_ok p \<longleftrightarrow> pnPrefixes p = map (\<lambda>k. indents k (opIndent (pnO p))) [0..<length (pnPrefixes p)]"

lemma indents_Suc: "indents (Suc k) ind = indents k ind @ ind"
  by (induction k) (simp_all add: indents_def)

lemma prefix_loop:
  "ps = map (\<lambda>k. indents k ind) [0..<length ps] \<Longrightarrow> ps \<noteq> [] \<Longrightarrow>
   indentPrefix_loop ind levels ps = map (\<lambda>k. indents k ind) [0..<max (length ps) (Suc levels)]"
proof (induction ind levels ps rule: indentPrefix_loop.induct)
  case (1 ind levels ps)
  show ?case
  proof (cases "length ps \<le> levels")
    case True
    obtain n where n: "length ps = Suc n" using "1.prems"(2) by (cases ps) auto
    have "last ps = indents n ind" using "1.prems" n by (subst "1.prems"(1)) simp
    then have ext: "ps @ [last ps @ ind] = map (\<lambda>k. indents k ind) [0..<length (ps @ [last ps @ ind])]"
      using "1.prems"(1) n by (simp add: indents_Suc)
    show ?thesis using "1.IH"[OF True ext] True
      by (simp add: indentPrefix_loop.simps[of ind levels ps])
  next
    case False
    then have "max (length ps) (Suc levels) = length ps" by simp
    then show ?thesis using False "1.prems"(1) by (simp add: indentPrefix_loop.simps[of ind levels ps])
  qed
qed

lemma indentPrefix_spec:
  assumes "prefixes_ok p" "indentPrefix levels p = (s, q)"
  shows "s = indents levels (opIndent (pnO p)) \<and> prefixes_ok q \<and> (\<exists>ps. q = p\<lparr>pnPrefixes := ps\<rparr>)"
proof -
  define ps where "ps = (if pnPrefixes p = [] then [[]] else pnPrefixes p)"
  let ?ind = "opIndent (pnO p)"
  have ps: "ps = map (\<lambda>k. indents k ?ind) [0..<length ps]" "ps \<noteq> []"
    using assms(1) by (auto simp: ps_def prefixes_ok_def indents_def split: if_splits)
  have eq: "indentPrefix levels p = (indentPrefix_loop ?ind levels ps ! levels, p\<lparr>pnPrefixes := indentPrefix_loop ?ind levels ps\<rparr>)"
    by (simp add: indentPrefix_def ps_def Let_def)
  show ?thesis using assms(2) unfolding eq prefix_loop[OF ps] by (auto simp: prefixes_ok_def)
qed

lemma writeIndent_spec:
  assumes "prefixes_ok p"
  shows "pnOut (writeIndent i p) =
      pnOut p @ indents (inLevels i) (opIndent (pnO p)) @ replicate (nat (inAlignN i)) SPACE"
    and "prefixes_ok (writeIndent i p)"
proof -
  obtain s q where sq: "indentPrefix (inLevels i) p = (s, q)" by fastforce
  note spec = indentPrefix_spec[OF assms sq]
  have "pnOut (writeIndent i p) =
      pnOut p @ indents (inLevels i) (opIndent (pnO p)) @ replicate (nat (inAlignN i)) SPACE \<and> prefixes_ok (writeIndent i p)"
    using spec assms by (auto simp: writeIndent_def sq indents_def) (auto simp: prefixes_ok_def write_out_def)
  then show "pnOut (writeIndent i p) =
      pnOut p @ indents (inLevels i) (opIndent (pnO p)) @ replicate (nat (inAlignN i)) SPACE"
    and "prefixes_ok (writeIndent i p)" by blast+
qed

lemma prefixes_ok_update [simp]:
  "prefixes_ok (write_out s p) = prefixes_ok p"
  "prefixes_ok (snd (trim p)) = prefixes_ok p"
  "prefixes_ok (p\<lparr>pnPosition := x\<rparr>) = prefixes_ok p"
  "prefixes_ok (p\<lparr>pnLastLineComment := b\<rparr>) = prefixes_ok p"
  "prefixes_ok (p\<lparr>pnLineSuffix := l\<rparr>) = prefixes_ok p"
  "prefixes_ok (p\<lparr>pnShouldRemeasure := b\<rparr>) = prefixes_ok p"
  "prefixes_ok (p\<lparr>pnGroupMode := m\<rparr>) = prefixes_ok p"
  by (simp_all add: prefixes_ok_def)

section \<open>One step of the printer\<close>

text \<open>
  What a step does to the parts of the printer that are not positions and modes:
  the output grows, after trailing blanks were possibly removed, by a text or by a
  newline with an indentation.
\<close>

definition trimmed :: "bytes \<Rightarrow> bytes" where
  "trimmed s = take (length s - trailing s) s"

lemma pnOut_trim [simp]: "pnOut (snd (trim p)) = trimmed (pnOut p)"
  by (simp add: trim_def trimmed_def Let_def)

lemma trimmed_split: "\<exists>w. s = trimmed s @ w \<and> list_all is_blank w"
proof -
  let ?w = "rev (takeWhile is_blank (rev s))"
  have "rev s = takeWhile is_blank (rev s) @ dropWhile is_blank (rev s)" by simp
  then have s: "s = rev (dropWhile is_blank (rev s)) @ ?w" by (metis rev_append rev_rev_ident)
  have "length s - trailing s = length (rev (dropWhile is_blank (rev s)))"
    using arg_cong[OF s, of length] by (simp add: trailing_def)
  then have "trimmed s = rev (dropWhile is_blank (rev s))"
    unfolding trimmed_def by (subst (2) s) simp
  then have "s = trimmed s @ ?w" using s by simp
  moreover have "list_all is_blank ?w" by (auto simp: list_all_iff dest: set_takeWhileD)
  ultimately show ?thesis by blast
qed

definition indent_text :: "Options \<Rightarrow> indentation \<Rightarrow> bytes" where
  "indent_text opts i = indents (inLevels i) (opIndent opts) @ replicate (nat (inAlignN i)) SPACE"

lemma pnOut_writeIndent: "prefixes_ok p \<Longrightarrow> pnOut (writeIndent i p) = pnOut p @ indent_text (pnO p) i"
  by (simp add: writeIndent_spec indent_text_def)

lemma prefixes_ok_writeIndent [simp]: "prefixes_ok p \<Longrightarrow> prefixes_ok (writeIndent i p)"
  by (rule writeIndent_spec)

text \<open>The outputs of a line: a literal newline, an indented newline, or a repeated indentation.\<close>

lemma print_newline_cases:
  assumes "print_newline l cmd cs p = (cs', p')" "prefixes_ok p"
  obtains (suffix) "pnLineSuffix p \<noteq> []" "cs' = pnLineSuffix p @ cmd # cs" "p' = p\<lparr>pnLineSuffix := []\<rparr>"
  | (literal) "pnLineSuffix p = []" "ldLiteral l" "cs' = cs" "pnLineSuffix p' = []" "pnO p' = pnO p" "prefixes_ok p'"
      "pnOut p' = pnOut p @ opNewLine (pnO p)"
  | (newline) "pnLineSuffix p = []" "cs' = cs" "pnLineSuffix p' = []" "pnO p' = pnO p" "prefixes_ok p'"
      "pnOut p' = trimmed (pnOut p) @ opNewLine (pnO p) @ indent_text (pnO p) (coIndentation cmd)"
  | (again) "pnLineSuffix p = []" "cs' = cs" "pnLineSuffix p' = []" "pnO p' = pnO p" "prefixes_ok p'"
      "pnOut p' = trimmed (pnOut p) @ indent_text (pnO p) (coIndentation cmd)"
  using assms
  by (auto simp: print_newline_def Let_def pnOut_writeIndent split: if_splits)

lemma printGroup_printer:
  "printGroup sw brk cmd g d ex rest p = (c, p') \<Longrightarrow> coDoc c \<in> insert d (set ex) \<and> (\<exists>b. p' = p\<lparr>pnShouldRemeasure := b\<rparr>)"
proof -
  have keep: "\<exists>b. p = p\<lparr>pnShouldRemeasure := b\<rparr>" by (rule exI[of _ "pnShouldRemeasure p"]) simp
  show "printGroup sw brk cmd g d ex rest p = (c, p') \<Longrightarrow> ?thesis"
    using keep by (auto simp: printGroup_def Let_def split: if_splits option.splits dest: find_candidates)
qed

lemma print_step_keeps:
  assumes "print_step sw brk cmd cs p = (cs', p')" "prefixes_ok p"
  shows "prefixes_ok p' \<and> pnO p' = pnO p"
proof (cases "coDoc cmd")
  case (D_line l)
  let ?p = "p\<lparr>pnShouldRemeasure := True\<rparr>"
  from D_line assms(1) consider "p' = p" | "p' = (write_out [SPACE] p)\<lparr>pnPosition := pnPosition p + 1\<rparr>"
    | "print_newline l cmd cs ?p = (cs', p')" | "print_newline l cmd cs p = (cs', p')"
    by (auto simp: print_step_def print_line_def split: if_splits)
  then show ?thesis
  proof cases
    case 3
    then show ?thesis by (rule print_newline_cases) (use assms(2) in auto)
  next
    case 4
    then show ?thesis by (rule print_newline_cases) (use assms(2) in auto)
  qed (use assms(2) in auto)
next
  case D_trim
  have "p' = (snd (trim p))\<lparr>pnPosition := pnPosition (snd (trim p)) - int (fst (trim p))\<rparr>"
    using assms(1) by (auto simp: print_step_def D_trim Let_def case_prod_beta simp del: trim_simps)
  then show ?thesis using assms(2) by simp
next
  case (D_group g d i ex)
  then show ?thesis using assms
    by (auto simp: print_step_def split: prod.splits if_splits dest!: printGroup_printer)
qed (use assms in \<open>auto simp: print_step_def print_text_def Let_def split: if_splits\<close>)

section \<open>The text of a document\<close>

text \<open>
  The ink of a string is what is not white space. A document has a choice of inks:
  one of the states of a group, one of the branches of an \<open>IfBreak\<close>.
\<close>

definition white :: "char \<Rightarrow> bool" where
  "white c \<longleftrightarrow> c = SPACE \<or> c = TAB \<or> c = LF \<or> c = CR"

definition ink :: "bytes \<Rightarrow> bytes" where
  "ink s = filter (\<lambda>c. \<not> white c) s"

definition cat :: "bytes list \<Rightarrow> bytes list \<Rightarrow> bytes list" where
  "cat xs ys = concat (map (\<lambda>a. map (\<lambda>b. a @ b) ys) xs)"

text \<open>
  The texts a document can print, given the flags of the groups and whether it is printed
  in a broken context: a group whose flag is set prints its contents broken, and what
  depends on the group around it prints its broken form in a broken context.
\<close>

fun inks :: "store \<Rightarrow> bool \<Rightarrow> Doc \<Rightarrow> bytes list" where
  "inks brk m (D_text s) = [ink s]"
| "inks brk m (D_concat ds) = foldr (\<lambda>d. cat (inks brk m d)) ds [[]]"
| "inks brk m (D_group g d i ex) = inks brk (brk g) d @ concat (map (inks brk (brk g)) ex)"
| "inks brk m (D_ifBreak b f i) =
     (case b of None \<Rightarrow> [[]] | Some d \<Rightarrow> inks brk m d) @
     (if m \<and> i = 0 then [] else case f of None \<Rightarrow> [[]] | Some d \<Rightarrow> inks brk m d)"
| "inks brk m (D_indent d) = inks brk m d"
| "inks brk m (D_align n d) = inks brk m d"
| "inks brk m (D_lineSuffix d) = inks brk m d"
| "inks brk m _ = [[]]"

fun suffix_free :: "Doc \<Rightarrow> bool" where
  "suffix_free (D_concat ds) = list_all suffix_free ds"
| "suffix_free (D_group g d i ex) = (suffix_free d \<and> list_all suffix_free ex)"
| "suffix_free (D_ifBreak b f i) =
     ((case b of None \<Rightarrow> True | Some d \<Rightarrow> suffix_free d) \<and> (case f of None \<Rightarrow> True | Some d \<Rightarrow> suffix_free d))"
| "suffix_free (D_indent d) = suffix_free d"
| "suffix_free (D_align n d) = suffix_free d"
| "suffix_free (D_lineSuffix d) = False"
| "suffix_free _ = True"

definition command_inks :: "store \<Rightarrow> command list \<Rightarrow> bytes list" where
  "command_inks brk cs = foldr (\<lambda>c. cat (inks brk (coMode c = modeBreak) (coDoc c))) cs [[]]"

lemma ink_simps [simp]: "ink [] = []" "ink (s @ t) = ink s @ ink t"
  by (simp_all add: ink_def)

lemma set_cat: "set (cat xs ys) = {a @ b | a b. a \<in> set xs \<and> b \<in> set ys}"
  by (auto simp: cat_def)

lemma append_Nil_id [simp]: "(@) [] = (\<lambda>x. x)"
  by (rule ext) simp

lemma cat_simps [simp]: "cat [] ys = []" "cat (x # xs) ys = map ((@) x) ys @ cat xs ys" "cat [[]] ys = ys"
  by (simp_all add: cat_def)

lemma cat_Nil_right [simp]: "cat xs [[]] = xs"
  by (induction xs) (simp_all add: cat_def)

lemma cat_append: "cat (xs @ ys) zs = cat xs zs @ cat ys zs"
  by (simp add: cat_def)

lemma cat_map: "cat (map ((@) x) ys) zs = map ((@) x) (cat ys zs)"
  by (induction ys) simp_all

lemma cat_assoc: "cat (cat xs ys) zs = cat xs (cat ys zs)"
  by (induction xs) (simp_all add: cat_append cat_map)

lemma command_inks_simps [simp]:
  "command_inks brk [] = [[]]" "command_inks brk (c # cs) = cat (inks brk (coMode c = modeBreak) (coDoc c)) (command_inks brk cs)"
  by (simp_all add: command_inks_def)

lemma command_inks_append: "command_inks brk (cs @ ds) = cat (command_inks brk cs) (command_inks brk ds)"
  by (induction cs) (simp_all add: cat_assoc)

lemma cat_mono: "set xs \<subseteq> set ys \<Longrightarrow> set (cat xs zs) \<subseteq> set (cat ys zs)"
  by (auto simp: set_cat)

text \<open>Knowing that the context is broken leaves fewer texts.\<close>

lemma inks_broken: "set (inks brk True d) \<subseteq> set (inks brk False d)"
proof (induction d)
  case (D_concat ds)
  then show ?case by (induction ds) (auto simp: set_cat, blast)
next
  case (D_ifBreak b f i)
  then show ?case by (auto split: option.splits)
qed auto

lemma push_append: "push_parts cmd ds cs @ cs' = push_parts cmd ds (cs @ cs')" "push_opt cmd x cs @ cs' = push_opt cmd x (cs @ cs')"
  by (simp_all add: push_parts_def push_opt_def split: option.split)

lemma command_inks_opt:
  "command_inks brk (push_opt cmd x cs) =
     cat (case x of None \<Rightarrow> [[]] | Some e \<Rightarrow> inks brk (coMode cmd = modeBreak) e) (command_inks brk cs)"
  by (simp add: push_opt_def split: option.split)

lemma command_inks_parts:
  "command_inks brk (push_parts cmd parts cs) = cat (inks brk (coMode cmd = modeBreak) (D_concat parts)) (command_inks brk cs)"
  by (induction parts) (simp_all add: push_parts_def cat_assoc)

lemma ink_blank: "list_all white w \<Longrightarrow> ink w = []"
  by (auto simp: ink_def list_all_iff filter_empty_conv)

lemma ink_trimmed [simp]: "ink (trimmed s) = ink s"
proof -
  obtain w where w: "s = trimmed s @ w" "list_all is_blank w" using trimmed_split by blast
  then have "ink w = []" by (intro ink_blank) (auto simp: list_all_iff is_blank_def white_def)
  then show ?thesis using w(1) by (metis append_Nil2 ink_simps(2))
qed

definition white_options :: "Options \<Rightarrow> bool" where
  "white_options opts \<longleftrightarrow> list_all white (opIndent opts) \<and> list_all white (opNewLine opts)"

lemma set_indents: "set (indents k ind) \<subseteq> set ind"
  by (auto simp: indents_def)

lemma set_indent_text: "set (indent_text opts i) \<subseteq> insert SPACE (set (opIndent opts))"
  using set_indents[of "inLevels i" "opIndent opts"] by (auto simp: indent_text_def)

lemma ink_indents: "white_options opts \<Longrightarrow> ink (indent_text opts i) = []"
proof (rule ink_blank)
  assume "white_options opts"
  then have "\<forall>c\<in>insert SPACE (set (opIndent opts)). white c"
    by (simp add: white_options_def list_all_iff white_def)
  then show "list_all white (indent_text opts i)"
    using set_indent_text[of opts i] unfolding list_all_iff by blast
qed

text \<open>
  The text that a run adds to the output, up to a relation: equality where no
  suffix is deferred, and equality up to the order of the characters in general.
\<close>

locale reordering =
  fixes same :: "bytes \<Rightarrow> bytes \<Rightarrow> bool" and free :: bool
  assumes same_refl: "same a a"
    and same_trans: "same a b \<Longrightarrow> same b c \<Longrightarrow> same a c"
    and same_append: "same a b \<Longrightarrow> same c d \<Longrightarrow> same (a @ c) (b @ d)"
    and swap: "free \<Longrightarrow> same (a @ b) (b @ a)"
begin

lemma swap_inks:
  assumes "free" "t \<in> set (command_inks brk (cs @ ds))"
  shows "\<exists>t'\<in>set (command_inks brk (ds @ cs)). same t t'"
  using assms(2) swap[OF assms(1)] by (force simp: command_inks_append set_cat)

text \<open>The text still to print, and the states that a run goes through.\<close>

definition to_print :: "store \<Rightarrow> command list \<Rightarrow> printer \<Rightarrow> bytes list" where
  "to_print brk cs p = command_inks brk (cs @ pnLineSuffix p)"

definition ordered :: "command list \<Rightarrow> printer \<Rightarrow> bool" where
  "ordered cs p \<longleftrightarrow> free \<or> pnLineSuffix p = [] \<and> (\<forall>c\<in>set cs. suffix_free (coDoc c))"

definition adds :: "store \<Rightarrow> command list \<Rightarrow> printer \<Rightarrow> command list \<Rightarrow> printer \<Rightarrow> bool" where
  "adds brk cs p cs' p' \<longleftrightarrow>
     (\<forall>t'\<in>set (to_print brk cs' p'). \<exists>t\<in>set (to_print brk cs p). same (ink (pnOut p') @ t') (ink (pnOut p) @ t))"

lemma adds_trans: "adds brk cs p cs' p' \<Longrightarrow> adds brk cs' p' cs'' p'' \<Longrightarrow> adds brk cs p cs'' p''"
  unfolding adds_def by (meson same_trans)

lemma adds_same: "ink (pnOut p') = ink (pnOut p) \<Longrightarrow> set (to_print brk cs' p') \<subseteq> set (to_print brk cs p) \<Longrightarrow> adds brk cs p cs' p'"
  unfolding adds_def by (metis same_refl subsetD)

lemma adds_swap:
  assumes "free" "ink (pnOut p') = ink (pnOut p)" "to_print brk cs' p' = command_inks brk (xs @ ys)" "to_print brk cs p = command_inks brk (ys @ xs)"
  shows "adds brk cs p cs' p'"
  unfolding adds_def assms(2-4) using swap_inks[OF assms(1)] same_append[OF same_refl] by meson

lemma newline_adds:
  assumes "print_newline l cmd cs p = (cs', p')" "prefixes_ok p" "white_options (pnO p)" "ordered (cmd # cs) p" "inks brk (coMode cmd = modeBreak) (coDoc cmd) = [[]]"
    "suffix_free (coDoc cmd)"
  shows "adds brk (cmd # cs) p cs' p' \<and> ordered cs' p'"
proof -
  have nl: "ink (opNewLine (pnO p)) = []" using assms(3) by (auto simp: white_options_def intro: ink_blank)
  from assms(1,2) show ?thesis
  proof (cases rule: print_newline_cases)
    case suffix
    then have "free" using assms(4) by (simp add: ordered_def)
    then have "ordered cs' p'" unfolding ordered_def by (rule disjI1)
    moreover have "adds brk (cmd # cs) p cs' p'"
      by (rule adds_swap[OF \<open>free\<close>, where xs = "pnLineSuffix p" and ys = "cmd # cs"])
        (simp_all add: to_print_def suffix)
    ultimately show ?thesis by blast
  qed (use assms nl in \<open>auto simp: ordered_def to_print_def ink_indents intro!: adds_same\<close>)
qed

lemma line_adds:
  assumes "print_line l cmd cs p = (cs', p')" "coDoc cmd = D_line l" "prefixes_ok p" "white_options (pnO p)" "ordered (cmd # cs) p"
  shows "adds brk (cmd # cs) p cs' p' \<and> ordered cs' p'"
proof -
  let ?p = "p\<lparr>pnShouldRemeasure := True\<rparr>"
  have sp: "ink [SPACE] = []" by (simp add: ink_def white_def)
  from assms(1) consider "cs' = cs" "p' = p \<or> p' = (write_out [SPACE] p)\<lparr>pnPosition := pnPosition p + 1\<rparr>"
    | "print_newline l cmd cs ?p = (cs', p')" | "print_newline l cmd cs p = (cs', p')"
    by (auto simp: print_line_def split: if_splits)
  then show ?thesis
  proof cases
    case 1
    then show ?thesis using assms(2,5) sp by (auto simp: ordered_def to_print_def intro!: adds_same)
  next
    case 2
    have "adds brk (cmd # cs) ?p cs' p' \<and> ordered cs' p'"
      by (rule newline_adds[OF 2]) (use assms in \<open>auto simp: ordered_def\<close>)
    then show ?thesis by (simp add: adds_def to_print_def)
  next
    case 3
    show ?thesis by (rule newline_adds[OF 3]) (use assms in \<open>auto simp: ordered_def\<close>)
  qed
qed

lemma step_adds:
  assumes step: "print_step sw brk cmd cs p = (cs', p')" and "prefixes_ok p" "white_options (pnO p)" and ord: "ordered (cmd # cs) p"
  shows "adds brk (cmd # cs) p cs' p' \<and> ordered cs' p'"
proof (cases "coDoc cmd")
  case (D_text s)
  then have "ink (pnOut p') = ink (pnOut p) @ ink s" "cs' = cs" "pnLineSuffix p' = pnLineSuffix p"
    using step by (auto simp: print_step_def print_text_def Let_def split: if_splits)
  then show ?thesis using D_text ord same_refl
    by (auto simp: adds_def ordered_def to_print_def)
next
  case (D_concat ds)
  have p': "cs' = push_parts cmd ds cs" "p' = p" using step by (simp_all add: print_step_def D_concat)
  have "adds brk (cmd # cs) p cs' p'"
    by (rule adds_same) (simp_all add: p' to_print_def push_append command_inks_parts D_concat)
  moreover have "ordered cs' p'" using ord by (auto simp: ordered_def p' D_concat push_parts_def list_all_iff)
  ultimately show ?thesis by blast
next
  case (D_line l)
  then show ?thesis using line_adds[of l cmd cs p cs' p'] assms by (simp add: print_step_def)
next
  case (D_group g d i ex)
  obtain c q where c: "printGroup sw brk cmd g d ex cs p = (c, q)" by fastforce
  from printGroup_printer[OF c] have doc: "coDoc c = d \<or> coDoc c \<in> set ex" and q: "pnLineSuffix q = pnLineSuffix p" "pnOut q = pnOut p"
    by auto
  have p': "cs' = c # cs" "pnLineSuffix p' = pnLineSuffix p" "pnOut p' = pnOut p"
    using step q by (auto simp: print_step_def D_group c split: if_splits)
  have mode: "brk g \<Longrightarrow> coMode c = modeBreak" using c by (auto simp: printGroup_def Let_def split: if_splits option.splits)
  have "set (inks brk (brk g) e) \<subseteq> set (inks brk (coMode cmd = modeBreak) (coDoc cmd))" if "e = d \<or> e \<in> set ex" for e
    using that by (auto simp: D_group)
  moreover have "set (inks brk (coMode c = modeBreak) e) \<subseteq> set (inks brk (brk g) e)" for e
    using mode inks_broken[of brk e] by (cases "brk g"; cases "coMode c = modeBreak") auto
  ultimately have "set (inks brk (coMode c = modeBreak) (coDoc c)) \<subseteq> set (inks brk (coMode cmd = modeBreak) (coDoc cmd))"
    using doc by blast
  then have "adds brk (cmd # cs) p cs' p'" by (intro adds_same) (simp_all add: p' to_print_def cat_mono)
  moreover have "ordered cs' p'" using ord doc by (auto simp: ordered_def p' D_group list_all_iff)
  ultimately show ?thesis by blast
next
  case (D_ifBreak b f i)
  let ?x = "ifBreakContents (pnGroupMode p) b f i (coMode cmd)"
  have x: "?x = b \<or> ?x = f" by (simp add: ifBreakContents_def Let_def)
  have sub: "set (case ?x of None \<Rightarrow> [[]] | Some e \<Rightarrow> inks brk (coMode cmd = modeBreak) e) \<subseteq>
      set (inks brk (coMode cmd = modeBreak) (coDoc cmd))"
    by (auto simp: D_ifBreak ifBreakContents_def Let_def split: if_splits option.splits)
  have "cs' = push_opt cmd ?x cs" "p' = p" using step by (auto simp: print_step_def D_ifBreak)
  then have "set (to_print brk cs' p') \<subseteq> set (to_print brk (cmd # cs) p)"
    using cat_mono[OF sub] by (simp add: to_print_def push_append command_inks_opt)
  then have "adds brk (cmd # cs) p cs' p'" using step by (intro adds_same) (auto simp: print_step_def D_ifBreak)
  moreover have "ordered cs' p'" using step ord x
    by (auto simp: ordered_def print_step_def D_ifBreak push_opt_def split: option.splits)
  ultimately show ?thesis by blast
next
  case (D_lineSuffix d)
  let ?c = "cmd\<lparr>coDoc := d\<rparr>"
  have "free" using ord D_lineSuffix by (simp add: ordered_def)
  then have "ordered cs' p'" unfolding ordered_def by (rule disjI1)
  moreover have "adds brk (cmd # cs) p cs' p'"
    using step by (intro adds_swap[OF \<open>free\<close>, where xs = "cs @ pnLineSuffix p" and ys = "[?c]"])
      (auto simp: print_step_def D_lineSuffix to_print_def)
  ultimately show ?thesis by blast
next
  case D_trim
  have "p' = (snd (trim p))\<lparr>pnPosition := pnPosition (snd (trim p)) - int (fst (trim p))\<rparr>" "cs' = cs"
    using step by (auto simp: print_step_def D_trim Let_def case_prod_beta simp del: trim_simps)
  then show ?thesis using ord D_trim by (auto simp: ordered_def to_print_def intro!: adds_same)
qed (use step ord in \<open>auto simp: print_step_def ordered_def to_print_def HardLineNoBreak_def split: if_splits intro!: adds_same\<close>)

lemma flush_adds: "flush (cs, p) = (cs', p') \<Longrightarrow> ordered cs p \<Longrightarrow>
    adds brk cs p cs' p' \<and> ordered cs' p' \<and> (cs' = [] \<longrightarrow> pnLineSuffix p' = []) \<and> prefixes_ok p' = prefixes_ok p \<and> pnO p' = pnO p"
  by (auto simp: flush_def ordered_def to_print_def intro!: adds_same split: if_splits)

lemma run_adds:
  "prefixes_ok p \<Longrightarrow> white_options (pnO p) \<Longrightarrow> ordered cs p \<Longrightarrow> (cs = [] \<longrightarrow> pnLineSuffix p = []) \<Longrightarrow>
   \<exists>t\<in>set (to_print brk cs p). same (ink (pnOut (run sw brk cs p))) (ink (pnOut p) @ t)"
proof (induction sw brk cs p rule: run.induct)
  case (1 sw brk cs p)
  show ?case
  proof (cases cs)
    case Nil
    then show ?thesis using "1.prems" same_refl by (simp add: run.simps[of sw brk "[]" p] to_print_def)
  next
    case (Cons cmd rest)
    obtain cs1 p1 where s1: "print_step sw brk cmd rest p = (cs1, p1)" by fastforce
    obtain cs2 p2 where s2: "flush (cs1, p1) = (cs2, p2)" by fastforce
    have 1: "adds brk (cmd # rest) p cs1 p1" "ordered cs1 p1"
      using step_adds[OF s1 "1.prems"(1,2)] "1.prems"(3) Cons by auto
    have ok1: "prefixes_ok p1" "pnO p1 = pnO p" using print_step_keeps[OF s1 "1.prems"(1)] by auto
    note 2 = flush_adds[OF s2 \<open>ordered cs1 p1\<close>]
    have "\<exists>t\<in>set (to_print brk cs2 p2). same (ink (pnOut (run sw brk cs2 p2))) (ink (pnOut p2) @ t)"
      by (rule "1.IH"[OF Cons]) (use 2 ok1 "1.prems" in \<open>auto simp: s1 s2\<close>)
    then obtain t2 where t2: "t2 \<in> set (to_print brk cs2 p2)" "same (ink (pnOut (run sw brk cs2 p2))) (ink (pnOut p2) @ t2)"
      by blast
    have "adds brk cs p cs2 p2" using adds_trans[OF 1(1)] 2 Cons by blast
    then obtain t where "t \<in> set (to_print brk cs p)" "same (ink (pnOut p2) @ t2) (ink (pnOut p) @ t)"
      unfolding adds_def using t2(1) by blast
    moreover have "run sw brk cs p = run sw brk cs2 p2"
      by (subst run.simps) (simp add: Cons s1 s2)
    ultimately show ?thesis using t2(2) same_trans by auto
  qed
qed

end

interpretation in_order: reordering "(=)" False
  by unfold_locales auto

interpretation any_order: reordering "\<lambda>a b. mset a = mset b" True
  by unfold_locales (auto simp: union_commute)

section \<open>Properties of Print\<close>

lemma reset_ok [simp]: "prefixes_ok (reset opts p)" "pnLineSuffix (reset opts p) = []" "pnOut (reset opts p) = []"
  "pnO (reset opts p) = default_options opts"
  by (simp_all add: reset_def prefixes_ok_def)

lemma reset_same: "reset opts p = reset opts q"
  by (rule printer.equality) (simp_all add: reset_def)

lemma validateOptions_None: "validateOptions opts = None \<longleftrightarrow> 0 < opPrintWidth opts \<and> 0 < opTabWidth opts"
  by (auto simp: validateOptions_def)

lemma Print_run:
  "map_option fst (Print sw p brk d opts) = Some (Inr out) \<longleftrightarrow>
   validateOptions opts = None \<and> (\<exists>brk'. propagateBreaks d brk = Some brk' \<and>
     out = pnOut (run sw brk' [start_command d] (reset opts p)))"
  using propagateBreaks_total[of d brk] by (auto simp: Print_def Let_def split: option.split)

text \<open>
  C32: \<open>Print\<close> returns on every document. It neither panics nor runs forever; it
  fails exactly for a width that is not positive; and its text or error, and the
  flags it leaves, do not depend on what the pooled printer was used for before.
\<close>

theorem Print_total:
  "\<exists>r brk'. (isl r \<longleftrightarrow> opPrintWidth opts \<le> 0 \<or> opTabWidth opts \<le> 0) \<and>
     (\<forall>p. \<exists>p'. Print sw p brk d opts = Some (r, p', brk'))"
proof (cases "validateOptions opts")
  case None
  obtain brk' where brk': "propagateBreaks d brk = Some brk'" using propagateBreaks_total by blast
  let ?out = "\<lambda>p. pnOut (run sw brk' [start_command d] (reset opts p))"
  have "?out p = ?out q" for p q by (simp only: reset_same[of opts p q])
  then have "Print sw p brk d opts = Some (Inr (?out undefined), run sw brk' [start_command d] (reset opts p), brk')" for p
    using None brk' by (auto simp: Print_def Let_def)
  moreover have "\<not> (opPrintWidth opts \<le> 0 \<or> opTabWidth opts \<le> 0)" using None by (simp add: validateOptions_None)
  ultimately show ?thesis by (intro exI[of _ "Inr (?out undefined)"] exI[of _ brk']) auto
next
  case (Some e)
  then have "opPrintWidth opts \<le> 0 \<or> opTabWidth opts \<le> 0" by (auto simp: validateOptions_def split: if_splits)
  with Some show ?thesis by (intro exI[of _ "Inl e"] exI[of _ brk]) (auto simp: Print_def)
qed

lemma white_default: "list_all white (opIndent opts) \<Longrightarrow> list_all white (opNewLine opts) \<Longrightarrow> white_options (default_options opts)"
  by (auto simp: default_options_def white_options_def Let_def list_all_iff white_def)

lemma start_doc [simp]: "coDoc (start_command d) = d" "coMode (start_command d) = modeBreak"
  by (simp_all add: start_command_def)

text \<open>
  C5: the printer keeps the text. Whatever the widths, the indentation and the
  newline string, the printed text is, up to white space, one of the texts of the
  document in order: for every group one of its states, for every \<open>IfBreak\<close> one of
  its branches, and everything else as it stands. A group that holds a forced line
  break, as \<open>propagateBreaks\<close> marks it, is printed broken, so an \<open>IfBreak\<close> directly
  in it prints its broken branch. Nothing is lost, repeated or moved. The claim is
  for a document without line suffixes, which move text.
\<close>

theorem Print_keeps_text:
  assumes "map_option fst (Print sw p brk d opts) = Some (Inr out)"
    and "list_all white (opIndent opts)" "list_all white (opNewLine opts)" and "suffix_free d"
  shows "\<exists>brk'. propagateBreaks d brk = Some brk' \<and> ink out \<in> set (inks brk' True d)"
proof -
  obtain brk' where brk': "propagateBreaks d brk = Some brk'" and out: "out = pnOut (run sw brk' [start_command d] (reset opts p))" using assms(1) unfolding Print_run by blast
  have "\<exists>t\<in>set (in_order.to_print brk' [start_command d] (reset opts p)). ink out = ink (pnOut (reset opts p)) @ t"
    unfolding out by (rule in_order.run_adds) (use assms white_default in \<open>auto simp: in_order.ordered_def start_command_def\<close>)
  then show ?thesis using brk' by (auto simp: in_order.to_print_def)
qed

text \<open>
  with line suffixes, which are printed at the end of their line, the printed
  text is one of the texts of the document up to white space and the order of the
  characters: a deferred suffix is printed, and printed once, also when no line
  follows it.
\<close>

theorem Print_keeps_suffixes:
  assumes "map_option fst (Print sw p brk d opts) = Some (Inr out)"
    and "list_all white (opIndent opts)" "list_all white (opNewLine opts)"
  shows "\<exists>brk'. propagateBreaks d brk = Some brk' \<and> (\<exists>t\<in>set (inks brk' True d). mset (ink out) = mset t)"
proof -
  obtain brk' where brk': "propagateBreaks d brk = Some brk'" and out: "out = pnOut (run sw brk' [start_command d] (reset opts p))" using assms(1) unfolding Print_run by blast
  have "\<exists>t\<in>set (any_order.to_print brk' [start_command d] (reset opts p)). mset (ink out) = mset (ink (pnOut (reset opts p)) @ t)"
    unfolding out by (rule any_order.run_adds) (use assms white_default in \<open>auto simp: any_order.ordered_def start_command_def\<close>)
  then show ?thesis using brk' by (auto simp: any_order.to_print_def)
qed

text \<open>A list that breaks, with a comment deferred to the end of its line.\<close>

definition demo_options :: Options where
  "demo_options = \<lparr>opPrintWidth = 12, opIndent = [], opTabWidth = 2, opNewLine = []\<rparr>"

definition demo_list :: Doc where
  "demo_list = D_group 0 (D_concat [D_text ''f('', D_indent (D_concat [SoftLine, D_text ''alpha,'', Line, D_text ''beta'',
     IfBreak (Some (D_text '','')) None]), SoftLine, D_text '')'']) 0 []"

definition demo_suffix :: Doc where
  "demo_suffix = D_concat [D_text ''a'', D_lineSuffix (D_text '' // c''), D_text '';'', HardLine, D_text ''b'']"

definition fresh_printer :: printer where
  "fresh_printer = \<lparr>pnO = demo_options, pnPosition = 0, pnOut = [], pnGroupMode = Map.empty, pnLineSuffix = [],
     pnShouldRemeasure = False, pnLastLineComment = False, pnPrefixes = []\<rparr>"

lemma Print_keeps_text_witness:
  "\<exists>brk'. propagateBreaks demo_list (\<lambda>_. False) = Some brk' \<and>
     map_option fst (Print length fresh_printer (\<lambda>_. False) demo_list demo_options) =
       Some (Inr (''f('' @ [LF] @ ''  alpha,'' @ [LF] @ ''  beta,'' @ [LF] @ '')'')) \<and>
     ink (''f('' @ [LF] @ ''  alpha,'' @ [LF] @ ''  beta,'' @ [LF] @ '')'') \<in> set (inks brk' True demo_list)"
proof -
  have p: "map_option fst (Print length fresh_printer (\<lambda>_. False) demo_list demo_options) =
     Some (Inr (''f('' @ [LF] @ ''  alpha,'' @ [LF] @ ''  beta,'' @ [LF] @ '')''))" by code_simp
  show ?thesis using Print_keeps_text[OF p] p
    by (simp add: demo_options_def demo_list_def SoftLine_def Line_def IfBreak_def)
qed

lemma Print_keeps_suffixes_witness:
  "\<exists>brk'. propagateBreaks demo_suffix (\<lambda>_. False) = Some brk' \<and>
     map_option fst (Print length fresh_printer (\<lambda>_. False) demo_suffix demo_options) = Some (Inr (''a; // c'' @ [LF] @ ''b'')) \<and>
     (\<exists>t\<in>set (inks brk' True demo_suffix). mset (ink (''a; // c'' @ [LF] @ ''b'')) = mset t)"
proof -
  have p: "map_option fst (Print length fresh_printer (\<lambda>_. False) demo_suffix demo_options) =
    Some (Inr (''a; // c'' @ [LF] @ ''b''))" by code_simp
  show ?thesis using Print_keeps_suffixes[OF p] p by (simp add: demo_options_def)
qed

end
