(* ===== verification/LayoutProps.thy ===== *)
theory LayoutProps imports PrintProps
begin

text \<open>
  The layout of \<open>doc/print.go\<close>: lines end without blanks, the position of the printer is
  the column where its output ends, and a group stays flat exactly if its line has room.
\<close>

section \<open>Trailing blanks\<close>

text \<open>No blank stands directly before an end of line.\<close>

definition tidy :: "bytes \<Rightarrow> bool" where
  "tidy s \<longleftrightarrow> successively (\<lambda>a b. is_blank a \<longrightarrow> b \<noteq> LF \<and> b \<noteq> CR) s"

definition one_line :: "bytes \<Rightarrow> bool" where
  "one_line s \<longleftrightarrow> list_all (\<lambda>c. c \<noteq> LF \<and> c \<noteq> CR) s"

text \<open>The texts of the document are on one line each, and it has no literal line.\<close>

fun no_literals :: "Doc \<Rightarrow> bool" where
  "no_literals (D_text s) = one_line s"
| "no_literals (D_concat ds) = list_all no_literals ds"
| "no_literals (D_line l) = (\<not> ldLiteral l)"
| "no_literals (D_group g d i ex) = (no_literals d \<and> list_all no_literals ex)"
| "no_literals (D_ifBreak b f i) =
     ((case b of None \<Rightarrow> True | Some d \<Rightarrow> no_literals d) \<and> (case f of None \<Rightarrow> True | Some d \<Rightarrow> no_literals d))"
| "no_literals (D_indent d) = no_literals d"
| "no_literals (D_align n d) = no_literals d"
| "no_literals (D_lineSuffix d) = no_literals d"
| "no_literals _ = True"

lemma tidy_one_line: "one_line s \<Longrightarrow> tidy s"
proof (induction s)
  case (Cons c s)
  then show ?case by (cases s) (auto simp: one_line_def tidy_def)
qed (simp add: tidy_def)

lemma tidy_append:
  assumes "tidy s" "one_line t"
  shows "tidy (s @ t)"
proof -
  have "tidy t" using assms(2) by (rule tidy_one_line)
  moreover have "t \<noteq> [] \<Longrightarrow> hd t \<noteq> LF \<and> hd t \<noteq> CR" using assms(2) by (cases t) (auto simp: one_line_def)
  ultimately show ?thesis using assms(1) by (auto simp: tidy_def successively_append_iff)
qed

lemma tidy_prefix: "tidy (s @ t) \<Longrightarrow> tidy s"
  by (simp add: tidy_def successively_append_iff)

lemma tidy_trimmed: "tidy s \<Longrightarrow> tidy (trimmed s)"
  using trimmed_split[of s] by (metis tidy_prefix)

lemma trimmed_rev: "trimmed s = rev (dropWhile is_blank (rev s))"
proof -
  have "dropWhile is_blank (rev s) = drop (trailing s) (rev s)"
    by (simp add: trailing_def dropWhile_eq_drop)
  then show ?thesis by (simp add: trimmed_def rev_drop)
qed

lemma trimmed_last: "trimmed s \<noteq> [] \<Longrightarrow> \<not> is_blank (last (trimmed s))"
  by (simp add: trimmed_rev last_rev hd_dropWhile)

definition newline_ok :: "bytes \<Rightarrow> bool" where
  "newline_ok nl \<longleftrightarrow> nl = [LF] \<or> nl = [CR, LF]"

lemma tidy_newline:
  assumes "tidy s" "newline_ok nl" "one_line ind"
  shows "tidy (trimmed s @ nl @ ind)"
proof -
  have "tidy nl" using assms(2) by (auto simp: newline_ok_def tidy_def is_blank_def)
  then have "tidy (trimmed s @ nl)"
    using tidy_trimmed[OF assms(1)] trimmed_last[of s] by (auto simp: tidy_def successively_append_iff)
  then show ?thesis using tidy_append[of "trimmed s @ nl" ind] assms(3) by simp
qed

definition line_options :: "Options \<Rightarrow> bool" where
  "line_options opts \<longleftrightarrow> one_line (opIndent opts) \<and> newline_ok (opNewLine opts)"

lemma one_line_indent: "line_options opts \<Longrightarrow> one_line (indent_text opts i)"
  using set_indent_text[of opts i] by (auto simp: line_options_def one_line_def list_all_iff)

text \<open>The invariant of a run.\<close>

definition tidy_state :: "command list \<Rightarrow> printer \<Rightarrow> bool" where
  "tidy_state cs p \<longleftrightarrow> tidy (pnOut p) \<and> prefixes_ok p \<and> line_options (pnO p) \<and>
     (\<forall>c\<in>set cs \<union> set (pnLineSuffix p). no_literals (coDoc c))"

lemma tidy_state_newline:
  assumes "print_newline l cmd cs p = (cs', p')" "tidy_state (cmd # cs) p" "\<not> ldLiteral l"
  shows "tidy_state cs' p'"
proof -
  have pre: "prefixes_ok p" "line_options (pnO p)" "tidy (pnOut p)" using assms(2) by (simp_all add: tidy_state_def)
  have ind: "one_line (indent_text (pnO p) i)" for i using pre(2) by (rule one_line_indent)
  have nl: "newline_ok (opNewLine (pnO p))" using pre(2) by (simp add: line_options_def)
  from assms(1) pre(1) show ?thesis
  proof (cases rule: print_newline_cases)
    case suffix
    then show ?thesis using assms(2) by (auto simp: tidy_state_def)
  next
    case literal
    then show ?thesis using assms(3) by simp
  next
    case newline
    then show ?thesis using assms(2) tidy_newline[OF pre(3) nl ind] by (auto simp: tidy_state_def)
  next
    case again
    then show ?thesis using assms(2) tidy_append[OF tidy_trimmed[OF pre(3)] ind] by (auto simp: tidy_state_def)
  qed
qed

lemma tidy_state_step:
  assumes step: "print_step sw brk cmd cs p = (cs', p')" and st: "tidy_state (cmd # cs) p"
  shows "tidy_state cs' p'"
proof -
  note keeps = print_step_keeps[OF step]
  show ?thesis
  proof (cases "coDoc cmd")
    case (D_text s)
    then show ?thesis using step st
      by (auto simp: print_step_def print_text_def Let_def tidy_state_def intro: tidy_append split: if_splits)
  next
    case (D_line l)
    let ?p = "p\<lparr>pnShouldRemeasure := True\<rparr>"
    have sp: "one_line [SPACE]" by (simp add: one_line_def)
    have lit: "\<not> ldLiteral l" using st by (simp add: tidy_state_def D_line)
    from step D_line consider "cs' = cs" "p' = p \<or> p' = (write_out [SPACE] p)\<lparr>pnPosition := pnPosition p + 1\<rparr>"
      | "print_newline l cmd cs ?p = (cs', p')" | "print_newline l cmd cs p = (cs', p')"
      by (auto simp: print_step_def print_line_def split: if_splits)
    then show ?thesis
    proof cases
      case 1
      then show ?thesis using st tidy_append[OF _ sp] by (auto simp: tidy_state_def)
    next
      case 2
      then show ?thesis by (rule tidy_state_newline) (use st lit in \<open>auto simp: tidy_state_def\<close>)
    next
      case 3
      then show ?thesis by (rule tidy_state_newline) (use st lit in auto)
    qed
  next
    case (D_group g d i ex)
    then show ?thesis using step st
      by (auto simp: print_step_def tidy_state_def list_all_iff split: prod.splits if_splits dest!: printGroup_printer)
  next
    case D_trim
    have "p' = (snd (trim p))\<lparr>pnPosition := pnPosition (snd (trim p)) - int (fst (trim p))\<rparr>" "cs' = cs"
      using step by (auto simp: print_step_def D_trim Let_def case_prod_beta simp del: trim_simps)
    then show ?thesis using st by (auto simp: tidy_state_def tidy_trimmed)
  qed (use step st in \<open>auto simp: print_step_def tidy_state_def push_parts_def push_opt_def ifBreakContents_def Let_def
      HardLineNoBreak_def plain_line_def list_all_iff split: if_splits option.splits\<close>)
qed

lemma tidy_state_flush: "flush (cs, p) = (cs', p') \<Longrightarrow> tidy_state cs p \<Longrightarrow> tidy_state cs' p'"
  by (auto simp: flush_def tidy_state_def split: if_splits)

lemma tidy_run: "tidy_state cs p \<Longrightarrow> tidy (pnOut (run sw brk cs p))"
proof (induction sw brk cs p rule: run.induct)
  case (1 sw brk cs p)
  show ?case
  proof (cases cs)
    case Nil
    then show ?thesis using "1.prems" by (simp add: run.simps[of sw brk "[]" p] tidy_state_def)
  next
    case (Cons cmd rest)
    obtain cs1 p1 where s1: "print_step sw brk cmd rest p = (cs1, p1)" by fastforce
    obtain cs2 p2 where s2: "flush (cs1, p1) = (cs2, p2)" by fastforce
    have "tidy_state cs2 p2" using tidy_state_flush[OF s2 tidy_state_step[OF s1]] "1.prems" Cons by simp
    then have "tidy (pnOut (run sw brk cs2 p2))" using "1.IH"[OF Cons] by (auto simp: s1 s2)
    moreover have "run sw brk cs p = run sw brk cs2 p2"
      by (subst run.simps) (simp add: Cons s1 s2)
    ultimately show ?thesis by simp
  qed
qed

text \<open>
  C31: the printer leaves no trailing blanks. When the texts of a document have no
  line ends and it has no literal line, no space or tab stands before an end of
  line in the printed text, whatever spaces, indentation and suffixes the document
  puts there.
\<close>

theorem Print_no_trailing_blanks:
  assumes "map_option fst (Print sw p brk d opts) = Some (Inr out)" and "no_literals d"
    and "one_line (opIndent opts)" and "opNewLine opts = [] \<or> newline_ok (opNewLine opts)"
  shows "tidy out"
proof -
  obtain brk' where out: "out = pnOut (run sw brk' [start_command d] (reset opts p))" using assms(1) unfolding Print_run by blast
  have "line_options (default_options opts)"
    using assms(3,4) by (auto simp: default_options_def line_options_def Let_def one_line_def newline_ok_def list_all_iff)
  then show ?thesis unfolding out
    by (intro tidy_run) (simp add: tidy_state_def assms(2), simp add: tidy_def)
qed

lemma Print_no_trailing_blanks_witness:
  "map_option fst (Print length fresh_printer (\<lambda>_. False) (D_concat [D_text ''a  '', Line, D_text ''b'']) demo_options) =
     Some (Inr (''a'' @ [LF] @ ''b'')) \<and> tidy (''a'' @ [LF] @ ''b'')"
proof -
  have p: "map_option fst (Print length fresh_printer (\<lambda>_. False) (D_concat [D_text ''a  '', Line, D_text ''b'']) demo_options) =
     Some (Inr (''a'' @ [LF] @ ''b''))" by code_simp
  show ?thesis using Print_no_trailing_blanks[OF p] p by (simp add: demo_options_def one_line_def Line_def plain_line_def)
qed

section \<open>Columns\<close>

text \<open>The columns that the last line of an output takes, with tabs of width \<open>tw\<close>.\<close>

definition columns :: "int \<Rightarrow> bytes \<Rightarrow> int" where
  "columns tw s = sum_list (map (\<lambda>c. if c = TAB then tw else 1) s)"

definition column :: "int \<Rightarrow> bytes \<Rightarrow> int" where
  "column tw s = columns tw (rev (takeWhile (\<lambda>c. c \<noteq> LF) (rev s)))"

lemma columns_simps [simp]:
  "columns tw [] = 0" "columns tw (s @ t) = columns tw s + columns tw t" "columns tw (replicate n SPACE) = int n"
  "columns tw [SPACE] = 1" "columns tw [TAB] = tw"
  by (simp_all add: columns_def sum_list_replicate)

lemma takeWhile_line: "LF \<notin> set t \<Longrightarrow> takeWhile (\<lambda>c. c \<noteq> LF) (rev t @ s) = rev t @ takeWhile (\<lambda>c. c \<noteq> LF) s"
  by (rule takeWhile_append2) auto

lemma column_append: "LF \<notin> set t \<Longrightarrow> column tw (s @ t) = column tw s + columns tw t"
  by (simp add: column_def takeWhile_line del: takeWhile_append2)

lemma column_line: "LF \<notin> set t \<Longrightarrow> column tw (s @ LF # t) = columns tw t"
  by (simp add: column_def takeWhile_line del: takeWhile_append2)

lemma column_Nil [simp]: "column tw [] = 0"
  by (simp add: column_def)

text \<open>
  The documents whose columns are known: texts of one column per byte, without tabs and
  ends of line, and neither suffixes nor trims.
\<close>

definition plain_text :: "(bytes \<Rightarrow> nat) \<Rightarrow> bytes \<Rightarrow> bool" where
  "plain_text sw s \<longleftrightarrow> sw s = length s \<and> LF \<notin> set s \<and> TAB \<notin> set s"

fun plain_doc :: "(bytes \<Rightarrow> nat) \<Rightarrow> Doc \<Rightarrow> bool" where
  "plain_doc sw (D_text s) = plain_text sw s"
| "plain_doc sw (D_concat ds) = list_all (plain_doc sw) ds"
| "plain_doc sw (D_line l) = True"
| "plain_doc sw (D_group g d i ex) = (plain_doc sw d \<and> list_all (plain_doc sw) ex)"
| "plain_doc sw (D_ifBreak b f i) =
     ((case b of None \<Rightarrow> True | Some d \<Rightarrow> plain_doc sw d) \<and> (case f of None \<Rightarrow> True | Some d \<Rightarrow> plain_doc sw d))"
| "plain_doc sw (D_indent d) = plain_doc sw d"
| "plain_doc sw (D_align n d) = (0 \<le> n \<and> plain_doc sw d)"
| "plain_doc sw (D_lineSuffix d) = False"
| "plain_doc sw D_lineSuffixBoundary = True"
| "plain_doc sw D_trim = False"
| "plain_doc sw D_breakParent = True"

text \<open>An indentation is a tab or as many blanks as a tab is wide.\<close>

definition plain_options :: "Options \<Rightarrow> bool" where
  "plain_options opts \<longleftrightarrow> 0 < opPrintWidth opts \<and> opPrintWidth opts < MaxInt \<and> 0 < opTabWidth opts \<and>
     (opIndent opts = [] \<or> opIndent opts = [TAB] \<or> opIndent opts = replicate (nat (opTabWidth opts)) SPACE) \<and>
     (opNewLine opts = [] \<or> newline_ok (opNewLine opts))"

definition default_plain :: "Options \<Rightarrow> bool" where
  "default_plain opts \<longleftrightarrow> plain_options opts \<and> opIndent opts \<noteq> [] \<and> newline_ok (opNewLine opts)"

lemma default_plain: "plain_options opts \<Longrightarrow> default_plain (default_options opts)"
  by (auto simp: plain_options_def default_plain_def default_options_def newline_ok_def Let_def)

definition indentation_ok :: "Options \<Rightarrow> indentation \<Rightarrow> bool" where
  "indentation_ok opts i \<longleftrightarrow> 0 \<le> inAlignN i \<and> inLength i = int (inLevels i) * opTabWidth opts + inAlignN i"

lemma indentation_ok_simps:
  "indentation_ok opts i \<Longrightarrow> indentation_ok opts (indentation_add opts i)"
  "indentation_ok opts i \<Longrightarrow> 0 \<le> n \<Longrightarrow> indentation_ok opts (indentation_align n opts i)"
  by (simp_all add: indentation_ok_def indentation_add_def indentation_align_def algebra_simps)

lemma columns_indents: "columns tw (indents k ind) = int k * columns tw ind"
  by (induction k) (simp_all add: indents_Suc algebra_simps, simp add: indents_def)

lemma columns_indent_text:
  assumes "default_plain opts" "indentation_ok opts i"
  shows "columns (opTabWidth opts) (indent_text opts i) = inLength i" "LF \<notin> set (indent_text opts i)"
proof -
  have ind: "columns (opTabWidth opts) (opIndent opts) = opTabWidth opts" "LF \<notin> set (opIndent opts)"
    using assms(1) by (auto simp: default_plain_def plain_options_def)
  show "columns (opTabWidth opts) (indent_text opts i) = inLength i"
    using assms(2) ind(1) by (simp add: indent_text_def columns_indents indentation_ok_def)
  show "LF \<notin> set (indent_text opts i)" using set_indent_text[of opts i] ind(2) by auto
qed

text \<open>In every state of a run the position is the column where the output ends.\<close>

definition placed :: "(bytes \<Rightarrow> nat) \<Rightarrow> command list \<Rightarrow> printer \<Rightarrow> bool" where
  "placed sw cs p \<longleftrightarrow> prefixes_ok p \<and> pnLineSuffix p = [] \<and> default_plain (pnO p) \<and>
     (\<forall>c\<in>set cs. plain_doc sw (coDoc c) \<and> indentation_ok (pnO p) (coIndentation c)) \<and>
     (cs \<noteq> [] \<longrightarrow> pnPosition p = column (opTabWidth (pnO p)) (pnOut p))"

lemma columns_text: "plain_text sw s \<Longrightarrow> columns tw s = int (sw s)"
proof -
  have "TAB \<notin> set s \<Longrightarrow> columns tw s = int (length s)" by (induction s) (auto simp: columns_def)
  then show "plain_text sw s \<Longrightarrow> columns tw s = int (sw s)" by (simp add: plain_text_def)
qed

lemma lineEnded_split: "lineEnded p \<Longrightarrow> \<exists>s. trimmed (pnOut p) = s @ [LF]"
  by (auto simp: lineEnded_def trimmed_rev split: list.splits)

lemma column_newline:
  assumes "newline_ok nl" "LF \<notin> set t"
  shows "column tw (s @ nl @ t) = columns tw t"
  using assms column_line[of t tw "s"] column_line[of t tw "s @ [CR]"] by (auto simp: newline_ok_def)

lemma newline_placed:
  assumes "print_newline l cmd cs p = (cs', p')" "placed sw (cmd # cs) p"
  shows "placed sw cs' p'"
proof -
  have p: "prefixes_ok p" "default_plain (pnO p)" "pnLineSuffix p = []" "newline_ok (opNewLine (pnO p))"
    using assms(2) by (simp_all add: placed_def default_plain_def)
  have i: "indentation_ok (pnO p) (coIndentation cmd)" using assms(2) by (simp add: placed_def)
  note ind = columns_indent_text[OF p(2) i]
  have keep: "cs' = cs" "pnO p' = pnO p" "pnLineSuffix p' = []" "prefixes_ok p'"
    using assms(1) p by (auto simp: print_newline_def Let_def split: if_splits)
  have "pnPosition p' = column (opTabWidth (pnO p)) (pnOut p')"
  proof (cases "ldLiteral l")
    case True
    then show ?thesis using assms(1) p(3) column_newline[OF p(4), of "[]" _ "pnOut p"]
      by (auto simp: print_newline_def Let_def)
  next
    case False
    show ?thesis
    proof (cases "\<not> ldHard l \<and> lineEnded p \<and> (\<not> ldAfterComment l \<or> pnLastLineComment p)")
      case True
      then obtain s where s: "trimmed (pnOut p) = s @ [LF]" using lineEnded_split by blast
      then show ?thesis using assms(1) p False True ind column_line[OF ind(2), of _ s]
        by (auto simp: print_newline_def Let_def pnOut_writeIndent)
    next
      case no: False
      then show ?thesis using assms(1) p False ind column_newline[OF p(4) ind(2), of _ "trimmed (pnOut p)"]
        by (auto simp: print_newline_def Let_def pnOut_writeIndent split: if_splits)
    qed
  qed
  then show ?thesis using keep assms(2) p by (auto simp: placed_def)
qed

lemma printGroup_indentation: "printGroup sw brk cmd g d ex rest p = (c, p') \<Longrightarrow> coIndentation c = coIndentation cmd"
  by (auto simp: printGroup_def Let_def split: if_splits option.splits)

lemma step_placed:
  assumes step: "print_step sw brk cmd cs p = (cs', p')" and st: "placed sw (cmd # cs) p"
  shows "placed sw cs' p'"
proof (cases "coDoc cmd")
  case (D_text s)
  then have s: "plain_text sw s" using st by (simp add: placed_def)
  then have "LF \<notin> set s" by (simp add: plain_text_def)
  then show ?thesis using step st D_text columns_text[OF s] column_append[of s]
    by (auto simp: print_step_def print_text_def Let_def placed_def)
next
  case (D_line l)
  let ?p = "p\<lparr>pnShouldRemeasure := True\<rparr>"
  from step D_line consider "cs' = cs" "p' = p \<or> p' = (write_out [SPACE] p)\<lparr>pnPosition := pnPosition p + 1\<rparr>"
    | "print_newline l cmd cs ?p = (cs', p')" | "print_newline l cmd cs p = (cs', p')"
    by (auto simp: print_step_def print_line_def split: if_splits)
  then show ?thesis
  proof cases
    case 1
    then show ?thesis using st column_append[of "[SPACE]" _ "pnOut p"] by (auto simp: placed_def)
  next
    case 2
    then show ?thesis by (rule newline_placed) (use st in \<open>simp add: placed_def\<close>)
  next
    case 3
    then show ?thesis using st by (rule newline_placed)
  qed
next
  case (D_group g d i ex)
  obtain c q where c: "printGroup sw brk cmd g d ex cs p = (c, q)" by fastforce
  obtain b where q: "q = p\<lparr>pnShouldRemeasure := b\<rparr>" and "coDoc c \<in> insert d (set ex)" using printGroup_printer[OF c] by blast
  then have "plain_doc sw (coDoc c)" using st D_group by (auto simp: placed_def list_all_iff)
  then show ?thesis using step st D_group c q printGroup_indentation[OF c]
    by (auto simp: print_step_def placed_def)
qed (use step st in \<open>auto simp: print_step_def placed_def push_parts_def push_opt_def ifBreakContents_def Let_def
    list_all_iff indentation_ok_simps split: if_splits option.splits\<close>)


section \<open>The line ahead\<close>

text \<open>
  What a document puts on the current line when it is printed in a mode: texts, blanks,
  an end of the line, or a group that has to break and cannot be flat. \<open>gm\<close> holds the
  modes of the named groups printed so far.
\<close>

datatype piece = Txt bytes | Blank | Stop | Forced

definition asked_mode :: "(int \<rightharpoonup> mode) \<Rightarrow> int \<Rightarrow> mode \<Rightarrow> mode" where
  "asked_mode gm i m = (if i = 0 then m else (case gm i of Some m \<Rightarrow> m | None \<Rightarrow> modeFlat))"

fun ahead :: "store \<Rightarrow> (int \<rightharpoonup> mode) \<Rightarrow> mode \<Rightarrow> Doc \<Rightarrow> piece list" where
  "ahead brk gm m (D_text s) = (if s = [] then [] else [Txt s])"
| "ahead brk gm m (D_concat ds) = concat (map (ahead brk gm m) ds)"
| "ahead brk gm m (D_line l) = (if m = modeBreak \<or> ldHard l then [Stop] else if ldSoft l then [] else [Blank])"
| "ahead brk gm m (D_group g d i ex) =
     (if m = modeFlat then if brk g then [Forced] else ahead brk gm modeFlat d
      else if ex = [] then ahead brk gm modeBreak d
      else last (map (ahead brk gm modeBreak) ex))"
| "ahead brk gm m (D_ifBreak b f i) =
     (if asked_mode gm i m = modeBreak then (case b of None \<Rightarrow> [] | Some d \<Rightarrow> ahead brk gm m d)
      else (case f of None \<Rightarrow> [] | Some d \<Rightarrow> ahead brk gm m d))"
| "ahead brk gm m (D_indent d) = ahead brk gm m d"
| "ahead brk gm m (D_align n d) = ahead brk gm m d"
| "ahead brk gm m _ = []"

definition ahead_all :: "store \<Rightarrow> (int \<rightharpoonup> mode) \<Rightarrow> command list \<Rightarrow> piece list" where
  "ahead_all brk gm cs = concat (map (\<lambda>c. ahead brk gm (coMode c) (coDoc c)) cs)"

text \<open>The pieces up to the end of the line, and their text without the blanks at its end.\<close>

definition this_line :: "piece list \<Rightarrow> piece list" where
  "this_line ps = takeWhile (\<lambda>x. x \<noteq> Stop) ps"

fun line_text :: "piece list \<Rightarrow> bytes" where
  "line_text (Txt s # ps) = s @ line_text ps"
| "line_text (Blank # ps) = (if list_all (\<lambda>x. x = Blank) ps then [] else SPACE # line_text ps)"
| "line_text (_ # ps) = line_text ps"
| "line_text [] = []"

definition line_fits :: "int \<Rightarrow> piece list \<Rightarrow> bool" where
  "line_fits n ps \<longleftrightarrow> Forced \<notin> set (this_line ps) \<and> int (length (line_text (this_line ps))) \<le> n"

definition blanks_apart :: "piece list \<Rightarrow> bool" where
  "blanks_apart ps \<longleftrightarrow> successively (\<lambda>a b. a \<noteq> Blank \<or> b \<noteq> Blank) (this_line ps)"

lemma this_line_append: "Stop \<notin> set ps \<Longrightarrow> this_line (ps @ qs) = ps @ this_line qs"
  by (induction ps) (auto simp: this_line_def)

text \<open>The text that all pieces give when nothing ends the line.\<close>

fun piece_text :: "piece \<Rightarrow> bytes" where
  "piece_text (Txt s) = s"
| "piece_text Blank = [SPACE]"
| "piece_text _ = []"

text \<open>The lookahead of the printer, over the pieces.\<close>

fun line_ok :: "int \<Rightarrow> bool \<Rightarrow> piece list \<Rightarrow> bool" where
  "line_ok n b [] = (0 \<le> n)"
| "line_ok n b (Txt s # ps) = (0 \<le> n \<and> line_ok (n - of_bool b - int (length s)) False ps)"
| "line_ok n b (Blank # ps) = (0 \<le> n \<and> line_ok n True ps)"
| "line_ok n b (Stop # ps) = (0 \<le> n)"
| "line_ok n b (Forced # ps) = False"

lemma line_ok_nonneg: "n < 0 \<Longrightarrow> \<not> line_ok n b ps"
  by (cases "(n, b, ps)" rule: line_ok.cases) auto

lemma line_ok_text:
  "successively (\<lambda>x y. x \<noteq> Blank \<or> y \<noteq> Blank) ((if b then [Blank] else []) @ this_line ps) \<Longrightarrow>
   line_ok n b ps \<longleftrightarrow> Forced \<notin> set (this_line ps) \<and> int (length (line_text ((if b then [Blank] else []) @ this_line ps))) \<le> n"
proof (induction n b ps rule: line_ok.induct)
  case (2 n b s ps)
  have "successively (\<lambda>x y. x \<noteq> Blank \<or> y \<noteq> Blank) (this_line ps)"
    using "2.prems" by (cases b; cases "this_line ps") (auto simp: this_line_def)
  then show ?case using "2.IH" by (auto simp: this_line_def)
next
  case (3 n b ps)
  then show ?case using line_ok_nonneg[of n True ps] by (cases b) (auto simp: this_line_def)
qed (auto simp: this_line_def)

lemma line_ok_fits: "blanks_apart ps \<Longrightarrow> line_ok n False ps \<longleftrightarrow> line_fits n ps"
  using line_ok_text[of False ps n] by (simp add: blanks_apart_def line_fits_def)

lemma ahead_all_simps [simp]:
  "ahead_all brk gm [] = []"
  "ahead_all brk gm (c # cs) = ahead brk gm (coMode c) (coDoc c) @ ahead_all brk gm cs"
  "ahead_all brk gm (push_parts c ds cs) = ahead brk gm (coMode c) (D_concat ds) @ ahead_all brk gm cs"
  "ahead_all brk gm (push_opt c x cs) = (case x of None \<Rightarrow> [] | Some d \<Rightarrow> ahead brk gm (coMode c) d) @ ahead_all brk gm cs"
  by (simp_all add: ahead_all_def push_parts_def push_opt_def comp_def split: option.split)

lemma ifBreakContents_asked: "ifBreakContents gm b f i m = (if asked_mode gm i m = modeBreak then b else f)"
  by (simp add: ifBreakContents_def asked_mode_def Let_def)

text \<open>One step of \<open>fits\<close> reads the next pieces.\<close>

definition fit_ok :: "(bytes \<Rightarrow> nat) \<Rightarrow> command list \<Rightarrow> fit \<Rightarrow> bool" where
  "fit_ok sw cs t \<longleftrightarrow> \<not> ftSuffix t \<and> (\<forall>c\<in>set cs. plain_doc sw (coDoc c))"

lemma fits_step_line:
  assumes "fit_ok sw (cmd # cs) t" "0 \<le> ftRemaining t"
  shows "case fits_step sw gm brk cmd cs t of
      Inl b \<Rightarrow> b = line_ok (ftRemaining t) (ftPending t) (ahead_all brk gm (cmd # cs) @ ps)
    | Inr (cs', t') \<Rightarrow> fit_ok sw cs' t' \<and> line_ok (ftRemaining t') (ftPending t') (ahead_all brk gm cs' @ ps) =
        line_ok (ftRemaining t) (ftPending t) (ahead_all brk gm (cmd # cs) @ ps)"
proof (cases "coDoc cmd")
  case (D_text s)
  then have "sw s = length s" using assms(1) by (simp add: fit_ok_def plain_text_def)
  then show ?thesis using D_text assms by (auto simp: fits_step_def fit_text_def fit_ok_def Let_def)
next
  case (D_line l)
  then show ?thesis using assms by (cases "coMode cmd") (auto simp: fits_step_def fit_ok_def)
next
  case (D_group g d i ex)
  then show ?thesis using assms
    by (cases "coMode cmd"; cases "brk g") (auto simp: fits_step_def fit_ok_def last_map list_all_iff)
next
  case (D_ifBreak b f i)
  then show ?thesis using assms
    by (auto simp: fits_step_def fit_ok_def ifBreakContents_asked push_opt_def split: option.splits)
next
  case (D_concat ds)
  have "\<forall>c\<in>set (push_parts cmd ds cs). plain_doc sw (coDoc c)"
    using assms(1) D_concat by (auto simp: push_parts_def fit_ok_def list_all_iff)
  then show ?thesis using D_concat assms by (simp add: fits_step_def fit_ok_def)
qed (use assms in \<open>auto simp: fits_step_def fit_ok_def\<close>)

lemma fits_loop_line:
  "fit_ok sw (cs @ rest) t \<Longrightarrow>
   fits_loop sw gm brk cs rest t = line_ok (ftRemaining t) (ftPending t) (ahead_all brk gm cs @ ahead_all brk gm rest)"
proof (induction sw gm brk cs rest t rule: fits_loop.induct)
  case (1 sw gm brk cs rest t)
  show ?case
  proof (cases "ftRemaining t < 0")
    case True
    then show ?thesis using line_ok_nonneg by (simp add: fits_loop.simps[of sw gm brk cs])
  next
    case False
    show ?thesis
    proof (cases cs)
      case Nil
      then show ?thesis using False 1 by (cases rest) (simp_all add: fits_loop.simps[of sw gm brk "[]"])
    next
      case (Cons cmd cs')
      have "fit_ok sw (cmd # cs') t" and rest: "\<forall>c\<in>set rest. plain_doc sw (coDoc c)"
        using "1.prems" Cons by (auto simp: fit_ok_def)
      note step = fits_step_line[OF this(1), where gm = gm and brk = brk and ps = "ahead_all brk gm rest"]
      show ?thesis
      proof (cases "fits_step sw gm brk cmd cs' t")
        case (Inl b)
        then show ?thesis using step False Cons by (simp add: fits_loop.simps[of sw gm brk "cmd # cs'"])
      next
        case (Inr r)
        obtain cs2 t2 where r: "r = (cs2, t2)" by (cases r)
        have ok: "fit_ok sw cs2 t2" and eq: "line_ok (ftRemaining t2) (ftPending t2) (ahead_all brk gm cs2 @ ahead_all brk gm rest) =
            line_ok (ftRemaining t) (ftPending t) (ahead_all brk gm cs @ ahead_all brk gm rest)"
          using step False Inr r Cons by simp_all
        have "fit_ok sw (cs2 @ rest) t2" using ok rest by (auto simp: fit_ok_def)
        then have "fits_loop sw gm brk cs2 rest t2 = line_ok (ftRemaining t2) (ftPending t2) (ahead_all brk gm cs2 @ ahead_all brk gm rest)"
          by (rule "1.IH"(2)[OF False Cons Inr r[symmetric]])
        then show ?thesis using eq False Inr r Cons by (simp add: fits_loop.simps[of sw gm brk "cmd # cs'"])
      qed
    qed
  qed
qed

lemma fits_line:
  assumes "placed sw (c # rest) p" "blanks_apart (ahead_all brk gm (c # rest))" "n < MaxInt"
  shows "fits sw gm brk c rest n False \<longleftrightarrow> line_fits n (ahead_all brk gm (c # rest))"
proof -
  have "fit_ok sw ([c] @ rest) \<lparr>ftRemaining = n, ftPending = False, ftOutput = [], ftSuffix = False\<rparr>"
    using assms(1) by (simp add: fit_ok_def placed_def)
  from fits_loop_line[OF this] show ?thesis using assms(3) line_ok_fits[OF assms(2)] by (simp add: fits_def)
qed

section \<open>Runs\<close>

text \<open>The states of the loop of \<open>run\<close>.\<close>

inductive printing :: "(bytes \<Rightarrow> nat) \<Rightarrow> store \<Rightarrow> printer \<Rightarrow> Options \<Rightarrow> Doc \<Rightarrow> command list \<Rightarrow> printer \<Rightarrow> bool"
  for sw :: "bytes \<Rightarrow> nat" and brk :: store and p0 :: printer and opts :: Options and d :: Doc where
  printing_start: "printing sw brk p0 opts d [start_command d] (reset opts p0)"
| printing_step: "printing sw brk p0 opts d (cmd # cs) p \<Longrightarrow> flush (print_step sw brk cmd cs p) = (cs', p') \<Longrightarrow>
     printing sw brk p0 opts d cs' p'"

lemma printing_run: "printing sw brk p0 opts d cs p \<Longrightarrow> run sw brk cs p = run sw brk [start_command d] (reset opts p0)"
proof (induction rule: printing.induct)
  case (printing_step cmd cs p cs' p')
  have "run sw brk (cmd # cs) p = run sw brk cs' p'"
    by (subst run.simps) (simp add: printing_step.hyps(2))
  then show ?case using printing_step.IH by simp
qed simp

lemma printing_result:
  assumes "printing sw brk p0 opts d cs p" "propagateBreaks d brk0 = Some brk" "plain_options opts"
  shows "map_option fst (Print sw p0 brk0 d opts) = Some (Inr (pnOut (run sw brk cs p)))"
  unfolding Print_run validateOptions_None printing_run[OF assms(1)]
  using assms(2,3) by (auto simp: plain_options_def)

lemma printing_placed:
  assumes "plain_doc sw d" "plain_options opts"
  shows "printing sw brk p0 opts d cs p \<Longrightarrow> placed sw cs p \<and> pnO p = default_options opts"
proof (induction rule: printing.induct)
  case printing_start
  show ?case using assms default_plain
    by (simp add: placed_def start_command_def indentation_ok_def) (simp add: reset_def)
next
  case (printing_step cmd cs p cs' p')
  obtain cs1 p1 where s1: "print_step sw brk cmd cs p = (cs1, p1)" by fastforce
  have st: "placed sw cs1 p1" using step_placed[OF s1] printing_step.IH by simp
  then have "cs' = cs1" "p' = p1" using printing_step.hyps(2) s1 by (auto simp: flush_def placed_def)
  then show ?case using st print_step_keeps[OF s1] printing_step.IH by (auto simp: placed_def)
qed

lemma printing_next:
  assumes "printing sw brk p0 opts d (cmd # cs) p" "print_step sw brk cmd cs p = (cs', p')" "pnLineSuffix p' = []"
  shows "printing sw brk p0 opts d cs' p'"
  using printing_step[OF assms(1)] assms(2,3) by (simp add: flush_def)

text \<open>The names of the groups that a document prints in flat mode.\<close>

fun flat_names :: "Doc \<Rightarrow> int list" where
  "flat_names (D_concat ds) = concat (map flat_names ds)"
| "flat_names (D_group g d i ex) = (if i = 0 then [] else [i]) @ flat_names d"
| "flat_names (D_ifBreak b f i) =
     (case b of None \<Rightarrow> [] | Some d \<Rightarrow> flat_names d) @ (case f of None \<Rightarrow> [] | Some d \<Rightarrow> flat_names d)"
| "flat_names (D_indent d) = flat_names d"
| "flat_names (D_align n d) = flat_names d"
| "flat_names _ = []"

text \<open>A state from which a command is printed on the current line; broken names stay as they were.\<close>

definition in_line :: "(int \<rightharpoonup> mode) \<Rightarrow> printer \<Rightarrow> bool" where
  "in_line gm p \<longleftrightarrow> pnLineSuffix p = [] \<and> \<not> pnShouldRemeasure p \<and>
     (\<forall>i. pnGroupMode p i = Some modeBreak \<longleftrightarrow> gm i = Some modeBreak)"

lemma asked_mode_in_line: "in_line gm p \<Longrightarrow> (asked_mode (pnGroupMode p) i m = modeBreak) = (asked_mode gm i m = modeBreak)"
proof -
  assume "in_line gm p"
  then have "pnGroupMode p i = Some modeBreak \<longleftrightarrow> gm i = Some modeBreak" by (simp add: in_line_def)
  then show ?thesis by (auto simp: asked_mode_def split: option.split)
qed

definition on_line :: "store \<Rightarrow> (int \<rightharpoonup> mode) \<Rightarrow> Doc \<Rightarrow> bool" where
  "on_line brk gm c \<longleftrightarrow> Stop \<notin> set (ahead brk gm modeFlat c) \<and> Forced \<notin> set (ahead brk gm modeFlat c) \<and>
     (\<forall>i\<in>set (flat_names c). gm i \<noteq> Some modeBreak)"

abbreviation flat_out :: "store \<Rightarrow> (int \<rightharpoonup> mode) \<Rightarrow> Doc \<Rightarrow> bytes" where
  "flat_out brk gm c \<equiv> concat (map piece_text (ahead brk gm modeFlat c))"

definition prints_flat :: "(bytes \<Rightarrow> nat) \<Rightarrow> store \<Rightarrow> printer \<Rightarrow> Options \<Rightarrow> Doc \<Rightarrow> (int \<rightharpoonup> mode) \<Rightarrow> command list \<Rightarrow> command list \<Rightarrow> printer \<Rightarrow> bytes \<Rightarrow> bool" where
  "prints_flat sw brk p0 opts d gm cs cs' p t \<longleftrightarrow> (printing sw brk p0 opts d cs p \<longrightarrow> in_line gm p \<longrightarrow>
     (\<exists>q. printing sw brk p0 opts d cs' q \<and> in_line gm q \<and> pnOut q = pnOut p @ t))"

lemma prints_flat_parts:
  assumes "\<And>e c cs p. e \<in> set ds \<Longrightarrow> coMode c = modeFlat \<Longrightarrow> coDoc c = e \<Longrightarrow> prints_flat sw brk p0 opts d gm (c # cs) cs p (flat_out brk gm e)"
    "coMode cmd = modeFlat"
  shows "prints_flat sw brk p0 opts d gm (push_parts cmd ds cs) cs p (concat (map (flat_out brk gm) ds))"
  using assms(1)
proof (induction ds arbitrary: p)
  case (Cons e ds)
  have first: "prints_flat sw brk p0 opts d gm (push_parts cmd (e # ds) cs) (push_parts cmd ds cs) p (flat_out brk gm e)"
    using Cons.prems[of e "cmd\<lparr>coDoc := e\<rparr>"] assms(2) by (simp add: push_parts_def)
  have "prints_flat sw brk p0 opts d gm (push_parts cmd ds cs) cs q (concat (map (flat_out brk gm) ds))" for q
    using Cons.prems by (intro Cons.IH) auto
  with first show ?case unfolding prints_flat_def by fastforce
qed (auto simp: prints_flat_def push_parts_def)

lemma prints_flat_refl: "prints_flat sw brk p0 opts d gm cs cs p []"
  by (auto simp: prints_flat_def)

lemma prints_flat_step:
  assumes "in_line gm p \<Longrightarrow> \<exists>p'. print_step sw brk cmd cs p = (cs', p') \<and> in_line gm p' \<and> pnOut p' = pnOut p @ s"
    "\<And>p'. prints_flat sw brk p0 opts d gm cs' cs p' t"
  shows "prints_flat sw brk p0 opts d gm (cmd # cs) cs p (s @ t)"
  unfolding prints_flat_def
proof (intro impI)
  assume pr: "printing sw brk p0 opts d (cmd # cs) p" and "in_line gm p"
  then obtain p' where p': "print_step sw brk cmd cs p = (cs', p')" "in_line gm p'" "pnOut p' = pnOut p @ s" using assms(1) by blast
  have "printing sw brk p0 opts d cs' p'" using printing_next[OF pr p'(1)] p'(2) by (simp add: in_line_def)
  then show "\<exists>q. printing sw brk p0 opts d cs q \<and> in_line gm q \<and> pnOut q = pnOut p @ s @ t"
    using assms(2)[of p'] p'(2,3) unfolding prints_flat_def by auto
qed

lemmas prints_flat_push = prints_flat_step[where s = "[]", simplified]
lemmas prints_flat_last = prints_flat_step[where t = "[]", OF _ prints_flat_refl, simplified]

lemma prints_flat_doc:
  "plain_doc sw c \<Longrightarrow> on_line brk gm c \<Longrightarrow> coMode cmd = modeFlat \<Longrightarrow> coDoc cmd = c \<Longrightarrow>
   prints_flat sw brk p0 opts d gm (cmd # cs) cs p (flat_out brk gm c)"
proof (induction c arbitrary: cmd cs p)
  case (D_text s)
  show ?case by (rule prints_flat_last) (use D_text in \<open>auto simp: print_step_def print_text_def Let_def in_line_def\<close>)
next
  case (D_concat ds)
  have t: "flat_out brk gm (D_concat ds) = concat (map (flat_out brk gm) ds)" by (induction ds) auto
  have "prints_flat sw brk p0 opts d gm (push_parts cmd ds cs) cs q (concat (map (flat_out brk gm) ds))" for q
    using D_concat by (intro prints_flat_parts) (auto simp: list_all_iff on_line_def)
  then show ?case unfolding t using D_concat.prems by (intro prints_flat_push) (auto simp: print_step_def)
next
  case (D_line l)
  show ?case by (rule prints_flat_last)
      (use D_line in \<open>auto simp: print_step_def print_line_def in_line_def on_line_def split: if_splits\<close>)
next
  case (D_group g c i ex)
  let ?cmd = "cmd\<lparr>coMode := modeFlat, coDoc := c\<rparr>"
  have g: "\<not> brk g" "on_line brk gm c" "i \<noteq> 0 \<Longrightarrow> gm i \<noteq> Some modeBreak"
    using D_group.prems(2) by (auto simp: on_line_def split: if_splits)
  have "prints_flat sw brk p0 opts d gm (?cmd # cs) cs q (flat_out brk gm c)" for q
    by (rule D_group.IH(1)) (use D_group.prems g in auto)
  then show ?case using D_group.prems g
    by (simp, intro prints_flat_push) (auto simp: print_step_def printGroup_def in_line_def)
next
  case (D_ifBreak b f i)
  let ?x = "if asked_mode gm i modeFlat = modeBreak then b else f"
  have t: "flat_out brk gm (D_ifBreak b f i) = (case ?x of None \<Rightarrow> [] | Some e \<Rightarrow> flat_out brk gm e)" by (auto split: option.split)
  have "prints_flat sw brk p0 opts d gm (push_opt cmd ?x cs) cs q (flat_out brk gm (D_ifBreak b f i))" for q
  proof (cases ?x)
    case None
    then show ?thesis unfolding t by (simp add: push_opt_def prints_flat_refl)
  next
    case (Some e)
    then have "b = Some e \<or> f = Some e" by (auto split: if_splits)
    moreover have "plain_doc sw e" "on_line brk gm e" using D_ifBreak.prems(1,2) Some by (auto simp: on_line_def split: if_splits)
    ultimately have "prints_flat sw brk p0 opts d gm (cmd\<lparr>coDoc := e\<rparr> # cs) cs q (flat_out brk gm e)"
      using D_ifBreak.IH D_ifBreak.prems(3) by fastforce
    then show ?thesis unfolding t Some by (simp add: push_opt_def)
  qed
  then show ?case using D_ifBreak.prems
    by (intro prints_flat_push) (auto simp: print_step_def ifBreakContents_asked asked_mode_in_line)
next
  case (D_indent c)
  have "prints_flat sw brk p0 opts d gm (e # cs) cs q (flat_out brk gm c)" if "coMode e = modeFlat" "coDoc e = c" for e q
    using D_indent that by (auto simp: on_line_def)
  then show ?case using D_indent.prems by (simp, intro prints_flat_push) (auto simp: print_step_def)
next
  case (D_align n c)
  have "prints_flat sw brk p0 opts d gm (e # cs) cs q (flat_out brk gm c)" if "coMode e = modeFlat" "coDoc e = c" for e q
    using D_align that by (auto simp: on_line_def)
  then show ?case using D_align.prems by (simp, intro prints_flat_push) (auto simp: print_step_def)
next
  case D_lineSuffixBoundary
  show ?case by (rule prints_flat_last) (use D_lineSuffixBoundary in \<open>auto simp: print_step_def in_line_def\<close>)
next
  case D_breakParent
  show ?case by (rule prints_flat_last) (use D_breakParent in \<open>auto simp: print_step_def\<close>)
qed simp_all

section \<open>Groups\<close>

text \<open>A group stays flat at a command stack and printer if its line has room for it.\<close>

definition stays_flat :: "Options \<Rightarrow> store \<Rightarrow> command \<Rightarrow> nat \<Rightarrow> Doc \<Rightarrow> command list \<Rightarrow> printer \<Rightarrow> bool" where
  "stays_flat opts brk cmd g c cs p \<longleftrightarrow> \<not> brk g \<and>
     line_fits (opPrintWidth opts - column (opTabWidth opts) (pnOut p))
       (ahead_all brk (pnGroupMode p) (cmd\<lparr>coMode := modeFlat, coDoc := c\<rparr> # cs))"

lemma column_nonneg: "0 \<le> tw \<Longrightarrow> 0 \<le> column tw s"
  by (auto simp: column_def columns_def intro!: sum_list_nonneg)

lemma printGroup_line:
  assumes st: "placed sw (cmd # cs) p" and doc: "coDoc cmd = D_group g c i ex"
    and decides: "coMode cmd = modeBreak \<or> pnShouldRemeasure p"
    and apart: "blanks_apart (ahead_all brk (pnGroupMode p) (cmd\<lparr>coMode := modeFlat, coDoc := c\<rparr> # cs))"
  shows "stays_flat (pnO p) brk cmd g c cs p \<Longrightarrow>
      printGroup sw brk cmd g c ex cs p = (cmd\<lparr>coMode := modeFlat, coDoc := c\<rparr>, p\<lparr>pnShouldRemeasure := False\<rparr>)"
    "\<not> stays_flat (pnO p) brk cmd g c cs p \<Longrightarrow> ex = [] \<Longrightarrow>
      printGroup sw brk cmd g c ex cs p = (cmd\<lparr>coMode := modeBreak, coDoc := c\<rparr>, p\<lparr>pnShouldRemeasure := False\<rparr>)"
proof -
  let ?flat = "cmd\<lparr>coMode := modeFlat, coDoc := c\<rparr>" and ?n = "opPrintWidth (pnO p) - pnPosition p"
  have "placed sw (?flat # cs) p" using st doc by (auto simp: placed_def)
  moreover have pos: "pnPosition p = column (opTabWidth (pnO p)) (pnOut p)" using st by (simp add: placed_def)
  moreover have "0 < opTabWidth (pnO p)" "opPrintWidth (pnO p) < MaxInt" "pnLineSuffix p = []"
    using st by (simp_all add: placed_def default_plain_def plain_options_def)
  moreover from this have "?n < MaxInt" using pos column_nonneg[of "opTabWidth (pnO p)" "pnOut p"] by linarith
  ultimately have "stays_flat (pnO p) brk cmd g c cs p \<longleftrightarrow> \<not> brk g \<and> fits sw (pnGroupMode p) brk ?flat cs ?n False"
    using fits_line[OF _ apart] by (simp add: stays_flat_def)
  then show "stays_flat (pnO p) brk cmd g c cs p \<Longrightarrow> printGroup sw brk cmd g c ex cs p = (?flat, p\<lparr>pnShouldRemeasure := False\<rparr>)"
    "\<not> stays_flat (pnO p) brk cmd g c cs p \<Longrightarrow> ex = [] \<Longrightarrow>
      printGroup sw brk cmd g c ex cs p = (cmd\<lparr>coMode := modeBreak, coDoc := c\<rparr>, p\<lparr>pnShouldRemeasure := False\<rparr>)"
    using decides \<open>pnLineSuffix p = []\<close> by (auto simp: printGroup_def Let_def)
qed

lemma stays_flat_default: "stays_flat (default_options opts) brk cmd g c cs p = stays_flat opts brk cmd g c cs p"
  by (simp add: stays_flat_def default_options_def Let_def)

text \<open>
  C27: the layout of groups. Take any point of printing a document without suffixes and
  trims, whose texts take a column per byte, at which a group is about to be printed whose
  enclosing context is broken (or was measured before a hard line). The group stays flat
  exactly if it is not marked as broken and the rest of the current line, that is its flat
  contents and what follows up to the first end of line, has no broken group in a flat one
  and ends within the print width, counted from the column where the text printed so far
  ends. If it stays flat and holds no end of line itself, exactly its flat text is printed
  before what follows; otherwise, without expanded states, its contents are printed in
  broken mode. The result of \<open>Print\<close> is the output of the run from there. No two blanks
  meet on that line (the lookahead would count them as one), and no named group in the
  group has been printed broken before.
\<close>

theorem Print_group_flat:
  assumes "propagateBreaks d brk0 = Some brk" and "plain_doc sw d" and "plain_options opts"
    and at_group: "printing sw brk p0 opts d (cmd # cs) p" "coDoc cmd = D_group g c i ex"
    and decides: "coMode cmd = modeBreak \<or> pnShouldRemeasure p"
    and "\<forall>j\<in>set (flat_names (D_group g c i ex)). pnGroupMode p j \<noteq> Some modeBreak"
    and "blanks_apart (ahead_all brk (pnGroupMode p) (cmd\<lparr>coMode := modeFlat, coDoc := c\<rparr> # cs))"
  shows "if stays_flat opts brk cmd g c cs p
    then Stop \<notin> set (ahead brk (pnGroupMode p) modeFlat c) \<longrightarrow>
      (\<exists>q. printing sw brk p0 opts d cs q \<and> pnOut q = pnOut p @ flat_out brk (pnGroupMode p) c \<and>
        map_option fst (Print sw p0 brk0 d opts) = Some (Inr (pnOut (run sw brk cs q))))
    else ex = [] \<longrightarrow>
      (\<exists>q. printing sw brk p0 opts d (cmd\<lparr>coMode := modeBreak, coDoc := c\<rparr> # cs) q \<and> pnOut q = pnOut p \<and>
        map_option fst (Print sw p0 brk0 d opts) = Some (Inr (pnOut (run sw brk (cmd\<lparr>coMode := modeBreak, coDoc := c\<rparr> # cs) q))))"
proof -
  note result = printing_result[OF _ assms(1,3)]
  have st: "placed sw (cmd # cs) p" and o: "pnO p = default_options opts"
    using printing_placed[OF assms(2,3) at_group(1)] by blast+
  then have suffix: "pnLineSuffix p = []" and plain: "plain_doc sw c" using at_group(2) by (simp_all add: placed_def)
  note line = printGroup_line[OF st at_group(2) decides assms(8), unfolded o stays_flat_default]
  define after where "after m = (if i \<noteq> 0 then (p\<lparr>pnShouldRemeasure := False\<rparr>)\<lparr>pnGroupMode := (pnGroupMode p)(i \<mapsto> m)\<rparr>
    else p\<lparr>pnShouldRemeasure := False\<rparr>)" for m
  have after: "pnLineSuffix (after m) = []" "pnOut (after m) = pnOut p" for m using suffix by (simp_all add: after_def)
  have step: "printing sw brk p0 opts d (cmd\<lparr>coMode := m, coDoc := c\<rparr> # cs) (after m)"
    if "printGroup sw brk cmd g c ex cs p = (cmd\<lparr>coMode := m, coDoc := c\<rparr>, p\<lparr>pnShouldRemeasure := False\<rparr>)" for m
    by (rule printing_next[OF at_group(1) _ after(1)]) (use that at_group(2) in \<open>simp add: print_step_def after_def\<close>)
  show ?thesis
  proof (cases "stays_flat opts brk cmd g c cs p")
    case True
    show ?thesis unfolding if_P[OF True]
    proof (intro impI)
      assume stop: "Stop \<notin> set (ahead brk (pnGroupMode p) modeFlat c)"
      have "Forced \<notin> set (ahead brk (pnGroupMode p) modeFlat c)"
        using True this_line_append[OF stop] by (auto simp: stays_flat_def line_fits_def)
      then have "on_line brk (pnGroupMode p) c" using stop assms(7) by (simp add: on_line_def)
      moreover have "in_line (pnGroupMode p) (after modeFlat)"
        using suffix assms(7) by (auto simp: after_def in_line_def)
      ultimately obtain q where q: "printing sw brk p0 opts d cs q" "pnOut q = pnOut p @ flat_out brk (pnGroupMode p) c"
        using prints_flat_doc[OF plain, of brk "pnGroupMode p" "cmd\<lparr>coMode := modeFlat, coDoc := c\<rparr>"] step[OF line(1)[OF True]] after(2)
        unfolding prints_flat_def by fastforce
      show "\<exists>q. printing sw brk p0 opts d cs q \<and> pnOut q = pnOut p @ flat_out brk (pnGroupMode p) c \<and>
          map_option fst (Print sw p0 brk0 d opts) = Some (Inr (pnOut (run sw brk cs q)))"
        using q result[OF q(1)] by blast
    qed
  next
    case False
    have "\<exists>q. printing sw brk p0 opts d (cmd\<lparr>coMode := modeBreak, coDoc := c\<rparr> # cs) q \<and> pnOut q = pnOut p \<and>
        map_option fst (Print sw p0 brk0 d opts) = Some (Inr (pnOut (run sw brk (cmd\<lparr>coMode := modeBreak, coDoc := c\<rparr> # cs) q)))" if "ex = []"
      using step[OF line(2)[OF False that]] after(2) result by blast
    then show ?thesis unfolding if_not_P[OF False] by blast
  qed
qed

text \<open>A call in the middle of a statement of twelve columns: it fits twelve, and not eleven.\<close>

definition call_doc :: Doc where
  "call_doc = D_concat [D_text ''f('', D_indent (D_concat [SoftLine, D_text ''a,'', Line, D_group 1 (D_text ''b'') 0 []]), SoftLine, D_text '')'']"

definition statement_doc :: Doc where
  "statement_doc = D_concat [D_text ''x = '', D_group 0 call_doc 0 [], D_text '';'']"

abbreviation at_call :: "printer \<Rightarrow> Options \<Rightarrow> command list \<Rightarrow> printer \<Rightarrow> bool" where
  "at_call \<equiv> (\<lambda>p0 opts. printing length (\<lambda>_. False) p0 opts statement_doc)"

abbreviation call_printer :: "Options \<Rightarrow> printer" where
  "call_printer opts \<equiv> (reset opts fresh_printer)\<lparr>pnOut := ''x = '', pnPosition := 4\<rparr>"

lemma at_call: "at_call fresh_printer opts [start_command (D_group 0 call_doc 0 []), start_command (D_text '';'')] (call_printer opts)"
proof -
  have "at_call fresh_printer opts (map start_command [D_text ''x = '', D_group 0 call_doc 0 [], D_text '';'']) (reset opts fresh_printer)"
    by (rule printing_step[OF printing_start]) (simp add: statement_doc_def print_step_def start_command_def push_parts_def flush_def)
  then have "at_call fresh_printer opts (start_command (D_text ''x = '') #
      [start_command (D_group 0 call_doc 0 []), start_command (D_text '';'')]) (reset opts fresh_printer)" by simp
  then show ?thesis
    by (rule printing_step)
      (simp add: print_step_def print_text_def start_command_def flush_def write_out_def reset_def)
qed

lemma Print_group_flat_witness:
  "(\<exists>q. at_call fresh_printer (demo_options\<lparr>opPrintWidth := 12\<rparr>) [start_command (D_text '';'')] q \<and> pnOut q = ''x = f(a, b)'') \<and>
   (\<exists>q. at_call fresh_printer (demo_options\<lparr>opPrintWidth := 11\<rparr>) [start_command call_doc, start_command (D_text '';'')] q \<and>
      pnOut q = ''x = '')"
proof -
  note docs = call_doc_def SoftLine_def Line_def plain_line_def
  let ?brk = "\<lambda>_. False" and ?cmd = "start_command (D_group 0 call_doc 0 [])" and ?rest = "[start_command (D_text '';'')]"
  have pb: "propagateBreaks statement_doc ?brk = Some ?brk"
    by (subst propagateBreaks_marked) (simp_all add: statement_doc_def docs)
  have plain: "plain_doc length statement_doc" by (simp add: statement_doc_def plain_text_def docs)
  have opts: "plain_options (demo_options\<lparr>opPrintWidth := w\<rparr>)" if "w \<in> {11, 12}" for w
    using that by (auto simp: plain_options_def MaxInt_def demo_options_def)
  have modes: "pnGroupMode (call_printer opts) = Map.empty" for opts by (simp add: reset_def)
  have call: "ahead ?brk gm modeFlat call_doc = [Txt ''f('', Txt ''a,'', Blank, Txt ''b'', Txt '')'']" for gm by (simp add: docs)
  have line: "ahead_all ?brk gm (?cmd\<lparr>coMode := modeFlat, coDoc := call_doc\<rparr> # ?rest) =
      [Txt ''f('', Txt ''a,'', Blank, Txt ''b'', Txt '')'', Txt '';'']" for gm
    by (simp add: call start_command_def)
  have fits: "stays_flat (demo_options\<lparr>opPrintWidth := w\<rparr>) ?brk ?cmd 0 call_doc ?rest (call_printer opts) \<longleftrightarrow> 12 \<le> w" for w opts
    unfolding stays_flat_def line by (simp add: line_fits_def this_line_def column_def columns_def demo_options_def)
  have ids: "\<forall>j\<in>set (flat_names (D_group 0 call_doc 0 [])). pnGroupMode (call_printer opts) j \<noteq> Some modeBreak" for opts
    by (simp add: docs)
  have apart: "blanks_apart (ahead_all ?brk gm (?cmd\<lparr>coMode := modeFlat, coDoc := call_doc\<rparr> # ?rest))" for gm
    unfolding line by (simp add: blanks_apart_def this_line_def)
  have cmd: "coDoc ?cmd = D_group 0 call_doc 0 []" "coMode ?cmd = modeBreak \<or> b" "?cmd\<lparr>coMode := modeBreak, coDoc := call_doc\<rparr> = start_command call_doc" for b
    by (simp_all add: start_command_def)
  note main = Print_group_flat[OF pb plain opts at_call cmd(1,2) ids apart, unfolded fits call modes cmd(3)]
  from main[of 12] main[of 11] show ?thesis by simp blast
qed

end
