(* ===== verification/Splice.thy ===== *)
theory Splice imports Prelude
begin

text \<open>
  Edits of a text by byte ranges, as \<open>mapper/apply.go\<close> and \<open>sema/edit.go\<close> resolve them
  (the local types \<open>pending\<close> and \<open>edit\<close>), and the reference meaning of a list of them.
\<close>

record pending_edit =
  peStart :: nat
  peEnd :: nat
  peText :: bytes

text \<open>The document with disjoint edits, in ascending order, replaced.\<close>

fun splice :: "bytes \<Rightarrow> nat \<Rightarrow> pending_edit list \<Rightarrow> bytes" where
  "splice c pos [] = drop pos c"
| "splice c pos (e # es) = Prelude.slice pos (peStart e) c @ peText e @ splice c (peEnd e) es"

fun disjoint_from :: "nat \<Rightarrow> pending_edit list \<Rightarrow> bool" where
  "disjoint_from pos [] = True"
| "disjoint_from pos (e # es) = (pos \<le> peStart e \<and> peStart e \<le> peEnd e \<and> disjoint_from (peEnd e) es)"

lemma splice_step:
  assumes "pos \<le> peStart e" "peStart e \<le> length c"
  shows "take (peStart e) c @ t = take pos c @ Prelude.slice pos (peStart e) c @ t"
proof -
  have "take (peStart e) c = take pos c @ Prelude.slice pos (peStart e) c"
    using assms(1) take_add[of pos "peStart e - pos" c] by (simp add: Prelude.slice_def)
  then show ?thesis by simp
qed

end
