(* ===== verification/Slices.thy ===== *)
theory Slices imports Prelude
begin

text \<open>
  What the code uses of Go's \<open>sort\<close> and \<open>slices\<close> packages: the binary search
  \<open>sort.Search\<close> and the stable sort \<open>slices.SortStableFunc\<close>.
\<close>

section \<open>Binary search\<close>

text \<open>\<open>sort.Search\<close>: the binary search for the first index at which \<open>f\<close> holds.\<close>

function search_loop :: "(nat \<Rightarrow> bool) \<Rightarrow> nat \<Rightarrow> nat \<Rightarrow> nat" where
  "search_loop f i j =
     (if i < j then (let h = (i + j) div 2 in if \<not> f h then search_loop f (h + 1) j else search_loop f i h)
      else i)"
  by pat_completeness auto
termination
  by (relation "measure (\<lambda>(f, i, j). j - i)") auto

declare search_loop.simps [simp del]

definition sort_Search :: "nat \<Rightarrow> (nat \<Rightarrow> bool) \<Rightarrow> nat" where
  "sort_Search n f = search_loop f 0 n"

definition upward :: "nat \<Rightarrow> (nat \<Rightarrow> bool) \<Rightarrow> bool" where
  "upward n f \<longleftrightarrow> (\<forall>i j. i \<le> j \<and> j < n \<longrightarrow> f i \<longrightarrow> f j)"

definition first_at :: "(nat \<Rightarrow> bool) \<Rightarrow> nat \<Rightarrow> nat \<Rightarrow> bool" where
  "first_at f n r \<longleftrightarrow> (\<forall>k. k < r \<longrightarrow> \<not> f k) \<and> (r < n \<longrightarrow> f r) \<and> r \<le> n"

lemma search_loop_spec:
  "upward n f \<Longrightarrow> i \<le> j \<Longrightarrow> (\<forall>k. k < i \<longrightarrow> \<not> f k) \<Longrightarrow> (j < n \<longrightarrow> f j) \<Longrightarrow> j \<le> n \<Longrightarrow>
   first_at f n (search_loop f i j)"
proof (induction f i j rule: search_loop.induct)
  case (1 f i j)
  show ?case
  proof (cases "i < j")
    case True
    let ?h = "(i + j) div 2"
    have h: "?h < j" "i \<le> ?h" using True by auto
    show ?thesis
    proof (cases "f ?h")
      case False
      have "\<not> f k" if "k < ?h + 1" for k
        using False "1.prems"(1,5) h that unfolding upward_def by (metis Suc_eq_plus1 less_Suc_eq_le less_le_trans)
      then have "first_at f n (search_loop f (?h + 1) j)"
        using "1.IH"(1)[OF True refl False] "1.prems" h by auto
      then show ?thesis using True False by (simp add: search_loop.simps[of f i j])
    next
      case t: True
      then have "first_at f n (search_loop f i ?h)"
        using "1.IH"(2)[OF True refl] "1.prems" h by auto
      then show ?thesis using True t by (simp add: search_loop.simps[of f i j])
    qed
  next
    case False
    then have "search_loop f i j = i" by (subst search_loop.simps) simp
    moreover have "i = j" using False "1.prems"(2) by simp
    ultimately show ?thesis using "1.prems" by (simp add: first_at_def)
  qed
qed

lemma sort_Search_first: "upward n f \<Longrightarrow> first_at f n (sort_Search n f)"
  unfolding sort_Search_def by (rule search_loop_spec) auto

lemma first_at_unique: "first_at f n r \<Longrightarrow> first_at f n q \<Longrightarrow> r = q"
  unfolding first_at_def by (metis le_neq_implies_less less_le_trans linorder_neqE_nat)

section \<open>Stable sort\<close>

text \<open>
  \<open>slices.SortStableFunc\<close>: a stable sort by a comparison function.
\<close>

fun insert_stable :: "('a \<Rightarrow> 'a \<Rightarrow> int) \<Rightarrow> 'a \<Rightarrow> 'a list \<Rightarrow> 'a list" where
  "insert_stable cmp x [] = [x]"
| "insert_stable cmp x (y # ys) = (if cmp x y \<le> 0 then x # y # ys else y # insert_stable cmp x ys)"

definition SortStableFunc :: "('a \<Rightarrow> 'a \<Rightarrow> int) \<Rightarrow> 'a list \<Rightarrow> 'a list" where
  "SortStableFunc cmp xs = foldr (insert_stable cmp) xs []"

definition Compare :: "nat \<Rightarrow> nat \<Rightarrow> int" where
  "Compare a b = (if a < b then - 1 else if a = b then 0 else 1)"

lemma SortStable_key:
  assumes "\<And>a b. cmp a b \<le> 0 \<longleftrightarrow> f a \<le> f b"
  shows "SortStableFunc cmp xs = sort_key f xs"
proof -
  have "insert_stable cmp x ys = insort_key f x ys" for x ys
    by (induction ys) (auto simp: assms)
  then have "insert_stable cmp = insort_key f" by (intro ext)
  then show ?thesis by (simp add: SortStableFunc_def sort_key_def)
qed

end
