(* ===== verification/Mapper.thy ===== *)
theory Mapper imports AstVisit Splice Slices "HOL-Library.Word"
begin

text \<open>
  \<open>mapper/mapper.go\<close> and \<open>mapper/apply.go\<close>: positions of the language server
  protocol (lines from 0, columns in UTF-16 code units, both 32-bit) against byte
  offsets and parser positions, and the application of text edits. The table of
  line starts is computed once, on the first call; its caching is invisible, since
  every operation starts by filling it.
\<close>

section \<open>Data\<close>

record LspPosition =
  lpLine :: "32 word"
  lpCharacter :: "32 word"

record LspRange =
  lrStart :: LspPosition
  lrEnd :: LspPosition

record TextEdit =
  teRange :: LspRange
  teNewText :: bytes

record Mapper =
  mpContent :: bytes
  mpLineStart :: "nat list"
  mpNonASCII :: bool

datatype mapper_error =
    Invalid_offset int nat
  | Invalid_line nat nat
  | Invalid_edit_range nat nat nat

definition NewMapper :: "bytes \<Rightarrow> Mapper" where
  "NewMapper content = \<lparr>mpContent = content, mpLineStart = [], mpNonASCII = False\<rparr>"

definition note_byte :: "bytes \<Rightarrow> nat \<Rightarrow> Mapper \<Rightarrow> Mapper" where
  "note_byte content offset m =
     (let b = content ! offset;
          m = (if b = LF then m\<lparr>mpLineStart := mpLineStart m @ [offset + 1]\<rparr> else m) in
      if byte b \<ge> rune_self then m\<lparr>mpNonASCII := True\<rparr> else m)"

definition initLineStart :: "Mapper \<Rightarrow> Mapper" where
  "initLineStart m =
     (if mpLineStart m \<noteq> [] then m
      else fold (note_byte (mpContent m)) [0..<length (mpContent m)] (m\<lparr>mpLineStart := [0]\<rparr>))"

section \<open>Columns in UTF-16 code units\<close>

definition utf16_len :: "nat \<Rightarrow> nat" where
  "utf16_len r = (if r \<ge> 0x10000 then 2 else 1)"

function utf16Count :: "bytes \<Rightarrow> nat" where
  "utf16Count s =
     (if s = [] then 0 else utf16_len (fst (decode_rune s)) + utf16Count (drop (rune_size s) s))"
  by pat_completeness auto
termination
  by (relation "measure length") (auto simp: rune_size_pos')

declare utf16Count.simps [simp del]

section \<open>Offsets to LSP positions\<close>

definition GetLSPEndPosition :: "Mapper \<Rightarrow> LspPosition" where
  "GetLSPEndPosition m =
     (let m = initLineStart m;
          lastLine = drop (last (mpLineStart m)) (mpContent m) in
      \<lparr>lpLine = word_of_nat (length (mpLineStart m) - 1), lpCharacter = word_of_nat (utf16Count lastLine)\<rparr>)"

definition OffsetToLSPPosition :: "Mapper \<Rightarrow> int \<Rightarrow> mapper_error + LspPosition" where
  "OffsetToLSPPosition m offset =
     (let m = initLineStart m in
      if offset < 0 \<or> offset > int (length (mpContent m)) then Inl (Invalid_offset offset (length (mpContent m)))
      else
        (let line = sort_Search (length (mpLineStart m)) (\<lambda>i. int (mpLineStart m ! i) > offset) - 1 in
         Inr \<lparr>lpLine = word_of_nat line,
              lpCharacter = word_of_nat (utf16Count (Prelude.slice (mpLineStart m ! line) (nat offset) (mpContent m)))\<rparr>))"

section \<open>LSP positions to parser positions\<close>

text \<open>The byte column of a column in UTF-16 code units.\<close>

function utf16_to_bytes :: "nat \<Rightarrow> bytes \<Rightarrow> nat \<Rightarrow> nat \<Rightarrow> nat" where
  "utf16_to_bytes character lineBytes utf16Col bytesCol =
     (if lineBytes \<noteq> [] \<and> utf16Col < character then
        (if byte (hd lineBytes) < rune_self
         then utf16_to_bytes character (tl lineBytes) (utf16Col + 1) (bytesCol + 1)
         else (let (r, n) = decode_rune lineBytes in
           utf16_to_bytes character (drop n lineBytes) (utf16Col + utf16_len r) (bytesCol + n)))
      else bytesCol)"
  by pat_completeness auto
termination
  by (relation "measure (\<lambda>(c, s, u, b). length s)") (auto simp: rune_size_pos' dest!: arg_cong[where f = snd])

declare utf16_to_bytes.simps [simp del]

definition line_content_end :: "Mapper \<Rightarrow> nat \<Rightarrow> nat" where
  "line_content_end m line =
     (let lineStart = mpLineStart m ! (line - 1) in
      if line < length (mpLineStart m) then
        (let lineEnd = mpLineStart m ! line - 1 in
         if lineEnd > lineStart \<and> mpContent m ! (lineEnd - 1) = CR then lineEnd - 1 else lineEnd)
      else length (mpContent m))"

definition LSPPosToParserPosition :: "Mapper \<Rightarrow> LspPosition \<Rightarrow> mapper_error + Position" where
  "LSPPosToParserPosition m pos =
     (let m = initLineStart m;
          line = unat (lpLine pos) + 1 in
      if line > length (mpLineStart m) then Inl (Invalid_line line (length (mpLineStart m)))
      else
        (let lineStart = mpLineStart m ! unat (lpLine pos);
             lineEnd = line_content_end m line in
         if \<not> mpNonASCII m then
           (let char = min (unat (lpCharacter pos)) (lineEnd - lineStart) in
            Inr \<lparr>poLine = line, poCol = char + 1, poOffset = lineStart + char\<rparr>)
         else
           (let bytesCol = utf16_to_bytes (unat (lpCharacter pos)) (Prelude.slice lineStart lineEnd (mpContent m)) 0 0;
                runeLen = rune_count (Prelude.slice lineStart (lineStart + bytesCol) (mpContent m)) in
            Inr \<lparr>poLine = line, poCol = runeLen + 1, poOffset = lineStart + bytesCol\<rparr>)))"

section \<open>Applying edits\<close>

definition offsetAt :: "Mapper \<Rightarrow> LspPosition \<Rightarrow> mapper_error + nat" where
  "offsetAt m pos = (case LSPPosToParserPosition m pos of Inl e \<Rightarrow> Inl e | Inr p \<Rightarrow> Inr (poOffset p))"

fun resolve_edits :: "Mapper \<Rightarrow> TextEdit list \<Rightarrow> mapper_error + pending_edit list" where
  "resolve_edits m [] = Inr []"
| "resolve_edits m (e # es) =
     (case offsetAt m (lrStart (teRange e)) of
        Inl err \<Rightarrow> Inl err
      | Inr start \<Rightarrow>
          (case offsetAt m (lrEnd (teRange e)) of
             Inl err \<Rightarrow> Inl err
           | Inr stop \<Rightarrow>
               (case resolve_edits m es of
                  Inl err \<Rightarrow> Inl err
                | Inr all \<Rightarrow> Inr (\<lparr>peStart = start, peEnd = stop, peText = teNewText e\<rparr> # all))))"

fun apply_pending :: "pending_edit list \<Rightarrow> bytes \<Rightarrow> mapper_error + bytes" where
  "apply_pending [] buf = Inr buf"
| "apply_pending (e # es) buf =
     (if peEnd e > length buf \<or> peStart e > peEnd e
      then Inl (Invalid_edit_range (peStart e) (peEnd e) (length buf))
      else apply_pending es (take (peStart e) buf @ peText e @ drop (peEnd e) buf))"

text \<open>
  \<open>sort.Slice\<close> orders by descending start and leaves the order of equal starts
  open; the sorting function is a parameter.
\<close>

definition ApplyEdits :: "(pending_edit list \<Rightarrow> pending_edit list) \<Rightarrow> Mapper \<Rightarrow> TextEdit list \<Rightarrow> mapper_error + bytes" where
  "ApplyEdits sort_desc m edits =
     (case resolve_edits m edits of Inl e \<Rightarrow> Inl e | Inr all \<Rightarrow> apply_pending (sort_desc all) (mpContent m))"

end
