(* ===== verification/MapperProps.thy ===== *)
theory MapperProps imports Mapper "HOL-Library.Multiset"
begin

text \<open>
  The mapper of \<open>mapper/\<close>: conversions between byte offsets and protocol
  positions are inverse to each other on the positions of a line's text, clamp
  everything else, and the fast path for ASCII is the general one; edits are
  spliced into the document.
\<close>

section \<open>The table of line starts\<close>

definition lf_count :: "bytes \<Rightarrow> nat \<Rightarrow> nat" where
  "lf_count c n = length (filter (\<lambda>i. c ! i = LF) [0..<n])"

definition lf_starts :: "bytes \<Rightarrow> nat \<Rightarrow> nat list" where
  "lf_starts c n = 0 # map Suc (filter (\<lambda>i. c ! i = LF) [0..<n])"

text \<open>The start of the line of an offset.\<close>

definition line_begin :: "bytes \<Rightarrow> nat \<Rightarrow> nat" where
  "line_begin c n = last (lf_starts c n)"

lemma length_lf_starts [simp]: "length (lf_starts c n) = Suc (lf_count c n)"
  by (simp add: lf_starts_def lf_count_def)

lemma lf_starts_Nil [simp]: "lf_starts c n \<noteq> []"
  by (simp add: lf_starts_def)

lemma lf_starts_Suc: "lf_starts c (Suc n) = lf_starts c n @ (if c ! n = LF then [Suc n] else [])"
  by (simp add: lf_starts_def)

lemma lf_starts_split: "n \<le> k \<Longrightarrow> lf_starts c k = lf_starts c n @ map Suc (filter (\<lambda>i. c ! i = LF) [n..<k])"
  using upt_add_eq_append[of 0 n "k - n"] by (simp add: lf_starts_def)

lemma note_bytes:
  "n \<le> length c \<Longrightarrow> fold (note_byte c) [0..<n] \<lparr>mpContent = c, mpLineStart = [0], mpNonASCII = False\<rparr> =
    \<lparr>mpContent = c, mpLineStart = lf_starts c n, mpNonASCII = (\<exists>b\<in>set (take n c). rune_self \<le> byte b)\<rparr>"
proof (induction n)
  case 0
  then show ?case by (simp add: lf_starts_def)
next
  case (Suc n)
  then show ?case by (auto simp: note_byte_def lf_starts_Suc take_Suc_conv_app_nth Let_def)
qed

lemma init_new:
  "initLineStart (NewMapper c) =
    \<lparr>mpContent = c, mpLineStart = lf_starts c (length c), mpNonASCII = (\<exists>b\<in>set c. rune_self \<le> byte b)\<rparr>"
  using note_bytes[of "length c" c] by (simp add: initLineStart_def NewMapper_def)

lemma line_begin_le: "line_begin c n \<le> n"
  by (induction n) (auto simp: line_begin_def lf_starts_Suc lf_starts_def)

lemma line_begin_no_LF: "line_begin c n \<le> i \<Longrightarrow> i < n \<Longrightarrow> c ! i \<noteq> LF"
proof (induction n)
  case (Suc n)
  then show ?case by (cases "i = n") (auto simp: line_begin_def lf_starts_Suc split: if_splits)
qed simp

lemma line_begin_LF: "0 < line_begin c n \<Longrightarrow> c ! (line_begin c n - 1) = LF"
proof (induction n)
  case 0
  then show ?case by (simp add: line_begin_def lf_starts_def)
next
  case (Suc n)
  then show ?case by (auto simp: line_begin_def lf_starts_Suc split: if_splits)
qed

lemma nth_lf_starts: "n \<le> k \<Longrightarrow> lf_starts c k ! lf_count c n = line_begin c n"
  using lf_starts_Nil[of c n] by (simp add: lf_starts_split nth_append line_begin_def last_conv_nth)

lemma next_lf_start:
  assumes "n \<le> k" "Suc (lf_count c n) < length (lf_starts c k)"
  shows "\<exists>q. lf_starts c k ! Suc (lf_count c n) = Suc q \<and> n \<le> q \<and> q < k \<and> c ! q = LF \<and> (\<forall>i. n \<le> i \<and> i < q \<longrightarrow> c ! i \<noteq> LF)"
proof -
  let ?rest = "filter (\<lambda>i. c ! i = LF) [n..<k]"
  have ne: "?rest \<noteq> []" using assms(2) by (auto simp: lf_starts_split[OF assms(1)])
  then obtain q r where q: "?rest = q # r" by (cases ?rest) auto
  then obtain us vs where uv: "[n..<k] = us @ q # vs" "\<forall>u\<in>set us. c ! u \<noteq> LF" "c ! q = LF"
    by (auto simp: filter_eq_Cons_iff)
  have "lf_starts c k ! Suc (lf_count c n) = Suc q"
    by (simp add: lf_starts_split[OF assms(1)] nth_append q)
  moreover have "n \<le> q \<and> q < k" using uv(1) by (metis atLeastLessThan_iff in_set_conv_decomp set_upt)
  moreover have "\<forall>i. n \<le> i \<and> i < q \<longrightarrow> c ! i \<noteq> LF"
  proof (intro allI impI)
    fix i assume i: "n \<le> i \<and> i < q"
    have "sorted ([n..<k])" by simp
    then have "\<forall>v\<in>set vs. q \<le> v" unfolding uv(1) by (simp add: sorted_append)
    moreover have "i \<in> set [n..<k]" using i \<open>n \<le> q \<and> q < k\<close> by auto
    ultimately have "i \<in> set us" unfolding uv(1) using i by auto
    then show "c ! i \<noteq> LF" using uv(2) by blast
  qed
  ultimately show ?thesis using uv(3) by blast
qed

section \<open>Binary search\<close>

text \<open>The line that \<open>OffsetToLSPPosition\<close> finds is the number of line ends before the offset.\<close>

lemma search_line:
  assumes "n \<le> length c"
  shows "sort_Search (length (lf_starts c (length c))) (\<lambda>i. int (lf_starts c (length c) ! i) > int n) - 1 = lf_count c n"
proof -
  let ?L = "lf_starts c (length c)"
  have split: "?L = lf_starts c n @ map Suc (filter (\<lambda>i. c ! i = LF) [n..<length c])"
    by (rule lf_starts_split[OF assms])
  have small: "?L ! i \<le> n" if "i \<le> lf_count c n" for i
  proof -
    have "\<forall>x\<in>set (lf_starts c n). x \<le> n" by (auto simp: lf_starts_def)
    then show ?thesis using that by (simp add: split nth_append)
  qed
  have big: "n < ?L ! i" if "lf_count c n < i" "i < length ?L" for i
  proof -
    let ?r = "map Suc (filter (\<lambda>i. c ! i = LF) [n..<length c])"
    have "?L ! i = ?r ! (i - Suc (lf_count c n))" using that by (simp add: split nth_append)
    moreover have "i - Suc (lf_count c n) < length ?r" using that by (simp add: split)
    ultimately have "?L ! i \<in> set ?r" by (metis nth_mem)
    then show ?thesis by auto
  qed
  let ?f = "\<lambda>i. int (?L ! i) > int n"
  have "upward (length ?L) ?f" unfolding upward_def
    using small big by (metis leD le_less_trans linorder_not_le of_nat_less_iff)
  then have "first_at ?f (length ?L) (sort_Search (length ?L) ?f)" by (rule sort_Search_first)
  moreover have "first_at ?f (length ?L) (Suc (lf_count c n))"
    unfolding first_at_def
  proof (intro conjI allI impI)
    show "\<not> ?f k" if "k < Suc (lf_count c n)" for k using small[of k] that by simp
    show "?f (Suc (lf_count c n))" if "Suc (lf_count c n) < length ?L" using big[OF _ that] by simp
    show "Suc (lf_count c n) \<le> length ?L" unfolding split by simp
  qed
  ultimately have "sort_Search (length ?L) ?f = Suc (lf_count c n)" by (rule first_at_unique)
  then show ?thesis by simp
qed

section \<open>Rune boundaries\<close>

text \<open>A byte that continues no rune starts one.\<close>

lemma aligned_not_cont: "k < length s \<Longrightarrow> \<not> cont_byte (byte (s ! k)) \<Longrightarrow> aligned s k"
proof (induction s k rule: aligned.induct)
  case (1 s k)
  show ?case
  proof (cases "k = 0")
    case False
    have s: "s \<noteq> []" using "1.prems" by auto
    have le: "rune_size s \<le> k" using "1.prems"(2) rune_size_cont[of k s] False by fastforce
    have "drop (rune_size s) s ! (k - rune_size s) = s ! k" using le "1.prems"(1) by simp
    then have "aligned (drop (rune_size s) s) (k - rune_size s)"
      using "1.IH"[OF False] le s "1.prems" by (simp add: less_diff_conv)
    then show ?thesis using s False le by (simp add: aligned_step)
  qed simp
qed

lemma aligned_after_LF:
  assumes "i < length s" "s ! i = LF"
  shows "aligned s (Suc i)"
proof -
  have "\<not> cont_byte (byte LF)" "byte LF < rune_self" by (simp_all add: cont_byte_def byte_def rune_self_def)
  then have "aligned s i" using assms by (auto intro: aligned_not_cont)
  moreover have "rune_size (drop i s) = 1"
    using assms \<open>byte LF < rune_self\<close> by (simp add: Cons_nth_drop_Suc[symmetric])
  ultimately show ?thesis using aligned_next[of s i] assms(1) by simp
qed

lemma aligned_line_begin: "n \<le> length c \<Longrightarrow> aligned c (line_begin c n)"
proof (cases "line_begin c n = 0")
  case False
  assume "n \<le> length c"
  then have "line_begin c n - 1 < length c" using line_begin_le[of c n] False by simp
  then show ?thesis using aligned_after_LF[of "line_begin c n - 1" c] line_begin_LF[of c n] False by simp
qed simp

lemma aligned_diff: "aligned s i \<Longrightarrow> aligned s k \<Longrightarrow> i \<le> k \<Longrightarrow> aligned (drop i s) (k - i)"
proof (induction s i arbitrary: k rule: aligned.induct)
  case (1 s i)
  show ?case
  proof (cases "i = 0")
    case True
    then show ?thesis using "1.prems" by simp
  next
    case False
    have s: "s \<noteq> []" using "1.prems"(1) False by (auto simp: aligned.simps[of s i])
    let ?n = "rune_size s"
    have a: "?n \<le> i" "aligned (drop ?n s) (i - ?n)" "aligned (drop ?n s) (k - ?n)"
      using "1.prems" False s by (simp_all add: aligned_step)
    then have "aligned (drop (i - ?n) (drop ?n s)) (k - ?n - (i - ?n))"
      using "1.IH"[OF False _ a(2,3)] s "1.prems"(3) by simp
    then show ?thesis using a(1) by simp
  qed
qed

lemma aligned_add: "aligned s i \<Longrightarrow> aligned (drop i s) k \<Longrightarrow> aligned s (i + k)"
proof (induction s i rule: aligned.induct)
  case (1 s i)
  show ?case
  proof (cases "i = 0")
    case True
    then show ?thesis using "1.prems" by simp
  next
    case False
    have s: "s \<noteq> []" using "1.prems"(1) False by (auto simp: aligned.simps[of s i])
    let ?n = "rune_size s"
    have a: "?n \<le> i" "aligned (drop ?n s) (i - ?n)" using "1.prems" False s by (simp_all add: aligned_step)
    then have "aligned (drop ?n s) (i - ?n + k)"
      using "1.IH"[OF False _ a(2)] s "1.prems"(2) by simp
    then show ?thesis using a(1) s False by (simp add: aligned_step)
  qed
qed

lemma aligned_take: "aligned s k \<Longrightarrow> k \<le> m \<Longrightarrow> aligned (take m s) k"
proof (induction s k arbitrary: m rule: aligned.induct)
  case (1 s k)
  show ?case
  proof (cases "k = 0")
    case False
    have s: "s \<noteq> []" using "1.prems"(1) False by (auto simp: aligned.simps[of s k])
    let ?n = "rune_size s"
    have a: "?n \<le> k" "aligned (drop ?n s) (k - ?n)" using "1.prems"(1) False s by (simp_all add: aligned_step)
    have "aligned (take (m - ?n) (drop ?n s)) (k - ?n)" using "1.IH"[OF False _ a(2)] a(1) s "1.prems"(2) by simp
    moreover have "decode_rune (take m s) = decode_rune s"
      using a(1) "1.prems"(2) False by (intro decode_rune_take) auto
    ultimately show ?thesis using s False a(1) "1.prems"(2) by (simp add: aligned_step drop_take)
  qed simp
qed

section \<open>UTF-16 columns\<close>

lemma utf16Count_Nil [simp]: "utf16Count [] = 0"
  by (simp add: utf16Count.simps)

lemma utf16Count_step:
  "s \<noteq> [] \<Longrightarrow> utf16Count s = utf16_len (fst (decode_rune s)) + utf16Count (drop (rune_size s) s)"
  by (subst utf16Count.simps) simp

lemma utf16_len_pos [simp]: "0 < utf16_len r"
  by (simp add: utf16_len_def)

lemma utf16_ascii: "byte c < rune_self \<Longrightarrow> utf16_len (byte c) = 1"
  by (simp add: utf16_len_def rune_self_def)

lemma utf16_to_bytes_stop: "character \<le> u \<or> s = [] \<Longrightarrow> utf16_to_bytes character s u b = b"
  by (subst utf16_to_bytes.simps) auto

lemma utf16_to_bytes_step:
  assumes "s \<noteq> []" "u < character"
  shows "utf16_to_bytes character s u b =
    utf16_to_bytes character (drop (rune_size s) s) (u + utf16_len (fst (decode_rune s))) (b + rune_size s)"
proof (cases "byte (hd s) < rune_self")
  case True
  then have "decode_rune s = (byte (hd s), 1)" using assms(1) by (intro decode_rune_ascii)
  then show ?thesis using assms True
    by (subst utf16_to_bytes.simps) (simp add: utf16_ascii drop_Suc)
next
  case False
  then show ?thesis using assms by (subst utf16_to_bytes.simps) (simp add: case_prod_beta Let_def)
qed

text \<open>On a rune boundary the loop finds the offset back from its column.\<close>

lemma utf16_to_bytes_inverse:
  "aligned s k \<Longrightarrow> utf16_to_bytes (u + utf16Count (take k s)) s u b = b + k"
proof (induction s k arbitrary: u b rule: aligned.induct)
  case (1 s k)
  show ?case
  proof (cases "k = 0")
    case True
    then show ?thesis by (simp add: utf16_to_bytes_stop)
  next
    case False
    have s: "s \<noteq> []" using "1.prems"(1) False by (auto simp: aligned.simps[of s k])
    let ?n = "rune_size s" and ?r = "fst (decode_rune s)"
    have a: "?n \<le> k" "aligned (drop ?n s) (k - ?n)" using "1.prems"(1) False s by (simp_all add: aligned_step)
    have "decode_rune (take k s) = decode_rune s" using a(1) False by (intro decode_rune_take) auto
    then have count: "utf16Count (take k s) = utf16_len ?r + utf16Count (take (k - ?n) (drop ?n s))"
      using s False by (subst utf16Count_step) (simp_all add: drop_take)
    have "utf16_to_bytes (u + utf16_len ?r + utf16Count (take (k - ?n) (drop ?n s))) (drop ?n s) (u + utf16_len ?r) (b + ?n) = b + ?n + (k - ?n)"
      using "1.IH"[OF False _ a(2)] a(1) s by simp
    then show ?thesis using a(1) s by (simp add: count utf16_to_bytes_step add.assoc)
  qed
qed

text \<open>For any column it finds the first rune boundary with at least that column, or the end of the line.\<close>

lemma utf16Count_take:
  assumes "aligned s k" "k \<noteq> 0" "s \<noteq> []"
  shows "utf16Count (take k s) = utf16_len (fst (decode_rune s)) + utf16Count (take (k - rune_size s) (drop (rune_size s) s))"
proof -
  have "rune_size s \<le> k" using assms by (simp add: aligned_step)
  then have "decode_rune (take k s) = decode_rune s" using assms(2) by (intro decode_rune_take) auto
  then show ?thesis using assms(2,3) by (subst utf16Count_step) (simp_all add: drop_take)
qed

lemma utf16_to_bytes_least:
  "\<exists>k. utf16_to_bytes character s u b = b + k \<and> aligned s k \<and>
     (\<forall>j. aligned s j \<and> j < k \<longrightarrow> u + utf16Count (take j s) < character) \<and>
     (character \<le> u + utf16Count (take k s) \<or> k = length s)"
proof (induction "length s" arbitrary: s u b rule: less_induct)
  case less
  show ?case
  proof (cases "s \<noteq> [] \<and> u < character")
    case True
    let ?n = "rune_size s" and ?r = "fst (decode_rune s)"
    have "length (drop ?n s) < length s" using True rune_size_pos'[of s] by simp
    then obtain k where k: "utf16_to_bytes character (drop ?n s) (u + utf16_len ?r) (b + ?n) = b + ?n + k"
      "aligned (drop ?n s) k" "\<And>j. aligned (drop ?n s) j \<Longrightarrow> j < k \<Longrightarrow> u + utf16_len ?r + utf16Count (take j (drop ?n s)) < character"
      "character \<le> u + utf16_len ?r + utf16Count (take k (drop ?n s)) \<or> k = length (drop ?n s)"
      using less.hyps by blast
    have al: "aligned s (?n + k)" using True k(2) rune_size_pos'[of s] by (simp add: aligned_step)
    have "u + utf16Count (take j s) < character" if "aligned s j" "j < ?n + k" for j
    proof (cases "j = 0")
      case False
      then have j: "?n \<le> j" "aligned (drop ?n s) (j - ?n)" using that(1) True by (simp_all add: aligned_step)
      then have "j - ?n < k" using that(2) by linarith
      then show ?thesis using k(3)[OF j(2)] that utf16Count_take[OF that(1) False] True by simp
    qed (use True in simp)
    moreover have "character \<le> u + utf16Count (take (?n + k) s) \<or> ?n + k = length s"
      using k(4) utf16Count_take[OF al] True rune_size_pos'[of s] rune_size_le[of s] by auto
    ultimately show ?thesis using True k(1) al by (intro exI[of _ "?n + k"]) (simp add: utf16_to_bytes_step)
  qed (auto simp: utf16_to_bytes_stop intro: exI[of _ 0])
qed

definition ascii :: "bytes \<Rightarrow> bool" where
  "ascii s \<longleftrightarrow> (\<forall>b\<in>set s. byte b < rune_self)"

lemma ascii_step: "ascii s \<Longrightarrow> s \<noteq> [] \<Longrightarrow> decode_rune s = (byte (hd s), 1) \<and> ascii (drop 1 s)"
  by (cases s) (auto simp: ascii_def decode_rune_ascii)

lemma ascii_counts: "ascii s \<Longrightarrow> utf16Count s = length s \<and> rune_count s = length s"
proof (induction s)
  case (Cons c s)
  then have "ascii s" "decode_rune (c # s) = (byte c, 1)" "byte c < rune_self"
    by (auto simp: ascii_def decode_rune_ascii)
  then show ?case using Cons.IH by (simp add: utf16Count_step rune_count_step utf16_ascii)
qed simp

lemma ascii_to_bytes: "ascii s \<Longrightarrow> u \<le> character \<Longrightarrow> utf16_to_bytes character s u b = b + min (character - u) (length s)"
proof (induction s arbitrary: u b)
  case (Cons c s)
  then have c: "ascii s" "decode_rune (c # s) = (byte c, 1)" "byte c < rune_self"
    by (auto simp: ascii_def decode_rune_ascii)
  show ?case
  proof (cases "u < character")
    case True
    then show ?thesis using Cons.IH[OF c(1), of "Suc u" "Suc b"] c
      by (simp add: utf16_to_bytes_step utf16_ascii)
  qed (use Cons.prems in \<open>simp add: utf16_to_bytes_stop\<close>)
qed (simp add: utf16_to_bytes_stop)

lemma ascii_slice: "ascii s \<Longrightarrow> ascii (Prelude.slice i j s)"
  using set_slice_subset[of i j s] by (auto simp: ascii_def)

section \<open>The end of a line's text\<close>

text \<open>The line of an offset runs to \<open>line_end\<close>: no line feed, and no carriage return before one.\<close>

lemma line_content_end:
  assumes "n \<le> length c" "\<not> after_cr c n"
  shows "n \<le> line_content_end (initLineStart (NewMapper c)) (Suc (lf_count c n)) \<and>
    line_content_end (initLineStart (NewMapper c)) (Suc (lf_count c n)) \<le> length c"
proof -
  let ?L = "lf_starts c (length c)" and ?ls = "line_begin c n"
  have ls: "?L ! lf_count c n = ?ls" by (rule nth_lf_starts[OF assms(1)])
  show ?thesis
  proof (cases "Suc (lf_count c n) < length ?L")
    case True
    from next_lf_start[OF assms(1) True] obtain q where q: "?L ! Suc (lf_count c n) = Suc q" "n \<le> q" "q < length c" "c ! q = LF"
      by blast
    have "n \<le> q - 1" if "?ls < q" "c ! (q - 1) = CR"
    proof (rule ccontr)
      assume "\<not> n \<le> q - 1"
      then have "n = q" using q(2) by simp
      then show False using assms(2) that q(3,4) by (auto simp: after_cr_def)
    qed
    then show ?thesis using q ls True by (auto simp: line_content_end_def init_new Let_def)
  next
    case False
    then show ?thesis using assms(1) by (auto simp: line_content_end_def init_new Let_def)
  qed
qed

lemma lf_count_Suc: "lf_count c (Suc n) = lf_count c n + (if c ! n = LF then 1 else 0)"
  by (simp add: lf_count_def)

lemma nth_line: "l \<le> lf_count c n \<Longrightarrow>
    lf_count c (lf_starts c n ! l) = l \<and> line_begin c (lf_starts c n ! l) = lf_starts c n ! l \<and> lf_starts c n ! l \<le> n"
proof (induction n)
  case 0
  then show ?case by (simp add: lf_count_def lf_starts_def line_begin_def)
next
  case (Suc n)
  show ?case
  proof (cases "l \<le> lf_count c n")
    case True
    then show ?thesis using Suc.IH by (simp add: lf_starts_Suc nth_append)
  next
    case False
    then have "c ! n = LF" "l = Suc (lf_count c n)" using Suc.prems by (auto simp: lf_count_Suc split: if_splits)
    then show ?thesis by (simp add: lf_starts_Suc nth_append lf_count_Suc line_begin_def)
  qed
qed

lemma same_line: "n \<le> k \<Longrightarrow> \<forall>i. n \<le> i \<and> i < k \<longrightarrow> c ! i \<noteq> LF \<Longrightarrow> lf_count c k = lf_count c n \<and> line_begin c k = line_begin c n"
proof (induction k)
  case (Suc k)
  then show ?case by (cases "n = Suc k") (auto simp: lf_count_Suc line_begin_def lf_starts_Suc)
qed simp

lemma not_after_cr_line: "\<not> after_cr c (line_begin c n)"
  using line_begin_LF[of c n] by (auto simp: after_cr_def)

text \<open>The part of a line before its content end has no line feed and ends before the terminator.\<close>

lemma line_content_inside:
  assumes "l \<le> lf_count c (length c)" and ls: "ls = lf_starts c (length c) ! l"
    and e: "e = line_content_end (initLineStart (NewMapper c)) (Suc l)"
  shows "ls \<le> e" "e \<le> length c" "\<forall>i. ls \<le> i \<and> i < e \<longrightarrow> c ! i \<noteq> LF"
    "\<forall>i. ls \<le> i \<and> i \<le> e \<longrightarrow> \<not> after_cr c i" "e < length c \<longrightarrow> c ! e = LF \<or> c ! e = CR"
proof -
  let ?L = "lf_starts c (length c)"
  note line = nth_line[OF assms(1), folded ls]
  have n: "ls \<le> length c" "lf_count c ls = l" "line_begin c ls = ls" using line by auto
  have "\<not> after_cr c ls" using not_after_cr_line[of c ls] n(3) by simp
  from line_content_end[OF n(1) this] show "ls \<le> e" "e \<le> length c" unfolding n(2) e by auto
  show "\<forall>i. ls \<le> i \<and> i < e \<longrightarrow> c ! i \<noteq> LF" "\<forall>i. ls \<le> i \<and> i \<le> e \<longrightarrow> \<not> after_cr c i"
    "e < length c \<longrightarrow> c ! e = LF \<or> c ! e = CR"
  proof -
    have P: "(\<forall>i. ls \<le> i \<and> i < e \<longrightarrow> c ! i \<noteq> LF) \<and> (\<forall>i. ls \<le> i \<and> i \<le> e \<longrightarrow> \<not> after_cr c i) \<and>
      (e < length c \<longrightarrow> c ! e = LF \<or> c ! e = CR)"
    proof (cases "Suc l < length ?L")
      case True
      from next_lf_start[OF n(1), of c, unfolded n(2), OF True] obtain q where q: "?L ! Suc l = Suc q" "ls \<le> q" "q < length c" "c ! q = LF"
        "\<forall>i. ls \<le> i \<and> i < q \<longrightarrow> c ! i \<noteq> LF" by blast
      have e': "e = (if ls < q \<and> c ! (q - 1) = CR then q - 1 else q)"
        using True by (simp add: e line_content_end_def init_new Let_def q(1) ls[symmetric])
      have "\<not> after_cr c i" if "ls \<le> i" "i \<le> e" for i
      proof
        assume a: "after_cr c i"
        then have "c ! i = LF" "c ! (i - 1) = CR" by (auto simp: after_cr_def)
        moreover have "i \<le> q" using that(2) e' by (auto split: if_splits)
        ultimately have "i = q" using q(5) that(1) by (metis le_neq_implies_less)
        then have "i = ls" using e' that q(2) \<open>c ! (i - 1) = CR\<close> by (auto split: if_splits)
        then show False using a \<open>\<not> after_cr c ls\<close> by simp
      qed
      moreover have "\<forall>i. ls \<le> i \<and> i < e \<longrightarrow> c ! i \<noteq> LF" using q(5) e' by (auto split: if_splits)
      moreover have "c ! e = LF \<or> c ! e = CR" using q(4) e' by auto
      ultimately show ?thesis by blast
    next
      case False
      then have "l = lf_count c (length c)" using assms(1) by simp
      then have last: "ls = line_begin c (length c)" using nth_lf_starts[of "length c" "length c" c] ls by simp
      have e': "e = length c" using False by (simp add: e line_content_end_def init_new Let_def)
      have no: "\<forall>i. ls \<le> i \<and> i < length c \<longrightarrow> c ! i \<noteq> LF" using line_begin_no_LF[of c "length c"] last by blast
      then have "\<not> after_cr c i" if "ls \<le> i" for i using that by (auto simp: after_cr_def)
      then show ?thesis using e' no by simp
    qed
    then show "\<forall>i. ls \<le> i \<and> i < e \<longrightarrow> c ! i \<noteq> LF" "\<forall>i. ls \<le> i \<and> i \<le> e \<longrightarrow> \<not> after_cr c i"
      "e < length c \<longrightarrow> c ! e = LF \<or> c ! e = CR" by blast+
  qed
qed

lemma aligned_untake:
  "aligned (take m s) k \<Longrightarrow> (m < length s \<Longrightarrow> \<not> cont_byte (byte (s ! m))) \<Longrightarrow> aligned s k"
proof (induction "length s" arbitrary: s m k rule: less_induct)
  case less
  show ?case
  proof (cases "k = 0")
    case False
    have ne: "take m s \<noteq> []" using aligned_le[OF less.prems(1)] False by auto
    then have s: "s \<noteq> []" "0 < m" by auto
    let ?n = "rune_size s"
    have "?n \<le> m" using less.prems(2) rune_size_cont[of m s] s(2) rune_size_le[of s] by fastforce
    then have dec: "decode_rune (take m s) = decode_rune s" using s(2) by (rule decode_rune_take)
    then have a: "?n \<le> k" "aligned (take (m - ?n) (drop ?n s)) (k - ?n)"
      using less.prems(1) False ne by (simp_all add: aligned_step drop_take)
    have "aligned (drop ?n s) (k - ?n)"
      by (rule less.hyps[OF _ a(2)]) (use s rune_size_pos'[of s] less.prems(2) \<open>?n \<le> m\<close> in auto)
    then show ?thesis using False s a(1) by (simp add: aligned_step)
  qed simp
qed

section \<open>Properties of the conversions\<close>

text \<open>The general path, for any content.\<close>

definition general_position :: "bytes \<Rightarrow> LspPosition \<Rightarrow> Position" where
  "general_position c pos =
     (let l = unat (lpLine pos);
          ls = lf_starts c (length c) ! l;
          e = line_content_end (initLineStart (NewMapper c)) (Suc l);
          k = utf16_to_bytes (unat (lpCharacter pos)) (Prelude.slice ls e c) 0 0 in
      \<lparr>poLine = l + 1, poCol = rune_count (Prelude.slice ls (ls + k) c) + 1, poOffset = ls + k\<rparr>)"

lemma line_content_end_flag: "line_content_end (m\<lparr>mpNonASCII := b\<rparr>) l = line_content_end m l"
  by (simp add: line_content_end_def)

lemma init_flag: "initLineStart ((initLineStart (NewMapper c))\<lparr>mpNonASCII := b\<rparr>) = (initLineStart (NewMapper c))\<lparr>mpNonASCII := b\<rparr>"
  by (simp add: init_new) (simp add: initLineStart_def)

lemma LSPPos_general:
  "LSPPosToParserPosition ((initLineStart (NewMapper c))\<lparr>mpNonASCII := True\<rparr>) pos =
    (if unat (lpLine pos) \<le> lf_count c (length c) then Inr (general_position c pos)
     else Inl (Invalid_line (unat (lpLine pos) + 1) (lf_count c (length c) + 1)))"
  by (simp add: LSPPosToParserPosition_def init_flag line_content_end_flag general_position_def Let_def)
    (simp add: init_new Let_def)

lemma init_nonascii: "\<not> ascii c \<Longrightarrow> (initLineStart (NewMapper c))\<lparr>mpNonASCII := True\<rparr> = initLineStart (NewMapper c)"
  by (auto simp: init_new ascii_def not_less)

lemma init_init: "LSPPosToParserPosition (initLineStart (NewMapper c)) pos = LSPPosToParserPosition (NewMapper c) pos"
proof -
  have "initLineStart (initLineStart (NewMapper c)) = initLineStart (NewMapper c)" by (simp add: init_new) (simp add: initLineStart_def)
  then show ?thesis by (simp add: LSPPosToParserPosition_def)
qed

lemma LSPPos_ascii:
  assumes "ascii c" "unat (lpLine pos) \<le> lf_count c (length c)"
  shows "LSPPosToParserPosition (NewMapper c) pos = Inr (general_position c pos)"
proof -
  let ?l = "unat (lpLine pos)" and ?m = "initLineStart (NewMapper c)"
  define ls where "ls = lf_starts c (length c) ! ?l"
  define e where "e = line_content_end ?m (Suc ?l)"
  note inside = line_content_inside[OF assms(2) ls_def e_def]
  let ?s = "Prelude.slice ls e c" and ?char = "min (unat (lpCharacter pos)) (e - ls)"
  have "length ?s = e - ls" using inside(1,2) by simp
  then have k: "utf16_to_bytes (unat (lpCharacter pos)) ?s 0 0 = ?char"
    using ascii_to_bytes[OF ascii_slice[OF assms(1)], of 0 "unat (lpCharacter pos)" ls e 0] by simp
  have "rune_count (Prelude.slice ls (ls + ?char) c) = ?char"
    using ascii_counts[OF ascii_slice[OF assms(1)], of ls "ls + ?char"] inside(1,2) by simp
  moreover have "\<not> mpNonASCII ?m" using assms(1) by (auto simp: init_new ascii_def not_less)
  ultimately show ?thesis using assms(2) k
    by (simp add: LSPPosToParserPosition_def general_position_def Let_def ls_def[symmetric] e_def[symmetric])
      (simp add: init_new ls_def)
qed

lemma LSPPos_cases:
  "LSPPosToParserPosition (NewMapper c) pos =
    (if unat (lpLine pos) \<le> lf_count c (length c) then Inr (general_position c pos)
     else Inl (Invalid_line (unat (lpLine pos) + 1) (lf_count c (length c) + 1)))"
proof (cases "ascii c")
  case True
  show ?thesis
  proof (cases "unat (lpLine pos) \<le> lf_count c (length c)")
    case False
    then show ?thesis by (simp add: LSPPosToParserPosition_def Let_def init_new)
  qed (simp add: LSPPos_ascii[OF True])
next
  case False
  then show ?thesis using LSPPos_general[of c pos] unfolding init_nonascii[OF False] init_init by simp
qed

text \<open>
  the ASCII fast path of \<open>LSPPosToParserPosition\<close> is the general path: for every
  content and position, errors included, the result is the one of a mapper that
  takes the content for non-ASCII and decodes it.
\<close>

theorem LSPPosToParserPosition_fast_path:
  "LSPPosToParserPosition (NewMapper c) pos =
   LSPPosToParserPosition ((initLineStart (NewMapper c))\<lparr>mpNonASCII := True\<rparr>) pos"
  by (simp add: LSPPos_cases LSPPos_general)

text \<open>A place on a line that a client can mean: on a rune boundary and not behind the carriage return of the line end.\<close>

definition line_position :: "bytes \<Rightarrow> nat \<Rightarrow> nat \<Rightarrow> bool" where
  "line_position c l q \<longleftrightarrow> q \<le> length c \<and> lf_count c q = l \<and> aligned c q \<and> \<not> after_cr c q"

definition utf16_col :: "bytes \<Rightarrow> nat \<Rightarrow> nat" where
  "utf16_col c q = utf16Count (Prelude.slice (line_begin c q) q c)"

text \<open>The line with a number, from its start to the end of its content.\<close>

lemma line_position_bounds:
  assumes "line_position c l q"
  shows "line_begin c q = lf_starts c (length c) ! l"
    "lf_starts c (length c) ! l \<le> q" "q \<le> line_content_end (initLineStart (NewMapper c)) (Suc l)"
    "aligned (drop (lf_starts c (length c) ! l) c) (q - lf_starts c (length c) ! l)"
proof -
  have q: "q \<le> length c" "lf_count c q = l" "aligned c q" "\<not> after_cr c q" using assms by (auto simp: line_position_def)
  show b: "line_begin c q = lf_starts c (length c) ! l" using nth_lf_starts[of q "length c" c] q(1,2) by simp
  then show le: "lf_starts c (length c) ! l \<le> q" using line_begin_le[of c q] by simp
  show "q \<le> line_content_end (initLineStart (NewMapper c)) (Suc l)" using line_content_end[OF q(1,4)] q(2) by simp
  show "aligned (drop (lf_starts c (length c) ! l) c) (q - lf_starts c (length c) ! l)"
    using aligned_diff[OF aligned_line_begin[OF q(1)] q(3)] b le by simp
qed

lemma LSPPos_position:
  "case LSPPosToParserPosition (NewMapper c) pos of
     Inl err \<Rightarrow> lf_count c (length c) < unat (lpLine pos)
   | Inr p \<Rightarrow> line_position c (unat (lpLine pos)) (poOffset p) \<and>
       poLine p = lf_count c (poOffset p) + 1 \<and>
       poCol p = rune_count (Prelude.slice (line_begin c (poOffset p)) (poOffset p) c) + 1 \<and>
       (\<forall>q. line_position c (unat (lpLine pos)) q \<and> q < poOffset p \<longrightarrow> utf16_col c q < unat (lpCharacter pos)) \<and>
       (unat (lpCharacter pos) \<le> utf16_col c (poOffset p) \<or> (\<forall>q. line_position c (unat (lpLine pos)) q \<longrightarrow> q \<le> poOffset p))"
proof (cases "unat (lpLine pos) \<le> lf_count c (length c)")
  case True
  let ?l = "unat (lpLine pos)" and ?m = "initLineStart (NewMapper c)" and ?char = "unat (lpCharacter pos)"
  define ls where "ls = lf_starts c (length c) ! ?l"
  define e where "e = line_content_end ?m (Suc ?l)"
  note inside = line_content_inside[OF True ls_def e_def]
  note line = nth_line[OF True, folded ls_def]
  let ?s = "Prelude.slice ls e c"
  define k where "k = utf16_to_bytes ?char ?s 0 0"
  have k: "aligned ?s k" "\<And>j. aligned ?s j \<Longrightarrow> j < k \<Longrightarrow> utf16Count (take j ?s) < ?char"
    "?char \<le> utf16Count (take k ?s) \<or> k = length ?s"
    using utf16_to_bytes_least[of ?char ?s 0 0] by (auto simp: k_def)
  have "\<not> cont_byte (byte (drop ls c ! (e - ls)))" if "e - ls < length (drop ls c)"
    using inside(1,5) that by (auto simp: cont_byte_def byte_def)
  then have "aligned (drop ls c) k" using aligned_untake[of "e - ls" "drop ls c" k] k(1) by (simp add: Prelude.slice_def)
  then have "aligned c (ls + k)" using aligned_line_begin[of ls c] line by (auto intro: aligned_add)
  moreover have le: "k \<le> e - ls" using aligned_le[OF k(1)] inside(1,2) by simp
  moreover have "lf_count c (ls + k) = ?l \<and> line_begin c (ls + k) = ls"
  proof -
    have "\<forall>i. ls \<le> i \<and> i < ls + k \<longrightarrow> c ! i \<noteq> LF" using inside(1,3) le by auto
    then show ?thesis using same_line[of ls "ls + k" c] line by auto
  qed
  ultimately have p: "line_position c ?l (ls + k)" "line_begin c (ls + k) = ls"
    using inside(1,2,4) by (auto simp: line_position_def)
  have at: "aligned ?s (q - ls)" "utf16_col c q = utf16Count (take (q - ls) ?s)" "q \<le> e" if "line_position c ?l q" for q
  proof -
    note b = line_position_bounds[OF that, folded ls_def e_def]
    show "q \<le> e" by (rule b(3))
    show "aligned ?s (q - ls)" using aligned_take[OF b(4), of "e - ls"] b(2,3) by (simp add: Prelude.slice_def)
    show "utf16_col c q = utf16Count (take (q - ls) ?s)" using b(1-3) by (simp add: utf16_col_def Prelude.slice_def min_def)
  qed
  have "utf16_col c q < ?char" if "line_position c ?l q" "q < ls + k" for q
    using at(1,2)[OF that(1)] k(2)[of "q - ls"] line_position_bounds(2)[OF that(1), folded ls_def] that(2) by simp
  moreover have "?char \<le> utf16_col c (ls + k) \<or> (\<forall>q. line_position c ?l q \<longrightarrow> q \<le> ls + k)"
    using k(3) at(2)[OF p(1)] at(3) inside(1,2) by auto
  ultimately show ?thesis using True p
    by (simp add: LSPPos_cases general_position_def Let_def ls_def[symmetric] e_def[symmetric] k_def[symmetric])
      (auto simp: line_position_def)
qed (simp add: LSPPos_cases)

text \<open>
  C25: client positions are clamped. The conversion fails exactly for a line past the
  document. Otherwise its offset is a place on the line that was named: a rune boundary in the
  document, not behind the carriage return of the line end. Of these places it is the first one
  whose column, in UTF-16 code units, is at least the character asked for, and where there is
  none, the last one. The line and the rune column it returns are those of this offset.
\<close>

theorem LSPPosToParserPosition_clamps:
  "case LSPPosToParserPosition (NewMapper c) pos of
     Inl err \<Rightarrow> lf_count c (length c) < unat (lpLine pos)
   | Inr p \<Rightarrow> line_position c (unat (lpLine pos)) (poOffset p) \<and>
       poLine p = lf_count c (poOffset p) + 1 \<and>
       poCol p = rune_count (Prelude.slice (line_begin c (poOffset p)) (poOffset p) c) + 1 \<and>
       (\<forall>q. line_position c (unat (lpLine pos)) q \<and> q < poOffset p \<longrightarrow> utf16_col c q < unat (lpCharacter pos)) \<and>
       (unat (lpCharacter pos) \<le> utf16_col c (poOffset p) \<or> (\<forall>q. line_position c (unat (lpLine pos)) q \<longrightarrow> q \<le> poOffset p))"
  by (rule LSPPos_position)

text \<open>Behind the last character of a line, in front of its two terminators.\<close>

lemma LSPPosToParserPosition_clamps_witness:
  "LSPPosToParserPosition (NewMapper [CHR ''a'', CR, LF, CHR ''b'']) \<lparr>lpLine = 0, lpCharacter = 9\<rparr> =
     Inr \<lparr>poLine = 1, poCol = 2, poOffset = 1\<rparr> \<and>
   Collect (line_position [CHR ''a'', CR, LF, CHR ''b''] 0) \<subseteq> {..1}"
proof -
  let ?c = "[CHR ''a'', CR, LF, CHR ''b'']" and ?pos = "\<lparr>lpLine = 0, lpCharacter = 9\<rparr>"
  have e: "LSPPosToParserPosition (NewMapper ?c) ?pos = Inr \<lparr>poLine = 1, poCol = 2, poOffset = 1\<rparr>" by code_simp
  have "ascii [CHR ''a'']" by code_simp
  then have "utf16_col ?c 1 = 1" using ascii_counts[of "[CHR ''a'']"]
    by (simp add: utf16_col_def line_begin_def lf_starts_def Prelude.slice_def)
  then show ?thesis using LSPPosToParserPosition_clamps[of ?c ?pos] e by (simp add: subset_iff)
qed

lemma utf16_len_le: "s \<noteq> [] \<Longrightarrow> utf16_len (fst (decode_rune s)) \<le> rune_size s"
proof -
  assume s: "s \<noteq> []"
  show ?thesis
  proof (cases "rune_size s = 1")
    case True
    have "fst (decode_rune s) < 0x10000"
    proof -
      have "(b0 mod 32) * 64 + b1 mod 64 < 0x10000" for b0 b1 :: nat
        using mod_less_divisor[of 32 b0] mod_less_divisor[of 64 b1] by linarith
      then show ?thesis using s True
        by (auto simp: decode_rune_def Let_def rune_self_def rune_error_def split: list.splits option.splits if_splits)
    qed
    then show ?thesis using True by (simp add: utf16_len_def)
  next
    case False
    then have "2 \<le> rune_size s" using rune_size_pos[OF s] by simp
    then show ?thesis by (simp add: utf16_len_def)
  qed
qed

lemma utf16Count_le: "utf16Count t \<le> length t"
proof (induction t rule: utf16Count.induct)
  case (1 t)
  show ?case
  proof (cases "t = []")
    case False
    then show ?thesis using 1 utf16_len_le[of t] rune_size_le[of t] by (simp add: utf16Count_step)
  qed simp
qed

lemma unat_32: "n < 2 ^ 32 \<Longrightarrow> unat (word_of_nat n :: 32 word) = n"
  by (simp add: unat_of_nat)

lemma lf_count_mono: "n \<le> k \<Longrightarrow> lf_count c n \<le> lf_count c k"
  using upt_add_eq_append[of 0 n "k - n"] by (simp add: lf_count_def)

lemma roundtrip_offset:
  assumes "aligned c n" "\<not> after_cr c n" "length c < 2 ^ 32"
  shows "\<exists>pos. OffsetToLSPPosition (NewMapper c) (int n) = Inr pos \<and>
    LSPPosToParserPosition (NewMapper c) pos =
      Inr \<lparr>poLine = lf_count c n + 1, poCol = rune_count (Prelude.slice (line_begin c n) n c) + 1, poOffset = n\<rparr>"
proof -
  have n: "n \<le> length c" using assms(1) by (rule aligned_le)
  let ?ls = "line_begin c n" and ?l = "lf_count c n"
  define e where "e = line_content_end (initLineStart (NewMapper c)) (Suc ?l)"
  define s where "s = Prelude.slice ?ls e c"
  have ls: "lf_starts c (length c) ! ?l = ?ls" using n by (rule nth_lf_starts)
  have e: "n \<le> e" "e \<le> length c" using line_content_end[OF n assms(2)] by (simp_all add: e_def)
  let ?pos = "\<lparr>lpLine = word_of_nat ?l, lpCharacter = word_of_nat (utf16Count (Prelude.slice ?ls n c))\<rparr>"
  have to: "OffsetToLSPPosition (NewMapper c) (int n) = Inr ?pos"
    using n search_line[OF n] ls by (simp add: OffsetToLSPPosition_def init_new Let_def)
  have "lf_count c n \<le> n" using length_filter_le[of "\<lambda>i. c ! i = LF" "[0..<n]"] by (simp add: lf_count_def)
  then have l: "unat (lpLine ?pos) = ?l" using n assms(3) by (simp add: unat_32)
  have ch: "unat (lpCharacter ?pos) = utf16Count (Prelude.slice ?ls n c)"
    using utf16Count_le[of "Prelude.slice ?ls n c"] n assms(3) by (simp add: unat_32)
  have "aligned (drop ?ls c) (n - ?ls)"
    using aligned_diff[OF aligned_line_begin[OF n] assms(1)] line_begin_le by blast
  then have "aligned s (n - ?ls)" using e(1) by (simp add: s_def Prelude.slice_def aligned_take)
  moreover have "take (n - ?ls) s = Prelude.slice ?ls n c" using e(1) by (simp add: s_def Prelude.slice_def min_def)
  ultimately have "utf16_to_bytes (utf16Count (Prelude.slice ?ls n c)) s 0 0 = n - ?ls"
    using utf16_to_bytes_inverse[of s "n - ?ls" 0 0] by simp
  moreover have "?l \<le> lf_count c (length c)" using n by (rule lf_count_mono)
  ultimately show ?thesis using to l ch line_begin_le[of c n]
    by (simp add: LSPPos_cases general_position_def Let_def ls e_def[symmetric] s_def[symmetric])
qed

text \<open>
  C20: from an offset to a protocol position and back. In a document of less than
  \<open>2 ^ 32\<close> bytes, every offset on a rune boundary that is not inside a \<open>\r\n\<close> comes
  back from \<open>OffsetToLSPPosition\<close> followed by \<open>LSPPosToParserPosition\<close> unchanged,
  with its line and its column in runes.
\<close>

theorem offset_roundtrip:
  assumes "aligned c n" "\<not> after_cr c n" "length c < 2 ^ 32"
  shows "\<exists>pos. OffsetToLSPPosition (NewMapper c) (int n) = Inr pos \<and>
    LSPPosToParserPosition (NewMapper c) pos =
      Inr \<lparr>poLine = lf_count c n + 1, poCol = rune_count (Prelude.slice (line_begin c n) n c) + 1, poOffset = n\<rparr>"
  using assms by (rule roundtrip_offset)

text \<open>A two-line document with a two-byte rune, a four-byte rune and a \<open>\r\n\<close>.\<close>

definition demo_text :: bytes where
  "demo_text = [CHR 0x61, CHR 0xC3, CHR 0xA9, CR, LF, CHR 0xF0, CHR 0x9F, CHR 0x98, CHR 0x80, CHR 0x62]"

lemma offset_roundtrip_witness:
  "lf_count demo_text 9 = 1 \<and> (\<exists>pos p. OffsetToLSPPosition (NewMapper demo_text) 9 = Inr pos \<and>
     LSPPosToParserPosition (NewMapper demo_text) pos = Inr p \<and> poLine p = 2 \<and> poOffset p = 9)"
proof -
  have len: "length demo_text = 10" by (simp add: demo_text_def)
  have "byte (demo_text ! 9) = 0x62" by (simp add: demo_text_def byte_def)
  then have "aligned demo_text 9" by (intro aligned_not_cont) (simp_all add: cont_byte_def len)
  moreover have "\<not> after_cr demo_text 9" by (simp add: after_cr_def demo_text_def)
  moreover have "length demo_text < 2 ^ 32" by (simp add: len)
  moreover have "lf_count demo_text 9 = 1" by (simp add: lf_count_def demo_text_def upt_rec numeral_nat)
  ultimately show ?thesis using offset_roundtrip[of demo_text 9] by auto
qed

section \<open>Edits\<close>

lemma apply_pending_append:
  "apply_pending (es @ fs) buf = (case apply_pending es buf of Inl e \<Rightarrow> Inl e | Inr b \<Rightarrow> apply_pending fs b)"
  by (induction es buf rule: apply_pending.induct) auto

lemma apply_splice:
  "disjoint_from pos es \<Longrightarrow> pos \<le> length c \<Longrightarrow> \<forall>e\<in>set es. peEnd e \<le> length c \<Longrightarrow>
   apply_pending (rev es) c = Inr (take pos c @ splice c pos es)"
proof (induction es arbitrary: pos)
  case (Cons e es)
  have e: "pos \<le> peStart e" "peStart e \<le> peEnd e" "peEnd e \<le> length c" "disjoint_from (peEnd e) es" using Cons.prems by auto
  have IH: "apply_pending (rev es) c = Inr (take (peEnd e) c @ splice c (peEnd e) es)"
    by (rule Cons.IH) (use e Cons.prems(3) in auto)
  have "take (peStart e) c = take pos c @ Prelude.slice pos (peStart e) c"
    using e(1) take_add[of pos "peStart e - pos" c] by (simp add: Prelude.slice_def)
  then show ?case using e by (simp add: apply_pending_append IH min_def)
qed simp

lemma offsetAt_le: "offsetAt (NewMapper c) pos = Inr n \<Longrightarrow> n \<le> length c"
proof -
  assume "offsetAt (NewMapper c) pos = Inr n"
  then obtain p where "LSPPosToParserPosition (NewMapper c) pos = Inr p" "poOffset p = n"
    by (auto simp: offsetAt_def split: sum.splits)
  then show ?thesis using LSPPos_position[of c pos] by (simp add: line_position_def)
qed

lemma resolve_le: "resolve_edits (NewMapper c) edits = Inr all \<Longrightarrow> \<forall>e\<in>set all. peEnd e \<le> length c"
proof (induction edits arbitrary: all)
  case (Cons e es)
  from Cons.prems obtain i j rest where "offsetAt (NewMapper c) (lrEnd (teRange e)) = Inr j"
    "resolve_edits (NewMapper c) es = Inr rest" "all = \<lparr>peStart = i, peEnd = j, peText = teNewText e\<rparr> # rest"
    by (auto split: sum.splits)
  then show ?case using Cons.IH offsetAt_le by fastforce
qed simp

text \<open>
  disjoint edits are spliced. When the edits resolve to ranges with different
  starts that do not overlap, \<open>ApplyEdits\<close> returns the document with every range
  replaced by its text, whatever the order of the edits and whichever way the
  sorting function orders: replacing from the back keeps the offsets of the edits
  before valid.
\<close>

theorem ApplyEdits_splices:
  assumes "resolve_edits (NewMapper c) edits = Inr all"
    and "mset (sort_desc all) = mset all" "sorted_wrt (\<lambda>a b. peStart b \<le> peStart a) (sort_desc all)"
    and "distinct (map peStart all)" "disjoint_from 0 (sort_key peStart all)"
  shows "ApplyEdits sort_desc (NewMapper c) edits = Inr (splice c 0 (sort_key peStart all))"
proof -
  have "sorted_wrt (\<lambda>a b. peStart a \<le> peStart b) (rev (sort_desc all))" using assms(3) by (simp add: sorted_wrt_rev)
  then have "sort_key peStart all = rev (sort_desc all)"
    using assms(2,4) by (intro sort_key_inj_key_eq) (simp_all add: distinct_map sorted_map)
  then have sd: "sort_desc all = rev (sort_key peStart all)" by simp
  have "apply_pending (rev (sort_key peStart all)) c = Inr (take 0 c @ splice c 0 (sort_key peStart all))"
    by (rule apply_splice[OF assms(5)]) (use resolve_le[OF assms(1)] in auto)
  then show ?thesis by (simp add: ApplyEdits_def assms(1) sd) (simp add: NewMapper_def)
qed

text \<open>Two edits given in ascending order: a word is replaced and a letter inserted.\<close>

definition at :: "nat \<Rightarrow> nat \<Rightarrow> bytes \<Rightarrow> TextEdit" where
  "at i j t = \<lparr>teRange = \<lparr>lrStart = \<lparr>lpLine = 0, lpCharacter = word_of_nat i\<rparr>, lrEnd = \<lparr>lpLine = 0, lpCharacter = word_of_nat j\<rparr>\<rparr>,
     teNewText = t\<rparr>"

definition stable_desc :: "pending_edit list \<Rightarrow> pending_edit list" where
  "stable_desc = sort_key (\<lambda>e. - int (peStart e))"

lemma offsetAt_line:
  assumes "ascii c" "LF \<notin> set c" "i \<le> length c" "length c < 2 ^ 32"
  shows "offsetAt (NewMapper c) \<lparr>lpLine = 0, lpCharacter = word_of_nat i\<rparr> = Inr i"
proof -
  have "filter (\<lambda>i. c ! i = LF) [0..<length c] = []" using assms(2) by (auto simp: filter_empty_conv) (metis nth_mem)
  then show ?thesis using assms
    by (auto simp: offsetAt_def LSPPosToParserPosition_def init_new lf_starts_def line_content_end_def Let_def ascii_def unat_32 not_less)
qed

lemma resolve_at:
  assumes "ascii c" "LF \<notin> set c" "length c < 2 ^ 32" "\<forall>(i, j, t)\<in>set es. i \<le> length c \<and> j \<le> length c"
  shows "resolve_edits (NewMapper c) (map (\<lambda>(i, j, t). at i j t) es) =
    Inr (map (\<lambda>(i, j, t). \<lparr>peStart = i, peEnd = j, peText = t\<rparr>) es)"
  using assms(4) by (induction es) (auto simp: at_def offsetAt_line[OF assms(1,2) _ assms(3)])

lemma ascii_abcd: "ascii ''abcd''" "LF \<notin> set ''abcd''" "length ''abcd'' < 2 ^ 32"
  by (simp_all add: ascii_def byte_def rune_self_def)

lemma ApplyEdits_splices_witness:
  "ApplyEdits stable_desc (NewMapper ''abcd'') [at 0 2 ''x'', at 3 3 ''yz''] = Inr ''xcyzd''"
proof -
  let ?all = "[\<lparr>peStart = 0, peEnd = 2, peText = ''x''\<rparr>, \<lparr>peStart = 3, peEnd = 3, peText = ''yz''\<rparr>]"
  have "resolve_edits (NewMapper ''abcd'') [at 0 2 ''x'', at 3 3 ''yz''] = Inr ?all"
    using resolve_at[OF ascii_abcd, of "[(0, 2, ''x''), (3, 3, ''yz'')]"] by simp
  from ApplyEdits_splices[OF this, of stable_desc] show ?thesis
    by (simp add: stable_desc_def Prelude.slice_def)
qed

text \<open>
  An insertion and a replacement at the same position, which the protocol
  allows, corrupt the document. They are applied in the order of the list when the
  sorting function keeps it, as Go's does for up to 12 edits: the text is inserted
  first, and the replacement then removes it. Inserting X before b and deleting bc
  in abcd gives acd and not aXd.
\<close>

theorem ApplyEdits_same_start:
  "ApplyEdits stable_desc (NewMapper ''abcd'') [at 1 1 ''X'', at 1 3 []] = Inr ''acd''"
proof -
  let ?all = "[\<lparr>peStart = 1, peEnd = 1, peText = ''X''\<rparr>, \<lparr>peStart = 1, peEnd = 3, peText = []\<rparr>]"
  have "resolve_edits (NewMapper ''abcd'') [at 1 1 ''X'', at 1 3 []] = Inr ?all"
    using resolve_at[OF ascii_abcd, of "[(1, 1, ''X''), (1, 3, [])]"] by simp
  then show ?thesis by (simp add: ApplyEdits_def stable_desc_def NewMapper_def)
qed

end
