(* ===== verification/FixApply.thy ===== *)
theory FixApply imports AstVisit Splice Slices "HOL-Library.Multiset" "HOL-Library.Product_Lexorder"
begin

text \<open>
  The application of fixes, \<open>sema/edit.go\<close>, with \<open>Span\<close>, \<open>Edit\<close> and \<open>Fix\<close> of
  \<open>sema/sema.go\<close>. A panic of a slice expression is \<open>None\<close>, an error an \<open>Inl\<close>. Offsets
  are natural numbers here, so an offset below zero does not occur.
\<close>

section \<open>Data\<close>

record Span =
  spStart :: Position
  spEnd :: Position

record Edit =
  eiSpan :: Span
  eiNewText :: bytes

record Fix =
  fxTitle :: bytes
  fxEdits :: "Edit list"

text \<open>The error names the fix, the range and the size of the content.\<close>

datatype apply_error = Edit_range bytes nat nat nat

section \<open>The edits of one fix\<close>

fun check_edits :: "nat \<Rightarrow> bytes \<Rightarrow> Edit list \<Rightarrow> apply_error + pending_edit list" where
  "check_edits n title [] = Inr []"
| "check_edits n title (e # es) =
     (let start = poOffset (spStart (eiSpan e)); stop = poOffset (spEnd (eiSpan e)) in
      if start > stop \<or> stop > n then Inl (Edit_range title start stop n)
      else (case check_edits n title es of
          Inl err \<Rightarrow> Inl err
        | Inr rest \<Rightarrow> Inr (\<lparr>peStart = start, peEnd = stop, peText = eiNewText e\<rparr> # rest)))"

definition by_start :: "pending_edit \<Rightarrow> pending_edit \<Rightarrow> int" where
  "by_start a b = Compare (peStart a) (peStart b)"

text \<open>Some edit ends behind the start of the next one.\<close>

fun overlaps_itself :: "pending_edit list \<Rightarrow> bool" where
  "overlaps_itself (a # b # es) = (peEnd a > peStart b \<or> overlaps_itself (b # es))"
| "overlaps_itself _ = False"

text \<open>
  The first loop: for every fix its sorted edits, or \<open>None\<close> (the \<open>nil\<close> of the source)
  for a fix that overlaps itself, which goes to \<open>skipped\<close>.
\<close>

fun collect :: "nat \<Rightarrow> Fix list \<Rightarrow> apply_error + pending_edit list option list \<times> Fix list" where
  "collect n [] = Inr ([], [])"
| "collect n (fx # fixes) =
     (case check_edits n (fxTitle fx) (fxEdits fx) of
        Inl err \<Rightarrow> Inl err
      | Inr es \<Rightarrow>
          (let es = SortStableFunc by_start es in
           case collect n fixes of
             Inl err \<Rightarrow> Inl err
           | Inr (edits, skipped) \<Rightarrow>
               if overlaps_itself es then Inr (None # edits, fx # skipped) else Inr (Some es # edits, skipped)))"

section \<open>Acceptance\<close>

definition conflicts :: "pending_edit \<Rightarrow> pending_edit \<Rightarrow> bool" where
  "conflicts t e \<longleftrightarrow> peStart e < peEnd t \<and> peStart t < peEnd e"

text \<open>The second loop, over the fixes with their edits: what is accepted and what is skipped.\<close>

fun accept :: "(Fix \<times> pending_edit list option) list \<Rightarrow> pending_edit list \<Rightarrow> Fix list \<Rightarrow> bool list \<times> Fix list" where
  "accept [] taken skipped = ([], skipped)"
| "accept ((fx, None) # rest) taken skipped =
     (let (accepted, skipped) = accept rest taken skipped in (False # accepted, skipped))"
| "accept ((fx, Some es) # rest) taken skipped =
     (if list_ex (\<lambda>t. list_ex (conflicts t) es) taken
      then (let (accepted, skipped) = accept rest taken (skipped @ [fx]) in (False # accepted, skipped))
      else (let (accepted, skipped) = accept rest (taken @ es) skipped in (True # accepted, skipped)))"

text \<open>The third loop: \<open>flat\<close> and \<open>applied\<close>.\<close>

fun gather :: "((Fix \<times> pending_edit list option) \<times> bool) list \<Rightarrow> pending_edit list \<times> Fix list" where
  "gather [] = ([], [])"
| "gather (((fx, es), acc) # rest) =
     (let (flat, applied) = gather rest in
      if acc then ((case es of None \<Rightarrow> [] | Some es \<Rightarrow> es) @ flat, fx # applied) else (flat, applied))"

definition zero_first :: "pending_edit \<Rightarrow> pending_edit \<Rightarrow> int" where
  "zero_first a b =
     (let c = Compare (peStart a) (peStart b) in
      if c \<noteq> 0 then c
      else
        (let aZero = peStart a = peEnd a; bZero = peStart b = peEnd b in
         if aZero \<and> \<not> bZero then - 1 else if bZero \<and> \<not> aZero then 1 else 0))"

text \<open>The last loop, from the back; \<open>es\<close> is \<open>flat\<close> reversed.\<close>

fun splice_back :: "pending_edit list \<Rightarrow> bytes \<Rightarrow> bytes option" where
  "splice_back [] out = Some out"
| "splice_back (e # es) out =
     (if peStart e \<le> length out \<and> peEnd e \<le> length out
      then splice_back es (take (peStart e) out @ peText e @ drop (peEnd e) out)
      else None)"

definition Apply :: "bytes \<Rightarrow> Fix list \<Rightarrow> (apply_error + bytes \<times> Fix list \<times> Fix list) option" where
  "Apply content fixes =
     (case collect (length content) fixes of
        Inl err \<Rightarrow> Some (Inl err)
      | Inr (edits, skipped) \<Rightarrow>
          (let (accepted, skipped) = accept (zip fixes edits) [] skipped;
               (flat, applied) = gather (zip (zip fixes edits) accepted);
               flat = SortStableFunc zero_first flat in
           case splice_back (rev flat) content of
             None \<Rightarrow> None
           | Some out \<Rightarrow> Some (Inr (out, applied, skipped))))"

end
