(* ===== verification/FixProps.thy ===== *)
theory FixProps imports FixApply
begin

text \<open>
  \<open>Apply\<close> of \<open>sema/edit.go\<close>: its output is the content with exactly the edits of the
  applied fixes spliced in, and it skips a fix only for an overlap.
\<close>

section \<open>Stable sorting\<close>

definition edit_key :: "pending_edit \<Rightarrow> nat \<times> bool" where
  "edit_key e = (peStart e, peStart e \<noteq> peEnd e)"

lemma sort_by_start: "SortStableFunc by_start = sort_key peStart"
  by (intro ext SortStable_key) (auto simp: by_start_def Compare_def)

lemma sort_zero_first: "SortStableFunc zero_first = sort_key edit_key"
proof (rule ext, rule SortStable_key)
  fix a b
  show "zero_first a b \<le> 0 \<longleftrightarrow> edit_key a \<le> edit_key b"
    by (cases "peStart a = peStart b"; cases "peStart a = peEnd a"; cases "peStart b = peEnd b")
      (simp_all add: zero_first_def edit_key_def Compare_def Let_def less_eq_prod_simp le_bool_def)
qed

section \<open>Edits that do not overlap\<close>

text \<open>The pairwise relation that acceptance keeps: of two edits one ends before the other starts, or both insert.\<close>

definition apart :: "pending_edit \<Rightarrow> pending_edit \<Rightarrow> bool" where
  "apart a b \<longleftrightarrow> \<not> conflicts a b"

definition edit_ok :: "nat \<Rightarrow> pending_edit \<Rightarrow> bool" where
  "edit_ok n e \<longleftrightarrow> peStart e \<le> peEnd e \<and> peEnd e \<le> n"

lemma apart_sym: "apart a b = apart b a"
  by (auto simp: apart_def conflicts_def)

lemma check_edits_ok: "check_edits n title es = Inr rest \<Longrightarrow> \<forall>e\<in>set rest. edit_ok n e"
  by (induction es arbitrary: rest) (auto simp: edit_ok_def Let_def split: if_splits sum.splits)

lemma sorted_chain: "sorted (map peStart (a # es)) \<Longrightarrow> \<not> overlaps_itself (a # es) \<Longrightarrow> \<forall>e\<in>set (a # es). edit_ok n e \<Longrightarrow>
   \<forall>b\<in>set es. peEnd a \<le> peStart b"
proof (induction es arbitrary: a)
  case (Cons b es)
  then have "peEnd a \<le> peStart b" "\<forall>d\<in>set es. peStart b \<le> peStart d" by auto
  then show ?case by auto
qed simp

lemma self_apart:
  "sorted (map peStart es) \<Longrightarrow> \<not> overlaps_itself es \<Longrightarrow> \<forall>e\<in>set es. edit_ok n e \<Longrightarrow> sorted_wrt apart es"
proof (induction es)
  case (Cons a es)
  have "\<forall>b\<in>set es. peEnd a \<le> peStart b" using sorted_chain[OF Cons.prems] .
  then have "\<forall>b\<in>set es. apart a b" by (auto simp: apart_def conflicts_def)
  moreover have "sorted_wrt apart es" using Cons by (cases es) auto
  ultimately show ?case by simp
qed simp


lemma sorted_wrt_insort:
  "sorted_wrt R ys \<Longrightarrow> (\<And>y. y \<in> set ys \<Longrightarrow> R x y \<and> R y x) \<Longrightarrow> sorted_wrt R (insort_key f x ys)"
  by (induction ys) (auto simp: set_insort_key)

lemma sorted_wrt_sort:
  assumes "\<And>a b. R a b \<Longrightarrow> R b a"
  shows "sorted_wrt R xs \<Longrightarrow> sorted_wrt R (sort_key f xs)"
proof (induction xs)
  case (Cons x xs)
  then show ?case using assms by (auto intro!: sorted_wrt_insort)
qed simp

text \<open>Sorted as \<open>flat\<close> is, edits that are apart form a chain.\<close>

lemma apart_chain:
  "sorted (map edit_key es) \<Longrightarrow> sorted_wrt apart es \<Longrightarrow> \<forall>e\<in>set es. edit_ok n e \<Longrightarrow>
   \<forall>e\<in>set es. pos \<le> peStart e \<Longrightarrow> disjoint_from pos es"
proof (induction es arbitrary: pos)
  case (Cons a es)
  have "peEnd a \<le> peStart b" if b: "b \<in> set es" for b
  proof (rule ccontr)
    assume c: "\<not> peEnd a \<le> peStart b"
    have le: "edit_key a \<le> edit_key b" using Cons.prems(1) b by auto
    have "apart a b" "edit_ok n a" "edit_ok n b" using Cons.prems b by auto
    then have "peStart a = peStart b" "peStart b = peEnd b" using c le
      by (auto simp: apart_def conflicts_def edit_ok_def edit_key_def less_eq_prod_simp)
    then show False using c le by (auto simp: edit_key_def less_eq_prod_simp le_bool_def)
  qed
  then have "disjoint_from (peEnd a) es" using Cons.prems by (intro Cons.IH) auto
  then show ?case using Cons.prems by (auto simp: edit_ok_def)
qed simp

lemma splice_back_append:
  "splice_back (es @ fs) out = Option.bind (splice_back es out) (splice_back fs)"
  by (induction es out rule: splice_back.induct) auto

lemma splice_back_splice:
  "disjoint_from pos es \<Longrightarrow> pos \<le> length c \<Longrightarrow> \<forall>e\<in>set es. peEnd e \<le> length c \<Longrightarrow>
   splice_back (rev es) c = Some (take pos c @ splice c pos es)"
proof (induction es arbitrary: pos)
  case (Cons e es)
  have e: "pos \<le> peStart e" "peStart e \<le> peEnd e" "peEnd e \<le> length c" "disjoint_from (peEnd e) es" using Cons.prems by auto
  have IH: "splice_back (rev es) c = Some (take (peEnd e) c @ splice c (peEnd e) es)"
    by (rule Cons.IH) (use e Cons.prems(3) in auto)
  show ?case using e splice_step[OF e(1), of c] by (simp add: splice_back_append IH min_def)
qed simp

section \<open>The three loops\<close>

definition edit_of :: "Edit \<Rightarrow> pending_edit" where
  "edit_of e = \<lparr>peStart = poOffset (spStart (eiSpan e)), peEnd = poOffset (spEnd (eiSpan e)), peText = eiNewText e\<rparr>"

definition resolved :: "Fix \<Rightarrow> pending_edit list" where
  "resolved fx = map edit_of (fxEdits fx)"

definition sorted_edits :: "Fix \<Rightarrow> pending_edit list" where
  "sorted_edits fx = sort_key peStart (resolved fx)"

definition in_range :: "nat \<Rightarrow> Fix \<Rightarrow> bool" where
  "in_range n fx \<longleftrightarrow> (\<forall>e\<in>set (resolved fx). edit_ok n e)"

definition self :: "Fix \<Rightarrow> bool" where
  "self fx \<longleftrightarrow> overlaps_itself (sorted_edits fx)"

lemma check_edits_good: "\<forall>e\<in>set es. edit_ok n (edit_of e) \<Longrightarrow> check_edits n title es = Inr (map edit_of es)"
  by (induction es) (auto simp: edit_ok_def edit_of_def Let_def)

lemma check_edits_bad: "\<exists>e\<in>set es. \<not> edit_ok n (edit_of e) \<Longrightarrow> \<exists>err. check_edits n title es = Inl err"
proof (induction es)
  case (Cons a es)
  show ?case
  proof (cases "edit_ok n (edit_of a)")
    case True
    then obtain err where "check_edits n title es = Inl err" using Cons by auto
    then show ?thesis by (simp add: Let_def)
  qed (auto simp: edit_ok_def edit_of_def Let_def)
qed simp

lemma collect_good:
  "\<forall>fx\<in>set fxs. in_range n fx \<Longrightarrow>
   collect n fxs = Inr (map (\<lambda>fx. if self fx then None else Some (sorted_edits fx)) fxs, filter self fxs)"
proof (induction fxs)
  case (Cons fx fxs)
  have "check_edits n (fxTitle fx) (fxEdits fx) = Inr (resolved fx)"
    using Cons.prems by (auto simp: in_range_def resolved_def intro: check_edits_good)
  then show ?case using Cons by (simp add: sort_by_start Let_def self_def sorted_edits_def)
qed simp

lemma collect_bad: "\<exists>fx\<in>set fxs. \<not> in_range n fx \<Longrightarrow> \<exists>err. collect n fxs = Inl err"
proof (induction fxs)
  case (Cons fx fxs)
  show ?case
  proof (cases "in_range n fx")
    case True
    then have "\<exists>err. collect n fxs = Inl err" using Cons by auto
    then show ?thesis by (auto simp: Let_def split: sum.split)
  next
    case False
    then have "\<exists>err. check_edits n (fxTitle fx) (fxEdits fx) = Inl err"
      by (intro check_edits_bad) (auto simp: in_range_def resolved_def)
    then show ?thesis by auto
  qed
qed simp

definition collected :: "Fix list \<Rightarrow> (Fix \<times> pending_edit list option) list" where
  "collected fxs = map (\<lambda>fx. (fx, if self fx then None else Some (sorted_edits fx))) fxs"

lemma zip_collected: "zip fxs (map (\<lambda>fx. if self fx then None else Some (sorted_edits fx)) fxs) = collected fxs"
  by (induction fxs) (simp_all add: collected_def)

lemma set_sorted_edits [simp]: "set (sorted_edits fx) = set (resolved fx)"
  by (simp add: sorted_edits_def)

lemma sorted_edits_apart: "\<not> self fx \<Longrightarrow> in_range n fx \<Longrightarrow> sorted_wrt apart (sorted_edits fx)"
  by (rule self_apart) (auto simp: self_def in_range_def sorted_edits_def)

text \<open>
  What acceptance decides: the accepted edits are apart, every fix is applied or
  skipped, and a fix skipped here conflicts with an edit taken before.
\<close>

lemma accept_gather:
  "accept (collected fxs) taken sk = (acc, sk') \<Longrightarrow> gather (zip (collected fxs) acc) = (flat, applied) \<Longrightarrow>
   \<forall>fx\<in>set fxs. in_range n fx \<Longrightarrow> sorted_wrt apart taken \<Longrightarrow>
   sorted_wrt apart (taken @ flat) \<and> flat = concat (map sorted_edits applied) \<and> subseq applied fxs \<and>
   mset applied + mset sk' = mset sk + mset (filter (\<lambda>fx. \<not> self fx) fxs) \<and>
   (\<forall>fx\<in>set sk'. fx \<in> set sk \<or> (\<exists>t\<in>set (taken @ flat). \<exists>e\<in>set (resolved fx). conflicts t e))"
proof (induction fxs arbitrary: taken sk acc sk' flat applied)
  case Nil
  then show ?case by (simp add: collected_def)
next
  case (Cons fx fxs)
  let ?es = "sorted_edits fx"
  consider (self) "self fx" | (taken) "\<not> self fx" "list_ex (\<lambda>t. list_ex (conflicts t) ?es) taken"
    | (new) "\<not> self fx" "\<not> list_ex (\<lambda>t. list_ex (conflicts t) ?es) taken" by blast
  then show ?case
  proof cases
    case self
    then obtain acc1 where "accept (collected fxs) taken sk = (acc1, sk')" "acc = False # acc1"
      "gather (zip (collected fxs) acc1) = (flat, applied)"
      using Cons.prems(1,2) by (auto simp: collected_def split: prod.splits)
    then show ?thesis using Cons.IH[of taken sk acc1 sk' flat applied] Cons.prems(3,4) self by auto
  next
    case taken
    then obtain acc1 where acc1: "accept (collected fxs) taken (sk @ [fx]) = (acc1, sk')" "acc = False # acc1"
      "gather (zip (collected fxs) acc1) = (flat, applied)"
      using Cons.prems(1,2) by (auto simp: collected_def split: prod.splits)
    have "\<forall>fx\<in>set fxs. in_range n fx" using Cons.prems(3) by simp
    note IH = Cons.IH[OF acc1(1,3) this Cons.prems(4)]
    have conf: "\<exists>t\<in>set (taken @ flat). \<exists>e\<in>set (resolved fx). conflicts t e"
      using taken(2) by (auto simp: list_ex_iff)
    have "fxa \<in> set sk \<or> (\<exists>t\<in>set (taken @ flat). \<exists>e\<in>set (resolved fxa). conflicts t e)" if "fxa \<in> set sk'" for fxa
    proof (cases "fxa = fx")
      case False
      have "fxa \<in> set (sk @ [fx]) \<or> (\<exists>t\<in>set (taken @ flat). \<exists>e\<in>set (resolved fxa). conflicts t e)"
        using IH that by blast
      then show ?thesis using False by simp
    qed (use conf in simp)
    moreover have "mset applied + mset sk' = mset sk + mset (filter (\<lambda>fx. \<not> self fx) (fx # fxs))" "subseq applied (fx # fxs)"
      using IH taken(1) by auto
    ultimately show ?thesis using IH by blast
  next
    case new
    then obtain acc1 flat1 applied1 where *: "accept (collected fxs) (taken @ ?es) sk = (acc1, sk')" "acc = True # acc1"
      "gather (zip (collected fxs) acc1) = (flat1, applied1)" "flat = ?es @ flat1" "applied = fx # applied1"
      using Cons.prems(1,2) by (auto simp: collected_def split: prod.splits)
    have "\<forall>t\<in>set taken. \<forall>e\<in>set ?es. apart t e" using new(2) by (auto simp: list_ex_iff apart_def)
    then have "sorted_wrt apart (taken @ ?es)"
      using Cons.prems(3,4) sorted_edits_apart[OF new(1)] by (auto simp: sorted_wrt_append)
    then show ?thesis using Cons.IH[OF *(1,3)] Cons.prems(3) *(4,5) new(1) by auto
  qed
qed

section \<open>Properties of Apply\<close>

lemma gather_exists: "\<exists>flat applied. gather ps = (flat, applied)"
  by fastforce

lemma Apply_cases:
  assumes "\<forall>fx\<in>set fxs. in_range (length content) fx"
  obtains flat applied skipped where
    "Apply content fxs = Some (Inr (splice content 0 (sort_key edit_key flat), applied, skipped))"
    "disjoint_from 0 (sort_key edit_key flat)" "flat = concat (map sorted_edits applied)" "subseq applied fxs"
    "mset applied + mset skipped = mset fxs"
    "\<forall>fx\<in>set skipped. self fx \<or> (\<exists>t\<in>set flat. \<exists>e\<in>set (resolved fx). conflicts t e)"
proof -
  obtain acc skipped where acc: "accept (collected fxs) [] (filter self fxs) = (acc, skipped)" by fastforce
  obtain flat applied where g: "gather (zip (collected fxs) acc) = (flat, applied)" by fastforce
  have nil: "sorted_wrt apart []" by simp
  note ag = accept_gather[OF acc g assms nil]
  have flat: "sorted_wrt apart flat" "flat = concat (map sorted_edits applied)" "subseq applied fxs" using ag by auto
  have "set applied \<subseteq> set fxs" using flat(3) by (auto dest: list_emb_set)
  then have ok: "\<forall>e\<in>set flat. edit_ok (length content) e" using assms by (auto simp: flat(2) in_range_def)
  have "sorted_wrt apart (sort_key edit_key flat)"
    by (rule sorted_wrt_sort[OF _ flat(1)]) (simp add: apart_sym)
  then have dis: "disjoint_from 0 (sort_key edit_key flat)"
    by (rule apart_chain[rotated, where n = "length content"]) (use ok in auto)
  have "splice_back (rev (sort_key edit_key flat)) content = Some (take 0 content @ splice content 0 (sort_key edit_key flat))"
    by (rule splice_back_splice[OF dis]) (use ok in \<open>auto simp: edit_ok_def\<close>)
  then have "Apply content fxs = Some (Inr (splice content 0 (sort_key edit_key flat), applied, skipped))"
    by (simp add: Apply_def collect_good[OF assms] zip_collected acc g sort_zero_first)
  moreover have "mset applied + mset skipped = mset fxs"
  proof -
    have "mset applied + mset skipped = mset (filter self fxs) + mset (filter (\<lambda>fx. \<not> self fx) fxs)" using ag by blast
    then show ?thesis by (simp flip: multiset_partition)
  qed
  moreover have "\<forall>fx\<in>set skipped. self fx \<or> (\<exists>t\<in>set flat. \<exists>e\<in>set (resolved fx). conflicts t e)"
  proof -
    have "\<forall>fx\<in>set skipped. fx \<in> set (filter self fxs) \<or> (\<exists>t\<in>set ([] @ flat). \<exists>e\<in>set (resolved fx). conflicts t e)"
      using ag by blast
    then show ?thesis by auto
  qed
  ultimately show ?thesis using that flat dis by blast
qed

text \<open>The stable sort inside the fixes does not show in the sort of all edits.\<close>

lemma filter_key_sorted: "filter (\<lambda>x. edit_key x = k) (sort_key peStart xs) = filter (\<lambda>x. edit_key x = k) xs"
proof -
  have eq: "filter (\<lambda>x. edit_key x = k) ys = filter (\<lambda>x. edit_key x = k) (filter (\<lambda>x. peStart x = fst k) ys)" for ys
    by (auto simp: edit_key_def intro!: filter_cong)
  show ?thesis unfolding eq[of "sort_key peStart xs"] eq[of xs] List.sort_key_stable ..
qed

lemma sort_concat: "sort_key edit_key (concat (map sorted_edits fxs)) = sort_key edit_key (concat (map resolved fxs))"
proof (rule properties_for_sort_key[symmetric])
  show "mset (sort_key edit_key (concat (map sorted_edits fxs))) = mset (concat (map resolved fxs))"
    by (induction fxs) (simp_all add: sorted_edits_def)
  show "filter (\<lambda>x. edit_key k = edit_key x) (sort_key edit_key (concat (map sorted_edits fxs))) =
      filter (\<lambda>x. edit_key k = edit_key x) (concat (map resolved fxs))" for k
  proof -
    have "filter (\<lambda>x. edit_key x = edit_key k) (sort_key edit_key (concat (map sorted_edits fxs))) =
        filter (\<lambda>x. edit_key x = edit_key k) (concat (map sorted_edits fxs))" by (rule List.sort_key_stable)
    also have "\<dots> = filter (\<lambda>x. edit_key x = edit_key k) (concat (map resolved fxs))"
      by (induction fxs) (simp_all add: sorted_edits_def filter_key_sorted)
    finally show ?thesis by (simp add: eq_commute)
  qed
qed simp

lemma Apply_Inr:
  assumes "Apply content fxs = Some (Inr (out, applied, skipped))"
  shows "\<forall>fx\<in>set fxs. in_range (length content) fx"
proof (rule ccontr)
  assume "\<not> ?thesis"
  then obtain err where "collect (length content) fxs = Inl err" using collect_bad by blast
  then show False using assms by (simp add: Apply_def)
qed

text \<open>
  C12: \<open>Apply\<close> is all or nothing. The output is the content with all edits of the applied
  fixes spliced in and no other: the edits, ordered by their start with insertions
  first and in argument order otherwise, do not overlap, and every range is replaced
  by its text. Applied and skipped fixes partition the fixes, the applied ones in
  argument order.
\<close>

theorem Apply_splices:
  assumes "Apply content fxs = Some (Inr (out, applied, skipped))"
  shows "let flat = sort_key edit_key (concat (map resolved applied)) in
    disjoint_from 0 flat \<and> out = splice content 0 flat \<and> mset applied + mset skipped = mset fxs \<and> subseq applied fxs"
proof -
  obtain flat applied' skipped' where
    a: "Apply content fxs = Some (Inr (splice content 0 (sort_key edit_key flat), applied', skipped'))"
    and f: "disjoint_from 0 (sort_key edit_key flat)" "flat = concat (map sorted_edits applied')" "subseq applied' fxs"
      "mset applied' + mset skipped' = mset fxs"
    using Apply_Inr[OF assms] by (rule Apply_cases)
  have "applied' = applied" "skipped' = skipped" "out = splice content 0 (sort_key edit_key flat)" using a assms by auto
  then show ?thesis using f(1,3,4) by (simp add: f(2) sort_concat)
qed

text \<open>
  a fix is skipped only for an overlap: its own edits overlap in their order, or
  one of them overlaps an edit of an applied fix.
\<close>

theorem Apply_skips:
  assumes "Apply content fxs = Some (Inr (out, applied, skipped))" and "fx \<in> set skipped"
  shows "overlaps_itself (sort_key peStart (resolved fx)) \<or>
    (\<exists>gx\<in>set applied. \<exists>t\<in>set (resolved gx). \<exists>e\<in>set (resolved fx). conflicts t e)"
proof -
  obtain flat applied' skipped' where
    a: "Apply content fxs = Some (Inr (splice content 0 (sort_key edit_key flat), applied', skipped'))"
    and f: "flat = concat (map sorted_edits applied')"
      "\<forall>fx\<in>set skipped'. self fx \<or> (\<exists>t\<in>set flat. \<exists>e\<in>set (resolved fx). conflicts t e)"
    using Apply_Inr[OF assms(1)] by (rule Apply_cases)
  have "applied' = applied" "skipped' = skipped" using a assms(1) by auto
  then show ?thesis using f(2) assms(2) by (auto simp: f(1) self_def sorted_edits_def)
qed

text \<open>
  \<open>Apply\<close> never panics, and it fails exactly when an edit of some fix is not a
  range of the content, also if that fix would be skipped.
\<close>

theorem Apply_total:
  "\<exists>r. Apply content fxs = Some r \<and>
     (isl r \<longleftrightarrow> (\<exists>fx\<in>set fxs. \<exists>e\<in>set (fxEdits fx).
        let start = poOffset (spStart (eiSpan e)); stop = poOffset (spEnd (eiSpan e)) in stop < start \<or> length content < stop))"
proof -
  have bad: "(\<exists>fx\<in>set fxs. \<exists>e\<in>set (fxEdits fx).
      let start = poOffset (spStart (eiSpan e)); stop = poOffset (spEnd (eiSpan e)) in stop < start \<or> length content < stop) \<longleftrightarrow>
    (\<exists>fx\<in>set fxs. \<not> in_range (length content) fx)"
    by (simp add: in_range_def resolved_def edit_ok_def edit_of_def Let_def not_le imp_conv_disj)
  show ?thesis
  proof (cases "\<forall>fx\<in>set fxs. in_range (length content) fx")
    case True
    then obtain r where "Apply content fxs = Some (Inr r)" by (rule Apply_cases)
    then show ?thesis using True unfolding bad by auto
  next
    case False
    then obtain err where "collect (length content) fxs = Inl err" using collect_bad by blast
    then show ?thesis using False unfolding bad by (simp add: Apply_def)
  qed
qed

text \<open>Fixes of \<open>abcdef\<close>: a replacement of cd, an insertion at c, and a deletion of d and e.\<close>

definition fix_at :: "bytes \<Rightarrow> (nat \<times> nat \<times> bytes) list \<Rightarrow> Fix" where
  "fix_at title es = \<lparr>fxTitle = title, fxEdits = map (\<lambda>(i, j, t).
     \<lparr>eiSpan = \<lparr>spStart = \<lparr>poLine = 1, poCol = i + 1, poOffset = i\<rparr>, spEnd = \<lparr>poLine = 1, poCol = j + 1, poOffset = j\<rparr>\<rparr>,
       eiNewText = t\<rparr>) es\<rparr>"

definition fix_replace :: Fix where "fix_replace = fix_at ''r'' [(2, 4, ''XY'')]"
definition fix_insert :: Fix where "fix_insert = fix_at ''i'' [(2, 2, ''_'')]"
definition fix_delete :: Fix where "fix_delete = fix_at ''d'' [(0, 0, ''!''), (3, 5, [])]"

lemma Apply_example:
  "Apply ''abcdef'' [fix_replace, fix_insert, fix_delete] =
    Some (Inr (''ab_XYef'', [fix_replace, fix_insert], [fix_delete]))"
  by (simp add: Apply_def fix_replace_def fix_insert_def fix_delete_def fix_at_def SortStableFunc_def by_start_def
      zero_first_def Compare_def conflicts_def Let_def)

lemma Apply_splices_witness:
  "''ab_XYef'' = splice ''abcdef'' 0 (sort_key edit_key (concat (map resolved [fix_replace, fix_insert])))"
  using Apply_splices[OF Apply_example] by (simp add: Let_def)

lemma Apply_skips_witness:
  "\<exists>gx\<in>set [fix_replace, fix_insert]. \<exists>t\<in>set (resolved gx). \<exists>e\<in>set (resolved fix_delete). conflicts t e"
proof -
  have "\<not> overlaps_itself (sort_key peStart (resolved fix_delete))"
    by (simp add: resolved_def edit_of_def fix_delete_def fix_at_def)
  then show ?thesis using Apply_skips[OF Apply_example, of fix_delete] by simp
qed

text \<open>
  The comment of \<open>Apply\<close> promises the skipped fixes in argument order, but those that
  overlap themselves come first.
\<close>

lemma skipped_out_of_order:
  "Apply ''abcdef'' [fix_replace, fix_delete, fix_at ''s'' [(0, 2, []), (1, 3, [])]] =
    Some (Inr (''abXYef'', [fix_replace], [fix_at ''s'' [(0, 2, []), (1, 3, [])], fix_delete]))"
  by (simp add: Apply_def fix_replace_def fix_delete_def fix_at_def SortStableFunc_def by_start_def
      zero_first_def Compare_def conflicts_def Let_def)

text \<open>
  Within one fix, an insertion at the start of a replacement is an overlap or not,
  depending on the order of the two edits.
\<close>

lemma insertion_order_in_fix:
  "Apply ''abcdef'' [fix_at ''s'' [(2, 2, ''_''), (2, 4, ''XY'')]] =
     Some (Inr (''ab_XYef'', [fix_at ''s'' [(2, 2, ''_''), (2, 4, ''XY'')]], []))"
  "Apply ''abcdef'' [fix_at ''s'' [(2, 4, ''XY''), (2, 2, ''_'')]] =
     Some (Inr (''abcdef'', [], [fix_at ''s'' [(2, 4, ''XY''), (2, 2, ''_'')]]))"
  by (simp_all add: Apply_def fix_at_def SortStableFunc_def by_start_def
      zero_first_def Compare_def conflicts_def Let_def)

end
