(* ===== verification/View.thy ===== *)
theory View imports AstVisit "HOL-Library.Finite_Map" "HOL-Library.List_Lexorder"
begin

text \<open>
  The document store of one workspace folder: \<open>store/view.go\<close>, with \<open>Parse\<close> and the
  tokens of \<open>store/parse.go\<close>. The maps of a view are finite maps. The contents of the
  files and the resolution of include paths, which depends on the files that exist,
  are parameters. The locks make every operation below atomic, except \<open>Parse\<close>, which
  reads and parses outside of them: it is split into \<open>parse_start\<close> and
  \<open>parse_commit\<close>, and the steps at the end of the theory interleave them freely.
\<close>

section \<open>Data\<close>

type_synonym uri = bytes
type_synonym files = "uri \<Rightarrow> bytes option"
type_synonym resolver = "files \<Rightarrow> uri \<Rightarrow> bytes \<Rightarrow> uri"

record ParsedFile =
  pfContent :: bytes
  pfAst :: Document
  pfErrs :: "Error list"

definition parse_file :: "bytes \<Rightarrow> ParsedFile option" where
  "parse_file content = map_option (\<lambda>(ast, errs). \<lparr>pfContent = content, pfAst = ast, pfErrs = errs\<rparr>) (Parse content)"

text \<open>An entry is \<open>None\<close> until the file is parsed; the generation does not wrap around here.\<close>

record View =
  vwEntries :: "(uri, ParsedFile option) fmap"
  vwIncludes :: "(uri, uri list) fmap"
  vwIncluders :: "(uri, uri list) fmap"
  vwGen :: nat

definition NewView :: View where
  "NewView = \<lparr>vwEntries = fmempty, vwIncludes = fmempty, vwIncluders = fmempty, vwGen = 0\<rparr>"

text \<open>The list of a missing key is empty.\<close>

definition edges :: "(uri, uri list) fmap \<Rightarrow> uri \<Rightarrow> uri list" where
  "edges m u = (case fmlookup m u of None \<Rightarrow> [] | Some us \<Rightarrow> us)"

definition parsed :: "View \<Rightarrow> uri \<Rightarrow> ParsedFile option" where
  "parsed v u = (case fmlookup (vwEntries v) u of None \<Rightarrow> None | Some e \<Rightarrow> e)"

definition FileKnown :: "View \<Rightarrow> uri \<Rightarrow> bool" where
  "FileKnown v u \<longleftrightarrow> u |\<in>| fmdom (vwEntries v)"

definition KnownFiles :: "View \<Rightarrow> uri list" where
  "KnownFiles v = sorted_list_of_fset (fmdom (vwEntries v))"

section \<open>Edges\<close>

text \<open>Deletion by swapping with the last element.\<close>

definition swap_remove :: "uri \<Rightarrow> uri list \<Rightarrow> uri list" where
  "swap_remove u us =
     (let i = length (takeWhile (\<lambda>x. x \<noteq> u) us) in
      if i < length us then butlast (us[i := last us]) else us)"

definition remove_reverse :: "uri \<Rightarrow> uri \<Rightarrow> View \<Rightarrow> View" where
  "remove_reverse u inc v =
     (let us = swap_remove u (edges (vwIncluders v) inc) in
      v\<lparr>vwIncluders := (if us = [] then fmdrop inc (vwIncluders v) else fmupd inc us (vwIncluders v))\<rparr>)"

definition removeEdgesLocked :: "uri \<Rightarrow> View \<Rightarrow> View" where
  "removeEdgesLocked u v =
     (let v = fold (remove_reverse u) (edges (vwIncludes v) u) v in v\<lparr>vwIncludes := fmdrop u (vwIncludes v)\<rparr>)"

definition add_edge :: "uri \<Rightarrow> uri \<Rightarrow> View \<Rightarrow> View" where
  "add_edge u inc v = v\<lparr>
     vwIncludes := fmupd u (edges (vwIncludes v) u @ [inc]) (vwIncludes v),
     vwIncluders := fmupd inc (edges (vwIncluders v) inc @ [u]) (vwIncluders v)\<rparr>"

definition setEntry :: "uri \<Rightarrow> ParsedFile option \<Rightarrow> uri list \<Rightarrow> View \<Rightarrow> View" where
  "setEntry u e includes v =
     (let v = removeEdgesLocked u v in
      fold (add_edge u) includes (v\<lparr>vwEntries := fmupd u e (vwEntries v)\<rparr>))"

definition view_Includes :: "View \<Rightarrow> uri \<Rightarrow> uri list" where
  "view_Includes v u = edges (vwIncludes v) u"

definition Includers :: "View \<Rightarrow> uri \<Rightarrow> uri list" where
  "Includers v u = sort (edges (vwIncluders v) u)"

section \<open>Resolving includes\<close>

fun resolve_loop :: "(bytes \<Rightarrow> uri) \<Rightarrow> Token list \<Rightarrow> bytes list \<Rightarrow> Include list \<Rightarrow> uri list" where
  "resolve_loop resolve toks seen [] = []"
| "resolve_loop resolve toks seen (inc # incs) =
     (case incPath inc of
        None \<Rightarrow> resolve_loop resolve toks seen incs
      | Some t \<Rightarrow>
          (let txt = trim_quotes (tkText (toks ! t)) in
           if txt \<in> set seen then resolve_loop resolve toks seen incs
           else resolve txt # resolve_loop resolve toks (txt # seen) incs))"

definition resolveIncludes :: "(bytes \<Rightarrow> uri) \<Rightarrow> Document \<Rightarrow> uri list" where
  "resolveIncludes resolve doc = remdups_adj (sort (resolve_loop resolve (docTokens doc) [] (Includes doc)))"

section \<open>Parsing\<close>

record job =
  jbUri :: uri
  jbGuard :: "nat option"
  jbGen :: nat
  jbParsed :: ParsedFile
  jbIncludes :: "uri list"

text \<open>
  Up to the lock: \<open>None\<close> when the file cannot be read. The guard is the generation
  that the context of the request carries, if any; \<open>gen\<close> is the generation of the view
  loaded before the file is read.
\<close>

definition parse_start :: "resolver \<Rightarrow> files \<Rightarrow> nat option \<Rightarrow> nat \<Rightarrow> uri \<Rightarrow> job option" where
  "parse_start resolve fs guard gen u = do {
     content \<leftarrow> fs u;
     pf \<leftarrow> parse_file content;
     Some \<lparr>jbUri = u, jbGuard = guard, jbGen = gen, jbParsed = pf,
       jbIncludes = resolveIncludes (resolve fs u) (pfAst pf)\<rparr> }"

definition parse_commit :: "job \<Rightarrow> View \<Rightarrow> View" where
  "parse_commit j v =
     (if (jbGuard j = None \<or> jbGuard j = Some (jbGen j)) \<and> vwGen v = jbGen j
      then setEntry (jbUri j) (Some (jbParsed j)) (jbIncludes j) v
      else v)"

definition View_Parse :: "resolver \<Rightarrow> files \<Rightarrow> nat option \<Rightarrow> uri \<Rightarrow> View \<Rightarrow> ParsedFile option \<times> View" where
  "View_Parse resolve fs guard u v =
     (case parsed v u of
        Some pf \<Rightarrow> (Some pf, v)
      | None \<Rightarrow>
          (case parse_start resolve fs guard (vwGen v) u of
             None \<Rightarrow> (None, v)
           | Some j \<Rightarrow> (Some (jbParsed j), parse_commit j v)))"

section \<open>Dependents\<close>

definition visit_dependent :: "uri \<Rightarrow> uri list \<times> uri list \<Rightarrow> uri list \<times> uri list" where
  "visit_dependent d = (\<lambda>(queue, deps). if d \<in> set deps then (queue, deps) else (queue @ [d], deps @ [d]))"

lemma visit_dependent_simp [simp]:
  "visit_dependent d (queue, deps) = (if d \<in> set deps then (queue, deps) else (queue @ [d], deps @ [d]))"
  by (simp add: visit_dependent_def)

definition ends :: "(uri, uri list) fmap \<Rightarrow> uri set" where
  "ends m = (\<Union>u\<in>fset (fmdom m). set (edges m u))"

lemma finite_ends [simp]: "finite (ends m)"
  by (auto simp: ends_def)

lemma edges_ends: "set (edges m u) \<subseteq> ends m"
proof (cases "u \<in> fset (fmdom m)")
  case False
  then have "fmlookup m u = None" by (simp add: fmdom_notD)
  then show ?thesis by (simp add: edges_def)
qed (auto simp: ends_def)

lemma visit_dependents:
  "fold visit_dependent ds (queue, deps) = (queue', deps') \<Longrightarrow> set ds \<subseteq> E \<Longrightarrow> finite E \<Longrightarrow>
   2 * card (E - set deps') + length queue' \<le> 2 * card (E - set deps) + length queue"
proof (induction ds arbitrary: queue deps)
  case (Cons d ds)
  show ?case
  proof (cases "d \<in> set deps")
    case True
    then show ?thesis using Cons by simp
  next
    case False
    then have d: "d \<in> E - set deps" using Cons.prems(2) by auto
    have "E - set (deps @ [d]) = E - set deps - {d}" by auto
    then have "card (E - set deps) = Suc (card (E - set (deps @ [d])))"
      using card_Suc_Diff1[of "E - set deps" d] d Cons.prems(3) by (metis finite_Diff)
    moreover have "2 * card (E - set deps') + length queue' \<le> 2 * card (E - set (deps @ [d])) + length (queue @ [d])"
    proof (rule Cons.IH)
      show "fold visit_dependent ds (queue @ [d], deps @ [d]) = (queue', deps')"
        using Cons.prems(1) False by simp
    qed (use Cons.prems(2,3) in auto)
    ultimately show ?thesis by simp
  qed
qed simp

function dependents_loop :: "(uri, uri list) fmap \<Rightarrow> uri list \<Rightarrow> uri list \<Rightarrow> uri list" where
  "dependents_loop m queue deps =
     (case queue of
        [] \<Rightarrow> deps
      | u # rest \<Rightarrow> (let (queue, deps) = fold visit_dependent (edges m u) (rest, deps) in dependents_loop m queue deps))"
  by pat_completeness auto
termination
proof (relation "measure (\<lambda>(m, queue, deps). 2 * card (ends m - set deps) + length queue)", simp, clarify)
  fix m :: "(uri, uri list) fmap" and deps u rest queue' deps'
  assume "(queue', deps') = fold visit_dependent (edges m u) (rest, deps)"
  from visit_dependents[OF this[symmetric] edges_ends finite_ends]
  show "((m, queue', deps'), m, u # rest, deps) \<in> measure (\<lambda>(m, queue, deps). 2 * card (ends m - set deps) + length queue)"
    by simp
qed

declare dependents_loop.simps [simp del]

definition Dependents :: "View \<Rightarrow> uri \<Rightarrow> uri list" where
  "Dependents v file = sort (dependents_loop (vwIncluders v) [file] [])"

section \<open>Identifier tokens\<close>

definition collect_token :: "AnyNode \<Rightarrow> bytes set \<Rightarrow> bytes set" where
  "collect_token n tokens =
     (case n of
        A_Node (N_Identifier v) \<Rightarrow> insert (idText v) tokens
      | A_Node (N_ConstValue v) \<Rightarrow> if cvKind v = ValueIdent then insert (cvText v) tokens else tokens
      | _ \<Rightarrow> tokens)"

definition collectTokens :: "Document \<Rightarrow> bytes set \<Rightarrow> bytes set option" where
  "collectTokens ast tokens = Walk (\<lambda>n tokens. (True, collect_token n tokens)) (A_Document ast) tokens"

definition Tokens :: "ParsedFile \<Rightarrow> bytes set option" where
  "Tokens pf = collectTokens (pfAst pf) {}"

text \<open>
  \<open>collect\<close> with an explicit stack: the files that the calls still open have to visit,
  in the order in which they are called.
\<close>

function collect_files :: "View \<Rightarrow> uri list \<Rightarrow> uri set \<Rightarrow> bytes set \<Rightarrow> bytes set option" where
  "collect_files v [] visited tokens = Some tokens"
| "collect_files v (f # stack) visited tokens =
     (if f \<in> visited then collect_files v stack visited tokens
      else
        (case (case parsed v f of None \<Rightarrow> Some {} | Some pf \<Rightarrow> Tokens pf) of
           None \<Rightarrow> None
         | Some ts \<Rightarrow> collect_files v (view_Includes v f @ stack) (insert f visited) (tokens \<union> ts)))"
  by pat_completeness auto
termination
proof (relation "measures [\<lambda>(v, stack, visited, tokens). card (ends (vwIncludes v) \<union> set stack - visited),
    \<lambda>(v, stack, visited, tokens). length stack]", simp)
  fix v and f :: uri and stack visited and tokens :: "bytes set"
  assume "f \<in> visited"
  then have "ends (vwIncludes v) \<union> set (f # stack) - visited = ends (vwIncludes v) \<union> set stack - visited" by auto
  then show "((v, stack, visited, tokens), v, f # stack, visited, tokens) \<in>
      measures [\<lambda>(v, stack, visited, tokens). card (ends (vwIncludes v) \<union> set stack - visited),
        \<lambda>(v, stack, visited, tokens). length stack]"
    by simp
next
  fix v and f :: uri and stack visited and tokens ts :: "bytes set"
  assume f: "f \<notin> visited"
  have "card (ends (vwIncludes v) \<union> set (view_Includes v f @ stack) - insert f visited)
      < card (ends (vwIncludes v) \<union> set (f # stack) - visited)"
    using f edges_ends[of "vwIncludes v" f] by (intro psubset_card_mono) (auto simp: view_Includes_def)
  then show "((v, view_Includes v f @ stack, insert f visited, tokens \<union> ts), v, f # stack, visited, tokens) \<in>
      measures [\<lambda>(v, stack, visited, tokens). card (ends (vwIncludes v) \<union> set stack - visited),
        \<lambda>(v, stack, visited, tokens). length stack]"
    by simp
qed

definition TokensForFile :: "View \<Rightarrow> uri \<Rightarrow> bytes set option" where
  "TokensForFile v file = collect_files v [file] {} {}"

section \<open>Changes\<close>

definition affected :: "View \<Rightarrow> uri list \<Rightarrow> uri list" where
  "affected v uris =
     fold (\<lambda>u. fold (\<lambda>dep aff. if dep \<in> set aff then aff else aff @ [dep]) (Dependents v u)) uris uris"

definition invalidate :: "uri list \<Rightarrow> View \<Rightarrow> View" where
  "invalidate uris v =
     (let v = fold (\<lambda>u v. let v = removeEdgesLocked u v in v\<lparr>vwEntries := fmupd u None (vwEntries v)\<rparr>) uris v in
      v\<lparr>vwGen := vwGen v + 1\<rparr>)"

definition Update :: "resolver \<Rightarrow> files \<Rightarrow> nat option \<Rightarrow> uri list \<Rightarrow> View \<Rightarrow> (nat \<times> uri list) \<times> View" where
  "Update resolve fs guard changes v =
     (let uris = remdups_adj (sort changes);
          v = invalidate uris v;
          generation = vwGen v;
          v = fold (\<lambda>u v. snd (View_Parse resolve fs guard u v)) uris v in
      ((generation, affected v uris), v))"

definition drop_include :: "uri \<Rightarrow> uri \<Rightarrow> View \<Rightarrow> View" where
  "drop_include file includer v =
     (let us = removeAll file (edges (vwIncludes v) includer) in
      v\<lparr>vwIncludes := (if us = [] then fmdrop includer (vwIncludes v) else fmupd includer us (vwIncludes v))\<rparr>)"

definition evict_file :: "uri \<Rightarrow> View \<Rightarrow> View" where
  "evict_file file v =
     (let v = removeEdgesLocked file v;
          v = fold (drop_include file) (edges (vwIncluders v) file) v in
      v\<lparr>vwIncluders := fmdrop file (vwIncluders v), vwEntries := fmdrop file (vwEntries v)\<rparr>)"

definition Evict :: "uri list \<Rightarrow> View \<Rightarrow> View" where
  "Evict uris v = (let v = fold evict_file (remdups_adj (sort uris)) v in v\<lparr>vwGen := vwGen v + 1\<rparr>)"

definition IsCurrent :: "View \<Rightarrow> nat \<Rightarrow> bool" where
  "IsCurrent v gen \<longleftrightarrow> vwGen v = gen"

section \<open>Interleavings\<close>

text \<open>
  The store as its clients drive it: a file may change at any time, and is then dirty
  until an \<open>Update\<close> names it; a parse that was started is a job until it commits. A job
  may have loaded the generation well before it reads the file, hence any generation that
  the view has had.
\<close>

record store =
  stFiles :: files
  stDirty :: "uri set"
  stView :: View
  stJobs :: "job list"

definition initial :: "files \<Rightarrow> store" where
  "initial fs = \<lparr>stFiles = fs, stDirty = {}, stView = NewView, stJobs = []\<rparr>"

inductive step :: "resolver \<Rightarrow> store \<Rightarrow> store \<Rightarrow> bool" for resolve :: resolver where
  change: "step resolve s (s\<lparr>stFiles := (stFiles s)(u := content), stDirty := insert u (stDirty s)\<rparr>)"
| update: "step resolve s (s\<lparr>stView := invalidate uris (stView s), stDirty := stDirty s - set uris\<rparr>)"
| evict: "step resolve s (s\<lparr>stView := Evict uris (stView s)\<rparr>)"
| start: "parse_start resolve (stFiles s) guard gen u = Some j \<Longrightarrow> gen \<le> vwGen (stView s) \<Longrightarrow>
    step resolve s (s\<lparr>stJobs := j # stJobs s\<rparr>)"
| commit: "j \<in> set (stJobs s) \<Longrightarrow>
    step resolve s (s\<lparr>stView := parse_commit j (stView s), stJobs := remove1 j (stJobs s)\<rparr>)"

inductive reachable :: "resolver \<Rightarrow> files \<Rightarrow> store \<Rightarrow> bool" for resolve :: resolver and fs :: files where
  init: "reachable resolve fs (initial fs)"
| next_step: "reachable resolve fs s \<Longrightarrow> step resolve s s' \<Longrightarrow> reachable resolve fs s'"

inductive_cases step_cases [consumes 1, case_names change update evict start commit]: "step resolve s s'"

end
