(* ===== verification/ViewProps.thy ===== *)
theory ViewProps imports View VisitProps "HOL-Library.Multiset"
begin

text \<open>
  The document store under every interleaving of its operations: the two edge maps
  are inverse to each other, no stale parse is ever cached, dependents are the
  transitive includers; and what an eviction loses.
\<close>

section \<open>The include graph\<close>

abbreviation incs :: "View \<Rightarrow> uri \<Rightarrow> uri list" where "incs v \<equiv> edges (vwIncludes v)"
abbreviation refs :: "View \<Rightarrow> uri \<Rightarrow> uri list" where "refs v \<equiv> edges (vwIncluders v)"

text \<open>Includers is the inverse of includes; lists have no duplicates, and includes are sorted.\<close>

definition graph_ok :: "View \<Rightarrow> bool" where
  "graph_ok v \<longleftrightarrow> (\<forall>a b. b \<in> set (incs v a) \<longleftrightarrow> a \<in> set (refs v b)) \<and>
     (\<forall>a. distinct (incs v a) \<and> sorted (incs v a)) \<and> (\<forall>b. distinct (refs v b))"

lemma graph_edge: "graph_ok v \<Longrightarrow> a \<in> set (refs v b) \<longleftrightarrow> b \<in> set (incs v a)"
  by (simp add: graph_ok_def)

lemma edges_simps [simp]:
  "edges (fmupd k us m) u = (if u = k then us else edges m u)"
  "edges (fmdrop k m) u = (if u = k then [] else edges m u)"
  "edges fmempty u = []"
  by (simp_all add: edges_def)

lemma edges_cond [simp]: "edges (if us = [] then fmdrop k m else fmupd k us m) u = (if u = k then us else edges m u)"
  by simp

lemma mset_swap_remove: "mset (swap_remove u us) = mset (remove1 u us)"
proof (cases "u \<in> set us")
  case True
  then obtain xs ys where us: "us = xs @ u # ys" "u \<notin> set xs" by (auto dest: split_list_first)
  have "takeWhile (\<lambda>x. x \<noteq> u) us = xs @ takeWhile (\<lambda>x. x \<noteq> u) (u # ys)"
    unfolding us(1) by (rule takeWhile_append2) (use us(2) in auto)
  then have i: "length (takeWhile (\<lambda>x. x \<noteq> u) us) = length xs" by simp
  show ?thesis
  proof (cases ys rule: rev_cases)
    case Nil
    then show ?thesis using us i by (simp add: swap_remove_def Let_def remove1_append)
  next
    case (snoc zs z)
    then have "us[length xs := z] = (xs @ z # zs) @ [z]" using us by simp
    then have "swap_remove u us = xs @ z # zs" using us i snoc by (simp add: swap_remove_def Let_def butlast_append)
    then show ?thesis using us snoc by (simp add: remove1_append)
  qed
next
  case False
  then have "takeWhile (\<lambda>x. x \<noteq> u) us = us" by (auto intro: takeWhile_eq_all_conv[THEN iffD2])
  then have "swap_remove u us = us" unfolding swap_remove_def by (simp only: Let_def) simp
  then show ?thesis using False by (simp add: remove1_idem)
qed

lemma swap_remove [simp]:
  assumes "distinct us"
  shows "set (swap_remove u us) = set us - {u}" "distinct (swap_remove u us)"
  using mset_eq_setD[OF mset_swap_remove[of u us]] mset_eq_imp_distinct_iff[OF mset_swap_remove[of u us]] assms by auto

lemma remove_reverse_simps [simp]:
  "vwIncludes (remove_reverse u inc v) = vwIncludes v" "vwEntries (remove_reverse u inc v) = vwEntries v"
  "vwGen (remove_reverse u inc v) = vwGen v"
  "refs (remove_reverse u inc v) b = (if b = inc then swap_remove u (refs v inc) else refs v b)"
  by (simp_all add: remove_reverse_def Let_def)

lemma fold_remove_reverse:
  "distinct bs \<Longrightarrow> vwIncludes (fold (remove_reverse u) bs v) = vwIncludes v \<and> vwEntries (fold (remove_reverse u) bs v) = vwEntries v \<and>
   vwGen (fold (remove_reverse u) bs v) = vwGen v \<and>
   refs (fold (remove_reverse u) bs v) b = (if b \<in> set bs then swap_remove u (refs v b) else refs v b)"
  by (induction bs arbitrary: v) auto

lemma removeEdges_simps [simp]:
  "vwEntries (removeEdgesLocked u v) = vwEntries v" "vwGen (removeEdgesLocked u v) = vwGen v"
proof -
  have "vwEntries (fold (remove_reverse u) bs v) = vwEntries v \<and> vwGen (fold (remove_reverse u) bs v) = vwGen v" for bs
    by (induction bs arbitrary: v) auto
  then show "vwEntries (removeEdgesLocked u v) = vwEntries v" "vwGen (removeEdgesLocked u v) = vwGen v"
    by (simp_all add: removeEdgesLocked_def Let_def)
qed

lemma removeEdges:
  assumes "graph_ok v"
  shows "incs (removeEdgesLocked u v) a = (if a = u then [] else incs v a)"
    and "set (refs (removeEdgesLocked u v) b) = set (refs v b) - {u}"
    and "distinct (refs (removeEdgesLocked u v) b)"
proof -
  have d: "distinct (incs v u)" "distinct (refs v b)" "b \<in> set (incs v u) \<longleftrightarrow> u \<in> set (refs v b)"
    using assms by (auto simp: graph_ok_def)
  note f = fold_remove_reverse[OF d(1), of u v]
  show "incs (removeEdgesLocked u v) a = (if a = u then [] else incs v a)"
    using f by (simp add: removeEdgesLocked_def Let_def)
  show "set (refs (removeEdgesLocked u v) b) = set (refs v b) - {u}" "distinct (refs (removeEdgesLocked u v) b)"
    using f d by (auto simp: removeEdgesLocked_def Let_def)
qed

lemma graph_removeEdges: "graph_ok v \<Longrightarrow> graph_ok (removeEdgesLocked u v)"
  using removeEdges[of v u] unfolding graph_ok_def by auto

lemma add_edge_simps [simp]:
  "vwEntries (add_edge u inc v) = vwEntries v" "vwGen (add_edge u inc v) = vwGen v"
  "incs (add_edge u inc v) a = (if a = u then incs v u @ [inc] else incs v a)"
  "refs (add_edge u inc v) b = (if b = inc then refs v inc @ [u] else refs v b)"
  by (simp_all add: add_edge_def)

lemma fold_add_edge:
  "distinct bs \<Longrightarrow> vwEntries (fold (add_edge u) bs v) = vwEntries v \<and> vwGen (fold (add_edge u) bs v) = vwGen v \<and>
   incs (fold (add_edge u) bs v) a = (if a = u then incs v u @ bs else incs v a) \<and>
   refs (fold (add_edge u) bs v) b = (if b \<in> set bs then refs v b @ [u] else refs v b)"
  by (induction bs arbitrary: v) auto

lemma setEntry_simps:
  assumes "distinct bs"
  shows "vwEntries (setEntry u e bs v) = fmupd u e (vwEntries v)" "vwGen (setEntry u e bs v) = vwGen v"
  using fold_add_edge[OF assms, of u "(removeEdgesLocked u v)\<lparr>vwEntries := fmupd u e (vwEntries v)\<rparr>"]
  by (simp_all add: setEntry_def Let_def)

lemma incs_setEntry:
  assumes "graph_ok v" "distinct bs"
  shows "incs (setEntry u e bs v) a = (if a = u then bs else incs v a)"
  using fold_add_edge[OF assms(2), of u "(removeEdgesLocked u v)\<lparr>vwEntries := fmupd u e (vwEntries v)\<rparr>" a]
    removeEdges(1)[OF assms(1), of u]
  by (simp add: setEntry_def Let_def)

lemma graph_setEntry:
  assumes "graph_ok v" "distinct bs" "sorted bs"
  shows "graph_ok (setEntry u e bs v)"
proof -
  have "refs (setEntry u e bs v) b =
      (if b \<in> set bs then refs (removeEdgesLocked u v) b @ [u] else refs (removeEdgesLocked u v) b)" for b
    using fold_add_edge[OF assms(2), of u "(removeEdgesLocked u v)\<lparr>vwEntries := fmupd u e (vwEntries v)\<rparr>" _ b]
    by (simp add: setEntry_def Let_def)
  then show ?thesis
    using assms removeEdges(2,3)[OF assms(1), of u] incs_setEntry[OF assms(1,2), of u e]
    by (auto simp: graph_ok_def)
qed

lemma drop_include_simps [simp]:
  "vwEntries (drop_include f w v) = vwEntries v" "vwGen (drop_include f w v) = vwGen v" "vwIncluders (drop_include f w v) = vwIncluders v"
  "incs (drop_include f w v) a = (if a = w then removeAll f (incs v w) else incs v a)"
  by (simp_all add: drop_include_def Let_def)

lemma fold_drop_include:
  "vwEntries (fold (drop_include f) ws v) = vwEntries v \<and> vwGen (fold (drop_include f) ws v) = vwGen v \<and>
   vwIncluders (fold (drop_include f) ws v) = vwIncluders v \<and>
   incs (fold (drop_include f) ws v) a = (if a \<in> set ws then removeAll f (incs v a) else incs v a)"
  by (induction ws arbitrary: v) auto

lemma evict_file:
  assumes "graph_ok v"
  shows "graph_ok (evict_file f v)" "vwEntries (evict_file f v) = fmdrop f (vwEntries v)" "vwGen (evict_file f v) = vwGen v"
    "incs (evict_file f v) a = (if a = f then [] else removeAll f (incs v a))" "refs (evict_file f v) f = []"
proof -
  let ?v = "removeEdgesLocked f v"
  note f = fold_drop_include[of f "refs ?v f" ?v]
  have ok: "graph_ok ?v" by (rule graph_removeEdges[OF assms])
  have "removeAll f (incs ?v a) = incs ?v a" if "a \<notin> set (refs ?v f)" for a
    using ok that by (auto simp: graph_ok_def intro: removeAll_id)
  then have i: "incs (evict_file f v) a = removeAll f (incs ?v a)" for a
    using f by (simp add: evict_file_def Let_def)
  have r: "refs (evict_file f v) b = (if b = f then [] else refs ?v b)" for b
    using f by (simp add: evict_file_def Let_def)
  show "graph_ok (evict_file f v)"
    using ok by (auto simp: graph_ok_def i r distinct_removeAll removeAll_filter_not_eq sorted_filter[of id, simplified])
  show "vwEntries (evict_file f v) = fmdrop f (vwEntries v)" "vwGen (evict_file f v) = vwGen v"
    using f by (simp_all add: evict_file_def Let_def)
  show "incs (evict_file f v) a = (if a = f then [] else removeAll f (incs v a))" "refs (evict_file f v) f = []"
    by (simp_all add: i r removeEdges(1)[OF assms])
qed

lemma fold_evict:
  "graph_ok v \<Longrightarrow> graph_ok (fold evict_file us v) \<and> vwGen (fold evict_file us v) = vwGen v \<and>
   fmlookup (vwEntries (fold evict_file us v)) a = (if a \<in> set us then None else fmlookup (vwEntries v) a)"
  by (induction us arbitrary: v) (auto simp: evict_file)

lemma set_sorted_uris [simp]: "set (remdups_adj (sort us)) = set us"
  by simp

lemma Evict:
  assumes "graph_ok v"
  shows "graph_ok (Evict us v)" "vwGen (Evict us v) = vwGen v + 1"
    "fmlookup (vwEntries (Evict us v)) a = (if a \<in> set us then None else fmlookup (vwEntries v) a)"
  using fold_evict[OF assms, of "remdups_adj (sort us)"] by (auto simp: Evict_def Let_def graph_ok_def)

lemma fold_invalidate:
  "graph_ok v \<Longrightarrow>
   (let w = fold (\<lambda>u v. let v = removeEdgesLocked u v in v\<lparr>vwEntries := fmupd u None (vwEntries v)\<rparr>) us v in
    graph_ok w \<and> vwGen w = vwGen v \<and>
    fmlookup (vwEntries w) a = (if a \<in> set us then Some None else fmlookup (vwEntries v) a))"
proof (induction us arbitrary: v)
  case (Cons u us)
  let ?v = "(removeEdgesLocked u v)\<lparr>vwEntries := fmupd u None (vwEntries v)\<rparr>"
  have "graph_ok ?v" using graph_removeEdges[OF Cons.prems] by (simp add: graph_ok_def)
  from Cons.IH[OF this] show ?case by (auto simp: Let_def)
qed simp

lemma invalidate:
  assumes "graph_ok v"
  shows "graph_ok (invalidate us v)" "vwGen (invalidate us v) = vwGen v + 1"
    "fmlookup (vwEntries (invalidate us v)) a = (if a \<in> set us then Some None else fmlookup (vwEntries v) a)"
  using fold_invalidate[OF assms, of us a] by (auto simp: invalidate_def Let_def graph_ok_def)

section \<open>The invariant of the interleavings\<close>

lemma sorted_distinct_adj: "sorted us \<Longrightarrow> distinct (remdups_adj us) \<and> sorted (remdups_adj us)"
  for us :: "'a::linorder list"
proof (induction us rule: remdups_adj.induct)
  case (3 x y us)
  then show ?case by (auto simp: le_less)
qed auto

lemma parse_start:
  assumes "parse_start resolve fs guard gen u = Some j"
  shows "jbUri j = u" "jbGen j = gen" "distinct (jbIncludes j)" "sorted (jbIncludes j)"
    "\<exists>c. fs u = Some c \<and> parse_file c = Some (jbParsed j)"
  using assms sorted_distinct_adj[OF sorted_sort]
  by (auto simp: parse_start_def resolveIncludes_def bind_eq_Some_conv)

definition current :: "store \<Rightarrow> uri \<Rightarrow> ParsedFile \<Rightarrow> bool" where
  "current s u pf \<longleftrightarrow> (\<exists>c. stFiles s u = Some c \<and> parse_file c = Some pf)"

definition store_ok :: "store \<Rightarrow> bool" where
  "store_ok s \<longleftrightarrow> graph_ok (stView s) \<and>
     (\<forall>u pf. parsed (stView s) u = Some pf \<longrightarrow> (\<exists>c. parse_file c = Some pf)) \<and>
     (\<forall>u pf. u \<notin> stDirty s \<longrightarrow> parsed (stView s) u = Some pf \<longrightarrow> current s u pf) \<and>
     (\<forall>j\<in>set (stJobs s). distinct (jbIncludes j) \<and> sorted (jbIncludes j) \<and> (\<exists>c. parse_file c = Some (jbParsed j)) \<and> jbGen j \<le> vwGen (stView s) \<and>
        (jbGen j = vwGen (stView s) \<longrightarrow> jbUri j \<notin> stDirty s \<longrightarrow> current s (jbUri j) (jbParsed j)))"

lemma parsed_update:
  "parsed (v\<lparr>vwEntries := fmupd u e m\<rparr>) a = (if a = u then e else case fmlookup m a of None \<Rightarrow> None | Some e \<Rightarrow> e)"
  by (simp add: parsed_def)

lemma store_ok_step:
  assumes "step resolve s s'" "store_ok s"
  shows "store_ok s'"
  using assms
proof (cases rule: step_cases)
  case (change u content)
  then show ?thesis using assms(2) by (auto simp: store_ok_def current_def)
next
  case (update uris)
  have g: "graph_ok (stView s)" using assms(2) by (simp add: store_ok_def)
  have "parsed (invalidate uris (stView s)) a = (if a \<in> set uris then None else parsed (stView s) a)" for a
    by (simp add: parsed_def invalidate(3)[OF g])
  then show ?thesis using assms(2) update invalidate(1,2)[OF g] by (fastforce simp: store_ok_def current_def)
next
  case (evict uris)
  have g: "graph_ok (stView s)" using assms(2) by (simp add: store_ok_def)
  have "parsed (Evict uris (stView s)) a = (if a \<in> set uris then None else parsed (stView s) a)" for a
    by (simp add: parsed_def Evict(3)[OF g])
  then show ?thesis using assms(2) evict Evict(1,2)[OF g] by (fastforce simp: store_ok_def current_def)
next
  case (start guard gen u j)
  note j = parse_start[OF start(2)]
  moreover have "jbGen j \<le> vwGen (stView s)" using j start(3) by simp
  ultimately show ?thesis using assms(2) start(1) by (auto simp: store_ok_def current_def)
next
  case (commit j)
  have g: "graph_ok (stView s)" and j: "distinct (jbIncludes j)" "sorted (jbIncludes j)" "\<exists>c. parse_file c = Some (jbParsed j)"
    "jbGen j = vwGen (stView s) \<longrightarrow> jbUri j \<notin> stDirty s \<longrightarrow> current s (jbUri j) (jbParsed j)"
    using assms(2) commit(2) by (auto simp: store_ok_def)
  have sub: "set (remove1 j (stJobs s)) \<subseteq> set (stJobs s)" by (rule set_remove1_subset)
  show ?thesis
  proof (cases "(jbGuard j = None \<or> jbGuard j = Some (jbGen j)) \<and> vwGen (stView s) = jbGen j")
    case True
    then have v: "stView s' = setEntry (jbUri j) (Some (jbParsed j)) (jbIncludes j) (stView s)"
      using commit(1) by (simp add: parse_commit_def)
    have "parsed (stView s') a = (if a = jbUri j then Some (jbParsed j) else parsed (stView s) a)" for a
      by (simp add: v parsed_def setEntry_simps[OF j(1)])
    moreover have "graph_ok (stView s')" unfolding v by (rule graph_setEntry[OF g j(1,2)])
    moreover have "vwGen (stView s') = vwGen (stView s)" by (simp add: v setEntry_simps[OF j(1)])
    ultimately show ?thesis using assms(2) commit(1) sub True j(3,4) by (auto simp: store_ok_def current_def)
  next
    case False
    then have "stView s' = stView s" using commit(1) by (auto simp: parse_commit_def)
    then show ?thesis using assms(2) commit(1) sub by (auto simp: store_ok_def current_def)
  qed
qed

lemma reachable_ok: "reachable resolve fs s \<Longrightarrow> store_ok s"
proof (induction rule: reachable.induct)
  case init
  then show ?case by (simp add: store_ok_def initial_def NewView_def graph_ok_def parsed_def)
next
  case (next_step s s')
  then show ?case using store_ok_step by blast
qed

section \<open>Dependents\<close>

lemma visit_all:
  "fold visit_dependent ds (queue, deps) = (queue', deps') \<Longrightarrow>
   \<exists>new. queue' = queue @ new \<and> deps' = deps @ new \<and> set deps' = set deps \<union> set ds \<and> (distinct deps \<longrightarrow> distinct deps')"
proof (induction ds arbitrary: queue deps)
  case (Cons d ds)
  show ?case
  proof (cases "d \<in> set deps")
    case True
    then show ?thesis using Cons.IH[of queue deps] Cons.prems by auto
  next
    case False
    then have "fold visit_dependent ds (queue @ [d], deps @ [d]) = (queue', deps')" using Cons.prems by simp
    from Cons.IH[OF this] obtain new where "queue' = (queue @ [d]) @ new" "deps' = (deps @ [d]) @ new"
      "set deps' = set (deps @ [d]) \<union> set ds" "distinct (deps @ [d]) \<longrightarrow> distinct deps'" by blast
    then show ?thesis using False by (intro exI[of _ "d # new"]) simp
  qed
qed simp

definition arcs :: "(uri, uri list) fmap \<Rightarrow> (uri \<times> uri) set" where
  "arcs m = {(a, b). b \<in> set (edges m a)}"

lemma dependents_loop:
  "distinct deps \<Longrightarrow> set deps \<subseteq> {b. (f, b) \<in> (arcs m)\<^sup>+} \<Longrightarrow> set queue \<subseteq> insert f (set deps) \<Longrightarrow>
   (\<forall>a\<in>insert f (set deps) - set queue. set (edges m a) \<subseteq> set deps) \<Longrightarrow>
   distinct (dependents_loop m queue deps) \<and> set (dependents_loop m queue deps) = {b. (f, b) \<in> (arcs m)\<^sup>+}"
proof (induction m queue deps rule: dependents_loop.induct)
  case (1 m queue deps)
  show ?case
  proof (cases queue)
    case Nil
    have "b \<in> set deps" if "(f, b) \<in> (arcs m)\<^sup>+" for b
      using that
    proof (induction rule: trancl_induct)
      case (base y)
      then show ?case using "1.prems"(4) Nil by (auto simp: arcs_def)
    next
      case (step y z)
      then show ?case using "1.prems"(4) Nil by (auto simp: arcs_def)
    qed
    then show ?thesis using "1.prems"(1,2) Nil by (auto simp: dependents_loop.simps[of m "[]"])
  next
    case (Cons u rest)
    obtain queue' deps' where fold: "fold visit_dependent (edges m u) (rest, deps) = (queue', deps')" by fastforce
    from visit_all[OF fold] obtain new where new: "queue' = rest @ new" "deps' = deps @ new"
      "set deps' = set deps \<union> set (edges m u)" "distinct deps'" using "1.prems"(1) by auto
    have u: "u = f \<or> (f, u) \<in> (arcs m)\<^sup>+" using "1.prems"(2,3) Cons by auto
    have "(f, b) \<in> (arcs m)\<^sup>+" if "b \<in> set (edges m u)" for b
    proof -
      have "(u, b) \<in> arcs m" using that by (simp add: arcs_def)
      then show ?thesis using u by (auto intro: trancl_into_trancl)
    qed
    then have reach: "set deps' \<subseteq> {b. (f, b) \<in> (arcs m)\<^sup>+}" using new(3) "1.prems"(2) by auto
    have queue: "set queue' \<subseteq> insert f (set deps')" using new "1.prems"(3) Cons by auto
    have closed: "\<forall>a\<in>insert f (set deps') - set queue'. set (edges m a) \<subseteq> set deps'"
    proof
      fix a assume a: "a \<in> insert f (set deps') - set queue'"
      then have "a \<in> insert f (set deps)" "a \<notin> set rest" using new by auto
      then show "set (edges m a) \<subseteq> set deps'" using "1.prems"(4) new(3) Cons by (cases "a = u") auto
    qed
    have "dependents_loop m queue deps = dependents_loop m queue' deps'"
      by (simp add: dependents_loop.simps[of m "u # rest"] Cons fold)
    then show ?thesis using "1.IH"[OF Cons refl fold[symmetric] new(4) reach queue closed] by simp
  qed
qed

lemma Dependents_set: "set (Dependents v f) = {b. (f, b) \<in> (arcs (vwIncluders v))\<^sup>+} \<and> distinct (Dependents v f) \<and> sorted (Dependents v f)"
  using dependents_loop[of "[]" f "vwIncluders v" "[f]"] by (simp add: Dependents_def)

text \<open>The include relation of a view.\<close>

definition include_rel :: "View \<Rightarrow> (uri \<times> uri) set" where
  "include_rel v = {(a, b). b \<in> set (view_Includes v a)}"

lemma arcs_include_rel: "graph_ok v \<Longrightarrow> arcs (vwIncluders v) = (include_rel v)\<inverse>"
  by (auto simp: arcs_def include_rel_def view_Includes_def graph_ok_def)

section \<open>Updates\<close>

lemma parse_file_total: "\<exists>pf. parse_file c = Some pf"
  by (rule Parse_cases[of c]) (auto simp: parse_file_def)

lemma View_Parse:
  assumes "graph_ok v" "View_Parse resolve fs None u v = (r, v')"
  shows "graph_ok v'" "vwGen v' = vwGen v" "a \<noteq> u \<Longrightarrow> fmlookup (vwEntries v') a = fmlookup (vwEntries v) a"
    "parsed v u = None \<Longrightarrow> fs u = Some c \<Longrightarrow> parsed v' u = parse_file c"
    "fmlookup (vwEntries v) u \<noteq> None \<Longrightarrow> fmlookup (vwEntries v') u \<noteq> None"
    "parsed v u \<noteq> None \<Longrightarrow> v' = v"
proof -
  have "graph_ok v' \<and> vwGen v' = vwGen v \<and> (a \<noteq> u \<longrightarrow> fmlookup (vwEntries v') a = fmlookup (vwEntries v) a) \<and>
    (parsed v u = None \<longrightarrow> fs u = Some c \<longrightarrow> parsed v' u = parse_file c) \<and>
    (fmlookup (vwEntries v) u \<noteq> None \<longrightarrow> fmlookup (vwEntries v') u \<noteq> None) \<and> (parsed v u \<noteq> None \<longrightarrow> v' = v)"
  proof (cases "parsed v u")
    case (Some pf)
    then have "v' = v" using assms(2) by (simp add: View_Parse_def)
    then show ?thesis using Some assms(1) by simp
  next
    case None
    show ?thesis
    proof (cases "parse_start resolve fs None (vwGen v) u")
      case none: None
      obtain pf where "parse_file c = Some pf" using parse_file_total by blast
      then have "fs u \<noteq> Some c" using none by (auto simp: parse_start_def)
      then show ?thesis using assms None none by (simp add: View_Parse_def)
    next
      case (Some j)
      note j = parse_start[OF Some]
      have g: "jbGuard j = None" using Some by (auto simp: parse_start_def bind_eq_Some_conv)
      have v': "v' = setEntry u (Some (jbParsed j)) (jbIncludes j) v"
        using assms(2) None Some j g by (auto simp: View_Parse_def parse_commit_def)
      show ?thesis using j graph_setEntry[OF assms(1) j(3,4)] None
        by (auto simp: v' setEntry_simps[OF j(3)] parsed_def)
    qed
  qed
  then show "graph_ok v'" "vwGen v' = vwGen v" "a \<noteq> u \<Longrightarrow> fmlookup (vwEntries v') a = fmlookup (vwEntries v) a"
    "parsed v u = None \<Longrightarrow> fs u = Some c \<Longrightarrow> parsed v' u = parse_file c"
    "fmlookup (vwEntries v) u \<noteq> None \<Longrightarrow> fmlookup (vwEntries v') u \<noteq> None"
    "parsed v u \<noteq> None \<Longrightarrow> v' = v" by blast+
qed

lemma fold_parse:
  assumes "graph_ok v" "distinct us"
  shows "graph_ok (fold (\<lambda>u v. snd (View_Parse resolve fs None u v)) us v) \<and>
    vwGen (fold (\<lambda>u v. snd (View_Parse resolve fs None u v)) us v) = vwGen v \<and>
    (a \<notin> set us \<longrightarrow> fmlookup (vwEntries (fold (\<lambda>u v. snd (View_Parse resolve fs None u v)) us v)) a = fmlookup (vwEntries v) a) \<and>
    (a \<in> set us \<longrightarrow> parsed v a = None \<longrightarrow> fs a = Some c \<longrightarrow>
     parsed (fold (\<lambda>u v. snd (View_Parse resolve fs None u v)) us v) a = parse_file c)"
  using assms
proof (induction us arbitrary: v)
  case (Cons u us)
  obtain r v' where v': "View_Parse resolve fs None u v = (r, v')" by fastforce
  note vp = View_Parse[OF Cons.prems(1) v']
  have "distinct us" using Cons.prems(2) by simp
  note IH = Cons.IH[OF vp(1) this]
  show ?case
  proof (cases "a = u")
    case True
    then have "a \<notin> set us" using Cons.prems(2) by simp
    then show ?thesis using IH vp(2) vp(4)[of c] True v' by (simp add: parsed_def)
  next
    case False
    then have "parsed v' a = parsed v a" using vp(3)[of a] by (simp add: parsed_def)
    then show ?thesis using IH vp(2) vp(3)[of a] False v' by simp
  qed
qed simp

lemma fold_affected:
  "set (fold (\<lambda>dep aff. if dep \<in> set aff then aff else aff @ [dep]) ds aff) = set aff \<union> set ds \<and>
   (\<exists>new. fold (\<lambda>dep aff. if dep \<in> set aff then aff else aff @ [dep]) ds aff = aff @ new)"
proof (induction ds arbitrary: aff)
  case (Cons d ds)
  show ?case using Cons[of "if d \<in> set aff then aff else aff @ [d]"] by auto
qed simp

lemma affected_set: "set (affected v us) = set us \<union> (\<Union>u\<in>set us. set (Dependents v u)) \<and> (\<exists>new. affected v us = us @ new)"
proof -
  let ?f = "\<lambda>u. fold (\<lambda>dep aff. if dep \<in> set aff then aff else aff @ [dep]) (Dependents v u)"
  have "set (fold ?f ws aff) = set aff \<union> (\<Union>u\<in>set ws. set (Dependents v u)) \<and> (\<exists>new. fold ?f ws aff = aff @ new)" for ws aff
  proof (induction ws arbitrary: aff)
    case (Cons w ws)
    show ?case using Cons[of "?f w aff"] fold_affected[of "Dependents v w" aff] by auto
  qed simp
  then show ?thesis unfolding affected_def .
qed

section \<open>Tokens\<close>

text \<open>The names of a tree: identifiers, and constants that are identifiers.\<close>

definition token_names :: "Document \<Rightarrow> bytes set" where
  "token_names ast = {idText i |i. A_Node (N_Identifier i) \<in> set (preorder (A_Document ast))} \<union>
     {cvText c |c. A_Node (N_ConstValue c) \<in> set (preorder (A_Document ast)) \<and> cvKind c = ValueIdent}"

lemma fold_collect_token:
  "fold collect_token ns tokens = tokens \<union> {idText i |i. A_Node (N_Identifier i) \<in> set ns} \<union>
     {cvText c |c. A_Node (N_ConstValue c) \<in> set ns \<and> cvKind c = ValueIdent}"
proof (induction ns arbitrary: tokens)
  case (Cons n ns)
  show ?case unfolding fold.simps comp_def Cons
    by (cases n; (rename_tac m; case_tac m)?) (auto simp: collect_token_def)
qed simp

lemma Tokens:
  assumes "parse_file c = Some pf"
  shows "Tokens pf = Some (token_names (pfAst pf))"
proof -
  from assms obtain errs where "Parse c = Some (pfAst pf, errs)" by (auto simp: parse_file_def)
  then have "any_ok (docTokens (pfAst pf)) (A_Document (pfAst pf))" using Parse_any_ok[of c] by simp
  from Walk_fold[OF this, of collect_token "{}"] show ?thesis
    by (simp add: Tokens_def collectTokens_def fold_collect_token token_names_def)
qed

definition file_names :: "View \<Rightarrow> uri \<Rightarrow> bytes set" where
  "file_names v u = (case parsed v u of None \<Rightarrow> {} | Some pf \<Rightarrow> token_names (pfAst pf))"

lemma collect_files:
  "(\<And>u pf. parsed v u = Some pf \<Longrightarrow> \<exists>c. parse_file c = Some pf) \<Longrightarrow>
   visited \<union> set stack \<subseteq> {g. (f, g) \<in> (include_rel v)\<^sup>*} \<Longrightarrow> f \<in> visited \<union> set stack \<Longrightarrow>
   (\<forall>g\<in>visited. set (view_Includes v g) \<subseteq> visited \<union> set stack) \<Longrightarrow> tokens = (\<Union>g\<in>visited. file_names v g) \<Longrightarrow>
   collect_files v stack visited tokens = Some (\<Union>g\<in>{g. (f, g) \<in> (include_rel v)\<^sup>*}. file_names v g)"
proof (induction v stack visited tokens rule: collect_files.induct)
  case (1 v visited tokens)
  have "g \<in> visited" if "(f, g) \<in> (include_rel v)\<^sup>*" for g
    using that
  proof (induction rule: rtrancl_induct)
    case base
    then show ?case using 1(3) by simp
  next
    case (step y z)
    then show ?case using 1(4) by (auto simp: include_rel_def)
  qed
  then have "visited = {g. (f, g) \<in> (include_rel v)\<^sup>*}" using 1(2) by auto
  then show ?case using 1(5) by simp
next
  case (2 v g stack visited tokens)
  show ?case
  proof (cases "g \<in> visited")
    case True
    then show ?thesis using "2.IH"(1) "2.prems" by auto
  next
    case False
    have names: "(case parsed v g of None \<Rightarrow> Some {} | Some pf \<Rightarrow> Tokens pf) = Some (file_names v g)"
      using "2.prems"(1)[of g] Tokens by (auto simp: file_names_def split: option.splits)
    have "(f, g) \<in> (include_rel v)\<^sup>*" using "2.prems"(2) by auto
    then have "set (view_Includes v g) \<subseteq> {g. (f, g) \<in> (include_rel v)\<^sup>*}"
      by (auto simp: include_rel_def intro: rtrancl_into_rtrancl)
    moreover have "\<forall>h\<in>insert g visited. set (view_Includes v h) \<subseteq> insert g visited \<union> set (view_Includes v g @ stack)"
      using "2.prems"(4) by auto
    moreover have "tokens \<union> file_names v g = (\<Union>h\<in>insert g visited. file_names v h)" using "2.prems"(5) by auto
    ultimately show ?thesis using "2.IH"(2)[OF False names "2.prems"(1)] "2.prems"(2,3) False names by auto
  qed
qed

section \<open>Evictions\<close>

lemma evicted_file:
  assumes "graph_ok v" "f \<in> set us"
  shows "fmlookup (vwEntries (Evict us v)) f = None \<and> incs (Evict us v) f = [] \<and> refs (Evict us v) f = []"
proof -
  have "incs (fold evict_file ws v) f = [] \<and> refs (fold evict_file ws v) f = []"
    if "graph_ok v" "f \<in> set ws \<or> incs v f = [] \<and> refs v f = []" for ws v
    using that
  proof (induction ws arbitrary: v)
    case (Cons w ws)
    note e = evict_file[OF Cons.prems(1), of w]
    have "refs (evict_file w v) f = []" if "refs v f = []"
    proof -
      have "f \<notin> set (incs (evict_file w v) a)" for a
        using Cons.prems(1) that e(4)[of a] by (auto simp: graph_ok_def)
      then show ?thesis using e(1) by (metis graph_ok_def list.set_intros(1) neq_Nil_conv)
    qed
    then have "f \<in> set ws \<or> incs (evict_file w v) f = [] \<and> refs (evict_file w v) f = []"
      using Cons.prems(2) e(4)[of f] e(5) by auto
    from Cons.IH[OF e(1) this] show ?case by simp
  qed simp
  then show ?thesis using assms fold_evict[OF assms(1), of "remdups_adj (sort us)" f]
    by (simp add: Evict_def Let_def)
qed

lemma incs_parse:
  assumes "graph_ok v" "a \<noteq> u"
  shows "incs (snd (View_Parse resolve fs None u v)) a = incs v a"
  using assms parse_start(1,3)[of resolve fs None "vwGen v" u]
  by (auto simp: View_Parse_def parse_commit_def incs_setEntry split: option.splits)

text \<open>
  What an eviction loses: a file that stays cached no longer has the evicted file among
  its includes, although its tree still includes it, and a later update of the evicted
  file, as when it is opened again, does not bring the edge back.
\<close>

lemma Evict_loses_edges:
  assumes "graph_ok v" "parsed v a = Some pf" "a \<noteq> b" "Update resolve fs None [b] (Evict [b] v) = (result, w)"
  shows "parsed w a = Some pf \<and> view_Includes w a = removeAll b (view_Includes v a) \<and> a \<notin> set (Includers w b)"
proof -
  let ?e = "Evict [b] v" and ?i = "invalidate [b] (Evict [b] v)"
  note e = Evict[OF assms(1), of "[b]"]
  note i = invalidate[OF e(1), of "[b]"]
  have w: "w = snd (View_Parse resolve fs None b ?i)" using assms(4) by (auto simp: Update_def Let_def)
  have "incs ?e a = removeAll b (incs v a)" using evict_file(4)[OF assms(1), of b a] assms(3) by (simp add: Evict_def Let_def)
  moreover have "incs ?i a = incs ?e a"
    using removeEdges(1)[OF e(1), of b a] assms(3) by (simp add: invalidate_def Let_def)
  moreover have "incs w a = incs ?i a" unfolding w by (rule incs_parse[OF i(1) assms(3)])
  ultimately have inc: "incs w a = removeAll b (incs v a)" by simp
  obtain r v' where v': "View_Parse resolve fs None b ?i = (r, v')" by fastforce
  note vp = View_Parse[OF i(1) v']
  have "parsed w a = parsed v a" using vp(3)[OF assms(3)] v' i(3)[of a] e(3)[of a] assms(3) by (simp add: w parsed_def)
  moreover have "a \<notin> set (refs w b)" using graph_edge[OF vp(1)] inc v' by (simp add: w)
  ultimately show ?thesis using inc assms(2) by (simp add: view_Includes_def Includers_def)
qed

section \<open>A concrete store\<close>

text \<open>A file that includes another, which is empty; a path resolves to itself.\<close>

definition demo_content :: bytes where
  "demo_content = ''include '' @ [DQUOTE] @ ''b'' @ [DQUOTE]"

definition demo_files :: files where
  "demo_files = [''a'' \<mapsto> demo_content, ''b'' \<mapsto> []]"

definition demo_resolve :: resolver where
  "demo_resolve = (\<lambda>fs u path. path)"

lemma demo_includes: "map_option (resolveIncludes (\<lambda>path. path) \<circ> fst) (Parse demo_content) = Some [''b'']"
  by code_simp

lemma demo_job:
  obtains j where "parse_start demo_resolve demo_files None 0 ''a'' = Some j" "jbUri j = ''a''" "jbGuard j = None"
    "jbGen j = 0" "jbIncludes j = [''b'']" "parse_file demo_content = Some (jbParsed j)"
proof -
  from demo_includes obtain ast errs where p: "Parse demo_content = Some (ast, errs)"
    "resolveIncludes (\<lambda>path. path) ast = [''b'']" by auto
  show ?thesis
    by (rule that[of "\<lparr>jbUri = ''a'', jbGuard = None, jbGen = 0,
        jbParsed = \<lparr>pfContent = demo_content, pfAst = ast, pfErrs = errs\<rparr>, jbIncludes = [''b'']\<rparr>"])
      (simp_all add: parse_start_def parse_file_def demo_files_def demo_resolve_def p)
qed

text \<open>The first file is parsed and cached.\<close>

lemma demo_store:
  obtains s pf where "reachable demo_resolve demo_files s" "view_Includes (stView s) ''a'' = [''b'']"
    "Includers (stView s) ''b'' = [''a'']" "parsed (stView s) ''a'' = Some pf" "parse_file demo_content = Some pf"
    "stDirty s = {}" "stFiles s = demo_files" "stView s = setEntry ''a'' (Some pf) [''b''] NewView"
proof -
  obtain j where j: "parse_start demo_resolve demo_files None 0 ''a'' = Some j" "jbUri j = ''a''" "jbGuard j = None"
    "jbGen j = 0" "jbIncludes j = [''b'']" "parse_file demo_content = Some (jbParsed j)" by (rule demo_job)
  let ?s1 = "(initial demo_files)\<lparr>stJobs := [j]\<rparr>" and ?v = "setEntry ''a'' (Some (jbParsed j)) [''b''] NewView"
  let ?s2 = "?s1\<lparr>stView := ?v, stJobs := []\<rparr>"
  have "step demo_resolve (initial demo_files) ?s1"
    using step.start[of demo_resolve "initial demo_files" None 0 "''a''" j] j(1) by (simp add: initial_def NewView_def)
  then have r1: "reachable demo_resolve demo_files ?s1" using reachable.intros by blast
  have "step demo_resolve ?s1 ?s2"
    using step.commit[of j ?s1 demo_resolve] j by (simp add: initial_def NewView_def parse_commit_def)
  then have "reachable demo_resolve demo_files ?s2" using r1 reachable.intros by blast
  moreover have "graph_ok NewView" by (simp add: NewView_def graph_ok_def)
  from incs_setEntry[OF this, of "[''b'']"] have "incs ?v ''a'' = [''b'']" by simp
  moreover have "refs ?v ''b'' = [''a'']"
    by (simp add: setEntry_def add_edge_def removeEdgesLocked_def NewView_def edges_def)
  moreover have "parsed ?v ''a'' = Some (jbParsed j)" by (simp add: parsed_def setEntry_simps)
  ultimately show ?thesis
    using that[of ?s2 "jbParsed j"] j(6) by (simp add: view_Includes_def Includers_def initial_def)
qed

section \<open>Properties of the store\<close>

text \<open>
  C34: in every state that changes of files, updates, evictions and parses that start
  and commit at any time can reach, the two edge maps of a view are inverse to each
  other: a file includes another exactly if it is one of its includers. The lists
  that \<open>Includes\<close> and \<open>Includers\<close> return are sorted and have no duplicates.
\<close>

theorem store_graph:
  assumes "reachable resolve fs s"
  shows "(b \<in> set (view_Includes (stView s) a) \<longleftrightarrow> a \<in> set (Includers (stView s) b)) \<and>
    sorted (view_Includes (stView s) a) \<and> distinct (view_Includes (stView s) a) \<and>
    sorted (Includers (stView s) b) \<and> distinct (Includers (stView s) b)"
  using reachable_ok[OF assms] by (auto simp: store_ok_def graph_ok_def view_Includes_def Includers_def)

theorem store_graph_witness:
  "\<exists>s :: store. ''b'' \<in> set (view_Includes (stView s) ''a'') \<and> ''a'' \<in> set (Includers (stView s) ''b'')"
proof -
  obtain s where s: "reachable demo_resolve demo_files s" "view_Includes (stView s) ''a'' = [''b'']"
    by (rule demo_store)
  show ?thesis using store_graph[OF s(1), of "''b''" "''a''"] s(2) by (intro exI[of _ s]) simp
qed

text \<open>
  C33: no stale parse is cached. Whatever the interleaving, a cached parse of a file is
  the parse of the content the file has now, unless the file has changed since the
  last update that named it. A parse that read the file before a change and commits
  after the update is dropped, since the generation has advanced.
\<close>

theorem store_fresh:
  assumes "reachable resolve fs s" and "parsed (stView s) u = Some pf" and "u \<notin> stDirty s"
  shows "\<exists>c. stFiles s u = Some c \<and> parse_file c = Some pf"
  using reachable_ok[OF assms(1)] assms(2,3) by (auto simp: store_ok_def current_def)

theorem store_fresh_witness:
  "\<exists>(s :: store) pf. parsed (stView s) ''a'' = Some pf \<and> ''a'' \<notin> stDirty s \<and>
     (\<exists>content. stFiles s ''a'' = Some content \<and> parse_file content = Some pf)"
proof -
  obtain s pf where s: "reachable demo_resolve demo_files s" "parsed (stView s) ''a'' = Some pf" "stDirty s = {}"
    by (rule demo_store)
  have "''a'' \<notin> stDirty s" using s(3) by simp
  from store_fresh[OF s(1) s(2) this] s this show ?thesis by blast
qed

text \<open>
  C35: \<open>Dependents\<close> ends on every graph, cyclic ones included, and returns the files
  that include the file directly or transitively, sorted and without duplicates.
\<close>

theorem Dependents_transitive:
  assumes "reachable resolve fs s"
  shows "set (Dependents (stView s) f) = {d. (d, f) \<in> (include_rel (stView s))\<^sup>+} \<and>
    sorted (Dependents (stView s) f) \<and> distinct (Dependents (stView s) f)"
proof -
  have "graph_ok (stView s)" using reachable_ok[OF assms] by (simp add: store_ok_def)
  then have "(f, b) \<in> (arcs (vwIncluders (stView s)))\<^sup>+ \<longleftrightarrow> (b, f) \<in> (include_rel (stView s))\<^sup>+" for b
    by (simp add: arcs_include_rel trancl_converse)
  then show ?thesis using Dependents_set[of "stView s" f] by simp
qed

theorem Dependents_transitive_witness:
  "\<exists>s :: store. ''a'' \<in> set (Dependents (stView s) ''b'') \<and> sorted (Dependents (stView s) ''b'')"
proof -
  obtain s where s: "reachable demo_resolve demo_files s" "view_Includes (stView s) ''a'' = [''b'']"
    by (rule demo_store)
  then have "(''a'', ''b'') \<in> (include_rel (stView s))\<^sup>+" by (auto simp: include_rel_def view_Includes_def)
  then show ?thesis using Dependents_transitive[OF s(1), of "''b''"] by blast
qed

text \<open>
  C36: \<open>Update\<close> on a store in any reachable state advances the generation by one, caches
  the parse of every changed file that can be read, and reports the changed files in
  order followed by exactly their transitive includers in the graph after the change.
\<close>

theorem Update_affected:
  assumes "reachable resolve fs0 s" and "Update resolve fs None changes (stView s) = ((generation, aff), v)"
  shows "generation = vwGen (stView s) + 1 \<and> vwGen v = generation \<and>
    (\<forall>u c. u \<in> set changes \<longrightarrow> fs u = Some c \<longrightarrow> parsed v u = parse_file c) \<and>
    (\<exists>deps. aff = remdups_adj (sort changes) @ deps \<and>
       set aff = set changes \<union> {d. \<exists>u\<in>set changes. (d, u) \<in> (include_rel v)\<^sup>+})"
proof -
  let ?us = "remdups_adj (sort changes)" and ?w = "invalidate (remdups_adj (sort changes)) (stView s)"
  have g: "graph_ok (stView s)" using reachable_ok[OF assms(1)] by (simp add: store_ok_def)
  note inv = invalidate[OF g, of ?us]
  have dist: "distinct ?us" using sorted_distinct_adj[OF sorted_sort] by blast
  note fp = fold_parse[OF inv(1) dist, of resolve fs]
  have v: "v = fold (\<lambda>u v. snd (View_Parse resolve fs None u v)) ?us ?w" "generation = vwGen ?w" "aff = affected v ?us"
    using assms(2) by (auto simp: Update_def Let_def)
  have gv: "graph_ok v" using fp unfolding v by blast
  have "parsed v u = parse_file c" if "u \<in> set changes" "fs u = Some c" for u c
    using fp[of u c] inv(3)[of u] that unfolding v(1) by (auto simp: parsed_def)
  moreover have "(u, b) \<in> (arcs (vwIncluders v))\<^sup>+ \<longleftrightarrow> (b, u) \<in> (include_rel v)\<^sup>+" for u b
    using gv by (simp add: arcs_include_rel trancl_converse)
  then have "set (Dependents v u) = {d. (d, u) \<in> (include_rel v)\<^sup>+}" for u using Dependents_set[of v u] by simp
  then have "\<exists>deps. aff = ?us @ deps \<and> set aff = set changes \<union> {d. \<exists>u\<in>set changes. (d, u) \<in> (include_rel v)\<^sup>+}"
    using affected_set[of v ?us] unfolding v(3) by auto
  moreover have "vwGen v = generation" using fp unfolding v(1,2) by blast
  ultimately show ?thesis using inv(2) v(2) by simp
qed

theorem Update_affected_witness:
  "\<exists>(s :: store) generation aff v. Update demo_resolve demo_files None [''b''] (stView s) = ((generation, aff), v) \<and>
     generation = vwGen (stView s) + 1 \<and> parsed v ''b'' = parse_file [] \<and> ''b'' \<in> set aff"
proof -
  obtain s where s: "reachable demo_resolve demo_files s" by (rule demo_store)
  obtain generation aff v where u: "Update demo_resolve demo_files None [''b''] (stView s) = ((generation, aff), v)"
    by (metis surj_pair)
  from Update_affected[OF s u] u show ?thesis by (intro exI[of _ s]) (auto simp: demo_files_def)
qed

text \<open>
  \<open>TokensForFile\<close> terminates on every include graph, cyclic ones included, and
  returns exactly the names of the cached trees of the file and of the files that it
  includes directly or transitively.
\<close>

theorem TokensForFile_transitive:
  assumes "reachable resolve fs s"
  shows "TokensForFile (stView s) f = Some (\<Union>g\<in>{g. (f, g) \<in> (include_rel (stView s))\<^sup>*}. file_names (stView s) g)"
  using reachable_ok[OF assms] unfolding TokensForFile_def
  by (intro collect_files) (auto simp: store_ok_def)

theorem TokensForFile_transitive_witness:
  "\<exists>(s :: store) pf names. parsed (stView s) ''a'' = Some pf \<and> TokensForFile (stView s) ''a'' = Some names \<and>
     token_names (pfAst pf) \<subseteq> names"
proof -
  obtain s pf where s: "reachable demo_resolve demo_files s" "parsed (stView s) ''a'' = Some pf" by (rule demo_store)
  from TokensForFile_transitive[OF s(1), of "''a''"] s(2) show ?thesis
    by (intro exI[of _ s] exI[of _ pf]) (force simp: file_names_def)
qed

text \<open>
  \<open>Evict\<close> leaves no trace of the files it removes: they are no longer known, have no
  cached parse and occur in no list of includes or includers; other entries stay.
\<close>

theorem Evict_forgets:
  assumes "reachable resolve fs s" and "v = Evict us (stView s)" and "f \<in> set us"
  shows "\<not> FileKnown v f \<and> parsed v f = None \<and> Dependents v f = [] \<and>
    (\<forall>a. f \<notin> set (view_Includes v a) \<and> f \<notin> set (Includers v a)) \<and>
    (\<forall>a. a \<notin> set us \<longrightarrow> parsed v a = parsed (stView s) a)"
proof -
  have g: "graph_ok (stView s)" using reachable_ok[OF assms(1)] by (simp add: store_ok_def)
  note e = Evict[OF g, of us] and f = evicted_file[OF g assms(3)]
  have "\<forall>a. f \<notin> set (incs v a) \<and> f \<notin> set (refs v a)" using graph_edge[OF e(1)] f by (metis assms(2) empty_iff list.set(1))
  moreover have "fold visit_dependent (refs v f) ([], []) = ([], [])" using f assms(2) by simp
  then have "Dependents v f = []" by (simp add: Dependents_def dependents_loop.simps[of _ "[f]"] dependents_loop.simps[of _ "[]"])
  ultimately show ?thesis using f e(3)
    by (auto simp: assms(2) FileKnown_def parsed_def view_Includes_def Includers_def)
qed

theorem Evict_forgets_witness:
  "\<exists>(s :: store). ''b'' \<in> set (view_Includes (stView s) ''a'') \<and> ''b'' \<notin> set (view_Includes (Evict [''b''] (stView s)) ''a'')"
proof -
  obtain s where s: "reachable demo_resolve demo_files s" "view_Includes (stView s) ''a'' = [''b'']" by (rule demo_store)
  from Evict_forgets[OF s(1) refl, of "''b''" "[''b'']"] s(2) show ?thesis by (intro exI[of _ s]) simp
qed

end
