(* ===== verification/FileIndex.thy ===== *)
theory FileIndex imports View
begin

text \<open>
  The semantic index of a file, \<open>store/index.go\<close>: the definitions, enum values, name
  references and annotation names that one walk over the tree extracts. The methods of
  \<open>indexWalker\<close> become functions on the index; a dereference of a nil name is \<open>None\<close>.
\<close>

section \<open>Data\<close>

datatype RefKind = RefFieldType | RefSignatureType | RefConstValue | RefServiceExtends | RefAnnotationType

record Reference =
  rfKind :: RefKind
  rfName :: bytes
  rfNode :: Node

record FileIndex =
  ixDefs :: "bytes \<rightharpoonup> Node"
  ixEnumValues :: "bytes \<rightharpoonup> Identifier"
  ixRefs :: "Reference list"
  ixAnnotations :: "bytes set"

definition emptyIndex :: FileIndex where
  "emptyIndex = \<lparr>ixDefs = Map.empty, ixEnumValues = Map.empty, ixRefs = [], ixAnnotations = {}\<rparr>"

definition add_ref :: "RefKind \<Rightarrow> bytes \<Rightarrow> Node \<Rightarrow> FileIndex \<Rightarrow> FileIndex" where
  "add_ref rk name n x = x\<lparr>ixRefs := ixRefs x @ [\<lparr>rfKind = rk, rfName = name, rfNode = n\<rparr>]\<rparr>"

section \<open>The walk\<close>

definition index_structured :: "StructuredAnnotation list \<Rightarrow> FileIndex \<Rightarrow> FileIndex" where
  "index_structured annos =
     fold (\<lambda>sa x. case saName sa of None \<Rightarrow> x | Some i \<Rightarrow> add_ref RefAnnotationType (idText i) (N_Identifier i) x) annos"

definition index_note :: "Annotations option \<Rightarrow> FileIndex \<Rightarrow> FileIndex option" where
  "index_note a x =
     (case a of
        None \<Rightarrow> Some x
      | Some g \<Rightarrow> fold_option (\<lambda>item x. case anName item of None \<Rightarrow> None
          | Some i \<Rightarrow> Some (x\<lparr>ixAnnotations := insert (idText i) (ixAnnotations x)\<rparr>)) (asItems g) x)"

fun index_typ :: "RefKind \<Rightarrow> FieldType \<Rightarrow> FileIndex \<Rightarrow> FileIndex option" where
  "index_typ rk (FieldType b k t i key val cpp an) x =
     (case index_note an x of
        None \<Rightarrow> None
      | Some x \<Rightarrow>
          (let x = (case i of None \<Rightarrow> x | Some ident \<Rightarrow>
             if k = TypeIdent then add_ref rk (idText ident) (N_Identifier ident) x else x) in
           case (case key of None \<Rightarrow> Some x | Some ty \<Rightarrow> index_typ rk ty x) of
             None \<Rightarrow> None
           | Some x \<Rightarrow> (case val of None \<Rightarrow> Some x | Some ty \<Rightarrow> index_typ rk ty x)))"

definition index_type :: "RefKind \<Rightarrow> FieldType option \<Rightarrow> FileIndex \<Rightarrow> FileIndex option" where
  "index_type rk ft x = (case ft of None \<Rightarrow> Some x | Some ty \<Rightarrow> index_typ rk ty x)"

definition is_value_ref :: "ConstValue \<Rightarrow> bool" where
  "is_value_ref v \<longleftrightarrow> cvKind v = ValueIdent \<and> cvText v \<noteq> ''true'' \<and> cvText v \<noteq> ''false''"

function index_val :: "ConstValue \<Rightarrow> FileIndex \<Rightarrow> FileIndex" where
  "index_val v x =
     (let x = (if is_value_ref v then add_ref RefConstValue (cvText v) (N_ConstValue v) x else x);
          x = fold index_val (cvList v) x in
      fold (\<lambda>entry x. index_val (cmValue entry) (index_val (cmKey entry) x)) (cvMap v) x)"
  by pat_completeness auto
termination
  by (relation "measure (\<lambda>(v, x). size v)") (auto simp: value_size)

declare index_val.simps [simp del]

definition index_value :: "ConstValue option \<Rightarrow> FileIndex \<Rightarrow> FileIndex" where
  "index_value v x = (case v of None \<Rightarrow> x | Some c \<Rightarrow> index_val c x)"

definition index_field :: "RefKind \<Rightarrow> Field \<Rightarrow> FileIndex \<Rightarrow> FileIndex option" where
  "index_field rk f x = do {
     x \<leftarrow> index_note (fiAnnotations f) (index_structured (fiStructured f) x);
     x \<leftarrow> index_type rk (fiType f) x;
     Some (index_value (fiValue f) x) }"

definition index_define :: "Identifier option \<Rightarrow> Node \<Rightarrow> FileIndex \<Rightarrow> FileIndex option" where
  "index_define name n x = (case name of None \<Rightarrow> None | Some i \<Rightarrow> Some (x\<lparr>ixDefs := (ixDefs x)(idText i \<mapsto> n)\<rparr>))"

definition index_member :: "EnumValue \<Rightarrow> FileIndex \<Rightarrow> FileIndex option" where
  "index_member ev x =
     (case evName ev of
        None \<Rightarrow> None
      | Some i \<Rightarrow> index_note (evAnnotations ev) (x\<lparr>ixEnumValues := (ixEnumValues x)(idText i \<mapsto> i)\<rparr>))"

definition index_function :: "Function \<Rightarrow> FileIndex \<Rightarrow> FileIndex option" where
  "index_function fnx x = do {
     x \<leftarrow> index_note (fnAnnotations fnx) (index_structured (fnStructured fnx) x);
     x \<leftarrow> index_type RefSignatureType (fnType fnx) x;
     x \<leftarrow> fold_option (index_field RefSignatureType) (fnArgs fnx) x;
     (case fnThrows fnx of None \<Rightarrow> Some x | Some t \<Rightarrow> fold_option (index_field RefSignatureType) (thFields t) x) }"

text \<open>\<open>visit\<close>; the last case is the panic of the source.\<close>

fun index_visit :: "Node \<Rightarrow> FileIndex \<Rightarrow> FileIndex option" where
  "index_visit (N_Struct v) x = do {
     x \<leftarrow> index_define (stName v) (N_Struct v) x;
     x \<leftarrow> index_note (stAnnotations v) (index_structured (stStructured v) x);
     fold_option (index_field RefFieldType) (stFields v) x }"
| "index_visit (N_Enum v) x = do {
     x \<leftarrow> index_define (enName v) (N_Enum v) x;
     x \<leftarrow> index_note (enAnnotations v) (index_structured (enStructured v) x);
     fold_option index_member (enValues v) x }"
| "index_visit (N_Service v) x = do {
     x \<leftarrow> index_define (svName v) (N_Service v) x;
     x \<leftarrow> index_note (svAnnotations v) (index_structured (svStructured v) x);
     fold_option index_function (svFunctions v)
       (case svExtends v of None \<Rightarrow> x | Some i \<Rightarrow> add_ref RefServiceExtends (idText i) (N_Identifier i) x) }"
| "index_visit (N_Const v) x = do {
     x \<leftarrow> index_define (coName v) (N_Const v) x;
     x \<leftarrow> index_type RefFieldType (coType v) (index_structured (coStructured v) x);
     Some (index_value (coValue v) x) }"
| "index_visit (N_Typedef v) x = do {
     x \<leftarrow> index_define (tdName v) (N_Typedef v) x;
     x \<leftarrow> index_note (tdAnnotations v) (index_structured (tdStructured v) x);
     index_type RefFieldType (tdType v) x }"
| "index_visit (N_Namespace v) x = index_note (nsAnnotations v) (index_structured (nsStructured v) x)"
| "index_visit (N_Include v) x = Some x"
| "index_visit (N_CPPInclude v) x = Some x"
| "index_visit n x = None"

definition buildIndex :: "Document \<Rightarrow> FileIndex option" where
  "buildIndex ast = fold_option index_visit (docNodes ast) emptyIndex"

end
