(* ===== verification/FileIndexProps.thy ===== *)
theory FileIndexProps imports FileIndex VisitProps
begin

text \<open>
  The semantic index of a file is what its tree says: \<open>buildIndex\<close> never panics on a
  tree of the parser, finds every reference once and in document order, and agrees with
  the other walks over the same tree.
\<close>

section \<open>What the walk adds\<close>

definition group_names :: "Annotations list \<Rightarrow> bytes set" where
  "group_names gs = (\<Union>g\<in>set gs. \<Union>item\<in>set (asItems g). set_option (map_option idText (anName item)))"

lemma group_names_append [simp]:
  "group_names [] = {}" "group_names (gs @ hs) = group_names gs \<union> group_names hs"
  by (auto simp: group_names_def)

definition adds :: "Reference list \<Rightarrow> Annotations list \<Rightarrow> FileIndex \<Rightarrow> FileIndex" where
  "adds rs gs x = x\<lparr>ixRefs := ixRefs x @ rs, ixAnnotations := ixAnnotations x \<union> group_names gs\<rparr>"

lemma adds_simps [simp]:
  "adds [] [] x = x" "adds rs gs (adds rs' gs' x) = adds (rs' @ rs) (gs' @ gs) x"
  "ixDefs (adds rs gs x) = ixDefs x" "ixEnumValues (adds rs gs x) = ixEnumValues x"
  "ixRefs (adds rs gs x) = ixRefs x @ rs" "ixAnnotations (adds rs gs x) = ixAnnotations x \<union> group_names gs"
  "(adds rs gs x)\<lparr>ixDefs := d\<rparr> = adds rs gs (x\<lparr>ixDefs := d\<rparr>)"
  "(adds rs gs x)\<lparr>ixEnumValues := e\<rparr> = adds rs gs (x\<lparr>ixEnumValues := e\<rparr>)"
  by (simp_all add: adds_def Un_assoc)

lemma add_ref_adds: "add_ref rk name n x = adds [\<lparr>rfKind = rk, rfName = name, rfNode = n\<rparr>] [] x"
  by (simp add: add_ref_def adds_def)

lemma fold_adds: "(\<And>a x. a \<in> set as \<Longrightarrow> f a x = adds (rs a) (gs a) x) \<Longrightarrow>
    fold f as x = adds (concat (map rs as)) (concat (map gs as)) x"
  by (induction as arbitrary: x) auto

lemma fold_option_adds: "(\<And>a x. a \<in> set as \<Longrightarrow> f a x = Some (adds (rs a) (gs a) x)) \<Longrightarrow>
    fold_option f as x = Some (adds (concat (map rs as)) (concat (map gs as)) x)"
  by (induction as arbitrary: x) auto

lemma concat_map_Nil [simp]: "concat (map (\<lambda>_. []) xs) = []"
  by (induction xs) auto

section \<open>The references of a tree\<close>

definition ident_ref :: "RefKind \<Rightarrow> Identifier \<Rightarrow> Reference" where
  "ident_ref rk i = \<lparr>rfKind = rk, rfName = idText i, rfNode = N_Identifier i\<rparr>"

definition of_opt :: "('a \<Rightarrow> 'b list) \<Rightarrow> 'a option \<Rightarrow> 'b list" where
  "of_opt f x = (case x of None \<Rightarrow> [] | Some y \<Rightarrow> f y)"

lemma of_opt_simps [simp]: "of_opt f None = []" "of_opt f (Some y) = f y"
  by (simp_all add: of_opt_def)

definition structured_refs :: "StructuredAnnotation list \<Rightarrow> Reference list" where
  "structured_refs annos = concat (map (\<lambda>sa. of_opt (\<lambda>i. [ident_ref RefAnnotationType i]) (saName sa)) annos)"

fun type_refs :: "RefKind \<Rightarrow> FieldType \<Rightarrow> Reference list" where
  "type_refs rk (FieldType b k t i key val cpp an) =
     (case i of None \<Rightarrow> [] | Some ident \<Rightarrow> if k = TypeIdent then [ident_ref rk ident] else []) @
     (case key of None \<Rightarrow> [] | Some ty \<Rightarrow> type_refs rk ty) @ (case val of None \<Rightarrow> [] | Some ty \<Rightarrow> type_refs rk ty)"

function value_refs :: "ConstValue \<Rightarrow> Reference list" where
  "value_refs v =
     (if is_value_ref v then [\<lparr>rfKind = RefConstValue, rfName = cvText v, rfNode = N_ConstValue v\<rparr>] else []) @
     concat (map value_refs (cvList v)) @ concat (map (\<lambda>e. value_refs (cmKey e) @ value_refs (cmValue e)) (cvMap v))"
  by pat_completeness auto
termination
  by (relation "measure size") (auto simp: value_size)

declare value_refs.simps [simp del]

definition field_refs :: "RefKind \<Rightarrow> Field \<Rightarrow> Reference list" where
  "field_refs rk f = structured_refs (fiStructured f) @ of_opt (type_refs rk) (fiType f) @ of_opt value_refs (fiValue f)"

definition fields_refs :: "RefKind \<Rightarrow> Field list \<Rightarrow> Reference list" where
  "fields_refs rk fs = concat (map (field_refs rk) fs)"

definition function_refs :: "Function \<Rightarrow> Reference list" where
  "function_refs fnx = structured_refs (fnStructured fnx) @ of_opt (type_refs RefSignatureType) (fnType fnx) @
     fields_refs RefSignatureType (fnArgs fnx) @ of_opt (\<lambda>t. fields_refs RefSignatureType (thFields t)) (fnThrows fnx)"

fun node_refs :: "Node \<Rightarrow> Reference list" where
  "node_refs (N_Struct v) = structured_refs (stStructured v) @ fields_refs RefFieldType (stFields v)"
| "node_refs (N_Enum v) = structured_refs (enStructured v)"
| "node_refs (N_Service v) = structured_refs (svStructured v) @ of_opt (\<lambda>i. [ident_ref RefServiceExtends i]) (svExtends v) @
     concat (map function_refs (svFunctions v))"
| "node_refs (N_Const v) = structured_refs (coStructured v) @ of_opt (type_refs RefFieldType) (coType v) @ of_opt value_refs (coValue v)"
| "node_refs (N_Typedef v) = structured_refs (tdStructured v) @ of_opt (type_refs RefFieldType) (tdType v)"
| "node_refs (N_Namespace v) = structured_refs (nsStructured v)"
| "node_refs n = []"

section \<open>The operations\<close>

definition group_named :: "Annotations \<Rightarrow> bool" where
  "group_named g \<longleftrightarrow> (\<forall>item\<in>set (asItems g). anName item \<noteq> None)"

lemma index_structured: "index_structured annos x = adds (structured_refs annos) [] x"
  unfolding index_structured_def structured_refs_def
  by (subst fold_adds[where rs = "\<lambda>sa. of_opt (\<lambda>i. [ident_ref RefAnnotationType i]) (saName sa)" and gs = "\<lambda>_. []"])
    (auto simp: add_ref_adds ident_ref_def split: option.splits)

lemma index_note: "list_all group_named (visit_group a) \<Longrightarrow> index_note a x = Some (adds [] (visit_group a) x)"
proof (cases a)
  case (Some g)
  have "fold_option (\<lambda>item x. case anName item of None \<Rightarrow> None
      | Some i \<Rightarrow> Some (x\<lparr>ixAnnotations := insert (idText i) (ixAnnotations x)\<rparr>)) items x =
      Some (x\<lparr>ixAnnotations := ixAnnotations x \<union> (\<Union>item\<in>set items. set_option (map_option idText (anName item)))\<rparr>)"
    if "\<forall>item\<in>set items. anName item \<noteq> None" for items x
    using that by (induction items arbitrary: x) (auto simp: Un_assoc insert_commute)
  moreover assume "list_all group_named (visit_group a)"
  ultimately show ?thesis
    using Some by (simp add: index_note_def visit_group_def adds_def group_names_def group_named_def)
qed (simp add: index_note_def visit_group_def)

lemma index_typ: "list_all group_named (visit_type t) \<Longrightarrow> index_typ rk t x = Some (adds (type_refs rk t) (visit_type t) x)"
proof (induction t arbitrary: x rule: measure_induct_rule[of size])
  case (less t)
  obtain b k ty i key val cpp an where t: "t = FieldType b k ty i key val cpp an" by (cases t)
  have sub: "(case c of None \<Rightarrow> Some y | Some u \<Rightarrow> index_typ rk u y) =
      Some (adds (case c of None \<Rightarrow> [] | Some u \<Rightarrow> type_refs rk u) (case c of None \<Rightarrow> [] | Some u \<Rightarrow> visit_type u) y)"
    if "c = key \<or> c = val" for c y
    using less that by (auto simp: t split: option.splits)
  have "index_note an y = Some (adds [] (visit_group an) y)" for y
    using less(2) by (intro index_note) (simp add: t)
  then show ?case by (cases i) (simp_all add: t sub Let_def add_ref_adds ident_ref_def)
qed

lemma index_type:
  "list_all group_named (visitType t) \<Longrightarrow> index_type rk t x = Some (adds (of_opt (type_refs rk) t) (visitType t) x)"
  by (auto simp: index_type_def visitType_def index_typ split: option.splits)

lemma index_val: "index_val v x = adds (value_refs v) [] x"
proof (induction v arbitrary: x rule: measure_induct_rule[of size])
  case (less v)
  have "fold index_val (cvList v) y = adds (concat (map value_refs (cvList v))) [] y" for y
    using fold_adds[of "cvList v" index_val value_refs "\<lambda>_. []" y] less value_size by auto
  moreover have "fold (\<lambda>e x. index_val (cmValue e) (index_val (cmKey e) x)) (cvMap v) y =
      adds (concat (map (\<lambda>e. value_refs (cmKey e) @ value_refs (cmValue e)) (cvMap v))) [] y" for y
    using fold_adds[of "cvMap v" "\<lambda>e x. index_val (cmValue e) (index_val (cmKey e) x)"
        "\<lambda>e. value_refs (cmKey e) @ value_refs (cmValue e)" "\<lambda>_. []" y] less value_size by auto
  ultimately show ?case by (simp add: index_val.simps[of v x] value_refs.simps[of v] Let_def add_ref_adds)
qed

lemma index_value: "index_value v x = adds (of_opt value_refs v) [] x"
  by (auto simp: index_value_def index_val split: option.splits)

lemma index_field:
  "list_all group_named (visit_fields [f]) \<Longrightarrow> index_field rk f x = Some (adds (field_refs rk f) (visit_fields [f]) x)"
  by (simp add: index_field_def visit_fields_def index_structured index_note index_type index_value field_refs_def)

lemma visit_fields_concat: "visit_fields fs = concat (map (\<lambda>f. visit_fields [f]) fs)"
  by (simp add: visit_fields_def)

lemma index_fields:
  assumes "list_all group_named (visit_fields fs)"
  shows "fold_option (index_field rk) fs x = Some (adds (fields_refs rk fs) (visit_fields fs) x)"
  unfolding fields_refs_def visit_fields_concat[of fs]
  using assms by (intro fold_option_adds index_field) (auto simp: visit_fields_def list_all_iff)

lemma index_function:
  "list_all group_named (function_groups fnx) \<Longrightarrow>
   index_function fnx x = Some (adds (function_refs fnx) (function_groups fnx) x)"
  by (auto simp: index_function_def function_groups_def function_refs_def index_structured index_note index_type
      index_fields split: option.splits)

text \<open>The names that a top-level node binds.\<close>

fun top_name :: "Node \<Rightarrow> Identifier option" where
  "top_name (N_Struct v) = stName v"
| "top_name (N_Enum v) = enName v"
| "top_name (N_Service v) = svName v"
| "top_name (N_Const v) = coName v"
| "top_name (N_Typedef v) = tdName v"
| "top_name n = None"

definition defined :: "Node \<Rightarrow> (bytes \<times> Node) list" where
  "defined n = of_opt (\<lambda>i. [(idText i, n)]) (top_name n)"

definition members :: "EnumValue list \<Rightarrow> (bytes \<times> Identifier) list" where
  "members evs = concat (map (\<lambda>ev. of_opt (\<lambda>i. [(idText i, i)]) (evName ev)) evs)"

definition enum_members :: "Node \<Rightarrow> (bytes \<times> Identifier) list" where
  "enum_members n = (case n of N_Enum v \<Rightarrow> members (enValues v) | _ \<Rightarrow> [])"

definition binds :: "(bytes \<times> Node) list \<Rightarrow> (bytes \<times> Identifier) list \<Rightarrow> FileIndex \<Rightarrow> FileIndex" where
  "binds ds es x = x\<lparr>ixDefs := ixDefs x ++ map_of (rev ds), ixEnumValues := ixEnumValues x ++ map_of (rev es)\<rparr>"

lemma binds_simps [simp]:
  "binds [] [] x = x" "binds ds es (binds ds' es' x) = binds (ds' @ ds) (es' @ es) x"
  "binds ds es (adds rs gs x) = adds rs gs (binds ds es x)"
  by (simp_all add: binds_def adds_def)

lemma index_members:
  "list_all group_named (concat (map (\<lambda>ev. visit_group (evAnnotations ev)) evs)) \<Longrightarrow> \<forall>ev\<in>set evs. evName ev \<noteq> None \<Longrightarrow>
   fold_option index_member evs x =
     Some (adds [] (concat (map (\<lambda>ev. visit_group (evAnnotations ev)) evs)) (binds [] (members evs) x))"
proof (induction evs arbitrary: x)
  case (Cons ev evs)
  then obtain i where i: "evName ev = Some i" by auto
  have "index_member ev x = Some (adds [] (visit_group (evAnnotations ev)) (binds [] [(idText i, i)] x))"
    using Cons.prems(1) by (simp add: index_member_def i index_note binds_def)
  then show ?case using Cons i by (simp add: members_def)
qed (simp add: members_def)

lemma index_functions:
  "list_all group_named (concat (map function_groups fns)) \<Longrightarrow>
   fold_option index_function fns x = Some (adds (concat (map function_refs fns)) (concat (map function_groups fns)) x)"
  by (intro fold_option_adds index_function) (auto simp: list_all_iff)

lemma node_ok_part: "node_ok toks s n \<Longrightarrow> P_node c \<in> set (node_parts n) \<Longrightarrow> node_ok toks s c"
  and node_ok_shape: "node_ok toks s n \<Longrightarrow> node_shape toks s n"
  by (auto elim: node_ok.cases)

lemma groups_named: "node_ok toks s n \<Longrightarrow> g \<in> set (all_groups n) \<Longrightarrow> group_named g"
proof (induction n rule: all_groups.induct)
  case (1 n)
  show ?case
  proof (cases "n = N_Annotations g")
    case True
    have "anName item \<noteq> None" if "item \<in> set (asItems g)" for item
    proof -
      have "P_node (N_Annotation item) \<in> set (node_parts n)" using True that by simp
      from node_ok_shape[OF node_ok_part[OF 1(2) this]] show ?thesis by simp
    qed
    then show ?thesis by (simp add: group_named_def)
  next
    case False
    have "set (all_groups n) = (case n of N_Annotations a \<Rightarrow> {a} | _ \<Rightarrow> {}) \<union> (\<Union>p\<in>set (node_parts n). set (part_groups p))"
      by (subst all_groups_node) (simp split: Node.split)
    then have "g \<in> (\<Union>p\<in>set (node_parts n). set (part_groups p))" using 1(3) False by (simp split: Node.splits)
    then obtain p where p: "p \<in> set (node_parts n)" "g \<in> set (part_groups p)" by blast
    then obtain c where "p = P_node c" by (metis empty_iff list.set(1) part.exhaust part_groups_simps(1))
    then have c: "P_node c \<in> set (node_parts n)" "g \<in> set (all_groups c)" using p by auto
    from node_ok_part[OF 1(2) c(1)] show ?thesis using 1(1)[OF c(1)] c(2) by blast
  qed
qed

lemma index_visit:
  assumes "toplevel n" "node_ok toks s n"
  shows "index_visit n x = Some (adds (node_refs n) (node_annotation_calls n) (binds (defined n) (enum_members n) x))"
proof -
  have "set (node_annotation_calls n) = set (all_groups n)"
    using mset_eq_setD[OF toplevel_groups[OF assms(1)]] by simp
  then have named: "list_all group_named (node_annotation_calls n)"
    using groups_named[OF assms(2)] by (auto simp: list_all_iff)
  note shape = node_ok_shape[OF assms(2)]
  show ?thesis
  proof (cases n)
    case (N_Enum v)
    have "\<forall>ev\<in>set (enValues v). evName ev \<noteq> None"
    proof
      fix ev assume "ev \<in> set (enValues v)"
      then have "P_node (N_EnumValue ev) \<in> set (node_parts n)" by (simp add: N_Enum)
      from node_ok_shape[OF node_ok_part[OF assms(2) this]] show "evName ev \<noteq> None" by simp
    qed
    then show ?thesis using named shape
      by (auto simp: N_Enum index_structured index_note index_members index_define_def defined_def enum_members_def
          binds_def adds_def Un_assoc)
  next
    case (N_Service v)
    then show ?thesis using named shape
      by (auto simp: index_structured index_note index_functions index_define_def defined_def enum_members_def
          function_groups_def[abs_def, symmetric] add_ref_adds ident_ref_def binds_def split: option.splits)
  qed (use assms(1) named shape in \<open>auto simp: index_structured index_note index_fields index_type index_value
      index_define_def defined_def enum_members_def binds_def\<close>)
qed

lemma buildIndex:
  assumes "doc_wf s doc"
  shows "buildIndex doc = Some (adds (concat (map node_refs (docNodes doc))) (EachAnnotation doc)
    (binds (concat (map defined (docNodes doc))) (concat (map enum_members (docNodes doc))) emptyIndex))"
proof -
  have "fold_option index_visit ns x = Some (adds (concat (map node_refs ns)) (concat (map node_annotation_calls ns))
      (binds (concat (map defined ns)) (concat (map enum_members ns)) x))"
    if "\<forall>n\<in>set ns. toplevel n \<and> node_ok (docTokens doc) s n" for ns x
    using that by (induction ns arbitrary: x) (auto simp: index_visit[of _ "docTokens doc" s])
  then show ?thesis using assms by (simp add: buildIndex_def EachAnnotation_def doc_wf_def list_all_iff)
qed

section \<open>Completeness\<close>

text \<open>The selection of the nodes that are, or carry, a reference.\<close>

definition sel_ref :: "AnyNode \<Rightarrow> Reference list" where
  "sel_ref n =
     (case n of
        A_Node (N_StructuredAnnotation sa) \<Rightarrow> of_opt (\<lambda>i. [ident_ref RefAnnotationType i]) (saName sa)
      | A_Node (N_ConstValue v) \<Rightarrow>
          if is_value_ref v then [\<lparr>rfKind = RefConstValue, rfName = cvText v, rfNode = N_ConstValue v\<rparr>] else []
      | A_Node (N_Service v) \<Rightarrow> of_opt (\<lambda>i. [ident_ref RefServiceExtends i]) (svExtends v)
      | A_Node (N_FieldType t) \<Rightarrow>
          if ftKind t = TypeIdent then of_opt (\<lambda>i. [ident_ref RefFieldType i]) (ftIdent t) else []
      | _ \<Rightarrow> [])"

text \<open>References without their kind, which depends on the path to the node.\<close>

definition bare :: "Reference list \<Rightarrow> (bytes \<times> Node) list" where
  "bare rs = map (\<lambda>r. (rfName r, rfNode r)) rs"

lemma bare_simps [simp]:
  "bare [] = []" "bare (r # rs) = (rfName r, rfNode r) # bare rs" "bare (rs @ ss) = bare rs @ bare ss"
  by (simp_all add: bare_def)

lemma bare_concat: "bare (concat (map f xs)) = concat (map (\<lambda>x. bare (f x)) xs)"
  by (induction xs) auto

definition refs_below :: "Node \<Rightarrow> (bytes \<times> Node) list" where
  "refs_below n = bare (collect sel_ref (A_Node n))"

lemma found_node: "refs_below n = bare (sel_ref (A_Node n)) @ concat (map (of_opt refs_below) (node_children n))"
proof -
  have "bare (collect_opt sel_ref c) = of_opt refs_below c" for c by (cases c) (simp_all add: collect_opt_def refs_below_def)
  then show ?thesis by (simp add: refs_below_def collect_node[of sel_ref n] bare_concat)
qed

lemma found_lists [simp]:
  "concat (map (of_opt refs_below) (ptr g x)) = of_opt (\<lambda>y. refs_below (g y)) x"
  "concat (map (of_opt refs_below) (unless_nil g x)) = of_opt (\<lambda>y. refs_below (g y)) x"
  "concat (map (of_opt refs_below) (all_of g xs)) = concat (map (\<lambda>x. refs_below (g x)) xs)"
  by (auto simp: ptr_def unless_nil_def all_of_def comp_def of_opt_def split: option.splits)

lemma found_Identifier [simp]: "refs_below (N_Identifier i) = []"
  by (simp add: found_node sel_ref_def)

lemma of_opt_Nil [simp]: "of_opt (\<lambda>_. []) x = []"
  by (cases x) auto

lemma found_StructuredAnnotation [simp]:
  "refs_below (N_StructuredAnnotation sa) = bare (of_opt (\<lambda>i. [ident_ref RefAnnotationType i]) (saName sa))"
  by (simp add: found_node[of "N_StructuredAnnotation sa"] sel_ref_def)

lemma found_structured [simp]:
  "concat (map (of_opt refs_below) (structuredChildren annos)) = bare (structured_refs annos)"
  by (simp add: structuredChildren_def structured_refs_def bare_concat)

lemma found_FieldType: "refs_below (N_FieldType t) = bare (type_refs rk t)"
proof (induction t rule: measure_induct_rule[of size])
  case (less t)
  obtain b k ty i key val cpp an where t: "t = FieldType b k ty i key val cpp an" by (cases t)
  have "of_opt (\<lambda>u. refs_below (N_FieldType u)) c = bare (case c of None \<Rightarrow> [] | Some u \<Rightarrow> type_refs rk u)"
    if "c = key \<or> c = val" for c
    using less that by (auto simp: t of_opt_def split: option.splits)
  then show ?case
    using found_node[of "N_FieldType t"] by (cases i) (simp_all add: sel_ref_def ident_ref_def t)
qed

lemma found_ConstValue [simp]: "refs_below (N_ConstValue v) = bare (value_refs v)"
proof (induction v rule: measure_induct_rule[of size])
  case (less v)
  have "concat (map (\<lambda>c. refs_below (N_ConstValue c)) (cvList v)) = bare (concat (map value_refs (cvList v)))"
    using less value_size by (auto simp: bare_concat intro!: arg_cong[of _ _ concat])
  moreover have "concat (map (of_opt refs_below) (concat (map (\<lambda>e. [Some (N_ConstValue (cmKey e)), Some (N_ConstValue (cmValue e))]) (cvMap v)))) =
      bare (concat (map (\<lambda>e. value_refs (cmKey e) @ value_refs (cmValue e)) (cvMap v)))"
    using less value_size by (auto simp: bare_concat concat_map_nested comp_def intro!: arg_cong[of _ _ concat])
  ultimately show ?case
    by (simp add: found_node[of "N_ConstValue v"] sel_ref_def value_refs.simps[of v])
qed

lemma found_type: "of_opt (\<lambda>y. refs_below (N_FieldType y)) t = bare (of_opt (type_refs rk) t)"
  by (cases t) (auto simp: found_FieldType[of _ rk])

lemma found_value [simp]: "of_opt (\<lambda>y. bare (value_refs y)) t = bare (of_opt value_refs t)"
  by (cases t) auto

lemma found_Field: "refs_below (N_Field f) = bare (field_refs rk f)"
  by (simp add: found_node[of "N_Field f"] sel_ref_def field_refs_def found_type[of _ rk])

lemma found_fields: "concat (map (\<lambda>x. refs_below (N_Field x)) fs) = bare (fields_refs rk fs)"
  by (simp add: fields_refs_def bare_concat found_Field[of _ rk])

lemma found_Function [simp]: "refs_below (N_Function fnx) = bare (function_refs fnx)"
proof -
  have "of_opt (\<lambda>y. refs_below (N_Throws y)) t = bare (of_opt (\<lambda>t. fields_refs RefSignatureType (thFields t)) t)" for t
    by (cases t) (simp_all add: found_node[of "N_Throws x" for x] sel_ref_def found_fields[of _ RefSignatureType])
  then show ?thesis
    by (simp add: found_node[of "N_Function fnx"] sel_ref_def function_refs_def found_type[of _ RefSignatureType]
        found_fields[of _ RefSignatureType])
qed

lemma found_toplevel: "toplevel n \<Longrightarrow> mset (refs_below n) = mset (bare (node_refs n))"
  by (cases n) (simp_all add: found_node[of "N_Include x" for x] found_node[of "N_CPPInclude x" for x]
    found_node[of "N_Namespace x" for x] found_node[of "N_Const x" for x] found_node[of "N_Typedef x" for x]
    found_node[of "N_Enum x" for x] found_node[of "N_EnumValue x" for x] found_node[of "N_Struct x" for x]
    found_node[of "N_Service x" for x] sel_ref_def found_type[of _ RefFieldType] found_fields[of _ RefFieldType] 
    bare_concat)

section \<open>Document order\<close>

definition ref_pos :: "Reference \<Rightarrow> nat" where
  "ref_pos r = TokStart (rfNode r)"

definition refs_in :: "nat \<Rightarrow> nat \<Rightarrow> Reference list \<Rightarrow> bool" where
  "refs_in lo hi rs \<longleftrightarrow> sorted_wrt (\<lambda>r q. ref_pos r \<le> ref_pos q) rs \<and> (\<forall>r\<in>set rs. lo \<le> ref_pos r \<and> ref_pos r < hi)"

lemma refs_in_Nil [simp]: "refs_in lo hi []"
  by (simp add: refs_in_def)

lemma refs_in_mono: "refs_in lo hi rs \<Longrightarrow> lo' \<le> lo \<Longrightarrow> refs_in lo' hi rs"
  by (fastforce simp: refs_in_def)

lemma refs_in_Cons: "ref_pos r = lo \<Longrightarrow> lo < hi \<Longrightarrow> refs_in lo hi rs \<Longrightarrow> refs_in lo hi (r # rs)"
  by (auto simp: refs_in_def)

lemma refs_in_append:
  "refs_in lo mid rs \<Longrightarrow> refs_in mid' hi ss \<Longrightarrow> mid \<le> mid' \<Longrightarrow> lo \<le> mid' \<Longrightarrow> mid \<le> hi \<Longrightarrow> refs_in lo hi (rs @ ss)"
  by (fastforce simp: refs_in_def sorted_wrt_append)

lemma refs_in_parts:
  "chain lo hi ps \<Longrightarrow> (\<And>p. p \<in> set ps \<Longrightarrow> refs_in (part_first p) (Suc (part_last p)) (f p)) \<Longrightarrow> refs_in lo hi (concat (map f ps))"
proof (induction ps arbitrary: lo)
  case (Cons p ps)
  then have p: "lo \<le> part_first p" "part_first p \<le> part_last p" "part_last p < hi" "chain (Suc (part_last p)) hi ps" by simp_all
  have "refs_in (part_first p) (Suc (part_last p)) (f p)" using Cons.prems(2) by simp
  moreover have "refs_in (Suc (part_last p)) hi (concat (map f ps))" using Cons.IH[OF p(4)] Cons.prems(2) by simp
  ultimately have "refs_in (part_first p) hi (f p @ concat (map f ps))" using p by (auto intro: refs_in_append)
  then show ?case using p(1) by (auto intro: refs_in_mono)
qed simp

definition refs_ok :: "Node \<Rightarrow> Reference list \<Rightarrow> bool" where
  "refs_ok n rs \<longleftrightarrow> refs_in (TokStart n) (Suc (TokEnd n)) rs"

text \<open>The references of a node, part by part.\<close>

lemma refs_node:
  assumes "node_ok toks s n" "rs = concat (map f (node_parts n))" "\<And>i. f (P_tok i) = []"
    and "\<And>c. P_node c \<in> set (node_parts n) \<Longrightarrow> node_ok toks s c \<Longrightarrow> refs_ok c (f (P_node c))"
  shows "refs_ok n rs"
  unfolding refs_ok_def assms(2)
proof (rule refs_in_parts)
  show "chain (TokStart n) (Suc (TokEnd n)) (node_parts n)" using assms(1) by (auto elim: node_ok.cases)
  show "refs_in (part_first p) (Suc (part_last p)) (f p)" if "p \<in> set (node_parts n)" for p
  proof (cases p)
    case (P_node c)
    then show ?thesis using assms(4)[of c] node_ok_part[OF assms(1), of c] that by (simp add: refs_ok_def)
  qed (simp add: assms(3))
qed

fun part_refs :: "RefKind \<Rightarrow> (Identifier \<Rightarrow> Reference list) \<Rightarrow> (ConstValue \<Rightarrow> Reference list) \<Rightarrow> part \<Rightarrow> Reference list" where
  "part_refs rk ident val (P_node (N_Identifier i)) = ident i"
| "part_refs rk ident val (P_node (N_ConstValue v)) = val v"
| "part_refs rk ident val (P_node (N_FieldType t)) = type_refs rk t"
| "part_refs rk ident val (P_node (N_StructuredAnnotation sa)) = structured_refs [sa]"
| "part_refs rk ident val (P_node (N_Field f)) = field_refs rk f"
| "part_refs rk ident val (P_node (N_Throws t)) = fields_refs rk (thFields t)"
| "part_refs rk ident val (P_node (N_Function fnx)) = function_refs fnx"
| "part_refs rk ident val p = []"

lemma refs_ok_Nil [simp]: "refs_ok n []"
  by (simp add: refs_ok_def)

lemma refs_ok_ident: "node_ok toks s (N_Identifier i) \<Longrightarrow> refs_ok (N_Identifier i) [ident_ref rk i]"
  by (auto simp: refs_ok_def refs_in_def ref_pos_def ident_ref_def elim: node_ok.cases)

lemma concat_opt [simp]: "concat (map f (opt g x)) = of_opt (\<lambda>y. f (g y)) x"
  by (simp add: opt_def of_opt_def split: option.split)

lemma type_refs_eq: "type_refs rk t =
    concat (map (part_refs rk (\<lambda>i. if ftKind t = TypeIdent then [ident_ref rk i] else []) (\<lambda>v. [])) (node_parts (N_FieldType t)))"
  by (cases t) (simp add: of_opt_def split: option.split)

lemma refs_ok_type: "node_ok toks s (N_FieldType t) \<Longrightarrow> refs_ok (N_FieldType t) (type_refs rk t)"
proof (induction t rule: measure_induct_rule[of size])
  case (less t)
  show ?case
  proof (rule refs_node[OF less(2) type_refs_eq])
    fix c assume "P_node c \<in> set (node_parts (N_FieldType t))" "node_ok toks s c"
    then show "refs_ok c (part_refs rk (\<lambda>i. if ftKind t = TypeIdent then [ident_ref rk i] else []) (\<lambda>v. []) (P_node c))"
      using less(1) type_size[of t] refs_ok_ident by (auto simp: opt_def split: option.splits)
  qed simp
qed

lemma refs_ok_value: "node_ok toks s (N_ConstValue v) \<Longrightarrow> refs_ok (N_ConstValue v) (value_refs v)"
proof (induction v rule: measure_induct_rule[of size])
  case (less v)
  let ?f = "part_refs RefConstValue (\<lambda>i. []) value_refs"
  let ?rs = "concat (map value_refs (cvList v)) @ concat (map (\<lambda>e. value_refs (cmKey e) @ value_refs (cmValue e)) (cvMap v))"
  have "refs_ok (N_ConstValue v) (concat (map ?f (node_parts (N_ConstValue v))))"
  proof (rule refs_node[OF less(2) refl])
    fix c assume "P_node c \<in> set (node_parts (N_ConstValue v))" "node_ok toks s c"
    then show "refs_ok c (?f (P_node c))"
      using less(1) value_size by (fastforce simp: entry_parts_def)
  qed simp
  moreover have "concat (map ?f (node_parts (N_ConstValue v))) = ?rs"
    by (simp add: entry_parts_def concat_map_nested comp_def)
  ultimately have rs: "refs_ok (N_ConstValue v) ?rs" by simp
  have "TokStart (N_ConstValue v) \<le> TokEnd (N_ConstValue v)" using less(2) by (auto elim: node_ok.cases)
  then show ?case using rs unfolding value_refs.simps[of v] refs_ok_def
    by (cases "is_value_ref v") (auto simp: ref_pos_def intro!: refs_in_Cons)
qed

lemma part_refs_structured [simp]: "concat (map (part_refs rk ident val \<circ> p_struct) annos) = structured_refs annos"
  by (induction annos) (auto simp: structured_refs_def)

lemma refs_ok_structured:
  assumes "node_ok toks s (N_StructuredAnnotation sa)"
  shows "refs_ok (N_StructuredAnnotation sa) (structured_refs [sa])"
proof (rule refs_node[OF assms])
  show "structured_refs [sa] = concat (map (part_refs RefFieldType (\<lambda>i. [ident_ref RefAnnotationType i]) (\<lambda>v. []))
      (node_parts (N_StructuredAnnotation sa)))"
    by (simp add: structured_refs_def)
qed (auto simp: opt_def refs_ok_ident split: option.splits)

lemma field_eq: "field_refs rk f = concat (map (part_refs rk (\<lambda>i. []) value_refs) (node_parts (N_Field f)))"
  by (simp add: field_refs_def)

lemmas refs_ok_leaf = refs_ok_ident refs_ok_type refs_ok_value refs_ok_structured

lemma refs_ok_field: "node_ok toks s (N_Field f) \<Longrightarrow> refs_ok (N_Field f) (field_refs rk f)"
  by (rule refs_node[OF _ field_eq]) (auto simp: opt_def refs_ok_leaf split: option.splits)

lemma part_refs_fields [simp]: "concat (map (part_refs rk ident val \<circ> p_field) fs) = fields_refs rk fs"
  by (simp add: fields_refs_def comp_def)

lemma refs_ok_throws: "node_ok toks s (N_Throws t) \<Longrightarrow> refs_ok (N_Throws t) (fields_refs rk (thFields t))"
  by (rule refs_node[of toks s _ _ "part_refs rk (\<lambda>i. []) value_refs"])
    (auto simp: refs_ok_field)

lemma refs_ok_function: "node_ok toks s (N_Function fnx) \<Longrightarrow> refs_ok (N_Function fnx) (function_refs fnx)"
proof (erule refs_node)
  show "function_refs fnx = concat (map (part_refs RefSignatureType (\<lambda>i. []) value_refs) (node_parts (N_Function fnx)))"
    by (simp add: function_refs_def)
qed (auto simp: opt_def refs_ok_leaf refs_ok_field refs_ok_throws split: option.splits)

lemma refs_ok_toplevel:
  assumes "toplevel n" "node_ok toks s n"
  shows "refs_ok n (node_refs n)"
proof -
  define ext where "ext = (case n of N_Service v \<Rightarrow> svExtends v | _ \<Rightarrow> None)"
  let ?f = "part_refs RefFieldType (\<lambda>i. if ext = Some i then [ident_ref RefServiceExtends i] else [])
    (case n of N_Const v \<Rightarrow> value_refs | _ \<Rightarrow> \<lambda>v. [])"
  have "node_refs n = concat (map ?f (node_parts n))"
  proof (cases n)
    case (N_Service v)
    have "svName v \<noteq> Some i" if "svExtends v = Some i" for i
    proof
      assume "svName v = Some i"
      moreover have "chain (TokStart n) (Suc (TokEnd n)) (node_parts n)" using assms(2) by (auto elim: node_ok.cases)
      from chain_sorted[OF this] have "sorted_wrt (\<lambda>p q. part_last p < part_first q) (opt p_ident (svName v) @ opt p_ident (svExtends v))"
        by (simp add: N_Service sorted_wrt_append)
      ultimately have "TokEnd (N_Identifier i) < TokStart (N_Identifier i)" using that by simp
      moreover have "node_ok toks s (N_Identifier i)" using node_ok_part[OF assms(2), of "N_Identifier i"] that
        by (simp add: N_Service)
      ultimately show False by (auto elim: node_ok.cases)
    qed
    then show ?thesis
      by (cases "svExtends v"; cases "svName v") (auto simp: N_Service ext_def comp_def[of "part_refs _ _ _" "\<lambda>x. P_node (N_Function x)"])
  qed (use assms(1) in \<open>simp_all add: ext_def comp_def[of "part_refs _ _ _" "\<lambda>x. P_node (N_EnumValue x)"]\<close>)
  then show ?thesis
  proof (rule refs_node[OF assms(2)])
    fix c assume "P_node c \<in> set (node_parts n)" "node_ok toks s c"
    then show "refs_ok c (?f (P_node c))"
      by (cases c) (auto simp: refs_ok_leaf refs_ok_field refs_ok_throws refs_ok_function split: Node.split)
  qed simp
qed

text \<open>
  C37: \<open>buildIndex\<close> never panics on a tree of the parser, whatever the errors in the source,
  and its references are, each exactly once and with the text and the node of its name, the
  references of the tree below the document: the named types, the identifiers in
  constant values, the extended services and the names of structured annotations.
\<close>

theorem buildIndex_complete:
  "case Parse src of None \<Rightarrow> False
   | Some (doc, errs) \<Rightarrow>
       (case buildIndex doc of None \<Rightarrow> False
        | Some x \<Rightarrow> mset (bare (ixRefs x)) = mset (bare (collect sel_ref (A_Document doc))))"
proof -
  have "mset (bare (concat (map node_refs ns))) = mset (concat (map refs_below ns))" if "list_all toplevel ns" for ns
    using that by (induction ns) (auto simp: found_toplevel)
  moreover have "bare (collect sel_ref (A_Document doc)) = concat (map refs_below (docNodes doc))" for doc
    by (simp add: collect_document sel_ref_def bare_concat refs_below_def[abs_def])
  ultimately show ?thesis
    by (rule_tac Parse_cases[of src]) (auto simp: parse_result_def buildIndex binds_def emptyIndex_def doc_wf_def)
qed

text \<open>
  the references of the index are in document order: the tokens at which they start
  ascend, across all slots of all definitions.
\<close>

theorem buildIndex_order:
  "case Parse src of None \<Rightarrow> False
   | Some (doc, errs) \<Rightarrow>
       (case buildIndex doc of None \<Rightarrow> False | Some x \<Rightarrow> sorted (map (\<lambda>r. TokStart (rfNode r)) (ixRefs x)))"
proof -
  have "sorted_wrt (\<lambda>r q. ref_pos r \<le> ref_pos q) (concat (map node_refs ns)) \<and>
      (\<forall>r\<in>set (concat (map node_refs ns)). \<exists>n\<in>set ns. TokStart n \<le> ref_pos r \<and> ref_pos r \<le> TokEnd n)"
    if "\<forall>n\<in>set ns. refs_ok n (node_refs n)" "sorted_wrt (\<lambda>m n. TokEnd m < TokStart n) ns" for ns
    using that
  proof (induction ns)
    case (Cons n ns)
    then have n: "sorted_wrt (\<lambda>r q. ref_pos r \<le> ref_pos q) (node_refs n)"
      "\<forall>r\<in>set (node_refs n). TokStart n \<le> ref_pos r \<and> ref_pos r \<le> TokEnd n"
      by (auto simp: refs_ok_def refs_in_def)
    then show ?case using Cons by (fastforce simp: sorted_wrt_append)
  qed simp
  moreover have "\<forall>n\<in>set (docNodes doc). refs_ok n (node_refs n)" if "doc_wf s doc" for s doc
    using that refs_ok_toplevel by (auto simp: doc_wf_def list_all_iff)
  moreover have "sorted_wrt (\<lambda>m n. TokEnd m < TokStart n) (docNodes doc)" if "doc_wf s doc" for s doc
    using that by (simp add: doc_wf_def)
  ultimately have "sorted_wrt (\<lambda>r q. ref_pos r \<le> ref_pos q) (concat (map node_refs (docNodes doc)))" if "doc_wf s doc" for s doc
    using that by blast
  then show ?thesis
    by (rule_tac Parse_cases[of src])
      (auto simp: parse_result_def buildIndex binds_def emptyIndex_def sorted_map ref_pos_def)
qed

text \<open>
  the names of the index are those of the tree: a name is bound to the last top-level
  definition, or enum member, that carries it, and the annotation names are those of the
  groups that \<open>EachAnnotation\<close> visits, so the two walks over the tree agree.
\<close>

theorem buildIndex_names:
  "case Parse src of None \<Rightarrow> False
   | Some (doc, errs) \<Rightarrow>
       (case buildIndex doc of None \<Rightarrow> False
        | Some x \<Rightarrow> ixDefs x = map_of (rev (concat (map defined (docNodes doc)))) \<and>
            ixEnumValues x = map_of (rev (concat (map enum_members (docNodes doc)))) \<and>
            ixAnnotations x = group_names (EachAnnotation doc))"
  by (rule_tac Parse_cases[of src]) (auto simp: parse_result_def buildIndex binds_def emptyIndex_def)

end
