(* ===== verification/FormatConfig.thy ===== *)
theory FormatConfig imports Token DocPrint
begin

text \<open>
  The options of the formatter: \<open>formatter/format_config.go\<close>, \<open>formatter/config.go\<close> and
  the option types of \<open>formatter/format.go\<close>. A configuration is a patch whose fields may
  be unset; patches of several sources are laid over one another, checked, and turned into
  options. A pointer that may be nil is an option, and a nil error is the right side of
  a sum.
\<close>

section \<open>Modes\<close>

datatype AlignMode = AlignField | AlignAssign | AlignDisable

datatype SeparatorMode = SeparatorPreserve | SeparatorComma | SeparatorSemicolon | SeparatorNone

definition alignMode :: "bytes \<Rightarrow> AlignMode option" where
  "alignMode s =
     (if s = ''field'' then Some AlignField
      else if s = ''assign'' then Some AlignAssign
      else if s = ''disable'' then Some AlignDisable
      else None)"

definition separatorMode :: "bytes \<Rightarrow> SeparatorMode option" where
  "separatorMode s =
     (if s = ''comma'' then Some SeparatorComma
      else if s = ''semicolon'' then Some SeparatorSemicolon
      else if s = ''none'' then Some SeparatorNone
      else if s = ''preserve'' then Some SeparatorPreserve
      else None)"

section \<open>Values per construct\<close>

datatype Construct =
    ConstructStruct | ConstructUnion | ConstructException | ConstructEnum | ConstructArguments
  | ConstructThrows | ConstructList | ConstructMap | ConstructSet

record 'a PerConstruct =
  pcStructs :: 'a
  pcUnions :: 'a
  pcExceptions :: 'a
  pcEnums :: 'a
  pcArguments :: 'a
  pcThrows :: 'a
  pcLists :: 'a
  pcMaps :: 'a
  pcSets :: 'a

text \<open>A composite literal of one value, for the zero value of the type.\<close>

definition per_construct :: "'a \<Rightarrow> 'a PerConstruct" where
  "per_construct v = \<lparr>pcStructs = v, pcUnions = v, pcExceptions = v, pcEnums = v, pcArguments = v,
     pcThrows = v, pcLists = v, pcMaps = v, pcSets = v\<rparr>"

fun Get :: "'a PerConstruct \<Rightarrow> Construct \<Rightarrow> 'a" where
  "Get p ConstructUnion = pcUnions p"
| "Get p ConstructException = pcExceptions p"
| "Get p ConstructEnum = pcEnums p"
| "Get p ConstructArguments = pcArguments p"
| "Get p ConstructThrows = pcThrows p"
| "Get p ConstructList = pcLists p"
| "Get p ConstructMap = pcMaps p"
| "Get p ConstructSet = pcSets p"
| "Get p ConstructStruct = pcStructs p"

fun Set :: "Construct \<Rightarrow> 'a \<Rightarrow> 'a PerConstruct \<Rightarrow> 'a PerConstruct" where
  "Set ConstructUnion v p = p\<lparr>pcUnions := v\<rparr>"
| "Set ConstructException v p = p\<lparr>pcExceptions := v\<rparr>"
| "Set ConstructEnum v p = p\<lparr>pcEnums := v\<rparr>"
| "Set ConstructArguments v p = p\<lparr>pcArguments := v\<rparr>"
| "Set ConstructThrows v p = p\<lparr>pcThrows := v\<rparr>"
| "Set ConstructList v p = p\<lparr>pcLists := v\<rparr>"
| "Set ConstructMap v p = p\<lparr>pcMaps := v\<rparr>"
| "Set ConstructSet v p = p\<lparr>pcSets := v\<rparr>"
| "Set ConstructStruct v p = p\<lparr>pcStructs := v\<rparr>"

definition AllConstructs :: "Construct list" where
  "AllConstructs = [ConstructStruct, ConstructUnion, ConstructException, ConstructEnum, ConstructArguments,
     ConstructThrows, ConstructList, ConstructMap, ConstructSet]"

fun Construct_String :: "Construct \<Rightarrow> bytes" where
  "Construct_String ConstructUnion = ''unions''"
| "Construct_String ConstructException = ''exceptions''"
| "Construct_String ConstructEnum = ''enums''"
| "Construct_String ConstructArguments = ''arguments''"
| "Construct_String ConstructThrows = ''throws''"
| "Construct_String ConstructList = ''lists''"
| "Construct_String ConstructMap = ''maps''"
| "Construct_String ConstructSet = ''sets''"
| "Construct_String ConstructStruct = ''structs''"

section \<open>Options\<close>

text \<open>The \<open>Options\<close> of the formatter; those of the printer are \<^typ>\<open>Options\<close>.\<close>

record FormatOptions =
  foPrintWidth :: int
  foIndent :: bytes
  foTabWidth :: int
  foAlign :: AlignMode
  foSeparator :: "SeparatorMode PerConstruct"
  foBreak :: "bool PerConstruct"
  foNoTrailingNewline :: bool

definition DefaultOptions :: FormatOptions where
  "DefaultOptions = \<lparr>foPrintWidth = 80, foIndent = ''    '', foTabWidth = 4, foAlign = AlignField,
     foSeparator = (per_construct SeparatorPreserve)\<lparr>pcStructs := SeparatorPreserve, pcUnions := SeparatorPreserve,
       pcExceptions := SeparatorPreserve, pcEnums := SeparatorPreserve, pcArguments := SeparatorPreserve,
       pcThrows := SeparatorPreserve\<rparr>,
     foBreak = per_construct False, foNoTrailingNewline = False\<rparr>"

definition normalize :: "FormatOptions \<Rightarrow> FormatOptions" where
  "normalize opts =
     (let d = DefaultOptions;
          opts = (if foPrintWidth opts \<le> 0 then opts\<lparr>foPrintWidth := foPrintWidth d\<rparr> else opts);
          opts = (if foIndent opts = [] then opts\<lparr>foIndent := foIndent d\<rparr> else opts) in
      if foTabWidth opts \<le> 0 then opts\<lparr>foTabWidth := foTabWidth d\<rparr> else opts)"

definition printOptions :: "FormatOptions \<Rightarrow> Options" where
  "printOptions opts = \<lparr>opPrintWidth = foPrintWidth opts, opIndent = foIndent opts,
     opTabWidth = foTabWidth opts, opNewLine = [LF]\<rparr>"

section \<open>Indentation\<close>

record Indent =
  idValue :: bytes
  idWidth :: int

text \<open>The loop reads runes; a byte that is a space or a tab is a rune of its own.\<close>

definition isWhitespaceOnly :: "bytes \<Rightarrow> bool" where
  "isWhitespaceOnly s \<longleftrightarrow> list_all (\<lambda>c. c = SPACE \<or> c = TAB) s"

datatype indent_error = Indent_not_blank | Indent_mixed bytes

definition ParseIndentValue :: "bytes \<Rightarrow> indent_error + Indent" where
  "ParseIndentValue s =
     (if s = [] then Inr \<lparr>idValue = ''    '', idWidth = 4\<rparr>
      else if isWhitespaceOnly s then
        (let spaces = count_list s SPACE; tabs = count_list s TAB in
         if spaces > 0 \<and> tabs > 0 then Inl (Indent_mixed s)
         else if tabs > 0 then Inr \<lparr>idValue = s, idWidth = int tabs * 4\<rparr>
         else Inr \<lparr>idValue = s, idWidth = int spaces\<rparr>)
      else Inl Indent_not_blank)"

text \<open>
  \<open>Indent.UnmarshalJSON\<close>. The decoder of a JSON string is \<open>encoding/json\<close>, the parameter
  \<open>unmarshal\<close>; \<^const>\<open>None\<close> is its error.
\<close>

definition UnmarshalJSON :: "(bytes \<Rightarrow> bytes option) \<Rightarrow> bytes \<Rightarrow> indent_error + Indent" where
  "UnmarshalJSON unmarshal data =
     (case unmarshal data of None \<Rightarrow> Inl Indent_not_blank | Some s \<Rightarrow> ParseIndentValue s)"

section \<open>Patches\<close>

record FormatPatch =
  fpPrintWidth :: "int option"
  fpIndent :: "Indent option"
  fpTabWidth :: "int option"
  fpAlign :: "bytes option"
  fpSeparators :: "bytes option PerConstruct option"
  fpBreak :: "bool option PerConstruct option"

definition overlay_set :: "'a option PerConstruct \<Rightarrow> Construct \<Rightarrow> 'a option PerConstruct \<Rightarrow> 'a option PerConstruct" where
  "overlay_set src c dst = (case Get src c of None \<Rightarrow> dst | Some v \<Rightarrow> Set c (Some v) dst)"

definition overlayPerConstruct ::
    "'a option PerConstruct option \<Rightarrow> 'a option PerConstruct option \<Rightarrow> 'a option PerConstruct option" where
  "overlayPerConstruct dst src =
     (case src of
        None \<Rightarrow> dst
      | Some s \<Rightarrow> Some (fold (overlay_set s) AllConstructs (case dst of None \<Rightarrow> per_construct None | Some d \<Rightarrow> d)))"

definition Apply_patch :: "FormatPatch \<Rightarrow> FormatPatch \<Rightarrow> FormatPatch" where
  "Apply_patch p base =
     (let out = base;
          out = (if fpPrintWidth p \<noteq> None then out\<lparr>fpPrintWidth := fpPrintWidth p\<rparr> else out);
          out = (if fpIndent p \<noteq> None then out\<lparr>fpIndent := fpIndent p\<rparr> else out);
          out = (if fpTabWidth p \<noteq> None then out\<lparr>fpTabWidth := fpTabWidth p\<rparr> else out);
          out = (if fpAlign p \<noteq> None then out\<lparr>fpAlign := fpAlign p\<rparr> else out) in
      out\<lparr>fpSeparators := overlayPerConstruct (fpSeparators out) (fpSeparators p),
        fpBreak := overlayPerConstruct (fpBreak out) (fpBreak p)\<rparr>)"

definition DefaultFormatPatch :: FormatPatch where
  "DefaultFormatPatch = \<lparr>fpPrintWidth = Some 80, fpIndent = Some \<lparr>idValue = ''    '', idWidth = 4\<rparr>,
     fpTabWidth = Some 4, fpAlign = Some ''field'',
     fpSeparators = Some ((per_construct None)\<lparr>pcStructs := Some ''preserve'', pcUnions := Some ''preserve'',
       pcExceptions := Some ''preserve'', pcEnums := Some ''preserve'', pcArguments := Some ''preserve'',
       pcThrows := Some ''preserve''\<rparr>),
     fpBreak = None\<rparr>"

text \<open>The errors of \<open>Validate\<close>, in the order it looks for them.\<close>

datatype patch_error =
    Bad_printWidth
  | Bad_tabWidth
  | Bad_align bytes
  | Bad_separator Construct bytes
  | Bad_indent

definition bad_separator :: "bytes option PerConstruct \<Rightarrow> Construct \<Rightarrow> patch_error option" where
  "bad_separator s c =
     (case Get s c of
        None \<Rightarrow> None
      | Some v \<Rightarrow> if separatorMode v = None then Some (Bad_separator c v) else None)"

fun first_error :: "('a \<Rightarrow> 'e option) \<Rightarrow> 'a list \<Rightarrow> 'e option" where
  "first_error f [] = None"
| "first_error f (x # xs) = (case f x of None \<Rightarrow> first_error f xs | Some e \<Rightarrow> Some e)"

definition Validate_indent :: "FormatPatch \<Rightarrow> patch_error option" where
  "Validate_indent p =
     (case fpIndent p of
        None \<Rightarrow> None
      | Some i \<Rightarrow> if idWidth i \<le> 0 \<or> \<not> isWhitespaceOnly (idValue i) then Some Bad_indent else None)"

definition Validate_separators :: "FormatPatch \<Rightarrow> patch_error option" where
  "Validate_separators p =
     (case fpSeparators p of None \<Rightarrow> None | Some s \<Rightarrow> first_error (bad_separator s) AllConstructs)"

definition Validate_align :: "FormatPatch \<Rightarrow> patch_error option" where
  "Validate_align p =
     (case fpAlign p of None \<Rightarrow> None | Some s \<Rightarrow> if alignMode s = None then Some (Bad_align s) else None)"

definition not_positive :: "patch_error \<Rightarrow> int option \<Rightarrow> patch_error option" where
  "not_positive e w = (case w of None \<Rightarrow> None | Some w \<Rightarrow> if w \<le> 0 then Some e else None)"

definition Validate :: "FormatPatch \<Rightarrow> patch_error option" where
  "Validate p = first_error id
     [not_positive Bad_printWidth (fpPrintWidth p), not_positive Bad_tabWidth (fpTabWidth p),
      Validate_align p, Validate_separators p, Validate_indent p]"

definition set_separator :: "bytes option PerConstruct \<Rightarrow> Construct \<Rightarrow> FormatOptions \<Rightarrow> FormatOptions" where
  "set_separator s c opts =
     (case Option.bind (Get s c) separatorMode of
        None \<Rightarrow> opts
      | Some mode \<Rightarrow> opts\<lparr>foSeparator := Set c mode (foSeparator opts)\<rparr>)"

definition set_break :: "bool option PerConstruct \<Rightarrow> Construct \<Rightarrow> FormatOptions \<Rightarrow> FormatOptions" where
  "set_break b c opts =
     (case Get b c of None \<Rightarrow> opts | Some v \<Rightarrow> opts\<lparr>foBreak := Set c v (foBreak opts)\<rparr>)"

definition patch_options :: "FormatPatch \<Rightarrow> FormatOptions \<Rightarrow> FormatOptions" where
  "patch_options p opts =
     (let opts = (case fpPrintWidth p of None \<Rightarrow> opts | Some w \<Rightarrow> opts\<lparr>foPrintWidth := w\<rparr>);
          opts = (case fpIndent p of None \<Rightarrow> opts | Some i \<Rightarrow> opts\<lparr>foIndent := idValue i, foTabWidth := idWidth i\<rparr>);
          opts = (case fpTabWidth p of None \<Rightarrow> opts | Some w \<Rightarrow> opts\<lparr>foTabWidth := w\<rparr>);
          opts = (case Option.bind (fpAlign p) alignMode of None \<Rightarrow> opts | Some mode \<Rightarrow> opts\<lparr>foAlign := mode\<rparr>);
          opts = (case fpSeparators p of None \<Rightarrow> opts | Some s \<Rightarrow> fold (set_separator s) AllConstructs opts) in
      case fpBreak p of None \<Rightarrow> opts | Some b \<Rightarrow> fold (set_break b) AllConstructs opts)"

definition Options_of :: "FormatPatch \<Rightarrow> patch_error + FormatOptions" where
  "Options_of p =
     (case Validate p of Some e \<Rightarrow> Inl e | None \<Rightarrow> Inr (patch_options p DefaultOptions))"

end
