(* ===== verification/FormatTokens.thy ===== *)
theory FormatTokens imports FormatConfig Ast
begin

text \<open>
  Token runs and comments: \<open>formatter/comments.go\<close> and the token emission of
  \<open>formatter/format.go\<close>. A document is a list of tokens; everything the formatter emits
  goes through \<open>emitTokens\<close> or one of the comment functions. An index expression out of
  range is \<^const>\<open>None\<close>. Token ranges are half open: \<open>emitTokens f i j\<close> is the call with
  the tokens \<open>i\<close> to \<open>j - 1\<close>.
\<close>

section \<open>Tokens\<close>

text \<open>The fields that never change while a document is formatted.\<close>

record columnAlign =
  caHasReq :: bool
  caIdWidth :: int
  caReqWidth :: int
  caTypeWidth :: int
  caAssignWidth :: int
  caEnumAssign :: bool

text \<open>A pointer to a constant is its position among the top-level nodes.\<close>

record formatter =
  fmToks :: "Token list"
  fmNodes :: "Node list"
  fmOpts :: FormatOptions
  fmConstAligns :: "nat \<rightharpoonup> columnAlign"

definition token :: "formatter \<Rightarrow> nat \<Rightarrow> Token option" where
  "token f i = (if i < length (fmToks f) then Some (fmToks f ! i) else None)"

text \<open>
  \<open>f.prevReal(i - 1)\<close>, as all call sites have it: the last real token before \<open>i\<close>, with
  \<^const>\<open>None\<close> inside for the answer -1.
\<close>

definition prev_real :: "formatter \<Rightarrow> nat \<Rightarrow> nat option option" where
  "prev_real f i = map_option (\<lambda>j. if j < 0 then None else Some (nat j)) (PrevReal (fmToks f) (int i - 1))"

definition next_real :: "formatter \<Rightarrow> nat \<Rightarrow> nat" where
  "next_real f i = NextReal (fmToks f) i"

definition lineComment :: "TokenKind \<Rightarrow> bool" where
  "lineComment k \<longleftrightarrow> k = TokenLineComment"

text \<open>\<open>strings.TrimRight(text, " \t")\<close>.\<close>

definition trimComment :: "bytes \<Rightarrow> bytes" where
  "trimComment s = rev (dropWhile (\<lambda>c. c = SPACE \<or> c = TAB) (rev s))"

definition blankLineDocs :: "nat \<Rightarrow> Doc \<Rightarrow> Doc list" where
  "blankLineDocs count l = replicate count l"

section \<open>Comments\<close>

definition ownLineComment :: "formatter \<Rightarrow> nat \<Rightarrow> nat option \<Rightarrow> bool \<Rightarrow> Doc list option" where
  "ownLineComment f c prev first =
     (case token f c of
        None \<Rightarrow> None
      | Some ct \<Rightarrow> Some ((if prev \<noteq> None \<or> \<not> first \<or> tkBlankLinesBefore ct > 0 then [SoftLine] else []) @
          blankLineDocs (tkBlankLinesBefore ct) HardLine @ [D_text (trimComment (tkText ct)), CommentLine]))"

definition sameLineComment :: "Token \<Rightarrow> Doc list \<times> bool" where
  "sameLineComment ct =
     (let parts = [D_text '' '', D_text (trimComment (tkText ct))] in
      if lineComment (tkKind ct) then (parts @ [CommentLine], True) else (parts, False))"

text \<open>\<open>sameLineRun\<close>: the comments it calls its argument for.\<close>

function sameLineRun_loop :: "formatter \<Rightarrow> nat \<Rightarrow> nat \<Rightarrow> nat list option" where
  "sameLineRun_loop f idx c =
     (if c < length (fmToks f) then
        (let ct = fmToks f ! c in
         if \<not> IsComment (tkKind ct) then Some []
         else (case token f idx of
             None \<Rightarrow> None
           | Some t \<Rightarrow> if tkLine ct \<noteq> tkLine t then Some []
               else map_option ((#) c) (sameLineRun_loop f idx (Suc c))))
      else Some [])"
  by pat_completeness auto
termination
  by (relation "measure (\<lambda>(f, idx, c). length (fmToks f) - c)") auto

declare sameLineRun_loop.simps [simp del]

definition sameLineRun :: "formatter \<Rightarrow> nat \<Rightarrow> nat list option" where
  "sameLineRun f idx = sameLineRun_loop f idx (Suc idx)"

text \<open>The loop of \<open>ownLineComments\<close> over the tokens \<open>c\<close> to \<open>idx - 1\<close>.\<close>

function ownLine_loop :: "formatter \<Rightarrow> nat option \<Rightarrow> nat \<Rightarrow> nat \<Rightarrow> bool \<Rightarrow> Doc list option" where
  "ownLine_loop f prev idx c first =
     (if c < idx then do {
        ct \<leftarrow> token f c;
        same \<leftarrow> (case prev of None \<Rightarrow> Some False | Some p \<Rightarrow> do { t \<leftarrow> token f p; Some (tkLine ct = tkLine t) });
        if same then ownLine_loop f prev idx (Suc c) first
        else do {
          parts \<leftarrow> ownLineComment f c prev first;
          rest \<leftarrow> ownLine_loop f prev idx (Suc c) False;
          Some (parts @ rest) } }
      else Some [])"
  by pat_completeness auto
termination
  by (relation "measure (\<lambda>(f, prev, idx, c, first). idx - c)") auto

declare ownLine_loop.simps [simp del]

definition after_prev :: "nat option \<Rightarrow> nat" where
  "after_prev prev = (case prev of None \<Rightarrow> 0 | Some p \<Rightarrow> Suc p)"

definition ownLineComments :: "formatter \<Rightarrow> nat \<Rightarrow> Doc list option" where
  "ownLineComments f idx = do {
     prev \<leftarrow> prev_real f idx;
     parts \<leftarrow> ownLine_loop f prev idx (after_prev prev) True;
     if parts \<noteq> [] then do {
       t \<leftarrow> token f idx;
       Some (parts @ blankLineDocs (tkBlankLinesBefore t) HardLine) }
     else Some parts }"

definition sameLineComments :: "formatter \<Rightarrow> nat \<Rightarrow> Doc list option" where
  "sameLineComments f idx =
     map_option (\<lambda>cs. concat (map (\<lambda>c. fst (sameLineComment (fmToks f ! c))) cs)) (sameLineRun f idx)"

text \<open>\<open>commentsRun\<close>: the documents, and whether the run ended the line.\<close>

function commentsRun_loop :: "formatter \<Rightarrow> nat \<Rightarrow> nat \<Rightarrow> nat \<Rightarrow> bool \<Rightarrow> (Doc list \<times> bool) option" where
  "commentsRun_loop f prev cur c ended0 =
     (if c < cur then do {
        ct \<leftarrow> token f c;
        t \<leftarrow> token f prev;
        if tkLine ct = tkLine t then do {
          let (docs, ended) = sameLineComment ct;
          (rest, e) \<leftarrow> commentsRun_loop f prev cur (Suc c) ended;
          Some (docs @ rest, e) }
        else do {
          docs \<leftarrow> ownLineComment f c (Some prev) False;
          (rest, e) \<leftarrow> commentsRun_loop f prev cur (Suc c) True;
          Some (docs @ rest, e) } }
      else Some ([], ended0))"
  by pat_completeness auto
termination
  by (relation "measure (\<lambda>(f, prev, cur, c, e). cur - c)") auto

declare commentsRun_loop.simps [simp del]

definition commentsRun :: "formatter \<Rightarrow> nat \<Rightarrow> nat \<Rightarrow> (Doc list \<times> bool) option" where
  "commentsRun f prev cur = commentsRun_loop f prev cur (Suc prev) False"

fun own_lines :: "formatter \<Rightarrow> nat \<Rightarrow> nat list \<Rightarrow> Doc list option" where
  "own_lines f idx [] = Some []"
| "own_lines f idx (c # cs) = do {
     docs \<leftarrow> ownLineComment f c (Some idx) False;
     rest \<leftarrow> own_lines f idx cs;
     Some (docs @ rest) }"

definition suppressedSepComments :: "formatter \<Rightarrow> nat \<Rightarrow> Doc list option" where
  "suppressedSepComments f idx = do { cs \<leftarrow> sameLineRun f idx; own_lines f idx cs }"

fun hasOwnLine_loop :: "formatter \<Rightarrow> nat option \<Rightarrow> nat list \<Rightarrow> bool option" where
  "hasOwnLine_loop f prev [] = Some False"
| "hasOwnLine_loop f prev (c # cs) =
     (case prev of
        None \<Rightarrow> Some True
      | Some p \<Rightarrow> do {
          ct \<leftarrow> token f c;
          t \<leftarrow> token f p;
          if tkLine ct \<noteq> tkLine t then Some True else hasOwnLine_loop f prev cs })"

definition hasOwnLineComments :: "formatter \<Rightarrow> nat \<Rightarrow> bool option" where
  "hasOwnLineComments f idx = do {
     prev \<leftarrow> prev_real f idx;
     hasOwnLine_loop f prev [after_prev prev..<idx] }"

definition hasSameLineComments :: "formatter \<Rightarrow> nat \<Rightarrow> bool option" where
  "hasSameLineComments f idx = map_option (\<lambda>cs. cs \<noteq> []) (sameLineRun f idx)"

definition sameLineEndsLine :: "formatter \<Rightarrow> nat \<Rightarrow> bool option" where
  "sameLineEndsLine f idx =
     map_option (list_ex (\<lambda>c. lineComment (tkKind (fmToks f ! c)))) (sameLineRun f idx)"

section \<open>Separators\<close>

definition isListSep :: "TokenKind \<Rightarrow> bool" where
  "isListSep k \<longleftrightarrow> k = TokenComma \<or> k = TokenSemicolon"

definition sepText :: "TokenKind \<Rightarrow> SeparatorMode \<Rightarrow> bytes" where
  "sepText prevSep mode =
     (case mode of
        SeparatorComma \<Rightarrow> '',''
      | SeparatorSemicolon \<Rightarrow> '';''
      | SeparatorNone \<Rightarrow> []
      | SeparatorPreserve \<Rightarrow> if prevSep = TokenComma then '','' else if prevSep = TokenSemicolon then '';'' else [])"

definition sepLen :: "TokenKind \<Rightarrow> SeparatorMode \<Rightarrow> int" where
  "sepLen sep mode =
     (case mode of
        SeparatorComma \<Rightarrow> 1
      | SeparatorSemicolon \<Rightarrow> 1
      | SeparatorNone \<Rightarrow> 0
      | SeparatorPreserve \<Rightarrow> if sep \<noteq> TokenInvalid then 1 else 0)"

definition sepEmits :: "TokenKind \<Rightarrow> SeparatorMode \<Rightarrow> bool" where
  "sepEmits sep mode =
     (case mode of
        SeparatorComma \<Rightarrow> True
      | SeparatorSemicolon \<Rightarrow> True
      | SeparatorNone \<Rightarrow> False
      | SeparatorPreserve \<Rightarrow> sep \<noteq> TokenInvalid)"

definition trailingSep :: "TokenKind \<Rightarrow> SeparatorMode \<Rightarrow> Doc" where
  "trailingSep sep mode =
     (case mode of
        SeparatorComma \<Rightarrow> D_text '',''
      | SeparatorSemicolon \<Rightarrow> D_text '';''
      | SeparatorNone \<Rightarrow> D_concat []
      | SeparatorPreserve \<Rightarrow>
          if sep = TokenComma then D_text '','' else if sep = TokenSemicolon then D_text '';'' else D_concat [])"

text \<open>\<open>commentBreaksGroup\<close>, over the tokens between the two items.\<close>

fun breaksGroup_loop :: "formatter \<Rightarrow> nat \<Rightarrow> nat \<Rightarrow> TokenKind \<Rightarrow> SeparatorMode \<Rightarrow> nat list \<Rightarrow> bool option" where
  "breaksGroup_loop f prevEnd l sep mode [] = Some False"
| "breaksGroup_loop f prevEnd l sep mode (c # cs) = do {
     ct \<leftarrow> token f c;
     if \<not> IsComment (tkKind ct) \<or> tkLine ct = l then breaksGroup_loop f prevEnd l sep mode cs
     else if sep \<noteq> TokenInvalid \<and> sepEmits sep mode then do {
       s \<leftarrow> token f (next_real f (Suc prevEnd));
       if tkLine ct = tkLine s then breaksGroup_loop f prevEnd l sep mode cs else Some True }
     else Some True }"

definition commentBreaksGroup :: "formatter \<Rightarrow> nat \<Rightarrow> nat \<Rightarrow> TokenKind \<Rightarrow> SeparatorMode \<Rightarrow> bool option" where
  "commentBreaksGroup f prevEnd curStart sep mode = do {
     t \<leftarrow> token f prevEnd;
     breaksGroup_loop f prevEnd (tkLine t) sep mode [Suc prevEnd..<curStart] }"

section \<open>Token runs\<close>

record emitOpts =
  eoLeading :: bool
  eoTrailing :: bool
  eoSkipText :: "nat list"
  eoText :: bytes
  eoPads :: "(int \<times> bytes) list"
  eoPrefix :: bytes

definition emit_opts :: emitOpts where
  "emit_opts = \<lparr>eoLeading = False, eoTrailing = False, eoSkipText = [], eoText = [], eoPads = [], eoPrefix = []\<rparr>"

definition padAt :: "(int \<times> bytes) list \<Rightarrow> int \<Rightarrow> bytes" where
  "padAt pads idx = concat (map snd (filter (\<lambda>p. fst p = idx) pads))"

definition rawTokenGap :: "Token \<Rightarrow> Token \<Rightarrow> bytes" where
  "rawTokenGap prev cur =
     (if tkKind cur \<in> {TokenRBrace, TokenRParen, TokenRBracket, TokenGt, TokenComma, TokenSemicolon, TokenColon} then []
      else if tkKind prev \<in> {TokenLBrace, TokenLParen, TokenLBracket, TokenLt, TokenAmp, TokenAt} then []
      else if tkKind cur = TokenLt \<and> tkKind prev \<in> {TokenMap, TokenList, TokenSet} then []
      else if tkKind prev \<in> {TokenComma, TokenSemicolon, TokenColon, TokenEqual} then '' ''
      else '' '')"

definition tokenGap :: "formatter \<Rightarrow> nat \<Rightarrow> nat \<Rightarrow> Doc option" where
  "tokenGap f prev cur = do {
     ended \<leftarrow> sameLineEndsLine f prev;
     if ended then Some (D_concat [])
     else do {
       p \<leftarrow> token f prev;
       c \<leftarrow> token f cur;
       Some (D_text (rawTokenGap p c)) } }"

definition foldBreak :: "bytes \<Rightarrow> Doc" where
  "foldBreak flat = IfBreak (Some Line) (Some (D_text flat))"

text \<open>The text of one token, or what replaces it, and its pad.\<close>

definition token_text :: "Token \<Rightarrow> bytes" where
  "token_text t = (if tkKind t = TokenAsync then ''oneway'' else tkText t)"

definition token_docs :: "emitOpts \<Rightarrow> nat \<Rightarrow> Token \<Rightarrow> Doc list" where
  "token_docs opts i t =
     (if i \<notin> set (eoSkipText opts)
      then D_text (token_text t) # (let pad = padAt (eoPads opts) (int i) in if pad \<noteq> [] then [D_text pad] else [])
      else if eoText opts \<noteq> [] then [D_text (eoText opts)]
      else [])"

text \<open>
  The loop over the tokens of a run; what comes before a token is \<open>emit_lead\<close>. \<open>prev\<close> is the last real token it emitted, and
  \<open>first\<close> is set until there is one; the result also carries the last \<open>prev\<close>.
\<close>

definition emit_lead :: "formatter \<Rightarrow> emitOpts \<Rightarrow> nat \<Rightarrow> nat \<Rightarrow> Doc list option" where
  "emit_lead f opts prev i = do {
     (comments, ended) \<leftarrow> commentsRun f prev i;
     if \<not> ended \<and> (i \<notin> set (eoSkipText opts) \<or> eoText opts \<noteq> [])
     then do { gap \<leftarrow> tokenGap f prev i; Some (comments @ [gap]) }
     else Some comments }"

function emit_loop :: "formatter \<Rightarrow> emitOpts \<Rightarrow> nat \<Rightarrow> nat \<Rightarrow> nat \<Rightarrow> bool \<Rightarrow> (Doc list \<times> nat) option" where
  "emit_loop f opts i stop prev first =
     (if i < stop then do {
        t \<leftarrow> token f i;
        if IsComment (tkKind t) then emit_loop f opts (Suc i) stop prev first
        else do {
          lead \<leftarrow> (if first then Some [] else emit_lead f opts prev i);
          (rest, prev) \<leftarrow> emit_loop f opts (Suc i) stop i False;
          Some (lead @ token_docs opts i t @ rest, prev) } }
      else Some ([], prev))"
  by pat_completeness auto
termination
  by (relation "measure (\<lambda>(f, opts, i, stop, prev, first). stop - i)") auto

declare emit_loop.simps [simp del]

definition emit_trailing :: "formatter \<Rightarrow> emitOpts \<Rightarrow> nat \<Rightarrow> Doc list option" where
  "emit_trailing f opts prev =
     (if \<not> eoTrailing opts then Some []
      else if prev \<notin> set (eoSkipText opts) \<or> eoText opts \<noteq> [] then sameLineComments f prev
      else do {
        prevTok \<leftarrow> prev_real f prev;
        same \<leftarrow> (case prevTok of
            None \<Rightarrow> Some False
          | Some p \<Rightarrow> do { a \<leftarrow> token f p; b \<leftarrow> token f prev; Some (tkLine a = tkLine b) });
        if same then sameLineComments f prev else suppressedSepComments f prev })"

definition emitTokens :: "formatter \<Rightarrow> nat \<Rightarrow> nat \<Rightarrow> emitOpts \<Rightarrow> Doc option" where
  "emitTokens f start stop opts = do {
     leading \<leftarrow> (if eoLeading opts then ownLineComments f start else Some []);
     (docs, last) \<leftarrow> emit_loop f opts start stop start True;
     trailing \<leftarrow> emit_trailing f opts last;
     Some (D_concat ((if eoPrefix opts \<noteq> [] then [D_text (eoPrefix opts)] else []) @ leading @ docs @ trailing)) }"

definition commaSep :: "formatter \<Rightarrow> nat \<Rightarrow> Doc list option" where
  "commaSep f comma = do {
     d \<leftarrow> emitTokens f comma (Suc comma) (emit_opts\<lparr>eoLeading := True, eoTrailing := True\<rparr>);
     Some [d, foldBreak '' ''] }"

definition blankBefore :: "formatter \<Rightarrow> Node \<Rightarrow> nat option" where
  "blankBefore f n = map_option tkBlankLinesBefore (token f (TokStart n))"

definition blankLines :: "formatter \<Rightarrow> Node \<Rightarrow> Doc \<Rightarrow> Doc list option" where
  "blankLines f n l = do {
     own \<leftarrow> hasOwnLineComments f (TokStart n);
     if own then Some []
     else do { count \<leftarrow> blankBefore f n; Some (blankLineDocs count l) } }"

end
