(* ===== verification/FormatParts.thy ===== *)
theory FormatParts imports FormatTokens
begin

text \<open>
  The parts of declarations: type widths (\<open>formatter/type.go\<close>), constant values
  (\<open>value.go\<close>), annotations (\<open>annotation.go\<close> and \<open>format.go\<close>) and the columns, pads and
  contents of fields and enum values (\<open>field.go\<close>). Documents with groups are built in an
  arena, which is threaded through together with the counter of group ids.
\<close>

section \<open>State\<close>

record build_state =
  bsNextID :: int
  bsArena :: Arena

type_synonym 'a build = "build_state \<Rightarrow> ('a \<times> build_state) option"

definition fresh_id :: "build_state \<Rightarrow> int \<times> build_state" where
  "fresh_id s = (bsNextID s + 1, s\<lparr>bsNextID := bsNextID s + 1\<rparr>)"

definition in_group :: "int \<Rightarrow> Doc \<Rightarrow> build_state \<Rightarrow> Doc \<times> build_state" where
  "in_group i d s = (let (g, a) = GroupID i d (bsArena s) in (g, s\<lparr>bsArena := a\<rparr>))"

definition group_of :: "Doc \<Rightarrow> build_state \<Rightarrow> Doc \<times> build_state" where
  "group_of d s = (let (g, a) = Group d (bsArena s) in (g, s\<lparr>bsArena := a\<rparr>))"

text \<open>A loop that appends to a slice and may panic.\<close>

fun build_list :: "('a \<Rightarrow> 's \<Rightarrow> ('b \<times> 's) option) \<Rightarrow> 'a list \<Rightarrow> 's \<Rightarrow> ('b list \<times> 's) option" where
  "build_list g [] s = Some ([], s)"
| "build_list g (x # xs) s = do {
     (y, s) \<leftarrow> g x s;
     (ys, s) \<leftarrow> build_list g xs s;
     Some (y # ys, s) }"

lemma build_list_cong [fundef_cong]:
  "xs = xs' \<Longrightarrow> (\<And>x t. x \<in> set xs' \<Longrightarrow> g x t = h x t) \<Longrightarrow> s = s' \<Longrightarrow> build_list g xs s = build_list h xs' s'"
proof (induction xs arbitrary: xs' s s')
  case (Cons x xs)
  then have "build_list g xs t = build_list h xs t" for t by (intro Cons.IH) auto
  then show ?case using Cons.prems by auto
qed simp

section \<open>Type widths\<close>

definition tok_text :: "formatter \<Rightarrow> nat \<Rightarrow> bytes option" where
  "tok_text f i = map_option tkText (token f i)"

fun join_comma :: "bytes list \<Rightarrow> bytes" where
  "join_comma [] = []"
| "join_comma [s] = s"
| "join_comma (s # t # ss) = s @ '', '' @ join_comma (t # ss)"

definition containerText :: "formatter \<Rightarrow> bytes \<Rightarrow> nat option \<Rightarrow> bytes list \<Rightarrow> bytes option" where
  "containerText f kind cppType inner =
     (case cppType of
        Some i \<Rightarrow> map_option (\<lambda>s. kind @ '' cpp_type '' @ s @ '' <'' @ join_comma inner @ ''>'') (tok_text f i)
      | None \<Rightarrow> Some (kind @ ''<'' @ join_comma inner @ ''>''))"

fun typeText :: "formatter \<Rightarrow> FieldType option \<Rightarrow> bytes option" where
  "typeText f None = Some []"
| "typeText f (Some (FieldType b k base ident keyT valueT cpp anns)) =
     (case k of
        TypeBase \<Rightarrow> Some (TokenKind_String base)
      | TypeIdent \<Rightarrow> map_option idText ident
      | TypeMap \<Rightarrow> do { s \<leftarrow> typeText f keyT; t \<leftarrow> typeText f valueT; containerText f ''map'' cpp [s, t] }
      | TypeList \<Rightarrow> do { t \<leftarrow> typeText f valueT; containerText f ''list'' cpp [t] }
      | TypeSet \<Rightarrow> do { t \<leftarrow> typeText f valueT; containerText f ''set'' cpp [t] })"

section \<open>Annotations\<close>

abbreviation (input) all_opts :: emitOpts where
  "all_opts \<equiv> emit_opts\<lparr>eoLeading := True, eoTrailing := True\<rparr>"

definition anno_stop :: "Annotation \<Rightarrow> nat" where
  "anno_stop item = (if anSep item \<noteq> TokenInvalid then nbLast (anBase item) else Suc (nbLast (anBase item)))"

text \<open>The items, each with the separator before it.\<close>

fun anno_middle :: "formatter \<Rightarrow> Annotation option \<Rightarrow> Annotation list \<Rightarrow> Doc list option" where
  "anno_middle f prev [] =
     (case prev of
        None \<Rightarrow> Some []
      | Some p \<Rightarrow> if anSep p \<noteq> TokenInvalid then commaSep f (nbLast (anBase p)) else Some [])"
| "anno_middle f prev (item # items) = do {
     sep \<leftarrow> (case prev of
        None \<Rightarrow> Some []
      | Some p \<Rightarrow> if anSep p \<noteq> TokenInvalid then commaSep f (nbLast (anBase p)) else Some [foldBreak '' '']);
     d \<leftarrow> emitTokens f (nbFirst (anBase item)) (anno_stop item) all_opts;
     rest \<leftarrow> anno_middle f (Some item) items;
     Some (sep @ d # rest) }"

definition annotationsDoc :: "formatter \<Rightarrow> Annotations option \<Rightarrow> bool \<Rightarrow> Doc build" where
  "annotationsDoc f a isLast s =
     (case a of
        None \<Rightarrow> Some (D_concat [], s)
      | Some a \<Rightarrow> do {
          let opn = nbFirst (asBase a);
          let cls = nbLast (asBase a);
          openDoc \<leftarrow> emitTokens f opn (Suc opn) all_opts;
          closeDoc \<leftarrow> emitTokens f cls (Suc cls) (emit_opts\<lparr>eoLeading := True\<rparr>);
          (out, s) \<leftarrow>
            (if asItems a = [] then Some (D_concat [D_text '' '', openDoc, closeDoc], s)
             else do {
               middle \<leftarrow> anno_middle f None (asItems a);
               let (g, s) = group_of (D_concat [openDoc, D_indent (D_concat [foldBreak [], D_concat middle]),
                 foldBreak [], closeDoc]) s;
               Some (D_concat [D_text '' '', g], s) });
          if isLast then Some (out, s)
          else do {
            suffix \<leftarrow> sameLineComments f cls;
            Some (D_concat [out, D_concat suffix], s) } })"

definition afterAnnotations :: "formatter \<Rightarrow> Annotations option \<Rightarrow> nat \<Rightarrow> Doc option" where
  "afterAnnotations f a stop =
     (case a of
        None \<Rightarrow> Some (D_concat [])
      | Some a \<Rightarrow>
          if nbLast (asBase a) \<ge> stop then Some (D_concat [])
          else emitTokens f (next_real f (Suc (nbLast (asBase a)))) (Suc stop) (emit_opts\<lparr>eoLeading := True\<rparr>))"

section \<open>Constant values\<close>

fun containerConstruct :: "FieldType option \<Rightarrow> Construct" where
  "containerConstruct None = ConstructList"
| "containerConstruct (Some t) =
     (case ftKind t of TypeSet \<Rightarrow> ConstructSet | TypeMap \<Rightarrow> ConstructMap | _ \<Rightarrow> ConstructList)"

record constItem =
  ciDoc :: Doc
  ciStart :: nat
  ciEnd :: nat

definition mode_text :: "SeparatorMode \<Rightarrow> bytes \<Rightarrow> bytes" where
  "mode_text mode text =
     (case mode of
        SeparatorComma \<Rightarrow> '',''
      | SeparatorSemicolon \<Rightarrow> '';''
      | SeparatorNone \<Rightarrow> []
      | SeparatorPreserve \<Rightarrow> text)"

definition itemSep :: "formatter \<Rightarrow> nat \<Rightarrow> SeparatorMode \<Rightarrow> Doc list option" where
  "itemSep f sep mode = do {
     t \<leftarrow> token f sep;
     let text = mode_text mode (tkText t);
     d \<leftarrow> emitTokens f sep (Suc sep)
       (if text \<noteq> tkText t then all_opts\<lparr>eoSkipText := [sep], eoText := text\<rparr> else all_opts);
     Some [d, foldBreak '' ''] }"

definition trailingItemSep :: "formatter \<Rightarrow> nat \<Rightarrow> SeparatorMode \<Rightarrow> Doc option" where
  "trailingItemSep f stop mode = do {
     let sep = next_real f (Suc stop);
     t \<leftarrow> token f sep;
     let hasSep = isListSep (tkKind t);
     let text = mode_text mode (if hasSep then tkText t else []);
     if \<not> hasSep then (if text = [] then Some (D_concat []) else Some (D_concat [D_text text, D_text '' '']))
     else if text = tkText t then do {
       d \<leftarrow> emitTokens f sep (Suc sep) all_opts;
       ended \<leftarrow> sameLineEndsLine f sep;
       Some (if \<not> ended then D_concat [d, D_text '' ''] else d) }
     else do {
       d \<leftarrow> emitTokens f sep (Suc sep) (all_opts\<lparr>eoSkipText := [sep], eoText := text\<rparr>);
       ended \<leftarrow> sameLineEndsLine f sep;
       Some (if text \<noteq> [] \<and> \<not> ended then D_concat [d, D_text '' ''] else d) } }"

fun sepsOf :: "formatter \<Rightarrow> constItem list \<Rightarrow> TokenKind list option" where
  "sepsOf f (a # b # items) = do {
     t \<leftarrow> token f (next_real f (Suc (ciEnd a)));
     seps \<leftarrow> sepsOf f (b # items);
     Some ((if isListSep (tkKind t) then tkKind t else TokenInvalid) # seps) }"
| "sepsOf f items = Some []"

definition sepForcesBreakList :: "TokenKind list \<Rightarrow> SeparatorMode \<Rightarrow> bool" where
  "sepForcesBreakList seps mode =
     (if mode \<noteq> SeparatorPreserve \<or> length seps < 2 then False
      else list_ex (\<lambda>sep. (sep \<noteq> TokenInvalid) \<noteq> (hd seps \<noteq> TokenInvalid)) (tl seps))"

fun items_middle :: "formatter \<Rightarrow> SeparatorMode \<Rightarrow> nat option \<Rightarrow> constItem list \<Rightarrow> Doc list option" where
  "items_middle f mode prev [] = Some []"
| "items_middle f mode prev (item # items) = do {
     sep \<leftarrow> (case prev of
        None \<Rightarrow> Some []
      | Some e \<Rightarrow> do {
          t \<leftarrow> token f (next_real f (Suc e));
          if isListSep (tkKind t) then itemSep f (next_real f (Suc e)) mode else Some [foldBreak '' ''] });
     own \<leftarrow> ownLineComments f (ciStart item);
     same \<leftarrow> sameLineComments f (ciEnd item);
     rest \<leftarrow> items_middle f mode (Some (ciEnd item)) items;
     Some (sep @ own @ ciDoc item # same @ rest) }"

definition constItems :: "formatter \<Rightarrow> constItem list \<Rightarrow> nat \<Rightarrow> nat \<Rightarrow> Construct \<Rightarrow> bool \<Rightarrow> Doc build" where
  "constItems f items opn cls c isLast s = do {
     let mode = Get (foSeparator (fmOpts f)) c;
     openDoc \<leftarrow> emitTokens f opn (Suc opn) (emit_opts\<lparr>eoTrailing := True\<rparr>);
     closeDoc \<leftarrow> emitTokens f cls (Suc cls) (emit_opts\<lparr>eoLeading := True\<rparr>);
     if items = [] then Some (D_concat [openDoc, closeDoc], s)
     else do {
       middle \<leftarrow> items_middle f mode None items;
       trailing \<leftarrow> trailingItemSep f (ciEnd (last items)) mode;
       let inner = D_concat [openDoc, D_indent (D_concat [foldBreak [], D_concat middle]), trailing,
         IfBreak (Some SoftLine) (Some (D_text [])), closeDoc];
       forced \<leftarrow> (if Get (foBreak (fmOpts f)) c then Some True
         else map_option (\<lambda>seps. sepForcesBreakList seps mode) (sepsOf f items));
       Some (group_of (if forced then D_concat [D_breakParent, inner] else inner) s) } }"

definition map_item :: "formatter \<Rightarrow> ConstMapEntry \<Rightarrow> constItem option" where
  "map_item f e = do {
     let first = nbFirst (cvBase (cmKey e));
     let stop = nbLast (cvBase (cmValue e));
     d \<leftarrow> emitTokens f first (Suc stop) emit_opts;
     Some \<lparr>ciDoc = d, ciStart = first, ciEnd = stop\<rparr> }"

fun map_items :: "formatter \<Rightarrow> ConstMapEntry list \<Rightarrow> constItem list option" where
  "map_items f [] = Some []"
| "map_items f (e # es) = do { x \<leftarrow> map_item f e; xs \<leftarrow> map_items f es; Some (x # xs) }"

definition constMap :: "formatter \<Rightarrow> nodeBase \<Rightarrow> ConstMapEntry list \<Rightarrow> bool \<Rightarrow> Doc build" where
  "constMap f b es isLast s = do {
     items \<leftarrow> map_items f es;
     constItems f items (nbFirst b) (nbLast b) ConstructMap isLast s }"

fun constValue :: "formatter \<Rightarrow> ConstValue \<Rightarrow> bool \<Rightarrow> Construct \<Rightarrow> Doc build" where
  "constValue f (ConstValue b k txt xs es) isLast c s =
     (case k of
        ValueList \<Rightarrow> do {
          (items, s) \<leftarrow> build_list (\<lambda>x s. do {
              (d, s) \<leftarrow> constValue f x False ConstructList s;
              Some (\<lparr>ciDoc = d, ciStart = nbFirst (cvBase x), ciEnd = nbLast (cvBase x)\<rparr>, s) }) xs s;
          constItems f items (nbFirst b) (nbLast b) c isLast s }
      | ValueMap \<Rightarrow> constMap f b es isLast s
      | _ \<Rightarrow> map_option (\<lambda>d. (d, s)) (emitTokens f (nbFirst b) (Suc (nbLast b)) emit_opts))"

section \<open>Structured annotations\<close>

definition structuredAnno :: "formatter \<Rightarrow> StructuredAnnotation \<Rightarrow> Doc build" where
  "structuredAnno f sa s = do {
     name \<leftarrow> saName sa;
     let nameEnd = nbLast (idBase name);
     nameDoc \<leftarrow> emitTokens f (nbFirst (saBase sa)) (Suc nameEnd) (emit_opts\<lparr>eoTrailing := True\<rparr>);
     (value, s) \<leftarrow>
       (case saValue sa of
          None \<Rightarrow> map_option (\<lambda>d. (d, s))
            (emitTokens f (next_real f (Suc nameEnd)) (Suc (nbLast (saBase sa))) (emit_opts\<lparr>eoLeading := True\<rparr>))
        | Some v \<Rightarrow>
            if cvKind v = ValueMap \<or> cvKind v = ValueList then do {
              lead \<leftarrow> ownLineComments f (nbFirst (cvBase v));
              ended \<leftarrow> (if lead \<noteq> [] then Some True else sameLineEndsLine f nameEnd);
              (d, s) \<leftarrow> constValue f v False ConstructList s;
              Some (D_concat (lead @ [if ended then D_concat [] else D_text '' '', d]), s) }
            else do {
              opn \<leftarrow> prev_real f (nbFirst (cvBase v));
              opn \<leftarrow> opn;
              d \<leftarrow> emitTokens f opn (Suc (next_real f (Suc (nbLast (cvBase v))))) (emit_opts\<lparr>eoLeading := True\<rparr>);
              Some (d, s) });
     let (g, s) = group_of (D_concat [nameDoc, value]) s;
     suffix \<leftarrow> sameLineComments f (nbLast (saBase sa));
     Some (D_concat [g, D_concat suffix], s) }"

fun structured_loop :: "formatter \<Rightarrow> bool \<Rightarrow> StructuredAnnotation list \<Rightarrow> Doc list build" where
  "structured_loop f first [] s = Some ([], s)"
| "structured_loop f first (sa # sas) s = do {
     own \<leftarrow> (if first then Some [] else ownLineComments f (nbFirst (saBase sa)));
     (d, s) \<leftarrow> structuredAnno f sa s;
     ended \<leftarrow> sameLineEndsLine f (nbLast (saBase sa));
     (rest, s) \<leftarrow> structured_loop f False sas s;
     Some (own @ d # (if ended then [] else [HardLine]) @ rest, s) }"

definition structuredAnnos :: "formatter \<Rightarrow> StructuredAnnotation list \<Rightarrow> nat \<Rightarrow> (Doc \<times> nat) build" where
  "structuredAnnos f annos start s =
     (if annos = [] then Some ((D_concat [], start), s)
      else do {
        (parts, s) \<leftarrow> structured_loop f True annos s;
        Some ((D_concat parts, next_real f (Suc (nbLast (saBase (last annos))))), s) })"

definition structuredAnnosLead :: "formatter \<Rightarrow> StructuredAnnotation list \<Rightarrow> nat \<Rightarrow> (Doc \<times> nat) build" where
  "structuredAnnosLead f annos start s = do {
     ((pre, start), s) \<leftarrow> structuredAnnos f annos start s;
     if annos = [] then Some ((pre, start), s)
     else do {
       own \<leftarrow> ownLineComments f start;
       Some ((D_concat [pre, D_concat own], start), s) } }"

definition emitWithAnnotations :: "formatter \<Rightarrow> nat \<Rightarrow> nat \<Rightarrow> Annotations option \<Rightarrow> emitOpts \<Rightarrow> Doc build" where
  "emitWithAnnotations f start stop ann opts s =
     (case ann of
        None \<Rightarrow> map_option (\<lambda>d. (d, s)) (emitTokens f start (Suc stop) opts)
      | Some a \<Rightarrow> do {
          d \<leftarrow> emitTokens f start (nbFirst (asBase a)) (opts\<lparr>eoTrailing := True\<rparr>);
          (e, s) \<leftarrow> annotationsDoc f ann (nbLast (asBase a) = stop) s;
          if nbLast (asBase a) < stop then do {
            t \<leftarrow> emitTokens f (next_real f (Suc (nbLast (asBase a)))) (Suc stop)
              (emit_opts\<lparr>eoLeading := True, eoSkipText := eoSkipText opts\<rparr>);
            Some (D_concat [d, e, t], s) }
          else Some (D_concat [d, e], s) })"

section \<open>Columns\<close>

text \<open>\<open>padRight("", w)\<close>: the shared run of spaces only saves the allocation.\<close>

definition padRight :: "bytes \<Rightarrow> int \<Rightarrow> bytes" where
  "padRight s w = s @ replicate (nat (w - int (length s))) SPACE"

definition assignPad :: "nat \<Rightarrow> int \<Rightarrow> int \<Rightarrow> int \<times> bytes" where
  "assignPad i contentWidth w = (int i, padRight [] (w - contentWidth))"

definition zero_align :: columnAlign where
  "zero_align = \<lparr>caHasReq = False, caIdWidth = 0, caReqWidth = 0, caTypeWidth = 0, caAssignWidth = 0, caEnumAssign = False\<rparr>"

definition len :: "bytes \<Rightarrow> int" where
  "len s = int (length s)"

definition req_text :: "formatter \<Rightarrow> nat \<Rightarrow> bytes option" where
  "req_text f i = map_option (\<lambda>t. TokenKind_String (tkKind t)) (token f i)"

definition align_field :: "formatter \<Rightarrow> Field \<Rightarrow> columnAlign \<Rightarrow> columnAlign option" where
  "align_field f v a = do {
     a \<leftarrow> (case fiFieldID v of
        None \<Rightarrow> Some a
      | Some i \<Rightarrow> map_option (\<lambda>s. a\<lparr>caIdWidth := max (caIdWidth a) (len s + 1)\<rparr>) (tok_text f i));
     a \<leftarrow> (case fiReq v of
        None \<Rightarrow> Some a
      | Some i \<Rightarrow> map_option (\<lambda>s. a\<lparr>caHasReq := True, caReqWidth := max (caReqWidth a) (len s)\<rparr>) (req_text f i));
     t \<leftarrow> typeText f (fiType v);
     let a = a\<lparr>caTypeWidth := max (caTypeWidth a) (len t)\<rparr>;
     if fiValue v \<noteq> None
     then map_option (\<lambda>n. a\<lparr>caAssignWidth := max (caAssignWidth a) (len (idText n))\<rparr>) (fiName v)
     else Some a }"

definition computeFieldAlign :: "formatter \<Rightarrow> Field list \<Rightarrow> columnAlign option" where
  "computeFieldAlign f fs = fold_option (align_field f) fs zero_align"

definition align_value :: "EnumValue \<Rightarrow> columnAlign \<Rightarrow> columnAlign option" where
  "align_value v a =
     (if evValue v \<noteq> None
      then map_option (\<lambda>n. a\<lparr>caAssignWidth := max (caAssignWidth a) (len (idText n))\<rparr>) (evName v)
      else Some a)"

definition computeEnumAlign :: "EnumValue list \<Rightarrow> columnAlign option" where
  "computeEnumAlign values = fold_option align_value values (zero_align\<lparr>caEnumAssign := True\<rparr>)"

text \<open>The group an item belongs to.\<close>

definition groupedWith :: "formatter \<Rightarrow> Node \<Rightarrow> Node \<Rightarrow> SeparatorMode \<Rightarrow> bool option" where
  "groupedWith f prev cur mode = do {
     t \<leftarrow> token f (TokEnd prev);
     (sep, prevEnd) \<leftarrow>
       (if isListSep (tkKind t) then map_option (\<lambda>e. (tkKind t, e)) (prev_real f (TokEnd prev))
        else Some (TokenInvalid, Some (TokEnd prev)));
     blank \<leftarrow> blankBefore f cur;
     if blank < 1 then do {
       e \<leftarrow> prevEnd;
       map_option Not (commentBreaksGroup f e (TokStart cur) sep mode) }
     else Some False }"

fun group_start :: "formatter \<Rightarrow> Node list \<Rightarrow> SeparatorMode \<Rightarrow> nat \<Rightarrow> nat option" where
  "group_start f nodes mode 0 = Some 0"
| "group_start f nodes mode (Suc i) = do {
     g \<leftarrow> groupedWith f (nodes ! i) (nodes ! Suc i) mode;
     if g then group_start f nodes mode i else Some (Suc i) }"

function group_end :: "formatter \<Rightarrow> Node list \<Rightarrow> SeparatorMode \<Rightarrow> nat \<Rightarrow> nat option" where
  "group_end f nodes mode i =
     (if Suc i < length nodes then do {
        g \<leftarrow> groupedWith f (nodes ! i) (nodes ! Suc i) mode;
        if g then group_end f nodes mode (Suc i) else Some i }
      else Some i)"
  by pat_completeness auto
termination
  by (relation "measure (\<lambda>(f, nodes, mode, i). length nodes - i)") auto

declare group_end.simps [simp del]

fun longest_name :: "SeparatorMode \<Rightarrow> Field list \<Rightarrow> int \<Rightarrow> int option" where
  "longest_name mode [] longest = Some longest"
| "longest_name mode (v # vs) longest = do {
     n \<leftarrow> fiName v;
     longest_name mode vs (max longest (len (idText n) + sepLen (fiSep v) mode)) }"

definition alignmentFits :: "formatter \<Rightarrow> Field list \<Rightarrow> columnAlign \<Rightarrow> SeparatorMode \<Rightarrow> bool option" where
  "alignmentFits f fs a mode = do {
     let limit = foPrintWidth (fmOpts f) - foTabWidth (fmOpts f);
     let columns = caIdWidth a + 1 + (if caHasReq a then caReqWidth a + 1 else 0) +
       (if foAlign (fmOpts f) = AlignField then caTypeWidth a + 1 else 0);
     longest \<leftarrow> longest_name mode fs 0;
     Some (columns + longest \<le> limit) }"

definition namePadded :: "formatter \<Rightarrow> Field \<Rightarrow> bool option" where
  "namePadded f v = do {
     n \<leftarrow> fiName v;
     case nbFirst (idBase n) of
       0 \<Rightarrow> Some False
     | Suc prev \<Rightarrow> do {
         t \<leftarrow> token f prev;
         if tkKind t = TokenAmp \<and> prev = 0 then Some False
         else do {
           let extra = (if tkKind t = TokenAmp then 1 else 0);
           t \<leftarrow> token f (prev - nat extra);
           name \<leftarrow> token f (nbFirst (idBase n));
           Some (int (tkCol name) - (int (tkCol t) + len (tkText t) - 1) > 2 + extra) } } }"

fun sourceAligned_loop :: "formatter \<Rightarrow> Field list \<Rightarrow> nat \<Rightarrow> bool \<Rightarrow> bool option" where
  "sourceAligned_loop f [] col padded = Some padded"
| "sourceAligned_loop f (v # vs) col padded = do {
     n \<leftarrow> fiName v;
     t \<leftarrow> token f (nbFirst (idBase n));
     if col \<noteq> 0 \<and> tkCol t \<noteq> col then Some False
     else do {
       p \<leftarrow> namePadded f v;
       sourceAligned_loop f vs (if col = 0 then tkCol t else col) (padded \<or> p) } }"

definition sourceAligned :: "formatter \<Rightarrow> Field list \<Rightarrow> bool option" where
  "sourceAligned f fs = sourceAligned_loop f fs 0 False"

text \<open>The inner \<^const>\<open>None\<close> is the nil alignment.\<close>

definition alignmentFor :: "formatter \<Rightarrow> Field list \<Rightarrow> nat \<Rightarrow> SeparatorMode \<Rightarrow> columnAlign option option" where
  "alignmentFor f fs i mode =
     (if foAlign (fmOpts f) = AlignDisable then Some None
      else do {
        start \<leftarrow> group_start f (map N_Field fs) mode i;
        stop \<leftarrow> group_end f (map N_Field fs) mode i;
        let members = slice start (Suc stop) fs;
        a \<leftarrow> computeFieldAlign f members;
        fits \<leftarrow> alignmentFits f members a mode;
        keep \<leftarrow> (if fits then Some True else sourceAligned f members);
        Some (if keep then Some a else None) })"

definition alignmentForEnum :: "formatter \<Rightarrow> EnumValue list \<Rightarrow> nat \<Rightarrow> SeparatorMode \<Rightarrow> columnAlign option option" where
  "alignmentForEnum f values i mode =
     (if foAlign (fmOpts f) = AlignDisable then Some None
      else do {
        start \<leftarrow> group_start f (map N_EnumValue values) mode i;
        stop \<leftarrow> group_end f (map N_EnumValue values) mode i;
        a \<leftarrow> computeEnumAlign (slice start (Suc stop) values);
        Some (Some a) })"

section \<open>Fields\<close>

text \<open>Whether a comment stands in one of the tokens or on the line of one.\<close>

fun comment_inside :: "formatter \<Rightarrow> nat list \<Rightarrow> bool option" where
  "comment_inside f [] = Some False"
| "comment_inside f (i # is) = do {
     t \<leftarrow> token f i;
     c \<leftarrow> (if IsComment (tkKind t) then Some True else hasSameLineComments f i);
     if c then Some True else comment_inside f is }"

definition type_end :: "FieldType \<Rightarrow> int" where
  "type_end ty = (case ftAnnotations ty of None \<Rightarrow> int (nbLast (ftBaseNode ty)) | Some an \<Rightarrow> int (nbFirst (asBase an)) - 1)"

definition fieldPads :: "formatter \<Rightarrow> Field \<Rightarrow> columnAlign \<Rightarrow> ((int \<times> bytes) list \<times> bytes) option" where
  "fieldPads f v a = do {
     let start = nbFirst (fiBase v);
     contentEnd \<leftarrow> prev_real f (if fiSep v \<noteq> TokenInvalid then nbLast (fiBase v) else Suc (nbLast (fiBase v)));
     c \<leftarrow> comment_inside f [start..<(case contentEnd of None \<Rightarrow> 0 | Some e \<Rightarrow> e)];
     if c then Some ([], [])
     else do {
       idPad \<leftarrow> (case fiFieldID v of
           None \<Rightarrow> Some []
         | Some i \<Rightarrow> map_option (\<lambda>s. [(int start + 1, padRight [] (caIdWidth a - len s - 1))]) (tok_text f i));
       let emptyReq = padRight [] (caReqWidth a + 1);
       if fiReq v = None \<and> caHasReq a \<and> fiFieldID v = None then Some ([], emptyReq)
       else do {
         reqPad \<leftarrow> (case fiReq v of
             Some i \<Rightarrow> do {
               ty \<leftarrow> fiType v;
               text \<leftarrow> req_text f i;
               Some [(int (nbFirst (ftBaseNode ty)) - 1, padRight [] (caReqWidth a - len text))] }
           | None \<Rightarrow> Some (if caHasReq a then [(int start + 1, emptyReq)] else []));
         typePad \<leftarrow> (if foAlign (fmOpts f) = AlignField then do {
             ty \<leftarrow> fiType v;
             text \<leftarrow> typeText f (Some ty);
             Some [(type_end ty, padRight [] (caTypeWidth a - len text))] }
           else Some []);
         namePad \<leftarrow> (if fiValue v \<noteq> None \<and> caAssignWidth a > 0 then do {
             n \<leftarrow> fiName v;
             Some [assignPad (nbFirst (idBase n)) (len (idText n)) (caAssignWidth a)] }
           else Some []);
         Some (idPad @ reqPad @ typePad @ namePad, []) } } }"

definition skip_sep :: "TokenKind \<Rightarrow> nat \<Rightarrow> emitOpts" where
  "skip_sep sep stop = (if sep \<noteq> TokenInvalid then emit_opts\<lparr>eoSkipText := [stop]\<rparr> else emit_opts)"

definition fieldContent :: "formatter \<Rightarrow> Field \<Rightarrow> columnAlign option \<Rightarrow> bool \<Rightarrow> Doc build" where
  "fieldContent f v align padded s = do {
     ((pre, start), s) \<leftarrow> structuredAnnosLead f (fiStructured v) (nbFirst (fiBase v)) s;
     let opts = skip_sep (fiSep v) (nbLast (fiBase v));
     opts \<leftarrow> (case align of
         Some a \<Rightarrow> if padded \<and> fiStructured v = []
           then map_option (\<lambda>(pads, prefix). opts\<lparr>eoPads := pads, eoPrefix := prefix\<rparr>) (fieldPads f v a)
           else Some opts
       | None \<Rightarrow> Some opts);
     (d, s) \<leftarrow> emitWithAnnotations f start (nbLast (fiBase v)) (fiAnnotations v) opts s;
     Some (D_concat [pre, d], s) }"

definition nodeTrailingInline :: "formatter \<Rightarrow> nat \<Rightarrow> TokenKind \<Rightarrow> SeparatorMode \<Rightarrow> bool option" where
  "nodeTrailingInline f stop sep mode =
     (if sep = TokenInvalid \<or> sepEmits sep mode then Some True
      else do {
        prev \<leftarrow> prev_real f stop;
        case prev of
          None \<Rightarrow> Some False
        | Some p \<Rightarrow> do { a \<leftarrow> token f p; b \<leftarrow> token f stop; Some (tkLine a = tkLine b) } })"

definition itemTrailing :: "formatter \<Rightarrow> nat \<Rightarrow> TokenKind \<Rightarrow> SeparatorMode \<Rightarrow> Doc list option" where
  "itemTrailing f stop sep mode = do {
     inline \<leftarrow> nodeTrailingInline f stop sep mode;
     if inline then sameLineComments f stop else suppressedSepComments f stop }"

definition fieldDoc :: "formatter \<Rightarrow> Field \<Rightarrow> columnAlign option \<Rightarrow> int \<Rightarrow> SeparatorMode \<Rightarrow> Doc build" where
  "fieldDoc f v align bodyID mode s = do {
     (d, s) \<leftarrow> fieldContent f v align True s;
     let broken = D_concat [d, trailingSep (fiSep v) mode];
     (flat, s) \<leftarrow> fieldContent f v align False s;
     own \<leftarrow> ownLineComments f (nbFirst (fiBase v));
     trailing \<leftarrow> itemTrailing f (nbLast (fiBase v)) (fiSep v) mode;
     Some (D_concat (own @ (if bodyID \<noteq> 0 then IfBreakFor (Some broken) (Some flat) bodyID else broken) # trailing), s) }"

definition fieldSep :: "TokenKind \<Rightarrow> SeparatorMode \<Rightarrow> Doc" where
  "fieldSep prevSep mode = IfBreak (Some Line) (Some (D_concat [D_text (sepText prevSep mode), Line]))"

fun fields_from :: "formatter \<Rightarrow> Field list \<Rightarrow> int \<Rightarrow> SeparatorMode \<Rightarrow> nat list \<Rightarrow> Doc list build" where
  "fields_from f fs bodyID mode [] s = Some ([], s)"
| "fields_from f fs bodyID mode (i # is) s = do {
     blank \<leftarrow> blankLines f (N_Field (fs ! i)) HardLine;
     align \<leftarrow> alignmentFor f fs i mode;
     (d, s) \<leftarrow> fieldDoc f (fs ! i) align bodyID mode s;
     (rest, s) \<leftarrow> fields_from f fs bodyID mode is s;
     Some ((if i > 0 then [fieldSep (fiSep (fs ! (i - 1))) mode] else []) @ blank @ d # rest, s) }"

definition fieldList :: "formatter \<Rightarrow> Field list \<Rightarrow> int \<Rightarrow> SeparatorMode \<Rightarrow> Doc build" where
  "fieldList f fs bodyID mode s =
     map_option (\<lambda>(parts, s). (D_concat parts, s)) (fields_from f fs bodyID mode [0..<length fs] s)"

section \<open>Enum values\<close>

fun any_comment :: "formatter \<Rightarrow> nat list \<Rightarrow> bool option" where
  "any_comment f [] = Some False"
| "any_comment f (i # is) = do {
     t \<leftarrow> token f i;
     if IsComment (tkKind t) then Some True else any_comment f is }"

definition enumValueContent :: "formatter \<Rightarrow> EnumValue \<Rightarrow> columnAlign option \<Rightarrow> bool \<Rightarrow> Doc build" where
  "enumValueContent f v align padded s = do {
     let start = nbFirst (evBase v);
     let stop = nbLast (evBase v);
     let opts = skip_sep (evSep v) stop;
     opts \<leftarrow> (case align of
         None \<Rightarrow> Some opts
       | Some a \<Rightarrow>
           if padded \<and> caEnumAssign a \<and> caAssignWidth a > 0 \<and> evValue v \<noteq> None then do {
             contentEnd \<leftarrow> (if evSep v \<noteq> TokenInvalid then prev_real f stop else Some (Some stop));
             c \<leftarrow> any_comment f [Suc start..<(case contentEnd of None \<Rightarrow> 0 | Some e \<Rightarrow> Suc e)];
             if c then Some opts
             else do {
               n \<leftarrow> evName v;
               Some (opts\<lparr>eoPads := [assignPad (nbFirst (idBase n)) (len (idText n)) (caAssignWidth a)]\<rparr>) } }
           else Some opts);
     emitWithAnnotations f start stop (evAnnotations v) opts s }"

definition enumValue :: "formatter \<Rightarrow> EnumValue \<Rightarrow> columnAlign option \<Rightarrow> int \<Rightarrow> Doc build" where
  "enumValue f v align bodyID s = do {
     let mode = Get (foSeparator (fmOpts f)) ConstructEnum;
     (d, s) \<leftarrow> enumValueContent f v align True s;
     let broken = D_concat [d, trailingSep (evSep v) mode];
     (flat, s) \<leftarrow> enumValueContent f v align False s;
     own \<leftarrow> ownLineComments f (nbFirst (evBase v));
     trailing \<leftarrow> itemTrailing f (nbLast (evBase v)) (evSep v) mode;
     Some (D_concat (own @ (if bodyID \<noteq> 0 then IfBreakFor (Some broken) (Some flat) bodyID else broken) # trailing), s) }"

fun values_from :: "formatter \<Rightarrow> EnumValue list \<Rightarrow> int \<Rightarrow> nat list \<Rightarrow> Doc list build" where
  "values_from f values bodyID [] s = Some ([], s)"
| "values_from f values bodyID (i # is) s = do {
     let mode = Get (foSeparator (fmOpts f)) ConstructEnum;
     blank \<leftarrow> blankLines f (N_EnumValue (values ! i)) HardLine;
     align \<leftarrow> alignmentForEnum f values i mode;
     (d, s) \<leftarrow> enumValue f (values ! i) align bodyID s;
     (rest, s) \<leftarrow> values_from f values bodyID is s;
     Some ((if i > 0 then [fieldSep (evSep (values ! (i - 1))) mode] else []) @ blank @ d # rest, s) }"

definition enumValueList :: "formatter \<Rightarrow> EnumValue list \<Rightarrow> int \<Rightarrow> Doc build" where
  "enumValueList f values bodyID s =
     map_option (\<lambda>(parts, s). (D_concat parts, s)) (values_from f values bodyID [0..<length values] s)"

end
