(* ===== verification/Diff.thy ===== *)
theory Diff imports Slices
begin

text \<open>
  The anchored diff of \<open>formatter/diff.go\<close>: the lines of a text, the longest common
  subsequence of the lines that are unique in both texts (\<open>tgs\<close>, by piles), and the
  loop that turns the anchors into the hunks of a unified diff. A panic of an index or a
  slice expression is \<open>None\<close>.
\<close>

section \<open>Lines\<close>

text \<open>\<open>strings.SplitAfter\<close> at line ends.\<close>

fun split_after :: "bytes \<Rightarrow> bytes list" where
  "split_after [] = [[]]"
| "split_after (c # cs) = (if c = LF then [c] # split_after cs else (c # hd (split_after cs)) # tl (split_after cs))"

definition no_newline :: bytes where
  "no_newline = LF # BACKSLASH # '' No newline at end of file'' @ [LF]"

definition diff_lines :: "bytes \<Rightarrow> bytes list" where
  "diff_lines x =
     (let l = split_after x in if last l = [] then butlast l else butlast l @ [last l @ no_newline])"

section \<open>Anchors\<close>

text \<open>Counting: a missing line counts as 0.\<close>

definition seen :: "(bytes \<rightharpoonup> int) \<Rightarrow> bytes \<Rightarrow> int" where
  "seen m s = (case m s of None \<Rightarrow> 0 | Some c \<Rightarrow> c)"

definition count_line :: "int \<Rightarrow> int \<Rightarrow> bytes \<Rightarrow> (bytes \<rightharpoonup> int) \<Rightarrow> (bytes \<rightharpoonup> int)" where
  "count_line limit d s m = (let c = seen m s in if c > limit then m(s \<mapsto> c - d) else m)"

fun mark_y :: "nat \<Rightarrow> bytes list \<Rightarrow> (bytes \<rightharpoonup> int) \<Rightarrow> nat list \<Rightarrow> (bytes \<rightharpoonup> int) \<times> nat list" where
  "mark_y i [] m yi = (m, yi)"
| "mark_y i (s # ss) m yi =
     (if seen m s = - 1 + - 4 then mark_y (Suc i) ss (m(s \<mapsto> int (length yi))) (yi @ [i])
      else mark_y (Suc i) ss m yi)"

fun mark_x :: "nat \<Rightarrow> bytes list \<Rightarrow> (bytes \<rightharpoonup> int) \<Rightarrow> nat list \<Rightarrow> nat list \<Rightarrow> nat list \<times> nat list" where
  "mark_x i [] m xi J = (xi, J)"
| "mark_x i (s # ss) m xi J =
     (case m s of
        None \<Rightarrow> mark_x (Suc i) ss m xi J
      | Some j \<Rightarrow> if j \<ge> 0 then mark_x (Suc i) ss m (xi @ [i]) (J @ [nat j]) else mark_x (Suc i) ss m xi J)"

text \<open>Szymanski's Algorithm A; \<open>T\<close> are the tops of the piles.\<close>

fun piles :: "nat list \<Rightarrow> nat list \<Rightarrow> nat list \<Rightarrow> nat list option" where
  "piles T [] L = Some L"
| "piles T (j # js) L =
     (let k = sort_Search (length T) (\<lambda>k. T ! k \<ge> j) in
      if k < length T then piles (T[k := j]) js (L @ [k + 1]) else None)"

fun max_pile :: "nat list \<Rightarrow> nat \<Rightarrow> nat" where
  "max_pile [] k = k"
| "max_pile (v # vs) k = max_pile vs (if k < v then v else k)"

text \<open>The last loop, over the triples of \<open>L[i]\<close>, \<open>J[i]\<close> and \<open>xi[i]\<close> from the back.\<close>

fun pick :: "nat \<Rightarrow> nat list \<Rightarrow> (nat \<times> nat \<times> nat) list \<Rightarrow> nat \<Rightarrow> (nat \<times> nat) list \<Rightarrow> (nat \<times> nat) list option" where
  "pick lastj yi [] k sq = Some sq"
| "pick lastj yi ((l, j, i) # rest) k sq =
     (if l = k \<and> j < lastj
      then (if j < length yi \<and> k < length sq \<and> k > 0 then pick lastj yi rest (k - 1) (sq[k := (i, yi ! j)]) else None)
      else pick lastj yi rest k sq)"

definition tgs :: "bytes list \<Rightarrow> bytes list \<Rightarrow> (nat \<times> nat) list option" where
  "tgs x y =
     (let m = fold (count_line (- 2) 1) x Map.empty;
          m = fold (count_line (- 8) 4) y m;
          (m, yi) = mark_y 0 y m [];
          (xi, J) = mark_x 0 x m [] [];
          n = length xi in
      case piles (replicate n (n + 1)) J [] of
        None \<Rightarrow> None
      | Some L \<Rightarrow>
          (let k = max_pile L 0;
               sq = (replicate (2 + k) (0, 0))[1 + k := (length x, length y)] in
           case pick n yi (rev (zip L (zip J xi))) k sq of
             None \<Rightarrow> None
           | Some sq \<Rightarrow> Some (sq[0 := (0, 0)])))"

section \<open>Hunks\<close>

record hunk =
  hkX :: nat
  hkXCount :: nat
  hkY :: nat
  hkYCount :: nat
  hkText :: "bytes list"

record diff_state =
  dsDone :: "nat \<times> nat"
  dsChunk :: "nat \<times> nat"
  dsCount :: "nat \<times> nat"
  dsText :: "bytes list"
  dsOut :: "hunk list"

definition prefixed :: "char \<Rightarrow> bytes list \<Rightarrow> bytes list" where
  "prefixed c = map ((#) c)"

definition context_lines :: nat where
  "context_lines = 3"

text \<open>The expansion of a match to the lines around it.\<close>

fun expand_back :: "bytes list \<Rightarrow> bytes list \<Rightarrow> nat \<times> nat \<Rightarrow> nat \<Rightarrow> nat \<Rightarrow> nat \<times> nat" where
  "expand_back x y dn (Suc a) (Suc b) =
     (if Suc a > fst dn \<and> Suc b > snd dn \<and> x ! a = y ! b then expand_back x y dn a b else (Suc a, Suc b))"
| "expand_back x y dn a b = (a, b)"

function expand :: "bytes list \<Rightarrow> bytes list \<Rightarrow> nat \<Rightarrow> nat \<Rightarrow> nat \<times> nat" where
  "expand x y a b =
     (if a < length x \<and> b < length y \<and> x ! a = y ! b then expand x y (Suc a) (Suc b) else (a, b))"
  by pat_completeness auto
termination
  by (relation "measure (\<lambda>(x, y, a, b). length x - a)") auto

declare expand.simps [simp del]

text \<open>A slice expression.\<close>

definition sub_lines :: "nat \<Rightarrow> nat \<Rightarrow> bytes list \<Rightarrow> bytes list option" where
  "sub_lines i j xs = (if i \<le> j \<and> j \<le> length xs then Some (slice i j xs) else None)"

text \<open>Mismatched lines before the match.\<close>

definition emit_changes :: "bytes list \<Rightarrow> bytes list \<Rightarrow> nat \<times> nat \<Rightarrow> diff_state \<Rightarrow> diff_state option" where
  "emit_changes x y start s =
     (case (sub_lines (fst (dsDone s)) (fst start) x, sub_lines (snd (dsDone s)) (snd start) y) of
        (Some xs, Some ys) \<Rightarrow>
          Some (s\<lparr>dsText := dsText s @ prefixed (CHR ''-'') xs @ prefixed (CHR ''+'') ys,
            dsCount := (fst (dsCount s) + length xs, snd (dsCount s) + length ys)\<rparr>)
      | _ \<Rightarrow> None)"

text \<open>Common lines.\<close>

definition emit_common :: "bytes list \<Rightarrow> nat \<Rightarrow> nat \<Rightarrow> diff_state \<Rightarrow> diff_state option" where
  "emit_common x a b s =
     (case sub_lines a b x of
        None \<Rightarrow> None
      | Some xs \<Rightarrow>
          Some (s\<lparr>dsText := dsText s @ prefixed (CHR '' '') xs,
            dsCount := (fst (dsCount s) + length xs, snd (dsCount s) + length xs)\<rparr>))"

definition end_chunk :: "bytes list \<Rightarrow> nat \<times> nat \<Rightarrow> nat \<times> nat \<Rightarrow> diff_state \<Rightarrow> diff_state option" where
  "end_chunk x start stop s =
     (if dsText s = [] then Some s
      else
        (let n = min (fst stop - fst start) context_lines in
         case emit_common x (fst start) (fst start + n) s of
           None \<Rightarrow> None
         | Some s \<Rightarrow>
             (let h = \<lparr>hkX = (if fst (dsCount s) > 0 then fst (dsChunk s) + 1 else fst (dsChunk s)),
                  hkXCount = fst (dsCount s),
                  hkY = (if snd (dsCount s) > 0 then snd (dsChunk s) + 1 else snd (dsChunk s)),
                  hkYCount = snd (dsCount s), hkText = dsText s\<rparr> in
              Some (s\<lparr>dsDone := (fst start + n, snd start + n), dsChunk := (hkX h, hkY h),
                dsOut := dsOut s @ [h], dsCount := (0, 0), dsText := []\<rparr>))))"

definition new_chunk :: "bytes list \<Rightarrow> nat \<times> nat \<Rightarrow> diff_state \<Rightarrow> diff_state option" where
  "new_chunk x stop s =
     (if fst stop < context_lines \<or> snd stop < context_lines then None
      else
        (let chunk = (fst stop - context_lines, snd stop - context_lines) in
         map_option (\<lambda>s. s\<lparr>dsDone := stop\<rparr>) (emit_common x (fst chunk) (fst stop) (s\<lparr>dsChunk := chunk\<rparr>))))"

fun hunks_loop :: "bytes list \<Rightarrow> bytes list \<Rightarrow> (nat \<times> nat) list \<Rightarrow> diff_state \<Rightarrow> diff_state option" where
  "hunks_loop x y [] s = Some s"
| "hunks_loop x y (m # ms) s =
     (if fst m < fst (dsDone s) then hunks_loop x y ms s
      else
        (let start = expand_back x y (dsDone s) (fst m) (snd m);
             stop = expand x y (fst m) (snd m);
             more = fst stop < length x \<or> snd stop < length y;
             common = fst stop - fst start in
         case emit_changes x y start s of
           None \<Rightarrow> None
         | Some s \<Rightarrow>
             if more \<and> (common < context_lines \<or> dsText s \<noteq> [] \<and> common < 2 * context_lines)
             then (case emit_common x (fst start) (fst stop) s of
                 None \<Rightarrow> None
               | Some s \<Rightarrow> hunks_loop x y ms (s\<lparr>dsDone := stop\<rparr>))
             else (case end_chunk x start stop s of
                 None \<Rightarrow> None
               | Some s \<Rightarrow>
                   if \<not> more then Some s
                   else (case new_chunk x stop s of None \<Rightarrow> None | Some s \<Rightarrow> hunks_loop x y ms s))))"

definition hunks :: "bytes list \<Rightarrow> bytes list \<Rightarrow> hunk list option" where
  "hunks x y =
     (case tgs x y of
        None \<Rightarrow> None
      | Some ms \<Rightarrow> map_option dsOut
          (hunks_loop x y ms \<lparr>dsDone = (0, 0), dsChunk = (0, 0), dsCount = (0, 0), dsText = [], dsOut = []\<rparr>))"

section \<open>The text of a diff\<close>

text \<open>\<open>%d\<close> for a natural number.\<close>

fun decimal :: "nat \<Rightarrow> bytes" where
  "decimal n = (if n < 10 then [char_of (48 + n)] else decimal (n div 10) @ [char_of (48 + n mod 10)])"

declare decimal.simps [simp del]

definition hunk_text :: "hunk \<Rightarrow> bytes" where
  "hunk_text h = ''@@ -'' @ decimal (hkX h) @ '','' @ decimal (hkXCount h) @ '' +'' @ decimal (hkY h) @ '','' @
     decimal (hkYCount h) @ '' @@'' @ [LF] @ concat (hkText h)"

definition diff_header :: "bytes \<Rightarrow> bytes \<Rightarrow> bytes" where
  "diff_header oldName newName = ''diff '' @ oldName @ '' '' @ newName @ [LF] @
     ''--- '' @ oldName @ [LF] @ ''+++ '' @ newName @ [LF]"

definition diff :: "bytes \<Rightarrow> bytes \<Rightarrow> bytes \<Rightarrow> bytes \<Rightarrow> bytes option" where
  "diff oldName old newName new =
     (if old = new then Some []
      else map_option (\<lambda>hs. diff_header oldName newName @ concat (map hunk_text hs)) (hunks (diff_lines old) (diff_lines new)))"

end
