(* ===== verification/Format.thy ===== *)
theory Format imports FormatParts Parser Diff
begin

text \<open>
  Declarations and documents: \<open>formatter/body.go\<close>, the rest of \<open>formatter/format.go\<close> and
  \<open>formatter/file.go\<close>. \<open>Format\<close> parses nothing: it prints the document it builds from a
  syntax tree; \<open>FormatFile\<close> puts the parser, the options, \<open>Format\<close> and \<open>diff\<close> together.
\<close>

section \<open>Bodies in braces\<close>

fun scan_list :: "formatter \<Rightarrow> TokenKind \<Rightarrow> nat list \<Rightarrow> nat \<Rightarrow> nat option" where
  "scan_list f k [] stop = Some stop"
| "scan_list f k (i # is) stop = do { t \<leftarrow> token f i; if tkKind t = k then Some i else scan_list f k is stop }"

definition scanKind :: "formatter \<Rightarrow> nat \<Rightarrow> nat \<Rightarrow> TokenKind \<Rightarrow> nat option" where
  "scanKind f start stop k = scan_list f k [start..<Suc stop] stop"

definition constructOf :: "TokenKind \<Rightarrow> Construct" where
  "constructOf k =
     (if k = TokenUnion then ConstructUnion
      else if k = TokenException then ConstructException
      else ConstructStruct)"

definition sepForcesBreak :: "TokenKind list \<Rightarrow> SeparatorMode \<Rightarrow> bool" where
  "sepForcesBreak seps mode =
     (if seps \<noteq> [] \<and> mode \<noteq> SeparatorNone \<and> last seps \<noteq> TokenInvalid then True
      else if mode \<noteq> SeparatorPreserve \<or> length seps < 2 then False
      else list_ex (\<lambda>sep. (sep \<noteq> TokenInvalid) \<noteq> (hd seps \<noteq> TokenInvalid)) (slice 1 (length seps - 1) seps))"

definition open_brace :: "formatter \<Rightarrow> nat \<Rightarrow> Doc option" where
  "open_brace f opn = do {
     comments \<leftarrow> sameLineComments f opn;
     Some (D_concat (D_text '' {'' # comments @ (if comments \<noteq> [] then [D_breakParent] else []))) }"

definition close_opts :: "bool \<Rightarrow> emitOpts" where
  "close_opts t = emit_opts\<lparr>eoTrailing := t\<rparr>"

definition bracedGroup :: "formatter \<Rightarrow> Doc \<Rightarrow> int \<Rightarrow> nat \<Rightarrow> nat \<Rightarrow> nat \<Rightarrow> bool \<Rightarrow> bool \<Rightarrow> Doc build" where
  "bracedGroup f body bodyID n opn cls closeTrailing forced s = do {
     own \<leftarrow> ownLineComments f cls;
     let inner = (if n > 0 then Line # body # own else own);
     let closeBreak = IfBreak (Some SoftLine) (Some (if n > 0 then D_text '' '' else D_concat []));
     openDoc \<leftarrow> open_brace f opn;
     closeDoc \<leftarrow> emitTokens f cls (Suc cls) (close_opts closeTrailing);
     let content = D_concat [openDoc, D_indent (D_concat inner), closeBreak, closeDoc];
     Some (in_group bodyID (if n > 0 \<and> forced then D_concat [D_breakParent, content] else content) s) }"

definition bracedBody :: "formatter \<Rightarrow> Field list \<Rightarrow> nat \<Rightarrow> nat \<Rightarrow> bool \<Rightarrow> Construct \<Rightarrow> Doc build" where
  "bracedBody f fs opn cls closeTrailing c s = do {
     let (bodyID, s) = fresh_id s;
     let mode = Get (foSeparator (fmOpts f)) c;
     let forced = Get (foBreak (fmOpts f)) c \<or> sepForcesBreak (map fiSep fs) mode;
     (body, s) \<leftarrow> fieldList f fs bodyID mode s;
     bracedGroup f body bodyID (length fs) opn cls closeTrailing forced s }"

definition bracedEnumBody :: "formatter \<Rightarrow> EnumValue list \<Rightarrow> nat \<Rightarrow> nat \<Rightarrow> bool \<Rightarrow> Doc build" where
  "bracedEnumBody f values opn cls closeTrailing s = do {
     let (bodyID, s) = fresh_id s;
     let mode = Get (foSeparator (fmOpts f)) ConstructEnum;
     let forced = Get (foBreak (fmOpts f)) ConstructEnum \<or> sepForcesBreak (map evSep values) mode;
     (body, s) \<leftarrow> enumValueList f values bodyID s;
     bracedGroup f body bodyID (length values) opn cls closeTrailing forced s }"

definition ends_at :: "Annotations option \<Rightarrow> nat \<Rightarrow> bool" where
  "ends_at ann stop = (case ann of None \<Rightarrow> False | Some a \<Rightarrow> nbLast (asBase a) = stop)"

text \<open>\<open>open\<close> and \<open>close\<close> of a declaration, and its header.\<close>

definition braces :: "formatter \<Rightarrow> nat \<Rightarrow> nat \<Rightarrow> (nat \<times> nat \<times> Doc) option" where
  "braces f start stop = do {
     opn \<leftarrow> scanKind f start stop TokenLBrace;
     cls \<leftarrow> scanKind f (Suc opn) stop TokenRBrace;
     header \<leftarrow> emitTokens f start (Suc opn) (emit_opts\<lparr>eoSkipText := [opn]\<rparr>);
     Some (opn, cls, header) }"

definition structLike :: "formatter \<Rightarrow> Struct \<Rightarrow> Doc build" where
  "structLike f v s = do {
     let stop = nbLast (stBase v);
     ((pre, start), s) \<leftarrow> structuredAnnosLead f (stStructured v) (nbFirst (stBase v)) s;
     (opn, cls, header) \<leftarrow> braces f start stop;
     (body, s) \<leftarrow> bracedBody f (stFields v) opn cls (cls \<noteq> stop) (constructOf (stKind v)) s;
     (ann, s) \<leftarrow> annotationsDoc f (stAnnotations v) (ends_at (stAnnotations v) stop) s;
     tail \<leftarrow> afterAnnotations f (stAnnotations v) stop;
     Some (D_concat [pre, header, body, ann, tail], s) }"

definition enum_doc :: "formatter \<Rightarrow> Enum \<Rightarrow> Doc build" where
  "enum_doc f v s = do {
     let stop = nbLast (enBase v);
     ((pre, start), s) \<leftarrow> structuredAnnosLead f (enStructured v) (nbFirst (enBase v)) s;
     (opn, cls, header) \<leftarrow> braces f start stop;
     (body, s) \<leftarrow> bracedEnumBody f (enValues v) opn cls (cls \<noteq> stop) s;
     (ann, s) \<leftarrow> annotationsDoc f (enAnnotations v) (ends_at (enAnnotations v) stop) s;
     tail \<leftarrow> afterAnnotations f (enAnnotations v) stop;
     Some (D_concat [pre, header, body, ann, tail], s) }"

section \<open>Functions\<close>

fun broken_from :: "formatter \<Rightarrow> Field list \<Rightarrow> SeparatorMode \<Rightarrow> nat list \<Rightarrow> Doc list build" where
  "broken_from f fs mode [] s = Some ([], s)"
| "broken_from f fs mode (i # is) s = do {
     blank \<leftarrow> blankLines f (N_Field (fs ! i)) HardLine;
     align \<leftarrow> alignmentFor f fs i mode;
     (d, s) \<leftarrow> fieldDoc f (fs ! i) align 0 mode s;
     (rest, s) \<leftarrow> broken_from f fs mode is s;
     Some ((if i > 0 then [Line] else []) @ blank @ d # rest, s) }"

definition brokenFields :: "formatter \<Rightarrow> Field list \<Rightarrow> SeparatorMode \<Rightarrow> Doc build" where
  "brokenFields f fs mode s =
     map_option (\<lambda>(parts, s). (D_concat parts, s)) (broken_from f fs mode [0..<length fs] s)"

definition brokenParens :: "formatter \<Rightarrow> Field list \<Rightarrow> nat \<Rightarrow> nat \<Rightarrow> SeparatorMode \<Rightarrow> Doc build" where
  "brokenParens f fs opn cls mode s = do {
     comments \<leftarrow> sameLineComments f opn;
     if fs = [] then do {
       closeDoc \<leftarrow> emitTokens f cls (Suc cls) (emit_opts\<lparr>eoLeading := True\<rparr>);
       Some (D_concat [D_text ''('', D_concat comments, closeDoc], s) }
     else do {
       (body, s) \<leftarrow> brokenFields f fs mode s;
       own \<leftarrow> ownLineComments f cls;
       Some (D_concat (D_text ''('' # comments @ [D_indent (D_concat (Line # body # own)), Line, D_text '')'']), s) } }"

fun flat_from :: "formatter \<Rightarrow> Field option \<Rightarrow> Field list \<Rightarrow> SeparatorMode \<Rightarrow> Doc list build" where
  "flat_from f prev [] mode s = Some ([], s)"
| "flat_from f prev (v # vs) mode s = do {
     (d, s) \<leftarrow> fieldContent f v None False s;
     (rest, s) \<leftarrow> flat_from f (Some v) vs mode s;
     Some ((case prev of None \<Rightarrow> [] | Some p \<Rightarrow> [D_concat [D_text (sepText (fiSep p) mode), Line]]) @ d # rest, s) }"

definition flatFieldsJoin :: "formatter \<Rightarrow> Field list \<Rightarrow> SeparatorMode \<Rightarrow> Doc build" where
  "flatFieldsJoin f fs mode s = map_option (\<lambda>(parts, s). (D_concat parts, s)) (flat_from f None fs mode s)"

definition parenGroup :: "formatter \<Rightarrow> Field list \<Rightarrow> nat \<Rightarrow> nat \<Rightarrow> bool \<Rightarrow> SeparatorMode \<Rightarrow> Doc build" where
  "parenGroup f fs opn cls forced mode s = do {
     (broken, s) \<leftarrow> brokenParens f fs opn cls mode s;
     let broken = (if forced then D_concat [broken, D_breakParent] else broken);
     comments \<leftarrow> sameLineComments f opn;
     (flat, s) \<leftarrow> flatFieldsJoin f fs mode s;
     Some (group_of (IfBreak (Some broken) (Some (D_concat (D_text ''('' # comments @ [flat, D_text '')''])))) s) }"

definition parenClose :: "formatter \<Rightarrow> Field list \<Rightarrow> nat \<Rightarrow> nat" where
  "parenClose f fs opn =
     (if fs = [] then next_real f (Suc opn) else next_real f (Suc (nbLast (fiBase (last fs)))))"

fun any_forced :: "formatter \<Rightarrow> Field list \<Rightarrow> bool option" where
  "any_forced f [] = Some False"
| "any_forced f (v # vs) = do {
     blank \<leftarrow> (if fiStructured v \<noteq> [] then Some True else map_option (\<lambda>b. b \<ge> 1) (blankBefore f (N_Field v)));
     own \<leftarrow> (if blank then Some True else hasOwnLineComments f (nbFirst (fiBase v)));
     same \<leftarrow> (if own then Some True else hasSameLineComments f (nbLast (fiBase v)));
     if same then Some True else any_forced f vs }"

definition fieldsForcedBroken :: "formatter \<Rightarrow> Field list \<Rightarrow> bool option" where
  "fieldsForcedBroken f fs =
     (if fs = [] then Some False
      else do {
        opn \<leftarrow> prev_real f (nbFirst (fiBase (hd fs)));
        opn \<leftarrow> opn;
        same \<leftarrow> hasSameLineComments f opn;
        if same then Some True
        else do {
          own \<leftarrow> hasOwnLineComments f (next_real f (Suc (nbLast (fiBase (last fs)))));
          if own then Some True else any_forced f fs } })"

definition throwsGroup :: "formatter \<Rightarrow> Throws \<Rightarrow> Doc build" where
  "throwsGroup f t s = do {
     let mode = Get (foSeparator (fmOpts f)) ConstructThrows;
     forced \<leftarrow> fieldsForcedBroken f (thFields t);
     let forced = forced \<or> sepForcesBreak (map fiSep (thFields t)) mode \<or> Get (foBreak (fmOpts f)) ConstructThrows;
     (d, s) \<leftarrow> parenGroup f (thFields t) (nbFirst (thBase t)) (nbLast (thBase t)) forced mode s;
     Some (D_concat [D_text '' throws '', d], s) }"

definition throws_part :: "formatter \<Rightarrow> Function \<Rightarrow> Doc list build" where
  "throws_part f v s =
     (case fnThrows v of
        None \<Rightarrow> Some ([], s)
      | Some t \<Rightarrow> do { (d, s) \<leftarrow> throwsGroup f t s; Some ([d], s) })"

definition tail_throws :: "formatter \<Rightarrow> Function \<Rightarrow> nat \<Rightarrow> (Doc list \<times> nat) option" where
  "tail_throws f v idx =
     (case fnThrows v of
        None \<Rightarrow> Some ([], idx)
      | Some t \<Rightarrow> do {
          c \<leftarrow> (if nbLast (thBase t) < nbLast (fnBase v) then sameLineComments f (nbLast (thBase t)) else Some []);
          Some (c, Suc (nbLast (thBase t))) })"

definition tail_annotations :: "formatter \<Rightarrow> Function \<Rightarrow> nat \<Rightarrow> (Doc list \<times> nat) build" where
  "tail_annotations f v idx s =
     (case fnAnnotations v of
        None \<Rightarrow> Some (([], idx), s)
      | Some a \<Rightarrow> do {
          let annFirst = nbFirst (asBase a);
          stray \<leftarrow> (if idx < annFirst then do {
              e \<leftarrow> prev_real f annFirst;
              d \<leftarrow> emitTokens f idx (after_prev e) (emit_opts\<lparr>eoLeading := True\<rparr>);
              Some [d] }
            else Some []);
          (d, s) \<leftarrow> annotationsDoc f (Some a) (nbLast (asBase a) = nbLast (fnBase v)) s;
          Some ((stray @ [d], Suc (nbLast (asBase a))), s) })"

definition functionTail :: "formatter \<Rightarrow> Function \<Rightarrow> nat \<Rightarrow> Doc build" where
  "functionTail f v opn s = do {
     let stop = nbLast (fnBase v);
     let argsClose = parenClose f (fnArgs v) opn;
     same \<leftarrow> (if argsClose < stop then sameLineComments f argsClose else Some []);
     (throwsSame, idx) \<leftarrow> tail_throws f v (Suc argsClose);
     ((anns, idx), s) \<leftarrow> tail_annotations f v idx s;
     tail \<leftarrow> (if idx \<le> stop then do {
         d \<leftarrow> emitTokens f (next_real f idx) (Suc stop) (emit_opts\<lparr>eoLeading := True\<rparr>);
         Some [d] }
       else Some []);
     Some (D_concat (same @ throwsSame @ anns @ tail), s) }"

definition functionBrokenArgs :: "formatter \<Rightarrow> Function \<Rightarrow> Doc \<Rightarrow> nat \<Rightarrow> Doc build" where
  "functionBrokenArgs f v header opn s = do {
     (args, s) \<leftarrow> parenGroup f (fnArgs v) opn (parenClose f (fnArgs v) opn) True (Get (foSeparator (fmOpts f)) ConstructArguments) s;
     (thr, s) \<leftarrow> throws_part f v s;
     (tail, s) \<leftarrow> functionTail f v opn s;
     Some (D_concat ([header, args] @ thr @ [tail]), s) }"

definition functionBody :: "formatter \<Rightarrow> Function \<Rightarrow> nat \<Rightarrow> Doc build" where
  "functionBody f v start s = do {
     opn \<leftarrow> scanKind f start (nbLast (fnBase v)) TokenLParen;
     header \<leftarrow> emitTokens f start (Suc opn) (emit_opts\<lparr>eoSkipText := [opn]\<rparr>);
     let mode = Get (foSeparator (fmOpts f)) ConstructArguments;
     forced \<leftarrow> fieldsForcedBroken f (fnArgs v);
     if forced \<or> sepForcesBreak (map fiSep (fnArgs v)) mode \<or> Get (foBreak (fmOpts f)) ConstructArguments
     then functionBrokenArgs f v header opn s
     else do {
       (args, s) \<leftarrow> parenGroup f (fnArgs v) opn (parenClose f (fnArgs v) opn) False mode s;
       (thr, s) \<leftarrow> throws_part f v s;
       (tail, s) \<leftarrow> functionTail f v opn s;
       Some (group_of (D_concat ([header, args] @ thr @ [tail])) s) } }"

definition function_doc :: "formatter \<Rightarrow> Function \<Rightarrow> Doc build" where
  "function_doc f v s = do {
     ((pre, start), s) \<leftarrow> structuredAnnosLead f (fnStructured v) (nbFirst (fnBase v)) s;
     own \<leftarrow> ownLineComments f (nbFirst (fnBase v));
     (body, s) \<leftarrow> functionBody f v start s;
     same \<leftarrow> sameLineComments f (nbLast (fnBase v));
     Some (D_concat (own @ [pre, body] @ same), s) }"

section \<open>Services\<close>

fun functions_from :: "formatter \<Rightarrow> bool \<Rightarrow> Function list \<Rightarrow> Doc list build" where
  "functions_from f first [] s = Some ([], s)"
| "functions_from f first (v # vs) s = do {
     blank \<leftarrow> blankLines f (N_Function v) HardLine;
     (d, s) \<leftarrow> function_doc f v s;
     (rest, s) \<leftarrow> functions_from f False vs s;
     Some ((if first then [] else [Line]) @ blank @ d # rest, s) }"

definition service_doc :: "formatter \<Rightarrow> Service \<Rightarrow> Doc build" where
  "service_doc f v s = do {
     let stop = nbLast (svBase v);
     ((pre, start), s) \<leftarrow> structuredAnnosLead f (svStructured v) (nbFirst (svBase v)) s;
     (opn, cls, header) \<leftarrow> braces f start stop;
     (parts, s) \<leftarrow> functions_from f True (svFunctions v) s;
     own \<leftarrow> ownLineComments f cls;
     let inner = D_concat [D_concat parts, D_concat own];
     inner \<leftarrow> (if svFunctions v \<noteq> [] then Some (D_concat [Line, inner])
       else do {
         has \<leftarrow> hasOwnLineComments f cls;
         t \<leftarrow> token f cls;
         Some (if \<not> has \<and> tkBlankLinesBefore t > 0
           then D_concat [D_concat (blankLineDocs (tkBlankLinesBefore t) HardLine), inner] else inner) });
     openDoc \<leftarrow> open_brace f opn;
     closeDoc \<leftarrow> emitTokens f cls (Suc cls) (close_opts (cls \<noteq> stop));
     (ann, s) \<leftarrow> annotationsDoc f (svAnnotations v) (ends_at (svAnnotations v) stop) s;
     Some (D_concat [pre, header, D_concat [openDoc, D_indent inner, AfterCommentLine, closeDoc], ann], s) }"

section \<open>Headers\<close>

definition headerWithAnnotations :: "formatter \<Rightarrow> StructuredAnnotation list \<Rightarrow> nat \<Rightarrow> nat \<Rightarrow> Annotations option \<Rightarrow> Doc build" where
  "headerWithAnnotations f sas start stop ann s = do {
     ((pre, start), s) \<leftarrow> structuredAnnosLead f sas start s;
     header \<leftarrow> emitTokens f start (case ann of None \<Rightarrow> Suc stop | Some a \<Rightarrow> nbFirst (asBase a)) (close_opts (ann \<noteq> None));
     (d, s) \<leftarrow> annotationsDoc f ann (ends_at ann stop) s;
     tail \<leftarrow> afterAnnotations f ann stop;
     Some (D_concat [pre, header, d, tail], s) }"

section \<open>Constants\<close>

text \<open>\<open>constPrefix\<close>: the width, where the header has the canonical shape.\<close>

definition constPrefix :: "formatter \<Rightarrow> Const \<Rightarrow> int option option" where
  "constPrefix f v =
     (case (coType v, coName v, coValue v) of
        (Some ty, Some name, Some val) \<Rightarrow>
          if ftAnnotations ty \<noteq> None then Some None
          else do {
            let start = (if coStructured v \<noteq> [] then next_real f (Suc (nbLast (saBase (last (coStructured v)))))
              else nbFirst (coBase v));
            if start \<ge> length (fmToks f) \<or> tkKind (fmToks f ! start) \<noteq> TokenConst then Some None
            else do {
              eq \<leftarrow> prev_real f (nbFirst (cvBase val));
              case eq of
                None \<Rightarrow> Some None
              | Some e \<Rightarrow>
                  if e < start then Some None
                  else do {
                    t \<leftarrow> token f e;
                    if tkKind t \<noteq> TokenEqual then Some None
                    else if next_real f (Suc (nbLast (idBase name))) \<noteq> e then Some None
                    else do {
                      c \<leftarrow> any_comment f [start..<e];
                      if c then Some None
                      else do {
                        text \<leftarrow> typeText f (Some ty);
                        Some (Some (len (tkText (fmToks f ! start)) + 1 + len text + 1 + len (idText name))) } } } } }
      | _ \<Rightarrow> Some None)"

text \<open>\<open>constRun\<close>, with the widths of the constants of the run.\<close>

fun constRun :: "formatter \<Rightarrow> bool \<Rightarrow> Node list \<Rightarrow> int list option" where
  "constRun f first (N_Const v # nodes) = do {
     w \<leftarrow> constPrefix f v;
     case w of
       None \<Rightarrow> Some []
     | Some w \<Rightarrow> do {
         stop \<leftarrow> (if first then Some False
           else do {
             blank \<leftarrow> blankBefore f (N_Const v);
             if blank > 0 then Some True else hasOwnLineComments f (nbFirst (coBase v)) });
         if stop then Some []
         else map_option ((#) w) (constRun f False nodes) } }"
| "constRun f first nodes = Some []"

text \<open>The loop over the nodes from the \<open>i\<close>-th on.\<close>

function constAlignments_loop :: "formatter \<Rightarrow> nat \<Rightarrow> (nat \<rightharpoonup> columnAlign) \<Rightarrow> (nat \<rightharpoonup> columnAlign) option" where
  "constAlignments_loop f i aligns =
     (if i < length (fmNodes f) then
        (case constRun f True (drop i (fmNodes f)) of
           None \<Rightarrow> None
         | Some [] \<Rightarrow> constAlignments_loop f (Suc i) aligns
         | Some ws \<Rightarrow>
             constAlignments_loop f (i + length ws)
               (if length ws > 1
                then foldr (\<lambda>k m. m(k \<mapsto> zero_align\<lparr>caAssignWidth := fold max ws 0\<rparr>)) [i..<i + length ws] aligns
                else aligns))
      else Some aligns)"
  by pat_completeness auto
termination
  by (relation "measure (\<lambda>(f, i, m). length (fmNodes f) - i)") auto

declare constAlignments_loop.simps [simp del]

definition constAlignments :: "formatter \<Rightarrow> (nat \<rightharpoonup> columnAlign) option" where
  "constAlignments f =
     (if foAlign (fmOpts f) = AlignDisable then Some Map.empty else constAlignments_loop f 0 Map.empty)"

definition const_opts :: "formatter \<Rightarrow> nat option \<Rightarrow> Const \<Rightarrow> emitOpts option" where
  "const_opts f k v =
     (case Option.bind k (fmConstAligns f) of
        None \<Rightarrow> Some (close_opts True)
      | Some align \<Rightarrow> do {
          w \<leftarrow> constPrefix f v;
          n \<leftarrow> coName v;
          Some ((close_opts True)\<lparr>eoPads := [assignPad (nbFirst (idBase n)) (case w of None \<Rightarrow> 0 | Some w \<Rightarrow> w) (caAssignWidth align)]\<rparr>) })"

definition constant_doc :: "formatter \<Rightarrow> nat option \<Rightarrow> Const \<Rightarrow> Doc build" where
  "constant_doc f k v s = do {
     let stop = nbLast (coBase v);
     ((pre, start), s) \<leftarrow> structuredAnnosLead f (coStructured v) (nbFirst (coBase v)) s;
     case coValue v of
       None \<Rightarrow> map_option (\<lambda>d. (D_concat [pre, d], s)) (emitTokens f start (Suc stop) emit_opts)
     | Some val \<Rightarrow> do {
         let first = nbFirst (cvBase val);
         let valEnd = nbLast (cvBase val);
         eq \<leftarrow> prev_real f first;
         eq \<leftarrow> eq;
         opts \<leftarrow> const_opts f k v;
         header \<leftarrow> emitTokens f start (Suc eq) opts;
         gap \<leftarrow> tokenGap f eq first;
         own \<leftarrow> ownLineComments f first;
         (d, s) \<leftarrow> constValue f val (valEnd = stop) (containerConstruct (coType v)) s;
         tail \<leftarrow> (if valEnd < stop then do {
             same \<leftarrow> sameLineComments f valEnd;
             e \<leftarrow> emitTokens f (next_real f (Suc valEnd)) (Suc stop) (emit_opts\<lparr>eoLeading := True\<rparr>);
             Some (same @ [e]) }
           else Some []);
         Some (D_concat ([pre, header, gap] @ own @ d # tail), s) } }"

section \<open>Documents\<close>

text \<open>\<open>k\<close> is the position of the node in the document, for the alignment of constants.\<close>

fun nodeBody :: "formatter \<Rightarrow> nat option \<Rightarrow> Node \<Rightarrow> Doc build" where
  "nodeBody f k (N_Include v) s = map_option (\<lambda>d. (d, s)) (emitTokens f (nbFirst (incBase v)) (Suc (nbLast (incBase v))) emit_opts)"
| "nodeBody f k (N_CPPInclude v) s = map_option (\<lambda>d. (d, s)) (emitTokens f (nbFirst (cppBase v)) (Suc (nbLast (cppBase v))) emit_opts)"
| "nodeBody f k (N_Namespace v) s =
     headerWithAnnotations f (nsStructured v) (nbFirst (nsBase v)) (nbLast (nsBase v)) (nsAnnotations v) s"
| "nodeBody f k (N_Const v) s = constant_doc f k v s"
| "nodeBody f k (N_Typedef v) s =
     headerWithAnnotations f (tdStructured v) (nbFirst (tdBase v)) (nbLast (tdBase v)) (tdAnnotations v) s"
| "nodeBody f k (N_Enum v) s = enum_doc f v s"
| "nodeBody f k (N_Struct v) s = structLike f v s"
| "nodeBody f k (N_Service v) s = service_doc f v s"
| "nodeBody f k n s = None"

definition fmt_node :: "formatter \<Rightarrow> nat option \<Rightarrow> Node \<Rightarrow> Doc build" where
  "fmt_node f k n s = do {
     own \<leftarrow> ownLineComments f (TokStart n);
     (d, s) \<leftarrow> nodeBody f k n s;
     same \<leftarrow> sameLineComments f (TokEnd n);
     Some (D_concat (own @ d # same), s) }"

fun nodes_from :: "formatter \<Rightarrow> nat \<Rightarrow> Node list \<Rightarrow> Doc list build" where
  "nodes_from f i [] s = Some ([], s)"
| "nodes_from f i (n # ns) s = do {
     lead \<leftarrow> (if i > 0 then do { blank \<leftarrow> blankLines f n HardLine; Some (Line # blank) } else Some []);
     (d, s) \<leftarrow> fmt_node f (Some i) n s;
     (rest, s) \<leftarrow> nodes_from f (Suc i) ns s;
     Some (lead @ d # rest, s) }"

definition document_doc :: "formatter \<Rightarrow> Doc build" where
  "document_doc f s = do {
     aligns \<leftarrow> constAlignments f;
     let f = f\<lparr>fmConstAligns := aligns\<rparr>;
     (parts, s) \<leftarrow> nodes_from f 0 (fmNodes f) s;
     own \<leftarrow> ownLineComments f (length (fmToks f) - 1);
     Some (D_concat (parts @ own @ (if foNoTrailingNewline (fmOpts f) then [] else [Line])), s) }"

definition new_formatter :: "Document \<Rightarrow> FormatOptions \<Rightarrow> formatter" where
  "new_formatter d opts = \<lparr>fmToks = docTokens d, fmNodes = docNodes d, fmOpts = opts, fmConstAligns = Map.empty\<rparr>"

definition build_new :: build_state where
  "build_new = \<lparr>bsNextID = 0, bsArena = arena_new\<rparr>"

datatype format_error = Nil_document | Nil_node | Print_error option_error

definition print_error :: "option_error + bytes \<Rightarrow> format_error + bytes" where
  "print_error r = (case r of Inl e \<Rightarrow> Inl (Print_error e) | Inr out \<Rightarrow> Inr out)"

text \<open>
  The arena comes out of a pool and is reset; \<open>p\<close> is its printer, in any state, and \<open>sw\<close>
  the width of a string.
\<close>

definition Format :: "(bytes \<Rightarrow> nat) \<Rightarrow> printer \<Rightarrow> Document option \<Rightarrow> FormatOptions \<Rightarrow> (format_error + bytes) option" where
  "Format sw p d opts =
     (case d of
        None \<Rightarrow> Some (Inl Nil_document)
      | Some d \<Rightarrow> do {
          let opts = normalize opts;
          (ir, s) \<leftarrow> document_doc (new_formatter d opts) build_new;
          (r, _) \<leftarrow> Print sw p (arBrk (bsArena s)) ir (printOptions opts);
          Some (print_error r) })"

definition BuildIR :: "Document \<Rightarrow> FormatOptions \<Rightarrow> Doc build" where
  "BuildIR d opts = document_doc (new_formatter d opts)"

text \<open>\<open>PrintIR\<close> prints with the flags \<open>brk\<close> of the document's groups.\<close>

definition PrintIR :: "(bytes \<Rightarrow> nat) \<Rightarrow> printer \<Rightarrow> store \<Rightarrow> Doc \<Rightarrow> FormatOptions \<Rightarrow> ((option_error + bytes) \<times> printer \<times> store) option" where
  "PrintIR sw p brk ir opts = Print sw p brk ir (printOptions opts)"

definition FormatNode :: "(bytes \<Rightarrow> nat) \<Rightarrow> printer \<Rightarrow> Document option \<Rightarrow> Node option \<Rightarrow> FormatOptions \<Rightarrow> (format_error + bytes) option" where
  "FormatNode sw p d n opts =
     (case (d, n) of
        (Some d, Some n) \<Rightarrow> do {
          let opts = normalize opts;
          (ir, s) \<leftarrow> fmt_node (new_formatter d opts) None n build_new;
          (r, _) \<leftarrow> Print sw p (arBrk (bsArena s)) ir (printOptions opts);
          Some (print_error r) }
      | _ \<Rightarrow> Some (Inl Nil_node))"

section \<open>Files\<close>

record FileOptions =
  flOutput :: bool
  flWrite :: bool
  flDiff :: bool
  flBase :: FormatPatch
  flOverride :: FormatPatch

datatype file_error =
    No_file
  | No_output
  | Unreadable
  | Bad_options patch_error
  | Parse_errors "Error list"
  | Format_error format_error
  | Invalid_output

text \<open>What a successful call does: overwrite the file, or write to the output.\<close>

datatype file_effect = Write_file bytes | Write_output bytes

definition hasFileParseErrors :: "Error list \<Rightarrow> bool" where
  "hasFileParseErrors errs = list_ex (\<lambda>e. erSeverity e = SeverityError) errs"

definition errors_only :: "Error list \<Rightarrow> Error list" where
  "errors_only errs = filter (\<lambda>e. erSeverity e = SeverityError) errs"

text \<open>\<open>os.ReadFile\<close> is the parameter \<open>read\<close>.\<close>

definition FormatFile :: "(bytes \<Rightarrow> nat) \<Rightarrow> printer \<Rightarrow> (bytes \<Rightarrow> bytes option) \<Rightarrow> bytes \<Rightarrow> FileOptions \<Rightarrow>
    (file_error + file_effect) option" where
  "FormatFile sw p read file opts =
     (if file = [] then Some (Inl No_file)
      else if \<not> flWrite opts \<and> \<not> flOutput opts then Some (Inl No_output)
      else
        (case read file of
           None \<Rightarrow> Some (Inl Unreadable)
         | Some src \<Rightarrow>
             (case Options_of (Apply_patch (flOverride opts) (flBase opts)) of
                Inl e \<Rightarrow> Some (Inl (Bad_options e))
              | Inr fo \<Rightarrow> do {
                  (parsed, errs) \<leftarrow> Parse src;
                  if hasFileParseErrors errs then Some (Inl (Parse_errors (errors_only errs)))
                  else do {
                    r \<leftarrow> Format sw p (Some parsed) fo;
                    case r of
                      Inl e \<Rightarrow> Some (Inl (Format_error e))
                    | Inr formatted \<Rightarrow> do {
                        (_, errs) \<leftarrow> Parse formatted;
                        if hasFileParseErrors errs then Some (Inl Invalid_output)
                        else if flWrite opts then Some (Inr (Write_file formatted))
                        else if flDiff opts
                        then map_option (\<lambda>d. Inr (Write_output d)) (diff ''old'' src ''new'' formatted)
                        else Some (Inr (Write_output formatted)) } } })))"

end
