(* ===== verification/FormatRuns.thy ===== *)
theory FormatRuns imports Format ParserProps
begin

text \<open>
  The formatter never panics on a parsed document: every operation is defined on token
  indices in front of the end of the stream, and the spans of a well-formed tree are such
  indices.
\<close>

section \<open>Operations that return\<close>

definition runs :: "'a option \<Rightarrow> bool" where
  "runs m \<longleftrightarrow> m \<noteq> None"

named_theorems runs_intros \<open>operations that do not panic\<close>

lemma runs_Some [simp]: "runs (Some x)"
  by (simp add: runs_def)

lemma runs_None [simp]: "\<not> runs None"
  by (simp add: runs_def)

lemma runs_map [simp]: "runs (map_option g m) = runs m"
  by (simp add: runs_def)

lemma runs_bind [runs_intros]: "runs m \<Longrightarrow> (\<And>x. m = Some x \<Longrightarrow> runs (g x)) \<Longrightarrow> runs (Option.bind m g)"
  by (cases m) (auto simp: runs_def)

lemma runs_option: "m = Some x \<Longrightarrow> runs m"
  by simp

section \<open>Tokens and comments\<close>

definition sane :: "formatter \<Rightarrow> bool" where
  "sane f \<longleftrightarrow> stream_ok (fmToks f)"

abbreviation count :: "formatter \<Rightarrow> nat" where
  "count f \<equiv> length (fmToks f)"

lemma token_runs [simp]: "runs (token f i) = (i < count f)"
  by (simp add: token_def)

lemma token_Some: "token f i = Some t \<longleftrightarrow> i < count f \<and> t = fmToks f ! i"
  by (auto simp: token_def)

lemma PrevReal_cases:
  "i < int (length toks) \<Longrightarrow> \<exists>j. PrevReal toks i = Some j \<and> j \<le> i \<and> (0 \<le> j \<longrightarrow> real_tok toks (nat j)) \<and> (j < 0 \<longrightarrow> j = min i (- 1)) \<and>
     (\<forall>c. j < int c \<longrightarrow> int c \<le> i \<longrightarrow> IsComment (tkKind (toks ! c)))"
proof (induction toks i rule: PrevReal.induct)
  case (1 toks i)
  consider "i < 0" | "0 \<le> i" "IsComment (tkKind (toks ! nat i))" | "0 \<le> i" "\<not> IsComment (tkKind (toks ! nat i))"
    by fastforce
  then show ?case
  proof cases
    case 1
    then show ?thesis by (auto simp: PrevReal.simps[of toks i])
  next
    case 2
    then obtain j where "PrevReal toks (i - 1) = Some j" "j \<le> i - 1" "0 \<le> j \<longrightarrow> real_tok toks (nat j)"
      "j < 0 \<longrightarrow> j = min (i - 1) (- 1)" "\<forall>c. j < int c \<longrightarrow> int c \<le> i - 1 \<longrightarrow> IsComment (tkKind (toks ! c))"
      using 1 by auto
    moreover have "IsComment (tkKind (toks ! c))" if "int c \<le> i" "\<not> int c \<le> i - 1" for c
      using that 2 by (cases "nat i = c") auto
    ultimately show ?thesis using 2 1(2) by (auto simp: PrevReal.simps[of toks i])
  next
    case 3
    then show ?thesis using 1(2) by (auto simp: PrevReal.simps[of toks i] real_tok_def)
  qed
qed

lemma prev_real_cases:
  assumes "i \<le> count f"
  obtains "prev_real f i = Some None" "\<forall>c<i. IsComment (tkKind (fmToks f ! c))"
  | p where "prev_real f i = Some (Some p)" "p < i" "real_tok (fmToks f) p"
      "\<forall>c. p < c \<longrightarrow> c < i \<longrightarrow> IsComment (tkKind (fmToks f ! c))"
proof -
  obtain j where j: "PrevReal (fmToks f) (int i - 1) = Some j" "j \<le> int i - 1" "0 \<le> j \<longrightarrow> real_tok (fmToks f) (nat j)"
    "j < 0 \<longrightarrow> j = min (int i - 1) (- 1)" "\<forall>c. j < int c \<longrightarrow> int c \<le> int i - 1 \<longrightarrow> IsComment (tkKind (fmToks f ! c))"
    using PrevReal_cases[of "int i - 1" "fmToks f"] assms by auto
  show thesis
  proof (cases "j < 0")
    case True
    then show ?thesis using j by (intro that(1)) (auto simp: prev_real_def)
  next
    case False
    then show ?thesis using j by (intro that(2)[of "nat j"]) (auto simp: prev_real_def)
  qed
qed

lemma prev_real_less: "prev_real f i = Some (Some p) \<Longrightarrow> p < i \<and> p < count f"
proof (cases "i \<le> count f")
  case True
  assume "prev_real f i = Some (Some p)"
  with True show ?thesis by (cases rule: prev_real_cases[of i f]) (auto simp: real_tok_def)
qed (simp add: prev_real_def PrevReal.simps)

lemma prev_real_runs [runs_intros]: "i \<le> count f \<Longrightarrow> runs (prev_real f i)"
  by (cases rule: prev_real_cases[of i f]) auto

text \<open>A real token before \<open>i\<close> is found.\<close>

lemma prev_real_exists:
  assumes "real_tok (fmToks f) t" "t < i" "i \<le> count f"
  shows "\<exists>p. prev_real f i = Some (Some p) \<and> t \<le> p \<and> p < i"
  using prev_real_cases[OF assms(3)] assms by (metis not_le real_tok_def)

lemma next_real_less [simp]: "sane f \<Longrightarrow> i < count f \<Longrightarrow> next_real f i < count f"
  using NextReal_real_tok[of "fmToks f" i] by (simp add: sane_def next_real_def real_tok_def)

lemma next_real_ge [simp]: "i \<le> next_real f i"
  by (simp add: next_real_def)

lemma ownLineComment_runs [simp]: "runs (ownLineComment f c prev first) = (c < count f)"
  by (auto simp: ownLineComment_def token_def)

lemma sameLineRun_loop_runs: "idx < count f \<Longrightarrow> runs (sameLineRun_loop f idx c)"
proof (induction f idx c rule: sameLineRun_loop.induct)
  case (1 f idx c)
  then show ?case by (subst sameLineRun_loop.simps) (simp add: Let_def token_def)
qed

lemma sameLineRun_runs [runs_intros]: "idx < count f \<Longrightarrow> runs (sameLineRun f idx)"
  by (simp add: sameLineRun_def sameLineRun_loop_runs)

lemma sameLineRun_loop_set: "sameLineRun_loop f idx c = Some cs \<Longrightarrow> set cs \<subseteq> {c..<count f}"
proof (induction f idx c arbitrary: cs rule: sameLineRun_loop.induct)
  case (1 f idx c)
  then show ?case
    by (subst (asm) sameLineRun_loop.simps) (fastforce simp: Let_def token_def split: if_splits option.splits)
qed

lemma sameLineComments_runs [runs_intros]: "idx < count f \<Longrightarrow> runs (sameLineComments f idx)"
  by (simp add: sameLineComments_def sameLineRun_runs)

lemma hasSameLineComments_runs [runs_intros]: "idx < count f \<Longrightarrow> runs (hasSameLineComments f idx)"
  by (simp add: hasSameLineComments_def sameLineRun_runs)

lemma sameLineEndsLine_runs [runs_intros]: "idx < count f \<Longrightarrow> runs (sameLineEndsLine f idx)"
  by (simp add: sameLineEndsLine_def sameLineRun_runs)

lemma ownLine_loop_runs:
  "idx \<le> count f \<Longrightarrow> \<forall>p. prev = Some p \<longrightarrow> p < count f \<Longrightarrow> runs (ownLine_loop f prev idx c first)"
proof (induction f prev idx c first rule: ownLine_loop.induct)
  case (1 f prev idx c first)
  show ?case
    by (subst ownLine_loop.simps) (use 1 in \<open>auto simp: token_Some split: option.splits intro!: runs_intros\<close>)
qed

lemma ownLineComments_runs [runs_intros]: "idx < count f \<Longrightarrow> runs (ownLineComments f idx)"
  by (auto simp: ownLineComments_def dest: prev_real_less intro!: runs_intros ownLine_loop_runs)

lemma commentsRun_loop_runs: "prev < count f \<Longrightarrow> stop \<le> count f \<Longrightarrow> runs (commentsRun_loop f prev stop c e)"
proof (induction f prev stop c e rule: commentsRun_loop.induct)
  case (1 f prev stop c e)
  show ?case
    by (subst commentsRun_loop.simps) (use 1 in \<open>auto simp: token_Some Let_def split: prod.splits intro!: runs_intros\<close>)
qed

lemma commentsRun_runs [runs_intros]: "prev < count f \<Longrightarrow> stop \<le> count f \<Longrightarrow> runs (commentsRun f prev stop)"
  by (simp add: commentsRun_def commentsRun_loop_runs)

lemma own_lines_runs: "set cs \<subseteq> {..<count f} \<Longrightarrow> runs (own_lines f idx cs)"
  by (induction cs) (auto intro!: runs_intros)

lemma suppressedSepComments_runs [runs_intros]: "idx < count f \<Longrightarrow> runs (suppressedSepComments f idx)"
  by (auto simp: suppressedSepComments_def sameLineRun_def dest!: sameLineRun_loop_set
      intro!: runs_intros sameLineRun_loop_runs own_lines_runs)

lemma hasOwnLine_loop_runs:
  "set cs \<subseteq> {..<count f} \<Longrightarrow> \<forall>p. prev = Some p \<longrightarrow> p < count f \<Longrightarrow> runs (hasOwnLine_loop f prev cs)"
  by (induction cs) (auto split: option.splits intro!: runs_intros)

lemma hasOwnLineComments_runs [runs_intros]: "idx < count f \<Longrightarrow> runs (hasOwnLineComments f idx)"
  by (auto simp: hasOwnLineComments_def dest: prev_real_less intro!: runs_intros hasOwnLine_loop_runs)

lemma breaksGroup_loop_runs:
  "sane f \<Longrightarrow> Suc prevEnd < count f \<Longrightarrow> set cs \<subseteq> {..<count f} \<Longrightarrow> runs (breaksGroup_loop f prevEnd l sep mode cs)"
  by (induction cs) (auto intro!: runs_intros)

lemma commentBreaksGroup_runs [runs_intros]:
  "sane f \<Longrightarrow> Suc prevEnd < count f \<Longrightarrow> stop \<le> count f \<Longrightarrow> runs (commentBreaksGroup f prevEnd stop sep mode)"
  by (auto simp: commentBreaksGroup_def intro!: runs_intros breaksGroup_loop_runs)

lemma tokenGap_runs [runs_intros]: "prev < count f \<Longrightarrow> stop < count f \<Longrightarrow> runs (tokenGap f prev stop)"
  by (auto simp: tokenGap_def intro!: runs_intros)

lemma emit_loop_stop: "stop \<le> i \<Longrightarrow> emit_loop f opts i stop prev first = Some ([], prev)"
  by (subst emit_loop.simps) simp

lemma emit_loop_induct [consumes 1, case_names stop_at comment token]:
  assumes "emit_loop f opts i stop prev first = Some (ds, l)"
    and "\<And>i prev first. stop \<le> i \<Longrightarrow> P i prev first [] prev"
    and "\<And>i prev first ds l. i < stop \<Longrightarrow> i < count f \<Longrightarrow> IsComment (tkKind (fmToks f ! i)) \<Longrightarrow>
      P (Suc i) prev first ds l \<Longrightarrow> P i prev first ds l"
    and "\<And>i prev first lead rest l. i < stop \<Longrightarrow> real_tok (fmToks f) i \<Longrightarrow>
      (if first then Some [] else emit_lead f opts prev i) = Some lead \<Longrightarrow>
      emit_loop f opts (Suc i) stop i False = Some (rest, l) \<Longrightarrow> P (Suc i) i False rest l \<Longrightarrow>
      P i prev first (lead @ token_docs opts i (fmToks f ! i) @ rest) l"
  shows "P i prev first ds l"
  using assms(1)
proof (induction "stop - i" arbitrary: i prev first ds l rule: less_induct)
  case less
  show ?case
  proof (cases "i < stop")
    case True
    then obtain t where t: "token f i = Some t"
      using less.prems by (subst (asm) emit_loop.simps) (auto simp: Option.bind_eq_Some_conv)
    have m: "stop - Suc i < stop - i" using True by simp
    show ?thesis
    proof (cases "IsComment (tkKind t)")
      case c: True
      then have "emit_loop f opts (Suc i) stop prev first = Some (ds, l)"
        using less.prems True t by (subst (asm) emit_loop.simps) simp
      from less.hyps[OF m this] show ?thesis using assms(3) True t c by (auto simp: token_Some)
    next
      case c: False
      then obtain lead rest where r: "(if first then Some [] else emit_lead f opts prev i) = Some lead"
          "emit_loop f opts (Suc i) stop i False = Some (rest, l)" "ds = lead @ token_docs opts i t @ rest"
        using less.prems True t by (subst (asm) emit_loop.simps) (auto simp: Option.bind_eq_Some_conv)
      from assms(4)[OF True _ r(1,2) less.hyps[OF m r(2)]] show ?thesis
        using t c r(3) by (auto simp: token_Some real_tok_def)
    qed
  next
    case False
    then show ?thesis using less.prems assms(2) by (subst (asm) emit_loop.simps) simp
  qed
qed

lemma emit_lead_runs [runs_intros]: "prev < count f \<Longrightarrow> i < count f \<Longrightarrow> runs (emit_lead f opts prev i)"
  by (auto simp: emit_lead_def split: prod.splits intro!: runs_intros)

lemma emit_loop_runs: "prev < count f \<Longrightarrow> stop \<le> count f \<Longrightarrow> runs (emit_loop f opts i stop prev first)"
proof (induction f opts i stop prev first rule: emit_loop.induct)
  case (1 f opts i stop prev first)
  show ?case
    by (subst emit_loop.simps) (use 1 in \<open>auto simp: token_Some split: prod.splits intro!: runs_intros\<close>)
qed

lemma emit_loop_last: "emit_loop f opts i stop prev first = Some (ds, l) \<Longrightarrow> l = prev \<or> i \<le> l \<and> l < stop"
  by (induction rule: emit_loop_induct) auto

lemma emit_trailing_runs [runs_intros]: "prev < count f \<Longrightarrow> runs (emit_trailing f opts prev)"
  by (auto simp: emit_trailing_def dest!: prev_real_less split: option.splits intro!: runs_intros)

lemma emitTokens_runs [runs_intros]:
  "start < count f \<Longrightarrow> stop \<le> count f \<Longrightarrow> runs (emitTokens f start stop opts)"
  by (auto simp: emitTokens_def dest: emit_loop_last split: prod.splits intro!: runs_intros emit_loop_runs)

lemma commaSep_runs [runs_intros]: "i < count f \<Longrightarrow> runs (commaSep f i)"
  by (auto simp: commaSep_def intro!: runs_intros)


section \<open>Nodes in front of the end of the stream\<close>

definition inside :: "formatter \<Rightarrow> Node \<Rightarrow> bool" where
  "inside f n \<longleftrightarrow> sane f \<and> node_ok (fmToks f) False n \<and> Suc (TokEnd n) < count f"

lemma chain_part: "chain lo hi ps \<Longrightarrow> p \<in> set ps \<Longrightarrow> lo \<le> part_first p \<and> part_first p \<le> part_last p \<and> part_last p < hi"
  by (induction ps arbitrary: lo) force+

lemma inside_bounds: "inside f n \<Longrightarrow> TokStart n \<le> TokEnd n \<and> Suc (TokEnd n) < count f \<and> real_tok (fmToks f) (TokStart n) \<and>
    real_tok (fmToks f) (TokEnd n) \<and> sane f"
  by (auto simp: inside_def elim: node_ok.cases)

lemma inside_part:
  assumes "inside f n" "P_node c \<in> set (node_parts n)"
  shows "inside f c" "TokStart n \<le> TokStart c" "TokEnd c \<le> TokEnd n"
proof -
  have "chain (TokStart n) (Suc (TokEnd n)) (node_parts n)" "node_ok (fmToks f) False c"
    using assms by (auto simp: inside_def elim: node_ok.cases)
  from this(2) chain_part[OF this(1) assms(2)]
  show "inside f c" "TokStart n \<le> TokStart c" "TokEnd c \<le> TokEnd n" using assms(1) by (auto simp: inside_def)
qed

lemma inside_tok: "inside f n \<Longrightarrow> P_tok i \<in> set (node_parts n) \<Longrightarrow> i < count f"
  by (auto simp: inside_def real_tok_def elim: node_ok.cases)

lemma inside_shape: "inside f n \<Longrightarrow> node_shape (fmToks f) False n"
  by (auto simp: inside_def elim: node_ok.cases)

lemmas tok_bounds = TokStart_def TokEnd_def

text \<open>The bounds of a record, from those of its node.\<close>

lemma base_bounds:
  "inside f n \<Longrightarrow> nbFirst (node_base n) \<le> nbLast (node_base n) \<and> Suc (nbLast (node_base n)) < count f \<and>
     nbFirst (node_base n) < count f \<and> nbLast (node_base n) < count f \<and> sane f"
  using inside_bounds[of f n] by (auto simp: tok_bounds)

section \<open>Parts of declarations\<close>

lemma tok_text_runs [simp]: "runs (tok_text f i) = (i < count f)"
  by (simp add: tok_text_def)

lemma req_text_runs [simp]: "runs (req_text f i) = (i < count f)"
  by (simp add: req_text_def)

lemma typeText_runs: "(\<forall>t. x = Some t \<longrightarrow> inside f (N_FieldType t)) \<Longrightarrow> runs (typeText f x)"
proof (induction f x rule: typeText.induct)
  case (2 f b k base ident keyT valueT cpp anns)
  let ?t = "FieldType b k base ident keyT valueT cpp anns"
  have i: "inside f (N_FieldType ?t)" using 2 by simp
  have key: "\<forall>t. keyT = Some t \<longrightarrow> inside f (N_FieldType t)" "\<forall>t. valueT = Some t \<longrightarrow> inside f (N_FieldType t)"
    using inside_part(1)[OF i] by (auto simp: opt_def)
  have c: "runs (containerText f name cpp inner)" for name inner
    using inside_tok[OF i] by (auto simp: containerText_def opt_def split: option.splits)
  show ?case
    using 2 key c inside_shape[OF i] by (cases k) (auto simp: runs_def)
qed simp

lemma anno_middle_runs:
  "\<forall>x\<in>set items. inside f (N_Annotation x) \<Longrightarrow> \<forall>p. prev = Some p \<longrightarrow> inside f (N_Annotation p) \<Longrightarrow> runs (anno_middle f prev items)"
  by (induction f prev items rule: anno_middle.induct)
    (auto simp: anno_stop_def split: option.splits dest!: base_bounds intro!: runs_intros)

lemma annotationsDoc_runs [runs_intros]:
  assumes "\<forall>x. a = Some x \<longrightarrow> inside f (N_Annotations x)"
  shows "runs (annotationsDoc f a isLast s)"
proof (cases a)
  case (Some x)
  then have i: "inside f (N_Annotations x)" using assms by simp
  have m: "runs (anno_middle f None (asItems x))"
    using inside_part(1)[OF i] by (intro anno_middle_runs) auto
  show ?thesis
    using base_bounds[OF i] m by (auto simp: annotationsDoc_def Some Let_def split: prod.splits intro!: runs_intros)
qed (simp add: annotationsDoc_def)

lemma afterAnnotations_runs [runs_intros]:
  "\<forall>x. a = Some x \<longrightarrow> inside f (N_Annotations x) \<Longrightarrow> Suc stop < count f \<Longrightarrow> runs (afterAnnotations f a stop)"
  by (auto simp: afterAnnotations_def split: option.splits dest!: base_bounds intro!: runs_intros)

lemma itemSep_runs [runs_intros]: "sep < count f \<Longrightarrow> runs (itemSep f sep mode)"
  by (auto simp: itemSep_def Let_def intro!: runs_intros)

lemma trailingItemSep_runs [runs_intros]: "sane f \<Longrightarrow> Suc stop < count f \<Longrightarrow> runs (trailingItemSep f stop mode)"
  by (auto simp: trailingItemSep_def Let_def Suc_le_eq intro!: runs_intros)

definition item_inside :: "formatter \<Rightarrow> constItem \<Rightarrow> bool" where
  "item_inside f x \<longleftrightarrow> ciStart x < count f \<and> Suc (ciEnd x) < count f"

lemma sepsOf_runs: "sane f \<Longrightarrow> list_all (item_inside f) items \<Longrightarrow> runs (sepsOf f items)"
  by (induction f items rule: sepsOf.induct) (auto simp: item_inside_def intro!: runs_intros)

lemma items_middle_runs:
  "sane f \<Longrightarrow> list_all (item_inside f) items \<Longrightarrow> \<forall>e. prev = Some e \<longrightarrow> Suc e < count f \<Longrightarrow> runs (items_middle f mode prev items)"
  by (induction f mode prev items rule: items_middle.induct)
    (auto simp: item_inside_def split: option.splits intro!: runs_intros)

lemma constItems_runs:
  assumes "sane f" "list_all (item_inside f) items" "opn < count f" "cls < count f"
  shows "runs (constItems f items opn cls c isLast s)"
proof -
  have "Suc (ciEnd (last items)) < count f" if "items \<noteq> []"
    using assms(2) last_in_set[OF that] by (auto simp: list_all_iff item_inside_def)
  then show ?thesis
    using assms by (auto simp: constItems_def Let_def intro!: runs_intros items_middle_runs sepsOf_runs)
qed

lemma map_items_runs:
  "(\<forall>e\<in>set es. inside f (N_ConstValue (cmKey e)) \<and> inside f (N_ConstValue (cmValue e))) \<Longrightarrow>
   \<exists>items. map_items f es = Some items \<and> list_all (item_inside f) items"
proof (induction es)
  case (Cons e es)
  then have b: "nbFirst (cvBase (cmKey e)) < count f" "Suc (nbLast (cvBase (cmValue e))) < count f"
    by (auto dest!: base_bounds)
  then have "runs (emitTokens f (nbFirst (cvBase (cmKey e))) (Suc (nbLast (cvBase (cmValue e)))) emit_opts)"
    by (auto intro!: runs_intros)
  then show ?case using Cons b by (auto simp: map_item_def Let_def item_inside_def runs_def)
qed simp

lemma build_list_runs:
  "(\<And>x s. x \<in> set xs \<Longrightarrow> \<exists>y s'. g x s = Some (y, s') \<and> P y) \<Longrightarrow> \<exists>ys s'. build_list g xs s = Some (ys, s') \<and> list_all P ys"
proof (induction xs arbitrary: s)
  case (Cons x xs)
  obtain y t where y: "g x s = Some (y, t)" "P y" using Cons.prems[of x s] by auto
  obtain ys u where "build_list g xs t = Some (ys, u)" "list_all P ys" using Cons.IH[of t] Cons.prems by auto
  then show ?case using y by simp
qed simp

lemma entry_parts_set: "e \<in> set es \<Longrightarrow> p_value (cmKey e) \<in> set (entry_parts es) \<and> p_value (cmValue e) \<in> set (entry_parts es)"
  by (auto simp: entry_parts_def)

lemma constValue_runs [runs_intros]: "inside f (N_ConstValue v) \<Longrightarrow> runs (constValue f v isLast c s)"
proof (induction f v isLast c s rule: constValue.induct)
  case (1 f b k tx xs es isLast c s)
  note b = base_bounds[OF 1(2)]
  have m: "\<exists>items. map_items f es = Some items \<and> list_all (item_inside f) items"
    using inside_part(1)[OF 1(2)] entry_parts_set[of _ es] by (intro map_items_runs) auto
  have l: "k = ValueList \<Longrightarrow> \<exists>items s'. build_list (\<lambda>x s. do {
      (d, s) \<leftarrow> constValue f x False ConstructList s;
      Some (\<lparr>ciDoc = d, ciStart = nbFirst (cvBase x), ciEnd = nbLast (cvBase x)\<rparr>, s) }) xs s = Some (items, s') \<and>
      list_all (item_inside f) items"
  proof (rule build_list_runs)
    fix x t assume k: "k = ValueList" and x: "x \<in> set xs"
    then have i: "inside f (N_ConstValue x)" using inside_part(1)[OF 1(2), of "N_ConstValue x"] by auto
    then have "runs (constValue f x False ConstructList t)" using 1(1)[OF k x] by simp
    then show "\<exists>y s'. (constValue f x False ConstructList t \<bind>
        (\<lambda>(d, s). Some (\<lparr>ciDoc = d, ciStart = nbFirst (cvBase x), ciEnd = nbLast (cvBase x)\<rparr>, s))) = Some (y, s') \<and> item_inside f y"
      using base_bounds[OF i] by (auto simp: runs_def item_inside_def)
  qed
  show ?case
    using m l b by (cases k) (auto simp: constMap_def intro!: constItems_runs runs_intros)
qed


lemma next_real_less' [simp]: "sane f \<Longrightarrow> i < count f \<Longrightarrow> Suc (next_real f i) \<le> count f"
  by (simp add: Suc_le_eq)

lemma structuredAnno_runs [runs_intros]:
  assumes "inside f (N_StructuredAnnotation sa)"
  shows "runs (structuredAnno f sa s)"
proof -
  note b = base_bounds[OF assms]
  obtain name where n: "saName sa = Some name" using inside_shape[OF assms] by auto
  then have i: "inside f (N_Identifier name)" using inside_part(1)[OF assms] by simp
  have v: "inside f (N_ConstValue v)" "nbLast (idBase name) < nbFirst (cvBase v)" if "saValue sa = Some v" for v
  proof -
    show "inside f (N_ConstValue v)" using inside_part(1)[OF assms] that by simp
    have "chain (TokStart (N_StructuredAnnotation sa)) (Suc (TokEnd (N_StructuredAnnotation sa))) (node_parts (N_StructuredAnnotation sa))"
      using assms by (auto simp: inside_def elim: node_ok.cases)
    then show "nbLast (idBase name) < nbFirst (cvBase v)" using n that by (simp add: tok_bounds)
  qed
  have e: "\<exists>p. prev_real f (nbFirst (cvBase v)) = Some (Some p) \<and> p < count f" if "saValue sa = Some v" for v
    using prev_real_exists[of f "nbLast (idBase name)" "nbFirst (cvBase v)"] inside_bounds[OF i] v[OF that] base_bounds[OF v(1)[OF that]]
    by (force simp: tok_bounds)
  show ?thesis
  proof (cases "saValue sa")
    case None
    then show ?thesis
      using b n base_bounds[OF i] by (auto simp: structuredAnno_def Let_def split: prod.splits intro!: runs_intros)
  next
    case (Some v)
    obtain p where p: "prev_real f (nbFirst (cvBase v)) = Some (Some p)" "p < count f" using e[OF Some] by blast
    show ?thesis
      using b n base_bounds[OF i] v(1)[OF Some] base_bounds[OF v(1)[OF Some]] p Some
      by (auto simp: structuredAnno_def Let_def split: prod.splits intro!: runs_intros)
  qed
qed

lemma structured_loop_runs: "\<forall>sa\<in>set sas. inside f (N_StructuredAnnotation sa) \<Longrightarrow> runs (structured_loop f first sas s)"
  by (induction f first sas s rule: structured_loop.induct)
    (auto split: prod.splits intro!: runs_intros dest: base_bounds)

text \<open>The annotations in front of a declaration, and where its content starts.\<close>

lemma structuredAnnosLead_runs:
  assumes "\<forall>sa\<in>set sas. inside f (N_StructuredAnnotation sa)" "start < count f"
  shows "\<exists>d st s'. structuredAnnosLead f sas start s = Some ((d, st), s') \<and> st < count f"
proof (cases "sas = []")
  case False
  let ?st = "next_real f (Suc (nbLast (saBase (last sas))))"
  have i: "inside f (N_StructuredAnnotation (last sas))" using assms(1) last_in_set[OF False] by blast
  have st: "?st < count f" using base_bounds[OF i] by simp
  obtain parts s' where "structured_loop f True sas s = Some (parts, s')"
    using structured_loop_runs[OF assms(1), of True s] by (auto simp: runs_def)
  moreover obtain own where "ownLineComments f ?st = Some own"
    using ownLineComments_runs[OF st] by (auto simp: runs_def)
  ultimately show ?thesis using False st by (simp add: structuredAnnosLead_def structuredAnnos_def)
qed (simp add: structuredAnnosLead_def structuredAnnos_def assms(2))

lemma emitWithAnnotations_runs [runs_intros]:
  "\<forall>x. ann = Some x \<longrightarrow> inside f (N_Annotations x) \<Longrightarrow> start < count f \<Longrightarrow> Suc stop < count f \<Longrightarrow>
   runs (emitWithAnnotations f start stop ann opts s)"
  by (auto simp: emitWithAnnotations_def split: option.splits prod.splits intro!: runs_intros dest!: base_bounds)

section \<open>Fields and enum values\<close>

lemma fold_option_runs: "(\<And>x s. x \<in> set xs \<Longrightarrow> runs (g x s)) \<Longrightarrow> runs (fold_option g xs s)"
  by (induction xs arbitrary: s) (auto simp: runs_def split: option.splits)

lemma field_facts:
  assumes "inside f (N_Field v)"
  shows "fiType v \<noteq> None" "fiName v \<noteq> None"
    "\<forall>t. fiType v = Some t \<longrightarrow> inside f (N_FieldType t)" "\<forall>n. fiName v = Some n \<longrightarrow> inside f (N_Identifier n)"
    "\<forall>i. fiFieldID v = Some i \<longrightarrow> i < count f" "\<forall>i. fiReq v = Some i \<longrightarrow> i < count f"
    "\<forall>a. fiAnnotations v = Some a \<longrightarrow> inside f (N_Annotations a)"
    "\<forall>sa\<in>set (fiStructured v). inside f (N_StructuredAnnotation sa)"
  using inside_shape[OF assms] inside_part(1)[OF assms] inside_tok[OF assms] by auto

lemma value_facts:
  assumes "inside f (N_EnumValue v)"
  shows "evName v \<noteq> None" "\<forall>n. evName v = Some n \<longrightarrow> inside f (N_Identifier n)"
    "\<forall>a. evAnnotations v = Some a \<longrightarrow> inside f (N_Annotations a)"
  using inside_shape[OF assms] inside_part(1)[OF assms] by auto

lemma align_field_runs: "inside f (N_Field v) \<Longrightarrow> runs (align_field f v a)"
  using field_facts[of f v] typeText_runs[of "fiType v" f]
  by (auto simp: align_field_def Let_def runs_def[of "fiName v"] split: option.splits intro!: runs_intros)

lemma computeFieldAlign_runs [runs_intros]: "\<forall>v\<in>set vs. inside f (N_Field v) \<Longrightarrow> runs (computeFieldAlign f vs)"
  by (auto simp: computeFieldAlign_def intro!: fold_option_runs align_field_runs)

lemma computeEnumAlign_runs [runs_intros]: "\<forall>v\<in>set vs. inside f (N_EnumValue v) \<Longrightarrow> runs (computeEnumAlign vs)"
  by (auto simp: computeEnumAlign_def align_value_def runs_def[of "evName _"] dest!: value_facts(1) intro!: fold_option_runs)

text \<open>A list item has a real token in front of it.\<close>

definition item_ok :: "formatter \<Rightarrow> Node \<Rightarrow> bool" where
  "item_ok f n \<longleftrightarrow> inside f n \<and> (\<exists>t<TokStart n. real_tok (fmToks f) t)"

lemma item_ok_inside: "item_ok f n \<Longrightarrow> inside f n"
  by (simp add: item_ok_def)

lemma item_ok_prev: "item_ok f n \<Longrightarrow> TokStart n \<le> i \<Longrightarrow> i \<le> count f \<Longrightarrow> \<exists>p. prev_real f i = Some (Some p) \<and> p < i \<and> p < count f"
  using prev_real_exists[of f _ i] by (force simp: item_ok_def)

lemma groupedWith_runs:
  assumes "item_ok f m" "item_ok f n"
  shows "runs (groupedWith f m n mode)"
proof -
  obtain p where p: "prev_real f (TokEnd m) = Some (Some p)" "p < TokEnd m"
    using item_ok_prev[OF assms(1), of "TokEnd m"] inside_bounds[of f m] assms(1) by (auto simp: item_ok_def)
  have b: "Suc (TokEnd m) < count f" "TokStart n < count f" "sane f"
    using inside_bounds[of f m] inside_bounds[of f n] assms by (auto simp: item_ok_def)
  have "runs (do {
      blank \<leftarrow> blankBefore f n;
      if blank < 1 then do { e \<leftarrow> Some e; map_option Not (commentBreaksGroup f e (TokStart n) sep mode) } else Some False })"
    if "e \<le> TokEnd m" for e sep
    using b that by (auto simp: blankBefore_def intro!: runs_intros)
  then show ?thesis
    using b p by (auto simp: groupedWith_def token_def)
qed

lemma group_start_runs: "\<forall>n\<in>set nodes. item_ok f n \<Longrightarrow> i < length nodes \<Longrightarrow> runs (group_start f nodes mode i)"
  by (induction i) (auto intro!: runs_intros groupedWith_runs)

lemma group_end_runs: "\<forall>n\<in>set nodes. item_ok f n \<Longrightarrow> runs (group_end f nodes mode i)"
proof (induction f nodes mode i rule: group_end.induct)
  case (1 f nodes mode i)
  show ?case by (subst group_end.simps) (use 1 in \<open>auto intro!: runs_intros groupedWith_runs\<close>)
qed

lemma longest_name_runs: "\<forall>v\<in>set vs. fiName v \<noteq> None \<Longrightarrow> runs (longest_name mode vs l)"
  by (induction vs arbitrary: l) auto

lemma namePadded_runs:
  assumes "inside f (N_Field v)"
  shows "runs (namePadded f v)"
proof -
  obtain n where n: "fiName v = Some n" using field_facts(2)[OF assms] by blast
  have "nbFirst (idBase n) < count f" using base_bounds[of f "N_Identifier n"] field_facts(4)[OF assms] n by simp
  then show ?thesis by (auto simp: namePadded_def n Let_def split: nat.splits intro!: runs_intros)
qed

lemma sourceAligned_runs: "\<forall>v\<in>set vs. inside f (N_Field v) \<Longrightarrow> runs (sourceAligned_loop f vs col padded)"
proof (induction vs arbitrary: col padded)
  case (Cons v vs)
  obtain n where n: "fiName v = Some n" using field_facts(2)[of f v] Cons.prems by auto
  have "nbFirst (idBase n) < count f" using base_bounds[of f "N_Identifier n"] field_facts(4)[of f v] n Cons.prems by simp
  then show ?case using Cons n namePadded_runs[of f v] by (auto intro!: runs_intros)
qed simp

lemma alignmentFor_runs [runs_intros]:
  assumes "\<forall>v\<in>set vs. item_ok f (N_Field v)" "i < length vs"
  shows "runs (alignmentFor f vs i mode)"
proof -
  have m: "\<forall>v\<in>set (slice a b vs). inside f (N_Field v)" for a b
    using assms(1) set_slice_subset[of a b vs] item_ok_inside by blast
  then have n: "\<forall>v\<in>set (slice a b vs). fiName v \<noteq> None" for a b using field_facts(2) by blast
  show ?thesis
    using m n assms(2) assms(1)
    by (auto simp: alignmentFor_def alignmentFits_def sourceAligned_def Let_def
        intro!: runs_intros group_start_runs group_end_runs longest_name_runs sourceAligned_runs)
qed

lemma alignmentForEnum_runs [runs_intros]:
  assumes "\<forall>v\<in>set vs. item_ok f (N_EnumValue v)" "i < length vs"
  shows "runs (alignmentForEnum f vs i mode)"
proof -
  have m: "\<forall>v\<in>set (slice a b vs). inside f (N_EnumValue v)" for a b
    using assms(1) set_slice_subset[of a b vs] item_ok_inside by blast
  show ?thesis
    using m assms by (auto simp: alignmentForEnum_def intro!: runs_intros group_start_runs group_end_runs)
qed

lemma comment_inside_runs: "set is \<subseteq> {..<count f} \<Longrightarrow> runs (comment_inside f is)"
  by (induction "is") (auto simp: token_Some intro!: runs_intros)

lemma any_comment_runs: "set is \<subseteq> {..<count f} \<Longrightarrow> runs (any_comment f is)"
  by (induction "is") (auto intro!: runs_intros)


lemma skip_sep_bounds [simp]: "eoLeading (skip_sep sep stop) = False"
  by (simp add: skip_sep_def emit_opts_def)

lemma fieldPads_runs:
  assumes "inside f (N_Field v)"
  shows "runs (fieldPads f v a)"
proof -
  note b = base_bounds[OF assms] and facts = field_facts[OF assms]
  let ?stop = "if fiSep v \<noteq> TokenInvalid then nbLast (fiBase v) else Suc (nbLast (fiBase v))"
  have c: "runs (comment_inside f [start..<(case e of None \<Rightarrow> 0 | Some e \<Rightarrow> e)])" if "prev_real f ?stop = Some e" for e start
    using that by (intro comment_inside_runs) (auto split: option.splits if_splits dest!: prev_real_less)
  obtain ty where ty: "fiType v = Some ty" "runs (typeText f (Some ty))"
    using facts(1,3) typeText_runs[of "fiType v" f] by auto
  obtain n where n: "fiName v = Some n" using facts(2) by blast
  show ?thesis
    using b c facts(5,6) ty n
    by (auto simp: fieldPads_def Let_def Option.bind_eq_Some_conv split: option.splits if_splits intro!: runs_intros)
qed

lemma fieldContent_runs [runs_intros]:
  assumes "inside f (N_Field v)"
  shows "runs (fieldContent f v align padded s)"
proof -
  note b = base_bounds[OF assms] and facts = field_facts[OF assms]
  obtain d st s' where l: "structuredAnnosLead f (fiStructured v) (nbFirst (fiBase v)) s = Some ((d, st), s')" "st < count f"
    using structuredAnnosLead_runs[OF facts(8), of "nbFirst (fiBase v)" s] b by auto
  show ?thesis
    using b facts(7) l fieldPads_runs[OF assms]
    by (auto simp: fieldContent_def Let_def split: option.splits prod.splits intro!: runs_intros)
qed

lemma itemTrailing_runs [runs_intros]: "stop < count f \<Longrightarrow> runs (itemTrailing f stop sep mode)"
  by (auto simp: itemTrailing_def nodeTrailingInline_def dest!: prev_real_less split: option.splits intro!: runs_intros)

lemma fieldDoc_runs [runs_intros]: "inside f (N_Field v) \<Longrightarrow> runs (fieldDoc f v align bodyID mode s)"
  using base_bounds[of f "N_Field v"] by (auto simp: fieldDoc_def Let_def split: prod.splits intro!: runs_intros)

lemma blankLines_runs [runs_intros]: "inside f n \<Longrightarrow> runs (blankLines f n l)"
  using inside_bounds[of f n] by (auto simp: blankLines_def blankBefore_def intro!: runs_intros)

lemma fields_from_runs:
  "\<forall>v\<in>set vs. item_ok f (N_Field v) \<Longrightarrow> set is \<subseteq> {..<length vs} \<Longrightarrow> runs (fields_from f vs bodyID mode is s)"
  by (induction f vs bodyID mode "is" s rule: fields_from.induct)
    (auto split: prod.splits intro!: runs_intros intro: item_ok_inside)

lemma fieldList_runs [runs_intros]: "\<forall>v\<in>set vs. item_ok f (N_Field v) \<Longrightarrow> runs (fieldList f vs bodyID mode s)"
  by (auto simp: fieldList_def intro!: fields_from_runs)

lemma enumValueContent_runs [runs_intros]:
  assumes "inside f (N_EnumValue v)"
  shows "runs (enumValueContent f v align padded s)"
proof -
  note b = base_bounds[OF assms] and facts = value_facts[OF assms]
  let ?stop = "if evSep v \<noteq> TokenInvalid then prev_real f (nbLast (evBase v)) else Some (Some (nbLast (evBase v)))"
  have c: "runs (any_comment f [start..<(case e of None \<Rightarrow> 0 | Some e \<Rightarrow> Suc e)])" if "?stop = Some e" for e start
    using that b by (intro any_comment_runs) (auto split: option.splits if_splits dest!: prev_real_less)
  have c': "runs (any_comment f [start..<Suc (nbLast (evBase v))])" for start
    using b by (intro any_comment_runs) auto
  have "runs ?stop" using b by (auto intro!: runs_intros)
  moreover obtain n where "evName v = Some n" using facts(1) by blast
  ultimately show ?thesis
    using b c c' facts(3) by (auto simp: enumValueContent_def Let_def simp del: upt_Suc split: option.splits intro!: runs_intros)
qed

lemma enumValue_runs [runs_intros]: "inside f (N_EnumValue v) \<Longrightarrow> runs (enumValue f v align bodyID s)"
  using base_bounds[of f "N_EnumValue v"] by (auto simp: enumValue_def Let_def split: prod.splits intro!: runs_intros)

lemma values_from_runs:
  "\<forall>v\<in>set vs. item_ok f (N_EnumValue v) \<Longrightarrow> set is \<subseteq> {..<length vs} \<Longrightarrow> runs (values_from f vs bodyID is s)"
  by (induction f vs bodyID "is" s rule: values_from.induct)
    (auto simp: Let_def split: prod.splits intro!: runs_intros intro: item_ok_inside)

lemma enumValueList_runs [runs_intros]: "\<forall>v\<in>set vs. item_ok f (N_EnumValue v) \<Longrightarrow> runs (enumValueList f vs bodyID s)"
  by (auto simp: enumValueList_def intro!: values_from_runs)


section \<open>Bodies\<close>

lemma scan_list_runs: "set is \<subseteq> {..<count f} \<Longrightarrow> \<exists>i. scan_list f k is stop = Some i \<and> (i \<in> set is \<or> i = stop)"
  by (induction "is") (auto simp: token_def)

lemma scanKind_runs:
  assumes "start \<le> Suc stop" "Suc stop < count f"
  shows "\<exists>i. scanKind f start stop k = Some i \<and> i \<le> stop"
proof -
  obtain i where "scan_list f k [start..<Suc stop] stop = Some i" "i \<in> set [start..<Suc stop] \<or> i = stop"
    using scan_list_runs[of "[start..<Suc stop]" f k stop] assms(2) by (fastforce simp del: upt_Suc)
  then show ?thesis by (auto simp: scanKind_def simp del: upt_Suc)
qed

lemma open_brace_runs [runs_intros]: "i < count f \<Longrightarrow> runs (open_brace f i)"
  by (auto simp: open_brace_def intro!: runs_intros)

lemma bracedGroup_runs [runs_intros]:
  "opn < count f \<Longrightarrow> cls < count f \<Longrightarrow> runs (bracedGroup f body bodyID n opn cls ct forced s)"
  by (auto simp: bracedGroup_def Let_def intro!: runs_intros)

lemma bracedBody_runs [runs_intros]:
  "\<forall>v\<in>set vs. item_ok f (N_Field v) \<Longrightarrow> opn < count f \<Longrightarrow> cls < count f \<Longrightarrow> runs (bracedBody f vs opn cls ct c s)"
  by (auto simp: bracedBody_def Let_def split: prod.splits intro!: runs_intros)

lemma bracedEnumBody_runs [runs_intros]:
  "\<forall>v\<in>set vs. item_ok f (N_EnumValue v) \<Longrightarrow> opn < count f \<Longrightarrow> cls < count f \<Longrightarrow> runs (bracedEnumBody f vs opn cls ct s)"
  by (auto simp: bracedEnumBody_def Let_def split: prod.splits intro!: runs_intros)

lemma braces_runs:
  assumes "start \<le> Suc stop" "start < count f" "Suc stop < count f"
  shows "\<exists>opn cls header. braces f start stop = Some (opn, cls, header) \<and> opn \<le> stop \<and> cls \<le> stop"
proof -
  obtain opn where o: "scanKind f start stop TokenLBrace = Some opn" "opn \<le> stop" using scanKind_runs[OF assms(1,3)] by blast
  obtain cls where c: "scanKind f (Suc opn) stop TokenRBrace = Some cls" "cls \<le> stop"
    using scanKind_runs[of "Suc opn" stop f] o assms by auto
  have "runs (emitTokens f start (Suc opn) (emit_opts\<lparr>eoSkipText := [opn]\<rparr>))"
    using o assms by (auto intro!: runs_intros)
  then show ?thesis using o c by (auto simp: braces_def runs_def)
qed

text \<open>Parts of a node that come later start later.\<close>

lemma chain_less: "chain lo hi (ps @ qs) \<Longrightarrow> p \<in> set ps \<Longrightarrow> q \<in> set qs \<Longrightarrow> part_last p < part_first q"
proof (induction ps arbitrary: lo)
  case (Cons a ps)
  then show ?case using chain_part[of "Suc (part_last a)" hi "ps @ qs" q] by auto
qed simp

lemma item_okI:
  assumes "inside f n" "node_parts n = ps @ qs" "P_node m \<in> set ps" "P_node c \<in> set qs"
  shows "item_ok f c"
proof -
  have "chain (TokStart n) (Suc (TokEnd n)) (ps @ qs)" using assms(1,2) by (auto simp: inside_def elim: node_ok.cases)
  from chain_less[OF this assms(3,4)] have "TokEnd m < TokStart c" by simp
  moreover have "inside f m" "inside f c" using inside_part(1)[OF assms(1)] assms(2-4) by simp_all
  ultimately show ?thesis using inside_bounds[of f m] by (auto simp: item_ok_def)
qed

text \<open>The annotations in front of a declaration leave its content inside it.\<close>

lemma lead_start:
  assumes "\<forall>sa\<in>set sas. inside f (N_StructuredAnnotation sa)" "start < count f"
    and "structuredAnnosLead f sas start s = Some ((d, st), s')"
  shows "st = (if sas = [] then start else next_real f (Suc (nbLast (saBase (last sas)))))"
  using assms(3)
  by (auto simp: structuredAnnosLead_def structuredAnnos_def Option.bind_eq_Some_conv split: if_splits)

lemma struct_facts:
  assumes "inside f (N_Struct v)"
  shows "\<forall>x\<in>set (stFields v). item_ok f (N_Field x)" "\<forall>a. stAnnotations v = Some a \<longrightarrow> inside f (N_Annotations a)"
    "\<forall>sa\<in>set (stStructured v). inside f (N_StructuredAnnotation sa)"
proof -
  obtain n where n: "stName v = Some n" using inside_shape[OF assms] by auto
  show "\<forall>x\<in>set (stFields v). item_ok f (N_Field x)"
    using n by (auto intro!: item_okI[OF assms, where m = "N_Identifier n" and
      ps = "map p_struct (stStructured v) @ opt p_ident (stName v)" and qs = "map p_field (stFields v) @ opt p_annos (stAnnotations v)"])
qed (use inside_part(1)[OF assms] in auto)

lemma enum_facts:
  assumes "inside f (N_Enum v)"
  shows "\<forall>x\<in>set (enValues v). item_ok f (N_EnumValue x)" "\<forall>a. enAnnotations v = Some a \<longrightarrow> inside f (N_Annotations a)"
    "\<forall>sa\<in>set (enStructured v). inside f (N_StructuredAnnotation sa)"
proof -
  obtain n where n: "enName v = Some n" using inside_shape[OF assms] by auto
  show "\<forall>x\<in>set (enValues v). item_ok f (N_EnumValue x)"
    using n by (auto intro!: item_okI[OF assms, where m = "N_Identifier n" and ps = "map p_struct (enStructured v) @ opt p_ident (enName v)" and
      qs = "map (\<lambda>x. P_node (N_EnumValue x)) (enValues v) @ opt p_annos (enAnnotations v)"])
qed (use inside_part(1)[OF assms] in auto)

text \<open>Where the content starts is in front of the last token of the declaration.\<close>

lemma lead_inside:
  assumes "inside f n" "node_parts n = map p_struct sas @ ps" "P_node m \<in> set ps"
    and "structuredAnnosLead f sas (TokStart n) s = Some ((d, st), s')"
  shows "st \<le> TokEnd n" "st < count f"
proof -
  have sas: "\<forall>sa\<in>set sas. inside f (N_StructuredAnnotation sa)" using inside_part(1)[OF assms(1)] assms(2) by simp
  note b = inside_bounds[OF assms(1)]
  have st: "st = (if sas = [] then TokStart n else next_real f (Suc (nbLast (saBase (last sas)))))"
    by (rule lead_start[OF sas _ assms(4)]) (use b in simp)
  have m: "inside f m" "TokEnd m \<le> TokEnd n" using inside_part[OF assms(1)] assms(2,3) by simp_all
  have "next_real f (Suc (nbLast (saBase (last sas)))) \<le> TokStart m" if ne: "sas \<noteq> []"
  proof -
    have "chain (TokStart n) (Suc (TokEnd n)) (map p_struct sas @ ps)"
      using assms(1,2) by (auto simp: inside_def elim: node_ok.cases)
    from chain_less[OF this, of "p_struct (last sas)" "P_node m"] last_in_set[OF ne] assms(3)
    have "nbLast (saBase (last sas)) < TokStart m" by (simp add: tok_bounds)
    moreover have "real_tok (fmToks f) (TokStart m)" using inside_bounds[OF m(1)] by simp
    ultimately show ?thesis unfolding next_real_def by (intro NextReal_le) (auto simp: real_tok_def)
  qed
  then show "st \<le> TokEnd n" using st m inside_bounds[OF m(1)] b by auto
  then show "st < count f" using b by simp
qed

lemma structLike_runs [runs_intros]:
  assumes "inside f (N_Struct v)"
  shows "runs (structLike f v s)"
proof -
  note b = base_bounds[OF assms] and facts = struct_facts[OF assms]
  obtain n where n: "stName v = Some n" using inside_shape[OF assms] by auto
  obtain d st s' where l: "structuredAnnosLead f (stStructured v) (nbFirst (stBase v)) s = Some ((d, st), s')"
    using structuredAnnosLead_runs[OF facts(3), of "nbFirst (stBase v)" s] b by auto
  have st: "st \<le> nbLast (stBase v)" "st < count f"
    using lead_inside[OF assms, of "stStructured v" _ "N_Identifier n" s d st s'] l n by (auto simp: tok_bounds)
  obtain opn cls header where o: "braces f st (nbLast (stBase v)) = Some (opn, cls, header)" "opn \<le> nbLast (stBase v)" "cls \<le> nbLast (stBase v)"
    using braces_runs[of st "nbLast (stBase v)" f] st b by auto
  show ?thesis
    using b facts(1,2) l o by (auto simp: structLike_def Let_def split: prod.splits intro!: runs_intros)
qed

lemma enum_doc_runs [runs_intros]:
  assumes "inside f (N_Enum v)"
  shows "runs (enum_doc f v s)"
proof -
  note b = base_bounds[OF assms] and facts = enum_facts[OF assms]
  obtain n where n: "enName v = Some n" using inside_shape[OF assms] by auto
  obtain d st s' where l: "structuredAnnosLead f (enStructured v) (nbFirst (enBase v)) s = Some ((d, st), s')"
    using structuredAnnosLead_runs[OF facts(3), of "nbFirst (enBase v)" s] b by auto
  have st: "st \<le> nbLast (enBase v)" "st < count f"
    using lead_inside[OF assms, of "enStructured v" _ "N_Identifier n" s d st s'] l n by (auto simp: tok_bounds)
  obtain opn cls header where o: "braces f st (nbLast (enBase v)) = Some (opn, cls, header)" "opn \<le> nbLast (enBase v)" "cls \<le> nbLast (enBase v)"
    using braces_runs[of st "nbLast (enBase v)" f] st b by auto
  show ?thesis
    using b facts(1,2) l o by (auto simp: enum_doc_def Let_def split: prod.splits intro!: runs_intros)
qed

section \<open>Functions\<close>

lemma broken_from_runs:
  "\<forall>v\<in>set vs. item_ok f (N_Field v) \<Longrightarrow> set is \<subseteq> {..<length vs} \<Longrightarrow> runs (broken_from f vs mode is s)"
  by (induction f vs mode "is" s rule: broken_from.induct)
    (auto split: prod.splits intro!: runs_intros intro: item_ok_inside)

lemma brokenParens_runs [runs_intros]:
  "\<forall>v\<in>set vs. item_ok f (N_Field v) \<Longrightarrow> opn < count f \<Longrightarrow> cls < count f \<Longrightarrow> runs (brokenParens f vs opn cls mode s)"
  by (auto simp: brokenParens_def brokenFields_def split: prod.splits intro!: runs_intros broken_from_runs)

lemma flat_from_runs: "\<forall>v\<in>set vs. inside f (N_Field v) \<Longrightarrow> runs (flat_from f prev vs mode s)"
  by (induction f prev vs mode s rule: flat_from.induct) (auto split: prod.splits intro!: runs_intros)

lemma parenGroup_runs [runs_intros]:
  "\<forall>v\<in>set vs. item_ok f (N_Field v) \<Longrightarrow> opn < count f \<Longrightarrow> cls < count f \<Longrightarrow> runs (parenGroup f vs opn cls forced mode s)"
  by (auto simp: parenGroup_def flatFieldsJoin_def Let_def split: prod.splits
      intro!: runs_intros flat_from_runs item_ok_inside)

lemma any_forced_runs: "\<forall>v\<in>set vs. inside f (N_Field v) \<Longrightarrow> runs (any_forced f vs)"
proof (induction vs)
  case (Cons v vs)
  then show ?case
    using base_bounds[of f "N_Field v"] by (auto simp: blankBefore_def tok_bounds intro!: runs_intros)
qed simp

lemma fieldsForcedBroken_runs [runs_intros]:
  assumes "\<forall>v\<in>set vs. item_ok f (N_Field v)"
  shows "runs (fieldsForcedBroken f vs)"
proof (cases "vs = []")
  case False
  then have i: "item_ok f (N_Field (hd vs))" "item_ok f (N_Field (last vs))" using assms by simp_all
  note b = base_bounds[OF item_ok_inside[OF i(1)]] base_bounds[OF item_ok_inside[OF i(2)]]
  obtain p where "prev_real f (nbFirst (fiBase (hd vs))) = Some (Some p)" "p < count f"
    using item_ok_prev[OF i(1), of "nbFirst (fiBase (hd vs))"] b by (auto simp: tok_bounds)
  then show ?thesis
    using False b assms by (auto simp: fieldsForcedBroken_def intro!: runs_intros any_forced_runs item_ok_inside)
qed (simp add: fieldsForcedBroken_def)

lemma function_facts:
  assumes "inside f (N_Function v)"
  shows "\<forall>x\<in>set (fnArgs v). item_ok f (N_Field x)" "\<forall>a. fnAnnotations v = Some a \<longrightarrow> inside f (N_Annotations a)"
    "\<forall>sa\<in>set (fnStructured v). inside f (N_StructuredAnnotation sa)"
    "\<forall>t. fnThrows v = Some t \<longrightarrow> inside f (N_Throws t) \<and> (\<forall>x\<in>set (thFields t). item_ok f (N_Field x))"
    "\<exists>m ps. node_parts (N_Function v) = map p_struct (fnStructured v) @ ps \<and> P_node m \<in> set ps"
proof -
  obtain n where n: "fnName v = Some n" using inside_shape[OF assms] by auto
  let ?ps = "map p_struct (fnStructured v) @ opt P_tok (fnOneway v) @ opt P_tok (fnVoid v) @ opt p_type (fnType v) @ opt p_ident (fnName v)"
  have i: "item_ok f c" if "P_node c \<in> set (map p_field (fnArgs v) @ opt (\<lambda>x. P_node (N_Throws x)) (fnThrows v) @ opt p_annos (fnAnnotations v))" for c
    by (rule item_okI[OF assms _ _ that, where ps = ?ps and m = "N_Identifier n"]) (use n in auto)
  show "\<forall>x\<in>set (fnArgs v). item_ok f (N_Field x)" using i by auto
  have "item_ok f (N_Field x)" if "fnThrows v = Some t" "x \<in> set (thFields t)" for t x
  proof -
    have t: "item_ok f (N_Throws t)" using i that by auto
    then obtain r where "r < TokStart (N_Throws t)" "real_tok (fmToks f) r" by (auto simp: item_ok_def)
    moreover have "inside f (N_Field x)" "TokStart (N_Throws t) \<le> TokStart (N_Field x)"
      using inside_part[OF item_ok_inside[OF t], of "N_Field x"] that by auto
    ultimately show ?thesis unfolding item_ok_def by (metis order_less_le_trans)
  qed
  then show "\<forall>t. fnThrows v = Some t \<longrightarrow> inside f (N_Throws t) \<and> (\<forall>x\<in>set (thFields t). item_ok f (N_Field x))"
    using inside_part(1)[OF assms] by auto
  show "\<exists>m ps. node_parts (N_Function v) = map p_struct (fnStructured v) @ ps \<and> P_node m \<in> set ps"
    using n by (auto intro!: exI[of _ "N_Identifier n"])
qed (use inside_part(1)[OF assms] in auto)

lemma throws_part_runs [runs_intros]: "inside f (N_Function v) \<Longrightarrow> runs (throws_part f v s)"
  using function_facts(4)[of f v] base_bounds[of f "N_Throws _"]
  by (auto simp: throws_part_def throwsGroup_def Let_def split: option.splits prod.splits intro!: runs_intros)

lemma parenClose_less:
  assumes "\<forall>x\<in>set vs. item_ok f (N_Field x)" "sane f" "Suc opn < count f"
  shows "parenClose f vs opn < count f"
proof (cases "vs = []")
  case False
  then have "inside f (N_Field (last vs))" using assms(1) item_ok_inside by simp
  from base_bounds[OF this] show ?thesis using False by (simp add: parenClose_def)
qed (simp add: parenClose_def assms)

lemma tail_throws_runs [runs_intros]: "nbLast (fnBase v) < count f \<Longrightarrow> runs (tail_throws f v idx)"
  by (auto simp: tail_throws_def split: option.splits intro!: runs_intros)

lemma tail_annotations_runs [runs_intros]:
  assumes "\<forall>a. fnAnnotations v = Some a \<longrightarrow> inside f (N_Annotations a)"
  shows "runs (tail_annotations f v idx s)"
proof (cases "fnAnnotations v")
  case (Some a)
  then have i: "inside f (N_Annotations a)" using assms by simp
  have "after_prev e \<le> count f" if "prev_real f (nbFirst (asBase a)) = Some e" for e
    using prev_real_less[of f "nbFirst (asBase a)"] that by (cases e) (auto simp: after_prev_def Suc_le_eq)
  then show ?thesis
    using base_bounds[OF i] i Some by (auto simp: tail_annotations_def Let_def split: prod.splits intro!: runs_intros)
qed (simp add: tail_annotations_def)

lemma functionTail_runs:
  assumes "inside f (N_Function v)" "Suc opn < count f"
  shows "runs (functionTail f v opn s)"
  using base_bounds[OF assms(1)] function_facts[OF assms(1)] parenClose_less[of "fnArgs v" f opn] assms(2)
  by (auto simp: functionTail_def Let_def split: prod.splits intro!: runs_intros)

lemma function_doc_runs [runs_intros]:
  assumes "inside f (N_Function v)"
  shows "runs (function_doc f v s)"
proof -
  note b = base_bounds[OF assms] and facts = function_facts[OF assms]
  obtain d st s' where l: "structuredAnnosLead f (fnStructured v) (nbFirst (fnBase v)) s = Some ((d, st), s')" "st < count f"
    using structuredAnnosLead_runs[OF facts(3), of "nbFirst (fnBase v)" s] b by auto
  obtain m ps where "node_parts (N_Function v) = map p_struct (fnStructured v) @ ps" "P_node m \<in> set ps" using facts(5) by blast
  from lead_inside(1)[OF assms this, of s d st s'] have st: "st \<le> Suc (nbLast (fnBase v))" using l by (simp add: tok_bounds)
  obtain opn where o: "scanKind f st (nbLast (fnBase v)) TokenLParen = Some opn" "opn \<le> nbLast (fnBase v)"
    using scanKind_runs[OF st] b by auto
  have c: "parenClose f (fnArgs v) opn < count f" using parenClose_less[OF facts(1)] b o by simp
  have t: "runs (functionTail f v opn s)" for s using functionTail_runs[OF assms] b o by simp
  show ?thesis
    using b facts(1) l o c t assms
    by (auto simp: function_doc_def functionBody_def functionBrokenArgs_def Let_def split: prod.splits intro!: runs_intros)
qed


section \<open>Services, headers and constants\<close>

lemma functions_from_runs: "\<forall>v\<in>set vs. inside f (N_Function v) \<Longrightarrow> runs (functions_from f first vs s)"
  by (induction f first vs s rule: functions_from.induct) (auto split: prod.splits intro!: runs_intros)

lemma service_facts:
  assumes "inside f (N_Service v)"
  shows "\<forall>x\<in>set (svFunctions v). inside f (N_Function x)" "\<forall>a. svAnnotations v = Some a \<longrightarrow> inside f (N_Annotations a)"
    "\<forall>sa\<in>set (svStructured v). inside f (N_StructuredAnnotation sa)"
  using inside_part(1)[OF assms] by auto

lemma service_doc_runs [runs_intros]:
  assumes "inside f (N_Service v)"
  shows "runs (service_doc f v s)"
proof -
  note b = base_bounds[OF assms] and facts = service_facts[OF assms]
  obtain n where n: "svName v = Some n" using inside_shape[OF assms] by auto
  obtain d st s' where l: "structuredAnnosLead f (svStructured v) (nbFirst (svBase v)) s = Some ((d, st), s')"
    using structuredAnnosLead_runs[OF facts(3), of "nbFirst (svBase v)" s] b by auto
  have st: "st \<le> nbLast (svBase v)" "st < count f"
    using lead_inside[OF assms, of "svStructured v" _ "N_Identifier n" s d st s'] l n by (auto simp: tok_bounds)
  obtain opn cls header where o: "braces f st (nbLast (svBase v)) = Some (opn, cls, header)" "opn \<le> nbLast (svBase v)" "cls \<le> nbLast (svBase v)"
    using braces_runs[of st "nbLast (svBase v)" f] st b by auto
  show ?thesis
    using b facts(1,2) l o
    by (auto simp: service_doc_def Let_def token_Some split: prod.splits intro!: runs_intros functions_from_runs)
qed

lemma headerWithAnnotations_runs [runs_intros]:
  assumes "\<forall>sa\<in>set sas. inside f (N_StructuredAnnotation sa)" "\<forall>a. ann = Some a \<longrightarrow> inside f (N_Annotations a)"
    "start < count f" "Suc stop < count f"
  shows "runs (headerWithAnnotations f sas start stop ann s)"
proof -
  obtain d st s' where l: "structuredAnnosLead f sas start s = Some ((d, st), s')" "st < count f"
    using structuredAnnosLead_runs[OF assms(1,3)] by blast
  have "nbFirst (asBase a) < count f" if "ann = Some a" for a
    using base_bounds[of f "N_Annotations a"] assms(2) that by simp
  then show ?thesis
    using l assms(2,4) by (auto simp: headerWithAnnotations_def split: option.splits prod.splits intro!: runs_intros)
qed

lemma const_facts:
  assumes "inside f (N_Const v)"
  obtains ty name val where "coType v = Some ty" "coName v = Some name" "coValue v = Some val"
    "inside f (N_FieldType ty)" "inside f (N_Identifier name)" "item_ok f (N_ConstValue val)"
    "\<forall>sa\<in>set (coStructured v). inside f (N_StructuredAnnotation sa)"
proof -
  obtain ty name val where n: "coType v = Some ty" "coName v = Some name" "coValue v = Some val"
    using inside_shape[OF assms] by auto
  have "item_ok f (N_ConstValue val)"
    by (rule item_okI[OF assms, of "map p_struct (coStructured v) @ opt p_type (coType v) @ opt p_ident (coName v)" "opt p_value (coValue v)"
        "N_Identifier name"]) (simp_all add: n)
  then show thesis using that[OF n] inside_part(1)[OF assms] n by simp
qed

lemma constPrefix_runs [runs_intros]:
  assumes "inside f (N_Const v)"
  shows "runs (constPrefix f v)"
proof (rule const_facts[OF assms])
  fix ty name val assume n: "coType v = Some ty" "coName v = Some name" "coValue v = Some val"
    and i: "inside f (N_FieldType ty)" "inside f (N_Identifier name)" "item_ok f (N_ConstValue val)"
  obtain p where p: "prev_real f (nbFirst (cvBase val)) = Some (Some p)" "p < count f"
    using item_ok_prev[OF i(3), of "nbFirst (cvBase val)"] base_bounds[OF item_ok_inside[OF i(3)]] by (auto simp: tok_bounds)
  have t: "runs (typeText f (Some ty))" using i(1) by (intro typeText_runs) simp
  have c: "runs (any_comment f [st..<p])" for st using p by (intro any_comment_runs) auto
  show ?thesis
    using n p t c by (auto simp: constPrefix_def Let_def intro!: runs_intros)
qed

lemma constant_doc_runs [runs_intros]:
  assumes "inside f (N_Const v)"
  shows "runs (constant_doc f k v s)"
proof (rule const_facts[OF assms])
  fix ty name val assume n: "coType v = Some ty" "coName v = Some name" "coValue v = Some val"
    and i: "item_ok f (N_ConstValue val)" "\<forall>sa\<in>set (coStructured v). inside f (N_StructuredAnnotation sa)"
  note b = base_bounds[OF assms] base_bounds[OF item_ok_inside[OF i(1)]]
  obtain p where p: "prev_real f (nbFirst (cvBase val)) = Some (Some p)" "p < count f"
    using item_ok_prev[OF i(1), of "nbFirst (cvBase val)"] b by (auto simp: tok_bounds)
  obtain d st s' where l: "structuredAnnosLead f (coStructured v) (nbFirst (coBase v)) s = Some ((d, st), s')" "st < count f"
    using structuredAnnosLead_runs[OF i(2), of "nbFirst (coBase v)" s] b by auto
  have o: "runs (const_opts f k v)"
    using assms n by (auto simp: const_opts_def split: option.splits intro!: runs_intros)
  show ?thesis
    using n b p l o item_ok_inside[OF i(1)]
    by (auto simp: constant_doc_def Let_def split: prod.splits intro!: runs_intros)
qed

lemma constRun_runs: "\<forall>n\<in>set nodes. inside f n \<Longrightarrow> runs (constRun f first nodes)"
proof (induction nodes arbitrary: first)
  case (Cons n nodes)
  show ?case
  proof (cases n)
    case (N_Const v)
    then have i: "inside f (N_Const v)" using Cons.prems by simp
    show ?thesis
      using Cons base_bounds[OF i] i N_Const
      by (auto simp: blankBefore_def tok_bounds split: option.splits intro!: runs_intros)
  qed simp_all
qed simp

lemma constAlignments_loop_runs: "\<forall>n\<in>set (fmNodes f). inside f n \<Longrightarrow> runs (constAlignments_loop f i m)"
proof (induction f i m rule: constAlignments_loop.induct)
  case (1 f i m)
  have "runs (constRun f True (drop i (fmNodes f)))"
    using 1(3) by (intro constRun_runs) (auto dest: in_set_dropD)
  then obtain ws where ws: "constRun f True (drop i (fmNodes f)) = Some ws" by (auto simp: runs_def)
  show ?case
    by (subst constAlignments_loop.simps) (use 1 ws in \<open>auto split: list.splits\<close>)
qed

section \<open>Documents\<close>

lemma nodeBody_runs:
  assumes "inside f n" "toplevel n"
  shows "runs (nodeBody f k n s)"
  using base_bounds[OF assms(1)] assms inside_part(1)[OF assms(1)]
  by (cases n) (auto intro!: runs_intros)

lemma fmt_node_runs [runs_intros]: "inside f n \<Longrightarrow> toplevel n \<Longrightarrow> runs (fmt_node f k n s)"
  using inside_bounds[of f n] by (auto simp: fmt_node_def split: prod.splits intro!: runs_intros nodeBody_runs)

lemma nodes_from_runs: "\<forall>n\<in>set ns. inside f n \<and> toplevel n \<Longrightarrow> runs (nodes_from f i ns s)"
  by (induction f i ns s rule: nodes_from.induct) (auto split: prod.splits intro!: runs_intros)

lemma document_doc_runs:
  assumes "sane f" "\<forall>n\<in>set (fmNodes f). inside f n \<and> toplevel n"
  shows "runs (document_doc f s)"
proof -
  have g: "inside (f\<lparr>fmConstAligns := m\<rparr>) n = inside f n" for m n by (simp add: inside_def sane_def)
  have "runs (constAlignments f)"
    using assms(2) by (auto simp: constAlignments_def intro!: constAlignments_loop_runs)
  moreover have "runs (nodes_from (f\<lparr>fmConstAligns := m\<rparr>) 0 (fmNodes f) s)" for m
    using assms(2) by (intro nodes_from_runs) (simp add: g)
  moreover have "fmToks f \<noteq> []" using assms(1) by (simp add: sane_def stream_ok_def)
  ultimately show ?thesis
    by (auto simp: document_doc_def Let_def split: prod.splits intro!: runs_intros)
qed

end
