(* ===== verification/DiffProps.thy ===== *)
theory DiffProps imports Diff
begin

text \<open>
  Correctness of the diff: the anchors are a longest common subsequence of the unique
  lines, the diff never panics, and patching the old lines with its hunks gives the new
  lines.
\<close>

section \<open>Counting lines\<close>

lemma seen_upd [simp]: "seen (m(s \<mapsto> c)) t = (if t = s then c else seen m t)"
  by (simp add: seen_def)

lemma count_x:
  "(\<And>s. seen m s = - int (min (a s) 2)) \<Longrightarrow>
   seen (fold (count_line (- 2) 1) xs m) s = - int (min (a s + count_list xs s) 2)"
proof (induction xs arbitrary: m a)
  case (Cons x xs)
  have "seen (count_line (- 2) 1 x m) t = - int (min ((if t = x then a t + 1 else a t)) 2)" for t
    by (simp add: count_line_def Let_def Cons.prems)
  from Cons.IH[OF this] show ?case by (simp add: add.commute)
qed simp

lemma count_y:
  "(\<And>s. seen m s = - int (min (p s) 2) - 4 * int (min (a s) 2)) \<Longrightarrow>
   seen (fold (count_line (- 8) 4) xs m) s = - int (min (p s) 2) - 4 * int (min (a s + count_list xs s) 2)"
proof (induction xs arbitrary: m a)
  case (Cons x xs)
  have "seen (count_line (- 8) 4 x m) t = - int (min (p t) 2) - 4 * int (min ((if t = x then a t + 1 else a t)) 2)" for t
    by (auto simp: count_line_def Let_def Cons.prems min_def)
  from Cons.IH[OF this] show ?case by (simp add: add.commute)
qed simp

lemma count_neg:
  "(\<And>s v. m s = Some v \<Longrightarrow> v < 0) \<Longrightarrow> d > 0 \<Longrightarrow> fold (count_line l d) xs m s = Some v \<Longrightarrow> v < 0"
proof (induction xs arbitrary: m)
  case (Cons x xs)
  have "w < 0" if "count_line l d x m t = Some w" for t w
    using that Cons.prems(1,2) by (force simp: count_line_def Let_def seen_def split: if_splits option.splits)
  then show ?case using Cons.IH[of "count_line l d x m"] Cons.prems(2,3) by simp
qed simp

text \<open>The lines that occur once in both texts.\<close>

definition unique :: "bytes list \<Rightarrow> bytes list \<Rightarrow> bytes \<Rightarrow> bool" where
  "unique x y s \<longleftrightarrow> count_list x s = 1 \<and> count_list y s = 1"

definition counted :: "bytes list \<Rightarrow> bytes list \<Rightarrow> (bytes \<rightharpoonup> int)" where
  "counted x y = fold (count_line (- 8) 4) y (fold (count_line (- 2) 1) x Map.empty)"

lemma counted: "seen (counted x y) s = - 5 \<longleftrightarrow> unique x y s" "counted x y s = Some v \<Longrightarrow> v < 0"
proof -
  have "seen (fold (count_line (- 2) 1) x Map.empty) t = - int (min (count_list x t) 2)" for t
    using count_x[of Map.empty "\<lambda>_. 0" x t] by (simp add: seen_def)
  then have "seen (counted x y) s = - int (min (count_list x s) 2) - 4 * int (min (count_list y s) 2)"
    unfolding counted_def using count_y[of "fold (count_line (- 2) 1) x Map.empty" "count_list x" "\<lambda>_. 0" y s] by simp
  then show "seen (counted x y) s = - 5 \<longleftrightarrow> unique x y s"
    by (simp add: unique_def min_def) presburger
  show "counted x y s = Some v \<Longrightarrow> v < 0"
    unfolding counted_def by (rule count_neg[of "fold (count_line (- 2) 1) x Map.empty" 4])
      (use count_neg[of Map.empty 1] in auto)
qed

section \<open>Marking\<close>

lemma count_one_split: "count_list (us @ s # vs) s = 1 \<longleftrightarrow> s \<notin> set us \<and> s \<notin> set vs"
  by (auto simp: count_list_0_iff)

lemma mark_y:
  "y = pre @ ss \<Longrightarrow> yi = filter (\<lambda>i. unique x y (y ! i)) [0..<length pre] \<Longrightarrow>
   (\<And>s. unique x y s \<Longrightarrow> if s \<in> set pre then \<exists>j<length yi. m s = Some (int j) \<and> y ! (yi ! j) = s else seen m s = - 5) \<Longrightarrow>
   (\<And>s. \<not> unique x y s \<Longrightarrow> seen m s \<noteq> - 5 \<and> (\<forall>v. m s = Some v \<longrightarrow> v < 0)) \<Longrightarrow>
   mark_y (length pre) ss m yi = (m', yi') \<Longrightarrow>
   yi' = filter (\<lambda>i. unique x y (y ! i)) [0..<length y] \<and>
   (\<forall>s. unique x y s \<longrightarrow> (\<exists>j<length yi'. m' s = Some (int j) \<and> y ! (yi' ! j) = s)) \<and>
   (\<forall>s v. \<not> unique x y s \<longrightarrow> m' s = Some v \<longrightarrow> v < 0)"
proof (induction ss arbitrary: pre m yi)
  case Nil
  then have "s \<in> set pre" if "unique x y s" for s
    using that by (metis append_Nil2 count_list_0_iff unique_def zero_neq_one)
  then show ?case using Nil by fastforce
next
  case (Cons s ss)
  have y: "y = (pre @ [s]) @ ss" using Cons.prems(1) by simp
  have s: "y ! length pre = s" using Cons.prems(1) by simp
  have new: "s \<notin> set pre" if "unique x y s"
    using that Cons.prems(1) count_one_split[of pre s ss] by (simp add: unique_def)
  show ?case
  proof (cases "unique x y s")
    case True
    then have 5: "seen m s = - 5" using Cons.prems(3)[OF True] new by simp
    show ?thesis
    proof (rule Cons.IH[OF y, of "yi @ [length pre]" "m(s \<mapsto> int (length yi))"])
      show "yi @ [length pre] = filter (\<lambda>i. unique x y (y ! i)) [0..<length (pre @ [s])]"
        using Cons.prems(2) True s by simp
      show "mark_y (length (pre @ [s])) ss (m(s \<mapsto> int (length yi))) (yi @ [length pre]) = (m', yi')"
        using Cons.prems(5) 5 by simp
      show "if t \<in> set (pre @ [s]) then \<exists>j<length (yi @ [length pre]). (m(s \<mapsto> int (length yi))) t = Some (int j) \<and> y ! ((yi @ [length pre]) ! j) = t
          else seen (m(s \<mapsto> int (length yi))) t = - 5" if t: "unique x y t" for t
      proof (cases "t = s")
        case True
        then show ?thesis using s by (auto simp: nth_append)
      next
        case False
        show ?thesis
        proof (cases "t \<in> set pre")
          case pre: True
          then obtain j where "j < length yi" "m t = Some (int j)" "y ! (yi ! j) = t" using Cons.prems(3)[OF t] by auto
          then show ?thesis using pre False by (auto simp: nth_append intro!: exI[of _ j])
        qed (use Cons.prems(3)[OF t] False in simp)
      qed
      show "seen (m(s \<mapsto> int (length yi))) t \<noteq> - 5 \<and> (\<forall>v. (m(s \<mapsto> int (length yi))) t = Some v \<longrightarrow> v < 0)"
        if "\<not> unique x y t" for t
        using Cons.prems(4)[OF that] True that by auto
    qed
  next
    case False
    then have n5: "seen m s \<noteq> - 5" using Cons.prems(4) by blast
    show ?thesis
    proof (rule Cons.IH[OF y])
      show "yi = filter (\<lambda>i. unique x y (y ! i)) [0..<length (pre @ [s])]" using Cons.prems(2) False s by simp
      show "mark_y (length (pre @ [s])) ss m yi = (m', yi')" using Cons.prems(5) n5 by simp
      show "if t \<in> set (pre @ [s]) then \<exists>j<length yi. m t = Some (int j) \<and> y ! (yi ! j) = t else seen m t = - 5"
        if t: "unique x y t" for t
        using Cons.prems(3)[OF t] t False by auto
    qed (use Cons.prems(4) in auto)
  qed
qed

lemma mark_x:
  "x = pre @ ss \<Longrightarrow> xi = filter (\<lambda>i. unique x y (x ! i)) [0..<length pre] \<Longrightarrow> length J = length xi \<Longrightarrow>
   (\<And>s. unique x y s \<Longrightarrow> \<exists>j<length yi. m s = Some (int j) \<and> y ! (yi ! j) = s) \<Longrightarrow>
   (\<And>s v. \<not> unique x y s \<Longrightarrow> m s = Some v \<Longrightarrow> v < 0) \<Longrightarrow>
   \<forall>a<length xi. J ! a < length yi \<and> y ! (yi ! (J ! a)) = x ! (xi ! a) \<Longrightarrow>
   mark_x (length pre) ss m xi J = (xi', J') \<Longrightarrow>
   xi' = filter (\<lambda>i. unique x y (x ! i)) [0..<length x] \<and> length J' = length xi' \<and>
   (\<forall>a<length xi'. J' ! a < length yi \<and> y ! (yi ! (J' ! a)) = x ! (xi' ! a))"
proof (induction ss arbitrary: pre xi J)
  case (Cons s ss)
  have x: "x = (pre @ [s]) @ ss" using Cons.prems(1) by simp
  have s: "x ! length pre = s" using Cons.prems(1) by simp
  show ?case
  proof (cases "unique x y s")
    case True
    then obtain j where j: "j < length yi" "m s = Some (int j)" "y ! (yi ! j) = s" using Cons.prems(4) by blast
    show ?thesis
      by (rule Cons.IH[OF x, of "xi @ [length pre]" "J @ [j]"])
        (use Cons.prems j True s in \<open>auto simp: nth_append less_Suc_eq\<close>)
  next
    case False
    then have "mark_x (length pre) (s # ss) m xi J = mark_x (length (pre @ [s])) ss m xi J"
      using Cons.prems(5)[OF False] by (auto split: option.split)
    then show ?thesis
      by (intro Cons.IH[OF x]) (use Cons.prems False s in auto)
  qed
qed auto

section \<open>Piles\<close>

text \<open>
  What the piles hold after the values \<open>p\<close>: \<open>L\<close> numbers the pile of each value, \<open>T\<close>
  holds the last value of each pile, and a value above the first pile was put right of
  a smaller top.
\<close>

definition pile_tops :: "nat list \<Rightarrow> nat list \<Rightarrow> nat list \<Rightarrow> bool" where
  "pile_tops T p L \<longleftrightarrow> sorted T \<and>
     (\<forall>k<length T. T ! k = length T + 1 \<or>
        (\<exists>a<length p. L ! a = k + 1 \<and> T ! k = p ! a \<and> (\<forall>c<length p. a < c \<longrightarrow> L ! c \<noteq> k + 1))) \<and>
     (\<forall>a<length p. 0 < L ! a \<and> L ! a \<le> length T \<and> T ! (L ! a - 1) \<le> p ! a) \<and>
     (\<forall>k<length T. length p \<le> k \<longrightarrow> T ! k = length T + 1)"

definition pile_links :: "nat list \<Rightarrow> nat list \<Rightarrow> bool" where
  "pile_links p L \<longleftrightarrow> length L = length p \<and>
     (\<forall>b<length p. 1 < L ! b \<longrightarrow>
        (\<exists>a<b. L ! a = L ! b - 1 \<and> p ! a < p ! b \<and> (\<forall>c<b. a < c \<longrightarrow> L ! c \<noteq> L ! b - 1))) \<and>
     (\<forall>b<length p. \<forall>a<b. p ! a < p ! b \<longrightarrow> L ! a < L ! b)"

lemma piles_step:
  assumes "pile_tops T p L" "pile_links p L" "j \<le> length T" "length p < length T"
    and k: "k = sort_Search (length T) (\<lambda>k. T ! k \<ge> j)"
  shows "k < length T" "pile_tops (T[k := j]) (p @ [j]) (L @ [k + 1])" "pile_links (p @ [j]) (L @ [k + 1])"
proof -
  have len: "length L = length p" using assms(2) by (simp add: pile_links_def)
  have srt: "sorted T" using assms(1) by (simp add: pile_tops_def)
  have "upward (length T) (\<lambda>k. T ! k \<ge> j)"
    unfolding upward_def using srt by (meson le_trans sorted_nth_mono)
  from sort_Search_first[OF this] have below: "\<And>i. i < k \<Longrightarrow> T ! i < j" and at: "k < length T \<Longrightarrow> j \<le> T ! k"
    unfolding first_at_def k[symmetric] by auto
  have "T ! length p = length T + 1" using assms(1,4) by (simp add: pile_tops_def)
  then have kp: "k \<le> length p" using below[of "length p"] assms(3) by (cases "length p < k") auto
  then show kl: "k < length T" using assms(4) by simp
  have at: "j \<le> T ! k" by (rule at[OF kl])
  have tops: "\<And>i. i < length T \<Longrightarrow> T ! i = length T + 1 \<or>
      (\<exists>a<length p. L ! a = i + 1 \<and> T ! i = p ! a \<and> (\<forall>c<length p. a < c \<longrightarrow> L ! c \<noteq> i + 1))"
    and low: "\<And>a. a < length p \<Longrightarrow> 0 < L ! a \<and> L ! a \<le> length T \<and> T ! (L ! a - 1) \<le> p ! a"
    using assms(1) by (auto simp: pile_tops_def)
  have "sorted (T[k := j])"
    unfolding sorted_iff_nth_mono
  proof (intro allI impI)
    fix a b assume "a \<le> b" "b < length (T[k := j])"
    then have "T ! a \<le> T ! b" "b < length T" using srt by (auto simp: sorted_nth_mono)
    moreover have "T ! k \<le> T ! b" if "k \<le> b" using srt that \<open>b < length T\<close> by (simp add: sorted_nth_mono)
    ultimately show "T[k := j] ! a \<le> T[k := j] ! b"
      using below[of a] at \<open>a \<le> b\<close> kl by (cases "a = k"; cases "b = k") auto
  qed
  moreover have "T[k := j] ! i = length T + 1 \<or> (\<exists>a<length (p @ [j]). (L @ [k + 1]) ! a = i + 1 \<and>
      T[k := j] ! i = (p @ [j]) ! a \<and> (\<forall>c<length (p @ [j]). a < c \<longrightarrow> (L @ [k + 1]) ! c \<noteq> i + 1))" if i: "i < length T" for i
  proof (cases "i = k")
    case True
    then show ?thesis using kl len by (intro disjI2 exI[of _ "length p"]) (auto simp: nth_append)
  next
    case False
    from tops[OF i] show ?thesis
    proof
      assume "\<exists>a<length p. L ! a = i + 1 \<and> T ! i = p ! a \<and> (\<forall>c<length p. a < c \<longrightarrow> L ! c \<noteq> i + 1)"
      then obtain a where a: "a < length p" "L ! a = i + 1" "T ! i = p ! a" "\<forall>c<length p. a < c \<longrightarrow> L ! c \<noteq> i + 1" by blast
      then show ?thesis using False len
        by (intro disjI2 exI[of _ a]) (auto simp: nth_append less_Suc_eq)
    qed (use False in simp)
  qed
  moreover have "0 < (L @ [k + 1]) ! a \<and> (L @ [k + 1]) ! a \<le> length T \<and> T[k := j] ! ((L @ [k + 1]) ! a - 1) \<le> (p @ [j]) ! a"
    if "a < length (p @ [j])" for a
  proof (cases "a = length p")
    case True
    then show ?thesis using kl len by (simp add: nth_append)
  next
    case False
    then have a: "a < length p" using that by simp
    then show ?thesis using low[OF a] at len by (cases "L ! a - 1 = k") (auto simp: nth_append)
  qed
  moreover have "T[k := j] ! i = length T + 1" if "i < length T" "length (p @ [j]) \<le> i" for i
    using assms(1) that kp by (auto simp: pile_tops_def)
  ultimately show "pile_tops (T[k := j]) (p @ [j]) (L @ [k + 1])"
    unfolding pile_tops_def by simp
  have mono: "(L @ [k + 1]) ! a < (L @ [k + 1]) ! b"
    if ab: "a < b" "b < length (p @ [j])" "(p @ [j]) ! a < (p @ [j]) ! b" for a b
  proof (cases "b = length p")
    case True
    then have a: "a < length p" "p ! a < j" using ab by (auto simp: nth_append)
    then have "T ! (L ! a - 1) < j" using low[OF a(1)] by simp
    moreover have "T ! k \<le> T ! (L ! a - 1)" if "k \<le> L ! a - 1"
      using srt that low[OF a(1)] by (intro sorted_nth_mono) auto
    ultimately have "L ! a - 1 < k" using at by (meson leD le_less_trans not_less)
    then show ?thesis using True a(1) len low[OF a(1)] by (simp add: nth_append)
  next
    case False
    then show ?thesis using ab assms(2) len by (auto simp: pile_links_def nth_append)
  qed
  have "\<exists>a<b. (L @ [k + 1]) ! a = (L @ [k + 1]) ! b - 1 \<and> (p @ [j]) ! a < (p @ [j]) ! b \<and>
      (\<forall>c<b. a < c \<longrightarrow> (L @ [k + 1]) ! c \<noteq> (L @ [k + 1]) ! b - 1)"
    if b: "b < length (p @ [j])" "1 < (L @ [k + 1]) ! b" for b
  proof (cases "b = length p")
    case True
    then have "0 < k" using b len by (simp add: nth_append)
    then have k1: "T ! (k - 1) < j" "k - 1 < length T" using below kl by auto
    then obtain a where "a < length p" "L ! a = k" "T ! (k - 1) = p ! a" "\<forall>c<length p. a < c \<longrightarrow> L ! c \<noteq> k"
      using tops[OF k1(2)] assms(3) \<open>0 < k\<close> by auto
    then show ?thesis using True len k1(1) by (intro exI[of _ a]) (auto simp: nth_append)
  next
    case False
    then have b': "b < length p" "1 < L ! b" using b len by (auto simp: nth_append)
    then obtain a where "a < b" "L ! a = L ! b - 1" "p ! a < p ! b" "\<forall>c<b. a < c \<longrightarrow> L ! c \<noteq> L ! b - 1"
      using assms(2) by (auto simp: pile_links_def)
    then show ?thesis using b' len by (intro exI[of _ a]) (auto simp: nth_append)
  qed
  then show "pile_links (p @ [j]) (L @ [k + 1])"
    unfolding pile_links_def using mono len by simp
qed

lemma piles:
  "pile_tops T p L \<Longrightarrow> pile_links p L \<Longrightarrow> \<forall>j\<in>set js. j \<le> length T \<Longrightarrow> length p + length js \<le> length T \<Longrightarrow>
   \<exists>L' T'. piles T js L = Some L' \<and> pile_tops T' (p @ js) L' \<and> pile_links (p @ js) L'"
proof (induction js arbitrary: T p L)
  case (Cons j js)
  let ?k = "sort_Search (length T) (\<lambda>k. T ! k \<ge> j)"
  have "j \<le> length T" "length p < length T" using Cons.prems(3,4) by auto
  note st = piles_step[OF Cons.prems(1,2) this refl]
  have "\<exists>L' T'. piles (T[?k := j]) js (L @ [?k + 1]) = Some L' \<and> pile_tops T' ((p @ [j]) @ js) L' \<and> pile_links ((p @ [j]) @ js) L'"
    using Cons.prems(3,4) by (intro Cons.IH[OF st(2,3)]) auto
  then show ?case using st(1) by (simp add: Let_def)
qed auto

lemma piles_start: "pile_tops (replicate n (n + 1)) [] []" "pile_links [] []"
  by (auto simp: pile_tops_def pile_links_def)

lemma max_pile: "max_pile L k = Max (insert k (set L))"
proof -
  have "max_pile L k = fold max L k" by (induction L arbitrary: k) (auto simp: max_def)
  then show ?thesis using Max.set_eq_fold[of k L] by simp
qed

section \<open>Picking a subsequence\<close>

definition rising :: "nat list \<Rightarrow> nat list \<Rightarrow> bool" where
  "rising J as \<longleftrightarrow> sorted_wrt (\<lambda>a b. a < b \<and> J ! a < J ! b) as"

lemma pick_chain:
  assumes "pile_links J L" "\<forall>j\<in>set J. j < n" "length xi = length J" "\<forall>j\<in>set J. j < length yi" "\<forall>l\<in>set L. 0 < l"
  shows "b \<le> length J \<Longrightarrow> (0 < k \<longrightarrow> (\<exists>a<b. L ! a = k \<and> (\<forall>c<b. a < c \<longrightarrow> L ! c \<noteq> k))) \<Longrightarrow> k < length sq \<Longrightarrow> 0 < length sq \<Longrightarrow>
   \<exists>as. length as = k \<and> rising J as \<and> (\<forall>a\<in>set as. a < b) \<and> (0 < k \<longrightarrow> L ! last as = k) \<and>
     (\<forall>c<b. 0 < k \<longrightarrow> last as < c \<longrightarrow> L ! c \<noteq> k) \<and>
     pick n yi (rev (take b (zip L (zip J xi)))) k sq =
       Some (take 1 sq @ map (\<lambda>a. (xi ! a, yi ! (J ! a))) as @ drop (Suc k) sq)"
proof (induction b arbitrary: k sq)
  case 0
  then have "sq \<noteq> []" by auto
  then show ?case using 0 by (cases sq) (auto simp: rising_def)
next
  case (Suc b)
  have len: "length L = length J" using assms(1) by (simp add: pile_links_def)
  have b: "b < length J" using Suc.prems(1) by simp
  have tk: "rev (take (Suc b) (zip L (zip J xi))) = (L ! b, J ! b, xi ! b) # rev (take b (zip L (zip J xi)))"
    using b len assms(3) by (simp add: take_Suc_conv_app_nth)
  have Jb: "J ! b < n" "J ! b < length yi" using assms(2,4) b by auto
  show ?case
  proof (cases "L ! b = k")
    case True
    then have k: "0 < k" using assms(5) b len by auto
    let ?sq = "sq[k := (xi ! b, yi ! (J ! b))]"
    have prev: "\<exists>a<b. L ! a = k - 1 \<and> J ! a < J ! b \<and> (\<forall>c<b. a < c \<longrightarrow> L ! c \<noteq> k - 1)" if "0 < k - 1"
      using assms(1) b that True by (auto simp: pile_links_def)
    have h1: "0 < k - 1 \<longrightarrow> (\<exists>a<b. L ! a = k - 1 \<and> (\<forall>c<b. a < c \<longrightarrow> L ! c \<noteq> k - 1))" using prev by blast
    have h2: "b \<le> length J" "k - 1 < length ?sq" "0 < length ?sq" using Suc.prems by auto
    from Suc.IH[OF h2(1) h1 h2(2,3)] obtain as where as: "length as = k - 1" "rising J as" "\<forall>a\<in>set as. a < b"
      "0 < k - 1 \<longrightarrow> L ! last as = k - 1" "\<forall>c<b. 0 < k - 1 \<longrightarrow> last as < c \<longrightarrow> L ! c \<noteq> k - 1"
      "pick n yi (rev (take b (zip L (zip J xi)))) (k - 1) ?sq =
        Some (take 1 ?sq @ map (\<lambda>a. (xi ! a, yi ! (J ! a))) as @ drop (Suc (k - 1)) ?sq)"
      by (elim exE conjE)
    have below: "J ! a < J ! b" if "a \<in> set as" for a
    proof -
      have ne: "as \<noteq> []" "0 < k - 1" using that as(1) length_pos_if_in_set[OF that] by auto
      obtain a' where a': "a' < b" "L ! a' = k - 1" "J ! a' < J ! b" "\<forall>c<b. a' < c \<longrightarrow> L ! c \<noteq> k - 1" using prev[OF ne(2)] by blast
      have "last as < b" using as(3) ne(1) by simp
      then have "last as = a'" using a' as(4,5) ne(2) by (metis nat_neq_iff)
      moreover have "J ! a \<le> J ! last as"
      proof (cases "a = last as")
        case False
        obtain bs where bs: "as = bs @ [last as]" using ne(1) by (metis append_butlast_last_id)
        then have "a \<in> set bs" using that False by (metis Un_iff empty_iff insert_iff list.set(1) list.set(2) set_append)
        then show ?thesis using as(2) bs unfolding rising_def
          by (metis (no_types, lifting) last_in_set less_imp_le list.set_intros(1) sorted_wrt_append)
      qed simp
      ultimately show ?thesis using a'(3) by simp
    qed
    have "take 1 ?sq = take 1 sq" using k by (cases sq; cases k) auto
    moreover have "drop k ?sq = (xi ! b, yi ! (J ! b)) # drop (Suc k) sq"
      using Suc.prems(3) by (simp add: Cons_nth_drop_Suc[symmetric])
    ultimately have "pick n yi (rev (take (Suc b) (zip L (zip J xi)))) k sq =
        Some (take 1 sq @ map (\<lambda>a. (xi ! a, yi ! (J ! a))) (as @ [b]) @ drop (Suc k) sq)"
      unfolding tk using as(6) True Jb k Suc.prems(3) by simp
    moreover have "rising J (as @ [b])" using as(2,3) below by (auto simp: rising_def sorted_wrt_append)
    ultimately show ?thesis using as(1,3) True k by (intro exI[of _ "as @ [b]"]) auto
  next
    case False
    then have "0 < k \<longrightarrow> (\<exists>a<b. L ! a = k \<and> (\<forall>c<b. a < c \<longrightarrow> L ! c \<noteq> k))"
      using Suc.prems(2) by (metis less_Suc_eq)
    from Suc.IH[OF _ this Suc.prems(3,4)] obtain as where "length as = k" "rising J as" "\<forall>a\<in>set as. a < b"
      "0 < k \<longrightarrow> L ! last as = k" "\<forall>c<b. 0 < k \<longrightarrow> last as < c \<longrightarrow> L ! c \<noteq> k"
      "pick n yi (rev (take b (zip L (zip J xi)))) k sq =
        Some (take 1 sq @ map (\<lambda>a. (xi ! a, yi ! (J ! a))) as @ drop (Suc k) sq)"
      using b by auto
    then show ?thesis using False by (intro exI[of _ as]) (auto simp: tk less_Suc_eq)
  qed
qed

section \<open>The anchors\<close>

definition ascending :: "(nat \<times> nat) list \<Rightarrow> bool" where
  "ascending ps \<longleftrightarrow> sorted_wrt (\<lambda>p q. fst p < fst q \<and> snd p < snd q) ps"

text \<open>A common subsequence of the lines that are unique in both texts.\<close>

definition common_unique :: "bytes list \<Rightarrow> bytes list \<Rightarrow> (nat \<times> nat) list \<Rightarrow> bool" where
  "common_unique x y ps \<longleftrightarrow> ascending ps \<and>
     (\<forall>(i, j)\<in>set ps. i < length x \<and> j < length y \<and> x ! i = y ! j \<and> unique x y (x ! i))"

lemma count_one: "count_list xs s = 1 \<Longrightarrow> i < length xs \<Longrightarrow> j < length xs \<Longrightarrow> xs ! i = s \<Longrightarrow> xs ! j = s \<Longrightarrow> i = j"
proof (induction xs arbitrary: i j)
  case (Cons z xs)
  then show ?case by (cases i; cases j) (auto simp: count_list_0_iff split: if_splits)
qed simp

lemma filter_upt_sorted: "sorted_wrt (<) (filter P [0..<n])" for n :: nat
  by (simp add: sorted_wrt_filter)

lemma nth_mono: "sorted_wrt (<) xs \<Longrightarrow> i < length xs \<Longrightarrow> j < length xs \<Longrightarrow> xs ! i < xs ! j \<longleftrightarrow> i < j" for xs :: "nat list"
  by (metis linorder_neqE_nat not_less_iff_gr_or_eq sorted_wrt_nth_less)

lemma sorted_bounded_length:
  "sorted_wrt (<) ns \<Longrightarrow> (\<forall>l\<in>set ns. 0 < l \<and> l \<le> k) \<Longrightarrow> length ns \<le> k" for ns :: "nat list"
proof -
  assume s: "sorted_wrt (<) ns" and b: "\<forall>l\<in>set ns. 0 < l \<and> l \<le> k"
  have "distinct ns" using s strict_sorted_iff by blast
  then have "length ns = card (set ns)" by (simp add: distinct_card)
  also have "\<dots> \<le> card {1..k}" using b by (intro card_mono) auto
  finally show ?thesis by simp
qed

lemma sorted_wrt_map_mono:
  "sorted_wrt P xs \<Longrightarrow> (\<And>a b. a \<in> set xs \<Longrightarrow> b \<in> set xs \<Longrightarrow> P a b \<Longrightarrow> Q (f a) (f b)) \<Longrightarrow> sorted_wrt Q (map f xs)"
  by (induction xs) auto

text \<open>The outcome of the two marking loops.\<close>

definition marked :: "bytes list \<Rightarrow> bytes list \<Rightarrow> nat list \<Rightarrow> nat list \<Rightarrow> nat list \<Rightarrow> bool" where
  "marked x y xi yi J \<longleftrightarrow> xi = filter (\<lambda>i. unique x y (x ! i)) [0..<length x] \<and>
     yi = filter (\<lambda>i. unique x y (y ! i)) [0..<length y] \<and> length J = length xi \<and>
     (\<forall>a<length xi. J ! a < length yi \<and> y ! (yi ! (J ! a)) = x ! (xi ! a))"

lemma marked_ex:
  assumes "mark_y 0 y (counted x y) [] = (m, yi)" "mark_x 0 x m [] [] = (xi, J)"
  shows "marked x y xi yi J"
proof -
  have yi: "yi = filter (\<lambda>i. unique x y (y ! i)) [0..<length y]"
    "\<And>s. unique x y s \<Longrightarrow> \<exists>j<length yi. m s = Some (int j) \<and> y ! (yi ! j) = s"
    "\<And>s v. \<not> unique x y s \<Longrightarrow> m s = Some v \<Longrightarrow> v < 0"
    using mark_y[of y "[]" y "[]" x "counted x y" m yi] assms(1) counted[of x y] by auto
  then show ?thesis
    using mark_x[of x "[]" x "[]" y "[]" yi m xi J] assms(2) unfolding marked_def by auto
qed

lemma marked_sorted: "marked x y xi yi J \<Longrightarrow> sorted_wrt (<) xi" "marked x y xi yi J \<Longrightarrow> sorted_wrt (<) yi"
  using filter_upt_sorted unfolding marked_def by blast+

lemma marked_mem:
  "marked x y xi yi J \<Longrightarrow> i \<in> set xi \<longleftrightarrow> i < length x \<and> unique x y (x ! i)"
  "marked x y xi yi J \<Longrightarrow> i \<in> set yi \<longleftrightarrow> i < length y \<and> unique x y (y ! i)"
  by (auto simp: marked_def)

lemma marked_at:
  "marked x y xi yi J \<Longrightarrow> a < length xi \<Longrightarrow> J ! a < length yi \<and> y ! (yi ! (J ! a)) = x ! (xi ! a)"
  "marked x y xi yi J \<Longrightarrow> length J = length xi"
  by (auto simp: marked_def)

lemma unique_image:
  assumes "\<And>s. unique x y s \<Longrightarrow> count_list zs s = 1" "\<And>i. i \<in> set ns \<longleftrightarrow> i < length zs \<and> unique x y (zs ! i)"
  shows "inj_on ((!) zs) (set ns)" "(!) zs ` set ns = {s. unique x y s}"
proof -
  show "inj_on ((!) zs) (set ns)"
    by (rule inj_onI) (metis assms count_one)
  have "\<exists>i<length zs. zs ! i = s" if "unique x y s" for s
    using assms(1)[OF that] by (metis count_list_0_iff in_set_conv_nth zero_neq_one)
  then show "(!) zs ` set ns = {s. unique x y s}" using assms(2) by force
qed

lemma marked_length:
  assumes "marked x y xi yi J"
  shows "length yi = length xi"
proof -
  have "\<And>s. unique x y s \<Longrightarrow> count_list x s = 1" "\<And>s. unique x y s \<Longrightarrow> count_list y s = 1"
    by (simp_all add: unique_def)
  note u = unique_image[OF this(1) marked_mem(1)[OF assms]] unique_image[OF this(2) marked_mem(2)[OF assms]]
  have "distinct xi" "distinct yi" using marked_sorted[OF assms] strict_sorted_iff by blast+
  then show ?thesis using u by (metis card_image distinct_card)
qed

lemma marked_common:
  assumes mk: "marked x y xi yi J" and as: "rising J as" "\<forall>a\<in>set as. a < length xi"
  shows "common_unique x y (map (\<lambda>a. (xi ! a, yi ! (J ! a))) as)"
  unfolding common_unique_def
proof
  show "ascending (map (\<lambda>a. (xi ! a, yi ! (J ! a))) as)" unfolding ascending_def
  proof (rule sorted_wrt_map_mono[OF as(1)[unfolded rising_def]])
    fix a b assume ab: "a \<in> set as" "b \<in> set as" "a < b \<and> J ! a < J ! b"
    then have "a < length xi" "b < length xi" using as(2) by auto
    then show "fst (xi ! a, yi ! (J ! a)) < fst (xi ! b, yi ! (J ! b)) \<and> snd (xi ! a, yi ! (J ! a)) < snd (xi ! b, yi ! (J ! b))"
      using ab(3) marked_sorted[OF mk] marked_at(1)[OF mk] by (simp add: nth_mono)
  qed
  have "xi ! a < length x \<and> yi ! (J ! a) < length y \<and> x ! (xi ! a) = y ! (yi ! (J ! a)) \<and> unique x y (x ! (xi ! a))"
    if "a \<in> set as" for a
  proof -
    have "a < length xi" using that as(2) by simp
    then show ?thesis
      using marked_at(1)[OF mk, of a] marked_mem(1)[OF mk, of "xi ! a"] marked_mem(2)[OF mk, of "yi ! (J ! a)"] by simp
  qed
  then show "\<forall>(i, j)\<in>set (map (\<lambda>a. (xi ! a, yi ! (J ! a))) as). i < length x \<and> j < length y \<and> x ! i = y ! j \<and> unique x y (x ! i)"
    unfolding set_map by blast
qed

text \<open>Every common subsequence goes through the marked lines.\<close>

lemma marked_through:
  assumes mk: "marked x y xi yi J" and p: "i < length x" "j < length y" "x ! i = y ! j" "unique x y (x ! i)"
  shows "\<exists>a<length xi. xi ! a = i \<and> yi ! (J ! a) = j"
proof -
  have "i \<in> set xi" using marked_mem(1)[OF mk] p by simp
  then obtain a where a: "a < length xi" "xi ! a = i" by (auto simp: in_set_conv_nth)
  note J = marked_at(1)[OF mk a(1)]
  have "yi ! (J ! a) \<in> set yi" using J by simp
  then have "yi ! (J ! a) < length y" using marked_mem(2)[OF mk] by blast
  moreover have "y ! (yi ! (J ! a)) = x ! i" using J a(2) by simp
  moreover have "count_list y (x ! i) = 1" using p(4) by (simp add: unique_def)
  ultimately have "yi ! (J ! a) = j" using count_one p(2,3) by metis
  then show ?thesis using a by blast
qed

lemma marked_longest:
  assumes mk: "marked x y xi yi J" and L: "pile_links J L" "\<forall>l\<in>set L. 0 < l \<and> l \<le> k" and ps: "common_unique x y ps"
  shows "length ps \<le> k"
proof -
  have "\<forall>p\<in>set ps. \<exists>a<length xi. xi ! a = fst p \<and> yi ! (J ! a) = snd p"
    using ps marked_through[OF mk] by (fastforce simp: common_unique_def)
  then obtain at where at: "\<And>p. p \<in> set ps \<Longrightarrow> at p < length xi \<and> xi ! at p = fst p \<and> yi ! (J ! at p) = snd p" by metis
  have len: "length L = length xi" using L(1) marked_at(2)[OF mk] by (simp add: pile_links_def)
  have "sorted_wrt (<) (map (\<lambda>p. L ! at p) ps)"
  proof (rule sorted_wrt_map_mono)
    show "sorted_wrt (\<lambda>p q. fst p < fst q \<and> snd p < snd q) ps" using ps by (simp add: common_unique_def ascending_def)
    fix p q assume pq: "p \<in> set ps" "q \<in> set ps" "fst p < fst q \<and> snd p < snd q"
    note ap = at[OF pq(1)] and aq = at[OF pq(2)]
    have "at p < at q" using pq(3) ap aq nth_mono[OF marked_sorted(1)[OF mk], of "at p" "at q"] by simp
    moreover have "J ! at p < J ! at q"
      using pq(3) ap aq marked_at(1)[OF mk] nth_mono[OF marked_sorted(2)[OF mk], of "J ! at p" "J ! at q"] by simp
    ultimately show "L ! at p < L ! at q"
      using L(1) aq marked_at(2)[OF mk] by (simp add: pile_links_def)
  qed
  moreover have "\<forall>l\<in>set (map (\<lambda>p. L ! at p) ps). 0 < l \<and> l \<le> k" using at L(2) len by auto
  ultimately show ?thesis using sorted_bounded_length by fastforce
qed

lemma top_pile:
  assumes "0 < max_pile L 0"
  shows "\<exists>a<length L. L ! a = max_pile L 0 \<and> (\<forall>c<length L. a < c \<longrightarrow> L ! c \<noteq> max_pile L 0)"
proof -
  let ?k = "max_pile L 0"
  have "?k \<in> set L" using assms max_pile[of L 0] Max_in[of "insert 0 (set L)"] by auto
  then obtain a where a: "a < length L" "L ! a = ?k" by (metis in_set_conv_nth)
  let ?S = "{a. a < length L \<and> L ! a = ?k}"
  have "Max ?S \<in> ?S" using a by (intro Max_in) auto
  moreover have "c \<le> Max ?S" if "c < length L" "L ! c = ?k" for c using that by (intro Max_ge) auto
  ultimately show ?thesis by (intro exI[of _ "Max ?S"]) fastforce
qed

lemma sentinel: "(replicate (2 + k) z)[1 + k := w] = replicate (1 + k) z @ [w]"
proof -
  have "replicate (2 + k) z = replicate (1 + k) z @ [z]" by (simp add: replicate_append_same)
  moreover have "(replicate (1 + k) z @ [z])[length (replicate (1 + k) z) := w] = replicate (1 + k) z @ [w]"
    by (rule list_update_length)
  ultimately show ?thesis by (simp only: length_replicate)
qed

text \<open>
  \<open>tgs\<close> does not panic. Between its sentinels it returns a common subsequence of the
  unique lines, and no common subsequence of them is longer.
\<close>

lemma tgs:
  "\<exists>as. tgs x y = Some ((0, 0) # as @ [(length x, length y)]) \<and> common_unique x y as \<and>
     (\<forall>ps. common_unique x y ps \<longrightarrow> length ps \<le> length as)"
proof -
  obtain m yi where my: "mark_y 0 y (counted x y) [] = (m, yi)" by fastforce
  obtain xi J where mx: "mark_x 0 x m [] [] = (xi, J)" by fastforce
  note mk = marked_ex[OF my mx]
  let ?n = "length xi"
  have Jlen: "length J = ?n" using marked_at(2)[OF mk] .
  have Jn: "\<forall>j\<in>set J. j < length yi" using marked_at[OF mk] by (auto simp: in_set_conv_nth)
  then have Jn': "\<forall>j\<in>set J. j < ?n" using marked_length[OF mk] by simp
  obtain L T' where L: "piles (replicate ?n (?n + 1)) J [] = Some L" "pile_tops T' J L" "pile_links J L"
    using piles[OF piles_start(1)[of ?n] piles_start(2), of J] Jn' Jlen by fastforce
  have len: "length L = ?n" using L(3) Jlen by (simp add: pile_links_def)
  have Lpos: "\<forall>l\<in>set L. 0 < l" using L(2) len Jlen by (auto simp: pile_tops_def in_set_conv_nth)
  let ?k = "max_pile L 0"
  let ?sq = "(replicate (2 + ?k) (0, 0))[1 + ?k := (length x, length y)]"
  have top: "0 < ?k \<longrightarrow> (\<exists>a<length J. L ! a = ?k \<and> (\<forall>c<length J. a < c \<longrightarrow> L ! c \<noteq> ?k))"
    using top_pile[of L] len Jlen by metis
  have sq: "?k < length ?sq" "0 < length ?sq" unfolding length_list_update length_replicate by simp_all
  from pick_chain[OF L(3) Jn' Jlen[symmetric] Jn Lpos order_refl top sq]
  obtain as where as: "length as = ?k" "rising J as" "\<forall>a\<in>set as. a < length J"
    "pick ?n yi (rev (take (length J) (zip L (zip J xi)))) ?k ?sq =
       Some (take 1 ?sq @ map (\<lambda>a. (xi ! a, yi ! (J ! a))) as @ drop (Suc ?k) ?sq)"
    by (elim exE conjE)
  let ?ps = "map (\<lambda>a. (xi ! a, yi ! (J ! a))) as"
  have "take (length J) (zip L (zip J xi)) = zip L (zip J xi)" using len Jlen by simp
  moreover have "take 1 ?sq = [(0, 0)]" "drop (Suc ?k) ?sq = [(length x, length y)]"
    unfolding sentinel by simp_all
  ultimately have "tgs x y = Some ((0, 0) # ?ps @ [(length x, length y)])"
    using my mx L(1) as(4) by (simp add: tgs_def Let_def counted_def)
  moreover have "\<forall>l\<in>set L. 0 < l \<and> l \<le> ?k" using Lpos by (simp add: max_pile)
  ultimately show ?thesis
    using as marked_common[OF mk as(2)] marked_longest[OF mk L(3)] Jlen by (intro exI[of _ ?ps]) simp
qed

section \<open>Runs of equal lines\<close>

definition run_eq :: "bytes list \<Rightarrow> bytes list \<Rightarrow> nat \<times> nat \<Rightarrow> nat \<times> nat \<Rightarrow> bool" where
  "run_eq x y p q \<longleftrightarrow> fst p \<le> fst q \<and> fst q \<le> length x \<and> snd p \<le> snd q \<and> snd q \<le> length y \<and>
     fst q - fst p = snd q - snd p \<and> slice (fst p) (fst q) x = slice (snd p) (snd q) y"

lemma run_refl: "fst p \<le> length x \<Longrightarrow> snd p \<le> length y \<Longrightarrow> run_eq x y p p"
  by (simp add: run_eq_def)

lemma run_trans: "run_eq x y p q \<Longrightarrow> run_eq x y q r \<Longrightarrow> run_eq x y p r"
  using slice_append[of "fst p" "fst q" "fst r" x] slice_append[of "snd p" "snd q" "snd r" y]
  by (auto simp: run_eq_def)

lemma run_step: "a < length x \<Longrightarrow> b < length y \<Longrightarrow> x ! a = y ! b \<Longrightarrow> run_eq x y (a, b) (Suc a, Suc b)"
  by (simp add: run_eq_def slice_Suc)

lemma slice_take: "i + k \<le> j \<Longrightarrow> slice i (i + k) xs = take k (slice i j xs)"
  by (simp add: slice_def min_def)

lemma slice_drop: "slice (i + k) j xs = drop k (slice i j xs)"
  by (simp add: slice_def drop_take diff_diff_left ac_simps)

lemma run_split:
  assumes "run_eq x y p q" "k \<le> fst q - fst p"
  shows "run_eq x y p (fst p + k, snd p + k)" "run_eq x y (fst p + k, snd p + k) q"
proof -
  have k: "fst p + k \<le> fst q" "snd p + k \<le> snd q" using assms by (auto simp: run_eq_def)
  show "run_eq x y p (fst p + k, snd p + k)" "run_eq x y (fst p + k, snd p + k) q"
    using assms k slice_take[OF k(1), of x] slice_take[OF k(2), of y] by (auto simp: run_eq_def slice_drop)
qed

lemma run_nth:
  assumes "run_eq x y p q" "t < fst q - fst p"
  shows "x ! (fst p + t) = y ! (snd p + t)"
proof -
  have "slice (fst p) (fst q) x ! t = slice (snd p) (snd q) y ! t" using assms by (simp add: run_eq_def)
  then show ?thesis using assms by (auto simp: run_eq_def slice_def)
qed

lemma expand_run: "run_eq x y p (a, b) \<Longrightarrow> run_eq x y p (expand x y a b)"
proof (induction x y a b rule: expand.induct)
  case (1 x y a b)
  show ?case
  proof (cases "a < length x \<and> b < length y \<and> x ! a = y ! b")
    case True
    have "run_eq x y p (Suc a, Suc b)" by (rule run_trans[OF 1(2) run_step]) (use True in auto)
    then show ?thesis using 1(1) True by (simp add: expand.simps[of x y a b])
  next
    case False
    then have "expand x y a b = (a, b)" by (simp only: expand.simps[of x y a b] if_False)
    then show ?thesis using 1(2) by simp
  qed
qed

lemma expand_back_run:
  "run_eq x y (a, b) q \<Longrightarrow> fst dn \<le> a \<Longrightarrow> snd dn \<le> b \<Longrightarrow>
   run_eq x y (expand_back x y dn a b) q \<and> fst dn \<le> fst (expand_back x y dn a b) \<and> snd dn \<le> snd (expand_back x y dn a b) \<and>
   fst (expand_back x y dn a b) \<le> a"
proof (induction x y dn a b rule: expand_back.induct)
  case (1 x y dn a b)
  show ?case
  proof (cases "Suc a > fst dn \<and> Suc b > snd dn \<and> x ! a = y ! b")
    case True
    have "run_eq x y (a, b) (Suc a, Suc b)" using 1(2) True by (intro run_step) (auto simp: run_eq_def)
    then show ?thesis using 1 True run_trans[of x y "(a, b)" "(Suc a, Suc b)" q] by auto
  qed (use 1 in auto)
qed auto

section \<open>Patching\<close>

text \<open>The lines of a hunk on its two sides.\<close>

definition old_side :: "bytes list \<Rightarrow> bytes list" where
  "old_side text = map tl (filter (\<lambda>l. hd l \<noteq> CHR ''+'') text)"

definition new_side :: "bytes list \<Rightarrow> bytes list" where
  "new_side text = map tl (filter (\<lambda>l. hd l \<noteq> CHR ''-'') text)"

lemma sides [simp]:
  "old_side [] = []" "new_side [] = []"
  "old_side (s @ t) = old_side s @ old_side t" "new_side (s @ t) = new_side s @ new_side t"
  "old_side (prefixed (CHR ''-'') xs) = xs" "new_side (prefixed (CHR ''-'') xs) = []"
  "old_side (prefixed (CHR ''+'') xs) = []" "new_side (prefixed (CHR ''+'') xs) = xs"
  "old_side (prefixed (CHR '' '') xs) = xs" "new_side (prefixed (CHR '' '') xs) = xs"
  by (simp_all add: old_side_def new_side_def prefixed_def comp_def)

text \<open>
  The reading of a hunk by a patch tool: at the line that the header names it finds the
  old side, and replaces it by the new side. \<open>pos\<close> lines were read, \<open>out\<close> was written.
  A header whose line numbers or counts are off makes it fail.
\<close>

definition patch_hunk :: "bytes list \<Rightarrow> hunk \<Rightarrow> nat \<times> bytes list \<Rightarrow> (nat \<times> bytes list) option" where
  "patch_hunk x h = (\<lambda>(pos, out).
     (let start = (if hkXCount h > 0 then hkX h - 1 else hkX h);
          out' = out @ slice pos start x in
      if pos \<le> start \<and> start + hkXCount h \<le> length x \<and> slice start (start + hkXCount h) x = old_side (hkText h) \<and>
         length out' = (if hkYCount h > 0 then hkY h - 1 else hkY h) \<and> hkYCount h = length (new_side (hkText h))
      then Some (start + hkXCount h, out' @ new_side (hkText h)) else None))"

definition patch :: "bytes list \<Rightarrow> hunk list \<Rightarrow> bytes list option" where
  "patch x hs = map_option (\<lambda>(pos, out). out @ drop pos x) (fold_option (patch_hunk x) hs (0, []))"

lemma fold_option_snoc:
  "fold_option f (xs @ [x]) s = (case fold_option f xs s of None \<Rightarrow> None | Some t \<Rightarrow> f x t)"
  by (induction xs arbitrary: s) (auto split: option.split)

section \<open>The invariant of the loop\<close>

text \<open>The text of the current chunk holds the lines from its start to \<open>d\<close>, on both sides.\<close>

definition pending :: "bytes list \<Rightarrow> bytes list \<Rightarrow> diff_state \<Rightarrow> nat \<times> nat \<Rightarrow> bool" where
  "pending x y s d \<longleftrightarrow>
     fst (dsChunk s) \<le> fst d \<and> fst d \<le> length x \<and> snd (dsChunk s) \<le> snd d \<and> snd d \<le> length y \<and>
     old_side (dsText s) = slice (fst (dsChunk s)) (fst d) x \<and> new_side (dsText s) = slice (snd (dsChunk s)) (snd d) y \<and>
     dsCount s = (fst d - fst (dsChunk s), snd d - snd (dsChunk s))"

text \<open>The hunks so far patch the old lines up to \<open>e\<close>.\<close>

definition patched :: "bytes list \<Rightarrow> bytes list \<Rightarrow> hunk list \<Rightarrow> nat \<times> nat \<Rightarrow> bool" where
  "patched x y hs e \<longleftrightarrow> fold_option (patch_hunk x) hs (0, []) = Some (fst e, take (snd e) y)"

lemma pending_empty:
  assumes "pending x y s d" "dsText s = []"
  shows "dsChunk s = d" "dsCount s = (0, 0)"
proof -
  have "length (slice (fst (dsChunk s)) (fst d) x) = 0" "length (slice (snd (dsChunk s)) (snd d) y) = 0"
    using assms unfolding pending_def by (metis list.size(3) sides(1,2))+
  then show "dsChunk s = d" using assms(1) by (auto simp: pending_def prod_eq_iff)
  then show "dsCount s = (0, 0)" using assms(1) by (simp add: pending_def)
qed

lemma emit_changes:
  assumes "pending x y s (dsDone s)" "fst (dsDone s) \<le> fst q" "snd (dsDone s) \<le> snd q" "fst q \<le> length x" "snd q \<le> length y"
  obtains s' where "emit_changes x y q s = Some s'" "pending x y s' q" "dsChunk s' = dsChunk s" "dsOut s' = dsOut s"
proof -
  let ?s = "s\<lparr>dsText := dsText s @ prefixed (CHR ''-'') (slice (fst (dsDone s)) (fst q) x) @ prefixed (CHR ''+'') (slice (snd (dsDone s)) (snd q) y),
    dsCount := (fst (dsCount s) + length (slice (fst (dsDone s)) (fst q) x), snd (dsCount s) + length (slice (snd (dsDone s)) (snd q) y))\<rparr>"
  have "emit_changes x y q s = Some ?s" using assms by (simp add: emit_changes_def sub_lines_def)
  moreover have "pending x y ?s q"
    using assms slice_append[of "fst (dsChunk s)" "fst (dsDone s)" "fst q" x]
      slice_append[of "snd (dsChunk s)" "snd (dsDone s)" "snd q" y]
    by (simp add: pending_def)
  ultimately show ?thesis using that by simp
qed

lemma emit_common:
  assumes "pending x y s p" "run_eq x y p q"
  obtains s' where "emit_common x (fst p) (fst q) s = Some s'" "pending x y s' q" "dsChunk s' = dsChunk s" "dsOut s' = dsOut s"
    "dsText s \<noteq> [] \<Longrightarrow> dsText s' \<noteq> []"
proof -
  let ?s = "s\<lparr>dsText := dsText s @ prefixed (CHR '' '') (slice (fst p) (fst q) x),
    dsCount := (fst (dsCount s) + length (slice (fst p) (fst q) x), snd (dsCount s) + length (slice (fst p) (fst q) x))\<rparr>"
  have "emit_common x (fst p) (fst q) s = Some ?s" using assms(2) by (simp add: emit_common_def sub_lines_def run_eq_def)
  moreover have len: "length (slice (fst p) (fst q) x) = fst q - fst p" "fst q - fst p = snd q - snd p"
    using assms(2) by (auto simp: run_eq_def min_def)
  moreover have "pending x y ?s q"
    using assms slice_append[of "fst (dsChunk s)" "fst p" "fst q" x] slice_append[of "snd (dsChunk s)" "snd p" "snd q" y] len
    by (auto simp: pending_def run_eq_def simp del: length_slice)
  ultimately show ?thesis using that by simp
qed

lemma take_slice: "i \<le> j \<Longrightarrow> take i xs @ slice i j xs = take j xs"
  using slice_append[of 0 i j xs] by (simp add: slice_def)

lemma patch_hunk_at:
  assumes "pos \<le> c" "c + hkXCount h \<le> length x" "(if hkXCount h > 0 then hkX h - 1 else hkX h) = c"
    "slice c (c + hkXCount h) x = old_side (hkText h)" "out @ slice pos c x = w"
    "length w = (if hkYCount h > 0 then hkY h - 1 else hkY h)" "hkYCount h = length (new_side (hkText h))"
  shows "patch_hunk x h (pos, out) = Some (c + hkXCount h, w @ new_side (hkText h))"
  using assms(1-4,6,7) unfolding patch_hunk_def prod.case Let_def assms(3) assms(5) by simp

text \<open>Emitting a chunk extends what the hunks patch.\<close>

lemma patched_snoc:
  assumes "patched x y hs e" "run_eq x y e (dsChunk s)" "pending x y s d"
  shows "patched x y (hs @ [\<lparr>hkX = (if fst (dsCount s) > 0 then fst (dsChunk s) + 1 else fst (dsChunk s)), hkXCount = fst (dsCount s),
    hkY = (if snd (dsCount s) > 0 then snd (dsChunk s) + 1 else snd (dsChunk s)), hkYCount = snd (dsCount s), hkText = dsText s\<rparr>]) d"
proof -
  have e: "fst e \<le> fst (dsChunk s)" "snd e \<le> snd (dsChunk s)" "slice (fst e) (fst (dsChunk s)) x = slice (snd e) (snd (dsChunk s)) y"
    using assms(2) by (simp_all add: run_eq_def)
  have d: "fst (dsChunk s) \<le> fst d" "fst d \<le> length x" "snd (dsChunk s) \<le> snd d" "snd d \<le> length y"
    "old_side (dsText s) = slice (fst (dsChunk s)) (fst d) x" "new_side (dsText s) = slice (snd (dsChunk s)) (snd d) y"
    "dsCount s = (fst d - fst (dsChunk s), snd d - snd (dsChunk s))"
    using assms(3) by (simp_all add: pending_def)
  let ?h = "\<lparr>hkX = (if fst (dsCount s) > 0 then fst (dsChunk s) + 1 else fst (dsChunk s)), hkXCount = fst (dsCount s),
    hkY = (if snd (dsCount s) > 0 then snd (dsChunk s) + 1 else snd (dsChunk s)), hkYCount = snd (dsCount s), hkText = dsText s\<rparr>"
  have "take (snd e) y @ slice (fst e) (fst (dsChunk s)) x = take (snd (dsChunk s)) y" unfolding e(3) by (rule take_slice[OF e(2)])
  then have "patch_hunk x ?h (fst e, take (snd e) y) = Some (fst (dsChunk s) + hkXCount ?h, take (snd (dsChunk s)) y @ new_side (hkText ?h))"
    using d e(1) by (intro patch_hunk_at) auto
  also have "\<dots> = Some (fst d, take (snd d) y)" using d take_slice[OF d(3), of y] by simp
  finally show ?thesis using assms(1) unfolding patched_def fold_option_snoc by simp
qed

lemma end_chunk:
  assumes "patched x y (dsOut s) e" "run_eq x y e (dsChunk s)" "pending x y s start" "run_eq x y start stop"
  obtains s' e' where "end_chunk x start stop s = Some s'" "patched x y (dsOut s') e'" "run_eq x y e' stop"
    "dsText s' = []" "dsCount s' = (0, 0)"
    "context_lines \<le> fst stop - fst start \<Longrightarrow> dsText s \<noteq> [] \<Longrightarrow> fst e' = fst start + context_lines"
    "dsText s = [] \<Longrightarrow> fst e' \<le> fst start"
proof (cases "dsText s = []")
  case True
  note p = pending_empty[OF assms(3) True]
  have "run_eq x y e stop" using run_trans[of x y e start stop] assms(2,4) p(1) by simp
  moreover have "fst e \<le> fst start" using assms(2) p(1) by (simp add: run_eq_def)
  ultimately show ?thesis using that[of s e] True assms(1) p(2) by (simp add: end_chunk_def)
next
  case False
  let ?n = "min (fst stop - fst start) context_lines"
  let ?q = "(fst start + ?n, snd start + ?n)"
  note rs = run_split[OF assms(4), of ?n]
  obtain s1 where s1: "emit_common x (fst start) (fst ?q) s = Some s1" "pending x y s1 ?q" "dsChunk s1 = dsChunk s" "dsOut s1 = dsOut s"
    by (rule emit_common[OF assms(3) rs(1)]) simp_all
  have "patched x y (dsOut s @ [\<lparr>hkX = (if fst (dsCount s1) > 0 then fst (dsChunk s1) + 1 else fst (dsChunk s1)), hkXCount = fst (dsCount s1),
    hkY = (if snd (dsCount s1) > 0 then snd (dsChunk s1) + 1 else snd (dsChunk s1)), hkYCount = snd (dsCount s1), hkText = dsText s1\<rparr>]) ?q"
    using assms(2) s1(3) by (intro patched_snoc[OF assms(1) _ s1(2)]) simp
  then show ?thesis using that[OF _ _ rs(2)] s1(1,4) False by (simp add: end_chunk_def Let_def)
qed

lemma new_chunk:
  assumes "patched x y (dsOut s) e" "run_eq x y e stop" "dsText s = []" "dsCount s = (0, 0)" "context_lines \<le> fst stop - fst e"
  obtains s' where "new_chunk x stop s = Some s'" "dsDone s' = stop" "dsOut s' = dsOut s" "pending x y s' stop" "run_eq x y e (dsChunk s')"
proof -
  let ?c = "(fst stop - context_lines, snd stop - context_lines)"
  have r: "context_lines \<le> fst stop" "context_lines \<le> snd stop" "fst e + (fst stop - fst e - context_lines) = fst ?c"
    "snd e + (fst stop - fst e - context_lines) = snd ?c"
    using assms(2,5) by (auto simp: run_eq_def)
  have "fst stop - fst e - context_lines \<le> fst stop - fst e" by simp
  note rs = run_split[OF assms(2) this, unfolded r(3,4) prod.collapse]
  have "pending x y (s\<lparr>dsChunk := ?c\<rparr>) ?c" using assms(3,4) rs(1) by (simp add: pending_def run_eq_def)
  from emit_common[OF this rs(2)] obtain s1 where s1: "emit_common x (fst ?c) (fst stop) (s\<lparr>dsChunk := ?c\<rparr>) = Some s1"
    "pending x y s1 stop" "dsChunk s1 = ?c" "dsOut s1 = dsOut s" by auto
  have "pending x y (s1\<lparr>dsDone := stop\<rparr>) stop" using s1(2) by (simp add: pending_def)
  then show ?thesis using that[of "s1\<lparr>dsDone := stop\<rparr>"] s1 rs(1) r(1,2) by (simp add: new_chunk_def Let_def)
qed

section \<open>The loop\<close>

text \<open>What the loop relies on: the anchors ascend, and inner ones are unique lines.\<close>

definition anchor :: "bytes list \<Rightarrow> bytes list \<Rightarrow> nat \<times> nat \<Rightarrow> bool" where
  "anchor x y m \<longleftrightarrow> m = (0, 0) \<or> m = (length x, length y) \<or>
     fst m < length x \<and> snd m < length y \<and> x ! fst m = y ! snd m \<and> count_list x (x ! fst m) = 1"

definition anchors :: "bytes list \<Rightarrow> bytes list \<Rightarrow> (nat \<times> nat) list \<Rightarrow> bool" where
  "anchors x y ms \<longleftrightarrow> sorted_wrt (\<lambda>p q. fst p \<le> fst q \<and> snd p \<le> snd q) ms \<and> list_all (anchor x y) ms"

definition ahead :: "nat \<times> nat \<Rightarrow> (nat \<times> nat) list \<Rightarrow> bool" where
  "ahead d ms \<longleftrightarrow> (\<forall>m\<in>set ms. fst d \<le> fst m \<longrightarrow> snd d \<le> snd m)"

text \<open>An anchor behind a run of equal lines on one side is behind it on the other.\<close>

lemma ahead_run:
  assumes "anchors x y (m # ms)" "run_eq x y m q"
  shows "ahead q ms"
  unfolding ahead_def
proof (intro ballI impI)
  fix n assume n: "n \<in> set ms" "fst q \<le> fst n"
  have mn: "fst m \<le> fst n" "snd m \<le> snd n" "anchor x y n" using assms(1) n(1) by (auto simp: anchors_def list_all_iff)
  have q: "fst m \<le> fst q" "fst q \<le> length x" "snd q \<le> length y" "fst q - fst m = snd q - snd m" "snd m \<le> snd q"
    using assms(2) by (simp_all add: run_eq_def)
  show "snd q \<le> snd n"
  proof (rule ccontr)
    assume less: "\<not> snd q \<le> snd n"
    consider "n = (0, 0)" | "n = (length x, length y)"
      | "fst n < length x" "x ! fst n = y ! snd n" "count_list x (x ! fst n) = 1" using mn(3) by (auto simp: anchor_def)
    then show False
    proof cases
      case 3
      let ?t = "snd n - snd m"
      have t: "?t < fst q - fst m" using less mn q by simp
      have "x ! (fst m + ?t) = x ! fst n" using run_nth[OF assms(2) t] mn(2) 3(2) by simp
      moreover have "fst m + ?t < length x" using t q by simp
      ultimately have "fst m + ?t = fst n" using count_one[OF 3(3)] 3(1) by blast
      then show False using t n(2) by simp
    qed (use less mn q n(2) in auto)
  qed
qed

text \<open>One iteration that does not skip its anchor.\<close>

lemma hunk_step:
  assumes m: "fst (dsDone s) \<le> fst m" "snd (dsDone s) \<le> snd m" "fst m \<le> length x" "snd m \<le> length y"
    and inv: "patched x y (dsOut s) e" "run_eq x y e (dsChunk s)" "pending x y s (dsDone s)"
    and stop: "stop = expand x y (fst m) (snd m)" "goes_on \<longleftrightarrow> fst stop < length x \<or> snd stop < length y"
  obtains s' e' where "hunks_loop x y (m # ms) s = (if goes_on then hunks_loop x y ms s' else Some s')"
    "patched x y (dsOut s') e'" "goes_on \<Longrightarrow> run_eq x y e' (dsChunk s') \<and> pending x y s' stop \<and> dsDone s' = stop"
    "\<not> goes_on \<Longrightarrow> run_eq x y e' stop" "run_eq x y m stop"
proof -
  let ?start = "expand_back x y (dsDone s) (fst m) (snd m)"
  let ?common = "fst stop - fst ?start"
  have r0: "run_eq x y m stop" using expand_run[of x y m "fst m" "snd m"] run_refl[OF m(3,4)] stop(1) by simp
  have eb: "run_eq x y ?start m" "fst (dsDone s) \<le> fst ?start" "snd (dsDone s) \<le> snd ?start"
    using expand_back_run[of x y "fst m" "snd m" m "dsDone s"] run_refl[OF m(3,4)] m(1,2) by auto
  have r: "run_eq x y ?start stop" by (rule run_trans[OF eb(1) r0])
  have st: "fst ?start \<le> length x" "snd ?start \<le> length y" using r by (auto simp: run_eq_def)
  obtain s1 where s1: "emit_changes x y ?start s = Some s1" "pending x y s1 ?start" "dsChunk s1 = dsChunk s" "dsOut s1 = dsOut s"
    by (rule emit_changes[OF inv(3) eb(2,3) st])
  have p1: "patched x y (dsOut s1) e" "run_eq x y e (dsChunk s1)" using inv(1,2) s1(3,4) by simp_all
  note unfold = s1(1) stop(1)[symmetric] stop(2)[symmetric] Let_def m(1)[unfolded not_less[symmetric]]
  show ?thesis
  proof (cases "goes_on \<and> (?common < context_lines \<or> dsText s1 \<noteq> [] \<and> ?common < 2 * context_lines)")
    case True
    obtain s2 where s2: "emit_common x (fst ?start) (fst stop) s1 = Some s2" "pending x y s2 stop" "dsChunk s2 = dsChunk s1" "dsOut s2 = dsOut s1"
      by (rule emit_common[OF s1(2) r])
    show ?thesis
      by (rule that[of "s2\<lparr>dsDone := stop\<rparr>" e]) (use s2 p1 True r0 in \<open>simp_all add: unfold pending_def\<close>)
  next
    case ended: False
    obtain s2 e2 where s2: "end_chunk x ?start stop s1 = Some s2" "patched x y (dsOut s2) e2" "run_eq x y e2 stop"
      "dsText s2 = []" "dsCount s2 = (0, 0)"
      "context_lines \<le> ?common \<Longrightarrow> dsText s1 \<noteq> [] \<Longrightarrow> fst e2 = fst ?start + context_lines"
      "dsText s1 = [] \<Longrightarrow> fst e2 \<le> fst ?start"
      by (rule end_chunk[OF p1 s1(2) r]) blast
    show ?thesis
    proof (cases goes_on)
      case True
      have "context_lines \<le> fst stop - fst e2" using ended True s2(6,7) by (cases "dsText s1 = []") auto
      from new_chunk[OF s2(2-5) this] obtain s3 where s3: "new_chunk x stop s2 = Some s3" "dsDone s3 = stop"
        "dsOut s3 = dsOut s2" "pending x y s3 stop" "run_eq x y e2 (dsChunk s3)" .
      show ?thesis by (rule that[of s3 e2]) (use s2(1,2) s3 ended True r0 in \<open>auto simp: unfold\<close>)
    next
      case False
      show ?thesis by (rule that[of s2 e2]) (use s2(1-3) ended False r0 in \<open>auto simp: unfold\<close>)
    qed
  qed
qed

lemma hunks_loop:
  "anchors x y ms \<Longrightarrow> ms \<noteq> [] \<Longrightarrow> last ms = (length x, length y) \<Longrightarrow> ahead (dsDone s) ms \<Longrightarrow>
   patched x y (dsOut s) e \<Longrightarrow> run_eq x y e (dsChunk s) \<Longrightarrow> pending x y s (dsDone s) \<Longrightarrow>
   \<exists>s' e'. hunks_loop x y ms s = Some s' \<and> patched x y (dsOut s') e' \<and> run_eq x y e' (length x, length y)"
proof (induction ms arbitrary: s e)
  case (Cons m ms)
  have rest: "anchors x y ms" using Cons.prems(1) by (simp add: anchors_def)
  have d: "fst (dsDone s) \<le> length x" "snd (dsDone s) \<le> length y" using Cons.prems(7) by (simp_all add: pending_def)
  have m: "fst m \<le> length x" "snd m \<le> length y" using Cons.prems(1) by (auto simp: anchors_def anchor_def)
  show ?case
  proof (cases "fst m < fst (dsDone s)")
    case True
    then have "ms \<noteq> []" "last ms = (length x, length y)" using Cons.prems(3) d by (auto split: if_splits)
    moreover have "ahead (dsDone s) ms" using Cons.prems(4) by (simp add: ahead_def)
    ultimately show ?thesis using Cons.IH[OF rest _ _ _ Cons.prems(5,6,7)] True by simp
  next
    case False
    define stop where "stop = expand x y (fst m) (snd m)"
    define goes_on where "goes_on \<longleftrightarrow> fst stop < length x \<or> snd stop < length y"
    have le: "fst (dsDone s) \<le> fst m" "snd (dsDone s) \<le> snd m" using False Cons.prems(4) by (auto simp: ahead_def)
    obtain s' e' where s': "hunks_loop x y (m # ms) s = (if goes_on then hunks_loop x y ms s' else Some s')"
      "patched x y (dsOut s') e'" "goes_on \<Longrightarrow> run_eq x y e' (dsChunk s') \<and> pending x y s' stop \<and> dsDone s' = stop"
      "\<not> goes_on \<Longrightarrow> run_eq x y e' stop" "run_eq x y m stop"
      by (rule hunk_step[OF le m Cons.prems(5,6,7) stop_def goes_on_def, of ms]) blast
    show ?thesis
    proof (cases goes_on)
      case True
      then have "m \<noteq> (length x, length y)" using s'(5) by (auto simp: goes_on_def run_eq_def)
      then have "ms \<noteq> []" "last ms = (length x, length y)" using Cons.prems(3) by (auto split: if_splits)
      then have "\<exists>s'' e'. hunks_loop x y ms s' = Some s'' \<and> patched x y (dsOut s'') e' \<and> run_eq x y e' (length x, length y)"
        using s'(2) s'(3)[OF True] ahead_run[OF Cons.prems(1) s'(5)] by (intro Cons.IH[OF rest, of _ e']) auto
      then show ?thesis using s'(1) True by simp
    next
      case False
      then have "stop = (length x, length y)" using s'(5) by (auto simp: goes_on_def run_eq_def prod_eq_iff)
      then show ?thesis using s'(1,2,4) False by (intro exI[of _ s'] exI[of _ e']) simp
    qed
  qed
qed simp

section \<open>The lines of a text\<close>

lemma split_after: "split_after x \<noteq> [] \<and> concat (split_after x) = x \<and> LF \<notin> set (last (split_after x)) \<and>
    (\<forall>l\<in>set (butlast (split_after x)). count_list l LF = 1)"
proof (induction x)
  case (Cons c x)
  then obtain l ls where "split_after x = l # ls" by (cases "split_after x") auto
  then show ?case using Cons by (cases ls) auto
qed simp

lemma diff_lines_inj:
  assumes "diff_lines x = diff_lines y"
  shows "x = y"
proof -
  have count: "count_list (last (split_after z)) LF = 0" for z
    using split_after[of z] by (simp add: count_list_0_iff)
  have concat: "concat (butlast (split_after z)) @ last (split_after z) = z" for z
    using split_after[of z] by (metis append_butlast_last_id concat.simps concat_append self_append_conv)
  have two: "count_list (last (diff_lines z)) LF = 2" "last (diff_lines z) = last (split_after z) @ no_newline"
    "butlast (diff_lines z) = butlast (split_after z)" if "last (split_after z) \<noteq> []" for z
    using that count[of z] by (simp_all add: diff_lines_def no_newline_def Let_def)
  have one: "diff_lines z = butlast (split_after z)" "diff_lines z \<noteq> [] \<Longrightarrow> count_list (last (diff_lines z)) LF = 1"
    if "last (split_after z) = []" for z
    using that split_after[of z] last_in_set[of "butlast (split_after z)"] by (auto simp: diff_lines_def Let_def)
  have ne: "diff_lines z \<noteq> []" if "last (split_after z) \<noteq> []" for z
    using that by (simp add: diff_lines_def Let_def)
  consider "last (split_after x) = []" "last (split_after y) = []" | "last (split_after x) \<noteq> []" "last (split_after y) \<noteq> []"
    using one(2)[of x] one(2)[of y] two(1)[of x] two(1)[of y] ne[of x] ne[of y] assms by fastforce
  then show ?thesis
  proof cases
    case 1
    then show ?thesis using one(1) assms concat[of x] concat[of y] by simp
  next
    case 2
    then show ?thesis using two(2,3) assms concat[of x] concat[of y] by (metis append_same_eq)
  qed
qed

section \<open>Properties of the diff\<close>

lemma hunks_patch: "\<exists>hs. hunks x y = Some hs \<and> patch x hs = Some y"
proof -
  obtain as where as: "tgs x y = Some ((0, 0) # as @ [(length x, length y)])" "common_unique x y as"
    using tgs by blast
  let ?ms = "(0, 0) # as @ [(length x, length y)]"
  let ?s = "\<lparr>dsDone = (0, 0), dsChunk = (0, 0), dsCount = (0, 0), dsText = [], dsOut = []\<rparr>"
  have "sorted_wrt (\<lambda>p q. fst p \<le> fst q \<and> snd p \<le> snd q) as"
    using as(2) sorted_wrt_mono_rel[of as "\<lambda>p q. fst p < fst q \<and> snd p < snd q"] by (auto simp: common_unique_def ascending_def)
  then have "anchors x y ?ms"
    using as(2) by (fastforce simp: anchors_def anchor_def common_unique_def unique_def sorted_wrt_append list_all_iff)
  moreover have "ahead (0, 0) ?ms" "pending x y ?s (0, 0)" "run_eq x y (0, 0) (0, 0)" "patched x y [] (0, 0)"
    by (simp_all add: ahead_def pending_def run_eq_def patched_def)
  ultimately obtain s e where s: "hunks_loop x y ?ms ?s = Some s" "patched x y (dsOut s) e" "run_eq x y e (length x, length y)"
    using hunks_loop[of x y ?ms ?s "(0, 0)"] by auto
  have "drop (fst e) x = drop (snd e) y"
    using s(3) by (simp add: run_eq_def slice_def)
  then have "patch x (dsOut s) = Some y" using s(2) by (simp add: patch_def patched_def)
  then show ?thesis using as(1) s(1) by (simp add: hunks_def)
qed

text \<open>
  C38: patching the old text with a diff gives the new one. For texts that differ, \<open>diff\<close>
  prints a header and at least one hunk, and a patch tool that reads the hunks, and checks
  the line numbers and the counts of their headers and their context, turns the lines of
  the old text into those of the new text.
\<close>

theorem diff_patches:
  assumes "old \<noteq> new"
  shows "\<exists>hs. hs \<noteq> [] \<and> diff oldName old newName new = Some (diff_header oldName newName @ concat (map hunk_text hs)) \<and>
    patch (diff_lines old) hs = Some (diff_lines new)"
proof -
  obtain hs where hs: "hunks (diff_lines old) (diff_lines new) = Some hs" "patch (diff_lines old) hs = Some (diff_lines new)"
    using hunks_patch by blast
  have "hs \<noteq> []"
  proof
    assume "hs = []"
    then have "diff_lines old = diff_lines new" using hs(2) by (simp add: patch_def)
    then show False using diff_lines_inj assms by blast
  qed
  then show ?thesis using hs assms by (intro exI[of _ hs]) (simp add: diff_def)
qed

theorem diff_patches_witness:
  "\<exists>hs. hs \<noteq> [] \<and> patch (diff_lines ''ab'') hs = Some (diff_lines ''ac'')"
  using diff_patches[of "''ab''" "''ac''" "''old''" "''new''"] by auto

text \<open>
  \<open>diff\<close> never panics, whatever the two texts, and prints nothing exactly if they are
  equal.
\<close>

theorem diff_total:
  "diff oldName old newName new \<noteq> None \<and> (diff oldName old newName new = Some [] \<longleftrightarrow> old = new)"
  using hunks_patch[of "diff_lines old" "diff_lines new"] by (auto simp: diff_def diff_header_def)

text \<open>
  C39: the anchors are a longest common subsequence of the lines that are unique in both
  texts: between its two sentinels \<open>tgs\<close> returns index pairs that ascend on both sides and
  match unique lines, and no other such sequence is longer.
\<close>

theorem tgs_longest:
  "\<exists>as. tgs x y = Some ((0, 0) # as @ [(length x, length y)]) \<and> common_unique x y as \<and>
     (\<forall>ps. common_unique x y ps \<longrightarrow> length ps \<le> length as)"
  by (rule tgs)

theorem tgs_longest_witness:
  "\<exists>as. tgs [''a'', ''b'', ''c''] [''c'', ''a'', ''b''] = Some ((0, 0) # as @ [(3, 3)]) \<and> 2 \<le> length as"
proof -
  have "common_unique [''a'', ''b'', ''c''] [''c'', ''a'', ''b''] [(0, 1), (1, 2)]"
    by (simp add: common_unique_def ascending_def unique_def)
  then show ?thesis
    using tgs_longest[of "[''a'', ''b'', ''c'']" "[''c'', ''a'', ''b'']"] by fastforce
qed

end
