(* ===== verification/FormatProps.thy ===== *)
theory FormatProps imports FormatRuns PrintProps DiffProps
begin

text \<open>
  Properties of \<open>Format\<close> and \<open>FormatFile\<close> as a whole.
\<close>

lemma normalize_valid: "validateOptions (printOptions (normalize opts)) = None"
  by (simp add: validateOptions_None normalize_def printOptions_def DefaultOptions_def Let_def)

lemma Parse_document_runs:
  assumes "Parse src = Some (d, errs)"
  shows "runs (document_doc (new_formatter d opts) s)"
proof -
  have d: "docTokens d = fst (Lex src)" "doc_wf False d" using Parse_parts[OF assms] by simp_all
  then show ?thesis
    using Lex_stream_ok[of src]
    by (intro document_doc_runs) (auto simp: new_formatter_def sane_def inside_def doc_wf_def list_all_iff)
qed

lemma Format_runs:
  assumes "Parse src = Some (d, errs)"
  obtains out where "Format sw p (Some d) opts = Some (Inr out)"
proof -
  obtain ir s where ir: "document_doc (new_formatter d (normalize opts)) build_new = Some (ir, s)"
    using Parse_document_runs[OF assms, of "normalize opts" build_new] by (auto simp: runs_def)
  obtain brk' where "propagateBreaks ir (arBrk (bsArena s)) = Some brk'" using propagateBreaks_total by blast
  then show thesis
    using that ir normalize_valid by (simp add: Format_def Print_def Let_def print_error_def)
qed

text \<open>
  C21: \<open>Format\<close> is total. Whatever the source and the errors found in it, \<open>Format\<close> formats
  the document that \<open>Parse\<close> returns: no index is out of range, no pointer it follows is
  nil, all loops end and the printer accepts the options, zero or not.
\<close>

theorem Format_total:
  "case Parse src of None \<Rightarrow> False | Some (d, errs) \<Rightarrow> \<exists>out. Format sw p (Some d) opts = Some (Inr out)"
proof (rule Parse_cases[of src])
  fix doc perrs assume p: "Parse src = Some (doc, sort_key erOffset (snd (Lex src) @ perrs))"
  show ?thesis unfolding p option.case prod.case by (rule Format_runs[OF p]) blast
qed

section \<open>Files\<close>

text \<open>A text without errors of the parser.\<close>

definition parses :: "bytes \<Rightarrow> bool" where
  "parses src \<longleftrightarrow> (case Parse src of None \<Rightarrow> False | Some (d, errs) \<Rightarrow> \<not> hasFileParseErrors errs)"

text \<open>\<open>out\<close> is empty or a diff that patches the lines of \<open>s\<close> to those of \<open>t\<close>.\<close>

definition patches :: "bytes \<Rightarrow> bytes \<Rightarrow> bytes \<Rightarrow> bool" where
  "patches out s t \<longleftrightarrow> s = t \<and> out = [] \<or>
     (\<exists>hs. out = diff_header ''old'' ''new'' @ concat (map hunk_text hs) \<and> patch (diff_lines s) hs = Some (diff_lines t))"

lemma diff_patches_lines: "\<exists>out. diff ''old'' s ''new'' t = Some out \<and> patches out s t"
proof -
  obtain hs where "hunks (diff_lines s) (diff_lines t) = Some hs" "patch (diff_lines s) hs = Some (diff_lines t)"
    using hunks_patch by blast
  then show ?thesis by (auto simp: diff_def patches_def)
qed

text \<open>The outcomes of \<open>FormatFile\<close>.\<close>

fun file_outcome :: "bytes option \<Rightarrow> FileOptions \<Rightarrow> file_error + file_effect \<Rightarrow> bool" where
  "file_outcome src opts (Inl No_file) = True"
| "file_outcome src opts (Inl No_output) = (\<not> flWrite opts \<and> \<not> flOutput opts)"
| "file_outcome src opts (Inl Unreadable) = (src = None)"
| "file_outcome src opts (Inl (Bad_options e)) = (Options_of (Apply_patch (flOverride opts) (flBase opts)) = Inl e)"
| "file_outcome src opts (Inl (Parse_errors errs)) = (\<exists>s. src = Some s \<and> \<not> parses s \<and> errs \<noteq> [])"
| "file_outcome src opts (Inl (Format_error e)) = False"
| "file_outcome src opts (Inl Invalid_output) = (\<exists>s. src = Some s \<and> parses s)"
| "file_outcome src opts (Inr (Write_file out)) = (flWrite opts \<and> parses out \<and> (\<exists>s. src = Some s \<and> parses s))"
| "file_outcome src opts (Inr (Write_output out)) =
     (\<not> flWrite opts \<and> (\<exists>s. src = Some s \<and> parses s \<and>
        (if flDiff opts then \<exists>formatted. parses formatted \<and> patches out s formatted else parses out)))"

text \<open>
  C22: \<open>FormatFile\<close> never panics, and it only writes what parses. It fails for one of its
  stated reasons, never in the printer; a source with errors is not touched; what it
  writes to the file or the output parses without errors, and a diff turns the lines of
  the source into those of a text that parses without errors.
\<close>

theorem FormatFile_outcome:
  "\<exists>r. FormatFile sw p read file opts = Some r \<and> file_outcome (read file) opts r \<and> (file = [] \<longleftrightarrow> r = Inl No_file)"
proof -
  have parse: "\<exists>d errs. Parse s = Some (d, errs)" for s by (rule Parse_cases[of s]) blast
  show ?thesis
  proof (cases "file = [] \<or> \<not> flWrite opts \<and> \<not> flOutput opts \<or> read file = None \<or> isl (Options_of (Apply_patch (flOverride opts) (flBase opts)))")
    case True
    then show ?thesis by (auto simp: FormatFile_def isl_def split: option.splits)
  next
    case False
    then obtain src fo where s: "file \<noteq> []" "flWrite opts \<or> flOutput opts" "read file = Some src"
        "Options_of (Apply_patch (flOverride opts) (flBase opts)) = Inr fo"
      by (cases "Options_of (Apply_patch (flOverride opts) (flBase opts))") auto
    obtain d errs where d: "Parse src = Some (d, errs)" using parse by blast
    show ?thesis
    proof (cases "hasFileParseErrors errs")
      case True
      then have "errors_only errs \<noteq> []" by (auto simp: hasFileParseErrors_def errors_only_def list_ex_iff filter_empty_conv)
      then show ?thesis using True s d by (auto simp: FormatFile_def parses_def)
    next
      case ok: False
      obtain formatted where f: "Format sw p (Some d) fo = Some (Inr formatted)" by (rule Format_runs[OF d])
      obtain d' errs' where d': "Parse formatted = Some (d', errs')" using parse by blast
      show ?thesis
      proof (cases "hasFileParseErrors errs'")
        case True
        then show ?thesis using s d ok f d' by (auto simp: FormatFile_def parses_def)
      next
        case False
        then have p: "parses src" "parses formatted" using ok d d' by (simp_all add: parses_def)
        obtain out where "diff ''old'' src ''new'' formatted = Some out" "patches out src formatted"
          using diff_patches_lines by blast
        then show ?thesis
          using s d ok f d' False p by (auto simp: FormatFile_def)
      qed
    qed
  qed
qed

section \<open>Comments that are lost\<close>

text \<open>
  The formatter drops comments in three places. Between the arguments of a function and
  its exceptions only the comments on the line of the closing parenthesis are emitted:
  neither one on a line of its own nor one behind the keyword survives.
\<close>

definition formats_to :: "bytes \<Rightarrow> bytes \<Rightarrow> bool" where
  "formats_to src out \<longleftrightarrow>
     (case Parse src of None \<Rightarrow> False | Some (d, _) \<Rightarrow> Format length fresh_printer (Some d) DefaultOptions = Some (Inr out))"

lemma throws_comments_lost:
  "formats_to (''service S{void f()'' @ [LF] @ ''//x'' @ [LF] @ ''throws/*c*/(1:X x)}'')
     (''service S {'' @ [LF] @ ''    void f() throws (1: X x)'' @ [LF] @ ''}'' @ [LF])"
  by code_simp

text \<open>
  The closing brace of a declaration is taken to be the first one behind its opening
  brace. Behind a field with a map as its default that is the brace of the map: the
  comments in front of the real one are lost, and those in front of the other one are
  emitted twice.
\<close>

lemma brace_comments_lost:
  "formats_to (''struct S{1:map<i8,i8> m={}'' @ [LF] @ ''//x'' @ [LF] @ ''}'')
     (''struct S { 1: map<i8, i8> m = {} }'' @ [LF])"
  by code_simp

lemma brace_comments_twice:
  "formats_to (''struct S{1:map<i8,i8> m={'' @ [LF] @ ''//x'' @ [LF] @ ''}}'')
     (''struct S {'' @ [LF] @ ''    1: map<i8, i8> m = {'' @ [LF] @ ''    //x'' @ [LF] @ ''    }'' @ [LF] @ ''    //x'' @ [LF] @ ''}'' @ [LF])"
  by code_simp

end
