(* ===== verification/Config.thy ===== *)
theory Config imports FormatConfig
begin

text \<open>
  The configuration layer, \<open>options/options.go\<close>: a patch of all options, laid over the
  defaults. Finding and reading the configuration file is not part of it.
\<close>

record LintConfig =
  lcDisabled :: "bytes list option"
  lcSeverity :: "(bytes \<times> bytes) list option"

record Patch =
  paFormat :: FormatPatch
  paIncludePaths :: "bytes list option"
  paLogLevel :: "int option"
  paLint :: "LintConfig option"

definition Apply_config :: "Patch \<Rightarrow> Patch \<Rightarrow> Patch" where
  "Apply_config p base =
     (let out = base\<lparr>paFormat := Apply_patch (paFormat p) (paFormat base)\<rparr>;
          out = (if paIncludePaths p \<noteq> None then out\<lparr>paIncludePaths := paIncludePaths p\<rparr> else out);
          out = (if paLogLevel p \<noteq> None then out\<lparr>paLogLevel := paLogLevel p\<rparr> else out) in
      if paLint p \<noteq> None then out\<lparr>paLint := paLint p\<rparr> else out)"

text \<open>
  The severities are a map; the list has its entries in the order of an iteration, which
  decides which of several bad entries is reported.
\<close>

datatype config_error = Bad_format patch_error | Bad_severity bytes bytes

definition bad_severity :: "bytes \<times> bytes \<Rightarrow> config_error option" where
  "bad_severity = (\<lambda>(code, sev).
     if sev \<in> {''error'', ''warning'', ''info'', ''hint''} then None else Some (Bad_severity code sev))"

definition Validate_lint :: "LintConfig \<Rightarrow> config_error option" where
  "Validate_lint l = (case lcSeverity l of None \<Rightarrow> None | Some m \<Rightarrow> first_error bad_severity m)"

definition Default :: Patch where
  "Default = \<lparr>paFormat = DefaultFormatPatch, paIncludePaths = None, paLogLevel = None, paLint = None\<rparr>"

definition Validate_config :: "Patch \<Rightarrow> config_error option" where
  "Validate_config p =
     (case Validate (paFormat p) of
        Some e \<Rightarrow> Some (Bad_format e)
      | None \<Rightarrow> (case paLint p of None \<Rightarrow> None | Some l \<Rightarrow> Validate_lint l))"

definition Effective :: "Patch option \<Rightarrow> Patch" where
  "Effective cfg = (case cfg of None \<Rightarrow> Default | Some c \<Rightarrow> Apply_config c Default)"

end
