(* ===== verification/ConfigProps.thy ===== *)
theory ConfigProps imports Config PrintProps
begin

text \<open>
  What layered configurations mean: every option is that of the highest layer that sets it,
  and the options a valid configuration gives are never refused by the printer.
\<close>

section \<open>Layered configurations\<close>

lemma Get_Set [simp]: "Get (Set c v p) d = (if c = d then v else Get p d)"
  by (cases c; cases d) simp_all

lemma Get_per_construct [simp]: "Get (per_construct v) c = v"
  by (cases c) (simp_all add: per_construct_def)

lemma set_AllConstructs [simp]: "c \<in> set AllConstructs" "distinct AllConstructs"
  by (cases c; simp add: AllConstructs_def)+

text \<open>\<open>over a b\<close>: \<open>a\<close> where it is set, \<open>b\<close> otherwise.\<close>

definition over :: "'a option \<Rightarrow> 'a option \<Rightarrow> 'a option" where
  "over a b = (case a of None \<Rightarrow> b | Some v \<Rightarrow> Some v)"

lemma over_simps [simp]: "over None b = b" "over (Some v) b = Some v" "over a None = a"
  by (simp_all add: over_def split: option.splits)

lemma over_assoc: "over (over a b) c = over a (over b c)"
  by (simp add: over_def split: option.splits)

lemma all_over: "(\<And>s. d = Some s \<Longrightarrow> P s \<or> x \<noteq> None) \<Longrightarrow> (\<forall>s. over x d = Some s \<longrightarrow> P s) \<longleftrightarrow> (\<forall>s. x = Some s \<longrightarrow> P s)"
  by (cases x) auto

definition value_of :: "'a \<Rightarrow> 'a option \<Rightarrow> 'a" where
  "value_of d v = (case v of None \<Rightarrow> d | Some v \<Rightarrow> v)"

lemma value_of_simps [simp]: "value_of d None = d" "value_of d (Some v) = v"
  by (simp_all add: value_of_def)

lemma value_of_over [simp]: "value_of d (over x (Some e)) = value_of e x"
  by (cases x) simp_all

text \<open>What a patch sets for a construct.\<close>

definition setting :: "'a option PerConstruct option \<Rightarrow> Construct \<Rightarrow> 'a option" where
  "setting p c = Option.bind p (\<lambda>s. Get s c)"

lemma setting_simps [simp]: "setting None c = None" "setting (Some s) c = Get s c"
  by (simp_all add: setting_def)

lemma overlay_fold:
  "distinct cs \<Longrightarrow> Get (fold (overlay_set s) cs d) c = (if c \<in> set cs then over (Get s c) (Get d c) else Get d c)"
proof (induction cs arbitrary: d)
  case (Cons x cs)
  have "Get (overlay_set s x d) c = (if c = x then over (Get s c) (Get d c) else Get d c)" for c
    by (auto simp: overlay_set_def over_def split: option.splits)
  then show ?case using Cons by auto
qed simp

lemma setting_overlay [simp]: "setting (overlayPerConstruct d s) c = over (setting s c) (setting d c)"
  by (auto simp: overlayPerConstruct_def overlay_fold split: option.splits)

lemma Apply_patch_simps [simp]:
  "fpPrintWidth (Apply_patch p base) = over (fpPrintWidth p) (fpPrintWidth base)"
  "fpIndent (Apply_patch p base) = over (fpIndent p) (fpIndent base)"
  "fpTabWidth (Apply_patch p base) = over (fpTabWidth p) (fpTabWidth base)"
  "fpAlign (Apply_patch p base) = over (fpAlign p) (fpAlign base)"
  "fpSeparators (Apply_patch p base) = overlayPerConstruct (fpSeparators base) (fpSeparators p)"
  "fpBreak (Apply_patch p base) = overlayPerConstruct (fpBreak base) (fpBreak p)"
  by (auto simp: Apply_patch_def Let_def over_def split: option.splits)

lemma first_error_None [simp]: "first_error g xs = None \<longleftrightarrow> (\<forall>x\<in>set xs. g x = None)"
  by (induction xs) (auto split: option.splits)

text \<open>What \<open>Validate\<close> accepts.\<close>

definition valid_patch :: "FormatPatch \<Rightarrow> bool" where
  "valid_patch p \<longleftrightarrow> value_of 1 (fpPrintWidth p) > 0 \<and> value_of 1 (fpTabWidth p) > 0 \<and>
     (\<forall>s. fpAlign p = Some s \<longrightarrow> alignMode s \<noteq> None) \<and>
     (\<forall>c s. setting (fpSeparators p) c = Some s \<longrightarrow> separatorMode s \<noteq> None) \<and>
     (\<forall>i. fpIndent p = Some i \<longrightarrow> idWidth i > 0 \<and> isWhitespaceOnly (idValue i))"

lemma Validate_iff: "Validate p = None \<longleftrightarrow> valid_patch p"
proof -
  have pos: "not_positive e w = None \<longleftrightarrow> value_of 1 w > 0" for e w
    by (auto simp: not_positive_def split: option.splits)
  have sep: "Validate_separators p = None \<longleftrightarrow> (\<forall>c s. setting (fpSeparators p) c = Some s \<longrightarrow> separatorMode s \<noteq> None)"
    by (force simp: Validate_separators_def bad_separator_def split: option.splits if_splits)
  have al: "Validate_align p = None \<longleftrightarrow> (\<forall>s. fpAlign p = Some s \<longrightarrow> alignMode s \<noteq> None)"
    by (auto simp: Validate_align_def split: option.splits)
  have ind: "Validate_indent p = None \<longleftrightarrow> (\<forall>i. fpIndent p = Some i \<longrightarrow> idWidth i > 0 \<and> isWhitespaceOnly (idValue i))"
    by (auto simp: Validate_indent_def split: option.splits)
  show ?thesis by (simp add: Validate_def valid_patch_def pos sep al ind del: first_error.simps)
qed

text \<open>The two loops over the constructs change one field each.\<close>

lemma set_separator_other [simp]:
  "foPrintWidth (set_separator s c opts) = foPrintWidth opts" "foIndent (set_separator s c opts) = foIndent opts"
  "foTabWidth (set_separator s c opts) = foTabWidth opts" "foAlign (set_separator s c opts) = foAlign opts"
  "foBreak (set_separator s c opts) = foBreak opts"
  "foNoTrailingNewline (set_separator s c opts) = foNoTrailingNewline opts"
  by (simp_all add: set_separator_def split: option.splits)

lemma set_break_other [simp]:
  "foPrintWidth (set_break s c opts) = foPrintWidth opts" "foIndent (set_break s c opts) = foIndent opts"
  "foTabWidth (set_break s c opts) = foTabWidth opts" "foAlign (set_break s c opts) = foAlign opts"
  "foSeparator (set_break s c opts) = foSeparator opts"
  "foNoTrailingNewline (set_break s c opts) = foNoTrailingNewline opts"
  by (simp_all add: set_break_def split: option.splits)

lemma fold_keeps: "(\<And>x s. g (h x s) = g s) \<Longrightarrow> g (fold h xs s) = g s"
  by (induction xs arbitrary: s) simp_all

lemma separators_fold:
  "distinct cs \<Longrightarrow> Get (foSeparator (fold (set_separator s) cs opts)) c =
     (if c \<in> set cs then value_of (Get (foSeparator opts) c) (Option.bind (Get s c) separatorMode) else Get (foSeparator opts) c)"
  by (induction cs arbitrary: opts) (auto simp: set_separator_def value_of_def split: option.splits)

lemma breaks_fold:
  "distinct cs \<Longrightarrow> Get (foBreak (fold (set_break b) cs opts)) c =
     (if c \<in> set cs then value_of (Get (foBreak opts) c) (Get b c) else Get (foBreak opts) c)"
  by (induction cs arbitrary: opts) (auto simp: set_break_def value_of_def split: option.splits)

lemma patch_options_simps [simp]:
  "foPrintWidth (patch_options p opts) = value_of (foPrintWidth opts) (fpPrintWidth p)"
  "foIndent (patch_options p opts) = value_of (foIndent opts) (map_option idValue (fpIndent p))"
  "foTabWidth (patch_options p opts) = value_of (foTabWidth opts) (over (fpTabWidth p) (map_option idWidth (fpIndent p)))"
  "foAlign (patch_options p opts) = value_of (foAlign opts) (Option.bind (fpAlign p) alignMode)"
  "foNoTrailingNewline (patch_options p opts) = foNoTrailingNewline opts"
  by (simp_all add: patch_options_def Let_def value_of_def over_def fold_keeps split: option.splits)

lemma patch_options_per [simp]:
  "Get (foSeparator (patch_options p opts)) c =
     value_of (Get (foSeparator opts) c) (Option.bind (setting (fpSeparators p) c) separatorMode)"
  "Get (foBreak (patch_options p opts)) c = value_of (Get (foBreak opts) c) (setting (fpBreak p) c)"
  by (simp_all add: patch_options_def Let_def separators_fold breaks_fold fold_keeps[of foSeparator] fold_keeps[of foBreak]
      value_of_def split: option.splits)

lemma DefaultOptions_simps:
  "foPrintWidth DefaultOptions = 80" "foIndent DefaultOptions = ''    ''" "foTabWidth DefaultOptions = 4"
  "foAlign DefaultOptions = AlignField" "Get (foSeparator DefaultOptions) c = SeparatorPreserve"
  "Get (foBreak DefaultOptions) c = False"
proof -
  show "Get (foSeparator DefaultOptions) c = SeparatorPreserve" by (cases c) (simp_all add: DefaultOptions_def per_construct_def)
qed (simp_all add: DefaultOptions_def)

lemma default_patch [simp]:
  "fpPrintWidth DefaultFormatPatch = Some 80" "fpIndent DefaultFormatPatch = Some \<lparr>idValue = ''    '', idWidth = 4\<rparr>"
  "fpTabWidth DefaultFormatPatch = Some 4" "fpAlign DefaultFormatPatch = Some ''field''"
  "setting (fpBreak DefaultFormatPatch) c = None"
  by (simp_all add: DefaultFormatPatch_def)

lemma default_separator: "value_of SeparatorPreserve (Option.bind (setting (fpSeparators DefaultFormatPatch) c) separatorMode) = SeparatorPreserve"
  by (cases c) (simp_all add: DefaultFormatPatch_def per_construct_def separatorMode_def)

text \<open>Two layers over the defaults: what is set decides.\<close>

abbreviation (input) layers :: "FormatPatch \<Rightarrow> FormatPatch \<Rightarrow> FormatPatch" where
  "layers cli file \<equiv> Apply_patch cli (Apply_patch file DefaultFormatPatch)"

lemma layers_valid: "valid_patch (layers cli file) \<longleftrightarrow> valid_patch (Apply_patch cli file)"
proof -
  have d: "separatorMode s \<noteq> None" if "setting (fpSeparators DefaultFormatPatch) c = Some s" for c s
    using that by (cases c) (auto simp: DefaultFormatPatch_def per_construct_def separatorMode_def)
  have pos: "0 < value_of (80::int) x \<longleftrightarrow> 0 < value_of 1 x" "0 < value_of (4::int) x \<longleftrightarrow> 0 < value_of 1 x" for x
    by (cases x; simp)+
  have al: "(\<forall>s. over x (Some ''field'') = Some s \<longrightarrow> alignMode s \<noteq> None) \<longleftrightarrow> (\<forall>s. x = Some s \<longrightarrow> alignMode s \<noteq> None)" for x
    by (rule all_over) (simp add: alignMode_def)
  have sp: "(\<forall>c s. over (x c) (setting (fpSeparators DefaultFormatPatch) c) = Some s \<longrightarrow> separatorMode s \<noteq> None) \<longleftrightarrow>
      (\<forall>c s. x c = Some s \<longrightarrow> separatorMode s \<noteq> None)" for x
    using d by (intro iff_allI all_over) blast
  have ind: "(\<forall>i. over x (Some \<lparr>idValue = ''    '', idWidth = 4\<rparr>) = Some i \<longrightarrow> idWidth i > 0 \<and> isWhitespaceOnly (idValue i)) \<longleftrightarrow>
      (\<forall>i. x = Some i \<longrightarrow> idWidth i > 0 \<and> isWhitespaceOnly (idValue i))" for x
    by (rule all_over) (simp add: isWhitespaceOnly_def)
  show ?thesis
    unfolding valid_patch_def Apply_patch_simps setting_overlay over_assoc[symmetric] default_patch
    by (simp only: value_of_over pos al sp ind)
qed

text \<open>A default below the layers, for each of the fields.\<close>

lemma over_default:
  "value_of SeparatorPreserve (Option.bind (over x (setting (fpSeparators DefaultFormatPatch) c)) separatorMode) =
     value_of SeparatorPreserve (Option.bind x separatorMode)"
  "value_of 4 (over (over y (Some 4)) z) = value_of (4::int) y"
  "value_of AlignField (Option.bind (over v (Some ''field'')) alignMode) = value_of AlignField (Option.bind v alignMode)"
  "value_of ''    '' (map_option idValue (over w (Some \<lparr>idValue = ''    '', idWidth = 4\<rparr>))) = value_of ''    '' (map_option idValue w)"
  using default_separator[of c] by (cases x; cases y; cases v; cases w; simp add: alignMode_def)+

lemma layers_fields:
  shows "foPrintWidth (patch_options (layers cli file) DefaultOptions) = value_of 80 (over (fpPrintWidth cli) (fpPrintWidth file))"
      "foIndent (patch_options (layers cli file) DefaultOptions) = value_of ''    '' (map_option idValue (over (fpIndent cli) (fpIndent file)))"
      "foTabWidth (patch_options (layers cli file) DefaultOptions) = value_of 4 (over (fpTabWidth cli) (fpTabWidth file))"
      "foAlign (patch_options (layers cli file) DefaultOptions) = value_of AlignField (Option.bind (over (fpAlign cli) (fpAlign file)) alignMode)"
      "Get (foSeparator (patch_options (layers cli file) DefaultOptions)) c =
         value_of SeparatorPreserve (Option.bind (over (setting (fpSeparators cli) c) (setting (fpSeparators file) c)) separatorMode)"
      "Get (foBreak (patch_options (layers cli file) DefaultOptions)) c = value_of False (over (setting (fpBreak cli) c) (setting (fpBreak file) c))"
  by (simp_all add: over_assoc[symmetric] over_default DefaultOptions_simps)

lemma layers_printable:
  assumes "valid_patch (Apply_patch cli file)"
  shows "validateOptions (printOptions (patch_options (layers cli file) DefaultOptions)) = None"
proof -
  have pos: "value_of 80 x > 0" "value_of 4 x > 0" if "value_of (1::int) x > 0" for x using that by (cases x; simp)+
  show ?thesis
    unfolding validateOptions_None printOptions_def Options.select_convs layers_fields
    using assms by (simp add: valid_patch_def pos)
qed

text \<open>
  C40: an option has the value of the highest layer that sets it. The options for a
  configuration \<open>file\<close> below command-line flags \<open>cli\<close> are, per field and per construct,
  those of \<open>cli\<close> where it sets them, those of \<open>file\<close> where that sets them, and the defaults
  otherwise; there are options exactly if what the two set together is valid, and the
  printer accepts them.
\<close>

theorem Options_layered:
  "case Options_of (Apply_patch cli (paFormat (Effective (Some (\<lparr>paFormat = file, paIncludePaths = inc, paLogLevel = lvl, paLint = lint\<rparr>))))) of
     Inl e \<Rightarrow> \<not> valid_patch (Apply_patch cli file)
   | Inr opts \<Rightarrow> valid_patch (Apply_patch cli file) \<and>
       validateOptions (printOptions opts) = None \<and>
       foPrintWidth opts = value_of 80 (over (fpPrintWidth cli) (fpPrintWidth file)) \<and>
       foIndent opts = value_of ''    '' (map_option idValue (over (fpIndent cli) (fpIndent file))) \<and>
       foTabWidth opts = value_of 4 (over (fpTabWidth cli) (fpTabWidth file)) \<and>
       foAlign opts = value_of AlignField (Option.bind (over (fpAlign cli) (fpAlign file)) alignMode) \<and>
       (\<forall>c. Get (foSeparator opts) c =
          value_of SeparatorPreserve (Option.bind (over (setting (fpSeparators cli) c) (setting (fpSeparators file) c)) separatorMode)) \<and>
       (\<forall>c. Get (foBreak opts) c = value_of False (over (setting (fpBreak cli) c) (setting (fpBreak file) c)))"
proof -
  let ?p = "layers cli file"
  have e: "Apply_patch cli (paFormat (Effective (Some (\<lparr>paFormat = file, paIncludePaths = inc, paLogLevel = lvl, paLint = lint\<rparr>)))) = ?p"
    by (simp add: Effective_def Default_def Apply_config_def Let_def)
  show ?thesis
  proof (cases "valid_patch (Apply_patch cli file)")
    case True
    then have "Validate ?p = None" using layers_valid Validate_iff by blast
    then have "Options_of ?p = Inr (patch_options ?p DefaultOptions)" by (simp add: Options_of_def)
    with True show ?thesis
      by (simp only: e sum.case layers_printable layers_fields) simp
  next
    case False
    then have "Validate ?p \<noteq> None" using layers_valid Validate_iff by blast
    with False show ?thesis unfolding e by (auto simp: Options_of_def)
  qed
qed

text \<open>
  The width of an indentation is never used: the defaults set the width of a tab, and a set
  width of a tab wins over that of the indentation. With an indentation of two spaces every
  level counts as four columns.
\<close>

lemma indent_width_ignored:
  "case Options_of (paFormat (Effective (Some (Default\<lparr>paFormat := DefaultFormatPatch\<lparr>fpIndent := Some \<lparr>idValue = ''  '', idWidth = 2\<rparr>,
       fpTabWidth := None\<rparr>\<rparr>)))) of
     Inl _ \<Rightarrow> False | Inr opts \<Rightarrow> foIndent opts = ''  '' \<and> foTabWidth opts = 4"
  by code_simp

end
