(* ===== verification/Paths.thy ===== *)
theory Paths imports Prelude
begin

text \<open>
  What the code uses of Go's \<open>strings\<close>, \<open>path\<close> and \<open>path/filepath\<close> packages. Paths
  are those of a Unix build, where \<open>filepath\<close> and \<open>path\<close> agree.
\<close>

section \<open>Strings\<close>

text \<open>\<open>strings.Split\<close> with a separator of one byte, and \<open>strings.Join\<close>.\<close>

fun split_at :: "char \<Rightarrow> bytes \<Rightarrow> bytes list" where
  "split_at sep [] = [[]]"
| "split_at sep (c # s) =
     (if c = sep then [] # split_at sep s
      else (case split_at sep s of [] \<Rightarrow> [[c]] | w # ws \<Rightarrow> (c # w) # ws))"

fun join_with :: "bytes \<Rightarrow> bytes list \<Rightarrow> bytes" where
  "join_with sep [] = []"
| "join_with sep [w] = w"
| "join_with sep (w # ws) = w @ sep @ join_with sep ws"

definition HasPrefix :: "bytes \<Rightarrow> bytes \<Rightarrow> bool" where
  "HasPrefix s p \<longleftrightarrow> take (length p) s = p"

definition HasSuffix :: "bytes \<Rightarrow> bytes \<Rightarrow> bool" where
  "HasSuffix s p \<longleftrightarrow> HasPrefix (rev s) (rev p)"

definition CutPrefix :: "bytes \<Rightarrow> bytes \<Rightarrow> bytes option" where
  "CutPrefix s p = (if HasPrefix s p then Some (drop (length p) s) else None)"

definition TrimPrefix :: "bytes \<Rightarrow> bytes \<Rightarrow> bytes" where
  "TrimPrefix s p = (if HasPrefix s p then drop (length p) s else s)"

definition TrimSuffix :: "bytes \<Rightarrow> bytes \<Rightarrow> bytes" where
  "TrimSuffix s p = (if HasSuffix s p then take (length s - length p) s else s)"

text \<open>What stands before and behind the last occurrence of a byte.\<close>

definition cut_last :: "char \<Rightarrow> bytes \<Rightarrow> (bytes \<times> bytes) option" where
  "cut_last c s =
     (if c \<in> set s
      then (let after = rev (takeWhile (\<lambda>x. x \<noteq> c) (rev s)) in Some (take (length s - length after - 1) s, after))
      else None)"

section \<open>Paths\<close>

abbreviation SLASH :: char where "SLASH \<equiv> CHR ''/''"
abbreviation DOT :: char where "DOT \<equiv> CHR ''.''"

definition rooted :: "bytes \<Rightarrow> bool" where
  "rooted p \<longleftrightarrow> HasPrefix p ''/''"

text \<open>One element of the path, onto the elements kept so far, the latest first.\<close>

definition clean_step :: "bool \<Rightarrow> bytes \<Rightarrow> bytes list \<Rightarrow> bytes list" where
  "clean_step root c stack =
     (if c = [] \<or> c = ''.'' then stack
      else if c = ''..'' then
        (case stack of
           [] \<Rightarrow> if root then [] else [''..'']
         | t # rest \<Rightarrow> if t = ''..'' then ''..'' # stack else rest)
      else c # stack)"

definition clean_elements :: "bytes \<Rightarrow> bytes list" where
  "clean_elements p = rev (fold (clean_step (rooted p)) (split_at SLASH p) [])"

definition Clean :: "bytes \<Rightarrow> bytes" where
  "Clean p =
     (let out = join_with ''/'' (clean_elements p) in
      if rooted p then ''/'' @ out else if out = [] then ''.'' else out)"

definition path_Dir :: "bytes \<Rightarrow> bytes" where
  "path_Dir p = Clean (case cut_last SLASH p of None \<Rightarrow> [] | Some (dir, _) \<Rightarrow> dir @ ''/'')"

definition path_Base :: "bytes \<Rightarrow> bytes" where
  "path_Base p =
     (if p = [] then ''.''
      else
        (let p = rev (dropWhile (\<lambda>c. c = SLASH) (rev p));
             b = (case cut_last SLASH p of None \<Rightarrow> p | Some (_, after) \<Rightarrow> after) in
         if b = [] then ''/'' else b))"

definition path_Join :: "bytes \<Rightarrow> bytes \<Rightarrow> bytes" where
  "path_Join a b =
     (if a = [] then (if b = [] then [] else Clean b) else Clean (a @ ''/'' @ b))"

end
