(* ===== verification/Resolver.thy ===== *)
theory Resolver imports Paths View Slices
begin

text \<open>
  Include resolution: the search over the include paths, \<open>resolver/resolver.go\<close> on a
  build other than Windows, and its use by the store, \<open>store/snapshot.go\<close>. Whether a
  path names a file is a parameter. The conversions between URIs and paths are those of
  the package \<open>go.lsp.dev/uri\<close>, a parameter too.
\<close>

section \<open>The search\<close>

record Resolver =
  rvIncludePaths :: "bytes list"
  rvExists :: "bytes \<Rightarrow> bool"

definition sameComponent :: "bytes \<Rightarrow> bytes \<Rightarrow> bool" where
  "sameComponent a b \<longleftrightarrow> a = b"

definition samePath :: "bytes \<Rightarrow> bytes \<Rightarrow> bool" where
  "samePath a b \<longleftrightarrow> a = b"

definition containsPath :: "bytes list \<Rightarrow> bytes \<Rightarrow> bool" where
  "containsPath candidates p \<longleftrightarrow> list_ex (\<lambda>c. samePath c p) candidates"

fun sharedPrefixLen :: "bytes list \<Rightarrow> bytes list \<Rightarrow> nat" where
  "sharedPrefixLen (a # as) (b # bs) = (if sameComponent a b then Suc (sharedPrefixLen as bs) else 0)"
| "sharedPrefixLen _ _ = 0"

definition sharedComponents :: "bytes \<Rightarrow> bytes list" where
  "sharedComponents path = split_at SLASH (Clean path)"

definition sharedDirPrefix :: "bytes \<Rightarrow> bytes \<Rightarrow> nat" where
  "sharedDirPrefix a b = sharedPrefixLen (sharedComponents a) (sharedComponents b)"

definition sortByProximity :: "bytes list \<Rightarrow> bytes \<Rightarrow> bytes list" where
  "sortByProximity paths dir =
     SortStableFunc (\<lambda>a b. int (sharedDirPrefix b dir) - int (sharedDirPrefix a dir)) paths"

definition add_candidate :: "Resolver \<Rightarrow> bytes \<Rightarrow> bytes list \<Rightarrow> bytes list" where
  "add_candidate r c candidates =
     (if \<not> rvExists r c \<or> containsPath candidates c then candidates else candidates @ [c])"

definition Candidates :: "Resolver \<Rightarrow> bytes \<Rightarrow> bytes \<Rightarrow> bytes list" where
  "Candidates r currentFile includePath =
     (let basePath = path_Dir currentFile;
          candidates = add_candidate r (path_Join basePath includePath) [] in
      fold (\<lambda>ip. add_candidate r (path_Join ip includePath)) (sortByProximity (rvIncludePaths r) basePath) candidates)"

definition Resolve :: "Resolver \<Rightarrow> bytes \<Rightarrow> bytes \<Rightarrow> bytes" where
  "Resolve r currentFile includePath =
     (case Candidates r currentFile includePath of
        c # cs \<Rightarrow> c
      | [] \<Rightarrow> path_Join (path_Dir currentFile) includePath)"

section \<open>The store\<close>

record uri_api =
  urPath :: "uri \<Rightarrow> bytes"
  urFsPath :: "uri \<Rightarrow> bytes"
  urFile :: "bytes \<Rightarrow> uri"

text \<open>\<open>newResolver\<close> with the checker of the store: a path exists if its URI can be read.\<close>

definition newResolver :: "uri_api \<Rightarrow> bytes list \<Rightarrow> files \<Rightarrow> Resolver" where
  "newResolver api includePaths fs = \<lparr>rvIncludePaths = includePaths, rvExists = (\<lambda>p. fs (urFile api p) \<noteq> None)\<rparr>"

definition ResolveInclude :: "uri_api \<Rightarrow> bytes list \<Rightarrow> resolver" where
  "ResolveInclude api includePaths fs u includePath =
     urFile api (Resolve (newResolver api includePaths fs) (urFsPath api u) includePath)"

definition ResolveIncludeCandidates :: "uri_api \<Rightarrow> bytes list \<Rightarrow> files \<Rightarrow> uri \<Rightarrow> bytes \<Rightarrow> uri list" where
  "ResolveIncludeCandidates api includePaths fs u includePath =
     map (urFile api) (Candidates (newResolver api includePaths fs) (urFsPath api u) includePath)"

definition getIncludeNameFromPath :: "bytes \<Rightarrow> bytes" where
  "getIncludeNameFromPath path = TrimSuffix (last (split_at SLASH path)) ''.thrift''"

fun get_include_path :: "Token list \<Rightarrow> bytes \<Rightarrow> Include list \<Rightarrow> bytes" where
  "get_include_path toks includeName [] = []"
| "get_include_path toks includeName (inc # incs) =
     (case incPath inc of
        None \<Rightarrow> get_include_path toks includeName incs
      | Some t \<Rightarrow>
          (let path = PathText toks (Some inc) in
           if getIncludeNameFromPath path = includeName then path
           else get_include_path toks includeName incs))"

definition GetIncludePath :: "Document \<Rightarrow> bytes \<Rightarrow> bytes" where
  "GetIncludePath ast includeName = get_include_path (docTokens ast) includeName (Includes ast)"

definition GetIncludeURI :: "uri_api \<Rightarrow> bytes list \<Rightarrow> files \<Rightarrow> uri \<Rightarrow> Document \<Rightarrow> bytes \<Rightarrow> uri" where
  "GetIncludeURI api includePaths fs u ast includeName =
     (let path = GetIncludePath ast includeName in
      if path = [] then [] else ResolveInclude api includePaths fs u path)"

end
