(* ===== verification/ResolverProps.thy ===== *)
theory ResolverProps imports Resolver
begin

text \<open>Include resolution returns the nearest existing location.\<close>

section \<open>Candidates\<close>

definition locations :: "Resolver \<Rightarrow> bytes \<Rightarrow> bytes \<Rightarrow> bytes list" where
  "locations r currentFile includePath =
     path_Join (path_Dir currentFile) includePath #
     map (\<lambda>ip. path_Join ip includePath) (sortByProximity (rvIncludePaths r) (path_Dir currentFile))"

lemma containsPath_mem [simp]: "containsPath cs p \<longleftrightarrow> p \<in> set cs"
  by (auto simp: containsPath_def samePath_def list_ex_iff)

lemma add_candidate_set: "set (add_candidate r c cs) = set cs \<union> {x. x = c \<and> rvExists r x}"
  by (auto simp: add_candidate_def)

lemma add_candidate_distinct: "distinct cs \<Longrightarrow> distinct (add_candidate r c cs)"
  by (auto simp: add_candidate_def)

lemma add_candidate_first: "cs \<noteq> [] \<Longrightarrow> hd (add_candidate r c cs) = hd cs \<and> add_candidate r c cs \<noteq> []"
  by (auto simp: add_candidate_def)

lemma candidates_fold:
  "set (fold (add_candidate r) xs cs) = set cs \<union> {x \<in> set xs. rvExists r x}"
  "distinct cs \<Longrightarrow> distinct (fold (add_candidate r) xs cs)"
  "cs \<noteq> [] \<Longrightarrow> hd (fold (add_candidate r) xs cs) = hd cs \<and> fold (add_candidate r) xs cs \<noteq> []"
  by (induction xs arbitrary: cs)
    (auto simp: add_candidate_set add_candidate_distinct add_candidate_first)

lemma candidates_first:
  "fold (add_candidate r) xs [] = [] \<and> find (rvExists r) xs = None \<or>
   fold (add_candidate r) xs [] \<noteq> [] \<and> find (rvExists r) xs = Some (hd (fold (add_candidate r) xs []))"
proof (induction xs)
  case (Cons x xs)
  have "add_candidate r x [] = (if rvExists r x then [x] else [])" by (simp add: add_candidate_def)
  then show ?case using Cons candidates_fold(3)[of "[x]" r xs] by auto
qed simp

lemma Candidates_fold: "Candidates r f p = fold (add_candidate r) (locations r f p) []"
  by (simp add: Candidates_def locations_def Let_def fold_map comp_def)

section \<open>Proximity\<close>

lemma sortByProximity_key: "sortByProximity paths dir = sort_key (\<lambda>a. - int (sharedDirPrefix a dir)) paths"
  unfolding sortByProximity_def by (rule SortStable_key) simp

lemma set_sortByProximity [simp]: "set (sortByProximity paths dir) = set paths"
  by (simp add: sortByProximity_key)

text \<open>The first match in a stably sorted list has the least key, and is the first such match in the input.\<close>

lemma find_filter: "find P xs = (case filter P xs of [] \<Rightarrow> None | y # ys \<Rightarrow> Some y)"
  by (induction xs) auto

lemma find_map_comp: "find P (map f xs) = map_option f (find (P \<circ> f) xs)"
  by (induction xs) auto

lemma find_sort_key:
  fixes f :: "'a \<Rightarrow> int"
  assumes "find P (sort_key f xs) = Some x"
  shows "\<exists>as bs. xs = as @ x # bs \<and> P x \<and> (\<forall>a\<in>set as. P a \<longrightarrow> f x < f a) \<and> (\<forall>b\<in>set bs. P b \<longrightarrow> f x \<le> f b)"
proof -
  obtain ys where ys: "sort_key f (filter P xs) = x # ys"
    using assms by (auto simp: find_filter filter_sort split: list.splits)
  have least: "\<forall>y\<in>set xs. P y \<longrightarrow> f x \<le> f y"
  proof (intro ballI impI)
    fix y assume "y \<in> set xs" "P y"
    then have "y \<in> set (sort_key f (filter P xs))" by simp
    then show "f x \<le> f y" using ys sorted_sort_key[of f "filter P xs"] by auto
  qed
  have "filter (\<lambda>y. f y = f x) (filter P xs) = filter (\<lambda>y. f y = f x) (x # ys)"
    using sort_key_stable[of f "f x" "filter P xs"] ys by simp
  then have "filter (\<lambda>y. f y = f x \<and> P y) xs = x # filter (\<lambda>y. f y = f x) ys"
    by (simp add: conj_commute)
  then obtain as bs where "xs = as @ x # bs" "\<forall>a\<in>set as. P a \<longrightarrow> f a \<noteq> f x" "P x"
    unfolding filter_eq_Cons_iff by blast
  then show ?thesis using least by fastforce
qed

section \<open>Resolution\<close>

definition nearest :: "(bytes \<Rightarrow> bool) \<Rightarrow> bytes \<Rightarrow> bytes list \<Rightarrow> bytes \<Rightarrow> bool" where
  "nearest there dir ips ip \<longleftrightarrow>
     (\<exists>as bs. ips = as @ ip # bs \<and> there ip \<and>
       (\<forall>a\<in>set as. there a \<longrightarrow> sharedDirPrefix a dir < sharedDirPrefix ip dir) \<and>
       (\<forall>b\<in>set bs. there b \<longrightarrow> sharedDirPrefix b dir \<le> sharedDirPrefix ip dir))"

lemma sortByProximity_nearest:
  "find there (sortByProximity ips dir) = Some ip \<Longrightarrow> nearest there dir ips ip"
  unfolding nearest_def sortByProximity_key using find_sort_key by fastforce

text \<open>
  C17: an include resolves to its nearest location. That is the place beside the file if it
  exists there or nowhere; otherwise the place under an include path that shares the
  longest directory prefix with the file among those where it exists, the first such one
  in the order of the configuration. The candidates are exactly the existing places,
  once each, and the first of them is the resolution.
\<close>

theorem Resolve_nearest:
  "distinct (Candidates r f p) \<and>
   set (Candidates r f p) = {x. rvExists r x \<and> (x = path_Join (path_Dir f) p \<or> x \<in> (\<lambda>ip. path_Join ip p) ` set (rvIncludePaths r))} \<and>
   (case Candidates r f p of [] \<Rightarrow> Resolve r f p = path_Join (path_Dir f) p | c # cs \<Rightarrow> Resolve r f p = c) \<and>
   (Resolve r f p = path_Join (path_Dir f) p \<or>
    (\<not> rvExists r (path_Join (path_Dir f) p) \<and>
     (\<exists>ip. nearest (\<lambda>d. rvExists r (path_Join d p)) (path_Dir f) (rvIncludePaths r) ip \<and> Resolve r f p = path_Join ip p)))"
proof (intro conjI)
  show "distinct (Candidates r f p)" unfolding Candidates_fold by (rule candidates_fold(2)) simp
  show "set (Candidates r f p) = {x. rvExists r x \<and> (x = path_Join (path_Dir f) p \<or> x \<in> (\<lambda>ip. path_Join ip p) ` set (rvIncludePaths r))}"
    unfolding Candidates_fold candidates_fold(1) by (auto simp: locations_def)
  show hd: "case Candidates r f p of [] \<Rightarrow> Resolve r f p = path_Join (path_Dir f) p | c # cs \<Rightarrow> Resolve r f p = c"
    by (simp add: Resolve_def split: list.splits)
  show "Resolve r f p = path_Join (path_Dir f) p \<or>
    \<not> rvExists r (path_Join (path_Dir f) p) \<and>
     (\<exists>ip. nearest (\<lambda>d. rvExists r (path_Join d p)) (path_Dir f) (rvIncludePaths r) ip \<and> Resolve r f p = path_Join ip p)"
  proof (cases "rvExists r (path_Join (path_Dir f) p) \<or> Candidates r f p = []")
    case True
    then show ?thesis using candidates_first[of r "locations r f p"] hd
      unfolding Candidates_fold by (auto simp: locations_def split: list.splits)
  next
    case False
    then have "find (rvExists r) (locations r f p) = Some (hd (Candidates r f p))"
      using candidates_first[of r "locations r f p"] unfolding Candidates_fold by auto
    then obtain ip where "find (rvExists r \<circ> (\<lambda>ip. path_Join ip p)) (sortByProximity (rvIncludePaths r) (path_Dir f)) = Some ip"
      "hd (Candidates r f p) = path_Join ip p"
      using False by (auto simp: locations_def find_map_comp)
    then show ?thesis using False hd sortByProximity_nearest by (fastforce simp: comp_def split: list.splits)
  qed
qed

end
