(* ===== verification/FileSource.thy ===== *)
theory FileSource imports Resolver "HOL-Library.Word"
begin

text \<open>
  File sources: the tree in memory, \<open>store/fs_mem.go\<close>, and the overlay of open files
  on top of it, \<open>store/fs_overlay.go\<close>, with the change records of \<open>store/file.go\<close>. A
  disk, whose reads are system calls, is represented by the tree of its contents.
\<close>

section \<open>The tree\<close>

type_synonym memFS = "(uri, bytes) fmap"

text \<open>A missing file gives a handle whose content is an error, \<open>None\<close> here.\<close>

definition memFS_ReadFile :: "memFS \<Rightarrow> uri \<Rightarrow> bytes option" where
  "memFS_ReadFile m u = fmlookup m u"

definition memFS_Exists :: "uri_api \<Rightarrow> memFS \<Rightarrow> bytes \<Rightarrow> bool" where
  "memFS_Exists api m path \<longleftrightarrow> urFile api path |\<in>| fmdom m"

definition underRoot :: "uri_api \<Rightarrow> uri \<Rightarrow> bytes \<Rightarrow> bool" where
  "underRoot api file rootPath \<longleftrightarrow>
     (let p = urPath api file in p \<noteq> rootPath \<and> HasPrefix p (rootPath @ ''/''))"

text \<open>The files that \<open>WalkFiles\<close> calls its callback for, in order.\<close>

definition memFS_WalkFiles :: "uri_api \<Rightarrow> memFS \<Rightarrow> uri \<Rightarrow> uri list" where
  "memFS_WalkFiles api m root =
     filter (\<lambda>u. underRoot api u (Clean (urPath api root))) (sorted_list_of_fset (fmdom m))"

section \<open>Overlays\<close>

datatype FileChangeType = ChangeInitialize | ChangeDidOpen | ChangeDidChange | ChangeDidClose

record FileChange =
  chURI :: uri
  chVersion :: int
  chContent :: bytes
  chFrom :: FileChangeType

record Overlay =
  ovURI :: uri
  ovContent :: bytes
  ovVersion :: "32 word"

definition NewOverlay :: "uri \<Rightarrow> bytes \<Rightarrow> 32 word \<Rightarrow> Overlay" where
  "NewOverlay u content version = \<lparr>ovURI = u, ovContent = content, ovVersion = version\<rparr>"

record OverlayFS =
  osDelegate :: memFS
  osOverlays :: "(uri, Overlay) fmap"

definition NewOverlayFS :: "memFS \<Rightarrow> OverlayFS" where
  "NewOverlayFS delegate = \<lparr>osDelegate = delegate, osOverlays = fmempty\<rparr>"

definition OverlayFS_ReadFile :: "OverlayFS \<Rightarrow> uri \<Rightarrow> bytes option" where
  "OverlayFS_ReadFile fs u =
     (case fmlookup (osOverlays fs) u of
        Some ov \<Rightarrow> Some (ovContent ov)
      | None \<Rightarrow> memFS_ReadFile (osDelegate fs) u)"

definition OverlayFS_Exists :: "uri_api \<Rightarrow> OverlayFS \<Rightarrow> bytes \<Rightarrow> bool" where
  "OverlayFS_Exists api fs path \<longleftrightarrow>
     (if urFile api path |\<in>| fmdom (osOverlays fs) then True else memFS_Exists api (osDelegate fs) path)"

definition OverlayFS_WalkFiles :: "uri_api \<Rightarrow> OverlayFS \<Rightarrow> uri \<Rightarrow> uri list" where
  "OverlayFS_WalkFiles api fs root = memFS_WalkFiles api (osDelegate fs) root"

definition Forget :: "uri \<Rightarrow> OverlayFS \<Rightarrow> OverlayFS" where
  "Forget u fs = fs\<lparr>osOverlays := fmdrop u (osOverlays fs)\<rparr>"

definition overlay_change :: "FileChange \<Rightarrow> OverlayFS \<Rightarrow> OverlayFS" where
  "overlay_change ch fs =
     (if chFrom ch = ChangeDidClose then Forget (chURI ch) fs
      else fs\<lparr>osOverlays := fmupd (chURI ch) (NewOverlay (chURI ch) (chContent ch) (word_of_int (chVersion ch))) (osOverlays fs)\<rparr>)"

definition OverlayFS_Update :: "FileChange list \<Rightarrow> OverlayFS \<Rightarrow> OverlayFS" where
  "OverlayFS_Update changes fs = fold overlay_change changes fs"

definition HasOverlay :: "OverlayFS \<Rightarrow> uri \<Rightarrow> bool" where
  "HasOverlay fs u \<longleftrightarrow> u |\<in>| fmdom (osOverlays fs)"

text \<open>The conversions when URIs are paths, for concrete inputs.\<close>

definition plain_uris :: uri_api where
  "plain_uris = \<lparr>urPath = (\<lambda>u. u), urFsPath = (\<lambda>u. u), urFile = (\<lambda>p. p)\<rparr>"

section \<open>Contents\<close>

text \<open>What can be read, as one finite map.\<close>

definition contents :: "OverlayFS \<Rightarrow> (uri, bytes) fmap" where
  "contents fs = osDelegate fs ++\<^sub>f fmmap ovContent (osOverlays fs)"

lemma contents_read: "fmlookup (contents fs) u = OverlayFS_ReadFile fs u"
  by (cases "fmlookup (osOverlays fs) u")
    (simp_all add: contents_def OverlayFS_ReadFile_def memFS_ReadFile_def fmlookup_dom_iff)

lemma contents_exists: "OverlayFS_Exists api fs path \<longleftrightarrow> fmlookup (contents fs) (urFile api path) \<noteq> None"
  by (cases "fmlookup (osOverlays fs) (urFile api path)")
    (auto simp: contents_def OverlayFS_Exists_def memFS_Exists_def fmlookup_dom_iff)

end
