(* ===== verification/Session.thy ===== *)
theory Session imports FileSource
begin

text \<open>
  The session, \<open>store/session.go\<close>: the views of the workspace folders, the cache of
  the view of each file, and the overlay of open files. A view object is identified by
  a number, which stands for its pointer; the view of \<open>View\<close> is its state. The lock of
  the session makes every operation atomic.
\<close>

section \<open>Data\<close>

record view_object =
  voId :: nat
  voFolder :: uri
  voIncludePaths :: "bytes list"
  voView :: View

record Session =
  ssViews :: "view_object list"
  ssViewMap :: "(uri, nat) fmap"
  ssSource :: OverlayFS
  ssNextId :: nat

definition NewSession :: "memFS \<Rightarrow> Session" where
  "NewSession fs = \<lparr>ssViews = [], ssViewMap = fmempty, ssSource = NewOverlayFS fs, ssNextId = 0\<rparr>"

section \<open>Views\<close>

definition ContainsFile :: "uri_api \<Rightarrow> view_object \<Rightarrow> uri \<Rightarrow> bool" where
  "ContainsFile api v u =
     (let folder = urPath api (voFolder v); file = urPath api u in
      if \<not> HasPrefix file folder then False
      else (let folder = TrimSuffix folder ''/''; file = TrimPrefix file folder in HasPrefix file ''/''))"

definition AddView :: "uri \<Rightarrow> bytes list \<Rightarrow> Session \<Rightarrow> view_object \<times> Session" where
  "AddView folder includePaths s =
     (case find (\<lambda>v. voFolder v = folder) (ssViews s) of
        Some v \<Rightarrow> (v, s)
      | None \<Rightarrow>
          (let v = \<lparr>voId = ssNextId s, voFolder = folder, voIncludePaths = includePaths, voView = NewView\<rparr> in
           (v, s\<lparr>ssViews := ssViews s @ [v], ssViewMap := fmempty, ssNextId := Suc (ssNextId s)\<rparr>)))"

text \<open>The view that is dropped is returned too: asynchronous work may still hold it.\<close>

fun remove_view :: "uri \<Rightarrow> view_object list \<Rightarrow> (view_object \<times> view_object list) option" where
  "remove_view folder [] = None"
| "remove_view folder (v # vs) =
     (if voFolder v \<noteq> folder then map_option (\<lambda>(w, ws). (w, v # ws)) (remove_view folder vs) else Some (v, vs))"

definition RemoveView :: "uri \<Rightarrow> Session \<Rightarrow> view_object option \<times> Session" where
  "RemoveView folder s =
     (case remove_view folder (ssViews s) of
        None \<Rightarrow> (None, s)
      | Some (v, vs) \<Rightarrow>
          (Some (v\<lparr>voView := Evict (KnownFiles (voView v)) (voView v)\<rparr>),
           s\<lparr>ssViews := vs, ssViewMap := fmfilter (\<lambda>f. fmlookup (ssViewMap s) f \<noteq> Some (voId v)) (ssViewMap s)\<rparr>))"

definition Views :: "Session \<Rightarrow> view_object list" where
  "Views s = ssViews s"

definition deref_view :: "Session \<Rightarrow> nat \<Rightarrow> view_object option" where
  "deref_view s i = find (\<lambda>v. voId v = i) (ssViews s)"

definition better :: "uri_api \<Rightarrow> uri \<Rightarrow> view_object \<Rightarrow> view_object option \<Rightarrow> view_object option" where
  "better api u v best =
     (if \<not> ContainsFile api v u then best
      else (case best of
          None \<Rightarrow> Some v
        | Some b \<Rightarrow> if length (urPath api (voFolder v)) > length (urPath api (voFolder b)) then Some v else best))"

definition best_view :: "uri_api \<Rightarrow> uri \<Rightarrow> view_object list \<Rightarrow> view_object option" where
  "best_view api u vs = fold (better api u) vs None"

text \<open>The identity of the view, or the error for a session without views.\<close>

definition ViewOf :: "uri_api \<Rightarrow> uri \<Rightarrow> Session \<Rightarrow> nat option \<times> Session" where
  "ViewOf api u s =
     (case fmlookup (ssViewMap s) u of
        Some i \<Rightarrow> (Some i, s)
      | None \<Rightarrow>
          (case ssViews s of
             [] \<Rightarrow> (None, s)
           | first # _ \<Rightarrow>
               (case best_view api u (ssViews s) of
                  Some v \<Rightarrow> (Some (voId v), s\<lparr>ssViewMap := fmupd u (voId v) (ssViewMap s)\<rparr>)
                | None \<Rightarrow>
                    (case find (\<lambda>v. FileKnown (voView v) u) (ssViews s) of
                       Some v \<Rightarrow> (Some (voId v), s\<lparr>ssViewMap := fmupd u (voId v) (ssViewMap s)\<rparr>)
                     | None \<Rightarrow> (Some (voId first), s)))))"

text \<open>The views read through the overlay of the session.\<close>

definition Session_WalkFiles :: "uri_api \<Rightarrow> Session \<Rightarrow> uri \<Rightarrow> uri list" where
  "Session_WalkFiles api s root = OverlayFS_WalkFiles api (ssSource s) root"

definition OpenDisk :: "uri_api \<Rightarrow> memFS \<Rightarrow> bytes list \<Rightarrow> bytes \<Rightarrow> bytes list \<Rightarrow> Session \<times> view_object \<times> uri list" where
  "OpenDisk api disk files folder includePaths =
     (let (v, sess) = AddView (urFile api folder) includePaths (NewSession disk) in
      (sess, v, map (urFile api) files))"

section \<open>Runs of a session\<close>

text \<open>
  The operations of a session in any order. A view changes its own state, by any of its
  operations, while the session runs: the step for this allows every new state.
\<close>

inductive session_step :: "uri_api \<Rightarrow> Session \<Rightarrow> Session \<Rightarrow> bool" for api :: uri_api where
  add: "session_step api s (snd (AddView folder includePaths s))"
| remove: "session_step api s (snd (RemoveView folder s))"
| lookup: "session_step api s (snd (ViewOf api u s))"
| overlay: "session_step api s (s\<lparr>ssSource := OverlayFS_Update changes (ssSource s)\<rparr>)"
| view: "session_step api s (s\<lparr>ssViews := map (\<lambda>v. if voId v = i then v\<lparr>voView := w\<rparr> else v) (ssViews s)\<rparr>)"

inductive session_reachable :: "uri_api \<Rightarrow> memFS \<Rightarrow> Session \<Rightarrow> bool" for api :: uri_api and disk :: memFS where
  start: "session_reachable api disk (NewSession disk)"
| step: "session_reachable api disk s \<Longrightarrow> session_step api s s' \<Longrightarrow> session_reachable api disk s'"

inductive_cases session_step_cases [consumes 1, case_names add remove lookup overlay view]: "session_step api s s'"

end
