(* ===== verification/SessionProps.thy ===== *)
theory SessionProps imports Session
begin

text \<open>
  The cache of a session is transparent: in every reachable session a file is routed to
  the view of the longest folder that contains it, and never to a view that is gone.
\<close>

section \<open>The best view\<close>

definition folder_length :: "uri_api \<Rightarrow> view_object \<Rightarrow> nat" where
  "folder_length api v = length (urPath api (voFolder v))"

definition best_at :: "uri_api \<Rightarrow> uri \<Rightarrow> view_object list \<Rightarrow> view_object \<Rightarrow> bool" where
  "best_at api u vs b \<longleftrightarrow>
     (\<exists>as cs. vs = as @ b # cs \<and> ContainsFile api b u \<and>
       (\<forall>a\<in>set as. ContainsFile api a u \<longrightarrow> folder_length api a < folder_length api b) \<and>
       (\<forall>c\<in>set cs. ContainsFile api c u \<longrightarrow> folder_length api c \<le> folder_length api b))"

lemma best_view_snoc: "best_view api u (vs @ [v]) = better api u v (best_view api u vs)"
  by (simp add: best_view_def)

lemma best_view_None: "best_view api u vs = None \<longleftrightarrow> (\<forall>v\<in>set vs. \<not> ContainsFile api v u)"
proof (induction vs rule: rev_induct)
  case (snoc v vs)
  then show ?case by (auto simp: best_view_snoc better_def split: option.splits)
qed (simp add: best_view_def)

lemma best_view_at: "best_view api u vs = Some b \<Longrightarrow> best_at api u vs b"
proof (induction vs arbitrary: b rule: rev_induct)
  case (snoc v vs)
  show ?case
  proof (cases "ContainsFile api v u \<and> (\<forall>c. best_view api u vs = Some c \<longrightarrow> folder_length api c < folder_length api v)")
    case True
    then have b: "b = v" using snoc.prems
      by (auto simp: best_view_snoc better_def folder_length_def split: option.splits if_splits)
    have "\<forall>a\<in>set vs. ContainsFile api a u \<longrightarrow> folder_length api a < folder_length api v"
    proof (cases "best_view api u vs")
      case None
      then show ?thesis by (simp add: best_view_None)
    next
      case (Some c)
      then obtain as cs where "vs = as @ c # cs" "\<forall>a\<in>set as. ContainsFile api a u \<longrightarrow> folder_length api a < folder_length api c"
        "\<forall>a\<in>set cs. ContainsFile api a u \<longrightarrow> folder_length api a \<le> folder_length api c"
        using snoc.IH unfolding best_at_def by blast
      then show ?thesis using True Some by fastforce
    qed
    then show ?thesis unfolding best_at_def b using True by (intro exI[of _ vs] exI[of _ "[]"]) simp
  next
    case False
    then have b: "best_view api u vs = Some b" and v: "ContainsFile api v u \<longrightarrow> folder_length api v \<le> folder_length api b"
      using snoc.prems by (auto simp: best_view_snoc better_def folder_length_def split: option.splits if_splits)
    obtain as cs where "vs = as @ b # cs" "ContainsFile api b u"
      "\<forall>a\<in>set as. ContainsFile api a u \<longrightarrow> folder_length api a < folder_length api b"
      "\<forall>c\<in>set cs. ContainsFile api c u \<longrightarrow> folder_length api c \<le> folder_length api b"
      using snoc.IH[OF b] unfolding best_at_def by blast
    then show ?thesis unfolding best_at_def using v by (intro exI[of _ as] exI[of _ "cs @ [v]"]) auto
  qed
qed (simp add: best_view_def)

lemma best_view_keep:
  "\<forall>c\<in>set cs. ContainsFile api c u \<longrightarrow> folder_length api c \<le> folder_length api b \<Longrightarrow>
   fold (better api u) cs (Some b) = Some b"
  by (induction cs) (auto simp: better_def folder_length_def)

lemma best_at_view: "best_at api u vs b \<Longrightarrow> best_view api u vs = Some b"
proof -
  assume "best_at api u vs b"
  then obtain as cs where vs: "vs = as @ b # cs" "ContainsFile api b u"
      "\<forall>a\<in>set as. ContainsFile api a u \<longrightarrow> folder_length api a < folder_length api b"
      "\<forall>c\<in>set cs. ContainsFile api c u \<longrightarrow> folder_length api c \<le> folder_length api b"
    unfolding best_at_def by blast
  have "best_view api u as = None \<or> (\<exists>a\<in>set as. best_view api u as = Some a \<and> ContainsFile api a u)"
    using best_view_at[of api u as] by (cases "best_view api u as") (auto simp: best_at_def)
  then have "better api u b (best_view api u as) = Some b"
    using vs(2,3) by (auto simp: better_def folder_length_def split: option.splits)
  then show ?thesis using best_view_keep[OF vs(4)] by (simp add: vs(1) best_view_def)
qed

lemma best_view_iff: "best_view api u vs = Some b \<longleftrightarrow> best_at api u vs b"
  using best_view_at best_at_view by blast

lemma best_at_remove: "best_at api u (xs @ v # ys) b \<Longrightarrow> b \<noteq> v \<Longrightarrow> best_at api u (xs @ ys) b"
proof -
  assume "best_at api u (xs @ v # ys) b" "b \<noteq> v"
  then obtain as cs where d: "xs @ v # ys = as @ b # cs" "ContainsFile api b u"
      "\<forall>a\<in>set as. ContainsFile api a u \<longrightarrow> folder_length api a < folder_length api b"
      "\<forall>c\<in>set cs. ContainsFile api c u \<longrightarrow> folder_length api c \<le> folder_length api b"
    unfolding best_at_def by blast
  from d(1) \<open>b \<noteq> v\<close> consider zs where "xs = as @ b # zs" "cs = zs @ v # ys" | zs where "as = xs @ v # zs" "ys = zs @ b # cs"
    by (auto simp: append_eq_append_conv2 Cons_eq_append_conv append_eq_Cons_conv)
  then show ?thesis
  proof cases
    case 1
    then show ?thesis unfolding best_at_def using d by (intro exI[of _ as] exI[of _ "zs @ ys"]) auto
  next
    case 2
    then show ?thesis unfolding best_at_def using d by (intro exI[of _ "xs @ zs"] exI[of _ cs]) auto
  qed
qed

lemma best_view_map:
  assumes "\<And>v. voFolder (g v) = voFolder v"
  shows "best_view api u (map g vs) = map_option g (best_view api u vs)"
proof (induction vs rule: rev_induct)
  case (snoc v vs)
  then show ?case
    by (simp add: best_view_snoc better_def ContainsFile_def assms split: option.splits)
qed (simp add: best_view_def)

lemma find_mem: "find P xs = Some x \<Longrightarrow> x \<in> set xs \<and> P x"
  by (auto simp: find_Some_iff in_set_conv_nth)

section \<open>The invariant\<close>

definition session_ok :: "uri_api \<Rightarrow> Session \<Rightarrow> bool" where
  "session_ok api s \<longleftrightarrow>
     distinct (map voId (ssViews s)) \<and> (\<forall>v\<in>set (ssViews s). voId v < ssNextId s) \<and>
     distinct (map voFolder (ssViews s)) \<and>
     (\<forall>u i. fmlookup (ssViewMap s) u = Some i \<longrightarrow>
       (\<exists>v\<in>set (ssViews s). voId v = i \<and> (best_view api u (ssViews s) = Some v \<or> best_view api u (ssViews s) = None)))"

lemma remove_view_split:
  "remove_view folder vs = Some (v, ws) \<Longrightarrow> \<exists>as cs. vs = as @ v # cs \<and> ws = as @ cs \<and> voFolder v = folder"
proof (induction vs arbitrary: ws)
  case (Cons x vs)
  show ?case
  proof (cases "voFolder x = folder")
    case False
    then obtain ws' where w: "remove_view folder vs = Some (v, ws')" "ws = x # ws'" using Cons.prems by auto
    from Cons.IH[OF w(1)] obtain as cs where "vs = as @ v # cs" "ws' = as @ cs" "voFolder v = folder" by blast
    then show ?thesis using w by (intro exI[of _ "x # as"] exI[of _ cs]) simp
  qed (use Cons.prems in \<open>auto intro: exI[of _ "[]"]\<close>)
qed simp

lemma AddView_ok: "session_ok api s \<Longrightarrow> session_ok api (snd (AddView folder includePaths s))"
  by (auto simp: session_ok_def AddView_def Let_def find_None_iff less_SucI split: option.splits)

lemma RemoveView_ok: "session_ok api s \<Longrightarrow> session_ok api (snd (RemoveView folder s))"
proof (cases "remove_view folder (ssViews s)")
  case (Some r)
  assume s_ok: "session_ok api s"
  obtain v ws where r: "r = (v, ws)" by fastforce
  from remove_view_split[OF Some[unfolded r]] obtain as cs where vs: "ssViews s = as @ v # cs" "ws = as @ cs" by blast
  let ?s = "snd (RemoveView folder s)"
  have s': "ssViews ?s = as @ cs" "ssNextId ?s = ssNextId s"
    "ssViewMap ?s = fmfilter (\<lambda>f. fmlookup (ssViewMap s) f \<noteq> Some (voId v)) (ssViewMap s)"
    using Some r vs by (simp_all add: RemoveView_def)
  have "\<exists>w\<in>set (as @ cs). voId w = i \<and> (best_view api u (as @ cs) = Some w \<or> best_view api u (as @ cs) = None)"
    if "fmlookup (ssViewMap ?s) u = Some i" for u i
  proof -
    have i: "fmlookup (ssViewMap s) u = Some i" "i \<noteq> voId v" using that by (auto simp: s' split: if_splits)
    then obtain w where w: "w \<in> set (as @ v # cs)" "voId w = i"
      "best_view api u (as @ v # cs) = Some w \<or> best_view api u (as @ v # cs) = None"
      using s_ok unfolding session_ok_def vs(1) by metis
    have "w \<noteq> v" using w i by auto
    then show ?thesis using w best_at_remove[of api u as v cs w] by (auto simp: best_view_iff best_view_None)
  qed
  then show ?thesis using s_ok unfolding session_ok_def s' vs by auto
qed (simp add: RemoveView_def)

lemma ViewOf_ok: "session_ok api s \<Longrightarrow> session_ok api (snd (ViewOf api u s))"
proof -
  assume s_ok: "session_ok api s"
  have add: "session_ok api (s\<lparr>ssViewMap := fmupd u (voId v) (ssViewMap s)\<rparr>)"
    if "v \<in> set (ssViews s)" "best_view api u (ssViews s) = Some v \<or> best_view api u (ssViews s) = None" for v
    using s_ok that unfolding session_ok_def by auto
  have "v \<in> set (ssViews s)" if "best_view api u (ssViews s) = Some v" for v
    using best_view_at[OF that] by (auto simp: best_at_def)
  moreover have "v \<in> set (ssViews s)" if "find (\<lambda>v. FileKnown (voView v) u) (ssViews s) = Some v" for v
    using that by (auto simp: find_Some_iff in_set_conv_nth)
  ultimately show ?thesis using s_ok add
    by (auto simp: ViewOf_def split: option.splits list.splits)
qed

lemma change_view_ok:
  assumes "session_ok api s" "\<And>v. voFolder (g v) = voFolder v" "\<And>v. voId (g v) = voId v"
  shows "session_ok api (s\<lparr>ssViews := map g (ssViews s)\<rparr>)"
proof -
  have "map voId (map g (ssViews s)) = map voId (ssViews s)" "map voFolder (map g (ssViews s)) = map voFolder (ssViews s)"
    by (simp_all add: assms)
  then show ?thesis using assms(1) unfolding session_ok_def
    by (simp add: best_view_map assms del: map_map) blast
qed

lemma session_step_ok: "session_step api s s' \<Longrightarrow> session_ok api s \<Longrightarrow> session_ok api s'"
proof (induction rule: session_step.induct)
  case (view s i w)
  then show ?case by (intro change_view_ok) auto
qed (simp_all add: AddView_ok RemoveView_ok ViewOf_ok, simp add: session_ok_def)

lemma reachable_session_ok: "session_reachable api disk s \<Longrightarrow> session_ok api s"
proof (induction rule: session_reachable.induct)
  case start
  then show ?case by (simp add: session_ok_def NewSession_def)
next
  case (step s s')
  then show ?case using session_step_ok by blast
qed

lemma deref_unique: "distinct (map voId (ssViews s)) \<Longrightarrow> v \<in> set (ssViews s) \<Longrightarrow> deref_view s (voId v) = Some v"
proof -
  assume d: "distinct (map voId (ssViews s))" and v: "v \<in> set (ssViews s)"
  have "deref_view s (voId v) \<noteq> None" using v by (auto simp: deref_view_def find_None_iff)
  then obtain w where w: "deref_view s (voId v) = Some w" by blast
  then have "w \<in> set (ssViews s)" "voId w = voId v" by (auto simp: deref_view_def dest!: find_mem)
  then show ?thesis using w v d by (simp add: distinct_map inj_on_def)
qed

text \<open>
  C16: a session routes files to the right view. Whatever was added, removed, opened,
  looked up or changed before, and whatever the cache holds, \<open>ViewOf\<close> fails exactly when
  there is no view; the view it returns is one of the session; and if some folder contains
  the file, it is the view of the longest such folder, the oldest on ties.
\<close>

theorem ViewOf_routes:
  assumes "session_reachable api disk s"
  shows "case fst (ViewOf api u s) of
     None \<Rightarrow> ssViews s = []
   | Some i \<Rightarrow> \<exists>v\<in>set (ssViews s). deref_view s i = Some v \<and>
       (best_at api u (ssViews s) v \<or> (\<forall>w\<in>set (ssViews s). \<not> ContainsFile api w u))"
proof -
  have s_ok: "session_ok api s" by (rule reachable_session_ok) fact
  then have d: "distinct (map voId (ssViews s))" by (simp add: session_ok_def)
  have "\<exists>v\<in>set (ssViews s). voId v = i \<and> (best_at api u (ssViews s) v \<or> best_view api u (ssViews s) = None)"
    if "fst (ViewOf api u s) = Some i" for i
  proof (cases "fmlookup (ssViewMap s) u")
    case (Some j)
    then have "i = j" using that by (simp add: ViewOf_def)
    then show ?thesis using Some s_ok best_view_iff unfolding session_ok_def by metis
  next
    case None
    show ?thesis
    proof (cases "best_view api u (ssViews s)")
      case (Some v)
      then have "best_at api u (ssViews s) v" by (simp add: best_view_iff)
      moreover from this have "v \<in> set (ssViews s)" by (auto simp: best_at_def)
      ultimately show ?thesis using that None Some by (auto simp: ViewOf_def split: list.splits)
    next
      case none: None
      then have "\<exists>v\<in>set (ssViews s). voId v = i" using that None
        by (auto simp: ViewOf_def simp del: find.simps dest!: find_mem split: list.splits option.splits)
      then show ?thesis using none by blast
    qed
  qed
  moreover have "fst (ViewOf api u s) = None \<Longrightarrow> ssViews s = []"
    by (auto simp: ViewOf_def split: option.splits list.splits)
  ultimately show ?thesis using deref_unique[OF d] best_view_None[of api u "ssViews s"]
    by (fastforce split: option.splits)
qed

definition demo_session :: Session where
  "demo_session = snd (AddView ''/w/a'' [] (snd (AddView ''/w'' [] (NewSession fmempty))))"

lemma demo_session_reachable: "session_reachable api fmempty demo_session"
  unfolding demo_session_def
  by (rule session_reachable.step[OF session_reachable.step[OF session_reachable.start session_step.add] session_step.add])

lemma ViewOf_routes_witness:
  "fst (ViewOf plain_uris ''/w/a/x.thrift'' demo_session) = Some 1 \<and>
   (\<exists>v\<in>set (ssViews demo_session). deref_view demo_session 1 = Some v \<and>
     (best_at plain_uris ''/w/a/x.thrift'' (ssViews demo_session) v \<or>
      (\<forall>w\<in>set (ssViews demo_session). \<not> ContainsFile plain_uris w ''/w/a/x.thrift'')))"
proof -
  have 1: "fst (ViewOf plain_uris ''/w/a/x.thrift'' demo_session) = Some 1"
    by (simp add: demo_session_def AddView_def NewSession_def ViewOf_def best_view_def better_def ContainsFile_def
        HasPrefix_def TrimSuffix_def HasSuffix_def TrimPrefix_def plain_uris_def Let_def)
  show ?thesis using ViewOf_routes[OF demo_session_reachable, of plain_uris "''/w/a/x.thrift''"] by (simp only: 1 option.case)
qed

end
