(* ===== verification/Strconv.thy ===== *)
theory Strconv imports Prelude
begin

text \<open>
  What the code uses of Go's package \<open>strconv\<close>: \<open>ParseInt\<close> with base 0 and
  \<open>FormatInt\<close> with base 10.
\<close>

datatype num_error = ErrSyntax | ErrRange

text \<open>\<open>lower\<close> sets the bit that distinguishes the cases of a letter.\<close>

definition lower_byte :: "char \<Rightarrow> char" where
  "lower_byte c = (if CHR ''A'' \<le> c \<and> c \<le> CHR ''Z'' then char_of (byte c + 32) else c)"

definition digit_value :: "char \<Rightarrow> int option" where
  "digit_value c =
     (if CHR ''0'' \<le> c \<and> c \<le> CHR ''9'' then Some (int (byte c) - 48)
      else if CHR ''a'' \<le> lower_byte c \<and> lower_byte c \<le> CHR ''z'' then Some (int (byte (lower_byte c)) - 97 + 10)
      else None)"

text \<open>The loop of \<open>ParseUint\<close> up to a largest value: the value and whether there were underscores.\<close>

fun parse_digits :: "int \<Rightarrow> int \<Rightarrow> bytes \<Rightarrow> int \<Rightarrow> bool \<Rightarrow> num_error + int \<times> bool" where
  "parse_digits base maxVal [] n underscores = Inr (n, underscores)"
| "parse_digits base maxVal (c # s) n underscores =
     (if c = CHR ''_'' then parse_digits base maxVal s n True
      else (case digit_value c of
          None \<Rightarrow> Inl ErrSyntax
        | Some d \<Rightarrow>
            (if d \<ge> base then Inl ErrSyntax
             else if n * base + d > maxVal then Inl ErrRange
             else parse_digits base maxVal s (n * base + d) underscores)))"

text \<open>Underscores separate digits only; the second component remembers what stood before.\<close>

datatype last_seen = Seen_start | Seen_digit | Seen_underscore | Seen_other

fun underscore_loop :: "bool \<Rightarrow> bytes \<Rightarrow> last_seen \<Rightarrow> bool" where
  "underscore_loop hex [] i \<longleftrightarrow> i \<noteq> Seen_underscore"
| "underscore_loop hex (c # s) i \<longleftrightarrow>
     (if CHR ''0'' \<le> c \<and> c \<le> CHR ''9'' \<or> hex \<and> CHR ''a'' \<le> lower_byte c \<and> lower_byte c \<le> CHR ''f''
      then underscore_loop hex s Seen_digit
      else if c = CHR ''_'' then i = Seen_digit \<and> underscore_loop hex s Seen_underscore
      else i \<noteq> Seen_underscore \<and> underscore_loop hex s Seen_other)"

definition strip_sign :: "bytes \<Rightarrow> bool \<times> bytes" where
  "strip_sign s =
     (case s of
        [] \<Rightarrow> (False, [])
      | c # r \<Rightarrow> if c = CHR ''+'' then (False, r) else if c = CHR ''-'' then (True, r) else (False, s))"

definition base_prefix :: "bytes \<Rightarrow> int option" where
  "base_prefix s =
     (if length s \<ge> 2 \<and> s ! 0 = CHR ''0''
      then (let c = lower_byte (s ! 1) in
        if c = CHR ''b'' then Some 2 else if c = CHR ''o'' then Some 8 else if c = CHR ''x'' then Some 16 else None)
      else None)"

definition underscoreOK :: "bytes \<Rightarrow> bool" where
  "underscoreOK s =
     (let s = snd (strip_sign s) in
      case base_prefix s of
        Some b \<Rightarrow> underscore_loop (b = 16) (drop 2 s) Seen_digit
      | None \<Rightarrow> underscore_loop False s Seen_start)"

definition ParseUint :: "bytes \<Rightarrow> nat \<Rightarrow> num_error + int" where
  "ParseUint s bitSize =
     (if s = [] then Inl ErrSyntax
      else
        (let (base, digits) =
           (if s ! 0 = CHR ''0''
            then (case base_prefix s of
                Some b \<Rightarrow> if length s \<ge> 3 then (b, drop 2 s) else (8, drop 1 s)
              | None \<Rightarrow> (8, drop 1 s))
            else (10, s)) in
         case parse_digits base (2 ^ bitSize - 1) digits 0 False of
           Inl e \<Rightarrow> Inl e
         | Inr (n, underscores) \<Rightarrow> if underscores \<and> \<not> underscoreOK s then Inl ErrSyntax else Inr n))"

definition ParseInt :: "bytes \<Rightarrow> nat \<Rightarrow> num_error + int" where
  "ParseInt s bitSize =
     (if s = [] then Inl ErrSyntax
      else
        (let (neg, digits) = strip_sign s in
         case ParseUint digits bitSize of
           Inl e \<Rightarrow> Inl e
         | Inr un \<Rightarrow>
             (if \<not> neg \<and> un \<ge> 2 ^ (bitSize - 1) then Inl ErrRange
              else if neg \<and> un > 2 ^ (bitSize - 1) then Inl ErrRange
              else Inr (if neg then - un else un))))"

lemma digit_value_pos: "digit_value c = Some d \<Longrightarrow> 0 \<le> d"
proof -
  have "48 \<le> byte x" if "CHR ''0'' \<le> x" for x using that by (simp add: byte_def less_eq_char_def)
  moreover have "97 \<le> byte x" if "CHR ''a'' \<le> x" for x using that by (simp add: byte_def less_eq_char_def)
  ultimately show "digit_value c = Some d \<Longrightarrow> 0 \<le> d"
    by (fastforce simp: digit_value_def split: if_splits)
qed

lemma parse_digits_pos: "parse_digits base maxVal s n u = Inr (m, v) \<Longrightarrow> 0 \<le> n \<Longrightarrow> 0 \<le> base \<Longrightarrow> 0 \<le> m"
  by (induction base maxVal s n u rule: parse_digits.induct)
    (auto split: if_splits option.splits dest: digit_value_pos)

lemma ParseUint_pos: "ParseUint s bitSize = Inr n \<Longrightarrow> 0 \<le> n"
  by (auto simp: ParseUint_def base_prefix_def Let_def dest!: parse_digits_pos
      split: if_splits option.splits sum.splits prod.splits)

lemma ParseInt_range:
  "ParseInt s bitSize = Inr n \<Longrightarrow> - (2 ^ (bitSize - 1)) \<le> n \<and> n < 2 ^ (bitSize - 1)"
proof -
  assume ok: "ParseInt s bitSize = Inr n"
  obtain neg digits where sign: "strip_sign s = (neg, digits)" by fastforce
  obtain un where un: "ParseUint digits bitSize = Inr un"
    using ok by (auto simp: ParseInt_def sign split: if_splits sum.splits)
  have "0 \<le> un" "(0::int) < 2 ^ (bitSize - Suc 0)" using ParseUint_pos[OF un] by simp_all
  then have "- un < 2 ^ (bitSize - Suc 0)" by linarith
  then show ?thesis using ok \<open>0 \<le> un\<close> by (auto simp: ParseInt_def sign un split: if_splits)
qed

section \<open>Printing\<close>

function int_digits :: "int \<Rightarrow> bytes" where
  "int_digits n =
     (if n < 10 then [char_of (48 + n)] else int_digits (n div 10) @ [char_of (48 + n mod 10)])"
  by pat_completeness auto
termination
  by (relation "measure nat") auto

declare int_digits.simps [simp del]

definition FormatInt :: "int \<Rightarrow> bytes" where
  "FormatInt n = (if n < 0 then ''-'' @ int_digits (- n) else int_digits n)"

end
