(* ===== verification/Sema.thy ===== *)
theory Sema imports FixApply FileSource FileIndex Strconv
begin

text \<open>
  The vocabulary of the semantic analysis: diagnostics, spans and actions
  (\<open>sema/sema.go\<close>, \<open>sema/span.go\<close>, \<open>sema/codes.go\<close>), enum values (\<open>sema/enum.go\<close>),
  include names (\<open>sema/name.go\<close>) and basic types (\<open>sema/utils.go\<close>). A panic is \<open>None\<close>.
\<close>

section \<open>Diagnostics\<close>

definition CodeParseError :: bytes where "CodeParseError = ''parse-error''"
definition CodeIncludeCycle :: bytes where "CodeIncludeCycle = ''include-cycle''"
definition CodeFieldIDRange :: bytes where "CodeFieldIDRange = ''field-id-range''"
definition CodeFieldIDConflict :: bytes where "CodeFieldIDConflict = ''field-id-conflict''"
definition CodeDuplicateDef :: bytes where "CodeDuplicateDef = ''duplicate-definition''"
definition CodeDuplicateEnumVal :: bytes where "CodeDuplicateEnumVal = ''duplicate-enum-value''"
definition CodeDuplicateValue :: bytes where "CodeDuplicateValue = ''duplicate-value''"
definition CodeImplicitEnumValue :: bytes where "CodeImplicitEnumValue = ''implicit-enum-value''"
definition CodeUnusedInclude :: bytes where "CodeUnusedInclude = ''unused-include''"
definition CodeIncludeShadow :: bytes where "CodeIncludeShadow = ''include-shadow''"
definition CodeUndefinedType :: bytes where "CodeUndefinedType = ''undefined-type''"
definition CodeUndefinedValue :: bytes where "CodeUndefinedValue = ''undefined-value''"
definition CodeValueTypeMismatch :: bytes where "CodeValueTypeMismatch = ''value-type-mismatch''"
definition CodeNonScalarMapKey :: bytes where "CodeNonScalarMapKey = ''non-scalar-map-key''"
definition CodeUnknownAnnotation :: bytes where "CodeUnknownAnnotation = ''unknown-annotation-type''"

datatype DiagSeverity = DiagError | DiagWarning | DiagInfo | DiagHint

record Diagnostic =
  diCode :: bytes
  diSeverity :: DiagSeverity
  diMessage :: message
  diSpan :: Span
  diFixes :: "Fix list"

text \<open>A report keeps a list for every file that was ever added to.\<close>

type_synonym Report = "uri \<rightharpoonup> Diagnostic list"

record Action =
  acTitle :: bytes
  acFix :: bool
  acFile :: uri
  acEdits :: "Edit list"

section \<open>Spans\<close>

definition Overlaps :: "Span \<Rightarrow> Span \<Rightarrow> bool" where
  "Overlaps s t \<longleftrightarrow>
     poOffset (spStart s) \<le> poOffset (spEnd t) \<and> poOffset (spStart t) \<le> poOffset (spEnd s)"

definition SpanOf :: "ParsedFile \<Rightarrow> Node \<Rightarrow> Span option" where
  "SpanOf pf n = map_option (\<lambda>(s, e). \<lparr>spStart = s, spEnd = e\<rparr>) (Range (pfAst pf) (A_Node n))"

definition zero_span :: Span where
  "zero_span = \<lparr>spStart = InvalidPosition, spEnd = InvalidPosition\<rparr>"

text \<open>A pointer to a token is its index in the stream.\<close>

definition TokenSpan :: "Token list \<Rightarrow> nat option \<Rightarrow> Span" where
  "TokenSpan toks t =
     (case t of
        None \<Rightarrow> zero_span
      | Some i \<Rightarrow>
          (let tok = toks ! i in
           \<lparr>spStart = \<lparr>poLine = tkLine tok, poCol = tkCol tok, poOffset = tkOffset tok\<rparr>,
            spEnd = \<lparr>poLine = tkLine tok, poCol = tkCol tok + rune_count (tkText tok),
              poOffset = tkOffset tok + length (tkText tok)\<rparr>\<rparr>))"

fun back_to_line :: "bytes \<Rightarrow> nat \<Rightarrow> nat" where
  "back_to_line content 0 = 0"
| "back_to_line content (Suc n) = (if content ! n \<noteq> LF then back_to_line content n else Suc n)"

definition forward_to_line :: "bytes \<Rightarrow> nat \<Rightarrow> nat" where
  "forward_to_line content n = n + length (takeWhile (\<lambda>c. c \<noteq> LF) (drop n content))"

definition LineSpan :: "bytes \<Rightarrow> Position \<Rightarrow> Span option" where
  "LineSpan content pos =
     (if poOffset pos > length content then None
      else
        (let start = back_to_line content (poOffset pos);
             stop = forward_to_line content (poOffset pos);
             stop = (if stop < length content then Suc stop else stop) in
         Some \<lparr>spStart = \<lparr>poLine = poLine pos, poCol = 1, poOffset = start\<rparr>,
           spEnd = \<lparr>poLine = poLine pos + 1, poCol = 1, poOffset = stop\<rparr>\<rparr>))"

section \<open>Enum values\<close>

record EnumMemberValue =
  emMember :: EnumValue
  emValue :: "64 word"
  emKnown :: bool

fun member_values :: "Token list \<Rightarrow> 64 word \<Rightarrow> bool \<Rightarrow> EnumValue list \<Rightarrow> EnumMemberValue list" where
  "member_values toks val known [] = []"
| "member_values toks val known (m # ms) =
     (case evValue m of
        None \<Rightarrow>
          (let val = (if known then val + 1 else val) in
           \<lparr>emMember = m, emValue = val, emKnown = known\<rparr> # member_values toks val known ms)
      | Some t \<Rightarrow>
          (case ParseInt (tkText (toks ! t)) 64 of
             Inl err \<Rightarrow> \<lparr>emMember = m, emValue = 0, emKnown = False\<rparr> # member_values toks val False ms
           | Inr v \<Rightarrow> \<lparr>emMember = m, emValue = word_of_int v, emKnown = True\<rparr> # member_values toks (word_of_int v) True ms))"

definition EnumMemberValues :: "Token list \<Rightarrow> Enum \<Rightarrow> EnumMemberValue list" where
  "EnumMemberValues toks enum = member_values toks (- 1) True (enValues enum)"

definition EnumImplicitValues :: "Token list \<Rightarrow> Enum \<Rightarrow> EnumMemberValue list" where
  "EnumImplicitValues toks enum = filter (\<lambda>mv. evValue (emMember mv) = None) (EnumMemberValues toks enum)"

section \<open>Names\<close>

definition IncludeNameOf :: "uri_api \<Rightarrow> uri \<Rightarrow> bytes" where
  "IncludeNameOf api file =
     (let fileName = path_Base (urPath api file) in
      case cut_last DOT fileName of None \<Rightarrow> fileName | Some (name, _) \<Rightarrow> name)"

definition includeNames :: "uri_api \<Rightarrow> uri \<Rightarrow> Document \<Rightarrow> bytes list" where
  "includeNames api u doc =
     concat (map (\<lambda>inc. let p = PathText (docTokens doc) (Some inc) in
       if p \<noteq> [] then [IncludeNameOf api (urFile api (path_Join (path_Dir (urPath api u)) p))] else []) (Includes doc))"

fun parse_ident :: "bytes list \<Rightarrow> bytes \<Rightarrow> bytes \<times> bytes" where
  "parse_ident [] identifier = ([], identifier)"
| "parse_ident (incName # names) identifier =
     (case CutPrefix identifier (incName @ ''.'') of
        Some after \<Rightarrow> (incName, after)
      | None \<Rightarrow> parse_ident names identifier)"

definition ParseIdent :: "uri_api \<Rightarrow> uri \<Rightarrow> Document \<Rightarrow> bytes \<Rightarrow> bytes \<times> bytes" where
  "ParseIdent api u doc identifier =
     parse_ident (SortStableFunc (\<lambda>a b. int (length b) - int (length a)) (includeNames api u doc)) identifier"

definition splitQualifiedName :: "bytes \<Rightarrow> bytes \<times> bytes" where
  "splitQualifiedName name = (case cut_last DOT name of Some (a, b) \<Rightarrow> (a, b) | None \<Rightarrow> ([], name))"

definition BareName :: "bytes \<Rightarrow> bytes" where
  "BareName name = (case cut_last DOT name of Some (a, b) \<Rightarrow> b | None \<Rightarrow> name)"

datatype DefinitionKind = DefinitionNone | DefinitionStruct | DefinitionUnion | DefinitionException
  | DefinitionEnum | DefinitionTypedef | DefinitionConst | DefinitionEnumValue | DefinitionService

definition basicType :: "bytes list" where
  "basicType = [''bool'', ''byte'', ''i8'', ''i16'', ''i32'', ''i64'', ''double'', ''string'', ''binary'', ''slist'', ''uuid'']"

definition IsBasicType :: "bytes \<Rightarrow> bool" where
  "IsBasicType t \<longleftrightarrow> t \<in> set basicType"

definition TypeReferenceName :: "FieldType option \<Rightarrow> bytes" where
  "TypeReferenceName ft =
     (case ft of
        None \<Rightarrow> []
      | Some ty \<Rightarrow> (case ftIdent ty of
            Some i \<Rightarrow> if ftKind ty = TypeIdent then idText i else []
          | None \<Rightarrow> []))"

end
