(* ===== verification/SemaIndex.thy ===== *)
theory SemaIndex imports Sema
begin

text \<open>
  Cross-file resolution: \<open>sema/index.go\<close> with \<open>definitionFiles\<close> of \<open>sema/utils.go\<close>
  and the interface of \<open>sema/graph.go\<close>, implemented by the view. What a request does not
  change is its environment; the view, whose cache every parse may fill, and the memo
  table of the index are a state that is passed along. No file is ever without a tree,
  since the parser always returns one, and a resolution never returns an error, so these
  cases of the source do not occur; a panic is \<open>None\<close>.
\<close>

section \<open>The environment\<close>

record Env =
  evApi :: uri_api
  evQuote :: "bytes \<Rightarrow> bytes"
  evSource :: OverlayFS
  evIncludePaths :: "bytes list"
  evFolder :: uri
  evGuard :: "nat option"

definition env_files :: "Env \<Rightarrow> files" where
  "env_files env = fmlookup (contents (evSource env))"

definition env_resolver :: "Env \<Rightarrow> resolver" where
  "env_resolver env = ResolveInclude (evApi env) (evIncludePaths env)"

definition env_resolve :: "Env \<Rightarrow> uri \<Rightarrow> bytes \<Rightarrow> uri" where
  "env_resolve env u path = env_resolver env (env_files env) u path"

definition env_parse :: "Env \<Rightarrow> uri \<Rightarrow> View \<Rightarrow> ParsedFile option \<times> View" where
  "env_parse env u v = View_Parse (env_resolver env) (env_files env) (evGuard env) u v"

section \<open>The files to search\<close>

text \<open>What a parse can change: no file is tracked that cannot be read.\<close>

definition reach :: "Env \<Rightarrow> View \<Rightarrow> uri fset" where
  "reach env v = fmdom (vwEntries v) |\<union>| fmdom (contents (evSource env))"

lemma remove_reverse_entries [simp]: "vwEntries (remove_reverse u inc v) = vwEntries v"
  by (simp add: remove_reverse_def Let_def)

lemma fold_remove_reverse_entries [simp]: "vwEntries (fold (remove_reverse u) us v) = vwEntries v"
  by (induction us arbitrary: v) auto

lemma fold_add_edge_entries [simp]: "vwEntries (fold (add_edge u) us v) = vwEntries v"
  by (induction us arbitrary: v) (auto simp: add_edge_def)

lemma setEntry_entries [simp]: "vwEntries (setEntry u e incs v) = fmupd u e (vwEntries v)"
  by (simp add: setEntry_def removeEdgesLocked_def Let_def)

lemma parse_start_readable: "parse_start r fs g n u = Some j \<Longrightarrow> fs u \<noteq> None \<and> jbUri j = u"
  by (auto simp: parse_start_def bind_eq_Some_conv)

lemma env_files_dom: "env_files env u \<noteq> None \<longleftrightarrow> u |\<in>| fmdom (contents (evSource env))"
  by (simp add: env_files_def fmlookup_dom_iff)

lemma env_parse_reach:
  assumes "env_parse env u v = (pf, v')"
  shows "reach env v' = reach env v" "pf \<noteq> None \<Longrightarrow> u |\<in>| reach env v"
proof -
  have "reach env v' = reach env v \<and> (pf \<noteq> None \<longrightarrow> u |\<in>| reach env v)"
  proof (cases "parsed v u")
    case (Some p)
    then have "u |\<in>| fmdom (vwEntries v)" by (simp add: parsed_def fmlookup_dom_iff split: option.splits)
    then show ?thesis using assms Some by (simp add: env_parse_def View_Parse_def reach_def)
  next
    case none: None
    show ?thesis
    proof (cases "parse_start (env_resolver env) (env_files env) (evGuard env) (vwGen v) u")
      case None
      then show ?thesis using assms none by (simp add: env_parse_def View_Parse_def)
    next
      case (Some j)
      then have v': "v' = parse_commit j v" using assms none by (simp add: env_parse_def View_Parse_def)
      have "u |\<in>| fmdom (contents (evSource env))" "jbUri j = u"
        using parse_start_readable[OF Some] env_files_dom[of env u] by simp_all
      then show ?thesis by (auto simp: v' reach_def parse_commit_def)
    qed
  qed
  then show "reach env v' = reach env v" "pf \<noteq> None \<Longrightarrow> u |\<in>| reach env v" by simp_all
qed

text \<open>The include statements of a file, still to be visited.\<close>

definition include_work :: "uri \<Rightarrow> Document \<Rightarrow> (uri \<times> bytes) list" where
  "include_work u doc =
     concat (map (\<lambda>inc. let p = PathText (docTokens doc) (Some inc) in if p \<noteq> [] then [(u, p)] else []) (Includes doc))"

text \<open>
  \<open>visit\<close> with an explicit stack of the statements that the calls still open have to
  visit. The seen files are those of the result.
\<close>

function visit_includes :: "Env \<Rightarrow> View \<Rightarrow> (uri \<times> bytes) list \<Rightarrow> uri list \<Rightarrow> uri list \<times> View" where
  "visit_includes env v [] files = (files, v)"
| "visit_includes env v ((u, path) # work) files =
     (let incFile = env_resolve env u path in
      if incFile \<in> set files then visit_includes env v work files
      else
        (let (pf, v) = env_parse env incFile v in
         visit_includes env v ((case pf of None \<Rightarrow> [] | Some pf \<Rightarrow> include_work incFile (pfAst pf)) @ work) (files @ [incFile])))"
  by pat_completeness auto
termination
proof (relation "measures [\<lambda>(env, v, work, files). card (fset (reach env v) - set files), \<lambda>(env, v, work, files). length work]",
    simp, simp)
  fix env v u path work files incFile x pf v'
  assume inc: "incFile = env_resolve env u path" "incFile \<notin> set files"
    and x: "x = env_parse env incFile v" "(pf, v') = x"
  then have "env_parse env incFile v = (pf, v')" by simp
  note r = env_parse_reach[OF this]
  let ?files = "files @ [incFile]"
  let ?work = "case pf of None \<Rightarrow> [] | Some pf \<Rightarrow> include_work incFile (pfAst pf)"
  have sub: "fset (reach env v') - set ?files \<subseteq> fset (reach env v) - set files" by (auto simp: r(1))
  then have le: "card (fset (reach env v') - set ?files) \<le> card (fset (reach env v) - set files)"
    by (intro card_mono) auto
  show "((env, v', ?work @ work, ?files), env, v, (u, path) # work, files) \<in>
      measures [\<lambda>(env, v, work, files). card (fset (reach env v) - set files), \<lambda>(env, v, work, files). length work]"
  proof (cases pf)
    case None
    then show ?thesis using le by auto
  next
    case (Some p)
    then have "incFile \<in> fset (reach env v) - set files" using r(2) inc by simp
    then have "fset (reach env v') - set ?files \<subset> fset (reach env v) - set files" using sub r(1) by auto
    then have "card (fset (reach env v') - set ?files) < card (fset (reach env v) - set files)"
      by (intro psubset_card_mono) auto
    then show ?thesis by simp
  qed
qed

definition definitionFiles :: "Env \<Rightarrow> uri \<Rightarrow> Document \<Rightarrow> bytes \<Rightarrow> View \<Rightarrow> uri list \<times> View" where
  "definitionFiles env file ast name v =
     (let (include, _) = ParseIdent (evApi env) file ast name in
      if include \<noteq> []
      then
        (let path = GetIncludePath ast include in
         if path = [] then ([file], v) else ([env_resolve env file path], v))
      else visit_includes env v (include_work file ast) [file])"

section \<open>Definitions\<close>

record Resolved =
  rsFile :: uri
  rsParsed :: ParsedFile
  rsName :: "Identifier option"
  rsNode :: Node
  rsKind :: DefinitionKind

datatype resolveKind = resolveType | resolveValue | resolveService

text \<open>A parsed file with its URI, and the state of an index: the view and the memo table.\<close>

type_synonym scope = "uri \<times> ParsedFile"
type_synonym memo = "uri \<times> bytes \<times> resolveKind \<rightharpoonup> Resolved option"

record Index =
  isView :: View
  isMemo :: memo

definition NewIndex :: "View \<Rightarrow> Index" where
  "NewIndex v = \<lparr>isView = v, isMemo = Map.empty\<rparr>"

definition Definitions :: "ParsedFile \<Rightarrow> (bytes \<rightharpoonup> Node) option" where
  "Definitions pf = map_option ixDefs (buildIndex (pfAst pf))"

definition EnumValues :: "ParsedFile \<Rightarrow> (bytes \<rightharpoonup> Identifier) option" where
  "EnumValues pf = map_option ixEnumValues (buildIndex (pfAst pf))"

definition structKind :: "TokenKind \<Rightarrow> DefinitionKind" where
  "structKind k =
     (if k = UnionDecl then DefinitionUnion else if k = ExceptionDecl then DefinitionException else DefinitionStruct)"

definition defFrom :: "scope \<Rightarrow> Identifier option \<Rightarrow> Node \<Rightarrow> DefinitionKind \<Rightarrow> Resolved" where
  "defFrom sc name n k = \<lparr>rsFile = fst sc, rsParsed = snd sc, rsName = name, rsNode = n, rsKind = k\<rparr>"

definition defStruct :: "scope \<Rightarrow> Struct \<Rightarrow> Resolved" where
  "defStruct sc v = defFrom sc (stName v) (N_Struct v) (structKind (stKind v))"

text \<open>The last case is the panic of the source.\<close>

fun DefFromNode :: "scope \<Rightarrow> Node \<Rightarrow> Resolved option" where
  "DefFromNode sc (N_Struct v) = Some (defStruct sc v)"
| "DefFromNode sc (N_Enum v) = Some (defFrom sc (enName v) (N_Enum v) DefinitionEnum)"
| "DefFromNode sc (N_Typedef v) = Some (defFrom sc (tdName v) (N_Typedef v) DefinitionTypedef)"
| "DefFromNode sc (N_Const v) = Some (defFrom sc (coName v) (N_Const v) DefinitionConst)"
| "DefFromNode sc (N_Service v) = Some (defFrom sc (svName v) (N_Service v) DefinitionService)"
| "DefFromNode sc (N_Identifier v) = Some (defFrom sc (Some v) (N_Identifier v) DefinitionEnumValue)"
| "DefFromNode sc n = None"

section \<open>Resolution\<close>

text \<open>What each kind of resolution accepts in a file it searches.\<close>

definition find_type :: "bytes \<Rightarrow> scope \<Rightarrow> Resolved option option" where
  "find_type identifier sc = map_option (\<lambda>defs.
     (case defs identifier of
        Some (N_Struct v) \<Rightarrow> Some (defStruct sc v)
      | Some (N_Enum v) \<Rightarrow> Some (defFrom sc (enName v) (N_Enum v) DefinitionEnum)
      | Some (N_Typedef v) \<Rightarrow> Some (defFrom sc (tdName v) (N_Typedef v) DefinitionTypedef)
      | _ \<Rightarrow> None)) (Definitions (snd sc))"

definition find_value :: "bytes \<Rightarrow> scope \<Rightarrow> Resolved option option" where
  "find_value identifier sc = do {
     values \<leftarrow> EnumValues (snd sc);
     defs \<leftarrow> Definitions (snd sc);
     Some (case values identifier of
         Some i \<Rightarrow> Some (defFrom sc (Some i) (N_Identifier i) DefinitionEnumValue)
       | None \<Rightarrow>
           (case defs identifier of
              Some (N_Const v) \<Rightarrow> Some (defFrom sc (coName v) (N_Const v) DefinitionConst)
            | _ \<Rightarrow> None)) }"

definition find_service :: "bytes \<Rightarrow> scope \<Rightarrow> Resolved option option" where
  "find_service identifier sc = map_option (\<lambda>defs.
     (case defs identifier of
        Some (N_Service v) \<Rightarrow> Some (defFrom sc (svName v) (N_Service v) DefinitionService)
      | _ \<Rightarrow> None)) (Definitions (snd sc))"

text \<open>The loop over the files, which the three resolutions share. Unreadable files are skipped.\<close>

fun search_files :: "Env \<Rightarrow> (scope \<Rightarrow> Resolved option option) \<Rightarrow> uri list \<Rightarrow> View \<Rightarrow> (Resolved option \<times> View) option" where
  "search_files env pick [] v = Some (None, v)"
| "search_files env pick (u # us) v =
     (let (dst, v) = env_parse env u v in
      case dst of
        None \<Rightarrow> search_files env pick us v
      | Some pf \<Rightarrow>
          (case pick (u, pf) of
             None \<Rightarrow> None
           | Some None \<Rightarrow> search_files env pick us v
           | Some (Some def) \<Rightarrow> Some (Some def, v)))"

definition search_definition :: "Env \<Rightarrow> (bytes \<Rightarrow> scope \<Rightarrow> Resolved option option) \<Rightarrow> (bytes \<Rightarrow> bytes) \<Rightarrow> scope \<Rightarrow> bytes \<Rightarrow> View \<Rightarrow> (Resolved option \<times> View) option" where
  "search_definition env pick strip sc name v =
     (let (_, identifier) = ParseIdent (evApi env) (fst sc) (pfAst (snd sc)) name;
          (files, v) = definitionFiles env (fst sc) (pfAst (snd sc)) name v in
      search_files env (pick (strip identifier)) files v)"

definition resolve_type :: "Env \<Rightarrow> scope \<Rightarrow> bytes \<Rightarrow> View \<Rightarrow> (Resolved option \<times> View) option" where
  "resolve_type env sc name v = search_definition env find_type (\<lambda>i. i) sc name v"

definition resolve_value :: "Env \<Rightarrow> scope \<Rightarrow> bytes \<Rightarrow> View \<Rightarrow> (Resolved option \<times> View) option" where
  "resolve_value env sc name v = search_definition env find_value BareName sc name v"

definition resolve_service :: "Env \<Rightarrow> scope \<Rightarrow> bytes \<Rightarrow> View \<Rightarrow> (Resolved option \<times> View) option" where
  "resolve_service env sc name v = search_definition env find_service (\<lambda>i. i) sc name v"

text \<open>A resolution through the memo table.\<close>

definition memoized :: "Index \<Rightarrow> uri \<Rightarrow> bytes \<Rightarrow> resolveKind \<Rightarrow> Resolved option option" where
  "memoized ix u name k = isMemo ix (u, name, k)"

definition memoize :: "uri \<Rightarrow> bytes \<Rightarrow> resolveKind \<Rightarrow> Resolved option \<Rightarrow> Index \<Rightarrow> Index" where
  "memoize u name k def ix = ix\<lparr>isMemo := (isMemo ix)((u, name, k) \<mapsto> def)\<rparr>"

definition through_memo :: "resolveKind \<Rightarrow> (View \<Rightarrow> (Resolved option \<times> View) option) \<Rightarrow> uri \<Rightarrow> bytes \<Rightarrow> Index \<Rightarrow> (Resolved option \<times> Index) option" where
  "through_memo k compute u name ix =
     (case memoized ix u name k of
        Some def \<Rightarrow> Some (def, ix)
      | None \<Rightarrow>
          (case compute (isView ix) of
             None \<Rightarrow> None
           | Some (def, v) \<Rightarrow> Some (def, memoize u name k def (ix\<lparr>isView := v\<rparr>))))"

definition ResolveType :: "Env \<Rightarrow> scope \<Rightarrow> FieldType option \<Rightarrow> Index \<Rightarrow> (Resolved option \<times> Index) option" where
  "ResolveType env sc ft ix =
     (let name = TypeReferenceName ft in
      if name = [] \<or> IsBasicType name then Some (None, ix)
      else through_memo resolveType (resolve_type env sc name) (fst sc) name ix)"

definition ResolveValue :: "Env \<Rightarrow> scope \<Rightarrow> ConstValue option \<Rightarrow> Index \<Rightarrow> (Resolved option \<times> Index) option" where
  "ResolveValue env sc v ix =
     (case v of
        None \<Rightarrow> Some (None, ix)
      | Some c \<Rightarrow>
          (if cvKind c \<noteq> ValueIdent \<or> cvText c = ''true'' \<or> cvText c = ''false'' then Some (None, ix)
           else through_memo resolveValue (resolve_value env sc (cvText c)) (fst sc) (cvText c) ix))"

definition ResolveService :: "Env \<Rightarrow> scope \<Rightarrow> Identifier option \<Rightarrow> Index \<Rightarrow> (Resolved option \<times> Index) option" where
  "ResolveService env sc ident ix =
     (case ident of
        None \<Rightarrow> Some (None, ix)
      | Some i \<Rightarrow> through_memo resolveService (resolve_service env sc (idText i)) (fst sc) (idText i) ix)"

text \<open>Typedef chains, followed for at most 32 steps.\<close>

definition maxTypedefDepth :: nat where
  "maxTypedefDepth = 32"

fun underlying_loop :: "nat \<Rightarrow> Env \<Rightarrow> scope \<Rightarrow> FieldType option \<Rightarrow> Index \<Rightarrow> ((FieldType option \<times> scope) \<times> Index) option" where
  "underlying_loop 0 env pf ft ix = Some ((ft, pf), ix)"
| "underlying_loop (Suc n) env pf ft ix =
     (case ft of
        None \<Rightarrow> Some ((ft, pf), ix)
      | Some ty \<Rightarrow>
          (if ftKind ty \<noteq> TypeIdent then Some ((ft, pf), ix)
           else
             (case ResolveType env pf ft ix of
                None \<Rightarrow> None
              | Some (None, ix) \<Rightarrow> Some ((None, pf), ix)
              | Some (Some def, ix) \<Rightarrow>
                  (case rsNode def of
                     N_Typedef td \<Rightarrow> underlying_loop n env (rsFile def, rsParsed def) (tdType td) ix
                   | _ \<Rightarrow> Some ((ft, pf), ix)))))"

definition UnderlyingType :: "Env \<Rightarrow> scope \<Rightarrow> FieldType option \<Rightarrow> Index \<Rightarrow> ((FieldType option \<times> scope) \<times> Index) option" where
  "UnderlyingType env sc ft ix = underlying_loop maxTypedefDepth env sc ft ix"

end
