(* ===== verification/SemaRefs.thy ===== *)
theory SemaRefs imports SemaIndex
begin

text \<open>
  Reference search and the workspace search of \<open>sema/index.go\<close>. The loops stop with
  \<open>None\<close> at a panic.
\<close>

section \<open>Hits\<close>

record Hit =
  hiFile :: uri
  hiSpan :: Span
  hiText :: bytes
  hiKind :: RefKind

definition References :: "ParsedFile \<Rightarrow> Reference list option" where
  "References pf = map_option ixRefs (buildIndex (pfAst pf))"

definition referenceKind :: "RefKind \<Rightarrow> RefKind list \<Rightarrow> bool" where
  "referenceKind k kinds \<longleftrightarrow> kinds = [] \<or> k \<in> set kinds"

definition reference_hit :: "scope \<Rightarrow> Reference \<Rightarrow> Hit option" where
  "reference_hit sc r = map_option (\<lambda>sp. \<lparr>hiFile = fst sc, hiSpan = sp, hiText = rfName r, hiKind = rfKind r\<rparr>)
     (SpanOf (snd sc) (rfNode r))"

text \<open>A loop that appends what its body returns, and stops at a panic.\<close>

fun collect_loop :: "('x \<Rightarrow> 's \<Rightarrow> ('y list \<times> 's) option) \<Rightarrow> 'x list \<Rightarrow> 's \<Rightarrow> ('y list \<times> 's) option" where
  "collect_loop f [] s = Some ([], s)"
| "collect_loop f (x # xs) s =
     (case f x s of
        None \<Rightarrow> None
      | Some (ys, s) \<Rightarrow> (case collect_loop f xs s of None \<Rightarrow> None | Some (zs, s) \<Rightarrow> Some (ys @ zs, s)))"

lemma collect_loop_cong [fundef_cong]:
  "xs = ys \<Longrightarrow> s = t \<Longrightarrow> (\<And>x u. x \<in> set ys \<Longrightarrow> f x u = g x u) \<Longrightarrow> collect_loop f xs s = collect_loop g ys t"
proof (induction xs arbitrary: ys s t)
  case (Cons x xs)
  then have "collect_loop f xs u = collect_loop g xs u" for u by (intro Cons.IH) auto
  then show ?case using Cons.prems by (auto split: option.splits)
qed auto

section \<open>References by name\<close>

definition searchFiles :: "uri \<Rightarrow> View \<Rightarrow> uri list" where
  "searchFiles file v = file # filter (\<lambda>dep. dep \<noteq> file) (Dependents v file)"

definition match_reference :: "scope \<Rightarrow> bytes \<Rightarrow> RefKind list \<Rightarrow> Reference \<Rightarrow> unit \<Rightarrow> (Hit list \<times> unit) option" where
  "match_reference sc name kinds r _ =
     (if \<not> referenceKind (rfKind r) kinds \<or> BareName (rfName r) \<noteq> BareName name then Some ([], ())
      else map_option (\<lambda>h. ([h], ())) (reference_hit sc r))"

definition reference_matches :: "scope \<Rightarrow> bytes \<Rightarrow> RefKind list \<Rightarrow> Hit list option" where
  "reference_matches sc name kinds = do {
     refs \<leftarrow> References (snd sc);
     map_option fst (collect_loop (match_reference sc name kinds) refs ()) }"

fun references_loop :: "Env \<Rightarrow> bytes \<Rightarrow> RefKind list \<Rightarrow> uri list \<Rightarrow> uri list \<Rightarrow> View \<Rightarrow> (Hit list \<times> View) option" where
  "references_loop env name kinds seen [] v = Some ([], v)"
| "references_loop env name kinds seen (f # fs) v =
     (if f \<in> set seen then references_loop env name kinds seen fs v
      else
        (let (pf, v) = env_parse env f v in
         case pf of
           None \<Rightarrow> references_loop env name kinds (f # seen) fs v
         | Some pf \<Rightarrow> do {
             hits \<leftarrow> reference_matches (f, pf) name kinds;
             (rest, v) \<leftarrow> references_loop env name kinds (f # seen) fs v;
             Some (hits @ rest, v) }))"

definition Index_References :: "Env \<Rightarrow> uri \<Rightarrow> bytes \<Rightarrow> RefKind list \<Rightarrow> View \<Rightarrow> (Hit list \<times> View) option" where
  "Index_References env file name kinds v = references_loop env name kinds [] (searchFiles file v) v"

section \<open>References to a definition\<close>

definition typeReference :: "bytes \<Rightarrow> FieldType" where
  "typeReference name = FieldType \<lparr>nbFirst = 0, nbLast = 0\<rparr> TypeIdent TokenInvalid
     (Some \<lparr>idBase = \<lparr>nbFirst = 0, nbLast = 0\<rparr>, idText = name\<rparr>) None None None None"

definition resolveReference :: "Env \<Rightarrow> scope \<Rightarrow> Reference \<Rightarrow> Index \<Rightarrow> (Resolved option \<times> Index) option" where
  "resolveReference env sc r ix =
     (case rfKind r of
        RefConstValue \<Rightarrow>
          (case rfNode r of N_ConstValue v \<Rightarrow> ResolveValue env sc (Some v) ix | _ \<Rightarrow> Some (None, ix))
      | RefServiceExtends \<Rightarrow>
          (case rfNode r of N_Identifier i \<Rightarrow> ResolveService env sc (Some i) ix | _ \<Rightarrow> Some (None, ix))
      | _ \<Rightarrow>
          (case rfNode r of N_Identifier i \<Rightarrow> ResolveType env sc (Some (typeReference (idText i))) ix | _ \<Rightarrow> Some (None, ix)))"

definition name_text :: "Resolved \<Rightarrow> bytes option" where
  "name_text def = map_option idText (rsName def)"

definition sameDefinition :: "Resolved option \<Rightarrow> Resolved \<Rightarrow> bool option" where
  "sameDefinition resolved def =
     (case resolved of
        None \<Rightarrow> Some False
      | Some r \<Rightarrow>
          (if rsFile r \<noteq> rsFile def then Some False
           else do { a \<leftarrow> name_text r; b \<leftarrow> name_text def; Some (a = b) }))"

text \<open>The first segment that equals the name of the enum, and its offset.\<close>

fun enum_segment :: "bytes list \<Rightarrow> bytes \<Rightarrow> nat \<Rightarrow> (bytes \<times> nat) option" where
  "enum_segment [] enumName off = None"
| "enum_segment (item # items) enumName off =
     (if item = enumName then Some (item, off) else enum_segment items enumName (off + length item + 1))"

definition enumSegment :: "bytes \<Rightarrow> bytes \<Rightarrow> (bytes \<times> nat) option" where
  "enumSegment name enumName = enum_segment (split_at DOT name) enumName 0"

definition enumSegmentHit :: "scope \<Rightarrow> Node \<Rightarrow> nat \<Rightarrow> bytes \<Rightarrow> Hit option" where
  "enumSegmentHit sc n off seg = map_option (\<lambda>(start, _).
     \<lparr>hiFile = fst sc,
      hiSpan = \<lparr>spStart = start\<lparr>poOffset := poOffset start + off\<rparr>,
        spEnd = start\<lparr>poOffset := poOffset start + off + length seg\<rparr>\<rparr>,
      hiText = seg, hiKind = RefConstValue\<rparr>) (Range (pfAst (snd sc)) (A_Node n))"

definition reference_to :: "Env \<Rightarrow> Resolved \<Rightarrow> RefKind list \<Rightarrow> scope \<Rightarrow> Reference \<Rightarrow> Index \<Rightarrow> (Hit list \<times> Index) option" where
  "reference_to env def kinds sc r ix =
     (if rfKind r = RefConstValue \<and> rsKind def = DefinitionEnum \<and> referenceKind RefConstValue kinds
      then do {
        enumName \<leftarrow> name_text def;
        (case enumSegment (rfName r) enumName of
           None \<Rightarrow> Some ([], ix)
         | Some (seg, off) \<Rightarrow> do {
             (enum, ix) \<leftarrow> ResolveType env sc (Some (typeReference (take (off + length seg) (rfName r)))) ix;
             same \<leftarrow> sameDefinition enum def;
             if \<not> same then Some ([], ix)
             else map_option (\<lambda>h. ([h], ix)) (enumSegmentHit sc (rfNode r) off seg) }) }
      else if \<not> referenceKind (rfKind r) kinds then Some ([], ix)
      else do {
        name \<leftarrow> name_text def;
        if BareName (rfName r) \<noteq> BareName name then Some ([], ix)
        else do {
          (resolved, ix) \<leftarrow> resolveReference env sc r ix;
          same \<leftarrow> sameDefinition resolved def;
          if \<not> same then Some ([], ix) else map_option (\<lambda>h. ([h], ix)) (reference_hit sc r) } })"

definition references_in :: "Env \<Rightarrow> Resolved \<Rightarrow> RefKind list \<Rightarrow> uri \<Rightarrow> Index \<Rightarrow> (Hit list \<times> Index) option" where
  "references_in env def kinds f ix =
     (let (pf, v) = env_parse env f (isView ix); ix = ix\<lparr>isView := v\<rparr> in
      case pf of
        None \<Rightarrow> Some ([], ix)
      | Some pf \<Rightarrow> do {
          refs \<leftarrow> References pf;
          collect_loop (reference_to env def kinds (f, pf)) refs ix })"

definition ReferencesTo :: "Env \<Rightarrow> Resolved \<Rightarrow> RefKind list \<Rightarrow> Index \<Rightarrow> (Hit list \<times> Index) option" where
  "ReferencesTo env def kinds ix =
     collect_loop (references_in env def kinds) (searchFiles (rsFile def) (isView ix)) ix"

definition ReferencingFiles :: "uri \<Rightarrow> Index \<Rightarrow> uri list" where
  "ReferencingFiles file ix = Includers (isView ix) file"

definition RefKindsFor :: "DefinitionKind \<Rightarrow> RefKind list" where
  "RefKindsFor k =
     (case k of
        DefinitionException \<Rightarrow> [RefSignatureType, RefAnnotationType]
      | DefinitionEnumValue \<Rightarrow> [RefConstValue]
      | DefinitionConst \<Rightarrow> [RefConstValue]
      | DefinitionService \<Rightarrow> [RefServiceExtends]
      | DefinitionNone \<Rightarrow> []
      | _ \<Rightarrow> [RefFieldType, RefSignatureType, RefAnnotationType])"

section \<open>The workspace\<close>

fun find_definition :: "Env \<Rightarrow> bytes \<Rightarrow> bytes \<Rightarrow> uri list \<Rightarrow> View \<Rightarrow> (Resolved option \<times> View) option" where
  "find_definition env include identifier [] v = Some (None, v)"
| "find_definition env include identifier (f # fs) v =
     (if include \<noteq> [] \<and> IncludeNameOf (evApi env) f \<noteq> include then find_definition env include identifier fs v
      else
        (let (pf, v) = env_parse env f v in
         case pf of
           None \<Rightarrow> find_definition env include identifier fs v
         | Some pf \<Rightarrow> do {
             defs \<leftarrow> Definitions pf;
             (case defs identifier of
                None \<Rightarrow> find_definition env include identifier fs v
              | Some n \<Rightarrow> do { def \<leftarrow> DefFromNode (f, pf) n; Some (Some def, v) }) }))"

definition FindInWorkspace :: "Env \<Rightarrow> bytes \<Rightarrow> View \<Rightarrow> (Resolved option \<times> View) option" where
  "FindInWorkspace env name v =
     (let (include, identifier) = splitQualifiedName name in
      case find_definition env include identifier (KnownFiles v) v of
        None \<Rightarrow> None
      | Some (Some def, v) \<Rightarrow> Some (Some def, v)
      | Some (None, v) \<Rightarrow>
          (if evFolder env = [] then Some (None, v)
           else
             (let files = filter (\<lambda>u. HasSuffix (urPath (evApi env) u) ''.thrift'')
                (OverlayFS_WalkFiles (evApi env) (evSource env) (evFolder env)) in
              find_definition env include identifier (sort files) v)))"

end
