(* ===== verification/SemaIndexProps.thy ===== *)
theory SemaIndexProps imports SemaRefs ViewProps FileIndexProps
begin

text \<open>
  Resolution is transparent to its caches. The reference definitions below read files
  directly; the resolutions of the index, through the cache of the view and the memo
  table, return what the reference returns and keep both caches sound.
\<close>

section \<open>Sound views\<close>

definition read_file :: "Env \<Rightarrow> uri \<Rightarrow> ParsedFile option" where
  "read_file env u = Option.bind (env_files env u) parse_file"

definition view_good :: "Env \<Rightarrow> View \<Rightarrow> bool" where
  "view_good env v \<longleftrightarrow> graph_ok v \<and>
     (\<forall>u pf. parsed v u = Some pf \<longrightarrow>
       read_file env u = Some pf \<and> view_Includes v u = resolveIncludes (env_resolve env u) (pfAst pf))"

lemma parse_start_read:
  "parse_start r fs g n u = Some j \<Longrightarrow>
   Option.bind (fs u) parse_file = Some (jbParsed j) \<and> jbIncludes j = resolveIncludes (r fs u) (pfAst (jbParsed j))"
  by (auto simp: parse_start_def bind_eq_Some_conv)

lemma parse_start_None: "parse_start r fs g n u = None \<longleftrightarrow> Option.bind (fs u) parse_file = None"
  by (auto simp: parse_start_def bind_eq_None_conv)

lemma parsed_setEntry:
  "distinct bs \<Longrightarrow> parsed (setEntry u e bs v) a = (if a = u then e else parsed v a)"
  by (simp add: parsed_def setEntry_simps)

lemma env_resolve_eta: "env_resolver env (env_files env) u = env_resolve env u"
  by (intro ext) (simp add: env_resolve_def)

lemma env_parse_good:
  assumes "view_good env v" "env_parse env u v = (pf, v')"
  shows "pf = read_file env u" "view_good env v'"
proof -
  have "pf = read_file env u \<and> view_good env v'"
  proof (cases "parsed v u")
    case (Some p)
    then have "pf = Some p" "v' = v" using assms by (simp_all add: env_parse_def View_Parse_def)
    then show ?thesis using assms(1) Some unfolding view_good_def by simp
  next
    case none: None
    show ?thesis
    proof (cases "parse_start (env_resolver env) (env_files env) (evGuard env) (vwGen v) u")
      case None
      then have "pf = None" "v' = v" using assms none by (simp_all add: env_parse_def View_Parse_def)
      then show ?thesis using assms(1) None[unfolded parse_start_None] by (simp add: read_file_def)
    next
      case (Some j)
      then have v': "v' = parse_commit j v" "pf = Some (jbParsed j)"
        using assms none by (simp_all add: env_parse_def View_Parse_def)
      note s = parse_start(1,3,4)[OF Some] parse_start_read[OF Some]
      have "view_good env (setEntry (jbUri j) (Some (jbParsed j)) (jbIncludes j) v)"
        using assms(1) s unfolding view_good_def view_Includes_def
        by (simp add: graph_setEntry parsed_setEntry incs_setEntry read_file_def env_resolve_eta)
      then show ?thesis using assms(1) s by (simp add: v' parse_commit_def read_file_def)
    qed
  qed
  then show "pf = read_file env u" "view_good env v'" by simp_all
qed

lemma read_file_parsed: "read_file env u = Some pf \<Longrightarrow> \<exists>c. parse_file c = Some pf"
  by (auto simp: read_file_def bind_eq_Some_conv)

section \<open>The files to search\<close>

lemma read_file_dom: "read_file env u = Some pf \<Longrightarrow> u |\<in>| fmdom (contents (evSource env))"
  by (auto simp: read_file_def env_files_def bind_eq_Some_conv intro: fmdomI)

text \<open>The visit without a view.\<close>

function visit_files :: "Env \<Rightarrow> (uri \<times> bytes) list \<Rightarrow> uri list \<Rightarrow> uri list" where
  "visit_files env [] files = files"
| "visit_files env ((u, path) # work) files =
     (let incFile = env_resolve env u path in
      if incFile \<in> set files then visit_files env work files
      else visit_files env
        ((case read_file env incFile of None \<Rightarrow> [] | Some pf \<Rightarrow> include_work incFile (pfAst pf)) @ work) (files @ [incFile]))"
  by pat_completeness auto
termination
proof (relation "measures [\<lambda>(env, work, files). card (fset (fmdom (contents (evSource env))) - set files), \<lambda>(env, work, files). length work]",
    simp, simp)
  fix env :: Env and u incFile :: uri and path and work :: "(uri \<times> bytes) list" and files
  assume inc: "incFile \<notin> set files"
  let ?all = "fset (fmdom (contents (evSource env)))"
  let ?work = "case read_file env incFile of None \<Rightarrow> [] | Some pf \<Rightarrow> include_work incFile (pfAst pf)"
  have le: "card (?all - set (files @ [incFile])) \<le> card (?all - set files)" by (intro card_mono) auto
  show "((env, ?work @ work, files @ [incFile]), env, (u, path) # work, files) \<in>
      measures [\<lambda>(env, work, files). card (fset (fmdom (contents (evSource env))) - set files), \<lambda>(env, work, files). length work]"
  proof (cases "read_file env incFile")
    case None
    then show ?thesis using le by auto
  next
    case (Some p)
    then have "incFile \<in> ?all - set files" using read_file_dom inc by blast
    then have "card (?all - set (files @ [incFile])) < card (?all - set files)"
      by (intro psubset_card_mono) auto
    then show ?thesis by simp
  qed
qed

lemma visit_includes_files:
  "view_good env v \<Longrightarrow> visit_includes env v work files = (files', v') \<Longrightarrow>
   files' = visit_files env work files \<and> view_good env v'"
proof (induction env v work files arbitrary: files' v' rule: visit_includes.induct)
  case (2 env v u path work files)
  let ?inc = "env_resolve env u path"
  show ?case
  proof (cases "?inc \<in> set files")
    case True
    then show ?thesis using "2.IH"(1)[OF refl True] "2.prems" by (simp add: Let_def)
  next
    case False
    obtain pf w where p: "env_parse env ?inc v = (pf, w)" by fastforce
    note g = env_parse_good[OF "2.prems"(1) p]
    show ?thesis using "2.IH"(2)[OF refl False p[symmetric] refl g(2)] "2.prems"(2) False g(1)
      by (simp add: p Let_def)
  qed
qed simp

definition files_to_search :: "Env \<Rightarrow> scope \<Rightarrow> bytes \<Rightarrow> uri list" where
  "files_to_search env sc name =
     (let include = fst (ParseIdent (evApi env) (fst sc) (pfAst (snd sc)) name) in
      if include \<noteq> []
      then
        (let path = GetIncludePath (pfAst (snd sc)) include in
         if path = [] then [fst sc] else [env_resolve env (fst sc) path])
      else visit_files env (include_work (fst sc) (pfAst (snd sc))) [fst sc])"

lemma definitionFiles_search:
  "view_good env v \<Longrightarrow> definitionFiles env (fst sc) (pfAst (snd sc)) name v = (files, v') \<Longrightarrow>
   files = files_to_search env sc name \<and> view_good env v'"
  unfolding definitionFiles_def files_to_search_def
  by (auto simp: Let_def visit_includes_files split: prod.splits if_splits)

text \<open>The include relation between files, and what is reachable over it.\<close>

definition include_edge :: "Env \<Rightarrow> (uri \<times> uri) set" where
  "include_edge env = {(u, w). \<exists>pf path. read_file env u = Some pf \<and> (u, path) \<in> set (include_work u (pfAst pf)) \<and>
     w = env_resolve env u path}"

definition work_targets :: "Env \<Rightarrow> (uri \<times> bytes) list \<Rightarrow> uri set" where
  "work_targets env work = (\<lambda>(u, path). env_resolve env u path) ` set work"

lemma work_targets_simps [simp]:
  "work_targets env [] = {}" "work_targets env ((u, path) # work) = insert (env_resolve env u path) (work_targets env work)"
  "work_targets env (work @ work') = work_targets env work \<union> work_targets env work'"
  by (auto simp: work_targets_def)

lemma include_work_edges:
  "read_file env u = Some pf \<Longrightarrow> work_targets env (include_work u (pfAst pf)) = include_edge env `` {u}"
  by (force simp: work_targets_def include_edge_def include_work_def Let_def split: if_splits)

lemma unread_no_edges: "read_file env u = None \<Longrightarrow> include_edge env `` {u} = {}"
  by (auto simp: include_edge_def)

lemma visit_files_reachable:
  "distinct files \<Longrightarrow> f \<in> set files \<Longrightarrow> set files \<union> work_targets env work \<subseteq> (include_edge env)\<^sup>* `` {f} \<Longrightarrow>
   (\<forall>g\<in>set files. include_edge env `` {g} \<subseteq> set files \<union> work_targets env work) \<Longrightarrow>
   distinct (visit_files env work files) \<and> (\<exists>new. visit_files env work files = files @ new) \<and>
   set (visit_files env work files) = (include_edge env)\<^sup>* `` {f}"
proof (induction env work files rule: visit_files.induct)
  case (1 env files)
  have "(include_edge env)\<^sup>* `` {f} \<subseteq> set files"
  proof safe
    fix g assume "(f, g) \<in> (include_edge env)\<^sup>*"
    then show "g \<in> set files" by (induction rule: rtrancl_induct) (use "1.prems" in auto)
  qed
  then show ?case using "1.prems" by auto
next
  case (2 env u path work files)
  let ?inc = "env_resolve env u path"
  let ?new = "case read_file env ?inc of None \<Rightarrow> [] | Some pf \<Rightarrow> include_work ?inc (pfAst pf)"
  show ?case
  proof (cases "?inc \<in> set files")
    case True
    then have "set files \<union> work_targets env work = set files \<union> work_targets env ((u, path) # work)" by auto
    then show ?thesis using "2.IH"(1)[OF refl True] "2.prems" True by (simp add: Let_def)
  next
    case False
    have new: "work_targets env ?new = include_edge env `` {?inc}"
      by (cases "read_file env ?inc") (simp_all add: include_work_edges unread_no_edges)
    have inc: "(f, ?inc) \<in> (include_edge env)\<^sup>*" using "2.prems"(3) by auto
    have "include_edge env `` {?inc} \<subseteq> (include_edge env)\<^sup>* `` {f}" using inc by (auto intro: rtrancl_into_rtrancl)
    then have "distinct (visit_files env (?new @ work) (files @ [?inc])) \<and>
        (\<exists>new. visit_files env (?new @ work) (files @ [?inc]) = (files @ [?inc]) @ new) \<and>
        set (visit_files env (?new @ work) (files @ [?inc])) = (include_edge env)\<^sup>* `` {f}"
      using "2.prems" inc False by (intro "2.IH"(2)[OF refl False]) (auto simp: new)
    then show ?thesis using False by (auto simp: Let_def)
  qed
qed

lemma files_to_search_reachable:
  assumes "read_file env (fst sc) = Some (snd sc)" "fst (ParseIdent (evApi env) (fst sc) (pfAst (snd sc)) name) = []"
  shows "distinct (files_to_search env sc name)" "\<exists>rest. files_to_search env sc name = fst sc # rest"
    "set (files_to_search env sc name) = (include_edge env)\<^sup>* `` {fst sc}"
proof -
  have "work_targets env (include_work (fst sc) (pfAst (snd sc))) = include_edge env `` {fst sc}"
    using include_work_edges[OF assms(1)] .
  then have "set [fst sc] \<union> work_targets env (include_work (fst sc) (pfAst (snd sc))) \<subseteq> (include_edge env)\<^sup>* `` {fst sc}"
    "\<forall>g\<in>set [fst sc]. include_edge env `` {g} \<subseteq> set [fst sc] \<union> work_targets env (include_work (fst sc) (pfAst (snd sc)))"
    by auto
  from visit_files_reachable[OF _ _ this] show "distinct (files_to_search env sc name)"
    "\<exists>rest. files_to_search env sc name = fst sc # rest"
    "set (files_to_search env sc name) = (include_edge env)\<^sup>* `` {fst sc}"
    using assms(2) by (auto simp: files_to_search_def Let_def)
qed

section \<open>Reference resolution\<close>

text \<open>The first file of the list that has a definition.\<close>

fun first_definition :: "Env \<Rightarrow> (scope \<Rightarrow> Resolved option option) \<Rightarrow> uri list \<Rightarrow> Resolved option" where
  "first_definition env pick [] = None"
| "first_definition env pick (u # us) =
     (case read_file env u of
        None \<Rightarrow> first_definition env pick us
      | Some pf \<Rightarrow> (case pick (u, pf) of Some (Some def) \<Rightarrow> Some def | _ \<Rightarrow> first_definition env pick us))"

definition reference_with :: "(bytes \<Rightarrow> scope \<Rightarrow> Resolved option option) \<Rightarrow> (bytes \<Rightarrow> bytes) \<Rightarrow> Env \<Rightarrow> scope \<Rightarrow> bytes \<Rightarrow> Resolved option" where
  "reference_with pick strip env sc name =
     first_definition env (pick (strip (snd (ParseIdent (evApi env) (fst sc) (pfAst (snd sc)) name)))) (files_to_search env sc name)"

definition reference_of :: "Env \<Rightarrow> resolveKind \<Rightarrow> scope \<Rightarrow> bytes \<Rightarrow> Resolved option" where
  "reference_of env k = (case k of
     resolveType \<Rightarrow> reference_with find_type (\<lambda>i. i) env
   | resolveValue \<Rightarrow> reference_with find_value BareName env
   | resolveService \<Rightarrow> reference_with find_service (\<lambda>i. i) env)"

definition memo_good :: "Env \<Rightarrow> memo \<Rightarrow> bool" where
  "memo_good env m \<longleftrightarrow> (\<forall>u name k def. m (u, name, k) = Some def \<longrightarrow>
     (\<forall>pf. read_file env u = Some pf \<longrightarrow> def = reference_of env k (u, pf) name))"

definition index_good :: "Env \<Rightarrow> Index \<Rightarrow> bool" where
  "index_good env ix \<longleftrightarrow> view_good env (isView ix) \<and> memo_good env (isMemo ix)"

text \<open>An operation returns a value, and leaves a sound index.\<close>

definition gives :: "Env \<Rightarrow> ('a \<times> Index) option \<Rightarrow> 'a \<Rightarrow> bool" where
  "gives env r x \<longleftrightarrow> (\<exists>ix. r = Some (x, ix) \<and> index_good env ix)"

text \<open>The contract of a kind of resolution, and what follows from it.\<close>

locale resolution =
  fixes k :: resolveKind and pick :: "bytes \<Rightarrow> scope \<Rightarrow> Resolved option option" and strip :: "bytes \<Rightarrow> bytes"
  assumes pick_total: "parse_file c = Some pf \<Longrightarrow> \<exists>r. pick i (u, pf) = Some r"
    and reference: "reference_of env k = reference_with pick strip env"
begin

lemma search_files_first:
  "view_good env v \<Longrightarrow> \<exists>v'. search_files env (pick i) us v = Some (first_definition env (pick i) us, v') \<and> view_good env v'"
proof (induction us arbitrary: v)
  case (Cons u us)
  obtain pf w where p: "env_parse env u v = (pf, w)" by fastforce
  note g = env_parse_good[OF Cons.prems p]
  show ?case
  proof (cases pf)
    case None
    then show ?thesis using Cons.IH[OF g(2)] g(1) by (simp add: p)
  next
    case (Some f)
    then obtain c where "parse_file c = Some f" using read_file_parsed[of env u f] g(1) by auto
    then obtain r where r: "pick i (u, f) = Some r" using pick_total[of c f i u] by blast
    then show ?thesis using Some Cons.IH[OF g(2)] g by (cases r) (simp_all add: p)
  qed
qed simp

lemma search_reference:
  assumes "view_good env v"
  shows "\<exists>v'. search_definition env pick strip sc name v = Some (reference_of env k sc name, v') \<and> view_good env v'"
proof -
  obtain inc i where p: "ParseIdent (evApi env) (fst sc) (pfAst (snd sc)) name = (inc, i)" by fastforce
  obtain files w where d: "definitionFiles env (fst sc) (pfAst (snd sc)) name v = (files, w)" by fastforce
  show ?thesis using search_files_first definitionFiles_search[OF assms d]
    by (auto simp: search_definition_def p d reference reference_with_def)
qed

lemma memo_reference:
  assumes "index_good env ix" "read_file env (fst sc) = Some (snd sc)"
  shows "gives env (through_memo k (search_definition env pick strip sc name) (fst sc) name ix) (reference_of env k sc name)"
proof (cases "memoized ix (fst sc) name k")
  case (Some def)
  then have "def = reference_of env k sc name"
    using assms unfolding memoized_def index_good_def memo_good_def by (metis prod.collapse)
  then show ?thesis using Some assms(1) by (simp add: through_memo_def gives_def)
next
  case None
  have "view_good env (isView ix)" using assms(1) by (simp add: index_good_def)
  then obtain w where w: "search_definition env pick strip sc name (isView ix) = Some (reference_of env k sc name, w)"
    "view_good env w" using search_reference by blast
  have "memo_good env ((isMemo ix)((fst sc, name, k) \<mapsto> reference_of env k sc name))"
    using assms unfolding index_good_def memo_good_def by auto
  then show ?thesis using None w by (simp add: through_memo_def gives_def memoize_def index_good_def)
qed

end

lemma parsed_index: "parse_file c = Some pf \<Longrightarrow> \<exists>x. buildIndex (pfAst pf) = Some x"
proof -
  assume "parse_file c = Some pf"
  then obtain errs where "Parse c = Some (pfAst pf, errs)" by (auto simp: parse_file_def)
  then show ?thesis using buildIndex[OF Parse_parts(2)] by blast
qed

interpretation type_resolution: resolution resolveType find_type "\<lambda>i. i"
  by unfold_locales (use parsed_index in \<open>fastforce simp: find_type_def Definitions_def reference_of_def\<close>)+

interpretation value_resolution: resolution resolveValue find_value BareName
  by unfold_locales (use parsed_index in \<open>fastforce simp: find_value_def EnumValues_def Definitions_def reference_of_def\<close>)+

interpretation service_resolution: resolution resolveService find_service "\<lambda>i. i"
  by unfold_locales (use parsed_index in \<open>fastforce simp: find_service_def Definitions_def reference_of_def\<close>)+

section \<open>The index\<close>

definition type_reference :: "Env \<Rightarrow> scope \<Rightarrow> FieldType option \<Rightarrow> Resolved option" where
  "type_reference env sc ft =
     (let name = TypeReferenceName ft in
      if name = [] \<or> IsBasicType name then None else reference_of env resolveType sc name)"

definition value_reference :: "Env \<Rightarrow> scope \<Rightarrow> ConstValue option \<Rightarrow> Resolved option" where
  "value_reference env sc v =
     (case v of None \<Rightarrow> None | Some c \<Rightarrow> if is_value_ref c then reference_of env resolveValue sc (cvText c) else None)"

definition service_reference :: "Env \<Rightarrow> scope \<Rightarrow> Identifier option \<Rightarrow> Resolved option" where
  "service_reference env sc i = (case i of None \<Rightarrow> None | Some x \<Rightarrow> reference_of env resolveService sc (idText x))"

lemma gives_same: "index_good env ix \<Longrightarrow> gives env (Some (x, ix)) x"
  by (simp add: gives_def)

lemma ResolveType_gives:
  assumes "index_good env ix" "read_file env (fst sc) = Some (snd sc)"
  shows "gives env (ResolveType env sc ft ix) (type_reference env sc ft)"
  using type_resolution.memo_reference[OF assms] assms(1)
  by (simp add: ResolveType_def type_reference_def Let_def gives_same resolve_type_def[abs_def])

lemma ResolveValue_gives:
  assumes "index_good env ix" "read_file env (fst sc) = Some (snd sc)"
  shows "gives env (ResolveValue env sc v ix) (value_reference env sc v)"
  using value_resolution.memo_reference[OF assms] assms(1)
  by (auto simp: ResolveValue_def value_reference_def is_value_ref_def gives_same resolve_value_def[abs_def] split: option.splits)

lemma ResolveService_gives:
  assumes "index_good env ix" "read_file env (fst sc) = Some (snd sc)"
  shows "gives env (ResolveService env sc i ix) (service_reference env sc i)"
  using service_resolution.memo_reference[OF assms] assms(1)
  by (simp add: ResolveService_def service_reference_def gives_same resolve_service_def[abs_def] split: option.splits)

lemma gives_bind:
  "gives env r x \<Longrightarrow> (\<And>ix. index_good env ix \<Longrightarrow> gives env (f x ix) y) \<Longrightarrow>
   gives env (case r of None \<Rightarrow> None | Some (x, ix) \<Rightarrow> f x ix) y"
  by (auto simp: gives_def)

text \<open>A resolved type is a definition of a file that can be read.\<close>

lemma first_definition_read:
  "first_definition env pick us = Some def \<Longrightarrow>
   \<exists>u\<in>set us. \<exists>pf. read_file env u = Some pf \<and> pick (u, pf) = Some (Some def)"
  by (induction us) (auto split: option.splits)

lemma find_type_scope: "find_type i sc = Some (Some def) \<Longrightarrow> rsFile def = fst sc \<and> rsParsed def = snd sc"
proof -
  assume "find_type i sc = Some (Some def)"
  then obtain defs n where d: "Definitions (snd sc) = Some defs" "defs i = Some n"
    by (cases "Definitions (snd sc)"; cases "the (Definitions (snd sc)) i") (auto simp: find_type_def)
  then show "rsFile def = fst sc \<and> rsParsed def = snd sc" using \<open>find_type i sc = Some (Some def)\<close>
    by (cases n) (auto simp: find_type_def defStruct_def defFrom_def)
qed

lemma find_value_scope: "find_value i sc = Some (Some def) \<Longrightarrow> rsFile def = fst sc \<and> rsParsed def = snd sc"
proof -
  assume f: "find_value i sc = Some (Some def)"
  then obtain vals defs where d: "EnumValues (snd sc) = Some vals" "Definitions (snd sc) = Some defs"
    by (auto simp: find_value_def bind_eq_Some_conv)
  show "rsFile def = fst sc \<and> rsParsed def = snd sc"
  proof (cases "vals i")
    case None
    then obtain n where "defs i = Some n" using f d by (cases "defs i") (auto simp: find_value_def)
    then show ?thesis using f d None by (cases n) (auto simp: find_value_def defFrom_def)
  qed (use f d in \<open>auto simp: find_value_def defFrom_def\<close>)
qed

lemma type_reference_read:
  assumes "type_reference env sc ft = Some def"
  shows "read_file env (rsFile def) = Some (rsParsed def)"
proof -
  obtain i where "first_definition env (find_type i) (files_to_search env sc (TypeReferenceName ft)) = Some def"
    using assms by (auto simp: type_reference_def Let_def reference_of_def reference_with_def split: if_splits)
  from first_definition_read[OF this] show ?thesis using find_type_scope by fastforce
qed

lemma value_reference_read:
  assumes "value_reference env sc v = Some def"
  shows "read_file env (rsFile def) = Some (rsParsed def)"
proof -
  obtain i us where "first_definition env (find_value i) us = Some def"
    using assms by (auto simp: value_reference_def reference_of_def reference_with_def split: if_splits option.splits)
  from first_definition_read[OF this] show ?thesis using find_value_scope by fastforce
qed

section \<open>Typedef chains\<close>

text \<open>One step of a chain: from a type name that is a typedef to its target, in the file of the typedef.\<close>

definition typedef_step :: "Env \<Rightarrow> scope \<times> FieldType option \<Rightarrow> (scope \<times> FieldType option) option" where
  "typedef_step env = (\<lambda>(sc, ft).
     (case ft of
        None \<Rightarrow> None
      | Some ty \<Rightarrow>
          (if ftKind ty \<noteq> TypeIdent then None
           else (case type_reference env sc ft of
               None \<Rightarrow> None
             | Some def \<Rightarrow> (case rsNode def of N_Typedef td \<Rightarrow> Some ((rsFile def, rsParsed def), tdType td) | _ \<Rightarrow> None)))))"

definition dangling :: "Env \<Rightarrow> scope \<Rightarrow> FieldType option \<Rightarrow> bool" where
  "dangling env sc ft \<longleftrightarrow>
     (case ft of None \<Rightarrow> False | Some ty \<Rightarrow> ftKind ty = TypeIdent \<and> type_reference env sc ft = None)"

fun underlying_ref :: "nat \<Rightarrow> Env \<Rightarrow> scope \<Rightarrow> FieldType option \<Rightarrow> FieldType option \<times> scope" where
  "underlying_ref 0 env sc ft = (ft, sc)"
| "underlying_ref (Suc n) env sc ft =
     (if dangling env sc ft then (None, sc)
      else (case typedef_step env (sc, ft) of None \<Rightarrow> (ft, sc) | Some (sc', ft') \<Rightarrow> underlying_ref n env sc' ft'))"

lemma typedef_step_read: "typedef_step env (sc, ft) = Some (sc', ft') \<Longrightarrow> read_file env (fst sc') = Some (snd sc')"
proof -
  assume t: "typedef_step env (sc, ft) = Some (sc', ft')"
  then obtain def where d: "type_reference env sc ft = Some def"
    by (cases ft; cases "type_reference env sc ft") (auto simp: typedef_step_def split: if_splits)
  then show "read_file env (fst sc') = Some (snd sc')" using t type_reference_read[OF d]
    by (cases ft; cases "rsNode def") (auto simp: typedef_step_def split: if_splits)
qed

lemma underlying_loop_gives:
  "index_good env ix \<Longrightarrow> read_file env (fst sc) = Some (snd sc) \<Longrightarrow>
   gives env (underlying_loop n env sc ft ix) (underlying_ref n env sc ft)"
proof (induction n arbitrary: sc ft ix)
  case (Suc n)
  show ?case
  proof (cases "ft = None \<or> (\<exists>ty. ft = Some ty \<and> ftKind ty \<noteq> TypeIdent)")
    case True
    then show ?thesis using Suc.prems(1) by (auto simp: dangling_def typedef_step_def gives_same)
  next
    case False
    then obtain ty where ty: "ft = Some ty" "ftKind ty = TypeIdent" by auto
    obtain ix' where r: "ResolveType env sc ft ix = Some (type_reference env sc ft, ix')" "index_good env ix'"
      using ResolveType_gives[OF Suc.prems, of ft] by (auto simp: gives_def)
    show ?thesis
    proof (cases "type_reference env sc ft")
      case None
      then show ?thesis using r ty by (simp add: dangling_def gives_same)
    next
      case (Some def)
      then have d: "\<not> dangling env sc ft" using ty by (simp add: dangling_def)
      have read: "read_file env (rsFile def) = Some (rsParsed def)" by (rule type_reference_read) fact
      show ?thesis
      proof (cases "typedef_step env (sc, ft)")
        case None
        then show ?thesis using r ty Some d
          by (cases "rsNode def") (auto simp: typedef_step_def gives_same)
      next
        case (Some x)
        then show ?thesis using r ty d \<open>type_reference env sc ft = Some def\<close> Suc.IH[OF r(2), of "(rsFile def, rsParsed def)"] read
          by (cases "rsNode def") (auto simp: typedef_step_def)
      qed
    qed
  qed
qed (simp add: gives_same)

lemma UnderlyingType_gives:
  "index_good env ix \<Longrightarrow> read_file env (fst sc) = Some (snd sc) \<Longrightarrow>
   gives env (UnderlyingType env sc ft ix) (underlying_ref maxTypedefDepth env sc ft)"
  unfolding UnderlyingType_def by (rule underlying_loop_gives)

definition follow :: "Env \<Rightarrow> nat \<Rightarrow> scope \<times> FieldType option \<Rightarrow> (scope \<times> FieldType option) option" where
  "follow env k x = ((\<lambda>x. Option.bind x (typedef_step env)) ^^ k) (Some x)"

lemma follow_simps [simp]:
  "follow env 0 x = Some x"
  "typedef_step env x = Some y \<Longrightarrow> follow env (Suc k) x = follow env k y"
  by (simp_all add: follow_def funpow_Suc_right del: funpow.simps(2))

lemma dangling_no_step: "dangling env sc ft \<Longrightarrow> typedef_step env (sc, ft) = None"
  by (auto simp: dangling_def typedef_step_def split: option.splits)

lemma underlying_ref_chain:
  "\<exists>k\<le>n. \<exists>sc' ft'. follow env k (sc, ft) = Some (sc', ft') \<and> (k < n \<longrightarrow> typedef_step env (sc', ft') = None) \<and>
     underlying_ref n env sc ft = (if k < n \<and> dangling env sc' ft' then None else ft', sc')"
proof (induction n arbitrary: sc ft)
  case (Suc n)
  show ?case
  proof (cases "typedef_step env (sc, ft)")
    case None
    then show ?thesis by (intro exI[of _ 0]) auto
  next
    case (Some x)
    obtain sc1 ft1 where x: "x = (sc1, ft1)" by fastforce
    from Suc.IH[of sc1 ft1] obtain k sc' ft' where k: "k \<le> n" "follow env k (sc1, ft1) = Some (sc', ft')"
      "k < n \<longrightarrow> typedef_step env (sc', ft') = None"
      "underlying_ref n env sc1 ft1 = (if k < n \<and> dangling env sc' ft' then None else ft', sc')" by blast
    moreover have "\<not> dangling env sc ft" using Some dangling_no_step by fastforce
    ultimately show ?thesis using Some x by (intro exI[of _ "Suc k"]) auto
  qed
qed simp

section \<open>Properties\<close>

text \<open>
  C6: resolution is transparent to its caches. Through a view that holds only parses of
  the current files, whatever it has cached, and a memo table of sound entries, the
  resolution of a type, a value or a service is what the direct search returns: the first
  definition of the right kind in the files to search, read from the file source. It does
  not panic, and it leaves both caches sound.
\<close>

theorem Resolve_transparent:
  assumes "index_good env ix" "read_file env (fst sc) = Some (snd sc)"
  shows "gives env (ResolveType env sc ft ix) (type_reference env sc ft) \<and>
    gives env (ResolveValue env sc v ix) (value_reference env sc v) \<and>
    gives env (ResolveService env sc i ix) (service_reference env sc i)"
  using ResolveType_gives[OF assms] ResolveValue_gives[OF assms] ResolveService_gives[OF assms] by blast

text \<open>
  C15: an unqualified name is searched in the file itself first and then in every file
  that is included, directly or through other files, once each, also when includes are
  cyclic or files cannot be read. The search ends.
\<close>

theorem definitionFiles_reachable:
  assumes "view_good env v" "read_file env u = Some pf" "fst (ParseIdent (evApi env) u (pfAst pf) name) = []"
  shows "case definitionFiles env u (pfAst pf) name v of (files, v') \<Rightarrow>
    view_good env v' \<and> distinct files \<and> (\<exists>rest. files = u # rest) \<and> set files = (include_edge env)\<^sup>* `` {u}"
proof -
  obtain files v' where d: "definitionFiles env u (pfAst pf) name v = (files, v')" by fastforce
  then have "files = files_to_search env (u, pf) name \<and> view_good env v'"
    using definitionFiles_search[of env v "(u, pf)" name files v'] assms(1) by simp
  then show ?thesis using files_to_search_reachable[of env "(u, pf)" name] assms(2,3) by (simp add: d)
qed

text \<open>
  C14: \<open>UnderlyingType\<close> follows a chain of typedefs to its end. The result is reached by
  at most 32 steps from a type name to the target of its typedef, each in the scope of the
  file the typedef stands in; unless the bound is reached, no further step is possible,
  and the result is \<open>nil\<close> exactly if the chain ends in a name without a definition. A
  cyclic chain stops at the bound.
\<close>

theorem UnderlyingType_chain:
  assumes "index_good env ix" "read_file env (fst sc) = Some (snd sc)"
  shows "\<exists>k sc' ft'. k \<le> 32 \<and> follow env k (sc, ft) = Some (sc', ft') \<and>
    (k = 32 \<or> typedef_step env (sc', ft') = None) \<and>
    gives env (UnderlyingType env sc ft ix) (if k < 32 \<and> dangling env sc' ft' then None else ft', sc')"
proof -
  obtain k sc' ft' where "k \<le> 32" "follow env k (sc, ft) = Some (sc', ft')" "k < 32 \<longrightarrow> typedef_step env (sc', ft') = None"
    "underlying_ref 32 env sc ft = (if k < 32 \<and> dangling env sc' ft' then None else ft', sc')"
    using underlying_ref_chain[of 32 env sc ft] by blast
  then show ?thesis using UnderlyingType_gives[OF assms, of ft] unfolding maxTypedefDepth_def
    by (intro exI[of _ k] exI[of _ sc'] exI[of _ ft']) auto
qed

text \<open>Two files, the first of which includes the second and uses a type of it.\<close>

definition demo_source :: OverlayFS where
  "demo_source = NewOverlayFS (fmap_of_list
     [(''/a'', ''include '' @ [DQUOTE] @ ''b.thrift'' @ [DQUOTE] @ [LF] @ ''typedef b.T S''), (''/b.thrift'', ''struct T {}'')])"

definition demo_env :: Env where
  "demo_env = \<lparr>evApi = plain_uris, evQuote = (\<lambda>s. s), evSource = demo_source, evIncludePaths = [], evFolder = ''/'', evGuard = None\<rparr>"

lemma view_good_new: "view_good env NewView"
  by (simp add: view_good_def NewView_def graph_ok_def parsed_def)

lemma index_good_new: "view_good env v \<Longrightarrow> index_good env (NewIndex v)"
  by (simp add: index_good_def NewIndex_def memo_good_def)

lemma demo_read: "\<exists>pf. read_file demo_env ''/a'' = Some pf"
proof -
  have "\<exists>c. env_files demo_env ''/a'' = Some c"
    by (simp add: demo_env_def demo_source_def env_files_def contents_def NewOverlayFS_def)
  then show ?thesis using parse_file_total by (auto simp: read_file_def)
qed

lemma demo_resolves:
  "map_option (\<lambda>pf. map_option (\<lambda>(r, ix). map_option (\<lambda>d. (rsFile d, rsKind d)) r)
     (ResolveType demo_env (''/a'', pf) (Some (typeReference ''b.T'')) (NewIndex NewView))) (read_file demo_env ''/a'') =
   Some (Some (Some (''/b.thrift'', DefinitionStruct)))"
  by code_simp

lemma Resolve_transparent_witness:
  "\<exists>pf def. read_file demo_env ''/a'' = Some pf \<and>
     type_reference demo_env (''/a'', pf) (Some (typeReference ''b.T'')) = Some def \<and> rsFile def = ''/b.thrift'' \<and>
     gives demo_env (ResolveType demo_env (''/a'', pf) (Some (typeReference ''b.T'')) (NewIndex NewView)) (Some def) \<and>
     gives demo_env (ResolveValue demo_env (''/a'', pf) None (NewIndex NewView)) (value_reference demo_env (''/a'', pf) None) \<and>
     gives demo_env (ResolveService demo_env (''/a'', pf) None (NewIndex NewView)) (service_reference demo_env (''/a'', pf) None)"
proof -
  obtain pf where pf: "read_file demo_env ''/a'' = Some pf" using demo_read by blast
  note g = Resolve_transparent[OF index_good_new[OF view_good_new], of demo_env "(''/a'', pf)" "Some (typeReference ''b.T'')" None None]
  then show ?thesis using demo_resolves pf
    by (cases "type_reference demo_env (''/a'', pf) (Some (typeReference ''b.T''))") (auto simp: gives_def)
qed

lemma definitionFiles_reachable_witness:
  "\<exists>pf. read_file demo_env ''/a'' = Some pf \<and>
     (case definitionFiles demo_env ''/a'' (pfAst pf) ''T'' NewView of (files, v') \<Rightarrow>
       view_good demo_env v' \<and> distinct files \<and> (\<exists>rest. files = ''/a'' # rest) \<and> set files = (include_edge demo_env)\<^sup>* `` {''/a''})"
proof -
  obtain pf where pf: "read_file demo_env ''/a'' = Some pf" using demo_read by blast
  have "map_option (\<lambda>pf. fst (ParseIdent (evApi demo_env) ''/a'' (pfAst pf) ''T'')) (read_file demo_env ''/a'') = Some []"
    by code_simp
  then have "fst (ParseIdent (evApi demo_env) ''/a'' (pfAst pf) ''T'') = []" by (simp add: pf)
  then show ?thesis using definitionFiles_reachable[OF view_good_new pf] pf by auto
qed

lemma UnderlyingType_chain_witness:
  "\<exists>pf k sc' ft'. read_file demo_env ''/a'' = Some pf \<and> k \<le> 32 \<and>
    follow demo_env k ((''/a'', pf), Some (typeReference ''S'')) = Some (sc', ft') \<and>
    (k = 32 \<or> typedef_step demo_env (sc', ft') = None) \<and>
    gives demo_env (UnderlyingType demo_env (''/a'', pf) (Some (typeReference ''S'')) (NewIndex NewView))
      (if k < 32 \<and> dangling demo_env sc' ft' then None else ft', sc')"
proof -
  obtain pf where pf: "read_file demo_env ''/a'' = Some pf" using demo_read by blast
  then show ?thesis
    using UnderlyingType_chain[OF index_good_new[OF view_good_new], of demo_env "(''/a'', pf)" "Some (typeReference ''S'')"] by auto
qed

end
