(* ===== verification/Pipeline.thy ===== *)
theory Pipeline imports SemaRefs
begin

text \<open>
  The analysis pipeline, \<open>sema/pipeline.go\<close>, and the batch fixer, \<open>sema/fixapply.go\<close>.
  An analyzer, a fixer and an action provider are functions; the state of a run is the
  index, with its view, and the report. An error of a run is a list, which is empty for
  the \<open>nil\<close> of \<open>errors.Join\<close>. A panic is \<open>None\<close>.
\<close>

section \<open>Runs\<close>

datatype run_error = Unreadable uri | Analyzer_error bytes

record Config =
  cfDisabled :: "bytes list"
  cfSeverity :: "bytes \<rightharpoonup> DiagSeverity"

definition lintSeverityNames :: "bytes \<rightharpoonup> DiagSeverity" where
  "lintSeverityNames = map_of [(''error'', DiagError), (''warning'', DiagWarning), (''info'', DiagInfo), (''hint'', DiagHint)]"

definition ConfigFromLint :: "bytes list option \<Rightarrow> (bytes \<rightharpoonup> bytes) option \<Rightarrow> Config" where
  "ConfigFromLint disabled severity = \<lparr>
     cfDisabled = (case disabled of None \<Rightarrow> [] | Some ds \<Rightarrow> ds),
     cfSeverity = (case severity of
        None \<Rightarrow> Map.empty
      | Some m \<Rightarrow> (\<lambda>code. case m code of None \<Rightarrow> None | Some name \<Rightarrow> lintSeverityNames name))\<rparr>"

definition disabled :: "Config \<Rightarrow> bytes \<Rightarrow> bool" where
  "disabled c name \<longleftrightarrow> name \<in> set (cfDisabled c)"

record Run =
  ruIndex :: Index
  ruFiles :: "uri list"
  ruReport :: Report
  ruConfig :: Config

definition override_severity :: "Config \<Rightarrow> Diagnostic \<Rightarrow> Diagnostic" where
  "override_severity c d = (case cfSeverity c (diCode d) of None \<Rightarrow> d | Some sev \<Rightarrow> d\<lparr>diSeverity := sev\<rparr>)"

definition report_of :: "Report \<Rightarrow> uri \<Rightarrow> Diagnostic list" where
  "report_of r u = (case r u of None \<Rightarrow> [] | Some ds \<Rightarrow> ds)"

definition Run_Add :: "uri \<Rightarrow> Diagnostic list \<Rightarrow> Run \<Rightarrow> Run" where
  "Run_Add file ds run =
     run\<lparr>ruReport := (ruReport run)(file \<mapsto> report_of (ruReport run) file @ map (override_severity (ruConfig run)) ds)\<rparr>"

record Analyzer =
  azName :: bytes
  azAnalyze :: "Env \<Rightarrow> Run \<Rightarrow> (run_error list \<times> Run) option"

record FileAnalyzer =
  faName :: bytes
  faAnalyzeFile :: "Env \<Rightarrow> scope \<Rightarrow> Index \<Rightarrow> ((run_error + Diagnostic list) \<times> Index) option"

fun each_file :: "FileAnalyzer \<Rightarrow> Env \<Rightarrow> uri list \<Rightarrow> Run \<Rightarrow> (run_error list \<times> Run) option" where
  "each_file fa env [] run = Some ([], run)"
| "each_file fa env (file # files) run =
     (let (pf, v) = env_parse env file (isView (ruIndex run));
          run = run\<lparr>ruIndex := (ruIndex run)\<lparr>isView := v\<rparr>\<rparr> in
      case pf of
        None \<Rightarrow> map_option (\<lambda>(errs, run). (Unreadable file # errs, run)) (each_file fa env files run)
      | Some pf \<Rightarrow> do {
          (r, ix) \<leftarrow> faAnalyzeFile fa env (file, pf) (ruIndex run);
          let run = run\<lparr>ruIndex := ix\<rparr>;
          (case r of
             Inl err \<Rightarrow> map_option (\<lambda>(errs, run). (err # errs, run)) (each_file fa env files run)
           | Inr diags \<Rightarrow> each_file fa env files (Run_Add file diags run)) })"

definition EachFile :: "FileAnalyzer \<Rightarrow> Analyzer" where
  "EachFile fa = \<lparr>azName = faName fa, azAnalyze = (\<lambda>env run. each_file fa env (ruFiles run) run)\<rparr>"

section \<open>Pipelines\<close>

type_synonym Fixer = "Env \<Rightarrow> scope \<Rightarrow> Diagnostic \<Rightarrow> Index \<Rightarrow> (Fix list \<times> Index) option"
type_synonym ActionProvider = "Env \<Rightarrow> scope \<Rightarrow> Span \<Rightarrow> Report \<Rightarrow> Index \<Rightarrow> (Action list \<times> Index) option"

record Pipeline =
  plAnalyzers :: "Analyzer list"
  plFixers :: "Fixer list"
  plProviders :: "ActionProvider list"
  plConfig :: Config

definition Pipeline_New :: "Config \<Rightarrow> Analyzer list \<Rightarrow> Pipeline" where
  "Pipeline_New cfg analyzers = \<lparr>plAnalyzers = analyzers, plFixers = [], plProviders = [], plConfig = cfg\<rparr>"

definition WithAnalyzers :: "Analyzer list \<Rightarrow> Pipeline \<Rightarrow> Pipeline" where
  "WithAnalyzers as p = p\<lparr>plAnalyzers := plAnalyzers p @ as\<rparr>"

definition WithFixers :: "Fixer list \<Rightarrow> Pipeline \<Rightarrow> Pipeline" where
  "WithFixers fs p = p\<lparr>plFixers := plFixers p @ fs\<rparr>"

definition WithProviders :: "ActionProvider list \<Rightarrow> Pipeline \<Rightarrow> Pipeline" where
  "WithProviders ps p = p\<lparr>plProviders := plProviders p @ ps\<rparr>"

fun run_analyzers :: "Config \<Rightarrow> Env \<Rightarrow> Analyzer list \<Rightarrow> Run \<Rightarrow> (run_error list \<times> Run) option" where
  "run_analyzers cfg env [] run = Some ([], run)"
| "run_analyzers cfg env (a # as) run =
     (if disabled cfg (azName a) then run_analyzers cfg env as run
      else do {
        (errs, run) \<leftarrow> azAnalyze a env run;
        (rest, run) \<leftarrow> run_analyzers cfg env as run;
        Some (errs @ rest, run) })"

definition start_run :: "Config \<Rightarrow> uri list \<Rightarrow> View \<Rightarrow> Run" where
  "start_run cfg changed v = \<lparr>ruIndex = NewIndex v, ruFiles = changed, ruReport = Map.empty, ruConfig = cfg\<rparr>"

definition Pipeline_Run :: "Pipeline \<Rightarrow> Env \<Rightarrow> uri list \<Rightarrow> View \<Rightarrow> ((Report \<times> run_error list) \<times> View) option" where
  "Pipeline_Run p env changed v =
     map_option (\<lambda>(errs, run). ((ruReport run, errs), isView (ruIndex run)))
       (run_analyzers (plConfig p) env (plAnalyzers p) (start_run (plConfig p) changed v))"

section \<open>Fixes and actions\<close>

definition fixes_of_diagnostic :: "Pipeline \<Rightarrow> Env \<Rightarrow> scope \<Rightarrow> Diagnostic \<Rightarrow> Index \<Rightarrow> (Fix list \<times> Index) option" where
  "fixes_of_diagnostic p env sc d ix =
     map_option (\<lambda>(fs, ix). (diFixes d @ fs, ix)) (collect_loop (\<lambda>fx. fx env sc d) (plFixers p) ix)"

definition fixesFor :: "Pipeline \<Rightarrow> Env \<Rightarrow> scope \<Rightarrow> Diagnostic list \<Rightarrow> Index \<Rightarrow> (Fix list \<times> Index) option" where
  "fixesFor p env sc ds ix = collect_loop (fixes_of_diagnostic p env sc) ds ix"

definition FixesForFile :: "Pipeline \<Rightarrow> Env \<Rightarrow> uri \<Rightarrow> Report \<Rightarrow> View \<Rightarrow> (Fix list \<times> View) option" where
  "FixesForFile p env file report v =
     (let (pf, v) = env_parse env file v in
      case pf of
        None \<Rightarrow> Some ([], v)
      | Some pf \<Rightarrow> map_option (\<lambda>(fs, ix). (fs, isView ix)) (fixesFor p env (file, pf) (report_of report file) (NewIndex v)))"

definition CodeActions :: "Pipeline \<Rightarrow> Env \<Rightarrow> uri \<Rightarrow> Span \<Rightarrow> Report \<Rightarrow> View \<Rightarrow> (Action list \<times> View) option" where
  "CodeActions p env file sel report v =
     (let (pf, v) = env_parse env file v in
      case pf of
        None \<Rightarrow> Some ([], v)
      | Some pf \<Rightarrow> do {
          (fs, ix) \<leftarrow> fixesFor p env (file, pf) (filter (\<lambda>d. Overlaps (diSpan d) sel) (report_of report file)) (NewIndex v);
          (acts, ix) \<leftarrow> collect_loop (\<lambda>ap. ap env (file, pf) sel report) (plProviders p) ix;
          Some (map (\<lambda>fx. \<lparr>acTitle = fxTitle fx, acFix = True, acFile = file, acEdits = fxEdits fx\<rparr>) fs @ acts, isView ix) })"

end
