(* ===== verification/FixAll.thy ===== *)
theory FixAll imports Pipeline
begin

text \<open>
  The batch fixer \<open>FixAll\<close> of \<open>sema/fixapply.go\<close>. Writing a file is a parameter,
  \<open>persist\<close>, which changes the file source of the environment or fails. The errors that
  end a run early are values; a panic is \<open>None\<close>.
\<close>

section \<open>Data\<close>

definition maxFixPasses :: nat where
  "maxFixPasses = 10"

datatype skip_reason = Parse_errors | Overlaps_another

record SkippedFix =
  sfFile :: uri
  sfFix :: Fix
  sfReason :: skip_reason

datatype fix_error = Run_failed "run_error list" | Apply_failed uri apply_error | Persist_failed uri bytes

record FixResult =
  frApplied :: nat
  frFixedFiles :: "uri list"
  frSkipped :: "SkippedFix list"
  frPasses :: nat
  frRemaining :: Report

type_synonym persist = "uri \<Rightarrow> bytes \<Rightarrow> OverlayFS \<Rightarrow> bytes + OverlayFS"

text \<open>What the loops change: the file source, the view, the changed files, and the counters.\<close>

record fixing =
  fgEnv :: Env
  fgView :: View
  fgChanged :: "uri set"
  fgApplied :: nat
  fgPassApplied :: nat
  fgPassSkipped :: "SkippedFix list"
  fgChanges :: "uri list"

section \<open>One file\<close>

definition hasParseErrors :: "ParsedFile \<Rightarrow> bool" where
  "hasParseErrors pf \<longleftrightarrow> list_ex (\<lambda>e. erSeverity e = SeverityError) (pfErrs pf)"

definition skip_all :: "uri \<Rightarrow> Diagnostic list \<Rightarrow> SkippedFix list" where
  "skip_all u ds = concat (map (\<lambda>d. map (\<lambda>fx. \<lparr>sfFile = u, sfFix = fx, sfReason = Parse_errors\<rparr>) (diFixes d)) ds)"

definition do_persist :: "persist option \<Rightarrow> uri \<Rightarrow> bytes \<Rightarrow> Env \<Rightarrow> fix_error + Env" where
  "do_persist persist u content env =
     (case persist of
        None \<Rightarrow> Inr env
      | Some write \<Rightarrow>
          (case write u content (evSource env) of
             Inl err \<Rightarrow> Inl (Persist_failed u err)
           | Inr src \<Rightarrow> Inr (env\<lparr>evSource := src\<rparr>)))"

text \<open>The body of the loop over the targets; an error keeps the state so far, for the summary.\<close>

definition fix_target :: "Pipeline \<Rightarrow> persist option \<Rightarrow> Report \<Rightarrow> uri \<Rightarrow> fixing \<Rightarrow> (fix_error option \<times> fixing) option" where
  "fix_target p persist report u st =
     (let (pf, v) = env_parse (fgEnv st) u (fgView st); st = st\<lparr>fgView := v\<rparr> in
      case pf of
        None \<Rightarrow> Some (None, st)
      | Some pf \<Rightarrow>
          (if hasParseErrors pf
           then Some (None, st\<lparr>fgPassSkipped := fgPassSkipped st @ skip_all u (report_of report u)\<rparr>)
           else do {
             (fixes, v) \<leftarrow> FixesForFile p (fgEnv st) u report (fgView st);
             let st = st\<lparr>fgView := v\<rparr>;
             if fixes = [] then Some (None, st)
             else do {
               r \<leftarrow> Apply (pfContent pf) fixes;
               (case r of
                  Inl err \<Rightarrow> Some (Some (Apply_failed u err), st)
                | Inr (out, applied, skip) \<Rightarrow>
                    (let st = st\<lparr>fgPassSkipped := fgPassSkipped st @ map (\<lambda>fx. \<lparr>sfFile = u, sfFix = fx, sfReason = Overlaps_another\<rparr>) skip\<rparr> in
                     if applied = [] then Some (None, st)
                     else
                       (case do_persist persist u out (fgEnv st) of
                          Inl err \<Rightarrow> Some (Some err, st)
                        | Inr env \<Rightarrow> Some (None, st\<lparr>fgEnv := env, fgPassApplied := fgPassApplied st + length applied,
                            fgApplied := fgApplied st + length applied, fgChanges := fgChanges st @ [u],
                            fgChanged := insert u (fgChanged st)\<rparr>)))) } }))"

fun fix_targets :: "Pipeline \<Rightarrow> persist option \<Rightarrow> Report \<Rightarrow> uri list \<Rightarrow> fixing \<Rightarrow> (fix_error option \<times> fixing) option" where
  "fix_targets p persist report [] st = Some (None, st)"
| "fix_targets p persist report (u # us) st =
     (case fix_target p persist report u st of
        None \<Rightarrow> None
      | Some (Some err, st) \<Rightarrow> Some (Some err, st)
      | Some (None, st) \<Rightarrow> fix_targets p persist report us st)"

section \<open>Passes\<close>

definition summary :: "fixing \<Rightarrow> FixResult \<Rightarrow> FixResult" where
  "summary st res = res\<lparr>frApplied := fgApplied st, frFixedFiles := sorted_list_of_set (fgChanged st)\<rparr>"

text \<open>\<open>n\<close> passes are left, so the last one has \<open>n = 1\<close>.\<close>

fun fix_passes :: "nat \<Rightarrow> Pipeline \<Rightarrow> persist option \<Rightarrow> uri list \<Rightarrow> FixResult \<Rightarrow> fixing \<Rightarrow> ((FixResult \<times> fix_error option) \<times> fixing) option" where
  "fix_passes 0 p persist targets res st = Some ((summary st res, None), st)"
| "fix_passes (Suc n) p persist targets res st =
     (let res = res\<lparr>frPasses := frPasses res + 1\<rparr> in
      case Pipeline_Run p (fgEnv st) targets (fgView st) of
        None \<Rightarrow> None
      | Some ((report, errs), v) \<Rightarrow>
          (let st = st\<lparr>fgView := v\<rparr> in
           if errs \<noteq> [] then Some ((summary st res, Some (Run_failed errs)), st)
           else
             (let res = res\<lparr>frRemaining := report\<rparr>;
                  st = st\<lparr>fgPassApplied := 0, fgPassSkipped := [], fgChanges := []\<rparr> in
              case fix_targets p persist report targets st of
                None \<Rightarrow> None
              | Some (Some err, st) \<Rightarrow> Some ((summary st res, Some err), st)
              | Some (None, st) \<Rightarrow>
                  (let res = (if fgPassApplied st = 0 \<or> n = 0 then res\<lparr>frSkipped := fgPassSkipped st\<rparr> else res) in
                   if fgPassApplied st = 0 then Some ((summary st res, None), st)
                   else
                     (let env = fgEnv st;
                          (_, v) = Update (env_resolver env) (env_files env) (evGuard env) (fgChanges st) (fgView st) in
                      fix_passes n p persist targets res (st\<lparr>fgView := v\<rparr>))))))"

definition FixAll :: "Pipeline \<Rightarrow> persist option \<Rightarrow> uri list \<Rightarrow> Env \<Rightarrow> View \<Rightarrow> ((FixResult \<times> fix_error option) \<times> fixing) option" where
  "FixAll p persist targets env v =
     fix_passes maxFixPasses p persist (sort targets)
       \<lparr>frApplied = 0, frFixedFiles = [], frSkipped = [], frPasses = 0, frRemaining = Map.empty\<rparr>
       \<lparr>fgEnv = env, fgView = v, fgChanged = {}, fgApplied = 0, fgPassApplied = 0, fgPassSkipped = [], fgChanges = []\<rparr>"

end
