(* ===== verification/Duplicates.thy ===== *)
theory Duplicates imports Pipeline
begin

text \<open>
  The checks on names, numbers and constants of one file:
  \<open>analyzers/duplicate_check.go\<close>, \<open>analyzers/enum_value_check.go\<close> and
  \<open>analyzers/fieldid_check.go\<close>. A dereference of a nil name is \<open>None\<close>. Quoting with
  \<open>strconv.Quote\<close> is the parameter of the environment.
\<close>

section \<open>Names\<close>

type_synonym named = "bytes \<times> Identifier option"

definition fieldNames :: "Field list \<Rightarrow> bytes \<Rightarrow> named list" where
  "fieldNames fs label = map (\<lambda>f. (label, fiName f)) fs"

definition diagnostic :: "bytes \<Rightarrow> DiagSeverity \<Rightarrow> message \<Rightarrow> Span \<Rightarrow> Diagnostic" where
  "diagnostic code sev msg sp = \<lparr>diCode = code, diSeverity = sev, diMessage = msg, diSpan = sp, diFixes = []\<rparr>"

fun check_names :: "ParsedFile \<Rightarrow> bytes set \<Rightarrow> named list \<Rightarrow> Diagnostic list option" where
  "check_names pf seen [] = Some []"
| "check_names pf seen ((label, None) # ds) = check_names pf seen ds"
| "check_names pf seen ((label, Some i) # ds) =
     (if idText i = [] then check_names pf seen ds
      else if idText i \<in> seen then do {
        sp \<leftarrow> SpanOf pf (N_Identifier i);
        rest \<leftarrow> check_names pf seen ds;
        Some (diagnostic CodeDuplicateDef DiagError (Sprintf ''duplicate %s %s'' [label, idText i]) sp # rest) }
      else check_names pf (insert (idText i) seen) ds)"

definition checkNames :: "ParsedFile \<Rightarrow> named list \<Rightarrow> Diagnostic list option" where
  "checkNames pf defs = check_names pf {} defs"

section \<open>Enum values\<close>

fun check_enum_values :: "ParsedFile \<Rightarrow> (64 word \<rightharpoonup> bytes) \<Rightarrow> EnumMemberValue list \<Rightarrow> Diagnostic list option" where
  "check_enum_values pf seen [] = Some []"
| "check_enum_values pf seen (mv # mvs) =
     (if \<not> emKnown mv then check_enum_values pf seen mvs
      else
        (case evName (emMember mv) of
           None \<Rightarrow> None
         | Some i \<Rightarrow>
             (case seen (emValue mv) of
                Some first \<Rightarrow> do {
                  sp \<leftarrow> SpanOf pf (N_Identifier i);
                  rest \<leftarrow> check_enum_values pf seen mvs;
                  Some (diagnostic CodeDuplicateEnumVal DiagError
                    (Sprintf ''enum value %d duplicates %s'' [FormatInt (sint (emValue mv)), first]) sp # rest) }
              | None \<Rightarrow> check_enum_values pf (seen(emValue mv \<mapsto> idText i)) mvs)))"

definition checkEnumValues :: "ParsedFile \<Rightarrow> Enum \<Rightarrow> Diagnostic list option" where
  "checkEnumValues pf enum = check_enum_values pf Map.empty (EnumMemberValues (docTokens (pfAst pf)) enum)"

section \<open>Constants\<close>

definition sourceText :: "ParsedFile \<Rightarrow> Span \<Rightarrow> bytes \<Rightarrow> bytes" where
  "sourceText pf sp fallback =
     (let start = poOffset (spStart sp); stop = poOffset (spEnd sp) in
      if stop > length (pfContent pf) \<or> start \<ge> stop then fallback else Prelude.slice start stop (pfContent pf))"

definition duplicateValueDiagnostic :: "ParsedFile \<Rightarrow> ConstValue \<Rightarrow> bytes \<Rightarrow> Diagnostic option" where
  "duplicateValueDiagnostic pf v label = map_option (\<lambda>sp.
     diagnostic CodeDuplicateValue DiagError (Sprintf ''duplicate %s %s'' [label, sourceText pf sp (cvText v)]) sp)
     (SpanOf pf (N_ConstValue v))"

definition containerValueType :: "FieldType option \<Rightarrow> FieldType option" where
  "containerValueType typ =
     (case typ of
        None \<Rightarrow> None
      | Some ty \<Rightarrow> if ftKind ty \<in> {TypeMap, TypeList, TypeSet} then ftValueType ty else None)"

definition string_key :: "bytes \<Rightarrow> bytes" where
  "string_key t = (if length t \<ge> 2 \<and> hd t = last t \<and> is_quote (hd t) then butlast (tl t) else t)"

function valueKey :: "(bytes \<Rightarrow> bytes) \<Rightarrow> ConstValue \<Rightarrow> bytes" where
  "valueKey quote v =
     (case cvKind v of
        ValueString \<Rightarrow> string_key (cvText v)
      | ValueInt \<Rightarrow> (case ParseInt (cvText v) 64 of Inr n \<Rightarrow> ''int:'' @ FormatInt n | Inl err \<Rightarrow> cvText v)
      | ValueList \<Rightarrow> ''list:'' @ concat (map (\<lambda>item. quote (valueKey quote item)) (cvList v))
      | ValueMap \<Rightarrow> ''map:'' @ concat (map (\<lambda>entry.
          quote (valueKey quote (cmKey entry)) @ '':'' @ quote (valueKey quote (cmValue entry))) (cvMap v))
      | _ \<Rightarrow> cvText v)"
  by pat_completeness auto
termination
  by (relation "measure (\<lambda>(quote, v). size v)") (auto simp: value_size)

declare valueKey.simps [simp del]

definition repeated_value :: "(bytes \<Rightarrow> bytes) \<Rightarrow> ParsedFile \<Rightarrow> bytes \<Rightarrow> ConstValue \<Rightarrow> bytes set \<Rightarrow> (Diagnostic list \<times> bytes set) option" where
  "repeated_value quote pf label v seen =
     (let key = valueKey quote v in
      if key \<in> seen then map_option (\<lambda>d. ([d], insert key seen)) (duplicateValueDiagnostic pf v label)
      else Some ([], insert key seen))"

function checkValueDuplicates :: "(bytes \<Rightarrow> bytes) \<Rightarrow> ParsedFile \<Rightarrow> ConstValue \<Rightarrow> FieldType option \<Rightarrow> Diagnostic list option" where
  "checkValueDuplicates quote pf v typ =
     (case cvKind v of
        ValueMap \<Rightarrow> map_option fst (collect_loop (\<lambda>entry seen. do {
            (dup, seen) \<leftarrow> repeated_value quote pf ''map key'' (cmKey entry) seen;
            inner \<leftarrow> checkValueDuplicates quote pf (cmValue entry) (containerValueType typ);
            Some (dup @ inner, seen) }) (cvMap v) {})
      | ValueList \<Rightarrow> do {
          dups \<leftarrow> (case typ of
              None \<Rightarrow> Some []
            | Some ty \<Rightarrow>
                (if ftKind ty = TypeSet then map_option fst (collect_loop (repeated_value quote pf ''set value'') (cvList v) {})
                 else Some []));
          inner \<leftarrow> map_option fst (collect_loop
            (\<lambda>item u. map_option (\<lambda>ds. (ds, u)) (checkValueDuplicates quote pf item (containerValueType typ))) (cvList v) ());
          Some (dups @ inner) }
      | _ \<Rightarrow> Some [])"
  by pat_completeness auto
termination
  by (relation "measure (\<lambda>(quote, pf, v, typ). size v)") (auto simp: value_size)

declare checkValueDuplicates.simps [simp del]

section \<open>The duplicate check\<close>

text \<open>Results that are appended in order.\<close>

fun append_all :: "'a list option list \<Rightarrow> 'a list option" where
  "append_all [] = Some []"
| "append_all (r # rs) = do { xs \<leftarrow> r; ys \<leftarrow> append_all rs; Some (xs @ ys) }"

definition top_names :: "Document \<Rightarrow> named list" where
  "top_names doc =
     map (\<lambda>v. (''struct'', stName v)) (Structs doc) @ map (\<lambda>v. (''union'', stName v)) (Unions doc) @
     map (\<lambda>v. (''exception'', stName v)) (Exceptions doc) @ map (\<lambda>v. (''enum'', enName v)) (Enums doc) @
     map (\<lambda>v. (''typedef'', tdName v)) (Typedefs doc) @ map (\<lambda>v. (''const'', coName v)) (Consts doc) @
     map (\<lambda>v. (''service'', svName v)) (Services doc)"

definition enum_checks :: "ParsedFile \<Rightarrow> Enum \<Rightarrow> Diagnostic list option list" where
  "enum_checks pf enum = [checkNames pf (map (\<lambda>v. (''member'', evName v)) (enValues enum)), checkEnumValues pf enum]"

definition function_checks :: "ParsedFile \<Rightarrow> Function \<Rightarrow> Diagnostic list option list" where
  "function_checks pf fnx = checkNames pf (fieldNames (fnArgs fnx) ''argument'') #
     (case fnThrows fnx of None \<Rightarrow> [] | Some t \<Rightarrow> [checkNames pf (fieldNames (thFields t) ''field'')])"

definition service_checks :: "ParsedFile \<Rightarrow> Service \<Rightarrow> Diagnostic list option list" where
  "service_checks pf sv = checkNames pf (map (\<lambda>fnx. (''function'', fnName fnx)) (svFunctions sv)) #
     concat (map (function_checks pf) (svFunctions sv))"

text \<open>\<open>cs.Value\<close> is dereferenced without a check.\<close>

definition const_check :: "(bytes \<Rightarrow> bytes) \<Rightarrow> ParsedFile \<Rightarrow> Const \<Rightarrow> Diagnostic list option" where
  "const_check quote pf cs = Option.bind (coValue cs) (\<lambda>v. checkValueDuplicates quote pf v (coType cs))"

definition field_check :: "(bytes \<Rightarrow> bytes) \<Rightarrow> ParsedFile \<Rightarrow> Field \<Rightarrow> Diagnostic list option" where
  "field_check quote pf f = (case fiValue f of None \<Rightarrow> Some [] | Some v \<Rightarrow> checkValueDuplicates quote pf v (fiType f))"

definition duplicate_diagnostics :: "(bytes \<Rightarrow> bytes) \<Rightarrow> ParsedFile \<Rightarrow> Diagnostic list option" where
  "duplicate_diagnostics quote pf =
     (let ast = pfAst pf in
      append_all (checkNames pf (top_names ast) #
        concat (map (enum_checks pf) (Enums ast)) @
        map (\<lambda>fs. checkNames pf (fieldNames fs ''field'')) (map stFields (Structs ast) @ map stFields (Unions ast) @ map stFields (Exceptions ast)) @
        concat (map (service_checks pf) (Services ast)) @
        map (const_check quote pf) (Consts ast) @
        map (field_check quote pf) (concat (map fst (WalkFieldLists ast)))))"

definition DuplicateCheck :: FileAnalyzer where
  "DuplicateCheck = \<lparr>faName = ''DuplicateCheck'',
     faAnalyzeFile = (\<lambda>env sc ix. map_option (\<lambda>ds. (Inr ds, ix)) (duplicate_diagnostics (evQuote env) (snd sc)))\<rparr>"

section \<open>Implicit enum values\<close>

fun name_texts :: "EnumValue list \<Rightarrow> bytes list option" where
  "name_texts [] = Some []"
| "name_texts (ev # evs) = do { i \<leftarrow> evName ev; rest \<leftarrow> name_texts evs; Some (idText i # rest) }"

definition explicit_edit :: "Document \<Rightarrow> EnumMemberValue \<Rightarrow> Edit option" where
  "explicit_edit doc mv = do {
     i \<leftarrow> evName (emMember mv);
     pos \<leftarrow> TokenEndPosition doc (TokStart (N_Identifier i));
     Some \<lparr>eiSpan = \<lparr>spStart = pos, spEnd = pos\<rparr>, eiNewText = '' = '' @ FormatInt (sint (emValue mv))\<rparr> }"

definition implicit_value :: "ParsedFile \<Rightarrow> EnumMemberValue \<Rightarrow> Diagnostic option" where
  "implicit_value pf mv = do {
     i \<leftarrow> evName (emMember mv);
     sp \<leftarrow> SpanOf pf (N_Identifier i);
     let value = FormatInt (sint (emValue mv));
     let msg = (if emKnown mv then Sprintf ''%s has no explicit value (implicitly %d)'' [idText i, value]
       else Sprintf ''%s has no explicit value'' [idText i]);
     fxs \<leftarrow> (if emKnown mv
       then map_option (\<lambda>e. [\<lparr>fxTitle = ''Add explicit value '' @ value @ '' to '' @ idText i, fxEdits = [e]\<rparr>]) (explicit_edit (pfAst pf) mv)
       else Some []);
     Some ((diagnostic CodeImplicitEnumValue DiagWarning msg sp)\<lparr>diFixes := fxs\<rparr>) }"

text \<open>A member whose name appeared before is skipped: \<open>firstIdx\<close> of its name is not its index.\<close>

fun implicit_values :: "ParsedFile \<Rightarrow> bytes list \<Rightarrow> EnumMemberValue list \<Rightarrow> Diagnostic list option" where
  "implicit_values pf before [] = Some []"
| "implicit_values pf before (mv # mvs) = do {
     i \<leftarrow> evName (emMember mv);
     d \<leftarrow> (if evValue (emMember mv) \<noteq> None \<or> idText i \<in> set before then Some []
       else map_option (\<lambda>d. [d]) (implicit_value pf mv));
     rest \<leftarrow> implicit_values pf (before @ [idText i]) mvs;
     Some (d @ rest) }"

definition enum_value_diagnostics :: "ParsedFile \<Rightarrow> Diagnostic list option" where
  "enum_value_diagnostics pf =
     append_all (map (\<lambda>enum. do {
       names \<leftarrow> name_texts (enValues enum);
       implicit_values pf [] (EnumMemberValues (docTokens (pfAst pf)) enum) }) (Enums (pfAst pf)))"

definition EnumValueCheck :: FileAnalyzer where
  "EnumValueCheck = \<lparr>faName = ''EnumValueCheck'',
     faAnalyzeFile = (\<lambda>env sc ix. map_option (\<lambda>ds. (Inr ds, ix)) (enum_value_diagnostics (snd sc)))\<rparr>"

section \<open>Field ids\<close>

definition fieldIDRangeDiagnostic :: "Token list \<Rightarrow> Field \<Rightarrow> Diagnostic" where
  "fieldIDRangeDiagnostic toks f = diagnostic CodeFieldIDRange DiagError
     (Sprintf ''field id should be a positive integer in [1, 32767]'' []) (TokenSpan toks (fiFieldID f))"

definition fieldIDConflictDiagnostic :: "Token list \<Rightarrow> Field \<Rightarrow> Diagnostic" where
  "fieldIDConflictDiagnostic toks f = diagnostic CodeFieldIDConflict DiagError
     (Sprintf ''field id conflict'' []) (TokenSpan toks (fiFieldID f))"

text \<open>The id of a field as the check reads it: absent, with an error, or a number.\<close>

definition field_id :: "Token list \<Rightarrow> Field \<Rightarrow> (num_error + int) option" where
  "field_id toks f = map_option (\<lambda>t. ParseInt (tkText (toks ! t)) 32) (fiFieldID f)"

text \<open>The first loop: the diagnostics of ids out of the range of 32 bits. \<open>fieldIDSet\<close> maps every id to its fields.\<close>

definition overlong_ids :: "Token list \<Rightarrow> Field list \<Rightarrow> Diagnostic list" where
  "overlong_ids toks fs = map (fieldIDRangeDiagnostic toks) (filter (\<lambda>f. field_id toks f = Some (Inl ErrRange)) fs)"

definition fieldIDSet :: "Token list \<Rightarrow> Field list \<Rightarrow> int \<Rightarrow> Field list" where
  "fieldIDSet toks fs n = filter (\<lambda>f. field_id toks f = Some (Inr n)) fs"

definition field_ids :: "Token list \<Rightarrow> Field list \<Rightarrow> int set" where
  "field_ids toks fs = {n. fieldIDSet toks fs n \<noteq> []}"

definition id_diagnostics :: "Token list \<Rightarrow> Field list \<Rightarrow> int \<Rightarrow> Diagnostic list" where
  "id_diagnostics toks fs n =
     (let same = fieldIDSet toks fs n in
      (if n < 1 \<or> n > 32767 then map (fieldIDRangeDiagnostic toks) same else []) @
      (if length same = 1 then [] else map (fieldIDConflictDiagnostic toks) same))"

text \<open>
  The second loop iterates over a map. Its order, which Go leaves open, is a parameter:
  for every list of fields the ids in some order.
\<close>

type_synonym id_order = "Field list \<Rightarrow> int list"

definition field_list_diagnostics :: "id_order \<Rightarrow> Token list \<Rightarrow> Field list \<Rightarrow> Diagnostic list" where
  "field_list_diagnostics order toks fs = overlong_ids toks fs @ concat (map (id_diagnostics toks fs) (order fs))"

definition by_position :: "Diagnostic \<Rightarrow> Diagnostic \<Rightarrow> int" where
  "by_position a b =
     (if poLine (spStart (diSpan a)) \<noteq> poLine (spStart (diSpan b))
      then int (poLine (spStart (diSpan a))) - int (poLine (spStart (diSpan b)))
      else int (poCol (spStart (diSpan a))) - int (poCol (spStart (diSpan b))))"

definition field_id_diagnostics :: "id_order \<Rightarrow> Document \<Rightarrow> Diagnostic list" where
  "field_id_diagnostics order doc =
     SortStableFunc by_position (concat (map (\<lambda>(fs, _). field_list_diagnostics order (docTokens doc) fs) (WalkFieldLists doc)))"

definition FieldIDCheck :: "id_order \<Rightarrow> FileAnalyzer" where
  "FieldIDCheck order = \<lparr>faName = ''FieldIDCheck'',
     faAnalyzeFile = (\<lambda>env sc ix. Some (Inr (field_id_diagnostics order (pfAst (snd sc))), ix))\<rparr>"

end
