(* ===== verification/TypeCheck.thy ===== *)
theory TypeCheck imports Duplicates
begin

text \<open>
  The checks that resolve names: \<open>analyzers/semantic_analysis.go\<close> and
  \<open>analyzers/non_scalar_map_key_check.go\<close>. The state is the index of the run.
\<close>

section \<open>Kinds of types and values\<close>

definition isKind :: "FieldType option \<Rightarrow> FieldTypeKind list \<Rightarrow> bool" where
  "isKind ft kinds \<longleftrightarrow> (case ft of None \<Rightarrow> False | Some ty \<Rightarrow> ftKind ty \<in> set kinds)"

definition isBase :: "FieldType option \<Rightarrow> TokenKind \<Rightarrow> bool" where
  "isBase ft base \<longleftrightarrow> (case ft of None \<Rightarrow> False | Some ty \<Rightarrow> ftKind ty = TypeBase \<and> ftBase ty = base)"

definition underlyingName :: "FieldType option \<Rightarrow> bytes" where
  "underlyingName ft =
     (case ft of
        None \<Rightarrow> ''unknown''
      | Some ty \<Rightarrow>
          (case ftKind ty of
             TypeIdent \<Rightarrow> (case ftIdent ty of Some i \<Rightarrow> idText i | None \<Rightarrow> ''unknown'')
           | TypeMap \<Rightarrow> ''map'' | TypeList \<Rightarrow> ''list'' | TypeSet \<Rightarrow> ''set''
           | TypeBase \<Rightarrow> TokenKind_String (ftBase ty)))"

definition kindName :: "ConstValueKind \<Rightarrow> bytes" where
  "kindName k =
     (case k of ValueList \<Rightarrow> ''list'' | ValueMap \<Rightarrow> ''map'' | ValueString \<Rightarrow> ''string'' | ValueDouble \<Rightarrow> ''double''
      | ValueInt \<Rightarrow> ''int'' | ValueIdent \<Rightarrow> ''identifier'')"

definition bool_text :: "bytes \<Rightarrow> bool" where
  "bool_text t \<longleftrightarrow> t = ''true'' \<or> t = ''false''"

definition gotName :: "ConstValue \<Rightarrow> bytes" where
  "gotName v = (if cvKind v = ValueInt \<and> bool_text (cvText v) then ''bool'' else kindName (cvKind v))"

section \<open>Diagnostics\<close>

definition mismatchDiagnostic :: "ParsedFile \<Rightarrow> ConstValue \<Rightarrow> bytes \<Rightarrow> bytes \<Rightarrow> Diagnostic option" where
  "mismatchDiagnostic pf v expected got = map_option
     (diagnostic CodeValueTypeMismatch DiagError (Sprintf ''expect %s but got %s'' [expected, got])) (SpanOf pf (N_ConstValue v))"

definition kindMismatch :: "ParsedFile \<Rightarrow> ConstValue \<Rightarrow> FieldType option \<Rightarrow> Diagnostic list option" where
  "kindMismatch pf v ut = map_option (\<lambda>d. [d]) (mismatchDiagnostic pf v (underlyingName ut) (gotName v))"

definition unknownFieldDiagnostic :: "ParsedFile \<Rightarrow> ConstValue \<Rightarrow> bytes \<Rightarrow> bytes \<Rightarrow> Diagnostic option" where
  "unknownFieldDiagnostic pf key typeName name = map_option
     (diagnostic CodeValueTypeMismatch DiagError (Sprintf ''no field named %q in %s'' [name, typeName])) (SpanOf pf (N_ConstValue key))"

section \<open>Matching of values\<close>

text \<open>The fields of a struct-like type; a list without fields is \<open>nil\<close>, as is no struct.\<close>

definition structFields :: "Env \<Rightarrow> FieldType option \<Rightarrow> scope \<Rightarrow> Index \<Rightarrow> ((Field list \<times> scope) option \<times> Index) option" where
  "structFields env ut typePf ix =
     (if \<not> isKind ut [TypeIdent] then Some (None, ix)
      else do {
        (def, ix) \<leftarrow> ResolveType env typePf ut ix;
        Some (case def of
            None \<Rightarrow> None
          | Some d \<Rightarrow>
              (case rsNode d of
                 N_Struct s \<Rightarrow> if stFields s = [] then None else Some (stFields s, (rsFile d, rsParsed d))
               | _ \<Rightarrow> None), ix) })"

definition identValueMatches :: "Env \<Rightarrow> scope \<Rightarrow> FieldType option \<Rightarrow> ConstValue \<Rightarrow> Index \<Rightarrow> (bool \<times> Index) option" where
  "identValueMatches env sc ut v ix =
     (if \<not> isBase ut TokenBool then Some (True, ix)
      else do {
        (def, ix) \<leftarrow> ResolveValue env sc (Some v) ix;
        (case def of
           None \<Rightarrow> Some (True, ix)
         | Some d \<Rightarrow>
             (case rsNode d of
                N_Const c \<Rightarrow> do {
                  ((bt, _), ix) \<leftarrow> UnderlyingType env (rsFile d, rsParsed d) (coType c) ix;
                  Some (isBase bt TokenBool, ix) }
              | _ \<Rightarrow> Some (False, ix))) })"

definition intValueMatches :: "Env \<Rightarrow> FieldType option \<Rightarrow> scope \<Rightarrow> ConstValue \<Rightarrow> Index \<Rightarrow> (bool \<times> Index) option" where
  "intValueMatches env ut typePf v ix =
     (if bool_text (cvText v) then Some (isBase ut TokenBool, ix)
      else
        (case ut of
           None \<Rightarrow> Some (False, ix)
         | Some ty \<Rightarrow>
             (case ftKind ty of
                TypeBase \<Rightarrow> Some (ftBase ty \<in> {TokenByte, TokenI8, TokenI16, TokenI32, TokenI64}, ix)
              | TypeIdent \<Rightarrow> do {
                  (def, ix) \<leftarrow> ResolveType env typePf ut ix;
                  Some (case def of None \<Rightarrow> False | Some d \<Rightarrow> rsKind d = DefinitionEnum, ix) }
              | _ \<Rightarrow> Some (False, ix))))"

definition fields_by_name :: "Field list \<Rightarrow> bytes \<rightharpoonup> Field" where
  "fields_by_name fs = fold (\<lambda>f m. case fiName f of None \<Rightarrow> m | Some i \<Rightarrow> m(idText i \<mapsto> f)) fs Map.empty"

definition accept_or_mismatch :: "scope \<Rightarrow> ConstValue \<Rightarrow> FieldType option \<Rightarrow> (bool \<times> Index) option \<Rightarrow> (Diagnostic list \<times> Index) option" where
  "accept_or_mismatch reportPf v ut r = do {
     (matches, ix) \<leftarrow> r;
     if matches then Some ([], ix) else map_option (\<lambda>ds. (ds, ix)) (kindMismatch (snd reportPf) v ut) }"

text \<open>The recursion is on the value; \<open>checkMapEntries\<close>, \<open>checkListEntries\<close> and \<open>checkStructEntries\<close> are its loops.\<close>

function checkValueType :: "Env \<Rightarrow> scope \<Rightarrow> scope \<Rightarrow> FieldType option \<Rightarrow> ConstValue \<Rightarrow> Index \<Rightarrow> (Diagnostic list \<times> Index) option" where
  "checkValueType env reportPf scopePf expected v ix =
     (case UnderlyingType env scopePf expected ix of
        None \<Rightarrow> None
      | Some ((None, _), ix) \<Rightarrow> Some ([], ix)
      | Some ((Some ut, typePf), ix) \<Rightarrow>
          (case cvKind v of
             ValueMap \<Rightarrow>
               (if ftKind ut = TypeMap
                then collect_loop (\<lambda>entry ix. do {
                  (a, ix) \<leftarrow> checkValueType env reportPf typePf (ftKeyType ut) (cmKey entry) ix;
                  (b, ix) \<leftarrow> checkValueType env reportPf typePf (ftValueType ut) (cmValue entry) ix;
                  Some (a @ b, ix) }) (cvMap v) ix
                else
                  (case structFields env (Some ut) typePf ix of
                     None \<Rightarrow> None
                   | Some (None, ix) \<Rightarrow> accept_or_mismatch reportPf v (Some ut) (Some (False, ix))
                   | Some (Some (fs, structPf), ix) \<Rightarrow> collect_loop (\<lambda>entry ix.
                       if cvKind (cmKey entry) \<noteq> ValueString
                       then map_option (\<lambda>d. ([d], ix))
                         (mismatchDiagnostic (snd reportPf) (cmKey entry) ''field name'' (kindName (cvKind (cmKey entry))))
                       else
                         (let name = trim_quotes (cvText (cmKey entry)) in
                          case fields_by_name fs name of
                            None \<Rightarrow> map_option (\<lambda>d. ([d], ix))
                              (unknownFieldDiagnostic (snd reportPf) (cmKey entry) (underlyingName (Some ut)) name)
                          | Some f \<Rightarrow> checkValueType env reportPf structPf (fiType f) (cmValue entry) ix)) (cvMap v) ix))
           | ValueList \<Rightarrow>
               (if isKind (Some ut) [TypeList, TypeSet]
                then collect_loop (\<lambda>elem ix. checkValueType env reportPf typePf (ftValueType ut) elem ix) (cvList v) ix
                else accept_or_mismatch reportPf v (Some ut) (Some (False, ix)))
           | ValueString \<Rightarrow> accept_or_mismatch reportPf v (Some ut) (Some (isBase (Some ut) TokenString, ix))
           | ValueDouble \<Rightarrow> accept_or_mismatch reportPf v (Some ut) (Some (isBase (Some ut) TokenDouble, ix))
           | ValueInt \<Rightarrow> accept_or_mismatch reportPf v (Some ut) (intValueMatches env (Some ut) typePf v ix)
           | ValueIdent \<Rightarrow> accept_or_mismatch reportPf v (Some ut) (identValueMatches env reportPf (Some ut) v ix)))"
  by pat_completeness auto
termination
  by (relation "measure (\<lambda>(env, reportPf, scopePf, expected, v, ix). size v)") (auto simp: value_size)

declare checkValueType.simps [simp del]

section \<open>Existence\<close>

definition checkAnnotationTypeExist :: "Env \<Rightarrow> scope \<Rightarrow> StructuredAnnotation \<Rightarrow> Index \<Rightarrow> (Diagnostic list \<times> Index) option" where
  "checkAnnotationTypeExist env sc sa ix =
     (case saName sa of
        None \<Rightarrow> Some ([], ix)
      | Some i \<Rightarrow> do {
          (def, ix) \<leftarrow> ResolveType env sc (Some (typeReference (idText i))) ix;
          if def \<noteq> None then Some ([], ix)
          else map_option (\<lambda>sp. ([diagnostic CodeUnknownAnnotation DiagError (Sprintf ''annotation type doesn't exist'' []) sp], ix))
            (SpanOf (snd sc) (N_Identifier i)) })"

definition checkConstValueExist :: "Env \<Rightarrow> scope \<Rightarrow> ConstValue \<Rightarrow> Index \<Rightarrow> (Diagnostic list \<times> Index) option" where
  "checkConstValueExist env sc v ix =
     (if cvKind v \<noteq> ValueIdent \<or> bool_text (cvText v) then Some ([], ix)
      else do {
        (def, ix) \<leftarrow> ResolveValue env sc (Some v) ix;
        if def \<noteq> None then Some ([], ix)
        else map_option (\<lambda>sp. ([diagnostic CodeUndefinedValue DiagError (Sprintf ''default value doesn't exist'' []) sp], ix))
          (SpanOf (snd sc) (N_ConstValue v)) })"

definition checkTypeExist :: "Env \<Rightarrow> scope \<Rightarrow> FieldType \<Rightarrow> Index \<Rightarrow> (Diagnostic list \<times> Index) option" where
  "checkTypeExist env sc ft ix =
     (if ftKind ft \<noteq> TypeIdent then Some ([], ix)
      else do {
        (def, ix) \<leftarrow> ResolveType env sc (Some ft) ix;
        if def \<noteq> None then Some ([], ix)
        else do {
          i \<leftarrow> ftIdent ft;
          sp \<leftarrow> SpanOf (snd sc) (N_Identifier i);
          Some ([diagnostic CodeUndefinedType DiagError (Sprintf ''field type doesn't exist'' []) sp], ix) } })"

definition check_node :: "Env \<Rightarrow> scope \<Rightarrow> AnyNode \<Rightarrow> Index \<Rightarrow> (Diagnostic list \<times> Index) option" where
  "check_node env sc n ix =
     (case n of
        A_Node (N_FieldType ft) \<Rightarrow> checkTypeExist env sc ft ix
      | A_Node (N_Field f) \<Rightarrow>
          (case fiValue f of None \<Rightarrow> Some ([], ix) | Some v \<Rightarrow> checkValueType env sc sc (fiType f) v ix)
      | A_Node (N_Const c) \<Rightarrow>
          (case coValue c of None \<Rightarrow> Some ([], ix) | Some v \<Rightarrow> checkValueType env sc sc (coType c) v ix)
      | A_Node (N_ConstValue v) \<Rightarrow> checkConstValueExist env sc v ix
      | A_Node (N_StructuredAnnotation sa) \<Rightarrow> checkAnnotationTypeExist env sc sa ix
      | _ \<Rightarrow> Some ([], ix))"

text \<open>A visitor of a walk that appends to a list, and stops at a panic.\<close>

definition gather_visit :: "(AnyNode \<Rightarrow> 's \<Rightarrow> ('y list \<times> 's) option) \<Rightarrow> AnyNode \<Rightarrow> ('y list \<times> 's) option \<Rightarrow> bool \<times> ('y list \<times> 's) option" where
  "gather_visit f n r =
     (True, case r of None \<Rightarrow> None | Some (ys, s) \<Rightarrow> map_option (\<lambda>(zs, s). (ys @ zs, s)) (f n s))"

definition gather_walk :: "(AnyNode \<Rightarrow> 's \<Rightarrow> ('y list \<times> 's) option) \<Rightarrow> Document \<Rightarrow> 's \<Rightarrow> ('y list \<times> 's) option" where
  "gather_walk f doc s = Option.bind (Walk (gather_visit f) (A_Document doc) (Some ([], s))) (\<lambda>r. r)"

definition checkDefinitionExist :: "Env \<Rightarrow> scope \<Rightarrow> Index \<Rightarrow> (Diagnostic list \<times> Index) option" where
  "checkDefinitionExist env sc ix = gather_walk (check_node env sc) (pfAst (snd sc)) ix"

definition SemanticAnalysis :: FileAnalyzer where
  "SemanticAnalysis = \<lparr>faName = ''SemanticAnalysis'',
     faAnalyzeFile = (\<lambda>env sc ix. map_option (\<lambda>(ds, ix). (Inr ds, ix)) (checkDefinitionExist env sc ix))\<rparr>"

section \<open>Map keys\<close>

definition kindLabel :: "DefinitionKind \<Rightarrow> bytes" where
  "kindLabel k =
     (case k of DefinitionStruct \<Rightarrow> ''struct'' | DefinitionUnion \<Rightarrow> ''union'' | DefinitionException \<Rightarrow> ''exception'' | _ \<Rightarrow> ''type'')"

text \<open>The depth is bounded by 8; \<open>n\<close> is the number of further steps that are allowed.\<close>

fun mapKeyKind :: "nat \<Rightarrow> Env \<Rightarrow> scope \<Rightarrow> FieldType option \<Rightarrow> Index \<Rightarrow> (bytes \<times> Index) option" where
  "mapKeyKind n env sc key ix =
     (case key of
        None \<Rightarrow> Some ([], ix)
      | Some ty \<Rightarrow>
          (case ftKind ty of
             TypeBase \<Rightarrow> Some ([], ix)
           | TypeMap \<Rightarrow> Some (''map'', ix)
           | TypeList \<Rightarrow> Some (''list'', ix)
           | TypeSet \<Rightarrow> Some (''set'', ix)
           | TypeIdent \<Rightarrow>
               (let name = TypeReferenceName key in
                if name = [] \<or> IsBasicType name then Some ([], ix)
                else
                  (case n of
                     0 \<Rightarrow> Some ([], ix)
                   | Suc n \<Rightarrow> do {
                       (def, ix) \<leftarrow> ResolveType env sc key ix;
                       (case def of
                          None \<Rightarrow> Some ([], ix)
                        | Some d \<Rightarrow>
                            (if rsKind d \<in> {DefinitionStruct, DefinitionUnion, DefinitionException} then Some (kindLabel (rsKind d), ix)
                             else if rsKind d = DefinitionTypedef
                             then (case rsNode d of
                                 N_Typedef td \<Rightarrow> mapKeyKind n env (rsFile d, rsParsed d) (tdType td) ix
                               | _ \<Rightarrow> Some ([], ix))
                             else Some ([], ix))) }))))"

declare mapKeyKind.simps [simp del]

definition checkMapKeyScalar :: "Env \<Rightarrow> scope \<Rightarrow> FieldType \<Rightarrow> Index \<Rightarrow> (Diagnostic list \<times> Index) option" where
  "checkMapKeyScalar env sc key ix = do {
     (label, ix) \<leftarrow> mapKeyKind 9 env sc (Some key) ix;
     if label = [] then Some ([], ix)
     else map_option (\<lambda>sp. ([diagnostic CodeNonScalarMapKey DiagWarning (Sprintf ''map key must be a scalar type, found %s'' [label]) sp], ix))
       (SpanOf (snd sc) (N_FieldType key)) }"

definition map_key_node :: "Env \<Rightarrow> scope \<Rightarrow> AnyNode \<Rightarrow> Index \<Rightarrow> (Diagnostic list \<times> Index) option" where
  "map_key_node env sc n ix =
     (case n of
        A_Node (N_FieldType ft) \<Rightarrow>
          (case ftKeyType ft of
             None \<Rightarrow> Some ([], ix)
           | Some key \<Rightarrow> if ftKind ft \<noteq> TypeMap then Some ([], ix) else checkMapKeyScalar env sc key ix)
      | _ \<Rightarrow> Some ([], ix))"

definition NonScalarMapKeyCheck :: FileAnalyzer where
  "NonScalarMapKeyCheck = \<lparr>faName = ''NonScalarMapKeyCheck'',
     faAnalyzeFile = (\<lambda>env sc ix. map_option (\<lambda>(ds, ix). (Inr ds, ix)) (gather_walk (map_key_node env sc) (pfAst (snd sc)) ix))\<rparr>"

end
