(* ===== verification/IncludeChecks.thy ===== *)
theory IncludeChecks imports TypeCheck
begin

text \<open>
  The checks on includes and on parse errors: \<open>analyzers/cycle_detect.go\<close>,
  \<open>analyzers/unused_include_check.go\<close>, \<open>analyzers/include_shadow_check.go\<close> and
  \<open>analyzers/parse.go\<close>.
\<close>

section \<open>Cycles\<close>

record IncludeEdge =
  ieFile :: uri
  ieInclude :: Include
  iePF :: ParsedFile

type_synonym closure = "(uri, IncludeEdge list) fmap"

definition closure_edges :: "closure \<Rightarrow> uri \<Rightarrow> IncludeEdge list" where
  "closure_edges m u = (case fmlookup m u of None \<Rightarrow> [] | Some es \<Rightarrow> es)"

text \<open>The statements of a file that have a path.\<close>

definition edge_work :: "uri \<Rightarrow> ParsedFile \<Rightarrow> (uri \<times> ParsedFile \<times> Include) list" where
  "edge_work u pf = map (\<lambda>inc. (u, pf, inc)) (filter (\<lambda>inc. incPath inc \<noteq> None) (Includes (pfAst pf)))"

definition add_include_edge :: "uri \<Rightarrow> IncludeEdge \<Rightarrow> closure \<Rightarrow> closure" where
  "add_include_edge u e m = fmupd u (closure_edges m u @ [e]) m"

definition includes_of :: "Env \<Rightarrow> uri \<Rightarrow> View \<Rightarrow> (uri \<times> ParsedFile \<times> Include) list \<times> View" where
  "includes_of env u v = (let (pf, v) = env_parse env u v in (case pf of None \<Rightarrow> [] | Some pf \<Rightarrow> edge_work u pf, v))"

text \<open>
  \<open>getIncludes\<close> with an explicit stack of the statements that the calls still open have to
  visit. It ends since every file is entered into the map by its first statement.
\<close>

definition pending_files :: "Env \<Rightarrow> View \<Rightarrow> (uri \<times> ParsedFile \<times> Include) list \<Rightarrow> closure \<Rightarrow> uri set" where
  "pending_files env v work m = fset (reach env v) \<union> fst ` set work - fset (fmdom m)"

definition work_order :: "((Env \<times> View \<times> (uri \<times> ParsedFile \<times> Include) list \<times> closure) \<times>
    (Env \<times> View \<times> (uri \<times> ParsedFile \<times> Include) list \<times> closure)) set" where
  "work_order = measures [\<lambda>(env, v, work, m). card (pending_files env v work m),
     \<lambda>(env, v, work, m). length (filter (\<lambda>w. fst w |\<in>| fmdom m) work)]"

lemma work_order_wf: "wf work_order"
  by (simp add: work_order_def)

lemma work_step:
  assumes "fst ` set new \<subseteq> insert u (fset (reach env v))" "reach env v' = reach env v"
    and "\<forall>w \<in> set new. fst w |\<notin>| fmdom (add_include_edge u e m)"
  shows "((env, v', new @ work, add_include_edge u e m), env, v, (u, w) # work, m) \<in> work_order"
proof -
  let ?m = "add_include_edge u e m"
  have dom: "fmdom ?m = finsert u (fmdom m)" by (simp add: add_include_edge_def)
  have sub: "pending_files env v' (new @ work) ?m \<subseteq> pending_files env v ((u, w) # work) m"
    using assms by (auto simp: pending_files_def dom)
  have fin: "finite (pending_files env v ((u, w) # work) m)" by (simp add: pending_files_def)
  have none: "filter (\<lambda>w. fst w |\<in>| fmdom ?m) new = []" using assms(3) by (simp add: filter_empty_conv)
  show ?thesis
  proof (cases "u |\<in>| fmdom m")
    case True
    then have "finsert u (fmdom m) = fmdom m" by auto
    then show ?thesis using card_mono[OF fin sub] True none by (auto simp: dom work_order_def)
  next
    case False
    then have "pending_files env v' (new @ work) ?m \<subset> pending_files env v ((u, w) # work) m"
      by (intro psubsetI[OF sub]) (auto simp: pending_files_def dom)
    then show ?thesis using psubset_card_mono[OF fin] by (simp add: work_order_def)
  qed
qed

lemma work_skip: "((env, v, work, add_include_edge u e m), env, v, (u, w) # work, m) \<in> work_order"
  using work_step[of "[]"] by simp

lemma includes_of_reach:
  assumes "includes_of env u v = (new, v')"
  shows "reach env v' = reach env v" "fst ` set new \<subseteq> fset (reach env v)" "fst ` set new \<subseteq> {u}"
proof -
  obtain p where p: "env_parse env u v = (p, v')" using assms by (auto simp: includes_of_def split: prod.splits)
  show "reach env v' = reach env v" by (rule env_parse_reach(1)[OF p])
  show "fst ` set new \<subseteq> fset (reach env v)" "fst ` set new \<subseteq> {u}"
    using assms p env_parse_reach(2)[of env u v _ v'] by (auto simp: includes_of_def edge_work_def split: option.splits)
qed

lemma work_visit:
  assumes "(new, v') = includes_of env i v" "i |\<notin>| fmdom (add_include_edge u e m)"
  shows "((env, v', new @ work, add_include_edge u e m), env, v, (u, w) # work, m) \<in> work_order"
  using includes_of_reach[OF assms(1)[symmetric]] assms(2) by (intro work_step) auto

function get_includes :: "Env \<Rightarrow> View \<Rightarrow> (uri \<times> ParsedFile \<times> Include) list \<Rightarrow> closure \<Rightarrow> closure \<times> View" where
  "get_includes env v [] m = (m, v)"
| "get_includes env v ((u, pf, inc) # work) m =
     (let includeURI = env_resolve env u (PathText (docTokens (pfAst pf)) (Some inc));
          m = add_include_edge u \<lparr>ieFile = includeURI, ieInclude = inc, iePF = pf\<rparr> m in
      if includeURI |\<in>| fmdom m then get_includes env v work m
      else (let (new, v) = includes_of env includeURI v in get_includes env v (new @ work) m))"
  by pat_completeness auto
termination
  by (relation work_order) (auto simp: work_order_wf intro: work_skip work_visit)

definition getIncludes :: "Env \<Rightarrow> uri \<Rightarrow> closure \<Rightarrow> View \<Rightarrow> closure \<times> View" where
  "getIncludes env file m v = (let (work, v) = includes_of env file v in get_includes env v work m)"

definition cycleDiagnostic :: "IncludeEdge \<Rightarrow> Diagnostic option" where
  "cycleDiagnostic e = map_option
     (diagnostic CodeIncludeCycle DiagWarning (Sprintf ''cycle dependency in %s'' [ieFile e])) (SpanOf (iePF e) (N_Include (ieInclude e)))"

text \<open>The edges of one file; \<open>run.Add\<close> is called for each one that closes a cycle.\<close>

fun report_cycles :: "uri \<Rightarrow> uri list \<Rightarrow> IncludeEdge list \<Rightarrow> Run \<Rightarrow> Run option" where
  "report_cycles file deps [] run = Some run"
| "report_cycles file deps (e # es) run =
     (if ieFile e \<notin> set deps then report_cycles file deps es run
      else do { d \<leftarrow> cycleDiagnostic e; report_cycles file deps es (Run_Add file [d] run) })"

text \<open>The loop over the map; its order does not matter, since each file has a report of its own.\<close>

definition cycle_analyze :: "Env \<Rightarrow> Run \<Rightarrow> (run_error list \<times> Run) option" where
  "cycle_analyze env run =
     (let (m, v) = fold (\<lambda>file (m, v). getIncludes env file m v) (ruFiles run) (fmempty, isView (ruIndex run));
          run = run\<lparr>ruIndex := (ruIndex run)\<lparr>isView := v\<rparr>\<rparr> in
      map_option (\<lambda>run. ([], run))
        (fold_option (\<lambda>file run. report_cycles file (Dependents v file) (closure_edges m file) run) (sorted_list_of_fset (fmdom m)) run))"

definition CycleCheck :: Analyzer where
  "CycleCheck = \<lparr>azName = ''CycleCheck'', azAnalyze = cycle_analyze\<rparr>"

section \<open>Parse errors\<close>

text \<open>The position of an error is both ends of its span.\<close>

definition parseErrorDiagnostic :: "Error \<Rightarrow> Diagnostic" where
  "parseErrorDiagnostic err =
     (let pos = \<lparr>poLine = erLine err, poCol = erCol err, poOffset = erOffset err\<rparr> in
      diagnostic CodeParseError (if erSeverity err = SeverityWarning then DiagWarning else DiagError) (erMessage err)
        \<lparr>spStart = pos, spEnd = pos\<rparr>)"

fun parse_analyze :: "Env \<Rightarrow> uri list \<Rightarrow> Run \<Rightarrow> (run_error list \<times> Run) option" where
  "parse_analyze env [] run = Some ([], run)"
| "parse_analyze env (file # files) run =
     (let (pf, v) = env_parse env file (isView (ruIndex run));
          run = run\<lparr>ruIndex := (ruIndex run)\<lparr>isView := v\<rparr>\<rparr> in
      case pf of
        None \<Rightarrow> map_option (\<lambda>(errs, run). (Unreadable file # errs, run)) (parse_analyze env files run)
      | Some pf \<Rightarrow> parse_analyze env files (fold (\<lambda>e. Run_Add file [parseErrorDiagnostic e]) (pfErrs pf) run))"

definition ParseCheck :: Analyzer where
  "ParseCheck = \<lparr>azName = ''Parse'', azAnalyze = (\<lambda>env run. parse_analyze env (ruFiles run) run)\<rparr>"

section \<open>Unused includes\<close>

text \<open>The file of a reference, unless it is unresolved or the file itself.\<close>

definition resolveReferenceFile :: "Env \<Rightarrow> scope \<Rightarrow> Reference \<Rightarrow> Index \<Rightarrow> (uri option \<times> Index) option" where
  "resolveReferenceFile env sc r ix = do {
     (def, ix) \<leftarrow> resolveReference env sc r ix;
     Some (case def of None \<Rightarrow> None | Some d \<Rightarrow> if rsFile d = fst sc then None else Some (rsFile d), ix) }"

text \<open>Later includes of the same file replace earlier ones; a pointer to a statement is its position in the list.\<close>

fun include_by_file :: "Env \<Rightarrow> uri \<Rightarrow> Token list \<Rightarrow> nat \<Rightarrow> Include list \<Rightarrow> (uri \<rightharpoonup> nat) \<Rightarrow> (uri \<rightharpoonup> nat)" where
  "include_by_file env u toks i [] m = m"
| "include_by_file env u toks i (inc # incs) m =
     (let p = PathText toks (Some inc) in
      include_by_file env u toks (Suc i) incs (if p \<noteq> [] then m(env_resolve env u p \<mapsto> i) else m))"

definition mark_used :: "Env \<Rightarrow> scope \<Rightarrow> (uri \<rightharpoonup> nat) \<Rightarrow> Reference \<Rightarrow> Index \<Rightarrow> (nat list \<times> Index) option" where
  "mark_used env sc m r ix = do {
     (dst, ix) \<leftarrow> resolveReferenceFile env sc r ix;
     Some (case dst of None \<Rightarrow> [] | Some f \<Rightarrow> (case m f of None \<Rightarrow> [] | Some i \<Rightarrow> [i]), ix) }"

definition usedIncludes :: "Env \<Rightarrow> scope \<Rightarrow> Index \<Rightarrow> (nat list \<times> Index) option" where
  "usedIncludes env sc ix = do {
     refs \<leftarrow> References (snd sc);
     let ast = pfAst (snd sc);
     collect_loop (mark_used env sc (include_by_file env (fst sc) (docTokens ast) 0 (Includes ast) Map.empty)) refs ix }"

definition unused_diagnostic :: "Env \<Rightarrow> ParsedFile \<Rightarrow> Include \<Rightarrow> Diagnostic option" where
  "unused_diagnostic env pf inc = do {
     let path = PathText (docTokens (pfAst pf)) (Some inc);
     sp \<leftarrow> SpanOf pf (N_Include inc);
     line \<leftarrow> LineSpan (pfContent pf) (spStart sp);
     Some ((diagnostic CodeUnusedInclude DiagWarning (Sprintf ''unused include %q'' [path]) sp)
       \<lparr>diFixes := [\<lparr>fxTitle = ''Remove unused include '' @ evQuote env path, fxEdits = [\<lparr>eiSpan = line, eiNewText = []\<rparr>]\<rparr>]\<rparr>) }"

definition unusedIncludeDiagnostics :: "Env \<Rightarrow> scope \<Rightarrow> Index \<Rightarrow> (Diagnostic list \<times> Index) option" where
  "unusedIncludeDiagnostics env sc ix =
     (let includes = Includes (pfAst (snd sc)) in
      if includes = [] then Some ([], ix)
      else do {
        (used, ix) \<leftarrow> usedIncludes env sc ix;
        ds \<leftarrow> append_all (map (\<lambda>(i, inc). if i \<in> set used then Some [] else map_option (\<lambda>d. [d]) (unused_diagnostic env (snd sc) inc))
          (enumerate 0 includes));
        Some (ds, ix) })"

definition UnusedIncludeCheck :: FileAnalyzer where
  "UnusedIncludeCheck = \<lparr>faName = ''UnusedIncludeCheck'',
     faAnalyzeFile = (\<lambda>env sc ix. map_option (\<lambda>(ds, ix). (Inr ds, ix)) (unusedIncludeDiagnostics env sc ix))\<rparr>"

section \<open>Shadowed includes\<close>

definition shadow_diagnostic :: "Env \<Rightarrow> scope \<Rightarrow> Include \<Rightarrow> Diagnostic list option" where
  "shadow_diagnostic env sc inc =
     (let path = PathText (docTokens (pfAst (snd sc))) (Some inc) in
      if path = [] then Some []
      else
        (case ResolveIncludeCandidates (evApi env) (evIncludePaths env) (env_files env) (fst sc) path of
           first # second # rest \<Rightarrow> map_option (\<lambda>sp.
             [diagnostic CodeIncludeShadow DiagWarning
               (Sprintf ''include %q matches multiple include paths, using %q; also found in %s''
                 [path, urFsPath (evApi env) first, join_with '', '' (map (urFsPath (evApi env)) (second # rest))]) sp])
             (SpanOf (snd sc) (N_Include inc))
         | _ \<Rightarrow> Some []))"

definition IncludeShadowCheck :: FileAnalyzer where
  "IncludeShadowCheck = \<lparr>faName = ''IncludeShadowCheck'',
     faAnalyzeFile = (\<lambda>env sc ix. map_option (\<lambda>ds. (Inr ds, ix)) (append_all (map (shadow_diagnostic env sc) (Includes (pfAst (snd sc))))))\<rparr>"

section \<open>The built-in analyzers\<close>

definition Defaults :: "id_order \<Rightarrow> Analyzer list" where
  "Defaults order = [CycleCheck, ParseCheck, EachFile (FieldIDCheck order), EachFile DuplicateCheck, EachFile EnumValueCheck,
     EachFile UnusedIncludeCheck, EachFile IncludeShadowCheck, EachFile SemanticAnalysis, EachFile NonScalarMapKeyCheck]"

end
