(* ===== verification/Actions.thy ===== *)
theory Actions imports IncludeChecks
begin

text \<open>
  The fixer and the action providers of the default pipeline: \<open>analyzers/fix.go\<close>,
  \<open>analyzers/action.go\<close> and \<open>analyzers/analyzers.go\<close>, with the function of
  \<open>path/filepath\<close> that the fixer uses. A panic is \<open>None\<close>.
\<close>

section \<open>Relative paths\<close>

fun strip_common :: "bytes list \<Rightarrow> bytes list \<Rightarrow> bytes list \<times> bytes list" where
  "strip_common (b # bs) (t # ts) = (if b = t then strip_common bs ts else (b # bs, t # ts))"
| "strip_common bs ts = (bs, ts)"

definition path_elements :: "bytes \<Rightarrow> bytes list" where
  "path_elements p = (let q = TrimPrefix p ''/'' in if q = [] then [] else split_at SLASH q)"

text \<open>\<open>filepath.Rel\<close> of a Unix build; an error is \<open>None\<close>.\<close>

definition filepath_Rel :: "bytes \<Rightarrow> bytes \<Rightarrow> bytes option" where
  "filepath_Rel basepath targpath =
     (let base = Clean basepath; targ = Clean targpath in
      if targ = base then Some ''.''
      else
        (let base = (if base = ''.'' then [] else base) in
         if rooted base \<noteq> rooted targ then None
         else
           (let (bs, ts) = strip_common (path_elements base) (path_elements targ) in
            if bs \<noteq> [] \<and> ts \<noteq> [] \<and> hd bs = ''..'' then None
            else Some (join_with ''/'' (replicate (length bs) ''..'' @ ts)))))"

section \<open>The include of an undefined type\<close>

definition undefinedTypeName :: "ParsedFile \<Rightarrow> Span \<Rightarrow> bytes option" where
  "undefinedTypeName pf sp = map_option (\<lambda>path.
     (case rev path of
        A_Node (N_Identifier i) # A_Node (N_FieldType ft) # _ \<Rightarrow> if ftIdent ft = Some i then TypeReferenceName (Some ft) else []
      | _ \<Rightarrow> [])) (SearchNodePathByPosition (pfAst pf) (spStart sp))"

text \<open>The place behind the last include statement, or the top of the file.\<close>

definition insert_position :: "ParsedFile \<Rightarrow> Position option" where
  "insert_position pf =
     (let includes = Includes (pfAst pf) in
      if includes = [] then Some \<lparr>poLine = 1, poCol = 1, poOffset = 0\<rparr>
      else do {
        (_, stop) \<leftarrow> Range (pfAst pf) (A_Node (N_Include (last includes)));
        map_option spEnd (LineSpan (pfContent pf) stop) })"

definition include_fix :: "Env \<Rightarrow> bytes \<Rightarrow> Position \<Rightarrow> Fix" where
  "include_fix env rel pos =
     \<lparr>fxTitle = ''Add include '' @ evQuote env rel,
      fxEdits = [\<lparr>eiSpan = \<lparr>spStart = pos, spEnd = pos\<rparr>, eiNewText = ''include '' @ evQuote env rel @ [LF]\<rparr>]\<rparr>"

definition AddIncludeFixer :: Fixer where
  "AddIncludeFixer env sc d ix =
     (if diCode d \<noteq> CodeUndefinedType \<or> pfErrs (snd sc) \<noteq> [] then Some ([], ix)
      else do {
        name \<leftarrow> undefinedTypeName (snd sc) (diSpan d);
        if name = [] then Some ([], ix)
        else do {
          (def, v) \<leftarrow> FindInWorkspace env name (isView ix);
          let ix = ix\<lparr>isView := v\<rparr>;
          (case def of
             None \<Rightarrow> Some ([], ix)
           | Some def \<Rightarrow>
               (if rsFile def = fst sc then Some ([], ix)
                else
                  (case filepath_Rel (path_Dir (urPath (evApi env) (fst sc))) (urPath (evApi env) (rsFile def)) of
                     None \<Rightarrow> Some ([], ix)
                   | Some rel \<Rightarrow> map_option (\<lambda>pos. ([include_fix env rel pos], ix)) (insert_position (snd sc))))) } })"

section \<open>Explicit enum values\<close>

fun enum_at :: "ParsedFile \<Rightarrow> Position \<Rightarrow> Enum list \<Rightarrow> Enum option option" where
  "enum_at pf pos [] = Some None"
| "enum_at pf pos (e # es) = do {
     here \<leftarrow> Contains (pfAst pf) (A_Node (N_Enum e)) pos;
     if here then Some (Some e) else enum_at pf pos es }"

definition enumAt :: "ParsedFile \<Rightarrow> Span \<Rightarrow> Enum option option" where
  "enumAt pf sp = enum_at pf (spStart sp) (Enums (pfAst pf))"

text \<open>The inner option is the flag that all values are known.\<close>

fun value_edits :: "Document \<Rightarrow> EnumMemberValue list \<Rightarrow> Edit list option option" where
  "value_edits doc [] = Some (Some [])"
| "value_edits doc (mv # mvs) =
     (if \<not> emKnown mv then Some None
      else do {
        e \<leftarrow> explicit_edit doc mv;
        rest \<leftarrow> value_edits doc mvs;
        Some (map_option ((#) e) rest) })"

definition enumValueEdits :: "ParsedFile \<Rightarrow> Enum \<Rightarrow> Edit list option option" where
  "enumValueEdits pf enum = value_edits (pfAst pf) (EnumImplicitValues (docTokens (pfAst pf)) enum)"

definition explicit_actions :: "uri \<Rightarrow> Span \<Rightarrow> Report \<Rightarrow> Edit list \<Rightarrow> Action list" where
  "explicit_actions u sel report es =
     (let act = (\<lambda>fx. \<lparr>acTitle = ''Make enum values explicit'', acFix = fx, acFile = u, acEdits = es\<rparr>) in
      (if list_ex (\<lambda>d. Overlaps (diSpan d) sel) (report_of report u) then [act True] else []) @ [act False])"

definition EnumValuesProvider :: ActionProvider where
  "EnumValuesProvider env sc sel report ix =
     (if pfErrs (snd sc) \<noteq> [] then Some ([], ix)
      else do {
        enum \<leftarrow> enumAt (snd sc) sel;
        (case enum of
           None \<Rightarrow> Some ([], ix)
         | Some enum \<Rightarrow> map_option (\<lambda>es.
             (case es of
                Some (e # es) \<Rightarrow> (explicit_actions (fst sc) sel report (e # es), ix)
              | _ \<Rightarrow> ([], ix))) (enumValueEdits (snd sc) enum)) })"

section \<open>Qualifiers\<close>

text \<open>A qualifier of a field is a token, given by its index.\<close>

definition fieldQualifiers :: "Token list \<Rightarrow> Field \<Rightarrow> bool \<Rightarrow> TokenKind list" where
  "fieldQualifiers toks f unionField =
     (case fiReq f of
        None \<Rightarrow> if unionField then [TokenOptional] else [TokenRequired, TokenOptional]
      | Some t \<Rightarrow>
          (if tkKind (toks ! t) = TokenRequired then [TokenOptional]
           else if unionField then [] else [TokenRequired]))"

definition fieldQualifierAction :: "ParsedFile \<Rightarrow> uri \<Rightarrow> Field \<Rightarrow> TokenKind \<Rightarrow> Action option" where
  "fieldQualifierAction pf u f q = do {
     ty \<leftarrow> fiType f;
     i \<leftarrow> fiName f;
     stop \<leftarrow> TokenPosition (pfAst pf) (TokStart (N_FieldType ty));
     start \<leftarrow> (case fiReq f of
         None \<Rightarrow> Some stop
       | Some t \<Rightarrow> TokenPosition (pfAst pf) (TokenIndex (pfAst pf) (Some t)));
     let keyword = TokenKind_String q;
     Some \<lparr>acTitle = ''Make field '' @ keyword @ '' ('' @ idText i @ '')'', acFix = False, acFile = u,
       acEdits = [\<lparr>eiSpan = \<lparr>spStart = start, spEnd = stop\<rparr>, eiNewText = keyword @ '' ''\<rparr>]\<rparr> }"

type_synonym picked = "nat \<times> Action"

fun pick_actions :: "ParsedFile \<Rightarrow> uri \<Rightarrow> nat \<Rightarrow> Field \<Rightarrow> TokenKind list \<Rightarrow> picked list option" where
  "pick_actions pf u off f [] = Some []"
| "pick_actions pf u off f (q # qs) = do {
     act \<leftarrow> fieldQualifierAction pf u f q;
     rest \<leftarrow> pick_actions pf u off f qs;
     Some ((off, act) # rest) }"

definition pick_field :: "ParsedFile \<Rightarrow> uri \<Rightarrow> Span \<Rightarrow> bool \<Rightarrow> Field \<Rightarrow> picked list option" where
  "pick_field pf u sel unionField f = do {
     pos \<leftarrow> TokenPosition (pfAst pf) (TokStart (N_Field f));
     if poLine pos < poLine (spStart sel) \<or> poLine pos > poLine (spEnd sel) then Some []
     else pick_actions pf u (poOffset pos) f (fieldQualifiers (docTokens (pfAst pf)) f unionField) }"

text \<open>\<open>sort.Slice\<close>, which does not keep the order of equal elements, is a parameter.\<close>

type_synonym slice_sort = "picked list \<Rightarrow> picked list"

definition FieldQualifierProvider :: "slice_sort \<Rightarrow> ActionProvider" where
  "FieldQualifierProvider sorter env sc sel report ix =
     (if pfErrs (snd sc) \<noteq> [] then Some ([], ix)
      else map_option (\<lambda>ps. (map snd (sorter ps), ix))
        (append_all (concat (map (\<lambda>(fs, k). map (pick_field (snd sc) (fst sc) sel (k = UnionFields)) fs) (WalkFieldLists (pfAst (snd sc)))))))"

section \<open>The default pipeline\<close>

definition DefaultPipeline :: "id_order \<Rightarrow> slice_sort \<Rightarrow> Config \<Rightarrow> Pipeline" where
  "DefaultPipeline order sorter cfg =
     WithProviders [EnumValuesProvider, FieldQualifierProvider sorter]
       (WithFixers [AddIncludeFixer] (Pipeline_New cfg (Defaults order)))"

end
