(* ===== verification/Check.thy ===== *)
theory Check imports Actions FixAll Mapper Session
begin

text \<open>
  The batch frontend \<open>check/check.go\<close>: positions and severities for display, and the
  run of the pipeline over the files of a request.
\<close>

section \<open>Display\<close>

datatype display_severity = ShowError | ShowWarning | ShowInfo | ShowHint

definition toSeverity :: "DiagSeverity \<Rightarrow> display_severity" where
  "toSeverity s =
     (case s of DiagError \<Rightarrow> ShowError | DiagWarning \<Rightarrow> ShowWarning | DiagInfo \<Rightarrow> ShowInfo | DiagHint \<Rightarrow> ShowHint)"

text \<open>Lines and columns of a file, from 1; the fallback is the position of the parser.\<close>

definition check_position :: "ParsedFile \<Rightarrow> Position \<Rightarrow> nat \<times> nat" where
  "check_position pf pos =
     (case OffsetToLSPPosition (NewMapper (pfContent pf)) (int (poOffset pos)) of
        Inl err \<Rightarrow> (poLine pos, poCol pos)
      | Inr p \<Rightarrow> (unat (lpLine p) + 1, unat (lpCharacter p) + 1))"

record CheckDiagnostic =
  cdStart :: "nat \<times> nat"
  cdEnd :: "nat \<times> nat"
  cdSeverity :: display_severity
  cdCode :: bytes
  cdMessage :: message

definition toDiagnostics :: "Env \<Rightarrow> uri \<Rightarrow> Diagnostic list \<Rightarrow> View \<Rightarrow> CheckDiagnostic list option \<times> View" where
  "toDiagnostics env u ds v =
     (let (pf, v) = env_parse env u v in
      (case pf of
         None \<Rightarrow> None
       | Some pf \<Rightarrow> Some (map (\<lambda>d. \<lparr>cdStart = check_position pf (spStart (diSpan d)), cdEnd = check_position pf (spEnd (diSpan d)),
           cdSeverity = toSeverity (diSeverity d), cdCode = diCode d, cdMessage = diMessage d\<rparr>) ds), v))"

section \<open>Runs\<close>

record Request =
  rqFiles :: "bytes list"
  rqFolder :: bytes
  rqIncludePaths :: "bytes list"
  rqLint :: "(bytes list option \<times> (bytes \<rightharpoonup> bytes) option) option"
  rqAnalyzers :: "Analyzer list"
  rqFix :: bool

record ShownSkip =
  shFile :: bytes
  shTitle :: bytes
  shReason :: skip_reason

record FixSummary =
  fsApplied :: nat
  fsFiles :: "bytes list"
  fsPasses :: nat
  fsSkipped :: "ShownSkip list"

text \<open>The map of a result is given by its entries, in the order of the files of the request.\<close>

record CheckResult =
  crDiagnostics :: "(bytes \<times> CheckDiagnostic list) list"
  crFix :: "FixSummary option"

datatype check_error = Unreadable_file uri | Analysis_failed "run_error list" | Fix_failed fix_error

definition no_result :: CheckResult where
  "no_result = \<lparr>crDiagnostics = [], crFix = None\<rparr>"

text \<open>The loop over the files and their URIs.\<close>

fun translate_all :: "Env \<Rightarrow> Report \<Rightarrow> (bytes \<times> uri) list \<Rightarrow> View \<Rightarrow> check_error + (bytes \<times> CheckDiagnostic list) list" where
  "translate_all env report [] v = Inr []"
| "translate_all env report ((file, u) # rest) v =
     (case toDiagnostics env u (report_of report u) v of
        (None, v) \<Rightarrow> Inl (Unreadable_file u)
      | (Some ds, v) \<Rightarrow>
          (case translate_all env report rest v of
             Inl err \<Rightarrow> Inl err
           | Inr out \<Rightarrow> Inr ((file, ds) # out)))"

text \<open>The environment of the view that \<open>OpenDisk\<close> returns.\<close>

definition view_env :: "uri_api \<Rightarrow> (bytes \<Rightarrow> bytes) \<Rightarrow> Session \<Rightarrow> view_object \<Rightarrow> Env" where
  "view_env api quote sess vo = \<lparr>evApi = api, evQuote = quote, evSource = ssSource sess,
     evIncludePaths = voIncludePaths vo, evFolder = voFolder vo, evGuard = None\<rparr>"

definition runDiagnostics :: "uri_api \<Rightarrow> (bytes \<Rightarrow> bytes) \<Rightarrow> memFS \<Rightarrow> Pipeline \<Rightarrow> bytes list \<Rightarrow> bytes \<Rightarrow> bytes list
    \<Rightarrow> (check_error + (bytes \<times> CheckDiagnostic list) list) option" where
  "runDiagnostics api quote disk p files folder includePaths =
     (let (sess, vo, uris) = OpenDisk api disk files folder includePaths; env = view_env api quote sess vo in
      map_option (\<lambda>((report, errs), v).
        if errs \<noteq> [] then Inl (Analysis_failed errs) else translate_all env report (zip files uris) v)
        (Pipeline_Run p env uris (voView vo)))"

definition fix_summary :: "uri_api \<Rightarrow> FixResult \<Rightarrow> FixSummary" where
  "fix_summary api res = \<lparr>fsApplied = frApplied res, fsFiles = map (urFsPath api) (frFixedFiles res), fsPasses = frPasses res,
     fsSkipped = map (\<lambda>s. \<lparr>shFile = urFsPath api (sfFile s), shTitle = fxTitle (sfFix s), shReason = sfReason s\<rparr>) (frSkipped res)\<rparr>"

text \<open>The result comes with the error, if any, and the file source after the run.\<close>

definition runFix :: "uri_api \<Rightarrow> (bytes \<Rightarrow> bytes) \<Rightarrow> memFS \<Rightarrow> persist \<Rightarrow> Pipeline \<Rightarrow> bytes list \<Rightarrow> bytes \<Rightarrow> bytes list
    \<Rightarrow> ((CheckResult \<times> check_error option) \<times> OverlayFS) option" where
  "runFix api quote disk persist p files folder includePaths =
     (let (sess, vo, uris) = OpenDisk api disk files folder includePaths in
      map_option (\<lambda>((res, err), st).
        (let sum = fix_summary api res in
         (case err of
            Some e \<Rightarrow>
              (if frApplied res = 0 \<and> frFixedFiles res = [] then (no_result, Some (Fix_failed e))
               else (no_result\<lparr>crFix := Some sum\<rparr>, Some (Fix_failed e)))
          | None \<Rightarrow>
              (case translate_all (fgEnv st) (frRemaining res) (zip files uris) (fgView st) of
                 Inl e \<Rightarrow> (no_result, Some e)
               | Inr out \<Rightarrow> (\<lparr>crDiagnostics = out, crFix = Some sum\<rparr>, None))), evSource (fgEnv st)))
        (FixAll p (Some persist) uris (view_env api quote sess vo) (voView vo)))"

text \<open>The pipeline of a request: without a lint configuration the zero value is used.\<close>

definition request_pipeline :: "id_order \<Rightarrow> slice_sort \<Rightarrow> Request \<Rightarrow> Pipeline" where
  "request_pipeline order sorter req =
     WithAnalyzers (rqAnalyzers req) (DefaultPipeline order sorter
       (case rqLint req of
          None \<Rightarrow> \<lparr>cfDisabled = [], cfSeverity = Map.empty\<rparr>
        | Some (off, severity) \<Rightarrow> ConfigFromLint off severity))"

definition check_Run :: "id_order \<Rightarrow> slice_sort \<Rightarrow> uri_api \<Rightarrow> (bytes \<Rightarrow> bytes) \<Rightarrow> memFS \<Rightarrow> persist \<Rightarrow> Request
    \<Rightarrow> ((CheckResult \<times> check_error option) \<times> OverlayFS) option" where
  "check_Run order sorter api quote disk persist req =
     (if rqFolder req = [] \<and> rqFiles req = [] then Some ((no_result, None), NewOverlayFS disk)
      else
        (let folder = (if rqFolder req = [] then path_Dir (hd (rqFiles req)) else rqFolder req);
             p = request_pipeline order sorter req in
         if rqFix req then runFix api quote disk persist p (rqFiles req) folder (rqIncludePaths req)
         else map_option (\<lambda>r.
           (case r of
              Inl err \<Rightarrow> (no_result, Some err)
            | Inr out \<Rightarrow> (no_result\<lparr>crDiagnostics := out\<rparr>, None), NewOverlayFS disk))
           (runDiagnostics api quote disk p (rqFiles req) folder (rqIncludePaths req))))"

end
