(* ===== verification/TypeCheckProps.thy ===== *)
theory TypeCheckProps imports TypeCheck SemaIndexProps VisitProps
begin

text \<open>
  The analyzer of references and value types against a declarative typing: what a
  literal must look like to fit a type is an inductive relation over the reference
  resolution, without index, spans or messages. The analyzer reports nothing exactly
  when every node of the document is well typed, and it never panics.
\<close>

section \<open>The typing of literals\<close>

definition underlying :: "Env \<Rightarrow> scope \<Rightarrow> FieldType option \<Rightarrow> FieldType option \<times> scope" where
  "underlying env sc ft = underlying_ref maxTypedefDepth env sc ft"

text \<open>The fields of a struct-like type, none for an empty struct, with the scope of their types.\<close>

definition struct_fields :: "Env \<Rightarrow> scope \<Rightarrow> FieldType \<Rightarrow> (Field list \<times> scope) option" where
  "struct_fields env sc ut =
     (if ftKind ut \<noteq> TypeIdent then None
      else (case type_reference env sc (Some ut) of
          None \<Rightarrow> None
        | Some def \<Rightarrow>
            (case rsNode def of
               N_Struct s \<Rightarrow> Some (stFields s, (rsFile def, rsParsed def))
             | _ \<Rightarrow> None)))"

definition int_fits :: "Env \<Rightarrow> scope \<Rightarrow> FieldType \<Rightarrow> ConstValue \<Rightarrow> bool" where
  "int_fits env sc ut v \<longleftrightarrow>
     (if bool_text (cvText v) then isBase (Some ut) TokenBool
      else
        (case ftKind ut of
           TypeBase \<Rightarrow> ftBase ut \<in> {TokenByte, TokenI8, TokenI16, TokenI32, TokenI64}
         | TypeIdent \<Rightarrow> (case type_reference env sc (Some ut) of None \<Rightarrow> False | Some def \<Rightarrow> rsKind def = DefinitionEnum)
         | _ \<Rightarrow> False))"

text \<open>A bool takes only the name of a constant of type bool; a name without a definition is accepted here.\<close>

definition ident_fits :: "Env \<Rightarrow> scope \<Rightarrow> FieldType \<Rightarrow> ConstValue \<Rightarrow> bool" where
  "ident_fits env sc ut v \<longleftrightarrow>
     (isBase (Some ut) TokenBool \<longrightarrow>
       (case value_reference env sc (Some v) of
          None \<Rightarrow> True
        | Some def \<Rightarrow>
            (case rsNode def of
               N_Const c \<Rightarrow> isBase (fst (underlying env (rsFile def, rsParsed def) (coType c))) TokenBool
             | _ \<Rightarrow> False)))"

inductive value_fits :: "Env \<Rightarrow> scope \<Rightarrow> scope \<Rightarrow> FieldType option \<Rightarrow> ConstValue \<Rightarrow> bool" for env :: Env and report :: scope where
  fits_unresolved: "underlying env sc ft = (None, sc') \<Longrightarrow> value_fits env report sc ft v"
| fits_map: "underlying env sc ft = (Some ut, sc') \<Longrightarrow> cvKind v = ValueMap \<Longrightarrow> ftKind ut = TypeMap \<Longrightarrow>
     (\<And>e. e \<in> set (cvMap v) \<Longrightarrow> value_fits env report sc' (ftKeyType ut) (cmKey e)) \<Longrightarrow>
     (\<And>e. e \<in> set (cvMap v) \<Longrightarrow> value_fits env report sc' (ftValueType ut) (cmValue e)) \<Longrightarrow> value_fits env report sc ft v"
| fits_struct: "underlying env sc ft = (Some ut, sc') \<Longrightarrow> cvKind v = ValueMap \<Longrightarrow> struct_fields env sc' ut = Some (fs, sc'') \<Longrightarrow>
     (\<And>e. e \<in> set (cvMap v) \<Longrightarrow> cvKind (cmKey e) = ValueString \<and>
       (\<exists>f. fields_by_name fs (trim_quotes (cvText (cmKey e))) = Some f \<and> value_fits env report sc'' (fiType f) (cmValue e))) \<Longrightarrow>
     value_fits env report sc ft v"
| fits_list: "underlying env sc ft = (Some ut, sc') \<Longrightarrow> cvKind v = ValueList \<Longrightarrow> ftKind ut \<in> {TypeList, TypeSet} \<Longrightarrow>
     (\<And>w. w \<in> set (cvList v) \<Longrightarrow> value_fits env report sc' (ftValueType ut) w) \<Longrightarrow> value_fits env report sc ft v"
| fits_string: "underlying env sc ft = (Some ut, sc') \<Longrightarrow> cvKind v = ValueString \<Longrightarrow> isBase (Some ut) TokenString \<Longrightarrow>
     value_fits env report sc ft v"
| fits_double: "underlying env sc ft = (Some ut, sc') \<Longrightarrow> cvKind v = ValueDouble \<Longrightarrow> isBase (Some ut) TokenDouble \<Longrightarrow>
     value_fits env report sc ft v"
| fits_int: "underlying env sc ft = (Some ut, sc') \<Longrightarrow> cvKind v = ValueInt \<Longrightarrow> int_fits env sc' ut v \<Longrightarrow>
     value_fits env report sc ft v"
| fits_ident: "underlying env sc ft = (Some ut, sc') \<Longrightarrow> cvKind v = ValueIdent \<Longrightarrow> ident_fits env report ut v \<Longrightarrow>
     value_fits env report sc ft v"

inductive_simps value_fits_iff: "value_fits env report sc ft v"

text \<open>
  An empty literal stands where an empty struct is expected: as the literal itself, or as
  a key, value, field value or element of it that has a declared type.
\<close>

inductive meets_empty :: "Env \<Rightarrow> scope \<Rightarrow> FieldType option \<Rightarrow> ConstValue \<Rightarrow> bool" for env :: Env where
  empty_here: "underlying env sc ft = (Some ut, sc') \<Longrightarrow> cvKind v = ValueMap \<Longrightarrow> cvMap v = [] \<Longrightarrow>
     struct_fields env sc' ut = Some ([], sc'') \<Longrightarrow> meets_empty env sc ft v"
| empty_key: "underlying env sc ft = (Some ut, sc') \<Longrightarrow> cvKind v = ValueMap \<Longrightarrow> ftKind ut = TypeMap \<Longrightarrow>
     e \<in> set (cvMap v) \<Longrightarrow> meets_empty env sc' (ftKeyType ut) (cmKey e) \<Longrightarrow> meets_empty env sc ft v"
| empty_value: "underlying env sc ft = (Some ut, sc') \<Longrightarrow> cvKind v = ValueMap \<Longrightarrow> ftKind ut = TypeMap \<Longrightarrow>
     e \<in> set (cvMap v) \<Longrightarrow> meets_empty env sc' (ftValueType ut) (cmValue e) \<Longrightarrow> meets_empty env sc ft v"
| empty_field: "underlying env sc ft = (Some ut, sc') \<Longrightarrow> cvKind v = ValueMap \<Longrightarrow> struct_fields env sc' ut = Some (fs, sc'') \<Longrightarrow>
     e \<in> set (cvMap v) \<Longrightarrow> cvKind (cmKey e) = ValueString \<Longrightarrow> fields_by_name fs (trim_quotes (cvText (cmKey e))) = Some f \<Longrightarrow>
     meets_empty env sc'' (fiType f) (cmValue e) \<Longrightarrow> meets_empty env sc ft v"
| empty_element: "underlying env sc ft = (Some ut, sc') \<Longrightarrow> cvKind v = ValueList \<Longrightarrow> ftKind ut \<in> {TypeList, TypeSet} \<Longrightarrow>
     w \<in> set (cvList v) \<Longrightarrow> meets_empty env sc' (ftValueType ut) w \<Longrightarrow> meets_empty env sc ft v"

inductive_simps meets_empty_iff: "meets_empty env sc ft v"

section \<open>What the analyzer accepts\<close>

text \<open>
  The analyzer takes the fields of an empty struct for no fields at all and rejects every
  literal of such a type; this is the relation it decides. It is the typing above without
  the literals of \<open>meets_empty\<close>.
\<close>

definition accepted_fields :: "Env \<Rightarrow> scope \<Rightarrow> FieldType \<Rightarrow> (Field list \<times> scope) option" where
  "accepted_fields env sc ut = (case struct_fields env sc ut of Some ([], _) \<Rightarrow> None | r \<Rightarrow> r)"

lemma accepted_fields_unfold:
  "accepted_fields env sc ut =
     (if ftKind ut \<noteq> TypeIdent then None
      else (case type_reference env sc (Some ut) of
          None \<Rightarrow> None
        | Some def \<Rightarrow>
            (case rsNode def of
               N_Struct s \<Rightarrow> if stFields s = [] then None else Some (stFields s, (rsFile def, rsParsed def))
             | _ \<Rightarrow> None)))"
  by (auto simp: accepted_fields_def struct_fields_def split: option.splits Node.splits list.splits)

lemma accepted_fields_Some:
  "accepted_fields env sc ut = Some (fs, sc') \<longleftrightarrow> struct_fields env sc ut = Some (fs, sc') \<and> fs \<noteq> []"
  by (auto simp: accepted_fields_def split: option.splits list.splits)

inductive value_accepted :: "Env \<Rightarrow> scope \<Rightarrow> scope \<Rightarrow> FieldType option \<Rightarrow> ConstValue \<Rightarrow> bool" for env :: Env and report :: scope where
  accepts_unresolved: "underlying env sc ft = (None, sc') \<Longrightarrow> value_accepted env report sc ft v"
| accepts_map: "underlying env sc ft = (Some ut, sc') \<Longrightarrow> cvKind v = ValueMap \<Longrightarrow> ftKind ut = TypeMap \<Longrightarrow>
     (\<And>e. e \<in> set (cvMap v) \<Longrightarrow> value_accepted env report sc' (ftKeyType ut) (cmKey e)) \<Longrightarrow>
     (\<And>e. e \<in> set (cvMap v) \<Longrightarrow> value_accepted env report sc' (ftValueType ut) (cmValue e)) \<Longrightarrow> value_accepted env report sc ft v"
| accepts_struct: "underlying env sc ft = (Some ut, sc') \<Longrightarrow> cvKind v = ValueMap \<Longrightarrow> accepted_fields env sc' ut = Some (fs, sc'') \<Longrightarrow>
     (\<And>e. e \<in> set (cvMap v) \<Longrightarrow> cvKind (cmKey e) = ValueString \<and>
       (\<exists>f. fields_by_name fs (trim_quotes (cvText (cmKey e))) = Some f \<and> value_accepted env report sc'' (fiType f) (cmValue e))) \<Longrightarrow>
     value_accepted env report sc ft v"
| accepts_list: "underlying env sc ft = (Some ut, sc') \<Longrightarrow> cvKind v = ValueList \<Longrightarrow> ftKind ut \<in> {TypeList, TypeSet} \<Longrightarrow>
     (\<And>w. w \<in> set (cvList v) \<Longrightarrow> value_accepted env report sc' (ftValueType ut) w) \<Longrightarrow> value_accepted env report sc ft v"
| accepts_string: "underlying env sc ft = (Some ut, sc') \<Longrightarrow> cvKind v = ValueString \<Longrightarrow> isBase (Some ut) TokenString \<Longrightarrow>
     value_accepted env report sc ft v"
| accepts_double: "underlying env sc ft = (Some ut, sc') \<Longrightarrow> cvKind v = ValueDouble \<Longrightarrow> isBase (Some ut) TokenDouble \<Longrightarrow>
     value_accepted env report sc ft v"
| accepts_int: "underlying env sc ft = (Some ut, sc') \<Longrightarrow> cvKind v = ValueInt \<Longrightarrow> int_fits env sc' ut v \<Longrightarrow>
     value_accepted env report sc ft v"
| accepts_ident: "underlying env sc ft = (Some ut, sc') \<Longrightarrow> cvKind v = ValueIdent \<Longrightarrow> ident_fits env report ut v \<Longrightarrow>
     value_accepted env report sc ft v"

inductive_simps value_accepted_iff: "value_accepted env report sc ft v"

lemma value_accepted_fits: "value_accepted env report sc ft v \<longleftrightarrow> value_fits env report sc ft v \<and> \<not> meets_empty env sc ft v"
proof (induction v arbitrary: sc ft rule: measure_induct_rule[of size])
  case (less v)
  note list_IH = less.IH[OF value_size(1)] and key_IH = less.IH[OF value_size(2)[THEN conjunct1]]
    and val_IH = less.IH[OF value_size(2)[THEN conjunct2]]
  obtain ut c1 c2 where "underlying env sc ft = (ut, (c1, c2))" by (cases "underlying env sc ft") auto
  moreover define sc' where c: "sc' = (c1, c2)"
  ultimately have u: "underlying env sc ft = (ut, sc')" by simp
  note s = value_accepted_iff[of env report sc ft v] value_fits_iff[of env report sc ft v] meets_empty_iff[of env sc ft v] u c
  show ?case
  proof (cases ut)
    case (Some t)
    show ?thesis
    proof (cases "cvKind v")
      case ValueMap
      show ?thesis
      proof (cases "struct_fields env sc' t")
        case None
        then have "accepted_fields env sc' t = None" by (simp add: accepted_fields_def)
        then have *: "ftKind t = TypeMap \<Longrightarrow> value_accepted env report sc ft v \<longleftrightarrow> (\<forall>e. e \<in> set (cvMap v) \<longrightarrow>
              value_fits env report sc' (ftKeyType t) (cmKey e) \<and> \<not> meets_empty env sc' (ftKeyType t) (cmKey e)) \<and>
            (\<forall>e. e \<in> set (cvMap v) \<longrightarrow>
              value_fits env report sc' (ftValueType t) (cmValue e) \<and> \<not> meets_empty env sc' (ftValueType t) (cmValue e))"
          "ftKind t \<noteq> TypeMap \<Longrightarrow> \<not> value_accepted env report sc ft v"
          using ValueMap Some by (simp_all add: value_accepted_iff[of env report sc ft v] u c key_IH val_IH)
        show ?thesis using None ValueMap Some *
          by (cases "ftKind t = TypeMap") (simp_all only: s, simp_all, blast)
      next
        case (Some p)
        then obtain fs c3 c4 where "struct_fields env sc' t = Some (fs, (c3, c4))" by (cases p) auto
        moreover define sc'' where c'': "sc'' = (c3, c4)"
        ultimately have p: "struct_fields env sc' t = Some (fs, sc'')" by simp
        then have t: "ftKind t \<noteq> TypeMap" by (auto simp: struct_fields_def split: if_splits)
        let ?f = "\<lambda>e. fields_by_name fs (trim_quotes (cvText (cmKey e)))"
        have fits: "value_fits env report sc ft v \<longleftrightarrow> (\<forall>e. e \<in> set (cvMap v) \<longrightarrow> cvKind (cmKey e) = ValueString \<and>
            (\<exists>f. ?f e = Some f \<and> value_fits env report sc'' (fiType f) (cmValue e)))"
          using p t ValueMap \<open>ut = Some t\<close> by (simp add: s c'')
        have meets: "meets_empty env sc ft v \<longleftrightarrow> cvMap v = [] \<and> fs = [] \<or> (\<exists>e f. e \<in> set (cvMap v) \<and>
            cvKind (cmKey e) = ValueString \<and> ?f e = Some f \<and> meets_empty env sc'' (fiType f) (cmValue e))"
          using p t ValueMap \<open>ut = Some t\<close> by (simp add: s c'')
        show ?thesis
        proof (cases fs)
          case Nil
          then have "accepted_fields env sc' t = None" using p by (simp add: accepted_fields_def)
          then have "\<not> value_accepted env report sc ft v" using t ValueMap \<open>ut = Some t\<close> by (simp add: s c'')
          moreover have "?f e = None" for e using Nil by (simp add: fields_by_name_def)
          ultimately show ?thesis unfolding fits meets using Nil by (cases "cvMap v") auto
        next
          case Cons
          then have "value_accepted env report sc ft v \<longleftrightarrow> (\<forall>e. e \<in> set (cvMap v) \<longrightarrow> cvKind (cmKey e) = ValueString \<and>
              (\<exists>f. ?f e = Some f \<and> value_fits env report sc'' (fiType f) (cmValue e) \<and> \<not> meets_empty env sc'' (fiType f) (cmValue e)))"
            using p t ValueMap \<open>ut = Some t\<close> by (simp add: s c'' val_IH accepted_fields_Some)
          then show ?thesis unfolding fits meets using Cons by (metis list.distinct(1) option.inject)
        qed
      qed
    next
      case ValueList
      then have "value_accepted env report sc ft v \<longleftrightarrow> ftKind t \<in> {TypeList, TypeSet} \<and> (\<forall>w. w \<in> set (cvList v) \<longrightarrow>
          value_fits env report sc' (ftValueType t) w \<and> \<not> meets_empty env sc' (ftValueType t) w)"
        using Some by (simp add: value_accepted_iff[of env report sc ft v] u c list_IH)
      then show ?thesis using Some ValueList unfolding value_fits_iff[of env report sc ft v] meets_empty_iff[of env sc ft v] u c
        by simp blast
    qed (use Some in \<open>simp_all add: s\<close>)
  qed (simp add: s)
qed

section \<open>Reports\<close>

text \<open>An operation returns diagnostics, none exactly if a condition holds, and leaves a sound index.\<close>

definition reports :: "Env \<Rightarrow> (Diagnostic list \<times> Index) option \<Rightarrow> bool \<Rightarrow> bool" where
  "reports env r P \<longleftrightarrow> (\<exists>ds ix. r = Some (ds, ix) \<and> index_good env ix \<and> (ds = [] \<longleftrightarrow> P))"

lemma reports_none: "index_good env ix \<Longrightarrow> P \<Longrightarrow> reports env (Some ([], ix)) P"
  by (auto simp: reports_def)

lemma reports_one: "index_good env ix \<Longrightarrow> \<not> P \<Longrightarrow> reports env (Some ([d], ix)) P"
  by (auto simp: reports_def)

lemma reports_bind:
  "gives env r x \<Longrightarrow> (\<And>ix. index_good env ix \<Longrightarrow> reports env (f x ix) P) \<Longrightarrow>
   reports env (Option.bind r (\<lambda>(x, ix). f x ix)) P"
  by (auto simp: gives_def)

lemma reports_case:
  "gives env r x \<Longrightarrow> (\<And>ix. index_good env ix \<Longrightarrow> reports env (f x ix) P) \<Longrightarrow>
   reports env (case r of None \<Rightarrow> None | Some (x, ix) \<Rightarrow> f x ix) P"
  by (auto simp: gives_def)

lemma reports_append:
  assumes "reports env r P" "\<And>ix. index_good env ix \<Longrightarrow> reports env (f ix) Q"
  shows "reports env (do { (a, ix) \<leftarrow> r; (b, ix) \<leftarrow> f ix; Some (a @ b, ix) }) (P \<and> Q)"
  using assms unfolding reports_def by fastforce

lemma reports_loop:
  assumes "index_good env ix" "\<And>x ix. x \<in> set xs \<Longrightarrow> index_good env ix \<Longrightarrow> reports env (f x ix) (P x)"
  shows "reports env (collect_loop f xs ix) (\<forall>x \<in> set xs. P x)"
  using assms
proof (induction xs arbitrary: ix)
  case (Cons x xs)
  obtain ds ix' where x: "f x ix = Some (ds, ix')" "index_good env ix'" "ds = [] \<longleftrightarrow> P x"
    using Cons.prems(2)[of x ix] Cons.prems(1) by (auto simp: reports_def)
  have "reports env (collect_loop f xs ix') (\<forall>x \<in> set xs. P x)"
    using Cons.prems(2) by (intro Cons.IH[OF x(2)]) auto
  then show ?case using x by (auto simp: reports_def)
qed (simp add: reports_none)

text \<open>Spans of the nodes of a parsed file exist.\<close>

abbreviation tokens_of :: "scope \<Rightarrow> Token list" where
  "tokens_of sc \<equiv> docTokens (pfAst (snd sc))"

lemma SpanOf_ok: "node_ok (docTokens (pfAst pf)) s n \<Longrightarrow> \<exists>sp. SpanOf pf n = Some sp"
  by (auto simp: SpanOf_def Range_def TokenPosition_def TokenEndPosition_def any_start_def any_end_def real_tok_def Let_def elim!: node_ok.cases)

lemma mismatch_ok:
  assumes "node_ok (tokens_of report) s (N_ConstValue v)"
  shows "\<exists>d. mismatchDiagnostic (snd report) v expected got = Some d" "\<exists>d. unknownFieldDiagnostic (snd report) v t name = Some d"
    "\<exists>d. kindMismatch (snd report) v ut = Some [d]"
  using SpanOf_ok[OF assms] by (auto simp: mismatchDiagnostic_def unknownFieldDiagnostic_def kindMismatch_def)

lemma accept_reports:
  assumes "node_ok (tokens_of report) s (N_ConstValue v)" "gives env r b"
  shows "reports env (accept_or_mismatch report v ut r) b"
proof -
  obtain d where "kindMismatch (snd report) v ut = Some [d]" using mismatch_ok(3)[OF assms(1)] by blast
  then show ?thesis using assms(2) by (cases b) (auto simp: accept_or_mismatch_def gives_def reports_def)
qed

section \<open>Literals\<close>

lemma gives_do:
  "gives env r x \<Longrightarrow> (\<And>ix. index_good env ix \<Longrightarrow> gives env (f x ix) y) \<Longrightarrow>
   gives env (Option.bind r (\<lambda>(x, ix). f x ix)) y"
  by (auto simp: gives_def)

lemma underlying_ref_read:
  "underlying_ref n env sc ft = (ut, sc') \<Longrightarrow> read_file env (fst sc) = Some (snd sc) \<Longrightarrow> read_file env (fst sc') = Some (snd sc')"
proof (induction n arbitrary: sc ft)
  case (Suc n)
  then show ?case by (auto split: if_splits option.splits dest: typedef_step_read)
qed simp

lemmas underlying_read = underlying_ref_read[of maxTypedefDepth, folded underlying_def]

lemma structFields_gives:
  assumes "index_good env ix" "read_file env (fst sc) = Some (snd sc)"
  shows "gives env (structFields env (Some ut) sc ix) (accepted_fields env sc ut)"
proof (cases "ftKind ut = TypeIdent")
  case True
  show ?thesis unfolding structFields_def
    using True by (auto simp: isKind_def accepted_fields_unfold gives_same intro!: gives_do[OF ResolveType_gives[OF assms]])
qed (simp add: structFields_def isKind_def accepted_fields_unfold gives_same assms(1))

lemma identValueMatches_gives:
  assumes "index_good env ix" "read_file env (fst sc) = Some (snd sc)"
  shows "gives env (identValueMatches env sc (Some ut) v ix) (ident_fits env sc ut v)"
proof (cases "isBase (Some ut) TokenBool")
  case True
  show ?thesis
  proof (cases "value_reference env sc (Some v)")
    case None
    then show ?thesis unfolding identValueMatches_def
      using True by (auto simp: ident_fits_def gives_same intro!: gives_do[OF ResolveValue_gives[OF assms]])
  next
    case (Some def)
    have bt: "gives env (do { ((bt, _), ix) \<leftarrow> UnderlyingType env (rsFile def, rsParsed def) ty ix; Some (isBase bt TokenBool, ix) })
        (isBase (fst (underlying env (rsFile def, rsParsed def) ty)) TokenBool)" if "index_good env ix" for ix ty
    proof -
      have "gives env (UnderlyingType env (rsFile def, rsParsed def) ty ix) (underlying env (rsFile def, rsParsed def) ty)"
        unfolding underlying_def using that value_reference_read[OF Some] by (intro UnderlyingType_gives) auto
      then show ?thesis by (auto simp: gives_def split: prod.splits)
    qed
    show ?thesis unfolding identValueMatches_def
      using True Some bt by (auto simp: ident_fits_def gives_same split: Node.split intro!: gives_do[OF ResolveValue_gives[OF assms]])
  qed
qed (simp add: identValueMatches_def ident_fits_def gives_same assms(1))

lemma intValueMatches_gives:
  assumes "index_good env ix" "read_file env (fst sc) = Some (snd sc)"
  shows "gives env (intValueMatches env (Some ut) sc v ix) (int_fits env sc ut v)"
proof (cases "\<not> bool_text (cvText v) \<and> ftKind ut = TypeIdent")
  case True
  then show ?thesis unfolding intValueMatches_def
    by (auto simp: int_fits_def gives_same intro!: gives_do[OF ResolveType_gives[OF assms]])
qed (cases "ftKind ut"; simp add: intValueMatches_def int_fits_def gives_same assms(1))

lemma value_children_ok:
  assumes "node_ok toks s (N_ConstValue v)"
  shows "w \<in> set (cvList v) \<Longrightarrow> node_ok toks s (N_ConstValue w)"
    "e \<in> set (cvMap v) \<Longrightarrow> node_ok toks s (N_ConstValue (cmKey e))" "e \<in> set (cvMap v) \<Longrightarrow> node_ok toks s (N_ConstValue (cmValue e))"
  by (auto intro!: node_ok_child[OF assms])

lemma accepted_fields_read: "accepted_fields env sc ut = Some (fs, sc') \<Longrightarrow> read_file env (fst sc') = Some (snd sc')"
proof -
  assume f: "accepted_fields env sc ut = Some (fs, sc')"
  then obtain def where d: "type_reference env sc (Some ut) = Some def"
    by (cases "type_reference env sc (Some ut)") (auto simp: accepted_fields_unfold split: if_splits)
  then show "read_file env (fst sc') = Some (snd sc')" using f type_reference_read[OF d]
    by (cases "rsNode def") (auto simp: accepted_fields_unfold split: if_splits)
qed

text \<open>The body of the loop over the entries of a literal of struct type.\<close>

definition struct_entry :: "Env \<Rightarrow> scope \<Rightarrow> bytes \<Rightarrow> Field list \<Rightarrow> scope \<Rightarrow> ConstMapEntry \<Rightarrow> Index \<Rightarrow> (Diagnostic list \<times> Index) option" where
  "struct_entry env report t fs sc = (\<lambda>entry ix.
     if cvKind (cmKey entry) \<noteq> ValueString
     then map_option (\<lambda>d. ([d], ix)) (mismatchDiagnostic (snd report) (cmKey entry) ''field name'' (kindName (cvKind (cmKey entry))))
     else
       (let name = trim_quotes (cvText (cmKey entry)) in
        case fields_by_name fs name of
          None \<Rightarrow> map_option (\<lambda>d. ([d], ix)) (unknownFieldDiagnostic (snd report) (cmKey entry) t name)
        | Some f \<Rightarrow> checkValueType env report sc (fiType f) (cmValue entry) ix))"

lemma struct_entry_reports:
  assumes "index_good env ix" "node_ok (tokens_of report) False (N_ConstValue (cmKey e))"
    "\<And>ft. reports env (checkValueType env report sc ft (cmValue e) ix) (value_accepted env report sc ft (cmValue e))"
  shows "reports env (struct_entry env report t fs sc e ix) (cvKind (cmKey e) = ValueString \<and>
    (\<exists>f. fields_by_name fs (trim_quotes (cvText (cmKey e))) = Some f \<and> value_accepted env report sc (fiType f) (cmValue e)))"
proof (cases "cvKind (cmKey e) = ValueString")
  case True
  obtain d where d: "unknownFieldDiagnostic (snd report) (cmKey e) t (trim_quotes (cvText (cmKey e))) = Some d"
    using mismatch_ok(2)[OF assms(2)] by blast
  then show ?thesis using True assms(1,3)
    by (cases "fields_by_name fs (trim_quotes (cvText (cmKey e)))") (simp_all add: struct_entry_def reports_one)
next
  case False
  obtain d where "mismatchDiagnostic (snd report) (cmKey e) ''field name'' (kindName (cvKind (cmKey e))) = Some d"
    using mismatch_ok(1)[OF assms(2)] by blast
  then show ?thesis using False assms(1) by (simp add: struct_entry_def reports_one)
qed

lemma checkValueType_reports:
  assumes "read_file env (fst report) = Some (snd report)"
  shows "index_good env ix \<Longrightarrow> read_file env (fst sc) = Some (snd sc) \<Longrightarrow> node_ok (tokens_of report) False (N_ConstValue v) \<Longrightarrow>
    reports env (checkValueType env report sc ft v ix) (value_accepted env report sc ft v)"
proof (induction v arbitrary: sc ft ix rule: measure_induct_rule[of size])
  case (less v)
  obtain ut sc' where u: "underlying env sc ft = (ut, sc')" by (cases "underlying env sc ft")
  obtain ix' where ix': "UnderlyingType env sc ft ix = Some ((ut, sc'), ix')" "index_good env ix'"
    using UnderlyingType_gives[OF less.prems(1,2), of ft] u by (auto simp: gives_def underlying_def)
  have read: "read_file env (fst sc') = Some (snd sc')" using underlying_read[OF u less.prems(2)] .
  note accept = accept_reports[OF less.prems(3)] and same = gives_same[OF ix'(2)]
  note list_IH = less.IH[OF value_size(1) _ _ value_children_ok(1)[OF less.prems(3)]]
    and key_IH = less.IH[OF value_size(2)[THEN conjunct1] _ _ value_children_ok(2)[OF less.prems(3)]]
    and val_IH = less.IH[OF value_size(2)[THEN conjunct2] _ _ value_children_ok(3)[OF less.prems(3)]]
  show ?case
  proof (cases ut)
    case None
    then show ?thesis using u ix' by (simp add: checkValueType.simps[of env report] value_accepted_iff[of env report sc ft v] reports_none)
  next
    case (Some t)
    obtain c1 c2 where c: "sc' = (c1, c2)" by (cases sc')
    note s = checkValueType.simps[of env report sc ft v ix] value_accepted_iff[of env report sc ft v] ix'(1) u Some c
    show ?thesis
    proof (cases "cvKind v")
      case ValueMap
      show ?thesis
      proof (cases "ftKind t = TypeMap")
        case True
        have "reports env (collect_loop (\<lambda>entry ix. do {
            (a, ix) \<leftarrow> checkValueType env report sc' (ftKeyType t) (cmKey entry) ix;
            (b, ix) \<leftarrow> checkValueType env report sc' (ftValueType t) (cmValue entry) ix;
            Some (a @ b, ix) }) (cvMap v) ix')
          (\<forall>e \<in> set (cvMap v). value_accepted env report sc' (ftKeyType t) (cmKey e) \<and> value_accepted env report sc' (ftValueType t) (cmValue e))"
          by (rule reports_loop[OF ix'(2)]) (intro reports_append key_IH val_IH read)
        moreover have "accepted_fields env sc' t = None" using True by (simp add: accepted_fields_unfold)
        ultimately show ?thesis using ValueMap True by (simp add: s ball_conj_distrib Ball_def)
      next
        case False
        note sf = structFields_gives[OF ix'(2) read, of t]
        show ?thesis
        proof (cases "accepted_fields env sc' t")
          case None
          then show ?thesis using ValueMap False sf accept
            by (auto simp: s gives_def gives_same split: option.splits)
        next
          case fs: (Some fs)
          obtain f c3 c4 where "fs = (f, c3, c4)" by (cases fs) auto
          then obtain sc'' where p: "fs = (f, sc'')" and sc''_def: "sc'' = (c3, c4)" by simp
          have read'': "read_file env (fst sc'') = Some (snd sc'')" using accepted_fields_read fs p by blast
          obtain ix2 where ix2: "structFields env (Some t) sc' ix' = Some (Some (f, sc''), ix2)" "index_good env ix2"
            using sf fs p by (auto simp: gives_def)
          have "reports env (collect_loop (struct_entry env report (underlyingName (Some t)) f sc'') (cvMap v) ix2)
              (\<forall>e \<in> set (cvMap v). cvKind (cmKey e) = ValueString \<and>
                (\<exists>g. fields_by_name f (trim_quotes (cvText (cmKey e))) = Some g \<and> value_accepted env report sc'' (fiType g) (cmValue e)))"
            by (rule reports_loop[OF ix2(2)])
              (rule struct_entry_reports[OF _ value_children_ok(2)[OF less.prems(3)] val_IH[OF _ _ read'']])
          then show ?thesis using ValueMap False fs p ix2(1)
            by (simp add: s Ball_def struct_entry_def[abs_def] sc''_def)
        qed
      qed
    next
      case ValueList
      show ?thesis
      proof (cases "ftKind t \<in> {TypeList, TypeSet}")
        case True
        have "reports env (collect_loop (checkValueType env report sc' (ftValueType t)) (cvList v) ix')
            (\<forall>w \<in> set (cvList v). value_accepted env report sc' (ftValueType t) w)"
          by (rule reports_loop[OF ix'(2)]) (rule list_IH[OF _ _ read])
        then show ?thesis using ValueList True by (auto simp: s isKind_def Ball_def)
      qed (use ValueList accept[OF same] in \<open>auto simp: s isKind_def\<close>)
    next
      case ValueIdent
      show ?thesis using ValueIdent accept[OF identValueMatches_gives[OF ix'(2) assms]] by (simp add: s)
    next
      case ValueInt
      show ?thesis using ValueInt accept[OF intValueMatches_gives[OF ix'(2) read]] by (simp add: s)
    qed (use accept[OF same] in \<open>simp_all add: s\<close>)
  qed
qed

section \<open>Documents\<close>

lemma gather_fold:
  "fold (\<lambda>n r. snd (gather_visit f n r)) ns (Some (ys, s)) = map_option (\<lambda>(zs, s). (ys @ zs, s)) (collect_loop f ns s)"
proof (induction ns arbitrary: ys s)
  case (Cons n ns)
  have "fold (\<lambda>n r. snd (gather_visit f n r)) ns None = None" by (induction ns) (simp_all add: gather_visit_def)
  then show ?case using Cons.IH by (cases "f n s") (auto simp: gather_visit_def split: option.splits)
qed simp

lemma gather_walk_loop:
  assumes "any_ok toks (A_Document doc)"
  shows "gather_walk f doc s = collect_loop f (preorder (A_Document doc)) s"
proof -
  have v: "gather_visit f = (\<lambda>n r. (True, snd (gather_visit f n r)))" by (intro ext) (simp add: gather_visit_def)
  have "Walk (gather_visit f) (A_Document doc) (Some ([], s)) =
      Some (fold (\<lambda>n r. snd (gather_visit f n r)) (preorder (A_Document doc)) (Some ([], s)))"
    by (subst v) (rule Walk_fold[OF assms])
  then show ?thesis by (simp add: gather_walk_def gather_fold map_option.id[unfolded id_def] case_prod_beta')
qed

lemma read_file_ok: "read_file env u = Some pf \<Longrightarrow> any_ok (docTokens (pfAst pf)) (A_Document (pfAst pf))"
proof -
  assume "read_file env u = Some pf"
  then obtain c errs where "Parse c = Some (pfAst pf, errs)" using read_file_parsed by (fastforce simp: parse_file_def)
  then show ?thesis using Parse_any_ok[of c] by simp
qed

definition node_typed :: "Env \<Rightarrow> scope \<Rightarrow> AnyNode \<Rightarrow> bool" where
  "node_typed env sc n \<longleftrightarrow>
     (case n of
        A_Node (N_FieldType ft) \<Rightarrow> ftKind ft = TypeIdent \<longrightarrow> type_reference env sc (Some ft) \<noteq> None
      | A_Node (N_Field f) \<Rightarrow> (case fiValue f of None \<Rightarrow> True | Some v \<Rightarrow> value_fits env sc sc (fiType f) v)
      | A_Node (N_Const c) \<Rightarrow> (case coValue c of None \<Rightarrow> True | Some v \<Rightarrow> value_fits env sc sc (coType c) v)
      | A_Node (N_ConstValue v) \<Rightarrow>
          cvKind v = ValueIdent \<and> \<not> bool_text (cvText v) \<longrightarrow> value_reference env sc (Some v) \<noteq> None
      | A_Node (N_StructuredAnnotation sa) \<Rightarrow>
          (case saName sa of None \<Rightarrow> True | Some i \<Rightarrow> type_reference env sc (Some (typeReference (idText i))) \<noteq> None)
      | _ \<Rightarrow> True)"

text \<open>The constants and default values in which an empty literal stands for an empty struct.\<close>

definition node_meets_empty :: "Env \<Rightarrow> scope \<Rightarrow> AnyNode \<Rightarrow> bool" where
  "node_meets_empty env sc n \<longleftrightarrow>
     (case n of
        A_Node (N_Field f) \<Rightarrow> (case fiValue f of None \<Rightarrow> False | Some v \<Rightarrow> meets_empty env sc (fiType f) v)
      | A_Node (N_Const c) \<Rightarrow> (case coValue c of None \<Rightarrow> False | Some v \<Rightarrow> meets_empty env sc (coType c) v)
      | _ \<Rightarrow> False)"

definition node_accepted :: "Env \<Rightarrow> scope \<Rightarrow> AnyNode \<Rightarrow> bool" where
  "node_accepted env sc n \<longleftrightarrow> node_typed env sc n \<and> \<not> node_meets_empty env sc n"

lemma node_accepted_iff:
  "node_accepted env sc n \<longleftrightarrow>
     (case n of
        A_Node (N_FieldType ft) \<Rightarrow> ftKind ft = TypeIdent \<longrightarrow> type_reference env sc (Some ft) \<noteq> None
      | A_Node (N_Field f) \<Rightarrow> (case fiValue f of None \<Rightarrow> True | Some v \<Rightarrow> value_accepted env sc sc (fiType f) v)
      | A_Node (N_Const c) \<Rightarrow> (case coValue c of None \<Rightarrow> True | Some v \<Rightarrow> value_accepted env sc sc (coType c) v)
      | A_Node (N_ConstValue v) \<Rightarrow>
          cvKind v = ValueIdent \<and> \<not> bool_text (cvText v) \<longrightarrow> value_reference env sc (Some v) \<noteq> None
      | A_Node (N_StructuredAnnotation sa) \<Rightarrow>
          (case saName sa of None \<Rightarrow> True | Some i \<Rightarrow> type_reference env sc (Some (typeReference (idText i))) \<noteq> None)
      | _ \<Rightarrow> True)"
  by (auto simp: node_accepted_def node_typed_def node_meets_empty_def value_accepted_fits
      split: AnyNode.split Node.split option.splits)

definition well_typed :: "Env \<Rightarrow> scope \<Rightarrow> bool" where
  "well_typed env sc \<longleftrightarrow> (\<forall>n \<in> set (preorder (A_Document (pfAst (snd sc)))). node_typed env sc n)"

definition has_empty_literal :: "Env \<Rightarrow> scope \<Rightarrow> bool" where
  "has_empty_literal env sc \<longleftrightarrow> (\<exists>n \<in> set (preorder (A_Document (pfAst (snd sc)))). node_meets_empty env sc n)"

lemma exists_reports:
  assumes "gives env r def" "\<exists>sp. SpanOf (snd sc) n = Some sp"
  shows "reports env (do { (def, ix) \<leftarrow> r; if def \<noteq> None then Some ([], ix)
    else map_option (\<lambda>sp. ([diagnostic code sev msg sp], ix)) (SpanOf (snd sc) n) }) (def \<noteq> None)"
  using assms by (cases def) (auto simp: gives_def reports_def)

lemma bind_return: "Option.bind r (\<lambda>y. Some (g y)) = map_option g r"
  by (cases r) auto

lemma check_node_reports:
  assumes "index_good env ix" "read_file env (fst sc) = Some (snd sc)" "any_ok (tokens_of sc) n"
  shows "reports env (check_node env sc n ix) (node_accepted env sc n)"
proof (cases n)
  case (A_Document d)
  then show ?thesis using assms(1) by (simp add: check_node_def node_accepted_iff reports_none)
next
  case (A_Node m)
  then have m: "node_ok (tokens_of sc) False m" using assms(3) by (simp add: any_ok_def)
  note res = ResolveType_gives[OF assms(1,2)] and none = reports_none[OF assms(1)]
  show ?thesis
  proof (cases m)
    case (N_FieldType ft)
    show ?thesis
    proof (cases "ftKind ft = TypeIdent")
      case True
      then obtain i where i: "ftIdent ft = Some i" using m N_FieldType by (auto elim!: node_ok.cases)
      have "node_ok (tokens_of sc) False (N_Identifier i)" using node_ok_child[OF m] N_FieldType i by auto
      then show ?thesis using exists_reports[OF res SpanOf_ok] A_Node N_FieldType True i
        by (simp add: check_node_def node_accepted_iff checkTypeExist_def bind_return cong: if_cong)
    qed (use A_Node N_FieldType none in \<open>simp add: check_node_def node_accepted_iff checkTypeExist_def\<close>)
  next
    case (N_Field f)
    then show ?thesis using checkValueType_reports[OF assms(2,1,2)] node_ok_child[OF m] none A_Node
      by (cases "fiValue f") (auto simp: check_node_def node_accepted_iff)
  next
    case (N_Const c)
    then show ?thesis using checkValueType_reports[OF assms(2,1,2)] node_ok_child[OF m] none A_Node
      by (cases "coValue c") (auto simp: check_node_def node_accepted_iff)
  next
    case (N_ConstValue v)
    then show ?thesis using exists_reports[OF ResolveValue_gives[OF assms(1,2)] SpanOf_ok[OF m]] none A_Node
      by (auto simp: check_node_def node_accepted_iff checkConstValueExist_def)
  next
    case (N_StructuredAnnotation sa)
    show ?thesis
    proof (cases "saName sa")
      case (Some i)
      then have "node_ok (tokens_of sc) False (N_Identifier i)" using node_ok_child[OF m] N_StructuredAnnotation by auto
      then show ?thesis using exists_reports[OF res SpanOf_ok] A_Node N_StructuredAnnotation Some
        by (simp add: check_node_def node_accepted_iff checkAnnotationTypeExist_def)
    qed (use A_Node N_StructuredAnnotation none in \<open>simp add: check_node_def node_accepted_iff checkAnnotationTypeExist_def\<close>)
  qed (use A_Node none in \<open>simp_all add: check_node_def node_accepted_iff\<close>)
qed

section \<open>Properties\<close>

text \<open>An empty literal fits an empty struct; the analyzer reports it all the same.\<close>

lemma empty_struct_literal_reported:
  assumes "index_good env ix" "read_file env (fst report) = Some (snd report)" "read_file env (fst sc) = Some (snd sc)"
    "node_ok (tokens_of report) False (N_ConstValue v)" "underlying env sc ft = (Some ut, sc')"
    "struct_fields env sc' ut = Some ([], sc'')" "cvKind v = ValueMap" "cvMap v = []"
  shows "value_fits env report sc ft v" "\<exists>d ds ix'. checkValueType env report sc ft v ix = Some (d # ds, ix')"
proof -
  show "value_fits env report sc ft v" using assms(5-8) by (intro fits_struct) auto
  have "\<not> value_accepted env report sc ft v" using empty_here[OF assms(5,7,8,6)] by (simp add: value_accepted_fits)
  then show "\<exists>d ds ix'. checkValueType env report sc ft v ix = Some (d # ds, ix')"
    using checkValueType_reports[OF assms(2,1,3,4), of ft] by (auto simp: reports_def neq_Nil_conv)
qed

text \<open>
  C3: the analyzer of references and value types is sound and complete for the typing of
  documents: on every file that can be read it returns, with a sound index, and it reports
  nothing exactly if every type name, annotation name and identifier value resolves and
  the literal of every constant and default value fits the declared type, through typedefs,
  containers, struct fields and includes, and no empty literal stands where a struct
  without fields is expected: such a literal fits, and is reported all the same.
\<close>

theorem SemanticAnalysis_typing:
  assumes "index_good env ix" "read_file env (fst sc) = Some (snd sc)"
  shows "\<exists>ds ix'. faAnalyzeFile SemanticAnalysis env sc ix = Some (Inr ds, ix') \<and> index_good env ix' \<and>
    (ds = [] \<longleftrightarrow> well_typed env sc \<and> \<not> has_empty_literal env sc)"
proof -
  note ok = read_file_ok[OF assms(2)]
  have "reports env (collect_loop (check_node env sc) (preorder (A_Document (pfAst (snd sc)))) ix)
      (\<forall>n \<in> set (preorder (A_Document (pfAst (snd sc)))). node_accepted env sc n)"
    using preorder_nested[OF _ ok] assms(2) by (intro reports_loop[OF assms(1)] check_node_reports) auto
  then have "reports env (collect_loop (check_node env sc) (preorder (A_Document (pfAst (snd sc)))) ix)
      (well_typed env sc \<and> \<not> has_empty_literal env sc)"
    by (simp add: well_typed_def has_empty_literal_def node_accepted_def ball_conj_distrib)
  then show ?thesis
    by (auto simp: SemanticAnalysis_def checkDefinitionExist_def gather_walk_loop[OF ok] reports_def)
qed

text \<open>Constants of a struct type of an included file, with a number and with a string for its field.\<close>

definition typed_env :: "bytes \<Rightarrow> Env" where
  "typed_env lit = demo_env\<lparr>evSource := NewOverlayFS (fmap_of_list
     [(''/a'', ''include'' @ [DQUOTE] @ ''b'' @ [DQUOTE] @ ''const b.T M={'' @ [DQUOTE] @ ''x'' @ [DQUOTE] @ '':'' @ lit @ ''}''),
      (''/b'', ''struct T{1:i8 x}'')])\<rparr>"

definition typed_messages :: "Env \<Rightarrow> message list option" where
  "typed_messages env = Option.bind (read_file env ''/a'') (\<lambda>pf. Option.bind
     (faAnalyzeFile SemanticAnalysis env (''/a'', pf) (NewIndex NewView))
     (\<lambda>(r, ix). case r of Inl err \<Rightarrow> None | Inr ds \<Rightarrow> Some (map diMessage ds)))"

lemma typed_env_reports:
  "typed_messages (typed_env ''1'') = Some []"
  "typed_messages (typed_env [DQUOTE, DQUOTE]) = Some [Sprintf ''expect %s but got %s'' [''i8'', ''string'']]"
  by code_simp+

lemma SemanticAnalysis_typing_witness:
  "(\<exists>pf. read_file (typed_env ''1'') ''/a'' = Some pf \<and>
      well_typed (typed_env ''1'') (''/a'', pf) \<and> \<not> has_empty_literal (typed_env ''1'') (''/a'', pf)) \<and>
   (\<exists>pf. read_file (typed_env [DQUOTE, DQUOTE]) ''/a'' = Some pf \<and>
      \<not> (well_typed (typed_env [DQUOTE, DQUOTE]) (''/a'', pf) \<and> \<not> has_empty_literal (typed_env [DQUOTE, DQUOTE]) (''/a'', pf)))"
proof -
  have "\<exists>pf. read_file (typed_env lit) ''/a'' = Some pf \<and>
      (ms = [] \<longleftrightarrow> well_typed (typed_env lit) (''/a'', pf) \<and> \<not> has_empty_literal (typed_env lit) (''/a'', pf))"
    if m: "typed_messages (typed_env lit) = Some ms" for lit ms
  proof -
    obtain pf where pf: "read_file (typed_env lit) ''/a'' = Some pf" using m by (auto simp: typed_messages_def bind_eq_Some_conv)
    then show ?thesis
      using m SemanticAnalysis_typing[OF index_good_new[OF view_good_new], of "typed_env lit" "(''/a'', pf)"]
      by (auto simp: typed_messages_def)
  qed
  from this[OF typed_env_reports(1)] this[OF typed_env_reports(2)] show ?thesis by auto
qed

end
