(* ===== verification/Totality.thy ===== *)
theory Totality imports TypeCheckProps
begin

text \<open>
  Why the analysis never panics. Whatever the cache of a view holds, if every parse in it
  is a parse of some content then no resolution and no search fails, and the cache keeps
  this property; nothing is assumed of the contents of files, which may change at any
  time. The trees of such parses are well formed, so every pointer that the code
  dereferences is set and every node has a span.
\<close>

section \<open>Sound states\<close>

definition parsed_ok :: "ParsedFile \<Rightarrow> bool" where
  "parsed_ok pf \<longleftrightarrow> parse_file (pfContent pf) = Some pf"

definition view_ok :: "View \<Rightarrow> bool" where
  "view_ok v \<longleftrightarrow> (\<forall>u pf. parsed v u = Some pf \<longrightarrow> parsed_ok pf)"

abbreviation index_ok :: "Index \<Rightarrow> bool" where
  "index_ok ix \<equiv> view_ok (isView ix)"

text \<open>An operation does not panic, and keeps an invariant of its state.\<close>

definition yields :: "('s \<Rightarrow> bool) \<Rightarrow> ('a \<times> 's) option \<Rightarrow> bool" where
  "yields I r \<longleftrightarrow> (\<exists>x s. r = Some (x, s) \<and> I s)"

lemma yields_Some [simp]: "yields I (Some (x, s)) \<longleftrightarrow> I s"
  by (simp add: yields_def)

lemma yields_bind:
  "yields I r \<Longrightarrow> (\<And>x s. r = Some (x, s) \<Longrightarrow> I s \<Longrightarrow> yields J (f (x, s))) \<Longrightarrow> yields J (Option.bind r f)"
  by (auto simp: yields_def)

lemma yields_case:
  "yields I r \<Longrightarrow> (\<And>x s. r = Some (x, s) \<Longrightarrow> I s \<Longrightarrow> yields J (f (x, s))) \<Longrightarrow> yields J (case r of None \<Rightarrow> None | Some y \<Rightarrow> f y)"
  by (auto simp: yields_def)

lemma yields_map:
  "yields I r \<Longrightarrow> (\<And>x s. I s \<Longrightarrow> J (snd (g (x, s)))) \<Longrightarrow> yields J (map_option g r)"
  unfolding yields_def by (metis option.simps(9) prod.collapse)

lemma yields_same: "I s \<Longrightarrow> \<exists>x. r = Some x \<Longrightarrow> yields I (map_option (\<lambda>x. (g x, s)) r)"
  by auto

lemma yields_loop:
  "I s \<Longrightarrow> (\<And>x s. x \<in> set xs \<Longrightarrow> I s \<Longrightarrow> yields I (f x s)) \<Longrightarrow> yields I (collect_loop f xs s)"
proof (induction xs arbitrary: s)
  case (Cons x xs)
  obtain ys s' where x: "f x s = Some (ys, s')" "I s'" using Cons.prems(2)[of x s] Cons.prems(1) by (auto simp: yields_def)
  have "yields I (collect_loop f xs s')" using Cons.prems(2) by (intro Cons.IH[OF x(2)]) auto
  then show ?case using x by (auto simp: yields_def)
qed simp

section \<open>Parses\<close>

lemma parse_file_ok: "parse_file c = Some pf \<Longrightarrow> parsed_ok pf"
  by (auto simp: parse_file_def parsed_ok_def)

lemma env_parse_ok:
  assumes "view_ok v" "env_parse env u v = (pf, v')"
  shows "view_ok v'" "pf = Some p \<Longrightarrow> parsed_ok p"
proof -
  have "view_ok v' \<and> (\<forall>p. pf = Some p \<longrightarrow> parsed_ok p)"
  proof (cases "parsed v u")
    case (Some p)
    then show ?thesis using assms unfolding view_ok_def by (auto simp: env_parse_def View_Parse_def)
  next
    case none: None
    show ?thesis
    proof (cases "parse_start (env_resolver env) (env_files env) (evGuard env) (vwGen v) u")
      case (Some j)
      then have "parsed_ok (jbParsed j)" by (auto simp: parse_start_def bind_eq_Some_conv intro: parse_file_ok)
      then show ?thesis using assms none Some
        by (auto simp: env_parse_def View_Parse_def parse_commit_def view_ok_def parsed_def split: if_splits)
    qed (use assms none in \<open>auto simp: env_parse_def View_Parse_def\<close>)
  qed
  then show "view_ok v'" "pf = Some p \<Longrightarrow> parsed_ok p" by auto
qed

lemma parsed_ok_Parse: "parsed_ok pf \<Longrightarrow> Parse (pfContent pf) = Some (pfAst pf, pfErrs pf)"
  by (cases pf) (auto simp: parsed_ok_def parse_file_def)

lemma parsed_ok_index: "parsed_ok pf \<Longrightarrow> \<exists>x. buildIndex (pfAst pf) = Some x"
  unfolding parsed_ok_def by (rule parsed_index)

lemma definitionFiles_ok: "view_ok v \<Longrightarrow> view_ok (snd (definitionFiles env u ast name v))"
proof -
  have "view_ok v \<Longrightarrow> view_ok (snd (visit_includes env v work files))" for work files
  proof (induction env v work files rule: visit_includes.induct)
    case (2 env v u path work files)
    let ?inc = "env_resolve env u path"
    obtain pf w where p: "env_parse env ?inc v = (pf, w)" by fastforce
    show ?case
    proof (cases "?inc \<in> set files")
      case True
      then show ?thesis using "2.IH"(1)[OF refl True] "2.prems" by (simp add: Let_def)
    next
      case False
      then show ?thesis using "2.IH"(2)[OF refl False p[symmetric] refl env_parse_ok(1)[OF "2.prems" p]] by (simp add: p Let_def)
    qed
  qed simp
  then show "view_ok v \<Longrightarrow> ?thesis" by (simp add: definitionFiles_def Let_def split: prod.splits)
qed

section \<open>Resolution\<close>

context resolution
begin

lemma search_ok: "view_ok v \<Longrightarrow> yields view_ok (search_files env (pick i) us v)"
proof (induction us arbitrary: v)
  case (Cons u us)
  obtain pf w where p: "env_parse env u v = (pf, w)" by fastforce
  note ok = env_parse_ok[OF Cons.prems p]
  show ?case
  proof (cases pf)
    case None
    then show ?thesis using Cons.IH[OF ok(1)] by (simp add: p)
  next
    case (Some f)
    then obtain r where "pick i (u, f) = Some r" using pick_total[of "pfContent f" f i u] ok(2)[OF Some] by (auto simp: parsed_ok_def)
    then show ?thesis using Some Cons.IH[OF ok(1)] ok(1) by (cases r) (simp_all add: p)
  qed
qed simp

lemma memo_ok: "index_ok ix \<Longrightarrow> yields index_ok (through_memo k (search_definition env pick strip sc name) u n ix)"
proof -
  assume ix: "index_ok ix"
  have "yields view_ok (search_definition env pick strip sc name (isView ix))"
    using definitionFiles_ok[OF ix, of env "fst sc" "pfAst (snd sc)" name]
    by (auto simp: search_definition_def search_ok split: prod.splits)
  then show ?thesis using ix by (auto simp: through_memo_def memoize_def yields_def split: option.splits)
qed

end

lemma ResolveType_ok: "index_ok ix \<Longrightarrow> yields index_ok (ResolveType env sc ft ix)"
  using type_resolution.memo_ok[of ix env sc "TypeReferenceName ft" "fst sc" "TypeReferenceName ft"]
  by (simp add: ResolveType_def Let_def resolve_type_def[abs_def])

lemma ResolveValue_ok: "index_ok ix \<Longrightarrow> yields index_ok (ResolveValue env sc v ix)"
  using value_resolution.memo_ok by (auto simp: ResolveValue_def resolve_value_def[abs_def] split: option.splits)

lemma ResolveService_ok: "index_ok ix \<Longrightarrow> yields index_ok (ResolveService env sc i ix)"
  using service_resolution.memo_ok by (auto simp: ResolveService_def resolve_service_def[abs_def] split: option.splits)

lemmas resolve_ok = ResolveType_ok ResolveValue_ok ResolveService_ok

lemma UnderlyingType_ok: "index_ok ix \<Longrightarrow> yields index_ok (UnderlyingType env sc ft ix)"
proof -
  have "index_ok ix \<Longrightarrow> yields index_ok (underlying_loop n env sc ft ix)" for n
  proof (induction n arbitrary: sc ft ix)
    case (Suc n)
    have "yields index_ok (case ResolveType env sc ft ix of
        None \<Rightarrow> None
      | Some (None, ix) \<Rightarrow> Some ((None, sc), ix)
      | Some (Some def, ix) \<Rightarrow>
          (case rsNode def of N_Typedef td \<Rightarrow> underlying_loop n env (rsFile def, rsParsed def) (tdType td) ix | _ \<Rightarrow> Some ((ft, sc), ix)))"
      by (rule yields_case[OF ResolveType_ok[OF Suc.prems]]) (auto simp: Suc.IH split: option.split Node.split)
    then show ?case using Suc.prems by (auto split: option.splits)
  qed simp
  then show "index_ok ix \<Longrightarrow> ?thesis" by (simp add: UnderlyingType_def)
qed

section \<open>The workspace\<close>

lemma Definitions_nodes:
  assumes "parsed_ok pf"
  shows "\<exists>defs. Definitions pf = Some defs \<and> (\<forall>i n. defs i = Some n \<longrightarrow> top_name n \<noteq> None)"
proof -
  have d: "doc_wf False (pfAst pf)" using Parse_parts(2)[OF parsed_ok_Parse[OF assms]] .
  have "top_name n \<noteq> None" if "map_of (rev (concat (map defined ns))) i = Some n" for ns i n
  proof -
    have "(i, n) \<in> set (concat (map defined ns))" using map_of_SomeD[OF that] by auto
    then obtain m where "(i, n) \<in> set (defined m)" by auto
    then show ?thesis by (cases "top_name m") (auto simp: defined_def of_opt_def)
  qed
  then show ?thesis by (simp add: Definitions_def buildIndex[OF d] binds_def emptyIndex_def adds_def)
qed

lemma DefFromNode_named: "top_name n \<noteq> None \<Longrightarrow> \<exists>d. DefFromNode sc n = Some d"
  by (cases n) auto

lemma find_definition_ok: "view_ok v \<Longrightarrow> yields view_ok (find_definition env inc i us v)"
proof (induction us arbitrary: v)
  case (Cons u us)
  obtain pf w where p: "env_parse env u v = (pf, w)" by fastforce
  note ok = env_parse_ok[OF Cons.prems p] and IH = Cons.IH[OF env_parse_ok(1)[OF Cons.prems p]]
  show ?case
  proof (cases pf)
    case None
    then show ?thesis using Cons.IH[OF Cons.prems] IH by (simp add: p)
  next
    case (Some f)
    obtain defs where d: "Definitions f = Some defs" "\<forall>i n. defs i = Some n \<longrightarrow> top_name n \<noteq> None"
      using Definitions_nodes[OF ok(2)[OF Some]] by blast
    have "yields view_ok (case defs i of None \<Rightarrow> find_definition env inc i us w
        | Some n \<Rightarrow> do { def \<leftarrow> DefFromNode (u, f) n; Some (Some def, w) })"
    proof (cases "defs i")
      case (Some n)
      then have "top_name n \<noteq> None" using d(2) by blast
      from DefFromNode_named[OF this, of "(u, f)"] show ?thesis using Some ok(1) by auto
    qed (use IH in simp)
    then show ?thesis using Some Cons.IH[OF Cons.prems] by (simp add: p d(1))
  qed
qed simp

lemma FindInWorkspace_ok: "view_ok v \<Longrightarrow> yields view_ok (FindInWorkspace env name v)"
proof -
  assume v: "view_ok v"
  obtain inc i where q: "splitQualifiedName name = (inc, i)" by fastforce
  obtain d w where f: "find_definition env inc i (KnownFiles v) v = Some (d, w)" "view_ok w"
    using find_definition_ok[OF v, of env inc i "KnownFiles v"] by (auto simp: yields_def)
  then show ?thesis using find_definition_ok[OF f(2)] by (cases d) (simp_all add: FindInWorkspace_def q Let_def)
qed

section \<open>Trees\<close>

abbreviation in_tree :: "ParsedFile \<Rightarrow> Node \<Rightarrow> bool" where
  "in_tree pf n \<equiv> node_ok (docTokens (pfAst pf)) False n"

abbreviation spanned :: "ParsedFile \<Rightarrow> Node \<Rightarrow> bool" where
  "spanned pf n \<equiv> \<exists>sp. SpanOf pf n = Some sp"

lemma in_tree_top: "parsed_ok pf \<Longrightarrow> n \<in> set (docNodes (pfAst pf)) \<Longrightarrow> in_tree pf n"
  using Parse_parts(2)[OF parsed_ok_Parse] by (auto simp: doc_wf_def list_all_iff)

lemma in_tree_part: "in_tree pf n \<Longrightarrow> P_node c \<in> set (node_parts n) \<Longrightarrow> in_tree pf c"
  by (auto elim: node_ok.cases)

lemma in_tree_shape: "in_tree pf n \<Longrightarrow> node_shape (docTokens (pfAst pf)) False n"
  by (auto elim: node_ok.cases)

lemmas in_tree_span = SpanOf_ok[of pf False for pf]

lemma in_tree_any: "parsed_ok pf \<Longrightarrow> any_ok (docTokens (pfAst pf)) (A_Document (pfAst pf))"
  using Parse_parts(2)[OF parsed_ok_Parse] by (auto simp: any_ok_def)

lemma accessor_top:
  "x \<in> set (Structs d) \<Longrightarrow> N_Struct x \<in> set (docNodes d)" "x \<in> set (Unions d) \<Longrightarrow> N_Struct x \<in> set (docNodes d)"
  "x \<in> set (Exceptions d) \<Longrightarrow> N_Struct x \<in> set (docNodes d)" "e \<in> set (Enums d) \<Longrightarrow> N_Enum e \<in> set (docNodes d)"
  "s \<in> set (Services d) \<Longrightarrow> N_Service s \<in> set (docNodes d)" "c \<in> set (Consts d) \<Longrightarrow> N_Const c \<in> set (docNodes d)"
  "t \<in> set (Typedefs d) \<Longrightarrow> N_Typedef t \<in> set (docNodes d)" "i \<in> set (Includes d) \<Longrightarrow> N_Include i \<in> set (docNodes d)"
  by (auto simp: Structs_def Unions_def Exceptions_def Enums_def Services_def Consts_def Typedefs_def Includes_def split: Node.splits if_splits)

text \<open>A walk over the whole tree.\<close>

lemma gather_ok:
  assumes "parsed_ok pf" "I s"
    "\<And>n s. I s \<Longrightarrow> any_ok (docTokens (pfAst pf)) n \<Longrightarrow> yields I (f n s)"
  shows "yields I (gather_walk f (pfAst pf) s)"
  using assms preorder_nested[OF _ in_tree_any[OF assms(1)]] unfolding gather_walk_loop[OF in_tree_any[OF assms(1)]]
  by (intro yields_loop) auto

section \<open>Positions\<close>

lemma tiles_end: "tiles c src i ts k \<Longrightarrow> t \<in> set ts \<Longrightarrow> tkEnd t \<le> length src"
proof (induction ts arbitrary: i)
  case (Cons u ts)
  then show ?case using tiles_bounds[of c src "tkEnd u" ts k] by auto
qed simp

lemma token_bound: "parsed_ok pf \<Longrightarrow> i < length (docTokens (pfAst pf)) \<Longrightarrow> tkEnd (docTokens (pfAst pf) ! i) \<le> length (pfContent pf)"
proof -
  assume "parsed_ok pf" "i < length (docTokens (pfAst pf))"
  then have "docTokens (pfAst pf) ! i \<in> set (fst (Lex (pfContent pf)))" using Parse_parts(1)[OF parsed_ok_Parse] by simp
  then obtain ts e where t: "docTokens (pfAst pf) ! i \<in> set (ts @ [e])" "tiles (snd (Lex (pfContent pf)) = []) (pfContent pf) 0 ts (length (pfContent pf))"
    "tkText e = []" "tkOffset e = length (pfContent pf)" using Lex_tiles[of "pfContent pf"] by metis
  moreover have "tkEnd t \<le> length (pfContent pf)" if "t \<in> set ts" for t
    by (rule tiles_end[OF calculation(2) that])
  ultimately show ?thesis by (auto simp: tkEnd_def)
qed

lemma span_bound:
  assumes "parsed_ok pf" "in_tree pf n" "SpanOf pf n = Some sp"
  shows "poOffset (spStart sp) \<le> length (pfContent pf)" "poOffset (spEnd sp) \<le> length (pfContent pf)"
  using assms token_bound[of pf "TokStart n"] token_bound[of pf "TokEnd n"]
  by (auto simp: SpanOf_def Range_def TokenPosition_def TokenEndPosition_def any_start_def any_end_def real_tok_def Let_def tkEnd_def
      elim!: node_ok.cases split: if_splits)

end
