(* ===== verification/AnalyzersTotal.thy ===== *)
theory AnalyzersTotal imports Totality Check
begin

text \<open>
  The contracts of analyzers, file analyzers and pipelines: none panics, and each keeps
  the cache of the view sound. Every built-in analyzer and fixer meets its contract, so
  the default pipeline does.
\<close>

section \<open>Contracts\<close>

abbreviation run_ok :: "Run \<Rightarrow> bool" where
  "run_ok run \<equiv> index_ok (ruIndex run)"

locale total_analyzer =
  fixes az :: Analyzer
  assumes analyze: "run_ok run \<Longrightarrow> yields run_ok (azAnalyze az env run)"

locale total_file_analyzer =
  fixes fa :: FileAnalyzer
  assumes analyze_file: "index_ok ix \<Longrightarrow> parsed_ok (snd sc) \<Longrightarrow> yields index_ok (faAnalyzeFile fa env sc ix)"
begin

lemma each_file_ok: "run_ok run \<Longrightarrow> yields run_ok (each_file fa env us run)"
proof (induction us arbitrary: run)
  case (Cons u us)
  obtain pf w where p: "env_parse env u (isView (ruIndex run)) = (pf, w)" by fastforce
  note ok = env_parse_ok[OF Cons.prems p]
  let ?run = "run\<lparr>ruIndex := (ruIndex run)\<lparr>isView := w\<rparr>\<rparr>"
  show ?case
  proof (cases pf)
    case None
    have "yields run_ok (each_file fa env us ?run)" by (rule Cons.IH) (simp add: ok(1))
    then show ?thesis using None p by (auto simp: yields_def)
  next
    case (Some f)
    obtain r ix where r: "faAnalyzeFile fa env (u, f) ((ruIndex run)\<lparr>isView := w\<rparr>) = Some (r, ix)" "index_ok ix"
      using analyze_file[of "(ruIndex run)\<lparr>isView := w\<rparr>" "(u, f)" env] ok(1) ok(2)[OF Some] by (auto simp: yields_def)
    have "yields run_ok (each_file fa env us (?run\<lparr>ruIndex := ix\<rparr>))"
      "yields run_ok (each_file fa env us (Run_Add u ds (?run\<lparr>ruIndex := ix\<rparr>)))" for ds
      by (rule Cons.IH, simp add: r(2) Run_Add_def)+
    then show ?thesis using Some p r(1) by (cases r) (auto simp: yields_def Let_def)
  qed
qed simp

end

sublocale total_file_analyzer \<subseteq> total_analyzer "EachFile fa"
  by unfold_locales (simp add: EachFile_def each_file_ok)

section \<open>Lists of results\<close>

lemma append_all_ok: "\<forall>r \<in> set rs. \<exists>xs. r = Some xs \<Longrightarrow> \<exists>ys. append_all rs = Some ys"
  by (induction rs) auto

lemma yields_pure: "index_ok ix \<Longrightarrow> \<exists>y. r = Some y \<Longrightarrow> yields index_ok (map_option (\<lambda>ds. (g ds, ix)) r)"
  by auto

section \<open>Names and values\<close>

lemma check_names_ok:
  "\<forall>(label, i) \<in> set ds. case i of None \<Rightarrow> True | Some i \<Rightarrow> spanned pf (N_Identifier i) \<Longrightarrow> \<exists>r. check_names pf seen ds = Some r"
proof (induction pf seen ds rule: check_names.induct)
  case (3 pf seen label i ds)
  then obtain sp where "SpanOf pf (N_Identifier i) = Some sp" by auto
  then show ?case using 3 by auto
qed auto

lemma checkNames_tree:
  "(\<And>x i. x \<in> set xs \<Longrightarrow> f x = Some i \<Longrightarrow> in_tree pf (N_Identifier i)) \<Longrightarrow> \<exists>r. checkNames pf (map (\<lambda>x. (label, f x)) xs) = Some r"
  unfolding checkNames_def using in_tree_span[of pf] by (intro check_names_ok) (fastforce split: option.split)

lemma name_in_tree:
  "in_tree pf (N_Struct v) \<Longrightarrow> stName v = Some i \<Longrightarrow> in_tree pf (N_Identifier i)"
  "in_tree pf (N_Enum e) \<Longrightarrow> enName e = Some i \<Longrightarrow> in_tree pf (N_Identifier i)"
  "in_tree pf (N_Typedef t) \<Longrightarrow> tdName t = Some i \<Longrightarrow> in_tree pf (N_Identifier i)"
  "in_tree pf (N_Const c) \<Longrightarrow> coName c = Some i \<Longrightarrow> in_tree pf (N_Identifier i)"
  "in_tree pf (N_Service s) \<Longrightarrow> svName s = Some i \<Longrightarrow> in_tree pf (N_Identifier i)"
  "in_tree pf (N_EnumValue m) \<Longrightarrow> evName m = Some i \<Longrightarrow> in_tree pf (N_Identifier i)"
  "in_tree pf (N_Field f) \<Longrightarrow> fiName f = Some i \<Longrightarrow> in_tree pf (N_Identifier i)"
  "in_tree pf (N_Function g) \<Longrightarrow> fnName g = Some i \<Longrightarrow> in_tree pf (N_Identifier i)"
  by (erule in_tree_part, simp)+

lemma member_in_tree:
  "in_tree pf (N_Struct v) \<Longrightarrow> f \<in> set (stFields v) \<Longrightarrow> in_tree pf (N_Field f)"
  "in_tree pf (N_Enum e) \<Longrightarrow> m \<in> set (enValues e) \<Longrightarrow> in_tree pf (N_EnumValue m)"
  "in_tree pf (N_Service s) \<Longrightarrow> g \<in> set (svFunctions s) \<Longrightarrow> in_tree pf (N_Function g)"
  "in_tree pf (N_Function g) \<Longrightarrow> f \<in> set (fnArgs g) \<Longrightarrow> in_tree pf (N_Field f)"
  "in_tree pf (N_Function g) \<Longrightarrow> fnThrows g = Some t \<Longrightarrow> in_tree pf (N_Throws t)"
  "in_tree pf (N_Throws t) \<Longrightarrow> f \<in> set (thFields t) \<Longrightarrow> in_tree pf (N_Field f)"
  "in_tree pf (N_Field f) \<Longrightarrow> fiValue f = Some v' \<Longrightarrow> in_tree pf (N_ConstValue v')"
  "in_tree pf (N_Const c) \<Longrightarrow> coValue c = Some v' \<Longrightarrow> in_tree pf (N_ConstValue v')"
  by (erule in_tree_part, simp)+

lemmas tree_intros = name_in_tree member_in_tree

lemma fieldNames_ok: "\<forall>f \<in> set fs. in_tree pf (N_Field f) \<Longrightarrow> \<exists>r. checkNames pf (fieldNames fs label) = Some r"
  unfolding fieldNames_def by (rule checkNames_tree) (auto intro: tree_intros)

lemma check_enum_values_ok:
  "\<forall>mv \<in> set mvs. \<exists>i. evName (emMember mv) = Some i \<and> spanned pf (N_Identifier i) \<Longrightarrow> \<exists>r. check_enum_values pf seen mvs = Some r"
proof (induction mvs arbitrary: seen)
  case (Cons mv mvs)
  then have IH: "\<exists>r. check_enum_values pf seen mvs = Some r" for seen by simp
  obtain i sp where i: "evName (emMember mv) = Some i" "SpanOf pf (N_Identifier i) = Some sp" using Cons.prems by auto
  then show ?case using IH[of seen] IH[of "seen(emValue mv \<mapsto> idText i)"] by (cases "seen (emValue mv)") auto
qed simp

lemma member_values_members: "mv \<in> set (member_values toks val known ms) \<Longrightarrow> emMember mv \<in> set ms"
  by (induction toks val known ms rule: member_values.induct) (auto split: option.splits sum.splits simp: Let_def)

lemma EnumMemberValues_tree:
  assumes "in_tree pf (N_Enum e)" "mv \<in> set (EnumMemberValues toks e)"
  shows "\<exists>i. evName (emMember mv) = Some i \<and> in_tree pf (N_Identifier i)"
proof -
  have m: "in_tree pf (N_EnumValue (emMember mv))"
    using member_values_members assms by (auto simp: EnumMemberValues_def intro: tree_intros)
  then show ?thesis using in_tree_shape[OF m] by (auto intro: tree_intros)
qed

lemma checkEnumValues_ok: "in_tree pf (N_Enum e) \<Longrightarrow> \<exists>r. checkEnumValues pf e = Some r"
  unfolding checkEnumValues_def using EnumMemberValues_tree in_tree_span by (intro check_enum_values_ok) blast

lemma checkValueDuplicates_ok: "in_tree pf (N_ConstValue v) \<Longrightarrow> \<exists>r. checkValueDuplicates quote pf v ty = Some r"
proof (induction v arbitrary: ty rule: measure_induct_rule[of size])
  case (less v)
  have rep: "yields (\<lambda>_. True) (repeated_value quote pf label w seen)" if "in_tree pf (N_ConstValue w)" for label w seen
    using in_tree_span[OF that] by (auto simp: repeated_value_def duplicateValueDiagnostic_def Let_def)
  note kids = value_children_ok[OF less.prems]
  have items: "yields (\<lambda>_. True) (collect_loop (\<lambda>item u. map_option (\<lambda>ds. (ds, u)) (checkValueDuplicates quote pf item ty')) (cvList v) ())" for ty'
    using less.IH value_size(1) kids(1) by (intro yields_loop) (fastforce simp: yields_def)+
  have sets: "yields (\<lambda>_. True) (collect_loop (repeated_value quote pf ''set value'') (cvList v) {})"
    using rep kids(1) by (intro yields_loop) auto
  have entries: "yields (\<lambda>_. True) (collect_loop (\<lambda>entry seen. do {
            (dup, seen) \<leftarrow> repeated_value quote pf ''map key'' (cmKey entry) seen;
            inner \<leftarrow> checkValueDuplicates quote pf (cmValue entry) ty';
            Some (dup @ inner, seen) }) (cvMap v) {})" for ty'
  proof (rule yields_loop)
    fix e and seen :: "bytes set" assume e: "e \<in> set (cvMap v)"
    obtain r where r: "checkValueDuplicates quote pf (cmValue e) ty' = Some r"
      using less.IH[of "cmValue e" ty'] value_size(2)[OF e] kids(3)[OF e] by blast
    show "yields (\<lambda>_. True) (do {
            (dup, seen) \<leftarrow> repeated_value quote pf ''map key'' (cmKey e) seen;
            inner \<leftarrow> checkValueDuplicates quote pf (cmValue e) ty';
            Some (dup @ inner, seen) })"
      by (rule yields_bind[OF rep[OF kids(2)[OF e]]]) (auto simp: r)
  qed simp
  obtain x where x: "collect_loop (\<lambda>item u. map_option (\<lambda>ds. (ds, u)) (checkValueDuplicates quote pf item (containerValueType ty))) (cvList v) () = Some x"
    using items[of "containerValueType ty"] by (auto simp: yields_def)
  obtain y where y: "collect_loop (repeated_value quote pf ''set value'') (cvList v) {} = Some y"
    using sets by (auto simp: yields_def)
  show ?case
  proof (cases "cvKind v")
    case ValueMap
    then show ?thesis using entries[of "containerValueType ty"] by (auto simp: checkValueDuplicates.simps[of quote pf v ty] yields_def)
  next
    case ValueList
    then show ?thesis using x y by (cases ty) (simp_all add: checkValueDuplicates.simps[of quote pf v])
  qed (simp_all add: checkValueDuplicates.simps[of quote pf v ty])
qed

lemma throws_fields: "in_tree pf (N_Function g) \<Longrightarrow> Some t = fnThrows g \<Longrightarrow> f \<in> set (thFields t) \<Longrightarrow> in_tree pf (N_Field f)"
  using member_in_tree(5)[OF _ sym] member_in_tree(6) by blast

lemma top_names_ok: "parsed_ok pf \<Longrightarrow> \<exists>r. checkNames pf (top_names (pfAst pf)) = Some r"
  unfolding checkNames_def top_names_def
  by (rule check_names_ok) (auto split: option.split intro!: in_tree_span intro: name_in_tree[OF _ sym] in_tree_top accessor_top)

lemma enum_checks_ok: "in_tree pf (N_Enum e) \<Longrightarrow> r \<in> set (enum_checks pf e) \<Longrightarrow> \<exists>x. r = Some x"
proof -
  assume e: "in_tree pf (N_Enum e)" and r: "r \<in> set (enum_checks pf e)"
  have "\<exists>r. checkNames pf (map (\<lambda>v. (''member'', evName v)) (enValues e)) = Some r"
    by (rule checkNames_tree) (blast intro: tree_intros e)
  then show "\<exists>x. r = Some x" using r checkEnumValues_ok[OF e] by (auto simp: enum_checks_def)
qed

lemma function_checks_ok: "in_tree pf (N_Function g) \<Longrightarrow> r \<in> set (function_checks pf g) \<Longrightarrow> \<exists>x. r = Some x"
proof -
  assume g: "in_tree pf (N_Function g)" and r: "r \<in> set (function_checks pf g)"
  have "\<exists>x. checkNames pf (fieldNames (fnArgs g) ''argument'') = Some x" by (rule fieldNames_ok) (blast intro: tree_intros g)
  moreover have "\<exists>x. checkNames pf (fieldNames (thFields t) ''field'') = Some x" if "fnThrows g = Some t" for t
    by (rule fieldNames_ok) (blast intro: throws_fields[OF g that[symmetric]])
  ultimately show "\<exists>x. r = Some x" using r by (cases "fnThrows g") (auto simp: function_checks_def)
qed

lemma service_checks_ok: "in_tree pf (N_Service s) \<Longrightarrow> r \<in> set (service_checks pf s) \<Longrightarrow> \<exists>x. r = Some x"
proof -
  assume s: "in_tree pf (N_Service s)" and r: "r \<in> set (service_checks pf s)"
  have "\<exists>x. checkNames pf (map (\<lambda>v. (''function'', fnName v)) (svFunctions s)) = Some x"
    by (rule checkNames_tree) (blast intro: tree_intros s)
  moreover have "\<exists>x. r = Some x" if "g \<in> set (svFunctions s)" "r \<in> set (function_checks pf g)" for g
    by (rule function_checks_ok[OF member_in_tree(3)[OF s that(1)] that(2)])
  ultimately show "\<exists>x. r = Some x" using r by (auto simp: service_checks_def)
qed

lemma const_check_ok: "in_tree pf (N_Const c) \<Longrightarrow> \<exists>r. const_check quote pf c = Some r"
proof -
  assume c: "in_tree pf (N_Const c)"
  then obtain v where v: "coValue c = Some v" using in_tree_shape[OF c] by auto
  from checkValueDuplicates_ok[OF member_in_tree(8)[OF c v]] show ?thesis by (simp add: const_check_def v)
qed

lemma field_check_ok: "in_tree pf (N_Field f) \<Longrightarrow> \<exists>r. field_check quote pf f = Some r"
  using checkValueDuplicates_ok[OF member_in_tree(7)] by (cases "fiValue f") (simp_all add: field_check_def)

lemma field_lists_in_tree: "parsed_ok pf \<Longrightarrow> (fs, k) \<in> set (WalkFieldLists (pfAst pf)) \<Longrightarrow> f \<in> set fs \<Longrightarrow> in_tree pf (N_Field f)"
  by (auto simp: WalkFieldLists_def split: option.splits intro: member_in_tree(1,3,4) throws_fields in_tree_top dest!: accessor_top)

lemma duplicate_diagnostics_ok: "parsed_ok pf \<Longrightarrow> \<exists>r. duplicate_diagnostics quote pf = Some r"
proof -
  assume pf: "parsed_ok pf"
  note top = in_tree_top[OF pf]
  show ?thesis unfolding duplicate_diagnostics_def Let_def
  proof (rule append_all_ok, intro ballI)
    fix r
    assume "r \<in> set (checkNames pf (top_names (pfAst pf)) #
        concat (map (enum_checks pf) (Enums (pfAst pf))) @
        map (\<lambda>fs. checkNames pf (fieldNames fs ''field'')) (map stFields (Structs (pfAst pf)) @ map stFields (Unions (pfAst pf)) @ map stFields (Exceptions (pfAst pf))) @
        concat (map (service_checks pf) (Services (pfAst pf))) @
        map (const_check quote pf) (Consts (pfAst pf)) @
        map (field_check quote pf) (concat (map fst (WalkFieldLists (pfAst pf)))))"
    then consider "r = checkNames pf (top_names (pfAst pf))"
      | e where "e \<in> set (Enums (pfAst pf))" "r \<in> set (enum_checks pf e)"
      | v where "v \<in> set (Structs (pfAst pf)) \<union> set (Unions (pfAst pf)) \<union> set (Exceptions (pfAst pf))"
          "r = checkNames pf (fieldNames (stFields v) ''field'')"
      | s where "s \<in> set (Services (pfAst pf))" "r \<in> set (service_checks pf s)"
      | c where "c \<in> set (Consts (pfAst pf))" "r = const_check quote pf c"
      | f fs k where "(fs, k) \<in> set (WalkFieldLists (pfAst pf))" "f \<in> set fs" "r = field_check quote pf f"
      by (auto simp: image_iff)
    then show "\<exists>xs. r = Some xs"
    proof cases
      case 1
      then show ?thesis using top_names_ok[OF pf] by simp
    next
      case 2
      then show ?thesis using enum_checks_ok[OF top[OF accessor_top(4)]] by blast
    next
      case 3
      then have "in_tree pf (N_Struct v)" using top accessor_top(1-3) by blast
      then show ?thesis using fieldNames_ok[of "stFields v" pf] member_in_tree(1) 3(2) by blast
    next
      case 4
      then show ?thesis using service_checks_ok[OF top[OF accessor_top(5)]] by blast
    next
      case 5
      then show ?thesis using const_check_ok[OF top[OF accessor_top(6)]] by blast
    next
      case 6
      then show ?thesis using field_check_ok field_lists_in_tree[OF pf] by blast
    qed
  qed
qed

lemma name_texts_ok: "\<forall>m \<in> set ms. evName m \<noteq> None \<Longrightarrow> \<exists>r. name_texts ms = Some r"
  by (induction ms) auto

lemma TokenEnd_ok: "in_tree pf n \<Longrightarrow> \<exists>pos. TokenEndPosition (pfAst pf) (TokStart n) = Some pos"
  by (auto simp: TokenEndPosition_def real_tok_def Let_def elim!: node_ok.cases)

lemma explicit_edit_ok: "evName (emMember mv) = Some i \<Longrightarrow> in_tree pf (N_Identifier i) \<Longrightarrow> \<exists>e. explicit_edit (pfAst pf) mv = Some e"
  using TokenEnd_ok by (fastforce simp: explicit_edit_def)

lemma implicit_value_ok: "evName (emMember mv) = Some i \<Longrightarrow> in_tree pf (N_Identifier i) \<Longrightarrow> \<exists>d. implicit_value pf mv = Some d"
  using explicit_edit_ok[of mv i pf] in_tree_span[of pf "N_Identifier i"] by (auto simp: implicit_value_def Let_def)

lemma implicit_values_ok:
  "\<forall>mv \<in> set mvs. \<exists>i. evName (emMember mv) = Some i \<and> in_tree pf (N_Identifier i) \<Longrightarrow> \<exists>ds. implicit_values pf seen mvs = Some ds"
proof (induction mvs arbitrary: seen)
  case (Cons mv mvs)
  then obtain i where i: "evName (emMember mv) = Some i" "in_tree pf (N_Identifier i)" by auto
  obtain ds d where "implicit_values pf (seen @ [idText i]) mvs = Some ds" "implicit_value pf mv = Some d"
    using Cons.IH[of "seen @ [idText i]"] Cons.prems implicit_value_ok[OF i] by auto
  then show ?case using i by simp
qed simp

lemma enum_value_diagnostics_ok: "parsed_ok pf \<Longrightarrow> \<exists>r. enum_value_diagnostics pf = Some r"
  unfolding enum_value_diagnostics_def
proof (rule append_all_ok, intro ballI)
  fix r
  assume pf: "parsed_ok pf" and "r \<in> set (map (\<lambda>enum. do {
       names \<leftarrow> name_texts (enValues enum);
       implicit_values pf [] (EnumMemberValues (docTokens (pfAst pf)) enum) }) (Enums (pfAst pf)))"
  then obtain e where e: "e \<in> set (Enums (pfAst pf))" "r = do {
       names \<leftarrow> name_texts (enValues e);
       implicit_values pf [] (EnumMemberValues (docTokens (pfAst pf)) e) }" by auto
  then have t: "in_tree pf (N_Enum e)" using in_tree_top[OF pf accessor_top(4)] by blast
  have "\<exists>i. evName m = Some i" if "m \<in> set (enValues e)" for m using in_tree_shape[OF member_in_tree(2)[OF t that]] by auto
  then obtain names where "name_texts (enValues e) = Some names" using name_texts_ok[of "enValues e"] by auto
  moreover obtain ds where "implicit_values pf [] (EnumMemberValues (docTokens (pfAst pf)) e) = Some ds"
    using implicit_values_ok[of "EnumMemberValues (docTokens (pfAst pf)) e" pf] EnumMemberValues_tree[OF t] by blast
  ultimately show "\<exists>xs. r = Some xs" using e(2) by simp
qed

interpretation duplicates: total_file_analyzer DuplicateCheck
  by unfold_locales (simp add: DuplicateCheck_def yields_pure duplicate_diagnostics_ok)

interpretation enum_values: total_file_analyzer EnumValueCheck
  by unfold_locales (simp add: EnumValueCheck_def yields_pure enum_value_diagnostics_ok)

interpretation field_ids: total_file_analyzer "FieldIDCheck order" for order
  by unfold_locales (simp add: FieldIDCheck_def)

section \<open>References and value types\<close>

lemma diag_ok:
  "index_ok ix \<Longrightarrow> spanned pf n \<Longrightarrow> yields index_ok (map_option (\<lambda>sp. (g sp, ix)) (SpanOf pf n))"
  by auto

lemma structFields_ok: "index_ok ix \<Longrightarrow> yields index_ok (structFields env ut sc ix)"
  by (auto simp: structFields_def intro!: yields_bind resolve_ok split: option.split Node.split)

lemma identValueMatches_ok: "index_ok ix \<Longrightarrow> yields index_ok (identValueMatches env sc ut v ix)"
  by (auto simp: identValueMatches_def intro!: yields_bind[OF ResolveValue_ok] yields_bind[OF UnderlyingType_ok] split: option.split Node.split)

lemma intValueMatches_ok: "index_ok ix \<Longrightarrow> yields index_ok (intValueMatches env ut sc v ix)"
  by (auto simp: intValueMatches_def intro!: yields_bind[OF ResolveType_ok] split: option.split FieldTypeKind.split)

lemma accept_ok: "in_tree (snd report) (N_ConstValue v) \<Longrightarrow> yields index_ok r \<Longrightarrow> yields index_ok (accept_or_mismatch report v ut r)"
  unfolding accept_or_mismatch_def using mismatch_ok(3)[of report False v ut]
  by (auto intro!: yields_bind split: if_split)

lemma checkValueType_ok:
  "index_ok ix \<Longrightarrow> in_tree (snd report) (N_ConstValue v) \<Longrightarrow> yields index_ok (checkValueType env report sc ft v ix)"
proof (induction v arbitrary: sc ft ix rule: measure_induct_rule[of size])
  case (less v)
  note kids = value_children_ok[OF less.prems(2)] and accept = accept_ok[OF less.prems(2)]
  obtain ut sc' ix' where u: "UnderlyingType env sc ft ix = Some ((ut, sc'), ix')" "index_ok ix'"
    using UnderlyingType_ok[OF less.prems(1), of env sc ft] by (auto simp: yields_def)
  note s = checkValueType.simps[of env report sc ft v ix] u(1)
  have list: "yields index_ok (collect_loop (\<lambda>w ix. checkValueType env report sc' t w ix) (cvList v) ix')" for t
    using less.IH value_size(1) kids(1) by (intro yields_loop[where I = index_ok] u(2)) blast
  have key: "yields index_ok (checkValueType env report sc t (cmKey e) ix)"
    and val: "yields index_ok (checkValueType env report sc t (cmValue e) ix)" if "e \<in> set (cvMap v)" "index_ok ix" for e t sc ix
    using less.IH value_size(2)[OF that(1)] kids(2,3)[OF that(1)] that(2) by blast+
  have map: "yields index_ok (collect_loop (\<lambda>e ix. do {
      (a, ix) \<leftarrow> checkValueType env report sc' t (cmKey e) ix;
      (b, ix) \<leftarrow> checkValueType env report sc' t' (cmValue e) ix;
      Some (a @ b, ix) }) (cvMap v) ix')" for t t'
    by (rule yields_loop[where I = index_ok, OF u(2)]) (auto intro!: yields_bind[OF key] yields_bind[OF val])
  have struct: "yields index_ok (struct_entry env report t fs sc'' e ix)" if "e \<in> set (cvMap v)" "index_ok ix" for t fs sc'' e ix
    using val[OF that] that(2) mismatch_ok(1,2)[OF kids(2)[OF that(1)]]
    by (auto simp: struct_entry_def Let_def split: option.split intro!: yields_pure)
  show ?case
  proof (cases ut)
    case (Some t)
    show ?thesis
    proof (cases "cvKind v")
      case ValueMap
      obtain r ix2 where r: "structFields env (Some t) sc' ix' = Some (r, ix2)" "index_ok ix2"
        using structFields_ok[OF u(2), of env "Some t" sc'] by (auto simp: yields_def)
      have "yields index_ok (collect_loop (struct_entry env report n fs sc'') (cvMap v) ix2)" for n fs sc''
        by (rule yields_loop[where I = index_ok, OF r(2)]) (rule struct)
      then show ?thesis using ValueMap Some map r accept
        by (cases r) (auto simp: s struct_entry_def[abs_def])
    qed (use Some list accept identValueMatches_ok[OF u(2)] intValueMatches_ok[OF u(2)] u(2) in \<open>simp_all add: s\<close>)
  qed (simp add: s u(2))
qed

lemma check_node_ok:
  assumes "index_ok ix" "any_ok (docTokens (pfAst (snd sc))) n"
  shows "yields index_ok (check_node env sc n ix)"
proof (cases n)
  case (A_Node m)
  then have m: "in_tree (snd sc) m" using assms(2) by (simp add: any_ok_def)
  have i: "spanned (snd sc) (N_Identifier i)" if "P_node (N_Identifier i) \<in> set (node_parts m)" for i
    by (rule in_tree_span[OF in_tree_part[OF m that]])
  have v: "in_tree (snd sc) (N_ConstValue w)" if "P_node (N_ConstValue w) \<in> set (node_parts m)" for w
    by (rule in_tree_part[OF m that])
  show ?thesis
  proof (cases m)
    case (N_FieldType ft)
    then have "ftKind ft = TypeIdent \<Longrightarrow> \<exists>i. ftIdent ft = Some i \<and> spanned (snd sc) (N_Identifier i)"
      using in_tree_shape[OF m] i by auto
    then show ?thesis using A_Node N_FieldType assms(1)
      by (auto simp: check_node_def checkTypeExist_def intro!: yields_bind[OF ResolveType_ok])
  next
    case (N_ConstValue w)
    then show ?thesis using A_Node assms(1) in_tree_span[OF m]
      by (auto simp: check_node_def checkConstValueExist_def intro!: yields_bind[OF ResolveValue_ok])
  next
    case (N_StructuredAnnotation sa)
    then have "saName sa = Some i \<Longrightarrow> spanned (snd sc) (N_Identifier i)" for i using i by simp
    then show ?thesis using A_Node N_StructuredAnnotation assms(1)
      by (auto simp: check_node_def checkAnnotationTypeExist_def split: option.split intro!: yields_bind[OF ResolveType_ok] diag_ok)
  next
    case (N_Field f)
    then show ?thesis using A_Node assms(1) v checkValueType_ok
      by (cases "fiValue f") (simp_all add: check_node_def)
  next
    case (N_Const c)
    then show ?thesis using A_Node assms(1) v checkValueType_ok
      by (cases "coValue c") (simp_all add: check_node_def)
  qed (use A_Node assms(1) in \<open>simp_all add: check_node_def\<close>)
qed (use assms(1) in \<open>simp add: check_node_def\<close>)

lemma mapKeyKind_ok: "index_ok ix \<Longrightarrow> yields index_ok (mapKeyKind n env sc key ix)"
proof (induction n arbitrary: sc key ix)
  case (Suc n)
  then show ?case
    by (auto simp: mapKeyKind.simps[of "Suc n"] Let_def split: option.split FieldTypeKind.split Node.split intro!: yields_bind[OF ResolveType_ok])
qed (auto simp: mapKeyKind.simps Let_def split: option.split FieldTypeKind.split)

lemma map_key_node_ok:
  assumes "index_ok ix" "any_ok (docTokens (pfAst (snd sc))) n"
  shows "yields index_ok (map_key_node env sc n ix)"
proof -
  have "yields index_ok (checkMapKeyScalar env sc key ix)" if "in_tree (snd sc) (N_FieldType key)" for key
    using in_tree_span[OF that] assms(1) by (auto simp: checkMapKeyScalar_def intro!: yields_bind[OF mapKeyKind_ok])
  moreover have "in_tree (snd sc) (N_FieldType key)" if "n = A_Node (N_FieldType ft)" "ftKeyType ft = Some key" for ft key
    using assms(2) that by (auto simp: any_ok_def intro: in_tree_part)
  ultimately show ?thesis using assms(1)
    by (auto simp: map_key_node_def split: AnyNode.split Node.split option.split)
qed

interpretation semantic: total_file_analyzer SemanticAnalysis
  by unfold_locales (auto simp: SemanticAnalysis_def checkDefinitionExist_def intro!: yields_map[OF gather_ok[where I = index_ok]] check_node_ok)

interpretation map_keys: total_file_analyzer NonScalarMapKeyCheck
  by unfold_locales (auto simp: NonScalarMapKeyCheck_def intro!: yields_map[OF gather_ok[where I = index_ok]] map_key_node_ok)

section \<open>Includes\<close>

lemma resolveReference_ok: "index_ok ix \<Longrightarrow> yields index_ok (resolveReference env sc r ix)"
  by (auto simp: resolveReference_def intro: resolve_ok split: RefKind.split Node.split)

lemma mark_used_ok: "index_ok ix \<Longrightarrow> yields index_ok (mark_used env sc m r ix)"
  by (auto simp: mark_used_def resolveReferenceFile_def intro!: yields_bind[OF resolveReference_ok])

lemma LineSpan_ok: "poOffset pos \<le> length content \<Longrightarrow> \<exists>sp. LineSpan content pos = Some sp"
  by (simp add: LineSpan_def Let_def)

lemma unused_diagnostic_ok: "parsed_ok pf \<Longrightarrow> in_tree pf (N_Include inc) \<Longrightarrow> \<exists>d. unused_diagnostic env pf inc = Some d"
proof -
  assume pf: "parsed_ok pf" and t: "in_tree pf (N_Include inc)"
  obtain sp where sp: "SpanOf pf (N_Include inc) = Some sp" using in_tree_span[OF t] by blast
  obtain line where "LineSpan (pfContent pf) (spStart sp) = Some line" using LineSpan_ok[OF span_bound(1)[OF pf t sp]] by blast
  then show ?thesis using sp by (simp add: unused_diagnostic_def Let_def)
qed

lemma unusedIncludeDiagnostics_ok:
  assumes "index_ok ix" "parsed_ok (snd sc)"
  shows "yields index_ok (unusedIncludeDiagnostics env sc ix)"
proof -
  let ?incs = "Includes (pfAst (snd sc))"
  obtain x where x: "buildIndex (pfAst (snd sc)) = Some x" using parsed_ok_index[OF assms(2)] by blast
  have used: "yields index_ok (usedIncludes env sc ix)"
    by (auto simp: usedIncludes_def References_def x Let_def intro!: yields_loop[where I = index_ok, OF assms(1)] mark_used_ok)
  have "\<exists>ds. append_all (map (\<lambda>(i, inc). if i \<in> set us then Some [] else map_option (\<lambda>d. [d]) (unused_diagnostic env (snd sc) inc))
      (enumerate 0 ?incs)) = Some ds" for us
  proof (rule append_all_ok, intro ballI)
    fix r
    assume "r \<in> set (map (\<lambda>(i, inc). if i \<in> set us then Some [] else map_option (\<lambda>d. [d]) (unused_diagnostic env (snd sc) inc)) (enumerate 0 ?incs))"
    then obtain i inc where r: "(i, inc) \<in> set (enumerate 0 ?incs)"
      "r = (if i \<in> set us then Some [] else map_option (\<lambda>d. [d]) (unused_diagnostic env (snd sc) inc))" by auto
    then have "inc \<in> set ?incs" by (auto simp: enumerate_eq_zip dest: set_zip_rightD)
    then obtain d where "unused_diagnostic env (snd sc) inc = Some d"
      using unused_diagnostic_ok[OF assms(2) in_tree_top[OF assms(2) accessor_top(8)]] by blast
    then show "\<exists>xs. r = Some xs" using r(2) by simp
  qed
  then show ?thesis using assms(1)
    by (auto simp: unusedIncludeDiagnostics_def Let_def intro!: yields_bind[OF used]) (metis option.distinct(1) yields_Some bind.bind_lunit)
qed

lemma shadow_diagnostic_ok: "parsed_ok (snd sc) \<Longrightarrow> inc \<in> set (Includes (pfAst (snd sc))) \<Longrightarrow> \<exists>ds. shadow_diagnostic env sc inc = Some ds"
  using in_tree_span[OF in_tree_top[OF _ accessor_top(8)], of "snd sc" inc] by (auto simp: shadow_diagnostic_def Let_def split: list.split)

interpretation unused: total_file_analyzer UnusedIncludeCheck
  by unfold_locales (auto simp: UnusedIncludeCheck_def intro!: yields_map[OF unusedIncludeDiagnostics_ok])

interpretation shadowed: total_file_analyzer IncludeShadowCheck
proof
  fix ix :: Index and sc :: scope and env
  assume a: "index_ok ix" "parsed_ok (snd sc)"
  have "\<exists>ds. append_all (map (shadow_diagnostic env sc) (Includes (pfAst (snd sc)))) = Some ds"
    using shadow_diagnostic_ok[OF a(2)] by (intro append_all_ok) auto
  then show "yields index_ok (faAnalyzeFile IncludeShadowCheck env sc ix)" using a(1) by (auto simp: IncludeShadowCheck_def)
qed

section \<open>Whole runs\<close>

lemma Run_Add_index [simp]: "ruIndex (Run_Add u ds run) = ruIndex run"
  by (simp add: Run_Add_def)

lemma fold_Run_Add [simp]: "ruIndex (fold (\<lambda>e. Run_Add u (f e)) es run) = ruIndex run"
  by (induction es arbitrary: run) auto

lemma parse_analyze_ok: "run_ok run \<Longrightarrow> yields run_ok (parse_analyze env us run)"
proof (induction us arbitrary: run)
  case (Cons u us)
  obtain pf w where p: "env_parse env u (isView (ruIndex run)) = (pf, w)" by fastforce
  have "yields run_ok (parse_analyze env us r)" if "ruIndex r = (ruIndex run)\<lparr>isView := w\<rparr>" for r
    by (rule Cons.IH) (simp add: that env_parse_ok(1)[OF Cons.prems p])
  then show ?case using p by (cases pf) (auto simp: Let_def intro!: yields_map[where I = run_ok])
qed simp

interpretation parses: total_analyzer ParseCheck
  by unfold_locales (simp add: ParseCheck_def parse_analyze_ok)

definition edge_ok :: "ParsedFile \<Rightarrow> Include \<Rightarrow> bool" where
  "edge_ok pf inc \<longleftrightarrow> parsed_ok pf \<and> inc \<in> set (Includes (pfAst pf))"

definition closure_ok :: "closure \<Rightarrow> bool" where
  "closure_ok m \<longleftrightarrow> (\<forall>u. \<forall>e \<in> set (closure_edges m u). edge_ok (iePF e) (ieInclude e))"

lemma includes_of_ok:
  assumes "view_ok v" "includes_of env u v = (new, v')"
  shows "view_ok v' \<and> (\<forall>(u, pf, inc) \<in> set new. edge_ok pf inc)"
proof -
  obtain pf w where p: "env_parse env u v = (pf, w)" by fastforce
  then show ?thesis using assms(2) env_parse_ok[OF assms(1) p]
    by (auto simp: includes_of_def edge_work_def edge_ok_def split: option.splits)
qed

lemma get_includes_ok:
  "view_ok v \<Longrightarrow> \<forall>(u, pf, inc) \<in> set work. edge_ok pf inc \<Longrightarrow> closure_ok m \<Longrightarrow> get_includes env v work m = (m', v') \<Longrightarrow>
   closure_ok m' \<and> view_ok v'"
proof (induction env v work m rule: get_includes.induct)
  case (2 env v u pf inc work m)
  let ?uri = "env_resolve env u (PathText (docTokens (pfAst pf)) (Some inc))"
  let ?m = "add_include_edge u \<lparr>ieFile = ?uri, ieInclude = inc, iePF = pf\<rparr> m"
  have m: "closure_ok ?m"
    using "2.prems"(2,3) by (auto simp: closure_ok_def add_include_edge_def closure_edges_def split: if_splits)
  show ?case
  proof (cases "?uri |\<in>| fmdom ?m")
    case True
    then show ?thesis using "2.IH"(1)[OF refl refl True "2.prems"(1) _ m] "2.prems" by (simp add: Let_def)
  next
    case False
    obtain new w where n: "includes_of env ?uri v = (new, w)" by fastforce
    note ok = includes_of_ok[OF "2.prems"(1) n]
    have "\<forall>(u, pf, inc) \<in> set (new @ work). edge_ok pf inc" using ok "2.prems"(2) by auto
    then show ?thesis using "2.IH"(2)[OF refl refl False n[symmetric] refl _ _ m] ok "2.prems"(4) False n by (simp add: Let_def)
  qed
qed simp

lemma getIncludes_fold:
  "view_ok v \<Longrightarrow> closure_ok m \<Longrightarrow> fold (\<lambda>file (m, v). getIncludes env file m v) us (m, v) = (m', v') \<Longrightarrow> closure_ok m' \<and> view_ok v'"
proof (induction us arbitrary: m v)
  case (Cons u us)
  obtain new w where n: "includes_of env u v = (new, w)" by fastforce
  obtain m1 v1 where g: "get_includes env w new m = (m1, v1)" by fastforce
  have "closure_ok m1 \<and> view_ok v1" using includes_of_ok[OF Cons.prems(1) n] get_includes_ok[OF _ _ Cons.prems(2) g] by blast
  then show ?case using Cons.IH[of v1 m1] Cons.prems(3) by (simp add: getIncludes_def n g)
qed simp

lemma report_cycles_ok:
  "\<forall>e \<in> set es. edge_ok (iePF e) (ieInclude e) \<Longrightarrow> \<exists>run'. report_cycles u deps es run = Some run' \<and> ruIndex run' = ruIndex run"
proof (induction es arbitrary: run)
  case (Cons e es)
  obtain d where "cycleDiagnostic e = Some d"
    using in_tree_span[OF in_tree_top[OF _ accessor_top(8)]] Cons.prems by (fastforce simp: cycleDiagnostic_def edge_ok_def)
  then show ?case using Cons.IH[of run] Cons.IH[of "Run_Add u [d] run"] Cons.prems by simp
qed simp

lemma cycle_analyze_ok: "run_ok run \<Longrightarrow> yields run_ok (cycle_analyze env run)"
proof -
  assume run: "run_ok run"
  obtain m v where g: "fold (\<lambda>file (m, v). getIncludes env file m v) (ruFiles run) (fmempty, isView (ruIndex run)) = (m, v)" by fastforce
  have ok: "closure_ok m" "view_ok v"
    using getIncludes_fold[OF run _ g] by (auto simp: closure_ok_def closure_edges_def)
  have "\<exists>run'. fold_option (\<lambda>file run. report_cycles file (Dependents v file) (closure_edges m file) run) us r = Some run' \<and> ruIndex run' = ruIndex r" for us r
  proof (induction us arbitrary: r)
    case (Cons u us)
    obtain r' where "report_cycles u (Dependents v u) (closure_edges m u) r = Some r'" "ruIndex r' = ruIndex r"
      using report_cycles_ok ok(1) unfolding closure_ok_def by blast
    then show ?case using Cons[of r'] by simp
  qed simp
  from this[of "sorted_list_of_fset (fmdom m)" "run\<lparr>ruIndex := (ruIndex run)\<lparr>isView := v\<rparr>\<rparr>"]
  show ?thesis using ok(2) by (auto simp: cycle_analyze_def g Let_def)
qed

interpretation cycles: total_analyzer CycleCheck
  by unfold_locales (simp add: CycleCheck_def cycle_analyze_ok)

end
