(* ===== verification/CheckProps.thy ===== *)
theory CheckProps imports AnalyzersTotal FixProps
begin

text \<open>
  The fixer and the pipeline never panic, so no run of the batch frontend does; and what
  the batch fixer does: the bound on its passes, the files it changes, when it stops.
\<close>

section \<open>The fixer\<close>

lemma undefinedTypeName_ok: "parsed_ok pf \<Longrightarrow> \<exists>name. undefinedTypeName pf sp = Some name"
  using Search_filter[where src = "pfContent pf" and pos = "spStart sp"] by (simp add: undefinedTypeName_def parsed_ok_Parse)

lemma insert_position_ok: "parsed_ok pf \<Longrightarrow> \<exists>pos. insert_position pf = Some pos"
proof -
  assume pf: "parsed_ok pf"
  show ?thesis
  proof (cases "Includes (pfAst pf) = []")
    case False
    let ?n = "N_Include (last (Includes (pfAst pf)))"
    have t: "in_tree pf ?n" using False by (intro in_tree_top[OF pf accessor_top(8)]) simp
    obtain sp where sp: "SpanOf pf ?n = Some sp" using in_tree_span[OF t] by blast
    obtain line where "LineSpan (pfContent pf) (spEnd sp) = Some line" using LineSpan_ok[OF span_bound(2)[OF pf t sp]] by blast
    then show ?thesis using sp False by (auto simp: insert_position_def SpanOf_def Let_def)
  qed (simp add: insert_position_def)
qed

lemma AddIncludeFixer_ok:
  assumes "index_ok ix" "parsed_ok (snd sc)"
  shows "yields index_ok (AddIncludeFixer env sc d ix)"
proof -
  obtain name where name: "undefinedTypeName (snd sc) (diSpan d) = Some name" using undefinedTypeName_ok[OF assms(2)] by blast
  obtain def v where f: "FindInWorkspace env name (isView ix) = Some (def, v)" "view_ok v"
    using FindInWorkspace_ok[OF assms(1), of env name] by (auto simp: yields_def)
  obtain pos where "insert_position (snd sc) = Some pos" using insert_position_ok[OF assms(2)] by blast
  then show ?thesis using assms(1) name f
    by (auto simp: AddIncludeFixer_def Let_def split: option.split)
qed

section \<open>Pipelines\<close>

lemma Update_ok: "view_ok v \<Longrightarrow> view_ok (snd (Update rs fs g us v))"
proof -
  assume v: "view_ok v"
  have inv: "view_ok (fold (\<lambda>u v. let v = removeEdgesLocked u v in v\<lparr>vwEntries := fmupd u None (vwEntries v)\<rparr>) us v)" for us
    using v
  proof (induction us arbitrary: v)
    case (Cons u us)
    have "view_ok (let v = removeEdgesLocked u v in v\<lparr>vwEntries := fmupd u None (vwEntries v)\<rparr>)"
      using Cons.prems by (auto simp: view_ok_def parsed_def removeEdgesLocked_def Let_def split: if_splits)
    then show ?case using Cons.IH by simp
  qed simp
  have "view_ok (snd (View_Parse rs fs g u v))" if "view_ok v" for u v
  proof (cases "parsed v u")
    case None
    show ?thesis
    proof (cases "parse_start rs fs g (vwGen v) u")
      case (Some j)
      then have "parsed_ok (jbParsed j)" by (auto simp: parse_start_def bind_eq_Some_conv intro: parse_file_ok)
      then show ?thesis using None Some that by (auto simp: View_Parse_def parse_commit_def view_ok_def parsed_def split: if_splits)
    qed (use None that in \<open>simp add: View_Parse_def\<close>)
  qed (use that in \<open>simp add: View_Parse_def\<close>)
  then have "view_ok w \<Longrightarrow> view_ok (fold (\<lambda>u v. snd (View_Parse rs fs g u v)) us w)" for us w
    by (induction us arbitrary: w) auto
  moreover have "view_ok (invalidate us v)" for us using inv by (simp add: invalidate_def Let_def view_ok_def parsed_def)
  ultimately show ?thesis by (simp add: Update_def Let_def)
qed

locale total_pipeline =
  fixes p :: Pipeline
  assumes analyzers: "az \<in> set (plAnalyzers p) \<Longrightarrow> run_ok run \<Longrightarrow> yields run_ok (azAnalyze az env run)"
    and fixers: "fx \<in> set (plFixers p) \<Longrightarrow> index_ok ix \<Longrightarrow> parsed_ok (snd sc) \<Longrightarrow> yields index_ok (fx env sc d ix)"
begin

lemma run_analyzers_ok: "set as \<subseteq> set (plAnalyzers p) \<Longrightarrow> run_ok run \<Longrightarrow> yields run_ok (run_analyzers cfg env as run)"
proof (induction as arbitrary: run)
  case (Cons a as)
  have "yields run_ok (do { (errs, run) \<leftarrow> azAnalyze a env run; (rest, run) \<leftarrow> run_analyzers cfg env as run; Some (errs @ rest, run) })"
    using Cons.prems Cons.IH
    by (auto intro!: yields_bind[where I = run_ok] intro: analyzers)
  then show ?case using Cons by simp
qed simp

lemma Pipeline_Run_ok: "view_ok v \<Longrightarrow> yields view_ok (Pipeline_Run p env us v)"
  unfolding Pipeline_Run_def
  by (rule yields_map[where I = run_ok, OF run_analyzers_ok]) (auto simp: start_run_def NewIndex_def)

lemma FixesForFile_ok:
  assumes "view_ok v"
  shows "yields view_ok (FixesForFile p env u report v)"
proof -
  obtain pf w where q: "env_parse env u v = (pf, w)" by fastforce
  note ok = env_parse_ok[OF assms q]
  show ?thesis
  proof (cases pf)
    case (Some f)
    have one: "yields index_ok (fixes_of_diagnostic p env (u, f) d ix)" if "index_ok ix" for d ix
      using that ok(2)[OF Some] unfolding fixes_of_diagnostic_def
      by (auto intro!: yields_map[where I = index_ok] yields_loop[where I = index_ok] fixers)
    have "yields index_ok (fixesFor p env (u, f) ds (NewIndex w))" for ds
      unfolding fixesFor_def using one ok(1) by (intro yields_loop[where I = index_ok]) (simp_all add: NewIndex_def)
    then show ?thesis using Some by (auto simp: FixesForFile_def q intro!: yields_map[where I = index_ok])
  qed (simp add: FixesForFile_def q ok(1))
qed

lemma fix_target_ok: "view_ok (fgView st) \<Longrightarrow> yields (\<lambda>st. view_ok (fgView st)) (fix_target p persist report u st)"
proof -
  assume st: "view_ok (fgView st)"
  obtain pf w where q: "env_parse (fgEnv st) u (fgView st) = (pf, w)" by fastforce
  note ok = env_parse_ok[OF st q]
  show ?thesis
  proof (cases "pf = None \<or> (\<exists>f. pf = Some f \<and> hasParseErrors f)")
    case True
    then show ?thesis using ok(1) by (auto simp: fix_target_def q)
  next
    case False
    then obtain f where f: "pf = Some f" "\<not> hasParseErrors f" by (cases pf) auto
    obtain fs v where fs: "FixesForFile p (fgEnv st) u report w = Some (fs, v)" "view_ok v"
      using FixesForFile_ok[OF ok(1), of "fgEnv st" u report] by (auto simp: yields_def)
    obtain r where "Apply (pfContent f) fs = Some r" using Apply_total by blast
    then show ?thesis using f fs by (auto simp: fix_target_def q Let_def split: sum.split)
  qed
qed

lemma fix_targets_ok: "view_ok (fgView st) \<Longrightarrow> yields (\<lambda>st. view_ok (fgView st)) (fix_targets p persist report us st)"
proof (induction us arbitrary: st)
  case (Cons u us)
  obtain err s where "fix_target p persist report u st = Some (err, s)" "view_ok (fgView s)"
    using fix_target_ok[OF Cons.prems, of persist report u] by (auto simp: yields_def)
  then show ?case using Cons.IH by (cases err) auto
qed simp

lemma fix_passes_ok: "view_ok (fgView st) \<Longrightarrow> yields (\<lambda>st. view_ok (fgView st)) (fix_passes n p persist us res st)"
proof (induction n arbitrary: res st)
  case (Suc n)
  obtain report errs v where r: "Pipeline_Run p (fgEnv st) us (fgView st) = Some ((report, errs), v)" "view_ok v"
    using Pipeline_Run_ok[OF Suc.prems, of "fgEnv st" us] by (auto simp: yields_def)
  let ?st = "st\<lparr>fgView := v, fgPassApplied := 0, fgPassSkipped := [], fgChanges := []\<rparr>"
  obtain err s where t: "fix_targets p persist report us ?st = Some (err, s)" "view_ok (fgView s)"
    using fix_targets_ok[of ?st persist report us] r(2) by (auto simp: yields_def)
  have u: "view_ok (snd (Update rs fs g us (fgView s)))" for rs fs g us by (rule Update_ok[OF t(2)])
  show ?case
  proof (cases "errs = []")
    case True
    obtain x w where w: "Update (env_resolver (fgEnv s)) (env_files (fgEnv s)) (evGuard (fgEnv s)) (fgChanges s) (fgView s) = (x, w)" by fastforce
    have IH: "yields (\<lambda>st. view_ok (fgView st)) (fix_passes n p persist us r (s\<lparr>fgView := w\<rparr>))" for r
      using u[of "env_resolver (fgEnv s)" "env_files (fgEnv s)" "evGuard (fgEnv s)" "fgChanges s"] by (intro Suc.IH) (simp add: w)
    show ?thesis
      by (cases err) (use True r t w IH in \<open>simp_all add: Let_def\<close>)
  qed (use r in \<open>simp add: Let_def\<close>)
qed simp

end

interpretation default: total_pipeline "DefaultPipeline order sorter cfg" for order sorter cfg
proof
  fix az run env
  assume "az \<in> set (plAnalyzers (DefaultPipeline order sorter cfg))" and run: "run_ok run"
  then have "az \<in> set (Defaults order)" by (simp add: DefaultPipeline_def WithProviders_def WithFixers_def Pipeline_New_def)
  then show "yields run_ok (azAnalyze az env run)"
    using cycles.analyze[OF run] parses.analyze[OF run] field_ids.analyze[OF run] duplicates.analyze[OF run] enum_values.analyze[OF run]
      unused.analyze[OF run] shadowed.analyze[OF run] semantic.analyze[OF run] map_keys.analyze[OF run]
    by (auto simp: Defaults_def)
next
  fix fx ix env d and sc :: scope
  assume "fx \<in> set (plFixers (DefaultPipeline order sorter cfg))" "index_ok ix" "parsed_ok (snd sc)"
  then show "yields index_ok (fx env sc d ix)"
    by (simp add: DefaultPipeline_def WithProviders_def WithFixers_def Pipeline_New_def AddIncludeFixer_ok)
qed

section \<open>The frontend\<close>

lemma yields_exists: "yields I r \<Longrightarrow> \<exists>x s. r = Some (x, s)"
  by (auto simp: yields_def)

lemma view_ok_new: "view_ok NewView"
  by (simp add: view_ok_def NewView_def parsed_def)

lemma OpenDisk_view: "OpenDisk api disk files folder ips = (sess, vo, uris) \<Longrightarrow> voView vo = NewView"
  by (auto simp: OpenDisk_def AddView_def NewSession_def Let_def)

lemma WithAnalyzers_none [simp]: "WithAnalyzers [] p = p"
  by (simp add: WithAnalyzers_def)

text \<open>
  C8: the batch frontend never panics. Whatever the files hold, whether or not they can be
  read, whatever the request selects, in whatever order Go iterates over maps, and whether
  or not files can be written, a run with the built-in analyzers ends with a result or an
  error value.
\<close>

theorem check_Run_total:
  assumes "rqAnalyzers req = []"
  shows "check_Run order sorter api quote disk persist req \<noteq> None"
proof -
  obtain cfg where cfg: "request_pipeline order sorter req = DefaultPipeline order sorter cfg"
    using assms by (auto simp: request_pipeline_def)
  have "runDiagnostics api quote disk (DefaultPipeline order sorter cfg) files folder ips \<noteq> None" for files folder ips
  proof -
    obtain sess vo uris where d: "OpenDisk api disk files folder ips = (sess, vo, uris)" by (cases "OpenDisk api disk files folder ips")
    from default.Pipeline_Run_ok[OF view_ok_new, of order sorter cfg "view_env api quote sess vo" uris]
    show ?thesis using OpenDisk_view[OF d] by (auto simp: runDiagnostics_def d yields_def)
  qed
  moreover have "runFix api quote disk persist (DefaultPipeline order sorter cfg) files folder ips \<noteq> None" for files folder ips
  proof -
    obtain sess vo uris where d: "OpenDisk api disk files folder ips = (sess, vo, uris)" by (cases "OpenDisk api disk files folder ips")
    have "\<exists>r st. FixAll (DefaultPipeline order sorter cfg) (Some persist) uris (view_env api quote sess vo) NewView = Some (r, st)"
      unfolding FixAll_def by (rule yields_exists[OF default.fix_passes_ok]) (simp add: view_ok_new)
    then show ?thesis using OpenDisk_view[OF d] by (auto simp: runFix_def d Let_def)
  qed
  ultimately show ?thesis by (simp add: check_Run_def cfg Let_def del: not_None_eq)
qed

text \<open>A request for one file, whose implicit enum value is made explicit.\<close>

definition demo_request :: Request where
  "demo_request = \<lparr>rqFiles = [''/a''], rqFolder = [], rqIncludePaths = [], rqLint = None, rqAnalyzers = [], rqFix = True\<rparr>"

definition demo_persist :: persist where
  "demo_persist u content fs = Inr (fs\<lparr>osDelegate := fmupd u content (osDelegate fs)\<rparr>)"

definition demo_run :: "((CheckResult \<times> check_error option) \<times> OverlayFS) option" where
  "demo_run = check_Run (\<lambda>fs. [1, 2]) (\<lambda>ps. ps) plain_uris (\<lambda>s. s) (fmap_of_list [(''/a'', ''enum E{A}'')]) demo_persist demo_request"

lemma demo_run_fixes:
  "map_option (\<lambda>((res, err), fs). (map_option fsApplied (crFix res), map_option fsPasses (crFix res), crDiagnostics res, fmlookup (osDelegate fs) ''/a'')) demo_run =
   Some (Some 1, Some 2, [(''/a'', [])], Some ''enum E{A = 0}'')"
  by code_simp

lemma check_Run_total_witness:
  "demo_run \<noteq> None \<and>
   map_option (\<lambda>((res, err), fs). (map_option fsApplied (crFix res), fmlookup (osDelegate fs) ''/a'')) demo_run =
     Some (Some 1, Some ''enum E{A = 0}'')"
proof
  show "demo_run \<noteq> None" unfolding demo_run_def by (rule check_Run_total) (simp add: demo_request_def)
  show "map_option (\<lambda>((res, err), fs). (map_option fsApplied (crFix res), fmlookup (osDelegate fs) ''/a'')) demo_run =
     Some (Some 1, Some ''enum E{A = 0}'')"
    using demo_run_fixes by (auto simp: case_prod_beta')
qed

section \<open>The effect of the batch fixer\<close>

text \<open>What writing a file must do: it changes that file only.\<close>

definition persist_ok :: "persist option \<Rightarrow> bool" where
  "persist_ok persist \<longleftrightarrow> (\<forall>write u c fs fs' w. persist = Some write \<and> write u c fs = Inr fs' \<and> w \<noteq> u \<longrightarrow>
     fmlookup (contents fs') w = fmlookup (contents fs) w)"

text \<open>A stretch of the run changes only files it records, among those of a set; without an applied fix it changes none.\<close>

definition effect :: "persist option \<Rightarrow> uri set \<Rightarrow> fixing \<Rightarrow> fixing \<Rightarrow> bool" where
  "effect persist us st st' \<longleftrightarrow> fgChanged st \<subseteq> fgChanged st' \<and> fgChanged st' \<subseteq> fgChanged st \<union> us \<and>
     fgPassApplied st \<le> fgPassApplied st' \<and>
     (fgPassApplied st' = fgPassApplied st \<longrightarrow> fgEnv st' = fgEnv st \<and> fgChanged st' = fgChanged st) \<and>
     (persist_ok persist \<longrightarrow> (\<forall>u. u \<notin> fgChanged st' \<longrightarrow> env_files (fgEnv st') u = env_files (fgEnv st) u))"

lemma effect_refl: "fgChanged st' = fgChanged st \<Longrightarrow> fgPassApplied st' = fgPassApplied st \<Longrightarrow> fgEnv st' = fgEnv st \<Longrightarrow> effect persist us st st'"
  by (simp add: effect_def)

lemma effect_trans: "effect persist us a b \<Longrightarrow> effect persist us b c \<Longrightarrow> effect persist us a c"
  unfolding effect_def by (intro conjI impI allI) (blast, blast, linarith, (metis le_antisym)+, metis subsetD)

lemma do_persist_files:
  "do_persist persist u c env = Inr env' \<Longrightarrow> persist_ok persist \<Longrightarrow> w \<noteq> u \<Longrightarrow> env_files env' w = env_files env w"
  by (auto simp: do_persist_def persist_ok_def env_files_def split: option.splits sum.splits)

lemma fix_target_effect:
  assumes "fix_target p persist report u st = Some (err, st')"
  shows "effect persist {u} st st'"
proof -
  obtain pf v where p: "env_parse (fgEnv st) u (fgView st) = (pf, v)" by fastforce
  show ?thesis
  proof (cases "pf = None \<or> (\<exists>f. pf = Some f \<and> hasParseErrors f)")
    case True
    then show ?thesis using assms by (auto simp: fix_target_def p intro!: effect_refl)
  next
    case False
    then obtain f where f: "pf = Some f" "\<not> hasParseErrors f" by (cases pf) auto
    obtain fs w where fs: "FixesForFile p (fgEnv st) u report v = Some (fs, w)"
      using assms f by (cases "FixesForFile p (fgEnv st) u report v") (auto simp: fix_target_def p)
    show ?thesis
    proof (cases "fs = []")
      case True
      then show ?thesis using assms f fs by (auto simp: fix_target_def p intro!: effect_refl)
    next
      case False
      then obtain r where r: "Apply (pfContent f) fs = Some r" using Apply_total by blast
      show ?thesis
      proof (cases r)
        case (Inl e)
        then show ?thesis using assms f fs False r by (auto simp: fix_target_def p intro!: effect_refl)
      next
        case (Inr x)
        obtain out applied skip where x: "x = (out, applied, skip)" by (cases x)
        show ?thesis
        proof (cases "applied = []")
          case True
          then show ?thesis using assms f fs False r Inr x by (auto simp: fix_target_def p Let_def intro!: effect_refl)
        next
          case some: False
          then show ?thesis using assms f fs False r Inr x do_persist_files[of persist u out "fgEnv st"]
            by (cases "do_persist persist u out (fgEnv st)")
              (auto simp: fix_target_def p Let_def effect_def)
        qed
      qed
    qed
  qed
qed

lemma effect_mono: "effect persist us st st' \<Longrightarrow> us \<subseteq> vs \<Longrightarrow> effect persist vs st st'"
  by (auto simp: effect_def)

lemma fix_targets_effect: "fix_targets p persist report us st = Some (err, st') \<Longrightarrow> effect persist (set us) st st'"
proof (induction us arbitrary: st)
  case (Cons u us)
  obtain e s where t: "fix_target p persist report u st = Some (e, s)" using Cons.prems by (cases "fix_target p persist report u st") auto
  have s: "effect persist (set (u # us)) st s" by (rule effect_mono[OF fix_target_effect[OF t]]) simp
  show ?case
  proof (cases e)
    case None
    then have "effect persist (set us) s st'" using Cons t by simp
    then show ?thesis using effect_trans[OF s effect_mono] by auto
  qed (use Cons.prems t s in simp)
qed (auto intro!: effect_refl)

text \<open>How a call of \<open>fix_passes\<close> ends.\<close>

definition last_pass :: "Pipeline \<Rightarrow> persist option \<Rightarrow> uri list \<Rightarrow> Report \<Rightarrow> fixing \<Rightarrow> bool" where
  "last_pass p persist us report st \<longleftrightarrow>
     (\<exists>v0 st0. Pipeline_Run p (fgEnv st) us v0 = Some ((report, []), fgView st0) \<and>
       fix_targets p persist report us st0 = Some (None, st) \<and> fgPassApplied st = 0)"

lemma fix_passes_effect:
  "fix_passes n p persist us res st = Some ((res', err), st') \<Longrightarrow>
   frPasses res' \<le> frPasses res + n \<and>
   fgChanged st \<subseteq> fgChanged st' \<and> fgChanged st' \<subseteq> fgChanged st \<union> set us \<and>
   (persist_ok persist \<longrightarrow> (\<forall>u. u \<notin> fgChanged st' \<longrightarrow> env_files (fgEnv st') u = env_files (fgEnv st) u)) \<and>
   frFixedFiles res' = sorted_list_of_set (fgChanged st') \<and>
   (err = None \<longrightarrow> frPasses res' = frPasses res + n \<or> last_pass p persist us (frRemaining res') st')"
proof (induction n arbitrary: res st)
  case (Suc n)
  obtain report errs v where r: "Pipeline_Run p (fgEnv st) us (fgView st) = Some ((report, errs), v)"
    using Suc.prems by (cases "Pipeline_Run p (fgEnv st) us (fgView st)") (auto simp: Let_def)
  show ?case
  proof (cases "errs = []")
    case True
    let ?st = "st\<lparr>fgView := v, fgPassApplied := 0, fgPassSkipped := [], fgChanges := []\<rparr>"
    obtain e s where t: "fix_targets p persist report us ?st = Some (e, s)"
      using Suc.prems r True by (cases "fix_targets p persist report us ?st") (auto simp: Let_def)
    have eff: "effect persist (set us) ?st s" by (rule fix_targets_effect[OF t])
    show ?thesis
    proof (cases "e = None \<and> fgPassApplied s \<noteq> 0")
      case False
      have "last_pass p persist us report s" if "e = None"
        unfolding last_pass_def using r t that False True eff
        by (intro exI[of _ "fgView st"] exI[of _ ?st]) (auto simp: effect_def)
      then show ?thesis using Suc.prems r t True False eff by (cases e) (auto simp: Let_def summary_def effect_def)
    next
      case more: True
      obtain x w where w: "Update (env_resolver (fgEnv s)) (env_files (fgEnv s)) (evGuard (fgEnv s)) (fgChanges s) (fgView s) = (x, w)" by fastforce
      obtain res1 where n: "fix_passes n p persist us res1 (s\<lparr>fgView := w\<rparr>) = Some ((res', err), st')" "frPasses res1 = frPasses res + 1"
        using Suc.prems r t True more w by (auto simp: Let_def split: if_splits)
      show ?thesis using Suc.IH[OF n(1)] eff n(2) by (auto simp: effect_def)
    qed
  qed (use Suc.prems r in \<open>auto simp: Let_def summary_def\<close>)
qed (auto simp: summary_def)

text \<open>
  C4: the batch fixer ends, and does no more than it should. With a pipeline that meets its
  contract, as the default one does, it returns after at most 10 passes; the files it lists
  as fixed are targets, and no other file has changed, if writing a file changes only that
  file; and unless it stops at an error or at the bound, its last pass found no fix to
  apply to the files as they are now, and the remaining report is the report of that pass.
\<close>

theorem FixAll_converges:
  assumes "view_ok v" "persist_ok persist"
  shows "\<exists>res err st. FixAll (DefaultPipeline order sorter cfg) persist targets env v = Some ((res, err), st) \<and>
    frPasses res \<le> 10 \<and> set (frFixedFiles res) \<subseteq> set targets \<and>
    (\<forall>u. u \<notin> set (frFixedFiles res) \<longrightarrow> env_files (fgEnv st) u = env_files env u) \<and>
    (err = None \<longrightarrow> frPasses res = 10 \<or> last_pass (DefaultPipeline order sorter cfg) persist (sort targets) (frRemaining res) st)"
proof -
  let ?p = "DefaultPipeline order sorter cfg"
  have "\<exists>r st. FixAll ?p persist targets env v = Some (r, st)"
    unfolding FixAll_def by (rule yields_exists[OF default.fix_passes_ok]) (simp add: assms(1))
  then obtain res err st where f: "FixAll ?p persist targets env v = Some ((res, err), st)" by auto
  note e = fix_passes_effect[OF f[unfolded FixAll_def]]
  have "finite (fgChanged st)" using e by (auto intro: finite_subset)
  then show ?thesis using f e assms(2) by (auto simp: maxFixPasses_def)
qed

lemma demo_persist_ok: "persist_ok (Some demo_persist)"
  by (auto simp: persist_ok_def demo_persist_def contents_read OverlayFS_ReadFile_def memFS_ReadFile_def split: option.split)

lemma FixAll_converges_witness:
  "\<exists>res err st. FixAll (DefaultPipeline (\<lambda>fs. [1, 2]) (\<lambda>ps. ps) (ConfigFromLint None None)) (Some demo_persist) [''/a''] demo_env NewView =
      Some ((res, err), st) \<and>
    frPasses res \<le> 10 \<and> set (frFixedFiles res) \<subseteq> {''/a''} \<and> env_files (fgEnv st) ''/b.thrift'' = Some ''struct T {}''"
proof -
  have b: "env_files demo_env ''/b.thrift'' = Some ''struct T {}''"
    by (simp add: env_files_def demo_env_def demo_source_def contents_def NewOverlayFS_def)
  let ?run = "FixAll (DefaultPipeline (\<lambda>fs. [1, 2]) (\<lambda>ps. ps) (ConfigFromLint None None)) (Some demo_persist) [''/a''] demo_env NewView"
  obtain res err st where r: "?run = Some ((res, err), st)" "frPasses res \<le> 10" "set (frFixedFiles res) \<subseteq> set [''/a'']"
    "\<forall>u. u \<notin> set (frFixedFiles res) \<longrightarrow> env_files (fgEnv st) u = env_files demo_env u"
    using FixAll_converges[OF view_ok_new demo_persist_ok, of "\<lambda>fs. [1, 2]" "\<lambda>ps. ps" "ConfigFromLint None None" "[''/a'']" demo_env]
    by blast
  have "''/b.thrift'' \<notin> set (frFixedFiles res)" using r(3) by auto
  then have "env_files (fgEnv st) ''/b.thrift'' = Some ''struct T {}''" using r(4) b by metis
  then show ?thesis using r(1-3) by (intro exI[of _ res] exI[of _ err] exI[of _ st]) simp
qed

end
