(* ===== verification/NamesProps.thy ===== *)
theory NamesProps imports AnalyzersTotal "HOL-Library.Multiset" "HOL-Library.Product_Lexorder"
begin

text \<open>
  The checks on names, numbers and field ids: what they report, exactly, and that the
  report does not depend on the order in which Go iterates over a map.
\<close>

section \<open>Positions of tokens\<close>

lemma rune_count_pos: "s \<noteq> [] \<Longrightarrow> 0 < rune_count s"
  by (subst rune_count.simps) simp

lemma token_positions_differ:
  assumes "t \<in> set (fst (Lex src))" "u \<in> set (fst (Lex src))" "tkText t \<noteq> []" "tkOffset t < tkOffset u"
  shows "tkLine t \<noteq> tkLine u \<or> tkCol t \<noteq> tkCol u"
proof (rule ccontr)
  note t = Lex_token_ends[OF assms(1)] and u = Lex_token_ends[OF assms(2)]
  assume "\<not> (tkLine t \<noteq> tkLine u \<or> tkCol t \<noteq> tkCol u)"
  then have same: "tkLine t = tkLine u" "tkCol t = tkCol u" by blast+
  have eq: "line_of src (tkOffset t) = line_of src (tkOffset u)" "col_of src (tkOffset t) = col_of src (tkOffset u)"
    using t(3) u(3) same unfolding pos_exact_def by metis+
  let ?o = "tkOffset t" and ?b = "line_start src (tkOffset t)"
  obtain k where k: "tkOffset u = ?o + k" "0 < k" using that[of "tkOffset u - tkOffset t"] assms(4) by simp
  have "filter (is_break src) [?o..<?o + k] = []" using eq(1) by (simp add: k(1) line_of_add)
  then have ls: "line_start src (tkOffset u) = ?b" unfolding k(1) by (intro line_start_skip) (auto simp: filter_empty_conv)
  have b: "?b \<le> ?o" by (rule line_start_le)
  have "rune_count (take (?o + k - ?b) (drop ?b src)) = rune_count (take (?o - ?b) (drop ?b src)) +
      rune_count (take (?o + k - ?b - (?o - ?b)) (drop (?o - ?b) (drop ?b src)))"
    using t(4) assms(3) by (intro rune_count_split) (auto simp: start_aligned_def)
  moreover have "?o + k - ?b - (?o - ?b) = k" "drop (?o - ?b) (drop ?b src) = drop ?o src" using b by simp_all
  ultimately have "rune_count (take k (drop ?o src)) = 0"
    using eq(2) unfolding col_of_def ls by (simp add: k(1) Prelude.slice_def)
  moreover have "?o < length src" using u(2) k assms(4) by (simp add: tkEnd_def)
  ultimately show False using rune_count_pos[of "take k (drop ?o src)"] k(2) by simp
qed

definition token_place :: "Token \<Rightarrow> nat \<times> nat" where
  "token_place t = (tkLine t, tkCol t)"

lemma token_place_inj:
  assumes "parsed_ok pf" "real_tok (docTokens (pfAst pf)) i" "real_tok (docTokens (pfAst pf)) j"
    "token_place (docTokens (pfAst pf) ! i) = token_place (docTokens (pfAst pf) ! j)"
    "tkText (docTokens (pfAst pf) ! i) \<noteq> []" "tkText (docTokens (pfAst pf) ! j) \<noteq> []"
  shows "i = j"
proof -
  let ?toks = "docTokens (pfAst pf)"
  have toks: "?toks = fst (Lex (pfContent pf))" by (rule Parse_parts(1)[OF parsed_ok_Parse[OF assms(1)]])
  have less: "\<not> a < b" if "real_tok ?toks a" "real_tok ?toks b" "token_place (?toks ! a) = token_place (?toks ! b)"
      "tkText (?toks ! a) \<noteq> []" for a b
  proof
    assume "a < b"
    then have "tkEnd (?toks ! a) \<le> tkOffset (?toks ! b)"
      using Lex_sorted[of "pfContent pf"] that(1,2) unfolding toks[symmetric] by (simp add: sorted_wrt_iff_nth_less real_tok_def)
    then have "tkOffset (?toks ! a) < tkOffset (?toks ! b)" using that(4) by (cases "tkText (?toks ! a)") (simp_all add: tkEnd_def)
    from token_positions_differ[OF _ _ that(4) this, of "pfContent pf"] show False
      using that(1-3) by (simp add: toks real_tok_def token_place_def)
  qed
  show ?thesis using less[of i j] less[of j i] assms by (metis linorder_neqE_nat)
qed

section \<open>Field ids\<close>

text \<open>An order of the ids of every list of fields: each once.\<close>

definition enumerates :: "id_order \<Rightarrow> Token list \<Rightarrow> bool" where
  "enumerates order toks \<longleftrightarrow> (\<forall>fs. distinct (order fs) \<and> set (order fs) = field_ids toks fs)"

definition diag_place :: "Diagnostic \<Rightarrow> nat \<times> nat" where
  "diag_place d = (poLine (spStart (diSpan d)), poCol (spStart (diSpan d)))"

lemma by_position_key: "SortStableFunc by_position ds = sort_key diag_place ds"
  by (rule SortStable_key) (auto simp: by_position_def diag_place_def less_eq_prod_def)

lemma id_diag_place:
  "fiFieldID f = Some i \<Longrightarrow> diag_place (fieldIDRangeDiagnostic toks f) = token_place (toks ! i)"
  "fiFieldID f = Some i \<Longrightarrow> diag_place (fieldIDConflictDiagnostic toks f) = token_place (toks ! i)"
  by (simp_all add: diag_place_def fieldIDRangeDiagnostic_def fieldIDConflictDiagnostic_def diagnostic_def TokenSpan_def Let_def token_place_def)

lemma id_diagnostics_place:
  "d \<in> set (id_diagnostics toks fs n) \<Longrightarrow>
   \<exists>f i. f \<in> set fs \<and> fiFieldID f = Some i \<and> ParseInt (tkText (toks ! i)) 32 = Inr n \<and> diag_place d = token_place (toks ! i)"
  by (auto simp: id_diagnostics_def fieldIDSet_def field_id_def Let_def id_diag_place split: if_splits)

lemma concat_one:
  "distinct ns \<Longrightarrow> (\<And>n. n \<in> set ns \<Longrightarrow> n \<noteq> m \<Longrightarrow> h n = []) \<Longrightarrow> concat (map h ns) = (if m \<in> set ns then h m else [])"
proof (induction ns)
  case (Cons n ns)
  then show ?case by (cases "n = m") auto
qed simp

text \<open>The diagnostics at one place come from one id, so their order does not depend on the order of the ids.\<close>

lemma place_filter:
  assumes inj: "\<And>f g i j. f \<in> set fs \<Longrightarrow> g \<in> set fs \<Longrightarrow> fiFieldID f = Some i \<Longrightarrow> fiFieldID g = Some j \<Longrightarrow>
      token_place (toks ! i) = token_place (toks ! j) \<Longrightarrow> i = j"
    and "distinct ns" "distinct ms" "set ns = set ms"
  shows "filter (\<lambda>d. diag_place d = k) (concat (map (id_diagnostics toks fs) ns)) =
    filter (\<lambda>d. diag_place d = k) (concat (map (id_diagnostics toks fs) ms))"
proof -
  let ?h = "\<lambda>n. filter (\<lambda>d. diag_place d = k) (id_diagnostics toks fs n)"
  have f: "filter (\<lambda>d. diag_place d = k) (concat (map (id_diagnostics toks fs) xs)) = concat (map ?h xs)" for xs
    by (simp add: filter_concat comp_def)
  have one: "n = m" if "?h n \<noteq> []" "?h m \<noteq> []" for n m
  proof -
    note nm = that
    obtain d e where d: "d \<in> set (id_diagnostics toks fs n)" "diag_place d = k" "e \<in> set (id_diagnostics toks fs m)" "diag_place e = k"
      using nm by (auto simp: filter_empty_conv)
    obtain f i where i: "f \<in> set fs" "fiFieldID f = Some i" "ParseInt (tkText (toks ! i)) 32 = Inr n" "diag_place d = token_place (toks ! i)"
      using id_diagnostics_place[OF d(1)] by blast
    obtain g j where j: "g \<in> set fs" "fiFieldID g = Some j" "ParseInt (tkText (toks ! j)) 32 = Inr m" "diag_place e = token_place (toks ! j)"
      using id_diagnostics_place[OF d(3)] by blast
    have "i = j" using inj[OF i(1) j(1) i(2) j(2)] i(4) j(4) d(2,4) by simp
    then show "n = m" using i(3) j(3) by simp
  qed
  show ?thesis
  proof (cases "\<exists>m. ?h m \<noteq> []")
    case True
    then obtain m where m: "?h m \<noteq> []" by blast
    have other: "?h n = []" if "n \<noteq> m" for n using one[OF _ m] that by blast
    show ?thesis unfolding f using concat_one[OF assms(2), of m ?h] concat_one[OF assms(3), of m ?h] other assms(4) by simp
  qed (simp add: f)
qed

lemma id_token_text:
  assumes "parsed_ok pf" "in_tree pf (N_Field f)" "fiFieldID f = Some i"
  shows "real_tok (docTokens (pfAst pf)) i" "tkText (docTokens (pfAst pf) ! i) \<noteq> []"
proof -
  show r: "real_tok (docTokens (pfAst pf)) i" using assms(2,3) by (auto elim!: node_ok.cases)
  have "tkKind (docTokens (pfAst pf) ! i) = TokenIntConstant" using in_tree_shape[OF assms(2)] assms(3) by simp
  moreover have "docTokens (pfAst pf) ! i \<in> set (fst (Lex (pfContent pf)))"
    using r Parse_parts(1)[OF parsed_ok_Parse[OF assms(1)]] by (simp add: real_tok_def)
  moreover obtain ts e where "fst (Lex (pfContent pf)) = ts @ [e]" "tiles (snd (Lex (pfContent pf)) = []) (pfContent pf) 0 ts (length (pfContent pf))"
    "tkKind e = TokenEOF" using Lex_tiles[of "pfContent pf"] by metis
  ultimately show "tkText (docTokens (pfAst pf) ! i) \<noteq> []" using tiles_slices by fastforce
qed

lemma sort_same:
  assumes "mset xs = mset ys" "\<And>k. filter (\<lambda>d. diag_place d = k) xs = filter (\<lambda>d. diag_place d = k) ys"
  shows "sort_key diag_place xs = sort_key diag_place ys"
proof (rule properties_for_sort_key)
  fix k
  have "(\<lambda>x. diag_place k = diag_place x) = (\<lambda>x. diag_place x = diag_place k)" by auto
  then show "filter (\<lambda>x. diag_place k = diag_place x) (sort_key diag_place ys) = filter (\<lambda>x. diag_place k = diag_place x) xs"
    using assms(2)[of "diag_place k"] by (simp add: sort_key_stable)
qed (use assms(1) in simp_all)

lemma mset_concat_map: "mset ns = mset ms \<Longrightarrow> mset (concat (map h ns)) = mset (concat (map h ms))"
proof -
  have "mset (concat (map h ns)) = (\<Sum>n\<in>#mset ns. mset (h n))" for ns by (induction ns) auto
  then show "mset ns = mset ms \<Longrightarrow> ?thesis" by simp
qed

definition out_of_range :: "Token list \<Rightarrow> Field \<Rightarrow> bool" where
  "out_of_range toks f \<longleftrightarrow> field_id toks f = Some (Inl ErrRange) \<or> (\<exists>n. field_id toks f = Some (Inr n) \<and> \<not> (1 \<le> n \<and> n \<le> 32767))"

definition shared_id :: "Token list \<Rightarrow> Field list \<Rightarrow> Field \<Rightarrow> bool" where
  "shared_id toks fs f \<longleftrightarrow> (\<exists>n. field_id toks f = Some (Inr n) \<and> 2 \<le> length (filter (\<lambda>g. field_id toks g = Some (Inr n)) fs))"

lemma field_list_set:
  assumes "set ns = field_ids toks fs"
  shows "set (overlong_ids toks fs @ concat (map (id_diagnostics toks fs) ns)) =
    fieldIDRangeDiagnostic toks ` {f \<in> set fs. out_of_range toks f} \<union> fieldIDConflictDiagnostic toks ` {f \<in> set fs. shared_id toks fs f}"
proof -
  have ids: "n \<in> set ns \<longleftrightarrow> (\<exists>f \<in> set fs. field_id toks f = Some (Inr n))" for n
    by (simp add: assms field_ids_def fieldIDSet_def filter_empty_conv)
  have two: "length (fieldIDSet toks fs n) \<noteq> 1 \<longleftrightarrow> 2 \<le> length (filter (\<lambda>g. field_id toks g = Some (Inr n)) fs)" if "n \<in> set ns" for n
  proof -
    have "fieldIDSet toks fs n \<noteq> []" using that assms by (simp add: field_ids_def)
    then show ?thesis by (cases "fieldIDSet toks fs n") (auto simp: fieldIDSet_def[symmetric] Suc_le_eq)
  qed
  have mem: "d \<in> set (id_diagnostics toks fs n) \<longleftrightarrow> (\<exists>f \<in> set fs. field_id toks f = Some (Inr n) \<and>
      (d = fieldIDRangeDiagnostic toks f \<and> \<not> (1 \<le> n \<and> n \<le> 32767) \<or>
       d = fieldIDConflictDiagnostic toks f \<and> 2 \<le> length (filter (\<lambda>g. field_id toks g = Some (Inr n)) fs)))" if "n \<in> set ns" for n d
    unfolding id_diagnostics_def Let_def using two[OF that] by (auto simp: fieldIDSet_def)
  have "d \<in> set (concat (map (id_diagnostics toks fs) ns)) \<longleftrightarrow>
      (\<exists>f \<in> set fs. d = fieldIDRangeDiagnostic toks f \<and> (\<exists>n. field_id toks f = Some (Inr n) \<and> \<not> (1 \<le> n \<and> n \<le> 32767)) \<or>
         d = fieldIDConflictDiagnostic toks f \<and> shared_id toks fs f)" for d
    using ids by (simp add: mem shared_id_def cong: bex_cong_simp) blast
  moreover have "d \<in> set (overlong_ids toks fs) \<longleftrightarrow> (\<exists>f \<in> set fs. d = fieldIDRangeDiagnostic toks f \<and> field_id toks f = Some (Inl ErrRange))" for d
    by (auto simp: overlong_ids_def)
  ultimately show ?thesis unfolding out_of_range_def by (simp only: set_append set_eq_iff Un_iff image_iff mem_Collect_eq) blast
qed

section \<open>Properties\<close>

text \<open>
  C11: the check of field ids is exact, and deterministic although it iterates over a map.
  On every parsed file it reports, sorted by position, a range error for each field whose
  id is not a number from 1 to 32767, overlong numbers included, and a conflict for each
  field that shares its id with another field of its list, and nothing else; every order
  of the iteration gives the same list.
\<close>

theorem FieldIDCheck_exact:
  assumes "parsed_ok pf" "enumerates order (docTokens (pfAst pf))"
  shows "let toks = docTokens (pfAst pf); ds = field_id_diagnostics order (pfAst pf) in
    sorted (map diag_place ds) \<and>
    (\<forall>order'. enumerates order' toks \<longrightarrow> field_id_diagnostics order' (pfAst pf) = ds) \<and>
    set ds = (\<Union>(fs, k) \<in> set (WalkFieldLists (pfAst pf)).
      fieldIDRangeDiagnostic toks ` {f \<in> set fs. out_of_range toks f} \<union>
      fieldIDConflictDiagnostic toks ` {f \<in> set fs. shared_id toks fs f})"
proof -
  let ?toks = "docTokens (pfAst pf)"
  let ?lists = "map fst (WalkFieldLists (pfAst pf))"
  have all: "field_id_diagnostics o1 (pfAst pf) = sort_key diag_place (concat (map (field_list_diagnostics o1 ?toks) ?lists))" for o1
    by (simp add: field_id_diagnostics_def by_position_key comp_def case_prod_beta')
  have inj: "i = j" if fs: "fs \<in> set ?lists" and m: "f \<in> set fs" "g \<in> set fs" "fiFieldID f = Some i" "fiFieldID g = Some j"
      "token_place (?toks ! i) = token_place (?toks ! j)" for fs f g i j
  proof -
    obtain k where "(fs, k) \<in> set (WalkFieldLists (pfAst pf))" using fs by auto
    note t = field_lists_in_tree[OF assms(1) this]
    show ?thesis by (rule token_place_inj[OF assms(1) _ _ m(5)]) (use id_token_text[OF assms(1) t] m in blast)+
  qed
  have same: "field_id_diagnostics o1 (pfAst pf) = field_id_diagnostics o2 (pfAst pf)"
    if "enumerates o1 ?toks" "enumerates o2 ?toks" for o1 o2
  proof -
    have e: "distinct (o1 fs)" "distinct (o2 fs)" "set (o1 fs) = set (o2 fs)" for fs using that by (simp_all add: enumerates_def)
    have "mset (field_list_diagnostics o1 ?toks fs) = mset (field_list_diagnostics o2 ?toks fs)" for fs
      using mset_concat_map[of "o1 fs" "o2 fs"] e by (simp add: field_list_diagnostics_def set_eq_iff_mset_eq_distinct)
    moreover have "filter (\<lambda>d. diag_place d = c) (field_list_diagnostics o1 ?toks fs) = filter (\<lambda>d. diag_place d = c) (field_list_diagnostics o2 ?toks fs)"
      if "fs \<in> set ?lists" for fs c
      using place_filter[where k = c, OF inj[OF that] e] by (simp add: field_list_diagnostics_def)
    ultimately show ?thesis unfolding all
      by (intro sort_same) (auto simp: filter_concat mset_concat comp_def intro!: arg_cong[of _ _ concat] arg_cong[of _ _ sum_list])
  qed
  have "set (field_id_diagnostics order (pfAst pf)) = (\<Union>(fs, k) \<in> set (WalkFieldLists (pfAst pf)). set (field_list_diagnostics order ?toks fs))"
    by (simp add: all case_prod_beta')
  also have "\<dots> = (\<Union>(fs, k) \<in> set (WalkFieldLists (pfAst pf)).
      fieldIDRangeDiagnostic ?toks ` {f \<in> set fs. out_of_range ?toks f} \<union> fieldIDConflictDiagnostic ?toks ` {f \<in> set fs. shared_id ?toks fs f})"
    using assms(2) unfolding field_list_diagnostics_def by (simp only: field_list_set enumerates_def)
  finally have set: "set (field_id_diagnostics order (pfAst pf)) = \<dots>" .
  moreover have "sorted (map diag_place (field_id_diagnostics order (pfAst pf)))" by (simp add: all)
  ultimately show ?thesis unfolding Let_def using same[OF _ assms(2)] by blast
qed

text \<open>The order of the first occurrences.\<close>

definition id_list :: "Token list \<Rightarrow> id_order" where
  "id_list toks fs = remdups (concat (map (\<lambda>f. case field_id toks f of Some (Inr n) \<Rightarrow> [n] | _ \<Rightarrow> []) fs))"

lemma id_list_enumerates: "enumerates (id_list toks) toks"
proof -
  have "n \<in> set (case field_id toks f of Some (Inr n) \<Rightarrow> [n] | _ \<Rightarrow> []) \<longleftrightarrow> field_id toks f = Some (Inr n)" for f n
    by (cases "field_id toks f"; cases "the (field_id toks f)") auto
  then show ?thesis by (auto simp: enumerates_def id_list_def field_ids_def fieldIDSet_def filter_empty_conv)
qed

lemma bad_ids:
  "map_option (\<lambda>pf. length (field_id_diagnostics (id_list (docTokens (pfAst pf))) (pfAst pf)))
     (parse_file ''struct S{7:i8 a 0:i8 b 7:i8 c}'') = Some 3"
  by code_simp

lemma FieldIDCheck_exact_witness:
  "\<exists>pf. parse_file ''struct S{7:i8 a 0:i8 b 7:i8 c}'' = Some pf \<and>
     (let ds = field_id_diagnostics (id_list (docTokens (pfAst pf))) (pfAst pf) in
      sorted (map diag_place ds) \<and> length ds = 3 \<and>
      (\<forall>order'. enumerates order' (docTokens (pfAst pf)) \<longrightarrow> field_id_diagnostics order' (pfAst pf) = ds))"
proof -
  obtain pf where pf: "parse_file ''struct S{7:i8 a 0:i8 b 7:i8 c}'' = Some pf" using parse_file_total by blast
  then have "length (field_id_diagnostics (id_list (docTokens (pfAst pf))) (pfAst pf)) = 3" using bad_ids by simp
  then show ?thesis using FieldIDCheck_exact[OF parse_file_ok[OF pf] id_list_enumerates] pf unfolding Let_def by blast
qed

end
