(* ===== verification/RelProps.thy ===== *)
theory RelProps imports Totality Actions ResolverProps
begin

text \<open>
  The include that the fixer adds: its path is relative to the directory of the file and resolves
  back to the file of the definition, and the text that is inserted is read as this include.
\<close>

section \<open>Splitting and joining\<close>

lemma split_at_nonempty: "split_at sep s \<noteq> []"
  by (induction s) (auto split: list.splits)

lemma split_at_append: "split_at sep (a @ sep # b) = split_at sep a @ split_at sep b"
proof (induction a)
  case (Cons c a)
  then show ?case using split_at_nonempty[of sep a] by (cases "split_at sep a") auto
qed simp

lemma split_at_plain: "sep \<notin> set w \<Longrightarrow> split_at sep w = [w]"
  by (induction w) auto

lemma split_join: "ws \<noteq> [] \<Longrightarrow> \<forall>w \<in> set ws. SLASH \<notin> set w \<Longrightarrow> split_at SLASH (join_with ''/'' ws) = ws"
proof (induction "''/''" ws rule: join_with.induct)
  case (3 w v ws)
  then show ?case by (simp add: split_at_append split_at_plain)
qed (simp_all add: split_at_plain)

lemma split_at_no_sep: "w \<in> set (split_at sep s) \<Longrightarrow> sep \<notin> set w"
proof (induction s arbitrary: w)
  case (Cons c s)
  then show ?case using split_at_nonempty[of sep s] by (cases "split_at sep s") (auto split: if_splits)
qed simp

section \<open>Clean paths\<close>

text \<open>An element of a clean rooted path.\<close>

definition plain_element :: "bytes \<Rightarrow> bool" where
  "plain_element w \<longleftrightarrow> w \<noteq> [] \<and> w \<noteq> ''.'' \<and> w \<noteq> ''..'' \<and> SLASH \<notin> set w"

lemma clean_plain: "list_all plain_element ws \<Longrightarrow> fold (clean_step root) ws stack = rev ws @ stack"
  by (induction ws arbitrary: stack) (auto simp: clean_step_def plain_element_def)

lemma clean_up: "list_all plain_element ws \<Longrightarrow> n \<le> length ws \<Longrightarrow> fold (clean_step True) (replicate n ''..'') ws = drop n ws"
proof (induction n arbitrary: ws)
  case (Suc n)
  then show ?case by (cases ws) (auto simp: clean_step_def plain_element_def)
qed simp

lemma not_plain [simp]: "\<not> plain_element ''..''" "\<not> plain_element ''.''" "\<not> plain_element []"
  by (simp_all add: plain_element_def)

lemma clean_step_plain: "SLASH \<notin> set w \<Longrightarrow> list_all plain_element stack \<Longrightarrow> list_all plain_element (clean_step True w stack)"
  by (cases stack) (auto simp: clean_step_def plain_element_def[of w])

lemma fold_clean_step: "\<forall>w \<in> set ws. SLASH \<notin> set w \<Longrightarrow> list_all plain_element stack \<Longrightarrow> list_all plain_element (fold (clean_step True) ws stack)"
  by (induction ws arbitrary: stack) (simp_all add: clean_step_plain)

lemma clean_elements_plain: "rooted p \<Longrightarrow> list_all plain_element (clean_elements p)"
  unfolding clean_elements_def by (simp only: list_all_rev) (rule fold_clean_step, auto dest: split_at_no_sep)

lemma Clean_rooted: "rooted p \<Longrightarrow> Clean p = ''/'' @ join_with ''/'' (clean_elements p)"
  by (simp add: Clean_def)

lemma rooted_slash [simp]: "rooted (CHR ''/'' # s)"
  by (simp add: rooted_def HasPrefix_def)

text \<open>The elements of a rooted path that is built from plain elements and a relative rest.\<close>

lemma clean_elements_from:
  assumes "list_all plain_element ws"
  shows "clean_elements ((''/'' @ join_with ''/'' ws) @ ''/'' @ rest) = rev (fold (clean_step True) (split_at SLASH rest) (rev ws))"
proof -
  have "fold (clean_step True) (split_at SLASH (''/'' @ join_with ''/'' ws)) [] = rev ws"
  proof (cases "ws = []")
    case False
    have "split_at SLASH (join_with ''/'' ws) = ws" using assms False by (intro split_join) (auto simp: plain_element_def list_all_iff)
    then show ?thesis using clean_plain[OF assms, of True "[]"] by (simp add: clean_step_def)
  qed (simp add: clean_step_def)
  then have "fold (clean_step True) (split_at SLASH (''/'' @ join_with ''/'' ws) @ split_at SLASH rest) [] =
      fold (clean_step True) (split_at SLASH rest) (rev ws)" by simp
  then show ?thesis using split_at_append[of SLASH "''/'' @ join_with ''/'' ws" rest] by (simp add: clean_elements_def)
qed

lemma path_elements_clean: "rooted p \<Longrightarrow> path_elements (Clean p) = clean_elements p"
proof -
  assume p: "rooted p"
  note pl = clean_elements_plain[OF p]
  show ?thesis
  proof (cases "clean_elements p = []")
    case False
    then have "join_with ''/'' (clean_elements p) \<noteq> []" using pl
      by (cases "clean_elements p"; cases "tl (clean_elements p)") (auto simp: plain_element_def)
    moreover have "split_at SLASH (join_with ''/'' (clean_elements p)) = clean_elements p"
      using False pl by (intro split_join) (auto simp: plain_element_def list_all_iff)
    ultimately show ?thesis by (simp add: Clean_rooted[OF p] path_elements_def TrimPrefix_def HasPrefix_def)
  qed (simp add: Clean_rooted[OF p] path_elements_def TrimPrefix_def HasPrefix_def)
qed

lemma clean_elements_clean: "list_all plain_element ws \<Longrightarrow> clean_elements (''/'' @ join_with ''/'' ws) = ws"
proof (cases "ws = []")
  case False
  assume ws: "list_all plain_element ws"
  then have "split_at SLASH (join_with ''/'' ws) = ws" using False by (intro split_join) (auto simp: plain_element_def list_all_iff)
  then show ?thesis using clean_plain[OF ws, of True "[]"] by (simp add: clean_elements_def clean_step_def)
qed (simp add: clean_elements_def clean_step_def)

lemma Clean_Clean: "rooted p \<Longrightarrow> Clean (Clean p) = Clean p"
proof -
  assume p: "rooted p"
  have "clean_elements (Clean p) = clean_elements p" unfolding Clean_rooted[OF p] by (rule clean_elements_clean[OF clean_elements_plain[OF p]])
  moreover have "rooted (Clean p)" by (simp add: Clean_rooted[OF p])
  ultimately show ?thesis using Clean_rooted[OF p] Clean_rooted[of "Clean p"] by simp
qed

section \<open>Relative paths\<close>

lemma strip_common_split: "strip_common bs ts = (bs', ts') \<Longrightarrow> \<exists>c. bs = c @ bs' \<and> ts = c @ ts'"
proof (induction bs ts rule: strip_common.induct)
  case (1 b bs t ts)
  then show ?case by (cases "b = t") force+
qed auto

lemma join_clean:
  assumes "rooted base"
  shows "path_Join (Clean base) r = ''/'' @ join_with ''/'' (rev (fold (clean_step True) (split_at SLASH r) (rev (clean_elements base))))"
proof -
  have "rooted (Clean base)" by (simp add: Clean_rooted[OF assms])
  then have "rooted (Clean base @ ''/'' @ r)" by (simp add: Clean_rooted[OF assms])
  then have "path_Join (Clean base) r = ''/'' @ join_with ''/'' (clean_elements (Clean base @ ''/'' @ r))"
    unfolding Clean_rooted[symmetric, OF \<open>rooted (Clean base @ ''/'' @ r)\<close>] by (simp add: path_Join_def Clean_rooted[OF assms])
  then show ?thesis
    using clean_elements_from[OF clean_elements_plain[OF assms], of r] unfolding Clean_rooted[OF assms] by simp
qed

lemma Rel_elements:
  assumes "rooted base" "rooted targ" "Clean targ \<noteq> Clean base" "strip_common (clean_elements base) (clean_elements targ) = (bs, ts)"
    and "filepath_Rel base targ = Some rel"
  shows "rel = join_with ''/'' (replicate (length bs) ''..'' @ ts)"
proof -
  have "Clean base \<noteq> ''.''" "rooted (Clean base)" "rooted (Clean targ)" using assms(1,2) by (simp_all add: Clean_rooted)
  then show ?thesis using assms(3-) path_elements_clean[OF assms(1)] path_elements_clean[OF assms(2)]
    by (auto simp: filepath_Rel_def Let_def split: if_splits)
qed

lemma join_dot: "rooted base \<Longrightarrow> path_Join (Clean base) ''.'' = Clean base"
  by (subst join_clean) (simp_all add: Clean_rooted clean_step_def)

lemma Rel_same: "Clean targ = Clean base \<Longrightarrow> filepath_Rel base targ = Some rel \<Longrightarrow> rel = ''.''"
  by (simp add: filepath_Rel_def)

lemma up_fold:
  assumes "list_all plain_element (c @ bs)" "list_all plain_element (c @ ts)"
  shows "fold (clean_step True) (replicate (length bs) ''..'' @ ts) (rev (c @ bs)) = rev (c @ ts)"
  using clean_up[of "rev (c @ bs)" "length bs"] clean_plain[of ts True "rev c"] assms by simp

lemma split_up:
  assumes "list_all plain_element ts" "bs \<noteq> [] \<or> ts \<noteq> []"
  shows "split_at SLASH (join_with ''/'' (replicate (length bs) ''..'' @ ts)) = replicate (length bs) ''..'' @ ts"
proof (rule split_join)
  show "replicate (length bs) ''..'' @ ts \<noteq> []" using assms(2) by simp
  have "SLASH \<notin> set w" if "w \<in> set ts" for w using assms(1) that by (simp add: list_all_iff plain_element_def)
  then show "\<forall>w \<in> set (replicate (length bs) ''..'' @ ts). SLASH \<notin> set w" by (auto dest: in_set_replicate[THEN iffD1])
qed

lemma Rel_Join:
  assumes "rooted base" "rooted targ" "filepath_Rel base targ = Some rel"
  shows "path_Join (Clean base) rel = Clean targ"
proof (cases "Clean targ = Clean base")
  case True
  show ?thesis unfolding Rel_same[OF True assms(3)] join_dot[OF assms(1)] by (rule True[symmetric])
next
  case False
  obtain bs ts where s: "strip_common (clean_elements base) (clean_elements targ) = (bs, ts)" by fastforce
  obtain c where c: "clean_elements base = c @ bs" "clean_elements targ = c @ ts" using strip_common_split[OF s] by blast
  have p: "list_all plain_element (c @ bs)" "list_all plain_element (c @ ts)"
    using clean_elements_plain[OF assms(1)] clean_elements_plain[OF assms(2)] unfolding c .
  have "clean_elements base \<noteq> clean_elements targ" using False unfolding Clean_rooted[OF assms(1)] Clean_rooted[OF assms(2)] by (rule contrapos_nn) (simp only:)
  then have "bs \<noteq> [] \<or> ts \<noteq> []" unfolding c by blast
  moreover have "list_all plain_element ts" using p(2) by simp
  ultimately show ?thesis
    unfolding join_clean[OF assms(1)] Rel_elements[OF assms(1,2) False s assms(3)] Clean_rooted[OF assms(2)] c
    by (simp only: split_up up_fold[OF p] rev_rev_ident)
qed

section \<open>The text of an include statement\<close>

text \<open>What \<open>strconv.Quote\<close> leaves as it is and \<open>PathText\<close> does not cut off.\<close>

definition plain_char :: "char \<Rightarrow> bool" where
  "plain_char c \<longleftrightarrow> 0x20 \<le> byte c \<and> byte c < 0x7F \<and> c \<noteq> DQUOTE \<and> c \<noteq> SQUOTE \<and> c \<noteq> BACKSLASH"

lemma plain_char_facts: "plain_char c \<Longrightarrow> c \<noteq> LF \<and> c \<noteq> CR \<and> c \<noteq> DQUOTE \<and> c \<noteq> SQUOTE \<and> c \<noteq> BACKSLASH \<and> byte c < rune_self"
  by (auto simp: plain_char_def rune_self_def byte_def)

text \<open>A lexer that has read \<open>n\<close> bytes of its line, the first, without an error.\<close>

definition first_line :: "bytes \<Rightarrow> nat \<Rightarrow> lexer" where
  "first_line src n = \<lparr>lxSrc = src, lxOff = n, lxLine = 1, lxCol = Suc n, lxErrs = [], lxPanic = False\<rparr>"

lemma first_line_simps [simp]:
  "lxSrc (first_line src n) = src" "lxOff (first_line src n) = n" "lxErrs (first_line src n) = []" "\<not> lxPanic (first_line src n)"
  "lxLine (first_line src n) = 1" "lxCol (first_line src n) = Suc n"
  "has_more (first_line src n) \<longleftrightarrow> n < length src" "cur_byte (first_line src n) = src ! n"
  by (simp_all add: first_line_def has_more_def cur_byte_def)

lemma advanceByte_first_line: "n < length src \<Longrightarrow> src ! n \<noteq> LF \<Longrightarrow> src ! n \<noteq> CR \<Longrightarrow> advanceByte (first_line src n) = first_line src (Suc n)"
  by (simp add: advanceByte_def Let_def first_line_def cur_byte_def has_more_def)

lemma advanceRune_first_line:
  assumes "n < length src" "plain_char (src ! n)"
  shows "advanceRune (first_line src n) = first_line src (Suc n)"
proof -
  note p = plain_char_facts[OF assms(2)]
  have "drop n src = src ! n # drop (Suc n) src" using assms(1) by (simp add: Cons_nth_drop_Suc)
  then have "decode_rune (drop n src) = (byte (src ! n), 1)" using p decode_rune_ascii[of "drop n src"] by simp
  then show ?thesis using assms(1) p byte_inj[of "src ! n" LF] byte_inj[of "src ! n" CR]
    by (auto simp: advanceRune_def Let_def first_line_def)
qed

lemma ident_first_line:
  "src = pre @ w @ c # rest \<Longrightarrow> \<forall>x \<in> set w. isIdentPart x \<Longrightarrow> \<not> isIdentPart c \<Longrightarrow> c \<noteq> CHR ''.'' \<Longrightarrow>
   scanIdentifier_loop d (first_line src (length pre)) = (d, first_line src (length pre + length w))"
proof (induction w arbitrary: pre)
  case Nil
  then show ?case by (subst scanIdentifier_loop.simps) simp
next
  case (Cons x w)
  have x: "isIdentPart x" "x \<noteq> LF" "x \<noteq> CR" using Cons.prems(2) by (auto simp: isIdentPart_def isIdentStart_def isDigit_def)
  have "src ! length pre = x" "length pre < length src" using Cons.prems(1) by (simp_all add: nth_append)
  then have "scanIdentifier_loop d (first_line src (length pre)) = scanIdentifier_loop d (first_line src (length (pre @ [x])))"
    using x by (subst scanIdentifier_loop.simps) (simp add: advanceByte_first_line)
  also have "\<dots> = (d, first_line src (length (pre @ [x]) + length w))" using Cons.prems by (intro Cons.IH) simp_all
  finally show ?case by simp
qed

lemma string_first_line:
  "src = pre @ w @ DQUOTE # rest \<Longrightarrow> list_all plain_char w \<Longrightarrow>
   scanString_loop DQUOTE start (first_line src (length pre)) =
     (let l = first_line src (length pre + length w + 1) in (finish TokenStringLiteral start l, l))"
proof (induction w arbitrary: pre)
  case Nil
  then have "src ! length pre = DQUOTE" "length pre < length src" by (simp_all add: nth_append)
  then show ?case by (subst scanString_loop.simps) (simp add: advanceByte_first_line Let_def)
next
  case (Cons x w)
  then have x: "plain_char x" "src ! length pre = x" "length pre < length src" by (simp_all add: nth_append)
  note p = plain_char_facts[OF x(1)]
  have "scanString_loop DQUOTE start (first_line src (length pre)) = scanString_loop DQUOTE start (first_line src (length (pre @ [x])))"
    using x p by (subst scanString_loop.simps) (simp add: advanceRune_first_line Let_def)
  also have "\<dots> = (let l = first_line src (length (pre @ [x]) + length w + 1) in (finish TokenStringLiteral start l, l))"
    using Cons.prems by (intro Cons.IH) simp_all
  finally show ?case by simp
qed

text \<open>The tokens of the statement.\<close>

definition include_text :: "bytes \<Rightarrow> bytes" where
  "include_text path = ''include '' @ DQUOTE # path @ [DQUOTE, LF]"

definition include_tokens :: "bytes \<Rightarrow> Token list" where
  "include_tokens path =
     [\<lparr>tkKind = TokenInclude, tkText = ''include'', tkOffset = 0, tkLine = 1, tkCol = 1, tkBlankLinesBefore = 0\<rparr>,
      \<lparr>tkKind = TokenStringLiteral, tkText = DQUOTE # path @ [DQUOTE], tkOffset = 8, tkLine = 1, tkCol = 9, tkBlankLinesBefore = 0\<rparr>,
      \<lparr>tkKind = TokenEOF, tkText = [], tkOffset = length path + 11, tkLine = 2, tkCol = 1, tkBlankLinesBefore = 0\<rparr>]"

lemma include_lex_word:
  "scanToken (first_line (include_text path) 0) =
     (\<lparr>tkKind = TokenInclude, tkText = ''include'', tkOffset = 0, tkLine = 1, tkCol = 1, tkBlankLinesBefore = 0\<rparr>,
      first_line (include_text path) 7)"
proof -
  let ?src = "include_text path"
  have src: "?src = ''i'' @ ''nclude'' @ SPACE # DQUOTE # path @ [DQUOTE, LF]" by (simp add: include_text_def)
  have "scanIdentifier_loop False (first_line ?src (length ''i'')) = (False, first_line ?src (length ''i'' + length ''nclude''))"
    by (rule ident_first_line[OF src]) (simp_all add: isIdentPart_def isIdentStart_def isDigit_def)
  moreover have "length ''i'' = 1" "length ''i'' + length ''nclude'' = 7" by simp_all
  ultimately have "scanIdentifier_loop False (first_line ?src 1) = (False, first_line ?src 7)" by (simp only:)
  moreover have "advanceByte (first_line ?src 0) = first_line ?src 1"
    by (subst advanceByte_first_line) (simp_all add: include_text_def)
  moreover have "keywordKinds ''include'' = Some TokenInclude" by code_simp
  moreover have "isIdentStart (?src ! 0)" "0 < length ?src" by (simp_all add: include_text_def isIdentStart_def)
  moreover have "Prelude.slice 0 7 ?src = ''include''" by (simp add: include_text_def Prelude.slice_def)
  ultimately show ?thesis
    by (subst scanToken.simps) (simp add: scanIdentifier_def lex_pos_def finish_def Let_def)
qed

lemma include_lex_space:
  "scanTrivia (first_line (include_text path) 7) = (0, [], first_line (include_text path) 8)"
proof -
  let ?src = "include_text path"
  have b: "?src ! 7 = SPACE" "?src ! 8 = DQUOTE" "8 < length ?src" by (simp_all add: include_text_def)
  then have "scanWhitespace (first_line ?src 7) = (0, first_line ?src 8)"
    by (simp add: scanWhitespace_def scanWhitespace_loop.simps[of 0 "first_line ?src 7"] scanWhitespace_loop.simps[of 0 "first_line ?src 8"]
        advanceByte_first_line blankLinesBefore_def)
  then show ?thesis using b
    by (simp add: scanTrivia_def scanTrivia_loop.simps[of 0 "[]" "first_line ?src 7"] scanTrivia_loop.simps[of 0 "[]" "first_line ?src 8"]
        isWhitespace_def)
qed

lemma include_lex_string:
  assumes "list_all plain_char path"
  shows "scanToken (first_line (include_text path) 8) =
     (\<lparr>tkKind = TokenStringLiteral, tkText = DQUOTE # path @ [DQUOTE], tkOffset = 8, tkLine = 1, tkCol = 9, tkBlankLinesBefore = 0\<rparr>,
      first_line (include_text path) (length path + 10))"
proof -
  let ?src = "include_text path"
  have src: "?src = (''include '' @ [DQUOTE]) @ path @ DQUOTE # [LF]" by (simp add: include_text_def)
  have b: "?src ! 8 = DQUOTE" "8 < length ?src" by (simp_all add: include_text_def)
  have "length (''include '' @ [DQUOTE]) = 9" by simp
  note loop = string_first_line[OF src assms, of "lex_pos (first_line ?src 8)", unfolded this Let_def]
  have nine: "9 + length path + 1 = length path + 10" by simp
  have "advanceByte (first_line ?src 8) = first_line ?src 9" using b by (subst advanceByte_first_line) simp_all
  moreover have "Prelude.slice 8 (length path + 10) ?src = DQUOTE # path @ [DQUOTE]" by (simp add: include_text_def Prelude.slice_def)
  ultimately show ?thesis using loop[unfolded nine] b
    by (subst scanToken.simps) (simp add: scanString_def lex_pos_def finish_def Let_def isIdentStart_def isDigit_def)
qed

lemma include_lex_end:
  assumes "list_all plain_char path"
  shows "\<exists>l. scanTrivia (first_line (include_text path) (length path + 10)) = (0, [], l) \<and> \<not> has_more l \<and>
     lxOff l = length path + 11 \<and> lxLine l = 2 \<and> lxCol l = 1 \<and> lxErrs l = [] \<and> \<not> lxPanic l"
proof -
  let ?src = "include_text path" and ?n = "length path + 10"
  let ?l = "advanceByte (first_line ?src ?n)"
  have b: "?src ! ?n = LF" "length ?src = Suc ?n" by (simp_all add: include_text_def nth_append)
  have l: "\<not> has_more ?l" "lxOff ?l = length path + 11" "lxLine ?l = 2" "lxCol ?l = 1" "lxErrs ?l = []" "\<not> lxPanic ?l"
    using b by (auto simp: advanceByte_def Let_def has_more_def cur_byte_def first_line_def)
  have "scanWhitespace (first_line ?src ?n) = (0, ?l)"
    using b l(1) by (simp add: scanWhitespace_def scanWhitespace_loop.simps[of 0 "first_line ?src ?n"] scanWhitespace_loop.simps[of _ ?l]
        blankLinesBefore_def)
  then have "scanTrivia (first_line ?src ?n) = (0, [], ?l)" using b l(1)
    by (simp add: scanTrivia_def scanTrivia_loop.simps[of 0 "[]" "first_line ?src ?n"] scanTrivia_loop.simps[of 0 "[]" ?l] isWhitespace_def)
  then show ?thesis using l by blast
qed

lemma include_lex:
  assumes "list_all plain_char path"
  shows "Lex (include_text path) = (include_tokens path, [])"
proof -
  let ?src = "include_text path"
  have start: "(new_lexer ?src)\<lparr>lxLine := 1, lxCol := 1\<rparr> = first_line ?src 0" by (simp add: new_lexer_def first_line_def)
  have t0: "scanTrivia (first_line ?src 0) = (0, [], first_line ?src 0)"
  proof -
    have "?src ! 0 = CHR ''i''" "0 < length ?src" by (simp_all add: include_text_def)
    then show ?thesis by (simp add: scanTrivia_def scanTrivia_loop.simps[of 0 "[]" "first_line ?src 0"] isWhitespace_def)
  qed
  obtain l where l: "scanTrivia (first_line ?src (length path + 10)) = (0, [], l)" "\<not> has_more l" "lxOff l = length path + 11"
    "lxLine l = 2" "lxCol l = 1" "lxErrs l = []" using include_lex_end[OF assms] by blast
  have "scanToken l = (\<lparr>tkKind = TokenEOF, tkText = [], tkOffset = length path + 11, tkLine = 2, tkCol = 1, tkBlankLinesBefore = 0\<rparr>, l)"
    using l by (subst scanToken.simps) simp
  then have "run_loop [] (first_line ?src 0) = (include_tokens path, l)"
    by (simp add: run_loop.simps[of _ "first_line ?src 0"] run_loop.simps[of _ "first_line ?src 7"]
        run_loop.simps[of _ "first_line ?src (length path + 10)"] t0 include_lex_word include_lex_space include_lex_string[OF assms] l
        run_loop.simps[of _ l] include_tokens_def)
  then show ?thesis unfolding Lex_def lexer_run_def start by (simp add: l)
qed

lemma include_tokens_at:
  "length (include_tokens path) = 3" "tkKind (include_tokens path ! 0) = TokenInclude"
  "tkKind (include_tokens path ! Suc 0) = TokenStringLiteral" "tkKind (include_tokens path ! 2) = TokenEOF"
  "tkText (include_tokens path ! Suc 0) = DQUOTE # path @ [DQUOTE]"
  by (simp_all add: include_tokens_def)

definition include_state :: "bytes \<Rightarrow> nat \<Rightarrow> parser" where
  "include_state path i = \<lparr>psToks = include_tokens path, psPos = i, psErrs = []\<rparr>"

lemma include_state_simps [simp]:
  "psToks (include_state path i) = include_tokens path" "psPos (include_state path i) = i" "psErrs (include_state path i) = []"
  by (simp_all add: include_state_def)

lemma include_state_step:
  assumes "i < 3"
  shows "cur (include_state path i) = Some (include_tokens path ! i)"
    "advance (include_state path i) = Some (i, include_state path (Suc i))" "nextReal (include_state path i) i = i"
proof -
  have "i = 0 \<or> i = Suc 0 \<or> i = 2" using assms by auto
  then have "\<not> IsComment (tkKind (include_tokens path ! i))" by (auto simp: include_tokens_at IsComment_def)
  then have n: "NextReal (include_tokens path) i = i" by (subst NextReal.simps) simp
  then show "cur (include_state path i) = Some (include_tokens path ! i)"
    "advance (include_state path i) = Some (i, include_state path (Suc i))" "nextReal (include_state path i) i = i"
    using assms by (simp_all add: cur_def advance_def tok_at_def nextReal_def include_state_def include_tokens_at)
qed

definition include_node :: Include where
  "include_node = \<lparr>incBase = \<lparr>nbFirst = 0, nbLast = 1\<rparr>, incPath = Some 1\<rparr>"

lemma include_parse:
  "parseInclude (include_state path 0) = Some (Some (N_Include include_node), include_state path 2)"
  using include_state_step[of 0 path] include_state_step[of "Suc 0" path] include_tokens_at[of path]
  by (simp add: parseInclude_def parse_path_def at_def span_def include_node_def numeral_2_eq_2 Let_def)

lemma include_parse_text:
  assumes "list_all plain_char path"
  shows "Parse (include_text path) = Some (\<lparr>docTokens = include_tokens path, docNodes = [N_Include include_node]\<rparr>, [])"
proof -
  define n :: nat where "n = 6"
  have fuel: "parse_fuel (include_state path 0) = Suc (Suc n)" by (simp add: parse_fuel_def include_tokens_at n_def)
  have "parseDocument_loop (Suc (Suc n)) [] (include_state path 0) = Some ([N_Include include_node], include_state path 2)"
    using include_state_step[of 0 path] include_state_step[of 2 path] include_tokens_at[of path] include_parse[of path]
    by (simp add: top_parser_def appendNode_def)
  then have "ParseTokens (include_tokens path) = Some (\<lparr>docTokens = include_tokens path, docNodes = [N_Include include_node]\<rparr>, [])"
    using fuel by (simp only: ParseTokens_def parseDocument_def include_state_def[symmetric]) simp
  then show ?thesis by (simp add: Parse_def Lex_checked_total include_lex[OF assms])
qed

lemma include_path_text:
  assumes "list_all plain_char path"
  shows "PathText (include_tokens path) (Some include_node) = path"
proof -
  have "dropWhile is_quote (path @ [DQUOTE]) = path @ [DQUOTE]" if "path \<noteq> []"
    using assms that by (cases path) (auto simp: is_quote_def plain_char_def)
  moreover have "dropWhile is_quote (rev path) = rev path"
    using assms by (cases path rule: rev_cases) (auto simp: is_quote_def plain_char_def)
  ultimately show ?thesis
    by (cases "path = []") (simp_all add: PathText_def include_node_def include_tokens_def trim_quotes_def is_quote_def)
qed

section \<open>The characters of a relative path\<close>

lemma set_join_member: "w \<in> set ws \<Longrightarrow> set w \<subseteq> set (join_with sep ws)"
  by (induction sep ws rule: join_with.induct) auto

lemma set_join: "set (join_with sep ws) \<subseteq> set sep \<union> \<Union> (set ` set ws)"
  by (induction sep ws rule: join_with.induct) auto

lemma Rel_plain:
  assumes "rooted base" "rooted targ" "Clean targ = targ" "filepath_Rel base targ = Some rel" "list_all plain_char targ"
  shows "list_all plain_char rel"
proof -
  have dot: "plain_char CHR ''.''" "plain_char CHR ''/''" by (simp_all add: plain_char_def byte_def)
  show ?thesis
  proof (cases "Clean targ = Clean base")
    case True
    then show ?thesis using Rel_same[OF True assms(4)] dot by simp
  next
    case False
    obtain bs ts where s: "strip_common (clean_elements base) (clean_elements targ) = (bs, ts)" by fastforce
    obtain c where c: "clean_elements targ = c @ ts" using strip_common_split[OF s] by blast
    have "set w \<subseteq> set targ" if "w \<in> set ts" for w
      using set_join_member[of w "clean_elements targ" "''/''"] that c Clean_rooted[OF assms(2)] assms(3) by auto
    then have "\<Union> (set ` set (replicate (length bs) ''..'' @ ts)) \<subseteq> {CHR ''.''} \<union> set targ" by auto
    then have "set rel \<subseteq> {CHR ''/'', CHR ''.''} \<union> set targ"
      using set_join[of "''/''" "replicate (length bs) ''..'' @ ts"] Rel_elements[OF assms(1,2) False s assms(4)] by auto
    then show ?thesis using assms(5) dot by (auto simp: list_all_iff)
  qed
qed

section \<open>The include that the fixer adds\<close>

lemma fold_candidates_first:
  "\<exists>cs. fold (\<lambda>ip. add_candidate r (path_Join ip inc)) ips (c # ds) = c # cs"
proof (induction ips arbitrary: ds)
  case (Cons ip ips)
  have "\<exists>ds'. add_candidate r (path_Join ip inc) (c # ds) = c # ds'" by (simp add: add_candidate_def)
  then show ?case using Cons by auto
qed simp

lemma Resolve_here:
  assumes "rvExists r (path_Join (path_Dir f) inc)"
  shows "Resolve r f inc = path_Join (path_Dir f) inc"
  using assms fold_candidates_first[of r inc _ "path_Join (path_Dir f) inc" "[]"]
  by (auto simp: Resolve_def Candidates_def add_candidate_def[of r "path_Join (path_Dir f) inc" "[]"] containsPath_def Let_def) (metis list.simps(5))

text \<open>What is documented of the URIs of files on a Unix system, with clean paths.\<close>

definition uri_ok :: "uri_api \<Rightarrow> uri \<Rightarrow> bool" where
  "uri_ok api u \<longleftrightarrow> rooted (urPath api u) \<and> urFsPath api u = urPath api u \<and> Clean (urPath api u) = urPath api u \<and> urFile api (urPath api u) = u"

lemma path_Dir_clean: "rooted p \<Longrightarrow> \<exists>d. rooted d \<and> path_Dir p = Clean d"
proof -
  assume p: "rooted p"
  then obtain q where q: "p = SLASH # q" by (cases p) (auto simp: rooted_def HasPrefix_def split: if_splits)
  then obtain a b where c: "cut_last SLASH p = Some (a, b)" by (auto simp: cut_last_def Let_def)
  have "rooted (a @ ''/'')"
  proof (cases a)
    case (Cons x xs)
    have "a = take (length a) p" using c by (auto simp: cut_last_def Let_def split: if_splits)
    then have "x = SLASH" using Cons q by (metis list.sel(1) list.size(4) nat.distinct(1) take_Suc_Cons length_Cons)
    then show ?thesis using Cons by simp
  qed simp
  then show ?thesis using c by (auto simp: path_Dir_def)
qed

lemma path_Dir_rooted: "rooted p \<Longrightarrow> rooted (path_Dir p) \<and> Clean (path_Dir p) = path_Dir p"
  using path_Dir_clean[of p] Clean_Clean by (auto simp: Clean_rooted)

lemma Resolve_Rel:
  assumes "rooted f" "rooted p" "Clean p = p" "filepath_Rel (path_Dir f) p = Some rel" "rvExists r p"
  shows "Resolve r f rel = p"
proof -
  have "path_Join (path_Dir f) rel = p" using Rel_Join[of "path_Dir f" p rel] path_Dir_rooted[OF assms(1)] assms by simp
  then show ?thesis using Resolve_here[of r f rel] assms(5) by simp
qed

definition defined_in :: "Env \<Rightarrow> bytes \<Rightarrow> Resolved \<Rightarrow> bool" where
  "defined_in env name def \<longleftrightarrow>
     read_file env (rsFile def) = Some (rsParsed def) \<and>
     (\<exists>defs. Definitions (rsParsed def) = Some defs \<and> defs (snd (splitQualifiedName name)) = Some (rsNode def)) \<and>
     (fst (splitQualifiedName name) = [] \<or> IncludeNameOf (evApi env) (rsFile def) = fst (splitQualifiedName name))"

lemma DefFromNode_fields: "DefFromNode sc n = Some def \<Longrightarrow> rsFile def = fst sc \<and> rsParsed def = snd sc \<and> rsNode def = n"
  by (cases n) (auto simp: defFrom_def defStruct_def)

lemma find_definition_read:
  "view_good env v \<Longrightarrow> find_definition env inc i us v = Some (r, v') \<Longrightarrow>
   view_good env v' \<and> (\<forall>def. r = Some def \<longrightarrow> read_file env (rsFile def) = Some (rsParsed def) \<and>
     (\<exists>defs. Definitions (rsParsed def) = Some defs \<and> defs i = Some (rsNode def)) \<and> (inc = [] \<or> IncludeNameOf (evApi env) (rsFile def) = inc))"
proof (induction us arbitrary: v)
  case (Cons u us)
  show ?case
  proof (cases "inc \<noteq> [] \<and> IncludeNameOf (evApi env) u \<noteq> inc")
    case True
    then show ?thesis using Cons by simp
  next
    case hit: False
    obtain pf w where p: "env_parse env u v = (pf, w)" by fastforce
    note g = env_parse_good[OF Cons.prems(1) p]
    show ?thesis
    proof (cases pf)
      case None
      then show ?thesis using Cons.IH[OF g(2)] Cons.prems(2) hit p by (simp split: if_splits)
    next
      case (Some f)
      then obtain defs where d: "Definitions f = Some defs" using Cons.prems(2) hit p by (cases "Definitions f") (auto split: if_splits)
      show ?thesis
      proof (cases "defs i")
        case None
        then show ?thesis using Cons.IH[OF g(2)] Cons.prems(2) hit p Some d by (simp split: if_splits)
      next
        case n: (Some n)
        then obtain def where def: "DefFromNode (u, f) n = Some def" "r = Some def" "v' = w"
          using Cons.prems(2) hit p Some d by (cases "DefFromNode (u, f) n") (auto split: if_splits)
        then show ?thesis using DefFromNode_fields[OF def(1)] g d Some n hit by auto
      qed
    qed
  qed
qed simp

lemma FindInWorkspace_read:
  assumes "view_good env v" "FindInWorkspace env name v = Some (r, v')"
  shows "view_good env v' \<and> (\<forall>def. r = Some def \<longrightarrow> defined_in env name def)"
proof -
  obtain inc i where q: "splitQualifiedName name = (inc, i)" by fastforce
  then obtain r1 v1 where f: "find_definition env inc i (KnownFiles v) v = Some (r1, v1)"
    using assms(2) by (cases "find_definition env inc i (KnownFiles v) v") (auto simp: FindInWorkspace_def)
  note g = find_definition_read[OF assms(1) f]
  show ?thesis
  proof (cases r1)
    case None
    then show ?thesis using assms(2) g find_definition_read[of env v1 inc i _ r v']
      by (auto simp: FindInWorkspace_def q f Let_def defined_in_def split: if_splits)
  next
    case (Some def)
    then show ?thesis using assms(2) g by (auto simp: FindInWorkspace_def q f defined_in_def)
  qed
qed

text \<open>What is documented of \<open>strconv.Quote\<close>: it puts a text without special characters in double quotes.\<close>

definition quotes_plain :: "(bytes \<Rightarrow> bytes) \<Rightarrow> bool" where
  "quotes_plain quote \<longleftrightarrow> (\<forall>s. list_all plain_char s \<longrightarrow> quote s = DQUOTE # s @ [DQUOTE])"

text \<open>
  C10: The include that the fixer of undefined types adds is the right one. With URIs of files
  that are clean rooted paths of printable ASCII characters without quotes and backslashes, each
  fix inserts one text, behind the last include of the file or at its top. This text is read
  without errors as one include statement and nothing else, and the path that the parser finds
  in it resolves from the file to another file that can be read, which has a definition of the
  undefined name (and, if the name is qualified, the name of its include). Paths with other
  characters are quoted with escapes, which the parser does not undo.
\<close>

theorem AddIncludeFixer_resolves:
  assumes "index_good env ix" "uri_ok (evApi env) (fst sc)" "quotes_plain (evQuote env)"
    and "\<And>u pf. read_file env u = Some pf \<Longrightarrow> uri_ok (evApi env) u \<and> list_all plain_char (urPath (evApi env) u)"
    and "AddIncludeFixer env sc d ix = Some (fixes, ix')" "fx \<in> set fixes"
  shows "\<exists>name def pos text doc inc. undefinedTypeName (snd sc) (diSpan d) = Some name \<and> defined_in env name def \<and> rsFile def \<noteq> fst sc \<and>
     insert_position (snd sc) = Some pos \<and> fxEdits fx = [\<lparr>eiSpan = \<lparr>spStart = pos, spEnd = pos\<rparr>, eiNewText = text\<rparr>] \<and>
     Parse text = Some (doc, []) \<and> docNodes doc = [N_Include inc] \<and>
     env_resolve env (fst sc) (PathText (docTokens doc) (Some inc)) = rsFile def"
proof -
  let ?api = "evApi env"
  obtain name where n: "undefinedTypeName (snd sc) (diSpan d) = Some name" "name \<noteq> []" "diCode d = CodeUndefinedType" "pfErrs (snd sc) = []"
    using assms(5,6) unfolding AddIncludeFixer_def by (auto split: if_splits simp: bind_eq_Some_conv)
  then obtain r v where r: "FindInWorkspace env name (isView ix) = Some (r, v)"
    using assms(5) unfolding AddIncludeFixer_def by (auto simp: bind_eq_Some_conv)
  then obtain def where def: "r = Some def" using assms(5,6) n unfolding AddIncludeFixer_def by (cases r) auto
  have d: "defined_in env name def" using FindInWorkspace_read[OF _ r] assms(1) def by (simp add: index_good_def)
  obtain rel pos where f: "rsFile def \<noteq> fst sc" "filepath_Rel (path_Dir (urPath ?api (fst sc))) (urPath ?api (rsFile def)) = Some rel"
    "insert_position (snd sc) = Some pos" "fx = include_fix env rel pos"
    using assms(5,6) n r def unfolding AddIncludeFixer_def by (auto simp: Let_def split: if_splits option.splits)
  have u: "uri_ok ?api (rsFile def)" "list_all plain_char (urPath ?api (rsFile def))" using d assms(4) by (auto simp: defined_in_def)
  have "rvExists (newResolver ?api (evIncludePaths env) (env_files env)) (urPath ?api (rsFile def))"
    using d u(1) by (auto simp: newResolver_def uri_ok_def defined_in_def read_file_def bind_eq_Some_conv)
  from Resolve_Rel[OF _ _ _ f(2) this] have res: "env_resolve env (fst sc) rel = rsFile def"
    using assms(2) u(1) by (simp add: env_resolve_def env_resolver_def ResolveInclude_def uri_ok_def)
  have p: "list_all plain_char rel"
    using Rel_plain[OF _ _ _ f(2) u(2)] path_Dir_rooted assms(2) u(1) by (simp add: uri_ok_def)
  then have "fxEdits fx = [\<lparr>eiSpan = \<lparr>spStart = pos, spEnd = pos\<rparr>, eiNewText = include_text rel\<rparr>]"
    using assms(3) by (simp add: f(4) include_fix_def include_text_def quotes_plain_def)
  then show ?thesis using n(1) d f(1,3) res include_parse_text[OF p] include_path_text[OF p]
    by (intro exI[of _ name] exI[of _ def] exI[of _ pos] exI[of _ "include_text rel"] exI conjI) (assumption | simp)+
qed

definition missing_env :: Env where
  "missing_env = demo_env\<lparr>evQuote := (\<lambda>s. DQUOTE # s @ [DQUOTE]), evSource := NewOverlayFS (fmap_of_list
     [(''/d/e/a'', ''struct S{1:T x}''), (''/d/b.thrift'', ''struct T{}'')]), evFolder := ''/d''\<rparr>"

definition missing_type :: Diagnostic where
  "missing_type = diagnostic CodeUndefinedType DiagError (Sprintf ''field type doesn't exist'' [])
     \<lparr>spStart = \<lparr>poLine = 1, poCol = 12, poOffset = 11\<rparr>, spEnd = \<lparr>poLine = 1, poCol = 13, poOffset = 12\<rparr>\<rparr>"

lemma missing_fix:
  "map_option (\<lambda>pf. map_option (\<lambda>(fs, ix). map (map eiNewText \<circ> fxEdits) fs)
       (AddIncludeFixer missing_env (''/d/e/a'', pf) missing_type (NewIndex NewView))) (read_file missing_env ''/d/e/a'') =
     Some (Some [[''include '' @ [DQUOTE] @ ''../b.thrift'' @ [DQUOTE, LF]]])"
  by code_simp

lemma missing_uri_ok: "read_file missing_env u = Some pf \<Longrightarrow> uri_ok plain_uris u \<and> list_all plain_char (urPath plain_uris u)"
proof -
  assume "read_file missing_env u = Some pf"
  then have "u |\<in>| fmdom (contents (evSource missing_env))" by (rule read_file_dom)
  then have "u = ''/d/e/a'' \<or> u = ''/d/b.thrift''" by (auto simp: missing_env_def contents_def NewOverlayFS_def)
  moreover have "uri_ok plain_uris ''/d/e/a''" "uri_ok plain_uris ''/d/b.thrift''" by code_simp+
  moreover have "list_all plain_char (urPath plain_uris ''/d/e/a'')" "list_all plain_char (urPath plain_uris ''/d/b.thrift'')" by code_simp+
  ultimately show ?thesis by blast
qed

lemma AddIncludeFixer_resolves_witness:
  "\<exists>pf fx ix' text doc inc. read_file missing_env ''/d/e/a'' = Some pf \<and>
     AddIncludeFixer missing_env (''/d/e/a'', pf) missing_type (NewIndex NewView) = Some ([fx], ix') \<and>
     map eiNewText (fxEdits fx) = [text] \<and> text = ''include '' @ [DQUOTE] @ ''../b.thrift'' @ [DQUOTE, LF] \<and>
     Parse text = Some (doc, []) \<and> docNodes doc = [N_Include inc] \<and>
     env_resolve missing_env ''/d/e/a'' (PathText (docTokens doc) (Some inc)) \<noteq> ''/d/e/a''"
proof -
  have api: "evApi missing_env = plain_uris" "quotes_plain (evQuote missing_env)"
    by (simp_all add: missing_env_def demo_env_def quotes_plain_def)
  obtain pf where pf: "read_file missing_env ''/d/e/a'' = Some pf" using missing_fix by fastforce
  obtain fx ix' where r: "AddIncludeFixer missing_env (''/d/e/a'', pf) missing_type (NewIndex NewView) = Some ([fx], ix')"
    "map eiNewText (fxEdits fx) = [''include '' @ [DQUOTE] @ ''../b.thrift'' @ [DQUOTE, LF]]" using missing_fix pf by auto
  have u: "uri_ok (evApi missing_env) (fst (''/d/e/a'', pf))" using missing_uri_ok[OF pf] api by simp
  from AddIncludeFixer_resolves[OF index_good_new[OF view_good_new] u api(2) _ r(1), of fx] missing_uri_ok
  obtain def :: Resolved and stmt doc inc pos where d: "rsFile def \<noteq> ''/d/e/a''" "fxEdits fx = [\<lparr>eiSpan = \<lparr>spStart = pos, spEnd = pos\<rparr>, eiNewText = stmt\<rparr>]"
    "Parse stmt = Some (doc, [])" "docNodes doc = [N_Include inc]"
    "env_resolve missing_env ''/d/e/a'' (PathText (docTokens doc) (Some inc)) = rsFile def"
    unfolding api by auto
  then show ?thesis using pf r by auto
qed

end
