(* ===== verification/Requests.thy ===== *)
theory Requests imports Mapper SemaRefs
begin

text \<open>
  What the request handlers of the language server share: \<open>lsp/source/target.go\<close>. A handler
  works on an index over the view of its request, and returns a value or an error; \<open>None\<close> is
  a panic. The operators stand for the calls and early returns of the code: \<open>and_then\<close> is
  \<open>if err != nil { return err }\<close>.
\<close>

section \<open>Handlers\<close>

datatype lsp_error = Unreadable_file uri | Bad_position mapper_error | No_node_at_position
  | Rename_basic_type | Rename_unsupported | Not_parseable | Format_failed

type_synonym 'a request = "Index \<Rightarrow> ((lsp_error + 'a) \<times> Index) option"

definition answer :: "'a \<Rightarrow> 'a request" where
  "answer x ix = Some (Inr x, ix)"

definition refuse :: "lsp_error \<Rightarrow> 'a request" where
  "refuse e ix = Some (Inl e, ix)"

definition and_then :: "'a request \<Rightarrow> ('a \<Rightarrow> 'b request) \<Rightarrow> 'b request" where
  "and_then m f ix =
     (case m ix of
        None \<Rightarrow> None
      | Some (Inl e, ix) \<Rightarrow> Some (Inl e, ix)
      | Some (Inr x, ix) \<Rightarrow> f x ix)"

text \<open>A value that does not depend on the index, whose computation may panic.\<close>

definition lifted :: "'a option \<Rightarrow> 'a request" where
  "lifted r ix = map_option (\<lambda>x. (Inr x, ix)) r"

definition checked :: "(lsp_error + 'a) option \<Rightarrow> 'a request" where
  "checked r ix = map_option (\<lambda>x. (x, ix)) r"

text \<open>An operation of the index, and a parse through its view.\<close>

definition indexed :: "(Index \<Rightarrow> ('a \<times> Index) option) \<Rightarrow> 'a request" where
  "indexed m ix = map_option (\<lambda>(x, ix). (Inr x, ix)) (m ix)"

definition parse_try :: "Env \<Rightarrow> uri \<Rightarrow> ParsedFile option request" where
  "parse_try env u ix = (let (pf, v) = env_parse env u (isView ix) in Some (Inr pf, ix\<lparr>isView := v\<rparr>))"

definition parsing :: "Env \<Rightarrow> uri \<Rightarrow> ParsedFile request" where
  "parsing env u = and_then (parse_try env u) (\<lambda>pf. case pf of None \<Rightarrow> refuse (Unreadable_file u) | Some pf \<Rightarrow> answer pf)"

fun each_request :: "('x \<Rightarrow> 'y request) \<Rightarrow> 'x list \<Rightarrow> 'y list request" where
  "each_request f [] = answer []"
| "each_request f (x # xs) = and_then (f x) (\<lambda>y. and_then (each_request f xs) (\<lambda>ys. answer (y # ys)))"

text \<open>A request on the current view starts with a fresh index over it.\<close>

definition serve :: "'a request \<Rightarrow> View \<Rightarrow> ((lsp_error + 'a) \<times> View) option" where
  "serve m v = map_option (\<lambda>(r, ix). (r, isView ix)) (m (NewIndex v))"

section \<open>Positions and locations\<close>

record Location =
  loURI :: uri
  loRange :: LspRange

definition zero_range :: LspRange where
  "zero_range = \<lparr>lrStart = \<lparr>lpLine = 0, lpCharacter = 0\<rparr>, lrEnd = \<lparr>lpLine = 0, lpCharacter = 0\<rparr>\<rparr>"

abbreviation file_mapper :: "ParsedFile \<Rightarrow> Mapper" where
  "file_mapper pf \<equiv> NewMapper (pfContent pf)"

definition toLSPPosition :: "ParsedFile \<Rightarrow> Position \<Rightarrow> LspPosition" where
  "toLSPPosition pf pos =
     (case OffsetToLSPPosition (file_mapper pf) (int (poOffset pos)) of
        Inl err \<Rightarrow> \<lparr>lpLine = word_of_int (int (poLine pos) - 1), lpCharacter = word_of_int (int (poCol pos) - 1)\<rparr>
      | Inr p \<Rightarrow> p)"

definition toLSPRange :: "ParsedFile \<Rightarrow> Position \<Rightarrow> Position \<Rightarrow> LspRange" where
  "toLSPRange pf start stop = \<lparr>lrStart = toLSPPosition pf start, lrEnd = toLSPPosition pf stop\<rparr>"

definition nodeRange :: "ParsedFile \<Rightarrow> AnyNode \<Rightarrow> LspRange option" where
  "nodeRange pf n = map_option (\<lambda>(s, e). toLSPRange pf s e) (Range (pfAst pf) n)"

text \<open>A token pointer is an index of the stream or nil.\<close>

definition tokenRange :: "ParsedFile \<Rightarrow> nat option \<Rightarrow> LspRange" where
  "tokenRange pf t =
     (case t of
        None \<Rightarrow> zero_range
      | Some i \<Rightarrow>
          (let tok = docTokens (pfAst pf) ! i in
           toLSPRange pf \<lparr>poLine = tkLine tok, poCol = tkCol tok, poOffset = tkOffset tok\<rparr>
             \<lparr>poLine = tkLine tok, poCol = tkCol tok + rune_count (tkText tok), poOffset = tkOffset tok + length (tkText tok)\<rparr>))"

definition jump :: "uri \<Rightarrow> ParsedFile \<Rightarrow> Node \<Rightarrow> Location option" where
  "jump u pf n = map_option (\<lambda>r. \<lparr>loURI = u, loRange = r\<rparr>) (nodeRange pf (A_Node n))"

text \<open>The node is the name of a definition, whose dereference may panic.\<close>

definition jumpInFile :: "Env \<Rightarrow> uri \<Rightarrow> Identifier option \<Rightarrow> Location request" where
  "jumpInFile env u name =
     and_then (parsing env u) (\<lambda>pf. lifted (Option.bind name (\<lambda>i. jump u pf (N_Identifier i))))"

section \<open>The target of a request\<close>

datatype TargetKind = TargetNone | TargetTypeName | TargetConstValue | TargetService | TargetDefinition

record target =
  tgPath :: "AnyNode list"
  tgNode :: AnyNode
  tgParent :: "AnyNode option"
  tgKind :: TargetKind

definition classify :: "AnyNode \<Rightarrow> AnyNode option \<Rightarrow> TargetKind" where
  "classify n parent =
     (case n of
        A_Node (N_Identifier i) \<Rightarrow>
          (case parent of
             Some (A_Node (N_FieldType ft)) \<Rightarrow> TargetTypeName
           | Some (A_Node (N_StructuredAnnotation sa)) \<Rightarrow> TargetTypeName
           | Some (A_Node (N_Service sv)) \<Rightarrow> TargetService
           | _ \<Rightarrow> TargetDefinition)
      | A_Node (N_ConstValue v) \<Rightarrow> if cvKind v = ValueIdent then TargetConstValue else TargetNone
      | _ \<Rightarrow> TargetNone)"

definition path_target :: "AnyNode list \<Rightarrow> target" where
  "path_target path =
     (let node = last path; parent = (if length path > 1 then Some (last (butlast path)) else None) in
      \<lparr>tgPath = path, tgNode = node, tgParent = parent, tgKind = classify node parent\<rparr>)"

definition target_in :: "ParsedFile \<Rightarrow> LspPosition \<Rightarrow> (lsp_error + target) option" where
  "target_in pf pos =
     (case LSPPosToParserPosition (file_mapper pf) pos of
        Inl err \<Rightarrow> Some (Inl (Bad_position err))
      | Inr astPos \<Rightarrow>
          map_option (\<lambda>path. if path = [] then Inl No_node_at_position else Inr (path_target path))
            (SearchNodePathByPosition (pfAst pf) astPos))"

definition resolveTarget :: "Env \<Rightarrow> uri \<Rightarrow> LspPosition \<Rightarrow> (ParsedFile \<times> target) request" where
  "resolveTarget env u pos =
     and_then (parsing env u) (\<lambda>pf. and_then (checked (target_in pf pos)) (\<lambda>t. answer (pf, t)))"

definition target_fieldType :: "target \<Rightarrow> FieldType option" where
  "target_fieldType t =
     (case tgParent t of
        Some (A_Node (N_FieldType ft)) \<Rightarrow> Some ft
      | Some (A_Node (N_StructuredAnnotation sa)) \<Rightarrow>
          (case saName sa of
             None \<Rightarrow> None
           | Some i \<Rightarrow> Some (FieldType \<lparr>nbFirst = 0, nbLast = 0\<rparr> TypeIdent TokenInvalid (Some i) None None None None))
      | _ \<Rightarrow> None)"

definition target_identifier :: "target \<Rightarrow> Identifier option" where
  "target_identifier t = (case tgNode t of A_Node (N_Identifier i) \<Rightarrow> Some i | _ \<Rightarrow> None)"

definition target_value :: "target \<Rightarrow> ConstValue option" where
  "target_value t = (case tgNode t of A_Node (N_ConstValue v) \<Rightarrow> Some v | _ \<Rightarrow> None)"

end
