(* ===== verification/Navigation.thy ===== *)
theory Navigation imports Requests
begin

text \<open>
  The requests that follow a reference or list what a file holds: \<open>definition.go\<close>,
  \<open>type_definition.go\<close>, \<open>links.go\<close>, \<open>report.go\<close>, \<open>document.go\<close> and \<open>workspace.go\<close> under
  \<open>lsp/source/\<close>.
\<close>

section \<open>Definitions\<close>

text \<open>The common end: no location for no definition, else the place of its name.\<close>

definition located :: "Env \<Rightarrow> Resolved option \<Rightarrow> Location list request" where
  "located env def =
     (case def of
        None \<Rightarrow> answer []
      | Some d \<Rightarrow> and_then (jumpInFile env (rsFile d) (rsName d)) (\<lambda>loc. answer [loc]))"

definition typeNameDefinition :: "Env \<Rightarrow> scope \<Rightarrow> target \<Rightarrow> Location list request" where
  "typeNameDefinition env sc t =
     (case target_fieldType t of
        None \<Rightarrow> answer []
      | Some ft \<Rightarrow> and_then (indexed (ResolveType env sc (Some ft))) (located env))"

text \<open>The type assertion of the value panics on other nodes.\<close>

definition constValueDefinition :: "Env \<Rightarrow> scope \<Rightarrow> target \<Rightarrow> Location list request" where
  "constValueDefinition env sc t =
     and_then (lifted (target_value t)) (\<lambda>v. and_then (indexed (ResolveValue env sc (Some v))) (located env))"

definition serviceDefinition :: "Env \<Rightarrow> scope \<Rightarrow> target \<Rightarrow> Location list request" where
  "serviceDefinition env sc t = and_then (indexed (ResolveService env sc (target_identifier t))) (located env)"

definition Definition :: "Env \<Rightarrow> uri \<Rightarrow> LspPosition \<Rightarrow> Location list request" where
  "Definition env u pos = and_then (resolveTarget env u pos) (\<lambda>(pf, t).
     (case tgKind t of
        TargetTypeName \<Rightarrow> typeNameDefinition env (u, pf) t
      | TargetConstValue \<Rightarrow> constValueDefinition env (u, pf) t
      | TargetService \<Rightarrow> serviceDefinition env (u, pf) t
      | _ \<Rightarrow> answer []))"

definition declared_type :: "AnyNode option \<Rightarrow> FieldType option" where
  "declared_type parent =
     (case parent of
        Some (A_Node (N_Field f)) \<Rightarrow> fiType f
      | Some (A_Node (N_Typedef td)) \<Rightarrow> tdType td
      | Some (A_Node (N_Function f)) \<Rightarrow> fnType f
      | Some (A_Node (N_Const c)) \<Rightarrow> coType c
      | _ \<Rightarrow> None)"

definition declarationTypeDefinition :: "Env \<Rightarrow> scope \<Rightarrow> target \<Rightarrow> Location list request" where
  "declarationTypeDefinition env sc t =
     (case declared_type (tgParent t) of
        None \<Rightarrow> answer []
      | Some ft \<Rightarrow> and_then (indexed (ResolveType env sc (Some ft))) (located env))"

definition TypeDefinition :: "Env \<Rightarrow> uri \<Rightarrow> LspPosition \<Rightarrow> Location list request" where
  "TypeDefinition env u pos = and_then (resolveTarget env u pos) (\<lambda>(pf, t).
     (case tgKind t of
        TargetTypeName \<Rightarrow> typeNameDefinition env (u, pf) t
      | TargetConstValue \<Rightarrow> constValueDefinition env (u, pf) t
      | TargetDefinition \<Rightarrow> declarationTypeDefinition env (u, pf) t
      | _ \<Rightarrow> answer []))"

section \<open>Links\<close>

record DocumentLink =
  dlRange :: LspRange
  dlTarget :: uri

definition link_to :: "Env \<Rightarrow> scope \<Rightarrow> nat option \<Rightarrow> DocumentLink list" where
  "link_to env sc path =
     (case path of
        None \<Rightarrow> []
      | Some i \<Rightarrow>
          (let text = trim_quotes (tkText (docTokens (pfAst (snd sc)) ! i)) in
           if text = [] then []
           else [\<lparr>dlRange = tokenRange (snd sc) (Some i), dlTarget = env_resolve env (fst sc) text\<rparr>]))"

definition Links :: "Env \<Rightarrow> uri \<Rightarrow> DocumentLink list request" where
  "Links env u = and_then (parse_try env u) (\<lambda>pf.
     (case pf of
        None \<Rightarrow> answer []
      | Some pf \<Rightarrow> answer
          (concat (map (\<lambda>i. link_to env (u, pf) (incPath i)) (Includes (pfAst pf))) @
           concat (map (\<lambda>i. link_to env (u, pf) (cppPath i)) (CPPIncludes (pfAst pf))))))"

section \<open>Diagnostics of the protocol\<close>

record ProtocolDiagnostic =
  pdRange :: LspRange
  pdSeverity :: DiagSeverity
  pdCode :: bytes
  pdSource :: bytes
  pdMessage :: message

definition protocol_diagnostic :: "ParsedFile \<Rightarrow> Diagnostic \<Rightarrow> ProtocolDiagnostic" where
  "protocol_diagnostic pf d =
     \<lparr>pdRange = toLSPRange pf (spStart (diSpan d)) (spEnd (diSpan d)), pdSeverity = diSeverity d,
      pdCode = diCode d, pdSource = ''thrift-ls'', pdMessage = diMessage d\<rparr>"

definition ToProtocolDiagnostics :: "Env \<Rightarrow> uri \<Rightarrow> Diagnostic list \<Rightarrow> ProtocolDiagnostic list request" where
  "ToProtocolDiagnostics env u ds = and_then (parsing env u) (\<lambda>pf. answer (map (protocol_diagnostic pf) ds))"

section \<open>Symbols of a document\<close>

datatype SymbolKind = SymbolStruct | SymbolInterface | SymbolClass | SymbolEnum | SymbolEnumMember
  | SymbolFunction | SymbolField | SymbolTypeParameter | SymbolConstant

text \<open>Range and selection range are always the same.\<close>

datatype DocumentSymbol = DocumentSymbol
  (dsName: bytes) (dsDetail: "bytes option") (dsKind: SymbolKind) (dsRange: LspRange) (dsChildren: "DocumentSymbol list")

definition nameRange :: "ParsedFile \<Rightarrow> Identifier option \<Rightarrow> LspRange option" where
  "nameRange pf name =
     (case name of None \<Rightarrow> Some zero_range | Some i \<Rightarrow> nodeRange pf (A_Node (N_Identifier i)))"

text \<open>The name is dereferenced for its text.\<close>

definition symbol :: "ParsedFile \<Rightarrow> Identifier option \<Rightarrow> bytes option \<Rightarrow> SymbolKind \<Rightarrow> DocumentSymbol list \<Rightarrow> DocumentSymbol option" where
  "symbol pf name detail skind children = do {
     i \<leftarrow> name;
     r \<leftarrow> nameRange pf name;
     Some (DocumentSymbol (idText i) detail skind r children) }"

definition children_of :: "('x \<Rightarrow> DocumentSymbol option) \<Rightarrow> 'x list \<Rightarrow> DocumentSymbol list option" where
  "children_of f xs = those (map f xs)"

definition fieldSymbol :: "ParsedFile \<Rightarrow> Field \<Rightarrow> DocumentSymbol option" where
  "fieldSymbol pf f = symbol pf (fiName f) None SymbolField []"

definition structSymbol :: "ParsedFile \<Rightarrow> Struct \<Rightarrow> bytes \<Rightarrow> SymbolKind \<Rightarrow> DocumentSymbol option" where
  "structSymbol pf st detail skind =
     Option.bind (children_of (fieldSymbol pf) (stFields st)) (symbol pf (stName st) (Some detail) skind)"

definition enumSymbol :: "ParsedFile \<Rightarrow> Enum \<Rightarrow> DocumentSymbol option" where
  "enumSymbol pf en =
     Option.bind (children_of (\<lambda>v. symbol pf (evName v) None SymbolEnumMember []) (enValues en))
       (symbol pf (enName en) (Some ''Enum'') SymbolEnum)"

definition serviceSymbol :: "ParsedFile \<Rightarrow> Service \<Rightarrow> DocumentSymbol option" where
  "serviceSymbol pf sv =
     Option.bind (children_of (\<lambda>f. symbol pf (fnName f) None SymbolFunction []) (svFunctions sv))
       (symbol pf (svName sv) None SymbolInterface)"

definition typedefSymbol :: "ParsedFile \<Rightarrow> Typedef \<Rightarrow> DocumentSymbol option" where
  "typedefSymbol pf td = symbol pf (tdName td) (Some ''Typedef'') SymbolTypeParameter []"

definition constSymbol :: "ParsedFile \<Rightarrow> Const \<Rightarrow> DocumentSymbol option" where
  "constSymbol pf c = symbol pf (coName c) (Some ''Const'') SymbolConstant []"

text \<open>The inner option is the nil of nodes without a symbol.\<close>

definition nodeSymbol :: "ParsedFile \<Rightarrow> Node \<Rightarrow> DocumentSymbol option option" where
  "nodeSymbol pf n =
     (case n of
        N_Typedef td \<Rightarrow> map_option Some (typedefSymbol pf td)
      | N_Const c \<Rightarrow> map_option Some (constSymbol pf c)
      | N_Struct st \<Rightarrow>
          (if stKind st = StructDecl then map_option Some (structSymbol pf st ''Struct'' SymbolStruct)
           else if stKind st = UnionDecl then map_option Some (structSymbol pf st ''Union'' SymbolInterface)
           else if stKind st = ExceptionDecl then map_option Some (structSymbol pf st ''Exception'' SymbolClass)
           else Some None)
      | N_Enum en \<Rightarrow> map_option Some (enumSymbol pf en)
      | N_Service sv \<Rightarrow> map_option Some (serviceSymbol pf sv)
      | _ \<Rightarrow> Some None)"

definition document_symbols :: "ParsedFile \<Rightarrow> DocumentSymbol list option" where
  "document_symbols pf =
     map_option (\<lambda>rs. concat (map (\<lambda>r. case r of None \<Rightarrow> [] | Some s \<Rightarrow> [s]) rs)) (those (map (nodeSymbol pf) (docNodes (pfAst pf))))"

definition DocumentSymbols :: "Env \<Rightarrow> uri \<Rightarrow> DocumentSymbol list request" where
  "DocumentSymbols env u = and_then (parse_try env u) (\<lambda>pf.
     (case pf of None \<Rightarrow> answer [] | Some pf \<Rightarrow> lifted (document_symbols pf)))"

section \<open>Symbols of a workspace\<close>

record SymbolInformation =
  siName :: bytes
  siKind :: SymbolKind
  siLocation :: Location
  siContainer :: "bytes option"

fun flattenSymbol :: "uri \<Rightarrow> bytes \<Rightarrow> DocumentSymbol \<Rightarrow> SymbolInformation list" where
  "flattenSymbol u container (DocumentSymbol name detail skind rng children) =
     \<lparr>siName = name, siKind = skind, siLocation = \<lparr>loURI = u, loRange = rng\<rparr>,
      siContainer = (if container = [] then None else Some container)\<rparr> #
     concat (map (flattenSymbol u name) children)"

definition documentSymbolsFlat :: "Env \<Rightarrow> uri \<Rightarrow> SymbolInformation list request" where
  "documentSymbolsFlat env u =
     and_then (DocumentSymbols env u) (\<lambda>syms. answer (concat (map (flattenSymbol u []) syms)))"

definition contains_text :: "bytes \<Rightarrow> bytes \<Rightarrow> bool" where
  "contains_text s q \<longleftrightarrow> list_ex (\<lambda>i. take (length q) (drop i s) = q) [0..<length s + 1]"

text \<open>
  \<open>strings.ToLower\<close>, with the case tables of Unicode, is a parameter. The inner loop
  answers the result and whether it is full.
\<close>

fun add_matches :: "(bytes \<Rightarrow> bytes) \<Rightarrow> bytes \<Rightarrow> int \<Rightarrow> SymbolInformation list \<Rightarrow> SymbolInformation list \<Rightarrow> bool \<times> SymbolInformation list" where
  "add_matches lower q maxResults [] res = (False, res)"
| "add_matches lower q maxResults (info # syms) res =
     (if q \<noteq> [] \<and> \<not> contains_text (lower (siName info)) q then add_matches lower q maxResults syms res
      else
        (let res = res @ [info] in
         if maxResults > 0 \<and> int (length res) \<ge> maxResults then (True, res)
         else add_matches lower q maxResults syms res))"

fun workspace_loop :: "(bytes \<Rightarrow> bytes) \<Rightarrow> Env \<Rightarrow> bytes \<Rightarrow> int \<Rightarrow> uri list \<Rightarrow> SymbolInformation list \<Rightarrow> SymbolInformation list request" where
  "workspace_loop lower env q maxResults [] res = answer res"
| "workspace_loop lower env q maxResults (u # us) res =
     and_then (documentSymbolsFlat env u) (\<lambda>syms.
       (let (full, res) = add_matches lower q maxResults syms res in
        if full then answer res else workspace_loop lower env q maxResults us res))"

definition WorkspaceSymbols :: "(bytes \<Rightarrow> bytes) \<Rightarrow> Env \<Rightarrow> uri list \<Rightarrow> bytes \<Rightarrow> int \<Rightarrow> SymbolInformation list request" where
  "WorkspaceSymbols lower env files query maxResults = workspace_loop lower env (lower query) maxResults files []"

end
