(* ===== verification/LspReferences.thy ===== *)
theory LspReferences imports Navigation Actions
begin

text \<open>
  References, highlights and renames: \<open>reference.go\<close>, \<open>rename.go\<close> and \<open>filerename.go\<close> under
  \<open>lsp/source/\<close>.
\<close>

section \<open>Hits\<close>

record indexHit =
  ihLoc :: Location
  ihText :: bytes
  ihKind :: RefKind

definition hitLoc :: "Env \<Rightarrow> Hit \<Rightarrow> Location request" where
  "hitLoc env h = and_then (parsing env (hiFile h)) (\<lambda>pf.
     answer \<lparr>loURI = hiFile h, loRange = toLSPRange pf (spStart (hiSpan h)) (spEnd (hiSpan h))\<rparr>)"

definition hitLocs :: "Env \<Rightarrow> Hit list \<Rightarrow> indexHit list request" where
  "hitLocs env hits = each_request (\<lambda>h. and_then (hitLoc env h) (\<lambda>loc.
     answer \<lparr>ihLoc = loc, ihText = hiText h, ihKind = hiKind h\<rparr>)) hits"

definition references_at :: "Env \<Rightarrow> Resolved \<Rightarrow> RefKind list \<Rightarrow> indexHit list request" where
  "references_at env def kinds = and_then (indexed (ReferencesTo env def kinds)) (hitLocs env)"

text \<open>The definition itself, followed by its references.\<close>

definition definition_and_references :: "Env \<Rightarrow> Resolved option \<Rightarrow> RefKind \<Rightarrow> (Resolved \<Rightarrow> RefKind list) \<Rightarrow> indexHit list request" where
  "definition_and_references env def dkind kinds =
     (case def of
        None \<Rightarrow> answer []
      | Some d \<Rightarrow>
          and_then (jumpInFile env (rsFile d) (rsName d)) (\<lambda>loc.
          and_then (lifted (name_text d)) (\<lambda>text.
          and_then (references_at env d (kinds d)) (\<lambda>refs.
            answer (\<lparr>ihLoc = loc, ihText = text, ihKind = dkind\<rparr> # refs)))))"

definition searchTypeNameRefs :: "Env \<Rightarrow> scope \<Rightarrow> target \<Rightarrow> indexHit list request" where
  "searchTypeNameRefs env sc t =
     (case target_fieldType t of
        None \<Rightarrow> answer []
      | Some ft \<Rightarrow>
          (let typeName = TypeReferenceName (Some ft) in
           if typeName = [] \<or> IsBasicType typeName then answer []
           else and_then (indexed (ResolveType env sc (Some ft))) (\<lambda>def.
             definition_and_references env def RefFieldType (\<lambda>d. RefKindsFor (rsKind d)))))"

definition searchConstValueRefs :: "Env \<Rightarrow> scope \<Rightarrow> target \<Rightarrow> indexHit list request" where
  "searchConstValueRefs env sc t =
     and_then (lifted (target_value t)) (\<lambda>v. and_then (indexed (ResolveValue env sc (Some v))) (\<lambda>def.
       definition_and_references env def RefConstValue (\<lambda>d. [RefConstValue])))"

definition searchServiceRefs :: "Env \<Rightarrow> uri \<Rightarrow> bytes \<Rightarrow> indexHit list request" where
  "searchServiceRefs env u svcName =
     and_then (parsing env u) (\<lambda>pf.
     and_then (indexed (ResolveService env (u, pf) (Some \<lparr>idBase = \<lparr>nbFirst = 0, nbLast = 0\<rparr>, idText = svcName\<rparr>))) (\<lambda>def.
       (case def of
          None \<Rightarrow> answer []
        | Some d \<Rightarrow> references_at env d [RefServiceExtends])))"

definition definitionKindOf :: "Node \<Rightarrow> DefinitionKind option" where
  "definitionKindOf n =
     (case n of
        N_Struct v \<Rightarrow>
          (if stKind v = StructDecl then Some DefinitionStruct
           else if stKind v = UnionDecl then Some DefinitionUnion
           else if stKind v = ExceptionDecl then Some DefinitionException
           else None)
      | N_Enum v \<Rightarrow> Some DefinitionEnum
      | N_Typedef v \<Rightarrow> Some DefinitionTypedef
      | N_Const v \<Rightarrow> Some DefinitionConst
      | N_Service v \<Rightarrow> Some DefinitionService
      | _ \<Rightarrow> None)"

definition validReferenceDefinitionType :: "DefinitionKind set" where
  "validReferenceDefinitionType =
     {DefinitionStruct, DefinitionUnion, DefinitionEnum, DefinitionException, DefinitionTypedef}"

text \<open>The file and the name under which a service is searched.\<close>

definition service_file :: "Env \<Rightarrow> scope \<Rightarrow> bytes \<Rightarrow> uri" where
  "service_file env sc svcName =
     (let (inc, _) = ParseIdent (evApi env) (fst sc) (pfAst (snd sc)) svcName;
          path = GetIncludePath (pfAst (snd sc)) inc in
      if path = [] then fst sc else env_resolve env (fst sc) path)"

definition service_search :: "Env \<Rightarrow> scope \<Rightarrow> bytes \<Rightarrow> uri \<times> bytes" where
  "service_search env sc svcName =
     (if DOT \<in> set svcName then (service_file env sc svcName, svcName)
      else (fst sc, IncludeNameOf (evApi env) (fst sc) @ ''.'' @ svcName))"

definition searchDefRefs :: "Env \<Rightarrow> scope \<Rightarrow> target \<Rightarrow> indexHit list request" where
  "searchDefRefs env sc t =
     (case target_identifier t of
        None \<Rightarrow> answer []
      | Some i \<Rightarrow>
          (case tgParent t of
             Some (A_Node (N_Const c)) \<Rightarrow>
               and_then (lifted (DefFromNode sc (N_Const c))) (\<lambda>d. references_at env d [RefConstValue])
           | Some (A_Node (N_EnumValue ev)) \<Rightarrow>
               and_then (lifted (DefFromNode sc (N_Identifier i))) (\<lambda>d. references_at env d [RefConstValue])
           | Some (A_Node (N_Service sv)) \<Rightarrow>
               (let (u, svcName) = service_search env sc (idText i) in searchServiceRefs env u svcName)
           | Some (A_Node n) \<Rightarrow>
               (case definitionKindOf n of
                  None \<Rightarrow> answer []
                | Some dkind \<Rightarrow>
                    (if dkind \<notin> validReferenceDefinitionType then answer []
                     else and_then (lifted (DefFromNode sc n)) (\<lambda>d.
                       references_at env d (RefKindsFor dkind @ (if dkind = DefinitionEnum then [RefConstValue] else [])))))
           | _ \<Rightarrow> answer []))"

section \<open>References\<close>

text \<open>The target is resolved in the search once more.\<close>

definition searchReferences :: "Env \<Rightarrow> uri \<Rightarrow> LspPosition \<Rightarrow> indexHit list request" where
  "searchReferences env u pos = and_then (resolveTarget env u pos) (\<lambda>(pf, t).
     (case tgKind t of
        TargetTypeName \<Rightarrow> searchTypeNameRefs env (u, pf) t
      | TargetConstValue \<Rightarrow> searchConstValueRefs env (u, pf) t
      | TargetService \<Rightarrow> and_then (lifted (target_identifier t)) (\<lambda>i. searchServiceRefs env u (idText i))
      | TargetDefinition \<Rightarrow> searchDefRefs env (u, pf) t
      | TargetNone \<Rightarrow> answer []))"

definition ReferenceSites :: "Env \<Rightarrow> uri \<Rightarrow> LspPosition \<Rightarrow> Location list request" where
  "ReferenceSites env u pos = and_then (searchReferences env u pos) (\<lambda>refs.
     answer (filter (\<lambda>loc. loURI loc \<noteq> []) (map ihLoc refs)))"

section \<open>Highlights\<close>

datatype HighlightKind = HighlightText | HighlightRead

record DocumentHighlight =
  dhRange :: LspRange
  dhKind :: HighlightKind

definition highlightKind :: "RefKind \<Rightarrow> HighlightKind" where
  "highlightKind k = (if k = RefConstValue then HighlightRead else HighlightText)"

definition add_highlight :: "LspRange \<Rightarrow> HighlightKind \<Rightarrow> DocumentHighlight list \<Rightarrow> DocumentHighlight list" where
  "add_highlight r k out = (if r \<in> set (map dhRange out) then out else out @ [\<lparr>dhRange = r, dhKind = k\<rparr>])"

text \<open>
  \<open>sort.Slice\<close> is not stable; ranges with the same start are left in the order of the
  search. A request that finds its hits is answered in two searches.
\<close>

definition start_key :: "LspRange \<Rightarrow> 32 word \<times> 32 word" where
  "start_key r = (lpLine (lrStart r), lpCharacter (lrStart r))"

definition highlights :: "LspRange option \<Rightarrow> (LspRange \<times> RefKind) list \<Rightarrow> DocumentHighlight list" where
  "highlights own refs =
     (let out = (case own of None \<Rightarrow> [] | Some r \<Rightarrow> add_highlight r HighlightText []);
          out = fold (\<lambda>(r, k). add_highlight r (highlightKind k)) refs out in
      sort_key (\<lambda>h. start_key (dhRange h)) out)"

definition Highlight :: "Env \<Rightarrow> uri \<Rightarrow> LspPosition \<Rightarrow> DocumentHighlight list request" where
  "Highlight env u pos =
     and_then (resolveTarget env u pos) (\<lambda>(pf, t).
     and_then (searchReferences env u pos) (\<lambda>refs.
     and_then (lifted (case target_identifier t of
         None \<Rightarrow> Some None
       | Some i \<Rightarrow> map_option Some (nodeRange pf (A_Node (N_Identifier i))))) (\<lambda>own.
       answer (highlights own (map (\<lambda>h. (loRange (ihLoc h), ihKind h)) (filter (\<lambda>h. loURI (ihLoc h) = u) refs))))))"

section \<open>Renames\<close>

definition rename_basic :: "target \<Rightarrow> bool" where
  "rename_basic t =
     (let ft = target_fieldType t in
      ft = None \<or> TypeReferenceName ft = [] \<or> IsBasicType (TypeReferenceName ft))"

definition PrepareRename :: "Env \<Rightarrow> uri \<Rightarrow> LspPosition \<Rightarrow> LspRange request" where
  "PrepareRename env u pos = and_then (resolveTarget env u pos) (\<lambda>(pf, t).
     (case tgKind t of
        TargetNone \<Rightarrow> refuse Rename_unsupported
      | TargetTypeName \<Rightarrow> if rename_basic t then refuse Rename_basic_type else lifted (nodeRange pf (tgNode t))
      | _ \<Rightarrow> lifted (nodeRange pf (tgNode t))))"

definition renamed_text :: "bytes \<Rightarrow> bytes \<Rightarrow> bytes" where
  "renamed_text newName text = (case cut_last DOT text of None \<Rightarrow> newName | Some (a, b) \<Rightarrow> a @ ''.'' @ newName)"

type_synonym WorkspaceEdit = "uri \<Rightarrow> TextEdit list"

definition convertHitsToWorkspaceEdit :: "indexHit list \<Rightarrow> bytes \<Rightarrow> WorkspaceEdit" where
  "convertHitsToWorkspaceEdit refs newName u =
     map (\<lambda>h. \<lparr>teRange = loRange (ihLoc h), teNewText = renamed_text newName (ihText h)\<rparr>)
       (filter (\<lambda>h. loURI (ihLoc h) = u) refs)"

text \<open>The hits of a rename, and the file to which the edit at the cursor is attributed.\<close>

definition rename_hits :: "Env \<Rightarrow> scope \<Rightarrow> target \<Rightarrow> (uri \<times> indexHit list) request" where
  "rename_hits env sc t =
     (case tgKind t of
        TargetTypeName \<Rightarrow>
          (if rename_basic t then refuse Rename_basic_type
           else and_then (searchTypeNameRefs env sc t) (\<lambda>refs. answer (fst sc, refs)))
      | TargetConstValue \<Rightarrow> and_then (searchConstValueRefs env sc t) (\<lambda>refs. answer (fst sc, refs))
      | TargetService \<Rightarrow>
          and_then (lifted (target_identifier t)) (\<lambda>i.
            (let (u, svcName) = service_search env sc (idText i) in
             and_then (searchServiceRefs env u svcName) (\<lambda>refs. answer (u, refs))))
      | TargetDefinition \<Rightarrow> and_then (searchDefRefs env sc t) (\<lambda>refs. answer (fst sc, refs))
      | TargetNone \<Rightarrow> refuse Rename_unsupported)"

definition Rename :: "Env \<Rightarrow> uri \<Rightarrow> LspPosition \<Rightarrow> bytes \<Rightarrow> WorkspaceEdit request" where
  "Rename env u pos newName =
     and_then (resolveTarget env u pos) (\<lambda>(pf, t).
     and_then (rename_hits env (u, pf) t) (\<lambda>(u, refs).
     and_then (lifted (nodeRange pf (tgNode t))) (\<lambda>r.
       answer (convertHitsToWorkspaceEdit (refs @ [\<lparr>ihLoc = \<lparr>loURI = u, loRange = r\<rparr>, ihText = [], ihKind = RefFieldType\<rparr>]) newName))))"

section \<open>Renamed files\<close>

definition includerRelative :: "bytes \<Rightarrow> bytes \<Rightarrow> bytes" where
  "includerRelative includerDir newPath =
     (case filepath_Rel includerDir newPath of None \<Rightarrow> path_Base newPath | Some rel \<Rightarrow> rel)"

definition under_root :: "bytes \<Rightarrow> bytes \<Rightarrow> bool" where
  "under_root p root =
     (case filepath_Rel root p of None \<Rightarrow> False | Some rel \<Rightarrow> rel \<noteq> ''..'' \<and> \<not> HasPrefix rel ''../'')"

fun shared_root :: "bytes \<Rightarrow> bytes \<Rightarrow> bytes \<Rightarrow> bytes list \<Rightarrow> bytes" where
  "shared_root oldPath newPath out [] = out"
| "shared_root oldPath newPath out (root # roots) =
     (if \<not> under_root oldPath root \<or> \<not> under_root newPath root then shared_root oldPath newPath out roots
      else (case filepath_Rel root newPath of None \<Rightarrow> out | Some rel \<Rightarrow> rel))"

definition renamedIncludeText :: "bytes \<Rightarrow> bytes \<Rightarrow> bytes \<Rightarrow> bytes \<Rightarrow> bytes list \<Rightarrow> bytes option" where
  "renamedIncludeText literal oldPath newPath includerDir includePaths =
     (if length literal < 2 then None
      else
        (let path = trim_quotes literal; q = hd literal;
             out = shared_root oldPath newPath (includerRelative includerDir newPath) includePaths in
         if out = path then None else Some ([q] @ out @ [q])))"

definition include_edit :: "Env \<Rightarrow> uri \<Rightarrow> uri \<Rightarrow> scope \<Rightarrow> Include \<Rightarrow> TextEdit list" where
  "include_edit env oldURI newURI sc inc =
     (case incPath inc of
        None \<Rightarrow> []
      | Some i \<Rightarrow>
          (if env_resolve env (fst sc) (PathText (docTokens (pfAst (snd sc))) (Some inc)) \<noteq> oldURI then []
           else
             (case renamedIncludeText (tkText (docTokens (pfAst (snd sc)) ! i)) (urFsPath (evApi env) oldURI)
                 (urFsPath (evApi env) newURI) (path_Dir (urFsPath (evApi env) (fst sc))) (evIncludePaths env) of
                None \<Rightarrow> []
              | Some text \<Rightarrow> [\<lparr>teRange = tokenRange (snd sc) (Some i), teNewText = text\<rparr>])))"

definition RenameFileEdits :: "Env \<Rightarrow> uri \<Rightarrow> uri \<Rightarrow> (uri \<times> TextEdit list) list request" where
  "RenameFileEdits env oldURI newURI ix =
     and_then (each_request (\<lambda>f. and_then (parsing env f) (\<lambda>pf.
         answer (f, concat (map (include_edit env oldURI newURI (f, pf)) (Includes (pfAst pf))))))
       (Includers (isView ix) oldURI))
     (\<lambda>res. answer (filter (\<lambda>(f, edits). edits \<noteq> []) res)) ix"

end
