(* ===== verification/BlockDiff.thy ===== *)
theory BlockDiff imports Mapper Slices
begin

text \<open>
  The edits of range formatting: the pure part of \<open>lsp/source/format.go\<close>. A document and
  its formatted text are split into blocks of lines that are not blank, and compared block
  by block.
\<close>

section \<open>Lines\<close>

definition forward_LF :: "bytes \<Rightarrow> nat \<Rightarrow> nat" where
  "forward_LF content offset = offset + length (takeWhile (\<lambda>c. c \<noteq> LF) (drop offset content))"

definition nextLineStart :: "bytes \<Rightarrow> nat \<Rightarrow> nat" where
  "nextLineStart content offset =
     (if LF \<in> set (drop offset content) then forward_LF content offset + 1 else length content)"

definition lineEnd :: "bytes \<Rightarrow> nat \<Rightarrow> nat" where
  "lineEnd content offset =
     (if LF \<in> set (drop offset content) then forward_LF content offset else length content)"

definition lineStart :: "bytes \<Rightarrow> nat \<Rightarrow> nat" where
  "lineStart content offset = length (dropWhile (\<lambda>c. c \<noteq> LF) (rev (take offset content)))"

text \<open>\<open>unicode.IsSpace\<close>, and \<open>len(bytes.TrimSpace(s)) == 0\<close>.\<close>

definition is_space_rune :: "nat \<Rightarrow> bool" where
  "is_space_rune r \<longleftrightarrow> (9 \<le> r \<and> r \<le> 13) \<or> r = 0x20 \<or> r = 0x85 \<or> r = 0xA0 \<or> r = 0x1680 \<or>
     (0x2000 \<le> r \<and> r \<le> 0x200A) \<or> r = 0x2028 \<or> r = 0x2029 \<or> r = 0x202F \<or> r = 0x205F \<or> r = 0x3000"

function blank_text :: "bytes \<Rightarrow> bool" where
  "blank_text s =
     (if s = [] then True
      else if is_space_rune (fst (decode_rune s)) then blank_text (drop (rune_size s) s) else False)"
  by pat_completeness auto
termination
  by (relation "measure length") (auto simp: rune_size_pos')

declare blank_text.simps [simp del]

definition blank_line :: "bytes \<Rightarrow> nat \<Rightarrow> bool" where
  "blank_line content i \<longleftrightarrow> blank_text (Prelude.slice i (lineEnd content i) content)"

lemma nextLineStart_gt: "i < length content \<Longrightarrow> i < nextLineStart content i"
  by (simp add: nextLineStart_def forward_LF_def)

section \<open>Blocks\<close>

text \<open>The loops over lines, from a line start: to the first line with another answer.\<close>

function skip_lines :: "(nat \<Rightarrow> bool) \<Rightarrow> bytes \<Rightarrow> nat \<Rightarrow> nat" where
  "skip_lines p content i = (if i < length content \<and> p i then skip_lines p content (nextLineStart content i) else i)"
  by pat_completeness auto
termination
  by (relation "measure (\<lambda>(p, content, i). length content - i)") (auto intro: diff_less_mono2 nextLineStart_gt)

declare skip_lines.simps [simp del]

lemma skip_lines_ge: "i \<le> skip_lines p content i"
proof (induction p content i rule: skip_lines.induct)
  case (1 p content i)
  then show ?case using nextLineStart_gt[of i content]
    by (cases "i < length content \<and> p i") (auto simp: skip_lines.simps[of p content i])
qed

lemma skip_lines_stop: "i < length content \<Longrightarrow> p i \<Longrightarrow> i < skip_lines p content i"
  using nextLineStart_gt[of i content] skip_lines_ge[of "nextLineStart content i" p content]
  by (subst skip_lines.simps) simp

lemma skip_lines_at: "skip_lines p content i < length content \<Longrightarrow> \<not> p (skip_lines p content i)"
proof (induction p content i rule: skip_lines.induct)
  case (1 p content i)
  then show ?case by (cases "i < length content \<and> p i") (simp_all add: skip_lines.simps[of p content i])
qed

text \<open>A block is given by its start and its end.\<close>

function blocks_from :: "bytes \<Rightarrow> nat \<Rightarrow> (nat \<times> nat) list" where
  "blocks_from content i =
     (let start = skip_lines (blank_line content) content i in
      if start \<ge> length content then []
      else (let stop = skip_lines (\<lambda>j. \<not> blank_line content j) content start in (start, stop) # blocks_from content stop))"
  by pat_completeness auto
termination
proof (relation "measure (\<lambda>(content, i). length content - i)", simp)
  fix content :: bytes and i start stop
  assume s: "start = skip_lines (blank_line content) content i" "\<not> length content \<le> start"
    "stop = skip_lines (\<lambda>j. \<not> blank_line content j) content start"
  then have "\<not> blank_line content start" using skip_lines_at[of "blank_line content" content i] by simp
  then have "start < stop" using s skip_lines_stop[of start content "\<lambda>j. \<not> blank_line content j"] by simp
  then show "((content, stop), content, i) \<in> measure (\<lambda>(content, i). length content - i)"
    using s skip_lines_ge[of i "blank_line content" content] by simp
qed

declare blocks_from.simps [simp del]

definition blocks :: "bytes \<Rightarrow> (nat \<times> nat) list" where
  "blocks content = blocks_from content 0"

section \<open>Edits\<close>

record blockEdit =
  beStart :: nat
  beEnd :: nat
  beText :: bytes

text \<open>One edit for a segment of the old and of the new text that differ.\<close>

definition segment_edit :: "bytes \<Rightarrow> nat \<Rightarrow> nat \<Rightarrow> bytes \<Rightarrow> nat \<Rightarrow> nat \<Rightarrow> blockEdit list" where
  "segment_edit old i j new k l =
     (if Prelude.slice i j old \<noteq> Prelude.slice k l new
      then [\<lparr>beStart = i, beEnd = j, beText = Prelude.slice k l new\<rparr>] else [])"

fun block_edits :: "bytes \<Rightarrow> bytes \<Rightarrow> nat \<Rightarrow> nat \<Rightarrow> ((nat \<times> nat) \<times> nat \<times> nat) list \<Rightarrow> blockEdit list" where
  "block_edits old new prevOld prevNew [] = segment_edit old prevOld (length old) new prevNew (length new)"
| "block_edits old new prevOld prevNew (((i, j), k, l) # bs) =
     segment_edit old prevOld i new prevNew k @ segment_edit old i j new k l @ block_edits old new j l bs"

definition whole_edit :: "bytes \<Rightarrow> bytes \<Rightarrow> blockEdit list" where
  "whole_edit old new = (if old = new then [] else [\<lparr>beStart = 0, beEnd = length old, beText = new\<rparr>])"

definition has_crlf :: "bytes \<Rightarrow> bool" where
  "has_crlf s \<longleftrightarrow> list_ex (\<lambda>i. s ! i = CR \<and> s ! Suc i = LF) [0..<length s - 1]"

definition blockDiff :: "bytes \<Rightarrow> bytes \<Rightarrow> blockEdit list" where
  "blockDiff old new =
     (if has_crlf old then whole_edit old new
      else
        (let oldBlocks = blocks old; newBlocks = blocks new in
         if oldBlocks = [] \<or> length oldBlocks \<noteq> length newBlocks then whole_edit old new
         else block_edits old new 0 0 (zip oldBlocks newBlocks)))"

section \<open>The edits of a selection\<close>

definition touches :: "nat \<Rightarrow> nat \<Rightarrow> blockEdit \<Rightarrow> bool" where
  "touches selStart selEnd be \<longleftrightarrow> \<not> (beEnd be \<le> selStart \<or> beStart be \<ge> selEnd)"

fun text_edits :: "Mapper \<Rightarrow> blockEdit list \<Rightarrow> mapper_error + TextEdit list" where
  "text_edits mp [] = Inr []"
| "text_edits mp (be # bes) =
     (case OffsetToLSPPosition mp (int (beStart be)) of
        Inl err \<Rightarrow> Inl err
      | Inr startPos \<Rightarrow>
          (case OffsetToLSPPosition mp (int (beEnd be)) of
             Inl err \<Rightarrow> Inl err
           | Inr endPos \<Rightarrow>
               (case text_edits mp bes of
                  Inl err \<Rightarrow> Inl err
                | Inr es \<Rightarrow> Inr (\<lparr>teRange = \<lparr>lrStart = startPos, lrEnd = endPos\<rparr>, teNewText = beText be\<rparr> # es))))"

text \<open>\<open>FormatRange\<close> from the formatted text on, which differs from the content.\<close>

definition range_edits :: "bytes \<Rightarrow> bytes \<Rightarrow> LspRange \<Rightarrow> mapper_error + TextEdit list" where
  "range_edits content formatted rng =
     (let mp = NewMapper content in
      case offsetAt mp (lrStart rng) of
        Inl err \<Rightarrow> Inl err
      | Inr start \<Rightarrow>
          (case offsetAt mp (lrEnd rng) of
             Inl err \<Rightarrow> Inl err
           | Inr stop \<Rightarrow>
               (let selStart = lineStart content start; selEnd = nextLineStart content (lineStart content stop) in
                text_edits mp (filter (touches selStart selEnd) (blockDiff content formatted)))))"

text \<open>\<open>FormatDocument\<close> from the formatted text on.\<close>

definition document_edit :: "bytes \<Rightarrow> bytes \<Rightarrow> TextEdit" where
  "document_edit content formatted =
     \<lparr>teRange = \<lparr>lrStart = \<lparr>lpLine = 0, lpCharacter = 0\<rparr>, lrEnd = GetLSPEndPosition (NewMapper content)\<rparr>,
      teNewText = formatted\<rparr>"

end
