(* ===== verification/Formatting.thy ===== *)
theory Formatting imports Format BlockDiff Navigation
begin

text \<open>
  Formatting and hovering: \<open>format.go\<close>, \<open>hover.go\<close> and \<open>utils.go\<close> under \<open>lsp/source/\<close>. The
  width \<open>sw\<close> of strings and the pooled printer \<open>p\<close> are the parameters of the formatter; a
  file handle is a URI and the content it was read with, if it could be.
\<close>

section \<open>Formatting\<close>

type_synonym file_handle = "uri \<times> bytes option"

definition handle_content :: "file_handle \<Rightarrow> bytes request" where
  "handle_content fh = (case snd fh of None \<Rightarrow> refuse (Unreadable_file (fst fh)) | Some c \<Rightarrow> answer c)"

definition formatted_result :: "(format_error + bytes) \<Rightarrow> lsp_error + bytes" where
  "formatted_result r = (case r of Inl e \<Rightarrow> Inl Format_failed | Inr out \<Rightarrow> Inr out)"

definition source_Format :: "(bytes \<Rightarrow> nat) \<Rightarrow> printer \<Rightarrow> Env \<Rightarrow> file_handle \<Rightarrow> FormatOptions \<Rightarrow> bytes request" where
  "source_Format sw p env fh opts = and_then (parsing env (fst fh)) (\<lambda>pf.
     if pfErrs pf \<noteq> [] then refuse Not_parseable
     else checked (map_option formatted_result (Format sw p (Some (pfAst pf)) opts)))"

text \<open>The formatted text, or nothing if there is nothing to do.\<close>

definition format_changes :: "(bytes \<Rightarrow> nat) \<Rightarrow> printer \<Rightarrow> Env \<Rightarrow> file_handle \<Rightarrow> FormatOptions \<Rightarrow> (bytes \<times> bytes) option request" where
  "format_changes sw p env fh opts = and_then (handle_content fh) (\<lambda>content ix.
     (case source_Format sw p env fh opts ix of
        None \<Rightarrow> None
      | Some (Inl e, ix) \<Rightarrow> if e = Not_parseable then answer None ix else refuse e ix
      | Some (Inr formatted, ix) \<Rightarrow> answer (if content = formatted then None else Some (content, formatted)) ix))"

definition FormatDocument :: "(bytes \<Rightarrow> nat) \<Rightarrow> printer \<Rightarrow> Env \<Rightarrow> file_handle \<Rightarrow> FormatOptions \<Rightarrow> TextEdit option request" where
  "FormatDocument sw p env fh opts = and_then (format_changes sw p env fh opts) (\<lambda>r.
     answer (map_option (\<lambda>(content, formatted). document_edit content formatted) r))"

definition mapped :: "mapper_error + 'a \<Rightarrow> 'a request" where
  "mapped r = (case r of Inl e \<Rightarrow> refuse (Bad_position e) | Inr x \<Rightarrow> answer x)"

definition FormatRange :: "(bytes \<Rightarrow> nat) \<Rightarrow> printer \<Rightarrow> Env \<Rightarrow> file_handle \<Rightarrow> FormatOptions \<Rightarrow> LspRange \<Rightarrow> TextEdit list request" where
  "FormatRange sw p env fh opts rng = and_then (format_changes sw p env fh opts) (\<lambda>r.
     (case r of None \<Rightarrow> answer [] | Some (content, formatted) \<Rightarrow> mapped (range_edits content formatted rng)))"

definition before_eq :: "LspPosition \<Rightarrow> LspPosition \<Rightarrow> bool" where
  "before_eq p q \<longleftrightarrow> lpLine p < lpLine q \<or> lpLine p = lpLine q \<and> lpCharacter p \<le> lpCharacter q"

definition rangeContains :: "LspRange \<Rightarrow> LspPosition \<Rightarrow> bool" where
  "rangeContains rng pos \<longleftrightarrow> before_eq (lrStart rng) pos \<and> before_eq pos (lrEnd rng)"

fun enclosing_range :: "ParsedFile \<Rightarrow> LspPosition \<Rightarrow> Node list \<Rightarrow> LspRange option option" where
  "enclosing_range pf pos [] = Some None"
| "enclosing_range pf pos (n # ns) = do {
     rng \<leftarrow> nodeRange pf (A_Node n);
     if rangeContains rng pos then Some (Some rng) else enclosing_range pf pos ns }"

definition enclosingConstruct :: "ParsedFile \<Rightarrow> LspPosition \<Rightarrow> LspRange option option" where
  "enclosingConstruct pf pos = enclosing_range pf pos (docNodes (pfAst pf))"

definition OnTypeFormat :: "(bytes \<Rightarrow> nat) \<Rightarrow> printer \<Rightarrow> Env \<Rightarrow> file_handle \<Rightarrow> FormatOptions \<Rightarrow> LspPosition \<Rightarrow> TextEdit list request" where
  "OnTypeFormat sw p env fh opts pos = and_then (parse_try env (fst fh)) (\<lambda>pf.
     (case pf of
        None \<Rightarrow> answer []
      | Some pf \<Rightarrow> and_then (lifted (enclosingConstruct pf pos)) (\<lambda>rng.
          (case rng of None \<Rightarrow> answer [] | Some rng \<Rightarrow> FormatRange sw p env fh opts rng))))"

section \<open>Hovering\<close>

definition definitionMatches :: "Node \<Rightarrow> DefinitionKind \<Rightarrow> bool" where
  "definitionMatches n dkind \<longleftrightarrow>
     (case n of
        N_Struct v \<Rightarrow>
          (if stKind v = UnionDecl then dkind = DefinitionUnion
           else if stKind v = ExceptionDecl then dkind = DefinitionException
           else dkind = DefinitionStruct)
      | N_Enum v \<Rightarrow> dkind = DefinitionEnum
      | N_Typedef v \<Rightarrow> dkind = DefinitionTypedef
      | _ \<Rightarrow> False)"

text \<open>Identifiers of one tree that are equal are the same: their tokens are.\<close>

definition enumOfValue :: "ParsedFile \<Rightarrow> bytes \<Rightarrow> Enum option option" where
  "enumOfValue pf name = map_option (\<lambda>values.
     (case values name of
        None \<Rightarrow> None
      | Some i \<Rightarrow> find (\<lambda>en. list_ex (\<lambda>v. evName v = Some i) (enValues en)) (Enums (pfAst pf)))) (EnumValues pf)"

definition formatNode :: "(bytes \<Rightarrow> nat) \<Rightarrow> printer \<Rightarrow> ParsedFile \<Rightarrow> Node \<Rightarrow> bytes request" where
  "formatNode sw p pf n = checked (map_option formatted_result (FormatNode sw p (Some (pfAst pf)) (Some n) DefaultOptions))"

definition hoverService :: "(Resolved \<Rightarrow> Node \<Rightarrow> bytes request) \<Rightarrow> Env \<Rightarrow> scope \<Rightarrow> target \<Rightarrow> bytes request" where
  "hoverService show env sc t = and_then (indexed (ResolveService env sc (target_identifier t))) (\<lambda>def.
     (case def of
        None \<Rightarrow> answer []
      | Some d \<Rightarrow> (case rsNode d of N_Service sv \<Rightarrow> show d (N_Service sv) | _ \<Rightarrow> answer [])))"

definition hoverDefinition :: "(Resolved \<Rightarrow> Node \<Rightarrow> bytes request) \<Rightarrow> Env \<Rightarrow> scope \<Rightarrow> target \<Rightarrow> bytes request" where
  "hoverDefinition show env sc t =
     (case target_fieldType t of
        None \<Rightarrow> answer []
      | Some ft \<Rightarrow> and_then (indexed (ResolveType env sc (Some ft))) (\<lambda>def.
          (case def of
             None \<Rightarrow> answer []
           | Some d \<Rightarrow> if definitionMatches (rsNode d) (rsKind d) then show d (rsNode d) else answer [])))"

definition hoverConstValue :: "(Resolved \<Rightarrow> Node \<Rightarrow> bytes request) \<Rightarrow> Env \<Rightarrow> scope \<Rightarrow> target \<Rightarrow> bytes request" where
  "hoverConstValue show env sc t =
     and_then (lifted (target_value t)) (\<lambda>v. and_then (indexed (ResolveValue env sc (Some v))) (\<lambda>def.
       (case def of
          None \<Rightarrow> answer []
        | Some d \<Rightarrow>
            (if rsKind d = DefinitionEnumValue
             then and_then (lifted (name_text d)) (\<lambda>name. and_then (lifted (enumOfValue (rsParsed d) name)) (\<lambda>dst.
               (case dst of None \<Rightarrow> answer [] | Some en \<Rightarrow> show d (N_Enum en))))
             else (case rsNode d of N_Const c \<Rightarrow> show d (N_Const c) | _ \<Rightarrow> answer [])))))"

definition Hover :: "(bytes \<Rightarrow> nat) \<Rightarrow> printer \<Rightarrow> Env \<Rightarrow> uri \<Rightarrow> LspPosition \<Rightarrow> bytes request" where
  "Hover sw p env u pos = and_then (resolveTarget env u pos) (\<lambda>(pf, t).
     (let show = (\<lambda>d. formatNode sw p (rsParsed d)) in
      case tgKind t of
        TargetTypeName \<Rightarrow> hoverDefinition show env (u, pf) t
      | TargetConstValue \<Rightarrow> hoverConstValue show env (u, pf) t
      | TargetService \<Rightarrow> hoverService show env (u, pf) t
      | _ \<Rightarrow> answer []))"

end
