(* ===== verification/SemanticTokens.thy ===== *)
theory SemanticTokens imports Requests
begin

text \<open>
  Semantic tokens and folding ranges: \<open>semantic.go\<close> and \<open>folding.go\<close> under \<open>lsp/source/\<close>.
  All numbers of the protocol are 32-bit words.
\<close>

section \<open>The legend\<close>

datatype semantic_type = SemKeyword | SemString | SemNumber | SemComment | SemType | SemStruct | SemUnion
  | SemException | SemEnum | SemInterface | SemProperty | SemFunction | SemEnumMember | SemVariable

definition semantic_types :: "semantic_type list" where
  "semantic_types = [SemKeyword, SemString, SemNumber, SemComment, SemType, SemStruct, SemUnion,
     SemException, SemEnum, SemInterface, SemProperty, SemFunction, SemEnumMember, SemVariable]"

definition Legend :: "bytes list" where
  "Legend = [''keyword'', ''string'', ''number'', ''comment'', ''type'', ''struct'', ''union'',
     ''exception'', ''enum'', ''interface'', ''property'', ''function'', ''enumMember'', ''variable'']"

text \<open>The constants count from 0 in the order of the legend.\<close>

fun sem_code :: "semantic_type \<Rightarrow> 32 word" where
  "sem_code SemKeyword = 0" | "sem_code SemString = 1" | "sem_code SemNumber = 2" | "sem_code SemComment = 3"
| "sem_code SemType = 4" | "sem_code SemStruct = 5" | "sem_code SemUnion = 6" | "sem_code SemException = 7"
| "sem_code SemEnum = 8" | "sem_code SemInterface = 9" | "sem_code SemProperty = 10" | "sem_code SemFunction = 11"
| "sem_code SemEnumMember = 12" | "sem_code SemVariable = 13"

section \<open>Facts of the tree\<close>

definition structToken :: "TokenKind \<Rightarrow> semantic_type" where
  "structToken k = (if k = UnionDecl then SemUnion else if k = ExceptionDecl then SemException else SemStruct)"

type_synonym token_facts = "(nat \<rightharpoonup> semantic_type) \<times> nat set"

definition note_name :: "Identifier option \<Rightarrow> semantic_type \<Rightarrow> token_facts \<Rightarrow> token_facts option" where
  "note_name name ty facts =
     (case name of None \<Rightarrow> None | Some i \<Rightarrow> Some ((fst facts)(nbFirst (idBase i) \<mapsto> ty), snd facts))"

definition note_node :: "AnyNode \<Rightarrow> token_facts \<Rightarrow> token_facts option" where
  "note_node n facts =
     (case n of
        A_Node (N_Struct v) \<Rightarrow> note_name (stName v) (structToken (stKind v)) facts
      | A_Node (N_Enum v) \<Rightarrow> note_name (enName v) SemEnum facts
      | A_Node (N_Service v) \<Rightarrow> note_name (svName v) SemInterface facts
      | A_Node (N_Const v) \<Rightarrow> note_name (coName v) SemVariable facts
      | A_Node (N_Typedef v) \<Rightarrow> note_name (tdName v) SemType facts
      | A_Node (N_Function v) \<Rightarrow> note_name (fnName v) SemFunction facts
      | A_Node (N_EnumValue v) \<Rightarrow> note_name (evName v) SemEnumMember facts
      | A_Node (N_Field v) \<Rightarrow> note_name (fiName v) SemProperty facts
      | A_Node (N_FieldType v) \<Rightarrow> Some (fst facts, insert (TokStart (N_FieldType v)) (snd facts))
      | _ \<Rightarrow> Some facts)"

text \<open>The visitor never stops the walk; its state is lost at a panic.\<close>

definition note_visit :: "AnyNode \<Rightarrow> token_facts option \<Rightarrow> bool \<times> token_facts option" where
  "note_visit n r = (True, Option.bind r (note_node n))"

definition tokenFacts :: "Document \<Rightarrow> token_facts option" where
  "tokenFacts d = Option.bind (Walk note_visit (A_Document d) (Some (Map.empty, {}))) (\<lambda>r. r)"

section \<open>Tokens\<close>

definition classifyToken :: "token_facts \<Rightarrow> nat \<Rightarrow> Token \<Rightarrow> semantic_type option" where
  "classifyToken facts i tok =
     (if IsComment (tkKind tok) then Some SemComment
      else
        (case fst facts i of
           Some ty \<Rightarrow> Some ty
         | None \<Rightarrow>
             (if i \<in> snd facts then Some SemType
              else if tkKind tok = TokenStringLiteral then Some SemString
              else if tkKind tok \<in> {TokenIntConstant, TokenDoubleConstant} then Some SemNumber
              else if IsTypeKeyword (tkKind tok) then Some SemType
              else if IsKeyword (tkKind tok) then Some SemKeyword
              else None)))"

record tokenSegment =
  sgLine :: "32 word"
  sgChar :: "32 word"
  sgLength :: "32 word"

text \<open>
  The loop over the text stops at the line feeds only, which are bytes of their own in
  every text; \<open>i\<close> is the index of the next one. An offset that is not mapped ends it.
\<close>

definition add_segment :: "32 word \<Rightarrow> 32 word \<Rightarrow> 32 word \<Rightarrow> tokenSegment list" where
  "add_segment line char stop =
     (if stop - char > 0 then [\<lparr>sgLine = line, sgChar = char, sgLength = stop - char\<rparr>] else [])"

fun segment_lines :: "Mapper \<Rightarrow> nat \<Rightarrow> bytes \<Rightarrow> LspPosition \<Rightarrow> nat list \<Rightarrow> 32 word \<Rightarrow> 32 word \<Rightarrow> tokenSegment list" where
  "segment_lines m off text stop [] line char = add_segment line char (lpCharacter stop)"
| "segment_lines m off text stop (i # is) line char =
     (let lineEnd = (if i > 0 \<and> text ! (i - 1) = CR then off + i - 1 else off + i) in
      case OffsetToLSPPosition m (int lineEnd) of
        Inl err \<Rightarrow> []
      | Inr pos \<Rightarrow> add_segment line char (lpCharacter pos) @ segment_lines m off text stop is (line + 1) 0)"

definition tokenSegments :: "Mapper \<Rightarrow> Token \<Rightarrow> tokenSegment list" where
  "tokenSegments m tok =
     (case OffsetToLSPPosition m (int (tkOffset tok)) of
        Inl err \<Rightarrow> []
      | Inr start \<Rightarrow>
          (case OffsetToLSPPosition m (int (tkOffset tok + length (tkText tok))) of
             Inl err \<Rightarrow> []
           | Inr stop \<Rightarrow>
               (if lpLine start = lpLine stop
                then [\<lparr>sgLine = lpLine start, sgChar = lpCharacter start, sgLength = lpCharacter stop - lpCharacter start\<rparr>]
                else segment_lines m (tkOffset tok) (tkText tok) stop
                  (filter (\<lambda>i. tkText tok ! i = LF) [0..<length (tkText tok)]) (lpLine start) (lpCharacter start))))"

fun encode_segments :: "32 word \<Rightarrow> 32 word \<Rightarrow> (tokenSegment \<times> semantic_type) list \<Rightarrow> 32 word list" where
  "encode_segments prevLine prevChar [] = []"
| "encode_segments prevLine prevChar ((seg, ty) # segs) =
     [sgLine seg - prevLine, (if sgLine seg = prevLine then sgChar seg - prevChar else sgChar seg),
      sgLength seg, sem_code ty, 0] @
     encode_segments (sgLine seg) (sgChar seg) segs"

definition typed_segments :: "ParsedFile \<Rightarrow> token_facts \<Rightarrow> (tokenSegment \<times> semantic_type) list" where
  "typed_segments pf facts =
     (let toks = docTokens (pfAst pf) in
      concat (map (\<lambda>i.
        (case classifyToken facts i (toks ! i) of
           None \<Rightarrow> []
         | Some ty \<Rightarrow> map (\<lambda>seg. (seg, ty)) (tokenSegments (file_mapper pf) (toks ! i)))) [0..<length toks]))"

definition semantic_data :: "ParsedFile \<Rightarrow> 32 word list option" where
  "semantic_data pf = map_option (\<lambda>facts. encode_segments 0 0 (typed_segments pf facts)) (tokenFacts (pfAst pf))"

definition SemanticTokens :: "Env \<Rightarrow> uri \<Rightarrow> 32 word list request" where
  "SemanticTokens env u = and_then (parsing env u) (\<lambda>pf. lifted (semantic_data pf))"

section \<open>Folding\<close>

record FoldingRange =
  frStartLine :: "32 word"
  frStartChar :: "32 word"
  frEndLine :: "32 word"
  frEndChar :: "32 word"
  frComment :: bool

definition node_structured :: "Node \<Rightarrow> StructuredAnnotation list" where
  "node_structured n =
     (case n of N_Struct v \<Rightarrow> stStructured v | N_Enum v \<Rightarrow> enStructured v | N_Service v \<Rightarrow> svStructured v | _ \<Rightarrow> [])"

definition contentStart :: "Node \<Rightarrow> Token list \<Rightarrow> nat" where
  "contentStart n toks =
     (let annos = node_structured n in
      if annos = [] then TokStart n else NextReal toks (TokEnd (N_StructuredAnnotation (last annos)) + 1))"

text \<open>The inner option is the flag that there is a range.\<close>

definition spanRange :: "ParsedFile \<Rightarrow> nat \<Rightarrow> nat \<Rightarrow> FoldingRange option option" where
  "spanRange pf start stop = do {
     s \<leftarrow> TokenPosition (pfAst pf) start;
     e \<leftarrow> TokenEndPosition (pfAst pf) stop;
     Some (if poLine s = poLine e then None
       else (let startPos = toLSPPosition pf s; endPos = toLSPPosition pf e in
         Some \<lparr>frStartLine = lpLine startPos, frStartChar = lpCharacter startPos,
           frEndLine = lpLine endPos, frEndChar = lpCharacter endPos, frComment = False\<rparr>)) }"

text \<open>The first token of a kind among the indices of a list; an index out of range panics.\<close>

fun first_kind :: "Token list \<Rightarrow> TokenKind \<Rightarrow> nat list \<Rightarrow> nat option option" where
  "first_kind toks k [] = Some None"
| "first_kind toks k (i # is) =
     (if i \<ge> length toks then None else if tkKind (toks ! i) = k then Some (Some i) else first_kind toks k is)"

definition bracedRange :: "ParsedFile \<Rightarrow> Node \<Rightarrow> nat \<Rightarrow> FoldingRange option option" where
  "bracedRange pf n start =
     (let toks = docTokens (pfAst pf) in do {
        left \<leftarrow> first_kind toks TokenLBrace [start..<TokEnd n + 1];
        case left of
          None \<Rightarrow> Some None
        | Some i \<Rightarrow> do {
            right \<leftarrow> first_kind toks TokenRBrace (rev [i + 1..<TokEnd n + 1]);
            spanRange pf i (case right of None \<Rightarrow> i | Some j \<Rightarrow> j) } })"

definition value_range :: "ParsedFile \<Rightarrow> ConstValue option \<Rightarrow> FoldingRange option option" where
  "value_range pf v =
     (case v of
        None \<Rightarrow> Some None
      | Some c \<Rightarrow>
          (if cvKind c = ValueList \<or> cvKind c = ValueMap
           then spanRange pf (TokStart (N_ConstValue c)) (TokEnd (N_ConstValue c)) else Some None))"

definition body_range :: "ParsedFile \<Rightarrow> Node \<Rightarrow> FoldingRange option option" where
  "body_range pf n =
     (case n of
        N_Struct v \<Rightarrow> bracedRange pf n (contentStart n (docTokens (pfAst pf)))
      | N_Enum v \<Rightarrow> bracedRange pf n (contentStart n (docTokens (pfAst pf)))
      | N_Service v \<Rightarrow> bracedRange pf n (contentStart n (docTokens (pfAst pf)))
      | N_Const v \<Rightarrow> value_range pf (coValue v)
      | _ \<Rightarrow> Some None)"

definition nodeAnnotation :: "Node \<Rightarrow> Annotations option" where
  "nodeAnnotation n =
     (case n of
        N_Struct v \<Rightarrow> stAnnotations v
      | N_Enum v \<Rightarrow> enAnnotations v
      | N_Service v \<Rightarrow> svAnnotations v
      | N_Typedef v \<Rightarrow> tdAnnotations v
      | N_Namespace v \<Rightarrow> nsAnnotations v
      | _ \<Rightarrow> None)"

definition nodeAnnotations :: "Node list \<Rightarrow> Annotations list" where
  "nodeAnnotations ns = concat (map (\<lambda>n. case nodeAnnotation n of None \<Rightarrow> [] | Some a \<Rightarrow> [a]) ns)"

text \<open>The range of a comment is marked as one.\<close>

definition commentSpanRange :: "ParsedFile \<Rightarrow> nat \<Rightarrow> nat \<Rightarrow> FoldingRange option option" where
  "commentSpanRange pf start stop = map_option (map_option (\<lambda>r. r\<lparr>frComment := True\<rparr>)) (spanRange pf start stop)"

definition blockCommentSpan :: "ParsedFile \<Rightarrow> nat \<Rightarrow> FoldingRange option option" where
  "blockCommentSpan pf i = do {
     s \<leftarrow> TokenPosition (pfAst pf) i;
     let text = tkText (docTokens (pfAst pf) ! i);
     let startPos = toLSPPosition pf s;
     let lines = length (filter (\<lambda>c. c = LF) text);
     Some (if lines = 0 then None
       else Some \<lparr>frStartLine = lpLine startPos, frStartChar = lpCharacter startPos,
         frEndLine = lpLine startPos + word_of_nat lines,
         frEndChar = word_of_nat (length (last (split_at LF text))), frComment = True\<rparr>) }"

text \<open>The last line comment of the run that starts at \<open>i\<close>.\<close>

function comment_run :: "Token list \<Rightarrow> nat \<Rightarrow> nat" where
  "comment_run toks i =
     (if i + 1 < length toks \<and> tkKind (toks ! (i + 1)) = TokenLineComment \<and> tkLine (toks ! (i + 1)) = tkLine (toks ! i) + 1
      then comment_run toks (i + 1) else i)"
  by pat_completeness auto
termination
  by (relation "measure (\<lambda>(toks, i). length toks - i)") auto

declare comment_run.simps [simp del]

lemma comment_run_ge: "i \<le> comment_run toks i"
proof (induction toks i rule: comment_run.induct)
  case (1 toks i)
  then show ?case by (subst comment_run.simps) auto
qed

function comment_blocks :: "ParsedFile \<Rightarrow> nat \<Rightarrow> FoldingRange option list option" where
  "comment_blocks pf i =
     (let toks = docTokens (pfAst pf) in
      if i \<ge> length toks then Some []
      else if tkKind (toks ! i) \<noteq> TokenLineComment then do {
        r \<leftarrow> (if tkKind (toks ! i) = TokenBlockComment \<or> tkKind (toks ! i) = TokenDocComment
              then blockCommentSpan pf i else Some None);
        rs \<leftarrow> comment_blocks pf (i + 1);
        Some (r # rs) }
      else do {
        let j = comment_run toks i;
        r \<leftarrow> (if j > i then commentSpanRange pf i j else Some None);
        rs \<leftarrow> comment_blocks pf (j + 1);
        Some (r # rs) })"
  by pat_completeness auto
termination
  by (relation "measure (\<lambda>(pf, i). length (docTokens (pfAst pf)) - i)") (auto intro!: diff_less_mono2 simp: less_Suc_eq_le comment_run_ge)

declare comment_blocks.simps [simp del]

definition kept :: "'a option list \<Rightarrow> 'a list" where
  "kept rs = concat (map (\<lambda>r. case r of None \<Rightarrow> [] | Some x \<Rightarrow> [x]) rs)"

text \<open>\<open>sort.Slice\<close>, which is not stable, by start; equal starts are left in the order found.\<close>

definition folding_ranges :: "ParsedFile \<Rightarrow> FoldingRange list option" where
  "folding_ranges pf = do {
     bodies \<leftarrow> those (map (body_range pf) (docNodes (pfAst pf)));
     annos \<leftarrow> those (map (\<lambda>a. spanRange pf (TokStart (N_Annotations a)) (TokEnd (N_Annotations a))) (nodeAnnotations (docNodes (pfAst pf))));
     structured \<leftarrow> those (map (\<lambda>sa. value_range pf (saValue sa)) (EachStructuredAnnotation (pfAst pf)));
     comments \<leftarrow> comment_blocks pf 0;
     Some (sort_key (\<lambda>r. (frStartLine r, frStartChar r)) (kept (bodies @ annos @ structured @ comments))) }"

definition Ranges :: "Env \<Rightarrow> uri \<Rightarrow> FoldingRange list request" where
  "Ranges env u = and_then (parse_try env u) (\<lambda>pf.
     (case pf of None \<Rightarrow> answer [] | Some pf \<Rightarrow> lifted (folding_ranges pf)))"

end
