(* ===== verification/CompletionContext.thy ===== *)
theory CompletionContext imports AstVisit
begin

text \<open>
  The grammar slot at the cursor: \<open>lsp/source/context.go\<close>. Token indices that may be -1 are
  integers; a panic is \<open>None\<close>.
\<close>

section \<open>Slots\<close>

datatype ContextKind = CtxNone | CtxIncludePath | CtxType | CtxFieldName | CtxFieldID | CtxFieldValue
  | CtxEnumValueName | CtxDefinitionName | CtxFunctionName | CtxServiceExtends | CtxAnnotationKey
  | CtxAnnotationValue | CtxKeyword

record Context =
  cxKind :: ContextKind
  cxPath :: "AnyNode list"
  cxOffset :: nat
  cxPrefix :: bytes
  cxEditStart :: nat
  cxDoc :: Document

section \<open>Tokens around the cursor\<close>

text \<open>The binary search of \<open>tokenAt\<close>: the number of tokens that start at or before the offset.\<close>

function token_search :: "Token list \<Rightarrow> nat \<Rightarrow> nat \<Rightarrow> nat \<Rightarrow> nat" where
  "token_search toks offset lo hi =
     (if lo < hi then
        (let mid = (lo + hi) div 2 in
         if tkOffset (toks ! mid) \<le> offset then token_search toks offset (mid + 1) hi else token_search toks offset lo mid)
      else lo)"
  by pat_completeness auto
termination
  by (relation "measure (\<lambda>(toks, offset, lo, hi). hi - lo)") auto

declare token_search.simps [simp del]

fun skip_eof :: "Token list \<Rightarrow> nat \<Rightarrow> int" where
  "skip_eof toks 0 = -1"
| "skip_eof toks (Suc i) = (if tkKind (toks ! i) = TokenEOF then skip_eof toks i else int i)"

definition tokenAt :: "Document \<Rightarrow> nat \<Rightarrow> int \<times> Token option" where
  "tokenAt doc offset =
     (let toks = docTokens doc; i = skip_eof toks (token_search toks offset 0 (length toks)) in
      if i < 0 then (-1, None)
      else
        (let t = toks ! nat i in
         if tkOffset t \<le> offset \<and> offset \<le> tkOffset t + length (tkText t) then (i, Some t) else (i, None)))"

definition insideString :: "Token \<Rightarrow> nat \<Rightarrow> bool" where
  "insideString t offset \<longleftrightarrow>
     (if offset \<le> tkOffset t \<or> offset > tkOffset t + length (tkText t) then False
      else if offset < tkOffset t + length (tkText t) then True
      else length (tkText t) < 2 \<or> last (tkText t) \<noteq> hd (tkText t))"

definition stringPrefix :: "Token \<Rightarrow> nat \<Rightarrow> bytes" where
  "stringPrefix t offset = take (min (offset - tkOffset t) (length (tkText t))) (tkText t)"

definition ident_byte :: "char \<Rightarrow> bool" where
  "ident_byte c \<longleftrightarrow> c = CHR ''_'' \<or> c = CHR ''.'' \<or> (CHR ''a'' \<le> c \<and> c \<le> CHR ''z'') \<or>
     (CHR ''A'' \<le> c \<and> c \<le> CHR ''Z'') \<or> (CHR ''0'' \<le> c \<and> c \<le> CHR ''9'')"

text \<open>A rune that is not ASCII has bytes that are not, so the runes are tested byte by byte.\<close>

definition identish :: "bytes \<Rightarrow> bool" where
  "identish s \<longleftrightarrow> s \<noteq> [] \<and> list_all ident_byte s"

text \<open>The loop over the tokens before an index: the parts found, and where they start.\<close>

fun prefix_loop :: "Token list \<Rightarrow> nat \<Rightarrow> nat \<Rightarrow> nat \<Rightarrow> nat \<Rightarrow> bytes list \<Rightarrow> bytes list \<times> nat" where
  "prefix_loop toks line 0 start nextEnd parts = (parts, start)"
| "prefix_loop toks line (Suc i) start nextEnd parts =
     (let t = toks ! i in
      if tkLine t \<noteq> line \<or> \<not> identish (tkText t) \<or> tkOffset t + length (tkText t) \<noteq> nextEnd then (parts, start)
      else prefix_loop toks line i (tkOffset t) (tkOffset t) (tkText t # parts))"

definition prefixRange :: "Document \<Rightarrow> Position \<Rightarrow> int \<Rightarrow> Token option \<Rightarrow> bytes \<times> nat" where
  "prefixRange doc pos atIdx tok =
     (let (parts, start) =
        (case tok of
           None \<Rightarrow> ([], poOffset pos)
         | Some t \<Rightarrow>
             (let partial = take (poOffset pos - tkOffset t) (tkText t) in
              if poOffset pos > tkOffset t \<and> tkKind t \<noteq> TokenStringLiteral \<and> identish partial
              then ([partial], tkOffset t) else ([], poOffset pos)));
          (parts, start) = prefix_loop (docTokens doc) (poLine pos) (nat atIdx) start start parts in
      (concat parts, start))"

section \<open>Enclosing groups\<close>

text \<open>The last opener among the first \<open>n\<close> tokens that is not closed before the \<open>n\<close>th.\<close>

fun opener :: "TokenKind \<Rightarrow> TokenKind \<Rightarrow> Token list \<Rightarrow> nat \<Rightarrow> nat \<Rightarrow> nat option" where
  "opener closing opening toks depth 0 = None"
| "opener closing opening toks depth (Suc i) =
     (if tkKind (toks ! i) = closing then opener closing opening toks (depth + 1) i
      else if tkKind (toks ! i) = opening then
        (if depth = 0 then Some i else opener closing opening toks (depth - 1) i)
      else opener closing opening toks depth i)"

definition parenOpener :: "Document \<Rightarrow> int \<Rightarrow> nat option" where
  "parenOpener doc start = (if start < 0 then None else opener TokenRParen TokenLParen (docTokens doc) 0 (nat (start + 1)))"

definition ltOpener :: "Document \<Rightarrow> int \<Rightarrow> nat option" where
  "ltOpener doc start = opener TokenGt TokenLt (docTokens doc) 0 (nat (start + 1))"

text \<open>
  The loops that skip closed groups of parentheses in front of a brace, on the number of
  tokens before it; the first token of a group is its closing one, so the depth is positive
  when an opening one is met.
\<close>

fun skip_group :: "Token list \<Rightarrow> nat \<Rightarrow> nat \<Rightarrow> nat" where
  "skip_group toks depth 0 = 0"
| "skip_group toks depth (Suc i) =
     (if tkKind (toks ! i) = TokenRParen then skip_group toks (depth + 1) i
      else if tkKind (toks ! i) = TokenLParen then
        (if depth = 1 then i else skip_group toks (depth - 1) i)
      else skip_group toks depth i)"

lemma skip_group_le: "skip_group toks depth n \<le> n"
proof (induction n arbitrary: depth)
  case (Suc n)
  then show ?case by (simp add: le_SucI)
qed simp

function skip_groups :: "Token list \<Rightarrow> nat \<Rightarrow> nat" where
  "skip_groups toks n =
     (if n > 0 \<and> tkKind (toks ! (n - 1)) = TokenRParen then skip_groups toks (skip_group toks 0 n) else n)"
  by pat_completeness auto
termination
proof (relation "measure snd", simp)
  fix toks :: "Token list" and n assume "0 < n \<and> tkKind (toks ! (n - 1)) = TokenRParen"
  then have "skip_group toks 0 n = skip_group toks 1 (n - 1)" by (cases n) auto
  then show "((toks, skip_group toks 0 n), toks, n) \<in> measure snd"
    using skip_group_le[of toks 1 "n - 1"] \<open>0 < n \<and> _\<close> by (simp add: less_eq_Suc_le) linarith
qed

declare skip_groups.simps [simp del]

definition container_keywords :: "TokenKind set" where
  "container_keywords = {TokenStruct, TokenUnion, TokenException, TokenEnum, TokenService}"

definition containerKeywordBefore :: "Document \<Rightarrow> nat \<Rightarrow> TokenKind option option" where
  "containerKeywordBefore doc brace =
     (let toks = docTokens doc in do {
        j \<leftarrow> PrevReal toks (int (skip_groups toks brace) - 1);
        if j < 1 \<or> tkKind (toks ! nat j) \<noteq> TokenIdentifier then Some None
        else do {
          k \<leftarrow> PrevReal toks (j - 1);
          Some (if k < 0 then None
            else if tkKind (toks ! nat k) \<in> container_keywords then Some (tkKind (toks ! nat k)) else None) } })"

definition braceBodyKind :: "Document \<Rightarrow> int \<Rightarrow> TokenKind option option" where
  "braceBodyKind doc start =
     (if start < 0 then Some None
      else
        (case opener TokenRBrace TokenLBrace (docTokens doc) 0 (nat (start + 1)) of
           None \<Rightarrow> Some None
         | Some i \<Rightarrow> containerKeywordBefore doc i))"

definition memberKind :: "TokenKind \<Rightarrow> ContextKind" where
  "memberKind kw = (if kw = TokenEnum then CtxEnumValueName else if kw = TokenService then CtxFunctionName else CtxFieldName)"

definition afterParenKind :: "Document \<Rightarrow> int \<Rightarrow> ContextKind option" where
  "afterParenKind doc opening = do {
     p \<leftarrow> PrevReal (docTokens doc) (opening - 1);
     if p < 0 then Some CtxAnnotationKey
     else
       (let k = tkKind (docTokens doc ! nat p) in
        if k = TokenThrows then Some CtxFieldName
        else if k = TokenIdentifier then
          map_option (\<lambda>kw. if kw = Some TokenService then CtxFieldName else CtxAnnotationKey) (braceBodyKind doc p)
        else Some CtxAnnotationKey) }"

text \<open>The same classification, after a separator inside of the group.\<close>

definition insideParenKind :: "Document \<Rightarrow> int \<Rightarrow> ContextKind option" where
  "insideParenKind doc opening = do {
     p \<leftarrow> PrevReal (docTokens doc) (opening - 1);
     if p < 0 then Some CtxAnnotationKey
     else
       (let k = tkKind (docTokens doc ! nat p) in
        if k = TokenThrows then Some CtxFieldName
        else if k = TokenIdentifier then
          map_option (\<lambda>kw. if kw = Some TokenService then CtxFieldName else CtxAnnotationKey) (braceBodyKind doc p)
        else Some CtxAnnotationKey) }"

definition isThrowsGroup :: "Document \<Rightarrow> int \<Rightarrow> bool option" where
  "isThrowsGroup doc opening =
     map_option (\<lambda>p. p \<ge> 0 \<and> tkKind (docTokens doc ! nat p) = TokenThrows) (PrevReal (docTokens doc) (opening - 1))"

definition typeSlotAfterIdent :: "Document \<Rightarrow> int \<Rightarrow> bool option" where
  "typeSlotAfterIdent doc idx = do {
     p \<leftarrow> PrevReal (docTokens doc) (idx - 1);
     if p < 0 then Some False
     else
       (let k = tkKind (docTokens doc ! nat p) in
        if k \<in> {TokenRequired, TokenOptional, TokenColon, TokenConst, TokenTypedef, TokenLt} then Some True
        else if k = TokenLBrace then map_option (\<lambda>kw. kw = Some TokenService) (braceBodyKind doc p)
        else Some False) }"

section \<open>The node path\<close>

definition deepestNode :: "AnyNode list \<Rightarrow> AnyNode option" where
  "deepestNode path = (if path = [] then None else Some (last path))"

definition deepestConstValue :: "AnyNode list \<Rightarrow> bool" where
  "deepestConstValue path = (case deepestNode path of Some (A_Node (N_ConstValue v)) \<Rightarrow> True | _ \<Rightarrow> False)"

definition hasInclude :: "AnyNode list \<Rightarrow> bool" where
  "hasInclude path = list_ex (\<lambda>n. case n of A_Node (N_Include i) \<Rightarrow> True | A_Node (N_CPPInclude i) \<Rightarrow> True | _ \<Rightarrow> False) path"

definition tokenOffset :: "Document \<Rightarrow> Node \<Rightarrow> nat option" where
  "tokenOffset doc n = map_option poOffset (TokenPosition doc (TokStart n))"

text \<open>The parent decides; the name of a service is told from its parent by identity.\<close>

definition identifierKind :: "AnyNode list \<Rightarrow> Identifier \<Rightarrow> ContextKind" where
  "identifierKind path i =
     (if length path < 2 then CtxKeyword
      else
        (case last (butlast path) of
           A_Node (N_FieldType ft) \<Rightarrow> CtxType
         | A_Node (N_Field f) \<Rightarrow> if fiValue f = None then CtxFieldName else CtxFieldValue
         | A_Node (N_EnumValue ev) \<Rightarrow> CtxEnumValueName
         | A_Node (N_Const c) \<Rightarrow> CtxDefinitionName
         | A_Node (N_Struct s) \<Rightarrow> CtxDefinitionName
         | A_Node (N_Enum e) \<Rightarrow> CtxDefinitionName
         | A_Node (N_Service s) \<Rightarrow> if svName s = Some i then CtxDefinitionName else CtxServiceExtends
         | A_Node (N_Function f) \<Rightarrow> CtxFunctionName
         | A_Node (N_Typedef t) \<Rightarrow> CtxDefinitionName
         | _ \<Rightarrow> CtxKeyword))"

section \<open>Resolution of the slot\<close>

text \<open>Step 1: a string literal.\<close>

definition string_slot :: "Document \<Rightarrow> nat \<Rightarrow> int \<Rightarrow> Token \<Rightarrow> Context \<Rightarrow> Context option" where
  "string_slot doc offset atIdx t c =
     (let text = trim_quotes (stringPrefix t offset) in
      if hasInclude (cxPath c) then Some (c\<lparr>cxKind := CtxIncludePath, cxPrefix := text, cxEditStart := tkOffset t + 1\<rparr>)
      else if deepestConstValue (cxPath c) then Some (c\<lparr>cxKind := CtxNone\<rparr>)
      else
        (case parenOpener doc atIdx of
           None \<Rightarrow> Some (c\<lparr>cxKind := CtxNone\<rparr>)
         | Some opening \<Rightarrow>
             map_option (\<lambda>throws.
               if throws then c\<lparr>cxKind := CtxNone\<rparr>
               else c\<lparr>cxKind := CtxAnnotationValue, cxPrefix := text, cxEditStart := tkOffset t + 1\<rparr>)
               (isThrowsGroup doc (int opening))))"

text \<open>Step 3: the token before the cursor. The inner option is the early return.\<close>

definition separator_slot :: "Document \<Rightarrow> int \<Rightarrow> Context \<Rightarrow> Context option" where
  "separator_slot doc prevIdx c =
     (case parenOpener doc prevIdx of
        Some opening \<Rightarrow> map_option (\<lambda>k. c\<lparr>cxKind := k\<rparr>) (insideParenKind doc (int opening))
      | None \<Rightarrow>
          (if ltOpener doc prevIdx \<noteq> None then Some (c\<lparr>cxKind := CtxType\<rparr>)
           else map_option (\<lambda>kw. case kw of None \<Rightarrow> c | Some kw \<Rightarrow> c\<lparr>cxKind := memberKind kw\<rparr>) (braceBodyKind doc prevIdx)))"

definition identifier_slot :: "Document \<Rightarrow> int \<Rightarrow> Token \<Rightarrow> Context \<Rightarrow> Context option option" where
  "identifier_slot doc prevIdx prev c = do {
     slot \<leftarrow> typeSlotAfterIdent doc prevIdx;
     let stop = tkOffset prev + length (tkText prev);
     Some (if stop = cxOffset c \<and> slot then Some (c\<lparr>cxKind := CtxType\<rparr>)
       else if stop + 1 = cxOffset c then
         Some (if slot then c\<lparr>cxKind := CtxType, cxPrefix := tkText prev, cxEditStart := cxOffset c\<rparr>
           else c\<lparr>cxKind := CtxFieldValue, cxPrefix := [], cxEditStart := cxOffset c\<rparr>)
       else None) }"

definition previous_slot :: "Document \<Rightarrow> int \<Rightarrow> Context \<Rightarrow> Context option option" where
  "previous_slot doc prevIdx c =
     (if prevIdx < 0 then Some None
      else
        (let prev = docTokens doc ! nat prevIdx; k = tkKind prev in
         if k = TokenLParen then map_option (\<lambda>x. Some (c\<lparr>cxKind := x\<rparr>)) (afterParenKind doc prevIdx)
         else if k \<in> {TokenComma, TokenSemicolon} then map_option Some (separator_slot doc prevIdx c)
         else if k \<in> {TokenLt, TokenConst, TokenTypedef} then Some (Some (c\<lparr>cxKind := CtxType\<rparr>))
         else if k = TokenLBrace then
           map_option (\<lambda>kw. Some (case kw of None \<Rightarrow> c | Some kw \<Rightarrow> c\<lparr>cxKind := memberKind kw\<rparr>)) (braceBodyKind doc prevIdx)
         else if k = TokenExtends then Some (Some (c\<lparr>cxKind := CtxServiceExtends\<rparr>))
         else if k = TokenEqual then Some (Some (c\<lparr>cxKind := CtxFieldValue\<rparr>))
         else if k = TokenColon then Some (Some (c\<lparr>cxKind := CtxType\<rparr>))
         else if k \<in> {TokenRequired, TokenOptional} then Some (Some (c\<lparr>cxKind := CtxType\<rparr>))
         else if k = TokenIdentifier then identifier_slot doc prevIdx prev c
         else Some None))"

text \<open>Step 4: the token at the cursor.\<close>

definition current_slot :: "Document \<Rightarrow> int \<Rightarrow> Token option \<Rightarrow> Context \<Rightarrow> Context option option" where
  "current_slot doc atIdx tok c =
     (case tok of
        None \<Rightarrow> Some None
      | Some t \<Rightarrow>
          (if tkKind t = TokenExtends then Some (Some (c\<lparr>cxKind := CtxServiceExtends\<rparr>))
           else if tkKind t \<in> {TokenRequired, TokenOptional} then Some (Some (c\<lparr>cxKind := CtxKeyword\<rparr>))
           else if tkKind t = TokenIdentifier then do {
             slot \<leftarrow> (if CHR ''.'' \<in> set (tkText t)
               then Option.bind (PrevReal (docTokens doc) (atIdx - 1)) (typeSlotAfterIdent doc) else Some False);
             Some (if slot then Some (c\<lparr>cxKind := CtxType\<rparr>)
               else if tkText t \<noteq> [] \<and> last (tkText t) = CHR ''.'' \<and> cxOffset c = tkOffset t + length (tkText t)
               then Some (c\<lparr>cxKind := CtxFieldValue\<rparr>)
               else None) }
           else Some None))"

text \<open>Step 5: the deepest node.\<close>

definition node_slot :: "Document \<Rightarrow> Context \<Rightarrow> Context option" where
  "node_slot doc c =
     (case deepestNode (cxPath c) of
        Some (A_Node (N_FieldType ft)) \<Rightarrow> Some (c\<lparr>cxKind := CtxType\<rparr>)
      | Some (A_Node (N_ConstValue v)) \<Rightarrow> Some (c\<lparr>cxKind := (if cvKind v = ValueIdent then CtxFieldValue else CtxNone)\<rparr>)
      | Some (A_Node (N_Identifier i)) \<Rightarrow> Some (c\<lparr>cxKind := identifierKind (cxPath c) i\<rparr>)
      | Some (A_Node (N_Field f)) \<Rightarrow> do {
          early \<leftarrow> (case fiName f of
              None \<Rightarrow> Some False
            | Some i \<Rightarrow> map_option (\<lambda>off. cxOffset c < off) (tokenOffset doc (N_Identifier i)));
          Some (c\<lparr>cxKind := (if early then CtxType else if fiValue f = None then CtxFieldName else CtxFieldValue)\<rparr>) }
      | _ \<Rightarrow> Some c)"

definition or_else :: "'a option option \<Rightarrow> 'a option \<Rightarrow> 'a option" where
  "or_else r s = (case r of None \<Rightarrow> None | Some (Some x) \<Rightarrow> Some x | Some None \<Rightarrow> s)"

definition field_id_slot :: "Document \<Rightarrow> int \<Rightarrow> Token option \<Rightarrow> bool" where
  "field_id_slot doc atIdx tok =
     (case tok of
        None \<Rightarrow> False
      | Some t \<Rightarrow>
          (let toks = docTokens doc; n = NextReal toks (nat (atIdx + 1)) in
           tkKind t = TokenIntConstant \<and> n < length toks \<and> tkKind (toks ! n) = TokenColon))"

definition ResolveContext :: "Document \<Rightarrow> Position \<Rightarrow> Context option" where
  "ResolveContext doc pos = do {
     path \<leftarrow> SearchNodePathByPosition doc pos;
     let offset = poOffset pos;
     let (atIdx, tok) = tokenAt doc offset;
     let c = \<lparr>cxKind = CtxKeyword, cxPath = path, cxOffset = offset, cxPrefix = [], cxEditStart = 0, cxDoc = doc\<rparr>;
     if (case tok of None \<Rightarrow> False | Some t \<Rightarrow> IsComment (tkKind t)) then Some (c\<lparr>cxKind := CtxNone\<rparr>)
     else do {
       prevIdx \<leftarrow> (case tok of
           Some t \<Rightarrow> PrevReal (docTokens doc) (if offset < tkOffset t + length (tkText t) then atIdx - 1 else atIdx)
         | None \<Rightarrow> PrevReal (docTokens doc) atIdx);
       let (pre, editStart) = prefixRange doc pos atIdx tok;
       let c = c\<lparr>cxPrefix := pre, cxEditStart := editStart\<rparr>;
       (case tok of
          Some t \<Rightarrow>
            (if tkKind t = TokenStringLiteral \<and> insideString t offset then string_slot doc offset atIdx t c
             else if field_id_slot doc atIdx tok then Some (c\<lparr>cxKind := CtxFieldID\<rparr>)
             else or_else (previous_slot doc prevIdx c) (or_else (current_slot doc atIdx tok c) (node_slot doc c)))
        | None \<Rightarrow> or_else (previous_slot doc prevIdx c) (or_else (current_slot doc atIdx tok c) (node_slot doc c))) } }"

end
