(* ===== verification/Completion.thy ===== *)
theory Completion imports CompletionContext Requests
begin

text \<open>
  Completion: \<open>provider.go\<close>, \<open>semantic_completion.go\<close>, \<open>token_completion.go\<close> and
  \<open>completion_utils.go\<close> under \<open>lsp/source/\<close>. The order in which Go iterates over a map is the
  parameter \<open>order\<close>, reading a directory the parameter \<open>readDir\<close>.
\<close>

section \<open>Candidates\<close>

record Candidate =
  caShow :: bytes
  caInsert :: bytes
  caSnippet :: bool

definition plain :: "bytes \<Rightarrow> Candidate" where
  "plain s = \<lparr>caShow = s, caInsert = s, caSnippet = False\<rparr>"

type_synonym map_order = "bytes set \<Rightarrow> bytes list"

definition NL :: bytes where
  "NL = [LF]"

definition keyword_list :: "(bytes \<times> bool) list" where
  "keyword_list =
     [(''bool'', False), (''byte'', False), (''i16'', False), (''i32'', False), (''i64'', False),
      (''double'', False), (''binary'', False), (''uuid'', False), (''string'', False),
      (''required'', False), (''optional'', False), (''include'', False), (''cpp_include'', False),
      (''list<$1>'', True), (''set<$1>'', True), (''map<$1, $2>'', True),
      (''struct $1 {'' @ NL @ ''$2'' @ NL @ ''}'', True), (''const $1 $2 = $3'', True),
      (''service $1 {'' @ NL @ ''$2'' @ NL @ ''}'', True), (''union $1 {'' @ NL @ ''$2'' @ NL @ ''}'', True),
      (''exception $1 {'' @ NL @ ''$2'' @ NL @ ''}'', True), (''throws ($1)'', True), (''typedef $1 $2'', True)]"

definition typeKeywords :: "(bytes \<times> bool) list" where
  "typeKeywords =
     [(''bool'', False), (''byte'', False), (''i8'', False), (''i16'', False), (''i32'', False), (''i64'', False),
      (''double'', False), (''string'', False), (''binary'', False), (''slist'', False), (''uuid'', False),
      (''list<$1>'', True), (''set<$1>'', True), (''map<$1, $2>'', True)]"

definition keyword_candidate :: "bytes \<times> bool \<Rightarrow> Candidate" where
  "keyword_candidate k = \<lparr>caShow = fst k, caInsert = fst k, caSnippet = snd k\<rparr>"

definition keyword_candidates :: "map_order \<Rightarrow> Candidate list" where
  "keyword_candidates order =
     map (\<lambda>text. keyword_candidate (text, map_of keyword_list text = Some True)) (order (set (map fst keyword_list)))"

text \<open>\<open>sort.Slice\<close>, which is not stable: candidates with the same text are left in their order.\<close>

definition sortCandidates :: "Candidate list \<Rightarrow> Candidate list" where
  "sortCandidates cs = sort_key caShow cs"

definition setCandidates :: "map_order \<Rightarrow> bytes set \<Rightarrow> Candidate list" where
  "setCandidates order names = sortCandidates (map plain (order names))"

section \<open>Names of documents\<close>

definition names_of :: "('a \<Rightarrow> Identifier option) \<Rightarrow> 'a list \<Rightarrow> bytes set option" where
  "names_of name xs = map_option (\<lambda>is. set (map idText is)) (those (map name xs))"

definition collectTypeNames :: "Document \<Rightarrow> bytes set \<Rightarrow> bytes set option" where
  "collectTypeNames ast names = do {
     a \<leftarrow> names_of stName (Structs ast);
     b \<leftarrow> names_of stName (Unions ast);
     c \<leftarrow> names_of stName (Exceptions ast);
     d \<leftarrow> names_of enName (Enums ast);
     e \<leftarrow> names_of tdName (Typedefs ast);
     Some (names \<union> a \<union> b \<union> c \<union> d \<union> e) }"

definition enum_value_names :: "Enum \<Rightarrow> bytes set option" where
  "enum_value_names en = do {
     i \<leftarrow> enName en;
     values \<leftarrow> names_of evName (enValues en);
     Some ({idText i} \<union> values \<union> (\<lambda>v. idText i @ ''.'' @ v) ` values) }"

definition collectValueNames :: "Document \<Rightarrow> bytes set \<Rightarrow> bytes set option" where
  "collectValueNames ast names = do {
     a \<leftarrow> names_of coName (Consts ast);
     bs \<leftarrow> those (map enum_value_names (Enums ast));
     Some (names \<union> a \<union> \<Union> (set bs)) }"

definition annotationKeys :: "Document \<Rightarrow> bytes set \<Rightarrow> bytes set option" where
  "annotationKeys ast names = do {
     ks \<leftarrow> those (map (\<lambda>g. names_of anName (asItems g)) (EachAnnotation ast));
     Some (names \<union> \<Union> (set ks)) }"

definition serviceNames :: "Document \<Rightarrow> bytes set \<Rightarrow> bytes set option" where
  "serviceNames ast names = map_option (\<lambda>a. names \<union> a) (names_of svName (Services ast))"

text \<open>
  \<open>includedFiles\<close> with an explicit stack: the includes that the calls still open have to
  append and visit, in their order.
\<close>

function included_loop :: "View \<Rightarrow> uri list \<Rightarrow> uri list \<Rightarrow> uri list" where
  "included_loop v [] visited = []"
| "included_loop v (inc # stack) visited =
     inc # (if inc \<in> set visited then included_loop v stack visited
            else included_loop v (view_Includes v inc @ stack) (inc # visited))"
  by pat_completeness auto
termination
proof (relation "measures [\<lambda>(v, stack, visited). card (ends (vwIncludes v) \<union> set stack - set visited),
    \<lambda>(v, stack, visited). length stack]", simp)
  fix v and inc :: uri and stack visited
  assume "inc \<in> set visited"
  then have "ends (vwIncludes v) \<union> set (inc # stack) - set visited = ends (vwIncludes v) \<union> set stack - set visited" by auto
  then show "((v, stack, visited), v, inc # stack, visited) \<in>
      measures [\<lambda>(v, stack, visited). card (ends (vwIncludes v) \<union> set stack - set visited), \<lambda>(v, stack, visited). length stack]"
    by simp
next
  fix v and inc :: uri and stack visited
  assume f: "inc \<notin> set visited"
  have "card (ends (vwIncludes v) \<union> set (view_Includes v inc @ stack) - set (inc # visited))
      < card (ends (vwIncludes v) \<union> set (inc # stack) - set visited)"
    using f edges_ends[of "vwIncludes v" inc] by (intro psubset_card_mono) (auto simp: view_Includes_def)
  then show "((v, view_Includes v inc @ stack, inc # visited), v, inc # stack, visited) \<in>
      measures [\<lambda>(v, stack, visited). card (ends (vwIncludes v) \<union> set stack - set visited), \<lambda>(v, stack, visited). length stack]"
    by simp
qed

definition includedFiles :: "View \<Rightarrow> uri \<Rightarrow> uri list" where
  "includedFiles v u = included_loop v (view_Includes v u) [u]"

text \<open>The loop of three providers over the included files, which skips what cannot be read.\<close>

fun collect_included :: "Env \<Rightarrow> (Document \<Rightarrow> bytes set \<Rightarrow> bytes set option) \<Rightarrow> uri list \<Rightarrow> bytes set \<Rightarrow> bytes set request" where
  "collect_included env f [] names = answer names"
| "collect_included env f (inc # incs) names = and_then (parse_try env inc) (\<lambda>pf.
     (case pf of
        None \<Rightarrow> collect_included env f incs names
      | Some pf \<Rightarrow> and_then (lifted (f (pfAst pf) names)) (collect_included env f incs)))"

definition current_includes :: "uri \<Rightarrow> uri list request" where
  "current_includes u ix = answer (includedFiles (isView ix) u) ix"

definition name_candidates :: "map_order \<Rightarrow> Env \<Rightarrow> (Document \<Rightarrow> bytes set \<Rightarrow> bytes set option) \<Rightarrow> uri \<Rightarrow> Document \<Rightarrow> Candidate list request" where
  "name_candidates order env f u doc =
     and_then (lifted (f doc {})) (\<lambda>names.
     and_then (current_includes u) (\<lambda>incs.
     and_then (collect_included env f incs names) (\<lambda>names. answer (setCandidates order names))))"

section \<open>Types\<close>

definition qualified_names :: "map_order \<Rightarrow> bytes \<Rightarrow> bytes set \<Rightarrow> Candidate list" where
  "qualified_names order qual names = map (\<lambda>name. plain (qual @ ''.'' @ name)) (order names)"

fun included_types :: "map_order \<Rightarrow> Env \<Rightarrow> uri list \<Rightarrow> Candidate list request" where
  "included_types order env [] = answer []"
| "included_types order env (inc # incs) = and_then (parse_try env inc) (\<lambda>pf.
     (case pf of
        None \<Rightarrow> included_types order env incs
      | Some pf \<Rightarrow> and_then (lifted (collectTypeNames (pfAst pf) {})) (\<lambda>names.
          and_then (included_types order env incs) (\<lambda>rest.
            answer (qualified_names order (IncludeNameOf (evApi env) inc) names @ rest)))))"

definition typeCandidates :: "map_order \<Rightarrow> Env \<Rightarrow> uri \<Rightarrow> Context \<Rightarrow> Candidate list request" where
  "typeCandidates order env u c =
     (case cut_last CHR ''.'' (cxPrefix c) of
        Some (includeName, _) \<Rightarrow>
          (let incURI = GetIncludeURI (evApi env) (evIncludePaths env) (env_files env) u (cxDoc c) includeName in
           if incURI = [] then answer []
           else and_then (parse_try env incURI) (\<lambda>pf.
             (case pf of
                None \<Rightarrow> answer []
              | Some pf \<Rightarrow> and_then (lifted (collectTypeNames (pfAst pf) {})) (\<lambda>names.
                  answer (sortCandidates (qualified_names order includeName names))))))
      | None \<Rightarrow>
          and_then (lifted (collectTypeNames (cxDoc c) {})) (\<lambda>names.
          and_then (current_includes u) (\<lambda>incs.
          and_then (included_types order env incs) (\<lambda>types.
            answer (sortCandidates (setCandidates order names @ types @ map keyword_candidate typeKeywords))))))"

section \<open>Include paths\<close>

type_synonym directory = "bytes \<Rightarrow> (bytes \<times> bool) list option"

definition entry_text :: "bytes \<Rightarrow> bytes \<Rightarrow> bytes \<times> bool \<Rightarrow> bytes option" where
  "entry_text dirPart filePrefix e =
     (let (name, dir) = e in
      if \<not> HasPrefix name filePrefix then None
      else if dir then Some (path_Join dirPart name @ ''/'')
      else if HasSuffix name ''.thrift'' then Some (path_Join dirPart name)
      else None)"

fun add_entries :: "bytes \<Rightarrow> bytes \<Rightarrow> (bytes \<times> bool) list \<Rightarrow> bytes list \<Rightarrow> bytes list" where
  "add_entries dirPart filePrefix [] seen = seen"
| "add_entries dirPart filePrefix (e # es) seen =
     (case entry_text dirPart filePrefix e of
        None \<Rightarrow> add_entries dirPart filePrefix es seen
      | Some text \<Rightarrow> add_entries dirPart filePrefix es (if text \<in> set seen then seen else seen @ [text]))"

text \<open>The texts seen so far are those of the result, in its order.\<close>

definition ListDirAndFiles :: "directory \<Rightarrow> bytes \<Rightarrow> bytes list \<Rightarrow> bytes \<Rightarrow> Candidate list" where
  "ListDirAndFiles readDir dir includePaths pre =
     (let pre = trim_quotes pre;
          roots = filter (\<lambda>r. r \<noteq> []) (dir # includePaths);
          (dirPart, filePrefix) = (case cut_last SLASH pre of None \<Rightarrow> ([], pre) | Some (a, b) \<Rightarrow> (a @ ''/'', b)) in
      map plain (fold (\<lambda>root seen.
        (case readDir (path_Join root dirPart) of
           None \<Rightarrow> seen
         | Some es \<Rightarrow> add_entries dirPart filePrefix es seen)) roots []))"

section \<open>Providers\<close>

definition known_tokens :: "map_order \<Rightarrow> uri \<Rightarrow> Candidate list request" where
  "known_tokens order u ix =
     and_then (lifted (TokensForFile (isView ix) u)) (\<lambda>tokens. answer (map plain (order tokens))) ix"

text \<open>The only provider of a slot, or none.\<close>

definition provided :: "map_order \<Rightarrow> directory \<Rightarrow> Env \<Rightarrow> uri \<Rightarrow> Context \<Rightarrow> Candidate list request" where
  "provided order readDir env u c =
     (case cxKind c of
        CtxIncludePath \<Rightarrow> answer (ListDirAndFiles readDir (path_Dir (urFsPath (evApi env) u)) (evIncludePaths env) (cxPrefix c))
      | CtxType \<Rightarrow> typeCandidates order env u c
      | CtxFieldValue \<Rightarrow> name_candidates order env collectValueNames u (cxDoc c)
      | CtxFieldName \<Rightarrow> and_then (known_tokens order u) (\<lambda>cs. answer ([plain ''required'', plain ''optional''] @ cs))
      | CtxEnumValueName \<Rightarrow> name_candidates order env collectValueNames u (cxDoc c)
      | CtxAnnotationKey \<Rightarrow> name_candidates order env annotationKeys u (cxDoc c)
      | CtxServiceExtends \<Rightarrow> name_candidates order env serviceNames u (cxDoc c)
      | CtxKeyword \<Rightarrow> and_then (known_tokens order u) (\<lambda>cs. answer (keyword_candidates order @ cs))
      | _ \<Rightarrow> answer [])"

section \<open>The completion list\<close>

definition maxCandidates :: nat where
  "maxCandidates = 10"

definition trailing_dot :: "bytes option \<Rightarrow> nat \<Rightarrow> bool" where
  "trailing_dot content offset =
     (case content of None \<Rightarrow> False | Some c \<Rightarrow> offset > 0 \<and> offset \<le> length c \<and> c ! (offset - 1) = CHR ''.'')"

text \<open>The context with a dot before the cursor taken into account, and whether there is one.\<close>

definition qualify :: "bytes option \<Rightarrow> Context \<Rightarrow> bool \<times> Context" where
  "qualify content cc =
     (if HasSuffix (cxPrefix cc) ''.'' then (True, cc)
      else if trailing_dot content (cxOffset cc) then
        (True, if cxKind cc = CtxType then cc\<lparr>cxPrefix := cxPrefix cc @ ''.''\<rparr> else cc\<lparr>cxKind := CtxFieldValue, cxPrefix := []\<rparr>)
      else (False, cc))"

definition trim_dots :: "bytes \<Rightarrow> bytes" where
  "trim_dots s = rev (dropWhile (\<lambda>c. c = CHR ''.'') (rev s))"

fun filter_loop :: "bytes \<Rightarrow> Candidate list \<Rightarrow> bytes list \<Rightarrow> Candidate list" where
  "filter_loop pre [] seen = []"
| "filter_loop pre (c # cs) seen =
     (if pre \<noteq> [] \<and> caShow c = pre then filter_loop pre cs seen
      else if \<not> HasPrefix (caShow c) pre then filter_loop pre cs seen
      else if caShow c \<in> set seen then filter_loop pre cs seen
      else c # filter_loop pre cs (caShow c # seen))"

definition insert_last :: "Candidate \<Rightarrow> Candidate" where
  "insert_last c = (case cut_last CHR ''.'' (caShow c) of None \<Rightarrow> c | Some (_, b) \<Rightarrow> c\<lparr>caInsert := b\<rparr>)"

text \<open>All candidates start with the prefix here, so the first test of the comparison is void.\<close>

definition completion_list :: "bool \<Rightarrow> bytes \<Rightarrow> Candidate list \<Rightarrow> Candidate list \<times> bool" where
  "completion_list qualified pre cs =
     (let cs = filter_loop pre cs [];
          cs = (if qualified then map insert_last cs else cs);
          cs = sort_key (\<lambda>c. (length (caShow c), caShow c)) cs in
      (take maxCandidates cs, length cs > maxCandidates))"

record CompletionItem =
  cpLabel :: bytes
  cpDetail :: bytes
  cpInsertText :: bytes
  cpSnippet :: bool

definition BuildCompletionItem :: "Candidate \<Rightarrow> CompletionItem" where
  "BuildCompletionItem c = \<lparr>cpLabel = caShow c, cpDetail = caShow c, cpInsertText = caInsert c, cpSnippet = caSnippet c\<rparr>"

definition edit_range :: "ParsedFile \<Rightarrow> nat \<Rightarrow> LspPosition \<Rightarrow> LspRange" where
  "edit_range pf editStart cursor =
     \<lparr>lrStart = (case OffsetToLSPPosition (file_mapper pf) (int editStart) of Inl err \<Rightarrow> cursor | Inr start \<Rightarrow> start),
      lrEnd = cursor\<rparr>"

definition CompletionItems :: "map_order \<Rightarrow> directory \<Rightarrow> Env \<Rightarrow> uri \<times> bytes option \<Rightarrow> LspPosition \<Rightarrow>
    (CompletionItem list \<times> LspRange \<times> bool) request" where
  "CompletionItems order readDir env fh cursor = and_then (parsing env (fst fh)) (\<lambda>pf.
     (case LSPPosToParserPosition (file_mapper pf) cursor of
        Inl err \<Rightarrow> refuse (Bad_position err)
      | Inr pos \<Rightarrow> and_then (lifted (ResolveContext (pfAst pf) pos)) (\<lambda>cc.
          (let (qualified, cc) = qualify (snd fh) cc;
               pre = (if qualified then trim_dots (cxPrefix cc) else cxPrefix cc);
               editStart = (if qualified then cxOffset cc else cxEditStart cc) in
           and_then (provided order readDir env (fst fh) cc) (\<lambda>cs.
             (let (items, truncated) = completion_list qualified pre cs in
              answer (map BuildCompletionItem items, edit_range pf editStart cursor, truncated)))))))"

end
