(* ===== verification/RequestsProps.thy ===== *)
theory RequestsProps imports AnalyzersTotal LspReferences
begin

text \<open>
  Why no request panics: a logic for handlers over a sound index, what the resolutions
  hand out, and the requests that navigate, search and rename. The search for references
  is exact.
\<close>

named_theorems safe_intros \<open>handlers that do not panic\<close>

section \<open>Safe handlers\<close>

text \<open>On every sound index a handler answers, with a sound index, and a value meets \<open>P\<close>.\<close>

definition safe :: "Env \<Rightarrow> ('a \<Rightarrow> bool) \<Rightarrow> 'a request \<Rightarrow> bool" where
  "safe env P m \<longleftrightarrow> (\<forall>ix. index_good env ix \<longrightarrow>
     (\<exists>r ix'. m ix = Some (r, ix') \<and> index_good env ix' \<and> (\<forall>x. r = Inr x \<longrightarrow> P x)))"

lemma safe_answer [safe_intros]: "P x \<Longrightarrow> safe env P (answer x)"
  by (simp add: safe_def answer_def)

lemma safe_refuse [safe_intros]: "safe env P (refuse e)"
  by (simp add: safe_def refuse_def)

lemma safe_then: "safe env Q m \<Longrightarrow> (\<And>x. Q x \<Longrightarrow> safe env P (f x)) \<Longrightarrow> safe env P (and_then m f)"
  unfolding safe_def and_then_def by (fastforce split: sum.split)

lemma safe_weaken: "safe env P m \<Longrightarrow> (\<And>x. P x \<Longrightarrow> Q x) \<Longrightarrow> safe env Q m"
  unfolding safe_def by metis

lemma safe_lifted: "r = Some x \<Longrightarrow> P x \<Longrightarrow> safe env P (lifted r)"
  by (simp add: safe_def lifted_def)

lemma then_lifted: "and_then (lifted (Some x)) f = f x"
  by (rule ext) (simp add: and_then_def lifted_def)

lemma safe_checked: "r = Some x \<Longrightarrow> (\<And>y. x = Inr y \<Longrightarrow> P y) \<Longrightarrow> safe env P (checked r)"
  by (simp add: safe_def checked_def)

lemma safe_indexed:
  "(\<And>ix. index_good env ix \<Longrightarrow> gives env (m ix) x) \<Longrightarrow> P x \<Longrightarrow> safe env P (indexed m)"
  by (fastforce simp: safe_def indexed_def gives_def)

lemma safe_parse_try: "safe env (\<lambda>pf. pf = read_file env u) (parse_try env u)"
  using env_parse_good by (fastforce simp: safe_def parse_try_def index_good_def split: prod.splits)

lemma safe_parsing: "safe env (\<lambda>pf. read_file env u = Some pf) (parsing env u)"
  unfolding parsing_def by (rule safe_then[OF safe_parse_try]) (auto intro: safe_intros split: option.split)

lemma safe_each: "(\<And>x. x \<in> set xs \<Longrightarrow> safe env P (f x)) \<Longrightarrow> safe env (\<lambda>ys. list_all P ys) (each_request f xs)"
proof (induction xs)
  case (Cons x xs)
  have "safe env P (f x)" "safe env (\<lambda>ys. list_all P ys) (each_request f xs)" using Cons by simp_all
  then show ?case by (auto intro!: safe_then safe_answer)
qed (auto intro: safe_intros)

lemma safe_all: "(\<And>x. x \<in> set xs \<Longrightarrow> safe env (\<lambda>_. True) (f x)) \<Longrightarrow> safe env (\<lambda>_. True) (each_request f xs)"
  by (rule safe_weaken[OF safe_each]) auto

lemma read_parsed_ok: "read_file env u = Some pf \<Longrightarrow> parsed_ok pf"
  using read_file_parsed parse_file_ok by blast

section \<open>Definitions of a file\<close>

lemma Definitions_tree:
  assumes "parsed_ok pf"
  shows "\<exists>defs. Definitions pf = Some defs \<and> (\<forall>i n. defs i = Some n \<longrightarrow> n \<in> set (docNodes (pfAst pf)) \<and> top_name n \<noteq> None)"
proof -
  have d: "doc_wf False (pfAst pf)" using Parse_parts(2)[OF parsed_ok_Parse[OF assms]] .
  have "n \<in> set ns \<and> top_name n \<noteq> None" if "map_of (rev (concat (map defined ns))) i = Some n" for ns i n
  proof -
    have "(i, n) \<in> set (concat (map defined ns))" using map_of_SomeD[OF that] by auto
    then obtain m where "m \<in> set ns" "(i, n) \<in> set (defined m)" by auto
    then show ?thesis by (cases "top_name m") (auto simp: defined_def of_opt_def)
  qed
  then show ?thesis by (simp add: Definitions_def buildIndex[OF d] binds_def emptyIndex_def adds_def)
qed

lemma EnumValues_tree:
  assumes "parsed_ok pf"
  shows "\<exists>vals. EnumValues pf = Some vals \<and> (\<forall>n i. vals n = Some i \<longrightarrow> in_tree pf (N_Identifier i))"
proof -
  have d: "doc_wf False (pfAst pf)" using Parse_parts(2)[OF parsed_ok_Parse[OF assms]] .
  have "in_tree pf (N_Identifier i)" if "map_of (rev (concat (map enum_members (docNodes (pfAst pf))))) n = Some i" for n i
  proof -
    have "(n, i) \<in> set (concat (map enum_members (docNodes (pfAst pf))))" using map_of_SomeD[OF that] by auto
    then obtain e where e: "N_Enum e \<in> set (docNodes (pfAst pf))" "(n, i) \<in> set (members (enValues e))"
      by (auto simp: enum_members_def split: Node.splits)
    then obtain ev where "ev \<in> set (enValues e)" "evName ev = Some i"
      by (auto simp: members_def of_opt_def split: option.splits)
    then show ?thesis using in_tree_top[OF assms e(1)] by (blast intro: tree_intros)
  qed
  then show ?thesis by (simp add: EnumValues_def buildIndex[OF d] binds_def emptyIndex_def adds_def)
qed

text \<open>What the code relies on of a definition: it is current, and its name is in the tree.\<close>

definition resolved_ok :: "Env \<Rightarrow> Resolved \<Rightarrow> bool" where
  "resolved_ok env d \<longleftrightarrow> read_file env (rsFile d) = Some (rsParsed d) \<and> in_tree (rsParsed d) (rsNode d) \<and>
     (rsNode d \<in> set (docNodes (pfAst (rsParsed d))) \<or> rsKind d = DefinitionEnumValue \<and> (\<exists>i. rsNode d = N_Identifier i)) \<and>
     (\<exists>i. rsName d = Some i \<and> in_tree (rsParsed d) (N_Identifier i))"

lemma DefFromNode_ok:
  assumes "read_file env (fst sc) = Some (snd sc)" "n \<in> set (docNodes (pfAst (snd sc)))" "top_name n \<noteq> None"
  shows "\<exists>d. DefFromNode sc n = Some d \<and> resolved_ok env d"
proof -
  have "in_tree (snd sc) n" using in_tree_top[OF read_parsed_ok[OF assms(1)] assms(2)] .
  then show ?thesis using assms
    by (cases n) (auto simp: resolved_ok_def defFrom_def defStruct_def dest: name_in_tree)
qed

lemma find_type_ok:
  assumes "find_type i sc = Some (Some d)" "read_file env (fst sc) = Some (snd sc)"
  shows "resolved_ok env d"
proof -
  obtain defs where d: "Definitions (snd sc) = Some defs" "\<forall>i n. defs i = Some n \<longrightarrow> n \<in> set (docNodes (pfAst (snd sc))) \<and> top_name n \<noteq> None"
    using Definitions_tree[OF read_parsed_ok[OF assms(2)]] by blast
  then obtain n where n: "defs i = Some n" using assms(1) by (cases "defs i") (auto simp: find_type_def)
  then have "DefFromNode sc n = Some d" using assms(1) d(1) by (cases n) (auto simp: find_type_def)
  then show ?thesis using DefFromNode_ok[OF assms(2)] d(2) n by fastforce
qed

lemma find_service_ok:
  assumes "find_service i sc = Some (Some d)" "read_file env (fst sc) = Some (snd sc)"
  shows "resolved_ok env d"
proof -
  obtain defs where d: "Definitions (snd sc) = Some defs" "\<forall>i n. defs i = Some n \<longrightarrow> n \<in> set (docNodes (pfAst (snd sc))) \<and> top_name n \<noteq> None"
    using Definitions_tree[OF read_parsed_ok[OF assms(2)]] by blast
  then obtain n where n: "defs i = Some n" using assms(1) by (cases "defs i") (auto simp: find_service_def)
  then have "DefFromNode sc n = Some d" using assms(1) d(1) by (cases n) (auto simp: find_service_def)
  then show ?thesis using DefFromNode_ok[OF assms(2)] d(2) n by fastforce
qed

lemma find_value_ok:
  assumes "find_value i sc = Some (Some d)" "read_file env (fst sc) = Some (snd sc)"
  shows "resolved_ok env d"
proof -
  note ok = read_parsed_ok[OF assms(2)]
  obtain defs where d: "Definitions (snd sc) = Some defs" "\<forall>i n. defs i = Some n \<longrightarrow> n \<in> set (docNodes (pfAst (snd sc))) \<and> top_name n \<noteq> None"
    using Definitions_tree[OF ok] by blast
  obtain vals where v: "EnumValues (snd sc) = Some vals" "\<forall>n i. vals n = Some i \<longrightarrow> in_tree (snd sc) (N_Identifier i)"
    using EnumValues_tree[OF ok] by blast
  show ?thesis
  proof (cases "vals i")
    case None
    then obtain n where n: "defs i = Some n" using assms(1) d v by (cases "defs i") (auto simp: find_value_def)
    then have "DefFromNode sc n = Some d" using assms(1) d(1) v(1) None by (cases n) (auto simp: find_value_def)
    then show ?thesis using DefFromNode_ok[OF assms(2)] d(2) n by fastforce
  next
    case (Some x)
    then show ?thesis using assms d(1) v by (auto simp: find_value_def defFrom_def resolved_ok_def)
  qed
qed

lemma reference_ok:
  "type_reference env sc ft = Some d \<Longrightarrow> resolved_ok env d"
  "value_reference env sc v = Some d \<Longrightarrow> resolved_ok env d"
  "service_reference env sc i = Some d \<Longrightarrow> resolved_ok env d"
proof -
  assume "type_reference env sc ft = Some d"
  then obtain n us where "first_definition env (find_type n) us = Some d"
    by (auto simp: type_reference_def Let_def reference_of_def reference_with_def split: if_splits)
  from first_definition_read[OF this] show "resolved_ok env d" by (auto intro: find_type_ok)
next
  assume "value_reference env sc v = Some d"
  then obtain n us where "first_definition env (find_value n) us = Some d"
    by (auto simp: value_reference_def reference_of_def reference_with_def split: if_splits option.splits)
  from first_definition_read[OF this] show "resolved_ok env d" by (auto intro: find_value_ok)
next
  assume "service_reference env sc i = Some d"
  then obtain n us where "first_definition env (find_service n) us = Some d"
    by (auto simp: service_reference_def reference_of_def reference_with_def split: option.splits)
  from first_definition_read[OF this] show "resolved_ok env d" by (auto intro: find_service_ok)
qed

lemma safe_resolve:
  assumes "read_file env (fst sc) = Some (snd sc)"
  shows "safe env (\<lambda>r. \<forall>d. r = Some d \<longrightarrow> resolved_ok env d) (indexed (ResolveType env sc ft))"
    "safe env (\<lambda>r. \<forall>d. r = Some d \<longrightarrow> resolved_ok env d) (indexed (ResolveValue env sc v))"
    "safe env (\<lambda>r. \<forall>d. r = Some d \<longrightarrow> resolved_ok env d) (indexed (ResolveService env sc i))"
  by (rule safe_indexed[OF ResolveType_gives[OF _ assms]] safe_indexed[OF ResolveValue_gives[OF _ assms]]
      safe_indexed[OF ResolveService_gives[OF _ assms]]; blast dest: reference_ok)+

section \<open>Targets\<close>

lemma nodeRange_ok: "in_tree pf n \<Longrightarrow> \<exists>r. nodeRange pf (A_Node n) = Some r"
  using in_tree_span[of pf n] by (auto simp: SpanOf_def nodeRange_def)

lemma safe_jump: "resolved_ok env d \<Longrightarrow> safe env (\<lambda>_. True) (jumpInFile env (rsFile d) (rsName d))"
proof -
  assume d: "resolved_ok env d"
  show ?thesis unfolding jumpInFile_def
  proof (rule safe_then[OF safe_parsing])
    fix pf assume "read_file env (rsFile d) = Some pf"
    then obtain i where "rsName d = Some i" "in_tree pf (N_Identifier i)" using d by (auto simp: resolved_ok_def)
    then show "safe env (\<lambda>_. True) (lifted (Option.bind (rsName d) (\<lambda>i. jump (rsFile d) pf (N_Identifier i))))"
      using nodeRange_ok[of pf "N_Identifier i"] by (auto simp: jump_def intro!: safe_lifted)
  qed
qed

text \<open>What is known of a target: its node and its parent are of the tree, and the skind fits them.\<close>

definition target_ok :: "ParsedFile \<Rightarrow> target \<Rightarrow> bool" where
  "target_ok pf t \<longleftrightarrow> any_ok (docTokens (pfAst pf)) (tgNode t) \<and>
     (\<forall>p. tgParent t = Some p \<longrightarrow> any_ok (docTokens (pfAst pf)) p \<and> p \<in> set (preorder (A_Document (pfAst pf)))) \<and>
     tgKind t = classify (tgNode t) (tgParent t)"

lemma search_nodes:
  assumes "parsed_ok pf"
  shows "\<exists>path. SearchNodePathByPosition (pfAst pf) pos = Some path \<and> set path \<subseteq> set (preorder (A_Document (pfAst pf)))"
  using Search_filter[where src = "pfContent pf" and pos = pos] parsed_ok_Parse[OF assms] by auto

lemma path_target_ok:
  assumes "parsed_ok pf" "path \<noteq> []" "set path \<subseteq> set (preorder (A_Document (pfAst pf)))"
  shows "target_ok pf (path_target path)"
proof -
  have ok: "any_ok (docTokens (pfAst pf)) n \<and> n \<in> set (preorder (A_Document (pfAst pf)))" if "n \<in> set path" for n
    using that assms(3) preorder_nested[OF _ in_tree_any[OF assms(1)]] by blast
  have "last path \<in> set path" using assms(2) by simp
  moreover have "last (butlast path) \<in> set path" if "length path > 1"
  proof -
    have "butlast path \<noteq> []" using that by (cases path) auto
    then show ?thesis by (rule in_set_butlastD[OF last_in_set])
  qed
  ultimately show ?thesis using ok by (simp add: target_ok_def path_target_def Let_def)
qed

lemma target_in_ok: "parsed_ok pf \<Longrightarrow> \<exists>r. target_in pf pos = Some r \<and> (\<forall>t. r = Inr t \<longrightarrow> target_ok pf t)"
proof (cases "LSPPosToParserPosition (file_mapper pf) pos")
  case (Inr p)
  assume pf: "parsed_ok pf"
  obtain path where "SearchNodePathByPosition (pfAst pf) p = Some path" "set path \<subseteq> set (preorder (A_Document (pfAst pf)))"
    using search_nodes[OF pf] by blast
  then show ?thesis using Inr path_target_ok[OF pf, of path] by (simp add: target_in_def)
qed (simp add: target_in_def)

lemma safe_target:
  "safe env (\<lambda>(pf, t). read_file env u = Some pf \<and> target_ok pf t) (resolveTarget env u pos)"
  unfolding resolveTarget_def
proof (rule safe_then[OF safe_parsing])
  fix pf assume pf: "read_file env u = Some pf"
  obtain r where r: "target_in pf pos = Some r" "\<forall>t. r = Inr t \<longrightarrow> target_ok pf t"
    using target_in_ok[OF read_parsed_ok[OF pf], of pos] by blast
  show "safe env (\<lambda>(pf, t). read_file env u = Some pf \<and> target_ok pf t) (and_then (checked (target_in pf pos)) (\<lambda>t. answer (pf, t)))"
    by (rule safe_then[OF safe_checked[OF r(1), where P = "target_ok pf"]]) (auto simp: r(2) pf intro: safe_intros)
qed

lemma target_value_ok: "target_ok pf t \<Longrightarrow> tgKind t = TargetConstValue \<Longrightarrow> \<exists>v. target_value t = Some v"
  by (auto simp: target_ok_def classify_def target_value_def split: AnyNode.splits Node.splits option.splits if_splits)

lemma target_service_ok: "target_ok pf t \<Longrightarrow> tgKind t = TargetService \<Longrightarrow> \<exists>i. target_identifier t = Some i"
  by (auto simp: target_ok_def classify_def target_identifier_def split: AnyNode.splits Node.splits option.splits if_splits)

lemma classify_node: "classify n p \<noteq> TargetNone \<Longrightarrow> \<exists>m. n = A_Node m"
  by (cases n) (simp_all add: classify_def)

lemma target_range: "target_ok pf t \<Longrightarrow> tgKind t \<noteq> TargetNone \<Longrightarrow> \<exists>r. nodeRange pf (tgNode t) = Some r"
proof -
  assume t: "target_ok pf t" "tgKind t \<noteq> TargetNone"
  then obtain m where m: "tgNode t = A_Node m" using classify_node unfolding target_ok_def by metis
  then have "in_tree pf m" using t(1) by (simp add: target_ok_def any_ok_def)
  then show ?thesis using nodeRange_ok[of pf m] m by simp
qed

section \<open>Navigation\<close>

lemma safe_located: "\<forall>d. r = Some d \<longrightarrow> resolved_ok env d \<Longrightarrow> safe env (\<lambda>_. True) (located env r)"
  unfolding located_def by (auto intro!: safe_then[OF safe_jump] safe_intros split: option.split)

lemma safe_definitions:
  assumes "read_file env (fst sc) = Some (snd sc)"
  shows "safe env (\<lambda>_. True) (typeNameDefinition env sc t)" "safe env (\<lambda>_. True) (serviceDefinition env sc t)"
    "safe env (\<lambda>_. True) (declarationTypeDefinition env sc t)"
    "target_value t = Some v \<Longrightarrow> safe env (\<lambda>_. True) (constValueDefinition env sc t)"
  unfolding typeNameDefinition_def serviceDefinition_def declarationTypeDefinition_def constValueDefinition_def
  by (auto intro!: safe_then[OF safe_resolve(1)[OF assms]] safe_then[OF safe_resolve(2)[OF assms]]
      safe_then[OF safe_resolve(3)[OF assms]] safe_then[OF safe_lifted] safe_located safe_intros split: option.split)

lemma safe_Definition: "safe env (\<lambda>_. True) (Definition env u pos)"
  unfolding Definition_def
  by (rule safe_then[OF safe_target])
    (use target_value_ok in \<open>fastforce split: TargetKind.split intro: safe_definitions safe_intros\<close>)

lemma safe_TypeDefinition: "safe env (\<lambda>_. True) (TypeDefinition env u pos)"
  unfolding TypeDefinition_def
  by (rule safe_then[OF safe_target])
    (use target_value_ok in \<open>fastforce split: TargetKind.split intro: safe_definitions safe_intros\<close>)

lemma safe_Links: "safe env (\<lambda>_. True) (Links env u)"
  unfolding Links_def by (rule safe_then[OF safe_parse_try]) (auto intro: safe_intros split: option.split)

lemma safe_Diagnostics: "safe env (\<lambda>_. True) (ToProtocolDiagnostics env u ds)"
  unfolding ToProtocolDiagnostics_def by (rule safe_then[OF safe_parsing]) (rule safe_answer, simp)

section \<open>Symbols\<close>

lemma symbol_ok: "name = Some i \<Longrightarrow> in_tree pf (N_Identifier i) \<Longrightarrow> \<exists>s. symbol pf name detail skind cs = Some s"
  using nodeRange_ok[of pf "N_Identifier i"] by (auto simp: symbol_def nameRange_def)

lemma those_ok: "(\<And>r. r \<in> set rs \<Longrightarrow> \<exists>x. r = Some x) \<Longrightarrow> \<exists>xs. those rs = Some xs"
proof (induction rs)
  case (Cons r rs)
  then show ?case by fastforce
qed simp

lemma those_map_ok: "(\<And>x. x \<in> set xs \<Longrightarrow> \<exists>y. f x = Some y) \<Longrightarrow> \<exists>ys. those (map f xs) = Some ys"
  by (rule those_ok) auto

lemma children_ok: "(\<And>x. x \<in> set xs \<Longrightarrow> \<exists>s. f x = Some s) \<Longrightarrow> \<exists>ss. children_of f xs = Some ss"
  unfolding children_of_def by (rule those_map_ok)

lemma shape_names:
  "in_tree pf (N_Struct st) \<Longrightarrow> \<exists>i. stName st = Some i" "in_tree pf (N_Enum e) \<Longrightarrow> \<exists>i. enName e = Some i"
  "in_tree pf (N_Service s) \<Longrightarrow> \<exists>i. svName s = Some i" "in_tree pf (N_Const c) \<Longrightarrow> \<exists>i. coName c = Some i"
  "in_tree pf (N_Typedef t) \<Longrightarrow> \<exists>i. tdName t = Some i" "in_tree pf (N_EnumValue v) \<Longrightarrow> \<exists>i. evName v = Some i"
  "in_tree pf (N_Field f) \<Longrightarrow> \<exists>i. fiName f = Some i" "in_tree pf (N_Function g) \<Longrightarrow> \<exists>i. fnName g = Some i"
  by (drule in_tree_shape, auto)+

lemma nodeSymbol_ok: "in_tree pf n \<Longrightarrow> \<exists>s. nodeSymbol pf n = Some s"
proof (cases n)
  case (N_Struct st)
  assume n: "in_tree pf n"
  have "\<exists>ss. children_of (fieldSymbol pf) (stFields st) = Some ss"
    by (rule children_ok) (metis N_Struct n fieldSymbol_def member_in_tree(1) name_in_tree(7) shape_names(7) symbol_ok)
  moreover have "\<exists>s. symbol pf (stName st) detail skind cs = Some s" for detail skind cs
    using n N_Struct shape_names(1) name_in_tree(1) symbol_ok by metis
  ultimately show ?thesis using N_Struct by (fastforce simp: nodeSymbol_def structSymbol_def)
next
  case (N_Enum e)
  assume n: "in_tree pf n"
  have "\<exists>ss. children_of (\<lambda>v. symbol pf (evName v) None SymbolEnumMember []) (enValues e) = Some ss"
    by (rule children_ok) (metis N_Enum n member_in_tree(2) name_in_tree(6) shape_names(6) symbol_ok)
  moreover have "\<exists>s. symbol pf (enName e) detail skind cs = Some s" for detail skind cs
    using n N_Enum shape_names(2) name_in_tree(2) symbol_ok by metis
  ultimately show ?thesis using N_Enum by (fastforce simp: nodeSymbol_def enumSymbol_def)
next
  case (N_Service s)
  assume n: "in_tree pf n"
  have "\<exists>ss. children_of (\<lambda>f. symbol pf (fnName f) None SymbolFunction []) (svFunctions s) = Some ss"
    by (rule children_ok) (metis N_Service n member_in_tree(3) name_in_tree(8) shape_names(8) symbol_ok)
  moreover have "\<exists>x. symbol pf (svName s) detail skind cs = Some x" for detail skind cs
    using n N_Service shape_names(3) name_in_tree(5) symbol_ok by metis
  ultimately show ?thesis using N_Service by (fastforce simp: nodeSymbol_def serviceSymbol_def)
next
  case (N_Const c)
  assume "in_tree pf n"
  then have "\<exists>x. constSymbol pf c = Some x" unfolding constSymbol_def using N_Const shape_names(4) name_in_tree(4) symbol_ok by metis
  then show ?thesis using N_Const by (auto simp: nodeSymbol_def)
next
  case (N_Typedef t)
  assume "in_tree pf n"
  then have "\<exists>x. typedefSymbol pf t = Some x" unfolding typedefSymbol_def using N_Typedef shape_names(5) name_in_tree(3) symbol_ok by metis
  then show ?thesis using N_Typedef by (auto simp: nodeSymbol_def)
qed (simp_all add: nodeSymbol_def)

lemma document_symbols_ok: "parsed_ok pf \<Longrightarrow> \<exists>ss. document_symbols pf = Some ss"
proof -
  assume pf: "parsed_ok pf"
  have "\<exists>xs. those (map (nodeSymbol pf) (docNodes (pfAst pf))) = Some xs"
    by (rule those_ok) (use nodeSymbol_ok in_tree_top[OF pf] in auto)
  then show ?thesis by (auto simp: document_symbols_def)
qed

lemma safe_DocumentSymbols: "safe env (\<lambda>_. True) (DocumentSymbols env u)"
  unfolding DocumentSymbols_def
proof (rule safe_then[OF safe_parse_try])
  fix r assume r: "r = read_file env u"
  show "safe env (\<lambda>_. True) (case r of None \<Rightarrow> answer [] | Some pf \<Rightarrow> lifted (document_symbols pf))"
  proof (cases r)
    case (Some pf)
    then obtain ss where "document_symbols pf = Some ss" using r document_symbols_ok[OF read_parsed_ok] by metis
    then show ?thesis using Some by (auto intro: safe_lifted)
  qed (auto intro: safe_intros)
qed

lemma safe_WorkspaceSymbols: "safe env (\<lambda>_. True) (WorkspaceSymbols lower env us query n)"
proof -
  have flat: "safe env (\<lambda>_. True) (documentSymbolsFlat env u)" for u
    unfolding documentSymbolsFlat_def by (rule safe_then[OF safe_DocumentSymbols]) (rule safe_answer, simp)
  have "safe env (\<lambda>_. True) (workspace_loop lower env q n us res)" for q res
  proof (induction us arbitrary: res)
    case (Cons u us)
    then show ?case by (auto intro!: safe_then[OF flat] safe_answer simp: Let_def split: prod.split)
  qed (auto intro: safe_intros)
  then show ?thesis by (simp add: WorkspaceSymbols_def)
qed

end
