(* ===== verification/ReferenceProps.thy ===== *)
theory ReferenceProps imports RequestsProps
begin

text \<open>
  The search for references is exact: what it finds, stated without the index, its memo table
  and the cache of the view. And no request on references panics.
\<close>

section \<open>The nodes of references\<close>

lemma of_opt_mem: "s \<in> set (of_opt f x) \<longleftrightarrow> (\<exists>y. x = Some y \<and> s \<in> set (f y))"
  by (cases x) simp_all

lemma sel_ref_tree:
  assumes "any_ok (docTokens (pfAst pf)) m" "r \<in> set (sel_ref m)"
  shows "in_tree pf (rfNode r)"
proof (cases m)
  case (A_Node n)
  then have n: "in_tree pf n" using assms(1) by (simp add: any_ok_def)
  show ?thesis using assms(2) in_tree_part[OF n] n unfolding A_Node
    by (cases n) (auto simp: sel_ref_def of_opt_mem ident_ref_def split: if_splits)
qed (use assms(2) in \<open>simp add: sel_ref_def\<close>)

lemma node_refs_tree:
  assumes "parsed_ok pf" "n \<in> set (docNodes (pfAst pf))" "r \<in> set (node_refs n)"
  shows "in_tree pf (rfNode r)"
proof -
  have "toplevel n" using Parse_parts(2)[OF parsed_ok_Parse[OF assms(1)]] assms(2) by (simp add: doc_wf_def list_all_iff)
  then have "set (bare (node_refs n)) = set (refs_below n)" using found_toplevel by (metis mset_eq_setD)
  then have "rfNode r \<in> rfNode ` set (collect sel_ref (A_Node n))"
    using assms(3) unfolding refs_below_def bare_def by force
  then obtain s where s: "rfNode s = rfNode r" "s \<in> set (collect sel_ref (A_Node n))" by auto
  then obtain m where "m \<in> set (preorder (A_Node n))" "s \<in> set (sel_ref m)" by (auto simp: collect_def)
  moreover have "any_ok (docTokens (pfAst pf)) (A_Node n)" using in_tree_top[OF assms(1,2)] by (simp add: any_ok_def)
  ultimately show ?thesis using sel_ref_tree preorder_nested s(1) by metis
qed

definition file_refs :: "ParsedFile \<Rightarrow> Reference list" where
  "file_refs pf = concat (map node_refs (docNodes (pfAst pf)))"

lemma References_tree: "parsed_ok pf \<Longrightarrow> References pf = Some (file_refs pf)"
  using buildIndex[OF Parse_parts(2)[OF parsed_ok_Parse]] by (simp add: References_def file_refs_def binds_def emptyIndex_def)

lemma file_refs_tree: "parsed_ok pf \<Longrightarrow> r \<in> set (file_refs pf) \<Longrightarrow> in_tree pf (rfNode r)"
  using node_refs_tree by (auto simp: file_refs_def)

section \<open>References of a definition\<close>

text \<open>The definition a reference resolves to, by the direct search over the current files.\<close>

definition denoted :: "Env \<Rightarrow> scope \<Rightarrow> Reference \<Rightarrow> Resolved option" where
  "denoted env sc r =
     (case rfKind r of
        RefConstValue \<Rightarrow> (case rfNode r of N_ConstValue v \<Rightarrow> value_reference env sc (Some v) | _ \<Rightarrow> None)
      | RefServiceExtends \<Rightarrow> (case rfNode r of N_Identifier i \<Rightarrow> service_reference env sc (Some i) | _ \<Rightarrow> None)
      | _ \<Rightarrow> (case rfNode r of N_Identifier i \<Rightarrow> type_reference env sc (Some (typeReference (idText i))) | _ \<Rightarrow> None))"

definition same_definition :: "Resolved option \<Rightarrow> Resolved \<Rightarrow> bool" where
  "same_definition d def \<longleftrightarrow> (\<exists>x. d = Some x \<and> rsFile x = rsFile def \<and> name_text x = name_text def)"

text \<open>
  A reference refers to a definition by its name, or to an enum by the qualifier of one of its
  values.
\<close>

definition refers_to :: "Env \<Rightarrow> Resolved \<Rightarrow> scope \<Rightarrow> Reference \<Rightarrow> bool" where
  "refers_to env def sc r \<longleftrightarrow> map_option BareName (name_text def) = Some (BareName (rfName r)) \<and>
     same_definition (denoted env sc r) def"

definition qualified_by :: "Env \<Rightarrow> Resolved \<Rightarrow> scope \<Rightarrow> Reference \<Rightarrow> nat \<Rightarrow> bytes \<Rightarrow> bool" where
  "qualified_by env def sc r off seg \<longleftrightarrow>
     Option.bind (name_text def) (enumSegment (rfName r)) = Some (seg, off) \<and>
     same_definition (type_reference env sc (Some (typeReference (take (off + length seg) (rfName r))))) def"

definition by_qualifier :: "Resolved \<Rightarrow> RefKind list \<Rightarrow> Reference \<Rightarrow> bool" where
  "by_qualifier def kinds r \<longleftrightarrow> rfKind r = RefConstValue \<and> rsKind def = DefinitionEnum \<and> referenceKind RefConstValue kinds"

definition hits_of :: "Env \<Rightarrow> Resolved \<Rightarrow> RefKind list \<Rightarrow> scope \<Rightarrow> Reference \<Rightarrow> Hit list" where
  "hits_of env def kinds sc r =
     (if by_qualifier def kinds r then
        (case Option.bind (name_text def) (enumSegment (rfName r)) of
           None \<Rightarrow> []
         | Some (seg, off) \<Rightarrow> if qualified_by env def sc r off seg then of_opt (\<lambda>h. [h]) (enumSegmentHit sc (rfNode r) off seg) else [])
      else if referenceKind (rfKind r) kinds \<and> refers_to env def sc r then of_opt (\<lambda>h. [h]) (reference_hit sc r)
      else [])"

definition file_hits :: "Env \<Rightarrow> Resolved \<Rightarrow> RefKind list \<Rightarrow> uri \<Rightarrow> Hit list" where
  "file_hits env def kinds f =
     of_opt (\<lambda>pf. concat (map (hits_of env def kinds (f, pf)) (file_refs pf))) (read_file env f)"

lemma hits_of_mem:
  "h \<in> set (hits_of env def kinds sc r) \<longleftrightarrow>
     (if by_qualifier def kinds r
      then \<exists>off seg. qualified_by env def sc r off seg \<and> enumSegmentHit sc (rfNode r) off seg = Some h
      else referenceKind (rfKind r) kinds \<and> refers_to env def sc r \<and> reference_hit sc r = Some h)"
  by (auto simp: hits_of_def of_opt_mem qualified_by_def split: option.splits)

lemma file_hits_file: "h \<in> set (file_hits env def kinds f) \<Longrightarrow> hiFile h = f"
  by (auto simp: file_hits_def of_opt_mem hits_of_mem enumSegmentHit_def reference_hit_def split: if_splits)

lemma resolveReference_gives:
  assumes "index_good env ix" "read_file env (fst sc) = Some (snd sc)"
  shows "gives env (resolveReference env sc r ix) (denoted env sc r)"
  using ResolveType_gives[OF assms] ResolveValue_gives[OF assms] ResolveService_gives[OF assms]
  by (simp add: gives_same[OF assms(1)] resolveReference_def denoted_def split: RefKind.split Node.split)

lemma denoted_ok: "denoted env sc r = Some d \<Longrightarrow> resolved_ok env d"
  using reference_ok by (auto simp: denoted_def split: RefKind.splits Node.splits)

lemma sameDefinition_ok:
  assumes "\<And>x. d = Some x \<Longrightarrow> resolved_ok env x" "rsName def \<noteq> None"
  shows "sameDefinition d def = Some (same_definition d def)"
proof (cases d)
  case (Some x)
  then show ?thesis using assms(1)[OF Some] assms(2)
    by (auto simp: sameDefinition_def same_definition_def resolved_ok_def name_text_def)
qed (simp add: sameDefinition_def same_definition_def)

text \<open>The loops, over what their bodies give.\<close>

lemma collect_loop_gives:
  assumes "\<And>x ix. x \<in> set xs \<Longrightarrow> index_good env ix \<Longrightarrow> gives env (f x ix) (g x)" "index_good env ix"
  shows "gives env (collect_loop f xs ix) (concat (map g xs))"
  using assms
proof (induction xs arbitrary: ix)
  case (Cons x xs)
  obtain ix1 where 1: "f x ix = Some (g x, ix1)" "index_good env ix1" using Cons.prems by (fastforce simp: gives_def)
  obtain ix2 where 2: "collect_loop f xs ix1 = Some (concat (map g xs), ix2)" "index_good env ix2"
    using Cons.IH[OF Cons.prems(1) 1(2)] by (auto simp: gives_def)
  show ?case using 1 2 by (simp add: gives_def)
qed (simp add: gives_same)

lemma gives_then:
  "gives env r x \<Longrightarrow> (\<And>ix. index_good env ix \<Longrightarrow> gives env (f (x, ix)) y) \<Longrightarrow> gives env (Option.bind r f) y"
  by (auto simp: gives_def)

lemma SpanOf_hit: "in_tree pf (rfNode r) \<Longrightarrow> \<exists>h. reference_hit (f, pf) r = Some h"
  using in_tree_span[of pf "rfNode r"] by (auto simp: reference_hit_def)

lemma Range_hit: "in_tree pf n \<Longrightarrow> \<exists>h. enumSegmentHit (f, pf) n off seg = Some h"
  using in_tree_span[of pf n] by (auto simp: enumSegmentHit_def SpanOf_def)

lemma reference_to_gives:
  assumes "rsName def \<noteq> None" "read_file env f = Some pf" "in_tree pf (rfNode r)" "index_good env ix"
  shows "gives env (reference_to env def kinds (f, pf) r ix) (hits_of env def kinds (f, pf) r)"
proof -
  have rd: "read_file env (fst (f, pf)) = Some (snd (f, pf))" using assms(2) by simp
  obtain nm where nm: "name_text def = Some nm" using assms(1) by (auto simp: resolved_ok_def name_text_def)
  obtain h where h: "reference_hit (f, pf) r = Some h" using SpanOf_hit[OF assms(3)] by blast
  show ?thesis
  proof (cases "by_qualifier def kinds r")
    case True
    show ?thesis
    proof (cases "enumSegment (rfName r) nm")
      case None
      then show ?thesis using True nm assms(4) unfolding by_qualifier_def
        by (simp add: reference_to_def hits_of_def by_qualifier_def gives_same)
    next
      case (Some p)
      obtain seg off where p: "p = (seg, off)" by fastforce
      let ?d = "type_reference env (f, pf) (Some (typeReference (take (off + length seg) (rfName r))))"
      obtain g where g: "enumSegmentHit (f, pf) (rfNode r) off seg = Some g" using Range_hit[OF assms(3)] by blast
      have s: "sameDefinition ?d def = Some (same_definition ?d def)"
        by (rule sameDefinition_ok[OF _ assms(1)]) (rule reference_ok(1))
      show ?thesis using True Some p nm g unfolding by_qualifier_def
        by (auto simp: reference_to_def hits_of_def by_qualifier_def qualified_by_def s gives_same
            intro!: gives_then[OF ResolveType_gives[OF assms(4) rd]])
    qed
  next
    case False
    have s: "sameDefinition (denoted env (f, pf) r) def = Some (same_definition (denoted env (f, pf) r) def)"
      by (rule sameDefinition_ok[OF _ assms(1)]) (rule denoted_ok)
    have "gives env (do { (resolved, ix) \<leftarrow> resolveReference env (f, pf) r ix; same \<leftarrow> sameDefinition resolved def;
        if \<not> same then Some ([], ix) else map_option (\<lambda>h. ([h], ix)) (reference_hit (f, pf) r) })
      (if same_definition (denoted env (f, pf) r) def then [h] else [])"
      by (rule gives_then[OF resolveReference_gives[OF assms(4) rd]]) (simp add: s h gives_same)
    then show ?thesis using False nm h gives_same[OF assms(4)] unfolding by_qualifier_def
      by (auto simp: reference_to_def hits_of_def by_qualifier_def refers_to_def)
  qed
qed

lemma references_in_gives:
  assumes "rsName def \<noteq> None" "index_good env ix"
  shows "gives env (references_in env def kinds f ix) (file_hits env def kinds f)"
proof -
  obtain pf v where p: "env_parse env f (isView ix) = (pf, v)" by fastforce
  have v: "pf = read_file env f" "index_good env (ix\<lparr>isView := v\<rparr>)"
    using env_parse_good[OF _ p] assms(2) by (auto simp: index_good_def)
  show ?thesis
  proof (cases pf)
    case None
    then show ?thesis using v by (simp add: references_in_def p file_hits_def gives_same)
  next
    case (Some x)
    then have x: "read_file env f = Some x" "parsed_ok x" using v(1) read_parsed_ok by auto
    show ?thesis
      using collect_loop_gives[OF reference_to_gives[OF assms(1) x(1) file_refs_tree[OF x(2)]] v(2), of "file_refs x"]
      by (simp add: references_in_def p Some References_tree[OF x(2)] file_hits_def x(1))
  qed
qed

lemma ReferencesTo_gives:
  assumes "rsName def \<noteq> None" "index_good env ix"
  shows "gives env (ReferencesTo env def kinds ix)
    (concat (map (file_hits env def kinds) (searchFiles (rsFile def) (isView ix))))"
  unfolding ReferencesTo_def by (rule collect_loop_gives[OF references_in_gives[OF assms(1)] assms(2)])

lemma searchFiles_set:
  assumes "graph_ok v"
  shows "set (searchFiles f v) = {g. (g, f) \<in> (include_rel v)\<^sup>*}"
proof -
  have "(f, g) \<in> (arcs (vwIncluders v))\<^sup>+ \<longleftrightarrow> (g, f) \<in> (include_rel v)\<^sup>+" for g
    by (simp add: arcs_include_rel[OF assms] trancl_converse)
  then show ?thesis using Dependents_set[of v f] by (auto simp: searchFiles_def rtrancl_eq_or_trancl)
qed

section \<open>Properties\<close>

text \<open>
  C9: the search for the references of a definition is exact. On every sound index it returns,
  with a sound index, the places of the references in the files that include the file of the
  definition, directly or through other files, and in that file, each file once, that refer to
  the definition: those of the wanted kinds with its name that resolve to it, and, for an enum,
  the qualifiers of values that resolve to it. Nothing else is found and nothing is missed.
\<close>

theorem ReferencesTo_exact:
  assumes "index_good env ix" "rsName def \<noteq> None"
  shows "\<exists>hits ix' fs. ReferencesTo env def kinds ix = Some (hits, ix') \<and> index_good env ix' \<and>
    hits = concat (map (file_hits env def kinds) fs) \<and>
    distinct fs \<and> set fs = {f. (f, rsFile def) \<in> (include_rel (isView ix))\<^sup>*} \<and>
    (\<forall>h. h \<in> set hits \<longleftrightarrow> (\<exists>f \<in> set fs. \<exists>pf r. read_file env f = Some pf \<and> r \<in> set (file_refs pf) \<and>
      (if by_qualifier def kinds r
       then \<exists>off seg. qualified_by env def (f, pf) r off seg \<and> enumSegmentHit (f, pf) (rfNode r) off seg = Some h
       else referenceKind (rfKind r) kinds \<and> refers_to env def (f, pf) r \<and> reference_hit (f, pf) r = Some h)))"
proof -
  let ?fs = "searchFiles (rsFile def) (isView ix)"
  have g: "graph_ok (isView ix)" using assms(1) by (simp add: index_good_def view_good_def)
  have d: "distinct ?fs" using Dependents_set[of "isView ix" "rsFile def"] by (simp add: searchFiles_def)
  have m: "h \<in> set (concat (map (file_hits env def kinds) ?fs)) \<longleftrightarrow>
      (\<exists>f \<in> set ?fs. \<exists>pf r. read_file env f = Some pf \<and> r \<in> set (file_refs pf) \<and> h \<in> set (hits_of env def kinds (f, pf) r))" for h
    by (auto simp: file_hits_def of_opt_mem)
  obtain ix' where "ReferencesTo env def kinds ix = Some (concat (map (file_hits env def kinds) ?fs), ix')" "index_good env ix'"
    using ReferencesTo_gives[OF assms(2,1), of kinds] by (auto simp: gives_def)
  then show ?thesis using d searchFiles_set[OF g, of "rsFile def"] m unfolding hits_of_mem by blast
qed

text \<open>The file that uses a type of another one has been parsed before the search.\<close>

definition demo_ix :: Index where
  "demo_ix = NewIndex (snd (env_parse demo_env ''/a'' NewView))"

lemma demo_ix_good: "index_good demo_env demo_ix"
  using env_parse_good[OF view_good_new, of demo_env "''/a''"] index_good_new
  by (metis demo_ix_def prod.collapse)

lemma demo_references:
  "Option.bind (read_file demo_env ''/a'') (\<lambda>pf.
     Option.bind (ResolveType demo_env (''/a'', pf) (Some (typeReference ''b.T'')) demo_ix) (\<lambda>(d, ix).
     Option.bind d (\<lambda>d. map_option (\<lambda>(hits, ix). map (\<lambda>h. (hiFile h, hiText h)) hits) (ReferencesTo demo_env d [RefFieldType] demo_ix)))) =
   Some [(''/a'', ''b.T'')]"
  unfolding demo_ix_def by code_simp

lemma ReferencesTo_exact_witness:
  "\<exists>def h ix' pf r. ReferencesTo demo_env def [RefFieldType] demo_ix = Some ([h], ix') \<and> hiFile h = ''/a'' \<and> hiText h = ''b.T'' \<and>
     (''/a'', rsFile def) \<in> (include_rel (isView demo_ix))\<^sup>* \<and> index_good demo_env ix' \<and>
     h \<in> set (file_hits demo_env def [RefFieldType] ''/a'')"
proof -
  obtain pf where pf: "read_file demo_env ''/a'' = Some pf" using demo_read by blast
  obtain def ix1 hits ix2 where d: "ResolveType demo_env (''/a'', pf) (Some (typeReference ''b.T'')) demo_ix = Some (Some def, ix1)"
    "ReferencesTo demo_env def [RefFieldType] demo_ix = Some (hits, ix2)" "map (\<lambda>h. (hiFile h, hiText h)) hits = [(''/a'', ''b.T'')]"
    using demo_references pf by (auto simp: bind_eq_Some_conv)
  have "type_reference demo_env (''/a'', pf) (Some (typeReference ''b.T'')) = Some def"
    using ResolveType_gives[OF demo_ix_good, of "(''/a'', pf)" "Some (typeReference ''b.T'')"] d(1) pf by (simp add: gives_def)
  then have ok: "rsName def \<noteq> None" using reference_ok(1) unfolding resolved_ok_def by blast
  obtain h where h: "hits = [h]" "hiFile h = ''/a''" "hiText h = ''b.T''" using d(3) by auto
  obtain fs where fs: "hits = concat (map (file_hits demo_env def [RefFieldType]) fs)" "index_good demo_env ix2"
    "set fs = {f. (f, rsFile def) \<in> (include_rel (isView demo_ix))\<^sup>*}"
    using ReferencesTo_exact[OF demo_ix_good ok, of "[RefFieldType]"] d(2) by auto
  have "h \<in> set (concat (map (file_hits demo_env def [RefFieldType]) fs))" unfolding fs(1)[symmetric] h(1) by simp
  then obtain f where f: "f \<in> set fs" "h \<in> set (file_hits demo_env def [RefFieldType] f)" by auto
  then have "f = ''/a''" using file_hits_file h(2) by metis
  then show ?thesis using d(2) h f fs by blast
qed

end
