(* ===== verification/EditorTotal.thy ===== *)
theory EditorTotal imports RequestsProps SemanticTokens Completion FormatRuns
begin

text \<open>
  The handlers of semantic tokens, folding and completion do not panic: the walk of the facts,
  the ranges of all nodes that fold, the grammar slot at any cursor, and the providers.
\<close>

section \<open>Semantic tokens\<close>

lemma named_nodes:
  "in_tree pf n \<Longrightarrow> \<exists>x. note_node (A_Node n) facts = Some x"
  using shape_names[of pf] by (cases n) (fastforce simp: note_node_def note_name_def)+

lemma tokenFacts_ok: "parsed_ok pf \<Longrightarrow> \<exists>facts. tokenFacts (pfAst pf) = Some facts"
proof -
  assume pf: "parsed_ok pf"
  have v: "note_visit = (\<lambda>n r. (True, (\<lambda>n r. Option.bind r (note_node n)) n r))" by (intro ext) (simp add: note_visit_def)
  have "\<exists>x. fold (\<lambda>n r. Option.bind r (note_node n)) ns (Some facts) = Some x"
    if "\<And>n. n \<in> set ns \<Longrightarrow> any_ok (docTokens (pfAst pf)) n" for ns facts
    using that
  proof (induction ns arbitrary: facts)
    case (Cons n ns)
    have "\<exists>x. note_node n facts = Some x"
      using Cons.prems[of n] named_nodes[of pf] by (cases n) (auto simp: any_ok_def note_node_def)
    then show ?case using Cons by auto
  qed simp
  moreover have "any_ok (docTokens (pfAst pf)) n" if "n \<in> set (preorder (A_Document (pfAst pf)))" for n
    using preorder_nested[OF that in_tree_any[OF pf]] by blast
  ultimately show ?thesis using Walk_fold[OF in_tree_any[OF pf], of "\<lambda>n r. Option.bind r (note_node n)" "Some (Map.empty, {})"]
    by (simp add: tokenFacts_def v)
qed

lemma safe_SemanticTokens: "safe env (\<lambda>_. True) (SemanticTokens env u)"
  unfolding SemanticTokens_def
proof (rule safe_then[OF safe_parsing])
  fix pf assume "read_file env u = Some pf"
  from tokenFacts_ok[OF read_parsed_ok[OF this]] show "safe env (\<lambda>_. True) (lifted (semantic_data pf))"
    by (auto simp: semantic_data_def intro!: safe_lifted)
qed

section \<open>Folding\<close>

lemma spanRange_ok:
  "i < length (docTokens (pfAst pf)) \<Longrightarrow> j < length (docTokens (pfAst pf)) \<Longrightarrow> \<exists>r. spanRange pf i j = Some r"
  by (simp add: spanRange_def TokenPosition_def TokenEndPosition_def Let_def)

lemma first_kind_ok:
  "list_all (\<lambda>i. i < length toks) is \<Longrightarrow> \<exists>r. first_kind toks k is = Some r \<and> (\<forall>i. r = Some i \<longrightarrow> i < length toks)"
  by (induction toks k "is" rule: first_kind.induct) auto

lemma tree_bounds: "in_tree pf n \<Longrightarrow> TokStart n < length (docTokens (pfAst pf)) \<and> TokEnd n < length (docTokens (pfAst pf))"
  by (auto simp: real_tok_def elim: node_ok.cases)

lemma bracedRange_ok: "in_tree pf n \<Longrightarrow> \<exists>r. bracedRange pf n start = Some r"
proof -
  assume "in_tree pf n"
  then have e: "TokEnd n < length (docTokens (pfAst pf))" using tree_bounds by blast
  then have l: "list_all (\<lambda>i. i < length (docTokens (pfAst pf))) [a..<TokEnd n + 1]" for a by (auto simp: list_all_iff)
  obtain left where left: "first_kind (docTokens (pfAst pf)) TokenLBrace [start..<TokEnd n + 1] = Some left"
    "\<forall>i. left = Some i \<longrightarrow> i < length (docTokens (pfAst pf))" using first_kind_ok[OF l] by blast
  show ?thesis
  proof (cases left)
    case (Some i)
    have "list_all (\<lambda>i. i < length (docTokens (pfAst pf))) (rev [i + 1..<TokEnd n + 1])" using l by (simp add: list_all_iff)
    then obtain right where right: "first_kind (docTokens (pfAst pf)) TokenRBrace (rev [i + 1..<TokEnd n + 1]) = Some right"
      "\<forall>i. right = Some i \<longrightarrow> i < length (docTokens (pfAst pf))" using first_kind_ok by blast
    then show ?thesis using left Some spanRange_ok[of i pf]
      by (auto simp: bracedRange_def Let_def simp del: upt_Suc split: option.split)
  qed (use left in \<open>simp add: bracedRange_def Let_def\<close>)
qed

lemma value_range_ok: "(\<And>c. v = Some c \<Longrightarrow> in_tree pf (N_ConstValue c)) \<Longrightarrow> \<exists>r. value_range pf v = Some r"
  using tree_bounds[of pf] spanRange_ok[of _ pf] by (cases v) (auto simp: value_range_def)

lemma body_range_ok: "in_tree pf n \<Longrightarrow> \<exists>r. body_range pf n = Some r"
  using bracedRange_ok[of pf n] value_range_ok[OF member_in_tree(8)[of pf]]
  by (cases n) (auto simp: body_range_def)

lemma nodeAnnotation_ok: "in_tree pf n \<Longrightarrow> nodeAnnotation n = Some a \<Longrightarrow> in_tree pf (N_Annotations a)"
  by (cases n) (auto simp: nodeAnnotation_def elim: in_tree_part)

lemma blockCommentSpan_ok: "i < length (docTokens (pfAst pf)) \<Longrightarrow> \<exists>r. blockCommentSpan pf i = Some r"
  by (simp add: blockCommentSpan_def TokenPosition_def Let_def)

lemma comment_run_bound: "i < length toks \<Longrightarrow> comment_run toks i < length toks"
proof (induction toks i rule: comment_run.induct)
  case (1 toks i)
  then show ?case by (subst comment_run.simps) auto
qed

lemma comment_blocks_ok: "\<exists>rs. comment_blocks pf i = Some rs"
proof (induction "length (docTokens (pfAst pf)) - i" arbitrary: i rule: less_induct)
  case less
  let ?toks = "docTokens (pfAst pf)"
  show ?case
  proof (cases "i < length ?toks")
    case True
    obtain b where b: "blockCommentSpan pf i = Some b" using blockCommentSpan_ok[OF True] by blast
    obtain s where s: "spanRange pf i (comment_run ?toks i) = Some s"
      using spanRange_ok[OF True comment_run_bound[OF True]] by blast
    have next_ok: "\<exists>rs. comment_blocks pf j = Some rs" if "i < j" for j
      using less[of j] that True by (simp add: diff_less_mono2)
    obtain rs where r: "comment_blocks pf (comment_run ?toks i + 1) = Some rs"
      using next_ok[of "comment_run ?toks i + 1"] comment_run_ge[of i ?toks] by auto
    obtain rs' where r': "comment_blocks pf (i + 1) = Some rs'" using next_ok[of "i + 1"] by auto
    show ?thesis using True b s r r'
      by (subst comment_blocks.simps) (simp add: Let_def commentSpanRange_def)
  qed (simp add: comment_blocks.simps)
qed

lemma structured_tree:
  assumes "parsed_ok pf" "sa \<in> set (EachStructuredAnnotation (pfAst pf))"
  shows "in_tree pf (N_StructuredAnnotation sa)"
proof -
  have "A_Node (N_StructuredAnnotation sa) \<in> set (preorder (A_Document (pfAst pf)))"
    using EachStructuredAnnotation_walk[of "pfContent pf"] parsed_ok_Parse[OF assms(1)] assms(2)
    by (auto split: AnyNode.splits Node.splits)
  from preorder_nested[OF this in_tree_any[OF assms(1)]] show ?thesis by (simp add: any_ok_def)
qed

lemma folding_ok: "parsed_ok pf \<Longrightarrow> \<exists>rs. folding_ranges pf = Some rs"
proof -
  assume pf: "parsed_ok pf"
  have top: "in_tree pf n" if "n \<in> set (docNodes (pfAst pf))" for n using in_tree_top[OF pf that] .
  obtain bodies where b: "those (map (body_range pf) (docNodes (pfAst pf))) = Some bodies"
    using those_map_ok[of "docNodes (pfAst pf)" "body_range pf"] body_range_ok[OF top] by blast
  let ?group = "\<lambda>a. spanRange pf (TokStart (N_Annotations a)) (TokEnd (N_Annotations a))"
  let ?folded = "\<lambda>sa. value_range pf (saValue sa)"
  have g: "\<exists>r. ?group a = Some r" if a: "a \<in> set (nodeAnnotations (docNodes (pfAst pf)))" for a
  proof -
    obtain n where "n \<in> set (docNodes (pfAst pf))" "nodeAnnotation n = Some a"
      using a by (auto simp: nodeAnnotations_def split: option.splits)
    then show ?thesis using tree_bounds[OF nodeAnnotation_ok[OF top]] spanRange_ok by blast
  qed
  obtain annos where a: "those (map ?group (nodeAnnotations (docNodes (pfAst pf)))) = Some annos"
    using those_map_ok[of "nodeAnnotations (docNodes (pfAst pf))" ?group, OF g] by blast
  have v: "\<exists>r. ?folded sa = Some r" if "sa \<in> set (EachStructuredAnnotation (pfAst pf))" for sa
    by (rule value_range_ok) (rule in_tree_part[OF structured_tree[OF pf that]], simp)
  obtain str where "those (map ?folded (EachStructuredAnnotation (pfAst pf))) = Some str"
    using those_map_ok[of "EachStructuredAnnotation (pfAst pf)" ?folded, OF v] by blast
  moreover obtain cs where "comment_blocks pf 0 = Some cs" using comment_blocks_ok by blast
  ultimately show ?thesis using a b by (simp add: folding_ranges_def)
qed

lemma safe_Ranges: "safe env (\<lambda>_. True) (Ranges env u)"
  unfolding Ranges_def
proof (rule safe_then[OF safe_parse_try])
  fix r assume r: "r = read_file env u"
  show "safe env (\<lambda>_. True) (case r of None \<Rightarrow> answer [] | Some pf \<Rightarrow> lifted (folding_ranges pf))"
    using folding_ok[OF read_parsed_ok] r by (cases r) (fastforce intro!: safe_answer safe_lifted)+
qed

section \<open>The grammar slot\<close>

lemma token_search_le: "lo \<le> hi \<Longrightarrow> token_search toks offset lo hi \<le> hi"
proof (induction toks offset lo hi rule: token_search.induct)
  case (1 toks offset lo hi)
  show ?case
  proof (cases "lo < hi")
    case True
    then have "(lo + hi) div 2 < hi" "lo \<le> (lo + hi) div 2" by simp_all
    then show ?thesis using 1(1)[OF True refl] 1(2)[OF True refl] True
      by (subst token_search.simps) (auto simp: Let_def)
  next
    case False
    then have "token_search toks offset lo hi = lo" by (subst token_search.simps) simp
    then show ?thesis using 1(3) by simp
  qed
qed

lemma skip_eof_less: "skip_eof toks n < int n"
  by (induction toks n rule: skip_eof.induct) auto

lemma tokenAt_less: "tokenAt doc offset = (i, t) \<Longrightarrow> i < int (length (docTokens doc)) \<and> (t \<noteq> None \<longrightarrow> 0 \<le> i)"
  using skip_eof_less[of "docTokens doc" "token_search (docTokens doc) offset 0 (length (docTokens doc))"]
    token_search_le[of 0 "length (docTokens doc)" "docTokens doc" offset]
  by (auto simp: tokenAt_def Let_def split: if_splits)

lemma PrevReal_ok: "i < int (length toks) \<Longrightarrow> \<exists>p. PrevReal toks i = Some p \<and> p \<le> i"
  using PrevReal_cases[of i toks] by blast

lemma opener_less: "opener c k toks depth n = Some i \<Longrightarrow> i < n"
  by (induction c k toks depth n rule: opener.induct) (auto split: if_splits)

lemma parenOpener_less: "parenOpener doc start = Some i \<Longrightarrow> int i \<le> start"
  by (auto simp: parenOpener_def dest!: opener_less split: if_splits)

lemma skip_groups_le: "skip_groups toks n \<le> n"
proof (induction toks n rule: skip_groups.induct)
  case (1 toks n)
  show ?case
  proof (cases "n > 0 \<and> tkKind (toks ! (n - 1)) = TokenRParen")
    case True
    then have "skip_groups toks n = skip_groups toks (skip_group toks 0 n)" by (subst skip_groups.simps) simp
    then show ?thesis using 1[OF True] skip_group_le[of toks 0 n] by simp
  next
    case False
    then have "skip_groups toks n = n" by (subst skip_groups.simps) (simp only: if_False)
    then show ?thesis by simp
  qed
qed

lemma containerKeywordBefore_ok:
  assumes "brace < length (docTokens doc)"
  shows "\<exists>k. containerKeywordBefore doc brace = Some k"
proof -
  have "int (skip_groups (docTokens doc) brace) - 1 < int (length (docTokens doc))"
    using skip_groups_le[of "docTokens doc" brace] assms by simp
  then obtain j where j: "PrevReal (docTokens doc) (int (skip_groups (docTokens doc) brace) - 1) = Some j" "j < int (length (docTokens doc))"
    using PrevReal_ok by fastforce
  obtain k where "PrevReal (docTokens doc) (j - 1) = Some k" using PrevReal_ok[of "j - 1" "docTokens doc"] j(2) by auto
  then show ?thesis using j by (auto simp: containerKeywordBefore_def Let_def)
qed

lemma braceBodyKind_ok: "start < int (length (docTokens doc)) \<Longrightarrow> \<exists>k. braceBodyKind doc start = Some k"
  using containerKeywordBefore_ok[of _ doc]
  by (auto simp: braceBodyKind_def dest!: opener_less split: option.split)

lemma paren_kinds_ok:
  assumes "opening \<le> int (length (docTokens doc))"
  shows "\<exists>k. afterParenKind doc opening = Some k" "\<exists>k. insideParenKind doc opening = Some k" "\<exists>b. isThrowsGroup doc opening = Some b"
proof -
  obtain p where p: "PrevReal (docTokens doc) (opening - 1) = Some p" "p < int (length (docTokens doc))"
    using PrevReal_ok[of "opening - 1" "docTokens doc"] assms by force
  obtain k where "braceBodyKind doc p = Some k" using braceBodyKind_ok[OF p(2)] by blast
  then show "\<exists>k. afterParenKind doc opening = Some k" "\<exists>k. insideParenKind doc opening = Some k" "\<exists>b. isThrowsGroup doc opening = Some b"
    using p by (auto simp: afterParenKind_def insideParenKind_def isThrowsGroup_def Let_def)
qed

lemma typeSlot_ok:
  assumes "idx \<le> int (length (docTokens doc))"
  shows "\<exists>b. typeSlotAfterIdent doc idx = Some b"
proof -
  obtain p where p: "PrevReal (docTokens doc) (idx - 1) = Some p" "p < int (length (docTokens doc))"
    using PrevReal_ok[of "idx - 1" "docTokens doc"] assms by force
  obtain k where "braceBodyKind doc p = Some k" using braceBodyKind_ok[OF p(2)] by blast
  then show ?thesis using p by (auto simp: typeSlotAfterIdent_def Let_def)
qed

lemma previous_slot_ok:
  assumes "prevIdx < int (length (docTokens doc))"
  shows "\<exists>r. previous_slot doc prevIdx c = Some r"
proof -
  obtain a where a: "afterParenKind doc prevIdx = Some a" using paren_kinds_ok(1)[of prevIdx doc] assms by auto
  obtain b where b: "braceBodyKind doc prevIdx = Some b" using braceBodyKind_ok[OF assms] by blast
  obtain s where s: "typeSlotAfterIdent doc prevIdx = Some s" using typeSlot_ok[of prevIdx doc] assms by auto
  have "\<exists>k. insideParenKind doc (int i) = Some k" if "parenOpener doc prevIdx = Some i" for i
    using paren_kinds_ok(2)[of "int i" doc] parenOpener_less[OF that] assms by auto
  then have "\<exists>r. separator_slot doc prevIdx c = Some r" using b by (auto simp: separator_slot_def split: option.split)
  then show ?thesis using a b s by (auto simp: previous_slot_def identifier_slot_def Let_def)
qed

lemma current_slot_ok:
  assumes "atIdx < int (length (docTokens doc))"
  shows "\<exists>r. current_slot doc atIdx tok c = Some r"
proof -
  obtain p where p: "PrevReal (docTokens doc) (atIdx - 1) = Some p" "p \<le> int (length (docTokens doc))"
    using PrevReal_ok[of "atIdx - 1" "docTokens doc"] assms by force
  obtain s where "typeSlotAfterIdent doc p = Some s" using typeSlot_ok[OF p(2)] by blast
  then show ?thesis using p by (auto simp: current_slot_def split: option.split)
qed

lemma node_slot_ok:
  assumes "\<And>n. n \<in> set (cxPath c) \<Longrightarrow> any_ok (docTokens doc) n"
  shows "\<exists>r. node_slot doc c = Some r"
proof (cases "deepestNode (cxPath c)")
  case (Some n)
  then have n: "any_ok (docTokens doc) n" using assms by (auto simp: deepestNode_def split: if_splits)
  have f: "\<exists>off. tokenOffset doc (N_Identifier i) = Some off" if "n = A_Node (N_Field f)" "fiName f = Some i" for f i
  proof -
    have "node_ok (docTokens doc) False (N_Identifier i)" using n that by (auto simp: any_ok_def elim: node_ok_part)
    then have "TokStart (N_Identifier i) < length (docTokens doc)" by (auto simp: real_tok_def elim: node_ok.cases)
    then show ?thesis by (simp add: tokenOffset_def TokenPosition_def Let_def)
  qed
  show ?thesis
  proof (cases n)
    case (A_Node m)
    show ?thesis
    proof (cases "\<exists>g i. m = N_Field g \<and> fiName g = Some i")
      case True
      then obtain g i off where "m = N_Field g" "fiName g = Some i" "tokenOffset doc (N_Identifier i) = Some off"
        using f A_Node by blast
      then show ?thesis using Some A_Node by (simp add: node_slot_def)
    next
      case False
      then show ?thesis using Some A_Node by (cases m) (auto simp: node_slot_def)
    qed
  qed (use Some in \<open>simp add: node_slot_def\<close>)
qed (simp add: node_slot_def)

lemma string_slot_ok:
  assumes "atIdx < int (length (docTokens doc))"
  shows "\<exists>r. string_slot doc offset atIdx t c = Some r"
proof -
  have "\<exists>b. isThrowsGroup doc (int i) = Some b" if "parenOpener doc atIdx = Some i" for i
    using paren_kinds_ok(3)[of "int i" doc] parenOpener_less[OF that] assms by auto
  then show ?thesis by (auto simp: string_slot_def Let_def split: option.split)
qed

lemma or_else_ok: "r = Some x \<Longrightarrow> \<exists>z. s = Some z \<Longrightarrow> \<exists>y. or_else r s = Some y"
  by (auto simp: or_else_def split: option.split)

lemma ResolveContext_ok:
  assumes "parsed_ok pf"
  shows "\<exists>c. ResolveContext (pfAst pf) pos = Some c"
proof -
  let ?toks = "docTokens (pfAst pf)"
  obtain path where path: "SearchNodePathByPosition (pfAst pf) pos = Some path" "set path \<subseteq> set (preorder (A_Document (pfAst pf)))"
    using search_nodes[OF assms, of pos] by blast
  obtain atIdx tok where t: "tokenAt (pfAst pf) (poOffset pos) = (atIdx, tok)" by fastforce
  note b = tokenAt_less[OF t]
  have p1: "\<exists>p. PrevReal ?toks atIdx = Some p \<and> p < int (length ?toks)" using PrevReal_ok[of atIdx ?toks] b by force
  have p2: "\<exists>p. PrevReal ?toks (atIdx - 1) = Some p \<and> p < int (length ?toks)" using PrevReal_ok[of "atIdx - 1" ?toks] b by force
  have n: "any_ok ?toks n" if "n \<in> set path" for n
    using path(2) that preorder_nested[OF _ in_tree_any[OF assms]] by blast
  have slots: "\<exists>y. or_else (previous_slot (pfAst pf) q c) (or_else (current_slot (pfAst pf) atIdx tok c) (node_slot (pfAst pf) c)) = Some y"
    if h: "q < int (length ?toks)" "cxPath c = path" for q c
  proof -
    obtain r where r: "previous_slot (pfAst pf) q c = Some r" using previous_slot_ok[OF h(1)] by blast
    obtain r' where r': "current_slot (pfAst pf) atIdx tok c = Some r'" using current_slot_ok b by blast
    have "\<exists>y. node_slot (pfAst pf) c = Some y" using node_slot_ok[of c "pfAst pf"] n h(2) by blast
    then show ?thesis using or_else_ok[OF r] or_else_ok[OF r'] by blast
  qed
  have prev: "\<exists>q. (case tok of Some t \<Rightarrow> PrevReal ?toks (if poOffset pos < tkOffset t + length (tkText t) then atIdx - 1 else atIdx)
      | None \<Rightarrow> PrevReal ?toks atIdx) = Some q \<and> q < int (length ?toks)"
  proof (cases tok)
    case (Some t)
    then show ?thesis using p1 p2 by (cases "poOffset pos < tkOffset t + length (tkText t)") simp_all
  qed (use p1 in simp)
  obtain q where q: "(case tok of Some t \<Rightarrow> PrevReal ?toks (if poOffset pos < tkOffset t + length (tkText t) then atIdx - 1 else atIdx)
      | None \<Rightarrow> PrevReal ?toks atIdx) = Some q" "q < int (length ?toks)"
    using prev by blast
  obtain pre start where pr: "prefixRange (pfAst pf) pos atIdx tok = (pre, start)" by fastforce
  define c where "c = \<lparr>cxKind = CtxKeyword, cxPath = path, cxOffset = poOffset pos, cxPrefix = pre, cxEditStart = start, cxDoc = pfAst pf\<rparr>"
  obtain y where y: "or_else (previous_slot (pfAst pf) q c) (or_else (current_slot (pfAst pf) atIdx tok c) (node_slot (pfAst pf) c)) = Some y"
    using slots[OF q(2), of c] by (auto simp: c_def)
  obtain z where z: "\<And>t. tok = Some t \<Longrightarrow> string_slot (pfAst pf) (poOffset pos) atIdx t c = Some z"
    using string_slot_ok[of atIdx "pfAst pf" "poOffset pos" "the tok" c] b by (cases tok) fastforce+
  have "ResolveContext (pfAst pf) pos =
      (if (case tok of None \<Rightarrow> False | Some t \<Rightarrow> IsComment (tkKind t)) then Some (c\<lparr>cxKind := CtxNone, cxPrefix := [], cxEditStart := 0\<rparr>)
       else (case tok of
          Some t \<Rightarrow> (if tkKind t = TokenStringLiteral \<and> insideString t (poOffset pos) then Some z
            else if field_id_slot (pfAst pf) atIdx tok then Some (c\<lparr>cxKind := CtxFieldID\<rparr>) else Some y)
        | None \<Rightarrow> Some y))"
    using y z q(1) pr by (cases tok) (simp_all add: ResolveContext_def path(1) t Let_def c_def)
  then show ?thesis by (auto split: option.split)
qed

section \<open>Completion\<close>

lemma names_of_ok: "(\<And>x. x \<in> set xs \<Longrightarrow> \<exists>i. name x = Some i) \<Longrightarrow> \<exists>ns. names_of name xs = Some ns"
  using those_map_ok[of xs name] by (auto simp: names_of_def)

text \<open>The names that a provider collects from a document.\<close>

definition collects :: "(Document \<Rightarrow> bytes set \<Rightarrow> bytes set option) \<Rightarrow> bool" where
  "collects f \<longleftrightarrow> (\<forall>pf names. parsed_ok pf \<longrightarrow> (\<exists>x. f (pfAst pf) names = Some x))"

lemma top_names:
  assumes "parsed_ok pf"
  shows "\<exists>ns. names_of stName (Structs (pfAst pf)) = Some ns" "\<exists>ns. names_of stName (Unions (pfAst pf)) = Some ns"
    "\<exists>ns. names_of stName (Exceptions (pfAst pf)) = Some ns" "\<exists>ns. names_of enName (Enums (pfAst pf)) = Some ns"
    "\<exists>ns. names_of tdName (Typedefs (pfAst pf)) = Some ns" "\<exists>ns. names_of coName (Consts (pfAst pf)) = Some ns"
    "\<exists>ns. names_of svName (Services (pfAst pf)) = Some ns"
  by (rule names_of_ok, rule shape_names[OF in_tree_top[OF assms]], erule accessor_top)+

lemma collects_types: "collects collectTypeNames"
  unfolding collects_def using top_names by (fastforce simp: collectTypeNames_def)

lemma collects_services: "collects serviceNames"
  unfolding collects_def using top_names(7) by (fastforce simp: serviceNames_def)

lemma collects_values: "collects collectValueNames"
  unfolding collects_def
proof (intro allI impI)
  fix pf names assume pf: "parsed_ok pf"
  have e: "\<exists>ns. enum_value_names en = Some ns" if "en \<in> set (Enums (pfAst pf))" for en
  proof -
    have n: "in_tree pf (N_Enum en)" using in_tree_top[OF pf accessor_top(4)[OF that]] .
    obtain vs where "names_of evName (enValues en) = Some vs"
      using names_of_ok[of "enValues en" evName] shape_names(6)[OF member_in_tree(2)[OF n]] by blast
    then show ?thesis using shape_names(2)[OF n] by (auto simp: enum_value_names_def)
  qed
  obtain es where "those (map enum_value_names (Enums (pfAst pf))) = Some es"
    using those_map_ok[of "Enums (pfAst pf)" enum_value_names, OF e] by blast
  then show "\<exists>x. collectValueNames (pfAst pf) names = Some x" using top_names(6)[OF pf] by (auto simp: collectValueNames_def)
qed

lemma collects_keys: "collects annotationKeys"
  unfolding collects_def
proof (intro allI impI)
  fix pf names assume pf: "parsed_ok pf"
  have "\<exists>ks. names_of anName (asItems g) = Some ks" if "g \<in> set (EachAnnotation (pfAst pf))" for g
  proof (rule names_of_ok)
    have "g \<in> set (concat (map all_groups (docNodes (pfAst pf))))"
      using that EachAnnotation_complete[of "pfContent pf"] parsed_ok_Parse[OF pf] by (auto dest: mset_eq_setD)
    then obtain n where "n \<in> set (docNodes (pfAst pf))" "g \<in> set (all_groups n)" by auto
    then have "group_named g" using groups_named[OF in_tree_top[OF pf]] by blast
    then show "\<exists>i. anName x = Some i" if "x \<in> set (asItems g)" for x using that by (auto simp: group_named_def)
  qed
  then show "\<exists>x. annotationKeys (pfAst pf) names = Some x"
    using those_map_ok[of "EachAnnotation (pfAst pf)" "\<lambda>g. names_of anName (asItems g)"] by (auto simp: annotationKeys_def)
qed

lemma safe_current_includes: "safe env (\<lambda>_. True) (current_includes u)"
  by (simp add: safe_def current_includes_def answer_def)

lemma safe_collect_included: "collects f \<Longrightarrow> safe env (\<lambda>_. True) (collect_included env f fs names)"
proof (induction fs arbitrary: names)
  case (Cons inc fs)
  have "safe env (\<lambda>_. True) (case r of None \<Rightarrow> collect_included env f fs names
      | Some pf \<Rightarrow> and_then (lifted (f (pfAst pf) names)) (collect_included env f fs))" if r: "r = read_file env inc" for r
  proof (cases r)
    case (Some pf)
    then obtain x where "f (pfAst pf) names = Some x" using Cons.prems r read_parsed_ok unfolding collects_def by metis
    then show ?thesis using Some Cons by (simp add: then_lifted)
  qed (use Cons in simp)
  then show ?case by (auto intro!: safe_then[OF safe_parse_try])
qed (simp add: safe_answer)

lemma safe_name_candidates:
  assumes "collects f" "parsed_ok pf"
  shows "safe env (\<lambda>_. True) (name_candidates order env f u (pfAst pf))"
proof -
  obtain x where "f (pfAst pf) {} = Some x" using assms by (auto simp: collects_def)
  then show ?thesis unfolding name_candidates_def
    by (auto simp: then_lifted intro!: safe_then[OF safe_current_includes] safe_then[OF safe_collect_included[OF assms(1)]] safe_answer)
qed

lemma types_named: "parsed_ok pf \<Longrightarrow> \<exists>x. collectTypeNames (pfAst pf) names = Some x"
  using collects_types by (simp add: collects_def)

lemma safe_included_types: "safe env (\<lambda>_. True) (included_types order env fs)"
proof (induction fs)
  case (Cons inc fs)
  have "safe env (\<lambda>_. True) (case r of None \<Rightarrow> included_types order env fs
      | Some pf \<Rightarrow> and_then (lifted (collectTypeNames (pfAst pf) {})) (\<lambda>names.
          and_then (included_types order env fs) (\<lambda>rest.
            answer (qualified_names order (IncludeNameOf (evApi env) inc) names @ rest))))" if r: "r = read_file env inc" for r
  proof (cases r)
    case (Some pf)
    then obtain x where "collectTypeNames (pfAst pf) {} = Some x" using r types_named read_parsed_ok by metis
    then show ?thesis using Some by (auto simp: then_lifted intro!: safe_then[OF Cons] safe_answer)
  qed (use Cons in simp)
  then show ?case by (auto intro!: safe_then[OF safe_parse_try])
qed (simp add: safe_answer)

lemma safe_typeCandidates:
  assumes "cxDoc c = pfAst pf" "parsed_ok pf"
  shows "safe env (\<lambda>_. True) (typeCandidates order env u c)"
proof -
  obtain x where x: "collectTypeNames (cxDoc c) {} = Some x" using types_named[OF assms(2)] assms(1) by auto
  have q: "safe env (\<lambda>_. True) (case r of None \<Rightarrow> answer []
      | Some pf \<Rightarrow> and_then (lifted (collectTypeNames (pfAst pf) {})) (\<lambda>names.
          answer (sortCandidates (qualified_names order inc names))))" if r: "r = read_file env v" for r v inc
  proof (cases r)
    case (Some f)
    then obtain y where "collectTypeNames (pfAst f) {} = Some y" using r types_named read_parsed_ok by metis
    then show ?thesis using Some by (simp add: then_lifted safe_answer)
  qed (simp add: safe_answer)
  show ?thesis unfolding typeCandidates_def
    by (auto simp: Let_def x then_lifted split: option.split prod.split
        intro!: safe_answer safe_then[OF safe_current_includes] safe_then[OF safe_included_types] safe_then[OF safe_parse_try] q)
qed

lemma TokensForFile_ok: "view_good env v \<Longrightarrow> \<exists>ts. TokensForFile v u = Some ts"
proof -
  assume v: "view_good env v"
  have "\<exists>c. parse_file c = Some pf" if "parsed v f = Some pf" for f pf
    using v that read_file_parsed by (metis view_good_def)
  then show ?thesis unfolding TokensForFile_def by (subst collect_files[where f = u]) auto
qed

lemma safe_known_tokens: "safe env (\<lambda>_. True) (known_tokens order u)"
  unfolding safe_def
proof (intro allI impI)
  fix ix assume ix: "index_good env ix"
  then obtain ts where "TokensForFile (isView ix) u = Some ts" using TokensForFile_ok[of env "isView ix" u] by (auto simp: index_good_def)
  then show "\<exists>r ix'. known_tokens order u ix = Some (r, ix') \<and> index_good env ix' \<and> (\<forall>x. r = Inr x \<longrightarrow> True)"
    using ix by (simp add: known_tokens_def then_lifted answer_def)
qed

lemma safe_provided:
  assumes "cxDoc c = pfAst pf" "parsed_ok pf"
  shows "safe env (\<lambda>_. True) (provided order readDir env u c)"
  using safe_name_candidates[OF collects_values assms(2)] safe_name_candidates[OF collects_keys assms(2)]
    safe_name_candidates[OF collects_services assms(2)] safe_typeCandidates[OF assms]
  by (auto simp: provided_def assms(1) intro!: safe_answer safe_then[OF safe_known_tokens] split: ContextKind.split)

lemma slots_doc:
  "string_slot doc offset i t c = Some x \<Longrightarrow> cxDoc x = cxDoc c"
  "separator_slot doc i c = Some x \<Longrightarrow> cxDoc x = cxDoc c"
  "identifier_slot doc i t c = Some (Some x) \<Longrightarrow> cxDoc x = cxDoc c"
  "current_slot doc i tok c = Some (Some x) \<Longrightarrow> cxDoc x = cxDoc c"
  "node_slot doc c = Some x \<Longrightarrow> cxDoc x = cxDoc c"
  by (auto simp: string_slot_def separator_slot_def identifier_slot_def current_slot_def node_slot_def Let_def bind_eq_Some_conv
      split: if_splits option.splits AnyNode.splits Node.splits)

lemma previous_slot_doc: "previous_slot doc i c = Some (Some x) \<Longrightarrow> cxDoc x = cxDoc c"
  by (auto simp: previous_slot_def Let_def slots_doc split: if_splits option.splits)

lemma or_else_cases: "or_else r s = Some x \<Longrightarrow> r = Some (Some x) \<or> s = Some x"
  by (auto simp: or_else_def split: option.splits)

lemma ResolveContext_doc: "ResolveContext doc pos = Some c \<Longrightarrow> cxDoc c = doc"
proof -
  assume r: "ResolveContext doc pos = Some c"
  obtain i tok where t: "tokenAt doc (poOffset pos) = (i, tok)" by fastforce
  obtain pre start where pr: "prefixRange doc pos i tok = (pre, start)" by fastforce
  have slots: "cxDoc x = cxDoc c'"
    if "or_else (previous_slot doc q c') (or_else (current_slot doc i tok c') (node_slot doc c')) = Some x" for q c' x
    using or_else_cases[OF that] previous_slot_doc slots_doc(4,5) or_else_cases by metis
  obtain path where p: "SearchNodePathByPosition doc pos = Some path" using r by (auto simp: ResolveContext_def bind_eq_Some_conv)
  show ?thesis
  proof (cases tok)
    case None
    then show ?thesis using r t pr p slots by (fastforce simp: ResolveContext_def Let_def bind_eq_Some_conv)
  next
    case (Some a)
    then show ?thesis using r t pr p slots slots_doc(1)
      by (fastforce simp: ResolveContext_def Let_def bind_eq_Some_conv split: if_splits)
  qed
qed

lemma safe_Completion: "safe env (\<lambda>_. True) (CompletionItems order readDir env fh cursor)"
  unfolding CompletionItems_def
proof (rule safe_then[OF safe_parsing])
  fix pf assume "read_file env (fst fh) = Some pf"
  then have pf: "parsed_ok pf" by (rule read_parsed_ok)
  show "safe env (\<lambda>_. True) (case LSPPosToParserPosition (file_mapper pf) cursor of
      Inl err \<Rightarrow> refuse (Bad_position err)
    | Inr pos \<Rightarrow> and_then (lifted (ResolveContext (pfAst pf) pos)) (\<lambda>cc.
        (let (qualified, cc) = qualify (snd fh) cc;
             pre = (if qualified then trim_dots (cxPrefix cc) else cxPrefix cc);
             editStart = (if qualified then cxOffset cc else cxEditStart cc) in
         and_then (provided order readDir env (fst fh) cc) (\<lambda>cs.
           (let (items, truncated) = completion_list qualified pre cs in
            answer (map BuildCompletionItem items, edit_range pf editStart cursor, truncated))))))"
  proof (cases "LSPPosToParserPosition (file_mapper pf) cursor")
    case (Inr pos)
    obtain c where c: "ResolveContext (pfAst pf) pos = Some c" using ResolveContext_ok[OF pf] by blast
    obtain q cc where q: "qualify (snd fh) c = (q, cc)" by fastforce
    then have "cxDoc cc = pfAst pf" using ResolveContext_doc[OF c] by (auto simp: qualify_def split: if_splits)
    from safe_provided[OF this pf] show ?thesis
      by (auto simp: Inr c then_lifted q Let_def intro!: safe_then safe_answer split: prod.split)
  qed (simp add: safe_refuse)
qed

end
