(* ===== verification/HandlersTotal.thy ===== *)
theory HandlersTotal imports ReferenceProps EditorTotal Formatting FormatProps
begin

text \<open>
  No request handler panics: the handlers of references and renames, formatting and hovers,
  and with the other theories all of them.
\<close>

section \<open>References and renames\<close>

lemma safe_ReferencesTo: "rsName def \<noteq> None \<Longrightarrow> safe env (\<lambda>_. True) (indexed (ReferencesTo env def kinds))"
  using ReferencesTo_gives[of def] by (fastforce simp: safe_def indexed_def gives_def)

lemma safe_hitLocs: "safe env (\<lambda>_. True) (hitLocs env hits)"
  unfolding hitLocs_def hitLoc_def
  by (rule safe_all) (auto intro!: safe_then[OF safe_then[OF safe_parsing, where P = "\<lambda>_. True"]] safe_answer)

lemma safe_references_at: "rsName def \<noteq> None \<Longrightarrow> safe env (\<lambda>_. True) (references_at env def kinds)"
  unfolding references_at_def by (rule safe_then[OF safe_ReferencesTo safe_hitLocs])

lemma safe_definition_and_references:
  assumes "\<forall>d. def = Some d \<longrightarrow> resolved_ok env d"
  shows "safe env (\<lambda>_. True) (definition_and_references env def k kinds)"
proof (cases def)
  case (Some d)
  then have d: "resolved_ok env d" "rsName d \<noteq> None" using assms by (auto simp: resolved_ok_def)
  then obtain t where "name_text d = Some t" by (auto simp: name_text_def)
  then show ?thesis using d Some
    by (auto simp: definition_and_references_def intro!: safe_then[OF safe_jump] safe_then[OF safe_lifted]
        safe_then[OF safe_references_at] safe_answer)
qed (simp add: definition_and_references_def safe_answer)

lemma safe_searchTypeNameRefs:
  "read_file env (fst sc) = Some (snd sc) \<Longrightarrow> safe env (\<lambda>_. True) (searchTypeNameRefs env sc t)"
  unfolding searchTypeNameRefs_def
  by (auto simp: Let_def intro!: safe_answer safe_then[OF safe_resolve(1)] safe_definition_and_references split: option.split)

lemma safe_searchConstValueRefs:
  "read_file env (fst sc) = Some (snd sc) \<Longrightarrow> target_value t = Some v \<Longrightarrow> safe env (\<lambda>_. True) (searchConstValueRefs env sc t)"
  unfolding searchConstValueRefs_def
  by (auto intro!: safe_then[OF safe_lifted] safe_then[OF safe_resolve(2)] safe_definition_and_references)

lemma safe_searchServiceRefs: "safe env (\<lambda>_. True) (searchServiceRefs env u name)"
  unfolding searchServiceRefs_def
proof (rule safe_then[OF safe_parsing])
  fix pf assume pf: "read_file env u = Some pf"
  show "safe env (\<lambda>_. True) (and_then (indexed (ResolveService env (u, pf) (Some \<lparr>idBase = \<lparr>nbFirst = 0, nbLast = 0\<rparr>, idText = name\<rparr>)))
      (\<lambda>def. case def of None \<Rightarrow> answer [] | Some d \<Rightarrow> references_at env d [RefServiceExtends]))"
    by (rule safe_then[OF safe_resolve(3)])
      (use pf in \<open>auto simp: resolved_ok_def intro!: safe_answer safe_references_at split: option.split\<close>)
qed

lemma named_DefFromNode:
  "definitionKindOf n \<noteq> None \<Longrightarrow> in_tree pf n \<Longrightarrow> \<exists>d. DefFromNode (u, pf) n = Some d \<and> rsName d \<noteq> None"
  using shape_names[of pf] by (cases n) (auto simp: definitionKindOf_def defStruct_def defFrom_def)

lemma safe_searchDefRefs:
  assumes "target_ok pf t"
  shows "safe env (\<lambda>_. True) (searchDefRefs env (u, pf) t)"
proof (cases "target_identifier t")
  case (Some i)
  show ?thesis
  proof (cases "tgParent t")
    case None
    then show ?thesis using Some by (simp add: searchDefRefs_def safe_answer)
  next
    case (Some p)
    show ?thesis
    proof (cases p)
      case (A_Document d)
      then show ?thesis using Some \<open>target_identifier t = Some i\<close> by (simp add: searchDefRefs_def safe_answer)
    next
      case (A_Node n)
      have n: "in_tree pf n" using assms Some A_Node by (auto simp: target_ok_def any_ok_def)
      have d: "safe env (\<lambda>_. True) (and_then (lifted (DefFromNode (u, pf) n)) (\<lambda>d. references_at env d ks))"
        if "definitionKindOf n \<noteq> None" for ks
        using named_DefFromNode[OF that n, of u] by (auto intro!: safe_then[OF safe_lifted] safe_references_at)
      have e: "safe env (\<lambda>_. True) (and_then (lifted (DefFromNode (u, pf) (N_Identifier i))) (\<lambda>d. references_at env d ks))" for ks
        by (auto simp: defFrom_def intro!: safe_then[OF safe_lifted[where P = "\<lambda>d. rsName d \<noteq> None"]] safe_references_at)
      show ?thesis using Some A_Node \<open>target_identifier t = Some i\<close> d e
        by (cases n) (auto simp: searchDefRefs_def definitionKindOf_def safe_answer safe_searchServiceRefs Let_def
            split: prod.split if_splits)
    qed
  qed
qed (simp add: searchDefRefs_def safe_answer)

lemma safe_searchReferences: "safe env (\<lambda>_. True) (searchReferences env u pos)"
  unfolding searchReferences_def
proof (rule safe_then[OF safe_target])
  fix r assume "case r of (pf, t) \<Rightarrow> read_file env u = Some pf \<and> target_ok pf t"
  then obtain pf t where r: "r = (pf, t)" "read_file env u = Some pf" "target_ok pf t" by auto
  show "safe env (\<lambda>_. True) (case r of (pf, t) \<Rightarrow> (case tgKind t of
      TargetTypeName \<Rightarrow> searchTypeNameRefs env (u, pf) t
    | TargetConstValue \<Rightarrow> searchConstValueRefs env (u, pf) t
    | TargetService \<Rightarrow> and_then (lifted (target_identifier t)) (\<lambda>i. searchServiceRefs env u (idText i))
    | TargetDefinition \<Rightarrow> searchDefRefs env (u, pf) t
    | TargetNone \<Rightarrow> answer []))"
    using r target_value_ok[OF r(3)] target_service_ok[OF r(3)]
    by (cases "tgKind t") (auto intro!: safe_searchTypeNameRefs safe_searchConstValueRefs safe_searchDefRefs safe_searchServiceRefs
        safe_then[OF safe_lifted] safe_answer)
qed

lemma safe_References: "safe env (\<lambda>_. True) (ReferenceSites env u pos)"
  unfolding ReferenceSites_def by (rule safe_then[OF safe_searchReferences]) (rule safe_answer, simp)

lemma safe_Highlight: "safe env (\<lambda>_. True) (Highlight env u pos)"
  unfolding Highlight_def
proof (rule safe_then[OF safe_target])
  fix r assume "case r of (pf, t) \<Rightarrow> read_file env u = Some pf \<and> target_ok pf t"
  then obtain pf t where r: "r = (pf, t)" "target_ok pf t" by auto
  have "\<exists>own. (case target_identifier t of None \<Rightarrow> Some None | Some i \<Rightarrow> map_option Some (nodeRange pf (A_Node (N_Identifier i)))) = Some own"
  proof (cases "target_identifier t")
    case (Some i)
    then have "in_tree pf (N_Identifier i)"
      using r(2) by (auto simp: target_identifier_def target_ok_def any_ok_def split: AnyNode.splits Node.splits)
    from nodeRange_ok[OF this] show ?thesis using Some by auto
  qed simp
  then obtain own where "(case target_identifier t of None \<Rightarrow> Some None | Some i \<Rightarrow> map_option Some (nodeRange pf (A_Node (N_Identifier i)))) = Some own"
    by blast
  then show "safe env (\<lambda>_. True) (case r of (pf, t) \<Rightarrow>
      and_then (searchReferences env u pos) (\<lambda>refs.
      and_then (lifted (case target_identifier t of None \<Rightarrow> Some None
        | Some i \<Rightarrow> map_option Some (nodeRange pf (A_Node (N_Identifier i))))) (\<lambda>own.
      answer (highlights own (map (\<lambda>h. (loRange (ihLoc h), ihKind h)) (filter (\<lambda>h. loURI (ihLoc h) = u) refs))))))"
    using r by (auto intro!: safe_then[OF safe_searchReferences] safe_then[OF safe_lifted] safe_answer)
qed

lemma safe_node_range: "target_ok pf t \<Longrightarrow> tgKind t \<noteq> TargetNone \<Longrightarrow> safe env (\<lambda>_. True) (lifted (nodeRange pf (tgNode t)))"
  using target_range[of pf t] by (auto intro!: safe_lifted)

lemma safe_PrepareRename: "safe env (\<lambda>_. True) (PrepareRename env u pos)"
  unfolding PrepareRename_def
  by (rule safe_then[OF safe_target])
    (auto intro!: safe_refuse safe_node_range split: TargetKind.split)

lemma safe_rename_hits:
  assumes "read_file env u = Some pf" "target_ok pf t"
  shows "safe env (\<lambda>_. tgKind t \<noteq> TargetNone) (rename_hits env (u, pf) t)"
proof (cases "tgKind t")
  case TargetNone
  then show ?thesis by (simp add: rename_hits_def safe_refuse)
next
  case TargetService
  then obtain i where "target_identifier t = Some i" using target_service_ok[OF assms(2)] by blast
  then show ?thesis using TargetService
    by (auto simp: rename_hits_def intro!: safe_then[OF safe_lifted] safe_then[OF safe_searchServiceRefs] safe_answer split: prod.split)
next
  case TargetConstValue
  then obtain v where "target_value t = Some v" using target_value_ok[OF assms(2)] by blast
  then show ?thesis using TargetConstValue assms(1)
    by (auto simp: rename_hits_def intro!: safe_then[OF safe_searchConstValueRefs] safe_answer)
qed (use assms in \<open>auto simp: rename_hits_def intro!: safe_refuse safe_answer safe_then[OF safe_searchTypeNameRefs]
    safe_then[OF safe_searchDefRefs]\<close>)

lemma safe_Rename: "safe env (\<lambda>_. True) (Rename env u pos newName)"
  unfolding Rename_def
proof (rule safe_then[OF safe_target])
  fix r assume "case r of (pf, t) \<Rightarrow> read_file env u = Some pf \<and> target_ok pf t"
  then obtain pf t where r: "r = (pf, t)" "read_file env u = Some pf" "target_ok pf t" by auto
  show "safe env (\<lambda>_. True) (case r of (pf, t) \<Rightarrow> and_then (rename_hits env (u, pf) t) (\<lambda>(u, refs).
      and_then (lifted (nodeRange pf (tgNode t))) (\<lambda>rg.
      answer (convertHitsToWorkspaceEdit (refs @ [\<lparr>ihLoc = \<lparr>loURI = u, loRange = rg\<rparr>, ihText = [], ihKind = RefFieldType\<rparr>]) newName))))"
    unfolding r(1) prod.case
    by (rule safe_then[OF safe_rename_hits[OF r(2,3)]])
      (auto intro!: safe_then[OF safe_node_range[OF r(3)]] safe_answer)
qed

lemma safe_RenameFileEdits: "safe env (\<lambda>_. True) (RenameFileEdits env old new)"
proof -
  have "safe env (\<lambda>_. True) (and_then (each_request (\<lambda>f. and_then (parsing env f) (\<lambda>pf.
      answer (f, concat (map (include_edit env old new (f, pf)) (Includes (pfAst pf)))))) us)
      (\<lambda>res. answer (filter (\<lambda>(f, edits). edits \<noteq> []) res)))" for us
    by (rule safe_then[OF safe_all]) (auto intro!: safe_then[OF safe_parsing] safe_answer)
  then show ?thesis by (auto simp: safe_def RenameFileEdits_def)
qed

section \<open>Formatting\<close>

lemma parsed_ok_inside:
  assumes "parsed_ok pf" "n \<in> set (docNodes (pfAst pf))"
  shows "inside (new_formatter (pfAst pf) opts) n" "toplevel n"
  using Parse_parts(1,2)[OF parsed_ok_Parse[OF assms(1)]] Lex_stream_ok[of "pfContent pf"] assms(2)
  by (auto simp: new_formatter_def sane_def inside_def doc_wf_def list_all_iff)

lemma safe_Format: "safe env (\<lambda>_. True) (source_Format sw p env fh opts)"
  unfolding source_Format_def
proof (rule safe_then[OF safe_parsing])
  fix pf assume "read_file env (fst fh) = Some pf"
  then have "Parse (pfContent pf) = Some (pfAst pf, pfErrs pf)" using parsed_ok_Parse read_parsed_ok by blast
  then obtain out where "Format sw p (Some (pfAst pf)) opts = Some (Inr out)" by (rule Format_runs)
  then show "safe env (\<lambda>_. True) (if pfErrs pf \<noteq> [] then refuse Not_parseable
      else checked (map_option formatted_result (Format sw p (Some (pfAst pf)) opts)))"
    by (auto intro!: safe_refuse safe_checked)
qed

lemma safe_format_changes: "safe env (\<lambda>_. True) (format_changes sw p env fh opts)"
proof -
  have "safe env (\<lambda>_. True) (\<lambda>ix. case source_Format sw p env fh opts ix of None \<Rightarrow> None
      | Some (Inl e, ix) \<Rightarrow> if e = Not_parseable then answer None ix else refuse e ix
      | Some (Inr formatted, ix) \<Rightarrow> answer (if content = formatted then None else Some (content, formatted)) ix)" for content
    using safe_Format[of env sw p fh opts] unfolding safe_def
    by (fastforce simp: answer_def refuse_def split: sum.split)
  then show ?thesis unfolding format_changes_def handle_content_def
    by (auto intro!: safe_then[where Q = "\<lambda>_. True"] safe_answer safe_refuse split: option.split)
qed

lemma safe_FormatDocument: "safe env (\<lambda>_. True) (FormatDocument sw p env fh opts)"
  unfolding FormatDocument_def by (rule safe_then[OF safe_format_changes]) (rule safe_answer, simp)

lemma safe_FormatRange: "safe env (\<lambda>_. True) (FormatRange sw p env fh opts rng)"
  unfolding FormatRange_def mapped_def
  by (rule safe_then[OF safe_format_changes]) (auto intro: safe_answer safe_refuse split: option.split prod.split sum.split)

lemma enclosing_range_ok: "(\<And>n. n \<in> set ns \<Longrightarrow> in_tree pf n) \<Longrightarrow> \<exists>r. enclosing_range pf pos ns = Some r"
proof (induction ns)
  case (Cons n ns)
  then show ?case using nodeRange_ok[of pf n] by auto
qed simp

lemma safe_OnTypeFormat: "safe env (\<lambda>_. True) (OnTypeFormat sw p env fh opts pos)"
  unfolding OnTypeFormat_def
proof (rule safe_then[OF safe_parse_try])
  fix r assume r: "r = read_file env (fst fh)"
  show "safe env (\<lambda>_. True) (case r of None \<Rightarrow> answer []
      | Some pf \<Rightarrow> and_then (lifted (enclosingConstruct pf pos)) (\<lambda>rng.
          (case rng of None \<Rightarrow> answer [] | Some rng \<Rightarrow> FormatRange sw p env fh opts rng)))"
  proof (cases r)
    case (Some pf)
    then have "parsed_ok pf" using r read_parsed_ok by metis
    then obtain x where "enclosingConstruct pf pos = Some x"
      using enclosing_range_ok[of "docNodes (pfAst pf)" pf pos] in_tree_top by (auto simp: enclosingConstruct_def)
    then show ?thesis using Some
      by (auto intro!: safe_then[OF safe_lifted] safe_answer safe_FormatRange split: option.split)
  qed (simp add: safe_answer)
qed

section \<open>Hovering\<close>

lemma FormatNode_runs:
  assumes "parsed_ok pf" "n \<in> set (docNodes (pfAst pf))"
  shows "\<exists>out. FormatNode sw p (Some (pfAst pf)) (Some n) opts = Some (Inr out)"
proof -
  obtain ir s where ir: "fmt_node (new_formatter (pfAst pf) (normalize opts)) None n build_new = Some (ir, s)"
    using fmt_node_runs[OF parsed_ok_inside(1)[OF assms] parsed_ok_inside(2)[OF assms], of "normalize opts" None build_new] by (auto simp: runs_def)
  obtain brk' where "propagateBreaks ir (arBrk (bsArena s)) = Some brk'" using propagateBreaks_total by blast
  then show ?thesis using ir normalize_valid by (simp add: FormatNode_def Print_def Let_def print_error_def)
qed

lemma safe_formatNode:
  assumes "resolved_ok env d" "n \<in> set (docNodes (pfAst (rsParsed d)))"
  shows "safe env (\<lambda>_. True) (formatNode sw p (rsParsed d) n)"
proof -
  have "parsed_ok (rsParsed d)" using assms(1) read_parsed_ok by (auto simp: resolved_ok_def)
  from FormatNode_runs[OF this assms(2)] obtain out where
    "FormatNode sw p (Some (pfAst (rsParsed d))) (Some n) DefaultOptions = Some (Inr out)" by blast
  then show ?thesis by (auto simp: formatNode_def intro!: safe_checked)
qed

lemma safe_show:
  "resolved_ok env d \<Longrightarrow> rsNode d = n \<Longrightarrow> \<forall>i. n \<noteq> N_Identifier i \<Longrightarrow> safe env (\<lambda>_. True) (formatNode sw p (rsParsed d) n)"
  using safe_formatNode[of env d n] by (auto simp: resolved_ok_def)

lemma enumOfValue_ok:
  assumes "parsed_ok pf"
  shows "\<exists>r. enumOfValue pf name = Some r \<and> (\<forall>en. r = Some en \<longrightarrow> N_Enum en \<in> set (docNodes (pfAst pf)))"
proof -
  obtain vals where v: "EnumValues pf = Some vals" using EnumValues_tree[OF assms] by blast
  have "N_Enum en \<in> set (docNodes (pfAst pf))" if "find P (Enums (pfAst pf)) = Some en" for P en
    using that accessor_top(4)[of en "pfAst pf"] by (auto simp: find_Some_iff)
  then show ?thesis by (auto simp: enumOfValue_def v split: option.split)
qed

lemma safe_Hover: "safe env (\<lambda>_. True) (Hover sw p env u pos)"
  unfolding Hover_def
proof (rule safe_then[OF safe_target])
  fix r assume "case r of (pf, t) \<Rightarrow> read_file env u = Some pf \<and> target_ok pf t"
  then obtain pf t where r: "r = (pf, t)" "read_file env u = Some pf" "target_ok pf t" by auto
  then have rd: "read_file env (fst (u, pf)) = Some (snd (u, pf))" by simp
  let ?show = "\<lambda>d. formatNode sw p (rsParsed d)"
  have ty: "safe env (\<lambda>_. True) (hoverDefinition ?show env (u, pf) t)"
    unfolding hoverDefinition_def
    by (auto intro!: safe_answer safe_then[OF safe_resolve(1)[OF rd]] safe_show[OF _ refl] split: option.split)
      (simp add: definitionMatches_def)
  have sv: "safe env (\<lambda>_. True) (hoverService ?show env (u, pf) t)"
    unfolding hoverService_def
    by (rule safe_then[OF safe_resolve(3)[OF rd]]) (auto intro!: safe_answer safe_show split: option.split Node.split)
  have va: "safe env (\<lambda>_. True) (hoverConstValue ?show env (u, pf) t)" if v: "target_value t = Some v" for v
  proof -
    have "safe env (\<lambda>_. True)
        (if rsKind d = DefinitionEnumValue
         then and_then (lifted (name_text d)) (\<lambda>name. and_then (lifted (enumOfValue (rsParsed d) name)) (\<lambda>dst.
           (case dst of None \<Rightarrow> answer [] | Some en \<Rightarrow> ?show d (N_Enum en))))
         else (case rsNode d of N_Const c \<Rightarrow> ?show d (N_Const c) | _ \<Rightarrow> answer []))" if d: "resolved_ok env d" for d
    proof (cases "rsKind d = DefinitionEnumValue")
      case True
      have pd: "parsed_ok (rsParsed d)" using d read_parsed_ok by (auto simp: resolved_ok_def)
      obtain n where n: "name_text d = Some n" using d by (auto simp: resolved_ok_def name_text_def)
      obtain e where e: "enumOfValue (rsParsed d) n = Some e" "\<forall>en. e = Some en \<longrightarrow> N_Enum en \<in> set (docNodes (pfAst (rsParsed d)))"
        using enumOfValue_ok[OF pd, of n] by blast
      then show ?thesis using True n safe_formatNode[OF d]
        by (auto simp: then_lifted e(1) intro!: safe_answer split: option.split)
    qed (use d in \<open>auto intro!: safe_show safe_answer split: Node.split\<close>)
    then show ?thesis unfolding hoverConstValue_def
      by (auto simp: v then_lifted intro!: safe_then[OF safe_resolve(2)[OF rd]] safe_answer split: option.split)
  qed
  show "safe env (\<lambda>_. True) (case r of (pf, t) \<Rightarrow> (let show = ?show in case tgKind t of
      TargetTypeName \<Rightarrow> hoverDefinition show env (u, pf) t
    | TargetConstValue \<Rightarrow> hoverConstValue show env (u, pf) t
    | TargetService \<Rightarrow> hoverService show env (u, pf) t
    | _ \<Rightarrow> answer []))"
    using r ty sv va target_value_ok[OF r(3)] by (cases "tgKind t") (auto simp: Let_def safe_answer)
qed

section \<open>All requests\<close>

text \<open>A request on a view is answered, with a value or an error, and leaves a sound view.\<close>

definition answers :: "Env \<Rightarrow> View \<Rightarrow> 'a request \<Rightarrow> bool" where
  "answers env v m \<longleftrightarrow> (\<exists>r v'. serve m v = Some (r, v') \<and> view_good env v')"

lemma safe_answers: "view_good env v \<Longrightarrow> safe env P m \<Longrightarrow> answers env v m"
  using index_good_new unfolding safe_def answers_def serve_def by (fastforce simp: index_good_def)

lemmas safe_navigation = safe_Definition safe_TypeDefinition safe_Links safe_Diagnostics safe_DocumentSymbols safe_WorkspaceSymbols
lemmas safe_references = safe_References safe_Highlight safe_PrepareRename safe_Rename safe_RenameFileEdits
lemmas safe_editing = safe_FormatDocument safe_FormatRange safe_OnTypeFormat safe_Hover safe_SemanticTokens safe_Ranges safe_Completion

text \<open>
  C7: no request panics. On every sound view, in whatever order it has been filled, each
  request is answered with a value or an error, at any position of any file that can be read
  or not, with errors in its text or not; and it leaves the view sound.
\<close>

theorem requests_total:
  assumes "view_good env v"
  shows "answers env v (Definition env u pos) \<and> answers env v (TypeDefinition env u pos) \<and> answers env v (Links env u) \<and>
    answers env v (ToProtocolDiagnostics env u ds) \<and> answers env v (DocumentSymbols env u) \<and>
    answers env v (WorkspaceSymbols lower env us query n) \<and>
    answers env v (ReferenceSites env u pos) \<and> answers env v (Highlight env u pos) \<and> answers env v (PrepareRename env u pos) \<and>
    answers env v (Rename env u pos newName) \<and> answers env v (RenameFileEdits env u u') \<and>
    answers env v (FormatDocument sw p env fh opts) \<and> answers env v (FormatRange sw p env fh opts rng) \<and>
    answers env v (OnTypeFormat sw p env fh opts pos) \<and> answers env v (Hover sw p env u pos) \<and>
    answers env v (SemanticTokens env u) \<and> answers env v (Ranges env u) \<and>
    answers env v (CompletionItems order readDir env fh pos)"
  using safe_answers[OF assms safe_navigation(1)] safe_answers[OF assms safe_navigation(2)]
    safe_answers[OF assms safe_navigation(3)] safe_answers[OF assms safe_navigation(4)]
    safe_answers[OF assms safe_navigation(5)] safe_answers[OF assms safe_navigation(6)]
    safe_answers[OF assms safe_references(1)] safe_answers[OF assms safe_references(2)]
    safe_answers[OF assms safe_references(3)] safe_answers[OF assms safe_references(4)] safe_answers[OF assms safe_references(5)]
    safe_answers[OF assms safe_editing(1)] safe_answers[OF assms safe_editing(2)] safe_answers[OF assms safe_editing(3)]
    safe_answers[OF assms safe_editing(4)] safe_answers[OF assms safe_editing(5)] safe_answers[OF assms safe_editing(6)]
    safe_answers[OF assms safe_editing(7)]
  by (intro conjI) assumption+

text \<open>A hover at the name of the included type prints its definition, which another file holds.\<close>

lemma demo_hover:
  "case serve (Hover length fresh_printer demo_env ''/a'' \<lparr>lpLine = 1, lpCharacter = 10\<rparr>) NewView of
     Some (Inr t, v) \<Rightarrow> t = ''struct T {}'' | _ \<Rightarrow> False"
  by code_simp

lemma requests_total_witness:
  "\<exists>v'. serve (Hover length fresh_printer demo_env ''/a'' \<lparr>lpLine = 1, lpCharacter = 10\<rparr>) NewView = Some (Inr ''struct T {}'', v') \<and>
     view_good demo_env v'"
proof -
  have "answers demo_env NewView (Hover length fresh_printer demo_env ''/a'' \<lparr>lpLine = 1, lpCharacter = 10\<rparr>)"
    using requests_total[OF view_good_new, where sw = length and p = fresh_printer and env = demo_env and u = "''/a''"
        and pos = "\<lparr>lpLine = 1, lpCharacter = 10\<rparr>"] by blast
  then obtain r v' where r: "serve (Hover length fresh_printer demo_env ''/a'' \<lparr>lpLine = 1, lpCharacter = 10\<rparr>) NewView = Some (r, v')"
    "view_good demo_env v'" by (auto simp: answers_def)
  then show ?thesis using demo_hover by (cases r) auto
qed

end
