(* ===== verification/EditProps.thy ===== *)
theory EditProps imports Formatting MapperProps PrintProps SemaIndexProps
begin

text \<open>
  The edits that formatting a selection and a document answers, as a client applies them: they
  are resolved against the text they were made for and spliced into it. The document and the
  formatted text are tiled by pairs of segments, each edit replaces one segment, and every
  boundary of the old segments is the start of a line or the end of the document, so that its
  protocol position leads back to it.
\<close>

section \<open>Lines\<close>

definition line_boundary :: "bytes \<Rightarrow> nat \<Rightarrow> bool" where
  "line_boundary c n \<longleftrightarrow> n = 0 \<or> n = length c \<or> (n < length c \<and> c ! (n - 1) = LF)"

lemma boundary_le: "line_boundary c n \<Longrightarrow> n \<le> length c"
  by (auto simp: line_boundary_def)

lemma takeWhile_LF: "LF \<in> set s \<Longrightarrow> length (takeWhile (\<lambda>c. c \<noteq> LF) s) < length s \<and> s ! length (takeWhile (\<lambda>c. c \<noteq> LF) s) = LF"
  by (induction s) auto

lemma forward_LF_at: "LF \<in> set (drop i c) \<Longrightarrow> forward_LF c i < length c \<and> c ! forward_LF c i = LF"
  using takeWhile_LF[of "drop i c"] by (cases "i \<le> length c") (auto simp: forward_LF_def)

lemma nextLineStart_boundary: "line_boundary c (nextLineStart c i)"
  using forward_LF_at[of i c] by (auto simp: nextLineStart_def line_boundary_def)

lemma skip_lines_boundary: "line_boundary c i \<Longrightarrow> line_boundary c (skip_lines p c i)"
proof (induction p c i rule: skip_lines.induct)
  case (1 p c i)
  then show ?case using nextLineStart_boundary[of c i] by (cases "i < length c \<and> p i") (auto simp: skip_lines.simps[of p c i])
qed

lemma aligned_length: "aligned s (length s)"
proof (induction "length s" arbitrary: s rule: less_induct)
  case less
  show ?case
  proof (cases "s = []")
    case False
    then have "aligned (drop (rune_size s) s) (length (drop (rune_size s) s))"
      using rune_size_pos[OF False] by (intro less.hyps) simp
    then show ?thesis using False rune_size_le[of s] by (subst aligned.simps) simp
  qed simp
qed

lemma boundary_offset:
  assumes "line_boundary c n" "length c < 2 ^ 32"
  shows "\<exists>pos. OffsetToLSPPosition (NewMapper c) (int n) = Inr pos \<and> offsetAt (NewMapper c) pos = Inr n"
proof -
  have "aligned c n" using assms(1) aligned_after_LF[of "n - 1" c] by (cases n) (auto simp: line_boundary_def aligned_length)
  moreover have "\<not> after_cr c n" using assms(1) by (auto simp: line_boundary_def after_cr_def)
  ultimately obtain pos where "OffsetToLSPPosition (NewMapper c) (int n) = Inr pos"
    "LSPPosToParserPosition (NewMapper c) pos =
      Inr \<lparr>poLine = lf_count c n + 1, poCol = rune_count (Prelude.slice (line_begin c n) n c) + 1, poOffset = n\<rparr>"
    using roundtrip_offset assms(2) by blast
  then show ?thesis by (auto simp: offsetAt_def)
qed

section \<open>Blocks\<close>

text \<open>Blocks in order, between line boundaries.\<close>

fun block_chain :: "bytes \<Rightarrow> nat \<Rightarrow> (nat \<times> nat) list \<Rightarrow> bool" where
  "block_chain c i [] \<longleftrightarrow> i \<le> length c"
| "block_chain c i ((a, b) # bs) \<longleftrightarrow> i \<le> a \<and> a \<le> b \<and> line_boundary c a \<and> line_boundary c b \<and> block_chain c b bs"

lemma blocks_chain: "line_boundary c i \<Longrightarrow> block_chain c i (blocks_from c i)"
proof (induction c i rule: blocks_from.induct)
  case (1 c i)
  define start where "start = skip_lines (blank_line c) c i"
  define stop where "stop = skip_lines (\<lambda>j. \<not> blank_line c j) c start"
  have b: "line_boundary c start" "line_boundary c stop" using skip_lines_boundary 1(2) by (simp_all add: start_def stop_def)
  have le: "i \<le> start" "start \<le> stop" using skip_lines_ge by (simp_all add: start_def stop_def)
  show ?case
  proof (cases "start \<ge> length c")
    case True
    then show ?thesis using boundary_le[OF 1(2)] by (subst blocks_from.simps) (simp add: start_def)
  next
    case False
    then have "block_chain c stop (blocks_from c stop)" using 1(1)[OF start_def _ stop_def] b(2) by simp
    then show ?thesis using False b le by (subst blocks_from.simps) (simp add: start_def stop_def Let_def)
  qed
qed

section \<open>Segments\<close>

text \<open>A segment: where it is in the old text, and where in the new.\<close>

type_synonym segment = "(nat \<times> nat) \<times> nat \<times> nat"

fun tiles_both :: "bytes \<Rightarrow> bytes \<Rightarrow> nat \<Rightarrow> nat \<Rightarrow> segment list \<Rightarrow> bool" where
  "tiles_both old new i k [] \<longleftrightarrow> i = length old \<and> k = length new"
| "tiles_both old new i k (((a, b), c, d) # segs) \<longleftrightarrow>
     a = i \<and> c = k \<and> i \<le> b \<and> k \<le> d \<and> line_boundary old b \<and> tiles_both old new b d segs"

abbreviation edit_of :: "bytes \<Rightarrow> bytes \<Rightarrow> segment \<Rightarrow> blockEdit list" where
  "edit_of old new \<equiv> \<lambda>((i, j), k, l). segment_edit old i j new k l"

abbreviation texts_of :: "bytes \<Rightarrow> bytes \<Rightarrow> segment \<Rightarrow> bytes \<times> bytes" where
  "texts_of old new \<equiv> \<lambda>((i, j), k, l). (Prelude.slice i j old, Prelude.slice k l new)"

fun segments_of :: "bytes \<Rightarrow> bytes \<Rightarrow> nat \<Rightarrow> nat \<Rightarrow> ((nat \<times> nat) \<times> nat \<times> nat) list \<Rightarrow> segment list" where
  "segments_of old new i k [] = [((i, length old), k, length new)]"
| "segments_of old new i k (((a, b), c, d) # bs) = ((i, a), k, c) # ((a, b), c, d) # segments_of old new b d bs"

lemma block_edits_segments: "block_edits old new i k bs = concat (map (edit_of old new) (segments_of old new i k bs))"
  by (induction old new i k bs rule: block_edits.induct) simp_all

lemma segments_tile:
  "length bs = length cs \<Longrightarrow> block_chain old i bs \<Longrightarrow> block_chain new k cs \<Longrightarrow>
   tiles_both old new i k (segments_of old new i k (zip bs cs))"
proof (induction bs cs arbitrary: i k rule: list_induct2)
  case (Cons x bs y cs)
  then show ?case by (cases x; cases y) simp
qed (simp add: line_boundary_def)

lemma tiles_texts:
  "tiles_both old new i k segs \<Longrightarrow>
   concat (map fst (map (texts_of old new) segs)) = drop i old \<and> concat (map snd (map (texts_of old new) segs)) = drop k new"
proof (induction segs arbitrary: i k)
  case (Cons s segs)
  obtain b d where s: "s = ((i, b), k, d)" "i \<le> b" "k \<le> d" "tiles_both old new b d segs" using Cons.prems by (cases s) auto
  have "Prelude.slice i b old @ drop b old = drop i old" "Prelude.slice k d new @ drop d new = drop k new"
    using s(2,3) append_take_drop_id[of "b - i" "drop i old"] append_take_drop_id[of "d - k" "drop k new"]
    by (simp_all add: Prelude.slice_def)
  then show ?case using Cons.IH[OF s(4)] by (simp add: s(1))
qed simp

lemma tiles_le: "tiles_both old new i k segs \<Longrightarrow> i \<le> length old"
proof (induction segs arbitrary: i k)
  case (Cons s segs)
  then show ?case by (cases s) (fastforce dest: boundary_le)
qed simp

section \<open>Splicing a selection\<close>

definition pend :: "blockEdit \<Rightarrow> pending_edit" where
  "pend e = \<lparr>peStart = beStart e, peEnd = beEnd e, peText = beText e\<rparr>"

text \<open>The new text in the segments that overlap the bytes from \<open>a\<close> to \<open>b\<close>, else the old one.\<close>

fun mixed :: "nat \<Rightarrow> nat \<Rightarrow> nat \<Rightarrow> (bytes \<times> bytes) list \<Rightarrow> bytes" where
  "mixed a b pos [] = []"
| "mixed a b pos ((x, y) # segs) =
     (if pos + length x \<le> a \<or> b \<le> pos then x else y) @ mixed a b (pos + length x) segs"

lemma splice_before: "p \<le> q \<Longrightarrow> disjoint_from q es \<Longrightarrow> splice c p es = Prelude.slice p q c @ splice c q es"
proof (cases es)
  case Nil
  assume "p \<le> q"
  then show ?thesis using Nil append_take_drop_id[of "q - p" "drop p c"] by (simp add: Prelude.slice_def)
next
  case (Cons e r)
  assume "p \<le> q" "disjoint_from q es"
  then show ?thesis using Cons slice_append[of p q "peStart e" c] by simp
qed

lemma disjoint_before: "p \<le> q \<Longrightarrow> disjoint_from q es \<Longrightarrow> disjoint_from p es"
  by (cases es) auto

lemma segments_splice:
  "tiles_both old new i k segs \<Longrightarrow>
   disjoint_from i (map pend (filter (touches a b) (concat (map (edit_of old new) segs)))) \<and>
   splice old i (map pend (filter (touches a b) (concat (map (edit_of old new) segs)))) =
   mixed a b i (map (texts_of old new) segs)"
proof (induction segs arbitrary: i k)
  case (Cons s segs)
  obtain j l where s: "s = ((i, j), k, l)" "i \<le> j" "k \<le> l" "tiles_both old new j l segs" using Cons.prems by (cases s) auto
  define es where "es = map pend (filter (touches a b) (concat (map (edit_of old new) segs)))"
  define e where "e = \<lparr>beStart = i, beEnd = j, beText = Prelude.slice k l new\<rparr>"
  have IH: "disjoint_from j es" "splice old j es = mixed a b j (map (texts_of old new) segs)"
    using Cons.IH[OF s(4)] by (simp_all add: es_def)
  have len: "i + length (Prelude.slice i j old) = j" using s(2) tiles_le[OF s(4)] by simp
  have before: "splice old i es = Prelude.slice i j old @ splice old j es" "disjoint_from i es"
    using splice_before[OF s(2) IH(1)] disjoint_before[OF s(2) IH(1)] by blast+
  have edits: "map pend (filter (touches a b) (concat (map (edit_of old new) (s # segs)))) =
      (if Prelude.slice i j old \<noteq> Prelude.slice k l new \<and> touches a b e then pend e # es else es)"
    by (simp add: s(1) segment_edit_def es_def e_def)
  have pe: "peStart (pend e) = i" "peEnd (pend e) = j" "peText (pend e) = Prelude.slice k l new" by (simp_all add: pend_def e_def)
  have t: "touches a b e \<longleftrightarrow> \<not> (j \<le> a \<or> b \<le> i)" by (simp add: touches_def e_def)
  have m: "mixed a b i (map (texts_of old new) (s # segs)) =
      (if j \<le> a \<or> b \<le> i then Prelude.slice i j old else Prelude.slice k l new) @ mixed a b j (map (texts_of old new) segs)"
    by (simp only: list.map s(1) prod.case mixed.simps len)
  show ?case unfolding edits m using IH before s(2) t
    by (cases "Prelude.slice i j old \<noteq> Prelude.slice k l new \<and> touches a b e") (auto simp: pe)
qed (simp add: splice.simps)

section \<open>Protocol positions\<close>

lemma text_edits_resolve:
  assumes "length c < 2 ^ 32"
  shows "\<forall>e \<in> set bes. line_boundary c (beStart e) \<and> line_boundary c (beEnd e) \<Longrightarrow>
   \<exists>es. text_edits (NewMapper c) bes = Inr es \<and> resolve_edits (NewMapper c) es = Inr (map pend bes)"
proof (induction bes)
  case (Cons e bes)
  obtain p q where "OffsetToLSPPosition (NewMapper c) (int (beStart e)) = Inr p" "offsetAt (NewMapper c) p = Inr (beStart e)"
    "OffsetToLSPPosition (NewMapper c) (int (beEnd e)) = Inr q" "offsetAt (NewMapper c) q = Inr (beEnd e)"
    using boundary_offset[OF _ assms] Cons.prems by (metis list.set_intros(1))
  then show ?case using Cons by (auto simp: pend_def)
qed simp

lemma segment_boundaries:
  "tiles_both old new i k segs \<Longrightarrow> line_boundary old i \<Longrightarrow> e \<in> set (concat (map (edit_of old new) segs)) \<Longrightarrow>
   line_boundary old (beStart e) \<and> line_boundary old (beEnd e)"
proof (induction segs arbitrary: i k)
  case (Cons s segs)
  obtain j l where s: "s = ((i, j), k, l)" "line_boundary old j" "tiles_both old new j l segs" using Cons.prems by (cases s) auto
  from Cons.prems(3) consider (here) "e \<in> set (segment_edit old i j new k l)" | (there) "e \<in> set (concat (map (edit_of old new) segs))"
    unfolding s(1) by (simp only: list.map concat.simps set_append Un_iff prod.case) blast
  then show ?case
  proof cases
    case here
    then show ?thesis using s(2) Cons.prems(2) by (simp add: segment_edit_def split: if_splits)
  qed (rule Cons.IH[OF s(3,2)])
qed simp

lemma document_edit_splice:
  assumes "length content < 2 ^ 32"
  shows "resolve_edits (NewMapper content) [document_edit content formatted] = Inr [\<lparr>peStart = 0, peEnd = length content, peText = formatted\<rparr>]"
proof -
  have b: "line_boundary content 0" "line_boundary content (length content)" by (simp_all add: line_boundary_def)
  obtain p where p: "OffsetToLSPPosition (NewMapper content) (int 0) = Inr p" "offsetAt (NewMapper content) p = Inr 0"
    using boundary_offset[OF b(1) assms] by blast
  have "p = \<lparr>lpLine = 0, lpCharacter = 0\<rparr>"
    using p(1) search_line[of 0 content] by (simp add: OffsetToLSPPosition_def init_new lf_count_def Let_def lf_starts_def)
  moreover obtain q where q: "OffsetToLSPPosition (NewMapper content) (int (length content)) = Inr q" "offsetAt (NewMapper content) q = Inr (length content)"
    using boundary_offset[OF b(2) assms] by blast
  moreover have "q = GetLSPEndPosition (NewMapper content)"
    using q(1) search_line[of "length content" content] nth_lf_starts[of "length content" "length content" content]
    by (simp add: OffsetToLSPPosition_def GetLSPEndPosition_def init_new Let_def line_begin_def Prelude.slice_def)
  ultimately show ?thesis using p(2) by (simp add: document_edit_def)
qed

section \<open>The segments of a text\<close>

text \<open>
  A text is cut before and after each block of lines that are not blank: blank lines, a block,
  blank lines, a block and so on, and the blank lines at the end.
\<close>

fun cut_at :: "bytes \<Rightarrow> nat \<Rightarrow> nat list \<Rightarrow> bytes list" where
  "cut_at c i [] = [drop i c]"
| "cut_at c i (a # as) = Prelude.slice i a c # cut_at c a as"

definition bounds :: "(nat \<times> nat) list \<Rightarrow> nat list" where
  "bounds bs = concat (map (\<lambda>(a, b). [a, b]) bs)"

definition pieces :: "bytes \<Rightarrow> bytes list" where
  "pieces c = cut_at c 0 (bounds (blocks c))"

text \<open>
  The pairs of old and new text that are exchanged as a whole: the pieces, where both texts have
  the same number of blocks, and otherwise, or if a line of the old text ends in a carriage return
  and a line feed, the two texts.
\<close>

definition exchanged :: "bytes \<Rightarrow> bytes \<Rightarrow> (bytes \<times> bytes) list" where
  "exchanged old new =
     (if has_crlf old \<or> blocks old = [] \<or> length (blocks old) \<noteq> length (blocks new) then [(old, new)]
      else zip (pieces old) (pieces new))"

lemma segments_pieces:
  "length bs = length cs \<Longrightarrow>
   map (texts_of old new) (segments_of old new i k (zip bs cs)) = zip (cut_at old i (bounds bs)) (cut_at new k (bounds cs))"
proof (induction bs cs arbitrary: i k rule: list_induct2)
  case (Cons x bs y cs)
  then show ?case by (cases x; cases y) (simp add: bounds_def)
qed (simp add: bounds_def Prelude.slice_def)

lemma blockDiff_exchanged:
  "\<exists>segs. tiles_both old new 0 0 segs \<and> blockDiff old new = concat (map (edit_of old new) segs) \<and>
     map (texts_of old new) segs = exchanged old new"
proof (cases "has_crlf old \<or> blocks old = [] \<or> length (blocks old) \<noteq> length (blocks new)")
  case True
  then have "blockDiff old new = concat (map (edit_of old new) [((0, length old), 0, length new)])"
    by (auto simp: blockDiff_def whole_edit_def segment_edit_def Let_def)
  moreover have "tiles_both old new 0 0 [((0, length old), 0, length new)]" by (simp add: line_boundary_def)
  moreover have "map (texts_of old new) [((0, length old), 0, length new)] = exchanged old new" using True by (simp add: exchanged_def)
  ultimately show ?thesis by blast
next
  case False
  have z: "line_boundary c 0" for c by (simp add: line_boundary_def)
  have "tiles_both old new 0 0 (segments_of old new 0 0 (zip (blocks old) (blocks new)))"
    using False blocks_chain[OF z] by (intro segments_tile) (simp_all add: blocks_def)
  then show ?thesis using False segments_pieces[of "blocks old" "blocks new" old new 0 0]
    by (auto simp: blockDiff_def block_edits_segments Let_def exchanged_def pieces_def)
qed

lemma exchanged_texts: "concat (map fst (exchanged old new)) = old \<and> concat (map snd (exchanged old new)) = new"
  using blockDiff_exchanged[of old new] tiles_texts by fastforce

lemma range_edits_exchanged:
  assumes "length content < 2 ^ 32"
    "offsetAt (NewMapper content) (lrStart rng) = Inr s" "offsetAt (NewMapper content) (lrEnd rng) = Inr t"
  shows "\<exists>edits es. range_edits content formatted rng = Inr edits \<and>
     resolve_edits (NewMapper content) edits = Inr es \<and> disjoint_from 0 es \<and>
     splice content 0 es = mixed (lineStart content s) (nextLineStart content (lineStart content t)) 0 (exchanged content formatted)"
proof -
  obtain segs where segs: "tiles_both content formatted 0 0 segs" "blockDiff content formatted = concat (map (edit_of content formatted) segs)"
    "map (texts_of content formatted) segs = exchanged content formatted"
    using blockDiff_exchanged by blast
  let ?a = "lineStart content s" and ?b = "nextLineStart content (lineStart content t)"
  let ?bes = "filter (touches ?a ?b) (concat (map (edit_of content formatted) segs))"
  have z: "line_boundary content 0" by (simp add: line_boundary_def)
  have "\<forall>e \<in> set ?bes. line_boundary content (beStart e) \<and> line_boundary content (beEnd e)"
    using segment_boundaries[OF segs(1) z] by (meson filter_is_subset subsetD)
  from text_edits_resolve[OF assms(1) this] obtain edits where
    r: "text_edits (NewMapper content) ?bes = Inr edits" "resolve_edits (NewMapper content) edits = Inr (map pend ?bes)" by blast
  have "range_edits content formatted rng = Inr edits"
    using assms(2,3) r(1) by (simp only: range_edits_def Let_def sum.case segs(2))
  then show ?thesis using segments_splice[OF segs(1), of ?a ?b] r(2) segs(3) by auto
qed

section \<open>The handlers\<close>

definition unformatted :: "(bytes \<Rightarrow> nat) \<Rightarrow> printer \<Rightarrow> Env \<Rightarrow> uri \<Rightarrow> bytes \<Rightarrow> FormatOptions \<Rightarrow> View \<Rightarrow> bytes \<Rightarrow> View \<Rightarrow> bool" where
  "unformatted sw p env u content opts v formatted v' \<longleftrightarrow>
     serve (source_Format sw p env (u, Some content) opts) v = Some (Inr formatted, v') \<and> content \<noteq> formatted"

lemma format_changes_cases:
  assumes "serve (format_changes sw p env (u, Some content) opts) v = Some (Inr r, v')"
  shows "case r of
     None \<Rightarrow> serve (source_Format sw p env (u, Some content) opts) v \<in> {Some (Inl Not_parseable, v'), Some (Inr content, v')}
   | Some (old, formatted) \<Rightarrow> old = content \<and> unformatted sw p env u content opts v formatted v'"
  using assms
  by (auto simp: serve_def format_changes_def and_then_def handle_content_def answer_def refuse_def unformatted_def
      split: option.splits sum.splits if_splits)

lemma FormatRange_changes:
  assumes "serve (FormatRange sw p env (u, Some content) opts rng) v = Some (Inr edits, v')"
  shows "\<exists>r. serve (format_changes sw p env (u, Some content) opts) v = Some (Inr r, v') \<and>
     (r = None \<and> edits = [] \<or> (\<exists>old formatted. r = Some (old, formatted) \<and> range_edits old formatted rng = Inr edits))"
  using assms
  by (auto simp: serve_def FormatRange_def and_then_def mapped_def answer_def refuse_def split: option.splits sum.splits)

lemma FormatRange_gives:
  assumes "unformatted sw p env u content opts v formatted v'" "range_edits content formatted rng = Inr edits"
  shows "serve (FormatRange sw p env (u, Some content) opts rng) v = Some (Inr edits, v')"
  using assms
  by (auto simp: serve_def FormatRange_def format_changes_def handle_content_def and_then_def mapped_def answer_def refuse_def
      unformatted_def split: option.splits sum.splits)

lemma FormatDocument_changes:
  assumes "serve (FormatDocument sw p env (u, Some content) opts) v = Some (Inr edit, v')"
  shows "\<exists>r. serve (format_changes sw p env (u, Some content) opts) v = Some (Inr r, v') \<and>
     edit = map_option (\<lambda>(old, formatted). document_edit old formatted) r"
  using assms
  by (auto simp: serve_def FormatDocument_def and_then_def answer_def split: option.splits sum.splits)

definition no_edits :: "(bytes \<Rightarrow> nat) \<Rightarrow> printer \<Rightarrow> Env \<Rightarrow> uri \<Rightarrow> bytes \<Rightarrow> FormatOptions \<Rightarrow> View \<Rightarrow> View \<Rightarrow> bool" where
  "no_edits sw p env u content opts v v' \<longleftrightarrow>
     serve (source_Format sw p env (u, Some content) opts) v \<in> {Some (Inl Not_parseable, v'), Some (Inr content, v')}"

text \<open>
  C13: formatting edits are what a client needs. If the text does not parse, or is formatted
  already, there are none. Otherwise the edit for the document replaces all of it by the
  formatted text; and the edits for a selection are in ascending order and disjoint, and a client
  that applies them gets the formatted text in the blocks, and gaps between blocks, that overlap
  the lines of the selection, and its own text everywhere else.
\<close>

theorem Format_edits_splice:
  assumes "length content < 2 ^ 32"
  shows "(\<forall>edits v'. serve (FormatRange sw p env (u, Some content) opts rng) v = Some (Inr edits, v') \<longrightarrow>
      no_edits sw p env u content opts v v' \<and> edits = [] \<or>
      (\<exists>formatted s t es. unformatted sw p env u content opts v formatted v' \<and>
        offsetAt (NewMapper content) (lrStart rng) = Inr s \<and> offsetAt (NewMapper content) (lrEnd rng) = Inr t \<and>
        resolve_edits (NewMapper content) edits = Inr es \<and> disjoint_from 0 es \<and>
        splice content 0 es =
          mixed (lineStart content s) (nextLineStart content (lineStart content t)) 0 (exchanged content formatted))) \<and>
    (\<forall>edit v'. serve (FormatDocument sw p env (u, Some content) opts) v = Some (Inr edit, v') \<longrightarrow>
      no_edits sw p env u content opts v v' \<and> edit = None \<or>
      (\<exists>formatted e es. edit = Some e \<and> unformatted sw p env u content opts v formatted v' \<and>
        resolve_edits (NewMapper content) [e] = Inr es \<and> splice content 0 es = formatted))"
proof (intro conjI allI impI)
  fix edits v'
  assume "serve (FormatRange sw p env (u, Some content) opts rng) v = Some (Inr edits, v')"
  then obtain r where r: "serve (format_changes sw p env (u, Some content) opts) v = Some (Inr r, v')"
    "r = None \<and> edits = [] \<or> (\<exists>old formatted. r = Some (old, formatted) \<and> range_edits old formatted rng = Inr edits)"
    by (blast dest: FormatRange_changes)
  note c = format_changes_cases[OF r(1)]
  show "no_edits sw p env u content opts v v' \<and> edits = [] \<or>
      (\<exists>formatted s t es. unformatted sw p env u content opts v formatted v' \<and>
        offsetAt (NewMapper content) (lrStart rng) = Inr s \<and> offsetAt (NewMapper content) (lrEnd rng) = Inr t \<and>
        resolve_edits (NewMapper content) edits = Inr es \<and> disjoint_from 0 es \<and>
        splice content 0 es =
          mixed (lineStart content s) (nextLineStart content (lineStart content t)) 0 (exchanged content formatted))"
  proof (cases r)
    case (Some x)
    then obtain formatted where f: "range_edits content formatted rng = Inr edits" "unformatted sw p env u content opts v formatted v'"
      using r(2) c by (cases x) auto
    then obtain s t where "offsetAt (NewMapper content) (lrStart rng) = Inr s" "offsetAt (NewMapper content) (lrEnd rng) = Inr t"
      by (auto simp: range_edits_def Let_def split: sum.splits)
    then show ?thesis using range_edits_exchanged[OF assms, of rng s t formatted] f by auto
  qed (use r(2) c in \<open>simp add: no_edits_def\<close>)
next
  fix edit v'
  assume "serve (FormatDocument sw p env (u, Some content) opts) v = Some (Inr edit, v')"
  then obtain r where r: "serve (format_changes sw p env (u, Some content) opts) v = Some (Inr r, v')"
    "edit = map_option (\<lambda>(old, formatted). document_edit old formatted) r"
    by (blast dest: FormatDocument_changes)
  note c = format_changes_cases[OF r(1)]
  show "no_edits sw p env u content opts v v' \<and> edit = None \<or>
      (\<exists>formatted e es. edit = Some e \<and> unformatted sw p env u content opts v formatted v' \<and>
        resolve_edits (NewMapper content) [e] = Inr es \<and> splice content 0 es = formatted)"
    using r(2) c document_edit_splice[OF assms] by (cases r) (auto simp: no_edits_def Prelude.slice_def)
qed

text \<open>Two structs with superfluous blanks, of which the selection is in the second.\<close>

definition sloppy :: bytes where
  "sloppy = ''struct  A {}'' @ [LF, LF] @ ''struct  B {}'' @ [LF]"

definition sloppy_env :: Env where
  "sloppy_env = demo_env\<lparr>evSource := NewOverlayFS (fmap_of_list [(''/s'', sloppy)])\<rparr>"

definition second :: LspRange where
  "second = \<lparr>lrStart = \<lparr>lpLine = 2, lpCharacter = 3\<rparr>, lrEnd = \<lparr>lpLine = 2, lpCharacter = 3\<rparr>\<rparr>"

lemma sloppy_format:
  "case serve (source_Format length fresh_printer sloppy_env (''/s'', Some sloppy) DefaultOptions) NewView of
     Some (Inr t, v) \<Rightarrow> t = ''struct A {}'' @ [LF, LF] @ ''struct B {}'' @ [LF] | _ \<Rightarrow> False"
  by code_simp

lemma sloppy_places:
  "offsetAt (NewMapper sloppy) (lrStart second) = Inr 17 \<and> offsetAt (NewMapper sloppy) (lrEnd second) = Inr 17"
  by code_simp

definition tidy :: bytes where
  "tidy = ''struct A {}'' @ [LF, LF] @ ''struct B {}'' @ [LF]"

lemma sloppy_blocks: "blocks sloppy = [(0, 13), (14, 27)]"
proof -
  have "nextLineStart sloppy 0 = 13" "nextLineStart sloppy 13 = 14" "nextLineStart sloppy 14 = 27" "length sloppy = 27"
    "\<not> blank_line sloppy 0" "blank_line sloppy 13" "\<not> blank_line sloppy 14" by code_simp+
  then show ?thesis
    by (simp add: blocks_def blocks_from.simps[of sloppy 0] blocks_from.simps[of sloppy 13] blocks_from.simps[of sloppy 27]
        skip_lines.simps[of _ sloppy 0] skip_lines.simps[of _ sloppy 13] skip_lines.simps[of _ sloppy 14] skip_lines.simps[of _ sloppy 27])
qed

lemma tidy_blocks: "blocks tidy = [(0, 12), (13, 25)]"
proof -
  have "nextLineStart tidy 0 = 12" "nextLineStart tidy 12 = 13" "nextLineStart tidy 13 = 25" "length tidy = 25"
    "\<not> blank_line tidy 0" "blank_line tidy 12" "\<not> blank_line tidy 13" by code_simp+
  then show ?thesis
    by (simp add: blocks_def blocks_from.simps[of tidy 0] blocks_from.simps[of tidy 12] blocks_from.simps[of tidy 25]
        skip_lines.simps[of _ tidy 0] skip_lines.simps[of _ tidy 12] skip_lines.simps[of _ tidy 13] skip_lines.simps[of _ tidy 25])
qed

lemma sloppy_mixed:
  "mixed (lineStart sloppy 17) (nextLineStart sloppy (lineStart sloppy 17)) 0 (exchanged sloppy tidy) =
   ''struct  A {}'' @ [LF, LF] @ ''struct B {}'' @ [LF]"
proof -
  have "lineStart sloppy 17 = 14" "nextLineStart sloppy 14 = 27" "\<not> has_crlf sloppy" by code_simp+
  moreover have "exchanged sloppy tidy = zip (cut_at sloppy 0 [0, 13, 14, 27]) (cut_at tidy 0 [0, 12, 13, 25])"
    using calculation(3) by (simp add: exchanged_def pieces_def bounds_def sloppy_blocks tidy_blocks)
  moreover have "cut_at sloppy 0 [0, 13, 14, 27] = [[], ''struct  A {}'' @ [LF], [LF], ''struct  B {}'' @ [LF], []]"
    "cut_at tidy 0 [0, 12, 13, 25] = [[], ''struct A {}'' @ [LF], [LF], ''struct B {}'' @ [LF], []]"
    by (simp_all add: sloppy_def tidy_def Prelude.slice_def)
  ultimately show ?thesis by simp
qed

lemma Format_edits_splice_witness:
  "\<exists>edits v' es. serve (FormatRange length fresh_printer sloppy_env (''/s'', Some sloppy) DefaultOptions second) NewView = Some (Inr edits, v') \<and>
     resolve_edits (NewMapper sloppy) edits = Inr es \<and> splice sloppy 0 es = ''struct  A {}'' @ [LF, LF] @ ''struct B {}'' @ [LF]"
proof -
  have len: "length sloppy < 2 ^ 32" by (simp add: sloppy_def)
  have ne: "sloppy \<noteq> tidy" by (simp add: sloppy_def tidy_def)
  obtain v' where f: "serve (source_Format length fresh_printer sloppy_env (''/s'', Some sloppy) DefaultOptions) NewView = Some (Inr tidy, v')"
    using sloppy_format by (auto simp: tidy_def split: option.splits sum.splits prod.splits)
  obtain edits where e: "range_edits sloppy tidy second = Inr edits"
    using range_edits_exchanged[OF len] sloppy_places by blast
  have r: "serve (FormatRange length fresh_printer sloppy_env (''/s'', Some sloppy) DefaultOptions second) NewView = Some (Inr edits, v')"
    using FormatRange_gives[OF _ e] f ne by (simp add: unformatted_def)
  have "\<not> no_edits length fresh_printer sloppy_env ''/s'' sloppy DefaultOptions NewView v'" using f ne by (simp add: no_edits_def)
  then obtain formatted s t es where d: "unformatted length fresh_printer sloppy_env ''/s'' sloppy DefaultOptions NewView formatted v'"
    "offsetAt (NewMapper sloppy) (lrStart second) = Inr s" "offsetAt (NewMapper sloppy) (lrEnd second) = Inr t"
    "resolve_edits (NewMapper sloppy) edits = Inr es"
    "splice sloppy 0 es = mixed (lineStart sloppy s) (nextLineStart sloppy (lineStart sloppy t)) 0 (exchanged sloppy formatted)"
    using Format_edits_splice[OF len, of length fresh_printer sloppy_env "''/s''" DefaultOptions second NewView] r by blast
  have "formatted = tidy" using d(1) f by (simp add: unformatted_def)
  moreover have "s = 17" "t = 17" using d(2,3) sloppy_places by simp_all
  ultimately have "splice sloppy 0 es = ''struct  A {}'' @ [LF, LF] @ ''struct B {}'' @ [LF]"
    using d(5) sloppy_mixed by (simp only:)
  then show ?thesis using r d(4) by blast
qed

end
