(* ===== verification/EditorProps.thy ===== *)
theory EditorProps imports EditorTotal
begin

text \<open>
  What semantic tokens and completion lists say. The numbers of semantic tokens, read as the
  protocol reads them, give the segments of the tokens and their types, where a name has the
  type of the one declaration it belongs to. A completion list holds exactly the best of the
  candidates that complete the prefix.
\<close>

section \<open>The declaration of a name\<close>

definition declares :: "AnyNode \<Rightarrow> (Identifier \<times> semantic_type) option" where
  "declares n =
     (case n of
        A_Node (N_Struct v) \<Rightarrow> map_option (\<lambda>i. (i, structToken (stKind v))) (stName v)
      | A_Node (N_Enum v) \<Rightarrow> map_option (\<lambda>i. (i, SemEnum)) (enName v)
      | A_Node (N_Service v) \<Rightarrow> map_option (\<lambda>i. (i, SemInterface)) (svName v)
      | A_Node (N_Const v) \<Rightarrow> map_option (\<lambda>i. (i, SemVariable)) (coName v)
      | A_Node (N_Typedef v) \<Rightarrow> map_option (\<lambda>i. (i, SemType)) (tdName v)
      | A_Node (N_Function v) \<Rightarrow> map_option (\<lambda>i. (i, SemFunction)) (fnName v)
      | A_Node (N_EnumValue v) \<Rightarrow> map_option (\<lambda>i. (i, SemEnumMember)) (evName v)
      | A_Node (N_Field v) \<Rightarrow> map_option (\<lambda>i. (i, SemProperty)) (fiName v)
      | _ \<Rightarrow> None)"

definition name_tok :: "Identifier \<Rightarrow> nat" where
  "name_tok nm = nbFirst (idBase nm)"

text \<open>The type that a tree gives the name at a token, and the tokens where a type starts.\<close>

definition name_at :: "Document \<Rightarrow> nat \<Rightarrow> semantic_type \<Rightarrow> bool" where
  "name_at d i ty \<longleftrightarrow> (\<exists>n \<in> set (preorder (A_Document d)). \<exists>nm. declares n = Some (nm, ty) \<and> name_tok nm = i)"

definition type_at :: "Document \<Rightarrow> nat \<Rightarrow> bool" where
  "type_at d i \<longleftrightarrow> (\<exists>v. A_Node (N_FieldType v) \<in> set (preorder (A_Document d)) \<and> i = TokStart (N_FieldType v))"

lemma declares_child: "declares n = Some (nm, ty) \<Longrightarrow> Some (A_Node (N_Identifier nm)) \<in> set (nodeChildren n)"
  by (cases n) (auto simp: declares_def nodeChildren_def ptr_def unless_nil_def split: Node.splits)

lemma sorted_wrt_pair: "sorted_wrt R xs \<Longrightarrow> x \<in> set xs \<Longrightarrow> y \<in> set xs \<Longrightarrow> x \<noteq> y \<Longrightarrow> R x y \<or> R y x"
  by (induction xs) auto

lemma children_apart:
  assumes "any_ok toks n" "Some c \<in> set (nodeChildren n)" "Some d \<in> set (nodeChildren n)" "c \<noteq> d"
  shows "any_end c < any_start d \<or> any_end d < any_start c"
proof (cases n)
  case (A_Document x)
  then obtain a b where ab: "c = A_Node a" "d = A_Node b" "a \<in> set (docNodes x)" "b \<in> set (docNodes x)" "a \<noteq> b"
    using assms(2-) by (auto simp: nodeChildren_def)
  have "sorted_wrt (\<lambda>a b. TokEnd a < TokStart b) (docNodes x)" using assms(1) A_Document by (auto simp: any_ok_def doc_wf_def)
  from sorted_wrt_pair[OF this ab(3-)] show ?thesis by (simp add: ab any_start_def any_end_def)
next
  case (A_Node m)
  then obtain a b where ab: "c = A_Node a" "d = A_Node b" "Some a \<in> set (node_children m)" "Some b \<in> set (node_children m)" "a \<noteq> b"
    using assms(2-) by (auto simp: nodeChildren_def)
  have ok: "node_ok toks False m" using assms(1) A_Node by (simp add: any_ok_def)
  have k: "Some x \<in> set (kids (node_parts m))" if "Some x \<in> set (node_children m)" for x
    using children_parts[OF that] by (force simp: kids_def)
  have "before (Some a) (Some b) \<or> before (Some b) (Some a)"
    using sorted_wrt_pair[OF conjunct1[OF node_ok_kids[OF ok]] k[OF ab(3)] k[OF ab(4)]] ab(5) by simp
  then show ?thesis by (simp add: ab before_def any_start_def any_end_def)
qed

lemma identifier_preorder: "preorder (A_Node (N_Identifier i)) = [A_Node (N_Identifier i)]"
  by (simp add: preorder.simps[of "A_Node (N_Identifier i)"] nodeChildren_def)

lemma name_tok_span: "name_tok nm = any_start (A_Node (N_Identifier nm))"
  by (simp add: name_tok_def any_start_def TokStart_def)

lemma declares_within:
  assumes "any_ok toks n" "m \<in> set (preorder n)" "declares m = Some (nm, ty)"
  shows "any_start n \<le> name_tok nm \<and> name_tok nm \<le> any_end n"
proof -
  have m: "any_ok toks m" "any_start n \<le> any_start m" "any_end m \<le> any_end n" using preorder_nested[OF assms(2,1)] by simp_all
  have "any_ok toks (A_Node (N_Identifier nm))" by (rule any_ok_children(2)[OF m(1) declares_child[OF assms(3)]])
  then have "any_start (A_Node (N_Identifier nm)) \<le> any_end (A_Node (N_Identifier nm))"
    by (auto simp: any_ok_def any_start_def any_end_def elim: node_ok.cases)
  then show ?thesis using child_span[OF m(1) declares_child[OF assms(3)]] m(2,3) unfolding name_tok_span by linarith
qed

text \<open>The name of a node lies in none of its other children.\<close>

lemma declares_outside:
  assumes "any_ok toks n" "declares n = Some (a, s)" "Some c \<in> set (nodeChildren n)" "k \<in> set (preorder c)" "declares k = Some (b, t)"
  shows "name_tok a \<noteq> name_tok b"
proof -
  have c: "any_ok toks c" by (rule any_ok_children(2)[OF assms(1,3)])
  have nm: "any_ok toks (A_Node (N_Identifier a))" by (rule any_ok_children(2)[OF assms(1) declares_child[OF assms(2)]])
  have le: "any_start (A_Node (N_Identifier a)) \<le> any_end (A_Node (N_Identifier a))"
    using nm by (auto simp: any_ok_def any_start_def any_end_def elim: node_ok.cases)
  have "c \<noteq> A_Node (N_Identifier a)" using assms(4,5) identifier_preorder by (auto simp: declares_def)
  from children_apart[OF assms(1) assms(3) declares_child[OF assms(2)] this]
  show ?thesis using declares_within[OF c assms(4,5)] le unfolding name_tok_span by linarith
qed

lemma declares_unique:
  "any_ok toks n \<Longrightarrow> m \<in> set (preorder n) \<Longrightarrow> k \<in> set (preorder n) \<Longrightarrow>
   declares m = Some (a, s) \<Longrightarrow> declares k = Some (b, t) \<Longrightarrow> name_tok a = name_tok b \<Longrightarrow> m = k"
proof (induction n rule: preorder.induct)
  case (1 n)
  have below: "x = n \<or> (\<exists>c. Some c \<in> set (nodeChildren n) \<and> x \<in> set (preorder c))" if "x \<in> set (preorder n)" for x
    using that by (auto simp: preorder.simps[of n] split: option.splits)
  show ?case
  proof (cases "m = n \<or> k = n")
    case True
    then show ?thesis using below[OF 1(3)] below[OF 1(4)] declares_outside[OF 1(2)] 1(5-) by metis
  next
    case False
    then obtain c d where c: "Some c \<in> set (nodeChildren n)" "m \<in> set (preorder c)"
      and d: "Some d \<in> set (nodeChildren n)" "k \<in> set (preorder d)" using below[OF 1(3)] below[OF 1(4)] by blast
    note ok = any_ok_children(2)[OF 1(2) c(1)] any_ok_children(2)[OF 1(2) d(1)]
    have "c = d"
      using children_apart[OF 1(2) c(1) d(1)] declares_within[OF ok(1) c(2) 1(5)] declares_within[OF ok(2) d(2) 1(6)] 1(7) by fastforce
    then show ?thesis using 1(1)[OF c(1) refl ok(1) c(2) _ 1(5-)] d(2) by simp
  qed
qed

section \<open>The facts of a tree\<close>

definition facts_of :: "AnyNode list \<Rightarrow> token_facts \<Rightarrow> bool" where
  "facts_of ns facts \<longleftrightarrow>
     (\<forall>i ty. fst facts i = Some ty \<longrightarrow> (\<exists>n \<in> set ns. \<exists>nm. declares n = Some (nm, ty) \<and> name_tok nm = i)) \<and>
     (\<forall>n \<in> set ns. \<forall>nm ty. declares n = Some (nm, ty) \<longrightarrow> fst facts (name_tok nm) \<noteq> None) \<and>
     snd facts = {TokStart (N_FieldType v) | v. A_Node (N_FieldType v) \<in> set ns}"

lemma note_node_facts:
  assumes "note_node n facts = Some facts'"
  shows "fst facts' = (case declares n of None \<Rightarrow> fst facts | Some (nm, ty) \<Rightarrow> (fst facts)(name_tok nm \<mapsto> ty)) \<and>
     snd facts' = (case n of A_Node (N_FieldType v) \<Rightarrow> insert (TokStart (N_FieldType v)) (snd facts) | _ \<Rightarrow> snd facts)"
proof (cases n)
  case (A_Node m)
  then show ?thesis using assms by (cases m) (auto simp: note_node_def note_name_def declares_def name_tok_def split: option.splits)
qed (use assms in \<open>auto simp: note_node_def declares_def\<close>)

lemma facts_of_snoc: "facts_of ns facts \<Longrightarrow> note_node n facts = Some facts' \<Longrightarrow> facts_of (ns @ [n]) facts'"
  using note_node_facts[of n facts facts']
  by (cases "declares n"; cases n) (fastforce simp: facts_of_def split: Node.splits)+

lemma facts_of_fold:
  "fold (\<lambda>n r. Option.bind r (note_node n)) ns (Some (Map.empty, {})) = Some facts \<Longrightarrow> facts_of ns facts"
proof (induction ns arbitrary: facts rule: rev_induct)
  case (snoc n ns)
  then show ?case by (auto simp: bind_eq_Some_conv intro: facts_of_snoc)
qed (simp add: facts_of_def)

lemma tokenFacts_spec:
  assumes "parsed_ok pf" "tokenFacts (pfAst pf) = Some facts"
  shows "(fst facts i = Some ty \<longleftrightarrow> name_at (pfAst pf) i ty) \<and> (i \<in> snd facts \<longleftrightarrow> type_at (pfAst pf) i)"
proof -
  let ?ns = "preorder (A_Document (pfAst pf))"
  have v: "note_visit = (\<lambda>n r. (True, (\<lambda>n r. Option.bind r (note_node n)) n r))" by (intro ext) (simp add: note_visit_def)
  have "fold (\<lambda>n r. Option.bind r (note_node n)) ?ns (Some (Map.empty, {})) = Some facts"
    using assms(2) Walk_fold[OF in_tree_any[OF assms(1)], of "\<lambda>n r. Option.bind r (note_node n)" "Some (Map.empty, {})"]
    by (simp add: tokenFacts_def v)
  note f = facts_of_fold[OF this]
  have "fst facts i = Some ty" if "name_at (pfAst pf) i ty"
  proof -
    obtain n nm where n: "n \<in> set ?ns" "declares n = Some (nm, ty)" "name_tok nm = i" using \<open>name_at (pfAst pf) i ty\<close> unfolding name_at_def by blast
    then obtain t where t: "fst facts i = Some t" using f unfolding facts_of_def by blast
    then obtain m mm where m: "m \<in> set ?ns" "declares m = Some (mm, t)" "name_tok mm = i" using f unfolding facts_of_def by blast
    have "n = m" by (rule declares_unique[OF in_tree_any[OF assms(1)] n(1) m(1) n(2) m(2)]) (simp add: n(3) m(3))
    then show ?thesis using t n(2) m(2) by simp
  qed
  moreover have "name_at (pfAst pf) i ty" if "fst facts i = Some ty" using that f by (auto simp: facts_of_def name_at_def)
  ultimately show ?thesis using f by (auto simp: facts_of_def type_at_def)
qed

section \<open>Reading the answer\<close>

text \<open>The names of the legend, and what a type is called there.\<close>

fun type_name :: "semantic_type \<Rightarrow> bytes" where
  "type_name SemKeyword = ''keyword''" | "type_name SemString = ''string''" | "type_name SemNumber = ''number''"
| "type_name SemComment = ''comment''" | "type_name SemType = ''type''" | "type_name SemStruct = ''struct''"
| "type_name SemUnion = ''union''" | "type_name SemException = ''exception''" | "type_name SemEnum = ''enum''"
| "type_name SemInterface = ''interface''" | "type_name SemProperty = ''property''" | "type_name SemFunction = ''function''"
| "type_name SemEnumMember = ''enumMember''" | "type_name SemVariable = ''variable''"

text \<open>
  A client reads five numbers at a time: the line, relative to the last one, the character,
  relative to the last one if it is on the same line, the length, the index of the type in the
  legend, and the modifiers, of which there are none.
\<close>

fun decode_tokens :: "32 word \<Rightarrow> 32 word \<Rightarrow> 32 word list \<Rightarrow> (tokenSegment \<times> bytes) list option" where
  "decode_tokens line char [] = Some []"
| "decode_tokens line char (dl # dc # dn # dt # dm # ds) =
     (let l = line + dl; c = (if dl = 0 then char + dc else dc) in
      if dm \<noteq> 0 \<or> unat dt \<ge> length Legend then None
      else map_option (\<lambda>ts. (\<lparr>sgLine = l, sgChar = c, sgLength = dn\<rparr>, Legend ! unat dt) # ts) (decode_tokens l c ds))"
| "decode_tokens line char ds = None"

lemma legend_code: "unat (sem_code ty) < length Legend \<and> Legend ! unat (sem_code ty) = type_name ty"
  by (cases ty) (simp_all add: Legend_def)

lemma decode_encode: "decode_tokens line char (encode_segments line char segs) = Some (map (\<lambda>(seg, ty). (seg, type_name ty)) segs)"
proof (induction line char segs rule: encode_segments.induct)
  case (2 line char seg ty segs)
  then show ?case using legend_code[of ty] by (cases "sgLine seg = line") (auto simp: Let_def)
qed simp

definition is_name :: "Document \<Rightarrow> nat \<Rightarrow> bool" where
  "is_name d i \<longleftrightarrow> (\<exists>ty. name_at d i ty)"

text \<open>What a token is shown as, if at all: the first that applies.\<close>

definition shown_as :: "Document \<Rightarrow> nat \<Rightarrow> semantic_type option \<Rightarrow> bool" where
  "shown_as d i cls \<longleftrightarrow>
     (let k = tkKind (docTokens d ! i) in
      if IsComment k then cls = Some SemComment
      else if is_name d i then \<exists>ty. name_at d i ty \<and> cls = Some ty
      else if type_at d i then cls = Some SemType
      else if k = TokenStringLiteral then cls = Some SemString
      else if k = TokenIntConstant \<or> k = TokenDoubleConstant then cls = Some SemNumber
      else if IsTypeKeyword k then cls = Some SemType
      else if IsKeyword k then cls = Some SemKeyword
      else cls = None)"

lemma classify_shown:
  assumes "parsed_ok pf" "tokenFacts (pfAst pf) = Some facts"
  shows "shown_as (pfAst pf) i (classifyToken facts i (docTokens (pfAst pf) ! i))"
proof -
  note f = tokenFacts_spec[OF assms, of i]
  show ?thesis
  proof (cases "fst facts i")
    case None
    then have "\<not> is_name (pfAst pf) i" using tokenFacts_spec[OF assms, of i] by (auto simp: is_name_def)
    then show ?thesis using f None by (simp add: classifyToken_def shown_as_def Let_def)
  next
    case (Some ty)
    then have "name_at (pfAst pf) i ty" "is_name (pfAst pf) i" using tokenFacts_spec[OF assms, of i ty] by (auto simp: is_name_def)
    then show ?thesis using Some by (auto simp: classifyToken_def shown_as_def Let_def)
  qed
qed

section \<open>Semantic tokens\<close>

lemma SemanticTokens_data:
  assumes "view_good env v" "serve (SemanticTokens env u) v = Some (Inr data, v')"
  shows "\<exists>pf facts. read_file env u = Some pf \<and> parsed_ok pf \<and> tokenFacts (pfAst pf) = Some facts \<and>
     data = encode_segments 0 0 (typed_segments pf facts)"
proof -
  obtain r w where p: "env_parse env u v = (r, w)" by fastforce
  note g = env_parse_good[OF assms(1) p]
  have "isView (NewIndex v) = v" by (simp add: NewIndex_def)
  then obtain pf where pf: "r = Some pf" "semantic_data pf = Some data"
    using assms(2) p
    by (auto simp: serve_def SemanticTokens_def and_then_def parsing_def parse_try_def lifted_def answer_def refuse_def split: option.splits)
  then show ?thesis using g(1) read_parsed_ok[of env u pf] by (auto simp: semantic_data_def)
qed

definition shown_segments :: "ParsedFile \<Rightarrow> semantic_type option list \<Rightarrow> (tokenSegment \<times> bytes) list" where
  "shown_segments pf classes =
     concat (map (\<lambda>(tok, cls). case cls of None \<Rightarrow> []
       | Some ty \<Rightarrow> map (\<lambda>seg. (seg, type_name ty)) (tokenSegments (file_mapper pf) tok)) (zip (docTokens (pfAst pf)) classes))"

lemma typed_shown:
  "map (\<lambda>(seg, ty). (seg, type_name ty)) (typed_segments pf facts) =
   shown_segments pf (map (\<lambda>i. classifyToken facts i (docTokens (pfAst pf) ! i)) [0..<length (docTokens (pfAst pf))])"
proof -
  let ?toks = "docTokens (pfAst pf)"
  have "zip ?toks (map (\<lambda>i. classifyToken facts i (?toks ! i)) [0..<length ?toks]) =
      map (\<lambda>i. (?toks ! i, classifyToken facts i (?toks ! i))) [0..<length ?toks]"
    by (rule nth_equalityI) simp_all
  then show ?thesis
    by (simp add: shown_segments_def typed_segments_def Let_def map_concat comp_def)
      (rule arg_cong[of _ _ concat], rule map_cong, auto split: option.split)
qed

text \<open>
  C23: the semantic tokens of a file, read as the protocol reads them, are the segments of its
  tokens in their order, each with the name of its type in the legend, and the tokens without a
  type left out. Every name of a declaration has the type of the one declaration it belongs to,
  whatever its token; of the other tokens, those that start a type are types, and comments,
  literals and keywords are what they are.
\<close>

theorem SemanticTokens_decode:
  assumes "view_good env v" "serve (SemanticTokens env u) v = Some (Inr data, v')"
  shows "\<exists>pf classes. read_file env u = Some pf \<and>
     decode_tokens 0 0 data = Some (shown_segments pf classes) \<and>
     length classes = length (docTokens (pfAst pf)) \<and>
     (\<forall>i < length classes. shown_as (pfAst pf) i (classes ! i)) \<and>
     (\<forall>i s t. name_at (pfAst pf) i s \<and> name_at (pfAst pf) i t \<longrightarrow> s = t)"
proof -
  obtain pf facts where f: "read_file env u = Some pf" "parsed_ok pf" "tokenFacts (pfAst pf) = Some facts"
    "data = encode_segments 0 0 (typed_segments pf facts)" using SemanticTokens_data[OF assms] by blast
  let ?cs = "map (\<lambda>i. classifyToken facts i (docTokens (pfAst pf) ! i)) [0..<length (docTokens (pfAst pf))]"
  have "decode_tokens 0 0 data = Some (shown_segments pf ?cs)" by (simp add: f(4) decode_encode typed_shown)
  moreover have "\<forall>i < length ?cs. shown_as (pfAst pf) i (?cs ! i)" using classify_shown[OF f(2,3)] by simp
  moreover have "\<forall>i s t. name_at (pfAst pf) i s \<and> name_at (pfAst pf) i t \<longrightarrow> s = t"
    using tokenFacts_spec[OF f(2,3)] by (metis option.inject)
  ultimately show ?thesis using f(1) by (intro exI[of _ pf] exI[of _ ?cs]) simp
qed

lemma SemanticTokens_gives:
  assumes "view_good env v" "read_file env u = Some pf" "tokenFacts (pfAst pf) = Some facts"
  shows "\<exists>v'. serve (SemanticTokens env u) v = Some (Inr (encode_segments 0 0 (typed_segments pf facts)), v')"
proof -
  obtain w where p: "env_parse env u v = (Some pf, w)" using env_parse_good(1)[OF assms(1)] assms(2) by (metis prod.collapse)
  then show ?thesis using assms(3)
    by (simp add: serve_def SemanticTokens_def and_then_def parsing_def parse_try_def lifted_def answer_def NewIndex_def semantic_data_def)
qed

lemma demo_names:
  "map_option (\<lambda>pf. (map (\<lambda>t. IsComment (tkKind t)) (docTokens (pfAst pf)),
       map_option (\<lambda>facts. map (fst facts) [0..<4]) (tokenFacts (pfAst pf)))) (read_file demo_env ''/b.thrift'') =
     Some ([False, False, False, False, False], Some [None, Some SemStruct, None, None])"
  by code_simp

lemma SemanticTokens_decode_witness:
  "\<exists>data v' pf classes. serve (SemanticTokens demo_env ''/b.thrift'') NewView = Some (Inr data, v') \<and>
     read_file demo_env ''/b.thrift'' = Some pf \<and> decode_tokens 0 0 data = Some (shown_segments pf classes) \<and>
     classes ! 1 = Some SemStruct"
proof -
  obtain pf facts where pf: "read_file demo_env ''/b.thrift'' = Some pf" "tokenFacts (pfAst pf) = Some facts" "fst facts 1 = Some SemStruct"
    "map (\<lambda>t. IsComment (tkKind t)) (docTokens (pfAst pf)) = [False, False, False, False, False]"
    using demo_names by (auto simp: upt_rec)
  have len: "length (docTokens (pfAst pf)) = 5" using arg_cong[OF pf(4), of length] by simp
  have nc: "\<not> IsComment (tkKind (docTokens (pfAst pf) ! 1))" using arg_cong[OF pf(4), of "\<lambda>xs. xs ! 1"] len by simp
  have n: "name_at (pfAst pf) 1 SemStruct" using tokenFacts_spec[OF read_parsed_ok[OF pf(1)] pf(2)] pf(3) by blast
  then have "is_name (pfAst pf) 1" by (auto simp: is_name_def)
  obtain data v' where s: "serve (SemanticTokens demo_env ''/b.thrift'') NewView = Some (Inr data, v')"
    using SemanticTokens_gives[OF view_good_new pf(1,2)] by blast
  from SemanticTokens_decode[OF view_good_new s] pf(1) obtain classes where c:
    "decode_tokens 0 0 data = Some (shown_segments pf classes)" "length classes = length (docTokens (pfAst pf))"
    "\<forall>i < length classes. shown_as (pfAst pf) i (classes ! i)"
    "\<forall>i s t. name_at (pfAst pf) i s \<and> name_at (pfAst pf) i t \<longrightarrow> s = t" by auto
  have "shown_as (pfAst pf) 1 (classes ! 1)" using c(2,3) len by simp
  then have "classes ! 1 = Some SemStruct" using nc n \<open>is_name (pfAst pf) 1\<close> c(4) by (auto simp: shown_as_def Let_def)
  then show ?thesis using s pf(1) c(1) by blast
qed

section \<open>Filtering candidates\<close>

text \<open>A text that completes the prefix and is not the prefix itself.\<close>

definition completes :: "bytes \<Rightarrow> bytes \<Rightarrow> bool" where
  "completes pre s \<longleftrightarrow> (\<exists>t. s = pre @ t \<and> (pre = [] \<or> t \<noteq> []))"

lemma completes_iff: "completes pre s \<longleftrightarrow> HasPrefix s pre \<and> \<not> (pre \<noteq> [] \<and> s = pre)"
proof
  assume "HasPrefix s pre \<and> \<not> (pre \<noteq> [] \<and> s = pre)"
  then have "s = pre @ drop (length pre) s" "pre \<noteq> [] \<longrightarrow> s \<noteq> pre" using append_take_drop_id[of "length pre" s] by (auto simp: HasPrefix_def)
  then show "completes pre s" unfolding completes_def by (metis append_Nil2)
qed (auto simp: completes_def HasPrefix_def)

definition texts_for :: "bytes \<Rightarrow> Candidate list \<Rightarrow> bytes set" where
  "texts_for pre cs = {caShow c | c. c \<in> set cs \<and> completes pre (caShow c)}"

lemma texts_for_simps [simp]:
  "texts_for pre [] = {}"
  "texts_for pre (c # cs) = (if completes pre (caShow c) then insert (caShow c) (texts_for pre cs) else texts_for pre cs)"
  by (auto simp: texts_for_def)

lemma filter_loop_step:
  "filter_loop pre (c # cs) earlier =
     (if completes pre (caShow c) \<and> caShow c \<notin> set earlier then c # filter_loop pre cs (caShow c # earlier) else filter_loop pre cs earlier)"
  by (simp add: completes_iff)

lemma filter_loop_texts:
  "distinct (map caShow (filter_loop pre cs earlier)) \<and>
   set (map caShow (filter_loop pre cs earlier)) = texts_for pre cs - set earlier \<and>
   set (filter_loop pre cs earlier) \<subseteq> set cs"
proof (induction cs arbitrary: earlier)
  case (Cons c cs)
  show ?case using Cons.IH[of earlier] Cons.IH[of "caShow c # earlier"]
    by (cases "completes pre (caShow c)"; cases "caShow c \<in> set earlier") (simp_all only: filter_loop_step texts_for_simps if_True if_False simp_thms, auto)
qed simp

section \<open>The completion list\<close>

lemma caShow_insert_last [simp]: "caShow (insert_last c) = caShow c"
  by (simp add: insert_last_def split: option.split prod.split)

definition sooner :: "bytes \<Rightarrow> nat \<times> bytes" where
  "sooner s = (length s, s)"

text \<open>
  C24: the completion list is exact. Its texts are the first ten, in the order of their length
  and then of their bytes, of the distinct texts among the candidates that start with the prefix
  and are not the prefix itself; it is marked as incomplete just when there are more than ten of
  them. Each of its entries is a candidate, which behind a dot inserts its last segment only.
\<close>

theorem completion_list_exact:
  "\<exists>texts. sorted (map sooner texts) \<and> distinct texts \<and>
     set texts = {caShow c | c. c \<in> set cs \<and> completes pre (caShow c)} \<and>
     map caShow (fst (completion_list qualified pre cs)) = take 10 texts \<and>
     (snd (completion_list qualified pre cs) \<longleftrightarrow> 10 < length texts) \<and>
     set (fst (completion_list qualified pre cs)) \<subseteq> (if qualified then insert_last else id) ` set cs"
proof -
  let ?fs = "filter_loop pre cs []"
  let ?gs = "map (if qualified then insert_last else id) ?fs"
  let ?ss = "sort_key (\<lambda>c. (length (caShow c), caShow c)) ?gs"
  have l: "completion_list qualified pre cs = (take 10 ?ss, length ?ss > 10)"
    by (simp add: completion_list_def maxCandidates_def Let_def)
  have t: "map caShow ?gs = map caShow ?fs" by (simp add: comp_def)
  have m: "mset (map caShow ?ss) = mset (map caShow ?gs)" by (simp only: mset_map mset_sort)
  have "sorted (map sooner (map caShow ?ss))"
    using sorted_sort_key[of "\<lambda>c. (length (caShow c), caShow c)" ?gs] by (simp add: sooner_def comp_def)
  moreover have "distinct (map caShow ?ss)" "set (map caShow ?ss) = set (map caShow ?fs)"
    using mset_eq_imp_distinct_iff[OF m] mset_eq_setD[OF m] filter_loop_texts[of pre cs "[]"] unfolding t by blast+
  moreover have "map caShow (fst (completion_list qualified pre cs)) = take 10 (map caShow ?ss)" by (simp add: l take_map)
  moreover have "set (fst (completion_list qualified pre cs)) \<subseteq> (if qualified then insert_last else id) ` set cs"
  proof -
    have "set (fst (completion_list qualified pre cs)) \<subseteq> set ?gs" using set_take_subset[of 10 ?ss] by (simp add: l)
    moreover have "set ?gs \<subseteq> (if qualified then insert_last else id) ` set cs"
      using filter_loop_texts[of pre cs "[]"] unfolding set_map by (intro image_mono) blast
    ultimately show ?thesis by (rule order_trans)
  qed
  ultimately show ?thesis
    using filter_loop_texts[of pre cs "[]"] by (intro exI[of _ "map caShow ?ss"]) (simp add: l texts_for_def)
qed

end
