(* ===== verification/Spec2Isabelle.thy ===== *)
theory Spec2Isabelle imports NumberProps VisitProps LayoutProps MapperProps FixProps ViewProps FileIndexProps FormatProps ConfigProps ResolverProps SessionProps SemaIndexProps FixAll Check TypeCheckProps Totality AnalyzersTotal CheckProps NamesProps RelProps LspReferences Formatting SemanticTokens Completion HandlersTotal EditProps EditorProps
begin

text \<open>
  thrift-ls is a language server, formatter and linter for Thrift files, written in Go. This
  library models its implementation, except for its input and output, and proves what makes
  each part correct. A source text is a list of bytes. The parts call each other as follows.

  \<^item> \<open>syntax/\<close> turns a text into tokens and a tree, with errors recovered from.
  \<^item> \<open>doc/\<close> prints documents of a small layout algebra, and \<open>formatter/\<close> turns a tree
    into such a document, into text, or into a diff.
  \<^item> \<open>mapper/\<close> translates byte offsets to the positions of the protocol.
  \<^item> \<open>resolver/\<close> finds the files that includes name, and \<open>store/\<close> caches parses of the files
    of a folder (a view) and of several folders (a session), with the graph of their includes.
  \<^item> \<open>sema/\<close> resolves names across files, searches references, runs analyzers, and applies
    their fixes; \<open>analyzers/\<close> holds the built-in analyzers, \<open>check/\<close> runs them in batch.
  \<^item> \<open>lsp/source/\<close> answers the requests of an editor with all of these.

  \<^bold>\<open>Conventions.\<close> A panic of Go (an index out of range, a nil dereference, a failed type
  assertion) is \<open>None\<close>; so is a recursion without fuel, where there is fuel. Errors are the left
  injections of a sum. A nil pointer is an inner \<open>None\<close>. Pointers into the token stream are
  indices; a shared group of the layout is an address in a store. Machine integers that may wrap
  are words or have the wrap written out: the numbers of the protocol are 32-bit words, enum
  values and ids are 64-bit. Rendered messages are kept as a format and its arguments.
  State is passed explicitly: the lexer, the parser, the printer, the view with its generation,
  the session, the index with its memo table, and the disk as a finite map.

  \<^bold>\<open>Theories.\<close>

  \<^item> \<open>Prelude\<close>, \<open>Slices\<close>, \<open>Utf8\<close>, \<open>Strconv\<close>, \<open>Paths\<close>, \<open>Splice\<close>: what the code uses of the
    standard library of Go, and the splicing of texts.
  \<^item> \<open>Token\<close>, \<open>Lexer\<close> (\<open>syntax/lexer.go\<close>); \<open>SourcePos\<close> is a reference definition of lines and
    columns. \<open>LexerProps\<close>, \<open>NumberProps\<close>: tokens are slices of the source, with nothing but white
    space between them when there is no error, at the reference positions.
  \<^item> \<open>Ast\<close> (\<open>syntax/ast.go\<close>), \<open>Parser\<close> (\<open>syntax/parser.go\<close>). \<open>TreeOk\<close> says what a well-formed
    tree is; \<open>ParserWf\<close>, \<open>ParserSpec\<close>, \<open>ParserDefs\<close> hold a rule for every method, the loops over
    entries once in the locale \<open>entry_loop\<close>; \<open>ParserProps\<close>: \<open>Parse\<close> is total, its trees are well
    formed, its errors are sorted, and without errors the tree covers the text.
  \<^item> \<open>AstVisit\<close> (\<open>syntax/ast_visit.go\<close>, \<open>accessors.go\<close>, \<open>position.go\<close>), \<open>VisitProps\<close>.
  \<^item> \<open>Doc\<close>, \<open>DocPrint\<close> (\<open>doc/doc.go\<close>, \<open>print.go\<close>, \<open>width.go\<close>); \<open>DocProps\<close>, \<open>PrintProps\<close>,
    \<open>LayoutProps\<close>: printing ends, keeps the text of the document up to white space, leaves no
    trailing blanks, knows the column it is in, and keeps a group flat exactly when the rest of its
    line has room, wherever the group stands. The locale \<open>reordering\<close> has the instance in order
    and the instance with line suffixes.
  \<^item> \<open>FormatConfig\<close>, \<open>FormatTokens\<close>, \<open>FormatParts\<close>, \<open>Format\<close> (\<open>formatter/\<close>), \<open>Diff\<close>
    (\<open>formatter/diff.go\<close>), \<open>Config\<close> (\<open>options/options.go\<close>); \<open>FormatRuns\<close>, \<open>FormatProps\<close>,
    \<open>DiffProps\<close>, \<open>ConfigProps\<close>: formatting a parsed document never fails, the text that is written
    parses, a diff patches the old text to the new one along a longest common subsequence of
    anchors, and options are layered.
  \<^item> \<open>Mapper\<close> (\<open>mapper/\<close>), \<open>FixApply\<close> (\<open>sema/edit.go\<close>); \<open>MapperProps\<close>, \<open>FixProps\<close>: positions
    survive the way to the protocol and back and are clamped to the nearest place of their line, fixes are spliced whole or skipped.
  \<^item> \<open>Resolver\<close> (\<open>resolver/resolver.go\<close>, \<open>store/snapshot.go\<close>), \<open>FileSource\<close> (\<open>store/fs_mem.go\<close>,
    \<open>fs_overlay.go\<close>), \<open>View\<close> (\<open>store/view.go\<close>), \<open>FileIndex\<close> (\<open>store/index.go\<close>), \<open>Session\<close>
    (\<open>store/session.go\<close>). \<open>ViewProps\<close> and \<open>SessionProps\<close> are about all runs: the operations are
    an inductive step relation, and the invariants hold of every reachable state. \<open>ResolverProps\<close>,
    \<open>FileIndexProps\<close>: the nearest file is found, the index of a file is what its tree says.
  \<^item> \<open>Sema\<close>, \<open>SemaIndex\<close>, \<open>SemaRefs\<close> (\<open>sema/index.go\<close> and the vocabulary), \<open>Pipeline\<close>
    (\<open>sema/pipeline.go\<close>), \<open>FixAll\<close> (\<open>sema/fixapply.go\<close>). \<open>SemaIndexProps\<close>: the caches are
    transparent, by the locale \<open>resolution\<close> with an instance for types, values and services.
  \<^item> \<open>Duplicates\<close>, \<open>TypeCheck\<close>, \<open>IncludeChecks\<close>, \<open>Actions\<close> (\<open>analyzers/\<close>), \<open>Check\<close>
    (\<open>check/check.go\<close>). \<open>TypeCheckProps\<close> gives the type check an inductive typing, with the one
    class of literals that fit and are reported; \<open>Totality\<close> and
    \<open>AnalyzersTotal\<close> show that no analyzer panics, by the locales \<open>total_analyzer\<close> and
    \<open>total_file_analyzer\<close> with an instance for each built-in one; \<open>CheckProps\<close>, with the locale
    \<open>total_pipeline\<close>, is about the batch run and the batch fixer, \<open>NamesProps\<close> about field ids,
    \<open>RelProps\<close> about the include that a fix inserts, read back by the parser.
  \<^item> \<open>Requests\<close>, \<open>Navigation\<close>, \<open>LspReferences\<close>, \<open>BlockDiff\<close>, \<open>Formatting\<close>, \<open>SemanticTokens\<close>,
    \<open>CompletionContext\<close>, \<open>Completion\<close> (\<open>lsp/source/\<close>): a handler is a function of an index over
    its view that may panic, fail or answer. \<open>RequestsProps\<close>, \<open>EditorTotal\<close> and
    \<open>HandlersTotal\<close>: no handler panics, by rules for handlers composed of others.
    \<open>ReferenceProps\<close>: the search for references is exact. \<open>EditProps\<close>: what a client has after it
    applies the edits of formatting. \<open>EditorProps\<close>: what the numbers of semantic tokens say, and
    what the completion list holds.

  \<^bold>\<open>Bounds and fuel.\<close> The parser recurses on types and values with fuel, the length of the token
  stream and one; each recursion consumes a token, and \<open>Parse_total\<close> shows that the fuel is
  enough. Typedef chains are followed 32 steps and map keys 8 steps, as in the code. The batch
  fixer makes 10 passes, as in the code. Walks over the include graph (dependents, included
  files, definition files, cycles) have an explicit stack and end because the files of a view or
  of a tree are finitely many. The completion list has 10 items, as in the code.

  \<^bold>\<open>Parameters.\<close> The order in which Go iterates over a map, \<open>sort.Slice\<close>, which is not stable,
  \<open>strconv.Quote\<close>, \<open>strings.ToLower\<close>, the width of a string on a terminal, reading a directory,
  reading and writing files, and the URIs of the LSP library are arguments of the definitions
  that use them; what is relied on of them is a named hypothesis. Where \<open>sort.Slice\<close> is modelled
  by a stable sort the theory says so.

  \<^bold>\<open>Not modelled.\<close> \<open>lsp/*.go\<close>, the server around the requests: it routes the messages of the LSP
  library, holds locks, starts goroutines and sends notifications. \<open>main.go\<close>: flags and standard
  streams. \<open>store/fs_disk.go\<close> and finding and decoding configuration files: system calls and
  JSON. \<open>doc/dump.go\<close>, \<open>syntax/dump.go\<close>: debug output. \<open>analyzertest/\<close>, \<open>resolvertest/\<close>,
  \<open>lsptest/\<close> and \<open>tests/\<close>: tests. \<open>vscode/\<close> and \<open>jetbrains/\<close>: clients in other languages. Of
  what is modelled, cancellation by contexts, logging, and the text of messages are left out, and
  concurrent operations are taken to be atomic, as the locks of the store make them.
\<close>

end
